(* ===== verification/Rust_Prelude.thy ===== *)
theory Rust_Prelude
  imports Main "HOL-Library.Word" "HOL-Library.Char_ord" "HOL-Library.List_Lexorder"
begin

text \<open>
  Shared ground of the development: Rust's \<open>Result\<close> with panics made explicit, the checked
  operations of \<open>u64\<close> and \<open>usize\<close>, and the generic contract of a component whose calls
  either succeed and keep an invariant or fail and leave the state alone.

  \<^item> \<open>u64\<close> values are 64-bit words; facts about them are stated through \<open>unat\<close>.
  \<^item> \<open>usize\<close> values are natural numbers and every checked operation writes out the bound
    \<open>2 ^ 64\<close> of the 64-bit target.
  \<^item> A Rust \<open>Result\<close> is \<open>Ok\<close> or \<open>Err\<close>; an out-of-range index or an unchecked subtraction
    that underflows is the third value \<open>Panic\<close>.
\<close>

named_theorems rust_defs \<open>checked arithmetic and result combinators, unfolded\<close>

subsection \<open>Results\<close>

datatype ('a, 'e) result = Ok 'a | Err 'e | Panic

fun and_then :: "('a, 'e) result \<Rightarrow> ('a \<Rightarrow> ('b, 'e) result) \<Rightarrow> ('b, 'e) result" where
  "and_then (Ok x) f = f x"
| "and_then (Err e) f = Err e"
| "and_then Panic f = Panic"

fun map_err :: "('e \<Rightarrow> 'd) \<Rightarrow> ('a, 'e) result \<Rightarrow> ('a, 'd) result" where
  "map_err f (Ok x) = Ok x"
| "map_err f (Err e) = Err (f e)"
| "map_err f Panic = Panic"

fun ok_or :: "'e \<Rightarrow> 'a option \<Rightarrow> ('a, 'e) result" where
  "ok_or e (Some x) = Ok x"
| "ok_or e None = Err e"

definition require :: "bool \<Rightarrow> 'e \<Rightarrow> (unit, 'e) result" where
  "require b e = (if b then Ok () else Err e)"

fun is_ok :: "('a, 'e) result \<Rightarrow> bool" where
  "is_ok (Ok x) = True"
| "is_ok (Err e) = False"
| "is_ok Panic = False"

lemma and_then_Ok_iff [simp]: "and_then r f = Ok y \<longleftrightarrow> (\<exists>x. r = Ok x \<and> f x = Ok y)"
  by (cases r) auto

lemma and_then_Err_iff:
  "and_then r f = Err e \<longleftrightarrow> r = Err e \<or> (\<exists>x. r = Ok x \<and> f x = Err e)"
  by (cases r) auto

lemma and_then_Panic_iff:
  "and_then r f = Panic \<longleftrightarrow> r = Panic \<or> (\<exists>x. r = Ok x \<and> f x = Panic)"
  by (cases r) auto

lemma map_err_Ok_iff [simp]: "map_err f r = Ok x \<longleftrightarrow> r = Ok x"
  by (cases r) auto

lemma map_err_Err_iff [simp]: "map_err f r = Err e \<longleftrightarrow> (\<exists>d. r = Err d \<and> e = f d)"
  by (cases r) auto

lemma map_err_Panic_iff [simp]: "map_err f r = Panic \<longleftrightarrow> r = Panic"
  by (cases r) auto

lemma map_result_iffs [simp]:
  "map_result f g r = Ok y \<longleftrightarrow> (\<exists>x. r = Ok x \<and> y = f x)"
  "map_result f g r = Err e \<longleftrightarrow> (\<exists>d. r = Err d \<and> e = g d)"
  "map_result f g r = Panic \<longleftrightarrow> r = Panic"
  by (cases r; auto)+

lemma ok_or_Ok_iff [simp]: "ok_or e r = Ok x \<longleftrightarrow> r = Some x"
  by (cases r) auto

lemma ok_or_Err_iff [simp]: "ok_or e r = Err d \<longleftrightarrow> r = None \<and> d = e"
  by (cases r) auto

lemma ok_or_not_Panic [simp]: "ok_or e r \<noteq> Panic"
  by (cases r) auto

lemma require_Ok_iff [simp]: "require b e = Ok u \<longleftrightarrow> b"
  by (simp add: require_def)

lemma require_Err_iff [simp]: "require b e = Err d \<longleftrightarrow> \<not> b \<and> d = e"
  by (auto simp: require_def)

lemma require_not_Panic [simp]: "require b e \<noteq> Panic"
  by (simp add: require_def)

lemma is_ok_iff: "is_ok r \<longleftrightarrow> (\<exists>x. r = Ok x)"
  by (cases r) auto

lemmas result_iffs = and_then_Err_iff and_then_Panic_iff

subsection \<open>Methods that take the receiver by mutable reference\<close>

text \<open>
  Such a method is a function from the receiver to a result and the next receiver. \<open>attempt\<close> is
  the \<open>?\<close> operator on a check that does not touch the receiver, \<open>proceed\<close> on a call that may.
\<close>

fun attempt ::
  "('a, 'e) result \<Rightarrow> 's \<Rightarrow> ('a \<Rightarrow> ('b, 'e) result \<times> 's) \<Rightarrow> ('b, 'e) result \<times> 's" where
  "attempt (Ok x) s f = f x"
| "attempt (Err e) s f = (Err e, s)"
| "attempt Panic s f = (Panic, s)"

fun proceed ::
  "('a, 'e) result \<times> 's \<Rightarrow> ('a \<Rightarrow> 's \<Rightarrow> ('b, 'e) result \<times> 's) \<Rightarrow> ('b, 'e) result \<times> 's" where
  "proceed (Ok x, s) f = f x s"
| "proceed (Err e, s) f = (Err e, s)"
| "proceed (Panic, s) f = (Panic, s)"

lemma attempt_Ok_iff [simp]:
  "attempt r s f = (Ok y, s') \<longleftrightarrow> (\<exists>x. r = Ok x \<and> f x = (Ok y, s'))"
  by (cases r) auto

lemma attempt_Err_iff [simp]:
  "attempt r s f = (Err e, s') \<longleftrightarrow> (r = Err e \<and> s' = s) \<or> (\<exists>x. r = Ok x \<and> f x = (Err e, s'))"
  by (cases r) auto

lemma attempt_Panic_iff [simp]:
  "attempt r s f = (Panic, s') \<longleftrightarrow> (r = Panic \<and> s' = s) \<or> (\<exists>x. r = Ok x \<and> f x = (Panic, s'))"
  by (cases r) auto

lemma proceed_Ok_iff [simp]:
  "proceed p f = (Ok y, s') \<longleftrightarrow> (\<exists>x t. p = (Ok x, t) \<and> f x t = (Ok y, s'))"
  by (cases p; cases "fst p") auto

lemma proceed_Err_iff [simp]:
  "proceed p f = (Err e, s') \<longleftrightarrow> p = (Err e, s') \<or> (\<exists>x t. p = (Ok x, t) \<and> f x t = (Err e, s'))"
  by (cases p; cases "fst p") auto

lemma proceed_Panic_iff [simp]:
  "proceed p f = (Panic, s') \<longleftrightarrow> p = (Panic, s') \<or> (\<exists>x t. p = (Ok x, t) \<and> f x t = (Panic, s'))"
  by (cases p; cases "fst p") auto

subsection \<open>Machine integers\<close>

type_synonym u8 = "8 word"
type_synonym u32 = "32 word"
type_synonym u64 = "64 word"
type_synonym usize = nat

definition checked_add :: "u64 \<Rightarrow> u64 \<Rightarrow> u64 option" where
  "checked_add a b = (if unat a + unat b < 2 ^ 64 then Some (a + b) else None)"

definition checked_sub :: "u64 \<Rightarrow> u64 \<Rightarrow> u64 option" where
  "checked_sub a b = (if b \<le> a then Some (a - b) else None)"

definition usize_add :: "usize \<Rightarrow> usize \<Rightarrow> usize option" where
  "usize_add a b = (if a + b < 2 ^ 64 then Some (a + b) else None)"

definition usize_sub :: "usize \<Rightarrow> usize \<Rightarrow> usize option" where
  "usize_sub a b = (if b \<le> a then Some (a - b) else None)"

definition usize_mul :: "usize \<Rightarrow> usize \<Rightarrow> usize option" where
  "usize_mul a b = (if a * b < 2 ^ 64 then Some (a * b) else None)"

definition u64_of_usize :: "usize \<Rightarrow> u64 option" where
  "u64_of_usize n = (if n < 2 ^ 64 then Some (of_nat n) else None)"

lemmas [rust_defs] = checked_add_def checked_sub_def usize_add_def usize_sub_def
  usize_mul_def u64_of_usize_def

lemma unat_u64_bound [simp]: "unat (x :: u64) < 18446744073709551616"
  by (rule order_less_le_trans [OF unsigned_less]) simp

lemma unat_eqD: "unat (a :: u64) = unat b \<Longrightarrow> a = b"
  by (simp add: word_unat_eq_iff)

lemma checked_add_Some_iff:
  "checked_add a b = Some c \<longleftrightarrow> unat c = unat a + unat b"
proof -
  have wrap: "unat (a + b) = unat a + unat b" if "unat a + unat b < 2 ^ 64"
    using that by (simp add: unat_word_ariths)
  show ?thesis
  proof (cases "unat a + unat b < 2 ^ 64")
    case True
    with wrap show ?thesis
      by (auto simp: checked_add_def intro!: unat_eqD)
  next
    case False
    moreover have "unat c < 2 ^ 64" by simp
    ultimately show ?thesis
      unfolding checked_add_def by (metis option.distinct(1))
  qed
qed

lemma checked_add_None_iff: "checked_add a b = None \<longleftrightarrow> 2 ^ 64 \<le> unat a + unat b"
  by (simp add: checked_add_def not_less)

lemma checked_sub_Some_iff:
  "checked_sub a b = Some c \<longleftrightarrow> unat a = unat c + unat b"
proof (cases "b \<le> a")
  case True
  then have "unat (a - b) = unat a - unat b" and "unat b \<le> unat a"
    by (simp_all add: unat_sub word_le_nat_alt)
  then show ?thesis using True
    by (auto simp: checked_sub_def intro!: unat_eqD)
next
  case False
  then show ?thesis
    by (auto simp: checked_sub_def word_le_nat_alt)
qed

lemma checked_sub_None_iff: "checked_sub a b = None \<longleftrightarrow> unat a < unat b"
  by (auto simp: checked_sub_def word_le_nat_alt)

lemma checked_add_mono: "checked_add a b = Some c \<Longrightarrow> a \<le> c"
  by (simp add: checked_add_Some_iff word_le_nat_alt)

lemma checked_succ_less: "checked_add a 1 = Some c \<Longrightarrow> a < c"
  by (simp add: checked_add_Some_iff word_less_nat_alt)

lemma usize_add_Some_iff: "usize_add a b = Some c \<longleftrightarrow> c = a + b \<and> a + b < 2 ^ 64"
  by (auto simp: usize_add_def)

lemma usize_sub_Some_iff: "usize_sub a b = Some c \<longleftrightarrow> a = c + b"
  by (auto simp: usize_sub_def)

lemma usize_mul_Some_iff: "usize_mul a b = Some c \<longleftrightarrow> c = a * b \<and> a * b < 2 ^ 64"
  by (auto simp: usize_mul_def)

lemma u64_of_usize_Some_iff: "u64_of_usize n = Some w \<longleftrightarrow> unat w = n"
proof (cases "n < 2 ^ 64")
  case True
  then have "unat (of_nat n :: u64) = n"
    by (simp add: unat_of_nat)
  with True show ?thesis
    by (auto simp: u64_of_usize_def intro!: unat_eqD)
next
  case False
  moreover have "unat w < 2 ^ 64" by simp
  ultimately show ?thesis
    by (auto simp: u64_of_usize_def)
qed

lemma unat_represents: "n < 2 ^ 64 \<Longrightarrow> \<exists>b :: u64. unat b = n"
  using u64_of_usize_Some_iff [of n] by (auto simp: u64_of_usize_def)

lemma unat_list_represents:
  assumes "\<And>i. i < n \<Longrightarrow> f i < 2 ^ 64"
  shows "\<exists>r :: u64 list. length r = n \<and> (\<forall>i < n. unat (r ! i) = f i)"
  using assms
  by (intro exI [of _ "map (\<lambda>i. of_nat (f i)) [0..<n]"]) (simp add: unat_of_nat)

lemma unat_ex_iff [simp]:
  "(\<exists>b :: u64. unat b = n) \<longleftrightarrow> n < 18446744073709551616"
  "(\<exists>b :: u64. n = unat b) \<longleftrightarrow> n < 18446744073709551616"
  using unat_represents [of n] by (auto simp del: unat_u64_bound intro: unat_u64_bound)

lemmas checked_iffs = checked_add_Some_iff checked_add_None_iff checked_sub_Some_iff
  checked_sub_None_iff usize_add_Some_iff usize_sub_Some_iff usize_mul_Some_iff
  u64_of_usize_Some_iff

subsection \<open>Indexing a vector\<close>

text \<open>\<open>xs[i]\<close> in Rust panics out of range.\<close>

definition index :: "'a list \<Rightarrow> usize \<Rightarrow> ('a, 'e) result" where
  "index xs i = (if i < length xs then Ok (xs ! i) else Panic)"

lemma index_Ok_iff [simp]: "index xs i = Ok x \<longleftrightarrow> i < length xs \<and> x = xs ! i"
  by (auto simp: index_def)

lemma index_in_range: "i < length xs \<Longrightarrow> index xs i = Ok (xs ! i)"
  by simp

lemma index_not_Err [simp]: "index xs i \<noteq> Err e"
  by (simp add: index_def)

lemma index_Panic_iff [simp]: "index xs i = Panic \<longleftrightarrow> length xs \<le> i"
  by (auto simp: index_def)

subsection \<open>Collecting a fallible iterator\<close>

text \<open>
  \<open>iter.map(closure).collect::<Result<Vec<_>, _>>()\<close> with a closure that mutates captured
  state: the state is threaded from item to item and the first error stops the traversal.
\<close>

fun try_collect :: "('s \<Rightarrow> 'r \<Rightarrow> ('a \<times> 's, 'e) result) \<Rightarrow> 's \<Rightarrow> 'r list \<Rightarrow> ('a list, 'e) result"
where
  "try_collect f s [] = Ok []"
| "try_collect f s (r # rs) =
     and_then (f s r) (\<lambda>(a, s'). and_then (try_collect f s' rs) (\<lambda>as. Ok (a # as)))"

text \<open>The same without state, and the loop that threads an accumulator and stops at the first error.\<close>

fun try_map :: "('r \<Rightarrow> ('a, 'e) result) \<Rightarrow> 'r list \<Rightarrow> ('a list, 'e) result" where
  "try_map f [] = Ok []"
| "try_map f (r # rs) = and_then (f r) (\<lambda>a. and_then (try_map f rs) (\<lambda>as. Ok (a # as)))"

fun try_fold :: "('r \<Rightarrow> 's \<Rightarrow> ('s, 'e) result) \<Rightarrow> 'r list \<Rightarrow> 's \<Rightarrow> ('s, 'e) result" where
  "try_fold f [] s = Ok s"
| "try_fold f (r # rs) s = and_then (f r s) (try_fold f rs)"

lemma enumerate_nth: "enumerate 0 xs = map (\<lambda>i. (i, xs ! i)) [0..<length xs]"
  by (rule nth_equalityI) (simp_all add: nth_enumerate_eq)

lemma try_map_Ok_iff: "try_map f rs = Ok as \<longleftrightarrow> list_all2 (\<lambda>r a. f r = Ok a) rs as"
proof (induction rs arbitrary: as)
  case (Cons r rs)
  then show ?case by (cases as) auto
qed auto

lemma try_map_cong: "(\<And>x. x \<in> set xs \<Longrightarrow> f x = g x) \<Longrightarrow> try_map f xs = try_map g xs"
  by (induction xs) auto

lemma try_map_append:
  "try_map f (xs @ ys) = and_then (try_map f xs) (\<lambda>as. and_then (try_map f ys) (\<lambda>bs. Ok (as @ bs)))"
proof (induction xs)
  case (Cons x xs)
  then show ?case by (cases "f x"; cases "try_map f xs"; cases "try_map f ys") auto
next
  case Nil
  show ?case by (cases "try_map f ys") auto
qed

lemma try_map_map: "try_map f (map g xs) = try_map (f \<circ> g) xs"
  by (induction xs) auto

lemma try_fold_cong:
  "(\<And>x s. x \<in> set xs \<Longrightarrow> f x s = g x s) \<Longrightarrow> try_fold f xs s = try_fold g xs s"
proof (induction xs arbitrary: s)
  case (Cons x xs)
  then show ?case by (cases "g x s") auto
qed auto

lemma try_fold_append: "try_fold f (xs @ ys) s = and_then (try_fold f xs s) (try_fold f ys)"
proof (induction xs arbitrary: s)
  case (Cons x xs)
  then show ?case by (cases "f x s") auto
qed auto

lemma try_fold_map: "try_fold f (map g xs) s = try_fold (f \<circ> g) xs s"
proof (induction xs arbitrary: s)
  case (Cons x xs)
  then show ?case by (cases "f (g x) s") auto
qed auto

text \<open>A loop that pushes one value per round collects them.\<close>

lemma try_fold_push:
  "try_fold (\<lambda>x s. and_then (f x) (\<lambda>v. Ok (s @ [v]))) xs s = and_then (try_map f xs) (\<lambda>vs. Ok (s @ vs))"
proof (induction xs arbitrary: s)
  case (Cons x xs)
  then show ?case by (cases "f x"; cases "try_map f xs") auto
qed auto

lemma try_fold_extend:
  "try_fold (\<lambda>x s. and_then (f x) (\<lambda>vs. Ok (s @ vs))) xs s = and_then (try_map f xs) (\<lambda>vss. Ok (s @ concat vss))"
proof (induction xs arbitrary: s)
  case (Cons x xs)
  then show ?case by (cases "f x"; cases "try_map f xs") auto
qed auto

text \<open>
  The contract of the closures that parse one record and refuse a repeated key: which raw
  records are read, and what they are read as, does not depend on the keys seen before.
\<close>

locale unique_parser =
  fixes parse :: "'k set \<Rightarrow> 'r \<Rightarrow> ('a \<times> 'k set, 'e) result"
    and key :: "'a \<Rightarrow> 'k"
    and reads :: "'r \<Rightarrow> 'a \<Rightarrow> bool"
  assumes parse_Ok_iff:
      "parse seen r = Ok (a, seen') \<longleftrightarrow> reads r a \<and> key a \<notin> seen \<and> seen' = insert (key a) seen"
    and parse_no_panic: "parse seen r \<noteq> Panic"
begin

lemma collect_Ok_iff:
  "try_collect parse seen rs = Ok xs \<longleftrightarrow>
     list_all2 reads rs xs \<and> distinct (map key xs) \<and> seen \<inter> key ` set xs = {}"
proof (induction rs arbitrary: seen xs)
  case Nil
  then show ?case by auto
next
  case (Cons r rs)
  show ?case
    by (cases xs) (auto simp: parse_Ok_iff Cons.IH)
qed

lemma collect_no_panic: "try_collect parse seen rs \<noteq> Panic"
proof (induction rs arbitrary: seen)
  case Nil
  then show ?case by simp
next
  case (Cons r rs)
  then show ?case
    using parse_no_panic [of seen r] by (auto simp: and_then_Panic_iff)
qed

end

subsection \<open>Runs of a component\<close>

text \<open>
  A component's operations as one step function: from a state and a call to the call's result
  and the next state. A run threads the state through a list of calls, as a client does that
  goes on after an error.
\<close>

fun run :: "('s \<Rightarrow> 'c \<Rightarrow> ('r, 'e) result \<times> 's) \<Rightarrow> 's \<Rightarrow> 'c list \<Rightarrow> 's" where
  "run step s [] = s"
| "run step s (c # cs) = run step (snd (step s c)) cs"

fun outcomes :: "('s \<Rightarrow> 'c \<Rightarrow> ('r, 'e) result \<times> 's) \<Rightarrow> 's \<Rightarrow> 'c list \<Rightarrow> ('r, 'e) result list"
where
  "outcomes step s [] = []"
| "outcomes step s (c # cs) = fst (step s c) # outcomes step (snd (step s c)) cs"

text \<open>The calls of a run that succeed, in order.\<close>

fun accepted :: "('s \<Rightarrow> 'c \<Rightarrow> ('r, 'e) result \<times> 's) \<Rightarrow> 's \<Rightarrow> 'c list \<Rightarrow> 'c list" where
  "accepted step s [] = []"
| "accepted step s (c # cs) =
     (if is_ok (fst (step s c)) then c # accepted step (snd (step s c)) cs
      else accepted step (snd (step s c)) cs)"

lemma run_append: "run step s (cs @ ds) = run step (run step s cs) ds"
  by (induction cs arbitrary: s) auto

text \<open>
  The contract every stateful component of this repository promises: a successful call keeps
  the invariant, a refused call changes nothing, and no call panics.
\<close>

locale transactional =
  fixes step :: "'s \<Rightarrow> 'c \<Rightarrow> ('r, 'e) result \<times> 's"
    and inv :: "'s \<Rightarrow> bool"
  assumes accepted_inv: "inv s \<Longrightarrow> step s c = (Ok r, s') \<Longrightarrow> inv s'"
    and refused_unchanged: "inv s \<Longrightarrow> step s c = (Err e, s') \<Longrightarrow> s' = s"
    and never_panics: "inv s \<Longrightarrow> fst (step s c) \<noteq> Panic"
begin

lemma step_inv: "inv s \<Longrightarrow> inv (snd (step s c))"
  using accepted_inv [of s c] refused_unchanged [of s c] never_panics [of s c]
  by (cases "step s c"; cases "fst (step s c)") auto

lemma run_inv: "inv s \<Longrightarrow> inv (run step s cs)"
  by (induction cs arbitrary: s) (auto intro: step_inv)

lemma run_no_panic: "inv s \<Longrightarrow> Panic \<notin> set (outcomes step s cs)"
proof (induction cs arbitrary: s)
  case Nil
  then show ?case by simp
next
  case (Cons c cs)
  then show ?case
    using never_panics [of s c] step_inv [of s c] by auto
qed

lemma refused_skip: "inv s \<Longrightarrow> \<not> is_ok (fst (step s c)) \<Longrightarrow> snd (step s c) = s"
  using refused_unchanged [of s c] never_panics [of s c]
  by (cases "step s c"; cases "fst (step s c)") auto

lemma run_accepted: "inv s \<Longrightarrow> run step s (accepted step s cs) = run step s cs"
proof (induction cs arbitrary: s)
  case Nil
  then show ?case by simp
next
  case (Cons c cs)
  then show ?case
    by (cases "is_ok (fst (step s c))") (auto simp: refused_skip step_inv)
qed

end

subsection \<open>Refinement\<close>

text \<open>The replies of a run and the state it ends in.\<close>

fun trace :: "('s \<Rightarrow> 'c \<Rightarrow> 'r \<times> 's) \<Rightarrow> 's \<Rightarrow> 'c list \<Rightarrow> 'r list \<times> 's" where
  "trace step s [] = ([], s)"
| "trace step s (c # cs) =
     (case step s c of (r, s') \<Rightarrow> case trace step s' cs of (rs, t) \<Rightarrow> (r # rs, t))"

lemma trace_Cons:
  "trace step s (c # cs) = (fst (step s c) # fst (trace step (snd (step s c)) cs),
     snd (trace step (snd (step s c)) cs))"
  by (simp split: prod.splits)

declare trace.simps(2) [simp del]

lemma trace_append:
  "trace step s (cs @ ds) =
     (case trace step s cs of (rs, t) \<Rightarrow> case trace step t ds of (qs, u) \<Rightarrow> (rs @ qs, u))"
  by (induction cs arbitrary: s) (auto simp: trace_Cons split: prod.splits)

lemma trace_trans:
  "trace step s cs = (rs, t) \<Longrightarrow> trace step t ds = (qs, u) \<Longrightarrow> trace step s (cs @ ds) = (rs @ qs, u)"
  by (simp add: trace_append)

text \<open>
  The contract between a component and its abstract specification: on states that satisfy the
  invariant every call answers as the specification does and stays related to it. A client that
  only sees replies cannot tell the two apart.
\<close>

locale simulation =
  fixes step :: "'s \<Rightarrow> 'c \<Rightarrow> 'r \<times> 's"
    and inv :: "'s \<Rightarrow> bool"
    and spec :: "'a \<Rightarrow> 'c \<Rightarrow> 'r \<times> 'a"
    and abst :: "'s \<Rightarrow> 'a"
  assumes simulates: "inv s \<Longrightarrow> step s c = (r, s') \<Longrightarrow> spec (abst s) c = (r, abst s')"
    and keeps: "inv s \<Longrightarrow> step s c = (r, s') \<Longrightarrow> inv s'"
begin

lemma trace_simulates: "inv s \<Longrightarrow> trace step s cs = (rs, t) \<Longrightarrow> trace spec (abst s) cs = (rs, abst t) \<and> inv t"
proof (induction cs arbitrary: s rs)
  case (Cons c cs)
  obtain r s' where call: "step s c = (r, s')" by (cases "step s c")
  obtain qs where rest: "trace step s' cs = (qs, t)" and rs: "rs = r # qs"
    using Cons.prems(2) call by (auto simp: trace.simps(2) split: prod.splits)
  show ?case
    using simulates [OF Cons.prems(1) call] Cons.IH [OF keeps [OF Cons.prems(1) call] rest] rs
    by (simp add: trace_Cons)
qed simp

lemma same_replies: "inv s \<Longrightarrow> fst (trace step s cs) = fst (trace spec (abst s) cs)"
  using trace_simulates [of s cs "fst (trace step s cs)" "snd (trace step s cs)"] by simp

end

end
