(* ===== verification/BTree_Map.thy ===== *)
theory BTree_Map
  imports Rust_Prelude "HOL-Library.Multiset"
begin

text \<open>
  Rust's \<open>BTreeMap\<close> as its list of entries in key order. The order matters: the ledger and the
  scheduler iterate over their maps and act on the first match, so iteration is list traversal
  here. The interface the components rely on is the locale \<open>canonical_map\<close> (lookup laws and
  extensionality: two maps with the same lookups are the same map) and its extension
  \<open>weighed_map\<close> (sums over the values, which the byte accounting needs). The last part counts
  across maps: how many entries of one map point at a key of another (\<open>tally\<close>), what an entry of
  the second map says that number should be (\<open>count_at\<close>), and the sums that survive an update in
  place; the scheduler's invariant equates the two for every map it keeps.
\<close>

subsection \<open>The interface\<close>

locale canonical_map =
  fixes get :: "'m \<Rightarrow> 'k \<Rightarrow> 'v option"
    and put :: "'k \<Rightarrow> 'v \<Rightarrow> 'm \<Rightarrow> 'm"
    and del :: "'k \<Rightarrow> 'm \<Rightarrow> 'm"
    and wf :: "'m \<Rightarrow> bool"
  assumes get_put: "wf m \<Longrightarrow> get (put k v m) = (get m)(k \<mapsto> v)"
    and get_del: "wf m \<Longrightarrow> get (del k m) = (get m)(k := None)"
    and wf_put: "wf m \<Longrightarrow> wf (put k v m)"
    and wf_del: "wf m \<Longrightarrow> wf (del k m)"
    and same_lookups: "wf m \<Longrightarrow> wf n \<Longrightarrow> get m = get n \<Longrightarrow> m = n"
begin

lemma put_del_restore: "wf m \<Longrightarrow> get m k = Some v \<Longrightarrow> put k v (del k m) = m"
  by (rule same_lookups) (auto simp: get_put get_del wf_put wf_del)

lemma put_del: "wf m \<Longrightarrow> put k v (del k m) = put k v m"
  by (rule same_lookups) (auto simp: get_put get_del wf_put wf_del)

lemma del_put_fresh: "wf m \<Longrightarrow> get m k = None \<Longrightarrow> del k (put k v m) = m"
  by (rule same_lookups) (auto simp: get_put get_del wf_put wf_del fun_upd_idem)

lemma del_put: "wf m \<Longrightarrow> del k (put k v m) = del k m"
  by (rule same_lookups) (auto simp: get_put get_del wf_put wf_del)

lemma put_put: "wf m \<Longrightarrow> put k v (put k w m) = put k v m"
  by (rule same_lookups) (auto simp: get_put wf_put)

lemma put_idle: "wf m \<Longrightarrow> get m k = Some v \<Longrightarrow> put k v m = m"
  by (rule same_lookups) (auto simp: get_put wf_put)

lemma del_idle: "wf m \<Longrightarrow> get m k = None \<Longrightarrow> del k m = m"
  by (rule same_lookups) (auto simp: get_del wf_del fun_upd_idem)

lemma put_commute: "wf m \<Longrightarrow> k \<noteq> l \<Longrightarrow> put k v (put l w m) = put l w (put k v m)"
  by (rule same_lookups) (auto simp: get_put wf_put)

end

locale weighed_map = canonical_map get put del wf
  for get :: "'m \<Rightarrow> 'k \<Rightarrow> 'v option"
    and put :: "'k \<Rightarrow> 'v \<Rightarrow> 'm \<Rightarrow> 'm"
    and del :: "'k \<Rightarrow> 'm \<Rightarrow> 'm"
    and wf :: "'m \<Rightarrow> bool" +
  fixes weigh :: "('v \<Rightarrow> 'w::comm_monoid_add) \<Rightarrow> 'm \<Rightarrow> 'w"
  assumes weigh_put_fresh: "wf m \<Longrightarrow> get m k = None \<Longrightarrow> weigh f (put k v m) = f v + weigh f m"
begin

lemma weigh_del: "wf m \<Longrightarrow> get m k = Some v \<Longrightarrow> weigh f m = f v + weigh f (del k m)"
  using weigh_put_fresh [of "del k m" k f v] by (simp add: wf_del get_del put_del_restore)

lemma weigh_replace:
  "wf m \<Longrightarrow> get m k = Some v \<Longrightarrow> weigh f (put k w m) + f v = weigh f m + f w"
  using weigh_put_fresh [of "del k m" k f w] weigh_del [of m k v f]
  by (simp add: wf_del get_del put_del ac_simps)

end

subsection \<open>The representation\<close>

type_synonym ('k, 'v) btree = "('k \<times> 'v) list"

definition bt_wf :: "('k::linorder, 'v) btree \<Rightarrow> bool" where
  "bt_wf m \<longleftrightarrow> sorted_wrt (<) (map fst m)"

definition bt_get :: "('k, 'v) btree \<Rightarrow> 'k \<Rightarrow> 'v option" where
  "bt_get m k = map_of m k"

fun bt_insert :: "'k::linorder \<Rightarrow> 'v \<Rightarrow> ('k, 'v) btree \<Rightarrow> ('k, 'v) btree" where
  "bt_insert k v [] = [(k, v)]"
| "bt_insert k v (e # m) =
     (if k < fst e then (k, v) # e # m
      else if fst e < k then e # bt_insert k v m
      else (k, v) # m)"

definition bt_remove :: "'k \<Rightarrow> ('k, 'v) btree \<Rightarrow> ('k, 'v) btree" where
  "bt_remove k m = filter (\<lambda>e. fst e \<noteq> k) m"

text \<open>\<open>values_mut\<close> with an in-place update, and \<open>range(start..)\<close>.\<close>

definition bt_map_values :: "('v \<Rightarrow> 'v) \<Rightarrow> ('k, 'v) btree \<Rightarrow> ('k, 'v) btree" where
  "bt_map_values f m = map (\<lambda>(k, v). (k, f v)) m"

definition bt_from :: "'k::linorder \<Rightarrow> ('k, 'v) btree \<Rightarrow> ('k, 'v) btree" where
  "bt_from start m = filter (\<lambda>e. start \<le> fst e) m"

definition bt_total :: "('v \<Rightarrow> 'w::comm_monoid_add) \<Rightarrow> ('k, 'v) btree \<Rightarrow> 'w" where
  "bt_total f m = (\<Sum>e\<leftarrow>m. f (snd e))"

lemma bt_wf_Nil [simp]: "bt_wf []"
  by (simp add: bt_wf_def)

lemma bt_get_Nil [simp]: "bt_get [] k = None"
  by (simp add: bt_get_def)

lemma bt_total_Nil [simp]: "bt_total f [] = 0"
  by (simp add: bt_total_def)

lemma bt_wf_Cons: "bt_wf (e # m) \<longleftrightarrow> (\<forall>k \<in> fst ` set m. fst e < k) \<and> bt_wf m"
  by (auto simp: bt_wf_def)

lemma bt_get_Cons: "bt_get (e # m) k = (if fst e = k then Some (snd e) else bt_get m k)"
  by (cases e) (simp add: bt_get_def)

lemma bt_wf_distinct: "bt_wf m \<Longrightarrow> distinct (map fst m)"
  by (induction m) (auto simp: bt_wf_Cons)

lemma bt_get_None_iff: "bt_get m k = None \<longleftrightarrow> k \<notin> fst ` set m"
  by (simp add: bt_get_def map_of_eq_None_iff)

lemma bt_get_Some_iff: "bt_wf m \<Longrightarrow> bt_get m k = Some v \<longleftrightarrow> (k, v) \<in> set m"
  by (auto simp: bt_get_def bt_wf_distinct)

lemma bt_get_in: "bt_get m k = Some v \<Longrightarrow> (k, v) \<in> set m"
  by (auto simp: bt_get_def dest: map_of_SomeD)

lemma bt_get_insert [simp]: "bt_get (bt_insert k v m) = (bt_get m)(k \<mapsto> v)"
  by (induction k v m rule: bt_insert.induct)
    (force simp: fun_eq_iff bt_get_Cons not_less intro: antisym)+

lemma fst_set_insert: "fst ` set (bt_insert k v m) = insert k (fst ` set m)"
  by (induction k v m rule: bt_insert.induct) (force simp: not_less intro: antisym)+

lemma bt_wf_insert [simp]: "bt_wf m \<Longrightarrow> bt_wf (bt_insert k v m)"
proof (induction k v m rule: bt_insert.induct)
  case (1 k v)
  then show ?case by (simp add: bt_wf_def)
next
  case (2 k v e m)
  consider "k < fst e" | "fst e < k" | "k = fst e" by fastforce
  then show ?case
    using 2 by cases (fastforce simp: bt_wf_Cons fst_set_insert)+
qed

lemma bt_get_remove [simp]: "bt_get (bt_remove k m) = (bt_get m)(k := None)"
  by (induction m) (auto simp: bt_remove_def bt_get_Cons fun_eq_iff)

lemma bt_wf_remove [simp]: "bt_wf m \<Longrightarrow> bt_wf (bt_remove k m)"
  by (induction m) (auto simp: bt_remove_def bt_wf_Cons)

lemma bt_wf_map_values [simp]: "bt_wf (bt_map_values f m) \<longleftrightarrow> bt_wf m"
  by (simp add: bt_wf_def bt_map_values_def case_prod_unfold comp_def)

lemma bt_get_map_values [simp]: "bt_get (bt_map_values f m) k = map_option f (bt_get m k)"
  by (induction m) (auto simp: bt_map_values_def bt_get_Cons)

lemma bt_length_map_values [simp]: "length (bt_map_values f m) = length m"
  by (simp add: bt_map_values_def)

lemma bt_total_map_values: "bt_total g (bt_map_values f m) = bt_total (\<lambda>v. g (f v)) m"
  by (simp add: bt_total_def bt_map_values_def comp_def case_prod_unfold)

lemma bt_same_lookups: "bt_wf m \<Longrightarrow> bt_wf n \<Longrightarrow> bt_get m = bt_get n \<Longrightarrow> m = n"
proof -
  assume m: "bt_wf m" and n: "bt_wf n" and eq: "bt_get m = bt_get n"
  have set: "set m = set n"
    using bt_get_Some_iff [OF m] bt_get_Some_iff [OF n] eq by auto
  have "map fst m = map fst n"
    using m n set
    by (intro sorted_distinct_set_unique)
      (auto simp: bt_wf_distinct bt_wf_def strict_sorted_imp_sorted)
  moreover have "inj_on fst (set m \<union> set n)"
    using bt_wf_distinct [OF m] set by (simp add: distinct_map)
  ultimately show "m = n"
    by (metis map_inj_on)
qed

lemma bt_total_insert_fresh:
  "bt_get m k = None \<Longrightarrow> bt_total f (bt_insert k v m) = f v + bt_total f m"
  by (induction k v m rule: bt_insert.induct) (auto simp: bt_total_def bt_get_Cons ac_simps split: if_splits)

interpretation bt: weighed_map bt_get bt_insert bt_remove bt_wf bt_total
  by unfold_locales (simp_all add: bt_same_lookups bt_total_insert_fresh)

lemma bt_total_member: "bt_wf m \<Longrightarrow> bt_get m k = Some v \<Longrightarrow> f v \<le> bt_total f m" for f :: "'v \<Rightarrow> nat"
  by (simp add: bt.weigh_del [of m k v f])

lemma bt_length: "length m = bt_total (\<lambda>_. 1) m"
  by (simp add: bt_total_def sum_list_triv)

lemma bt_length_insert_fresh: "bt_get m k = None \<Longrightarrow> length (bt_insert k v m) = Suc (length m)"
  by (simp add: bt_length bt_total_insert_fresh)

lemma bt_length_insert_present:
  "bt_wf m \<Longrightarrow> bt_get m k = Some w \<Longrightarrow> length (bt_insert k v m) = length m"
  using bt.weigh_replace [of m k w "\<lambda>_. 1 :: nat" v] by (simp add: bt_length)

lemma bt_length_remove: "bt_wf m \<Longrightarrow> bt_get m k = Some v \<Longrightarrow> Suc (length (bt_remove k m)) = length m"
  using bt.weigh_del [of m k v "\<lambda>_. 1 :: nat"] by (simp add: bt_length)

lemma bt_total_zero: "(\<And>k v. bt_get m k = Some v \<Longrightarrow> f v = 0) \<Longrightarrow> bt_wf m \<Longrightarrow> bt_total f m = 0"
proof -
  assume "\<And>k v. bt_get m k = Some v \<Longrightarrow> f v = 0" and "bt_wf m"
  then have "map (\<lambda>e. f (snd e)) m = map (\<lambda>_. 0) m"
    by (auto simp: bt_get_Some_iff)
  then have "bt_total f m = (\<Sum>e\<leftarrow>m. 0)"
    unfolding bt_total_def by (rule arg_cong)
  then show "bt_total f m = 0" by simp
qed

lemma bt_total_cong:
  "bt_wf m \<Longrightarrow> (\<And>k v. bt_get m k = Some v \<Longrightarrow> f v = g v) \<Longrightarrow> bt_total f m = bt_total g m"
  by (auto simp: bt_total_def bt_get_Some_iff intro!: arg_cong [where f = sum_list])

text \<open>The first entry in key order that satisfies a predicate (\<open>iter().find_map\<close>).\<close>

lemma find_entry_None: "List.find P m = None \<Longrightarrow> bt_get m k = Some v \<Longrightarrow> \<not> P (k, v)"
  by (auto simp: find_None_iff dest: bt_get_in)

lemma find_entry_Some:
  "bt_wf m \<Longrightarrow> List.find P m = Some e \<Longrightarrow> bt_get m (fst e) = Some (snd e) \<and> P e"
  by (auto simp: find_Some_iff bt_get_Some_iff)

lemma find_entry_first:
  assumes "bt_wf m" and "List.find P m = Some e" and "bt_get m k = Some v" and "P (k, v)"
  shows "fst e \<le> k"
  using assms
proof (induction m)
  case Nil
  then show ?case by simp
next
  case (Cons x m)
  then show ?case
    by (auto simp: bt_wf_Cons bt_get_Cons split: if_splits dest: bt_get_in)
      (metis bt_get_in fst_conv image_eqI less_imp_le)
qed

lemma bt_wf_from [simp]: "bt_wf m \<Longrightarrow> bt_wf (bt_from a m)"
  by (induction m) (auto simp: bt_from_def bt_wf_Cons)

lemma bt_get_from: "bt_get (bt_from a m) k = (if a \<le> k then bt_get m k else None)"
  by (induction m) (auto simp: bt_from_def bt_get_Cons)

subsection \<open>Sums under updates\<close>

lemma bt_total_update:
  fixes f :: "'v \<Rightarrow> 'w::cancel_comm_monoid_add"
  assumes "bt_wf m" and "bt_get m k = Some v" and "f w = f v"
  shows "bt_total f (bt_insert k w m) = bt_total f m"
  using bt.weigh_replace [OF assms(1,2), of f w] assms(3) by simp

lemma bt_total_remove:
  fixes f :: "'v \<Rightarrow> 'w::cancel_comm_monoid_add"
  shows "bt_wf m \<Longrightarrow> bt_get m k = Some v \<Longrightarrow> f v + bt_total f (bt_remove k m) = bt_total f m"
  using bt.weigh_del [of m k v f] by simp

lemma bt_total_remove_nat:
  fixes f :: "'v \<Rightarrow> nat"
  shows "bt_wf m \<Longrightarrow> bt_get m k = Some v \<Longrightarrow> bt_total f (bt_remove k m) = bt_total f m - f v"
  using bt_total_remove [of m k v f] by simp

lemma bt_length_remove_le: "length (bt_remove k m) \<le> length m"
  by (simp add: bt_remove_def)

lemma bt_empty_iff: "m = [] \<longleftrightarrow> (\<forall>k. bt_get m k = None)"
  by (cases m) (auto simp: bt_get_Cons)

subsection \<open>References from one map into another\<close>

definition tally :: "('v \<Rightarrow> 'k option) \<Rightarrow> ('i, 'v) btree \<Rightarrow> 'k \<Rightarrow> nat" where
  "tally f m k = bt_total (\<lambda>v. if f v = Some k then 1 else 0) m"

definition count_at :: "('a \<Rightarrow> nat) \<Rightarrow> ('k, 'a) btree \<Rightarrow> 'k \<Rightarrow> nat" where
  "count_at g m k = (case bt_get m k of None \<Rightarrow> 0 | Some a \<Rightarrow> g a)"

lemma tally_Nil [simp]: "tally f [] k = 0"
  by (simp add: tally_def)

lemma tally_insert_fresh:
  "bt_get m r = None \<Longrightarrow> tally f (bt_insert r v m) k = (if f v = Some k then 1 else 0) + tally f m k"
  by (simp add: tally_def bt_total_insert_fresh)

lemma tally_remove:
  "bt_wf m \<Longrightarrow> bt_get m r = Some v \<Longrightarrow>
     tally f (bt_remove r m) k = tally f m k - (if f v = Some k then 1 else 0)"
  by (simp add: tally_def bt_total_remove_nat)

lemma tally_pos: "bt_wf m \<Longrightarrow> bt_get m r = Some v \<Longrightarrow> f v = Some k \<Longrightarrow> 0 < tally f m k"
  using bt_total_member [of m r v "\<lambda>v. if f v = Some k then 1 else 0"] by (simp add: tally_def)

lemma tally_zero_iff:
  "bt_wf m \<Longrightarrow> tally f m k = 0 \<longleftrightarrow> (\<forall>r v. bt_get m r = Some v \<longrightarrow> f v \<noteq> Some k)"
  using tally_pos [of m _ _ f k]
  by (auto simp: tally_def intro!: bt_total_zero)

lemma count_at_Nil [simp]: "count_at g [] k = 0"
  by (simp add: count_at_def)

lemma count_at_insert [simp]:
  "count_at g (bt_insert i a m) k = (if k = i then g a else count_at g m k)"
  by (simp add: count_at_def)

lemma count_at_remove [simp]:
  "count_at g (bt_remove i m) k = (if k = i then 0 else count_at g m k)"
  by (simp add: count_at_def)

lemma count_at_map_values [simp]: "count_at g (bt_map_values h m) k = count_at (\<lambda>a. g (h a)) m k"
  by (simp add: count_at_def split: option.split)

lemma count_at_present: "bt_get m k = Some a \<Longrightarrow> count_at g m k = g a"
  by (simp add: count_at_def)

lemma count_at_pos: "0 < count_at g m k \<Longrightarrow> \<exists>a. bt_get m k = Some a \<and> 0 < g a"
  by (simp add: count_at_def split: option.splits)

lemma count_at_cong:
  "(\<And>a. bt_get m k = Some a \<Longrightarrow> g a = h a) \<Longrightarrow> count_at g m k = count_at h m k"
  by (simp add: count_at_def split: option.split)

subsection \<open>Keys below a counter\<close>

definition below :: "('k::linorder, 'v) btree \<Rightarrow> 'k \<Rightarrow> bool" where
  "below m n \<longleftrightarrow> (\<forall>k v. bt_get m k = Some v \<longrightarrow> k < n)"

lemma below_Nil [simp]: "below [] n"
  by (simp add: below_def)

lemma below_fresh: "below m n \<Longrightarrow> bt_get m n = None"
  by (cases "bt_get m n") (auto simp: below_def)

lemma below_mono: "below m n \<Longrightarrow> n \<le> p \<Longrightarrow> below m p"
  by (fastforce simp: below_def)

lemma below_insert: "below m n \<Longrightarrow> k < p \<Longrightarrow> n \<le> p \<Longrightarrow> below (bt_insert k v m) p"
  by (fastforce simp: below_def)

lemma below_insert_next: "below m n \<Longrightarrow> n < p \<Longrightarrow> below (bt_insert n v m) p"
  by (auto intro: below_insert)

lemma below_update: "below m n \<Longrightarrow> bt_get m k = Some w \<Longrightarrow> below (bt_insert k v m) n"
  by (auto simp: below_def)

lemma below_remove: "below m n \<Longrightarrow> below (bt_remove k m) n"
  by (auto simp: below_def)

lemma below_map_values [simp]: "below (bt_map_values f m) n \<longleftrightarrow> below m n"
  by (auto simp: below_def)

lemma below_absent: "below m n \<Longrightarrow> n \<le> k \<Longrightarrow> bt_get m k = None"
  by (cases "bt_get m k") (auto simp: below_def)

end
