(* ===== verification/Isa.thy ===== *)
theory Isa
  imports BTree_Map
begin

text \<open>
  The GPU ISA token of \<open>crates/isa/src/lib.rs\<close>: parsing of \<open>gfx...\<close> architectures with
  optional colon-separated feature states, and the comparison with the configured target of
  \<open>contracts/gpu-target.txt\<close>. Strings are byte strings; every separator the parser looks for
  is ASCII, so splitting bytes is splitting the UTF-8 text.
\<close>

subsection \<open>Data\<close>

datatype feature_state = Enabled | Disabled

record isa_feature =
  feature_name :: string
  feature_state_of :: feature_state

record target_isa =
  isa_raw :: string
  isa_architecture :: string
  isa_features :: "isa_feature list"

datatype parse_error_kind =
    InvalidArchitecture
  | EmptyFeature
  | MissingFeatureState
  | InvalidFeatureName
  | DuplicateFeature

record parse_error =
  parse_kind :: parse_error_kind
  parse_feature_index :: usize

definition configured_target_token :: string where
  "configured_target_token = ''gfx1100''"

subsection \<open>Standard library string operations\<close>

definition is_ascii_digit :: "char \<Rightarrow> bool" where
  "is_ascii_digit c \<longleftrightarrow> CHR ''0'' \<le> c \<and> c \<le> CHR ''9''"

definition is_ascii_lowercase :: "char \<Rightarrow> bool" where
  "is_ascii_lowercase c \<longleftrightarrow> CHR ''a'' \<le> c \<and> c \<le> CHR ''z''"

definition is_ascii_uppercase :: "char \<Rightarrow> bool" where
  "is_ascii_uppercase c \<longleftrightarrow> CHR ''A'' \<le> c \<and> c \<le> CHR ''Z''"

definition is_ascii_alphanumeric :: "char \<Rightarrow> bool" where
  "is_ascii_alphanumeric c \<longleftrightarrow>
     is_ascii_digit c \<or> is_ascii_lowercase c \<or> is_ascii_uppercase c"

fun split_once :: "char \<Rightarrow> string \<Rightarrow> (string \<times> string) option" where
  "split_once d [] = None"
| "split_once d (c # s) =
     (if c = d then Some ([], s)
      else case split_once d s of None \<Rightarrow> None | Some (a, b) \<Rightarrow> Some (c # a, b))"

fun split_on :: "char \<Rightarrow> string \<Rightarrow> string list" where
  "split_on d [] = [[]]"
| "split_on d (c # s) =
     (if c = d then [] # split_on d s
      else case split_on d s of [] \<Rightarrow> [[c]] | p # ps \<Rightarrow> (c # p) # ps)"

fun strip_prefix :: "string \<Rightarrow> string \<Rightarrow> string option" where
  "strip_prefix [] s = Some s"
| "strip_prefix (p # ps) [] = None"
| "strip_prefix (p # ps) (c # s) = (if p = c then strip_prefix ps s else None)"

definition strip_suffix :: "char \<Rightarrow> string \<Rightarrow> string option" where
  "strip_suffix d s = (if s \<noteq> [] \<and> last s = d then Some (butlast s) else None)"

fun join_with :: "char \<Rightarrow> string list \<Rightarrow> string" where
  "join_with d [] = []"
| "join_with d [p] = p"
| "join_with d (p # q # ps) = p @ d # join_with d (q # ps)"

lemma split_once_None_iff: "split_once d s = None \<longleftrightarrow> d \<notin> set s"
  by (induction s) (auto split: option.splits)

lemma split_once_Some_iff: "split_once d s = Some (a, b) \<longleftrightarrow> s = a @ d # b \<and> d \<notin> set a"
proof (induction s arbitrary: a)
  case Nil
  then show ?case by simp
next
  case (Cons c s)
  show ?case
  proof (cases a)
    case Nil
    then show ?thesis by (auto split: option.splits)
  next
    case (Cons x a')
    then show ?thesis using Cons.IH [of a'] by (auto split: option.splits)
  qed
qed

lemma split_on_not_Nil [simp]: "split_on d s \<noteq> []"
  by (induction s) (auto split: list.splits)

lemma join_split: "join_with d (split_on d s) = s"
proof (induction s)
  case Nil
  then show ?case by simp
next
  case (Cons c s)
  obtain p ps where sp: "split_on d s = p # ps"
    by (cases "split_on d s") auto
  with Cons show ?case by (cases ps) auto
qed

lemma split_on_parts: "p \<in> set (split_on d s) \<Longrightarrow> d \<notin> set p"
  by (induction s arbitrary: p) (auto split: list.splits if_splits)

lemma split_on_single: "d \<notin> set p \<Longrightarrow> split_on d p = [p]"
  by (induction p) auto

lemma split_on_append: "d \<notin> set p \<Longrightarrow> split_on d (p @ d # s) = p # split_on d s"
  by (induction p) auto

lemma split_join:
  "ps \<noteq> [] \<Longrightarrow> (\<And>p. p \<in> set ps \<Longrightarrow> d \<notin> set p) \<Longrightarrow> split_on d (join_with d ps) = ps"
  by (induction d ps rule: join_with.induct) (auto simp: split_on_single split_on_append)

lemma strip_prefix_Some_iff: "strip_prefix p s = Some t \<longleftrightarrow> s = p @ t"
  by (induction p s rule: strip_prefix.induct) auto

lemma strip_suffix_Some_iff: "strip_suffix d s = Some t \<longleftrightarrow> s = t @ [d]"
  unfolding strip_suffix_def
  by (metis append_butlast_last_id butlast_snoc last_snoc option.distinct(1) option.inject snoc_eq_iff_butlast)

subsection \<open>Parsing\<close>

definition valid_architecture :: "string \<Rightarrow> bool" where
  "valid_architecture architecture \<longleftrightarrow>
     (case strip_prefix ''gfx'' architecture of
        None \<Rightarrow> False
      | Some encoded \<Rightarrow>
          (case encoded of
             [] \<Rightarrow> False
           | first # bytes \<Rightarrow>
               is_ascii_digit first \<and>
               list_all (\<lambda>b. is_ascii_lowercase b \<or> is_ascii_digit b) bytes))"

definition valid_feature_name :: "string \<Rightarrow> bool" where
  "valid_feature_name name \<longleftrightarrow>
     (case name of
        [] \<Rightarrow> False
      | first # bytes \<Rightarrow>
          is_ascii_lowercase first \<and>
          list_all (\<lambda>b. is_ascii_lowercase b \<or> is_ascii_digit b \<or> b = CHR ''_'') bytes)"

definition parse_feature :: "string \<Rightarrow> usize \<Rightarrow> (isa_feature, parse_error) result" where
  "parse_feature encoded idx =
     (if encoded = [] then Err \<lparr>parse_kind = EmptyFeature, parse_feature_index = idx\<rparr>
      else
        and_then
          (case strip_suffix CHR ''+'' encoded of
             Some name \<Rightarrow> Ok (name, Enabled)
           | None \<Rightarrow>
               (case strip_suffix CHR ''-'' encoded of
                  Some name \<Rightarrow> Ok (name, Disabled)
                | None \<Rightarrow> Err \<lparr>parse_kind = MissingFeatureState, parse_feature_index = idx\<rparr>))
          (\<lambda>(name, state).
             if \<not> valid_feature_name name
             then Err \<lparr>parse_kind = InvalidFeatureName, parse_feature_index = idx\<rparr>
             else Ok \<lparr>feature_name = name, feature_state_of = state\<rparr>))"

text \<open>The loop over the suffixes, with its running index and the names seen so far.\<close>

fun parse_features ::
  "usize \<Rightarrow> string set \<Rightarrow> string list \<Rightarrow> (isa_feature list, parse_error) result" where
  "parse_features idx names [] = Ok []"
| "parse_features idx names (encoded # rest) =
     and_then (parse_feature encoded idx) (\<lambda>feature.
       if feature_name feature \<in> names
       then Err \<lparr>parse_kind = DuplicateFeature, parse_feature_index = idx\<rparr>
       else and_then (parse_features (Suc idx) (insert (feature_name feature) names) rest)
              (\<lambda>features. Ok (feature # features)))"

definition parse_isa :: "string \<Rightarrow> (target_isa, parse_error) result" where
  "parse_isa raw =
     (let (architecture, suffixes) =
        (case split_once CHR '':'' raw of
           None \<Rightarrow> (raw, None)
         | Some (base, suffixes) \<Rightarrow> (base, Some suffixes))
      in if \<not> valid_architecture architecture
         then Err \<lparr>parse_kind = InvalidArchitecture, parse_feature_index = 0\<rparr>
         else and_then
           (case suffixes of
              None \<Rightarrow> Ok []
            | Some s \<Rightarrow> parse_features 0 {} (split_on CHR '':'' s))
           (\<lambda>features.
              Ok \<lparr>isa_raw = raw, isa_architecture = architecture, isa_features = features\<rparr>))"

definition matches_configured_architecture :: "string \<Rightarrow> bool" where
  "matches_configured_architecture candidate =
     (case parse_isa configured_target_token of
        Ok configured \<Rightarrow>
          (case parse_isa candidate of
             Ok c \<Rightarrow> isa_architecture c = isa_architecture configured
           | _ \<Rightarrow> False)
      | _ \<Rightarrow> False)"

subsection \<open>The token grammar, and parsing against it\<close>

fun render_feature :: "isa_feature \<Rightarrow> string" where
  "render_feature f =
     feature_name f @ (case feature_state_of f of Enabled \<Rightarrow> ''+'' | Disabled \<Rightarrow> ''-'')"

definition render_isa :: "string \<Rightarrow> isa_feature list \<Rightarrow> string" where
  "render_isa architecture features =
     (if features = [] then architecture
      else architecture @ CHR '':'' # join_with CHR '':'' (map render_feature features))"

definition canonical_isa :: "string \<Rightarrow> isa_feature list \<Rightarrow> bool" where
  "canonical_isa architecture features \<longleftrightarrow>
     valid_architecture architecture \<and>
     list_all (\<lambda>f. valid_feature_name (feature_name f)) features \<and>
     distinct (map feature_name features)"

lemma ascii_no_colon:
  "is_ascii_digit c \<or> is_ascii_lowercase c \<or> c = CHR ''_'' \<Longrightarrow> c \<noteq> CHR '':''"
  by (auto simp: is_ascii_digit_def is_ascii_lowercase_def less_eq_char_def)

lemma valid_architecture_no_colon:
  assumes "valid_architecture a"
  shows "CHR '':'' \<notin> set a"
proof -
  obtain c cs where a: "a = ''gfx'' @ c # cs"
    and c: "is_ascii_digit c" and cs: "list_all (\<lambda>b. is_ascii_lowercase b \<or> is_ascii_digit b) cs"
    using assms
    by (auto simp: valid_architecture_def strip_prefix_Some_iff split: option.splits list.splits)
  have "b \<noteq> CHR '':''" if "b \<in> set (c # cs)" for b
    using that c cs by (intro ascii_no_colon) (auto simp: list_all_iff)
  then show ?thesis using a by auto
qed

lemma valid_feature_no_colon:
  assumes "valid_feature_name (feature_name f)"
  shows "CHR '':'' \<notin> set (render_feature f)"
proof -
  have "b \<noteq> CHR '':''" if "b \<in> set (feature_name f)" for b
    using that assms
    by (intro ascii_no_colon) (auto simp: valid_feature_name_def list_all_iff split: list.splits)
  then show ?thesis by (auto split: feature_state.splits)
qed

lemma parse_feature_Ok_iff:
  "parse_feature e i = Ok f \<longleftrightarrow> e = render_feature f \<and> valid_feature_name (feature_name f)"
proof -
  have ext: "f = \<lparr>feature_name = n, feature_state_of = s\<rparr> \<longleftrightarrow>
      feature_name f = n \<and> feature_state_of f = s" for n s
    by (cases f) simp
  show ?thesis
    by (auto simp: parse_feature_def strip_suffix_Some_iff strip_suffix_def ext
        split: option.splits if_splits feature_state.splits)
      (metis append_butlast_last_id)+
qed

lemma parse_features_Ok_iff:
  "parse_features i names es = Ok fs \<longleftrightarrow>
     es = map render_feature fs \<and>
     list_all (\<lambda>f. valid_feature_name (feature_name f)) fs \<and>
     distinct (map feature_name fs) \<and> names \<inter> feature_name ` set fs = {}"
proof (induction es arbitrary: i names fs)
  case Nil
  then show ?case by auto
next
  case (Cons e es)
  show ?case
    by (cases fs) (auto simp: parse_feature_Ok_iff Cons.IH simp del: render_feature.simps)
qed

lemma split_once_render:
  assumes "CHR '':'' \<notin> set a"
  shows "split_once CHR '':'' (render_isa a fs) =
    (if fs = [] then None else Some (a, join_with CHR '':'' (map render_feature fs)))"
  using assms by (simp add: render_isa_def split_once_None_iff split_once_Some_iff)

lemma split_render:
  assumes "list_all (\<lambda>f. valid_feature_name (feature_name f)) fs" and "fs \<noteq> []"
  shows "split_on CHR '':'' (join_with CHR '':'' (map render_feature fs)) = map render_feature fs"
  using assms
  by (intro split_join)
    (auto simp: list_all_iff simp del: render_feature.simps dest: valid_feature_no_colon)

lemma parse_isa_sound:
  "parse_isa raw = Ok t \<Longrightarrow>
     isa_raw t = raw \<and> raw = render_isa (isa_architecture t) (isa_features t) \<and>
     canonical_isa (isa_architecture t) (isa_features t)"
proof (cases "split_once CHR '':'' raw")
  case None
  moreover assume "parse_isa raw = Ok t"
  ultimately show ?thesis
    by (auto simp: parse_isa_def render_isa_def canonical_isa_def split: if_splits)
next
  case (Some p)
  moreover assume "parse_isa raw = Ok t"
  moreover obtain a s where p: "p = (a, s)" by (cases p)
  ultimately have t: "valid_architecture a" "t = \<lparr>isa_raw = raw, isa_architecture = a, isa_features = isa_features t\<rparr>"
    and fs: "parse_features 0 {} (split_on CHR '':'' s) = Ok (isa_features t)"
    by (auto simp: parse_isa_def split: if_splits)
  from fs have "split_on CHR '':'' s = map render_feature (isa_features t)"
    by (simp add: parse_features_Ok_iff)
  moreover from this have "s = join_with CHR '':'' (map render_feature (isa_features t))"
    by (metis join_split)
  ultimately show ?thesis
    using t fs Some p split_on_not_Nil [of "CHR '':''" s]
    by (cases t)
      (auto simp: split_once_Some_iff render_isa_def canonical_isa_def parse_features_Ok_iff)
qed

lemma parse_isa_complete:
  assumes "canonical_isa a fs"
  shows "parse_isa (render_isa a fs) =
    Ok \<lparr>isa_raw = render_isa a fs, isa_architecture = a, isa_features = fs\<rparr>"
proof -
  have a: "valid_architecture a" and fs: "parse_features 0 {} (map render_feature fs) = Ok fs"
    and names: "list_all (\<lambda>f. valid_feature_name (feature_name f)) fs"
    using assms by (auto simp: canonical_isa_def parse_features_Ok_iff)
  note so = split_once_render [OF valid_architecture_no_colon [OF a], of fs]
  show ?thesis
  proof (cases "fs = []")
    case True
    then show ?thesis using a so by (simp add: parse_isa_def render_isa_def)
  next
    case False
    then show ?thesis using a so fs split_render [OF names] by (simp add: parse_isa_def)
  qed
qed

text \<open>C39: the token parser accepts exactly the canonical spellings, and reads each as itself.\<close>

theorem parse_isa_characterised:
  "parse_isa raw = Ok t \<longleftrightarrow>
     isa_raw t = raw \<and> raw = render_isa (isa_architecture t) (isa_features t) \<and>
     canonical_isa (isa_architecture t) (isa_features t)"
  by (metis parse_isa_sound parse_isa_complete target_isa.surjective old.unit.exhaust)

lemma matches_iff:
  "matches_configured_architecture c \<longleftrightarrow>
     (\<exists>fs. canonical_isa ''gfx1100'' fs \<and> c = render_isa ''gfx1100'' fs)"
proof -
  have "canonical_isa ''gfx1100'' []"
    by code_simp
  from parse_isa_complete [OF this]
  have "parse_isa configured_target_token =
      Ok \<lparr>isa_raw = ''gfx1100'', isa_architecture = ''gfx1100'', isa_features = []\<rparr>"
    by (simp add: configured_target_token_def render_isa_def)
  then have conf: "matches_configured_architecture c \<longleftrightarrow>
      (\<exists>t. parse_isa c = Ok t \<and> isa_architecture t = ''gfx1100'')"
    by (auto simp: matches_configured_architecture_def split: result.splits)
  show ?thesis
  proof
    assume "matches_configured_architecture c"
    then show "\<exists>fs. canonical_isa ''gfx1100'' fs \<and> c = render_isa ''gfx1100'' fs"
      unfolding conf by (metis parse_isa_sound)
  next
    assume "\<exists>fs. canonical_isa ''gfx1100'' fs \<and> c = render_isa ''gfx1100'' fs"
    then show "matches_configured_architecture c"
      unfolding conf by (metis parse_isa_complete target_isa.select_convs(2))
  qed
qed

end
