(* ===== verification/Utf8.thy ===== *)
theory Utf8
  imports Rust_Prelude "HOL-Library.Sublist"
begin

text \<open>
  UTF-8 as the standard library of Rust treats it: a \<open>str\<close> is the list of its bytes, which are
  well formed; \<open>from_utf8\<close> finds the first ill-formed sequence, \<open>chars\<close> splits a text into the
  encodings of its characters, and an offset is a character boundary when no character straddles it.
\<close>

type_synonym bytes = "u8 list"

text \<open>The bytes of an ASCII literal.\<close>

definition bytes_of :: "string \<Rightarrow> bytes" where
  "bytes_of s = map of_char s"

definition utf8_tail :: "u8 \<Rightarrow> bool" where
  "utf8_tail b \<longleftrightarrow> 128 \<le> unat b \<and> unat b \<le> 191"

text \<open>\<open>str::from_utf8\<close>: the well-formed byte sequences of the Unicode standard.\<close>

function utf8_valid :: "bytes \<Rightarrow> bool" where
  "utf8_valid bs =
     (case bs of
        [] \<Rightarrow> True
      | b # r \<Rightarrow>
          if unat b < 128 then utf8_valid r
          else if 194 \<le> unat b \<and> unat b \<le> 223 then
            (case r of b1 # r1 \<Rightarrow> utf8_tail b1 \<and> utf8_valid r1 | _ \<Rightarrow> False)
          else if 224 \<le> unat b \<and> unat b \<le> 239 then
            (case r of b1 # b2 # r2 \<Rightarrow>
               utf8_tail b1 \<and> (unat b = 224 \<longrightarrow> 160 \<le> unat b1) \<and> (unat b = 237 \<longrightarrow> unat b1 \<le> 159) \<and>
               utf8_tail b2 \<and> utf8_valid r2 | _ \<Rightarrow> False)
          else if 240 \<le> unat b \<and> unat b \<le> 244 then
            (case r of b1 # b2 # b3 # r3 \<Rightarrow>
               utf8_tail b1 \<and> (unat b = 240 \<longrightarrow> 144 \<le> unat b1) \<and> (unat b = 244 \<longrightarrow> unat b1 \<le> 143) \<and>
               utf8_tail b2 \<and> utf8_tail b3 \<and> utf8_valid r3 | _ \<Rightarrow> False)
          else False)"
  by pat_completeness auto
termination
  by (relation "measure length") auto

declare utf8_valid.simps [simp del]

subsection \<open>Characters\<close>

text \<open>
  What a byte string begins with: a character of so many bytes, an ill-formed sequence of so many
  bytes (the \<open>error_len\<close> of \<open>Utf8Error\<close>), or a character that is cut off.
\<close>

datatype utf8_lead = Character nat | Malformed nat | Truncated

definition second_of_3 :: "u8 \<Rightarrow> u8 \<Rightarrow> bool" where
  "second_of_3 b b1 \<longleftrightarrow> utf8_tail b1 \<and> (unat b = 224 \<longrightarrow> 160 \<le> unat b1) \<and> (unat b = 237 \<longrightarrow> unat b1 \<le> 159)"

definition second_of_4 :: "u8 \<Rightarrow> u8 \<Rightarrow> bool" where
  "second_of_4 b b1 \<longleftrightarrow> utf8_tail b1 \<and> (unat b = 240 \<longrightarrow> 144 \<le> unat b1) \<and> (unat b = 244 \<longrightarrow> unat b1 \<le> 143)"

fun utf8_tails :: "nat \<Rightarrow> nat \<Rightarrow> bytes \<Rightarrow> utf8_lead" where
  "utf8_tails seen 0 bs = Character seen"
| "utf8_tails seen (Suc n) [] = Truncated"
| "utf8_tails seen (Suc n) (b # bs) = (if utf8_tail b then utf8_tails (Suc seen) n bs else Malformed seen)"

fun utf8_next :: "bytes \<Rightarrow> utf8_lead" where
  "utf8_next [] = Truncated"
| "utf8_next (b # bs) =
     (if unat b < 128 then Character 1
      else if 194 \<le> unat b \<and> unat b \<le> 223 then utf8_tails 1 1 bs
      else if 224 \<le> unat b \<and> unat b \<le> 239 then
        (case bs of [] \<Rightarrow> Truncated | b1 # _ \<Rightarrow> if second_of_3 b b1 then utf8_tails 1 2 bs else Malformed 1)
      else if 240 \<le> unat b \<and> unat b \<le> 244 then
        (case bs of [] \<Rightarrow> Truncated | b1 # _ \<Rightarrow> if second_of_4 b b1 then utf8_tails 1 3 bs else Malformed 1)
      else Malformed 1)"

lemma utf8_tails_Character:
  "utf8_tails seen n bs = Character m \<longleftrightarrow> m = seen + n \<and> n \<le> length bs \<and> list_all utf8_tail (take n bs)"
proof (induction n arbitrary: seen bs)
  case (Suc n)
  then show ?case by (cases bs) auto
qed auto

lemma utf8_tails_Malformed: "utf8_tails seen n bs = Malformed m \<Longrightarrow> seen \<le> m \<and> m < seen + length bs"
proof (induction n arbitrary: seen bs)
  case (Suc n)
  then show ?case by (cases bs) (fastforce split: if_splits)+
qed simp

lemma utf8_next_Character:
  assumes "utf8_next bs = Character n"
  shows "0 < n" and "n \<le> 4" and "n \<le> length bs" and "\<not> utf8_tail (hd bs)" and "list_all utf8_tail (tl (take n bs))"
  using assms
  by (cases bs; auto simp: utf8_tails_Character utf8_tail_def take_Suc_conv_app_nth split: if_splits list.splits)+

lemma utf8_next_Malformed: "utf8_next bs = Malformed n \<Longrightarrow> 0 < n \<and> n \<le> length bs"
  by (cases bs) (fastforce split: if_splits list.splits dest: utf8_tails_Malformed)+

lemma utf8_valid_next:
  "utf8_valid bs \<longleftrightarrow> bs = [] \<or> (\<exists>n. utf8_next bs = Character n \<and> utf8_valid (drop n bs))"
proof (cases bs)
  case Nil
  then show ?thesis by (simp add: utf8_valid.simps)
next
  case (Cons b r)
  have "utf8_next bs = Character n \<longleftrightarrow>
      (unat b < 128 \<and> n = 1 \<or> 194 \<le> unat b \<and> unat b \<le> 223 \<and> n = 2 \<and> (\<exists>b1 r1. r = b1 # r1 \<and> utf8_tail b1) \<or>
       224 \<le> unat b \<and> unat b \<le> 239 \<and> n = 3 \<and> (\<exists>b1 b2 r2. r = b1 # b2 # r2 \<and> second_of_3 b b1 \<and> utf8_tail b2) \<or>
       240 \<le> unat b \<and> unat b \<le> 244 \<and> n = 4 \<and>
         (\<exists>b1 b2 b3 r3. r = b1 # b2 # b3 # r3 \<and> second_of_4 b b1 \<and> utf8_tail b2 \<and> utf8_tail b3))" for n
    unfolding Cons
    by (cases r; cases "tl r"; cases "tl (tl r)")
      (auto simp: utf8_tails_Character second_of_3_def second_of_4_def numeral_2_eq_2 numeral_3_eq_3 split: if_splits)
  then show ?thesis
    unfolding Cons
    by (subst utf8_valid.simps)
      (auto simp: second_of_3_def second_of_4_def split: list.splits)
qed

lemma utf8_valid_Nil [simp]: "utf8_valid []"
  by (simp add: utf8_valid.simps)

lemma utf8_next_append: "utf8_next bs = Character n \<Longrightarrow> utf8_next (bs @ cs) = Character n"
  by (cases bs) (auto simp: utf8_tails_Character split: if_splits list.splits)

lemma utf8_valid_induct [consumes 1, case_names Nil Char]:
  assumes "utf8_valid bs" and "P []"
    and "\<And>c bs. utf8_next (c @ bs) = Character (length c) \<Longrightarrow> c \<noteq> [] \<Longrightarrow> utf8_valid bs \<Longrightarrow> P bs \<Longrightarrow> P (c @ bs)"
  shows "P bs"
  using assms(1)
proof (induction bs rule: length_induct)
  case (1 bs)
  show ?case
  proof (cases "bs = []")
    case False
    then obtain n where n: "utf8_next bs = Character n" "utf8_valid (drop n bs)" using 1(2) utf8_valid_next by blast
    note b = utf8_next_Character [OF n(1)]
    have "P (take n bs @ drop n bs)"
    proof (rule assms(3))
      show "utf8_next (take n bs @ drop n bs) = Character (length (take n bs))" using n(1) b by (simp add: min_def)
      show "take n bs \<noteq> []" using b False by auto
      show "P (drop n bs)" using 1(1) n(2) b False by auto
    qed (use n in simp)
    then show ?thesis by simp
  qed (use assms(2) in simp)
qed

lemma utf8_valid_Char: "utf8_next (c @ bs) = Character (length c) \<Longrightarrow> c \<noteq> [] \<Longrightarrow> utf8_valid (c @ bs) \<longleftrightarrow> utf8_valid bs"
  by (subst utf8_valid_next) auto

lemma utf8_valid_append: "utf8_valid as \<Longrightarrow> utf8_valid bs \<Longrightarrow> utf8_valid (as @ bs)"
proof (induction as rule: utf8_valid_induct)
  case (Char c as)
  then show ?case using utf8_next_append [OF Char(1), of bs] utf8_valid_Char [of c "as @ bs"] by simp
qed simp

lemma utf8_valid_rest: "utf8_valid as \<Longrightarrow> utf8_valid (as @ bs) \<Longrightarrow> utf8_valid bs"
proof (induction as rule: utf8_valid_induct)
  case (Char c as)
  then show ?case using utf8_next_append [OF Char(1), of bs] utf8_valid_Char [of c "as @ bs"] by simp
qed simp

lemma utf8_valid_concat: "list_all utf8_valid ts \<Longrightarrow> utf8_valid (concat ts)"
  by (induction ts) (auto intro: utf8_valid_append)

text \<open>A valid text may be cut in front of any byte that is not a continuation byte.\<close>

lemma utf8_valid_cut:
  assumes "utf8_valid xs" and "xs = as @ b # bs" and "\<not> utf8_tail b"
  shows "utf8_valid as" and "utf8_valid (b # bs)"
proof -
  have "utf8_valid as \<and> utf8_valid (b # bs)"
    using assms
  proof (induction xs arbitrary: as rule: utf8_valid_induct)
    case Nil
    then show ?case by simp
  next
    case (Char c xs)
    note lead = utf8_next_Character [OF Char(1)]
    have tails: "list_all utf8_tail (tl c)" using lead(5) by simp
    show ?case
    proof (cases "length c \<le> length as")
      case True
      then obtain as' where as: "as = c @ as'" and xs: "xs = as' @ b # bs"
        using Char.prems(1) by (auto simp: append_eq_append_conv2)
      have v: "utf8_valid as' \<and> utf8_valid (b # bs)" by (rule Char.IH [OF xs Char.prems(2)])
      have "utf8_next (c @ as') = Character (length c)"
      proof -
        have "utf8_next c = Character (length c)"
        proof -
          have "c @ xs = c @ xs" by simp
          then show ?thesis using Char(1) Char(2)
            by (cases c) (auto simp: utf8_tails_Character split: if_splits list.splits)
        qed
        then show ?thesis by (rule utf8_next_append)
      qed
      then show ?thesis using v as utf8_valid_Char [OF _ Char(2), of as'] by simp
    next
      case False
      then obtain c' where c: "c = as @ b # c'"
        using Char.prems(1) by (auto simp: append_eq_append_conv2 Cons_eq_append_conv append_eq_Cons_conv)
      have "as = []"
      proof (rule ccontr)
        assume "as \<noteq> []"
        then have "utf8_tail b" using tails c by (cases as) auto
        then show False using Char.prems(2) by simp
      qed
      then show ?thesis using Char.prems(1) Char(1,2,3) utf8_valid_Char [OF Char(1,2)] by simp
    qed
  qed
  then show "utf8_valid as" and "utf8_valid (b # bs)" by simp_all
qed

subsection \<open>Splitting\<close>

text \<open>\<open>str::chars\<close>, each character as its encoding.\<close>

function utf8_chars :: "bytes \<Rightarrow> bytes list" where
  "utf8_chars bs = (case utf8_next bs of Character n \<Rightarrow> take n bs # utf8_chars (drop n bs) | _ \<Rightarrow> [])"
  by pat_completeness auto
termination
proof (relation "measure length")
  fix bs n
  assume "utf8_next bs = Character n"
  then show "(drop n bs, bs) \<in> measure length" using utf8_next_Character [of bs n] by (cases bs) auto
qed simp

declare utf8_chars.simps [simp del]

lemma utf8_chars_Nil [simp]: "utf8_chars [] = []"
  by (simp add: utf8_chars.simps)

lemma utf8_chars_Char:
  "utf8_next (c @ bs) = Character (length c) \<Longrightarrow> utf8_chars (c @ bs) = c # utf8_chars bs"
  by (subst utf8_chars.simps) simp

lemma concat_utf8_chars: "utf8_valid bs \<Longrightarrow> concat (utf8_chars bs) = bs"
  by (induction bs rule: utf8_valid_induct) (simp_all add: utf8_chars_Char)

lemma utf8_chars_valid: "utf8_valid bs \<Longrightarrow> c \<in> set (utf8_chars bs) \<Longrightarrow> utf8_valid c \<and> c \<noteq> [] \<and> length c \<le> 4"
proof (induction bs rule: utf8_valid_induct)
  case (Char d bs)
  have "utf8_valid d"
  proof (cases bs)
    case Nil
    then show ?thesis using utf8_valid_Char [OF Char(1,2)] by simp
  next
    case (Cons b bs')
    then have "\<not> utf8_tail b" using Char(3) utf8_next_Character(4) by (metis list.sel(1) list.discI utf8_valid_next)
    then show ?thesis using utf8_valid_cut(1) [of "d @ bs" d b bs'] utf8_valid_Char [OF Char(1,2)] Char(3) Cons by simp
  qed
  then show ?case using Char utf8_next_Character(2) [OF Char(1)] by (auto simp: utf8_chars_Char)
qed simp

lemma length_utf8_chars: "utf8_valid bs \<Longrightarrow> length (utf8_chars bs) \<le> length bs"
proof (induction bs rule: utf8_valid_induct)
  case (Char c bs)
  have "1 \<le> length c" using Char(2) by (cases c) simp_all
  then show ?case using Char.IH utf8_chars_Char [OF Char(1)] by simp
qed simp

text \<open>\<open>str::is_char_boundary\<close>\<close>

definition char_boundary :: "bytes \<Rightarrow> nat \<Rightarrow> bool" where
  "char_boundary bs i \<longleftrightarrow> i = 0 \<or> i = length bs \<or> i < length bs \<and> \<not> utf8_tail (bs ! i)"

lemma char_boundary_take_drop:
  assumes "utf8_valid bs" and "char_boundary bs i"
  shows "utf8_valid (take i bs)" and "utf8_valid (drop i bs)"
proof -
  have "utf8_valid (take i bs) \<and> utf8_valid (drop i bs)"
  proof (cases "0 < i \<and> i < length bs")
    case True
    then have "bs = take i bs @ bs ! i # drop (Suc i) bs" by (simp add: id_take_nth_drop)
    moreover have "drop i bs = bs ! i # drop (Suc i) bs" using True by (simp add: Cons_nth_drop_Suc)
    ultimately show ?thesis using utf8_valid_cut [OF assms(1)] True assms(2) by (auto simp: char_boundary_def)
  next
    case False
    then show ?thesis using assms by (auto simp: char_boundary_def)
  qed
  then show "utf8_valid (take i bs)" and "utf8_valid (drop i bs)" by simp_all
qed

lemma char_boundary_append: "utf8_valid bs \<Longrightarrow> char_boundary (as @ bs) (length as)"
proof (cases bs)
  case (Cons b r)
  assume "utf8_valid bs"
  then obtain n where "utf8_next bs = Character n" using utf8_valid_next Cons by blast
  then have "\<not> utf8_tail b" using utf8_next_Character(4) Cons by fastforce
  then show ?thesis using Cons by (simp add: char_boundary_def)
qed (simp add: char_boundary_def)

subsection \<open>Where a text becomes ill-formed\<close>

text \<open>
  \<open>from_utf8\<close>: \<open>None\<close> for a valid text, otherwise \<open>valid_up_to\<close> and \<open>error_len\<close>.
\<close>

function utf8_fault :: "bytes \<Rightarrow> (nat \<times> nat option) option" where
  "utf8_fault bs =
     (if bs = [] then None
      else case utf8_next bs of
        Character n \<Rightarrow> map_option (\<lambda>(ok_len, len). (n + ok_len, len)) (utf8_fault (drop n bs))
      | Malformed n \<Rightarrow> Some (0, Some n)
      | Truncated \<Rightarrow> Some (0, None))"
  by pat_completeness auto
termination
proof (relation "measure length")
  fix bs :: bytes and n
  assume "bs \<noteq> []" "utf8_next bs = Character n"
  then show "(drop n bs, bs) \<in> measure length" using utf8_next_Character [of bs n] by simp
qed simp

declare utf8_fault.simps [simp del]

lemma utf8_fault_None: "utf8_fault bs = None \<longleftrightarrow> utf8_valid bs"
proof (induction bs rule: utf8_fault.induct)
  case (1 bs)
  then show ?case
    by (subst utf8_fault.simps, subst utf8_valid_next) (auto split: utf8_lead.splits)
qed

lemma utf8_fault_Some:
  "utf8_fault bs = Some (ok_len, len) \<Longrightarrow> utf8_valid (take ok_len bs) \<and> ok_len < length bs \<and>
     (case len of None \<Rightarrow> True | Some n \<Rightarrow> 0 < n \<and> ok_len + n \<le> length bs)"
proof (induction bs arbitrary: ok_len rule: utf8_fault.induct)
  case (1 bs)
  have nonempty: "bs \<noteq> []" using 1(2) by (auto simp: utf8_fault.simps)
  show ?case
  proof (cases "utf8_next bs")
    case (Character n)
    note lead = utf8_next_Character [OF Character]
    obtain u where u: "utf8_fault (drop n bs) = Some (u, len)" "ok_len = n + u"
      using 1(2) nonempty Character by (subst (asm) utf8_fault.simps) auto
    note IH = 1(1) [OF nonempty Character u(1)]
    have "take ok_len bs = take n bs @ take u (drop n bs)" by (simp add: u(2) take_add)
    moreover have "utf8_valid (take n bs @ take u (drop n bs)) \<longleftrightarrow> utf8_valid (take u (drop n bs))"
    proof (rule utf8_valid_Char)
      show "utf8_next (take n bs @ take u (drop n bs)) = Character (length (take n bs))"
      proof -
        have "utf8_next (take n bs) = Character n"
          using Character lead(3) by (cases bs) (auto simp: utf8_tails_Character take_Suc_conv_app_nth split: if_splits list.splits)
        then show ?thesis using lead(3) by (simp add: utf8_next_append)
      qed
    qed (use lead nonempty in auto)
    ultimately show ?thesis using IH u(2) lead(3) by (auto split: option.splits)
  next
    case (Malformed n)
    then show ?thesis
      using 1(2) nonempty utf8_next_Malformed [of bs n] by (subst (asm) utf8_fault.simps) auto
  next
    case Truncated
    then show ?thesis using 1(2) nonempty by (subst (asm) utf8_fault.simps) auto
  qed
qed

subsection \<open>Lossy decoding\<close>

definition replacement_character :: bytes where
  "replacement_character = [0xEF, 0xBF, 0xBD]"

text \<open>Lossy decoding: every ill-formed sequence becomes one replacement character.\<close>

function lossy :: "bytes \<Rightarrow> bytes" where
  "lossy bs =
     (if bs = [] then []
      else case utf8_next bs of
        Character n \<Rightarrow> take n bs @ lossy (drop n bs)
      | Malformed n \<Rightarrow> replacement_character @ lossy (drop n bs)
      | Truncated \<Rightarrow> replacement_character)"
  by pat_completeness auto
termination
  by (relation "measure length") (use utf8_next_Character utf8_next_Malformed in \<open>fastforce\<close>)+

declare lossy.simps [simp del]

end
