(* ===== verification/Hip_Native.thy ===== *)
theory Hip_Native
  imports Isa Utf8
begin

text \<open>
  The boundary of src/crates/hipcore: the calls it makes into the HIP runtime and the errors it makes
  of their statuses (src/crates/hipcore/src/error.rs, ffi.rs).

  The runtime is not part of the repository. It is a parameter of every operation, a function from
  the calls made so far to the reply to the next one, and every operation returns the log of calls
  it leaves behind. A theorem for every runtime thus covers every pattern of failures. A native
  handle or device pointer is a natural number, with 0 for null; what a call writes through an output
  pointer is part of its reply.
\<close>

type_synonym c_int = int

datatype hip_status =
    HipSuccess
  | HipErrorInvalidValue
  | HipErrorOutOfMemory
  | HipErrorNotInitialized
  | HipErrorDeinitialized
  | HipErrorInsufficientDriver
  | HipErrorPriorLaunchFailure
  | HipErrorNotFound
  | HipErrorNotReady
  | HipErrorIllegalAddress
  | HipErrorLaunchOutOfResources
  | HipErrorLaunchTimeOut
  | HipErrorLaunchFailure
  | HipErrorNotSupported
  | HipErrorOther nat

text \<open>Classified errors.\<close>

datatype error_kind =
    KindInvalidValue
  | KindOutOfMemory
  | KindNotInitialized
  | KindDeinitialized
  | KindInsufficientDriver
  | KindPriorLaunchFailure
  | KindLaunchOutOfResources
  | KindLaunchTimeout
  | KindLaunchFailure
  | KindNotFound
  | KindNotReady
  | KindIllegalAddress
  | KindUnknown u32

definition hip_status_from_u32 :: "u32 \<Rightarrow> hip_status option" where
  "hip_status_from_u32 code =
     (if code = 0 then Some HipSuccess
      else if code = 1 then Some HipErrorInvalidValue
      else if code = 2 then Some HipErrorOutOfMemory
      else if code = 3 then Some HipErrorNotInitialized
      else if code = 4 then Some HipErrorDeinitialized
      else if code = 35 then Some HipErrorInsufficientDriver
      else if code = 53 then Some HipErrorPriorLaunchFailure
      else if code = 701 then Some HipErrorLaunchOutOfResources
      else if code = 702 then Some HipErrorLaunchTimeOut
      else if code = 719 then Some HipErrorLaunchFailure
      else if code = 500 then Some HipErrorNotFound
      else if code = 600 then Some HipErrorNotReady
      else if code = 700 then Some HipErrorIllegalAddress
      else None)"

definition error_kind_from_raw :: "u32 \<Rightarrow> error_kind" where
  "error_kind_from_raw code =
     (case hip_status_from_u32 code of
        Some HipErrorInvalidValue \<Rightarrow> KindInvalidValue
      | Some HipErrorOutOfMemory \<Rightarrow> KindOutOfMemory
      | Some HipErrorNotInitialized \<Rightarrow> KindNotInitialized
      | Some HipErrorDeinitialized \<Rightarrow> KindDeinitialized
      | Some HipErrorInsufficientDriver \<Rightarrow> KindInsufficientDriver
      | Some HipErrorPriorLaunchFailure \<Rightarrow> KindPriorLaunchFailure
      | Some HipErrorLaunchOutOfResources \<Rightarrow> KindLaunchOutOfResources
      | Some HipErrorLaunchTimeOut \<Rightarrow> KindLaunchTimeout
      | Some HipErrorLaunchFailure \<Rightarrow> KindLaunchFailure
      | Some HipErrorNotFound \<Rightarrow> KindNotFound
      | Some HipErrorNotReady \<Rightarrow> KindNotReady
      | Some HipErrorIllegalAddress \<Rightarrow> KindIllegalAddress
      | _ \<Rightarrow> KindUnknown code)"

fun hip_status_code :: "hip_status \<Rightarrow> u32" where
  "hip_status_code HipSuccess = 0"
| "hip_status_code HipErrorInvalidValue = 1"
| "hip_status_code HipErrorOutOfMemory = 2"
| "hip_status_code HipErrorNotInitialized = 3"
| "hip_status_code HipErrorDeinitialized = 4"
| "hip_status_code HipErrorInsufficientDriver = 35"
| "hip_status_code HipErrorPriorLaunchFailure = 53"
| "hip_status_code HipErrorNotFound = 500"
| "hip_status_code HipErrorNotReady = 600"
| "hip_status_code HipErrorIllegalAddress = 700"
| "hip_status_code HipErrorLaunchOutOfResources = 701"
| "hip_status_code HipErrorLaunchTimeOut = 702"
| "hip_status_code HipErrorLaunchFailure = 719"
| "hip_status_code HipErrorNotSupported = - 1"
| "hip_status_code (HipErrorOther n) = - 1"

type_synonym device_uuid = "u8 list"
type_synonym pci_bus_id = string

datatype hip_error =
    Runtime error_kind u32 string
  | NoSuchDevice c_int c_int
  | NoDeviceWithPciBusId pci_bus_id
  | NoDeviceWithUuid device_uuid
  | DeviceMismatch string c_int c_int
  | InvalidPciBusId string
  | HipOutOfMemory usize u64
  | LaunchFailure string hip_error
  | UnsupportedIsa string string
  | HipInternal string

definition runtime_error :: "u32 \<Rightarrow> string \<Rightarrow> hip_error" where
  "runtime_error code op = Runtime (error_kind_from_raw code) code op"

definition hip_check :: "hip_status \<Rightarrow> string \<Rightarrow> (unit, hip_error) result" where
  "hip_check status op =
     (if status = HipSuccess then Ok () else Err (runtime_error (hip_status_code status) op))"

text \<open>The calls, with what the wrapper passes, and the replies, with every output a call can write.\<close>

datatype native_call =
    GetDeviceCount
  | GetDeviceProperties c_int
  | DeviceGetUuid c_int
  | DeviceGetPciBusId nat c_int
  | SetDevice c_int
  | MemGetInfo
  | DeviceSynchronize
  | Malloc usize
  | FreeBuffer nat
  | MemcpyHostToDevice nat usize
  | MemcpyDeviceToHost nat usize
  | MemcpyHostToDeviceAsync nat usize nat
  | MemsetZero nat usize
  | StreamCreate
  | StreamSynchronize nat
  | StreamDestroy nat
  | EventCreate
  | EventRecord nat nat
  | EventSynchronize nat
  | EventElapsedTime nat nat
  | EventDestroy nat

record raw_device_props =
  raw_arch_name :: bytes
  raw_name :: bytes
  raw_total_global_mem :: usize
  raw_multi_processor_count :: c_int
  raw_warp_size :: c_int
  raw_max_threads_per_block :: c_int
  raw_shared_mem_per_block :: usize
  raw_clock_rate :: c_int

record native_reply =
  status :: hip_status
  handle_out :: nat
  count_out :: c_int
  props_out :: raw_device_props
  bytes_out :: bytes
  free_out :: usize
  total_out :: usize
  elapsed_out :: u32

type_synonym native_event = "native_call \<times> native_reply"
type_synonym native_log = "native_event list"
type_synonym runtime = "native_log \<Rightarrow> native_call \<Rightarrow> native_reply"

definition invoke :: "runtime \<Rightarrow> native_call \<Rightarrow> native_log \<Rightarrow> native_reply \<times> native_log" where
  "invoke rt c log = (rt log c, log @ [(c, rt log c)])"

definition checked_call ::
  "runtime \<Rightarrow> native_call \<Rightarrow> string \<Rightarrow> native_log \<Rightarrow> (unit, hip_error) result \<times> native_log" where
  "checked_call rt c op log = (case invoke rt c log of (r, log) \<Rightarrow> (hip_check (status r) op, log))"

subsection \<open>Facts\<close>

lemma hip_check_iffs [simp]:
  "hip_check st op = Ok u \<longleftrightarrow> st = HipSuccess"
  "hip_check st op = Err e \<longleftrightarrow> st \<noteq> HipSuccess \<and> e = runtime_error (hip_status_code st) op"
  "hip_check st op \<noteq> Panic"
  by (auto simp: hip_check_def)

text \<open>The two tables agree: the code of a status that is in the table is classified as that status.\<close>

lemma status_code_round_trip:
  "hip_status_code st \<noteq> - 1 \<Longrightarrow> hip_status_from_u32 (hip_status_code st) = Some st"
  by (cases st) (simp_all add: hip_status_from_u32_def)

text \<open>What a call adds to the log, and how a call that is checked ends.\<close>

lemma checked_call_log:
  "checked_call rt c op log = (r, log') \<longleftrightarrow>
     log' = log @ [(c, rt log c)] \<and> r = hip_check (status (rt log c)) op"
  by (auto simp: checked_call_def invoke_def)

definition succeeded :: "native_log \<Rightarrow> native_call \<Rightarrow> bool" where
  "succeeded log c \<longleftrightarrow> (\<exists>r. (c, r) \<in> set log \<and> status r = HipSuccess)"

lemma succeeded_append [simp]: "succeeded (log @ log') c \<longleftrightarrow> succeeded log c \<or> succeeded log' c"
  by (auto simp: succeeded_def)

lemma succeeded_Nil [simp]: "\<not> succeeded [] c"
  by (simp add: succeeded_def)

lemma succeeded_Cons [simp]:
  "succeeded ((d, r) # log) c \<longleftrightarrow> (c = d \<and> status r = HipSuccess) \<or> succeeded log c"
  by (auto simp: succeeded_def)

end
