(* ===== verification/Hip_Device.thy ===== *)
theory Hip_Device
  imports Hip_Native
begin

text \<open>
  Device discovery and selection (src/crates/hipcore/src/device.rs): PCI bus identifiers, the identity
  of a device, the queries that describe a device, and the operations that open one. A Rust string is
  its list of characters, one per byte. Of an \<open>Internal\<close> error only the part that names its cause is
  kept. The handle \<open>Device\<close> is shared through an \<open>Arc\<close> and immutable, so it is the record it points to.
\<close>

subsection \<open>PCI bus identifiers\<close>

definition string_of_bytes :: "bytes \<Rightarrow> string" where
  "string_of_bytes bs = map (\<lambda>b. char_of (unat b)) bs"

definition to_ascii_lowercase :: "char \<Rightarrow> char" where
  "to_ascii_lowercase c = (if is_ascii_uppercase c then char_of (of_char c + 32 :: nat) else c)"

definition hex_value :: "char \<Rightarrow> nat" where
  "hex_value c =
     (if CHR ''0'' \<le> c \<and> c \<le> CHR ''9'' then of_char c - 48
      else if CHR ''a'' \<le> c \<and> c \<le> CHR ''f'' then of_char c - 97 + 10
      else if CHR ''A'' \<le> c \<and> c \<le> CHR ''F'' then of_char c - 65 + 10
      else 255)"

definition is_ascii_hexdigit :: "char \<Rightarrow> bool" where
  "is_ascii_hexdigit c \<longleftrightarrow>
     CHR ''0'' \<le> c \<and> c \<le> CHR ''9'' \<or> CHR ''a'' \<le> c \<and> c \<le> CHR ''f'' \<or> CHR ''A'' \<le> c \<and> c \<le> CHR ''F''"

definition valid_pci_bus_id :: "string \<Rightarrow> bool" where
  "valid_pci_bus_id s \<longleftrightarrow>
     length s = 12 \<and> s ! 4 = CHR '':'' \<and> s ! 7 = CHR '':'' \<and> s ! 10 = CHR ''.'' \<and>
     list_all (\<lambda>i. is_ascii_hexdigit (s ! i)) (filter (\<lambda>i. i \<noteq> 4 \<and> i \<noteq> 7 \<and> i \<noteq> 10) [0..<length s]) \<and>
     hex_value (s ! 8) * 16 + hex_value (s ! 9) \<le> 0x1f \<and> hex_value (s ! 11) \<le> 0x07"

definition pci_bus_id_new :: "string \<Rightarrow> (pci_bus_id, hip_error) result" where
  "pci_bus_id_new s =
     (if valid_pci_bus_id s then Ok (map to_ascii_lowercase s) else Err (InvalidPciBusId s))"

subsection \<open>Identity and selectors\<close>

record device_identity =
  identity_uuid :: "device_uuid option"
  identity_pci_bus_id :: pci_bus_id

definition uuid_is_nil :: "device_uuid \<Rightarrow> bool" where
  "uuid_is_nil u \<longleftrightarrow> u = replicate 16 0"

definition identity_from_runtime :: "device_uuid option \<Rightarrow> pci_bus_id \<Rightarrow> device_identity" where
  "identity_from_runtime u pci =
     \<lparr>identity_uuid = (case u of None \<Rightarrow> None | Some u \<Rightarrow> if uuid_is_nil u then None else Some u),
      identity_pci_bus_id = pci\<rparr>"

datatype device_selector =
    SelectOrdinal c_int
  | SelectUuid device_uuid
  | SelectPciBusId pci_bus_id

definition preferred_selector :: "device_identity \<Rightarrow> device_selector" where
  "preferred_selector ident =
     (case identity_uuid ident of
        Some u \<Rightarrow> SelectUuid u
      | None \<Rightarrow> SelectPciBusId (identity_pci_bus_id ident))"

record device_props =
  props_isa :: string
  props_name :: string
  props_total_vram_bytes :: u64
  props_compute_units :: u32
  props_wavefront_size :: u32
  props_max_threads_per_block :: u32
  props_max_shared_mem_per_block :: u32
  props_clock_rate_khz :: u32
  props_identity :: device_identity

record device_info =
  info_ordinal :: c_int
  info_props :: device_props

definition info_identity :: "device_info \<Rightarrow> device_identity" where
  "info_identity info = props_identity (info_props info)"

fun selector_matches :: "device_selector \<Rightarrow> device_info \<Rightarrow> bool" where
  "selector_matches (SelectOrdinal i) info \<longleftrightarrow> info_ordinal info = i"
| "selector_matches (SelectUuid u) info \<longleftrightarrow> identity_uuid (info_identity info) = Some u"
| "selector_matches (SelectPciBusId p) info \<longleftrightarrow> identity_pci_bus_id (info_identity info) = p"

fun not_found :: "device_selector \<Rightarrow> c_int \<Rightarrow> hip_error" where
  "not_found (SelectOrdinal i) n = NoSuchDevice i n"
| "not_found (SelectUuid u) n = NoDeviceWithUuid u"
| "not_found (SelectPciBusId p) n = NoDeviceWithPciBusId p"

definition matches_target_architecture :: "device_props \<Rightarrow> bool" where
  "matches_target_architecture p \<longleftrightarrow> matches_configured_architecture (props_isa p)"

definition require_target :: "device_props \<Rightarrow> (unit, hip_error) result" where
  "require_target p =
     (if matches_target_architecture p then Ok ()
      else Err (UnsupportedIsa (props_isa p) configured_target_token))"

subsection \<open>Queries\<close>

definition device_prop_u32 :: "string \<Rightarrow> int \<Rightarrow> (u32, hip_error) result" where
  "device_prop_u32 field v =
     (if 0 \<le> v \<and> v < 2 ^ 32 then Ok (word_of_int v) else Err (HipInternal field))"

text \<open>\<open>u64::try_from(n).unwrap_or(u64::MAX)\<close>\<close>

definition u64_saturated :: "usize \<Rightarrow> u64" where
  "u64_saturated n = (case u64_of_usize n of Some w \<Rightarrow> w | None \<Rightarrow> - 1)"

definition cstr_from_array :: "bytes \<Rightarrow> string" where
  "cstr_from_array bs = string_of_bytes (lossy (takeWhile (\<lambda>b. b \<noteq> 0) bs))"

definition props_from_raw ::
  "raw_device_props \<Rightarrow> device_uuid option \<Rightarrow> pci_bus_id \<Rightarrow> (device_props, hip_error) result" where
  "props_from_raw raw u pci =
     and_then (device_prop_u32 ''multiProcessorCount'' (raw_multi_processor_count raw)) (\<lambda>units.
     and_then (device_prop_u32 ''warpSize'' (raw_warp_size raw)) (\<lambda>warp.
     and_then (device_prop_u32 ''maxThreadsPerBlock'' (raw_max_threads_per_block raw)) (\<lambda>threads.
     and_then (device_prop_u32 ''sharedMemPerBlock'' (int (raw_shared_mem_per_block raw))) (\<lambda>shared.
     and_then (device_prop_u32 ''clockRate'' (raw_clock_rate raw)) (\<lambda>clock.
     Ok \<lparr>props_isa = cstr_from_array (raw_arch_name raw), props_name = cstr_from_array (raw_name raw),
         props_total_vram_bytes = u64_saturated (raw_total_global_mem raw),
         props_compute_units = units, props_wavefront_size = warp,
         props_max_threads_per_block = threads, props_max_shared_mem_per_block = shared,
         props_clock_rate_khz = clock, props_identity = identity_from_runtime u pci\<rparr>)))))"

definition device_count :: "runtime \<Rightarrow> native_log \<Rightarrow> (c_int, hip_error) result \<times> native_log" where
  "device_count rt log =
     (case invoke rt GetDeviceCount log of (r, log) \<Rightarrow>
      attempt (hip_check (status r) ''hipGetDeviceCount'') log (\<lambda>_. (Ok (count_out r), log)))"

text \<open>An output buffer of a fixed size, zeroed before the call.\<close>

definition output_buffer :: "nat \<Rightarrow> bytes \<Rightarrow> bytes" where
  "output_buffer n bs = take n (bs @ replicate n 0)"

definition uuid_from_query :: "hip_status \<Rightarrow> bytes \<Rightarrow> (device_uuid option, hip_error) result" where
  "uuid_from_query st raw =
     (if st = HipSuccess then Ok (Some raw)
      else if st = HipErrorNotSupported then Ok None
      else and_then (hip_check st ''hipDeviceGetUuid'') (\<lambda>_. Err (HipInternal ''hipDeviceGetUuid'')))"

definition query_device_uuid ::
  "runtime \<Rightarrow> c_int \<Rightarrow> native_log \<Rightarrow> (device_uuid option, hip_error) result \<times> native_log" where
  "query_device_uuid rt ordinal log =
     (case invoke rt (DeviceGetUuid ordinal) log of (r, log) \<Rightarrow>
      (uuid_from_query (status r) (output_buffer 16 (bytes_out r)), log))"

definition query_pci_bus_id ::
  "runtime \<Rightarrow> c_int \<Rightarrow> native_log \<Rightarrow> (pci_bus_id, hip_error) result \<times> native_log" where
  "query_pci_bus_id rt ordinal log =
     (case invoke rt (DeviceGetPciBusId 32 ordinal) log of (r, log) \<Rightarrow>
      (and_then (hip_check (status r) ''hipDeviceGetPCIBusId'') (\<lambda>_.
         pci_bus_id_new (cstr_from_array (output_buffer 32 (bytes_out r)))), log))"

definition query_device ::
  "runtime \<Rightarrow> c_int \<Rightarrow> native_log \<Rightarrow> (device_info, hip_error) result \<times> native_log" where
  "query_device rt ordinal log =
     proceed (device_count rt log) (\<lambda>n log.
     if ordinal < 0 \<or> ordinal \<ge> n then (Err (NoSuchDevice ordinal n), log)
     else case invoke rt (GetDeviceProperties ordinal) log of (raw, log) \<Rightarrow>
     attempt (hip_check (status raw) ''hipGetDeviceProperties'') log (\<lambda>_.
     proceed (query_device_uuid rt ordinal log) (\<lambda>u log.
     proceed (query_pci_bus_id rt ordinal log) (\<lambda>pci log.
     attempt (props_from_raw (props_out raw) u pci) log (\<lambda>p.
     (Ok \<lparr>info_ordinal = ordinal, info_props = p\<rparr>, log))))))"

fun query_devices ::
  "runtime \<Rightarrow> c_int list \<Rightarrow> native_log \<Rightarrow> (device_info list, hip_error) result \<times> native_log" where
  "query_devices rt [] log = (Ok [], log)"
| "query_devices rt (i # is) log =
     proceed (query_device rt i log) (\<lambda>info log.
     proceed (query_devices rt is log) (\<lambda>infos log. (Ok (info # infos), log)))"

definition enumerate_devices ::
  "runtime \<Rightarrow> native_log \<Rightarrow> (device_info list, hip_error) result \<times> native_log" where
  "enumerate_devices rt log =
     proceed (device_count rt log) (\<lambda>n log. query_devices rt [0 .. n - 1] log)"

subsection \<open>Opening a device\<close>

record hip_device =
  device_ordinal :: c_int
  device_props :: device_props

definition open_info :: "runtime \<Rightarrow> device_info \<Rightarrow> native_log \<Rightarrow> (hip_device, hip_error) result \<times> native_log" where
  "open_info rt info log =
     attempt (require_target (info_props info)) log (\<lambda>_.
     proceed (checked_call rt (SetDevice (info_ordinal info)) ''hipSetDevice'' log) (\<lambda>_ log.
     (Ok \<lparr>device_ordinal = info_ordinal info, device_props = info_props info\<rparr>, log)))"

definition device_new :: "runtime \<Rightarrow> c_int \<Rightarrow> native_log \<Rightarrow> (hip_device, hip_error) result \<times> native_log" where
  "device_new rt ordinal log = proceed (query_device rt ordinal log) (open_info rt)"

definition select_optional ::
  "runtime \<Rightarrow> device_selector \<Rightarrow> native_log \<Rightarrow> (hip_device option, hip_error) result \<times> native_log" where
  "select_optional rt sel log =
     proceed (enumerate_devices rt log) (\<lambda>devices log.
     case find (selector_matches sel) devices of
       None \<Rightarrow> (Ok None, log)
     | Some info \<Rightarrow> proceed (open_info rt info log) (\<lambda>d log. (Ok (Some d), log)))"

definition device_select ::
  "runtime \<Rightarrow> device_selector \<Rightarrow> native_log \<Rightarrow> (hip_device, hip_error) result \<times> native_log" where
  "device_select rt sel log =
     proceed (select_optional rt sel log) (\<lambda>found log.
     case found of
       Some d \<Rightarrow> (Ok d, log)
     | None \<Rightarrow> proceed (device_count rt log) (\<lambda>n log. (Err (not_found sel n), log)))"

definition make_current :: "runtime \<Rightarrow> hip_device \<Rightarrow> native_log \<Rightarrow> (unit, hip_error) result \<times> native_log" where
  "make_current rt d log = checked_call rt (SetDevice (device_ordinal d)) ''hipSetDevice'' log"

definition ensure_same_device :: "hip_device \<Rightarrow> hip_device \<Rightarrow> string \<Rightarrow> (unit, hip_error) result" where
  "ensure_same_device expected actual op =
     (if device_ordinal expected = device_ordinal actual then Ok ()
      else Err (DeviceMismatch op (device_ordinal expected) (device_ordinal actual)))"

record memory_budget =
  budget_free :: u64
  budget_total :: u64

definition device_memory_budget ::
  "runtime \<Rightarrow> hip_device \<Rightarrow> native_log \<Rightarrow> (memory_budget, hip_error) result \<times> native_log" where
  "device_memory_budget rt d log =
     proceed (make_current rt d log) (\<lambda>_ log.
     case invoke rt MemGetInfo log of (r, log) \<Rightarrow>
     attempt (hip_check (status r) ''hipMemGetInfo'') log (\<lambda>_.
     (Ok \<lparr>budget_free = u64_saturated (free_out r), budget_total = u64_saturated (total_out r)\<rparr>, log)))"

definition device_synchronize ::
  "runtime \<Rightarrow> hip_device \<Rightarrow> native_log \<Rightarrow> (unit, hip_error) result \<times> native_log" where
  "device_synchronize rt d log =
     proceed (make_current rt d log) (\<lambda>_ log.
     checked_call rt DeviceSynchronize ''hipDeviceSynchronize'' log)"

end
