(* ===== verification/Hip_Ownership.thy ===== *)
theory Hip_Ownership
  imports Hip_Device
begin

text \<open>
  Owned native resources: the creation driver (src/crates/hipcore/src/creation.rs), device buffers and
  pending copies (memory.rs), streams and events (stream.rs), and the owners that explicit teardown
  holds them in (teardown.rs), with their ordinary destructors (\<open>Drop\<close>) and their explicit releases.

  The element type of a buffer only matters through its size, which is an argument of the constructors.
  What a destructor would print is dropped. Locations of errors are dropped.
\<close>

subsection \<open>Creating a handle\<close>

text \<open>
  A \<open>CreationPort\<close> is the preflight, the creation call with what it leaves in the output slot, and the
  error for a success that leaves the slot null. The slot is null before the call.
\<close>

datatype creation_attempt =
    CreatedHandle nat
  | NoHandle hip_error
  | IndeterminateHandle nat hip_error
  | CreationPanic

datatype ('r, 'q) creation_resolution =
    Created 'r
  | CreationNoHandle hip_error
  | CreationQuarantined 'q
  | ResolutionPanic

record creation_port =
  port_preflight :: "native_log \<Rightarrow> (unit, hip_error) result \<times> native_log"
  port_create :: "native_log \<Rightarrow> ((unit, hip_error) result \<times> nat) \<times> native_log"
  port_success_with_null_error :: hip_error

definition attempt_creation :: "creation_port \<Rightarrow> native_log \<Rightarrow> creation_attempt \<times> native_log" where
  "attempt_creation port log =
     (case port_preflight port log of
        (Err e, log) \<Rightarrow> (NoHandle e, log)
      | (Panic, log) \<Rightarrow> (CreationPanic, log)
      | (Ok _, log) \<Rightarrow>
          (case port_create port log of ((reply, slot), log) \<Rightarrow>
            ((case reply of
                Ok _ \<Rightarrow> if slot = 0 then NoHandle (port_success_with_null_error port) else CreatedHandle slot
              | Err e \<Rightarrow> if slot = 0 then NoHandle e else IndeterminateHandle slot e
              | Panic \<Rightarrow> CreationPanic), log)))"

definition resolve_creation ::
  "creation_attempt \<Rightarrow> (nat \<Rightarrow> ('r, hip_error) result) \<Rightarrow> (nat \<Rightarrow> hip_error \<Rightarrow> 'q) \<Rightarrow>
   ('r, 'q) creation_resolution" where
  "resolve_creation a wrap_created quarantine =
     (case a of
        CreatedHandle h \<Rightarrow>
          (case wrap_created h of
             Ok r \<Rightarrow> Created r
           | Err e \<Rightarrow> CreationQuarantined (quarantine h e)
           | Panic \<Rightarrow> ResolutionPanic)
      | NoHandle e \<Rightarrow> CreationNoHandle e
      | IndeterminateHandle h e \<Rightarrow> CreationQuarantined (quarantine h e)
      | CreationPanic \<Rightarrow> ResolutionPanic)"

subsection \<open>Teardown owners\<close>

datatype resource_kind = BufferResource | StreamResource

datatype teardown_entry_id = StandaloneEntry | StreamEntry | BufferEntry usize

datatype teardown_phase = PreflightPhase | SynchronizationPhase | DestructorPhase

record resource_metadata =
  meta_kind :: resource_kind
  meta_requested_bytes :: usize
  meta_device :: hip_device
  meta_entry :: teardown_entry_id

datatype teardown_error =
    PreflightFailure resource_metadata hip_error
  | SynchronizationFailure resource_metadata hip_error
  | DestructorFailure resource_metadata hip_error

fun teardown_error_resource :: "teardown_error \<Rightarrow> resource_metadata" where
  "teardown_error_resource (PreflightFailure m e) = m"
| "teardown_error_resource (SynchronizationFailure m e) = m"
| "teardown_error_resource (DestructorFailure m e) = m"

fun teardown_error_phase :: "teardown_error \<Rightarrow> teardown_phase" where
  "teardown_error_phase (PreflightFailure m e) = PreflightPhase"
| "teardown_error_phase (SynchronizationFailure m e) = SynchronizationPhase"
| "teardown_error_phase (DestructorFailure m e) = DestructorPhase"

text \<open>A receipt is the metadata it acknowledges, a tombstone the error it records.\<close>

type_synonym release_receipt = resource_metadata
type_synonym teardown_tombstone = teardown_error

record release_owner =
  own_handle :: nat
  own_metadata :: resource_metadata

definition owner_with_entry :: "release_owner \<Rightarrow> teardown_entry_id \<Rightarrow> release_owner" where
  "owner_with_entry w entry = w\<lparr>own_metadata := own_metadata w\<lparr>meta_entry := entry\<rparr>\<rparr>"

record pending_owner =
  pend_owner :: release_owner
  pend_error :: teardown_error

definition owner_pending :: "release_owner \<Rightarrow> teardown_phase \<Rightarrow> hip_error \<Rightarrow> pending_owner" where
  "owner_pending w phase source =
     \<lparr>pend_owner = w,
      pend_error =
        (case phase of
           PreflightPhase \<Rightarrow> PreflightFailure (own_metadata w) source
         | SynchronizationPhase \<Rightarrow> SynchronizationFailure (own_metadata w) source
         | DestructorPhase \<Rightarrow> DestructorFailure (own_metadata w) source)\<rparr>"

type_synonym owner_operation = "release_owner \<Rightarrow> native_log \<Rightarrow> (unit, hip_error) result \<times> native_log"

definition owner_prepare ::
  "release_owner \<Rightarrow> teardown_phase \<Rightarrow> owner_operation \<Rightarrow> native_log \<Rightarrow>
   (release_owner, pending_owner) result \<times> native_log" where
  "owner_prepare w phase operation log =
     (case operation w log of
        (Err source, log) \<Rightarrow> (Err (owner_pending w phase source), log)
      | (Ok _, log) \<Rightarrow> (Ok w, log)
      | (Panic, log) \<Rightarrow> (Panic, log))"

datatype release_attempt =
    AttemptReleased release_receipt
  | AttemptPending pending_owner
  | AttemptQuarantined release_owner teardown_tombstone
  | AttemptPanic

definition owner_attempt ::
  "release_owner \<Rightarrow> teardown_phase \<Rightarrow> owner_operation \<Rightarrow> owner_operation \<Rightarrow> native_log \<Rightarrow>
   release_attempt \<times> native_log" where
  "owner_attempt w phase prepare destroy log =
     (case owner_prepare w phase prepare log of
        (Err p, log) \<Rightarrow> (AttemptPending p, log)
      | (Panic, log) \<Rightarrow> (AttemptPanic, log)
      | (Ok w, log) \<Rightarrow>
          (case destroy w log of
             (Err source, log) \<Rightarrow> (AttemptQuarantined w (DestructorFailure (own_metadata w) source), log)
           | (Ok _, log) \<Rightarrow> (AttemptReleased (own_metadata w), log)
           | (Panic, log) \<Rightarrow> (AttemptPanic, log)))"

datatype quiesce_attempt =
    Quiesced release_owner
  | QuiescePreflightPending pending_owner
  | QuiesceUnconfirmed pending_owner
  | QuiescePanic

definition select_owner_device :: "runtime \<Rightarrow> owner_operation" where
  "select_owner_device rt w log = make_current rt (meta_device (own_metadata w)) log"

definition attempt_buffer_release :: "runtime \<Rightarrow> release_owner \<Rightarrow> native_log \<Rightarrow> release_attempt \<times> native_log" where
  "attempt_buffer_release rt w log =
     owner_attempt w PreflightPhase (select_owner_device rt)
       (\<lambda>w log. checked_call rt (FreeBuffer (own_handle w)) ''hipFree'' log) log"

definition attempt_stream_quiesce :: "runtime \<Rightarrow> release_owner \<Rightarrow> native_log \<Rightarrow> quiesce_attempt \<times> native_log" where
  "attempt_stream_quiesce rt w log =
     (case owner_prepare w PreflightPhase (select_owner_device rt) log of
        (Err p, log) \<Rightarrow> (QuiescePreflightPending p, log)
      | (Panic, log) \<Rightarrow> (QuiescePanic, log)
      | (Ok w, log) \<Rightarrow>
          (case owner_prepare w SynchronizationPhase
              (\<lambda>w log. checked_call rt (StreamSynchronize (own_handle w)) ''hipStreamSynchronize'' log) log of
             (Ok w, log) \<Rightarrow> (Quiesced w, log)
           | (Err p, log) \<Rightarrow> (QuiesceUnconfirmed p, log)
           | (Panic, log) \<Rightarrow> (QuiescePanic, log)))"

definition attempt_stream_destroy :: "runtime \<Rightarrow> release_owner \<Rightarrow> native_log \<Rightarrow> release_attempt \<times> native_log" where
  "attempt_stream_destroy rt w log =
     owner_attempt w PreflightPhase (select_owner_device rt)
       (\<lambda>w log. checked_call rt (StreamDestroy (own_handle w)) ''hipStreamDestroy'' log) log"

subsection \<open>Device buffers\<close>

record device_buffer =
  buf_ptr :: nat
  buf_len :: usize
  buf_element_size :: usize
  buf_device :: hip_device

text \<open>A non-null output that could not become an owner, with what it was requested for.\<close>

record creation_quarantine =
  cq_error :: hip_error
  cq_resource :: resource_metadata
  cq_handle :: nat

datatype creation_error = CreateNoHandle hip_error | CreateQuarantined creation_quarantine

text \<open>\<open>len() * size_of::<T>()\<close>, which the constructor checked not to overflow.\<close>

definition byte_len :: "device_buffer \<Rightarrow> usize" where
  "byte_len b = buf_len b * buf_element_size b mod 2 ^ 64"

definition buffer_port :: "runtime \<Rightarrow> hip_device \<Rightarrow> usize \<Rightarrow> creation_port" where
  "buffer_port rt d requested_bytes =
     \<lparr>port_preflight = make_current rt d,
      port_create = (\<lambda>log.
        case invoke rt (Malloc requested_bytes) log of (r, log) \<Rightarrow>
        if status r = HipSuccess then ((Ok (), handle_out r), log)
        else if status r = HipErrorOutOfMemory then
          (case device_memory_budget rt d log of (budget, log) \<Rightarrow>
            ((Err (HipOutOfMemory requested_bytes
                (case budget of Ok b \<Rightarrow> budget_free b | _ \<Rightarrow> 0)), handle_out r), log))
        else ((Err (runtime_error (hip_status_code (status r)) ''hipMalloc''), handle_out r), log)),
      port_success_with_null_error = HipInternal ''hipMalloc returned success with null ptr''\<rparr>"

definition allocation_attempt ::
  "runtime \<Rightarrow> hip_device \<Rightarrow> usize \<Rightarrow> usize \<Rightarrow> native_log \<Rightarrow>
   (usize \<times> creation_attempt, hip_error) result \<times> native_log" where
  "allocation_attempt rt d element_size len log =
     attempt (ok_or (HipInternal ''allocation size overflow'') (usize_mul len element_size)) log
       (\<lambda>requested_bytes.
         case attempt_creation (buffer_port rt d requested_bytes) log of (a, log) \<Rightarrow>
         (Ok (requested_bytes, a), log))"

definition buffer_from_created ::
  "hip_device \<Rightarrow> usize \<Rightarrow> usize \<Rightarrow> nat \<Rightarrow> (device_buffer, hip_error) result" where
  "buffer_from_created d element_size len ptr =
     (if ptr = 0 then Err (HipInternal ''hipMalloc returned success with null ptr'')
      else Ok \<lparr>buf_ptr = ptr, buf_len = len, buf_element_size = element_size, buf_device = d\<rparr>)"

definition buffer_alloc ::
  "runtime \<Rightarrow> hip_device \<Rightarrow> usize \<Rightarrow> usize \<Rightarrow> native_log \<Rightarrow> (device_buffer, hip_error) result \<times> native_log"
where
  "buffer_alloc rt d element_size len log =
     proceed (allocation_attempt rt d element_size len log) (\<lambda>(_, a) log.
     ((case resolve_creation a (buffer_from_created d element_size len) (\<lambda>_ e. e) of
         Created b \<Rightarrow> Ok b
       | CreationNoHandle e \<Rightarrow> Err e
       | CreationQuarantined e \<Rightarrow> Err e
       | ResolutionPanic \<Rightarrow> Panic), log))"

definition buffer_alloc_tracked ::
  "runtime \<Rightarrow> hip_device \<Rightarrow> usize \<Rightarrow> usize \<Rightarrow> native_log \<Rightarrow>
   (device_buffer, creation_error) result \<times> native_log" where
  "buffer_alloc_tracked rt d element_size len log =
     (case allocation_attempt rt d element_size len log of
        (Err e, log) \<Rightarrow> (Err (CreateNoHandle e), log)
      | (Panic, log) \<Rightarrow> (Panic, log)
      | (Ok (bytes, a), log) \<Rightarrow>
          ((case resolve_creation a (buffer_from_created d element_size len)
              (\<lambda>handle e. \<lparr>cq_error = e,
                 cq_resource = \<lparr>meta_kind = BufferResource, meta_requested_bytes = bytes,
                   meta_device = d, meta_entry = StandaloneEntry\<rparr>,
                 cq_handle = handle\<rparr>) of
              Created b \<Rightarrow> Ok b
            | CreationNoHandle e \<Rightarrow> Err (CreateNoHandle e)
            | CreationQuarantined q \<Rightarrow> Err (CreateQuarantined q)
            | ResolutionPanic \<Rightarrow> Panic), log))"

text \<open>Copies. The argument \<open>data_len\<close> is the length of the host slice.\<close>

definition copy_from_host ::
  "runtime \<Rightarrow> device_buffer \<Rightarrow> usize \<Rightarrow> native_log \<Rightarrow> (unit, hip_error) result \<times> native_log" where
  "copy_from_host rt b data_len log =
     attempt (require (data_len = buf_len b) (HipInternal ''copy_from_host length mismatch'')) log (\<lambda>_.
     proceed (make_current rt (buf_device b) log) (\<lambda>_ log.
     checked_call rt (MemcpyHostToDevice (buf_ptr b) (byte_len b)) ''hipMemcpy(HtoD)'' log))"

definition zero_fill ::
  "runtime \<Rightarrow> device_buffer \<Rightarrow> native_log \<Rightarrow> (unit, hip_error) result \<times> native_log" where
  "zero_fill rt b log =
     proceed (make_current rt (buf_device b) log) (\<lambda>_ log.
     checked_call rt (MemsetZero (buf_ptr b) (byte_len b)) ''hipMemset'' log)"

definition copy_to_host ::
  "runtime \<Rightarrow> device_buffer \<Rightarrow> usize \<Rightarrow> native_log \<Rightarrow> (unit, hip_error) result \<times> native_log" where
  "copy_to_host rt b data_len log =
     attempt (require (data_len = buf_len b) (HipInternal ''copy_to_host length mismatch'')) log (\<lambda>_.
     proceed (make_current rt (buf_device b) log) (\<lambda>_ log.
     checked_call rt (MemcpyDeviceToHost (buf_ptr b) (byte_len b)) ''hipMemcpy(DtoH)'' log))"

text \<open>\<open>impl Drop for DeviceBuffer\<close>: select the device, then free; never free after a failed selection.\<close>

definition buffer_drop :: "runtime \<Rightarrow> device_buffer \<Rightarrow> native_log \<Rightarrow> native_log" where
  "buffer_drop rt b log =
     (case make_current rt (buf_device b) log of
        (Ok _, log) \<Rightarrow> snd (invoke rt (FreeBuffer (buf_ptr b)) log)
      | (_, log) \<Rightarrow> log)"

definition buffer_from_host ::
  "runtime \<Rightarrow> hip_device \<Rightarrow> usize \<Rightarrow> usize \<Rightarrow> native_log \<Rightarrow> (device_buffer, hip_error) result \<times> native_log"
where
  "buffer_from_host rt d element_size data_len log =
     proceed (buffer_alloc rt d element_size data_len log) (\<lambda>b log.
     case copy_from_host rt b data_len log of
       (Ok _, log) \<Rightarrow> (Ok b, log)
     | (Err e, log) \<Rightarrow> (Err e, buffer_drop rt b log)
     | (Panic, log) \<Rightarrow> (Panic, buffer_drop rt b log))"

definition buffer_into_release_owner :: "device_buffer \<Rightarrow> teardown_entry_id \<Rightarrow> release_owner" where
  "buffer_into_release_owner b entry =
     \<lparr>own_handle = buf_ptr b,
      own_metadata = \<lparr>meta_kind = BufferResource, meta_requested_bytes = byte_len b,
        meta_device = buf_device b, meta_entry = entry\<rparr>\<rparr>"

definition into_teardown :: "device_buffer \<Rightarrow> release_owner" where
  "into_teardown b = buffer_into_release_owner b StandaloneEntry"

datatype buffer_release =
    BufferReleased release_receipt
  | BufferPending pending_owner
  | BufferQuarantined release_owner teardown_tombstone
  | BufferReleasePanic

definition map_buffer_release :: "runtime \<Rightarrow> release_owner \<Rightarrow> native_log \<Rightarrow> buffer_release \<times> native_log" where
  "map_buffer_release rt w log =
     (case attempt_buffer_release rt w log of (a, log) \<Rightarrow>
       ((case a of
           AttemptReleased receipt \<Rightarrow> BufferReleased receipt
         | AttemptPending p \<Rightarrow> BufferPending p
         | AttemptQuarantined w t \<Rightarrow> BufferQuarantined w t
         | AttemptPanic \<Rightarrow> BufferReleasePanic), log))"

text \<open>\<open>DeviceBuffer::begin_release\<close> and \<open>PendingBufferTeardown::retry\<close>.\<close>

definition buffer_begin_release :: "runtime \<Rightarrow> device_buffer \<Rightarrow> native_log \<Rightarrow> buffer_release \<times> native_log" where
  "buffer_begin_release rt b log = map_buffer_release rt (into_teardown b) log"

definition pending_buffer_retry :: "runtime \<Rightarrow> pending_owner \<Rightarrow> native_log \<Rightarrow> buffer_release \<times> native_log" where
  "pending_buffer_retry rt p log = map_buffer_release rt (pend_owner p) log"

end
