(* ===== verification/Hip_Streams.thy ===== *)
theory Hip_Streams
  imports Hip_Ownership
begin

text \<open>
  Streams, events (src/crates/hipcore/src/stream.rs) and copies in flight (\<open>PendingCopy\<close> in
  memory.rs). A stream that does not own its handle is the device's NULL stream. The host vector of a
  copy is kept abstract, as its length; \<open>hb_freed\<close> and \<open>hb_leaked\<close> say what became of it.
\<close>

subsection \<open>Streams\<close>

record hip_stream =
  stream_handle :: nat
  stream_device :: hip_device
  stream_owns_handle :: bool

definition stream_port :: "runtime \<Rightarrow> hip_device \<Rightarrow> creation_port" where
  "stream_port rt d =
     \<lparr>port_preflight = make_current rt d,
      port_create = (\<lambda>log.
        case invoke rt StreamCreate log of (r, log) \<Rightarrow>
        ((hip_check (status r) ''hipStreamCreateWithFlags'', handle_out r), log)),
      port_success_with_null_error =
        HipInternal ''hipStreamCreateWithFlags returned success with null handle''\<rparr>"

definition stream_creation_attempt :: "runtime \<Rightarrow> hip_device \<Rightarrow> native_log \<Rightarrow> creation_attempt \<times> native_log" where
  "stream_creation_attempt rt d log = attempt_creation (stream_port rt d) log"

definition stream_from_created :: "hip_device \<Rightarrow> nat \<Rightarrow> (hip_stream, hip_error) result" where
  "stream_from_created d handle =
     (if handle = 0 then Err (HipInternal ''hipStreamCreateWithFlags returned success with null handle'')
      else Ok \<lparr>stream_handle = handle, stream_device = d, stream_owns_handle = True\<rparr>)"

definition stream_new :: "runtime \<Rightarrow> hip_device \<Rightarrow> native_log \<Rightarrow> (hip_stream, hip_error) result \<times> native_log" where
  "stream_new rt d log =
     (case stream_creation_attempt rt d log of (a, log) \<Rightarrow>
       ((case resolve_creation a (stream_from_created d) (\<lambda>_ e. e) of
           Created s \<Rightarrow> Ok s
         | CreationNoHandle e \<Rightarrow> Err e
         | CreationQuarantined e \<Rightarrow> Err e
         | ResolutionPanic \<Rightarrow> Panic), log))"

definition stream_new_tracked ::
  "runtime \<Rightarrow> hip_device \<Rightarrow> native_log \<Rightarrow> (hip_stream, creation_error) result \<times> native_log" where
  "stream_new_tracked rt d log =
     (case stream_creation_attempt rt d log of (a, log) \<Rightarrow>
       ((case resolve_creation a (stream_from_created d)
           (\<lambda>handle e. \<lparr>cq_error = e,
              cq_resource = \<lparr>meta_kind = StreamResource, meta_requested_bytes = 0, meta_device = d,
                meta_entry = StandaloneEntry\<rparr>,
              cq_handle = handle\<rparr>) of
           Created s \<Rightarrow> Ok s
         | CreationNoHandle e \<Rightarrow> Err (CreateNoHandle e)
         | CreationQuarantined q \<Rightarrow> Err (CreateQuarantined q)
         | ResolutionPanic \<Rightarrow> Panic), log))"

definition stream_null :: "hip_device \<Rightarrow> hip_stream" where
  "stream_null d = \<lparr>stream_handle = 0, stream_device = d, stream_owns_handle = False\<rparr>"

definition stream_make_current ::
  "runtime \<Rightarrow> hip_stream \<Rightarrow> native_log \<Rightarrow> (unit, hip_error) result \<times> native_log" where
  "stream_make_current rt s log = make_current rt (stream_device s) log"

definition stream_synchronize ::
  "runtime \<Rightarrow> hip_stream \<Rightarrow> native_log \<Rightarrow> (unit, hip_error) result \<times> native_log" where
  "stream_synchronize rt s log =
     proceed (stream_make_current rt s log) (\<lambda>_ log.
     checked_call rt (StreamSynchronize (stream_handle s)) ''hipStreamSynchronize'' log)"

text \<open>The refusal gives the stream back.\<close>

definition stream_into_release_owner ::
  "hip_stream \<Rightarrow> teardown_entry_id \<Rightarrow> (release_owner, hip_stream) result" where
  "stream_into_release_owner s entry =
     (if \<not> stream_owns_handle s \<or> stream_handle s = 0 then Err s
      else Ok \<lparr>own_handle = stream_handle s,
        own_metadata = \<lparr>meta_kind = StreamResource, meta_requested_bytes = 0,
          meta_device = stream_device s, meta_entry = entry\<rparr>\<rparr>)"

datatype stream_quiesce =
    QuiesceNotOwned hip_stream
  | StreamQuiescent release_owner
  | StreamQuiescePending pending_owner
  | StreamUnconfirmed pending_owner
  | StreamQuiescePanic

datatype stream_release =
    StreamReleased release_receipt
  | StreamReleasePending pending_owner
  | StreamQuarantined release_owner teardown_tombstone
  | StreamReleasePanic

fun map_stream_quiesce :: "quiesce_attempt \<Rightarrow> stream_quiesce" where
  "map_stream_quiesce (Quiesced w) = StreamQuiescent w"
| "map_stream_quiesce (QuiescePreflightPending p) = StreamQuiescePending p"
| "map_stream_quiesce (QuiesceUnconfirmed p) = StreamUnconfirmed p"
| "map_stream_quiesce QuiescePanic = StreamQuiescePanic"

text \<open>Once a synchronization went unconfirmed, a failed device selection does not make it retryable.\<close>

fun map_stream_reconciliation :: "quiesce_attempt \<Rightarrow> stream_quiesce" where
  "map_stream_reconciliation (Quiesced w) = StreamQuiescent w"
| "map_stream_reconciliation (QuiescePreflightPending p) = StreamUnconfirmed p"
| "map_stream_reconciliation (QuiesceUnconfirmed p) = StreamUnconfirmed p"
| "map_stream_reconciliation QuiescePanic = StreamQuiescePanic"

definition stream_begin_quiesce :: "runtime \<Rightarrow> hip_stream \<Rightarrow> native_log \<Rightarrow> stream_quiesce \<times> native_log" where
  "stream_begin_quiesce rt s log =
     (case stream_into_release_owner s StandaloneEntry of
        Ok w \<Rightarrow> apfst map_stream_quiesce (attempt_stream_quiesce rt w log)
      | Err s \<Rightarrow> (QuiesceNotOwned s, log)
      | Panic \<Rightarrow> (StreamQuiescePanic, log))"

definition stream_quiesce_retry :: "runtime \<Rightarrow> pending_owner \<Rightarrow> native_log \<Rightarrow> stream_quiesce \<times> native_log" where
  "stream_quiesce_retry rt p log = apfst map_stream_quiesce (attempt_stream_quiesce rt (pend_owner p) log)"

definition stream_quiesce_reconcile ::
  "runtime \<Rightarrow> pending_owner \<Rightarrow> native_log \<Rightarrow> stream_quiesce \<times> native_log" where
  "stream_quiesce_reconcile rt p log =
     apfst map_stream_reconciliation (attempt_stream_quiesce rt (pend_owner p) log)"

definition release_stream_owner :: "runtime \<Rightarrow> release_owner \<Rightarrow> native_log \<Rightarrow> stream_release \<times> native_log" where
  "release_stream_owner rt w log =
     (case attempt_stream_destroy rt w log of (a, log) \<Rightarrow>
       ((case a of
           AttemptReleased receipt \<Rightarrow> StreamReleased receipt
         | AttemptPending p \<Rightarrow> StreamReleasePending p
         | AttemptQuarantined w t \<Rightarrow> StreamQuarantined w t
         | AttemptPanic \<Rightarrow> StreamReleasePanic), log))"

definition pending_stream_destroy_retry ::
  "runtime \<Rightarrow> pending_owner \<Rightarrow> native_log \<Rightarrow> stream_release \<times> native_log" where
  "pending_stream_destroy_retry rt p log = release_stream_owner rt (pend_owner p) log"

definition stream_drop :: "runtime \<Rightarrow> hip_stream \<Rightarrow> native_log \<Rightarrow> native_log" where
  "stream_drop rt s log =
     (if stream_owns_handle s \<and> stream_handle s \<noteq> 0 then
        (case make_current rt (stream_device s) log of
           (Ok _, log) \<Rightarrow> snd (invoke rt (StreamDestroy (stream_handle s)) log)
         | (_, log) \<Rightarrow> log)
      else log)"

subsection \<open>Events\<close>

record hip_event =
  event_handle :: nat
  event_device :: hip_device
  event_owns_handle :: bool

definition event_new :: "runtime \<Rightarrow> hip_device \<Rightarrow> native_log \<Rightarrow> (hip_event, hip_error) result \<times> native_log" where
  "event_new rt d log =
     proceed (make_current rt d log) (\<lambda>_ log.
     case invoke rt EventCreate log of (r, log) \<Rightarrow>
     attempt (hip_check (status r) ''hipEventCreate'') log (\<lambda>_.
     (Ok \<lparr>event_handle = handle_out r, event_device = d, event_owns_handle = True\<rparr>, log)))"

definition stream_record ::
  "runtime \<Rightarrow> hip_stream \<Rightarrow> hip_event \<Rightarrow> native_log \<Rightarrow> (unit, hip_error) result \<times> native_log" where
  "stream_record rt s e log =
     attempt (ensure_same_device (stream_device s) (event_device e) ''hipEventRecord'') log (\<lambda>_.
     proceed (stream_make_current rt s log) (\<lambda>_ log.
     checked_call rt (EventRecord (event_handle e) (stream_handle s)) ''hipEventRecord'' log))"

definition event_synchronize ::
  "runtime \<Rightarrow> hip_event \<Rightarrow> native_log \<Rightarrow> (unit, hip_error) result \<times> native_log" where
  "event_synchronize rt e log =
     proceed (make_current rt (event_device e) log) (\<lambda>_ log.
     checked_call rt (EventSynchronize (event_handle e)) ''hipEventSynchronize'' log)"

text \<open>The result is the bit pattern of an \<open>f32\<close>.\<close>

definition event_elapsed_ms ::
  "runtime \<Rightarrow> hip_event \<Rightarrow> hip_event \<Rightarrow> native_log \<Rightarrow> (u32, hip_error) result \<times> native_log" where
  "event_elapsed_ms rt start finish log =
     attempt (ensure_same_device (event_device start) (event_device finish) ''hipEventElapsedTime'') log (\<lambda>_.
     proceed (make_current rt (event_device start) log) (\<lambda>_ log.
     case invoke rt (EventElapsedTime (event_handle start) (event_handle finish)) log of (r, log) \<Rightarrow>
     attempt (hip_check (status r) ''hipEventElapsedTime'') log (\<lambda>_. (Ok (elapsed_out r), log))))"

definition event_drop :: "runtime \<Rightarrow> hip_event \<Rightarrow> native_log \<Rightarrow> native_log" where
  "event_drop rt e log =
     (if event_owns_handle e \<and> event_handle e \<noteq> 0 then
        (case make_current rt (event_device e) log of
           (Ok _, log) \<Rightarrow> snd (invoke rt (EventDestroy (event_handle e)) log)
         | (_, log) \<Rightarrow> log)
      else log)"

subsection \<open>Copies in flight\<close>

record pending_copy =
  copy_data_len :: usize
  copy_buf :: device_buffer
  copy_stream :: hip_stream
  copy_synced :: bool

datatype host_data = HostFreed | HostLeaked | HostReturned

text \<open>
  On a refusal the destination buffer and the host vector, both moved into the call, are dropped on
  the way out.
\<close>

definition copy_from_host_async ::
  "runtime \<Rightarrow> device_buffer \<Rightarrow> usize \<Rightarrow> hip_stream \<Rightarrow> native_log \<Rightarrow>
   (pending_copy, hip_error) result \<times> native_log" where
  "copy_from_host_async rt b data_len s log =
     (case attempt (require (data_len = buf_len b)
              (HipInternal ''copy_from_host_async length mismatch'')) log (\<lambda>_.
           attempt (ensure_same_device (buf_device b) (stream_device s) ''hipMemcpyAsync(HtoD)'') log (\<lambda>_.
           proceed (stream_make_current rt s log) (\<lambda>_ log.
           checked_call rt (MemcpyHostToDeviceAsync (buf_ptr b) (byte_len b) (stream_handle s))
             ''hipMemcpyAsync(HtoD)'' log))) of
        (Ok _, log) \<Rightarrow>
          (Ok \<lparr>copy_data_len = data_len, copy_buf = b, copy_stream = s, copy_synced = False\<rparr>, log)
      | (Err e, log) \<Rightarrow> (Err e, buffer_drop rt b log)
      | (Panic, log) \<Rightarrow> (Panic, buffer_drop rt b log))"

text \<open>\<open>impl Drop for PendingCopy\<close>, then the destructor of the host vector.\<close>

definition pending_copy_drop :: "runtime \<Rightarrow> pending_copy \<Rightarrow> native_log \<Rightarrow> host_data \<times> native_log" where
  "pending_copy_drop rt c log =
     (if copy_synced c then (HostReturned, log)
      else case stream_synchronize rt (copy_stream c) log of
        (Ok _, log) \<Rightarrow> (HostFreed, buffer_drop rt (copy_buf c) log)
      | (_, log) \<Rightarrow> (HostLeaked, log))"

text \<open>
  \<open>wait\<close> gives the buffer back, or an error after the copy was dropped as above; with an error comes
  what the drop did to the host vector.
\<close>

definition pending_copy_wait ::
  "runtime \<Rightarrow> pending_copy \<Rightarrow> native_log \<Rightarrow> (device_buffer, hip_error) result \<times> host_data \<times> native_log" where
  "pending_copy_wait rt c log =
     (case stream_synchronize rt (copy_stream c) log of
        (Ok _, log) \<Rightarrow> (Ok (copy_buf c), pending_copy_drop rt (c\<lparr>copy_synced := True\<rparr>) log)
      | (Err e, log) \<Rightarrow> (Err e, pending_copy_drop rt c log)
      | (Panic, log) \<Rightarrow> (Panic, pending_copy_drop rt c log))"

end
