(* ===== verification/Hip_Inventory.thy ===== *)
theory Hip_Inventory
  imports Hip_Streams
begin

text \<open>
  The teardown of one stream with the buffers its work touches (\<open>TeardownInventory\<close> and the transition
  coordinator in src/crates/hipcore/src/teardown.rs). The coordinator is generic over its operations
  (trait \<open>InventoryOperations\<close>); here they are a record of functions, and \<open>hip_operations\<close> is the one
  the repository instantiates it with.
\<close>

subsection \<open>The inventory\<close>

record inventory_evidence =
  ev_requested_bytes :: usize
  ev_entries :: "resource_metadata list"
  ev_released :: "release_receipt list"

record inventory_accounting_error =
  iae_current_requested_bytes :: usize
  iae_additional_requested_bytes :: usize

definition evidence_new :: "resource_metadata \<Rightarrow> inventory_evidence" where
  "evidence_new stream =
     \<lparr>ev_requested_bytes = meta_requested_bytes stream, ev_entries = [stream], ev_released = []\<rparr>"

definition evidence_register ::
  "resource_metadata \<Rightarrow> inventory_evidence \<Rightarrow> (unit, inventory_accounting_error) result \<times> inventory_evidence"
where
  "evidence_register m ev =
     attempt (ok_or \<lparr>iae_current_requested_bytes = ev_requested_bytes ev,
                     iae_additional_requested_bytes = meta_requested_bytes m\<rparr>
                (usize_add (ev_requested_bytes ev) (meta_requested_bytes m))) ev
       (\<lambda>n. (Ok (), ev\<lparr>ev_requested_bytes := n, ev_entries := ev_entries ev @ [m]\<rparr>))"

definition evidence_acknowledge :: "release_receipt \<Rightarrow> inventory_evidence \<Rightarrow> inventory_evidence" where
  "evidence_acknowledge receipt ev = ev\<lparr>ev_released := ev_released ev @ [receipt]\<rparr>"

record teardown_inventory =
  inv_stream :: release_owner
  inv_buffers :: "release_owner list"
  inv_evidence :: inventory_evidence

definition inventory_try_new :: "hip_stream \<Rightarrow> (teardown_inventory, hip_stream) result" where
  "inventory_try_new s =
     and_then (stream_into_release_owner s StreamEntry) (\<lambda>w.
     Ok \<lparr>inv_stream = w, inv_buffers = [], inv_evidence = evidence_new (own_metadata w)\<rparr>)"

text \<open>A refused buffer comes back, still disarmed.\<close>

definition push_teardown_buffer ::
  "release_owner \<Rightarrow> teardown_inventory \<Rightarrow>
   (teardown_entry_id, inventory_accounting_error \<times> release_owner) result \<times> teardown_inventory" where
  "push_teardown_buffer b inventory =
     (let entry = BufferEntry (length (inv_buffers inventory)); b = owner_with_entry b entry in
      case evidence_register (own_metadata b) (inv_evidence inventory) of
        (Err e, ev) \<Rightarrow> (Err (e, b), inventory\<lparr>inv_evidence := ev\<rparr>)
      | (Panic, ev) \<Rightarrow> (Panic, inventory\<lparr>inv_evidence := ev\<rparr>)
      | (Ok _, ev) \<Rightarrow>
          (Ok entry, inventory\<lparr>inv_evidence := ev, inv_buffers := inv_buffers inventory @ [b]\<rparr>))"

definition push_buffer ::
  "device_buffer \<Rightarrow> teardown_inventory \<Rightarrow>
   (teardown_entry_id, inventory_accounting_error \<times> release_owner) result \<times> teardown_inventory" where
  "push_buffer b inventory = push_teardown_buffer (into_teardown b) inventory"

subsection \<open>The coordinator\<close>

record inventory_operations =
  op_quiesce :: "release_owner \<Rightarrow> native_log \<Rightarrow> quiesce_attempt \<times> native_log"
  op_release_buffer :: "release_owner \<Rightarrow> native_log \<Rightarrow> release_attempt \<times> native_log"
  op_release_stream :: "release_owner \<Rightarrow> native_log \<Rightarrow> release_attempt \<times> native_log"

definition hip_operations :: "runtime \<Rightarrow> inventory_operations" where
  "hip_operations rt =
     \<lparr>op_quiesce = attempt_stream_quiesce rt, op_release_buffer = attempt_buffer_release rt,
      op_release_stream = attempt_stream_destroy rt\<rparr>"

datatype pending_state =
    Synchronizing pending_owner "release_owner list"
  | Releasing release_owner pending_owner "release_owner list"
  | Destroying pending_owner

fun pending_state_error :: "pending_state \<Rightarrow> teardown_error" where
  "pending_state_error (Synchronizing stream buffers) = pend_error stream"
| "pending_state_error (Releasing stream buffer buffers) = pend_error buffer"
| "pending_state_error (Destroying stream) = pend_error stream"

record held_inventory =
  held_stream :: "release_owner option"
  held_buffer :: "release_owner option"
  held_buffers :: "release_owner list"

text \<open>
  \<open>CoordinatorOutcome\<close>, and the public \<open>InventoryRelease\<close>, which wraps the same values one to one.
\<close>

datatype coordinator_outcome =
    OutReleased inventory_evidence
  | OutPending pending_state inventory_evidence
  | OutUnconfirmed pending_owner "release_owner list" inventory_evidence
  | OutQuarantined inventory_evidence teardown_tombstone held_inventory
  | OutPanic

datatype inventory_release =
    InventoryReleased inventory_evidence
  | InventoryPending pending_state inventory_evidence
  | InventoryUnconfirmed pending_owner "release_owner list" inventory_evidence
  | InventoryQuarantined inventory_evidence teardown_tombstone held_inventory
  | InventoryPanic

definition finish_inventory ::
  "release_owner \<Rightarrow> inventory_evidence \<Rightarrow> inventory_operations \<Rightarrow> native_log \<Rightarrow>
   coordinator_outcome \<times> native_log" where
  "finish_inventory stream ev ops log =
     (case op_release_stream ops stream log of (a, log) \<Rightarrow>
       ((case a of
           AttemptReleased receipt \<Rightarrow> OutReleased (evidence_acknowledge receipt ev)
         | AttemptPending stream \<Rightarrow> OutPending (Destroying stream) ev
         | AttemptQuarantined stream t \<Rightarrow>
             OutQuarantined ev t \<lparr>held_stream = Some stream, held_buffer = None, held_buffers = []\<rparr>
         | AttemptPanic \<Rightarrow> OutPanic), log))"

text \<open>\<open>resume_buffers\<close>: first the current buffer, then the others from the end.\<close>

function resume_buffers ::
  "release_owner \<Rightarrow> release_owner option \<Rightarrow> release_owner list \<Rightarrow> inventory_evidence \<Rightarrow>
   inventory_operations \<Rightarrow> native_log \<Rightarrow> coordinator_outcome \<times> native_log" where
  "resume_buffers stream current buffers ev ops log =
     (case (case current of
              Some b \<Rightarrow> Some (b, buffers)
            | None \<Rightarrow> if buffers = [] then None else Some (last buffers, butlast buffers)) of
        None \<Rightarrow> finish_inventory stream ev ops log
      | Some (b, buffers) \<Rightarrow>
          (case op_release_buffer ops b log of
             (AttemptReleased receipt, log) \<Rightarrow>
               resume_buffers stream None buffers (evidence_acknowledge receipt ev) ops log
           | (AttemptPending p, log) \<Rightarrow> (OutPending (Releasing stream p buffers) ev, log)
           | (AttemptQuarantined b t, log) \<Rightarrow>
               (OutQuarantined ev t
                  \<lparr>held_stream = Some stream, held_buffer = Some b, held_buffers = buffers\<rparr>, log)
           | (AttemptPanic, log) \<Rightarrow> (OutPanic, log)))"
  by pat_completeness auto
termination
  by (relation "measure (\<lambda>(stream, current, buffers, ev, ops, log).
        length buffers + (case current of None \<Rightarrow> 0 | Some b \<Rightarrow> 1))")
    (auto split: option.splits if_splits)

declare resume_buffers.simps [simp del]

definition continue_after_quiesce ::
  "quiesce_attempt \<Rightarrow> release_owner list \<Rightarrow> inventory_evidence \<Rightarrow> inventory_operations \<Rightarrow> native_log \<Rightarrow>
   coordinator_outcome \<times> native_log" where
  "continue_after_quiesce q buffers ev ops log =
     (case q of
        Quiesced stream \<Rightarrow> resume_buffers stream None buffers ev ops log
      | QuiescePreflightPending stream \<Rightarrow> (OutPending (Synchronizing stream buffers) ev, log)
      | QuiesceUnconfirmed stream \<Rightarrow> (OutUnconfirmed stream buffers ev, log)
      | QuiescePanic \<Rightarrow> (OutPanic, log))"

definition begin_coordinator ::
  "release_owner \<Rightarrow> release_owner list \<Rightarrow> inventory_evidence \<Rightarrow> inventory_operations \<Rightarrow> native_log \<Rightarrow>
   coordinator_outcome \<times> native_log" where
  "begin_coordinator stream buffers ev ops log =
     (case op_quiesce ops stream log of (q, log) \<Rightarrow> continue_after_quiesce q buffers ev ops log)"

fun retry_pending ::
  "pending_state \<Rightarrow> inventory_evidence \<Rightarrow> inventory_operations \<Rightarrow> native_log \<Rightarrow>
   coordinator_outcome \<times> native_log" where
  "retry_pending (Synchronizing stream buffers) ev ops log =
     (case op_quiesce ops (pend_owner stream) log of (q, log) \<Rightarrow>
       continue_after_quiesce q buffers ev ops log)"
| "retry_pending (Releasing stream buffer buffers) ev ops log =
     resume_buffers stream (Some (pend_owner buffer)) buffers ev ops log"
| "retry_pending (Destroying stream) ev ops log = finish_inventory (pend_owner stream) ev ops log"

definition reconcile_synchronization ::
  "pending_owner \<Rightarrow> release_owner list \<Rightarrow> inventory_evidence \<Rightarrow> inventory_operations \<Rightarrow> native_log \<Rightarrow>
   coordinator_outcome \<times> native_log" where
  "reconcile_synchronization stream buffers ev ops log =
     (case op_quiesce ops (pend_owner stream) log of (q, log) \<Rightarrow>
       (case q of
          Quiesced stream \<Rightarrow> resume_buffers stream None buffers ev ops log
        | QuiescePreflightPending stream \<Rightarrow> (OutUnconfirmed stream buffers ev, log)
        | QuiesceUnconfirmed stream \<Rightarrow> (OutUnconfirmed stream buffers ev, log)
        | QuiescePanic \<Rightarrow> (OutPanic, log)))"

fun map_coordinator_outcome :: "coordinator_outcome \<Rightarrow> inventory_release" where
  "map_coordinator_outcome (OutReleased ev) = InventoryReleased ev"
| "map_coordinator_outcome (OutPending st ev) = InventoryPending st ev"
| "map_coordinator_outcome (OutUnconfirmed p buffers ev) = InventoryUnconfirmed p buffers ev"
| "map_coordinator_outcome (OutQuarantined ev t held) = InventoryQuarantined ev t held"
| "map_coordinator_outcome OutPanic = InventoryPanic"

subsection \<open>The calls of a client\<close>

definition inventory_begin_release ::
  "runtime \<Rightarrow> teardown_inventory \<Rightarrow> native_log \<Rightarrow> inventory_release \<times> native_log" where
  "inventory_begin_release rt inventory log =
     apfst map_coordinator_outcome
       (begin_coordinator (inv_stream inventory) (inv_buffers inventory) (inv_evidence inventory)
          (hip_operations rt) log)"

definition pending_inventory_retry ::
  "runtime \<Rightarrow> pending_state \<Rightarrow> inventory_evidence \<Rightarrow> native_log \<Rightarrow> inventory_release \<times> native_log" where
  "pending_inventory_retry rt st ev log =
     apfst map_coordinator_outcome (retry_pending st ev (hip_operations rt) log)"

definition unconfirmed_inventory_reconcile ::
  "runtime \<Rightarrow> pending_owner \<Rightarrow> release_owner list \<Rightarrow> inventory_evidence \<Rightarrow> native_log \<Rightarrow>
   inventory_release \<times> native_log" where
  "unconfirmed_inventory_reconcile rt p buffers ev log =
     apfst map_coordinator_outcome (reconcile_synchronization p buffers ev (hip_operations rt) log)"

end
