(* ===== verification/Hip_Protocol.thy ===== *)
theory Hip_Protocol
  imports Hip_Inventory "HOL-Library.Multiset"
begin

text \<open>
  What an explicit teardown may do to the native runtime, as a protocol over the calls it issues, and
  the proof that the coordinator keeps to it whatever the runtime replies. \<open>release_port\<close> and
  \<open>quiesce_port\<close> are the contracts of the operations the coordinator is generic over; they are
  interpreted on the operations for buffers and streams. \<open>teardown_port\<close> joins them and proves the
  coordinator correct.
\<close>

subsection \<open>Contracts of the operations\<close>

definition owner_device :: "release_owner \<Rightarrow> c_int" where
  "owner_device w = device_ordinal (meta_device (own_metadata w))"

abbreviation ok :: "native_reply \<Rightarrow> bool" where
  "ok r \<equiv> status r = HipSuccess"

locale release_port =
  fixes release :: "release_owner \<Rightarrow> native_log \<Rightarrow> release_attempt \<times> native_log"
    and destructor :: "nat \<Rightarrow> native_call"
  assumes release_cases:
    "\<And>w log. (\<exists>r p. \<not> ok r \<and> pend_owner p = w \<and>
        release w log = (AttemptPending p, log @ [(SetDevice (owner_device w), r)])) \<or>
      (\<exists>q r. ok q \<and> ok r \<and> release w log = (AttemptReleased (own_metadata w),
          log @ [(SetDevice (owner_device w), q), (destructor (own_handle w), r)])) \<or>
      (\<exists>q r t. ok q \<and> \<not> ok r \<and> release w log = (AttemptQuarantined w t,
          log @ [(SetDevice (owner_device w), q), (destructor (own_handle w), r)]))"

locale quiesce_port =
  fixes quiesce :: "release_owner \<Rightarrow> native_log \<Rightarrow> quiesce_attempt \<times> native_log"
  assumes quiesce_cases:
    "\<And>w log. (\<exists>r p. \<not> ok r \<and> pend_owner p = w \<and>
        quiesce w log = (QuiescePreflightPending p, log @ [(SetDevice (owner_device w), r)])) \<or>
      (\<exists>q r. ok q \<and> ok r \<and> quiesce w log = (Quiesced w,
          log @ [(SetDevice (owner_device w), q), (StreamSynchronize (own_handle w), r)])) \<or>
      (\<exists>q r p. ok q \<and> \<not> ok r \<and> pend_owner p = w \<and> quiesce w log = (QuiesceUnconfirmed p,
          log @ [(SetDevice (owner_device w), q), (StreamSynchronize (own_handle w), r)]))"

lemma owner_attempt_cases:
  assumes "\<And>w log. destroy w log = checked_call rt (destructor (own_handle w)) op log"
  shows "(\<exists>r p. \<not> ok r \<and> pend_owner p = w \<and>
      owner_attempt w phase (select_owner_device rt) destroy log =
        (AttemptPending p, log @ [(SetDevice (owner_device w), r)])) \<or>
    (\<exists>q r. ok q \<and> ok r \<and> owner_attempt w phase (select_owner_device rt) destroy log =
        (AttemptReleased (own_metadata w),
         log @ [(SetDevice (owner_device w), q), (destructor (own_handle w), r)])) \<or>
    (\<exists>q r t. ok q \<and> \<not> ok r \<and> owner_attempt w phase (select_owner_device rt) destroy log =
        (AttemptQuarantined w t,
         log @ [(SetDevice (owner_device w), q), (destructor (own_handle w), r)]))"
  by (auto simp: owner_attempt_def owner_prepare_def select_owner_device_def make_current_def
      checked_call_def invoke_def hip_check_def owner_device_def owner_pending_def assms)

interpretation buffer_port: release_port "attempt_buffer_release rt" FreeBuffer for rt
  by unfold_locales (unfold attempt_buffer_release_def, rule owner_attempt_cases, rule refl)

interpretation stream_release_port: release_port "attempt_stream_destroy rt" StreamDestroy for rt
  by unfold_locales (unfold attempt_stream_destroy_def, rule owner_attempt_cases, rule refl)

interpretation stream_quiesce_port: quiesce_port "attempt_stream_quiesce rt" for rt
  by unfold_locales
    (auto simp: attempt_stream_quiesce_def owner_prepare_def select_owner_device_def make_current_def
      checked_call_def invoke_def hip_check_def owner_device_def owner_pending_def)

subsection \<open>The protocol\<close>

text \<open>
  How far a teardown has come: not synchronized, synchronized with the buffers released so far, the
  stream destroyed as well, or a destructor whose outcome is unknown.
\<close>

datatype teardown_stage =
    Unsynchronized
  | Freed "release_owner list"
  | Destroyed
  | Uncertain "release_owner list" release_owner

inductive protocol ::
  "release_owner \<Rightarrow> release_owner list \<Rightarrow> teardown_stage \<Rightarrow> native_log \<Rightarrow> bool"
  for stream :: release_owner and buffers :: "release_owner list" where
  start: "protocol stream buffers Unsynchronized []"
| select_failed: "protocol stream buffers g log \<Longrightarrow> g = Unsynchronized \<or> (\<exists>bs. g = Freed bs) \<Longrightarrow>
    w \<in> insert stream (set buffers) \<Longrightarrow> \<not> ok r \<Longrightarrow>
    protocol stream buffers g (log @ [(SetDevice (owner_device w), r)])"
| sync_failed: "protocol stream buffers Unsynchronized log \<Longrightarrow> ok q \<Longrightarrow> \<not> ok r \<Longrightarrow>
    protocol stream buffers Unsynchronized
      (log @ [(SetDevice (owner_device stream), q), (StreamSynchronize (own_handle stream), r)])"
| synchronized: "protocol stream buffers Unsynchronized log \<Longrightarrow> ok q \<Longrightarrow> ok r \<Longrightarrow>
    protocol stream buffers (Freed [])
      (log @ [(SetDevice (owner_device stream), q), (StreamSynchronize (own_handle stream), r)])"
| freed: "protocol stream buffers (Freed bs) log \<Longrightarrow> bs @ [b] @ cs = rev buffers \<Longrightarrow> ok q \<Longrightarrow> ok r \<Longrightarrow>
    protocol stream buffers (Freed (bs @ [b]))
      (log @ [(SetDevice (owner_device b), q), (FreeBuffer (own_handle b), r)])"
| free_unknown: "protocol stream buffers (Freed bs) log \<Longrightarrow> bs @ [b] @ cs = rev buffers \<Longrightarrow> ok q \<Longrightarrow>
    \<not> ok r \<Longrightarrow> protocol stream buffers (Uncertain bs b)
      (log @ [(SetDevice (owner_device b), q), (FreeBuffer (own_handle b), r)])"
| destroyed: "protocol stream buffers (Freed (rev buffers)) log \<Longrightarrow> ok q \<Longrightarrow> ok r \<Longrightarrow>
    protocol stream buffers Destroyed
      (log @ [(SetDevice (owner_device stream), q), (StreamDestroy (own_handle stream), r)])"
| destroy_unknown: "protocol stream buffers (Freed (rev buffers)) log \<Longrightarrow> ok q \<Longrightarrow> \<not> ok r \<Longrightarrow>
    protocol stream buffers (Uncertain (rev buffers) stream)
      (log @ [(SetDevice (owner_device stream), q), (StreamDestroy (own_handle stream), r)])"

text \<open>An outcome of the coordinator, at its stage, with the evidence that goes with it.\<close>

definition evidence_after :: "inventory_evidence \<Rightarrow> release_owner list \<Rightarrow> inventory_evidence" where
  "evidence_after ev bs = ev\<lparr>ev_released := ev_released ev @ map own_metadata bs\<rparr>"

fun outcome_at ::
  "release_owner \<Rightarrow> release_owner list \<Rightarrow> inventory_evidence \<Rightarrow> coordinator_outcome \<Rightarrow> teardown_stage \<Rightarrow> bool"
where
  "outcome_at stream buffers ev0 (OutReleased ev) g \<longleftrightarrow>
     g = Destroyed \<and> ev = evidence_after ev0 (rev buffers @ [stream])"
| "outcome_at stream buffers ev0 (OutPending (Synchronizing p bs) ev) g \<longleftrightarrow>
     g = Unsynchronized \<and> pend_owner p = stream \<and> bs = buffers \<and> ev = ev0"
| "outcome_at stream buffers ev0 (OutPending (Releasing s p bs) ev) g \<longleftrightarrow>
     s = stream \<and> (\<exists>fs. g = Freed fs \<and> fs @ [pend_owner p] @ rev bs = rev buffers \<and> ev = evidence_after ev0 fs)"
| "outcome_at stream buffers ev0 (OutPending (Destroying p) ev) g \<longleftrightarrow>
     g = Freed (rev buffers) \<and> pend_owner p = stream \<and> ev = evidence_after ev0 (rev buffers)"
| "outcome_at stream buffers ev0 (OutUnconfirmed p bs ev) g \<longleftrightarrow>
     g = Unsynchronized \<and> pend_owner p = stream \<and> bs = buffers \<and> ev = ev0"
| "outcome_at stream buffers ev0 (OutQuarantined ev t held) g \<longleftrightarrow>
     (\<exists>fs w. g = Uncertain fs w \<and> ev = evidence_after ev0 fs \<and> held_stream held = Some stream \<and>
       (held_buffer held = Some w \<and> fs @ [w] @ rev (held_buffers held) = rev buffers \<or>
        held_buffer held = None \<and> held_buffers held = [] \<and> w = stream \<and> fs = rev buffers))"
| "outcome_at stream buffers ev0 OutPanic g \<longleftrightarrow> False"

lemma evidence_after_simps:
  "evidence_after ev [] = ev"
  "evidence_acknowledge (own_metadata b) (evidence_after ev bs) = evidence_after ev (bs @ [b])"
  by (simp_all add: evidence_after_def evidence_acknowledge_def)

locale teardown_port =
  buffers: release_port release_buffer FreeBuffer +
  streams: release_port release_stream StreamDestroy +
  quiesce_port quiesce
  for release_buffer release_stream quiesce +
  fixes ops :: inventory_operations
  assumes ops: "op_quiesce ops = quiesce" "op_release_buffer ops = release_buffer"
    "op_release_stream ops = release_stream"
begin

lemma finish_keeps:
  assumes "protocol stream buffers (Freed (rev buffers)) own"
    and "finish_inventory stream (evidence_after ev0 (rev buffers)) ops log = (res, log')"
  shows "\<exists>new g. log' = log @ new \<and> protocol stream buffers g (own @ new) \<and> outcome_at stream buffers ev0 res g"
proof -
  note run = assms(2) [unfolded finish_inventory_def ops]
  consider (pending) r p where "\<not> ok r" "pend_owner p = stream"
      "release_stream stream log = (AttemptPending p, log @ [(SetDevice (owner_device stream), r)])"
    | (released) q r where "ok q" "ok r" "release_stream stream log = (AttemptReleased (own_metadata stream),
        log @ [(SetDevice (owner_device stream), q), (StreamDestroy (own_handle stream), r)])"
    | (quarantined) q r t where "ok q" "\<not> ok r" "release_stream stream log = (AttemptQuarantined stream t,
        log @ [(SetDevice (owner_device stream), q), (StreamDestroy (own_handle stream), r)])"
    using streams.release_cases [of stream log] by blast
  then show ?thesis
  proof cases
    case pending
    then show ?thesis using run assms(1) by (auto intro!: protocol.select_failed exI [of _ "Freed (rev buffers)"])
  next
    case released
    then show ?thesis using run assms(1)
      by (auto simp: evidence_after_simps intro!: protocol.destroyed exI [of _ Destroyed])
  next
    case quarantined
    then show ?thesis using run assms(1)
      by (auto intro!: protocol.destroy_unknown exI [of _ "Uncertain (rev buffers) stream"])
  qed
qed

lemma resume_keeps:
  assumes "protocol stream buffers (Freed fs) own"
    and "fs @ (case current of None \<Rightarrow> [] | Some b \<Rightarrow> [b]) @ rev bs = rev buffers"
    and "resume_buffers stream current bs (evidence_after ev0 fs) ops log = (res, log')"
  shows "\<exists>new g. log' = log @ new \<and> protocol stream buffers g (own @ new) \<and> outcome_at stream buffers ev0 res g"
  using assms
proof (induction "length bs + (case current of None \<Rightarrow> 0 | Some b \<Rightarrow> 1)"
    arbitrary: current bs fs own log rule: less_induct)
  case less
  show ?case
  proof (cases "current = None \<and> bs = []")
    case True
    then show ?thesis
      using less.prems finish_keeps [of stream buffers own ev0 log res log']
      by (simp add: resume_buffers.simps [of _ None "[]"])
  next
    case False
    then obtain b cs where pick: "(case current of Some b \<Rightarrow> Some (b, bs)
        | None \<Rightarrow> if bs = [] then None else Some (last bs, butlast bs)) = Some (b, cs)"
      and order: "fs @ [b] @ rev cs = rev buffers"
      and smaller: "length cs < length bs + (case current of None \<Rightarrow> 0 | Some b \<Rightarrow> 1)"
      using less.prems(2) by (cases current; cases bs rule: rev_cases) auto
    have b: "b \<in> set buffers" using order by (metis append_Cons in_set_conv_decomp set_rev append_Nil)
    note run = less.prems(3) [unfolded resume_buffers.simps [of _ current] pick option.case prod.case ops]
    consider (pending) r p where "\<not> ok r" "pend_owner p = b"
        "release_buffer b log = (AttemptPending p, log @ [(SetDevice (owner_device b), r)])"
      | (released) q r where "ok q" "ok r" "release_buffer b log = (AttemptReleased (own_metadata b),
          log @ [(SetDevice (owner_device b), q), (FreeBuffer (own_handle b), r)])"
      | (quarantined) q r t where "ok q" "\<not> ok r" "release_buffer b log = (AttemptQuarantined b t,
          log @ [(SetDevice (owner_device b), q), (FreeBuffer (own_handle b), r)])"
      using buffers.release_cases [of b log] by blast
    then show ?thesis
    proof cases
      case pending
      then show ?thesis using run less.prems(1) order b
        by (auto intro!: protocol.select_failed exI [of _ "Freed fs"])
    next
      case released
      let ?new = "[(SetDevice (owner_device b), q), (FreeBuffer (own_handle b), r)]"
      have "\<exists>new g. log' = (log @ ?new) @ new \<and> protocol stream buffers g ((own @ ?new) @ new) \<and>
          outcome_at stream buffers ev0 res g"
        by (rule less.hyps [of cs None "fs @ [b]"])
          (use smaller released run order protocol.freed [OF less.prems(1) order] in
            \<open>auto simp: evidence_after_simps\<close>)
      then show ?thesis by (metis append.assoc)
    next
      case quarantined
      then show ?thesis using run protocol.free_unknown [OF less.prems(1) order] order
        by (auto intro!: exI [of _ "Uncertain fs b"])
    qed
  qed
qed

lemma quiesce_keeps:
  assumes "protocol stream buffers Unsynchronized own"
    and "quiesce stream log = (q, log')"
    and "(case q of
        Quiesced s \<Rightarrow> resume_buffers s None buffers ev0 ops log'
      | QuiescePreflightPending p \<Rightarrow>
          (if reconciling then OutUnconfirmed p buffers ev0 else OutPending (Synchronizing p buffers) ev0, log')
      | QuiesceUnconfirmed p \<Rightarrow> (OutUnconfirmed p buffers ev0, log')
      | QuiescePanic \<Rightarrow> (OutPanic, log')) = (res, log2)"
  shows "\<exists>new g. log2 = log @ new \<and> protocol stream buffers g (own @ new) \<and> outcome_at stream buffers ev0 res g"
proof -
  consider (pending) r p where "\<not> ok r" "pend_owner p = stream" "q = QuiescePreflightPending p"
      "log' = log @ [(SetDevice (owner_device stream), r)]"
    | (quiet) p r where "ok p" "ok r" "q = Quiesced stream"
      "log' = log @ [(SetDevice (owner_device stream), p), (StreamSynchronize (own_handle stream), r)]"
    | (unconfirmed) p r s where "ok p" "\<not> ok r" "pend_owner s = stream" "q = QuiesceUnconfirmed s"
      "log' = log @ [(SetDevice (owner_device stream), p), (StreamSynchronize (own_handle stream), r)]"
    using quiesce_cases [of stream log] unfolding assms(2) prod.inject by blast
  then show ?thesis
  proof cases
    case pending
    then show ?thesis using assms(1,3)
      by (auto intro!: protocol.select_failed exI [of _ Unsynchronized])
  next
    case unconfirmed
    then show ?thesis using assms(1,3)
      by (auto intro!: protocol.sync_failed exI [of _ Unsynchronized])
  next
    case quiet
    let ?new = "[(SetDevice (owner_device stream), p), (StreamSynchronize (own_handle stream), r)]"
    have synced: "protocol stream buffers (Freed []) (own @ ?new)"
      by (rule protocol.synchronized [OF assms(1) quiet(1,2)])
    have run: "resume_buffers stream None buffers (evidence_after ev0 []) ops (log @ ?new) = (res, log2)"
      using assms(3) quiet by (simp add: evidence_after_simps)
    have "\<exists>new g. log2 = (log @ ?new) @ new \<and> protocol stream buffers g ((own @ ?new) @ new) \<and>
        outcome_at stream buffers ev0 res g"
      by (rule resume_keeps [OF synced _ run]) simp
    then show ?thesis by (metis append.assoc)
  qed
qed

lemmas quiesce_goes_on = quiesce_keeps [where reconciling = False, unfolded if_False]
lemmas reconcile_goes_on = quiesce_keeps [where reconciling = True, unfolded if_True]

lemma begin_keeps:
  assumes "protocol stream buffers Unsynchronized own"
    and "begin_coordinator stream buffers ev0 ops log = (res, log')"
  shows "\<exists>new g. log' = log @ new \<and> protocol stream buffers g (own @ new) \<and> outcome_at stream buffers ev0 res g"
proof -
  obtain q log2 where "quiesce stream log = (q, log2)" by (cases "quiesce stream log")
  then show ?thesis
    using quiesce_goes_on [OF assms(1)] assms(2) unfolding begin_coordinator_def continue_after_quiesce_def ops
    by simp
qed

lemma retry_keeps:
  assumes "protocol stream buffers g own" and "outcome_at stream buffers ev0 (OutPending st ev) g"
    and "retry_pending st ev ops log = (res, log')"
  shows "\<exists>new g. log' = log @ new \<and> protocol stream buffers g (own @ new) \<and> outcome_at stream buffers ev0 res g"
proof (cases st)
  case (Synchronizing p bs)
  obtain q log2 where "quiesce stream log = (q, log2)" by (cases "quiesce stream log")
  then show ?thesis
    using quiesce_goes_on [of stream buffers own log q log2 ev0 res log'] assms Synchronizing
    by (auto simp: ops continue_after_quiesce_def)
next
  case (Releasing s p bs)
  then show ?thesis
    using assms resume_keeps [of stream buffers _ own "Some (pend_owner p)" bs ev0 log res log']
    by (auto simp del: ex_simps)
next
  case (Destroying p)
  then show ?thesis using assms finish_keeps by auto
qed

lemma reconcile_keeps:
  assumes "protocol stream buffers g own" and "outcome_at stream buffers ev0 (OutUnconfirmed p bs ev) g"
    and "reconcile_synchronization p bs ev ops log = (res, log')"
  shows "\<exists>new g. log' = log @ new \<and> protocol stream buffers g (own @ new) \<and> outcome_at stream buffers ev0 res g"
proof -
  obtain q log2 where "quiesce stream log = (q, log2)" by (cases "quiesce stream log")
  then show ?thesis
    using reconcile_goes_on [of stream buffers own log q log2 ev0 res log'] assms
    by (auto simp: ops reconcile_synchronization_def)
qed

end

interpretation hip_port: teardown_port "attempt_buffer_release rt" "attempt_stream_destroy rt"
  "attempt_stream_quiesce rt" "hip_operations rt" for rt
  by unfold_locales (simp_all add: hip_operations_def)

end
