(* ===== verification/Hip_Properties.thy ===== *)
theory Hip_Properties
  imports Hip_Protocol
begin

text \<open>
  The properties of explicit teardown: in which order native calls are issued and how often, what the
  evidence accounts for, and that a teardown ends once the runtime answers. They hold for every runtime
  and every pattern of failures, along every history of the client's calls. A history may be interleaved
  with other native calls of the process; only the calls the teardown itself issued are recorded.
\<close>

subsection \<open>Histories\<close>

datatype teardown_state = Retained teardown_inventory | Outcome inventory_release

fun teardown_call :: "runtime \<Rightarrow> teardown_state \<Rightarrow> native_log \<Rightarrow> (inventory_release \<times> native_log) option" where
  "teardown_call rt (Retained inventory) log = Some (inventory_begin_release rt inventory log)"
| "teardown_call rt (Outcome (InventoryPending st ev)) log = Some (pending_inventory_retry rt st ev log)"
| "teardown_call rt (Outcome (InventoryUnconfirmed p bs ev)) log =
     Some (unconfirmed_inventory_reconcile rt p bs ev log)"
| "teardown_call rt (Outcome _) log = None"

inductive teardown_history :: "teardown_inventory \<Rightarrow> teardown_state \<Rightarrow> native_log \<Rightarrow> bool"
  for inventory :: teardown_inventory where
  retained: "teardown_history inventory (Retained inventory) []"
| called: "teardown_history inventory st own \<Longrightarrow> teardown_call rt st log = Some (res, log @ new) \<Longrightarrow>
    teardown_history inventory (Outcome res) (own @ new)"

text \<open>An inventory as clients build them.\<close>

inductive inventory_built :: "teardown_inventory \<Rightarrow> bool" where
  built_new: "inventory_try_new s = Ok inventory \<Longrightarrow> inventory_built inventory"
| built_push: "inventory_built inventory \<Longrightarrow> push_teardown_buffer b inventory = (r, inventory') \<Longrightarrow>
    inventory_built inventory'"

definition expected_entries :: "teardown_inventory \<Rightarrow> resource_metadata list" where
  "expected_entries inventory = own_metadata (inv_stream inventory) # map own_metadata (inv_buffers inventory)"

definition inventory_ok :: "teardown_inventory \<Rightarrow> bool" where
  "inventory_ok inventory \<longleftrightarrow>
     ev_entries (inv_evidence inventory) = expected_entries inventory \<and>
     ev_released (inv_evidence inventory) = [] \<and>
     ev_requested_bytes (inv_evidence inventory) = sum_list (map meta_requested_bytes (expected_entries inventory)) \<and>
     ev_requested_bytes (inv_evidence inventory) < 2 ^ 64 \<and>
     own_handle (inv_stream inventory) \<noteq> 0 \<and>
     map meta_entry (expected_entries inventory) =
       StreamEntry # map BufferEntry [0..<length (inv_buffers inventory)]"

lemma inventory_built_ok: "inventory_built inventory \<Longrightarrow> inventory_ok inventory"
proof (induction rule: inventory_built.induct)
  case (built_new s inventory)
  then show ?case
    by (auto simp: inventory_try_new_def stream_into_release_owner_def evidence_new_def inventory_ok_def
        expected_entries_def split: if_splits)
next
  case (built_push inventory b r inventory')
  then show ?case
    by (auto simp: push_teardown_buffer_def evidence_register_def usize_add_def Let_def inventory_ok_def
        expected_entries_def owner_with_entry_def split: if_splits prod.splits)
qed

lemma entries_distinct: "inventory_ok inventory \<Longrightarrow> distinct (map meta_entry (expected_entries inventory))"
  by (auto simp: inventory_ok_def distinct_map inj_on_def)

text \<open>Every history keeps to the protocol.\<close>

fun state_at :: "teardown_inventory \<Rightarrow> teardown_state \<Rightarrow> teardown_stage \<Rightarrow> bool" where
  "state_at inventory (Retained inventory') g \<longleftrightarrow> inventory' = inventory \<and> g = Unsynchronized"
| "state_at inventory (Outcome res) g \<longleftrightarrow>
     (\<exists>c. res = map_coordinator_outcome c \<and>
       outcome_at (inv_stream inventory) (inv_buffers inventory) (inv_evidence inventory) c g)"

lemma map_coordinator_outcome_iffs [simp]:
  "InventoryPending st ev = map_coordinator_outcome c \<longleftrightarrow> c = OutPending st ev"
  "InventoryUnconfirmed p bs ev = map_coordinator_outcome c \<longleftrightarrow> c = OutUnconfirmed p bs ev"
  "InventoryReleased ev = map_coordinator_outcome c \<longleftrightarrow> c = OutReleased ev"
  "InventoryQuarantined ev t held = map_coordinator_outcome c \<longleftrightarrow> c = OutQuarantined ev t held"
  "InventoryPanic = map_coordinator_outcome c \<longleftrightarrow> c = OutPanic"
  by (cases c; auto)+

lemma call_keeps:
  assumes "state_at inventory st g" and "protocol (inv_stream inventory) (inv_buffers inventory) g own"
    and "teardown_call rt st log = Some (res, log')"
  shows "\<exists>new g. log' = log @ new \<and> protocol (inv_stream inventory) (inv_buffers inventory) g (own @ new) \<and>
    state_at inventory (Outcome res) g"
proof -
  have step: "\<exists>new g. log' = log @ new \<and> protocol (inv_stream inventory) (inv_buffers inventory) g (own @ new) \<and>
      outcome_at (inv_stream inventory) (inv_buffers inventory) (inv_evidence inventory) c g \<Longrightarrow>
      res = map_coordinator_outcome c \<Longrightarrow> ?thesis" for c
    by auto
  show ?thesis
    using assms(3)
  proof (cases "(rt, st, log)" rule: teardown_call.cases)
    case (1 rt' inventory' log0)
    then obtain c where c: "begin_coordinator (inv_stream inventory) (inv_buffers inventory)
        (inv_evidence inventory) (hip_operations rt) log = (c, log')" "res = map_coordinator_outcome c"
      using assms by (auto simp: inventory_begin_release_def apfst_def map_prod_def split: prod.splits)
    show ?thesis
      by (rule step [OF _ c(2)]) (use hip_port.begin_keeps [OF _ c(1)] assms(1,2) 1 in auto)
  next
    case (2 rt' p ev log0)
    then obtain c where c: "retry_pending p ev (hip_operations rt) log = (c, log')" "res = map_coordinator_outcome c"
      using assms by (auto simp: pending_inventory_retry_def apfst_def map_prod_def split: prod.splits)
    show ?thesis
      by (rule step [OF _ c(2)]) (use hip_port.retry_keeps [OF assms(2) _ c(1)] assms(1) 2 in auto)
  next
    case (3 rt' p bs ev log0)
    then obtain c where c: "reconcile_synchronization p bs ev (hip_operations rt) log = (c, log')"
        "res = map_coordinator_outcome c"
      using assms by (auto simp: unconfirmed_inventory_reconcile_def apfst_def map_prod_def split: prod.splits)
    show ?thesis
      by (rule step [OF _ c(2)]) (use hip_port.reconcile_keeps [OF assms(2) _ c(1)] assms(1) 3 in auto)
  qed auto
qed

lemma history_protocol:
  "teardown_history inventory st own \<Longrightarrow>
     \<exists>g. state_at inventory st g \<and> protocol (inv_stream inventory) (inv_buffers inventory) g own"
proof (induction rule: teardown_history.induct)
  case retained
  then show ?case by (auto intro: protocol.start)
next
  case (called st own rt log res new)
  then obtain g where "state_at inventory st g" "protocol (inv_stream inventory) (inv_buffers inventory) g own"
    by blast
  from call_keeps [OF this called.hyps(2)] show ?case by auto
qed

subsection \<open>What the protocol allows\<close>

definition frees :: "native_log \<Rightarrow> nat list" where
  "frees log = concat (map (\<lambda>(c, r). case c of FreeBuffer h \<Rightarrow> [h] | _ \<Rightarrow> []) log)"

definition is_destructor :: "native_call \<Rightarrow> bool" where
  "is_destructor c \<longleftrightarrow> (\<exists>h. c = FreeBuffer h \<or> c = StreamDestroy h)"

text \<open>The call just before selected this device, and the runtime said so.\<close>

definition selected_last :: "native_log \<Rightarrow> c_int \<Rightarrow> bool" where
  "selected_last log d \<longleftrightarrow> (\<exists>front q. log = front @ [(SetDevice d, q)] \<and> ok q)"

text \<open>The calls after which a teardown makes no other call.\<close>

definition last_call :: "native_event \<Rightarrow> bool" where
  "last_call e \<longleftrightarrow> (\<exists>h. fst e = StreamDestroy h) \<or> (is_destructor (fst e) \<and> \<not> ok (snd e))"

definition lawful_event ::
  "release_owner \<Rightarrow> release_owner list \<Rightarrow> native_log \<Rightarrow> native_event \<Rightarrow> bool" where
  "lawful_event stream buffers before e \<longleftrightarrow>
     list_all (\<lambda>e. \<not> last_call e) before \<and>
     (case fst e of
        SetDevice d \<Rightarrow> d \<in> owner_device ` insert stream (set buffers)
      | StreamSynchronize h \<Rightarrow> h = own_handle stream \<and> selected_last before (owner_device stream) \<and> frees before = []
      | FreeBuffer h \<Rightarrow> succeeded before (StreamSynchronize (own_handle stream)) \<and>
          (\<exists>bs b cs. rev buffers = bs @ [b] @ cs \<and> h = own_handle b \<and> frees before = map own_handle bs \<and>
            selected_last before (owner_device b))
      | StreamDestroy h \<Rightarrow> h = own_handle stream \<and> selected_last before (owner_device stream) \<and>
          frees before = map own_handle (rev buffers) \<and> (\<forall>b \<in> set buffers. succeeded before (FreeBuffer (own_handle b)))
      | _ \<Rightarrow> False)"

definition lawful :: "release_owner \<Rightarrow> release_owner list \<Rightarrow> native_log \<Rightarrow> bool" where
  "lawful stream buffers log \<longleftrightarrow>
     (\<forall>before e after. log = before @ e # after \<longrightarrow> lawful_event stream buffers before e)"

lemma lawful_Nil: "lawful stream buffers []"
  by (simp add: lawful_def)

lemma lawful_snoc: "lawful stream buffers (log @ [e]) \<longleftrightarrow>
    lawful stream buffers log \<and> lawful_event stream buffers log e"
proof
  assume "lawful stream buffers (log @ [e])"
  then have all: "lawful_event stream buffers before d" if "log @ [e] = before @ d # after" for before d after
    using that \<open>lawful stream buffers (log @ [e])\<close> unfolding lawful_def by blast
  show "lawful stream buffers log \<and> lawful_event stream buffers log e"
    using all [of log e "[]"] all [of _ _ "_ @ [e]"] unfolding lawful_def
    by (metis append_Cons append.assoc append_Nil)
next
  assume parts: "lawful stream buffers log \<and> lawful_event stream buffers log e"
  show "lawful stream buffers (log @ [e])"
    unfolding lawful_def
  proof (intro allI impI)
    fix before d after
    assume "log @ [e] = before @ d # after"
    then show "lawful_event stream buffers before d"
      using parts unfolding lawful_def by (cases after rule: rev_cases) (auto simp del: split_paired_All)
  qed
qed

lemma lawful_pair: "lawful stream buffers (log @ [d, e]) \<longleftrightarrow>
    lawful stream buffers log \<and> lawful_event stream buffers log d \<and> lawful_event stream buffers (log @ [d]) e"
  using lawful_snoc [of stream buffers "log @ [d]" e] lawful_snoc [of stream buffers log d] by simp

lemma frees_simps [simp]:
  "frees [] = []" "frees (xs @ ys) = frees xs @ frees ys"
  "frees ((SetDevice d, r) # log) = frees log" "frees ((StreamSynchronize h, r) # log) = frees log"
  "frees ((FreeBuffer h, r) # log) = h # frees log" "frees ((StreamDestroy h, r) # log) = frees log"
  by (simp_all add: frees_def)

lemma last_call_simps [simp]:
  "\<not> last_call (SetDevice d, r)" "\<not> last_call (StreamSynchronize h, r)"
  "last_call (FreeBuffer h, r) \<longleftrightarrow> \<not> ok r" "last_call (StreamDestroy h, r)"
  by (auto simp: last_call_def is_destructor_def)

lemma not_last_call_ok: "list_all (\<lambda>e. \<not> last_call e) log \<Longrightarrow> list_all (\<lambda>e. is_destructor (fst e) \<longrightarrow> ok (snd e)) log"
  by (auto simp: list_all_iff last_call_def)

lemma is_destructor_simps [simp]:
  "\<not> is_destructor (SetDevice d)" "\<not> is_destructor (StreamSynchronize h)"
  "is_destructor (FreeBuffer h)" "is_destructor (StreamDestroy h)"
  by (auto simp: is_destructor_def)

lemma selected_last_snoc [simp]: "selected_last (log @ [(SetDevice d, q)]) e \<longleftrightarrow> d = e \<and> ok q"
  by (auto simp: selected_last_def)

fun stage_log :: "release_owner \<Rightarrow> release_owner list \<Rightarrow> teardown_stage \<Rightarrow> native_log \<Rightarrow> bool" where
  "stage_log stream buffers Unsynchronized log \<longleftrightarrow> frees log = [] \<and> list_all (\<lambda>e. \<not> last_call e) log"
| "stage_log stream buffers (Freed bs) log \<longleftrightarrow> frees log = map own_handle bs \<and>
     list_all (\<lambda>e. \<not> last_call e) log \<and> succeeded log (StreamSynchronize (own_handle stream)) \<and>
     (\<forall>b \<in> set bs. succeeded log (FreeBuffer (own_handle b)))"
| "stage_log stream buffers Destroyed log \<longleftrightarrow> succeeded log (StreamDestroy (own_handle stream)) \<and>
     list_all (\<lambda>e. is_destructor (fst e) \<longrightarrow> ok (snd e)) log \<and>
     (\<forall>b \<in> set buffers. succeeded log (FreeBuffer (own_handle b)))"
| "stage_log stream buffers (Uncertain bs w) log \<longleftrightarrow> (\<forall>b \<in> set bs. succeeded log (FreeBuffer (own_handle b)))"

lemma lawful_free:
  assumes "bs @ [b] @ cs = rev buffers" and "list_all (\<lambda>e. \<not> last_call e) before"
    and "succeeded before (StreamSynchronize (own_handle stream))"
    and "frees before = map own_handle bs" and "selected_last before (owner_device b)"
  shows "lawful_event stream buffers before (FreeBuffer (own_handle b), r)"
  unfolding lawful_event_def using assms
  by (simp del: append_Cons append_Nil) (metis assms(1))

lemma protocol_lawful:
  "protocol stream buffers g log \<Longrightarrow> lawful stream buffers log \<and> stage_log stream buffers g log"
proof (induction rule: protocol.induct)
  case start
  then show ?case by (simp add: lawful_Nil)
next
  case (select_failed g log w r)
  then show ?case by (auto simp: lawful_snoc lawful_event_def)
next
  case (sync_failed log q r)
  then show ?case by (auto simp: lawful_pair lawful_event_def)
next
  case (synchronized log q r)
  then show ?case by (auto simp: lawful_pair lawful_event_def)
next
  case (freed bs log b cs q r)
  then have b: "b \<in> set buffers" by (metis append_Cons in_set_conv_decomp set_rev append_Nil)
  have "lawful_event stream buffers (log @ [(SetDevice (owner_device b), q)]) (FreeBuffer (own_handle b), r)"
    by (rule lawful_free [OF freed(2)]) (use freed in auto)
  then show ?case using b freed by (auto simp: lawful_pair) (auto simp: lawful_event_def)
next
  case (free_unknown bs log b cs q r)
  then have b: "b \<in> set buffers" by (metis append_Cons in_set_conv_decomp set_rev append_Nil)
  have "lawful_event stream buffers (log @ [(SetDevice (owner_device b), q)]) (FreeBuffer (own_handle b), r)"
    by (rule lawful_free [OF free_unknown(2)]) (use free_unknown in auto)
  then show ?case using b free_unknown by (auto simp: lawful_pair) (auto simp: lawful_event_def)
next
  case (destroyed log q r)
  then show ?case by (auto simp: lawful_pair lawful_event_def not_last_call_ok)
next
  case (destroy_unknown log q r)
  then show ?case by (auto simp: lawful_pair lawful_event_def)
qed

lemma history_lawful:
  assumes "teardown_history inventory st own" and "own = before @ e # after"
  shows "lawful_event (inv_stream inventory) (inv_buffers inventory) before e"
proof -
  have "lawful (inv_stream inventory) (inv_buffers inventory) own"
    using history_protocol [OF assms(1)] protocol_lawful by blast
  then show ?thesis using assms(2) unfolding lawful_def by blast
qed

lemma lawful_last_call:
  assumes "teardown_history inventory st own" and "own = before @ e # after" and "last_call e"
  shows "after = []"
proof (cases after rule: rev_cases)
  case (snoc front d)
  then have "lawful_event (inv_stream inventory) (inv_buffers inventory) (before @ e # front) d"
    using history_lawful [OF assms(1), of "before @ e # front" d "[]"] assms(2) by simp
  then show ?thesis using assms(3) by (simp add: lawful_event_def)
qed

lemma failed_destructor_quarantines:
  assumes "teardown_history inventory st own" and "(c, r) \<in> set own" and "is_destructor c" and "\<not> ok r"
  shows "\<exists>ev t held. st = Outcome (InventoryQuarantined ev t held)"
proof -
  obtain g where g: "state_at inventory st g" "stage_log (inv_stream inventory) (inv_buffers inventory) g own"
    using history_protocol [OF assms(1)] protocol_lawful by blast
  have bad: "\<not> list_all (\<lambda>e. is_destructor (fst e) \<longrightarrow> ok (snd e)) own"
    using assms(2-4) by (force simp: list_all_iff)
  with g(2) obtain fs w where "g = Uncertain fs w"
    by (cases g) (auto dest: not_last_call_ok)
  then show ?thesis using g(1)
    by (cases st) (auto elim!: outcome_at.elims)
qed

text \<open>C6: along every history of a teardown, whatever the runtime replies, a buffer is passed to
  hipFree at most once, only after a synchronization of the stream succeeded, and directly after its own
  device was selected; the stream is destroyed only as the last call of all and after the runtime
  acknowledged the release of every buffer; and once a destructor call fails the teardown makes no
  further call and stays quarantined.\<close>

theorem teardown_destroys_once_in_order:
  assumes "teardown_history inventory st own" and "distinct (map own_handle (inv_buffers inventory))"
    and "own = before @ (c, r) # after"
  shows "(\<forall>h. c = FreeBuffer h \<longrightarrow>
        h \<notin> set (frees before) \<and>
        succeeded before (StreamSynchronize (own_handle (inv_stream inventory))) \<and>
        (\<exists>b \<in> set (inv_buffers inventory). own_handle b = h \<and> selected_last before (owner_device b))) \<and>
      (\<forall>h. c = StreamDestroy h \<longrightarrow>
        h = own_handle (inv_stream inventory) \<and> after = [] \<and>
        selected_last before (owner_device (inv_stream inventory)) \<and>
        (\<forall>b \<in> set (inv_buffers inventory). succeeded before (FreeBuffer (own_handle b)))) \<and>
      (is_destructor c \<and> \<not> ok r \<longrightarrow>
        after = [] \<and> (\<exists>ev t held. st = Outcome (InventoryQuarantined ev t held)))"
proof -
  note event = history_lawful [OF assms(1,3)]
  have free: "h \<notin> set (frees before) \<and> (\<exists>b \<in> set (inv_buffers inventory). own_handle b = h \<and> selected_last before (owner_device b))"
    if c: "c = FreeBuffer h" for h
  proof -
    obtain bs b cs where *: "rev (inv_buffers inventory) = bs @ [b] @ cs" "h = own_handle b"
        "frees before = map own_handle bs" "selected_last before (owner_device b)"
      using event by (auto simp: c lawful_event_def)
    have "distinct (map own_handle (bs @ [b] @ cs))"
      using assms(2) unfolding *(1) [symmetric] by (simp add: rev_map [symmetric])
    moreover have "b \<in> set (inv_buffers inventory)" using *(1) by (metis in_set_conv_decomp set_rev append_Cons append_Nil)
    ultimately show ?thesis using * by auto
  qed
  have final: "after = []" if "last_call (c, r)"
    by (rule lawful_last_call [OF assms(1,3) that])
  have "(c, r) \<in> set own" using assms(3) by simp
  note failed = failed_destructor_quarantines [OF assms(1) this]
  show ?thesis
    using free final failed event by (auto simp: lawful_event_def last_call_def)
qed

subsection \<open>What the evidence accounts for\<close>

fun release_evidence :: "inventory_release \<Rightarrow> inventory_evidence option" where
  "release_evidence (InventoryReleased ev) = Some ev"
| "release_evidence (InventoryPending st ev) = Some ev"
| "release_evidence (InventoryUnconfirmed p bs ev) = Some ev"
| "release_evidence (InventoryQuarantined ev t held) = Some ev"
| "release_evidence InventoryPanic = None"

text \<open>The owners an outcome still retains.\<close>

fun retained_owners :: "inventory_release \<Rightarrow> release_owner list" where
  "retained_owners (InventoryPending (Synchronizing p bs) ev) = pend_owner p # bs"
| "retained_owners (InventoryPending (Releasing s p bs) ev) = s # pend_owner p # bs"
| "retained_owners (InventoryPending (Destroying p) ev) = [pend_owner p]"
| "retained_owners (InventoryUnconfirmed p bs ev) = pend_owner p # bs"
| "retained_owners (InventoryQuarantined ev t held) =
     (case held_stream held of None \<Rightarrow> [] | Some w \<Rightarrow> [w]) @
     (case held_buffer held of None \<Rightarrow> [] | Some w \<Rightarrow> [w]) @ held_buffers held"
| "retained_owners _ = []"

lemma outcome_accounts:
  assumes "outcome_at stream buffers ev0 c g" and "ev_released ev0 = []"
  shows "\<exists>fs ev. release_evidence (map_coordinator_outcome c) = Some ev \<and> ev = evidence_after ev0 fs \<and>
    mset fs + mset (retained_owners (map_coordinator_outcome c)) = mset (stream # buffers)"
proof -
  have perm: "mset fs + add_mset b (mset bs) = mset buffers" if "fs @ [b] @ rev bs = rev buffers" for fs b bs
  proof -
    have "mset buffers = mset (fs @ [b] @ rev bs)" by (simp only: that mset_rev)
    then show ?thesis by simp
  qed
  show ?thesis
    using assms(1)
  proof (cases "(stream, buffers, ev0, c, g)" rule: outcome_at.cases)
    case (1 stream buffers ev0 ev g)
    then show ?thesis using assms by (intro exI [of _ "rev buffers @ [stream]"]) auto
  next
    case (2 stream buffers ev0 p bs ev g)
    then show ?thesis using assms by (intro exI [of _ "[]"]) (auto simp: evidence_after_simps)
  next
    case (3 stream buffers ev0 s p bs ev g)
    then obtain fs where "g = Freed fs" "fs @ [pend_owner p] @ rev bs = rev buffers" "ev = evidence_after ev0 fs"
      using assms by auto
    then show ?thesis using 3 assms perm [of fs "pend_owner p" bs] by (intro exI [of _ fs]) auto
  next
    case (4 stream buffers ev0 p ev g)
    then show ?thesis using assms by (intro exI [of _ "rev buffers"]) auto
  next
    case (5 stream buffers ev0 p bs ev g)
    then show ?thesis using assms by (intro exI [of _ "[]"]) (auto simp: evidence_after_simps)
  next
    case (6 stream buffers ev0 ev t held g)
    then show ?thesis using assms perm by auto
  next
    case (7 stream buffers ev0 g)
    then show ?thesis using assms by auto
  qed
qed

lemma history_outcome:
  assumes "teardown_history inventory (Outcome res) own"
  shows "\<exists>c g. res = map_coordinator_outcome c \<and>
    outcome_at (inv_stream inventory) (inv_buffers inventory) (inv_evidence inventory) c g \<and>
    stage_log (inv_stream inventory) (inv_buffers inventory) g own"
  using history_protocol [OF assms] protocol_lawful by fastforce

lemma history_books:
  assumes "inventory_built inventory" and "teardown_history inventory (Outcome res) own"
  shows "\<exists>fs. release_evidence res = Some (evidence_after (inv_evidence inventory) fs) \<and>
    mset (map own_metadata fs) + mset (map own_metadata (retained_owners res)) = mset (expected_entries inventory)"
proof -
  have "ev_released (inv_evidence inventory) = []"
    using inventory_built_ok [OF assms(1)] by (simp add: inventory_ok_def)
  then obtain fs where fs: "release_evidence res = Some (evidence_after (inv_evidence inventory) fs)"
      "mset fs + mset (retained_owners res) = mset (inv_stream inventory # inv_buffers inventory)"
    using history_outcome [OF assms(2)] outcome_accounts by blast
  have "image_mset own_metadata (mset fs) + image_mset own_metadata (mset (retained_owners res)) =
      mset (expected_entries inventory)"
    unfolding image_mset_union [symmetric] fs(2) by (simp add: expected_entries_def)
  then show ?thesis using fs(1) by auto
qed

lemma released_complete:
  assumes "inventory_built inventory" and "teardown_history inventory (Outcome (InventoryReleased ev)) own"
  shows "mset (ev_released ev) = mset (expected_entries inventory)"
  using history_books [OF assms] inventory_built_ok [OF assms(1)]
  by (auto simp: evidence_after_def inventory_ok_def)

text \<open>C13: along every history of the teardown of an inventory that clients built, the evidence of every
  outcome lists every captured entry once, charges exactly the bytes requested for all of them, and
  together with the owners the outcome still retains the receipts make up the captured entries, none
  lost and none counted twice. When the outcome is a release, every receipt is there and the runtime
  acknowledged every destructor.\<close>

theorem teardown_accounts_for_everything:
  assumes "inventory_built inventory" and "teardown_history inventory (Outcome res) own"
  shows "\<exists>ev. release_evidence res = Some ev \<and>
    ev_entries ev = expected_entries inventory \<and> distinct (map meta_entry (ev_entries ev)) \<and>
    ev_requested_bytes ev = sum_list (map meta_requested_bytes (ev_entries ev)) \<and>
    ev_requested_bytes ev < 2 ^ 64 \<and>
    mset (ev_released ev) + mset (map own_metadata (retained_owners res)) = mset (ev_entries ev) \<and>
    (res = InventoryReleased ev \<longrightarrow>
      mset (ev_released ev) = mset (ev_entries ev) \<and>
      succeeded own (StreamDestroy (own_handle (inv_stream inventory))) \<and>
      (\<forall>b \<in> set (inv_buffers inventory). succeeded own (FreeBuffer (own_handle b))))"
proof -
  note built = inventory_built_ok [OF assms(1)]
  obtain fs where fs: "release_evidence res = Some (evidence_after (inv_evidence inventory) fs)"
      "mset (map own_metadata fs) + mset (map own_metadata (retained_owners res)) = mset (expected_entries inventory)"
    using history_books [OF assms] by blast
  have "succeeded own (StreamDestroy (own_handle (inv_stream inventory))) \<and>
      (\<forall>b \<in> set (inv_buffers inventory). succeeded own (FreeBuffer (own_handle b)))"
    if "res = InventoryReleased ev" for ev
    using history_outcome [OF assms(2)] that by auto
  then show ?thesis
    using fs built entries_distinct [OF built] by (auto simp: inventory_ok_def evidence_after_def)
qed

subsection \<open>Progress\<close>

text \<open>The runtime answers every call with success.\<close>

definition generous :: "runtime \<Rightarrow> bool" where
  "generous rt \<longleftrightarrow> (\<forall>log c. ok (rt log c))"

lemma generous_operations:
  assumes "generous rt"
  shows "\<exists>log'. attempt_buffer_release rt w log = (AttemptReleased (own_metadata w), log')"
    and "\<exists>log'. attempt_stream_destroy rt w log = (AttemptReleased (own_metadata w), log')"
    and "\<exists>log'. attempt_stream_quiesce rt w log = (Quiesced w, log')"
proof -
  have ok: "ok (rt log c)" for log c using assms by (simp add: generous_def)
  show "\<exists>log'. attempt_buffer_release rt w log = (AttemptReleased (own_metadata w), log')"
    by (auto simp: ok attempt_buffer_release_def owner_attempt_def
        owner_prepare_def select_owner_device_def make_current_def checked_call_def invoke_def hip_check_def)
  show "\<exists>log'. attempt_stream_destroy rt w log = (AttemptReleased (own_metadata w), log')"
    by (auto simp: ok attempt_stream_destroy_def owner_attempt_def owner_prepare_def
        select_owner_device_def make_current_def checked_call_def invoke_def hip_check_def)
  show "\<exists>log'. attempt_stream_quiesce rt w log = (Quiesced w, log')"
    by (auto simp: ok attempt_stream_quiesce_def owner_prepare_def
        select_owner_device_def make_current_def checked_call_def invoke_def hip_check_def)
qed

lemma hip_operations_simps [simp]:
  "op_quiesce (hip_operations rt) = attempt_stream_quiesce rt"
  "op_release_buffer (hip_operations rt) = attempt_buffer_release rt"
  "op_release_stream (hip_operations rt) = attempt_stream_destroy rt"
  by (simp_all add: hip_operations_def)

lemma finish_generous:
  assumes "generous rt"
  shows "\<exists>ev' log'. finish_inventory stream ev (hip_operations rt) log = (OutReleased ev', log')"
  using generous_operations(2) [OF assms, of stream log] by (auto simp: finish_inventory_def)

lemma resume_generous:
  assumes "generous rt"
  shows "\<exists>ev' log'. resume_buffers stream current bs ev (hip_operations rt) log = (OutReleased ev', log')"
proof (induction "length bs + (case current of None \<Rightarrow> 0 | Some b \<Rightarrow> 1)"
    arbitrary: current bs ev log rule: less_induct)
  case less
  note finish = finish_generous [OF assms] and free = generous_operations(1) [OF assms]
  show ?case
  proof (cases current)
    case None
    then show ?thesis
      using finish [of stream ev log] free [of "last bs" log]
        less [of "butlast bs" None] by (cases "bs = []") (auto simp: resume_buffers.simps [of _ None])
  next
    case (Some b)
    then show ?thesis using free [of b log] less [of bs None] by (auto simp: resume_buffers.simps [of _ "Some b"])
  qed
qed

lemma call_generous:
  assumes "generous rt" and "teardown_call rt st log = Some (res, log')"
  shows "\<exists>ev. res = InventoryReleased ev"
proof -
  note quiet = generous_operations(3) [OF assms(1)] and resume = resume_generous [OF assms(1)]
    and finish = finish_generous [OF assms(1)]
  have after: "\<exists>ev' log'. continue_after_quiesce (Quiesced w) bs ev (hip_operations rt) log = (OutReleased ev', log')"
    for w bs ev log
    using resume by (simp add: continue_after_quiesce_def)
  show ?thesis
  proof (cases "(rt, st, log)" rule: teardown_call.cases)
    case (1 rt' inventory' log0)
    obtain log1 where "attempt_stream_quiesce rt (inv_stream inventory') log = (Quiesced (inv_stream inventory'), log1)"
      using quiet by blast
    then show ?thesis
      using assms 1 after [of "inv_stream inventory'" "inv_buffers inventory'" "inv_evidence inventory'" log1]
      by (auto simp: inventory_begin_release_def begin_coordinator_def)
  next
    case (2 rt' p ev log0)
    then show ?thesis
    proof (cases p)
      case (Synchronizing q bs)
      obtain log1 where "attempt_stream_quiesce rt (pend_owner q) log = (Quiesced (pend_owner q), log1)"
        using quiet by blast
      then show ?thesis using assms 2 Synchronizing after [of "pend_owner q" bs ev log1]
        by (auto simp: pending_inventory_retry_def)
    next
      case (Releasing s q bs)
      then show ?thesis using assms 2 resume [of s "Some (pend_owner q)" bs ev log]
        by (auto simp: pending_inventory_retry_def)
    next
      case (Destroying q)
      then show ?thesis using assms 2 finish [of "pend_owner q" ev log] by (auto simp: pending_inventory_retry_def)
    qed
  next
    case (3 rt' p bs ev log0)
    obtain log1 where log1: "attempt_stream_quiesce rt (pend_owner p) log = (Quiesced (pend_owner p), log1)"
      using quiet by blast
    then show ?thesis using assms 3 resume [of "pend_owner p" None bs ev log1]
      by (auto simp: unconfirmed_inventory_reconcile_def reconcile_synchronization_def)
  qed (use assms in auto)
qed

text \<open>C21: a teardown that has not met an indeterminate destructor can always be finished: as soon as the
  runtime answers with success, the next call the client can make, whichever it is, releases
  everything.\<close>

theorem teardown_completes:
  assumes "inventory_built inventory" and "teardown_history inventory st own" and "generous rt"
    and "\<forall>ev. st \<noteq> Outcome (InventoryReleased ev)"
    and "\<forall>ev t held. st \<noteq> Outcome (InventoryQuarantined ev t held)"
  shows "\<exists>ev log'. teardown_call rt st log = Some (InventoryReleased ev, log') \<and>
    mset (ev_released ev) = mset (expected_entries inventory)"
proof -
  have "\<exists>res log'. teardown_call rt st log = Some (res, log')"
  proof (cases st)
    case (Outcome res)
    have "res \<noteq> InventoryPanic"
      using history_outcome [OF assms(2) [unfolded Outcome]] by (metis map_coordinator_outcome_iffs(5) outcome_at.simps(7))
    then show ?thesis using Outcome assms(4,5) by (cases res) (auto simp: prod_eq_iff)
  qed (auto simp: prod_eq_iff)
  then obtain res log' where call: "teardown_call rt st log = Some (res, log')" by blast
  obtain ev where ev: "res = InventoryReleased ev" using call_generous [OF assms(3) call] by blast
  obtain g where "state_at inventory st g" "protocol (inv_stream inventory) (inv_buffers inventory) g own"
    using history_protocol [OF assms(2)] by blast
  from call_keeps [OF this call] obtain new where "log' = log @ new" by blast
  then have "teardown_history inventory (Outcome res) (own @ new)"
    using teardown_history.called [OF assms(2)] call by blast
  then show ?thesis
    using call ev released_complete [OF assms(1)] by auto
qed

subsection \<open>A concrete teardown\<close>

definition hip_reply :: "hip_status \<Rightarrow> native_reply" where
  "hip_reply st = \<lparr>status = st, handle_out = 5, count_out = 1,
     props_out = \<lparr>raw_arch_name = [], raw_name = [], raw_total_global_mem = 0, raw_multi_processor_count = 0,
       raw_warp_size = 0, raw_max_threads_per_block = 0, raw_shared_mem_per_block = 0, raw_clock_rate = 0\<rparr>,
     bytes_out = [], free_out = 0, total_out = 0, elapsed_out = 0\<rparr>"

definition quiet_runtime :: runtime where
  "quiet_runtime log c = hip_reply HipSuccess"

text \<open>A runtime that loses one buffer.\<close>

definition losing_runtime :: runtime where
  "losing_runtime log c = hip_reply (if c = FreeBuffer 7 then HipErrorNotReady else HipSuccess)"

definition hip_sample_device :: hip_device where
  "hip_sample_device = \<lparr>device_ordinal = 0,
     device_props = \<lparr>props_isa = ''gfx1100'', props_name = ''sample'', props_total_vram_bytes = 0,
       props_compute_units = 0, props_wavefront_size = 32, props_max_threads_per_block = 0,
       props_max_shared_mem_per_block = 0, props_clock_rate_khz = 0,
       props_identity = \<lparr>identity_uuid = None, identity_pci_bus_id = ''0000:03:00.0''\<rparr>\<rparr>\<rparr>"

definition hip_sample_stream :: hip_stream where
  "hip_sample_stream = \<lparr>stream_handle = 3, stream_device = hip_sample_device, stream_owns_handle = True\<rparr>"

definition hip_sample_buffer :: "nat \<Rightarrow> device_buffer" where
  "hip_sample_buffer h = \<lparr>buf_ptr = h, buf_len = 8, buf_element_size = 4, buf_device = hip_sample_device\<rparr>"

definition hip_sample_inventory :: teardown_inventory where
  "hip_sample_inventory =
     (case inventory_try_new hip_sample_stream of
        Ok inventory \<Rightarrow> snd (push_buffer (hip_sample_buffer 9) (snd (push_buffer (hip_sample_buffer 7) inventory))))"

lemma hip_sample_built: "inventory_built hip_sample_inventory"
proof -
  obtain inventory where inventory: "inventory_try_new hip_sample_stream = Ok inventory"
    by (simp add: inventory_try_new_def stream_into_release_owner_def hip_sample_stream_def)
  have push: "inventory_built i \<Longrightarrow> inventory_built (snd (push_buffer b i))" for b i
    unfolding push_buffer_def by (metis built_push prod.collapse)
  show ?thesis
    unfolding hip_sample_inventory_def inventory by (auto intro!: push built_new [OF inventory])
qed

lemmas hip_sample_defs = hip_sample_inventory_def inventory_try_new_def stream_into_release_owner_def
  hip_sample_stream_def push_buffer_def push_teardown_buffer_def into_teardown_def
  buffer_into_release_owner_def owner_with_entry_def evidence_register_def evidence_new_def Let_def
  hip_sample_buffer_def byte_len_def usize_add_def

lemma hip_sample_handles:
  "map own_handle (inv_buffers hip_sample_inventory) = [7, 9]"
  "own_handle (inv_stream hip_sample_inventory) = 3"
  "map own_metadata (inv_buffers hip_sample_inventory) =
     map (\<lambda>i. \<lparr>meta_kind = BufferResource, meta_requested_bytes = 32, meta_device = hip_sample_device,
       meta_entry = BufferEntry i\<rparr>) [0, 1]"
  by (simp_all add: hip_sample_defs)

lemma hip_sample_history:
  "teardown_history hip_sample_inventory (Outcome (fst (inventory_begin_release rt hip_sample_inventory [])))
     (snd (inventory_begin_release rt hip_sample_inventory []))"
  using teardown_history.called [OF teardown_history.retained, of rt hip_sample_inventory "[]"] by simp

lemmas hip_run_defs = inventory_begin_release_def begin_coordinator_def continue_after_quiesce_def
  attempt_stream_quiesce_def attempt_buffer_release_def attempt_stream_destroy_def owner_attempt_def
  owner_prepare_def select_owner_device_def make_current_def checked_call_def invoke_def hip_check_def
  finish_inventory_def resume_buffers.simps

lemma losing_log:
  "snd (inventory_begin_release losing_runtime hip_sample_inventory []) =
     [(SetDevice 0, hip_reply HipSuccess), (StreamSynchronize 3, hip_reply HipSuccess),
      (SetDevice 0, hip_reply HipSuccess), (FreeBuffer 9, hip_reply HipSuccess),
      (SetDevice 0, hip_reply HipSuccess)] @ (FreeBuffer 7, hip_reply HipErrorNotReady) # []"
  by (simp add: hip_run_defs hip_sample_defs losing_runtime_def hip_reply_def hip_sample_device_def)

theorem teardown_destroys_once_in_order_witness:
  "\<exists>ev t held. fst (inventory_begin_release losing_runtime hip_sample_inventory []) = InventoryQuarantined ev t held"
  using teardown_destroys_once_in_order [OF hip_sample_history _ losing_log]
  by (simp add: hip_sample_handles hip_reply_def)

theorem teardown_accounts_for_everything_witness:
  "\<exists>ev. release_evidence (fst (inventory_begin_release losing_runtime hip_sample_inventory [])) = Some ev \<and>
     ev_requested_bytes ev = 64"
  using teardown_accounts_for_everything [OF hip_sample_built hip_sample_history, of losing_runtime]
  by (force simp: expected_entries_def hip_sample_handles hip_sample_defs)

theorem teardown_completes_witness:
  "\<exists>ev log'. inventory_begin_release quiet_runtime hip_sample_inventory [] = (InventoryReleased ev, log')"
  using teardown_completes [OF hip_sample_built teardown_history.retained, of quiet_runtime "[]"]
  by (auto simp: generous_def quiet_runtime_def hip_reply_def)

end
