(* ===== verification/Hip_Custody.thy ===== *)
theory Hip_Custody
  imports Hip_Properties
begin

text \<open>
  What becomes of a handle the runtime hands out while a resource is created, and of the memory a copy in
  flight may still touch.
\<close>

subsection \<open>Creation\<close>

lemma make_current_log:
  "make_current rt d log = (res, log') \<longleftrightarrow>
     log' = log @ [(SetDevice (device_ordinal d), rt log (SetDevice (device_ordinal d)))] \<and>
     res = hip_check (status (rt log (SetDevice (device_ordinal d)))) ''hipSetDevice''"
  by (auto simp: make_current_def checked_call_log)

lemma device_memory_budget_log:
  "\<exists>new. snd (device_memory_budget rt d log) = log @ new \<and>
     (\<forall>e \<in> set new. fst e = SetDevice (device_ordinal d) \<or> fst e = MemGetInfo)"
  by (auto simp: device_memory_budget_def make_current_def checked_call_def invoke_def hip_check_def)

lemma buffer_creation:
  assumes "attempt_creation (buffer_port rt d n) log = (a, log')"
  shows "\<exists>q r new. log' = log @ (SetDevice (device_ordinal d), q) # new \<and>
    (new = [] \<and> (\<exists>e. a = NoHandle e) \<or>
     (\<exists>tail. new = (Malloc n, r) # tail \<and> (\<forall>e \<in> set tail. fst e = SetDevice (device_ordinal d) \<or> fst e = MemGetInfo) \<and>
       (handle_out r = 0 \<and> (\<exists>e. a = NoHandle e) \<or>
        handle_out r \<noteq> 0 \<and> ok r \<and> a = CreatedHandle (handle_out r) \<or>
        handle_out r \<noteq> 0 \<and> \<not> ok r \<and> (\<exists>e. a = IndeterminateHandle (handle_out r) e))))"
proof -
  obtain q where q: "q = rt log (SetDevice (device_ordinal d))" by simp
  let ?log = "log @ [(SetDevice (device_ordinal d), q)]"
  obtain r where r: "r = rt ?log (Malloc n)" by simp
  obtain tail where tail: "snd (device_memory_budget rt d (?log @ [(Malloc n, r)])) = (?log @ [(Malloc n, r)]) @ tail"
      "\<forall>e \<in> set tail. fst e = SetDevice (device_ordinal d) \<or> fst e = MemGetInfo"
    using device_memory_budget_log by blast
  show ?thesis
  proof (cases "ok q")
    case False
    then show ?thesis using assms
      by (auto simp: attempt_creation_def buffer_port_def make_current_def checked_call_def invoke_def hip_check_def q)
  next
    case True
    show ?thesis
    proof (cases "status r = HipErrorOutOfMemory")
      case oom: True
      obtain budget log2 where budget: "device_memory_budget rt d (?log @ [(Malloc n, r)]) = (budget, log2)"
        by (cases "device_memory_budget rt d (?log @ [(Malloc n, r)])")
      with tail have log2: "log2 = ?log @ (Malloc n, r) # tail" by simp
      have "a = (if handle_out r = 0 then NoHandle (HipOutOfMemory n (case budget of Ok b \<Rightarrow> budget_free b | _ \<Rightarrow> 0))
            else IndeterminateHandle (handle_out r) (HipOutOfMemory n (case budget of Ok b \<Rightarrow> budget_free b | _ \<Rightarrow> 0))) \<and>
          log' = log2"
        using assms True oom budget
        by (auto simp: attempt_creation_def buffer_port_def make_current_def checked_call_def invoke_def
            hip_check_def q [symmetric] r [symmetric])
      then show ?thesis using oom log2 tail(2) by auto
    next
      case False
      then show ?thesis using assms True
        by (auto simp: attempt_creation_def buffer_port_def make_current_def checked_call_def invoke_def
            hip_check_def q [symmetric] r [symmetric] split: if_splits)
    qed
  qed
qed

lemma stream_creation:
  assumes "stream_creation_attempt rt d log = (a, log')"
  shows "\<exists>q r new. log' = log @ (SetDevice (device_ordinal d), q) # new \<and>
    (new = [] \<and> (\<exists>e. a = NoHandle e) \<or>
     new = [(StreamCreate, r)] \<and>
       (handle_out r = 0 \<and> (\<exists>e. a = NoHandle e) \<or>
        handle_out r \<noteq> 0 \<and> ok r \<and> a = CreatedHandle (handle_out r) \<or>
        handle_out r \<noteq> 0 \<and> \<not> ok r \<and> (\<exists>e. a = IndeterminateHandle (handle_out r) e)))"
proof -
  obtain q where q: "q = rt log (SetDevice (device_ordinal d))" by simp
  let ?log = "log @ [(SetDevice (device_ordinal d), q)]"
  obtain r where r: "r = rt ?log StreamCreate" by simp
  show ?thesis using assms
    by (cases "ok q"; cases "ok r")
      (auto simp: stream_creation_attempt_def attempt_creation_def stream_port_def make_current_def
        checked_call_def invoke_def hip_check_def q [symmetric] r [symmetric] split: if_splits)
qed

text \<open>
  What a tracked constructor made of the output slot, given the calls it issued: the handle that the
  runtime left there is owned after a success and quarantined after a failure.
\<close>

definition slot_accounted :: "usize \<Rightarrow> native_call \<Rightarrow> native_log \<Rightarrow> (nat, creation_error) result \<Rightarrow> bool" where
  "slot_accounted bytes creation new res \<longleftrightarrow>
     (case res of
        Ok h \<Rightarrow> h \<noteq> 0 \<and> (\<exists>r. (creation, r) \<in> set new \<and> ok r \<and> handle_out r = h)
      | Err (CreateQuarantined q) \<Rightarrow> meta_requested_bytes (cq_resource q) = bytes \<and> cq_handle q \<noteq> 0 \<and>
          (\<exists>r. (creation, r) \<in> set new \<and> \<not> ok r \<and> handle_out r = cq_handle q)
      | Err (CreateNoHandle e) \<Rightarrow> (\<forall>r. (creation, r) \<notin> set new \<or> handle_out r = 0)
      | Panic \<Rightarrow> False)"

lemma buffer_alloc_tracked_slot:
  "\<exists>new. snd (buffer_alloc_tracked rt d width len log) = log @ new \<and>
     list_all (\<lambda>e. \<not> is_destructor (fst e)) new \<and>
     slot_accounted (len * width) (Malloc (len * width)) new
       (map_result buf_ptr id (fst (buffer_alloc_tracked rt d width len log)))"
proof (cases "len * width < 2 ^ 64")
  case False
  then show ?thesis
    by (simp add: buffer_alloc_tracked_def allocation_attempt_def usize_mul_def slot_accounted_def)
next
  case True
  obtain a log' where a: "attempt_creation (buffer_port rt d (len * width)) log = (a, log')"
    by (cases "attempt_creation (buffer_port rt d (len * width)) log")
  from buffer_creation [OF a] show ?thesis
    using True
    by (elim exE conjE disjE)
      (simp_all add: buffer_alloc_tracked_def allocation_attempt_def usize_mul_def a resolve_creation_def
        buffer_from_created_def list_all_iff is_destructor_def slot_accounted_def, (fastforce)+)
qed

lemma stream_new_tracked_slot:
  "\<exists>new. snd (stream_new_tracked rt d log) = log @ new \<and>
     list_all (\<lambda>e. \<not> is_destructor (fst e)) new \<and>
     slot_accounted 0 StreamCreate new (map_result stream_handle id (fst (stream_new_tracked rt d log)))"
proof -
  obtain a log' where a: "stream_creation_attempt rt d log = (a, log')"
    by (cases "stream_creation_attempt rt d log")
  from stream_creation [OF a] show ?thesis
    by (auto simp: stream_new_tracked_def a resolve_creation_def stream_from_created_def list_all_iff
        is_destructor_def slot_accounted_def)
qed

text \<open>C33: whatever the runtime replies, a tracked constructor accounts for the output slot: a handle that
  the runtime left there is in the owner when the creation succeeded and in the quarantine, with the bytes
  requested for it, when it failed; without one nothing is owned. No constructor releases anything.\<close>

theorem tracked_creation_keeps_the_handle:
  "(\<exists>new. snd (buffer_alloc_tracked rt d width len log) = log @ new \<and>
      list_all (\<lambda>e. \<not> is_destructor (fst e)) new \<and>
      slot_accounted (len * width) (Malloc (len * width)) new
        (map_result buf_ptr id (fst (buffer_alloc_tracked rt d width len log)))) \<and>
   (\<exists>new. snd (stream_new_tracked rt d log) = log @ new \<and>
      list_all (\<lambda>e. \<not> is_destructor (fst e)) new \<and>
      slot_accounted 0 StreamCreate new (map_result stream_handle id (fst (stream_new_tracked rt d log))))"
  using buffer_alloc_tracked_slot stream_new_tracked_slot by blast

subsection \<open>Copies in flight\<close>

text \<open>
  The calls of a destructor after which the copy can no longer touch the buffer: a successful
  synchronization of the stream comes before the release.
\<close>

definition frees_after_sync :: "pending_copy \<Rightarrow> native_log \<Rightarrow> bool" where
  "frees_after_sync c new \<longleftrightarrow>
     (\<forall>before h r after. new = before @ (FreeBuffer h, r) # after \<longrightarrow>
        h = buf_ptr (copy_buf c) \<and> succeeded before (StreamSynchronize (stream_handle (copy_stream c))))"

lemma frees_after_sync_simps:
  "frees new = [] \<Longrightarrow> frees_after_sync c new"
  "frees before = [] \<Longrightarrow> succeeded before (StreamSynchronize (stream_handle (copy_stream c))) \<Longrightarrow>
     frees_after_sync c (before @ [(FreeBuffer (buf_ptr (copy_buf c)), r)])"
proof -
  have none: "frees xs \<noteq> []" if "(FreeBuffer h, r) \<in> set xs" for xs h r
    using that by (force simp: frees_def)
  show "frees new = [] \<Longrightarrow> frees_after_sync c new"
    using none by (fastforce simp: frees_after_sync_def)
  show "frees_after_sync c (before @ [(FreeBuffer (buf_ptr (copy_buf c)), r)])"
    if "frees before = []" "succeeded before (StreamSynchronize (stream_handle (copy_stream c)))"
    unfolding frees_after_sync_def
  proof (intro allI impI)
    fix front h q post
    assume "before @ [(FreeBuffer (buf_ptr (copy_buf c)), r)] = front @ (FreeBuffer h, q) # post"
    then show "h = buf_ptr (copy_buf c) \<and> succeeded front (StreamSynchronize (stream_handle (copy_stream c)))"
      using that none [of h q before] by (cases post rule: rev_cases) auto
  qed
qed

lemma stream_synchronize_cases:
  assumes "stream_synchronize rt s log = (res, log')"
  shows "(\<exists>e new. res = Err e \<and> log' = log @ new \<and> frees new = [] \<and> \<not> succeeded new (StreamSynchronize (stream_handle s))) \<or>
    (\<exists>new. res = Ok () \<and> log' = log @ new \<and> frees new = [] \<and> succeeded new (StreamSynchronize (stream_handle s)))"
  using assms
  by (auto simp: stream_synchronize_def stream_make_current_def make_current_def checked_call_def invoke_def
      hip_check_def split: if_splits)

lemma buffer_drop_cases:
  "\<exists>new. buffer_drop rt b log = log @ new \<and> frees new = [] \<or>
   (\<exists>q r. buffer_drop rt b log = log @ [(SetDevice (device_ordinal (buf_device b)), q), (FreeBuffer (buf_ptr b), r)])"
  by (auto simp: buffer_drop_def make_current_def checked_call_def invoke_def hip_check_def)

lemma pending_copy_drop_safe:
  assumes "\<not> copy_synced c" and "pending_copy_drop rt c log = (fate, log')"
  shows "\<exists>new. log' = log @ new \<and> frees_after_sync c new \<and>
    (fate = HostFreed \<and> succeeded new (StreamSynchronize (stream_handle (copy_stream c))) \<or>
     fate = HostLeaked \<and> frees new = [] \<and> \<not> succeeded new (StreamSynchronize (stream_handle (copy_stream c))))"
proof -
  obtain res log2 where sync: "stream_synchronize rt (copy_stream c) log = (res, log2)"
    by (cases "stream_synchronize rt (copy_stream c) log")
  from stream_synchronize_cases [OF sync] show ?thesis
  proof (elim disjE exE conjE)
    fix e new
    assume "res = Err e" "log2 = log @ new" "frees new = []"
      "\<not> succeeded new (StreamSynchronize (stream_handle (copy_stream c)))"
    then show ?thesis
      using assms sync by (auto simp: pending_copy_drop_def frees_after_sync_simps)
  next
    fix new
    assume new: "res = Ok ()" "log2 = log @ new" "frees new = []"
      "succeeded new (StreamSynchronize (stream_handle (copy_stream c)))"
    then have drop: "fate = HostFreed" "log' = buffer_drop rt (copy_buf c) (log @ new)"
      using assms sync by (auto simp: pending_copy_drop_def)
    from buffer_drop_cases [of rt "copy_buf c" "log @ new"] show ?thesis
    proof (elim exE disjE conjE)
      fix tail
      assume "buffer_drop rt (copy_buf c) (log @ new) = (log @ new) @ tail" "frees tail = []"
      then show ?thesis using drop new by (intro exI [of _ "new @ tail"]) (simp add: frees_after_sync_simps)
    next
      fix tail q r
      assume "buffer_drop rt (copy_buf c) (log @ new) = (log @ new) @
          [(SetDevice (device_ordinal (buf_device (copy_buf c))), q), (FreeBuffer (buf_ptr (copy_buf c)), r)]"
      then show ?thesis
        using drop new
          frees_after_sync_simps(2) [of "new @ [(SetDevice (device_ordinal (buf_device (copy_buf c))), q)]" c r]
        by (intro exI [of _ "new @ [(SetDevice (device_ordinal (buf_device (copy_buf c))), q),
            (FreeBuffer (buf_ptr (copy_buf c)), r)]"]) simp
    qed
  qed
qed

lemma frees_after_sync_append:
  "frees new = [] \<Longrightarrow> frees_after_sync c tail \<Longrightarrow> frees_after_sync c (new @ tail)"
proof -
  assume clean: "frees new = []" and tail: "frees_after_sync c tail"
  have none: "(FreeBuffer h, r) \<notin> set new" for h r
    using clean by (force simp: frees_def)
  show ?thesis
    unfolding frees_after_sync_def
  proof (intro allI impI)
    fix before h r after
    assume "new @ tail = before @ (FreeBuffer h, r) # after"
    then obtain us where "before = new @ us \<and> tail = us @ (FreeBuffer h, r) # after"
      using none [of h r] by (auto simp: append_eq_append_conv2 append_eq_Cons_conv)
    then show "h = buf_ptr (copy_buf c) \<and> succeeded before (StreamSynchronize (stream_handle (copy_stream c)))"
      using tail by (auto simp: frees_after_sync_def)
  qed
qed

text \<open>C28: the destination of a copy in flight is never freed before a synchronization of its stream has
  succeeded, neither when the copy is dropped nor when a wait fails; without one both buffers are leaked. A
  wait that succeeds gives the destination back unfreed.\<close>

theorem copy_in_flight_is_never_freed:
  assumes "\<not> copy_synced c"
  shows "(\<exists>fate new. pending_copy_drop rt c log = (fate, log @ new) \<and> frees_after_sync c new \<and>
      (succeeded new (StreamSynchronize (stream_handle (copy_stream c))) \<or> fate = HostLeaked \<and> frees new = [])) \<and>
    (\<exists>res fate new. pending_copy_wait rt c log = (res, fate, log @ new) \<and> frees_after_sync c new \<and>
      (res = Ok (copy_buf c) \<and> frees new = [] \<and> fate = HostReturned \<and>
         succeeded new (StreamSynchronize (stream_handle (copy_stream c))) \<or>
       (\<exists>e. res = Err e \<and> (succeeded new (StreamSynchronize (stream_handle (copy_stream c))) \<or>
         fate = HostLeaked \<and> frees new = []))))"
proof
  obtain fate log' where "pending_copy_drop rt c log = (fate, log')"
    by (cases "pending_copy_drop rt c log")
  with pending_copy_drop_safe [OF assms this] show "\<exists>fate new. pending_copy_drop rt c log = (fate, log @ new) \<and>
      frees_after_sync c new \<and>
      (succeeded new (StreamSynchronize (stream_handle (copy_stream c))) \<or> fate = HostLeaked \<and> frees new = [])"
    by auto
  obtain res log2 where sync: "stream_synchronize rt (copy_stream c) log = (res, log2)"
    by (cases "stream_synchronize rt (copy_stream c) log")
  from stream_synchronize_cases [OF sync] show "\<exists>res fate new. pending_copy_wait rt c log = (res, fate, log @ new) \<and>
      frees_after_sync c new \<and>
      (res = Ok (copy_buf c) \<and> frees new = [] \<and> fate = HostReturned \<and>
         succeeded new (StreamSynchronize (stream_handle (copy_stream c))) \<or>
       (\<exists>e. res = Err e \<and> (succeeded new (StreamSynchronize (stream_handle (copy_stream c))) \<or>
         fate = HostLeaked \<and> frees new = [])))"
  proof (elim disjE exE conjE)
    fix e new
    assume new: "res = Err e" "log2 = log @ new" "frees new = []"
    obtain fate log3 where drop: "pending_copy_drop rt c (log @ new) = (fate, log3)"
      by (cases "pending_copy_drop rt c (log @ new)")
    obtain tail where tail: "log3 = (log @ new) @ tail" "frees_after_sync c tail"
        "succeeded tail (StreamSynchronize (stream_handle (copy_stream c))) \<or> fate = HostLeaked \<and> frees tail = []"
      using pending_copy_drop_safe [OF assms drop] by blast
    have "pending_copy_wait rt c log = (Err e, fate, log @ (new @ tail))"
      using sync new drop tail(1) by (simp add: pending_copy_wait_def)
    then show ?thesis
      using tail new(3) frees_after_sync_append [OF new(3) tail(2)] by (intro exI [of _ "Err e"] exI [of _ fate] exI [of _ "new @ tail"]) auto
  next
    fix new
    assume "res = Ok ()" "log2 = log @ new" "frees new = []"
      "succeeded new (StreamSynchronize (stream_handle (copy_stream c)))"
    then show ?thesis
      using sync by (auto simp: pending_copy_wait_def pending_copy_drop_def frees_after_sync_simps)
  qed
qed

text \<open>
  A wait whose synchronization fails may still free the destination: the drop that follows synchronizes
  again, and this time the runtime may answer.
\<close>

definition second_sync_runtime :: runtime where
  "second_sync_runtime log c =
     hip_reply (if (\<exists>h. c = StreamSynchronize h) \<and> length log = 1 then HipErrorNotReady else HipSuccess)"

definition hip_sample_copy :: pending_copy where
  "hip_sample_copy = \<lparr>copy_data_len = 8, copy_buf = hip_sample_buffer 7, copy_stream = hip_sample_stream,
     copy_synced = False\<rparr>"

lemma failed_wait_frees:
  "frees (snd (snd (pending_copy_wait second_sync_runtime hip_sample_copy []))) = [7] \<and>
   (\<exists>e. fst (pending_copy_wait second_sync_runtime hip_sample_copy []) = Err e)"
  by (simp add: pending_copy_wait_def pending_copy_drop_def stream_synchronize_def stream_make_current_def
      make_current_def checked_call_def invoke_def hip_check_def buffer_drop_def second_sync_runtime_def
      hip_sample_copy_def hip_sample_buffer_def hip_sample_stream_def hip_reply_def)

theorem copy_in_flight_is_never_freed_witness:
  "\<exists>fate new. pending_copy_drop losing_runtime hip_sample_copy [] = (fate, [] @ new) \<and>
     frees_after_sync hip_sample_copy new"
  using copy_in_flight_is_never_freed [of hip_sample_copy losing_runtime "[]"]
  by (auto simp: hip_sample_copy_def)

end
