(* ===== verification/Hip_Discovery.thy ===== *)
theory Hip_Discovery
  imports Hip_Custody
begin

text \<open>
  The properties of device selection: which devices it may activate, and that a stable selector chooses
  the same hardware under every numbering of the visible devices.
\<close>

subsection \<open>What the queries call\<close>

fun is_query :: "native_call \<Rightarrow> bool" where
  "is_query GetDeviceCount = True"
| "is_query (GetDeviceProperties i) = True"
| "is_query (DeviceGetUuid i) = True"
| "is_query (DeviceGetPciBusId n i) = True"
| "is_query _ = False"

definition queries :: "native_log \<Rightarrow> bool" where
  "queries log \<longleftrightarrow> list_all (\<lambda>e. is_query (fst e)) log"

lemma queries_simps [simp]:
  "queries []" "queries (xs @ ys) \<longleftrightarrow> queries xs \<and> queries ys"
  "queries ((c, r) # xs) \<longleftrightarrow> is_query c \<and> queries xs"
  by (simp_all add: queries_def)

text \<open>The log names the ISA of a device as the runtime reported it.\<close>

definition reported_isa :: "native_log \<Rightarrow> c_int \<Rightarrow> string \<Rightarrow> bool" where
  "reported_isa log i s \<longleftrightarrow>
     (\<exists>r. (GetDeviceProperties i, r) \<in> set log \<and> ok r \<and> s = cstr_from_array (raw_arch_name (props_out r)))"

lemma reported_isa_append: "reported_isa xs i s \<or> reported_isa ys i s \<Longrightarrow> reported_isa (xs @ ys) i s"
  by (auto simp: reported_isa_def)

lemma device_count_log:
  "device_count rt log = (res, log') \<Longrightarrow> \<exists>new. log' = log @ new \<and> queries new \<and> res \<noteq> Panic"
  by (auto simp: device_count_def invoke_def hip_check_def split: if_splits)

lemma props_from_raw_isa:
  "props_from_raw raw u pci = Ok p \<Longrightarrow> props_isa p = cstr_from_array (raw_arch_name raw)"
  by (auto simp: props_from_raw_def)

lemma checks_keep_log: "snd (proceed (x, l) (\<lambda>y l. attempt (f y) l (\<lambda>p. (Ok (g p), l)))) = l"
proof (cases x)
  case (Ok y)
  then show ?thesis by (cases "f y") auto
qed auto

lemma query_device_log:
  assumes "query_device rt i log = (res, log')"
  shows "\<exists>new. log' = log @ new \<and> queries new \<and>
    (\<forall>info. res = Ok info \<longrightarrow> info_ordinal info = i \<and> reported_isa new i (props_isa (info_props info)))"
proof -
  obtain cnt log1 where cnt: "device_count rt log = (cnt, log1)" by (cases "device_count rt log")
  obtain new1 where new1: "log1 = log @ new1" "queries new1" using device_count_log [OF cnt] by blast
  show ?thesis
  proof (cases "\<exists>n. cnt = Ok n \<and> 0 \<le> i \<and> i < n")
    case False
    then show ?thesis using assms cnt new1
      by (cases cnt) (auto simp: query_device_def split: if_splits)
  next
    case True
    then obtain n where n: "cnt = Ok n" "0 \<le> i" "i < n" by blast
    let ?r = "rt log1 (GetDeviceProperties i)"
    let ?log2 = "log1 @ [(GetDeviceProperties i, ?r)]"
    let ?u = "rt ?log2 (DeviceGetUuid i)"
    let ?log3 = "?log2 @ [(DeviceGetUuid i, ?u)]"
    let ?p = "rt ?log3 (DeviceGetPciBusId 32 i)"
    let ?uuid = "uuid_from_query (status ?u) (output_buffer 16 (bytes_out ?u))"
    let ?pci = "and_then (hip_check (status ?p) ''hipDeviceGetPCIBusId'') (\<lambda>_.
        pci_bus_id_new (cstr_from_array (output_buffer 32 (bytes_out ?p))))"
    have run: "query_device rt i log =
        attempt (hip_check (status ?r) ''hipGetDeviceProperties'') ?log2 (\<lambda>_.
        proceed (?uuid, ?log3) (\<lambda>u log.
        proceed (query_pci_bus_id rt i log) (\<lambda>pci log.
        attempt (props_from_raw (props_out ?r) u pci) log (\<lambda>p.
        (Ok \<lparr>info_ordinal = i, info_props = p\<rparr>, log)))))"
      using n by (simp add: query_device_def cnt invoke_def query_device_uuid_def)
    show ?thesis
    proof (cases "ok ?r")
      case False
      then show ?thesis using assms run new1 by (auto simp: hip_check_def)
    next
      case ok: True
      show ?thesis
      proof (cases "\<exists>u. ?uuid = Ok u")
        case False
        then show ?thesis using assms run new1 ok
          by (cases ?uuid) (auto simp: hip_check_def)
      next
        case True
        then obtain u where u: "?uuid = Ok u" by blast
        have rest: "query_device rt i log = proceed (?pci, ?log3 @ [(DeviceGetPciBusId 32 i, ?p)]) (\<lambda>pci log.
            attempt (props_from_raw (props_out ?r) u pci) log (\<lambda>p.
            (Ok \<lparr>info_ordinal = i, info_props = p\<rparr>, log)))"
          using run ok u by (simp add: hip_check_def query_pci_bus_id_def invoke_def)
        have log': "log' = log @ (new1 @ [(GetDeviceProperties i, ?r), (DeviceGetUuid i, ?u), (DeviceGetPciBusId 32 i, ?p)])"
          using assms new1 arg_cong [OF rest, of snd] by (simp add: checks_keep_log)
        moreover have "props_isa (info_props info) = cstr_from_array (raw_arch_name (props_out ?r)) \<and> info_ordinal info = i"
          if "res = Ok info" for info
          using assms rest that by (auto simp: props_from_raw_isa)
        ultimately show ?thesis using new1 ok by (auto simp: reported_isa_def)
      qed
    qed
  qed
qed

lemma query_devices_log:
  "query_devices rt is log = (res, log') \<Longrightarrow> \<exists>new. log' = log @ new \<and> queries new \<and>
    (\<forall>infos. res = Ok infos \<longrightarrow> map info_ordinal infos = is \<and>
      (\<forall>info \<in> set infos. reported_isa new (info_ordinal info) (props_isa (info_props info))))"
proof (induction "is" arbitrary: log res log')
  case (Cons i "is")
  obtain r log1 where one: "query_device rt i log = (r, log1)" by (cases "query_device rt i log")
  obtain new1 where new1: "log1 = log @ new1" "queries new1"
      "\<And>info. r = Ok info \<Longrightarrow> info_ordinal info = i \<and> reported_isa new1 i (props_isa (info_props info))"
    using query_device_log [OF one] by blast
  show ?case
  proof (cases r)
    case (Ok info)
    obtain rs log2 where more: "query_devices rt is log1 = (rs, log2)" by (cases "query_devices rt is log1")
    obtain new2 where new2: "log2 = log1 @ new2" "queries new2"
        "\<And>infos. rs = result.Ok infos \<Longrightarrow> map info_ordinal infos = is \<and>
          (\<forall>info \<in> set infos. reported_isa new2 (info_ordinal info) (props_isa (info_props info)))"
      using Cons.IH [OF more] by blast
    show ?thesis
      using Cons.prems one more Ok new1 new2
      by (cases rs) (auto intro!: reported_isa_append)
  qed (use Cons.prems one new1 in auto)
qed auto

lemma enumerate_devices_log:
  assumes "enumerate_devices rt log = (res, log')"
  shows "\<exists>new. log' = log @ new \<and> queries new \<and>
    (\<forall>infos. res = Ok infos \<longrightarrow>
      (\<forall>info \<in> set infos. reported_isa new (info_ordinal info) (props_isa (info_props info))))"
proof -
  obtain r log1 where cnt: "device_count rt log = (r, log1)" by (cases "device_count rt log")
  obtain new1 where new1: "log1 = log @ new1" "queries new1" using device_count_log [OF cnt] by blast
  show ?thesis
  proof (cases r)
    case (Ok n)
    then have run: "query_devices rt [0 .. n - 1] log1 = (res, log')"
      using assms cnt by (simp add: enumerate_devices_def)
    show ?thesis using query_devices_log [OF run] new1 by (auto intro!: reported_isa_append)
  qed (use assms cnt new1 in \<open>auto simp: enumerate_devices_def\<close>)
qed

text \<open>The calls of an operation that opens a device, and the device it opens.\<close>

definition opens_supported :: "native_log \<Rightarrow> (hip_device, hip_error) result \<Rightarrow> bool" where
  "opens_supported new res \<longleftrightarrow>
     (\<exists>front. queries front \<and>
       (new = front \<and> \<not> is_ok res \<or>
        (\<exists>d r s. new = front @ [(SetDevice d, r)] \<and> reported_isa front d s \<and> matches_configured_architecture s \<and>
           (if ok r then \<exists>dev. res = Ok dev \<and> device_ordinal dev = d \<and> props_isa (device_props dev) = s
            else \<exists>e. res = Err e))))"

lemma open_info_supported:
  assumes "queries front" and "reported_isa front (info_ordinal info) (props_isa (info_props info))"
    and "open_info rt info (log @ front) = (res, log')"
  shows "\<exists>new. log' = log @ new \<and> opens_supported new res"
proof (cases "matches_target_architecture (info_props info)")
  case False
  then show ?thesis using assms
    by (intro exI [of _ front]) (auto simp: open_info_def require_target_def opens_supported_def)
next
  case True
  let ?r = "rt (log @ front) (SetDevice (info_ordinal info))"
  have run: "log' = log @ (front @ [(SetDevice (info_ordinal info), ?r)]) \<and>
      (if ok ?r then \<exists>dev. res = Ok dev \<and> device_ordinal dev = info_ordinal info \<and> device_props dev = info_props info
       else \<exists>e. res = Err e)"
    using assms(3) True by (auto simp: open_info_def require_target_def checked_call_def invoke_def hip_check_def)
  have "opens_supported (front @ [(SetDevice (info_ordinal info), ?r)]) res"
    unfolding opens_supported_def using assms(1,2) True run
    by (intro exI [of _ front]) (auto simp: matches_target_architecture_def split: if_splits)
  then show ?thesis using run by blast
qed

lemma not_opened: "queries new \<Longrightarrow> \<not> is_ok res \<Longrightarrow> opens_supported new res"
  by (auto simp: opens_supported_def)

lemma device_new_supported:
  assumes "device_new rt i log = (res, log')"
  shows "\<exists>new. log' = log @ new \<and> opens_supported new res"
proof -
  obtain r log1 where one: "query_device rt i log = (r, log1)" by (cases "query_device rt i log")
  obtain new where new: "log1 = log @ new" "queries new"
      "\<And>info. r = Ok info \<Longrightarrow> info_ordinal info = i \<and> reported_isa new i (props_isa (info_props info))"
    using query_device_log [OF one] by blast
  show ?thesis
  proof (cases r)
    case (Ok info)
    then show ?thesis
      using assms one new open_info_supported [of new info rt log res log'] by (simp add: device_new_def)
  qed (use assms one new in \<open>auto simp: device_new_def intro!: not_opened\<close>)
qed

lemma select_optional_supported:
  assumes "select_optional rt sel log = (res, log')"
  shows "\<exists>new. log' = log @ new \<and>
    (case res of
       Ok None \<Rightarrow> queries new
     | Ok (Some dev) \<Rightarrow> opens_supported new (Ok dev)
     | Err e \<Rightarrow> opens_supported new (Err e)
     | Panic \<Rightarrow> opens_supported new Panic)"
proof -
  obtain r log1 where enum: "enumerate_devices rt log = (r, log1)" by (cases "enumerate_devices rt log")
  obtain new where new: "log1 = log @ new" "queries new"
      "\<And>infos info. r = Ok infos \<Longrightarrow> info \<in> set infos \<Longrightarrow>
        reported_isa new (info_ordinal info) (props_isa (info_props info))"
    using enumerate_devices_log [OF enum] by blast
  show ?thesis
  proof (cases r)
    case (Ok infos)
    show ?thesis
    proof (cases "find (selector_matches sel) infos")
      case None
      then show ?thesis using assms enum Ok new by (auto simp: select_optional_def)
    next
      case (Some info)
      then have info: "info \<in> set infos" by (metis find_Some_iff nth_mem)
      obtain res1 log2 where opened: "open_info rt info (log @ new) = (res1, log2)"
        by (cases "open_info rt info (log @ new)")
      obtain new2 where "log2 = log @ new2" "opens_supported new2 res1"
        using open_info_supported [OF new(2) new(3) [OF Ok info] opened] by blast
      then show ?thesis using assms enum Ok new Some opened
        by (cases res1) (auto simp: select_optional_def)
    qed
  qed (use assms enum new in \<open>auto simp: select_optional_def intro!: not_opened\<close>)
qed

text \<open>Whatever the runtime reports, opening a device by ordinal or by selector first only queries, and
  then activates at most one device, whose ISA, as the runtime reported it, has the architecture this
  build targets; the device is handed out only if that activation succeeded.\<close>

theorem only_supported_devices_are_activated:
  "(\<exists>res new. device_new rt i log = (res, log @ new) \<and> opens_supported new res) \<and>
   (\<exists>res new. device_select rt sel log = (res, log @ new) \<and> opens_supported new res)"
proof
  obtain res log' where "device_new rt i log = (res, log')" by (cases "device_new rt i log")
  then show "\<exists>res new. device_new rt i log = (res, log @ new) \<and> opens_supported new res"
    using device_new_supported by blast
  obtain r log1 where found: "select_optional rt sel log = (r, log1)" by (cases "select_optional rt sel log")
  obtain new where new: "log1 = log @ new"
      "case r of Ok None \<Rightarrow> queries new | Ok (Some dev) \<Rightarrow> opens_supported new (Ok dev)
       | Err e \<Rightarrow> opens_supported new (Err e) | Panic \<Rightarrow> opens_supported new Panic"
    using select_optional_supported [OF found] by blast
  show "\<exists>res new. device_select rt sel log = (res, log @ new) \<and> opens_supported new res"
  proof (cases "r = Ok None")
    case True
    obtain cnt log2 where cnt: "device_count rt log1 = (cnt, log2)" by (cases "device_count rt log1")
    obtain new2 where "log2 = log1 @ new2" "queries new2" "cnt \<noteq> Panic"
      using device_count_log [OF cnt] by blast
    then show ?thesis using found new True cnt
      by (cases cnt) (auto simp: device_select_def intro!: not_opened)
  next
    case False
    then show ?thesis using found new
      by (auto simp: device_select_def split: result.splits option.splits)
  qed
qed

subsection \<open>Selection under renumbering\<close>

text \<open>A device as the runtime describes it, apart from its ordinal.\<close>

record visible_device =
  vis_props :: raw_device_props
  vis_uuid_status :: hip_status
  vis_uuid :: bytes
  vis_pci :: bytes

text \<open>A runtime that shows these devices, numbered from 0 in this order.\<close>

definition shows_devices :: "runtime \<Rightarrow> visible_device list \<Rightarrow> bool" where
  "shows_devices rt devs \<longleftrightarrow>
     (\<forall>log. ok (rt log GetDeviceCount) \<and> count_out (rt log GetDeviceCount) = int (length devs)) \<and>
     (\<forall>log i. i < length devs \<longrightarrow>
        ok (rt log (GetDeviceProperties (int i))) \<and>
        props_out (rt log (GetDeviceProperties (int i))) = vis_props (devs ! i) \<and>
        status (rt log (DeviceGetUuid (int i))) = vis_uuid_status (devs ! i) \<and>
        bytes_out (rt log (DeviceGetUuid (int i))) = vis_uuid (devs ! i) \<and>
        ok (rt log (DeviceGetPciBusId 32 (int i))) \<and>
        bytes_out (rt log (DeviceGetPciBusId 32 (int i))) = vis_pci (devs ! i) \<and>
        ok (rt log (SetDevice (int i))))"

definition describe :: "visible_device \<Rightarrow> (device_props, hip_error) result" where
  "describe v =
     and_then (uuid_from_query (vis_uuid_status v) (output_buffer 16 (vis_uuid v))) (\<lambda>u.
     and_then (pci_bus_id_new (cstr_from_array (output_buffer 32 (vis_pci v)))) (\<lambda>pci.
     props_from_raw (vis_props v) u pci))"

text \<open>A stable selector looks at the identity only.\<close>

fun selects :: "device_selector \<Rightarrow> device_props \<Rightarrow> bool" where
  "selects (SelectOrdinal i) p \<longleftrightarrow> False"
| "selects (SelectUuid u) p \<longleftrightarrow> identity_uuid (props_identity p) = Some u"
| "selects (SelectPciBusId b) p \<longleftrightarrow> identity_pci_bus_id (props_identity p) = b"

lemma query_device_shown:
  assumes "shows_devices rt devs" and "i < length devs" and "describe (devs ! i) = Ok p"
  shows "\<exists>log'. query_device rt (int i) log = (Ok \<lparr>info_ordinal = int i, info_props = p\<rparr>, log')"
  using assms
  by (auto simp: query_device_def device_count_def query_device_uuid_def query_pci_bus_id_def invoke_def
      hip_check_def shows_devices_def describe_def)

lemma query_devices_shown:
  assumes "shows_devices rt devs" and "list_all2 (\<lambda>v p. describe v = Ok p) devs ps" and "list_all (\<lambda>i. i < length devs) is"
  shows "\<exists>log'. query_devices rt (map int is) log =
    (Ok (map (\<lambda>i. \<lparr>info_ordinal = int i, info_props = ps ! i\<rparr>) is), log')"
  using assms(3)
proof (induction "is" arbitrary: log)
  case (Cons i "is")
  then have "describe (devs ! i) = Ok (ps ! i)" and "i < length devs"
    using assms(2) by (auto simp: list_all2_conv_all_nth)
  from query_device_shown [OF assms(1) this(2,1), of log] Cons.IH Cons.prems show ?case
    by fastforce
qed auto

lemma upto_int: "[0 .. int n - 1] = map int [0..<n]"
proof (induction n)
  case (Suc n)
  have "[0 .. int (Suc n) - 1] = [0 .. int n - 1] @ [int n]"
    using upto_rec2 [of 0 "int n"] by simp
  then show ?case using Suc by simp
qed auto

lemma enumerate_shown:
  assumes "shows_devices rt devs" and "list_all2 (\<lambda>v p. describe v = Ok p) devs ps"
  shows "\<exists>log'. enumerate_devices rt log =
    (Ok (map (\<lambda>i. \<lparr>info_ordinal = int i, info_props = ps ! i\<rparr>) [0..<length devs]), log')"
  using assms(1) query_devices_shown [OF assms, of "[0..<length devs]"]
  by (auto simp: enumerate_devices_def device_count_def invoke_def hip_check_def shows_devices_def
      upto_int list_all_iff)

text \<open>The result of a selection, without the ordinals.\<close>

definition selected_props ::
  "device_selector \<Rightarrow> device_props list \<Rightarrow> (device_props option, hip_error) result" where
  "selected_props sel ps =
     (case find (selects sel) ps of
        None \<Rightarrow> Ok None
      | Some p \<Rightarrow> if matches_target_architecture p then Ok (Some p)
                 else Err (UnsupportedIsa (props_isa p) configured_target_token))"

lemma find_map_Some:
  "(\<And>x. x \<in> set xs \<Longrightarrow> P (f x) \<longleftrightarrow> Q x) \<Longrightarrow> find P (map f xs) = map_option f (find Q xs)"
  by (induction xs) auto

lemma select_optional_shown:
  assumes "shows_devices rt devs" and "list_all2 (\<lambda>v p. describe v = Ok p) devs ps"
    and "\<forall>i. sel \<noteq> SelectOrdinal i"
  shows "map_result (map_option device_props) id (fst (select_optional rt sel log)) = selected_props sel ps"
proof -
  let ?info = "\<lambda>i. \<lparr>info_ordinal = int i, info_props = ps ! i\<rparr>"
  obtain log' where enum: "enumerate_devices rt log = (Ok (map ?info [0..<length devs]), log')"
    using enumerate_shown [OF assms(1,2)] by blast
  have len: "length ps = length devs" using assms(2) by (simp add: list_all2_lengthD)
  have sel: "selector_matches sel (?info i) \<longleftrightarrow> selects sel (ps ! i)" for i
    using assms(3) by (cases sel) (auto simp: info_identity_def)
  have find: "find (selector_matches sel) (map ?info [0..<length devs]) =
      map_option ?info (find (\<lambda>i. selects sel (ps ! i)) [0..<length devs])"
    by (rule find_map_Some) (rule sel)
  have "find (selects sel) ps = find (selects sel) (map ((!) ps) [0..<length devs])"
    by (simp add: len [symmetric] map_nth)
  also have "\<dots> = map_option ((!) ps) (find (\<lambda>i. selects sel (ps ! i)) [0..<length devs])"
    by (rule find_map_Some) simp
  finally have props: "find (selects sel) ps = map_option ((!) ps) (find (\<lambda>i. selects sel (ps ! i)) [0..<length devs])" .
  show ?thesis
  proof (cases "find (\<lambda>i. selects sel (ps ! i)) [0..<length devs]")
    case None
    then show ?thesis using enum find props by (simp add: select_optional_def selected_props_def)
  next
    case (Some i)
    then have "i \<in> set [0..<length devs]" by (metis find_Some_iff nth_mem)
    then have "ok (rt log (SetDevice (int i)))" for log using assms(1) by (auto simp: shows_devices_def)
    then show ?thesis using enum find props Some
      by (auto simp: select_optional_def selected_props_def open_info_def require_target_def checked_call_def
          invoke_def hip_check_def)
  qed
qed

lemma find_mset_cong:
  assumes "mset xs = mset ys" and "\<And>x y. x \<in> set xs \<Longrightarrow> y \<in> set xs \<Longrightarrow> P x \<Longrightarrow> P y \<Longrightarrow> x = y"
  shows "find P xs = find P ys"
proof -
  have same: "set xs = set ys" using assms(1) by (metis set_mset_mset)
  show ?thesis
  proof (cases "find P xs")
    case None
    then have "find P ys = None" using same by (simp add: find_None_iff)
    then show ?thesis using None by simp
  next
    case (Some x)
    then have x: "x \<in> set xs" "P x" by (auto simp: find_Some_iff)
    then obtain y where y: "find P ys = Some y"
      using same by (cases "find P ys") (auto simp: find_None_iff)
    then have "y \<in> set ys" "P y" by (auto simp: find_Some_iff)
    then show ?thesis using assms(2) [of x y] x same Some y by simp
  qed
qed

text \<open>C14: when two runtimes show the same devices under different numbers, as after a reboot or a change of
  the visibility mask, a selector by UUID or PCI address that fits at most one of them selects the same
  hardware in both, refuses it in both, or finds it in neither.\<close>

theorem selection_survives_renumbering:
  assumes "shows_devices rt devs" and "shows_devices rt' devs'" and "mset devs = mset devs'"
    and "\<forall>v \<in> set devs. \<exists>p. describe v = Ok p" and "\<forall>i. sel \<noteq> SelectOrdinal i"
    and "\<forall>v \<in> set devs. \<forall>w \<in> set devs. \<forall>p q. describe v = Ok p \<and> describe w = Ok q \<and>
      selects sel p \<and> selects sel q \<longrightarrow> p = q"
  shows "map_result (map_option device_props) id (fst (select_optional rt sel log)) =
    map_result (map_option device_props) id (fst (select_optional rt' sel log'))"
proof -
  define props where "props v = (case describe v of Ok p \<Rightarrow> p)" for v
  have same: "set devs = set devs'" using assms(3) by (metis set_mset_mset)
  have described: "list_all2 (\<lambda>v p. describe v = Ok p) vs (map props vs)" if "set vs \<subseteq> set devs" for vs
    using that assms(4) by (induction vs) (auto simp: props_def split: result.splits)
  have "find (selects sel) (map props devs) = find (selects sel) (map props devs')"
  proof (rule find_mset_cong)
    show "mset (map props devs) = mset (map props devs')" using assms(3) by simp
    show "p = q" if members: "p \<in> set (map props devs)" "q \<in> set (map props devs)" and sels: "selects sel p" "selects sel q" for p q
    proof -
      obtain v w where vw: "v \<in> set devs" "w \<in> set devs" "p = props v" "q = props w" using members by auto
      then have "describe v = Ok p" "describe w = Ok q" using assms(4) by (auto simp: props_def)
      then show ?thesis using assms(6) vw(1,2) sels by blast
    qed
  qed
  then have "selected_props sel (map props devs) = selected_props sel (map props devs')"
    by (simp add: selected_props_def)
  then show ?thesis
    using select_optional_shown [OF assms(1) described [of devs] assms(5)]
      select_optional_shown [OF assms(2) described [of devs'] assms(5)] same by simp
qed

subsection \<open>Two devices\<close>

definition sample_visible :: "u8 \<Rightarrow> string \<Rightarrow> visible_device" where
  "sample_visible b bus =
     \<lparr>vis_props = \<lparr>raw_arch_name = bytes_of ''gfx1100'', raw_name = [b], raw_total_global_mem = 24,
        raw_multi_processor_count = 48, raw_warp_size = 32, raw_max_threads_per_block = 1024,
        raw_shared_mem_per_block = 64, raw_clock_rate = 2000\<rparr>,
      vis_uuid_status = HipSuccess, vis_uuid = replicate 16 b, vis_pci = bytes_of bus\<rparr>"

definition showing_runtime :: "visible_device list \<Rightarrow> runtime" where
  "showing_runtime devs log c =
     (let v = (case c of
          GetDeviceProperties i \<Rightarrow> devs ! nat i
        | DeviceGetUuid i \<Rightarrow> devs ! nat i
        | DeviceGetPciBusId n i \<Rightarrow> devs ! nat i
        | _ \<Rightarrow> sample_visible 0 []) in
      (hip_reply (case c of DeviceGetUuid i \<Rightarrow> vis_uuid_status v | _ \<Rightarrow> HipSuccess))
        \<lparr>count_out := int (length devs), props_out := vis_props v,
         bytes_out := (case c of DeviceGetUuid i \<Rightarrow> vis_uuid v | _ \<Rightarrow> vis_pci v)\<rparr>)"

lemma showing_runtime_shows: "shows_devices (showing_runtime devs) devs"
  by (auto simp: shows_devices_def showing_runtime_def hip_reply_def Let_def)

lemma sample_visible_described:
  "identity_uuid (props_identity p) = Some (replicate 16 b)"
  if "describe (sample_visible b bus) = Ok p" and "b \<noteq> 0"
  using that
  by (auto simp: describe_def sample_visible_def uuid_from_query_def output_buffer_def props_from_raw_def
      identity_from_runtime_def uuid_is_nil_def)

lemma sample_visible_ok:
  "is_ok (describe (sample_visible b bus))" if "is_ok (pci_bus_id_new (cstr_from_array (output_buffer 32 (bytes_of bus))))"
  using that
  by (auto simp: is_ok_iff describe_def sample_visible_def uuid_from_query_def props_from_raw_def device_prop_u32_def)

lemma sample_bus_ids:
  "is_ok (pci_bus_id_new (cstr_from_array (output_buffer 32 (bytes_of ''0000:03:00.0''))))"
  "is_ok (pci_bus_id_new (cstr_from_array (output_buffer 32 (bytes_of ''0000:0A:00.0''))))"
  by code_simp+

theorem selection_survives_renumbering_witness:
  "let a = sample_visible 1 ''0000:03:00.0''; b = sample_visible 2 ''0000:0A:00.0''; sel = SelectUuid (replicate 16 2) in
   map_result (map_option device_props) id (fst (select_optional (showing_runtime [a, b]) sel [])) =
   map_result (map_option device_props) id (fst (select_optional (showing_runtime [b, a]) sel []))"
  unfolding Let_def
  by (rule selection_survives_renumbering [OF showing_runtime_shows showing_runtime_shows])
    (use sample_visible_ok [OF sample_bus_ids(1), of 1] sample_visible_ok [OF sample_bus_ids(2), of 2] in
      \<open>auto simp: is_ok_iff dest: sample_visible_described\<close>)

end
