(* ===== verification/Placement_Request.thy ===== *)
theory Placement_Request
  imports Isa
begin

text \<open>
  The validated input of the planner, \<open>crates/placement/src/lib.rs\<close>: the raw records serde
  produces, the checked records built from them, the typed refusals, and the validation that
  turns the former into the latter. The JSON text itself is parsed by serde, which is a
  parameter (\<open>from_str\<close>) where it is used.
\<close>

subsection \<open>Checked data\<close>

datatype availability = Available | Offline

record device =
  dev_id :: string
  dev_gfx_isa :: string
  dev_total_bytes :: u64
  dev_reserved_bytes :: u64
  dev_availability :: availability

record artifact =
  art_id :: string
  art_digest :: string

record memory_estimate =
  est_weights :: u64
  est_kv_cache :: u64
  est_workspace :: u64
  est_headroom :: u64

datatype placement_request =
    RequestedDevice string
  | EligibleDevices "string list"

record workload =
  wl_profile_id :: string
  wl_artifact_id :: string
  wl_memory_estimate :: memory_estimate
  wl_placement :: placement_request

record device_commitment =
  com_device_id :: string
  com_estimated_bytes :: u64

record plan_request =
  req_schema_version :: u32
  req_devices :: "device list"
  req_artifacts :: "artifact list"
  req_workloads :: "workload list"
  req_commitments :: "device_commitment list"

definition SCHEMA_VERSION :: u32 where
  "SCHEMA_VERSION = 1"

datatype placement_refusal =
    InvalidRequest
  | UnsupportedSchemaVersion u32
  | MissingDevices
  | EmptyField string
  | InvalidDigest
  | InvalidStableId string
  | DuplicateDevice string
  | DuplicateArtifact string
  | DuplicateProfile string
  | DuplicateCommitment string
  | DuplicateEligibleDevice string string
  | MissingArtifact string string
  | MissingDevice string string
  | CommitmentForMissingDevice string
  | UnsupportedDevice string string
  | OfflineDevice string
  | NoEligibleDevice string
  | CapacityExhausted string u64 u64
  | ArithmeticOverflow string
  | ResourceSnapshotMismatch
  | ForeignPreparedPlan
  | StalePreparedPlan
  | ForeignReservationLease
  | UnknownReservationLease

subsection \<open>Raw data\<close>

record raw_device =
  raw_dev_id :: string
  raw_dev_gfx_isa :: string
  raw_dev_total_bytes :: u64
  raw_dev_reserved_bytes :: u64
  raw_dev_availability :: availability

record raw_artifact =
  raw_art_id :: string
  raw_art_digest :: string

record raw_memory_estimate =
  raw_weights :: u64
  raw_kv_cache :: u64
  raw_workspace :: u64
  raw_headroom :: u64

datatype raw_placement_request =
    RawRequestedDevice string
  | RawEligibleDevices "string list"

record raw_workload =
  raw_profile_id :: string
  raw_wl_artifact_id :: string
  raw_memory_estimate_of :: raw_memory_estimate
  raw_placement :: raw_placement_request

record raw_device_commitment =
  raw_com_device_id :: string
  raw_com_estimated_bytes :: u64

record raw_plan_request =
  raw_schema_version :: u32
  raw_devices :: "raw_device list"
  raw_artifacts :: "raw_artifact list"
  raw_workloads :: "raw_workload list"
  raw_commitments :: "raw_device_commitment list"

subsection \<open>Field checks\<close>

text \<open>
  \<open>str::trim\<close> drops Unicode whitespace. \<open>leading_space\<close> recognises the UTF-8 encodings of the
  characters with the \<open>White_Space\<close> property, and \<open>trims_to_empty\<close> is \<open>trim().is_empty()\<close>.
\<close>

definition leading_space :: "string \<Rightarrow> string option" where
  "leading_space s =
     (case s of [] \<Rightarrow> None | a # s1 \<Rightarrow>
        let x = (of_char a :: nat) in
        if 9 \<le> x \<and> x \<le> 13 \<or> x = 32 then Some s1
        else (case s1 of [] \<Rightarrow> None | b # s2 \<Rightarrow>
          let y = (of_char b :: nat) in
          if x = 0xC2 \<and> (y = 0x85 \<or> y = 0xA0) then Some s2
          else (case s2 of [] \<Rightarrow> None | c # s3 \<Rightarrow>
            let z = (of_char c :: nat) in
            if x = 0xE1 \<and> y = 0x9A \<and> z = 0x80
              \<or> x = 0xE2 \<and> y = 0x80 \<and> (0x80 \<le> z \<and> z \<le> 0x8A \<or> z = 0xA8 \<or> z = 0xA9 \<or> z = 0xAF)
              \<or> x = 0xE2 \<and> y = 0x81 \<and> z = 0x9F
              \<or> x = 0xE3 \<and> y = 0x80 \<and> z = 0x80
            then Some s3 else None)))"

lemma leading_space_shorter: "leading_space s = Some t \<Longrightarrow> length t < length s"
  by (auto simp: leading_space_def Let_def split: list.splits if_splits)

function trims_to_empty :: "string \<Rightarrow> bool" where
  "trims_to_empty s = (case leading_space s of None \<Rightarrow> s = [] | Some t \<Rightarrow> trims_to_empty t)"
  by pat_completeness auto
termination
  by (relation "measure length") (auto dest: leading_space_shorter)

declare trims_to_empty.simps [simp del]

definition require_non_empty :: "string \<Rightarrow> string \<Rightarrow> (unit, placement_refusal) result" where
  "require_non_empty field v = (if trims_to_empty v then Err (EmptyField field) else Ok ())"

definition stable_byte :: "char \<Rightarrow> bool" where
  "stable_byte b \<longleftrightarrow>
     is_ascii_alphanumeric b \<or> b = CHR ''.'' \<or> b = CHR ''_'' \<or> b = CHR ''-'' \<or> b = CHR '':''"

definition require_stable_id :: "string \<Rightarrow> string \<Rightarrow> (unit, placement_refusal) result" where
  "require_stable_id field v =
     and_then (require_non_empty field v) (\<lambda>_.
       if \<not> list_all stable_byte v then Err (InvalidStableId field) else Ok ())"

definition validate_digest :: "string \<Rightarrow> (unit, placement_refusal) result" where
  "validate_digest v =
     (case strip_prefix ''sha256:'' v of
        None \<Rightarrow> Err InvalidDigest
      | Some hex \<Rightarrow>
          if length hex \<noteq> 64
            \<or> \<not> list_all (\<lambda>b. is_ascii_digit b \<or> CHR ''a'' \<le> b \<and> b \<le> CHR ''f'') hex
          then Err InvalidDigest else Ok ())"

definition total_estimate :: "memory_estimate \<Rightarrow> (u64, placement_refusal) result" where
  "total_estimate e =
     ok_or (ArithmeticOverflow ''workload memory estimate'')
       (Option.bind (Option.bind (checked_add (est_weights e) (est_kv_cache e))
          (\<lambda>bytes. checked_add bytes (est_workspace e)))
          (\<lambda>bytes. checked_add bytes (est_headroom e)))"

fun check_eligible :: "string \<Rightarrow> string set \<Rightarrow> string list \<Rightarrow> (unit, placement_refusal) result" where
  "check_eligible profile seen [] = Ok ()"
| "check_eligible profile seen (d # ds) =
     and_then (require_stable_id ''workload.placement.device_ids'' d) (\<lambda>_.
       if d \<in> seen then Err (DuplicateEligibleDevice profile d)
       else check_eligible profile (insert d seen) ds)"

definition validate_placement :: "raw_workload \<Rightarrow> (placement_request, placement_refusal) result" where
  "validate_placement raw =
     (case raw_placement raw of
        RawRequestedDevice d \<Rightarrow>
          and_then (require_stable_id ''workload.placement.device_id'' d) (\<lambda>_. Ok (RequestedDevice d))
      | RawEligibleDevices ds \<Rightarrow>
          if ds = [] then Err (NoEligibleDevice (raw_profile_id raw))
          else and_then (check_eligible (raw_profile_id raw) {} ds) (\<lambda>_. Ok (EligibleDevices ds)))"

subsection \<open>Parsing the lists\<close>

definition parse_device ::
  "string set \<Rightarrow> raw_device \<Rightarrow> (device \<times> string set, placement_refusal) result" where
  "parse_device ids r =
     and_then (require_stable_id ''device.id'' (raw_dev_id r)) (\<lambda>_.
     and_then (require_non_empty ''device.gfx_isa'' (raw_dev_gfx_isa r)) (\<lambda>_.
       if raw_dev_id r \<in> ids then Err (DuplicateDevice (raw_dev_id r))
       else Ok (\<lparr>dev_id = raw_dev_id r, dev_gfx_isa = raw_dev_gfx_isa r,
                 dev_total_bytes = raw_dev_total_bytes r,
                 dev_reserved_bytes = raw_dev_reserved_bytes r,
                 dev_availability = raw_dev_availability r\<rparr>, insert (raw_dev_id r) ids)))"

definition parse_artifact ::
  "string set \<Rightarrow> raw_artifact \<Rightarrow> (artifact \<times> string set, placement_refusal) result" where
  "parse_artifact ids r =
     and_then (require_stable_id ''artifact.artifact_id'' (raw_art_id r)) (\<lambda>_.
     and_then (require_non_empty ''artifact.digest'' (raw_art_digest r)) (\<lambda>_.
     and_then (validate_digest (raw_art_digest r)) (\<lambda>_.
       if raw_art_id r \<in> ids then Err (DuplicateArtifact (raw_art_id r))
       else Ok (\<lparr>art_id = raw_art_id r, art_digest = raw_art_digest r\<rparr>,
                insert (raw_art_id r) ids))))"

definition estimate_of :: "raw_memory_estimate \<Rightarrow> memory_estimate" where
  "estimate_of r =
     \<lparr>est_weights = raw_weights r, est_kv_cache = raw_kv_cache r,
      est_workspace = raw_workspace r, est_headroom = raw_headroom r\<rparr>"

definition parse_workload ::
  "string set \<Rightarrow> raw_workload \<Rightarrow> (workload \<times> string set, placement_refusal) result" where
  "parse_workload ids r =
     and_then (require_stable_id ''workload.profile_id'' (raw_profile_id r)) (\<lambda>_.
     and_then (require_stable_id ''workload.artifact_id'' (raw_wl_artifact_id r)) (\<lambda>_.
       if raw_profile_id r \<in> ids then Err (DuplicateProfile (raw_profile_id r))
       else and_then (validate_placement r) (\<lambda>placement.
         let estimate = estimate_of (raw_memory_estimate_of r)
         in and_then (total_estimate estimate) (\<lambda>_.
              Ok (\<lparr>wl_profile_id = raw_profile_id r, wl_artifact_id = raw_wl_artifact_id r,
                   wl_memory_estimate = estimate, wl_placement = placement\<rparr>,
                  insert (raw_profile_id r) ids)))))"

definition parse_commitment ::
  "string set \<Rightarrow> raw_device_commitment \<Rightarrow>
     (device_commitment \<times> string set, placement_refusal) result" where
  "parse_commitment ids r =
     and_then (require_stable_id ''commitment.device_id'' (raw_com_device_id r)) (\<lambda>_.
       if raw_com_device_id r \<in> ids then Err (DuplicateCommitment (raw_com_device_id r))
       else Ok (\<lparr>com_device_id = raw_com_device_id r,
                 com_estimated_bytes = raw_com_estimated_bytes r\<rparr>,
                insert (raw_com_device_id r) ids))"

definition parse_devices :: "raw_device list \<Rightarrow> (device list, placement_refusal) result" where
  "parse_devices rs = try_collect parse_device {} rs"

definition parse_artifacts :: "raw_artifact list \<Rightarrow> (artifact list, placement_refusal) result" where
  "parse_artifacts rs = try_collect parse_artifact {} rs"

definition parse_workloads :: "raw_workload list \<Rightarrow> (workload list, placement_refusal) result" where
  "parse_workloads rs = try_collect parse_workload {} rs"

definition parse_commitments ::
  "raw_device_commitment list \<Rightarrow> (device_commitment list, placement_refusal) result" where
  "parse_commitments rs = try_collect parse_commitment {} rs"

definition request_try_from :: "raw_plan_request \<Rightarrow> (plan_request, placement_refusal) result" where
  "request_try_from raw =
     (if raw_schema_version raw \<noteq> SCHEMA_VERSION
      then Err (UnsupportedSchemaVersion (raw_schema_version raw))
      else if raw_devices raw = [] then Err MissingDevices
      else
        and_then (parse_devices (raw_devices raw)) (\<lambda>devices.
        and_then (parse_artifacts (raw_artifacts raw)) (\<lambda>artifacts.
        and_then (parse_workloads (raw_workloads raw)) (\<lambda>workloads.
        and_then (parse_commitments (raw_commitments raw)) (\<lambda>commitments.
          Ok \<lparr>req_schema_version = raw_schema_version raw, req_devices = devices,
              req_artifacts = artifacts, req_workloads = workloads,
              req_commitments = commitments\<rparr>)))))"

text \<open>\<open>PlanRequest::from_json\<close>; the serde parser is the argument \<open>from_str\<close>.\<close>

definition request_from_json ::
  "(string \<Rightarrow> raw_plan_request option) \<Rightarrow> string \<Rightarrow> (plan_request, placement_refusal) result" where
  "request_from_json from_str input =
     and_then (ok_or InvalidRequest (from_str input)) request_try_from"

definition workload_count :: "plan_request \<Rightarrow> usize" where
  "workload_count r = length (req_workloads r)"

subsection \<open>What a checked request promises\<close>

definition stable_id :: "string \<Rightarrow> bool" where
  "stable_id v \<longleftrightarrow> v \<noteq> [] \<and> list_all stable_byte v"

definition canonical_digest :: "string \<Rightarrow> bool" where
  "canonical_digest v \<longleftrightarrow>
     take 7 v = ''sha256:'' \<and> length v = 71 \<and>
     list_all (\<lambda>b. is_ascii_digit b \<or> CHR ''a'' \<le> b \<and> b \<le> CHR ''f'') (drop 7 v)"

definition estimate_bytes :: "memory_estimate \<Rightarrow> nat" where
  "estimate_bytes e =
     unat (est_weights e) + unat (est_kv_cache e) + unat (est_workspace e) + unat (est_headroom e)"

definition valid_device :: "device \<Rightarrow> bool" where
  "valid_device d \<longleftrightarrow> stable_id (dev_id d) \<and> \<not> trims_to_empty (dev_gfx_isa d)"

definition valid_artifact :: "artifact \<Rightarrow> bool" where
  "valid_artifact a \<longleftrightarrow> stable_id (art_id a) \<and> canonical_digest (art_digest a)"

fun valid_placement :: "placement_request \<Rightarrow> bool" where
  "valid_placement (RequestedDevice d) = stable_id d"
| "valid_placement (EligibleDevices ds) = (ds \<noteq> [] \<and> list_all stable_id ds \<and> distinct ds)"

definition valid_workload :: "workload \<Rightarrow> bool" where
  "valid_workload w \<longleftrightarrow>
     stable_id (wl_profile_id w) \<and> stable_id (wl_artifact_id w) \<and>
     valid_placement (wl_placement w) \<and> estimate_bytes (wl_memory_estimate w) < 2 ^ 64"

definition valid_commitment :: "device_commitment \<Rightarrow> bool" where
  "valid_commitment c \<longleftrightarrow> stable_id (com_device_id c)"

definition valid_request :: "plan_request \<Rightarrow> bool" where
  "valid_request r \<longleftrightarrow>
     req_schema_version r = SCHEMA_VERSION \<and> req_devices r \<noteq> [] \<and>
     list_all valid_device (req_devices r) \<and> distinct (map dev_id (req_devices r)) \<and>
     list_all valid_artifact (req_artifacts r) \<and> distinct (map art_id (req_artifacts r)) \<and>
     list_all valid_workload (req_workloads r) \<and> distinct (map wl_profile_id (req_workloads r)) \<and>
     list_all valid_commitment (req_commitments r) \<and>
     distinct (map com_device_id (req_commitments r))"

text \<open>The raw request a checked one came from.\<close>

definition raw_device_of :: "device \<Rightarrow> raw_device" where
  "raw_device_of d =
     \<lparr>raw_dev_id = dev_id d, raw_dev_gfx_isa = dev_gfx_isa d,
      raw_dev_total_bytes = dev_total_bytes d, raw_dev_reserved_bytes = dev_reserved_bytes d,
      raw_dev_availability = dev_availability d\<rparr>"

definition raw_artifact_of :: "artifact \<Rightarrow> raw_artifact" where
  "raw_artifact_of a = \<lparr>raw_art_id = art_id a, raw_art_digest = art_digest a\<rparr>"

definition raw_estimate_of :: "memory_estimate \<Rightarrow> raw_memory_estimate" where
  "raw_estimate_of e =
     \<lparr>raw_weights = est_weights e, raw_kv_cache = est_kv_cache e,
      raw_workspace = est_workspace e, raw_headroom = est_headroom e\<rparr>"

fun raw_placement_of :: "placement_request \<Rightarrow> raw_placement_request" where
  "raw_placement_of (RequestedDevice d) = RawRequestedDevice d"
| "raw_placement_of (EligibleDevices ds) = RawEligibleDevices ds"

definition raw_workload_of :: "workload \<Rightarrow> raw_workload" where
  "raw_workload_of w =
     \<lparr>raw_profile_id = wl_profile_id w, raw_wl_artifact_id = wl_artifact_id w,
      raw_memory_estimate_of = raw_estimate_of (wl_memory_estimate w),
      raw_placement = raw_placement_of (wl_placement w)\<rparr>"

definition raw_commitment_of :: "device_commitment \<Rightarrow> raw_device_commitment" where
  "raw_commitment_of c =
     \<lparr>raw_com_device_id = com_device_id c, raw_com_estimated_bytes = com_estimated_bytes c\<rparr>"

definition raw_request_of :: "plan_request \<Rightarrow> raw_plan_request" where
  "raw_request_of r =
     \<lparr>raw_schema_version = req_schema_version r,
      raw_devices = map raw_device_of (req_devices r),
      raw_artifacts = map raw_artifact_of (req_artifacts r),
      raw_workloads = map raw_workload_of (req_workloads r),
      raw_commitments = map raw_commitment_of (req_commitments r)\<rparr>"

subsection \<open>The field checks, characterised\<close>

lemma stable_byte_range:
  assumes "stable_byte c"
  shows "32 < (of_char c :: nat)" and "(of_char c :: nat) < 128"
proof -
  have "(44::nat) < of_char c \<and> (of_char c :: nat) < 123"
    using assms
    unfolding stable_byte_def is_ascii_alphanumeric_def is_ascii_digit_def
      is_ascii_lowercase_def is_ascii_uppercase_def less_eq_char_def
    by (elim disjE conjE) simp_all
  then show "32 < (of_char c :: nat)" and "(of_char c :: nat) < 128" by simp_all
qed

lemma stable_byte_not_space: "stable_byte c \<Longrightarrow> leading_space (c # s) = None"
  using stable_byte_range [of c] by (simp add: leading_space_def Let_def split: list.split)

lemma stable_id_not_blank: "stable_id v \<Longrightarrow> \<not> trims_to_empty v"
  by (cases v)
    (simp_all add: stable_id_def stable_byte_not_space trims_to_empty.simps [of "_ # _"])

lemma require_stable_id_Ok_iff [simp]: "require_stable_id f v = Ok u \<longleftrightarrow> stable_id v"
proof (cases "v = []")
  case True
  then show ?thesis
    by (simp add: require_stable_id_def require_non_empty_def stable_id_def
        trims_to_empty.simps [of "[]"] leading_space_def)
next
  case False
  then show ?thesis
    using stable_id_not_blank [of v]
    by (auto simp: require_stable_id_def require_non_empty_def stable_id_def)
qed

lemma field_checks_no_panic [simp]:
  "require_non_empty f v \<noteq> Panic" "require_stable_id f v \<noteq> Panic" "validate_digest v \<noteq> Panic"
  "total_estimate e \<noteq> Panic" "check_eligible p seen ds \<noteq> Panic" "validate_placement w \<noteq> Panic"
proof -
  show 1: "require_non_empty f v \<noteq> Panic" for f v
    by (simp add: require_non_empty_def)
  show 2: "require_stable_id f v \<noteq> Panic" for f v
    by (simp add: require_stable_id_def and_then_Panic_iff 1)
  show "validate_digest v \<noteq> Panic"
    by (auto simp: validate_digest_def split: option.splits)
  show "total_estimate e \<noteq> Panic"
    by (simp add: total_estimate_def)
  show 3: "check_eligible p seen ds \<noteq> Panic" for p seen ds
    by (induction p seen ds rule: check_eligible.induct) (auto simp: and_then_Panic_iff 2)
  show "validate_placement w \<noteq> Panic"
    by (auto simp: validate_placement_def and_then_Panic_iff 2 3 split: raw_placement_request.splits)
qed

lemma require_non_empty_Ok_iff [simp]: "require_non_empty f v = Ok u \<longleftrightarrow> \<not> trims_to_empty v"
  by (simp add: require_non_empty_def)

lemma validate_digest_Ok_iff [simp]: "validate_digest v = Ok u \<longleftrightarrow> canonical_digest v"
proof -
  have pre: "strip_prefix p v = Some t \<longleftrightarrow> take (length p) v = p \<and> t = drop (length p) v" for p t
    unfolding strip_prefix_Some_iff by (metis append_eq_conv_conj append_take_drop_id)
  have len: "length ''sha256:'' = (7::nat)" by simp
  have split: "strip_prefix ''sha256:'' v = Some t \<longleftrightarrow> take 7 v = ''sha256:'' \<and> t = drop 7 v" for t
    using pre [of "''sha256:''" t] unfolding len .
  show ?thesis
  proof (cases "strip_prefix ''sha256:'' v")
    case None
    then show ?thesis
      using split [of "drop 7 v"] by (simp add: validate_digest_def canonical_digest_def)
  next
    case (Some t)
    then show ?thesis
      using split [of t] by (simp add: validate_digest_def canonical_digest_def) arith
  qed
qed

lemma canonical_digest_not_blank:
  assumes "canonical_digest v"
  shows "\<not> trims_to_empty v"
proof -
  obtain t where "v = CHR ''s'' # t"
    using assms by (cases v) (auto simp: canonical_digest_def)
  moreover have "stable_byte CHR ''s''" by code_simp
  ultimately show ?thesis
    using stable_byte_not_space [of "CHR ''s''" t] by (simp add: trims_to_empty.simps [of "_ # _"])
qed

lemma total_estimate_Ok_iff [simp]:
  "total_estimate e = Ok b \<longleftrightarrow> unat b = estimate_bytes e"
proof
  assume "total_estimate e = Ok b"
  then show "unat b = estimate_bytes e"
    by (auto simp: total_estimate_def estimate_bytes_def checked_iffs bind_eq_Some_conv)
next
  assume b: "unat b = estimate_bytes e"
  then have small: "estimate_bytes e < 2 ^ 64"
    using unat_u64_bound [of b] by simp
  obtain y :: u64 where y: "unat y = unat (est_weights e) + unat (est_kv_cache e)"
    using small unat_represents by (metis (no_types) add_lessD1 estimate_bytes_def)
  obtain z :: u64 where z: "unat z = unat y + unat (est_workspace e)"
    using small y unat_represents by (metis (no_types) add_lessD1 estimate_bytes_def)
  have "checked_add (est_weights e) (est_kv_cache e) = Some y"
    and "checked_add y (est_workspace e) = Some z" and "checked_add z (est_headroom e) = Some b"
    using b y z by (simp_all add: checked_add_Some_iff estimate_bytes_def)
  then show "total_estimate e = Ok b"
    by (simp add: total_estimate_def)
qed

lemma check_eligible_Ok_iff [simp]:
  "check_eligible p seen ds = Ok u \<longleftrightarrow> list_all stable_id ds \<and> distinct ds \<and> seen \<inter> set ds = {}"
  by (induction p seen ds rule: check_eligible.induct) auto

lemma validate_placement_Ok_iff [simp]:
  "validate_placement w = Ok p \<longleftrightarrow> raw_placement w = raw_placement_of p \<and> valid_placement p"
  by (cases p) (auto simp: validate_placement_def split: raw_placement_request.splits)

lemma estimate_of_raw [simp]: "estimate_of (raw_estimate_of e) = e"
  by (simp add: estimate_of_def raw_estimate_of_def)

lemma raw_estimate_of [simp]: "raw_estimate_of (estimate_of r) = r"
  by (simp add: estimate_of_def raw_estimate_of_def)

lemma raw_estimate_eq_iff: "r = raw_estimate_of e \<longleftrightarrow> estimate_of r = e"
  by auto

subsection \<open>The list parsers, through their contract\<close>

interpretation devices: unique_parser parse_device dev_id "\<lambda>r d. valid_device d \<and> r = raw_device_of d"
proof
  fix seen seen' :: "string set" and r d
  show "parse_device seen r = Ok (d, seen') \<longleftrightarrow>
      (valid_device d \<and> r = raw_device_of d) \<and> dev_id d \<notin> seen \<and> seen' = insert (dev_id d) seen"
    by (cases r; cases d) (auto simp: parse_device_def valid_device_def raw_device_of_def)
  show "parse_device seen r \<noteq> Panic"
    by (simp add: parse_device_def and_then_Panic_iff)
qed

interpretation artifacts:
  unique_parser parse_artifact art_id "\<lambda>r a. valid_artifact a \<and> r = raw_artifact_of a"
proof
  fix seen seen' :: "string set" and r a
  show "parse_artifact seen r = Ok (a, seen') \<longleftrightarrow>
      (valid_artifact a \<and> r = raw_artifact_of a) \<and> art_id a \<notin> seen \<and> seen' = insert (art_id a) seen"
    by (cases r; cases a)
      (auto simp: parse_artifact_def valid_artifact_def raw_artifact_of_def
        dest: canonical_digest_not_blank)
  show "parse_artifact seen r \<noteq> Panic"
    by (simp add: parse_artifact_def and_then_Panic_iff)
qed

interpretation workloads:
  unique_parser parse_workload wl_profile_id "\<lambda>r w. valid_workload w \<and> r = raw_workload_of w"
proof
  fix seen seen' :: "string set" and r w
  show "parse_workload seen r = Ok (w, seen') \<longleftrightarrow>
      (valid_workload w \<and> r = raw_workload_of w) \<and> wl_profile_id w \<notin> seen \<and>
      seen' = insert (wl_profile_id w) seen"
    by (cases r; cases w)
      (auto simp: parse_workload_def valid_workload_def raw_workload_of_def Let_def
        raw_estimate_eq_iff)
  show "parse_workload seen r \<noteq> Panic"
    by (simp add: parse_workload_def and_then_Panic_iff Let_def)
qed

interpretation commitments:
  unique_parser parse_commitment com_device_id "\<lambda>r c. valid_commitment c \<and> r = raw_commitment_of c"
proof
  fix seen seen' :: "string set" and r c
  show "parse_commitment seen r = Ok (c, seen') \<longleftrightarrow>
      (valid_commitment c \<and> r = raw_commitment_of c) \<and> com_device_id c \<notin> seen \<and>
      seen' = insert (com_device_id c) seen"
    by (cases r; cases c) (auto simp: parse_commitment_def valid_commitment_def raw_commitment_of_def)
  show "parse_commitment seen r \<noteq> Panic"
    by (simp add: parse_commitment_def and_then_Panic_iff)
qed

lemma list_all2_image: "list_all2 (\<lambda>r a. P a \<and> r = f a) rs xs \<longleftrightarrow> list_all P xs \<and> rs = map f xs"
  by (induction xs arbitrary: rs) (auto simp: list_all2_Cons2)

text \<open>The validation accepts a raw request exactly when it is the raw form of a request whose
  identifiers, digests, placements and estimates meet the contract, and then returns that request
  with every field unchanged.\<close>

theorem request_try_from_iff:
  "request_try_from raw = Ok r \<longleftrightarrow> valid_request r \<and> raw = raw_request_of r"
  by (cases raw; cases r)
    (auto simp: request_try_from_def valid_request_def raw_request_of_def
      parse_devices_def parse_artifacts_def parse_workloads_def parse_commitments_def
      devices.collect_Ok_iff artifacts.collect_Ok_iff workloads.collect_Ok_iff
      commitments.collect_Ok_iff list_all2_image)

end
