(* ===== verification/Placement_Ledger.thy ===== *)
theory Placement_Ledger
  imports Placement_Request
begin

text \<open>
  The reservation ledger of \<open>crates/placement/src/lib.rs\<close>: the planner's first-fit placement of
  workloads, the transactional commit of a prepared plan, in-process byte reservations and the
  release of both kinds of lease. The identity of a ledger (\<open>Arc::ptr_eq\<close> on its brand) is a
  natural number chosen by whoever creates the ledger. A method taking \<open>&mut self\<close> is a function
  from the ledger to a result and the next ledger. Source locations carried by errors are dropped.
\<close>

subsection \<open>Data\<close>

text \<open>\<open>NonZeroU64\<close>, the payload of \<open>RequestedDeviceBytes\<close> and \<open>RequestedHostBytes\<close>.\<close>

typedef nonzero = "{b :: u64. b \<noteq> 0}" morphisms bytes_of nonzero
  by (rule exI [of _ 1]) simp

setup_lifting type_definition_nonzero

lemma bytes_of_nonzero [simp]: "b \<noteq> 0 \<Longrightarrow> bytes_of (nonzero b) = b"
  by (simp add: nonzero_inverse)

lemma bytes_of_not_0 [simp]: "bytes_of n \<noteq> 0"
  using bytes_of [of n] by simp

lemma bytes_of_pos [simp]: "0 < unat (bytes_of n)"
  by (simp add: unat_gt_0)

record admitted_placement =
  adm_profile_id :: string
  adm_artifact_id :: string
  adm_digest :: string
  adm_device_id :: string
  adm_memory_estimate :: memory_estimate
  adm_total_estimated_bytes :: u64

datatype plan_outcome =
    Plan u32 "admitted_placement list"
  | Refusal u32 placement_refusal

type_synonym brand = nat

record resource_snapshot =
  snap_devices :: "device list"
  snap_commitments :: "device_commitment list"

record lease_record =
  rec_device_id :: string
  rec_reserved_bytes :: u64

record lease_capability =
  cap_brand :: brand
  cap_lease_id :: u64
  cap_device_id :: string
  cap_reserved_bytes :: u64

record reservation_lease =
  rl_lease :: lease_capability
  rl_placement :: admitted_placement

record device_byte_lease =
  dbl_lease :: lease_capability
  dbl_requested_bytes :: nonzero

record reservation_ledger =
  led_brand :: brand
  led_snapshot :: resource_snapshot
  led_dynamic_reserved :: "(string, u64) btree"
  led_active_leases :: "(u64, lease_record) btree"
  led_revision :: u64
  led_next_lease_id :: u64

record prepared_plan =
  pp_brand :: brand
  pp_revision :: u64
  pp_schema_version :: u32
  pp_placements :: "admitted_placement list"

record reservation_commit =
  rc_dynamic_reserved :: "(string, u64) btree"
  rc_first_lease_id :: u64
  rc_next_lease_id :: u64
  rc_next_revision :: u64

datatype lease_release_reason = Foreign | Unknown | ReleaseOverflow string

datatype lease_reservation_error =
    ReservationPlacement placement_refusal
  | ReservationOverflow string

datatype device_byte_reservation_error =
    UnknownRequestedDevice string
  | UnsupportedRequestedDevice string string
  | UnavailableRequestedDevice string
  | RequestedBytesExhausted string u64 u64
  | RequestedByteArithmeticOverflow string
  | RequestedByteAccounting placement_refusal
  | ForeignRequestedByteLease
  | UnknownRequestedByteLease

subsection \<open>Error conversions\<close>

fun refusal_of_reservation :: "lease_reservation_error \<Rightarrow> placement_refusal" where
  "refusal_of_reservation (ReservationPlacement reason) = reason"
| "refusal_of_reservation (ReservationOverflow scope) = ArithmeticOverflow scope"

fun byte_error_of_reservation :: "lease_reservation_error \<Rightarrow> device_byte_reservation_error" where
  "byte_error_of_reservation (ReservationPlacement (CapacityExhausted d required available)) =
     RequestedBytesExhausted d required available"
| "byte_error_of_reservation (ReservationPlacement (ArithmeticOverflow scope)) =
     RequestedByteArithmeticOverflow scope"
| "byte_error_of_reservation (ReservationOverflow scope) = RequestedByteArithmeticOverflow scope"
| "byte_error_of_reservation (ReservationPlacement source) = RequestedByteAccounting source"

fun byte_error_of_release :: "lease_release_reason \<Rightarrow> device_byte_reservation_error" where
  "byte_error_of_release Foreign = ForeignRequestedByteLease"
| "byte_error_of_release Unknown = UnknownRequestedByteLease"
| "byte_error_of_release (ReleaseOverflow scope) = RequestedByteArithmeticOverflow scope"

fun placement_release_error :: "lease_release_reason \<Rightarrow> placement_refusal" where
  "placement_release_error Foreign = ForeignReservationLease"
| "placement_release_error Unknown = UnknownReservationLease"
| "placement_release_error (ReleaseOverflow scope) = ArithmeticOverflow scope"

subsection \<open>Remaining capacity\<close>

definition snapshot_from_request :: "plan_request \<Rightarrow> resource_snapshot" where
  "snapshot_from_request r =
     \<lparr>snap_devices = req_devices r, snap_commitments = req_commitments r\<rparr>"

text \<open>The index of each device by identifier; a later duplicate would replace an earlier one.\<close>

definition device_indices :: "device list \<Rightarrow> (string, usize) btree" where
  "device_indices devices =
     fold (\<lambda>(i, d) m. bt_insert (dev_id d) i m) (enumerate 0 devices) []"

fun initial_remaining :: "device list \<Rightarrow> (u64 list, placement_refusal) result" where
  "initial_remaining [] = Ok []"
| "initial_remaining (d # ds) =
     (case checked_sub (dev_total_bytes d) (dev_reserved_bytes d) of
        None \<Rightarrow> Err (CapacityExhausted (dev_id d) (dev_reserved_bytes d) (dev_total_bytes d))
      | Some after_reserved \<Rightarrow>
          and_then (initial_remaining ds) (\<lambda>rest. Ok (after_reserved # rest)))"

text \<open>The two loops over the static commitments and the dynamic reservations are the same.\<close>

fun subtract_reservations ::
  "(string, usize) btree \<Rightarrow> (string \<times> u64) list \<Rightarrow> u64 list \<Rightarrow> (u64 list, placement_refusal) result"
where
  "subtract_reservations indices [] remaining = Ok remaining"
| "subtract_reservations indices ((d, b) # rest) remaining =
     and_then (ok_or (CommitmentForMissingDevice d) (bt_get indices d)) (\<lambda>i.
     and_then (index remaining i) (\<lambda>available.
       case checked_sub available b of
         None \<Rightarrow> Err (CapacityExhausted d b available)
       | Some left \<Rightarrow> subtract_reservations indices rest (remaining[i := left])))"

definition remaining_after_reservations ::
  "resource_snapshot \<Rightarrow> (string, u64) btree \<Rightarrow> (u64 list, placement_refusal) result" where
  "remaining_after_reservations snapshot dynamic_reserved =
     (let indices = device_indices (snap_devices snapshot)
      in and_then (initial_remaining (snap_devices snapshot)) (\<lambda>remaining.
         and_then (subtract_reservations indices
             (map (\<lambda>c. (com_device_id c, com_estimated_bytes c)) (snap_commitments snapshot))
             remaining) (\<lambda>remaining.
         subtract_reservations indices dynamic_reserved remaining)))"

subsection \<open>Placing workloads\<close>

fun first_eligible ::
  "device list \<Rightarrow> (string, usize) btree \<Rightarrow> u64 list \<Rightarrow> u64 \<Rightarrow> string list \<Rightarrow>
     (usize option, placement_refusal) result" where
  "first_eligible devices indices remaining required [] = Ok None"
| "first_eligible devices indices remaining required (d # ds) =
     (case bt_get indices d of
        None \<Rightarrow> first_eligible devices indices remaining required ds
      | Some i \<Rightarrow>
          and_then (index devices i) (\<lambda>device.
            if matches_configured_architecture (dev_gfx_isa device)
              \<and> dev_availability device = Available
            then and_then (index remaining i) (\<lambda>available.
              if required \<le> available then Ok (Some i)
              else first_eligible devices indices remaining required ds)
            else first_eligible devices indices remaining required ds))"

definition select_device ::
  "workload \<Rightarrow> device list \<Rightarrow> (string, usize) btree \<Rightarrow> u64 list \<Rightarrow> u64 \<Rightarrow>
     (usize, placement_refusal) result" where
  "select_device w devices indices remaining required =
     (case wl_placement w of
        RequestedDevice d \<Rightarrow>
          and_then (ok_or (MissingDevice (wl_profile_id w) d) (bt_get indices d)) (\<lambda>i.
          and_then (index devices i) (\<lambda>device.
            if \<not> matches_configured_architecture (dev_gfx_isa device)
            then Err (UnsupportedDevice (dev_id device) (dev_gfx_isa device))
            else if dev_availability device = Offline then Err (OfflineDevice (dev_id device))
            else and_then (index remaining i) (\<lambda>available.
              if available < required
              then Err (CapacityExhausted (dev_id device) required available)
              else Ok i)))
      | EligibleDevices ds \<Rightarrow>
          and_then (first_eligible devices indices remaining required ds) (\<lambda>found.
            ok_or (NoEligibleDevice (wl_profile_id w)) found))"

definition artifacts_by_id :: "artifact list \<Rightarrow> (string, artifact) btree" where
  "artifacts_by_id artifacts = fold (\<lambda>a m. bt_insert (art_id a) a m) artifacts []"

text \<open>\<open>remaining[i] -= required\<close> is unchecked in the source; an underflow would be a panic.\<close>

fun place_workloads ::
  "device list \<Rightarrow> (string, usize) btree \<Rightarrow> (string, artifact) btree \<Rightarrow> u64 list \<Rightarrow> workload list \<Rightarrow>
     (admitted_placement list, placement_refusal) result" where
  "place_workloads devices indices artifacts remaining [] = Ok []"
| "place_workloads devices indices artifacts remaining (w # ws) =
     and_then (ok_or (MissingArtifact (wl_profile_id w) (wl_artifact_id w))
       (bt_get artifacts (wl_artifact_id w))) (\<lambda>artifact.
     and_then (total_estimate (wl_memory_estimate w)) (\<lambda>required.
     and_then (select_device w devices indices remaining required) (\<lambda>i.
     and_then (index remaining i) (\<lambda>available.
       if available < required then Panic
       else and_then (index devices i) (\<lambda>device.
         and_then (place_workloads devices indices artifacts (remaining[i := available - required]) ws)
           (\<lambda>placements.
             Ok (\<lparr>adm_profile_id = wl_profile_id w, adm_artifact_id = art_id artifact,
                  adm_digest = art_digest artifact, adm_device_id = dev_id device,
                  adm_memory_estimate = wl_memory_estimate w,
                  adm_total_estimated_bytes = required\<rparr> # placements)))))))"

definition prepare_placements ::
  "plan_request \<Rightarrow> u64 list \<Rightarrow> (admitted_placement list, placement_refusal) result" where
  "prepare_placements r remaining =
     place_workloads (req_devices r) (device_indices (req_devices r))
       (artifacts_by_id (req_artifacts r)) remaining (req_workloads r)"

subsection \<open>The ledger's operations\<close>

definition ledger_new :: "brand \<Rightarrow> plan_request \<Rightarrow> (reservation_ledger, placement_refusal) result"
where
  "ledger_new b r =
     (let snapshot = snapshot_from_request r
      in and_then (remaining_after_reservations snapshot []) (\<lambda>_.
           Ok \<lparr>led_brand = b, led_snapshot = snapshot, led_dynamic_reserved = [],
               led_active_leases = [], led_revision = 0, led_next_lease_id = 1\<rparr>))"

definition ledger_prepare ::
  "reservation_ledger \<Rightarrow> plan_request \<Rightarrow> (prepared_plan, placement_refusal) result" where
  "ledger_prepare l r =
     (if led_snapshot l \<noteq> snapshot_from_request r then Err ResourceSnapshotMismatch
      else and_then (remaining_after_reservations (led_snapshot l) (led_dynamic_reserved l))
        (\<lambda>remaining.
          and_then (prepare_placements r remaining) (\<lambda>placements.
            Ok \<lparr>pp_brand = led_brand l, pp_revision = led_revision l,
                pp_schema_version = req_schema_version r, pp_placements = placements\<rparr>)))"

fun add_reservations ::
  "(string \<times> u64) list \<Rightarrow> (string, u64) btree \<Rightarrow> ((string, u64) btree, lease_reservation_error) result"
where
  "add_reservations [] m = Ok m"
| "add_reservations ((d, b) # rest) m =
     (case checked_add (case bt_get m d of None \<Rightarrow> 0 | Some r \<Rightarrow> r) b of
        None \<Rightarrow> Err (ReservationOverflow ''dynamic device reservation'')
      | Some reserved \<Rightarrow> add_reservations rest (bt_insert d reserved m))"

definition prepare_reservation ::
  "reservation_ledger \<Rightarrow> (string \<times> u64) list \<Rightarrow> (reservation_commit, lease_reservation_error) result"
where
  "prepare_reservation l reservations =
     and_then (ok_or (ReservationOverflow ''reservation count'')
       (u64_of_usize (length reservations))) (\<lambda>lease_count.
     and_then (ok_or (ReservationOverflow ''reservation lease identifier'')
       (checked_add (led_next_lease_id l) lease_count)) (\<lambda>next_lease_id.
     and_then (ok_or (ReservationOverflow ''reservation ledger revision'')
       (checked_add (led_revision l) 1)) (\<lambda>next_revision.
     and_then (add_reservations reservations (led_dynamic_reserved l)) (\<lambda>candidate_reserved.
     and_then (map_err ReservationPlacement
       (remaining_after_reservations (led_snapshot l) candidate_reserved)) (\<lambda>_.
       Ok \<lparr>rc_dynamic_reserved = candidate_reserved, rc_first_lease_id = led_next_lease_id l,
           rc_next_lease_id = next_lease_id, rc_next_revision = next_revision\<rparr>)))))"

text \<open>The half-open range \<open>first..next\<close> of lease identifiers.\<close>

definition id_range :: "u64 \<Rightarrow> u64 \<Rightarrow> u64 list" where
  "id_range first next = map (\<lambda>i. first + of_nat i) [0..<unat next - unat first]"

definition lease_capabilities ::
  "reservation_ledger \<Rightarrow> (string \<times> u64) list \<Rightarrow> reservation_commit \<Rightarrow> lease_capability list" where
  "lease_capabilities l reservations commit =
     map (\<lambda>((d, b), i). \<lparr>cap_brand = led_brand l, cap_lease_id = i, cap_device_id = d,
                          cap_reserved_bytes = b\<rparr>)
       (zip reservations (id_range (rc_first_lease_id commit) (rc_next_lease_id commit)))"

definition apply_reservation ::
  "reservation_ledger \<Rightarrow> reservation_commit \<Rightarrow> (string \<times> u64) list \<Rightarrow> reservation_ledger" where
  "apply_reservation l commit reservations =
     l\<lparr>led_active_leases :=
         fold (\<lambda>((d, b), i) m. bt_insert i \<lparr>rec_device_id = d, rec_reserved_bytes = b\<rparr> m)
           (zip reservations (id_range (rc_first_lease_id commit) (rc_next_lease_id commit)))
           (led_active_leases l),
       led_dynamic_reserved := rc_dynamic_reserved commit,
       led_next_lease_id := rc_next_lease_id commit,
       led_revision := rc_next_revision commit\<rparr>"

definition ledger_commit ::
  "reservation_ledger \<Rightarrow> prepared_plan \<Rightarrow>
     (reservation_lease list, placement_refusal) result \<times> reservation_ledger" where
  "ledger_commit l prepared =
     (if led_brand l \<noteq> pp_brand prepared then (Err ForeignPreparedPlan, l)
      else if led_revision l \<noteq> pp_revision prepared then (Err StalePreparedPlan, l)
      else
        let reservations = map (\<lambda>p. (adm_device_id p, adm_total_estimated_bytes p))
              (pp_placements prepared)
        in case map_err refusal_of_reservation (prepare_reservation l reservations) of
             Err e \<Rightarrow> (Err e, l)
           | Panic \<Rightarrow> (Panic, l)
           | Ok commit \<Rightarrow>
               let leases = lease_capabilities l reservations commit
               in (Ok (map (\<lambda>(p, c). \<lparr>rl_lease = c, rl_placement = p\<rparr>)
                         (zip (pp_placements prepared) leases)),
                   apply_reservation l commit reservations))"

definition require_reservable_device ::
  "reservation_ledger \<Rightarrow> string \<Rightarrow> (unit, device_byte_reservation_error) result" where
  "require_reservable_device l d =
     (case List.find (\<lambda>device. dev_id device = d) (snap_devices (led_snapshot l)) of
        None \<Rightarrow> Err (UnknownRequestedDevice d)
      | Some device \<Rightarrow>
          if \<not> matches_configured_architecture (dev_gfx_isa device)
          then Err (UnsupportedRequestedDevice (dev_id device) (dev_gfx_isa device))
          else if dev_availability device = Offline
          then Err (UnavailableRequestedDevice (dev_id device))
          else Ok ())"

text \<open>One mandatory and one optional extent, checked together before anything changes.\<close>

definition reserve_bytes_batch ::
  "reservation_ledger \<Rightarrow> string \<Rightarrow> nonzero \<Rightarrow> (string \<times> nonzero) option \<Rightarrow>
     (device_byte_lease \<times> device_byte_lease option, device_byte_reservation_error) result
       \<times> reservation_ledger" where
  "reserve_bytes_batch l first_device first_bytes second =
     (let reservations = (first_device, bytes_of first_bytes) #
            (case second of None \<Rightarrow> [] | Some (d, b) \<Rightarrow> [(d, bytes_of b)]);
          checked =
            and_then (require_reservable_device l first_device) (\<lambda>_.
            and_then (case second of None \<Rightarrow> Ok () | Some (d, b) \<Rightarrow> require_reservable_device l d) (\<lambda>_.
            and_then (map_err byte_error_of_reservation (prepare_reservation l reservations)) (\<lambda>commit.
            let first =
                  \<lparr>dbl_lease = \<lparr>cap_brand = led_brand l, cap_lease_id = rc_first_lease_id commit,
                                cap_device_id = first_device,
                                cap_reserved_bytes = bytes_of first_bytes\<rparr>,
                   dbl_requested_bytes = first_bytes\<rparr>
            in case second of
                 None \<Rightarrow> Ok (commit, first, None)
               | Some (d, b) \<Rightarrow>
                   and_then (ok_or (RequestedByteArithmeticOverflow
                       ''requested-byte batch lease identifier'')
                     (checked_add (rc_first_lease_id commit) 1)) (\<lambda>lease_id.
                     Ok (commit, first,
                       Some \<lparr>dbl_lease = \<lparr>cap_brand = led_brand l, cap_lease_id = lease_id,
                                          cap_device_id = d, cap_reserved_bytes = bytes_of b\<rparr>,
                             dbl_requested_bytes = b\<rparr>)))))
      in case checked of
           Err e \<Rightarrow> (Err e, l)
         | Panic \<Rightarrow> (Panic, l)
         | Ok (commit, first, second_lease) \<Rightarrow>
             (Ok (first, second_lease), apply_reservation l commit reservations))"

definition reserve_bytes ::
  "reservation_ledger \<Rightarrow> string \<Rightarrow> nonzero \<Rightarrow>
     (device_byte_lease, device_byte_reservation_error) result \<times> reservation_ledger" where
  "reserve_bytes l d b =
     (case reserve_bytes_batch l d b None of
        (r, l') \<Rightarrow> (and_then r (\<lambda>(lease, _). Ok lease), l'))"

text \<open>A failed release returns the lease to its owner with the reason.\<close>

definition release_lease ::
  "reservation_ledger \<Rightarrow> lease_capability \<Rightarrow>
     (unit, lease_release_reason \<times> lease_capability) result \<times> reservation_ledger" where
  "release_lease l lease =
     (if led_brand l \<noteq> cap_brand lease then (Err (Foreign, lease), l)
      else case bt_get (led_active_leases l) (cap_lease_id lease) of
        None \<Rightarrow> (Err (Unknown, lease), l)
      | Some record \<Rightarrow>
          if rec_device_id record \<noteq> cap_device_id lease
            \<or> rec_reserved_bytes record \<noteq> cap_reserved_bytes lease
          then (Err (Unknown, lease), l)
          else case bt_get (led_dynamic_reserved l) (rec_device_id record) of
            None \<Rightarrow> (Err (Unknown, lease), l)
          | Some current_reserved \<Rightarrow>
              (case checked_sub current_reserved (rec_reserved_bytes record) of
                 None \<Rightarrow> (Err (ReleaseOverflow ''dynamic device release'', lease), l)
               | Some next_reserved \<Rightarrow>
                   (case checked_add (led_revision l) 1 of
                      None \<Rightarrow> (Err (ReleaseOverflow ''reservation ledger revision'', lease), l)
                    | Some next_revision \<Rightarrow>
                        (Ok (), l\<lparr>led_active_leases :=
                                    bt_remove (cap_lease_id lease) (led_active_leases l),
                                  led_dynamic_reserved :=
                                    (if next_reserved = 0
                                     then bt_remove (rec_device_id record) (led_dynamic_reserved l)
                                     else bt_insert (rec_device_id record) next_reserved
                                            (led_dynamic_reserved l)),
                                  led_revision := next_revision\<rparr>))))"

definition ledger_release ::
  "reservation_ledger \<Rightarrow> reservation_lease \<Rightarrow>
     (unit, placement_refusal \<times> reservation_lease) result \<times> reservation_ledger" where
  "ledger_release l lease =
     (if cap_device_id (rl_lease lease) \<noteq> adm_device_id (rl_placement lease)
        \<or> cap_reserved_bytes (rl_lease lease) \<noteq> adm_total_estimated_bytes (rl_placement lease)
      then (Err (UnknownReservationLease, lease), l)
      else case release_lease l (rl_lease lease) of
        (r, l') \<Rightarrow>
          (map_err (\<lambda>(reason, cap). (placement_release_error reason, lease\<lparr>rl_lease := cap\<rparr>)) r, l'))"

definition release_bytes ::
  "reservation_ledger \<Rightarrow> device_byte_lease \<Rightarrow>
     (unit, device_byte_reservation_error \<times> device_byte_lease) result \<times> reservation_ledger" where
  "release_bytes l lease =
     (case release_lease l (dbl_lease lease) of
        (r, l') \<Rightarrow>
          (map_err (\<lambda>(reason, cap). (byte_error_of_release reason, lease\<lparr>dbl_lease := cap\<rparr>)) r, l'))"

subsection \<open>Planning without a retained ledger\<close>

definition refusal :: "placement_refusal \<Rightarrow> plan_outcome" where
  "refusal reason = Refusal SCHEMA_VERSION reason"

definition into_outcome :: "prepared_plan \<Rightarrow> plan_outcome" where
  "into_outcome p = Plan (pp_schema_version p) (pp_placements p)"

definition plan :: "brand \<Rightarrow> plan_request \<Rightarrow> plan_outcome option" where
  "plan b r =
     (case and_then (ledger_new b r) (\<lambda>l. ledger_prepare l r) of
        Ok prepared \<Rightarrow> Some (into_outcome prepared)
      | Err reason \<Rightarrow> Some (refusal reason)
      | Panic \<Rightarrow> None)"

definition plan_json ::
  "(string \<Rightarrow> raw_plan_request option) \<Rightarrow> brand \<Rightarrow> string \<Rightarrow> plan_outcome option" where
  "plan_json from_str b input =
     (case from_str input of
        None \<Rightarrow> Some (refusal InvalidRequest)
      | Some raw \<Rightarrow>
          (case request_try_from raw of
             Ok r \<Rightarrow> plan b r
           | Err reason \<Rightarrow> Some (refusal reason)
           | Panic \<Rightarrow> None))"

definition placement_count :: "prepared_plan \<Rightarrow> usize" where
  "placement_count p = length (pp_placements p)"

end
