(* ===== verification/Placement_Capacity.thy ===== *)
theory Placement_Capacity
  imports Placement_Ledger
begin

text \<open>
  The arithmetic of the ledger: the chain of checked subtractions of
  \<open>remaining_after_reservations\<close> is the single inequality "reserved, committed and dynamic bytes
  together do not exceed the device's total", device by device, and the first-fit loop never
  spends more than what remains.
\<close>

subsection \<open>Bytes per device\<close>

definition bytes_on :: "string \<Rightarrow> (string \<times> u64) list \<Rightarrow> nat" where
  "bytes_on d es = (\<Sum>e\<leftarrow>es. if fst e = d then unat (snd e) else 0)"

definition reserved_on :: "(string, u64) btree \<Rightarrow> string \<Rightarrow> nat" where
  "reserved_on m d = (case bt_get m d of None \<Rightarrow> 0 | Some b \<Rightarrow> unat b)"

definition commitment_entries :: "resource_snapshot \<Rightarrow> (string \<times> u64) list" where
  "commitment_entries snap =
     map (\<lambda>c. (com_device_id c, com_estimated_bytes c)) (snap_commitments snap)"

text \<open>What the sequence of checked subtractions decides.\<close>

definition fits :: "resource_snapshot \<Rightarrow> (string, u64) btree \<Rightarrow> bool" where
  "fits snap dyn \<longleftrightarrow>
     fst ` set (commitment_entries snap) \<subseteq> dev_id ` set (snap_devices snap) \<and>
     fst ` set dyn \<subseteq> dev_id ` set (snap_devices snap) \<and>
     (\<forall>d \<in> set (snap_devices snap).
        unat (dev_reserved_bytes d) + bytes_on (dev_id d) (commitment_entries snap)
          + reserved_on dyn (dev_id d) \<le> unat (dev_total_bytes d))"

lemma bytes_on_Nil [simp]: "bytes_on d [] = 0"
  by (simp add: bytes_on_def)

lemma bytes_on_Cons [simp]:
  "bytes_on d (e # es) = (if fst e = d then unat (snd e) else 0) + bytes_on d es"
  by (simp add: bytes_on_def)

lemma reserved_on_Nil [simp]: "reserved_on [] d = 0"
  by (simp add: reserved_on_def)

lemma reserved_on_insert [simp]:
  "reserved_on (bt_insert k b m) d = (if d = k then unat b else reserved_on m d)"
  by (simp add: reserved_on_def)

lemma reserved_on_remove [simp]:
  "reserved_on (bt_remove k m) d = (if d = k then 0 else reserved_on m d)"
  by (simp add: reserved_on_def)

lemma reserved_on_bytes_on: "bt_wf m \<Longrightarrow> bytes_on d m = reserved_on m d"
proof (induction m)
  case Nil
  then show ?case by simp
next
  case (Cons e m)
  have "reserved_on m (fst e) = 0"
    using Cons.prems by (auto simp: bt_wf_Cons reserved_on_def dest!: bt_get_in split: option.split)
  with Cons show ?case
    by (auto simp: bt_wf_Cons reserved_on_def bt_get_Cons)
qed

subsection \<open>The index of devices\<close>

lemma device_indices_snoc:
  "device_indices (ds @ [d]) = bt_insert (dev_id d) (length ds) (device_indices ds)"
  by (simp add: device_indices_def enumerate_append_eq)

lemma device_indices_Nil [simp]: "device_indices [] = []"
  by (simp add: device_indices_def)

lemma device_indices_range:
  "bt_get (device_indices ds) k = Some i \<Longrightarrow> i < length ds \<and> dev_id (ds ! i) = k"
  by (induction ds rule: rev_induct)
    (auto simp: device_indices_snoc nth_append split: if_splits)

lemma device_indices_None_iff: "bt_get (device_indices ds) k = None \<longleftrightarrow> k \<notin> dev_id ` set ds"
  by (induction ds rule: rev_induct) (auto simp: device_indices_snoc)

lemma device_indices_Some_iff:
  assumes "distinct (map dev_id ds)"
  shows "bt_get (device_indices ds) k = Some i \<longleftrightarrow> i < length ds \<and> dev_id (ds ! i) = k"
proof
  assume "bt_get (device_indices ds) k = Some i"
  then show "i < length ds \<and> dev_id (ds ! i) = k" by (rule device_indices_range)
next
  assume i: "i < length ds \<and> dev_id (ds ! i) = k"
  then obtain j where j: "bt_get (device_indices ds) k = Some j"
    using device_indices_None_iff [of ds k] by (cases "bt_get (device_indices ds) k") auto
  with device_indices_range [OF j] i assms have "j = i"
    by (metis length_map nth_eq_iff_index_eq nth_map)
  with j show "bt_get (device_indices ds) k = Some i" by simp
qed

subsection \<open>The checked subtractions as one inequality\<close>

lemma initial_remaining_Ok_iff:
  "initial_remaining ds = Ok rs \<longleftrightarrow>
     list_all2 (\<lambda>d r. unat (dev_total_bytes d) = unat r + unat (dev_reserved_bytes d)) ds rs"
proof (induction ds arbitrary: rs)
  case Nil
  then show ?case by auto
next
  case (Cons d ds)
  show ?case
    by (cases rs)
      (auto simp: checked_sub_Some_iff Cons.IH checked_sub_None_iff word_unat_eq_iff
        split: option.splits)
qed

lemma initial_remaining_no_panic [simp]: "initial_remaining ds \<noteq> Panic"
  by (induction ds) (auto simp: and_then_Panic_iff split: option.splits)

lemma subtract_no_panic:
  "length remaining = length ds \<Longrightarrow>
     subtract_reservations (device_indices ds) es remaining \<noteq> Panic"
proof (induction es arbitrary: remaining)
  case Nil
  then show ?case by simp
next
  case (Cons e es)
  then show ?case
    by (cases e) (auto simp: and_then_Panic_iff split: option.splits dest!: device_indices_range)
qed

lemma subtract_Ok_iff:
  assumes "distinct (map dev_id ds)" and "length remaining = length ds"
  shows "subtract_reservations (device_indices ds) es remaining = Ok left \<longleftrightarrow>
    fst ` set es \<subseteq> dev_id ` set ds \<and> length left = length ds \<and>
    (\<forall>i < length ds. unat (remaining ! i) = unat (left ! i) + bytes_on (dev_id (ds ! i)) es)"
  using assms(2)
proof (induction es arbitrary: remaining)
  case Nil
  then show ?case by (auto simp: word_unat_eq_iff intro: nth_equalityI)
next
  case (Cons e es)
  obtain d b where e: "e = (d, b)" by (cases e)
  show ?case
  proof (cases "bt_get (device_indices ds) d")
    case None
    then have "d \<notin> dev_id ` set ds" by (simp add: device_indices_None_iff)
    with None show ?thesis by (simp add: e)
  next
    case (Some i)
    note lookup = this
    then have i: "i < length ds" "dev_id (ds ! i) = d"
      by (auto dest: device_indices_range)
    then have d: "d \<in> dev_id ` set ds" by auto
    have other: "j = i" if "j < length ds" "dev_id (ds ! j) = d" for j
      using that i assms(1) by (metis length_map nth_eq_iff_index_eq nth_map)
    show ?thesis
    proof (cases "checked_sub (remaining ! i) b")
      case None
      then have less: "unat (remaining ! i) < unat b" by (simp add: checked_sub_None_iff)
      have "\<not> (\<forall>j < length ds. unat (remaining ! j) =
          unat (left ! j) + bytes_on (dev_id (ds ! j)) (e # es))"
      proof
        assume "\<forall>j < length ds. unat (remaining ! j) =
          unat (left ! j) + bytes_on (dev_id (ds ! j)) (e # es)"
        with i have "unat (remaining ! i) = unat (left ! i) + (unat b + bytes_on d es)"
          by (simp add: e)
        with less show False by simp
      qed
      then show ?thesis
        using Some None Cons.prems i by (simp add: e)
    next
      case (Some r)
      then have r: "unat (remaining ! i) = unat r + unat b" by (simp add: checked_sub_Some_iff)
      have one: "unat (remaining[i := r] ! j) = unat (left ! j) + bytes_on (dev_id (ds ! j)) es \<longleftrightarrow>
          unat (remaining ! j) = unat (left ! j) + bytes_on (dev_id (ds ! j)) (e # es)"
        if "j < length ds" for j
      proof (cases "j = i")
        case True
        then show ?thesis using r i Cons.prems by (simp add: e)
      next
        case False
        then have "dev_id (ds ! j) \<noteq> d" using other that by blast
        then show ?thesis using False by (simp add: e)
      qed
      have pointwise: "(\<forall>j < length ds. unat (remaining[i := r] ! j) =
            unat (left ! j) + bytes_on (dev_id (ds ! j)) es) \<longleftrightarrow>
          (\<forall>j < length ds. unat (remaining ! j) =
            unat (left ! j) + bytes_on (dev_id (ds ! j)) (e # es))"
        by (intro all_cong) (rule one)
      have "subtract_reservations (device_indices ds) (e # es) remaining = Ok left \<longleftrightarrow>
          subtract_reservations (device_indices ds) es (remaining[i := r]) = Ok left"
        using Some lookup i Cons.prems by (simp add: e)
      also have "\<dots> \<longleftrightarrow> fst ` set es \<subseteq> dev_id ` set ds \<and> length left = length ds \<and>
          (\<forall>j < length ds. unat (remaining[i := r] ! j) =
            unat (left ! j) + bytes_on (dev_id (ds ! j)) es)"
        by (rule Cons.IH) (simp add: Cons.prems)
      finally show ?thesis
        unfolding pointwise using d by (simp add: e)
    qed
  qed
qed

lemma remaining_no_panic [simp]: "remaining_after_reservations snap dyn \<noteq> Panic"
proof -
  have "length r = length ds" if "initial_remaining ds = Ok r" for ds r
    using that by (simp add: initial_remaining_Ok_iff list_all2_lengthD)
  moreover have "length r' = length r"
    if "subtract_reservations ix es r = Ok r'" for ix es and r r' :: "u64 list"
    using that
    by (induction ix es r rule: subtract_reservations.induct) (auto split: option.splits)
  ultimately show ?thesis
    by (auto simp: remaining_after_reservations_def Let_def and_then_Panic_iff subtract_no_panic
        dest!: subtract_no_panic)
qed

lemma remaining_Ok_iff:
  assumes "distinct (map dev_id (snap_devices snap))" and "bt_wf dyn"
  shows "remaining_after_reservations snap dyn = Ok left \<longleftrightarrow>
    fits snap dyn \<and>
    list_all2 (\<lambda>d r. unat (dev_total_bytes d) =
        unat r + (unat (dev_reserved_bytes d) + bytes_on (dev_id d) (commitment_entries snap)
          + reserved_on dyn (dev_id d))) (snap_devices snap) left"
proof -
  let ?ds = "snap_devices snap" and ?cs = "commitment_entries snap"
  have all2: "list_all2 P ?ds r \<longleftrightarrow> length r = length ?ds \<and> (\<forall>i < length ?ds. P (?ds ! i) (r ! i))"
    for P :: "device \<Rightarrow> u64 \<Rightarrow> bool" and r
    by (auto simp: list_all2_conv_all_nth)
  have each: "(\<forall>d \<in> set ?ds. Q d) \<longleftrightarrow> (\<forall>i < length ?ds. Q (?ds ! i))" for Q
    by (metis in_set_conv_nth)
  show ?thesis
  proof
    assume "remaining_after_reservations snap dyn = Ok left"
    then obtain r0 r1 where r0: "initial_remaining ?ds = Ok r0"
      and r1: "subtract_reservations (device_indices ?ds) ?cs r0 = Ok r1"
      and r2: "subtract_reservations (device_indices ?ds) dyn r1 = Ok left"
      by (auto simp: remaining_after_reservations_def Let_def simp flip: commitment_entries_def)
    have len0: "length r0 = length ?ds"
      using r0 by (simp add: initial_remaining_Ok_iff all2)
    note r1' = r1 [unfolded subtract_Ok_iff [OF assms(1) len0]]
    then have len1: "length r1 = length ?ds" by simp
    note r2' = r2 [unfolded subtract_Ok_iff [OF assms(1) len1]]
    show "fits snap dyn \<and>
      list_all2 (\<lambda>d r. unat (dev_total_bytes d) =
        unat r + (unat (dev_reserved_bytes d) + bytes_on (dev_id d) ?cs
          + reserved_on dyn (dev_id d))) ?ds left"
      using r0 r1' r2'
      by (simp add: initial_remaining_Ok_iff fits_def all2 each reserved_on_bytes_on [OF assms(2)])
  next
    assume left: "fits snap dyn \<and>
      list_all2 (\<lambda>d r. unat (dev_total_bytes d) =
        unat r + (unat (dev_reserved_bytes d) + bytes_on (dev_id d) ?cs
          + reserved_on dyn (dev_id d))) ?ds left"
    then have len: "length left = length ?ds"
      and tot: "\<And>i. i < length ?ds \<Longrightarrow> unat (dev_total_bytes (?ds ! i)) =
        unat (left ! i) + (unat (dev_reserved_bytes (?ds ! i)) + bytes_on (dev_id (?ds ! i)) ?cs
          + reserved_on dyn (dev_id (?ds ! i)))"
      by (auto simp: all2)
    have bound: "unat (left ! i) + reserved_on dyn (dev_id (?ds ! i)) + bytes_on (dev_id (?ds ! i)) ?cs
        < 2 ^ 64" if "i < length ?ds" for i
      using tot [OF that] unat_u64_bound [of "dev_total_bytes (?ds ! i)"] by simp
    then have bound': "unat (left ! i) + reserved_on dyn (dev_id (?ds ! i)) < 2 ^ 64"
      if "i < length ?ds" for i
      using that by fastforce
    obtain r0 :: "u64 list" where r0: "length r0 = length ?ds"
      "\<And>i. i < length ?ds \<Longrightarrow> unat (r0 ! i) =
        unat (left ! i) + reserved_on dyn (dev_id (?ds ! i)) + bytes_on (dev_id (?ds ! i)) ?cs"
      using unat_list_represents [of "length ?ds" "\<lambda>i. unat (left ! i) +
          reserved_on dyn (dev_id (?ds ! i)) + bytes_on (dev_id (?ds ! i)) ?cs"] bound by blast
    obtain r1 :: "u64 list" where r1: "length r1 = length ?ds"
      "\<And>i. i < length ?ds \<Longrightarrow> unat (r1 ! i) = unat (left ! i) + reserved_on dyn (dev_id (?ds ! i))"
      using unat_list_represents [of "length ?ds" "\<lambda>i. unat (left ! i) +
          reserved_on dyn (dev_id (?ds ! i))"] bound' by blast
    have "initial_remaining ?ds = Ok r0"
      using r0 tot by (simp add: initial_remaining_Ok_iff all2)
    moreover have "subtract_reservations (device_indices ?ds) ?cs r0 = Ok r1"
      using r0 r1 left assms(1) by (simp add: subtract_Ok_iff fits_def)
    moreover have "subtract_reservations (device_indices ?ds) dyn r1 = Ok left"
      using r1 len left assms by (simp add: subtract_Ok_iff fits_def reserved_on_bytes_on)
    ultimately show "remaining_after_reservations snap dyn = Ok left"
      by (simp add: remaining_after_reservations_def Let_def flip: commitment_entries_def)
  qed
qed

subsection \<open>Selecting a device\<close>

text \<open>A device that is declared, supported, online and large enough.\<close>

definition can_host :: "device list \<Rightarrow> u64 list \<Rightarrow> u64 \<Rightarrow> usize \<Rightarrow> bool" where
  "can_host ds remaining required i \<longleftrightarrow>
     matches_configured_architecture (dev_gfx_isa (ds ! i)) \<and>
     dev_availability (ds ! i) = Available \<and> required \<le> remaining ! i"

definition hosts_named :: "device list \<Rightarrow> u64 list \<Rightarrow> u64 \<Rightarrow> string \<Rightarrow> bool" where
  "hosts_named ds remaining required d \<longleftrightarrow>
     (case bt_get (device_indices ds) d of None \<Rightarrow> False | Some i \<Rightarrow> can_host ds remaining required i)"

fun names_device :: "placement_request \<Rightarrow> string \<Rightarrow> bool" where
  "names_device (RequestedDevice e) d = (e = d)"
| "names_device (EligibleDevices es) d = (d \<in> set es)"

lemma first_eligible_find:
  "length remaining = length ds \<Longrightarrow>
     first_eligible ds (device_indices ds) remaining required names =
       Ok (Option.bind (List.find (hosts_named ds remaining required) names)
            (bt_get (device_indices ds)))"
  by (induction names)
    (auto simp: hosts_named_def can_host_def index_in_range split: option.splits
      dest!: device_indices_range)

lemma select_device_sound:
  assumes "select_device w ds (device_indices ds) remaining required = Ok i"
    and "length remaining = length ds"
  shows "i < length ds \<and> can_host ds remaining required i \<and>
    names_device (wl_placement w) (dev_id (ds ! i))"
proof (cases "wl_placement w")
  case (RequestedDevice d)
  then have "bt_get (device_indices ds) d = Some i" "can_host ds remaining required i"
    using assms
    by (auto simp: select_device_def can_host_def not_less split: if_splits)
      (metis availability.exhaust)
  then show ?thesis using RequestedDevice by (auto dest: device_indices_range)
next
  case (EligibleDevices names)
  then obtain d where d: "List.find (hosts_named ds remaining required) names = Some d"
      "bt_get (device_indices ds) d = Some i"
    using assms by (auto simp: select_device_def first_eligible_find bind_eq_Some_conv)
  then have "d \<in> set names" "hosts_named ds remaining required d"
    by (auto simp: find_Some_iff)
  with d EligibleDevices show ?thesis
    by (auto simp: hosts_named_def dest: device_indices_range)
qed

lemma select_device_no_panic:
  assumes "length remaining = length ds"
  shows "select_device w ds (device_indices ds) remaining required \<noteq> Panic"
  using assms
  by (auto simp: select_device_def first_eligible_find and_then_Panic_iff
      split: placement_request.splits dest!: device_indices_range)

subsection \<open>Placing a batch\<close>

definition placement_entries :: "admitted_placement list \<Rightarrow> (string \<times> u64) list" where
  "placement_entries ps = map (\<lambda>p. (adm_device_id p, adm_total_estimated_bytes p)) ps"

text \<open>What an admitted placement says about the workload it admits.\<close>

definition admits :: "device list \<Rightarrow> artifact list \<Rightarrow> workload \<Rightarrow> admitted_placement \<Rightarrow> bool" where
  "admits ds arts w p \<longleftrightarrow>
     adm_profile_id p = wl_profile_id w \<and> adm_memory_estimate p = wl_memory_estimate w \<and>
     unat (adm_total_estimated_bytes p) = estimate_bytes (wl_memory_estimate w) \<and>
     (\<exists>a \<in> set arts. art_id a = wl_artifact_id w \<and>
        adm_artifact_id p = art_id a \<and> adm_digest p = art_digest a) \<and>
     (\<exists>d \<in> set ds. dev_id d = adm_device_id p \<and>
        matches_configured_architecture (dev_gfx_isa d) \<and> dev_availability d = Available \<and>
        names_device (wl_placement w) (dev_id d))"

lemma placement_entries_simps [simp]:
  "placement_entries [] = []"
  "placement_entries (p # ps) = (adm_device_id p, adm_total_estimated_bytes p) # placement_entries ps"
  by (simp_all add: placement_entries_def)

lemma artifacts_by_id_sound:
  "bt_get (artifacts_by_id arts) k = Some a \<Longrightarrow> a \<in> set arts \<and> art_id a = k"
  by (induction arts rule: rev_induct) (auto simp: artifacts_by_id_def split: if_splits)

lemma place_workloads_no_panic:
  "length remaining = length ds \<Longrightarrow>
     place_workloads ds (device_indices ds) arts remaining ws \<noteq> Panic"
proof (induction ws arbitrary: remaining)
  case Nil
  then show ?case by simp
next
  case (Cons w ws)
  show ?case
  proof
    assume "place_workloads ds (device_indices ds) arts remaining (w # ws) = Panic"
    then obtain required i where
        "select_device w ds (device_indices ds) remaining required = Panic \<or>
         select_device w ds (device_indices ds) remaining required = Ok i \<and>
           (length remaining \<le> i \<or> remaining ! i < required \<or> length ds \<le> i \<or>
            place_workloads ds (device_indices ds) arts
              (remaining[i := remaining ! i - required]) ws = Panic)"
      by (auto simp: and_then_Panic_iff split: if_splits)
    then show False
      using Cons select_device_no_panic [of remaining ds w required]
        select_device_sound [of w ds remaining required i]
      by (auto simp: can_host_def not_less)
  qed
qed

lemma place_workloads_sound:
  assumes "distinct (map dev_id ds)"
  shows "place_workloads ds (device_indices ds) (artifacts_by_id arts) remaining ws = Ok ps \<Longrightarrow>
    length remaining = length ds \<Longrightarrow>
    list_all2 (admits ds arts) ws ps \<and>
    (\<forall>i < length ds. bytes_on (dev_id (ds ! i)) (placement_entries ps) \<le> unat (remaining ! i))"
proof (induction ws arbitrary: remaining ps)
  case Nil
  then show ?case by auto
next
  case (Cons w ws)
  then obtain a required i ps' where
      a: "bt_get (artifacts_by_id arts) (wl_artifact_id w) = Some a"
    and required: "total_estimate (wl_memory_estimate w) = Ok required"
    and i: "select_device w ds (device_indices ds) remaining required = Ok i"
    and fit: "required \<le> remaining ! i"
    and rest: "place_workloads ds (device_indices ds) (artifacts_by_id arts)
        (remaining[i := remaining ! i - required]) ws = Ok ps'"
    and ps: "ps = \<lparr>adm_profile_id = wl_profile_id w, adm_artifact_id = art_id a,
        adm_digest = art_digest a, adm_device_id = dev_id (ds ! i),
        adm_memory_estimate = wl_memory_estimate w, adm_total_estimated_bytes = required\<rparr> # ps'"
    by (auto simp del: total_estimate_Ok_iff split: if_splits)
  note sel = select_device_sound [OF i Cons.prems(2)]
  from Cons.IH [OF rest] Cons.prems(2)
  have IH: "list_all2 (admits ds arts) ws ps'"
    "\<forall>j < length ds. bytes_on (dev_id (ds ! j)) (placement_entries ps')
        \<le> unat (remaining[i := remaining ! i - required] ! j)"
    by simp_all
  have "admits ds arts w (hd ps)"
    using sel required artifacts_by_id_sound [OF a] by (auto simp: admits_def ps can_host_def)
  moreover have "bytes_on (dev_id (ds ! j)) (placement_entries ps) \<le> unat (remaining ! j)"
    if j: "j < length ds" for j
  proof (cases "j = i")
    case True
    then show ?thesis
      using IH(2) j sel fit Cons.prems(2) by (auto simp: ps unat_sub word_le_nat_alt)
  next
    case False
    then have "dev_id (ds ! i) \<noteq> dev_id (ds ! j)"
      using assms j sel by (metis length_map nth_eq_iff_index_eq nth_map)
    then show ?thesis using IH(2) j False by (auto simp: ps)
  qed
  ultimately show ?case using IH(1) by (simp add: ps)
qed

end
