(* ===== verification/Placement_Leases.thy ===== *)
theory Placement_Leases
  imports Placement_Accounting "HOL-Library.Multiset"
begin

text \<open>
  The ledger as an authority over leases: which capabilities are live, what issuing and revoking
  them does, and the interface (\<open>lease_authority\<close>) that the scheduler relies on when it holds the
  leases of its admissions and uses.
\<close>

subsection \<open>The interface\<close>

locale lease_authority =
  fixes inv :: "'l \<Rightarrow> bool"
    and live :: "'l \<Rightarrow> 'c set"
    and issues :: "'l \<Rightarrow> 'c list \<Rightarrow> 'l \<Rightarrow> bool"
    and revokes :: "'l \<Rightarrow> 'c \<Rightarrow> 'l \<Rightarrow> bool"
  assumes finite_live: "inv l \<Longrightarrow> finite (live l)"
    and issue_inv: "inv l \<Longrightarrow> issues l cs l' \<Longrightarrow> inv l'"
    and issue_live: "inv l \<Longrightarrow> issues l cs l' \<Longrightarrow> live l' = live l \<union> set cs"
    and issue_fresh: "inv l \<Longrightarrow> issues l cs l' \<Longrightarrow> distinct cs \<and> set cs \<inter> live l = {}"
    and revoke_inv: "inv l \<Longrightarrow> revokes l c l' \<Longrightarrow> inv l'"
    and revoke_live: "inv l \<Longrightarrow> revokes l c l' \<Longrightarrow> c \<in> live l \<and> live l' = live l - {c}"
begin

text \<open>A holder has custody when it holds every live capability exactly once and nothing else.\<close>

definition custody :: "'l \<Rightarrow> 'c multiset \<Rightarrow> bool" where
  "custody l held \<longleftrightarrow> inv l \<and> held = mset_set (live l)"

lemma custody_inv: "custody l held \<Longrightarrow> inv l"
  by (simp add: custody_def)

lemma custody_live: "custody l held \<Longrightarrow> c \<in># held \<Longrightarrow> c \<in> live l"
  by (auto simp: custody_def finite_live)

lemma custody_held_once: "custody l held \<Longrightarrow> count held c \<le> 1"
  by (simp add: custody_def count_mset_set')

lemma custody_issue:
  "custody l held \<Longrightarrow> issues l cs l' \<Longrightarrow> custody l' (mset cs + held)"
  using issue_fresh [of l cs l'] issue_live [of l cs l'] issue_inv [of l cs l'] finite_live [of l]
  by (simp add: custody_def mset_set_Union Int_commute mset_set_set union_commute)

lemma custody_revoke:
  assumes "custody l (add_mset c held)" and "revokes l c l'"
  shows "custody l' held"
proof -
  have inv: "inv l" and held: "add_mset c held = mset_set (live l)"
    using assms(1) by (simp_all add: custody_def)
  have "mset_set (live l - {c}) = mset_set (live l) - mset_set {c}"
    using revoke_live [OF inv assms(2)] finite_live [OF inv] by (intro mset_set_Diff) auto
  also have "\<dots> = held" by (simp flip: held)
  finally show ?thesis
    using revoke_live [OF inv assms(2)] revoke_inv [OF inv assms(2)] by (simp add: custody_def)
qed

lemma custody_empty: "custody l {#} \<Longrightarrow> live l = {}"
  using finite_live [of l] mset_set_empty_iff [of "live l"] by (auto simp: custody_def)

lemma custody_start: "inv l \<Longrightarrow> live l = {} \<Longrightarrow> custody l {#}"
  by (simp add: custody_def)

end

subsection \<open>Live capabilities of the ledger\<close>

definition live_leases :: "reservation_ledger \<Rightarrow> lease_capability set" where
  "live_leases l =
     {c. cap_brand c = led_brand l \<and>
         bt_get (led_active_leases l) (cap_lease_id c) =
           Some \<lparr>rec_device_id = cap_device_id c, rec_reserved_bytes = cap_reserved_bytes c\<rparr>}"

lemma live_leases_finite: "finite (live_leases l)"
proof -
  have "live_leases l \<subseteq> (\<lambda>(i, r). \<lparr>cap_brand = led_brand l, cap_lease_id = i,
      cap_device_id = rec_device_id r, cap_reserved_bytes = rec_reserved_bytes r\<rparr>) `
      set (led_active_leases l)"
    by (force simp: live_leases_def image_iff dest: bt_get_in)
  then show ?thesis by (rule finite_subset) simp
qed

lemma live_lease_reserved:
  assumes "ledger_inv l" and "c \<in> live_leases l"
  shows "unat (cap_reserved_bytes c) \<le> reserved_on (led_dynamic_reserved l) (cap_device_id c)"
proof -
  have "bt_wf (led_active_leases l)"
    and "bt_get (led_active_leases l) (cap_lease_id c) =
      Some \<lparr>rec_device_id = cap_device_id c, rec_reserved_bytes = cap_reserved_bytes c\<rparr>"
    using assms by (auto simp: ledger_inv_def live_leases_def)
  from leased_on_remove [OF this, of "cap_device_id c"] ledger_invD(5) [OF assms(1)]
  show ?thesis by simp
qed

lemma lease_capabilities_simps:
  assumes "prepare_reservation l es = Ok c"
  shows "map cap_lease_id (lease_capabilities l es c) = id_range (rc_first_lease_id c) (rc_next_lease_id c)"
    and "map (\<lambda>k. (cap_device_id k, cap_reserved_bytes k)) (lease_capabilities l es c) = es"
    and "length (lease_capabilities l es c) = length es"
    and "k \<in> set (lease_capabilities l es c) \<Longrightarrow> cap_brand k = led_brand l"
proof -
  have "unat (rc_next_lease_id c) = unat (rc_first_lease_id c) + length es"
    using assms by (auto simp: prepare_reservation_Ok_iff)
  then have len: "length (id_range (rc_first_lease_id c) (rc_next_lease_id c)) = length es"
    by (rule id_range_length)
  then show "map cap_lease_id (lease_capabilities l es c) = id_range (rc_first_lease_id c) (rc_next_lease_id c)"
    by (intro nth_equalityI) (simp_all add: lease_capabilities_def case_prod_unfold)
  show "map (\<lambda>k. (cap_device_id k, cap_reserved_bytes k)) (lease_capabilities l es c) = es"
    using len by (intro nth_equalityI) (simp_all add: lease_capabilities_def case_prod_unfold)
  show "length (lease_capabilities l es c) = length es"
    using len by (simp add: lease_capabilities_def)
  show "cap_brand k = led_brand l" if "k \<in> set (lease_capabilities l es c)"
    using that by (auto simp: lease_capabilities_def)
qed

lemma reservation_live:
  assumes inv: "ledger_inv l" and c: "prepare_reservation l es = Ok c"
  defines "caps \<equiv> lease_capabilities l es c"
  shows "live_leases (apply_reservation l c es) = live_leases l \<union> set caps"
    and "distinct caps" and "set caps \<inter> live_leases l = {}"
proof -
  note A = apply_reservation_inv [OF inv c]
  note C = lease_capabilities_simps [OF c, folded caps_def]
  let ?ids = "id_range (rc_first_lease_id c) (rc_next_lease_id c)"
  have ids: "unat (rc_next_lease_id c) = unat (rc_first_lease_id c) + length es"
    "rc_first_lease_id c = led_next_lease_id l"
    using c by (auto simp: prepare_reservation_Ok_iff)
  show "distinct caps"
    using C(1) id_range_distinct [OF ids(1)] by (metis distinct_map)
  have caps: "caps = map (\<lambda>((d, b), i). \<lparr>cap_brand = led_brand l, cap_lease_id = i,
      cap_device_id = d, cap_reserved_bytes = b\<rparr>) (zip es ?ids)"
    by (simp add: caps_def lease_capabilities_def)
  have fresh: "bt_get (led_active_leases l) i = None" if "i \<in> set ?ids" for i
    using id_range_bounds [OF ids(1) that] ledger_invD(6) [OF inv, of i] ids(2)
    by (cases "bt_get (led_active_leases l) i") auto
  show "set caps \<inter> live_leases l = {}"
    using fresh by (auto simp: caps live_leases_def dest: set_zip_rightD)
  have next_id: "led_next_lease_id (apply_reservation l c es) = rc_next_lease_id c"
    by (simp add: apply_reservation_def)
  have look: "bt_get (led_active_leases (apply_reservation l c es)) i = Some r \<longleftrightarrow>
      bt_get (led_active_leases l) i = Some r \<or> ((rec_device_id r, rec_reserved_bytes r), i) \<in> set (zip es ?ids)"
    for i r
  proof (cases "map_of (zip ?ids es) i")
    case None
    then have "i \<notin> set ?ids"
      using id_range_length [OF ids(1)] by (simp add: map_of_zip_is_None)
    then show ?thesis
      using A(7) [of i] None by (auto simp: next_id ids(2) dest: set_zip_rightD)
  next
    case (Some e)
    have "((d, b), i) \<in> set (zip es ?ids) \<longleftrightarrow> map_of (zip ?ids es) i = Some (d, b)" for d b
      using id_range_length [OF ids(1)] id_range_distinct [OF ids(1)]
      by (auto simp: map_of_zip_is_Some in_set_zip map_of_eq_Some_iff)
    moreover have "bt_get (led_active_leases l) i = None"
      using Some by (intro fresh) (auto dest!: map_of_SomeD set_zip_leftD)
    ultimately show ?thesis
      using A(7) [of i] Some by (cases e; cases r) (auto simp: next_id ids(2))
  qed
  have in_caps: "x \<in> set caps \<longleftrightarrow> cap_brand x = led_brand l \<and>
      ((cap_device_id x, cap_reserved_bytes x), cap_lease_id x) \<in> set (zip es ?ids)" for x
    by (cases x) (auto simp: caps image_iff split_beta intro!: bexI [rotated])
  show "live_leases (apply_reservation l c es) = live_leases l \<union> set caps"
    by (auto simp: live_leases_def look A(3) in_caps)
qed

subsection \<open>The operations, branch by branch\<close>

lemma ledger_commit_refused: "ledger_commit l p = (Err e, l') \<Longrightarrow> l' = l"
  by (auto simp: ledger_commit_def Let_def split: if_splits result.splits)

lemma ledger_commit_no_panic [simp]: "fst (ledger_commit l p) \<noteq> Panic"
  by (auto simp: ledger_commit_def Let_def split: result.splits)

lemma ledger_commit_Ok_iff:
  "ledger_commit l p = (Ok leases, l') \<longleftrightarrow>
     led_brand l = pp_brand p \<and> led_revision l = pp_revision p \<and>
     (\<exists>c. prepare_reservation l (placement_entries (pp_placements p)) = Ok c \<and>
          leases = map (\<lambda>(q, k). \<lparr>rl_lease = k, rl_placement = q\<rparr>)
            (zip (pp_placements p) (lease_capabilities l (placement_entries (pp_placements p)) c)) \<and>
          l' = apply_reservation l c (placement_entries (pp_placements p)))"
  by (auto simp: ledger_commit_def Let_def placement_entries_def split: result.splits)

lemma committed_leases:
  assumes "prepare_reservation l (placement_entries ps) = Ok c"
  defines "leases \<equiv> map (\<lambda>(q, k). \<lparr>rl_lease = k, rl_placement = q\<rparr>)
      (zip ps (lease_capabilities l (placement_entries ps) c))"
  shows "map rl_placement leases = ps"
    and "map rl_lease leases = lease_capabilities l (placement_entries ps) c"
    and "x \<in> set leases \<Longrightarrow> cap_device_id (rl_lease x) = adm_device_id (rl_placement x) \<and>
      cap_reserved_bytes (rl_lease x) = adm_total_estimated_bytes (rl_placement x)"
proof -
  let ?caps = "lease_capabilities l (placement_entries ps) c"
  note C = lease_capabilities_simps [OF assms(1)]
  have len: "length ?caps = length ps"
    using C(3) by (simp add: placement_entries_def)
  then show "map rl_placement leases = ps" and "map rl_lease leases = ?caps"
    by (auto simp: leases_def case_prod_unfold intro!: nth_equalityI)
  assume "x \<in> set leases"
  then obtain i where i: "i < length ps" "x = \<lparr>rl_lease = ?caps ! i, rl_placement = ps ! i\<rparr>"
    using len by (auto simp: leases_def set_zip)
  have "map (\<lambda>k. (cap_device_id k, cap_reserved_bytes k)) ?caps ! i = placement_entries ps ! i"
    by (simp only: C(2))
  then have "(cap_device_id (?caps ! i), cap_reserved_bytes (?caps ! i)) = placement_entries ps ! i"
    using i(1) len by simp
  then show "cap_device_id (rl_lease x) = adm_device_id (rl_placement x) \<and>
      cap_reserved_bytes (rl_lease x) = adm_total_estimated_bytes (rl_placement x)"
    using i by (simp add: placement_entries_def)
qed

lemma require_reservable_no_panic [simp]: "require_reservable_device l d \<noteq> Panic"
  by (auto simp: require_reservable_device_def split: option.splits)

lemma require_reservable_Ok_iff:
  assumes "distinct (map dev_id (snap_devices (led_snapshot l)))"
  shows "require_reservable_device l d = Ok u \<longleftrightarrow>
    (\<exists>x \<in> set (snap_devices (led_snapshot l)). dev_id x = d \<and>
       matches_configured_architecture (dev_gfx_isa x) \<and> dev_availability x = Available)"
proof (cases "List.find (\<lambda>x. dev_id x = d) (snap_devices (led_snapshot l))")
  case None
  then have "\<forall>x \<in> set (snap_devices (led_snapshot l)). dev_id x \<noteq> d"
    by (auto simp: find_None_iff)
  with None show ?thesis by (auto simp: require_reservable_device_def)
next
  case (Some x)
  then have x: "x \<in> set (snap_devices (led_snapshot l))" "dev_id x = d"
    by (auto simp: find_Some_iff)
  then have uniq: "y = x" if "y \<in> set (snap_devices (led_snapshot l))" "dev_id y = d" for y
    using that assms by (auto simp: distinct_map inj_on_def)
  have online: "dev_availability x \<noteq> Offline \<longleftrightarrow> dev_availability x = Available"
    by (cases "dev_availability x") simp_all
  have "(\<exists>y \<in> set (snap_devices (led_snapshot l)). dev_id y = d \<and>
       matches_configured_architecture (dev_gfx_isa y) \<and> dev_availability y = Available) \<longleftrightarrow>
     matches_configured_architecture (dev_gfx_isa x) \<and> dev_availability x = Available"
    using x uniq by blast
  then show ?thesis using Some online
    by (simp add: require_reservable_device_def)
qed

definition batch_entries :: "string \<Rightarrow> nonzero \<Rightarrow> (string \<times> nonzero) option \<Rightarrow> (string \<times> u64) list"
where
  "batch_entries d b second =
     (d, bytes_of b) # (case second of None \<Rightarrow> [] | Some (e, c) \<Rightarrow> [(e, bytes_of c)])"

definition batch_leases :: "device_byte_lease \<times> device_byte_lease option \<Rightarrow> device_byte_lease list"
where
  "batch_leases r = fst r # (case snd r of None \<Rightarrow> [] | Some x \<Rightarrow> [x])"

lemma reserve_bytes_batch_refused: "reserve_bytes_batch l d b second = (Err e, l') \<Longrightarrow> l' = l"
  by (auto simp: reserve_bytes_batch_def Let_def split: result.splits prod.splits)

lemma reserve_bytes_batch_no_panic [simp]: "fst (reserve_bytes_batch l d b second) \<noteq> Panic"
  by (auto simp: reserve_bytes_batch_def Let_def and_then_Panic_iff
      split: result.splits prod.splits option.splits)

lemma reserve_bytes_batch_Ok:
  assumes "reserve_bytes_batch l d b second = (Ok r, l')"
  shows "\<exists>c. prepare_reservation l (batch_entries d b second) = Ok c \<and>
    l' = apply_reservation l c (batch_entries d b second) \<and>
    map dbl_lease (batch_leases r) = lease_capabilities l (batch_entries d b second) c"
    (is "\<exists>c. ?P c")
    and "require_reservable_device l d = Ok ()"
    and "second = Some (e, f) \<Longrightarrow> require_reservable_device l e = Ok ()"
    and "map (\<lambda>x. (cap_device_id (dbl_lease x), bytes_of (dbl_requested_bytes x))) (batch_leases r) =
      batch_entries d b second"
proof -
  have one: "id_range first next = [first]" if "unat next = unat first + 1" for first "next" :: u64
    using that by (simp add: id_range_def)
  have two: "id_range first next = [first, first + 1]" if "unat next = unat first + 2"
    for first "next" :: u64
    using that by (simp add: id_range_def numeral_2_eq_2)
  have succ: "x = i + 1" if "checked_add i 1 = Some x" for i x :: u64
    using that by (simp add: checked_add_def split: if_splits)
  show "\<exists>c. ?P c"
  proof (cases second)
    case None
    then obtain c where c: "prepare_reservation l (batch_entries d b second) = Ok c"
      and r: "r = (\<lparr>dbl_lease = \<lparr>cap_brand = led_brand l, cap_lease_id = rc_first_lease_id c,
          cap_device_id = d, cap_reserved_bytes = bytes_of b\<rparr>, dbl_requested_bytes = b\<rparr>, None)"
      and l': "l' = apply_reservation l c (batch_entries d b second)"
      using assms
      by (auto simp: reserve_bytes_batch_def batch_entries_def Let_def split: result.splits prod.splits)
    have "unat (rc_next_lease_id c) = unat (rc_first_lease_id c) + 1"
      using c None by (simp add: prepare_reservation_Ok_iff batch_entries_def)
    from one [OF this] c l' None show ?thesis
      by (auto simp: r batch_leases_def lease_capabilities_def batch_entries_def)
  next
    case (Some x)
    obtain e f where x: "x = (e, f)" by (cases x)
    with Some obtain c i where c: "prepare_reservation l (batch_entries d b second) = Ok c"
      and i: "checked_add (rc_first_lease_id c) 1 = Some i"
      and r: "r = (\<lparr>dbl_lease = \<lparr>cap_brand = led_brand l, cap_lease_id = rc_first_lease_id c,
          cap_device_id = d, cap_reserved_bytes = bytes_of b\<rparr>, dbl_requested_bytes = b\<rparr>,
          Some \<lparr>dbl_lease = \<lparr>cap_brand = led_brand l, cap_lease_id = i,
          cap_device_id = e, cap_reserved_bytes = bytes_of f\<rparr>, dbl_requested_bytes = f\<rparr>)"
      and l': "l' = apply_reservation l c (batch_entries d b second)"
      using assms
      by (auto simp: reserve_bytes_batch_def batch_entries_def Let_def split: result.splits prod.splits)
    have "unat (rc_next_lease_id c) = unat (rc_first_lease_id c) + 2"
      using c Some x by (simp add: prepare_reservation_Ok_iff batch_entries_def)
    from two [OF this] succ [OF i] c l' Some x show ?thesis
      by (auto simp: r batch_leases_def lease_capabilities_def batch_entries_def)
  qed
  show "require_reservable_device l d = Ok ()"
    and "second = Some (e, f) \<Longrightarrow> require_reservable_device l e = Ok ()"
    and "map (\<lambda>x. (cap_device_id (dbl_lease x), bytes_of (dbl_requested_bytes x))) (batch_leases r) =
      batch_entries d b second"
    using assms
    by (auto simp: reserve_bytes_batch_def batch_leases_def batch_entries_def Let_def
        split: result.splits prod.splits option.splits)
qed

lemma reserve_bytes_eq:
  "reserve_bytes l d b = (r, l') \<longleftrightarrow>
     (\<exists>q. reserve_bytes_batch l d b None = (q, l') \<and> r = and_then q (\<lambda>(lease, _). Ok lease))"
  by (auto simp: reserve_bytes_def split: prod.splits)

subsection \<open>Release\<close>

lemma release_lease_refused: "release_lease l c = (Err e, l') \<Longrightarrow> l' = l \<and> snd e = c"
  by (auto simp: release_lease_def split: if_splits option.splits)

lemma release_lease_no_panic [simp]: "fst (release_lease l c) \<noteq> Panic"
  by (auto simp: release_lease_def split: option.splits)

lemma release_lease_Ok:
  assumes inv: "ledger_inv l" and ok: "release_lease l c = (Ok u, l')"
  shows "c \<in> live_leases l" and "ledger_inv l'" and "live_leases l' = live_leases l - {c}"
    and "reserved_on (led_dynamic_reserved l') d =
      reserved_on (led_dynamic_reserved l) d -
        (if d = cap_device_id c then unat (cap_reserved_bytes c) else 0)"
    and "led_snapshot l' = led_snapshot l" and "led_brand l' = led_brand l"
    and "unat (led_revision l') = unat (led_revision l) + 1"
    and "led_next_lease_id l' = led_next_lease_id l"
    and "led_active_leases l' = bt_remove (cap_lease_id c) (led_active_leases l)"
proof -
  note I = ledger_invD [OF inv]
  let ?r = "\<lparr>rec_device_id = cap_device_id c, rec_reserved_bytes = cap_reserved_bytes c\<rparr>"
  from ok have brand: "led_brand l = cap_brand c"
    by (simp add: release_lease_def split: if_splits)
  with ok obtain x where x: "bt_get (led_active_leases l) (cap_lease_id c) = Some x"
    by (cases "bt_get (led_active_leases l) (cap_lease_id c)") (auto simp: release_lease_def)
  have "x = ?r"
    using ok brand x by (cases x) (auto simp: release_lease_def split: if_splits)
  with x have rec: "bt_get (led_active_leases l) (cap_lease_id c) = Some ?r" by simp
  with ok brand obtain cur where cur: "bt_get (led_dynamic_reserved l) (cap_device_id c) = Some cur"
    by (cases "bt_get (led_dynamic_reserved l) (cap_device_id c)") (auto simp: release_lease_def)
  with ok brand rec obtain left where l1: "checked_sub cur (cap_reserved_bytes c) = Some left"
    by (cases "checked_sub cur (cap_reserved_bytes c)") (auto simp: release_lease_def)
  with ok brand rec cur obtain rev where l2: "checked_add (led_revision l) 1 = Some rev"
    by (cases "checked_add (led_revision l) 1") (auto simp: release_lease_def)
  have left: "unat cur = unat left + unat (cap_reserved_bytes c)"
    and rev: "unat rev = unat (led_revision l) + 1"
    using l1 l2 by (simp_all add: checked_add_Some_iff checked_sub_Some_iff)
  have l': "l' = l\<lparr>led_active_leases := bt_remove (cap_lease_id c) (led_active_leases l),
        led_dynamic_reserved := (if left = 0 then bt_remove (cap_device_id c) (led_dynamic_reserved l)
          else bt_insert (cap_device_id c) left (led_dynamic_reserved l)),
        led_revision := rev\<rparr>"
    using ok brand rec cur l1 l2 by (cases "left = 0") (simp_all add: release_lease_def)
  show live: "c \<in> live_leases l"
    using brand rec by (simp add: live_leases_def)
  show res: "reserved_on (led_dynamic_reserved l') d =
      reserved_on (led_dynamic_reserved l) d -
        (if d = cap_device_id c then unat (cap_reserved_bytes c) else 0)" for d
    using cur left by (auto simp: l' reserved_on_def)
  show simps: "led_snapshot l' = led_snapshot l" "led_brand l' = led_brand l"
    "unat (led_revision l') = unat (led_revision l) + 1"
    "led_next_lease_id l' = led_next_lease_id l"
    "led_active_leases l' = bt_remove (cap_lease_id c) (led_active_leases l)"
    using rev by (simp_all add: l')
  show "live_leases l' = live_leases l - {c}"
  proof -
    have "x = c" if "cap_lease_id x = cap_lease_id c" "x \<in> live_leases l" for x
      using that rec brand by (cases x; cases c) (auto simp: live_leases_def)
    then show ?thesis by (auto simp: live_leases_def simps)
  qed
  have keys: "fst ` set (led_dynamic_reserved l') \<subseteq> fst ` set (led_dynamic_reserved l)"
    using cur by (auto simp: l' bt_remove_def fst_set_insert dest!: bt_get_in)
      (metis fst_conv image_eqI)
  have "leased_on (led_active_leases l') d = reserved_on (led_dynamic_reserved l') d" for d
    using leased_on_remove [OF I(3) rec, of d] I(5) [of d] by (simp add: simps res)
  moreover have "fits (led_snapshot l') (led_dynamic_reserved l')"
    using I(4) keys by (force simp: fits_def simps res)
  ultimately show "ledger_inv l'"
    using I by (auto simp: ledger_inv_def simps l' split: if_splits)
qed

lemma release_lease_succeeds:
  assumes inv: "ledger_inv l" and live: "c \<in> live_leases l"
    and bytes: "cap_reserved_bytes c \<noteq> 0" and rev: "unat (led_revision l) + 1 < 2 ^ 64"
  shows "\<exists>l'. release_lease l c = (Ok (), l')"
proof -
  have "0 < unat (cap_reserved_bytes c)"
    using bytes by (simp add: unat_gt_0)
  then obtain cur where cur: "bt_get (led_dynamic_reserved l) (cap_device_id c) = Some cur"
    and le: "unat (cap_reserved_bytes c) \<le> unat cur"
    using live_lease_reserved [OF inv live] by (auto simp: reserved_on_def split: option.splits)
  obtain n where n: "checked_sub cur (cap_reserved_bytes c) = Some n"
    using le by (simp add: checked_sub_def word_le_nat_alt)
  obtain m where m: "checked_add (led_revision l) 1 = Some m"
    using rev by (simp add: checked_add_def)
  show ?thesis
    using live cur n m by (simp add: release_lease_def live_leases_def)
qed

end
