(* ===== verification/Placement_Machine.thy ===== *)
theory Placement_Machine
  imports Placement_Leases
begin

text \<open>
  The reservation ledger as a machine: its calls as one step function that meets the
  transactional contract, its leases as an instance of the lease authority, what its revision
  counts, which lease identifiers can never become live again, and when a reservation is admitted.
\<close>

subsection \<open>The ledger as a transactional component\<close>

datatype ledger_call =
    Prepare plan_request
  | Commit prepared_plan
  | ReserveBatch string nonzero "(string \<times> nonzero) option"
  | Release reservation_lease
  | ReleaseBytes device_byte_lease

datatype ledger_reply =
    ReplyPrepared prepared_plan
  | ReplyCommitted "reservation_lease list"
  | ReplyReserved "device_byte_lease \<times> device_byte_lease option"
  | ReplyReleased

datatype ledger_failure =
    PlacementFailure placement_refusal
  | ByteFailure device_byte_reservation_error

fun ledger_step ::
  "reservation_ledger \<Rightarrow> ledger_call \<Rightarrow> (ledger_reply, ledger_failure) result \<times> reservation_ledger"
where
  "ledger_step l (Prepare r) = (map_result ReplyPrepared PlacementFailure (ledger_prepare l r), l)"
| "ledger_step l (Commit p) =
     (case ledger_commit l p of (r, l') \<Rightarrow> (map_result ReplyCommitted PlacementFailure r, l'))"
| "ledger_step l (ReserveBatch d b second) =
     (case reserve_bytes_batch l d b second of (r, l') \<Rightarrow> (map_result ReplyReserved ByteFailure r, l'))"
| "ledger_step l (Release x) =
     (case ledger_release l x of
        (r, l') \<Rightarrow> (map_result (\<lambda>_. ReplyReleased) (\<lambda>e. PlacementFailure (fst e)) r, l'))"
| "ledger_step l (ReleaseBytes x) =
     (case release_bytes l x of
        (r, l') \<Rightarrow> (map_result (\<lambda>_. ReplyReleased) (\<lambda>e. ByteFailure (fst e)) r, l'))"

lemma ledger_release_cases:
  "ledger_release l x = (r, l') \<Longrightarrow>
     (\<exists>e. r = Err e \<and> l' = l \<and> snd e = x) \<or> (r = Ok () \<and> release_lease l (rl_lease x) = (Ok (), l'))"
  using release_lease_refused [of l "rl_lease x"] release_lease_no_panic [of l "rl_lease x"]
  by (cases "release_lease l (rl_lease x)"; cases "fst (release_lease l (rl_lease x))")
    (fastforce simp: ledger_release_def split: if_splits)+

lemma release_bytes_cases:
  "release_bytes l x = (r, l') \<Longrightarrow>
     (\<exists>e. r = Err e \<and> l' = l \<and> snd e = x) \<or> (r = Ok () \<and> release_lease l (dbl_lease x) = (Ok (), l'))"
  using release_lease_refused [of l "dbl_lease x"] release_lease_no_panic [of l "dbl_lease x"]
  by (cases "release_lease l (dbl_lease x)"; cases "fst (release_lease l (dbl_lease x))")
    (fastforce simp: release_bytes_def)+

lemma prepare_placements_no_panic:
  "length remaining = length (req_devices r) \<Longrightarrow> prepare_placements r remaining \<noteq> Panic"
  by (simp add: prepare_placements_def place_workloads_no_panic)

lemma remaining_length:
  assumes "remaining_after_reservations snap dyn = Ok left"
  shows "length left = length (snap_devices snap)"
proof -
  have sub: "length r' = length r" if "subtract_reservations ix es r = Ok r'"
    for ix es and r r' :: "u64 list"
    using that by (induction ix es r rule: subtract_reservations.induct) (auto split: option.splits)
  show ?thesis
    using assms
    by (auto simp: remaining_after_reservations_def Let_def initial_remaining_Ok_iff
        dest!: sub list_all2_lengthD)
qed

lemma ledger_prepare_no_panic [simp]: "ledger_prepare l r \<noteq> Panic"
  using remaining_length [of "led_snapshot l" "led_dynamic_reserved l"]
  by (auto simp: ledger_prepare_def and_then_Panic_iff prepare_placements_no_panic
      snapshot_from_request_def)

lemma ledger_step_refused: "ledger_step l c = (Err e, l') \<Longrightarrow> l' = l"
  by (cases c)
    (auto split: prod.splits dest: ledger_commit_refused reserve_bytes_batch_refused
      ledger_release_cases release_bytes_cases)

lemma no_panic_pairs [simp]:
  "ledger_commit l p \<noteq> (Panic, l')" "reserve_bytes_batch l d b second \<noteq> (Panic, l')"
  by (metis fst_conv ledger_commit_no_panic) (metis fst_conv reserve_bytes_batch_no_panic)

lemma ledger_step_no_panic: "fst (ledger_step l c) \<noteq> Panic"
  by (cases c) (auto split: prod.splits dest: ledger_release_cases release_bytes_cases)

lemma ledger_commit_applies:
  "ledger_commit l p = (Ok leases, l') \<Longrightarrow>
     \<exists>es c. prepare_reservation l es = Ok c \<and> l' = apply_reservation l c es \<and>
       map rl_lease leases = lease_capabilities l es c"
  using committed_leases(2) by (fastforce simp: ledger_commit_Ok_iff)

lemma ledger_step_accepted:
  assumes "ledger_inv l" and "ledger_step l c = (Ok r, l')"
  shows "ledger_inv l' \<and> led_snapshot l' = led_snapshot l \<and>
    unat (led_revision l') = unat (led_revision l) + (case c of Prepare _ \<Rightarrow> 0 | _ \<Rightarrow> 1)"
proof (cases c)
  case (Prepare x)
  then show ?thesis using assms by auto
next
  case (Commit p)
  then show ?thesis using assms apply_reservation_inv [OF assms(1)]
    by (auto split: prod.splits dest!: ledger_commit_applies)
next
  case (ReserveBatch d b second)
  then show ?thesis using assms apply_reservation_inv [OF assms(1)]
    by (auto split: prod.splits dest!: reserve_bytes_batch_Ok(1))
next
  case (Release x)
  then show ?thesis using assms release_lease_Ok [OF assms(1)]
    by (auto split: prod.splits dest!: ledger_release_cases)
next
  case (ReleaseBytes x)
  then show ?thesis using assms release_lease_Ok [OF assms(1)]
    by (auto split: prod.splits dest!: release_bytes_cases)
qed

interpretation ledger: transactional ledger_step ledger_inv
  by unfold_locales
    (auto dest: ledger_step_accepted ledger_step_refused simp: ledger_step_no_panic)

lemma ledger_run_snapshot:
  "ledger_inv l \<Longrightarrow> led_snapshot (run ledger_step l cs) = led_snapshot l"
proof (induction cs arbitrary: l)
  case Nil
  then show ?case by simp
next
  case (Cons c cs)
  have "led_snapshot (snd (ledger_step l c)) = led_snapshot l"
    using ledger_step_accepted [OF Cons.prems, of c] ledger.refused_skip [OF Cons.prems, of c]
    by (cases "ledger_step l c"; cases "fst (ledger_step l c)") auto
  with Cons show ?case by (simp add: ledger.step_inv)
qed

lemma ledger_new_inv:
  assumes "valid_request r" and "ledger_new b r = Ok l"
  shows "ledger_inv l" and "led_snapshot l = snapshot_from_request r"
    and "live_leases l = {}" and "led_brand l = b"
proof -
  let ?snap = "snapshot_from_request r"
  obtain left where rem: "remaining_after_reservations ?snap [] = Ok left"
    and l: "l = \<lparr>led_brand = b, led_snapshot = ?snap, led_dynamic_reserved = [],
        led_active_leases = [], led_revision = 0, led_next_lease_id = 1\<rparr>"
    using assms(2) by (auto simp: ledger_new_def Let_def)
  have ids: "distinct (map dev_id (snap_devices ?snap))"
    using assms(1) by (simp add: valid_request_def snapshot_from_request_def)
  have "fits ?snap []"
    using remaining_Ok_iff [OF ids, of "[]" left] rem by simp
  then show "ledger_inv l" using ids by (simp add: ledger_inv_def l)
  show "led_snapshot l = ?snap" "live_leases l = {}" "led_brand l = b"
    by (simp_all add: l live_leases_def)
qed

subsection \<open>The ledger as a lease authority\<close>

definition lease_issues :: "reservation_ledger \<Rightarrow> lease_capability list \<Rightarrow> reservation_ledger \<Rightarrow> bool"
where
  "lease_issues l cs l' \<longleftrightarrow>
     (\<exists>p leases. ledger_commit l p = (Ok leases, l') \<and> cs = map rl_lease leases) \<or>
     (\<exists>d b second r. reserve_bytes_batch l d b second = (Ok r, l') \<and>
        cs = map dbl_lease (batch_leases r))"

definition lease_revokes :: "reservation_ledger \<Rightarrow> lease_capability \<Rightarrow> reservation_ledger \<Rightarrow> bool"
where
  "lease_revokes l c l' \<longleftrightarrow> release_lease l c = (Ok (), l')"

lemma lease_issues_applies:
  "lease_issues l cs l' \<Longrightarrow>
     \<exists>es c. prepare_reservation l es = Ok c \<and> l' = apply_reservation l c es \<and>
       cs = lease_capabilities l es c"
  unfolding lease_issues_def by (metis ledger_commit_applies reserve_bytes_batch_Ok(1))

interpretation leases: lease_authority ledger_inv live_leases lease_issues lease_revokes
proof
  fix l l' cs
  assume inv: "ledger_inv l"
  show "finite (live_leases l)" by (rule live_leases_finite)
  assume "lease_issues l cs l'"
  then obtain es k where k: "prepare_reservation l es = Ok k"
    and l': "l' = apply_reservation l k es" and cs: "cs = lease_capabilities l es k"
    by (auto dest: lease_issues_applies)
  show "ledger_inv l'" and "live_leases l' = live_leases l \<union> set cs"
    and "distinct cs \<and> set cs \<inter> live_leases l = {}"
    unfolding l' cs using apply_reservation_inv(1) [OF inv k] reservation_live [OF inv k] by simp_all
next
  fix l l' c
  assume inv: "ledger_inv l"
  show "ledger_inv l'" and "c \<in> live_leases l \<and> live_leases l' = live_leases l - {c}"
    if "lease_revokes l c l'"
    using release_lease_Ok [OF inv] that by (auto simp: lease_revokes_def)
qed

subsection \<open>Revisions\<close>

definition mutating :: "ledger_call \<Rightarrow> bool" where
  "mutating c = (case c of Prepare _ \<Rightarrow> False | _ \<Rightarrow> True)"

lemma ledger_run_revision:
  "ledger_inv l \<Longrightarrow> unat (led_revision (run ledger_step l cs)) =
     unat (led_revision l) + length (filter mutating (accepted ledger_step l cs))"
proof (induction cs arbitrary: l)
  case Nil
  then show ?case by simp
next
  case (Cons c cs)
  show ?case
  proof (cases "is_ok (fst (ledger_step l c))")
    case True
    then obtain r l' where "ledger_step l c = (Ok r, l')"
      by (cases "ledger_step l c") (auto simp: is_ok_iff)
    with ledger_step_accepted [OF Cons.prems this] Cons.IH [of l'] show ?thesis
      by (simp add: mutating_def split: ledger_call.splits)
  next
    case False
    with Cons show ?thesis by (simp add: ledger.refused_skip)
  qed
qed

lemma prepared_plan_fields:
  "ledger_prepare l r = Ok p \<Longrightarrow> pp_brand p = led_brand l \<and> pp_revision p = led_revision l"
  by (auto simp: ledger_prepare_def split: if_splits)

lemma ledger_run_brand: "led_brand (run ledger_step l cs) = led_brand l"
proof (induction cs arbitrary: l)
  case Nil
  then show ?case by simp
next
  case (Cons c cs)
  have rel: "led_brand l' = led_brand l" if "release_lease l k = (r, l')" for k r l'
    using that by (auto simp: release_lease_def split: if_splits option.splits)
  have "led_brand (snd (ledger_step l c)) = led_brand l"
  proof (cases c)
    case (Commit p)
    then show ?thesis
      by (auto split: prod.splits simp: ledger_commit_def Let_def apply_reservation_def
          split: result.splits if_splits)
  next
    case (ReserveBatch d b second)
    then show ?thesis
      by (auto split: prod.splits simp: reserve_bytes_batch_def Let_def apply_reservation_def
          split: result.splits if_splits)
  qed (auto split: prod.splits dest!: ledger_release_cases release_bytes_cases rel)
  with Cons show ?case by simp
qed

subsection \<open>Identifiers are not reused\<close>

text \<open>An identifier below the counter with no active lease stays so, whatever is called.\<close>

definition retired :: "reservation_ledger \<Rightarrow> u64 \<Rightarrow> bool" where
  "retired l i \<longleftrightarrow> i < led_next_lease_id l \<and> bt_get (led_active_leases l) i = None"

lemma apply_reservation_retired:
  assumes "ledger_inv l" and "prepare_reservation l es = Ok c" and "retired l i"
  shows "retired (apply_reservation l c es) i"
proof -
  note A = apply_reservation_inv [OF assms(1,2)]
  have "i \<notin> set (id_range (led_next_lease_id l) (led_next_lease_id (apply_reservation l c es)))"
    using id_range_bounds [OF A(5)] assms(3) by (auto simp: retired_def not_less dest: leD)
  then have none: "map_of (zip (id_range (led_next_lease_id l)
      (led_next_lease_id (apply_reservation l c es))) es) i = None"
    using id_range_length [OF A(5)] by (simp add: map_of_zip_is_None)
  have "bt_get (led_active_leases (apply_reservation l c es)) i = None"
    using A(7) [of i] none assms(3) by (simp add: retired_def)
  then show ?thesis
    using A(5) assms(3) by (simp add: retired_def word_less_nat_alt)
qed

lemma release_lease_retired:
  assumes "ledger_inv l" and "release_lease l c = (Ok u, l')" and "retired l i"
  shows "retired l' i" and "retired l' (cap_lease_id c)"
proof -
  note R = release_lease_Ok [OF assms(1,2)]
  show "retired l' i" using R(8,9) assms(3) by (simp add: retired_def)
  have "cap_lease_id c < led_next_lease_id l"
    using R(1) ledger_invD(6) [OF assms(1)] by (auto simp: live_leases_def)
  then show "retired l' (cap_lease_id c)" using R(8,9) by (simp add: retired_def)
qed

lemma ledger_step_retired:
  assumes "ledger_inv l" and "retired l i"
  shows "retired (snd (ledger_step l c)) i"
proof (cases "is_ok (fst (ledger_step l c))")
  case False
  with assms show ?thesis by (simp add: ledger.refused_skip)
next
  case True
  then obtain r l' where ok: "ledger_step l c = (Ok r, l')"
    by (cases "ledger_step l c") (auto simp: is_ok_iff)
  show ?thesis
    using ok assms
    by (cases c)
      (auto split: prod.splits dest!: ledger_commit_applies reserve_bytes_batch_Ok(1)
        ledger_release_cases release_bytes_cases
        intro: apply_reservation_retired release_lease_retired(1))
qed

lemma ledger_run_retired:
  "ledger_inv l \<Longrightarrow> retired l i \<Longrightarrow> retired (run ledger_step l cs) i"
  by (induction cs arbitrary: l) (auto simp: ledger_step_retired ledger.step_inv)

lemma retired_release:
  "retired l (cap_lease_id c) \<Longrightarrow> led_brand l = cap_brand c \<Longrightarrow>
     release_lease l c = (Err (Unknown, c), l)"
  by (simp add: release_lease_def retired_def)

subsection \<open>When a reservation is admitted\<close>

lemma remaining_fits_total:
  assumes "distinct (map dev_id (snap_devices snap))" and "bt_wf dyn" and "fits snap dyn"
  shows "\<exists>left. remaining_after_reservations snap dyn = Ok left"
proof -
  let ?ds = "snap_devices snap"
  let ?left = "\<lambda>i. unat (dev_total_bytes (?ds ! i)) - (unat (dev_reserved_bytes (?ds ! i))
      + bytes_on (dev_id (?ds ! i)) (commitment_entries snap) + reserved_on dyn (dev_id (?ds ! i)))"
  have "?left i < 2 ^ 64" for i
    by (rule le_less_trans [OF diff_le_self]) simp
  then obtain left :: "u64 list" where "length left = length ?ds"
    "\<forall>i < length ?ds. unat (left ! i) = ?left i"
    using unat_list_represents [of "length ?ds" ?left] by blast
  with assms(3) have "remaining_after_reservations snap dyn = Ok left"
    by (auto simp: remaining_Ok_iff [OF assms(1,2)] list_all2_conv_all_nth fits_def)
  then show ?thesis ..
qed

lemma prepared_placements:
  assumes "ledger_inv l" and "ledger_prepare l r = Ok p"
  shows "led_snapshot l = snapshot_from_request r"
    and "list_all2 (admits (req_devices r) (req_artifacts r)) (req_workloads r) (pp_placements p)"
    and "pp_brand p = led_brand l" and "pp_revision p = led_revision l"
    and "d \<in> set (req_devices r) \<Longrightarrow>
      unat (dev_reserved_bytes d) + bytes_on (dev_id d) (commitment_entries (led_snapshot l))
        + reserved_on (led_dynamic_reserved l) (dev_id d)
        + bytes_on (dev_id d) (placement_entries (pp_placements p)) \<le> unat (dev_total_bytes d)"
proof -
  note I = ledger_invD [OF assms(1)]
  from assms(2) obtain left where snap: "led_snapshot l = snapshot_from_request r"
    and left: "remaining_after_reservations (led_snapshot l) (led_dynamic_reserved l) = Ok left"
    and place: "prepare_placements r left = Ok (pp_placements p)"
    and fields: "pp_brand p = led_brand l" "pp_revision p = led_revision l"
    by (auto simp: ledger_prepare_def split: if_splits)
  have devs: "snap_devices (led_snapshot l) = req_devices r"
    by (simp add: snap snapshot_from_request_def)
  have len: "length left = length (req_devices r)"
    using remaining_length [OF left] by (simp add: devs)
  note P = place_workloads_sound [OF I(1) [unfolded devs] place [unfolded prepare_placements_def] len]
  show "led_snapshot l = snapshot_from_request r" by (rule snap)
  show "list_all2 (admits (req_devices r) (req_artifacts r)) (req_workloads r) (pp_placements p)"
    using P by simp
  show "pp_brand p = led_brand l" "pp_revision p = led_revision l" by (rule fields)+
  assume "d \<in> set (req_devices r)"
  then obtain i where i: "i < length (req_devices r)" "d = req_devices r ! i"
    by (auto simp: in_set_conv_nth)
  have "unat (dev_total_bytes d) = unat (left ! i) + (unat (dev_reserved_bytes d)
      + bytes_on (dev_id d) (commitment_entries (led_snapshot l))
      + reserved_on (led_dynamic_reserved l) (dev_id d))"
    using left i by (simp add: remaining_Ok_iff [OF I(1,2)] list_all2_conv_all_nth devs)
  then show "unat (dev_reserved_bytes d) + bytes_on (dev_id d) (commitment_entries (led_snapshot l))
        + reserved_on (led_dynamic_reserved l) (dev_id d)
        + bytes_on (dev_id d) (placement_entries (pp_placements p)) \<le> unat (dev_total_bytes d)"
    using P i by fastforce
qed

lemma admitted_devices:
  "list_all2 (admits ds arts) ws ps \<Longrightarrow> fst ` set (placement_entries ps) \<subseteq> dev_id ` set ds"
  by (induction rule: list_all2_induct) (auto simp: admits_def intro: rev_image_eqI)

lemma add_reservations_capacity:
  assumes inv: "ledger_inv l" and known: "fst ` set es \<subseteq> dev_id ` set (snap_devices (led_snapshot l))"
    and room: "\<And>d. d \<in> set (snap_devices (led_snapshot l)) \<Longrightarrow>
      unat (dev_reserved_bytes d) + bytes_on (dev_id d) (commitment_entries (led_snapshot l))
        + reserved_on (led_dynamic_reserved l) (dev_id d) + bytes_on (dev_id d) es
        \<le> unat (dev_total_bytes d)"
  shows "\<exists>m left. add_reservations es (led_dynamic_reserved l) = Ok m \<and>
    remaining_after_reservations (led_snapshot l) m = Ok left"
proof -
  note I = ledger_invD [OF inv]
  let ?ds = "snap_devices (led_snapshot l)"
  have small: "reserved_on (led_dynamic_reserved l) x + bytes_on x es < 2 ^ 64" for x
  proof (cases "x \<in> dev_id ` set ?ds")
    case True
    then obtain d where "d \<in> set ?ds" "x = dev_id d" by auto
    with room [of d] unat_u64_bound [of "dev_total_bytes d"] show ?thesis
      by (simp del: unat_u64_bound)
  next
    case False
    then have "bytes_on x es = 0" and "reserved_on (led_dynamic_reserved l) x = 0"
      using known I(4)
      by (force simp: bytes_on_def sum_list_eq_0_iff, 
        force simp: fits_def reserved_on_def image_subset_iff dest: bt_get_in split: option.split)
    then show ?thesis by simp
  qed
  obtain m where m: "add_reservations es (led_dynamic_reserved l) = Ok m"
    using add_reservations_defined [OF small] by blast
  note M = add_reservations_Ok [OF m I(2)]
  have "fits (led_snapshot l) m"
    using I(4) known room M by (auto simp: fits_def add.assoc)
  then have "\<exists>left. remaining_after_reservations (led_snapshot l) m = Ok left"
    using remaining_fits_total [OF I(1)] M by blast
  with m show ?thesis by blast
qed

definition reservable :: "reservation_ledger \<Rightarrow> string \<Rightarrow> bool" where
  "reservable l d \<longleftrightarrow>
     (\<exists>x \<in> set (snap_devices (led_snapshot l)). dev_id x = d \<and>
        matches_configured_architecture (dev_gfx_isa x) \<and> dev_availability x = Available)"

definition has_room :: "reservation_ledger \<Rightarrow> (string \<times> u64) list \<Rightarrow> bool" where
  "has_room l es \<longleftrightarrow>
     (\<forall>d \<in> set (snap_devices (led_snapshot l)).
        unat (dev_reserved_bytes d) + bytes_on (dev_id d) (commitment_entries (led_snapshot l))
          + leased_on (led_active_leases l) (dev_id d) + bytes_on (dev_id d) es
          \<le> unat (dev_total_bytes d)) \<and>
     unat (led_next_lease_id l) + length es < 2 ^ 64 \<and> unat (led_revision l) + 1 < 2 ^ 64"

lemma prepare_reservation_defined_iff:
  assumes inv: "ledger_inv l" and known: "fst ` set es \<subseteq> dev_id ` set (snap_devices (led_snapshot l))"
  shows "(\<exists>c. prepare_reservation l es = Ok c) \<longleftrightarrow> has_room l es"
proof
  note I = ledger_invD [OF inv]
  assume "\<exists>c. prepare_reservation l es = Ok c"
  then obtain c where c: "prepare_reservation l es = Ok c" ..
  note A = apply_reservation_inv [OF inv c]
  have "unat (led_next_lease_id l) + length es < 2 ^ 64"
    using A(5) unat_u64_bound [of "led_next_lease_id (apply_reservation l c es)"]
    by (simp del: unat_u64_bound)
  moreover have "unat (led_revision l) + 1 < 2 ^ 64"
    using A(4) unat_u64_bound [of "led_revision (apply_reservation l c es)"]
    by (simp del: unat_u64_bound)
  ultimately show "has_room l es"
    using ledger_invD(4) [OF A(1)] A(6) by (simp add: has_room_def fits_def A(2) I(5) add.assoc)
next
  note I = ledger_invD [OF inv]
  assume room: "has_room l es"
  then obtain m left where m: "add_reservations es (led_dynamic_reserved l) = Ok m"
    "remaining_after_reservations (led_snapshot l) m = Ok left"
    using add_reservations_capacity [OF inv known] by (auto simp: has_room_def I(5))
  obtain i rev :: u64 where i: "unat i = unat (led_next_lease_id l) + length es"
    and rev: "unat rev = unat (led_revision l) + 1"
    using room unat_represents unfolding has_room_def by meson
  show "\<exists>c. prepare_reservation l es = Ok c"
    using m i rev by (intro exI [of _ "\<lparr>rc_dynamic_reserved = m,
        rc_first_lease_id = led_next_lease_id l, rc_next_lease_id = i, rc_next_revision = rev\<rparr>"])
      (simp add: prepare_reservation_Ok_iff)
qed

end
