(* ===== verification/Sched_State.thy ===== *)
theory Sched_State
  imports Placement_Machine
begin

text \<open>
  The admission and residency controller of \<open>crates/sched/src/lib.rs\<close>: its capabilities, records,
  state, refusals and the checks its methods share. The identity of a controller (\<open>Arc::ptr_eq\<close> on
  its brand) is a natural number, like a ledger's. \<open>RequestedDeviceBytes\<close> and
  \<open>RequestedHostBytes\<close> wrap a \<open>NonZeroU64\<close> and are \<open>nonzero\<close> here. Source locations carried by
  errors are dropped.
\<close>

subsection \<open>Capabilities and requests\<close>

definition INITIAL_IDENTIFIER :: u64 where
  "INITIAL_IDENTIFIER = 1"

definition DEFAULT_MAX_ACTIVE_ADMISSIONS :: usize where
  "DEFAULT_MAX_ACTIVE_ADMISSIONS = 64"

definition DEFAULT_MAX_PENDING_OPERATIONS :: usize where
  "DEFAULT_MAX_PENDING_OPERATIONS = 8"

definition DEFAULT_MAX_ACTIVE_USES :: usize where
  "DEFAULT_MAX_ACTIVE_USES = 32"

definition MAX_RESIDENT_HANDLE_BYTES :: usize where
  "MAX_RESIDENT_HANDLE_BYTES = 256"

record scheduler_limits =
  lim_admissions :: usize
  lim_pending_operations :: usize
  lim_uses :: usize

record grant_generation =
  gg_brand :: brand
  gg_value :: u64

record prepared_admission =
  pa_brand :: brand
  pa_generation :: u64
  pa_prepared :: prepared_plan

record admission_ticket =
  at_brand :: brand
  at_generation :: u64
  at_admission_id :: u64

record operation_id =
  op_brand :: brand
  op_value :: u64

record use_permit =
  up_brand :: brand
  up_value :: u64

record native_load_permit =
  nlp_brand :: brand
  nlp_value :: u64

record native_use_permit =
  nup_brand :: brand
  nup_value :: u64

record native_result_lease =
  nrl_brand :: brand
  nrl_value :: u64

record native_host_envelope =
  env_bytes :: u64

record native_host_result_envelope =
  env_retained_bytes :: u64

definition into_host_envelope :: "native_host_result_envelope \<Rightarrow> native_host_envelope" where
  "into_host_envelope e = \<lparr>env_bytes = env_retained_bytes e\<rparr>"

record native_resident_request =
  nrr_device_id :: string
  nrr_resident_bytes :: nonzero
  nrr_resident_host :: "nonzero option"

definition native_resident_request_new :: "string \<Rightarrow> nonzero \<Rightarrow> native_resident_request" where
  "native_resident_request_new d b =
     \<lparr>nrr_device_id = d, nrr_resident_bytes = b, nrr_resident_host = None\<rparr>"

definition native_resident_request_new_with_host ::
  "string \<Rightarrow> nonzero \<Rightarrow> nonzero \<Rightarrow> native_resident_request" where
  "native_resident_request_new_with_host d b h =
     \<lparr>nrr_device_id = d, nrr_resident_bytes = b, nrr_resident_host = Some h\<rparr>"

record native_use_request =
  nur_mutable_device :: nonzero
  nur_mutable_host :: "nonzero option"
  nur_retained_device :: "nonzero option"
  nur_retained_host :: "nonzero option"

definition native_use_request_new ::
  "nonzero \<Rightarrow> nonzero option \<Rightarrow> nonzero option \<Rightarrow> native_use_request" where
  "native_use_request_new m rd rh =
     \<lparr>nur_mutable_device = m, nur_mutable_host = None, nur_retained_device = rd,
      nur_retained_host = rh\<rparr>"

definition native_use_request_new_with_host ::
  "nonzero \<Rightarrow> nonzero \<Rightarrow> nonzero option \<Rightarrow> nonzero option \<Rightarrow> native_use_request" where
  "native_use_request_new_with_host m mh rd rh =
     \<lparr>nur_mutable_device = m, nur_mutable_host = Some mh, nur_retained_device = rd,
      nur_retained_host = rh\<rparr>"

datatype resident_handle = ResidentHandle string

datatype runtime_command_kind =
    Load string string string string u64
  | Evict resident_handle

record runtime_command =
  cmd_operation :: operation_id
  cmd_kind :: runtime_command_kind

datatype poll_outcome = Command runtime_command | Progressed | PendingLimit | Idle

datatype runtime_completion =
    Loaded operation_id resident_handle
  | LoadFailed operation_id
  | LoadQuarantined operation_id
  | Evicted operation_id
  | EvictFailed operation_id
  | EvictionQuarantined operation_id

datatype operation_kind = LoadOperation | EvictOperation

fun completion_operation :: "runtime_completion \<Rightarrow> operation_id" where
  "completion_operation (Loaded op h) = op"
| "completion_operation (LoadFailed op) = op"
| "completion_operation (LoadQuarantined op) = op"
| "completion_operation (Evicted op) = op"
| "completion_operation (EvictFailed op) = op"
| "completion_operation (EvictionQuarantined op) = op"

fun completion_kind :: "runtime_completion \<Rightarrow> operation_kind" where
  "completion_kind (Loaded op h) = LoadOperation"
| "completion_kind (LoadFailed op) = LoadOperation"
| "completion_kind (LoadQuarantined op) = LoadOperation"
| "completion_kind (Evicted op) = EvictOperation"
| "completion_kind (EvictFailed op) = EvictOperation"
| "completion_kind (EvictionQuarantined op) = EvictOperation"

datatype scheduler_error =
    Placement placement_refusal
  | NativeDeviceBytes device_byte_reservation_error
  | NativeHostResultExhausted u64 u64
  | NativeHostResultArithmeticOverflow
  | NativeHostBytesExhausted u64 u64
  | NativeHostBytesArithmeticOverflow
  | NativeHostOwnerNotEnabled string
  | InvalidLimit string
  | ForeignCapability string
  | StaleGeneration
  | GrantRevoked
  | GrantNotRevoked
  | GrantNotDrained
  | ActiveAdmissionLimit
  | ActiveUseLimit
  | PendingOperationLimit
  | IdentifierOverflow string
  | UnknownAdmission
  | AdmissionNotResident
  | UnknownOperation
  | OperationKindMismatch
  | OperationStateMismatch
  | UnknownUsePermit
  | InvalidResidentHandle usize
  | DuplicateResidentHandle

subsection \<open>The state\<close>

record host_lease =
  hl_requested :: nonzero

record native_host_ledger =
  host_envelope :: native_host_envelope
  host_extended_owners :: bool
  host_reserved :: u64

datatype admission_state =
    Reserved
  | Loading
  | Resident resident_handle
  | InUse resident_handle
  | Draining "resident_handle option" bool
  | Evicting resident_handle
  | Quarantined "resident_handle option"

datatype admission_lease =
    Legacy reservation_lease
  | Native device_byte_lease "host_lease option"

record admission =
  adm_lease :: admission_lease
  adm_state :: admission_state
  adm_active_uses :: usize

record native_use_record =
  nu_admission_id :: u64
  nu_mutable_device :: device_byte_lease
  nu_mutable_host :: "host_lease option"
  nu_retained_device :: "device_byte_lease option"
  nu_retained_host :: "host_lease option"

record native_result_record =
  nr_retained_device :: "device_byte_lease option"
  nr_retained_host :: "host_lease option"

record pending_operation =
  po_admission_id :: u64
  po_kind :: operation_kind

record prepared_native_use =
  pnu_admission_id :: u64
  pnu_use_id :: u64
  pnu_next_use_id :: u64
  pnu_next_host_reserved :: u64
  pnu_device_id :: string
  pnu_next_uses :: usize
  pnu_resident :: resident_handle

record prepared_native_finish =
  pnf_admission_id :: u64
  pnf_next_uses :: usize
  pnf_next_state :: admission_state
  pnf_result_id :: "u64 option"
  pnf_next_result_id :: u64

record scheduler =
  sch_brand :: brand
  sch_ledger :: reservation_ledger
  sch_generation :: u64
  sch_revoked :: bool
  sch_limits :: scheduler_limits
  sch_admissions :: "(u64, admission) btree"
  sch_operations :: "(u64, pending_operation) btree"
  sch_permits :: "(u64, u64) btree"
  sch_native_loads :: "(u64, u64) btree"
  sch_native_uses :: "(u64, native_use_record) btree"
  sch_native_quarantined_uses :: "(u64, native_use_record) btree"
  sch_native_results :: "(u64, native_result_record) btree"
  sch_host :: native_host_ledger
  sch_next_admission_id :: u64
  sch_next_operation_id :: u64
  sch_next_permit_id :: u64
  sch_next_native_load_id :: u64
  sch_next_native_use_id :: u64
  sch_next_native_result_id :: u64
  sch_next_drain_cursor :: u64

subsection \<open>Construction\<close>

definition default_limits :: scheduler_limits where
  "default_limits =
     \<lparr>lim_admissions = DEFAULT_MAX_ACTIVE_ADMISSIONS,
      lim_pending_operations = DEFAULT_MAX_PENDING_OPERATIONS,
      lim_uses = DEFAULT_MAX_ACTIVE_USES\<rparr>"

fun check_limits :: "(string \<times> usize) list \<Rightarrow> (unit, scheduler_error) result" where
  "check_limits [] = Ok ()"
| "check_limits ((field, v) # rest) = (if v = 0 then Err (InvalidLimit field) else check_limits rest)"

definition limits_try_new :: "usize \<Rightarrow> usize \<Rightarrow> usize \<Rightarrow> (scheduler_limits, scheduler_error) result"
where
  "limits_try_new max_active_admissions max_pending_operations max_active_uses =
     and_then (check_limits
       [(''max_active_admissions'', max_active_admissions),
        (''max_pending_operations'', max_pending_operations),
        (''max_active_uses'', max_active_uses)]) (\<lambda>_.
       Ok \<lparr>lim_admissions = max_active_admissions,
           lim_pending_operations = max_pending_operations,
           lim_uses = max_active_uses\<rparr>)"

definition resident_handle_try_new :: "string \<Rightarrow> (resident_handle, scheduler_error) result" where
  "resident_handle_try_new v =
     (if v = [] \<or> MAX_RESIDENT_HANDLE_BYTES < length v
      then Err (InvalidResidentHandle MAX_RESIDENT_HANDLE_BYTES) else Ok (ResidentHandle v))"

definition new_with_host_ledger ::
  "brand \<Rightarrow> brand \<Rightarrow> plan_request \<Rightarrow> scheduler_limits \<Rightarrow> native_host_ledger \<Rightarrow>
     (scheduler, scheduler_error) result" where
  "new_with_host_ledger controller_brand ledger_brand grant limits host =
     and_then (map_err Placement (ledger_new ledger_brand grant)) (\<lambda>ledger.
       Ok \<lparr>sch_brand = controller_brand, sch_ledger = ledger, sch_generation = INITIAL_IDENTIFIER,
           sch_revoked = False, sch_limits = limits, sch_admissions = [], sch_operations = [],
           sch_permits = [], sch_native_loads = [], sch_native_uses = [],
           sch_native_quarantined_uses = [], sch_native_results = [], sch_host = host,
           sch_next_admission_id = INITIAL_IDENTIFIER, sch_next_operation_id = INITIAL_IDENTIFIER,
           sch_next_permit_id = INITIAL_IDENTIFIER, sch_next_native_load_id = INITIAL_IDENTIFIER,
           sch_next_native_use_id = INITIAL_IDENTIFIER,
           sch_next_native_result_id = INITIAL_IDENTIFIER,
           sch_next_drain_cursor = INITIAL_IDENTIFIER\<rparr>)"

definition new_with_native_host_results ::
  "brand \<Rightarrow> brand \<Rightarrow> plan_request \<Rightarrow> scheduler_limits \<Rightarrow> native_host_result_envelope \<Rightarrow>
     (scheduler, scheduler_error) result" where
  "new_with_native_host_results controller_brand ledger_brand grant limits e =
     new_with_host_ledger controller_brand ledger_brand grant limits
       \<lparr>host_envelope = into_host_envelope e, host_extended_owners = False, host_reserved = 0\<rparr>"

definition new_with_native_host_envelope ::
  "brand \<Rightarrow> brand \<Rightarrow> plan_request \<Rightarrow> scheduler_limits \<Rightarrow> native_host_envelope \<Rightarrow>
     (scheduler, scheduler_error) result" where
  "new_with_native_host_envelope controller_brand ledger_brand grant limits e =
     new_with_host_ledger controller_brand ledger_brand grant limits
       \<lparr>host_envelope = e, host_extended_owners = True, host_reserved = 0\<rparr>"

definition scheduler_new ::
  "brand \<Rightarrow> brand \<Rightarrow> plan_request \<Rightarrow> scheduler_limits \<Rightarrow> (scheduler, scheduler_error) result" where
  "scheduler_new controller_brand ledger_brand grant limits =
     new_with_native_host_results controller_brand ledger_brand grant limits
       \<lparr>env_retained_bytes = 0\<rparr>"

definition current_generation :: "scheduler \<Rightarrow> grant_generation" where
  "current_generation s = \<lparr>gg_brand = sch_brand s, gg_value = sch_generation s\<rparr>"

definition ticket :: "scheduler \<Rightarrow> u64 \<Rightarrow> admission_ticket" where
  "ticket s i =
     \<lparr>at_brand = sch_brand s, at_generation = sch_generation s, at_admission_id = i\<rparr>"

subsection \<open>Checks\<close>

definition ensure_local :: "scheduler \<Rightarrow> brand \<Rightarrow> string \<Rightarrow> (unit, scheduler_error) result" where
  "ensure_local s b kind = require (sch_brand s = b) (ForeignCapability kind)"

definition ensure_current :: "scheduler \<Rightarrow> u64 \<Rightarrow> (unit, scheduler_error) result" where
  "ensure_current s g = require (g = sch_generation s) StaleGeneration"

definition ensure_not_revoked :: "scheduler \<Rightarrow> (unit, scheduler_error) result" where
  "ensure_not_revoked s = require (\<not> sch_revoked s) GrantRevoked"

definition ensure_admission_capacity :: "scheduler \<Rightarrow> usize \<Rightarrow> (unit, scheduler_error) result" where
  "ensure_admission_capacity s incoming =
     and_then (ok_or ActiveAdmissionLimit (usize_add (length (sch_admissions s)) incoming)) (\<lambda>total.
       if lim_admissions (sch_limits s) < total then Err ActiveAdmissionLimit else Ok ())"

definition pending_operation_count :: "scheduler \<Rightarrow> (usize, scheduler_error) result" where
  "pending_operation_count s =
     ok_or PendingOperationLimit
       (usize_add (length (sch_operations s)) (length (sch_native_loads s)))"

definition ensure_pending_capacity :: "scheduler \<Rightarrow> (unit, scheduler_error) result" where
  "ensure_pending_capacity s =
     and_then (pending_operation_count s) (\<lambda>count.
       if lim_pending_operations (sch_limits s) \<le> count then Err PendingOperationLimit else Ok ())"

definition ensure_custody_capacity :: "scheduler \<Rightarrow> (unit, scheduler_error) result" where
  "ensure_custody_capacity s =
     and_then (ok_or ActiveUseLimit
       (Option.bind (Option.bind
          (usize_add (length (sch_permits s)) (length (sch_native_uses s)))
          (\<lambda>v. usize_add v (length (sch_native_quarantined_uses s))))
          (\<lambda>v. usize_add v (length (sch_native_results s))))) (\<lambda>slots.
       if lim_uses (sch_limits s) \<le> slots then Err ActiveUseLimit else Ok ())"

definition ensure_extended_host_owner ::
  "scheduler \<Rightarrow> nonzero option \<Rightarrow> string \<Rightarrow> (unit, scheduler_error) result" where
  "ensure_extended_host_owner s requested owner =
     (if requested \<noteq> None \<and> \<not> host_extended_owners (sch_host s)
      then Err (NativeHostOwnerNotEnabled owner) else Ok ())"

definition host_exhausted :: "scheduler \<Rightarrow> u64 \<Rightarrow> u64 \<Rightarrow> scheduler_error" where
  "host_exhausted s required available =
     (if host_extended_owners (sch_host s) then NativeHostBytesExhausted required available
      else NativeHostResultExhausted required available)"

definition host_arithmetic_overflow :: "scheduler \<Rightarrow> scheduler_error" where
  "host_arithmetic_overflow s =
     (if host_extended_owners (sch_host s) then NativeHostBytesArithmeticOverflow
      else NativeHostResultArithmeticOverflow)"

fun sum_requested :: "u64 \<Rightarrow> nonzero option list \<Rightarrow> u64 option" where
  "sum_requested acc [] = Some acc"
| "sum_requested acc (r # rs) =
     Option.bind (checked_add acc (case r of None \<Rightarrow> 0 | Some b \<Rightarrow> bytes_of b))
       (\<lambda>acc. sum_requested acc rs)"

definition saturating_sub :: "u64 \<Rightarrow> u64 \<Rightarrow> u64" where
  "saturating_sub a b = (if b \<le> a then a - b else 0)"

definition next_host_reservation ::
  "scheduler \<Rightarrow> nonzero option list \<Rightarrow> (u64, scheduler_error) result" where
  "next_host_reservation s requests =
     and_then (ok_or (host_arithmetic_overflow s) (sum_requested 0 requests)) (\<lambda>requested.
     and_then (ok_or (host_arithmetic_overflow s)
       (checked_add (host_reserved (sch_host s)) requested)) (\<lambda>next_reserved.
       if env_bytes (host_envelope (sch_host s)) < next_reserved
       then Err (host_exhausted s requested
         (saturating_sub (env_bytes (host_envelope (sch_host s))) (host_reserved (sch_host s))))
       else Ok next_reserved))"

definition next_host_release ::
  "scheduler \<Rightarrow> host_lease option \<Rightarrow> (u64, scheduler_error) result" where
  "next_host_release s lease =
     ok_or (host_arithmetic_overflow s)
       (checked_sub (host_reserved (sch_host s))
          (case lease of None \<Rightarrow> 0 | Some h \<Rightarrow> bytes_of (hl_requested h)))"

text \<open>An absent admission is the same refusal everywhere.\<close>

definition find_admission :: "scheduler \<Rightarrow> u64 \<Rightarrow> (admission, scheduler_error) result" where
  "find_admission s i = ok_or UnknownAdmission (bt_get (sch_admissions s) i)"

fun loading_state :: "admission_state \<Rightarrow> bool" where
  "loading_state Loading = True"
| "loading_state (Draining None True) = True"
| "loading_state _ = False"

definition ensure_native_loading :: "scheduler \<Rightarrow> u64 \<Rightarrow> (unit, scheduler_error) result" where
  "ensure_native_loading s i =
     and_then (find_admission s i) (\<lambda>a. require (loading_state (adm_state a)) OperationStateMismatch)"

fun completion_matches :: "operation_kind \<Rightarrow> admission_state \<Rightarrow> bool" where
  "completion_matches LoadOperation state = loading_state state"
| "completion_matches EvictOperation (Evicting h) = True"
| "completion_matches EvictOperation _ = False"

definition ensure_completion_state ::
  "scheduler \<Rightarrow> u64 \<Rightarrow> operation_kind \<Rightarrow> (unit, scheduler_error) result" where
  "ensure_completion_state s i kind =
     and_then (find_admission s i) (\<lambda>a.
       require (completion_matches kind (adm_state a)) OperationStateMismatch)"

text \<open>The handle an admission keeps live.\<close>

fun held_handle :: "admission_state \<Rightarrow> resident_handle option" where
  "held_handle (Resident h) = Some h"
| "held_handle (InUse h) = Some h"
| "held_handle (Draining r loading) = r"
| "held_handle (Evicting h) = Some h"
| "held_handle (Quarantined r) = r"
| "held_handle _ = None"

definition resident_handle_in_custody :: "scheduler \<Rightarrow> resident_handle \<Rightarrow> bool" where
  "resident_handle_in_custody s candidate =
     list_ex (\<lambda>(i, a). held_handle (adm_state a) = Some candidate) (sch_admissions s)"

fun native_active_resident :: "admission_state \<Rightarrow> (resident_handle, scheduler_error) result" where
  "native_active_resident (Resident h) = Ok h"
| "native_active_resident (InUse h) = Ok h"
| "native_active_resident _ = Err AdmissionNotResident"

fun native_finished_state ::
  "admission_state \<Rightarrow> usize \<Rightarrow> bool \<Rightarrow> (admission_state, scheduler_error) result" where
  "native_finished_state (InUse h) next_uses revoked =
     (if next_uses = 0 \<and> revoked then Ok (Draining (Some h) False)
      else if next_uses = 0 then Ok (Resident h) else Ok (InUse h))"
| "native_finished_state (Draining (Some h) False) next_uses revoked = Ok (Draining (Some h) False)"
| "native_finished_state (Quarantined r) next_uses revoked = Ok (Quarantined r)"
| "native_finished_state _ next_uses revoked = Err AdmissionNotResident"

text \<open>The same step for the permits of \<open>begin_use\<close>, which a quarantined admission refuses.\<close>

fun finished_state ::
  "admission_state \<Rightarrow> usize \<Rightarrow> bool \<Rightarrow> (admission_state, scheduler_error) result" where
  "finished_state (InUse h) next_uses revoked =
     (if next_uses = 0 \<and> revoked then Ok (Draining (Some h) False)
      else if next_uses = 0 then Ok (Resident h) else Ok (InUse h))"
| "finished_state (Draining (Some h) False) next_uses revoked = Ok (Draining (Some h) False)"
| "finished_state _ next_uses revoked = Err AdmissionNotResident"

fun draining_state :: "admission_state \<Rightarrow> admission_state" where
  "draining_state Reserved = Draining None False"
| "draining_state Loading = Draining None True"
| "draining_state (Resident h) = Draining (Some h) False"
| "draining_state (InUse h) = Draining (Some h) False"
| "draining_state (Draining r loading) = Draining r loading"
| "draining_state (Evicting h) = Evicting h"
| "draining_state (Quarantined r) = Quarantined r"

definition transition_to_draining :: "admission \<Rightarrow> admission" where
  "transition_to_draining a = a\<lparr>adm_state := draining_state (adm_state a)\<rparr>"

end
