(* ===== verification/Sched_Operations.thy ===== *)
theory Sched_Operations
  imports Sched_State
begin

text \<open>
  The methods of the scheduler. Each is a function from the scheduler to a result and the next
  scheduler, in the order of the source: the checks first, then the ledger, then the maps.
\<close>

subsection \<open>Prepare and commit\<close>

definition sched_prepare ::
  "scheduler \<Rightarrow> plan_request \<Rightarrow> (prepared_admission, scheduler_error) result" where
  "sched_prepare s r =
     and_then (ensure_not_revoked s) (\<lambda>_.
     and_then (ensure_admission_capacity s (workload_count r)) (\<lambda>_.
     and_then (map_err Placement (ledger_prepare (sch_ledger s) r)) (\<lambda>prepared.
     and_then (ensure_admission_capacity s (placement_count prepared)) (\<lambda>_.
       Ok \<lparr>pa_brand = sch_brand s, pa_generation = sch_generation s, pa_prepared = prepared\<rparr>))))"

text \<open>The loop of \<open>commit\<close> that turns each lease into an admission; the identifier is advanced
  with a checked addition after every insertion.\<close>

fun admit_leases ::
  "scheduler \<Rightarrow> u64 \<Rightarrow> reservation_lease list \<Rightarrow>
     (admission_ticket list, scheduler_error) result \<times> scheduler" where
  "admit_leases s i [] = (Ok [], s)"
| "admit_leases s i (lease # leases) =
     (let s' = s\<lparr>sch_admissions := bt_insert i
            \<lparr>adm_lease = Legacy lease, adm_state = Reserved, adm_active_uses = 0\<rparr>
            (sch_admissions s)\<rparr>
      in attempt (ok_or (IdentifierOverflow ''admission'') (checked_add i 1)) s' (\<lambda>next_id.
           proceed (admit_leases s' next_id leases) (\<lambda>tickets s''.
             (Ok (ticket s i # tickets), s''))))"

definition sched_commit ::
  "scheduler \<Rightarrow> prepared_admission \<Rightarrow> (admission_ticket list, scheduler_error) result \<times> scheduler"
where
  "sched_commit s p =
     attempt (ensure_local s (pa_brand p) ''prepared admission'') s (\<lambda>_.
     attempt (ensure_current s (pa_generation p)) s (\<lambda>_.
     attempt (ensure_not_revoked s) s (\<lambda>_.
     attempt (ensure_admission_capacity s (placement_count (pa_prepared p))) s (\<lambda>_.
     attempt (ok_or (IdentifierOverflow ''admission'')
       (u64_of_usize (placement_count (pa_prepared p)))) s (\<lambda>count.
     attempt (ok_or (IdentifierOverflow ''admission'')
       (checked_add (sch_next_admission_id s) count)) s (\<lambda>next_admission_id.
       case ledger_commit (sch_ledger s) (pa_prepared p) of
         (r, ledger) \<Rightarrow>
           attempt (map_err Placement r) (s\<lparr>sch_ledger := ledger\<rparr>) (\<lambda>leases.
             proceed (admit_leases (s\<lparr>sch_ledger := ledger\<rparr>) (sch_next_admission_id s) leases)
               (\<lambda>tickets s'. (Ok tickets, s'\<lparr>sch_next_admission_id := next_admission_id\<rparr>)))))))))"

subsection \<open>Releasing, loading and quarantining an admission\<close>

text \<open>On a refusal the admission is put back with the lease the ledger returned.\<close>

definition release_admission ::
  "scheduler \<Rightarrow> u64 \<Rightarrow> (unit, scheduler_error) result \<times> scheduler" where
  "release_admission s i =
     (case bt_get (sch_admissions s) i of
        None \<Rightarrow> (Err UnknownAdmission, s)
      | Some a \<Rightarrow>
          let removed = s\<lparr>sch_admissions := bt_remove i (sch_admissions s)\<rparr>;
              put_back = (\<lambda>lease. removed\<lparr>sch_admissions :=
                bt_insert i (a\<lparr>adm_lease := lease\<rparr>) (sch_admissions removed)\<rparr>)
          in (case adm_lease a of
                Legacy lease \<Rightarrow>
                  (case ledger_release (sch_ledger s) lease of
                     (Ok u, ledger) \<Rightarrow> (Ok (), removed\<lparr>sch_ledger := ledger\<rparr>)
                   | (Err (reason, returned), ledger) \<Rightarrow>
                       (Err (Placement reason), (put_back (Legacy returned))\<lparr>sch_ledger := ledger\<rparr>)
                   | (Panic, ledger) \<Rightarrow> (Panic, s))
              | Native resident resident_host \<Rightarrow>
                  (case next_host_release s resident_host of
                     Err e \<Rightarrow> (Err e, put_back (Native resident resident_host))
                   | Panic \<Rightarrow> (Panic, s)
                   | Ok next_host_reserved \<Rightarrow>
                       (case release_bytes (sch_ledger s) resident of
                          (Ok u, ledger) \<Rightarrow>
                            (Ok (), removed\<lparr>sch_ledger := ledger,
                               sch_host := (sch_host s)\<lparr>host_reserved := next_host_reserved\<rparr>\<rparr>)
                        | (Err (reason, returned), ledger) \<Rightarrow>
                            (Err (NativeDeviceBytes reason),
                             (put_back (Native returned resident_host))\<lparr>sch_ledger := ledger\<rparr>)
                        | (Panic, ledger) \<Rightarrow> (Panic, s)))))"

definition set_state :: "scheduler \<Rightarrow> u64 \<Rightarrow> admission \<Rightarrow> admission_state \<Rightarrow> scheduler" where
  "set_state s i a state =
     s\<lparr>sch_admissions := bt_insert i (a\<lparr>adm_state := state\<rparr>) (sch_admissions s)\<rparr>"

definition complete_load ::
  "scheduler \<Rightarrow> u64 \<Rightarrow> resident_handle \<Rightarrow> (unit, scheduler_error) result \<times> scheduler" where
  "complete_load s i resident =
     (if resident_handle_in_custody s resident then (Err DuplicateResidentHandle, s)
      else attempt (find_admission s i) s (\<lambda>a.
        let drain_after_load = sch_revoked s \<or> adm_state a = Draining None True
        in (Ok (), set_state s i a
              (if drain_after_load then Draining (Some resident) False else Resident resident))))"

definition quarantine_admission ::
  "scheduler \<Rightarrow> u64 \<Rightarrow> (unit, scheduler_error) result \<times> scheduler" where
  "quarantine_admission s i =
     attempt (find_admission s i) s (\<lambda>a.
       case adm_state a of
         Evicting h \<Rightarrow> (Ok (), set_state s i a (Quarantined (Some h)))
       | Loading \<Rightarrow> (Ok (), set_state s i a (Quarantined None))
       | Draining None True \<Rightarrow> (Ok (), set_state s i a (Quarantined None))
       | _ \<Rightarrow> (Err OperationStateMismatch, s))"

subsection \<open>Native residents\<close>

definition admit_native_resident ::
  "scheduler \<Rightarrow> native_resident_request \<Rightarrow>
     (admission_ticket \<times> native_load_permit, scheduler_error) result \<times> scheduler" where
  "admit_native_resident s request =
     attempt (ensure_not_revoked s) s (\<lambda>_.
     attempt (ensure_admission_capacity s 1) s (\<lambda>_.
     attempt (ensure_pending_capacity s) s (\<lambda>_.
     attempt (ok_or (IdentifierOverflow ''admission'')
       (checked_add (sch_next_admission_id s) 1)) s (\<lambda>next_admission_id.
     attempt (ok_or (IdentifierOverflow ''native load permit'')
       (checked_add (sch_next_native_load_id s) 1)) s (\<lambda>next_load_id.
     attempt (ensure_extended_host_owner s (nrr_resident_host request) ''resident'') s (\<lambda>_.
     attempt (next_host_reservation s [nrr_resident_host request]) s (\<lambda>next_host_reserved.
       case reserve_bytes (sch_ledger s) (nrr_device_id request) (nrr_resident_bytes request) of
         (r, ledger) \<Rightarrow>
           attempt (map_err NativeDeviceBytes r) (s\<lparr>sch_ledger := ledger\<rparr>) (\<lambda>resident.
             (Ok (ticket s (sch_next_admission_id s),
                  \<lparr>nlp_brand = sch_brand s, nlp_value = sch_next_native_load_id s\<rparr>),
              s\<lparr>sch_ledger := ledger,
                sch_admissions := bt_insert (sch_next_admission_id s)
                  \<lparr>adm_lease = Native resident
                     (map_option (\<lambda>b. \<lparr>hl_requested = b\<rparr>) (nrr_resident_host request)),
                   adm_state = Loading, adm_active_uses = 0\<rparr> (sch_admissions s),
                sch_native_loads := bt_insert (sch_next_native_load_id s)
                  (sch_next_admission_id s) (sch_native_loads s),
                sch_host := (sch_host s)\<lparr>host_reserved := next_host_reserved\<rparr>,
                sch_next_admission_id := next_admission_id,
                sch_next_native_load_id := next_load_id\<rparr>)))))))))"

text \<open>The three outcomes of a native load share their checks and the removal of the permit.\<close>

definition native_load_outcome ::
  "scheduler \<Rightarrow> native_load_permit \<Rightarrow> (u64 \<Rightarrow> (unit, scheduler_error) result \<times> scheduler) \<Rightarrow>
     (unit, scheduler_error) result \<times> scheduler" where
  "native_load_outcome s permit act =
     attempt (ensure_local s (nlp_brand permit) ''native load permit'') s (\<lambda>_.
     attempt (ok_or UnknownOperation (bt_get (sch_native_loads s) (nlp_value permit))) s (\<lambda>i.
     attempt (ensure_native_loading s i) s (\<lambda>_.
     proceed (act i) (\<lambda>_ s'.
       (Ok (), s'\<lparr>sch_native_loads := bt_remove (nlp_value permit) (sch_native_loads s')\<rparr>)))))"

definition complete_native_load ::
  "scheduler \<Rightarrow> native_load_permit \<Rightarrow> resident_handle \<Rightarrow>
     (unit, scheduler_error) result \<times> scheduler" where
  "complete_native_load s permit resident =
     native_load_outcome s permit (\<lambda>i. complete_load s i resident)"

definition native_load_released ::
  "scheduler \<Rightarrow> native_load_permit \<Rightarrow> (unit, scheduler_error) result \<times> scheduler" where
  "native_load_released s permit = native_load_outcome s permit (release_admission s)"

definition quarantine_native_load ::
  "scheduler \<Rightarrow> native_load_permit \<Rightarrow> (unit, scheduler_error) result \<times> scheduler" where
  "quarantine_native_load s permit = native_load_outcome s permit (quarantine_admission s)"

subsection \<open>The grant\<close>

definition sched_revoke ::
  "scheduler \<Rightarrow> grant_generation \<Rightarrow> (unit, scheduler_error) result \<times> scheduler" where
  "sched_revoke s g =
     attempt (ensure_local s (gg_brand g) ''grant generation'') s (\<lambda>_.
     attempt (ensure_current s (gg_value g)) s (\<lambda>_.
       if sch_revoked s then (Ok (), s)
       else (Ok (), s\<lparr>sch_revoked := True,
         sch_admissions := bt_map_values transition_to_draining (sch_admissions s)\<rparr>)))"

definition request_retirement ::
  "scheduler \<Rightarrow> admission_ticket \<Rightarrow> (unit, scheduler_error) result \<times> scheduler" where
  "request_retirement s t =
     attempt (ensure_local s (at_brand t) ''admission ticket'') s (\<lambda>_.
     attempt (ensure_current s (at_generation t)) s (\<lambda>_.
       case bt_get (sch_admissions s) (at_admission_id t) of
         None \<Rightarrow> (Ok (), s)
       | Some a \<Rightarrow> (Ok (), s\<lparr>sch_admissions :=
           bt_insert (at_admission_id t) (transition_to_draining a) (sch_admissions s)\<rparr>)))"

text \<open>The new ledger gets a brand of its own.\<close>

definition replace_grant ::
  "scheduler \<Rightarrow> brand \<Rightarrow> plan_request \<Rightarrow> (grant_generation, scheduler_error) result \<times> scheduler"
where
  "replace_grant s ledger_brand grant =
     (if \<not> sch_revoked s then (Err GrantNotRevoked, s)
      else if sch_admissions s \<noteq> [] \<or> sch_operations s \<noteq> [] \<or> sch_permits s \<noteq> []
        \<or> sch_native_loads s \<noteq> [] \<or> sch_native_uses s \<noteq> []
        \<or> sch_native_quarantined_uses s \<noteq> [] \<or> sch_native_results s \<noteq> []
        \<or> host_reserved (sch_host s) \<noteq> 0
      then (Err GrantNotDrained, s)
      else attempt (ok_or (IdentifierOverflow ''generation'')
          (checked_add (sch_generation s) 1)) s (\<lambda>generation.
        attempt (map_err Placement (ledger_new ledger_brand grant)) s (\<lambda>ledger.
          let s' = s\<lparr>sch_ledger := ledger, sch_generation := generation, sch_revoked := False\<rparr>
          in (Ok (current_generation s'), s'))))"

subsection \<open>Commands and their acknowledgements\<close>

definition next_local_release :: "scheduler \<Rightarrow> u64 option" where
  "next_local_release s =
     map_option fst (List.find (\<lambda>(i, a). adm_state a = Draining None False) (sch_admissions s))"

fun evictable :: "admission \<Rightarrow> bool" where
  "evictable a = (case adm_state a of
     Draining (Some h) False \<Rightarrow> adm_active_uses a = 0 | _ \<Rightarrow> False)"

definition next_eviction_from :: "scheduler \<Rightarrow> u64 \<Rightarrow> (u64 \<times> operation_kind) option" where
  "next_eviction_from s start =
     map_option (\<lambda>(i, a). (i, EvictOperation))
       (List.find (\<lambda>(i, a). evictable a) (bt_from start (sch_admissions s)))"

definition next_command :: "scheduler \<Rightarrow> (u64 \<times> operation_kind) option" where
  "next_command s =
     (case List.find (\<lambda>(i, a). adm_state a = Reserved \<and> \<not> sch_revoked s \<and> adm_active_uses a = 0)
         (sch_admissions s) of
        Some (i, a) \<Rightarrow> Some (i, LoadOperation)
      | None \<Rightarrow>
          (case next_eviction_from s (sch_next_drain_cursor s) of
             Some found \<Rightarrow> Some found
           | None \<Rightarrow> next_eviction_from s INITIAL_IDENTIFIER))"

text \<open>The command for a chosen admission. The load branch moves the admission to \<open>Loading\<close> before
  it looks at the lease.\<close>

definition issue_command ::
  "scheduler \<Rightarrow> u64 \<Rightarrow> admission \<Rightarrow> operation_kind \<Rightarrow>
     (runtime_command_kind, scheduler_error) result \<times> scheduler" where
  "issue_command s i a kind =
     (case kind of
        LoadOperation \<Rightarrow>
          (case adm_lease a of
             Legacy lease \<Rightarrow>
               (Ok (Load (adm_profile_id (rl_placement lease)) (adm_artifact_id (rl_placement lease))
                  (adm_digest (rl_placement lease)) (adm_device_id (rl_placement lease))
                  (adm_total_estimated_bytes (rl_placement lease))),
                set_state s i a Loading)
           | Native resident resident_host \<Rightarrow>
               (Err OperationStateMismatch, set_state s i a Loading))
      | EvictOperation \<Rightarrow>
          (case adm_state a of
             Draining (Some h) False \<Rightarrow> (Ok (Evict h), set_state s i a (Evicting h))
           | _ \<Rightarrow> (Err OperationStateMismatch, s)))"

definition poll_command :: "scheduler \<Rightarrow> (poll_outcome, scheduler_error) result \<times> scheduler" where
  "poll_command s =
     (case next_local_release s of
        Some i \<Rightarrow> proceed (release_admission s i) (\<lambda>_ s'. (Ok Progressed, s'))
      | None \<Rightarrow>
          attempt (pending_operation_count s) s (\<lambda>count.
            if lim_pending_operations (sch_limits s) \<le> count then (Ok PendingLimit, s)
            else case next_command s of
              None \<Rightarrow> (Ok Idle, s)
            | Some (i, kind) \<Rightarrow>
                attempt (ok_or (IdentifierOverflow ''operation'')
                  (checked_add (sch_next_operation_id s) 1)) s (\<lambda>next_operation_id.
                attempt (find_admission s i) s (\<lambda>a.
                proceed (issue_command s i a kind) (\<lambda>command s'.
                  (Ok (Command \<lparr>cmd_operation =
                       \<lparr>op_brand = sch_brand s, op_value = sch_next_operation_id s\<rparr>,
                       cmd_kind = command\<rparr>),
                   s'\<lparr>sch_operations := bt_insert (sch_next_operation_id s)
                        \<lparr>po_admission_id = i, po_kind = kind\<rparr> (sch_operations s'),
                      sch_next_operation_id := next_operation_id\<rparr>))))))"

text \<open>A failed eviction goes back to draining and moves the cursor past the admission.\<close>

definition evict_failed ::
  "scheduler \<Rightarrow> u64 \<Rightarrow> (unit, scheduler_error) result \<times> scheduler" where
  "evict_failed s i =
     attempt (find_admission s i) s (\<lambda>a.
       case adm_state a of
         Evicting h \<Rightarrow>
           (Ok (), (set_state s i a (Draining (Some h) False))\<lparr>sch_next_drain_cursor :=
              (case checked_add i 1 of Some n \<Rightarrow> n | None \<Rightarrow> INITIAL_IDENTIFIER)\<rparr>)
       | _ \<Rightarrow> (Err OperationStateMismatch, s))"

fun apply_completion ::
  "scheduler \<Rightarrow> u64 \<Rightarrow> runtime_completion \<Rightarrow> (unit, scheduler_error) result \<times> scheduler" where
  "apply_completion s i (Loaded op resident) = complete_load s i resident"
| "apply_completion s i (LoadFailed op) = release_admission s i"
| "apply_completion s i (Evicted op) = release_admission s i"
| "apply_completion s i (LoadQuarantined op) = quarantine_admission s i"
| "apply_completion s i (EvictionQuarantined op) = quarantine_admission s i"
| "apply_completion s i (EvictFailed op) = evict_failed s i"

definition complete ::
  "scheduler \<Rightarrow> runtime_completion \<Rightarrow> (unit, scheduler_error) result \<times> scheduler" where
  "complete s completion =
     (let operation = completion_operation completion
      in attempt (ensure_local s (op_brand operation) ''operation'') s (\<lambda>_.
         attempt (ok_or UnknownOperation (bt_get (sch_operations s) (op_value operation))) s (\<lambda>pending.
         attempt (require (po_kind pending = completion_kind completion) OperationKindMismatch) s (\<lambda>_.
         attempt (ensure_completion_state s (po_admission_id pending) (po_kind pending)) s (\<lambda>_.
         proceed (apply_completion s (po_admission_id pending) completion) (\<lambda>_ s'.
           (Ok (), s'\<lparr>sch_operations := bt_remove (op_value operation) (sch_operations s')\<rparr>)))))))"

subsection \<open>Uses\<close>

definition begin_use ::
  "scheduler \<Rightarrow> admission_ticket \<Rightarrow> (use_permit, scheduler_error) result \<times> scheduler" where
  "begin_use s t =
     attempt (ensure_local s (at_brand t) ''admission ticket'') s (\<lambda>_.
     attempt (ensure_current s (at_generation t)) s (\<lambda>_.
     attempt (ensure_not_revoked s) s (\<lambda>_.
     attempt (ensure_custody_capacity s) s (\<lambda>_.
     attempt (ok_or (IdentifierOverflow ''use permit'') (checked_add (sch_next_permit_id s) 1)) s
       (\<lambda>next_permit_id.
     attempt (find_admission s (at_admission_id t)) s (\<lambda>a.
     attempt (case adm_lease a of Legacy lease \<Rightarrow> Ok () | _ \<Rightarrow> Err AdmissionNotResident) s (\<lambda>_.
     attempt (native_active_resident (adm_state a)) s (\<lambda>resident.
     attempt (ok_or (IdentifierOverflow ''active use'') (usize_add (adm_active_uses a) 1)) s (\<lambda>uses.
       (Ok \<lparr>up_brand = sch_brand s, up_value = sch_next_permit_id s\<rparr>,
        s\<lparr>sch_admissions := bt_insert (at_admission_id t)
             (a\<lparr>adm_active_uses := uses, adm_state := InUse resident\<rparr>) (sch_admissions s),
          sch_permits := bt_insert (sch_next_permit_id s) (at_admission_id t) (sch_permits s),
          sch_next_permit_id := next_permit_id\<rparr>))))))))))"

definition finish_use ::
  "scheduler \<Rightarrow> use_permit \<Rightarrow> (unit, scheduler_error) result \<times> scheduler" where
  "finish_use s permit =
     attempt (ensure_local s (up_brand permit) ''use permit'') s (\<lambda>_.
     attempt (ok_or UnknownUsePermit (bt_get (sch_permits s) (up_value permit))) s (\<lambda>i.
     attempt (find_admission s i) s (\<lambda>a.
     attempt (ok_or UnknownUsePermit (usize_sub (adm_active_uses a) 1)) s (\<lambda>next_uses.
     attempt (finished_state (adm_state a) next_uses (sch_revoked s)) s (\<lambda>state.
       (Ok (), s\<lparr>sch_admissions := bt_insert i
                    (a\<lparr>adm_active_uses := next_uses, adm_state := state\<rparr>) (sch_admissions s),
                 sch_permits := bt_remove (up_value permit) (sch_permits s)\<rparr>))))))"

subsection \<open>Native uses and their results\<close>

definition prepare_native_use ::
  "scheduler \<Rightarrow> admission_ticket \<Rightarrow> native_use_request \<Rightarrow>
     (prepared_native_use, scheduler_error) result" where
  "prepare_native_use s t request =
     and_then (ok_or (IdentifierOverflow ''native use permit'')
       (checked_add (sch_next_native_use_id s) 1)) (\<lambda>next_use_id.
     and_then (ensure_extended_host_owner s (nur_mutable_host request) ''mutable use'') (\<lambda>_.
     and_then (next_host_reservation s [nur_mutable_host request, nur_retained_host request])
       (\<lambda>next_host_reserved.
     and_then (find_admission s (at_admission_id t)) (\<lambda>a.
     and_then (case adm_lease a of Native lease host \<Rightarrow> Ok lease | _ \<Rightarrow> Err AdmissionNotResident)
       (\<lambda>resident_lease.
     and_then (native_active_resident (adm_state a)) (\<lambda>resident.
     and_then (ok_or (IdentifierOverflow ''active native use'') (usize_add (adm_active_uses a) 1))
       (\<lambda>next_uses.
       Ok \<lparr>pnu_admission_id = at_admission_id t, pnu_use_id = sch_next_native_use_id s,
           pnu_next_use_id = next_use_id, pnu_next_host_reserved = next_host_reserved,
           pnu_device_id = cap_device_id (dbl_lease resident_lease), pnu_next_uses = next_uses,
           pnu_resident = resident\<rparr>)))))))"

definition begin_native_use ::
  "scheduler \<Rightarrow> admission_ticket \<Rightarrow> native_use_request \<Rightarrow>
     (native_use_permit, scheduler_error) result \<times> scheduler" where
  "begin_native_use s t request =
     attempt (ensure_local s (at_brand t) ''admission ticket'') s (\<lambda>_.
     attempt (ensure_current s (at_generation t)) s (\<lambda>_.
     attempt (ensure_not_revoked s) s (\<lambda>_.
     attempt (ensure_custody_capacity s) s (\<lambda>_.
     attempt (prepare_native_use s t request) s (\<lambda>prepared.
     attempt (find_admission s (pnu_admission_id prepared)) s (\<lambda>a.
       case reserve_bytes_batch (sch_ledger s) (pnu_device_id prepared)
           (nur_mutable_device request)
           (map_option (\<lambda>b. (pnu_device_id prepared, b)) (nur_retained_device request)) of
         (r, ledger) \<Rightarrow>
           attempt (map_err NativeDeviceBytes r) (s\<lparr>sch_ledger := ledger\<rparr>)
             (\<lambda>(mutable_device, retained_device).
               (Ok \<lparr>nup_brand = sch_brand s, nup_value = pnu_use_id prepared\<rparr>,
                s\<lparr>sch_ledger := ledger,
                  sch_admissions := bt_insert (pnu_admission_id prepared)
                    (a\<lparr>adm_active_uses := pnu_next_uses prepared,
                       adm_state := InUse (pnu_resident prepared)\<rparr>) (sch_admissions s),
                  sch_native_uses := bt_insert (pnu_use_id prepared)
                    \<lparr>nu_admission_id = pnu_admission_id prepared,
                     nu_mutable_device = mutable_device,
                     nu_mutable_host =
                       map_option (\<lambda>b. \<lparr>hl_requested = b\<rparr>) (nur_mutable_host request),
                     nu_retained_device = retained_device,
                     nu_retained_host =
                       map_option (\<lambda>b. \<lparr>hl_requested = b\<rparr>) (nur_retained_host request)\<rparr>
                    (sch_native_uses s),
                  sch_host := (sch_host s)\<lparr>host_reserved := pnu_next_host_reserved prepared\<rparr>,
                  sch_next_native_use_id := pnu_next_use_id prepared\<rparr>))))))))"

definition prepare_native_finish ::
  "scheduler \<Rightarrow> u64 \<Rightarrow> (prepared_native_finish, scheduler_error) result" where
  "prepare_native_finish s permit_id =
     and_then (ok_or UnknownUsePermit (bt_get (sch_native_uses s) permit_id)) (\<lambda>record.
     let result_id =
           (if nu_retained_device record \<noteq> None \<or> nu_retained_host record \<noteq> None
            then Some (sch_next_native_result_id s) else None)
     in and_then (case result_id of
            Some identifier \<Rightarrow>
              ok_or (IdentifierOverflow ''native result lease'') (checked_add identifier 1)
          | None \<Rightarrow> Ok (sch_next_native_result_id s)) (\<lambda>next_result_id.
        and_then (find_admission s (nu_admission_id record)) (\<lambda>a.
        and_then (ok_or UnknownUsePermit (usize_sub (adm_active_uses a) 1)) (\<lambda>next_uses.
        and_then (native_finished_state (adm_state a) next_uses (sch_revoked s)) (\<lambda>next_state.
          Ok \<lparr>pnf_admission_id = nu_admission_id record, pnf_next_uses = next_uses,
              pnf_next_state = next_state, pnf_result_id = result_id,
              pnf_next_result_id = next_result_id\<rparr>)))))"

definition finish_native_use_after_teardown ::
  "scheduler \<Rightarrow> native_use_permit \<Rightarrow>
     (native_result_lease option, scheduler_error) result \<times> scheduler" where
  "finish_native_use_after_teardown s permit =
     attempt (ensure_local s (nup_brand permit) ''native use permit'') s (\<lambda>_.
     attempt (prepare_native_finish s (nup_value permit)) s (\<lambda>prepared.
     attempt (next_host_release s
       (Option.bind (bt_get (sch_native_uses s) (nup_value permit)) nu_mutable_host)) s
       (\<lambda>next_host_reserved.
     attempt (find_admission s (pnf_admission_id prepared)) s (\<lambda>a.
     attempt (ok_or UnknownUsePermit (bt_get (sch_native_uses s) (nup_value permit))) s (\<lambda>record.
       let removed = s\<lparr>sch_native_uses := bt_remove (nup_value permit) (sch_native_uses s)\<rparr>
       in (case release_bytes (sch_ledger s) (nu_mutable_device record) of
             (Err (reason, lease), ledger) \<Rightarrow>
               (Err (NativeDeviceBytes reason),
                removed\<lparr>sch_ledger := ledger,
                  sch_native_uses := bt_insert (nup_value permit)
                    (record\<lparr>nu_mutable_device := lease\<rparr>) (sch_native_uses removed)\<rparr>)
           | (Panic, ledger) \<Rightarrow> (Panic, s)
           | (Ok u, ledger) \<Rightarrow>
               (Ok (map_option (\<lambda>v. \<lparr>nrl_brand = sch_brand s, nrl_value = v\<rparr>) (pnf_result_id prepared)),
                removed\<lparr>sch_ledger := ledger,
                  sch_admissions := bt_insert (pnf_admission_id prepared)
                    (a\<lparr>adm_active_uses := pnf_next_uses prepared,
                       adm_state := pnf_next_state prepared\<rparr>) (sch_admissions s),
                  sch_native_results := (case pnf_result_id prepared of
                      None \<Rightarrow> sch_native_results s
                    | Some v \<Rightarrow> bt_insert v
                        \<lparr>nr_retained_device = nu_retained_device record,
                         nr_retained_host = nu_retained_host record\<rparr> (sch_native_results s)),
                  sch_host := (sch_host s)\<lparr>host_reserved := next_host_reserved\<rparr>,
                  sch_next_native_result_id := pnf_next_result_id prepared\<rparr>)))))))"

definition quarantine_native_use ::
  "scheduler \<Rightarrow> native_use_permit \<Rightarrow> (unit, scheduler_error) result \<times> scheduler" where
  "quarantine_native_use s permit =
     attempt (ensure_local s (nup_brand permit) ''native use permit'') s (\<lambda>_.
     attempt (ok_or UnknownUsePermit (bt_get (sch_native_uses s) (nup_value permit))) s (\<lambda>record.
     attempt (find_admission s (nu_admission_id record)) s (\<lambda>a.
     attempt (case adm_state a of
         InUse h \<Rightarrow> Ok (Some h)
       | Draining (Some h) loading \<Rightarrow> Ok (Some h)
       | Quarantined (Some h) \<Rightarrow> Ok (Some h)
       | _ \<Rightarrow> Err OperationStateMismatch) s (\<lambda>resident.
       (Ok (), (set_state s (nu_admission_id record) a (Quarantined resident))\<lparr>
          sch_native_uses := bt_remove (nup_value permit) (sch_native_uses s),
          sch_native_quarantined_uses :=
            bt_insert (nup_value permit) record (sch_native_quarantined_uses s)\<rparr>)))))"

definition discard_native_result ::
  "scheduler \<Rightarrow> native_result_lease \<Rightarrow> (unit, scheduler_error) result \<times> scheduler" where
  "discard_native_result s lease =
     attempt (ensure_local s (nrl_brand lease) ''native result lease'') s (\<lambda>_.
     attempt (ok_or UnknownUsePermit (bt_get (sch_native_results s) (nrl_value lease))) s (\<lambda>record.
     attempt (next_host_release s (nr_retained_host record)) s (\<lambda>next_host_reserved.
       let removed = s\<lparr>sch_native_results := bt_remove (nrl_value lease) (sch_native_results s)\<rparr>;
           host = (sch_host s)\<lparr>host_reserved := next_host_reserved\<rparr>
       in (case nr_retained_device record of
             None \<Rightarrow> (Ok (), removed\<lparr>sch_host := host\<rparr>)
           | Some device \<Rightarrow>
               (case release_bytes (sch_ledger s) device of
                  (Ok u, ledger) \<Rightarrow> (Ok (), removed\<lparr>sch_ledger := ledger, sch_host := host\<rparr>)
                | (Err (reason, returned), ledger) \<Rightarrow>
                    (Err (NativeDeviceBytes reason),
                     removed\<lparr>sch_ledger := ledger,
                       sch_native_results := bt_insert (nrl_value lease)
                         \<lparr>nr_retained_device = Some returned,
                          nr_retained_host = nr_retained_host record\<rparr> (sch_native_results removed)\<rparr>)
                | (Panic, ledger) \<Rightarrow> (Panic, s))))))"

end
