(* ===== verification/Sched_Invariant.thy ===== *)
theory Sched_Invariant
  imports Sched_Operations BTree_Map
begin

text \<open>
  The scheduler's invariant, in four parts: the shape of its maps (canonical, keys below the next
  identifier, sizes within the limits), its admissions (which states go with which leases and use
  counts), its books (every live lease of the ledger is held exactly once, every host byte
  reserved has an owner), and its references (permits, uses, loads and operations point at
  admissions that expect exactly that many).
\<close>

subsection \<open>What the records hold\<close>

fun lease_cap :: "admission_lease \<Rightarrow> lease_capability" where
  "lease_cap (Legacy l) = rl_lease l"
| "lease_cap (Native l h) = dbl_lease l"

fun lease_host :: "admission_lease \<Rightarrow> nat" where
  "lease_host (Legacy l) = 0"
| "lease_host (Native l h) = (case h of None \<Rightarrow> 0 | Some x \<Rightarrow> unat (bytes_of (hl_requested x)))"

definition host_bytes :: "host_lease option \<Rightarrow> nat" where
  "host_bytes h = (case h of None \<Rightarrow> 0 | Some x \<Rightarrow> unat (bytes_of (hl_requested x)))"

definition device_caps :: "device_byte_lease option \<Rightarrow> lease_capability multiset" where
  "device_caps d = (case d of None \<Rightarrow> {#} | Some x \<Rightarrow> {#dbl_lease x#})"

definition admission_caps :: "admission \<Rightarrow> lease_capability multiset" where
  "admission_caps a = {#lease_cap (adm_lease a)#}"

definition use_caps :: "native_use_record \<Rightarrow> lease_capability multiset" where
  "use_caps u = add_mset (dbl_lease (nu_mutable_device u)) (device_caps (nu_retained_device u))"

definition result_caps :: "native_result_record \<Rightarrow> lease_capability multiset" where
  "result_caps r = device_caps (nr_retained_device r)"

definition use_host :: "native_use_record \<Rightarrow> nat" where
  "use_host u = host_bytes (nu_mutable_host u) + host_bytes (nu_retained_host u)"

definition result_host :: "native_result_record \<Rightarrow> nat" where
  "result_host r = host_bytes (nr_retained_host r)"

text \<open>Every lease in the scheduler's custody, and every host byte it accounts for.\<close>

definition held :: "scheduler \<Rightarrow> lease_capability multiset" where
  "held s =
     bt_total admission_caps (sch_admissions s) + bt_total use_caps (sch_native_uses s)
       + bt_total use_caps (sch_native_quarantined_uses s)
       + bt_total result_caps (sch_native_results s)"

definition held_host :: "scheduler \<Rightarrow> nat" where
  "held_host s =
     bt_total (\<lambda>a. lease_host (adm_lease a)) (sch_admissions s)
       + bt_total use_host (sch_native_uses s)
       + bt_total use_host (sch_native_quarantined_uses s)
       + bt_total result_host (sch_native_results s)"

subsection \<open>Admissions\<close>

definition byte_lease_ok :: "device_byte_lease \<Rightarrow> bool" where
  "byte_lease_ok l \<longleftrightarrow> cap_reserved_bytes (dbl_lease l) = bytes_of (dbl_requested_bytes l)"

fun lease_ok :: "admission_lease \<Rightarrow> bool" where
  "lease_ok (Legacy l) \<longleftrightarrow>
     cap_device_id (rl_lease l) = adm_device_id (rl_placement l) \<and>
     cap_reserved_bytes (rl_lease l) = adm_total_estimated_bytes (rl_placement l)"
| "lease_ok (Native l h) \<longleftrightarrow> byte_lease_ok l"

fun is_legacy :: "admission_lease \<Rightarrow> bool" where
  "is_legacy (Legacy l) = True"
| "is_legacy (Native l h) = False"

text \<open>Which states go with which lease, number of uses and revocation.\<close>

fun state_ok :: "bool \<Rightarrow> bool \<Rightarrow> nat \<Rightarrow> admission_state \<Rightarrow> bool" where
  "state_ok revoked legacy uses Reserved \<longleftrightarrow> \<not> revoked \<and> legacy \<and> uses = 0"
| "state_ok revoked legacy uses Loading \<longleftrightarrow> \<not> revoked \<and> uses = 0"
| "state_ok revoked legacy uses (Resident h) \<longleftrightarrow> \<not> revoked \<and> uses = 0"
| "state_ok revoked legacy uses (InUse h) \<longleftrightarrow> \<not> revoked \<and> 0 < uses"
| "state_ok revoked legacy uses (Draining None False) \<longleftrightarrow> legacy \<and> uses = 0"
| "state_ok revoked legacy uses (Draining None True) \<longleftrightarrow> uses = 0"
| "state_ok revoked legacy uses (Draining (Some h) False) \<longleftrightarrow> True"
| "state_ok revoked legacy uses (Draining (Some h) True) \<longleftrightarrow> False"
| "state_ok revoked legacy uses (Evicting h) \<longleftrightarrow> uses = 0"
| "state_ok revoked legacy uses (Quarantined None) \<longleftrightarrow> uses = 0"
| "state_ok revoked legacy uses (Quarantined (Some h)) \<longleftrightarrow> (legacy \<longrightarrow> uses = 0)"

definition admission_ok :: "bool \<Rightarrow> admission \<Rightarrow> bool" where
  "admission_ok revoked a \<longleftrightarrow>
     lease_ok (adm_lease a) \<and>
     state_ok revoked (is_legacy (adm_lease a)) (adm_active_uses a) (adm_state a)"

definition use_ok :: "native_use_record \<Rightarrow> bool" where
  "use_ok u \<longleftrightarrow> byte_lease_ok (nu_mutable_device u) \<and>
     (case nu_retained_device u of None \<Rightarrow> True | Some l \<Rightarrow> byte_lease_ok l)"

definition result_ok :: "native_result_record \<Rightarrow> bool" where
  "result_ok r \<longleftrightarrow> (case nr_retained_device r of None \<Rightarrow> True | Some l \<Rightarrow> byte_lease_ok l)"

definition unique_handles :: "(u64, admission) btree \<Rightarrow> bool" where
  "unique_handles m \<longleftrightarrow>
     (\<forall>i j a b h. bt_get m i = Some a \<longrightarrow> bt_get m j = Some b \<longrightarrow>
        held_handle (adm_state a) = Some h \<longrightarrow> held_handle (adm_state b) = Some h \<longrightarrow> i = j)"

definition admissions_inv :: "scheduler \<Rightarrow> bool" where
  "admissions_inv s \<longleftrightarrow>
     (\<forall>i a. bt_get (sch_admissions s) i = Some a \<longrightarrow> admission_ok (sch_revoked s) a) \<and>
     unique_handles (sch_admissions s) \<and>
     (\<forall>i u. bt_get (sch_native_uses s) i = Some u \<longrightarrow> use_ok u) \<and>
     (\<forall>i u. bt_get (sch_native_quarantined_uses s) i = Some u \<longrightarrow> use_ok u) \<and>
     (\<forall>i r. bt_get (sch_native_results s) i = Some r \<longrightarrow> result_ok r)"

subsection \<open>Shape\<close>

definition pending :: "scheduler \<Rightarrow> nat" where
  "pending s = length (sch_operations s) + length (sch_native_loads s)"

definition custody_slots :: "scheduler \<Rightarrow> nat" where
  "custody_slots s = length (sch_permits s) + length (sch_native_uses s)
     + length (sch_native_quarantined_uses s) + length (sch_native_results s)"

definition within_limits :: "scheduler \<Rightarrow> bool" where
  "within_limits s \<longleftrightarrow>
     length (sch_admissions s) \<le> lim_admissions (sch_limits s) \<and>
     pending s \<le> lim_pending_operations (sch_limits s) \<and>
     custody_slots s \<le> lim_uses (sch_limits s)"

definition maps_wf :: "scheduler \<Rightarrow> bool" where
  "maps_wf s \<longleftrightarrow>
     bt_wf (sch_admissions s) \<and> bt_wf (sch_operations s) \<and> bt_wf (sch_permits s) \<and>
     bt_wf (sch_native_loads s) \<and> bt_wf (sch_native_uses s) \<and>
     bt_wf (sch_native_quarantined_uses s) \<and> bt_wf (sch_native_results s)"

definition ids_fresh :: "scheduler \<Rightarrow> bool" where
  "ids_fresh s \<longleftrightarrow>
     below (sch_admissions s) (sch_next_admission_id s) \<and>
     below (sch_operations s) (sch_next_operation_id s) \<and>
     below (sch_permits s) (sch_next_permit_id s) \<and>
     below (sch_native_loads s) (sch_next_native_load_id s) \<and>
     below (sch_native_uses s) (sch_next_native_use_id s) \<and>
     below (sch_native_quarantined_uses s) (sch_next_native_use_id s) \<and>
     below (sch_native_results s) (sch_next_native_result_id s) \<and>
     (\<forall>i. bt_get (sch_native_uses s) i = None \<or> bt_get (sch_native_quarantined_uses s) i = None)"

definition shape_inv :: "scheduler \<Rightarrow> bool" where
  "shape_inv s \<longleftrightarrow> maps_wf s \<and> ids_fresh s \<and> within_limits s"

subsection \<open>Books\<close>

definition books_inv :: "scheduler \<Rightarrow> bool" where
  "books_inv s \<longleftrightarrow>
     leases.custody (sch_ledger s) (held s) \<and>
     unat (host_reserved (sch_host s)) = held_host s \<and>
     host_reserved (sch_host s) \<le> env_bytes (host_envelope (sch_host s))"

subsection \<open>References\<close>

definition legacy_uses :: "admission \<Rightarrow> nat" where
  "legacy_uses a = (if is_legacy (adm_lease a) then adm_active_uses a else 0)"

definition native_uses :: "admission \<Rightarrow> nat" where
  "native_uses a = (if is_legacy (adm_lease a) then 0 else adm_active_uses a)"

definition native_loads :: "admission \<Rightarrow> nat" where
  "native_loads a = (if \<not> is_legacy (adm_lease a) \<and> loading_state (adm_state a) then 1 else 0)"

definition load_commands :: "admission \<Rightarrow> nat" where
  "load_commands a = (if is_legacy (adm_lease a) \<and> loading_state (adm_state a) then 1 else 0)"

definition evict_commands :: "admission \<Rightarrow> nat" where
  "evict_commands a = (case adm_state a of Evicting h \<Rightarrow> 1 | _ \<Rightarrow> 0)"

definition operation_target :: "operation_kind \<Rightarrow> pending_operation \<Rightarrow> u64 option" where
  "operation_target k p = (if po_kind p = k then Some (po_admission_id p) else None)"

definition use_target :: "native_use_record \<Rightarrow> u64 option" where
  "use_target u = Some (nu_admission_id u)"

definition references_inv :: "scheduler \<Rightarrow> bool" where
  "references_inv s \<longleftrightarrow>
     (\<forall>i. tally Some (sch_permits s) i = count_at legacy_uses (sch_admissions s) i) \<and>
     (\<forall>i. tally use_target (sch_native_uses s) i
           + tally use_target (sch_native_quarantined_uses s) i
         = count_at native_uses (sch_admissions s) i) \<and>
     (\<forall>i. tally Some (sch_native_loads s) i = count_at native_loads (sch_admissions s) i) \<and>
     (\<forall>i. tally (operation_target LoadOperation) (sch_operations s) i
         = count_at load_commands (sch_admissions s) i) \<and>
     (\<forall>i. tally (operation_target EvictOperation) (sch_operations s) i
         = count_at evict_commands (sch_admissions s) i)"

definition sched_inv :: "scheduler \<Rightarrow> bool" where
  "sched_inv s \<longleftrightarrow> shape_inv s \<and> admissions_inv s \<and> books_inv s \<and> references_inv s"

lemma sched_invD:
  assumes "sched_inv s"
  shows "shape_inv s" and "admissions_inv s" and "books_inv s" and "references_inv s"
    and "maps_wf s" and "ids_fresh s" and "within_limits s"
    and "ledger_inv (sch_ledger s)"
  using assms
  by (auto simp: sched_inv_def shape_inv_def books_inv_def dest: leases.custody_inv)

lemma maps_wfD:
  assumes "maps_wf s"
  shows "bt_wf (sch_admissions s)" "bt_wf (sch_operations s)" "bt_wf (sch_permits s)"
    "bt_wf (sch_native_loads s)" "bt_wf (sch_native_uses s)"
    "bt_wf (sch_native_quarantined_uses s)" "bt_wf (sch_native_results s)"
  using assms by (auto simp: maps_wf_def)

lemma admission_okD: "sched_inv s \<Longrightarrow> bt_get (sch_admissions s) i = Some a \<Longrightarrow> admission_ok (sch_revoked s) a"
  by (simp add: sched_inv_def admissions_inv_def)

subsection \<open>A fresh scheduler\<close>

lemma new_with_host_ledger_inv:
  assumes "valid_request grant"
    and "new_with_host_ledger cb lb grant limits host = Ok s" and "host_reserved host = 0"
  shows "sched_inv s" and "sch_brand s = cb" and "sch_generation s = 1" and "\<not> sch_revoked s"
    and "led_snapshot (sch_ledger s) = snapshot_from_request grant"
proof -
  from assms(2) obtain l where l: "ledger_new lb grant = Ok l"
    and s: "sch_ledger s = l" "sch_brand s = cb" "sch_generation s = 1" "\<not> sch_revoked s"
      "sch_admissions s = []" "sch_operations s = []" "sch_permits s = []"
      "sch_native_loads s = []" "sch_native_uses s = []" "sch_native_quarantined_uses s = []"
      "sch_native_results s = []" "sch_host s = host"
    by (auto simp: new_with_host_ledger_def INITIAL_IDENTIFIER_def)
  note L = ledger_new_inv [OF assms(1) l]
  show "sch_brand s = cb" "sch_generation s = 1" "\<not> sch_revoked s"
    "led_snapshot (sch_ledger s) = snapshot_from_request grant"
    using s L by simp_all
  have "leases.custody (sch_ledger s) {#}"
    using L s by (simp add: leases.custody_start)
  then have "books_inv s"
    using assms(3) by (simp add: books_inv_def held_def held_host_def s)
  moreover have "shape_inv s"
    by (simp add: shape_inv_def maps_wf_def ids_fresh_def within_limits_def pending_def
        custody_slots_def s)
  ultimately show "sched_inv s"
    by (simp add: sched_inv_def admissions_inv_def unique_handles_def references_inv_def s)
qed

end
