(* ===== verification/Sched_Admissions.thy ===== *)
theory Sched_Admissions
  imports Sched_Invariant
begin

text \<open>
  How an admission enters, changes and leaves the scheduler: the invariant under an update in
  place, under the release of an admission, and under the methods made of those two.
\<close>

named_theorems sched_simps \<open>definitions that compute the effect of an update on the invariant\<close>

lemmas [sched_simps] = legacy_uses_def native_uses_def native_loads_def load_commands_def
  evict_commands_def operation_target_def use_target_def admission_caps_def

subsection \<open>The shared checks\<close>

lemma ensure_iffs [simp]:
  "ensure_local s b k = Ok u \<longleftrightarrow> b = sch_brand s"
  "ensure_current s g = Ok u \<longleftrightarrow> g = sch_generation s"
  "ensure_not_revoked s = Ok u \<longleftrightarrow> \<not> sch_revoked s"
  "find_admission s i = Ok a \<longleftrightarrow> bt_get (sch_admissions s) i = Some a"
  "ensure_native_loading s i = Ok u \<longleftrightarrow>
     (\<exists>a. bt_get (sch_admissions s) i = Some a \<and> loading_state (adm_state a))"
  "ensure_completion_state s i kind = Ok u \<longleftrightarrow>
     (\<exists>a. bt_get (sch_admissions s) i = Some a \<and> completion_matches kind (adm_state a))"
  "ensure_admission_capacity s n = Ok u \<longleftrightarrow>
     length (sch_admissions s) + n \<le> lim_admissions (sch_limits s) \<and>
     length (sch_admissions s) + n < 2 ^ 64"
  "pending_operation_count s = Ok c \<longleftrightarrow> c = pending s \<and> pending s < 2 ^ 64"
  "ensure_pending_capacity s = Ok u \<longleftrightarrow>
     pending s < lim_pending_operations (sch_limits s) \<and> pending s < 2 ^ 64"
  "ensure_custody_capacity s = Ok u \<longleftrightarrow>
     custody_slots s < lim_uses (sch_limits s) \<and> custody_slots s < 2 ^ 64"
  "ensure_extended_host_owner s hb k = Ok u \<longleftrightarrow> (hb = None \<or> host_extended_owners (sch_host s))"
  by (auto simp: ensure_local_def ensure_current_def ensure_not_revoked_def find_admission_def
      ensure_native_loading_def ensure_completion_state_def ensure_admission_capacity_def
      pending_operation_count_def ensure_pending_capacity_def ensure_custody_capacity_def
      ensure_extended_host_owner_def usize_add_Some_iff bind_eq_Some_conv pending_def
      custody_slots_def)

lemma ensure_no_panic [simp]:
  "ensure_local s b k \<noteq> Panic" "ensure_current s g \<noteq> Panic" "ensure_not_revoked s \<noteq> Panic"
  "find_admission s i \<noteq> Panic" "ensure_native_loading s i \<noteq> Panic"
  "ensure_completion_state s i kind \<noteq> Panic" "ensure_admission_capacity s n \<noteq> Panic"
  "pending_operation_count s \<noteq> Panic" "ensure_pending_capacity s \<noteq> Panic"
  "ensure_custody_capacity s \<noteq> Panic" "ensure_extended_host_owner s o' k \<noteq> Panic"
  "next_host_reservation s rs \<noteq> Panic" "next_host_release s h \<noteq> Panic"
  by (auto simp: ensure_local_def ensure_current_def ensure_not_revoked_def find_admission_def
      ensure_native_loading_def ensure_completion_state_def ensure_admission_capacity_def
      pending_operation_count_def ensure_pending_capacity_def ensure_custody_capacity_def
      ensure_extended_host_owner_def next_host_reservation_def next_host_release_def
      and_then_Panic_iff)

lemma state_no_panic [simp]:
  "native_active_resident st \<noteq> Panic" "native_finished_state st n rv \<noteq> Panic"
  "finished_state st n rv \<noteq> Panic"
proof -
  show "native_active_resident st \<noteq> Panic" by (cases st) simp_all
  show "native_finished_state st n rv \<noteq> Panic"
    by (induction st n rv rule: native_finished_state.induct) simp_all
  show "finished_state st n rv \<noteq> Panic"
    by (induction st n rv rule: finished_state.induct) simp_all
qed

lemma next_host_release_Ok_iff [simp]:
  "next_host_release s h = Ok n \<longleftrightarrow> unat (host_reserved (sch_host s)) = unat n + host_bytes h"
  by (auto simp: next_host_release_def checked_sub_Some_iff host_bytes_def split: option.splits)

lemma sum_requested_Some_iff:
  "sum_requested acc rs = Some n \<longleftrightarrow>
     unat n = unat acc + (\<Sum>r\<leftarrow>rs. case r of None \<Rightarrow> 0 | Some b \<Rightarrow> unat (bytes_of b))"
proof (induction rs arbitrary: acc)
  case Nil
  then show ?case by (auto intro: unat_eqD)
next
  case (Cons r rs)
  show ?case
  proof
    assume "sum_requested acc (r # rs) = Some n"
    then show "unat n = unat acc + (\<Sum>r\<leftarrow>r # rs. case r of None \<Rightarrow> 0 | Some b \<Rightarrow> unat (bytes_of b))"
      by (auto simp: bind_eq_Some_conv Cons checked_add_Some_iff split: option.splits)
  next
    let ?b = "case r of None \<Rightarrow> 0 | Some b \<Rightarrow> bytes_of b"
    assume n: "unat n = unat acc + (\<Sum>r\<leftarrow>r # rs. case r of None \<Rightarrow> 0 | Some b \<Rightarrow> unat (bytes_of b))"
    have b: "unat ?b = (case r of None \<Rightarrow> 0 | Some b \<Rightarrow> unat (bytes_of b))"
      by (simp split: option.split)
    have "unat acc + unat ?b < 2 ^ 64"
      using n unat_u64_bound [of n] by (simp add: b del: unat_u64_bound)
    then obtain m :: u64 where m: "unat m = unat acc + unat ?b"
      using unat_represents by blast
    then have "checked_add acc ?b = Some m"
      by (simp add: checked_add_Some_iff)
    with n m show "sum_requested acc (r # rs) = Some n"
      by (simp add: Cons b)
  qed
qed

lemma next_host_reservation_Ok_iff [simp]:
  "next_host_reservation s rs = Ok n \<longleftrightarrow>
     unat n = unat (host_reserved (sch_host s))
       + (\<Sum>r\<leftarrow>rs. case r of None \<Rightarrow> 0 | Some b \<Rightarrow> unat (bytes_of b)) \<and>
     n \<le> env_bytes (host_envelope (sch_host s))"
  (is "_ \<longleftrightarrow> ?n = ?r + ?b \<and> _")
proof -
  show ?thesis
  proof
    assume "next_host_reservation s rs = Ok n"
    then show "?n = ?r + ?b \<and> n \<le> env_bytes (host_envelope (sch_host s))"
      by (auto simp: next_host_reservation_def sum_requested_Some_iff checked_add_Some_iff not_less
          split: if_splits)
  next
    assume n: "?n = ?r + ?b \<and> n \<le> env_bytes (host_envelope (sch_host s))"
    then have "?b < 2 ^ 64" using unat_u64_bound [of n] by (simp del: unat_u64_bound)
    then obtain m :: u64 where m: "unat m = ?b" using unat_represents by blast
    then have "sum_requested 0 rs = Some m"
      and "checked_add (host_reserved (sch_host s)) m = Some n"
      using n by (simp_all add: sum_requested_Some_iff checked_add_Some_iff)
    with n show "next_host_reservation s rs = Ok n"
      by (simp add: next_host_reservation_def not_less)
  qed
qed

subsection \<open>Updating an admission in place\<close>

lemma in_custody_iff:
  "bt_wf (sch_admissions s) \<Longrightarrow> resident_handle_in_custody s h \<longleftrightarrow>
     (\<exists>i a. bt_get (sch_admissions s) i = Some a \<and> held_handle (adm_state a) = Some h)"
  by (auto simp: resident_handle_in_custody_def list_ex_iff bt_get_Some_iff) 

lemma unique_handles_update:
  assumes "unique_handles m" and "bt_get m i = Some a"
    and "held_handle (adm_state a') = held_handle (adm_state a) \<or> held_handle (adm_state a') = None \<or>
      (\<forall>j b. bt_get m j = Some b \<longrightarrow> held_handle (adm_state b) \<noteq> held_handle (adm_state a'))"
  shows "unique_handles (bt_insert i a' m)"
  using assms unfolding unique_handles_def by (auto split: if_splits) metis+

text \<open>The part of the invariant an update in place keeps whatever else changes.\<close>

lemma update_inv:
  assumes inv: "sched_inv s" and a: "bt_get (sch_admissions s) i = Some a"
    and lease: "adm_lease a' = adm_lease a" and ok: "admission_ok (sch_revoked s) a'"
    and handle: "held_handle (adm_state a') = held_handle (adm_state a) \<or>
      held_handle (adm_state a') = None \<or>
      (\<exists>h. held_handle (adm_state a') = Some h \<and> \<not> resident_handle_in_custody s h)"
    and s': "sch_admissions s' = bt_insert i a' (sch_admissions s)" "sch_ledger s' = sch_ledger s"
      "sch_host s' = sch_host s" "sch_revoked s' = sch_revoked s"
      "sch_native_uses s' = sch_native_uses s"
      "sch_native_quarantined_uses s' = sch_native_quarantined_uses s"
      "sch_native_results s' = sch_native_results s"
  shows "admissions_inv s'" and "books_inv s'"
proof -
  note I = sched_invD [OF inv]
  note W = maps_wfD [OF I(5)]
  have "unique_handles (bt_insert i a' (sch_admissions s))"
    using I(2) a handle in_custody_iff [OF W(1)]
    by (intro unique_handles_update [OF _ a]) (auto simp: admissions_inv_def)
  then show "admissions_inv s'"
    using I(2) ok by (auto simp: admissions_inv_def s')
  show "books_inv s'"
    using I(3) a lease W(1)
    by (simp add: books_inv_def held_def held_host_def s' bt_total_update [OF W(1) a] admission_caps_def)
qed

lemma shape_update:
  assumes "shape_inv s" and "bt_get (sch_admissions s) i = Some a"
  shows "shape_inv (s\<lparr>sch_admissions := bt_insert i a' (sch_admissions s)\<rparr>)"
proof -
  have "length (bt_insert i a' (sch_admissions s)) = length (sch_admissions s)"
    using assms by (intro bt_length_insert_present) (auto simp: shape_inv_def maps_wf_def)
  then show ?thesis
    using assms
    by (auto simp: shape_inv_def maps_wf_def ids_fresh_def within_limits_def pending_def
        custody_slots_def intro: below_update)
qed

lemma shape_remove:
  assumes "shape_inv s"
  shows "shape_inv (s\<lparr>sch_operations := bt_remove v (sch_operations s)\<rparr>)"
    and "shape_inv (s\<lparr>sch_native_loads := bt_remove v (sch_native_loads s)\<rparr>)"
    and "shape_inv (s\<lparr>sch_permits := bt_remove v (sch_permits s)\<rparr>)"
    and "shape_inv (s\<lparr>sch_admissions := bt_remove v (sch_admissions s)\<rparr>)"
    and "shape_inv (s\<lparr>sch_native_results := bt_remove v (sch_native_results s)\<rparr>)"
  using assms bt_length_remove_le [of v "sch_operations s"]
    bt_length_remove_le [of v "sch_native_loads s"] bt_length_remove_le [of v "sch_permits s"]
    bt_length_remove_le [of v "sch_admissions s"] bt_length_remove_le [of v "sch_native_results s"]
  unfolding shape_inv_def maps_wf_def ids_fresh_def within_limits_def pending_def custody_slots_def
  by (simp_all add: below_remove)

lemma shape_other:
  assumes "shape_inv s"
  shows "shape_inv (s\<lparr>sch_ledger := l\<rparr>)" and "shape_inv (s\<lparr>sch_host := h\<rparr>)"
    and "shape_inv (s\<lparr>sch_next_drain_cursor := c\<rparr>)" and "shape_inv (s\<lparr>sch_revoked := r\<rparr>)"
    and "shape_inv (s\<lparr>sch_generation := g\<rparr>)"
  using assms
  by (simp_all add: shape_inv_def maps_wf_def ids_fresh_def within_limits_def pending_def
      custody_slots_def)

subsection \<open>Outcomes of commands and native loads\<close>

text \<open>An operation in flight: its admission is in the state the operation was issued for.\<close>

lemma operation_target_state:
  assumes "sched_inv s" and "bt_get (sch_operations s) v = Some p"
  shows "\<exists>a. bt_get (sch_admissions s) (po_admission_id p) = Some a \<and>
    (case po_kind p of LoadOperation \<Rightarrow> load_commands a = 1 | EvictOperation \<Rightarrow> evict_commands a = 1)"
proof -
  note I = sched_invD [OF assms(1)]
  have "0 < tally (operation_target (po_kind p)) (sch_operations s) (po_admission_id p)"
    by (rule tally_pos [OF maps_wfD(2) [OF I(5)] assms(2)]) (simp add: operation_target_def)
  then have "0 < count_at (case po_kind p of LoadOperation \<Rightarrow> load_commands
      | EvictOperation \<Rightarrow> evict_commands) (sch_admissions s) (po_admission_id p)"
    using I(4) by (cases "po_kind p") (simp_all add: references_inv_def)
  then obtain a where "bt_get (sch_admissions s) (po_admission_id p) = Some a"
    "0 < (case po_kind p of LoadOperation \<Rightarrow> load_commands | EvictOperation \<Rightarrow> evict_commands) a"
    by (auto dest!: count_at_pos)
  then show ?thesis
    by (cases "po_kind p") (auto simp: load_commands_def evict_commands_def split: if_splits admission_state.splits)
qed

lemma load_target_state:
  assumes "sched_inv s" and "bt_get (sch_native_loads s) v = Some i"
  shows "\<exists>a. bt_get (sch_admissions s) i = Some a \<and> native_loads a = 1"
proof -
  note I = sched_invD [OF assms(1)]
  have "0 < tally Some (sch_native_loads s) i"
    by (rule tally_pos [OF maps_wfD(4) [OF I(5)] assms(2)]) simp
  then have "0 < count_at native_loads (sch_admissions s) i"
    using I(4) by (simp add: references_inv_def)
  from count_at_pos [OF this] obtain a
    where "bt_get (sch_admissions s) i = Some a" "0 < native_loads a" by blast
  moreover from this have "native_loads a = 1" by (simp add: native_loads_def split: if_split_asm)
  ultimately show ?thesis by blast
qed

text \<open>The end of an operation whose admission stays.\<close>

lemma operation_done_update:
  assumes inv: "sched_inv s" and p: "bt_get (sch_operations s) v = Some p"
    and a: "bt_get (sch_admissions s) (po_admission_id p) = Some a"
    and a': "a' = a\<lparr>adm_state := state\<rparr>" and ok: "admission_ok (sch_revoked s) a'"
    and quiet: "\<not> loading_state state" "\<forall>h. state \<noteq> Evicting h"
    and handle: "held_handle state = held_handle (adm_state a) \<or> held_handle state = None \<or>
      (\<exists>h. held_handle state = Some h \<and> \<not> resident_handle_in_custody s h)"
    and s': "s' = s\<lparr>sch_admissions := bt_insert (po_admission_id p) a' (sch_admissions s),
        sch_operations := bt_remove v (sch_operations s), sch_next_drain_cursor := c\<rparr>"
  shows "sched_inv s'"
proof -
  note I = sched_invD [OF inv]
  note W = maps_wfD [OF I(5)]
  let ?i = "po_admission_id p"
  have "shape_inv s'"
    using shape_other(3) [OF shape_remove(1) [OF shape_update [OF I(1) a]], of c v a']
    by (simp add: s')
  moreover have "admissions_inv s'" "books_inv s'"
    using update_inv [OF inv a _ ok, of s'] handle by (simp_all add: a' s')
  moreover have "references_inv s'"
  proof -
    obtain b where "bt_get (sch_admissions s) ?i = Some b"
      and b: "case po_kind p of LoadOperation \<Rightarrow> load_commands b = 1 | EvictOperation \<Rightarrow> evict_commands b = 1"
      using operation_target_state [OF inv p] by blast
    with a have "b = a" by simp
    with b quiet show ?thesis
      using I(4) a
      by (cases "po_kind p") (auto simp: references_inv_def s' a' tally_remove [OF W(2) p] sched_simps
          count_at_present split: if_splits admission_state.splits)
  qed
  ultimately show ?thesis by (simp add: sched_inv_def)
qed

lemma load_done_update:
  assumes inv: "sched_inv s" and v: "bt_get (sch_native_loads s) v = Some i"
    and a: "bt_get (sch_admissions s) i = Some a"
    and a': "a' = a\<lparr>adm_state := state\<rparr>" and ok: "admission_ok (sch_revoked s) a'"
    and quiet: "\<not> loading_state state" "\<forall>h. state \<noteq> Evicting h"
    and handle: "held_handle state = held_handle (adm_state a) \<or> held_handle state = None \<or>
      (\<exists>h. held_handle state = Some h \<and> \<not> resident_handle_in_custody s h)"
    and s': "s' = s\<lparr>sch_admissions := bt_insert i a' (sch_admissions s),
        sch_native_loads := bt_remove v (sch_native_loads s)\<rparr>"
  shows "sched_inv s'"
proof -
  note I = sched_invD [OF inv]
  note W = maps_wfD [OF I(5)]
  have "shape_inv s'"
    using shape_remove(2) [OF shape_update [OF I(1) a], of v a'] by (simp add: s')
  moreover have "admissions_inv s'" "books_inv s'"
    using update_inv [OF inv a _ ok, of s'] handle by (simp_all add: a' s')
  moreover have "references_inv s'"
  proof -
    have b: "native_loads a = 1"
      using load_target_state [OF inv v] a by auto
    then have "loading_state (adm_state a)" "\<not> is_legacy (adm_lease a)"
      by (auto simp: native_loads_def split: if_splits)
    with quiet show ?thesis
      using I(4) a
      by (auto simp: references_inv_def s' a' tally_remove [OF W(4) v] sched_simps
          count_at_present split: if_splits admission_state.splits)
  qed
  ultimately show ?thesis by (simp add: sched_inv_def)
qed

subsection \<open>Releasing an admission\<close>

lemma release_admission_cases:
  assumes inv: "sched_inv s" and rel: "release_admission s i = (r, s')"
  shows "(\<exists>e. r = Err e \<and> s' = s) \<or>
    (\<exists>a ledger h. r = Ok () \<and> bt_get (sch_admissions s) i = Some a \<and>
       release_lease (sch_ledger s) (lease_cap (adm_lease a)) = (Ok (), ledger) \<and>
       unat (host_reserved (sch_host s)) = unat h + lease_host (adm_lease a) \<and>
       s' = s\<lparr>sch_admissions := bt_remove i (sch_admissions s), sch_ledger := ledger,
              sch_host := (sch_host s)\<lparr>host_reserved := h\<rparr>\<rparr>)"
proof (cases "bt_get (sch_admissions s) i")
  case None
  then show ?thesis using rel by (auto simp: release_admission_def)
next
  case (Some a)
  have wf: "bt_wf (sch_admissions s)"
    using maps_wfD(1) [OF sched_invD(5) [OF inv]] .
  have restore: "bt_insert i a (bt_remove i (sch_admissions s)) = sch_admissions s"
    using bt.put_del_restore [OF wf Some] .
  show ?thesis
  proof (cases "adm_lease a")
    case (Legacy l)
    then have same: "a\<lparr>adm_lease := Legacy l\<rparr> = a" by (cases a) simp
    obtain q l' where q: "ledger_release (sch_ledger s) l = (q, l')"
      by (cases "ledger_release (sch_ledger s) l")
    from ledger_release_cases [OF q] show ?thesis
    proof (elim disjE exE conjE)
      fix e assume e: "q = Err e" "l' = sch_ledger s" "snd e = l"
      obtain reason where "e = (reason, l)" using e(3) by (cases e) auto
      then have "(r, s') = (Err (Placement reason), s)"
        using rel Some Legacy q e restore by (simp add: release_admission_def same)
      then show ?thesis by simp
    next
      assume ok: "q = Ok ()" "release_lease (sch_ledger s) (rl_lease l) = (Ok (), l')"
      have "r = Ok ()" "s' = s\<lparr>sch_admissions := bt_remove i (sch_admissions s), sch_ledger := l'\<rparr>"
        using rel Some Legacy q ok by (simp_all add: release_admission_def)
      then show ?thesis
        using Some Legacy ok
        by (intro disjI2 exI [of _ a] exI [of _ l'] exI [of _ "host_reserved (sch_host s)"]) simp
    qed
  next
    case (Native l h)
    then have same: "a\<lparr>adm_lease := Native l h\<rparr> = a" by (cases a) simp
    show ?thesis
    proof (cases "next_host_release s h")
      case (Ok n)
      obtain q l' where q: "release_bytes (sch_ledger s) l = (q, l')"
        by (cases "release_bytes (sch_ledger s) l")
      from release_bytes_cases [OF q] show ?thesis
      proof (elim disjE exE conjE)
        fix e assume e: "q = Err e" "l' = sch_ledger s" "snd e = l"
        obtain reason where "e = (reason, l)" using e(3) by (cases e) auto
        then have "(r, s') = (Err (NativeDeviceBytes reason), s)"
          using rel Some Native q e restore Ok by (simp add: release_admission_def same)
        then show ?thesis by simp
      next
        assume ok: "q = Ok ()" "release_lease (sch_ledger s) (dbl_lease l) = (Ok (), l')"
        have "r = Ok ()" "s' = s\<lparr>sch_admissions := bt_remove i (sch_admissions s), sch_ledger := l',
            sch_host := (sch_host s)\<lparr>host_reserved := n\<rparr>\<rparr>"
          using rel Some Native q ok Ok by (simp_all add: release_admission_def)
        then show ?thesis
          using Some Native ok Ok
          by (intro disjI2 exI [of _ a] exI [of _ l'] exI [of _ n]) (simp add: host_bytes_def)
      qed
    next
      case (Err e)
      then have "(r, s') = (Err e, s)"
        using rel Some Native restore by (simp add: release_admission_def same)
      then show ?thesis by simp
    qed simp
  qed
qed

text \<open>The part of the invariant a release keeps whatever else changes.\<close>

lemma release_inv:
  assumes inv: "sched_inv s" and a: "bt_get (sch_admissions s) i = Some a"
    and rel: "release_lease (sch_ledger s) (lease_cap (adm_lease a)) = (Ok (), ledger)"
    and h: "unat (host_reserved (sch_host s)) = unat h + lease_host (adm_lease a)"
    and s': "sch_admissions s' = bt_remove i (sch_admissions s)" "sch_ledger s' = ledger"
      "sch_host s' = (sch_host s)\<lparr>host_reserved := h\<rparr>" "sch_revoked s' = sch_revoked s"
      "sch_native_uses s' = sch_native_uses s"
      "sch_native_quarantined_uses s' = sch_native_quarantined_uses s"
      "sch_native_results s' = sch_native_results s"
  shows "admissions_inv s'" and "books_inv s'"
proof -
  note I = sched_invD [OF inv]
  note W = maps_wfD [OF I(5)]
  have "unique_handles (bt_remove i (sch_admissions s))"
    using I(2) by (auto simp: admissions_inv_def unique_handles_def)
  then show "admissions_inv s'"
    using I(2) by (auto simp: admissions_inv_def s')
  have "bt_total admission_caps (sch_admissions s) =
      add_mset (lease_cap (adm_lease a)) (bt_total admission_caps (bt_remove i (sch_admissions s)))"
    using bt_total_remove [OF W(1) a, of admission_caps, symmetric] by (simp add: admission_caps_def)
  then have "held s = add_mset (lease_cap (adm_lease a)) (held s')"
    by (simp add: held_def s')
  moreover have "leases.custody (sch_ledger s) (held s)"
    using I(3) by (simp add: books_inv_def)
  ultimately have "leases.custody (sch_ledger s) (add_mset (lease_cap (adm_lease a)) (held s'))"
    by simp
  then have "leases.custody ledger (held s')"
    by (rule leases.custody_revoke) (simp add: lease_revokes_def rel)
  moreover have "held_host s = lease_host (adm_lease a) + held_host s'"
    using bt_total_remove [OF W(1) a, of "\<lambda>a. lease_host (adm_lease a)"]
    by (simp add: held_host_def s')
  moreover have "h \<le> host_reserved (sch_host s)"
    using h by (simp add: word_le_nat_alt)
  ultimately show "books_inv s'"
    using I(3) h by (auto simp: books_inv_def s')
qed

lemma operation_done_release:
  assumes inv: "sched_inv s" and p: "bt_get (sch_operations s) v = Some p"
    and rel: "release_admission s (po_admission_id p) = (Ok u, t)"
    and s': "s' = t\<lparr>sch_operations := bt_remove v (sch_operations t)\<rparr>"
  shows "sched_inv s'"
proof -
  note I = sched_invD [OF inv]
  note W = maps_wfD [OF I(5)]
  let ?i = "po_admission_id p"
  from release_admission_cases [OF inv rel] obtain a ledger h
    where a: "bt_get (sch_admissions s) ?i = Some a"
    and led: "release_lease (sch_ledger s) (lease_cap (adm_lease a)) = (Ok (), ledger)"
    and h: "unat (host_reserved (sch_host s)) = unat h + lease_host (adm_lease a)"
    and t: "t = s\<lparr>sch_admissions := bt_remove ?i (sch_admissions s), sch_ledger := ledger,
              sch_host := (sch_host s)\<lparr>host_reserved := h\<rparr>\<rparr>" by blast
  have "shape_inv s'"
    using shape_remove(1) [OF shape_other(2) [OF shape_other(1) [OF shape_remove(4) [OF I(1)]]]]
    by (simp add: s' t)
  moreover have "admissions_inv s'" "books_inv s'"
    using release_inv [OF inv a led h, of s'] by (simp_all add: s' t)
  moreover have "references_inv s'"
  proof -
    obtain b where "bt_get (sch_admissions s) ?i = Some b"
      and b: "case po_kind p of LoadOperation \<Rightarrow> load_commands b = 1 | EvictOperation \<Rightarrow> evict_commands b = 1"
      using operation_target_state [OF inv p] by blast
    with a have "b = a" by simp
    with b have "adm_active_uses a = 0"
      using admission_okD [OF inv a]
      by (cases "po_kind p"; cases "adm_state a" rule: loading_state.cases)
        (auto simp: admission_ok_def load_commands_def evict_commands_def split: if_splits)
    with b \<open>b = a\<close> show ?thesis
      using I(4) a
      by (cases "po_kind p") (auto simp: references_inv_def s' t tally_remove [OF W(2) p] sched_simps
          count_at_present split: if_splits admission_state.splits)
  qed
  ultimately show ?thesis by (simp add: sched_inv_def)
qed

lemma load_done_release:
  assumes inv: "sched_inv s" and v: "bt_get (sch_native_loads s) v = Some i"
    and rel: "release_admission s i = (Ok u, t)"
    and s': "s' = t\<lparr>sch_native_loads := bt_remove v (sch_native_loads t)\<rparr>"
  shows "sched_inv s'"
proof -
  note I = sched_invD [OF inv]
  note W = maps_wfD [OF I(5)]
  from release_admission_cases [OF inv rel] obtain a ledger h
    where a: "bt_get (sch_admissions s) i = Some a"
    and led: "release_lease (sch_ledger s) (lease_cap (adm_lease a)) = (Ok (), ledger)"
    and h: "unat (host_reserved (sch_host s)) = unat h + lease_host (adm_lease a)"
    and t: "t = s\<lparr>sch_admissions := bt_remove i (sch_admissions s), sch_ledger := ledger,
              sch_host := (sch_host s)\<lparr>host_reserved := h\<rparr>\<rparr>" by blast
  have "shape_inv s'"
    using shape_remove(2) [OF shape_other(2) [OF shape_other(1) [OF shape_remove(4) [OF I(1)]]]]
    by (simp add: s' t)
  moreover have "admissions_inv s'" "books_inv s'"
    using release_inv [OF inv a led h, of s'] by (simp_all add: s' t)
  moreover have "references_inv s'"
  proof -
    have "native_loads a = 1"
      using load_target_state [OF inv v] a by auto
    then have l: "loading_state (adm_state a)" "\<not> is_legacy (adm_lease a)"
      by (auto simp: native_loads_def split: if_splits)
    then have "adm_active_uses a = 0"
      using admission_okD [OF inv a]
      by (cases "adm_state a" rule: loading_state.cases) (auto simp: admission_ok_def)
    with l show ?thesis
      using I(4) a
      by (auto simp: references_inv_def s' t tally_remove [OF W(4) v] sched_simps
          count_at_present split: if_splits admission_state.splits)
  qed
  ultimately show ?thesis by (simp add: sched_inv_def)
qed

text \<open>An admission that drains without a resident has no reference left.\<close>

lemma local_release_inv:
  assumes inv: "sched_inv s" and a: "bt_get (sch_admissions s) i = Some a"
    and st: "adm_state a = Draining None False"
    and rel: "release_admission s i = (Ok u, s')"
  shows "sched_inv s'"
proof -
  note I = sched_invD [OF inv]
  from release_admission_cases [OF inv rel] a obtain ledger h
    where led: "release_lease (sch_ledger s) (lease_cap (adm_lease a)) = (Ok (), ledger)"
    and h: "unat (host_reserved (sch_host s)) = unat h + lease_host (adm_lease a)"
    and s': "s' = s\<lparr>sch_admissions := bt_remove i (sch_admissions s), sch_ledger := ledger,
              sch_host := (sch_host s)\<lparr>host_reserved := h\<rparr>\<rparr>" by auto
  have "shape_inv s'"
    using shape_other(2) [OF shape_other(1) [OF shape_remove(4) [OF I(1)]]] by (simp add: s')
  moreover have "admissions_inv s'" "books_inv s'"
    using release_inv [OF inv a led h, of s'] by (simp_all add: s')
  moreover have "references_inv s'"
    using I(4) a st admission_okD [OF inv a]
    by (auto simp: references_inv_def s' sched_simps count_at_present admission_ok_def)
  ultimately show ?thesis by (simp add: sched_inv_def)
qed

end
