(* ===== verification/Sched_Preservation.thy ===== *)
theory Sched_Preservation
  imports Sched_Admissions
begin

text \<open>
  Every method of the scheduler that succeeds keeps the invariant, method by method.
\<close>

subsection \<open>Acknowledgements\<close>

lemma complete_load_Ok_iff:
  "complete_load s i h = (Ok u, t) \<longleftrightarrow> \<not> resident_handle_in_custody s h \<and>
     (\<exists>a. bt_get (sch_admissions s) i = Some a \<and>
        t = set_state s i a (if sch_revoked s \<or> adm_state a = Draining None True
              then Draining (Some h) False else Resident h))"
  by (cases "bt_get (sch_admissions s) i"; cases "resident_handle_in_custody s h")
    (simp_all add: complete_load_def Let_def eq_commute [of t])

lemma quarantine_admission_Ok_iff:
  "quarantine_admission s i = (Ok u, t) \<longleftrightarrow>
     (\<exists>a. bt_get (sch_admissions s) i = Some a \<and>
        ((\<exists>h. adm_state a = Evicting h \<and> t = set_state s i a (Quarantined (Some h))) \<or>
         (loading_state (adm_state a) \<and> t = set_state s i a (Quarantined None))))"
  by (cases "bt_get (sch_admissions s) i";
      cases "adm_state (the (bt_get (sch_admissions s) i))" rule: loading_state.cases)
    (auto simp: quarantine_admission_def split: option.splits bool.splits)

lemma evict_failed_Ok_iff:
  "evict_failed s i = (Ok u, t) \<longleftrightarrow>
     (\<exists>a h. bt_get (sch_admissions s) i = Some a \<and> adm_state a = Evicting h \<and>
        t = (set_state s i a (Draining (Some h) False))\<lparr>sch_next_drain_cursor :=
              (case checked_add i 1 of Some n \<Rightarrow> n | None \<Rightarrow> INITIAL_IDENTIFIER)\<rparr>)"
  by (cases "bt_get (sch_admissions s) i";
      cases "adm_state (the (bt_get (sch_admissions s) i))") (auto simp: evict_failed_def)

lemma completion_matches_iff:
  "completion_matches k st \<longleftrightarrow>
     (case k of LoadOperation \<Rightarrow> loading_state st | EvictOperation \<Rightarrow> (\<exists>h. st = Evicting h))"
  by (cases k; cases st) simp_all

text \<open>What the states of an admission allow it to become.\<close>

lemma loading_admission:
  assumes "admission_ok rv a" and "loading_state (adm_state a)"
  shows "adm_active_uses a = 0" and "held_handle (adm_state a) = None"
    and "adm_state a = Loading \<Longrightarrow> \<not> rv"
  using assms by (auto simp: admission_ok_def elim!: loading_state.elims)

lemma cursor_idle: "t = s\<lparr>sch_admissions := m, sch_operations := n\<rparr> \<Longrightarrow>
    t = s\<lparr>sch_admissions := m, sch_operations := n, sch_next_drain_cursor := sch_next_drain_cursor s\<rparr>"
  by (cases s) simp

lemma complete_inv:
  assumes inv: "sched_inv s" and ok: "complete s c = (Ok u, s')"
  shows "sched_inv s'"
proof -
  let ?v = "op_value (completion_operation c)"
  obtain p t where p: "bt_get (sch_operations s) ?v = Some p" "po_kind p = completion_kind c"
    and match: "\<exists>a. bt_get (sch_admissions s) (po_admission_id p) = Some a \<and>
        completion_matches (po_kind p) (adm_state a)"
    and t: "apply_completion s (po_admission_id p) c = (Ok (), t)"
    and s': "s' = t\<lparr>sch_operations := bt_remove ?v (sch_operations t)\<rparr>"
    using ok by (auto simp: complete_def Let_def)
  from match obtain a where a: "bt_get (sch_admissions s) (po_admission_id p) = Some a"
    and m: "completion_matches (po_kind p) (adm_state a)" by blast
  note A = admission_okD [OF inv a]
  show ?thesis
  proof (cases c)
    case (Loaded op h)
    then have load: "loading_state (adm_state a)" using p m by (simp add: completion_matches_iff)
    define st where "st = (if sch_revoked s \<or> adm_state a = Draining None True
        then Draining (Some h) False else Resident h)"
    have t': "t = set_state s (po_admission_id p) a st" "\<not> resident_handle_in_custody s h"
      using t a Loaded by (auto simp: complete_load_Ok_iff st_def)
    show ?thesis
    proof (rule operation_done_update [OF inv p(1) a refl, of st])
      show "admission_ok (sch_revoked s) (a\<lparr>adm_state := st\<rparr>)"
        using A loading_admission [OF A load] by (auto simp: st_def admission_ok_def)
      show "s' = s\<lparr>sch_admissions := bt_insert (po_admission_id p) (a\<lparr>adm_state := st\<rparr>) (sch_admissions s),
          sch_operations := bt_remove ?v (sch_operations s),
          sch_next_drain_cursor := sch_next_drain_cursor s\<rparr>"
        by (rule cursor_idle) (simp add: s' t' set_state_def)
    qed (use t' in \<open>auto simp: st_def\<close>)
  next
    case (LoadFailed op)
    with t s' show ?thesis using operation_done_release [OF inv p(1)] by simp
  next
    case (Evicted op)
    with t s' show ?thesis using operation_done_release [OF inv p(1)] by simp
  next
    case (EvictFailed op)
    then obtain h where st: "adm_state a = Evicting h"
      using p m by (auto simp: completion_matches_iff)
    let ?n = "case checked_add (po_admission_id p) 1 of Some n \<Rightarrow> n | None \<Rightarrow> INITIAL_IDENTIFIER"
    show ?thesis
    proof (rule operation_done_update [OF inv p(1) a refl, of "Draining (Some h) False"])
      show "s' = s\<lparr>sch_admissions := bt_insert (po_admission_id p)
            (a\<lparr>adm_state := Draining (Some h) False\<rparr>) (sch_admissions s),
          sch_operations := bt_remove ?v (sch_operations s), sch_next_drain_cursor := ?n\<rparr>"
        using t a st EvictFailed by (cases s) (auto simp: evict_failed_Ok_iff s' set_state_def)
    qed (use A st in \<open>auto simp: admission_ok_def\<close>)
  next
    case (LoadQuarantined op)
    then have load: "loading_state (adm_state a)" using p m by (simp add: completion_matches_iff)
    then have t': "t = set_state s (po_admission_id p) a (Quarantined None)"
      using t a LoadQuarantined by (auto simp: quarantine_admission_Ok_iff)
    show ?thesis
    proof (rule operation_done_update [OF inv p(1) a refl, of "Quarantined None"])
      show "s' = s\<lparr>sch_admissions := bt_insert (po_admission_id p)
            (a\<lparr>adm_state := Quarantined None\<rparr>) (sch_admissions s),
          sch_operations := bt_remove ?v (sch_operations s),
          sch_next_drain_cursor := sch_next_drain_cursor s\<rparr>"
        by (rule cursor_idle) (simp add: s' t' set_state_def)
    qed (use A loading_admission [OF A load] in \<open>auto simp: admission_ok_def\<close>)
  next
    case (EvictionQuarantined op)
    then obtain h where st: "adm_state a = Evicting h"
      using p m by (auto simp: completion_matches_iff)
    then have t': "t = set_state s (po_admission_id p) a (Quarantined (Some h))"
      using t a EvictionQuarantined by (auto simp: quarantine_admission_Ok_iff)
    show ?thesis
    proof (rule operation_done_update [OF inv p(1) a refl, of "Quarantined (Some h)"])
      show "s' = s\<lparr>sch_admissions := bt_insert (po_admission_id p)
            (a\<lparr>adm_state := Quarantined (Some h)\<rparr>) (sch_admissions s),
          sch_operations := bt_remove ?v (sch_operations s),
          sch_next_drain_cursor := sch_next_drain_cursor s\<rparr>"
        by (rule cursor_idle) (simp add: s' t' set_state_def)
    qed (use A st in \<open>auto simp: admission_ok_def\<close>)
  qed
qed

subsection \<open>Outcomes of native loads\<close>

lemma native_load_outcome_Ok:
  assumes inv: "sched_inv s" and ok: "native_load_outcome s permit act = (Ok u, s')"
  obtains i a t where "bt_get (sch_native_loads s) (nlp_value permit) = Some i"
    and "bt_get (sch_admissions s) i = Some a" and "loading_state (adm_state a)"
    and "adm_active_uses a = 0" and "act i = (Ok (), t)"
    and "s' = t\<lparr>sch_native_loads := bt_remove (nlp_value permit) (sch_native_loads t)\<rparr>"
proof -
  obtain i t a where i: "bt_get (sch_native_loads s) (nlp_value permit) = Some i"
    and a: "bt_get (sch_admissions s) i = Some a" "loading_state (adm_state a)"
    and t: "act i = (Ok (), t)"
      "s' = t\<lparr>sch_native_loads := bt_remove (nlp_value permit) (sch_native_loads t)\<rparr>"
    using ok by (auto simp: native_load_outcome_def)
  then show ?thesis
    using that loading_admission(1) [OF admission_okD [OF inv a(1)] a(2)] by blast
qed

lemma complete_native_load_inv:
  assumes inv: "sched_inv s" and ok: "complete_native_load s permit h = (Ok u, s')"
  shows "sched_inv s'"
proof -
  from ok obtain i a t where i: "bt_get (sch_native_loads s) (nlp_value permit) = Some i"
    and a: "bt_get (sch_admissions s) i = Some a" "loading_state (adm_state a)"
    and t: "complete_load s i h = (Ok (), t)"
    and s': "s' = t\<lparr>sch_native_loads := bt_remove (nlp_value permit) (sch_native_loads t)\<rparr>"
    unfolding complete_native_load_def by (rule native_load_outcome_Ok [OF inv])
  note A = admission_okD [OF inv a(1)]
  define st where "st = (if sch_revoked s \<or> adm_state a = Draining None True
      then Draining (Some h) False else Resident h)"
  have t': "t = set_state s i a st" "\<not> resident_handle_in_custody s h"
    using t a by (auto simp: complete_load_Ok_iff st_def)
  show ?thesis
  proof (rule load_done_update [OF inv i a(1) refl, of st])
    show "admission_ok (sch_revoked s) (a\<lparr>adm_state := st\<rparr>)"
      using A loading_admission [OF A a(2)] by (auto simp: st_def admission_ok_def)
  qed (use t' in \<open>auto simp: st_def s' set_state_def\<close>)
qed

lemma native_load_released_inv:
  assumes inv: "sched_inv s" and ok: "native_load_released s permit = (Ok u, s')"
  shows "sched_inv s'"
  using ok unfolding native_load_released_def
  by (rule native_load_outcome_Ok [OF inv]) (rule load_done_release [OF inv])

lemma quarantine_native_load_inv:
  assumes inv: "sched_inv s" and ok: "quarantine_native_load s permit = (Ok u, s')"
  shows "sched_inv s'"
proof -
  from ok obtain i a t where i: "bt_get (sch_native_loads s) (nlp_value permit) = Some i"
    and a: "bt_get (sch_admissions s) i = Some a" "loading_state (adm_state a)"
    and t: "quarantine_admission s i = (Ok (), t)"
    and s': "s' = t\<lparr>sch_native_loads := bt_remove (nlp_value permit) (sch_native_loads t)\<rparr>"
    unfolding quarantine_native_load_def by (rule native_load_outcome_Ok [OF inv])
  note A = admission_okD [OF inv a(1)]
  have t': "t = set_state s i a (Quarantined None)"
    using t a by (auto simp: quarantine_admission_Ok_iff)
  show ?thesis
    by (rule load_done_update [OF inv i a(1) refl, of "Quarantined None"])
      (use A t' loading_admission [OF A a(2)] in \<open>auto simp: s' set_state_def admission_ok_def\<close>)
qed

subsection \<open>Commands\<close>

lemma evictable_iff: "evictable a \<longleftrightarrow> (\<exists>h. adm_state a = Draining (Some h) False) \<and> adm_active_uses a = 0"
  by (auto split: admission_state.splits option.splits bool.splits)

declare evictable.simps [simp del]

lemma next_local_release_Some:
  "bt_wf (sch_admissions s) \<Longrightarrow> next_local_release s = Some i \<Longrightarrow>
     \<exists>a. bt_get (sch_admissions s) i = Some a \<and> adm_state a = Draining None False"
  by (auto simp: next_local_release_def dest!: find_entry_Some)

lemma next_local_release_None:
  "bt_wf (sch_admissions s) \<Longrightarrow> next_local_release s = None \<Longrightarrow>
     bt_get (sch_admissions s) i = Some a \<Longrightarrow> adm_state a \<noteq> Draining None False"
  by (auto simp: next_local_release_def dest: find_entry_None)

lemma next_eviction_Some:
  assumes "bt_wf (sch_admissions s)" and "next_eviction_from s n = Some (i, k)"
  shows "k = EvictOperation \<and> n \<le> i \<and> (\<exists>a. bt_get (sch_admissions s) i = Some a \<and> evictable a)"
proof -
  obtain a where "List.find (\<lambda>(i, a). evictable a) (bt_from n (sch_admissions s)) = Some (i, a)"
    and "k = EvictOperation"
    using assms(2) by (auto simp: next_eviction_from_def)
  then show ?thesis
    using find_entry_Some [OF bt_wf_from [OF assms(1)]] by (fastforce simp: bt_get_from split: if_splits)
qed

lemma next_eviction_None:
  assumes "bt_wf (sch_admissions s)" and "next_eviction_from s n = None"
    and "bt_get (sch_admissions s) i = Some a" and "n \<le> i"
  shows "\<not> evictable a"
  using assms by (auto simp: next_eviction_from_def bt_get_from dest: find_entry_None [of _ _ i a])

lemma next_command_Some:
  assumes "bt_wf (sch_admissions s)" and "next_command s = Some (i, k)"
  shows "\<exists>a. bt_get (sch_admissions s) i = Some a \<and>
    (case k of
       LoadOperation \<Rightarrow> adm_state a = Reserved \<and> \<not> sch_revoked s \<and> adm_active_uses a = 0
     | EvictOperation \<Rightarrow> evictable a)"
proof (cases "List.find (\<lambda>(i, a). adm_state a = Reserved \<and> \<not> sch_revoked s \<and> adm_active_uses a = 0)
    (sch_admissions s)")
  case (Some e)
  then show ?thesis
    using assms find_entry_Some [OF assms(1) Some]
    by (auto simp: next_command_def split: prod.splits)
next
  case None
  then show ?thesis
    using assms next_eviction_Some [OF assms(1)]
    by (fastforce simp: next_command_def split: option.splits)
qed

text \<open>The start of an operation: the admission moves to the state the operation is issued for.\<close>

lemma operation_issue_update:
  assumes inv: "sched_inv s" and a: "bt_get (sch_admissions s) i = Some a"
    and ok: "admission_ok (sch_revoked s) (a\<lparr>adm_state := state\<rparr>)"
    and before: "\<not> loading_state (adm_state a)" "\<forall>h. adm_state a \<noteq> Evicting h"
    and after: "case k of LoadOperation \<Rightarrow> state = Loading \<and> is_legacy (adm_lease a)
      | EvictOperation \<Rightarrow> \<exists>h. state = Evicting h"
    and handle: "held_handle state = held_handle (adm_state a)"
    and room: "pending s < lim_pending_operations (sch_limits s)"
    and n: "checked_add (sch_next_operation_id s) 1 = Some n"
  shows "sched_inv ((set_state s i a state)\<lparr>
    sch_operations := bt_insert (sch_next_operation_id s) \<lparr>po_admission_id = i, po_kind = k\<rparr>
      (sch_operations s), sch_next_operation_id := n\<rparr>)" (is "sched_inv ?s'")
proof -
  note I = sched_invD [OF inv]
  note W = maps_wfD [OF I(5)]
  let ?a = "a\<lparr>adm_state := state\<rparr>"
  have fresh: "bt_get (sch_operations s) (sch_next_operation_id s) = None"
    using I(6) by (auto simp: ids_fresh_def intro: below_fresh)
  have less: "sch_next_operation_id s < n"
    using n by (rule checked_succ_less)
  have "shape_inv ?s'"
    using shape_update [OF I(1) a, of ?a] room less bt_length_insert_fresh [OF fresh]
    by (auto simp: shape_inv_def set_state_def maps_wf_def ids_fresh_def within_limits_def
        pending_def custody_slots_def intro: below_insert)
  moreover have "admissions_inv ?s'" "books_inv ?s'"
    using update_inv [OF inv a _ ok, of ?s'] handle by (simp_all add: set_state_def)
  moreover have "references_inv ?s'"
    using I(4) a before after
    by (cases k) (auto simp: references_inv_def set_state_def tally_insert_fresh [OF fresh]
        sched_simps count_at_present split: if_splits admission_state.splits)
  ultimately show ?thesis by (simp add: sched_inv_def)
qed

text \<open>What a poll that succeeds did.\<close>

lemma poll_command_Ok:
  assumes inv: "sched_inv s" and ok: "poll_command s = (Ok r, s')"
  obtains (release) i a where "r = Progressed" "next_local_release s = Some i"
      "bt_get (sch_admissions s) i = Some a"
      "adm_state a = Draining None False" "release_admission s i = (Ok (), s')"
  | (limit) "r = PendingLimit" "s' = s" "next_local_release s = None"
      "lim_pending_operations (sch_limits s) \<le> pending s"
  | (idle) "r = Idle" "s' = s" "next_local_release s = None" "next_command s = None"
      "pending s < lim_pending_operations (sch_limits s)"
  | (load) i a l n where "next_local_release s = None" "next_command s = Some (i, LoadOperation)"
      "pending s < lim_pending_operations (sch_limits s)"
      "bt_get (sch_admissions s) i = Some a" "adm_state a = Reserved" "adm_active_uses a = 0"
      "\<not> sch_revoked s" "adm_lease a = Legacy l" "checked_add (sch_next_operation_id s) 1 = Some n"
      "r = Command \<lparr>cmd_operation = \<lparr>op_brand = sch_brand s, op_value = sch_next_operation_id s\<rparr>,
         cmd_kind = Load (adm_profile_id (rl_placement l)) (adm_artifact_id (rl_placement l))
           (adm_digest (rl_placement l)) (adm_device_id (rl_placement l))
           (adm_total_estimated_bytes (rl_placement l))\<rparr>"
      "s' = (set_state s i a Loading)\<lparr>sch_operations := bt_insert (sch_next_operation_id s)
         \<lparr>po_admission_id = i, po_kind = LoadOperation\<rparr> (sch_operations s),
         sch_next_operation_id := n\<rparr>"
  | (evict) i a h n where "next_local_release s = None" "next_command s = Some (i, EvictOperation)"
      "pending s < lim_pending_operations (sch_limits s)"
      "bt_get (sch_admissions s) i = Some a" "adm_state a = Draining (Some h) False"
      "adm_active_uses a = 0" "checked_add (sch_next_operation_id s) 1 = Some n"
      "r = Command \<lparr>cmd_operation = \<lparr>op_brand = sch_brand s, op_value = sch_next_operation_id s\<rparr>,
         cmd_kind = Evict h\<rparr>"
      "s' = (set_state s i a (Evicting h))\<lparr>sch_operations := bt_insert (sch_next_operation_id s)
         \<lparr>po_admission_id = i, po_kind = EvictOperation\<rparr> (sch_operations s),
         sch_next_operation_id := n\<rparr>"
proof -
  note I = sched_invD [OF inv]
  note W = maps_wfD [OF I(5)]
  show ?thesis
  proof (cases "next_local_release s")
    case (Some i)
    then show ?thesis
      using ok next_local_release_Some [OF W(1) Some] that(1) by (auto simp: poll_command_def)
  next
    case None
    note none = None
    show ?thesis
    proof (cases "lim_pending_operations (sch_limits s) \<le> pending s")
      case True
      then show ?thesis using ok None that(2) by (auto simp: poll_command_def)
    next
      case False
      note room = False
      show ?thesis
      proof (cases "next_command s")
        case None
        then show ?thesis using ok none room that(3) by (auto simp: poll_command_def not_le)
      next
        case (Some c)
        obtain i k where c: "c = (i, k)" by (cases c)
        from next_command_Some [OF W(1) Some [unfolded c]]
        obtain a where a: "bt_get (sch_admissions s) i = Some a"
          and k: "case k of LoadOperation \<Rightarrow> adm_state a = Reserved \<and> \<not> sch_revoked s \<and> adm_active_uses a = 0
            | EvictOperation \<Rightarrow> evictable a" by blast
        have issue: "\<exists>n cmd t. checked_add (sch_next_operation_id s) 1 = Some n \<and>
            issue_command s i a k = (Ok cmd, t) \<and>
            r = Command \<lparr>cmd_operation = \<lparr>op_brand = sch_brand s, op_value = sch_next_operation_id s\<rparr>,
              cmd_kind = cmd\<rparr> \<and>
            s' = t\<lparr>sch_operations := bt_insert (sch_next_operation_id s)
                \<lparr>po_admission_id = i, po_kind = k\<rparr> (sch_operations t), sch_next_operation_id := n\<rparr>"
          using ok none room Some c a by (auto simp: poll_command_def)
        show ?thesis
        proof (cases k)
          case LoadOperation
          then have st: "adm_state a = Reserved" "\<not> sch_revoked s" "adm_active_uses a = 0"
            using k by auto
          then obtain l where l: "adm_lease a = Legacy l"
            using admission_okD [OF inv a] by (cases "adm_lease a") (auto simp: admission_ok_def)
          then show ?thesis
            using issue that(4) [of i a l] none Some c room a st LoadOperation
            by (auto simp: issue_command_def set_state_def not_le)
        next
          case EvictOperation
          then obtain h where "adm_state a = Draining (Some h) False" "adm_active_uses a = 0"
            using k by (auto simp: evictable_iff)
          then show ?thesis
            using issue that(5) [of i a h] none Some c room a EvictOperation
            by (auto simp: issue_command_def set_state_def not_le)
        qed
      qed
    qed
  qed
qed

lemma poll_command_inv:
  assumes inv: "sched_inv s" and ok: "poll_command s = (Ok r, s')"
  shows "sched_inv s'"
  using ok
proof (rule poll_command_Ok [OF inv])
  fix i a l n
  assume "bt_get (sch_admissions s) i = Some a" "adm_state a = Reserved" "adm_active_uses a = 0"
    "\<not> sch_revoked s" "adm_lease a = Legacy l" "checked_add (sch_next_operation_id s) 1 = Some n"
    "pending s < lim_pending_operations (sch_limits s)"
    "s' = (set_state s i a Loading)\<lparr>sch_operations := bt_insert (sch_next_operation_id s)
       \<lparr>po_admission_id = i, po_kind = LoadOperation\<rparr> (sch_operations s),
       sch_next_operation_id := n\<rparr>"
  then show ?thesis
    using operation_issue_update [OF inv, of i a Loading LoadOperation n] admission_okD [OF inv, of i a]
    by (simp add: admission_ok_def)
next
  fix i a h n
  assume "bt_get (sch_admissions s) i = Some a" "adm_state a = Draining (Some h) False"
    "adm_active_uses a = 0" "checked_add (sch_next_operation_id s) 1 = Some n"
    "pending s < lim_pending_operations (sch_limits s)"
    "s' = (set_state s i a (Evicting h))\<lparr>sch_operations := bt_insert (sch_next_operation_id s)
       \<lparr>po_admission_id = i, po_kind = EvictOperation\<rparr> (sch_operations s),
       sch_next_operation_id := n\<rparr>"
  then show ?thesis
    using operation_issue_update [OF inv, of i a "Evicting h" EvictOperation n] admission_okD [OF inv, of i a]
    by (simp add: admission_ok_def)
qed (auto intro: inv local_release_inv [OF inv])

subsection \<open>Revocation, retirement and replacement\<close>

lemma draining_simps [simp]:
  "adm_lease (transition_to_draining a) = adm_lease a"
  "adm_active_uses (transition_to_draining a) = adm_active_uses a"
  "loading_state (draining_state st) = loading_state st"
  "held_handle (draining_state st) = held_handle st"
  "adm_state (transition_to_draining a) = draining_state (adm_state a)"
  "admission_caps (transition_to_draining a) = admission_caps a"
  "evict_commands (transition_to_draining a) = evict_commands a"
proof -
  show "loading_state (draining_state st) = loading_state st"
    by (cases st rule: draining_state.cases) auto
  show "held_handle (draining_state st) = held_handle st"
    by (cases st rule: draining_state.cases) auto
  show "evict_commands (transition_to_draining a) = evict_commands a"
    by (cases "adm_state a" rule: draining_state.cases)
      (auto simp: evict_commands_def transition_to_draining_def)
qed (simp_all add: transition_to_draining_def admission_caps_def)

lemma draining_ok: "admission_ok rv a \<Longrightarrow> admission_ok rv' (transition_to_draining a)"
  by (cases "adm_state a" rule: draining_state.cases)
    (auto simp: admission_ok_def transition_to_draining_def elim: state_ok.elims)

lemma sched_revoke_Ok_iff:
  "sched_revoke s g = (Ok u, s') \<longleftrightarrow> gg_brand g = sch_brand s \<and> gg_value g = sch_generation s \<and>
     s' = (if sch_revoked s then s else s\<lparr>sch_revoked := True,
       sch_admissions := bt_map_values transition_to_draining (sch_admissions s)\<rparr>)"
  by (auto simp: sched_revoke_def)

lemma sched_revoke_inv:
  assumes inv: "sched_inv s" and ok: "sched_revoke s g = (Ok u, s')"
  shows "sched_inv s'"
proof (cases "sch_revoked s")
  case True
  then show ?thesis using inv ok by (simp add: sched_revoke_Ok_iff)
next
  case False
  then have s': "s' = s\<lparr>sch_revoked := True,
      sch_admissions := bt_map_values transition_to_draining (sch_admissions s)\<rparr>"
    using ok by (simp add: sched_revoke_Ok_iff)
  note I = sched_invD [OF inv]
  have "shape_inv s'"
    using I(1) by (simp add: shape_inv_def s' maps_wf_def ids_fresh_def within_limits_def
        pending_def custody_slots_def)
  moreover have "admissions_inv s'"
    using I(2) draining_ok [of "sch_revoked s"]
    unfolding admissions_inv_def by (auto simp: s' unique_handles_def)
  moreover have "books_inv s'"
    using I(3) by (simp add: books_inv_def s' held_def held_host_def bt_total_map_values)
  moreover have "references_inv s'"
  proof -
    have "(\<lambda>a. legacy_uses (transition_to_draining a)) = legacy_uses"
      "(\<lambda>a. native_uses (transition_to_draining a)) = native_uses"
      "(\<lambda>a. native_loads (transition_to_draining a)) = native_loads"
      "(\<lambda>a. load_commands (transition_to_draining a)) = load_commands"
      "(\<lambda>a. evict_commands (transition_to_draining a)) = evict_commands"
      by (auto simp: legacy_uses_def native_uses_def native_loads_def load_commands_def)
    then show ?thesis using I(4) by (simp add: references_inv_def s')
  qed
  ultimately show ?thesis by (simp add: sched_inv_def)
qed

lemma request_retirement_Ok_iff:
  "request_retirement s t = (Ok u, s') \<longleftrightarrow> at_brand t = sch_brand s \<and> at_generation t = sch_generation s \<and>
     s' = (case bt_get (sch_admissions s) (at_admission_id t) of None \<Rightarrow> s
       | Some a \<Rightarrow> s\<lparr>sch_admissions :=
           bt_insert (at_admission_id t) (transition_to_draining a) (sch_admissions s)\<rparr>)"
  by (auto simp: request_retirement_def split: option.splits)

lemma request_retirement_inv:
  assumes inv: "sched_inv s" and ok: "request_retirement s t = (Ok u, s')"
  shows "sched_inv s'"
proof (cases "bt_get (sch_admissions s) (at_admission_id t)")
  case None
  then show ?thesis using inv ok by (simp add: request_retirement_Ok_iff)
next
  case (Some a)
  let ?a = "transition_to_draining a"
  have s': "s' = s\<lparr>sch_admissions := bt_insert (at_admission_id t) ?a (sch_admissions s)\<rparr>"
    using ok Some by (simp add: request_retirement_Ok_iff)
  note I = sched_invD [OF inv]
  have "admission_ok (sch_revoked s) ?a"
    using draining_ok [OF admission_okD [OF inv Some]] .
  then have "admissions_inv s'" "books_inv s'"
    using update_inv [OF inv Some, of ?a s'] by (simp_all add: s')
  moreover have "shape_inv s'"
    using shape_update [OF I(1) Some] by (simp add: s')
  moreover have "references_inv s'"
    using I(4) Some
    by (auto simp: references_inv_def s' count_at_present legacy_uses_def native_uses_def
        native_loads_def load_commands_def)
  ultimately show ?thesis by (simp add: sched_inv_def)
qed

definition drained :: "scheduler \<Rightarrow> bool" where
  "drained s \<longleftrightarrow>
     sch_admissions s = [] \<and> sch_operations s = [] \<and> sch_permits s = [] \<and> sch_native_loads s = [] \<and>
     sch_native_uses s = [] \<and> sch_native_quarantined_uses s = [] \<and> sch_native_results s = [] \<and>
     host_reserved (sch_host s) = 0"

lemma replace_grant_Ok_iff:
  "replace_grant s lb r = (Ok g, s') \<longleftrightarrow> sch_revoked s \<and> drained s \<and>
     (\<exists>n l. checked_add (sch_generation s) 1 = Some n \<and> ledger_new lb r = Ok l \<and>
        s' = s\<lparr>sch_ledger := l, sch_generation := n, sch_revoked := False\<rparr> \<and>
        g = \<lparr>gg_brand = sch_brand s, gg_value = n\<rparr>)"
  by (auto simp: replace_grant_def drained_def Let_def current_generation_def)

lemma replace_grant_inv:
  assumes inv: "sched_inv s" and valid: "valid_request r" and ok: "replace_grant s lb r = (Ok g, s')"
  shows "sched_inv s'"
proof -
  note I = sched_invD [OF inv]
  obtain n l where l: "ledger_new lb r = Ok l" and d: "drained s"
    and s': "s' = s\<lparr>sch_ledger := l, sch_generation := n, sch_revoked := False\<rparr>"
    using ok by (auto simp: replace_grant_Ok_iff)
  have "leases.custody l {#}"
    using ledger_new_inv [OF valid l] by (simp add: leases.custody_start)
  moreover have "held s' = {#}" "held_host s' = 0"
    using d by (simp_all add: held_def held_host_def s' drained_def)
  ultimately have "books_inv s'"
    using d by (simp add: books_inv_def s' drained_def)
  moreover have "shape_inv s'"
    using I(1) by (simp add: shape_inv_def s' maps_wf_def ids_fresh_def within_limits_def
        pending_def custody_slots_def)
  moreover have "admissions_inv s'"
    using d by (simp add: admissions_inv_def s' unique_handles_def drained_def)
  moreover have "references_inv s'"
    using I(4) by (simp add: references_inv_def s')
  ultimately show ?thesis by (simp add: sched_inv_def)
qed

subsection \<open>New admissions\<close>

definition reserved_admission :: "reservation_lease \<Rightarrow> admission" where
  "reserved_admission l = \<lparr>adm_lease = Legacy l, adm_state = Reserved, adm_active_uses = 0\<rparr>"

lemma admit_leases_spec:
  assumes "bt_wf (sch_admissions s)" and "below (sch_admissions s) i"
    and "unat n = unat i + length ls"
  shows "\<exists>adm. admit_leases s i ls = (Ok (map (ticket s) (id_range i n)), s\<lparr>sch_admissions := adm\<rparr>) \<and>
    bt_wf adm \<and> below adm n \<and> length adm = length (sch_admissions s) + length ls \<and>
    bt_total admission_caps adm = mset (map rl_lease ls) + bt_total admission_caps (sch_admissions s) \<and>
    bt_total (\<lambda>a. lease_host (adm_lease a)) adm
      = bt_total (\<lambda>a. lease_host (adm_lease a)) (sch_admissions s) \<and>
    (\<forall>k. bt_get adm k = (if i \<le> k \<and> k < n then Some (reserved_admission (ls ! (unat k - unat i)))
      else bt_get (sch_admissions s) k))"
  using assms
proof (induction ls arbitrary: s i)
  case Nil
  then have "n = i" by (auto intro: unat_eqD)
  then show ?case using Nil by (auto simp: id_range_def intro!: exI [of _ "sch_admissions s"])
next
  case (Cons l ls)
  let ?s = "s\<lparr>sch_admissions := bt_insert i (reserved_admission l) (sch_admissions s)\<rparr>"
  have fresh: "bt_get (sch_admissions s) i = None"
    using Cons.prems(2) by (rule below_fresh)
  have "unat i + 1 < 2 ^ 64"
    using Cons.prems(3) unat_u64_bound [of n] by (simp del: unat_u64_bound)
  then obtain j where j: "checked_add i 1 = Some j" by (simp add: checked_add_def)
  then have uj: "unat j = unat i + 1" and less: "i < j"
    by (simp_all add: checked_add_Some_iff checked_succ_less)
  have "\<exists>adm. admit_leases ?s j ls = (Ok (map (ticket ?s) (id_range j n)), ?s\<lparr>sch_admissions := adm\<rparr>) \<and>
    bt_wf adm \<and> below adm n \<and> length adm = length (sch_admissions ?s) + length ls \<and>
    bt_total admission_caps adm = mset (map rl_lease ls) + bt_total admission_caps (sch_admissions ?s) \<and>
    bt_total (\<lambda>a. lease_host (adm_lease a)) adm
      = bt_total (\<lambda>a. lease_host (adm_lease a)) (sch_admissions ?s) \<and>
    (\<forall>k. bt_get adm k = (if j \<le> k \<and> k < n then Some (reserved_admission (ls ! (unat k - unat j)))
      else bt_get (sch_admissions ?s) k))"
    by (rule Cons.IH) (use Cons.prems uj less in \<open>auto intro: below_insert\<close>)
  then obtain adm where adm:
      "admit_leases ?s j ls = (Ok (map (ticket ?s) (id_range j n)), ?s\<lparr>sch_admissions := adm\<rparr>)"
      "bt_wf adm" "below adm n" "length adm = length (sch_admissions ?s) + length ls"
      "bt_total admission_caps adm = mset (map rl_lease ls) + bt_total admission_caps (sch_admissions ?s)"
      "bt_total (\<lambda>a. lease_host (adm_lease a)) adm
        = bt_total (\<lambda>a. lease_host (adm_lease a)) (sch_admissions ?s)"
      "\<And>k. bt_get adm k = (if j \<le> k \<and> k < n then Some (reserved_admission (ls ! (unat k - unat j)))
        else bt_get (sch_admissions ?s) k)"
    by blast
  have range: "id_range i n = i # id_range j n"
  proof -
    have "unat n - unat i = Suc (length ls)" and "unat n - unat j = length ls"
      using Cons.prems(3) uj by simp_all
    moreover have "j = i + 1"
      using j by (simp add: checked_add_def split: if_splits)
    ultimately show ?thesis
      by (simp add: id_range_def upt_conv_Cons map_Suc_upt [symmetric] comp_def add.assoc
          del: upt_Suc)
  qed
  have tk: "ticket ?s = ticket s" by (auto simp: ticket_def)
  have look: "(if i \<le> k \<and> k < n then Some (reserved_admission ((l # ls) ! (unat k - unat i)))
      else bt_get (sch_admissions s) k) = bt_get adm k" for k
  proof -
    consider "k < i" | "k = i" | "j \<le> k"
      using uj by (cases "k < i"; cases "k = i") (auto simp: word_le_nat_alt word_less_nat_alt
          word_unat_eq_iff not_less)
    then show ?thesis
    proof cases
      case 3
      then have "unat k - unat i = Suc (unat k - unat j)" "i < k" "i \<noteq> k"
        using uj by (auto simp: word_le_nat_alt word_less_nat_alt)
      with 3 show ?thesis by (auto simp: adm(7))
    qed (use less uj Cons.prems(3) in \<open>auto simp: adm(7) word_le_nat_alt word_less_nat_alt\<close>)
  qed
  have "admit_leases s i (l # ls) = (Ok (map (ticket s) (id_range i n)), s\<lparr>sch_admissions := adm\<rparr>)"
    using adm(1) j tk by (simp add: Let_def range flip: reserved_admission_def)
  moreover have "admission_caps (reserved_admission l) = {#rl_lease l#}"
    and "lease_host (adm_lease (reserved_admission l)) = 0"
    by (simp_all add: reserved_admission_def admission_caps_def)
  ultimately show ?case
    using adm(2-6) fresh look
    by (intro exI [of _ adm]) (simp add: bt_total_insert_fresh bt_length_insert_fresh)
qed

lemma sched_commit_Ok:
  assumes inv: "sched_inv s" and ok: "sched_commit s p = (Ok tickets, s')"
  obtains leases ledger n adm where "pa_brand p = sch_brand s" "pa_generation p = sch_generation s"
    "\<not> sch_revoked s"
    "length (sch_admissions s) + length (pp_placements (pa_prepared p)) \<le> lim_admissions (sch_limits s)"
    "ledger_commit (sch_ledger s) (pa_prepared p) = (Ok leases, ledger)"
    "length leases = length (pp_placements (pa_prepared p))"
    "unat n = unat (sch_next_admission_id s) + length leases"
    "tickets = map (ticket s) (id_range (sch_next_admission_id s) n)"
    "s' = s\<lparr>sch_ledger := ledger, sch_admissions := adm, sch_next_admission_id := n\<rparr>"
    "bt_wf adm" "below adm n" "length adm = length (sch_admissions s) + length leases"
    "bt_total admission_caps adm =
       mset (map rl_lease leases) + bt_total admission_caps (sch_admissions s)"
    "bt_total (\<lambda>a. lease_host (adm_lease a)) adm
       = bt_total (\<lambda>a. lease_host (adm_lease a)) (sch_admissions s)"
    "\<forall>k. bt_get adm k = (if sch_next_admission_id s \<le> k \<and> k < n
       then Some (reserved_admission (leases ! (unat k - unat (sch_next_admission_id s))))
       else bt_get (sch_admissions s) k)"
proof -
  note I = sched_invD [OF inv]
  obtain count n leases ledger t where
      guards: "pa_brand p = sch_brand s" "pa_generation p = sch_generation s" "\<not> sch_revoked s"
        "length (sch_admissions s) + length (pp_placements (pa_prepared p)) \<le> lim_admissions (sch_limits s)"
    and count: "u64_of_usize (length (pp_placements (pa_prepared p))) = Some count"
    and n: "checked_add (sch_next_admission_id s) count = Some n"
    and commit: "ledger_commit (sch_ledger s) (pa_prepared p) = (Ok leases, ledger)"
    and admit: "admit_leases (s\<lparr>sch_ledger := ledger\<rparr>) (sch_next_admission_id s) leases = (Ok tickets, t)"
    and s': "s' = t\<lparr>sch_next_admission_id := n\<rparr>"
    using ok by (cases "ledger_commit (sch_ledger s) (pa_prepared p)")
      (auto simp: sched_commit_def placement_count_def)
  have len: "length leases = length (pp_placements (pa_prepared p))"
    using commit lease_capabilities_simps(3)
    by (auto simp: ledger_commit_Ok_iff placement_entries_def)
  then have un: "unat n = unat (sch_next_admission_id s) + length leases"
    using count n by (simp add: checked_add_Some_iff u64_of_usize_Some_iff)
  let ?s = "s\<lparr>sch_ledger := ledger\<rparr>"
  have wf: "bt_wf (sch_admissions ?s)" "below (sch_admissions ?s) (sch_next_admission_id s)"
    using I(5,6) by (simp_all add: maps_wf_def ids_fresh_def)
  have tk: "ticket ?s = ticket s" by (auto simp: ticket_def)
  from admit_leases_spec [OF wf un] admit tk s' show ?thesis
    using that [OF guards commit len un] by fastforce
qed

lemma sched_commit_inv:
  assumes inv: "sched_inv s" and ok: "sched_commit s p = (Ok tickets, s')"
  shows "sched_inv s'"
  using ok
proof (rule sched_commit_Ok [OF inv])
  fix leases ledger n adm
  assume live: "\<not> sch_revoked s"
    and room: "length (sch_admissions s) + length (pp_placements (pa_prepared p)) \<le> lim_admissions (sch_limits s)"
    and commit: "ledger_commit (sch_ledger s) (pa_prepared p) = (Ok leases, ledger)"
    and len: "length leases = length (pp_placements (pa_prepared p))"
    and n: "unat n = unat (sch_next_admission_id s) + length leases"
    and s': "s' = s\<lparr>sch_ledger := ledger, sch_admissions := adm, sch_next_admission_id := n\<rparr>"
    and adm: "bt_wf adm" "below adm n" "length adm = length (sch_admissions s) + length leases"
    "bt_total admission_caps adm =
       mset (map rl_lease leases) + bt_total admission_caps (sch_admissions s)"
    "bt_total (\<lambda>a. lease_host (adm_lease a)) adm
       = bt_total (\<lambda>a. lease_host (adm_lease a)) (sch_admissions s)"
    and look: "\<forall>k. bt_get adm k = (if sch_next_admission_id s \<le> k \<and> k < n
       then Some (reserved_admission (leases ! (unat k - unat (sch_next_admission_id s))))
       else bt_get (sch_admissions s) k)"
  note I = sched_invD [OF inv]
  have new: "\<exists>l \<in> set leases. a = reserved_admission l"
    if "bt_get adm k = Some a" "bt_get (sch_admissions s) k \<noteq> Some a" for k a
  proof -
    have k: "sch_next_admission_id s \<le> k" "k < n"
        "a = reserved_admission (leases ! (unat k - unat (sch_next_admission_id s)))"
      using look that by (auto split: if_splits)
    then have "unat k - unat (sch_next_admission_id s) < length leases"
      using n by (auto simp: word_le_nat_alt word_less_nat_alt)
    then show ?thesis using k(3) by auto
  qed
  have old: "bt_get (sch_admissions s) k = None" if "sch_next_admission_id s \<le> k" for k
    using I(6) that by (auto simp: ids_fresh_def intro: below_absent)
  have counts: "count_at g adm k = count_at g (sch_admissions s) k" if "\<And>l. g (reserved_admission l) = 0"
    for g k
    using look old [of k] that by (auto simp: count_at_def)
  have issue: "lease_issues (sch_ledger s) (map rl_lease leases) ledger"
    using commit by (auto simp: lease_issues_def)
  have lease: "lease_ok (Legacy l)" if "l \<in> set leases" for l
    using commit that committed_leases(3) by (fastforce simp: ledger_commit_Ok_iff)
  have "shape_inv s'"
    using I(1) adm room len
    by (simp add: shape_inv_def s' maps_wf_def ids_fresh_def within_limits_def pending_def
        custody_slots_def)
  moreover have "admissions_inv s'"
  proof -
    have ok: "admission_ok (sch_revoked s) a" if "bt_get adm k = Some a" for k a
      using new [OF that] lease live I(2)
      by (cases "bt_get (sch_admissions s) k = Some a")
        (auto simp: admissions_inv_def admission_ok_def reserved_admission_def)
    have handle: "bt_get (sch_admissions s) k = Some a"
      if "bt_get adm k = Some a" "held_handle (adm_state a) = Some h" for k a h
      using new [OF that(1)] that(2)
      by (cases "bt_get (sch_admissions s) k = Some a") (auto simp: reserved_admission_def)
    have "unique_handles adm"
      unfolding unique_handles_def
    proof (intro allI impI)
      fix i j a b h
      assume "bt_get adm i = Some a" "bt_get adm j = Some b" and
        h: "held_handle (adm_state a) = Some h" "held_handle (adm_state b) = Some h"
      then have "bt_get (sch_admissions s) i = Some a" "bt_get (sch_admissions s) j = Some b"
        using handle by blast+
      with h I(2) show "i = j" unfolding admissions_inv_def unique_handles_def by blast
    qed
    with ok I(2) show ?thesis by (auto simp: admissions_inv_def s')
  qed
  moreover have "books_inv s'"
    using I(3) leases.custody_issue [OF _ issue, of "held s"] adm(4,5)
    by (simp add: books_inv_def s' held_def held_host_def add.assoc)
  moreover have "references_inv s'"
    using I(4) counts
    by (simp add: references_inv_def s' reserved_admission_def legacy_uses_def native_uses_def
        native_loads_def load_commands_def evict_commands_def)
  ultimately show ?thesis by (simp add: sched_inv_def)
qed

subsection \<open>Native residents\<close>

lemma reserve_batch_issue:
  assumes "reserve_bytes_batch l d b second = (Ok (m, r), l')"
  shows "lease_issues l (dbl_lease m # (case r of None \<Rightarrow> [] | Some x \<Rightarrow> [dbl_lease x])) l'"
    and "byte_lease_ok m" and "r = Some x \<Longrightarrow> byte_lease_ok x" and "r = None \<longleftrightarrow> second = None"
    and "cap_device_id (dbl_lease m) = d"
proof -
  have "dbl_lease m # (case r of None \<Rightarrow> [] | Some x \<Rightarrow> [dbl_lease x]) = map dbl_lease (batch_leases (m, r))"
    by (simp add: batch_leases_def split: option.split)
  moreover have "lease_issues l (map dbl_lease (batch_leases (m, r))) l'"
    using assms unfolding lease_issues_def by blast
  ultimately show "lease_issues l (dbl_lease m # (case r of None \<Rightarrow> [] | Some x \<Rightarrow> [dbl_lease x])) l'"
    by simp
  show "byte_lease_ok m" and "r = Some x \<Longrightarrow> byte_lease_ok x" and "r = None \<longleftrightarrow> second = None"
    "cap_device_id (dbl_lease m) = d"
    using assms
    by (auto simp: reserve_bytes_batch_def byte_lease_ok_def Let_def
        split: result.splits prod.splits option.splits)
qed

lemma reserve_bytes_issue:
  assumes "reserve_bytes l d b = (Ok lease, l')"
  shows "lease_issues l [dbl_lease lease] l'" and "byte_lease_ok lease"
    and "cap_device_id (dbl_lease lease) = d"
proof -
  obtain x where "reserve_bytes_batch l d b None = (Ok (lease, x), l')"
    using assms by (cases "reserve_bytes_batch l d b None") (auto simp: reserve_bytes_def)
  note B = reserve_batch_issue [OF this]
  show "lease_issues l [dbl_lease lease] l'" and "byte_lease_ok lease"
    "cap_device_id (dbl_lease lease) = d"
    using B(1,2,4,5) by simp_all
qed

lemma admit_native_resident_Ok:
  assumes "admit_native_resident s request = (Ok r, s')"
  obtains next_id next_load h resident ledger where "\<not> sch_revoked s"
    "length (sch_admissions s) < lim_admissions (sch_limits s)"
    "pending s < lim_pending_operations (sch_limits s)"
    "checked_add (sch_next_admission_id s) 1 = Some next_id"
    "checked_add (sch_next_native_load_id s) 1 = Some next_load"
    "nrr_resident_host request = None \<or> host_extended_owners (sch_host s)"
    "unat h = unat (host_reserved (sch_host s)) +
      (case nrr_resident_host request of None \<Rightarrow> 0 | Some b \<Rightarrow> unat (bytes_of b))"
    "h \<le> env_bytes (host_envelope (sch_host s))"
    "reserve_bytes (sch_ledger s) (nrr_device_id request) (nrr_resident_bytes request)
      = (Ok resident, ledger)"
    "r = (ticket s (sch_next_admission_id s),
      \<lparr>nlp_brand = sch_brand s, nlp_value = sch_next_native_load_id s\<rparr>)"
    "s' = s\<lparr>sch_ledger := ledger,
        sch_admissions := bt_insert (sch_next_admission_id s)
          \<lparr>adm_lease = Native resident
             (map_option (\<lambda>b. \<lparr>hl_requested = b\<rparr>) (nrr_resident_host request)),
           adm_state = Loading, adm_active_uses = 0\<rparr> (sch_admissions s),
        sch_native_loads := bt_insert (sch_next_native_load_id s)
          (sch_next_admission_id s) (sch_native_loads s),
        sch_host := (sch_host s)\<lparr>host_reserved := h\<rparr>,
        sch_next_admission_id := next_id, sch_next_native_load_id := next_load\<rparr>"
proof -
  obtain q ledger where q: "reserve_bytes (sch_ledger s) (nrr_device_id request)
      (nrr_resident_bytes request) = (q, ledger)"
    by (cases "reserve_bytes (sch_ledger s) (nrr_device_id request) (nrr_resident_bytes request)")
  with assms show ?thesis
    by (cases q) (auto simp: admit_native_resident_def Suc_le_eq intro!: that)
qed

lemma admit_native_resident_inv:
  assumes inv: "sched_inv s" and ok: "admit_native_resident s request = (Ok r, s')"
  shows "sched_inv s'"
  using ok
proof (rule admit_native_resident_Ok)
  fix next_id next_load h resident ledger
  let ?a = "\<lparr>adm_lease = Native resident
      (map_option (\<lambda>b. \<lparr>hl_requested = b\<rparr>) (nrr_resident_host request)),
      adm_state = Loading, adm_active_uses = 0\<rparr>"
  let ?i = "sch_next_admission_id s" and ?v = "sch_next_native_load_id s"
  assume live: "\<not> sch_revoked s"
    and room: "length (sch_admissions s) < lim_admissions (sch_limits s)"
      "pending s < lim_pending_operations (sch_limits s)"
    and ids: "checked_add ?i 1 = Some next_id" "checked_add ?v 1 = Some next_load"
    and h: "unat h = unat (host_reserved (sch_host s)) +
      (case nrr_resident_host request of None \<Rightarrow> 0 | Some b \<Rightarrow> unat (bytes_of b))"
      "h \<le> env_bytes (host_envelope (sch_host s))"
    and res: "reserve_bytes (sch_ledger s) (nrr_device_id request) (nrr_resident_bytes request)
      = (Ok resident, ledger)"
    and s': "s' = s\<lparr>sch_ledger := ledger, sch_admissions := bt_insert ?i ?a (sch_admissions s),
        sch_native_loads := bt_insert ?v ?i (sch_native_loads s),
        sch_host := (sch_host s)\<lparr>host_reserved := h\<rparr>,
        sch_next_admission_id := next_id, sch_next_native_load_id := next_load\<rparr>"
  note I = sched_invD [OF inv]
  have fresh: "bt_get (sch_admissions s) ?i = None" "bt_get (sch_native_loads s) ?v = None"
    using I(6) by (auto simp: ids_fresh_def intro: below_fresh)
  have less: "?i < next_id" "?v < next_load"
    using ids by (auto intro: checked_succ_less)
  note R = reserve_bytes_issue [OF res]
  have "shape_inv s'"
    using I(1) room less bt_length_insert_fresh [OF fresh(1)] bt_length_insert_fresh [OF fresh(2)]
    by (simp add: shape_inv_def s' maps_wf_def ids_fresh_def within_limits_def
        pending_def custody_slots_def below_insert_next)
  moreover have "admissions_inv s'"
    using I(2) live R(2) unfolding admissions_inv_def
    by (auto simp: s' admission_ok_def unique_handles_def split: if_splits)
  moreover have "books_inv s'"
  proof -
    have "held s' = mset [dbl_lease resident] + held s"
      by (simp add: held_def s' bt_total_insert_fresh [OF fresh(1)] admission_caps_def)
    moreover have "leases.custody (sch_ledger s) (held s)"
      using I(3) by (simp add: books_inv_def)
    ultimately have "leases.custody ledger (held s')"
      using leases.custody_issue [OF _ R(1)] by simp
    moreover have "held_host s' = unat h"
      using I(3) h(1) by (simp add: books_inv_def held_host_def s' bt_total_insert_fresh [OF fresh(1)]
          split: option.splits)
    ultimately show ?thesis
      using h(2) by (simp add: books_inv_def s')
  qed
  moreover have "references_inv s'"
  proof -
    have "count_at g (sch_admissions s) ?i = 0" for g
      using fresh(1) by (simp add: count_at_def)
    then show ?thesis
      using I(4) by (auto simp: references_inv_def s' tally_insert_fresh [OF fresh(2)] sched_simps)
  qed
  ultimately show ?thesis by (simp add: sched_inv_def)
qed

subsection \<open>Uses\<close>

lemma begin_use_Ok:
  assumes "begin_use s t = (Ok r, s')"
  obtains a l h n where "at_brand t = sch_brand s" "at_generation t = sch_generation s"
    "\<not> sch_revoked s" "custody_slots s < lim_uses (sch_limits s)"
    "checked_add (sch_next_permit_id s) 1 = Some n"
    "bt_get (sch_admissions s) (at_admission_id t) = Some a" "adm_lease a = Legacy l"
    "adm_state a = Resident h \<or> adm_state a = InUse h"
    "r = \<lparr>up_brand = sch_brand s, up_value = sch_next_permit_id s\<rparr>"
    "s' = s\<lparr>sch_admissions := bt_insert (at_admission_id t)
         (a\<lparr>adm_active_uses := adm_active_uses a + 1, adm_state := InUse h\<rparr>) (sch_admissions s),
       sch_permits := bt_insert (sch_next_permit_id s) (at_admission_id t) (sch_permits s),
       sch_next_permit_id := n\<rparr>"
proof -
  have act: "native_active_resident st = Ok h \<longleftrightarrow> st = Resident h \<or> st = InUse h" for st h
    by (cases st) auto
  have legacy: "(case x of Legacy l \<Rightarrow> Ok () | Native l h \<Rightarrow> Err e) = Ok u \<longleftrightarrow> (\<exists>l. x = Legacy l)"
    for x and e :: scheduler_error and u by (cases x) auto
  show ?thesis
    using assms by (auto simp: begin_use_def act legacy usize_add_Some_iff intro: that)
qed

lemma begin_use_inv:
  assumes inv: "sched_inv s" and ok: "begin_use s t = (Ok r, s')"
  shows "sched_inv s'"
  using ok
proof (rule begin_use_Ok)
  fix a :: admission and l h n
  let ?i = "at_admission_id t" and ?v = "sch_next_permit_id s"
  let ?a = "a\<lparr>adm_active_uses := adm_active_uses a + 1, adm_state := InUse h\<rparr>"
  assume live: "\<not> sch_revoked s" and room: "custody_slots s < lim_uses (sch_limits s)"
    and n: "checked_add ?v 1 = Some n" and a: "bt_get (sch_admissions s) ?i = Some a"
    and l: "adm_lease a = Legacy l" and st: "adm_state a = Resident h \<or> adm_state a = InUse h"
    and s': "s' = s\<lparr>sch_admissions := bt_insert ?i ?a (sch_admissions s),
       sch_permits := bt_insert ?v ?i (sch_permits s), sch_next_permit_id := n\<rparr>"
  note I = sched_invD [OF inv]
  have fresh: "bt_get (sch_permits s) ?v = None"
    using I(6) by (auto simp: ids_fresh_def intro: below_fresh)
  have less: "?v < n" using n by (rule checked_succ_less)
  have "shape_inv s'"
    using shape_update [OF I(1) a, of ?a] room less bt_length_insert_fresh [OF fresh]
    by (simp add: shape_inv_def s' maps_wf_def ids_fresh_def within_limits_def
        pending_def custody_slots_def below_insert_next)
  moreover have "admissions_inv s'" "books_inv s'"
    using update_inv [OF inv a, of ?a s'] admission_okD [OF inv a] live st l
    by (auto simp: s' admission_ok_def)
  moreover have "references_inv s'"
    using I(4) a st l
    by (auto simp: references_inv_def s' tally_insert_fresh [OF fresh] sched_simps count_at_present)
  ultimately show ?thesis by (simp add: sched_inv_def)
qed

text \<open>The states a finished use can lead to.\<close>

lemma finished_state_Ok_iff:
  "finished_state st n rv = Ok st' \<longleftrightarrow>
     (\<exists>h. (st = InUse h \<and> st' = (if n = 0 \<and> rv then Draining (Some h) False
            else if n = 0 then Resident h else InUse h)) \<or>
          (st = Draining (Some h) False \<and> st' = st))"
  by (induction st n rv rule: finished_state.induct) auto

lemma native_finished_state_Ok_iff:
  "native_finished_state st n rv = Ok st' \<longleftrightarrow>
     (\<exists>h. (st = InUse h \<and> st' = (if n = 0 \<and> rv then Draining (Some h) False
            else if n = 0 then Resident h else InUse h)) \<or>
          (st = Draining (Some h) False \<and> st' = st)) \<or>
     (\<exists>r. st = Quarantined r \<and> st' = st)"
  by (induction st n rv rule: native_finished_state.induct) auto

definition quiet :: "admission_state \<Rightarrow> bool" where
  "quiet st \<longleftrightarrow> \<not> loading_state st \<and> (\<forall>h. st \<noteq> Evicting h)"

lemma quiet_counts:
  "quiet (adm_state a) \<Longrightarrow> native_loads a = 0 \<and> load_commands a = 0 \<and> evict_commands a = 0"
  by (auto simp: quiet_def native_loads_def load_commands_def evict_commands_def
      split: admission_state.split)

lemma finished_state_quiet:
  assumes "native_finished_state st n rv = Ok st' \<or> finished_state st n rv = Ok st'"
  shows "quiet st" and "quiet st'" and "held_handle st' = held_handle st"
  using assms
  by (auto simp: quiet_def finished_state_Ok_iff native_finished_state_Ok_iff split: if_splits)

text \<open>A permit points at a legacy admission in use; a native use at a native one.\<close>

lemma permit_target:
  assumes "sched_inv s" and "bt_get (sch_permits s) v = Some i"
  shows "\<exists>a. bt_get (sch_admissions s) i = Some a \<and> is_legacy (adm_lease a) \<and> 0 < adm_active_uses a"
proof -
  note I = sched_invD [OF assms(1)]
  have "0 < tally Some (sch_permits s) i"
    by (rule tally_pos [OF maps_wfD(3) [OF I(5)] assms(2)]) simp
  then have "0 < count_at legacy_uses (sch_admissions s) i"
    using I(4) by (simp add: references_inv_def)
  from count_at_pos [OF this] show ?thesis
    by (auto simp: legacy_uses_def split: if_splits)
qed

lemma native_use_target:
  assumes "sched_inv s" and "bt_get (sch_native_uses s) v = Some u"
  shows "\<exists>a. bt_get (sch_admissions s) (nu_admission_id u) = Some a \<and>
    \<not> is_legacy (adm_lease a) \<and> 0 < adm_active_uses a"
proof -
  note I = sched_invD [OF assms(1)]
  have "0 < tally use_target (sch_native_uses s) (nu_admission_id u)"
    by (rule tally_pos [OF maps_wfD(5) [OF I(5)] assms(2)]) (simp add: use_target_def)
  moreover have "tally use_target (sch_native_uses s) (nu_admission_id u)
      + tally use_target (sch_native_quarantined_uses s) (nu_admission_id u)
      = count_at native_uses (sch_admissions s) (nu_admission_id u)"
    using I(4) by (simp add: references_inv_def)
  ultimately have "0 < count_at native_uses (sch_admissions s) (nu_admission_id u)" by simp
  from count_at_pos [OF this] show ?thesis
    by (auto simp: native_uses_def split: if_splits)
qed

lemma finish_use_Ok:
  assumes "finish_use s permit = (Ok r, s')"
  obtains i a n st where "up_brand permit = sch_brand s"
    "bt_get (sch_permits s) (up_value permit) = Some i" "bt_get (sch_admissions s) i = Some a"
    "adm_active_uses a = n + 1" "finished_state (adm_state a) n (sch_revoked s) = Ok st"
    "s' = s\<lparr>sch_admissions := bt_insert i (a\<lparr>adm_active_uses := n, adm_state := st\<rparr>)
         (sch_admissions s), sch_permits := bt_remove (up_value permit) (sch_permits s)\<rparr>"
  using assms that by (auto simp: finish_use_def usize_sub_Some_iff)

lemma finish_use_inv:
  assumes inv: "sched_inv s" and ok: "finish_use s permit = (Ok r, s')"
  shows "sched_inv s'"
  using ok
proof (rule finish_use_Ok)
  fix i and a :: admission and n st
  let ?a = "a\<lparr>adm_active_uses := n, adm_state := st\<rparr>"
  assume v: "bt_get (sch_permits s) (up_value permit) = Some i"
    and a: "bt_get (sch_admissions s) i = Some a" and n: "adm_active_uses a = n + 1"
    and st: "finished_state (adm_state a) n (sch_revoked s) = Ok st"
    and s': "s' = s\<lparr>sch_admissions := bt_insert i ?a (sch_admissions s),
         sch_permits := bt_remove (up_value permit) (sch_permits s)\<rparr>"
  note I = sched_invD [OF inv]
  note W = maps_wfD [OF I(5)]
  have legacy: "is_legacy (adm_lease a)" using permit_target [OF inv v] a by auto
  have "shape_inv s'"
    using shape_remove(3) [OF shape_update [OF I(1) a], of "up_value permit" ?a] by (simp add: s')
  moreover have "admissions_inv s'" "books_inv s'"
    using update_inv [OF inv a, of ?a s'] admission_okD [OF inv a] st n
    by (auto simp: s' admission_ok_def finished_state_Ok_iff)
  moreover have "references_inv s'"
  proof -
    note Q = finished_state_quiet [OF disjI2 [OF st]]
    from quiet_counts [of a] quiet_counts [of ?a] Q(1,2) show ?thesis
      using I(4) a n legacy
      by (auto simp: references_inv_def s' tally_remove [OF W(3) v] count_at_present
          legacy_uses_def native_uses_def)
  qed
  ultimately show ?thesis by (simp add: sched_inv_def)
qed

subsection \<open>Native uses\<close>

lemma prepare_native_use_Ok_iff:
  "prepare_native_use s t request = Ok p \<longleftrightarrow>
     (\<exists>a l lh. bt_get (sch_admissions s) (at_admission_id t) = Some a \<and> adm_lease a = Native l lh \<and>
        (adm_state a = Resident (pnu_resident p) \<or> adm_state a = InUse (pnu_resident p)) \<and>
        pnu_device_id p = cap_device_id (dbl_lease l) \<and> pnu_next_uses p = adm_active_uses a + 1 \<and>
        adm_active_uses a + 1 < 2 ^ 64) \<and>
     checked_add (sch_next_native_use_id s) 1 = Some (pnu_next_use_id p) \<and>
     (nur_mutable_host request = None \<or> host_extended_owners (sch_host s)) \<and>
     unat (pnu_next_host_reserved p) = unat (host_reserved (sch_host s))
      + (case nur_mutable_host request of None \<Rightarrow> 0 | Some b \<Rightarrow> unat (bytes_of b))
      + (case nur_retained_host request of None \<Rightarrow> 0 | Some b \<Rightarrow> unat (bytes_of b)) \<and>
     pnu_next_host_reserved p \<le> env_bytes (host_envelope (sch_host s)) \<and>
     pnu_admission_id p = at_admission_id t \<and> pnu_use_id p = sch_next_native_use_id s"
proof -
  have act: "native_active_resident st = Ok h \<longleftrightarrow> st = Resident h \<or> st = InUse h" for st h
    by (cases st) auto
  have native: "(case x of Legacy l \<Rightarrow> Err e | Native l h \<Rightarrow> Ok l) = Ok u \<longleftrightarrow> (\<exists>h. x = Native u h)"
    for x and e :: scheduler_error and u by (cases x) auto
  show ?thesis
    by (cases p) (auto simp: prepare_native_use_def act native usize_add_Some_iff add.assoc)
qed

lemma begin_native_use_Ok:
  assumes "begin_native_use s t request = (Ok r, s')"
  obtains a l lh st h n hr m rd ledger where "at_brand t = sch_brand s"
    "at_generation t = sch_generation s" "\<not> sch_revoked s"
    "custody_slots s < lim_uses (sch_limits s)"
    "checked_add (sch_next_native_use_id s) 1 = Some n"
    "nur_mutable_host request = None \<or> host_extended_owners (sch_host s)"
    "unat hr = unat (host_reserved (sch_host s))
      + (case nur_mutable_host request of None \<Rightarrow> 0 | Some b \<Rightarrow> unat (bytes_of b))
      + (case nur_retained_host request of None \<Rightarrow> 0 | Some b \<Rightarrow> unat (bytes_of b))"
    "hr \<le> env_bytes (host_envelope (sch_host s))"
    "bt_get (sch_admissions s) (at_admission_id t) = Some a" "adm_lease a = Native l lh"
    "adm_state a = Resident h \<or> adm_state a = InUse h"
    "reserve_bytes_batch (sch_ledger s) (cap_device_id (dbl_lease l)) (nur_mutable_device request)
      (map_option (\<lambda>b. (cap_device_id (dbl_lease l), b)) (nur_retained_device request))
      = (Ok (m, rd), ledger)"
    "r = \<lparr>nup_brand = sch_brand s, nup_value = sch_next_native_use_id s\<rparr>"
    "s' = s\<lparr>sch_ledger := ledger,
        sch_admissions := bt_insert (at_admission_id t)
          (a\<lparr>adm_active_uses := adm_active_uses a + 1, adm_state := InUse h\<rparr>) (sch_admissions s),
        sch_native_uses := bt_insert (sch_next_native_use_id s)
          \<lparr>nu_admission_id = at_admission_id t, nu_mutable_device = m,
           nu_mutable_host = map_option (\<lambda>b. \<lparr>hl_requested = b\<rparr>) (nur_mutable_host request),
           nu_retained_device = rd,
           nu_retained_host = map_option (\<lambda>b. \<lparr>hl_requested = b\<rparr>) (nur_retained_host request)\<rparr>
          (sch_native_uses s),
        sch_host := (sch_host s)\<lparr>host_reserved := hr\<rparr>,
        sch_next_native_use_id := n\<rparr>"
proof -
  obtain p where p: "prepare_native_use s t request = Ok p"
    using assms by (auto simp: begin_native_use_def)
  then obtain a l lh where P: "bt_get (sch_admissions s) (at_admission_id t) = Some a"
      "adm_lease a = Native l lh"
      "adm_state a = Resident (pnu_resident p) \<or> adm_state a = InUse (pnu_resident p)"
      "pnu_device_id p = cap_device_id (dbl_lease l)" "pnu_next_uses p = adm_active_uses a + 1"
    and Q: "checked_add (sch_next_native_use_id s) 1 = Some (pnu_next_use_id p)"
      "nur_mutable_host request = None \<or> host_extended_owners (sch_host s)"
      "unat (pnu_next_host_reserved p) = unat (host_reserved (sch_host s))
        + (case nur_mutable_host request of None \<Rightarrow> 0 | Some b \<Rightarrow> unat (bytes_of b))
        + (case nur_retained_host request of None \<Rightarrow> 0 | Some b \<Rightarrow> unat (bytes_of b))"
      "pnu_next_host_reserved p \<le> env_bytes (host_envelope (sch_host s))"
      "pnu_admission_id p = at_admission_id t" "pnu_use_id p = sch_next_native_use_id s"
    unfolding prepare_native_use_Ok_iff by blast
  obtain q ledger where q: "reserve_bytes_batch (sch_ledger s) (cap_device_id (dbl_lease l))
      (nur_mutable_device request)
      (map_option (\<lambda>b. (cap_device_id (dbl_lease l), b)) (nur_retained_device request)) = (q, ledger)"
    by (cases "reserve_bytes_batch (sch_ledger s) (cap_device_id (dbl_lease l))
      (nur_mutable_device request)
      (map_option (\<lambda>b. (cap_device_id (dbl_lease l), b)) (nur_retained_device request))")
  have guards: "at_brand t = sch_brand s" "at_generation t = sch_generation s" "\<not> sch_revoked s"
      "custody_slots s < lim_uses (sch_limits s)"
    using assms by (auto simp: begin_native_use_def)
  show ?thesis
  proof (cases q)
    case (Ok x)
    obtain m rd where x: "x = (m, rd)" by (cases x)
    show ?thesis
      by (rule that [OF guards Q(1-4) P(1-3) q [unfolded Ok x]])
        (use assms p q P Q guards Ok x in \<open>simp_all add: begin_native_use_def\<close>)
  qed (use assms p q P Q guards in \<open>simp_all add: begin_native_use_def\<close>)
qed

lemma begin_native_use_inv:
  assumes inv: "sched_inv s" and ok: "begin_native_use s t request = (Ok r, s')"
  shows "sched_inv s'"
  using ok
proof (rule begin_native_use_Ok)
  fix a :: admission and l lh st h n hr m rd ledger
  let ?i = "at_admission_id t" and ?v = "sch_next_native_use_id s"
  let ?a = "a\<lparr>adm_active_uses := adm_active_uses a + 1, adm_state := InUse h\<rparr>"
  let ?u = "\<lparr>nu_admission_id = ?i, nu_mutable_device = m,
      nu_mutable_host = map_option (\<lambda>b. \<lparr>hl_requested = b\<rparr>) (nur_mutable_host request),
      nu_retained_device = rd,
      nu_retained_host = map_option (\<lambda>b. \<lparr>hl_requested = b\<rparr>) (nur_retained_host request)\<rparr>"
  assume live: "\<not> sch_revoked s" and room: "custody_slots s < lim_uses (sch_limits s)"
    and n: "checked_add ?v 1 = Some n"
    and hr: "unat hr = unat (host_reserved (sch_host s))
      + (case nur_mutable_host request of None \<Rightarrow> 0 | Some b \<Rightarrow> unat (bytes_of b))
      + (case nur_retained_host request of None \<Rightarrow> 0 | Some b \<Rightarrow> unat (bytes_of b))"
      "hr \<le> env_bytes (host_envelope (sch_host s))"
    and a: "bt_get (sch_admissions s) ?i = Some a" and l: "adm_lease a = Native l lh"
    and st: "adm_state a = Resident h \<or> adm_state a = InUse h"
    and res: "reserve_bytes_batch (sch_ledger s) (cap_device_id (dbl_lease l))
      (nur_mutable_device request)
      (map_option (\<lambda>b. (cap_device_id (dbl_lease l), b)) (nur_retained_device request))
      = (Ok (m, rd), ledger)"
    and s': "s' = s\<lparr>sch_ledger := ledger, sch_admissions := bt_insert ?i ?a (sch_admissions s),
        sch_native_uses := bt_insert ?v ?u (sch_native_uses s),
        sch_host := (sch_host s)\<lparr>host_reserved := hr\<rparr>, sch_next_native_use_id := n\<rparr>"
  note I = sched_invD [OF inv]
  note W = maps_wfD [OF I(5)]
  note R = reserve_batch_issue [OF res]
  have fresh: "bt_get (sch_native_uses s) ?v = None" "bt_get (sch_native_quarantined_uses s) ?v = None"
    using I(6) by (auto simp: ids_fresh_def intro: below_fresh)
  have less: "?v < n" using n by (rule checked_succ_less)
  let ?t = "s\<lparr>sch_admissions := bt_insert ?i ?a (sch_admissions s)\<rparr>"
  have "shape_inv s'"
    using shape_update [OF I(1) a, of ?a] room less fresh bt_length_insert_fresh [OF fresh(1)]
    by (auto simp: shape_inv_def s' maps_wf_def ids_fresh_def within_limits_def
        pending_def custody_slots_def below_insert_next intro: below_mono less_imp_le)
  moreover have T: "admissions_inv ?t" "books_inv ?t"
    using update_inv [OF inv a, of ?a ?t] admission_okD [OF inv a] live st l
    by (auto simp: admission_ok_def)
  have "use_ok ?u" using R(2,3) by (auto simp: use_ok_def split: option.split)
  then have "admissions_inv s'"
    using T(1) by (auto simp: admissions_inv_def s')
  moreover have "books_inv s'"
  proof -
    have caps: "use_caps ?u = mset (dbl_lease m # (case rd of None \<Rightarrow> [] | Some x \<Rightarrow> [dbl_lease x]))"
      by (simp add: use_caps_def device_caps_def split: option.split)
    have "held s' = use_caps ?u + held ?t"
      by (simp add: held_def s' bt_total_insert_fresh [OF fresh(1)] ac_simps)
    moreover have "leases.custody (sch_ledger s) (held ?t)"
      using T(2) by (simp add: books_inv_def)
    ultimately have "leases.custody ledger (held s')"
      using leases.custody_issue [OF _ R(1)] unfolding caps by simp
    moreover have "use_host ?u =
        (case nur_mutable_host request of None \<Rightarrow> 0 | Some b \<Rightarrow> unat (bytes_of b))
        + (case nur_retained_host request of None \<Rightarrow> 0 | Some b \<Rightarrow> unat (bytes_of b))"
      by (simp add: use_host_def host_bytes_def split: option.split)
    then have "held_host s' = unat hr"
      using T(2) hr(1) by (simp add: books_inv_def held_host_def s' bt_total_insert_fresh [OF fresh(1)])
    ultimately show ?thesis
      using hr(2) by (simp add: books_inv_def s')
  qed
  moreover have "references_inv s'"
    using I(4) a l st
    by (auto simp: references_inv_def s' tally_insert_fresh [OF fresh(1)] sched_simps count_at_present)
  ultimately show ?thesis by (simp add: sched_inv_def)
qed

text \<open>What finishing a native use leaves behind when any output is retained.\<close>

definition retained_results :: "scheduler \<Rightarrow> native_use_record \<Rightarrow> (u64, native_result_record) btree" where
  "retained_results s u =
     (if nu_retained_device u \<noteq> None \<or> nu_retained_host u \<noteq> None
      then bt_insert (sch_next_native_result_id s)
        \<lparr>nr_retained_device = nu_retained_device u, nr_retained_host = nu_retained_host u\<rparr>
        (sch_native_results s)
      else sch_native_results s)"

lemma prepare_native_finish_Ok:
  assumes "prepare_native_finish s v = Ok p"
  obtains u a where "bt_get (sch_native_uses s) v = Some u"
    "bt_get (sch_admissions s) (nu_admission_id u) = Some a"
    "pnf_admission_id p = nu_admission_id u" "adm_active_uses a = pnf_next_uses p + 1"
    "native_finished_state (adm_state a) (pnf_next_uses p) (sch_revoked s) = Ok (pnf_next_state p)"
    "pnf_result_id p = (if nu_retained_device u \<noteq> None \<or> nu_retained_host u \<noteq> None
       then Some (sch_next_native_result_id s) else None)"
    "if nu_retained_device u \<noteq> None \<or> nu_retained_host u \<noteq> None
     then checked_add (sch_next_native_result_id s) 1 = Some (pnf_next_result_id p)
     else pnf_next_result_id p = sch_next_native_result_id s"
proof -
  obtain u where u: "bt_get (sch_native_uses s) v = Some u"
    using assms by (auto simp: prepare_native_finish_def)
  show ?thesis
    using assms u
    by (cases "nu_retained_device u \<noteq> None \<or> nu_retained_host u \<noteq> None")
      (auto simp: prepare_native_finish_def usize_sub_Some_iff intro: that)
qed

lemma finish_native_Ok:
  assumes ok: "finish_native_use_after_teardown s permit = (Ok r, s')"
  obtains u a n st h ledger next_id where "nup_brand permit = sch_brand s"
    "bt_get (sch_native_uses s) (nup_value permit) = Some u"
    "bt_get (sch_admissions s) (nu_admission_id u) = Some a" "adm_active_uses a = n + 1"
    "native_finished_state (adm_state a) n (sch_revoked s) = Ok st"
    "unat (host_reserved (sch_host s)) = unat h + host_bytes (nu_mutable_host u)"
    "release_lease (sch_ledger s) (dbl_lease (nu_mutable_device u)) = (Ok (), ledger)"
    "if nu_retained_device u \<noteq> None \<or> nu_retained_host u \<noteq> None
     then checked_add (sch_next_native_result_id s) 1 = Some next_id
     else next_id = sch_next_native_result_id s"
    "r = (if nu_retained_device u \<noteq> None \<or> nu_retained_host u \<noteq> None
     then Some \<lparr>nrl_brand = sch_brand s, nrl_value = sch_next_native_result_id s\<rparr> else None)"
    "s' = s\<lparr>sch_native_uses := bt_remove (nup_value permit) (sch_native_uses s),
        sch_ledger := ledger,
        sch_admissions := bt_insert (nu_admission_id u)
          (a\<lparr>adm_active_uses := n, adm_state := st\<rparr>) (sch_admissions s),
        sch_native_results := retained_results s u,
        sch_host := (sch_host s)\<lparr>host_reserved := h\<rparr>,
        sch_next_native_result_id := next_id\<rparr>"
proof -
  obtain p where p: "prepare_native_finish s (nup_value permit) = Ok p"
    and brand: "nup_brand permit = sch_brand s"
    using ok by (auto simp: finish_native_use_after_teardown_def)
  from p show ?thesis
  proof (rule prepare_native_finish_Ok)
    fix u a
    assume P: "bt_get (sch_native_uses s) (nup_value permit) = Some u"
      "bt_get (sch_admissions s) (nu_admission_id u) = Some a"
      "pnf_admission_id p = nu_admission_id u" "adm_active_uses a = pnf_next_uses p + 1"
      "native_finished_state (adm_state a) (pnf_next_uses p) (sch_revoked s) = Ok (pnf_next_state p)"
      "pnf_result_id p = (if nu_retained_device u \<noteq> None \<or> nu_retained_host u \<noteq> None
         then Some (sch_next_native_result_id s) else None)"
      "if nu_retained_device u \<noteq> None \<or> nu_retained_host u \<noteq> None
       then checked_add (sch_next_native_result_id s) 1 = Some (pnf_next_result_id p)
       else pnf_next_result_id p = sch_next_native_result_id s"
    obtain q ledger where q: "release_bytes (sch_ledger s) (nu_mutable_device u) = (q, ledger)"
      by (cases "release_bytes (sch_ledger s) (nu_mutable_device u)")
    show ?thesis
    proof (cases "next_host_release s (nu_mutable_host u)")
      case (Ok h)
      then have h: "unat (host_reserved (sch_host s)) = unat h + host_bytes (nu_mutable_host u)"
        by simp
      note steps = finish_native_use_after_teardown_def Let_def retained_results_def
      note del = next_host_release_Ok_iff
      have "\<exists>y. q = Ok y"
        using ok p P(1,2,3) q Ok brand by (cases q) (auto simp: steps simp del: del)
      then obtain y where y: "q = Ok y" ..
      then have rel: "release_lease (sch_ledger s) (dbl_lease (nu_mutable_device u)) = (Ok (), ledger)"
        using release_bytes_cases [OF q] by auto
      show ?thesis
        by (rule that [OF brand P(1,2,4,5) h rel P(7)])
          (use ok p P(1,2,3,6) q y Ok brand in \<open>auto simp: steps simp del: del\<close>)
    qed (use ok p P(1,2,3) brand in
        \<open>auto simp: finish_native_use_after_teardown_def simp del: next_host_release_Ok_iff\<close>)
  qed
qed

lemma finish_native_inv:
  assumes inv: "sched_inv s" and ok: "finish_native_use_after_teardown s permit = (Ok r, s')"
  shows "sched_inv s'"
  using ok
proof (rule finish_native_Ok)
  fix u :: native_use_record and a :: admission and n st h ledger next_id
  let ?i = "nu_admission_id u" and ?v = "nup_value permit" and ?w = "sch_next_native_result_id s"
  let ?a = "a\<lparr>adm_active_uses := n, adm_state := st\<rparr>"
  assume u: "bt_get (sch_native_uses s) ?v = Some u"
    and a: "bt_get (sch_admissions s) ?i = Some a" and n: "adm_active_uses a = n + 1"
    and st: "native_finished_state (adm_state a) n (sch_revoked s) = Ok st"
    and h: "unat (host_reserved (sch_host s)) = unat h + host_bytes (nu_mutable_host u)"
    and rel: "release_lease (sch_ledger s) (dbl_lease (nu_mutable_device u)) = (Ok (), ledger)"
    and next_id: "if nu_retained_device u \<noteq> None \<or> nu_retained_host u \<noteq> None
     then checked_add ?w 1 = Some next_id else next_id = ?w"
    and s': "s' = s\<lparr>sch_native_uses := bt_remove ?v (sch_native_uses s), sch_ledger := ledger,
        sch_admissions := bt_insert ?i ?a (sch_admissions s),
        sch_native_results := retained_results s u,
        sch_host := (sch_host s)\<lparr>host_reserved := h\<rparr>, sch_next_native_result_id := next_id\<rparr>"
  note I = sched_invD [OF inv]
  note W = maps_wfD [OF I(5)]
  have native: "\<not> is_legacy (adm_lease a)" using native_use_target [OF inv u] a by auto
  have fresh: "bt_get (sch_native_results s) ?w = None"
    using I(6) by (auto simp: ids_fresh_def intro: below_fresh)
  have below: "below (sch_native_results s) ?w" using I(6) by (simp add: ids_fresh_def)
  have results: "bt_wf (retained_results s u)" "below (retained_results s u) next_id"
    "length (retained_results s u) \<le> Suc (length (sch_native_results s))"
    "bt_total result_caps (retained_results s u) =
       device_caps (nu_retained_device u) + bt_total result_caps (sch_native_results s)"
    "bt_total result_host (retained_results s u) =
       host_bytes (nu_retained_host u) + bt_total result_host (sch_native_results s)"
    using W(7) next_id below fresh bt_length_insert_fresh [OF fresh]
    by (auto simp: retained_results_def bt_total_insert_fresh result_caps_def result_host_def
        device_caps_def host_bytes_def below_insert_next [OF below] checked_succ_less)
  let ?t = "s\<lparr>sch_admissions := bt_insert ?i ?a (sch_admissions s)\<rparr>"
  have T: "admissions_inv ?t" "books_inv ?t" "shape_inv ?t"
    using update_inv [OF inv a, of ?a ?t] admission_okD [OF inv a] st n native
      shape_update [OF I(1) a, of ?a]
    by (auto simp: admission_ok_def native_finished_state_Ok_iff elim!: state_ok.elims)
  have "shape_inv s'"
    using T(3) results(1-3) bt_length_remove [OF W(5) u]
    by (auto simp: shape_inv_def s' maps_wf_def ids_fresh_def within_limits_def
        pending_def custody_slots_def intro: below_remove)
  moreover have "admissions_inv s'"
  proof -
    have "result_ok x" if "bt_get (retained_results s u) k = Some x" for k x
      using that I(2) u
      by (fastforce simp: retained_results_def admissions_inv_def result_ok_def use_ok_def
          split: if_splits)
    then show ?thesis using T(1) by (auto simp: admissions_inv_def s')
  qed
  moreover have "books_inv s'"
  proof -
    have "bt_total use_caps (sch_native_uses s) =
        use_caps u + bt_total use_caps (bt_remove ?v (sch_native_uses s))"
      using bt_total_remove [OF W(5) u, of use_caps, symmetric] .
    then have "held ?t = add_mset (dbl_lease (nu_mutable_device u)) (held s')"
      by (simp add: held_def s' results(4) use_caps_def ac_simps)
    moreover have "leases.custody (sch_ledger s) (held ?t)"
      using T(2) by (simp add: books_inv_def)
    ultimately have "leases.custody (sch_ledger s)
        (add_mset (dbl_lease (nu_mutable_device u)) (held s'))" by simp
    then have "leases.custody ledger (held s')"
      by (rule leases.custody_revoke) (simp add: lease_revokes_def rel)
    moreover have "bt_total use_host (sch_native_uses s) =
        use_host u + bt_total use_host (bt_remove ?v (sch_native_uses s))"
      using bt_total_remove [OF W(5) u, of use_host, symmetric] .
    then have "held_host s' = unat h"
      using T(2) h by (simp add: books_inv_def held_host_def s' results(5) use_host_def)
    moreover have "h \<le> host_reserved (sch_host s)"
      using h by (simp add: word_le_nat_alt)
    ultimately show ?thesis
      using I(3) by (auto simp: books_inv_def s')
  qed
  moreover have "references_inv s'"
  proof -
    note Q = finished_state_quiet [OF disjI1 [OF st]]
    have "tally use_target (bt_remove ?v (sch_native_uses s)) k =
        tally use_target (sch_native_uses s) k - (if k = ?i then 1 else 0)"
      "0 < tally use_target (sch_native_uses s) ?i" for k
      using tally_remove [OF W(5) u, of use_target k] tally_pos [OF W(5) u, of use_target ?i]
      by (auto simp: use_target_def)
    with quiet_counts [of a] quiet_counts [of ?a] Q(1,2) show ?thesis
      using I(4) a n native
      by (auto simp: references_inv_def s' count_at_present legacy_uses_def native_uses_def)
  qed
  ultimately show ?thesis by (simp add: sched_inv_def)
qed

lemma quarantine_native_use_Ok:
  assumes "quarantine_native_use s permit = (Ok r, s')"
  obtains u a h where "nup_brand permit = sch_brand s"
    "bt_get (sch_native_uses s) (nup_value permit) = Some u"
    "bt_get (sch_admissions s) (nu_admission_id u) = Some a" "held_handle (adm_state a) = Some h"
    "adm_state a = InUse h \<or> (\<exists>b. adm_state a = Draining (Some h) b) \<or>
      adm_state a = Quarantined (Some h)"
    "s' = s\<lparr>sch_admissions := bt_insert (nu_admission_id u)
          (a\<lparr>adm_state := Quarantined (Some h)\<rparr>) (sch_admissions s),
        sch_native_uses := bt_remove (nup_value permit) (sch_native_uses s),
        sch_native_quarantined_uses :=
          bt_insert (nup_value permit) u (sch_native_quarantined_uses s)\<rparr>"
proof -
  have st: "(case st of InUse h \<Rightarrow> Ok (Some h) | Draining (Some h) b \<Rightarrow> Ok (Some h)
      | Quarantined (Some h) \<Rightarrow> Ok (Some h) | _ \<Rightarrow> Err e) = Ok r \<longleftrightarrow>
    (\<exists>h. r = Some h \<and> (st = InUse h \<or> (\<exists>b. st = Draining (Some h) b) \<or> st = Quarantined (Some h)))"
    for st r and e :: scheduler_error
    by (auto split: admission_state.splits option.splits)
  show ?thesis
    using assms by (auto simp: quarantine_native_use_def st set_state_def intro: that)
qed

lemma quarantine_native_use_inv:
  assumes inv: "sched_inv s" and ok: "quarantine_native_use s permit = (Ok r, s')"
  shows "sched_inv s'"
  using ok
proof (rule quarantine_native_use_Ok)
  fix u :: native_use_record and a :: admission and h
  let ?i = "nu_admission_id u" and ?v = "nup_value permit"
  let ?a = "a\<lparr>adm_state := Quarantined (Some h)\<rparr>"
  assume u: "bt_get (sch_native_uses s) ?v = Some u"
    and a: "bt_get (sch_admissions s) ?i = Some a"
    and h: "held_handle (adm_state a) = Some h"
    and st: "adm_state a = InUse h \<or> (\<exists>b. adm_state a = Draining (Some h) b) \<or>
      adm_state a = Quarantined (Some h)"
    and s': "s' = s\<lparr>sch_admissions := bt_insert ?i ?a (sch_admissions s),
        sch_native_uses := bt_remove ?v (sch_native_uses s),
        sch_native_quarantined_uses := bt_insert ?v u (sch_native_quarantined_uses s)\<rparr>"
  note I = sched_invD [OF inv]
  note W = maps_wfD [OF I(5)]
  have native: "\<not> is_legacy (adm_lease a)" using native_use_target [OF inv u] a by auto
  have fresh: "bt_get (sch_native_quarantined_uses s) ?v = None"
    using I(6) u unfolding ids_fresh_def by (metis option.distinct(1))
  have less: "?v < sch_next_native_use_id s"
    using I(6) u by (auto simp: ids_fresh_def below_def)
  let ?t = "s\<lparr>sch_admissions := bt_insert ?i ?a (sch_admissions s)\<rparr>"
  have T: "admissions_inv ?t" "books_inv ?t" "shape_inv ?t"
    using update_inv [OF inv a, of ?a ?t] admission_okD [OF inv a] h native
      shape_update [OF I(1) a, of ?a]
    by (auto simp: admission_ok_def)
  have "shape_inv s'"
    using T(3) fresh less bt_length_remove [OF W(5) u] bt_length_insert_fresh [OF fresh]
    by (auto simp: shape_inv_def s' maps_wf_def ids_fresh_def within_limits_def
        pending_def custody_slots_def intro: below_remove below_insert)
  moreover have "admissions_inv s'"
    using T(1) I(2) u by (auto simp: admissions_inv_def s')
  moreover have "books_inv s'"
  proof -
    have "held s' = held ?t" "held_host s' = held_host ?t"
      using bt_total_remove [OF W(5) u, of use_caps, symmetric]
        bt_total_remove [OF W(5) u, of use_host, symmetric]
      by (simp_all add: held_def held_host_def s' bt_total_insert_fresh [OF fresh] ac_simps)
    then show ?thesis using T(2) by (simp add: books_inv_def s')
  qed
  moreover have "references_inv s'"
  proof -
    have quiet: "quiet (adm_state a)" using st admission_okD [OF inv a]
      by (auto simp: quiet_def admission_ok_def elim: state_ok.elims)
    have "tally use_target (bt_remove ?v (sch_native_uses s)) k =
        tally use_target (sch_native_uses s) k - (if k = ?i then 1 else 0)"
      "tally use_target (bt_insert ?v u (sch_native_quarantined_uses s)) k =
        (if k = ?i then 1 else 0) + tally use_target (sch_native_quarantined_uses s) k"
      "0 < tally use_target (sch_native_uses s) ?i" for k
      using tally_remove [OF W(5) u, of use_target k] tally_pos [OF W(5) u, of use_target ?i]
        tally_insert_fresh [OF fresh, of use_target u k]
      by (auto simp: use_target_def)
    with quiet_counts [OF quiet] show ?thesis
      using I(4) a native
      by (auto simp: references_inv_def s' count_at_present legacy_uses_def native_uses_def
          native_loads_def load_commands_def evict_commands_def)
  qed
  ultimately show ?thesis by (simp add: sched_inv_def)
qed

lemma discard_native_result_Ok:
  assumes ok: "discard_native_result s lease = (Ok r, s')"
  obtains x h ledger where "nrl_brand lease = sch_brand s"
    "bt_get (sch_native_results s) (nrl_value lease) = Some x"
    "unat (host_reserved (sch_host s)) = unat h + host_bytes (nr_retained_host x)"
    "case nr_retained_device x of None \<Rightarrow> ledger = sch_ledger s
      | Some d \<Rightarrow> release_lease (sch_ledger s) (dbl_lease d) = (Ok (), ledger)"
    "s' = s\<lparr>sch_native_results := bt_remove (nrl_value lease) (sch_native_results s),
        sch_ledger := ledger, sch_host := (sch_host s)\<lparr>host_reserved := h\<rparr>\<rparr>"
proof -
  note del = next_host_release_Ok_iff
  obtain x h where x: "bt_get (sch_native_results s) (nrl_value lease) = Some x"
    and h: "next_host_release s (nr_retained_host x) = Ok h" and brand: "nrl_brand lease = sch_brand s"
    using ok by (auto simp: discard_native_result_def simp del: del)
  note h' = h [unfolded next_host_release_Ok_iff]
  show ?thesis
  proof (cases "nr_retained_device x")
    case None
    with ok x h brand show ?thesis
      by (intro that [OF brand x h', of "sch_ledger s"])
        (auto simp: discard_native_result_def Let_def simp del: del)
  next
    case (Some d)
    obtain q ledger where q: "release_bytes (sch_ledger s) d = (q, ledger)"
      by (cases "release_bytes (sch_ledger s) d")
    obtain y where y: "q = Ok y"
      using ok x h brand Some q
      by (cases q) (auto simp: discard_native_result_def Let_def simp del: del)
    have rel: "release_lease (sch_ledger s) (dbl_lease d) = (Ok (), ledger)"
      using release_bytes_cases [OF q] y by auto
    with ok x h brand Some q y show ?thesis
      by (intro that [OF brand x h', of ledger])
        (auto simp: discard_native_result_def Let_def simp del: del)
  qed
qed

lemma discard_native_result_inv:
  assumes inv: "sched_inv s" and ok: "discard_native_result s lease = (Ok r, s')"
  shows "sched_inv s'"
  using ok
proof (rule discard_native_result_Ok)
  fix x :: native_result_record and h ledger
  let ?v = "nrl_value lease"
  assume x: "bt_get (sch_native_results s) ?v = Some x"
    and h: "unat (host_reserved (sch_host s)) = unat h + host_bytes (nr_retained_host x)"
    and rel: "case nr_retained_device x of None \<Rightarrow> ledger = sch_ledger s
      | Some d \<Rightarrow> release_lease (sch_ledger s) (dbl_lease d) = (Ok (), ledger)"
    and s': "s' = s\<lparr>sch_native_results := bt_remove ?v (sch_native_results s),
        sch_ledger := ledger, sch_host := (sch_host s)\<lparr>host_reserved := h\<rparr>\<rparr>"
  note I = sched_invD [OF inv]
  note W = maps_wfD [OF I(5)]
  have "shape_inv s'"
    using shape_other(2) [OF shape_other(1) [OF shape_remove(5) [OF I(1)]]] by (simp add: s')
  moreover have "admissions_inv s'"
    using I(2) by (auto simp: admissions_inv_def s')
  moreover have "books_inv s'"
  proof -
    have "held s = device_caps (nr_retained_device x) + held s'"
      using bt_total_remove [OF W(7) x, of result_caps, symmetric]
      by (simp add: held_def s' result_caps_def ac_simps)
    moreover have "leases.custody (sch_ledger s) (held s)"
      using I(3) by (simp add: books_inv_def)
    ultimately have "leases.custody ledger (held s')"
      using rel by (auto simp: device_caps_def lease_revokes_def
          intro: leases.custody_revoke split: option.splits)
    moreover have "held_host s' = unat h"
      using I(3) h bt_total_remove [OF W(7) x, of result_host, symmetric]
      by (simp add: books_inv_def held_host_def s' result_host_def)
    moreover have "h \<le> host_reserved (sch_host s)"
      using h by (simp add: word_le_nat_alt)
    ultimately show ?thesis
      using I(3) by (auto simp: books_inv_def s')
  qed
  moreover have "references_inv s'"
    using I(4) by (simp add: references_inv_def s')
  ultimately show ?thesis by (simp add: sched_inv_def)
qed

end
