(* ===== verification/Placement_Properties.thy ===== *)
theory Placement_Properties
  imports Placement_Machine
begin

text \<open>
  The properties of the reservation ledger: capacity, atomicity, the soundness of a prepared plan
  and its commit, release at most once, staleness, and what happens to leases of zero bytes. The
  small grant they are instantiated at comes first.
\<close>

subsection \<open>A small grant to instantiate the properties at\<close>

definition sample_digest :: string where
  "sample_digest = ''sha256:'' @ replicate 64 CHR ''0''"

definition sample_workload :: "string \<Rightarrow> u64 \<Rightarrow> workload" where
  "sample_workload p bytes =
     \<lparr>wl_profile_id = p, wl_artifact_id = ''model'',
      wl_memory_estimate =
        \<lparr>est_weights = bytes, est_kv_cache = 0, est_workspace = 0, est_headroom = 0\<rparr>,
      wl_placement = EligibleDevices [''gpu0'']\<rparr>"

definition sample_device :: device where
  "sample_device =
     \<lparr>dev_id = ''gpu0'', dev_gfx_isa = ''gfx1100'', dev_total_bytes = 100,
      dev_reserved_bytes = 10, dev_availability = Available\<rparr>"

definition sample_request :: "workload list \<Rightarrow> plan_request" where
  "sample_request ws =
     \<lparr>req_schema_version = 1, req_devices = [sample_device],
      req_artifacts = [\<lparr>art_id = ''model'', art_digest = sample_digest\<rparr>],
      req_workloads = ws,
      req_commitments = [\<lparr>com_device_id = ''gpu0'', com_estimated_bytes = 20\<rparr>]\<rparr>"

definition sample_ledger :: reservation_ledger where
  "sample_ledger =
     \<lparr>led_brand = 7, led_snapshot = snapshot_from_request (sample_request []),
      led_dynamic_reserved = [], led_active_leases = [], led_revision = 0,
      led_next_lease_id = 1\<rparr>"

lemma sample_matches [simp]: "matches_configured_architecture ''gfx1100''"
  by code_simp

lemma sample_digest_canonical [simp]: "canonical_digest sample_digest"
proof -
  have digit: "is_ascii_digit CHR ''0''" by code_simp
  have "list_all (\<lambda>b. is_ascii_digit b \<or> CHR ''a'' \<le> b \<and> b \<le> CHR ''f'')
      (replicate 64 CHR ''0'')"
    using digit by (simp only: list_all_iff in_set_replicate) simp
  then show ?thesis
    unfolding canonical_digest_def sample_digest_def by (simp add: take_Cons' drop_Cons')
qed

lemma sample_ids [simp]: "stable_id ''gpu0''" "stable_id ''model''" "stable_id ''chat''"
    "stable_id ''embed''" "\<not> trims_to_empty ''gfx1100''"
proof -
  show "stable_id ''gpu0''" "stable_id ''model''" "stable_id ''chat''" "stable_id ''embed''"
    by code_simp+
  have "stable_id ''gfx1100''" by code_simp
  then show "\<not> trims_to_empty ''gfx1100''" by (rule stable_id_not_blank)
qed

lemma sample_valid_empty: "valid_request (sample_request [])"
  by (simp add: valid_request_def sample_request_def SCHEMA_VERSION_def valid_device_def
      valid_artifact_def valid_commitment_def sample_device_def)

lemma sample_valid: "valid_request (sample_request [sample_workload ''chat'' 40])"
  using sample_valid_empty
  by (simp add: valid_request_def sample_request_def sample_workload_def valid_workload_def
      estimate_bytes_def)

lemma sample_new: "ledger_new 7 (sample_request ws) = Ok sample_ledger"
  by (simp add: ledger_new_def snapshot_from_request_def sample_request_def sample_ledger_def
      Let_def remaining_after_reservations_def sample_device_def checked_sub_def
      device_indices_def bt_get_Cons)

subsection \<open>Properties\<close>

lemma ledger_inv_capacity:
  assumes "ledger_inv l" and "d \<in> set (snap_devices (led_snapshot l))"
  shows "unat (dev_reserved_bytes d) + bytes_on (dev_id d) (commitment_entries (led_snapshot l))
    + leased_on (led_active_leases l) (dev_id d) \<le> unat (dev_total_bytes d)"
  using assms by (auto simp: ledger_inv_def fits_def)

text \<open>C29: whatever sequence of calls a client makes on a ledger created from a checked request,
  the bytes the host reserved, the bytes it committed and the bytes of every active lease on a
  device never exceed the capacity the host granted there.\<close>

theorem ledger_capacity_safe:
  assumes "valid_request r" and "ledger_new b r = Ok l" and "d \<in> set (req_devices r)"
  shows "unat (dev_reserved_bytes d)
      + bytes_on (dev_id d) (commitment_entries (snapshot_from_request r))
      + leased_on (led_active_leases (run ledger_step l cs)) (dev_id d) \<le> unat (dev_total_bytes d)"
proof -
  note N = ledger_new_inv [OF assms(1,2)]
  have "led_snapshot (run ledger_step l cs) = snapshot_from_request r"
    using ledger_run_snapshot [OF N(1)] N(2) by simp
  then show ?thesis
    using ledger_inv_capacity [OF ledger.run_inv [OF N(1), of cs], of d] assms(3)
    by (simp add: snapshot_from_request_def)
qed

theorem ledger_capacity_safe_witness:
  "10 + 20 + leased_on (led_active_leases (run ledger_step sample_ledger
      [ReserveBatch ''gpu0'' (nonzero 30) None, ReserveBatch ''gpu0'' (nonzero 60) None])) ''gpu0''
    \<le> 100"
  using ledger_capacity_safe [OF sample_valid_empty sample_new, of sample_device
      "[ReserveBatch ''gpu0'' (nonzero 30) None, ReserveBatch ''gpu0'' (nonzero 60) None]"]
  by (simp add: sample_request_def sample_device_def snapshot_from_request_def
      commitment_entries_def)

text \<open>No call on a ledger panics, and a refused call leaves no trace: a run reaches the same
  ledger as the run of its accepted calls alone.\<close>

theorem ledger_refusals_leave_no_trace:
  assumes "valid_request r" and "ledger_new b r = Ok l"
  shows "Panic \<notin> set (outcomes ledger_step l cs) \<and>
    run ledger_step l (accepted ledger_step l cs) = run ledger_step l cs"
  using ledger_new_inv(1) [OF assms] by (simp add: ledger.run_no_panic ledger.run_accepted)

theorem ledger_refusals_leave_no_trace_witness:
  "Panic \<notin> set (outcomes ledger_step sample_ledger [ReserveBatch ''gpu1'' (nonzero 30) None])"
  using ledger_refusals_leave_no_trace [OF sample_valid_empty sample_new] by blast

text \<open>The planner's chain of checked subtractions (device by device, commitment by commitment,
  reservation by reservation, each of which can refuse) decides exactly one inequality per device,
  and on success returns the exact difference for each device.\<close>

theorem remaining_capacity_exact:
  assumes "distinct (map dev_id (snap_devices snap))" and "bt_wf dyn"
  shows "remaining_after_reservations snap dyn = Ok left \<longleftrightarrow>
    fits snap dyn \<and> length left = length (snap_devices snap) \<and>
    (\<forall>i < length left. unat (left ! i) =
       unat (dev_total_bytes (snap_devices snap ! i))
         - unat (dev_reserved_bytes (snap_devices snap ! i))
         - bytes_on (dev_id (snap_devices snap ! i)) (commitment_entries snap)
         - reserved_on dyn (dev_id (snap_devices snap ! i)))"
proof -
  let ?ds = "snap_devices snap"
  have le: "unat (dev_reserved_bytes (?ds ! i)) + bytes_on (dev_id (?ds ! i)) (commitment_entries snap)
      + reserved_on dyn (dev_id (?ds ! i)) \<le> unat (dev_total_bytes (?ds ! i))"
    if "fits snap dyn" "i < length ?ds" for i
    using that by (auto simp: fits_def)
  show ?thesis
    using le by (fastforce simp: remaining_Ok_iff [OF assms] list_all2_conv_all_nth)
qed

lemma sample_inv [simp]: "ledger_inv sample_ledger"
  using ledger_new_inv(1) [OF sample_valid_empty sample_new] .

lemma sample_snapshot: "distinct (map dev_id (snap_devices (snapshot_from_request (sample_request ws))))"
  by (simp add: snapshot_from_request_def sample_request_def)

theorem remaining_capacity_exact_witness:
  "remaining_after_reservations (snapshot_from_request (sample_request []))
      [(''gpu0'', 50)] = Ok [20]"
  using remaining_capacity_exact [OF sample_snapshot, of "[(''gpu0'', 50)]" "[]" "[20]"]
  by (simp add: fits_def snapshot_from_request_def sample_request_def sample_device_def
      commitment_entries_def reserved_on_def bt_get_Cons bt_wf_Cons)

text \<open>A prepared plan admits every workload of the request, in order, with its own artifact
  digest and estimate, on a declared, supported and online device that the workload names; and
  the plan's bytes, added to what is reserved, committed and leased, still fit every device.\<close>

theorem prepare_sound:
  assumes "ledger_inv l" and "ledger_prepare l r = Ok p"
  shows "list_all2 (admits (req_devices r) (req_artifacts r)) (req_workloads r) (pp_placements p) \<and>
    (\<forall>d \<in> set (req_devices r).
       unat (dev_reserved_bytes d) + bytes_on (dev_id d) (commitment_entries (led_snapshot l))
         + leased_on (led_active_leases l) (dev_id d)
         + bytes_on (dev_id d) (placement_entries (pp_placements p)) \<le> unat (dev_total_bytes d))"
  using prepared_placements(2,5) [OF assms] ledger_invD(5) [OF assms(1)] by simp

definition sample_plan :: "u64 \<Rightarrow> prepared_plan" where
  "sample_plan bytes =
     \<lparr>pp_brand = 7, pp_revision = 0, pp_schema_version = 1,
      pp_placements =
        [\<lparr>adm_profile_id = ''chat'', adm_artifact_id = ''model'', adm_digest = sample_digest,
          adm_device_id = ''gpu0'',
          adm_memory_estimate =
            \<lparr>est_weights = bytes, est_kv_cache = 0, est_workspace = 0, est_headroom = 0\<rparr>,
          adm_total_estimated_bytes = bytes\<rparr>]\<rparr>"

lemma sample_remaining:
  "remaining_after_reservations (snapshot_from_request (sample_request ws)) [] = Ok [70]"
  by (simp add: snapshot_from_request_def sample_request_def Let_def
      remaining_after_reservations_def sample_device_def checked_sub_def
      device_indices_def bt_get_Cons index_def)

lemma sample_ledger_fields:
  "led_snapshot sample_ledger = snapshot_from_request (sample_request ws)"
  "led_brand sample_ledger = 7" "led_dynamic_reserved sample_ledger = []"
  "led_active_leases sample_ledger = []" "led_revision sample_ledger = 0"
  "led_next_lease_id sample_ledger = 1"
  by (simp_all add: sample_ledger_def snapshot_from_request_def sample_request_def)

lemma sample_placements:
  "bytes \<le> 70 \<Longrightarrow> prepare_placements (sample_request [sample_workload ''chat'' bytes]) [70] =
     Ok (pp_placements (sample_plan bytes))"
proof -
  assume "bytes \<le> 70"
  moreover have "total_estimate
      \<lparr>est_weights = bytes, est_kv_cache = 0, est_workspace = 0, est_headroom = 0\<rparr> = Ok bytes"
    by (simp add: estimate_bytes_def)
  ultimately show ?thesis
    by (simp add: prepare_placements_def sample_request_def sample_workload_def sample_plan_def
        artifacts_by_id_def device_indices_def bt_get_Cons select_device_def index_def
        sample_device_def not_less del: total_estimate_Ok_iff)
qed

lemma sample_prepare:
  assumes "bytes \<le> 70"
  shows "ledger_prepare sample_ledger (sample_request [sample_workload ''chat'' bytes]) =
    Ok (sample_plan bytes)"
  using sample_placements [OF assms] sample_remaining [of "[sample_workload ''chat'' bytes]"]
  by (simp add: ledger_prepare_def sample_ledger_fields(2-)
      sample_ledger_fields(1) [of "[sample_workload ''chat'' bytes]"])
    (simp add: sample_plan_def sample_request_def)

theorem prepare_sound_witness:
  "10 + 20 + bytes_on ''gpu0'' (placement_entries (pp_placements (sample_plan 40))) \<le> 100"
  using prepare_sound [OF sample_inv sample_prepare [of 40]]
  by (simp add: sample_request_def sample_device_def sample_ledger_def snapshot_from_request_def
      commitment_entries_def)

text \<open>For a workload with a list of eligible devices, the planner takes the first device of the
  list that is declared, supported, online and still large enough, and refuses the workload when
  no device of the list is.\<close>

theorem eligible_devices_first_fit:
  assumes "wl_placement w = EligibleDevices names" and "length remaining = length devices"
  shows "select_device w devices (device_indices devices) remaining required =
    (case List.find (hosts_named devices remaining required) names of
       None \<Rightarrow> Err (NoEligibleDevice (wl_profile_id w))
     | Some d \<Rightarrow> Ok (the (bt_get (device_indices devices) d)))"
proof (cases "List.find (hosts_named devices remaining required) names")
  case None
  then show ?thesis using assms by (simp add: select_device_def first_eligible_find)
next
  case (Some d)
  then have "hosts_named devices remaining required d" by (auto simp: find_Some_iff)
  then obtain i where "bt_get (device_indices devices) d = Some i"
    by (auto simp: hosts_named_def split: option.splits)
  with Some assms show ?thesis by (simp add: select_device_def first_eligible_find)
qed

theorem eligible_devices_first_fit_witness:
  "select_device (sample_workload ''chat'' 40) [sample_device] (device_indices [sample_device])
     [30] 40 = Err (NoEligibleDevice ''chat'')"
  using eligible_devices_first_fit [of "sample_workload ''chat'' 40" "[''gpu0'']" "[30]"
      "[sample_device]" 40]
  by (simp add: sample_workload_def hosts_named_def can_host_def sample_device_def
      device_indices_def bt_get_Cons)

text \<open>A plan that was prepared on a ledger commits on that ledger: as long as the lease
  identifiers and the revision do not overflow, no capacity check of the commit can fail, and the
  leases carry the plan's placements in order.\<close>

theorem prepared_plan_commits:
  assumes "ledger_inv l" and "ledger_prepare l r = Ok p"
    and "unat (led_next_lease_id l) + length (pp_placements p) < 2 ^ 64"
    and "unat (led_revision l) + 1 < 2 ^ 64"
  shows "\<exists>leases l'. ledger_commit l p = (Ok leases, l') \<and> map rl_placement leases = pp_placements p"
proof -
  note P = prepared_placements [OF assms(1,2)]
  let ?es = "placement_entries (pp_placements p)"
  have known: "fst ` set ?es \<subseteq> dev_id ` set (snap_devices (led_snapshot l))"
    using admitted_devices [OF P(2)] by (simp add: P(1) snapshot_from_request_def)
  obtain m left where m: "add_reservations ?es (led_dynamic_reserved l) = Ok m"
    "remaining_after_reservations (led_snapshot l) m = Ok left"
    using add_reservations_capacity [OF assms(1) known] P(1,5)
    by (auto simp: snapshot_from_request_def)
  obtain i rev :: u64 where i: "unat i = unat (led_next_lease_id l) + length ?es"
    and rev: "unat rev = unat (led_revision l) + 1"
    using assms(3,4) unat_represents by (fastforce simp: placement_entries_def)
  define c where "c = \<lparr>rc_dynamic_reserved = m, rc_first_lease_id = led_next_lease_id l,
      rc_next_lease_id = i, rc_next_revision = rev\<rparr>"
  have c: "prepare_reservation l ?es = Ok c"
    using m i rev by (simp add: prepare_reservation_Ok_iff c_def)
  then show ?thesis
    using P(3,4) committed_leases(1) [OF c] by (simp add: ledger_commit_Ok_iff)
qed

theorem prepared_plan_commits_witness:
  "\<exists>leases l'. ledger_commit sample_ledger (sample_plan 40) = (Ok leases, l')"
  using prepared_plan_commits [OF sample_inv sample_prepare [of 40]]
  by (auto simp: sample_plan_def sample_ledger_def)

text \<open>A commit issues exactly one fresh lease per placement, with the placement's device and
  bytes, keeps every lease that was live, and raises each device's leased bytes by what the plan
  places there.\<close>

theorem commit_issues_leases:
  assumes "ledger_inv l" and "ledger_commit l p = (Ok leases, l')"
  shows "map rl_placement leases = pp_placements p \<and>
    (\<forall>x \<in> set leases. cap_device_id (rl_lease x) = adm_device_id (rl_placement x) \<and>
       cap_reserved_bytes (rl_lease x) = adm_total_estimated_bytes (rl_placement x)) \<and>
    distinct (map rl_lease leases) \<and> set (map rl_lease leases) \<inter> live_leases l = {} \<and>
    live_leases l' = live_leases l \<union> set (map rl_lease leases) \<and>
    leased_on (led_active_leases l') d =
      leased_on (led_active_leases l) d + bytes_on d (placement_entries (pp_placements p))"
proof -
  let ?es = "placement_entries (pp_placements p)"
  obtain c where c: "prepare_reservation l ?es = Ok c" and l': "l' = apply_reservation l c ?es"
    and leases: "leases = map (\<lambda>(q, k). \<lparr>rl_lease = k, rl_placement = q\<rparr>)
            (zip (pp_placements p) (lease_capabilities l ?es c))"
    using assms(2) by (auto simp: ledger_commit_Ok_iff)
  note A = apply_reservation_inv [OF assms(1) c, folded l']
  note C = committed_leases [OF c, folded leases]
  show ?thesis
    using C reservation_live [OF assms(1) c, folded l'] A(6) [of d]
      ledger_invD(5) [OF assms(1), of d] ledger_invD(5) [OF A(1), of d]
    by auto
qed

definition sample_committed :: "reservation_lease list \<times> reservation_ledger" where
  "sample_committed =
     (case ledger_commit sample_ledger (sample_plan 40) of (Ok leases, l') \<Rightarrow> (leases, l'))"

lemma sample_commit:
  "ledger_commit sample_ledger (sample_plan 40) = (Ok (fst sample_committed), snd sample_committed)"
proof -
  have "(\<exists>leases l'. ledger_commit sample_ledger (sample_plan 40) = (Ok leases, l'))"
    by (simp add: ledger_commit_def sample_ledger_def sample_plan_def prepare_reservation_def
        u64_of_usize_def checked_add_def snapshot_from_request_def sample_request_def Let_def
        remaining_after_reservations_def sample_device_def checked_sub_def
        device_indices_def bt_get_Cons index_def)
  then show ?thesis by (auto simp: sample_committed_def)
qed

theorem commit_issues_leases_witness:
  "leased_on (led_active_leases (snd sample_committed)) ''gpu0'' = 40"
  using commit_issues_leases [OF sample_inv sample_commit, of "''gpu0''"]
  by (simp add: sample_ledger_def sample_plan_def)

text \<open>An in-process reservation of one or two extents succeeds exactly when every device it
  names is declared, supported and online, every device has room for all of its extents at once,
  and neither the lease identifiers nor the revision overflow.\<close>

theorem reserve_bytes_batch_succeeds_iff:
  assumes "ledger_inv l"
  shows "is_ok (fst (reserve_bytes_batch l d b second)) \<longleftrightarrow>
    (\<forall>x \<in> set (map fst (batch_entries d b second)). reservable l x) \<and>
    has_room l (batch_entries d b second)"
proof -
  note I = ledger_invD [OF assms]
  let ?es = "batch_entries d b second"
  have req: "require_reservable_device l x = Ok u \<longleftrightarrow> reservable l x" for x u
    by (simp add: require_reservable_Ok_iff [OF I(1)] reservable_def)
  have granted: "require_reservable_device l x = Ok ()" if "reservable l x" for x
    using that by (simp add: req)
  have known: "fst ` set ?es \<subseteq> dev_id ` set (snap_devices (led_snapshot l))"
    if "\<forall>x \<in> set (map fst ?es). reservable l x"
    using that by (force simp: reservable_def)
  show ?thesis
  proof
    assume "is_ok (fst (reserve_bytes_batch l d b second))"
    then obtain r l' where ok: "reserve_bytes_batch l d b second = (Ok r, l')"
      by (cases "reserve_bytes_batch l d b second") (auto simp: is_ok_iff)
    note B = reserve_bytes_batch_Ok [OF ok]
    have "\<forall>x \<in> set (map fst ?es). reservable l x"
      using B(2,3) by (auto simp: batch_entries_def req split: option.splits)
    with prepare_reservation_defined_iff [OF assms known] B(1)
    show "(\<forall>x \<in> set (map fst ?es). reservable l x) \<and> has_room l ?es" by blast
  next
    assume R: "(\<forall>x \<in> set (map fst ?es). reservable l x) \<and> has_room l ?es"
    then obtain c where c: "prepare_reservation l ?es = Ok c"
      using prepare_reservation_defined_iff [OF assms known] by blast
    have "\<exists>i. checked_add (rc_first_lease_id c) 1 = Some i" if "second \<noteq> None"
      using c that R by (auto simp: prepare_reservation_Ok_iff has_room_def batch_entries_def
          checked_add_def)
    with c R show "is_ok (fst (reserve_bytes_batch l d b second))"
      by (cases second)
        (auto simp: reserve_bytes_batch_def batch_entries_def Let_def granted)
  qed
qed

theorem reserve_bytes_batch_succeeds_iff_witness:
  "is_ok (fst (reserve_bytes_batch sample_ledger ''gpu0'' (nonzero 30) (Some (''gpu0'', nonzero 40)))) \<and>
   \<not> is_ok (fst (reserve_bytes_batch sample_ledger ''gpu0'' (nonzero 30) (Some (''gpu0'', nonzero 41))))"
  using reserve_bytes_batch_succeeds_iff [OF sample_inv, of "''gpu0''" "nonzero 30" "Some (''gpu0'', nonzero 40)"]
    reserve_bytes_batch_succeeds_iff [OF sample_inv, of "''gpu0''" "nonzero 30" "Some (''gpu0'', nonzero 41)"]
  by (simp add: batch_entries_def reservable_def has_room_def sample_ledger_def
      snapshot_from_request_def sample_request_def sample_device_def commitment_entries_def)

lemma reserve_bytes_Ok:
  assumes "ledger_inv l" and "reserve_bytes l d b = (Ok lease, l')"
  obtains reserved where "lease = \<lparr>dbl_lease = \<lparr>cap_brand = led_brand l,
        cap_lease_id = led_next_lease_id l, cap_device_id = d, cap_reserved_bytes = bytes_of b\<rparr>,
        dbl_requested_bytes = b\<rparr>"
    and "unat reserved = reserved_on (led_dynamic_reserved l) d + unat (bytes_of b)"
    and "unat (led_revision l') = unat (led_revision l) + 1"
    and "l' = l\<lparr>led_active_leases := bt_insert (led_next_lease_id l)
          \<lparr>rec_device_id = d, rec_reserved_bytes = bytes_of b\<rparr> (led_active_leases l),
        led_dynamic_reserved := bt_insert d reserved (led_dynamic_reserved l),
        led_next_lease_id := led_next_lease_id l + 1, led_revision := led_revision l + 1\<rparr>"
proof -
  obtain q where q: "reserve_bytes_batch l d b None = (q, l')"
    "Ok lease = and_then q (\<lambda>(lease, _). Ok lease)"
    using assms(2) by (auto simp: reserve_bytes_eq)
  then obtain o2 where ok: "reserve_bytes_batch l d b None = (Ok (lease, o2), l')"
    by (cases q) auto
  obtain c where c: "prepare_reservation l [(d, bytes_of b)] = Ok c"
    and l': "l' = apply_reservation l c [(d, bytes_of b)]"
    and lease: "lease = \<lparr>dbl_lease = \<lparr>cap_brand = led_brand l, cap_lease_id = rc_first_lease_id c,
        cap_device_id = d, cap_reserved_bytes = bytes_of b\<rparr>, dbl_requested_bytes = b\<rparr>"
    using ok by (auto simp: reserve_bytes_batch_def Let_def split: result.splits prod.splits)
  note C = c [unfolded prepare_reservation_Ok_iff]
  have succ: "x = y + 1" if "unat x = unat y + 1" for x y :: u64
    using that checked_add_Some_iff [of y 1 x] by (simp add: checked_add_def split: if_splits)
  have "id_range (rc_first_lease_id c) (rc_next_lease_id c) = [led_next_lease_id l]"
    using C by (simp add: id_range_def)
  then have l'': "l' = l\<lparr>led_active_leases := bt_insert (led_next_lease_id l)
          \<lparr>rec_device_id = d, rec_reserved_bytes = bytes_of b\<rparr> (led_active_leases l),
        led_dynamic_reserved := rc_dynamic_reserved c,
        led_next_lease_id := led_next_lease_id l + 1, led_revision := led_revision l + 1\<rparr>"
    using C succ [of "rc_next_lease_id c" "led_next_lease_id l"]
      succ [of "rc_next_revision c" "led_revision l"]
    by (simp add: l' apply_reservation_def)
  let ?cur = "case bt_get (led_dynamic_reserved l) d of None \<Rightarrow> 0 | Some r \<Rightarrow> r"
  obtain reserved where r: "checked_add ?cur (bytes_of b) = Some reserved"
    "rc_dynamic_reserved c = bt_insert d reserved (led_dynamic_reserved l)"
    using C by (auto split: option.splits)
  have "unat ?cur = reserved_on (led_dynamic_reserved l) d"
    by (simp add: reserved_on_def split: option.split)
  with r(1) have "unat reserved = reserved_on (led_dynamic_reserved l) d + unat (bytes_of b)"
    by (simp add: checked_add_Some_iff)
  moreover have "unat (led_revision l') = unat (led_revision l) + 1"
    using apply_reservation_inv(4) [OF assms(1) c] l' by simp
  ultimately show ?thesis
    using that [of reserved] lease l'' C r(2) by simp
qed

text \<open>Releasing the lease a reservation just issued takes back all of its effects on the
  accounts: the active leases and the dynamic reservation are again what they were, entry by
  entry; only the revision and the next lease identifier record that two changes happened. The
  device must not carry an entry of zero bytes, which the release would drop.\<close>

theorem reserve_release_restores:
  assumes "ledger_inv l" and "reserve_bytes l d b = (Ok lease, l')"
    and "unat (led_revision l') + 1 < 2 ^ 64"
    and "bt_get (led_dynamic_reserved l) d \<noteq> Some 0"
  shows "release_bytes l' lease =
    (Ok (), l\<lparr>led_next_lease_id := led_next_lease_id l + 1, led_revision := led_revision l + 2\<rparr>)"
proof -
  note I = ledger_invD [OF assms(1)]
  obtain reserved where lease: "lease = \<lparr>dbl_lease = \<lparr>cap_brand = led_brand l,
        cap_lease_id = led_next_lease_id l, cap_device_id = d, cap_reserved_bytes = bytes_of b\<rparr>,
        dbl_requested_bytes = b\<rparr>"
    and reserved: "unat reserved = reserved_on (led_dynamic_reserved l) d + unat (bytes_of b)"
    and l': "l' = l\<lparr>led_active_leases := bt_insert (led_next_lease_id l)
          \<lparr>rec_device_id = d, rec_reserved_bytes = bytes_of b\<rparr> (led_active_leases l),
        led_dynamic_reserved := bt_insert d reserved (led_dynamic_reserved l),
        led_next_lease_id := led_next_lease_id l + 1, led_revision := led_revision l + 1\<rparr>"
    using reserve_bytes_Ok [OF assms(1,2)] by metis
  have fresh: "bt_get (led_active_leases l) (led_next_lease_id l) = None"
    using I(6) [of "led_next_lease_id l"] by (cases "bt_get (led_active_leases l) (led_next_lease_id l)") auto
  have rev: "checked_add (led_revision l + 1) 1 = Some (led_revision l + 2)"
    using assms(3) by (simp add: l' checked_add_def)
  have active: "bt_remove (led_next_lease_id l) (bt_insert (led_next_lease_id l) r
      (led_active_leases l)) = led_active_leases l" for r
    using bt.del_put_fresh [OF I(3) fresh] .
  show ?thesis
  proof (cases "bt_get (led_dynamic_reserved l) d")
    case None
    then have "reserved = bytes_of b"
      using reserved by (auto simp: reserved_on_def intro: unat_eqD)
    moreover have "bt_remove d (bt_insert d r (led_dynamic_reserved l)) = led_dynamic_reserved l" for r
      using bt.del_put_fresh [OF I(2) None] .
    ultimately show ?thesis
      by (simp add: release_bytes_def release_lease_def l' lease active rev checked_sub_def)
  next
    case (Some cur)
    then have sub: "checked_sub reserved (bytes_of b) = Some cur" and "cur \<noteq> 0"
      using reserved assms(4) by (auto simp: checked_sub_Some_iff reserved_on_def)
    moreover have "bt_insert d cur (bt_insert d r (led_dynamic_reserved l)) = led_dynamic_reserved l" for r
      using bt.put_put [OF I(2)] bt.put_idle [OF I(2) Some] by simp
    ultimately show ?thesis
      by (simp add: release_bytes_def release_lease_def l' lease active rev)
  qed
qed

lemma sample_reserve:
  "reserve_bytes sample_ledger ''gpu0'' (nonzero 30) =
    (Ok \<lparr>dbl_lease = \<lparr>cap_brand = 7, cap_lease_id = 1, cap_device_id = ''gpu0'',
        cap_reserved_bytes = 30\<rparr>, dbl_requested_bytes = nonzero 30\<rparr>,
     sample_ledger\<lparr>led_active_leases := [(1, \<lparr>rec_device_id = ''gpu0'', rec_reserved_bytes = 30\<rparr>)],
       led_dynamic_reserved := [(''gpu0'', 30)], led_next_lease_id := 2, led_revision := 1\<rparr>)"
  by (simp add: reserve_bytes_def reserve_bytes_batch_def require_reservable_device_def
      prepare_reservation_def apply_reservation_def id_range_def sample_ledger_def
      u64_of_usize_def checked_add_def snapshot_from_request_def sample_request_def Let_def
      remaining_after_reservations_def sample_device_def checked_sub_def
      device_indices_def bt_get_Cons index_def)

theorem reserve_release_restores_witness:
  "release_bytes (snd (reserve_bytes sample_ledger ''gpu0'' (nonzero 30)))
     \<lparr>dbl_lease = \<lparr>cap_brand = 7, cap_lease_id = 1, cap_device_id = ''gpu0'',
        cap_reserved_bytes = 30\<rparr>, dbl_requested_bytes = nonzero 30\<rparr> =
   (Ok (), sample_ledger\<lparr>led_next_lease_id := 2, led_revision := 2\<rparr>)"
  using reserve_release_restores [OF sample_inv sample_reserve]
  by (simp add: sample_reserve sample_ledger_fields)

text \<open>A lease is released at most once: after a successful release, and whatever calls follow
  it, releasing the same lease again is refused as unknown, changes nothing, and returns the
  lease to its owner.\<close>

theorem release_at_most_once:
  assumes "ledger_inv l" and "release_bytes l lease = (Ok (), l')"
  shows "release_bytes (run ledger_step l' cs) lease =
    (Err (UnknownRequestedByteLease, lease), run ledger_step l' cs)"
proof -
  let ?c = "dbl_lease lease"
  have rel: "release_lease l ?c = (Ok (), l')"
    using release_bytes_cases [OF assms(2)] by simp
  note R = release_lease_Ok [OF assms(1) rel]
  have "retired l' (cap_lease_id ?c)"
    using R(1,8,9) ledger_invD(6) [OF assms(1)] by (auto simp: live_leases_def retired_def)
  then have "retired (run ledger_step l' cs) (cap_lease_id ?c)"
    by (rule ledger_run_retired [OF R(2)])
  moreover have "led_brand (run ledger_step l' cs) = cap_brand ?c"
    using R(1,6) by (simp add: ledger_run_brand live_leases_def)
  ultimately show ?thesis
    by (simp add: release_bytes_def retired_release)
qed

definition sample_lease :: device_byte_lease where
  "sample_lease =
     \<lparr>dbl_lease = \<lparr>cap_brand = 7, cap_lease_id = 1, cap_device_id = ''gpu0'',
        cap_reserved_bytes = 30\<rparr>, dbl_requested_bytes = nonzero 30\<rparr>"

definition sample_reserved :: reservation_ledger where
  "sample_reserved = snd (reserve_bytes sample_ledger ''gpu0'' (nonzero 30))"

lemma sample_reserved_simps:
  "sample_reserved = sample_ledger\<lparr>led_active_leases :=
      [(1, \<lparr>rec_device_id = ''gpu0'', rec_reserved_bytes = 30\<rparr>)],
      led_dynamic_reserved := [(''gpu0'', 30)], led_next_lease_id := 2, led_revision := 1\<rparr>"
  by (simp add: sample_reserved_def sample_reserve)

lemma sample_reserved_inv [simp]: "ledger_inv sample_reserved"
proof -
  have "fst (ledger_step sample_ledger (ReserveBatch ''gpu0'' (nonzero 30) None)) \<noteq> Panic"
    by (rule ledger_step_no_panic)
  moreover have "snd (ledger_step sample_ledger (ReserveBatch ''gpu0'' (nonzero 30) None)) = sample_reserved"
    by (simp add: sample_reserved_def reserve_bytes_def split: prod.split)
  ultimately show ?thesis
    using ledger.step_inv [OF sample_inv, of "ReserveBatch ''gpu0'' (nonzero 30) None"] by simp
qed

lemma sample_release:
  "release_bytes sample_reserved sample_lease =
     (Ok (), sample_ledger\<lparr>led_next_lease_id := 2, led_revision := 2\<rparr>)"
  by (simp add: sample_reserved_simps sample_lease_def release_bytes_def release_lease_def
      bt_get_Cons checked_sub_def checked_add_def bt_remove_def sample_ledger_def)

theorem release_at_most_once_witness:
  "fst (release_bytes (run ledger_step (snd (release_bytes sample_reserved sample_lease))
      [ReserveBatch ''gpu0'' (nonzero 30) None]) sample_lease) =
     Err (UnknownRequestedByteLease, sample_lease)"
  using release_at_most_once [OF sample_reserved_inv sample_release,
      of "[ReserveBatch ''gpu0'' (nonzero 30) None]"]
  by (simp add: sample_release del: run.simps)

text \<open>A live lease of more than zero bytes can always be released while the revision counter
  has room, and releasing it removes exactly that lease and exactly its bytes.\<close>

theorem live_lease_releases:
  assumes "ledger_inv l" and "dbl_lease lease \<in> live_leases l"
    and "cap_reserved_bytes (dbl_lease lease) \<noteq> 0" and "unat (led_revision l) + 1 < 2 ^ 64"
  shows "\<exists>l'. release_bytes l lease = (Ok (), l') \<and>
    live_leases l' = live_leases l - {dbl_lease lease} \<and>
    (\<forall>d. leased_on (led_active_leases l') d = leased_on (led_active_leases l) d -
       (if d = cap_device_id (dbl_lease lease)
        then unat (cap_reserved_bytes (dbl_lease lease)) else 0))"
proof -
  obtain l' where rel: "release_lease l (dbl_lease lease) = (Ok (), l')"
    using release_lease_succeeds [OF assms] by blast
  note R = release_lease_Ok [OF assms(1) rel]
  show ?thesis
    using rel R(3) R(4) ledger_invD(5) [OF assms(1)] ledger_invD(5) [OF R(2)]
    by (simp add: release_bytes_def)
qed

theorem live_lease_releases_witness:
  "\<exists>l'. release_bytes sample_reserved sample_lease = (Ok (), l') \<and>
     leased_on (led_active_leases l') ''gpu0'' = 0"
  using live_lease_releases [OF sample_reserved_inv, of sample_lease]
  by (auto simp: sample_reserved_simps sample_lease_def live_leases_def sample_ledger_def
      bt_get_Cons leased_on_def bt_total_def)

text \<open>A prepared plan is good for one state only: once any commit, reservation or release has
  been accepted after it was prepared, committing it is refused as stale and changes nothing.\<close>

theorem prepared_plan_goes_stale:
  assumes "ledger_inv l" and "ledger_prepare l r = Ok p"
    and "c \<in> set (accepted ledger_step l cs)" and "mutating c"
  shows "ledger_commit (run ledger_step l cs) p = (Err StalePreparedPlan, run ledger_step l cs)"
proof -
  have "0 < length (filter mutating (accepted ledger_step l cs))"
    using assms(3,4) by (auto simp: filter_empty_conv)
  then have "led_revision (run ledger_step l cs) \<noteq> pp_revision p"
    using ledger_run_revision [OF assms(1), of cs] prepared_plan_fields [OF assms(2)] by auto
  then show ?thesis
    using prepared_plan_fields [OF assms(2)] by (simp add: ledger_commit_def ledger_run_brand)
qed

theorem prepared_plan_goes_stale_witness:
  "ledger_commit (run ledger_step sample_ledger [ReserveBatch ''gpu0'' (nonzero 30) None])
     (sample_plan 40) =
   (Err StalePreparedPlan, run ledger_step sample_ledger [ReserveBatch ''gpu0'' (nonzero 30) None])"
proof (rule prepared_plan_goes_stale [OF sample_inv sample_prepare [of 40]])
  obtain r l' where "reserve_bytes_batch sample_ledger ''gpu0'' (nonzero 30) None = (Ok r, l')"
    using sample_reserve
    by (cases "reserve_bytes_batch sample_ledger ''gpu0'' (nonzero 30) None")
      (auto simp: reserve_bytes_def)
  then show "ReserveBatch ''gpu0'' (nonzero 30) None \<in>
      set (accepted ledger_step sample_ledger [ReserveBatch ''gpu0'' (nonzero 30) None])"
    by simp
qed (simp_all add: mutating_def)

subsection \<open>Leases of zero bytes\<close>

definition zero_request :: plan_request where
  "zero_request = sample_request [sample_workload ''chat'' 0, sample_workload ''embed'' 0]"

definition zero_placement :: "string \<Rightarrow> admitted_placement" where
  "zero_placement p =
     \<lparr>adm_profile_id = p, adm_artifact_id = ''model'', adm_digest = sample_digest,
      adm_device_id = ''gpu0'',
      adm_memory_estimate =
        \<lparr>est_weights = 0, est_kv_cache = 0, est_workspace = 0, est_headroom = 0\<rparr>,
      adm_total_estimated_bytes = 0\<rparr>"

definition zero_plan :: prepared_plan where
  "zero_plan =
     \<lparr>pp_brand = 7, pp_revision = 0, pp_schema_version = 1,
      pp_placements = [zero_placement ''chat'', zero_placement ''embed'']\<rparr>"

definition zero_lease :: "u64 \<Rightarrow> string \<Rightarrow> reservation_lease" where
  "zero_lease i p =
     \<lparr>rl_lease = \<lparr>cap_brand = 7, cap_lease_id = i, cap_device_id = ''gpu0'',
        cap_reserved_bytes = 0\<rparr>, rl_placement = zero_placement p\<rparr>"

definition zero_ledger :: "u64 list \<Rightarrow> (string, u64) btree \<Rightarrow> u64 \<Rightarrow> reservation_ledger" where
  "zero_ledger ids dyn revision =
     sample_ledger\<lparr>led_active_leases :=
         map (\<lambda>i. (i, \<lparr>rec_device_id = ''gpu0'', rec_reserved_bytes = 0\<rparr>)) ids,
       led_dynamic_reserved := dyn, led_next_lease_id := 3, led_revision := revision\<rparr>"

lemma zero_request_valid: "valid_request zero_request"
  using sample_valid_empty
  by (simp add: valid_request_def zero_request_def sample_request_def sample_workload_def
      valid_workload_def estimate_bytes_def)

lemma zero_prepare: "ledger_prepare sample_ledger zero_request = Ok zero_plan"
proof -
  have total: "total_estimate
      \<lparr>est_weights = 0, est_kv_cache = 0, est_workspace = 0, est_headroom = 0\<rparr> = Ok 0"
    by (simp add: estimate_bytes_def)
  have "prepare_placements zero_request [70] = Ok (pp_placements zero_plan)"
    using total
    by (simp add: prepare_placements_def zero_request_def sample_request_def sample_workload_def
        zero_plan_def zero_placement_def artifacts_by_id_def device_indices_def bt_get_Cons
        select_device_def index_def sample_device_def not_less del: total_estimate_Ok_iff)
  then show ?thesis
    using sample_remaining
    by (simp add: ledger_prepare_def zero_request_def sample_ledger_fields(2-)
        sample_ledger_fields(1) [of "[sample_workload ''chat'' 0, sample_workload ''embed'' 0]"])
      (simp add: zero_plan_def sample_request_def)
qed

lemma zero_ids: "id_range 1 3 = [1, 2]"
  by (simp add: id_range_def upt_conv_Cons)

lemma zero_commit:
  "ledger_commit sample_ledger zero_plan =
     (Ok [zero_lease 1 ''chat'', zero_lease 2 ''embed''], zero_ledger [1, 2] [(''gpu0'', 0)] 1)"
  by (simp add: ledger_commit_def sample_ledger_def zero_plan_def prepare_reservation_def
      zero_lease_def zero_ledger_def zero_placement_def apply_reservation_def lease_capabilities_def
      zero_ids u64_of_usize_def checked_add_def snapshot_from_request_def
      sample_request_def Let_def remaining_after_reservations_def sample_device_def
      checked_sub_def device_indices_def bt_get_Cons index_def)

lemma zero_release:
  "ledger_release (zero_ledger [1, 2] [(''gpu0'', 0)] 1) (zero_lease 1 ''chat'') =
     (Ok (), zero_ledger [2] [] 2)"
  by (simp add: ledger_release_def release_lease_def zero_ledger_def zero_lease_def
      zero_placement_def sample_ledger_def bt_get_Cons checked_sub_def checked_add_def bt_remove_def)

text \<open>Two workloads with an estimate of zero bytes on one device are admitted and committed,
  but only the first of their leases can be released: that release removes the device's entry from
  the dynamic reservations, and the second, still live, lease is refused as unknown.\<close>

theorem zero_byte_leases_strand:
  "valid_request zero_request \<and> ledger_prepare sample_ledger zero_request = Ok zero_plan \<and>
   (\<exists>a b l1 l2. ledger_commit sample_ledger zero_plan = (Ok [a, b], l1) \<and>
     ledger_release l1 a = (Ok (), l2) \<and> rl_lease b \<in> live_leases l2 \<and>
     ledger_release l2 b = (Err (UnknownReservationLease, b), l2))"
proof -
  have "rl_lease (zero_lease 2 ''embed'') \<in> live_leases (zero_ledger [2] [] 2)"
    by (simp add: live_leases_def zero_lease_def zero_ledger_def sample_ledger_def bt_get_Cons)
  moreover have "ledger_release (zero_ledger [2] [] 2) (zero_lease 2 ''embed'') =
      (Err (UnknownReservationLease, zero_lease 2 ''embed''), zero_ledger [2] [] 2)"
    by (simp add: ledger_release_def release_lease_def zero_ledger_def zero_lease_def
        zero_placement_def sample_ledger_def bt_get_Cons)
  ultimately show ?thesis
    using zero_request_valid zero_prepare zero_commit zero_release by blast
qed

end
