(* ===== verification/Sched_Machine.thy ===== *)
theory Sched_Machine
  imports Sched_Preservation Placement_Properties
begin

text \<open>
  The scheduler as a machine: its methods as one step function that meets the transactional
  contract (a success keeps the invariant, a refusal changes nothing, nothing panics).
  \<open>PlanRequest\<close> has no public constructor but its validation, so the requests a client can hand
  over as a new grant form a type of their own.
\<close>

subsection \<open>Calls\<close>

typedef checked_request = "{r. valid_request r}" morphisms request_of checked
  using sample_valid_empty by blast

lemma request_of_valid [simp]: "valid_request (request_of r)"
  using request_of [of r] by simp

datatype sched_call =
    SPrepare plan_request
  | SCommit prepared_admission
  | SAdmitNative native_resident_request
  | SCompleteNativeLoad native_load_permit resident_handle
  | SNativeLoadReleased native_load_permit
  | SQuarantineNativeLoad native_load_permit
  | SRevoke grant_generation
  | SRetire admission_ticket
  | SReplaceGrant brand checked_request
  | SPoll
  | SComplete runtime_completion
  | SBeginUse admission_ticket
  | SFinishUse use_permit
  | SBeginNativeUse admission_ticket native_use_request
  | SFinishNativeUse native_use_permit
  | SQuarantineNativeUse native_use_permit
  | SDiscardResult native_result_lease

datatype sched_reply =
    AdmissionPrepared prepared_admission
  | Tickets "admission_ticket list"
  | NativeAdmission admission_ticket native_load_permit
  | GrantInstalled grant_generation
  | Polled poll_outcome
  | UseBegun use_permit
  | NativeUseBegun native_use_permit
  | NativeUseFinished "native_result_lease option"
  | Done

definition reply :: "('a \<Rightarrow> sched_reply) \<Rightarrow> ('a, scheduler_error) result \<times> scheduler \<Rightarrow>
    (sched_reply, scheduler_error) result \<times> scheduler" where
  "reply f p = (map_result f (\<lambda>e. e) (fst p), snd p)"

fun sched_step ::
  "scheduler \<Rightarrow> sched_call \<Rightarrow> (sched_reply, scheduler_error) result \<times> scheduler" where
  "sched_step s (SPrepare r) = reply AdmissionPrepared (sched_prepare s r, s)"
| "sched_step s (SCommit p) = reply Tickets (sched_commit s p)"
| "sched_step s (SAdmitNative r) = reply (\<lambda>(t, p). NativeAdmission t p) (admit_native_resident s r)"
| "sched_step s (SCompleteNativeLoad p h) = reply (\<lambda>_. Done) (complete_native_load s p h)"
| "sched_step s (SNativeLoadReleased p) = reply (\<lambda>_. Done) (native_load_released s p)"
| "sched_step s (SQuarantineNativeLoad p) = reply (\<lambda>_. Done) (quarantine_native_load s p)"
| "sched_step s (SRevoke g) = reply (\<lambda>_. Done) (sched_revoke s g)"
| "sched_step s (SRetire t) = reply (\<lambda>_. Done) (request_retirement s t)"
| "sched_step s (SReplaceGrant b r) = reply GrantInstalled (replace_grant s b (request_of r))"
| "sched_step s SPoll = reply Polled (poll_command s)"
| "sched_step s (SComplete c) = reply (\<lambda>_. Done) (complete s c)"
| "sched_step s (SBeginUse t) = reply UseBegun (begin_use s t)"
| "sched_step s (SFinishUse p) = reply (\<lambda>_. Done) (finish_use s p)"
| "sched_step s (SBeginNativeUse t r) = reply NativeUseBegun (begin_native_use s t r)"
| "sched_step s (SFinishNativeUse p) = reply NativeUseFinished (finish_native_use_after_teardown s p)"
| "sched_step s (SQuarantineNativeUse p) = reply (\<lambda>_. Done) (quarantine_native_use s p)"
| "sched_step s (SDiscardResult l) = reply (\<lambda>_. Done) (discard_native_result s l)"

lemma reply_iffs [simp]:
  "reply f p = (Ok y, s') \<longleftrightarrow> (\<exists>x. p = (Ok x, s') \<and> y = f x)"
  "reply f p = (Err e, s') \<longleftrightarrow> p = (Err e, s')"
  "reply f p = (Panic, s') \<longleftrightarrow> p = (Panic, s')"
  by (cases p; auto simp: reply_def)+

lemma sched_step_inv:
  assumes inv: "sched_inv s" and ok: "sched_step s c = (Ok r, s')"
  shows "sched_inv s'"
  using ok inv
  by (cases c; clarsimp)
    (assumption | erule sched_commit_inv [OF inv] admit_native_resident_inv [OF inv]
      complete_native_load_inv [OF inv] native_load_released_inv [OF inv]
      quarantine_native_load_inv [OF inv] sched_revoke_inv [OF inv] request_retirement_inv [OF inv]
      replace_grant_inv [OF inv request_of_valid] poll_command_inv [OF inv] complete_inv [OF inv]
      begin_use_inv [OF inv] finish_use_inv [OF inv] begin_native_use_inv [OF inv]
      finish_native_inv [OF inv] quarantine_native_use_inv [OF inv]
      discard_native_result_inv [OF inv])+

subsection \<open>Refusals\<close>

text \<open>A method that either succeeds, or fails and leaves the scheduler alone.\<close>

definition clean :: "scheduler \<Rightarrow> ('a, scheduler_error) result \<times> scheduler \<Rightarrow> bool" where
  "clean s p \<longleftrightarrow> (case fst p of Ok x \<Rightarrow> True | Err e \<Rightarrow> snd p = s | Panic \<Rightarrow> False)"

lemma cleanI:
  "(\<And>e s'. p = (Err e, s') \<Longrightarrow> s' = s) \<Longrightarrow> (\<And>s'. p \<noteq> (Panic, s')) \<Longrightarrow> clean s p"
  by (cases p; cases "fst p") (auto simp: clean_def)

lemma clean_simps [simp]:
  "clean s (Ok x, s')" "clean s (Err e, s') \<longleftrightarrow> s' = s" "\<not> clean s (Panic, s')"
  by (simp_all add: clean_def)

lemma clean_attempt:
  "(\<And>x. r = Ok x \<Longrightarrow> clean s (f x)) \<Longrightarrow> r \<noteq> Panic \<Longrightarrow> clean s (attempt r s f)"
  by (cases r) auto

lemma clean_proceed:
  "clean s p \<Longrightarrow> (\<And>x t. p = (Ok x, t) \<Longrightarrow> \<exists>y t'. f x t = (Ok y, t')) \<Longrightarrow> clean s (proceed p f)"
  by (cases p; cases "fst p") fastforce+

lemma clean_reply [simp]: "clean s (reply f p) \<longleftrightarrow> clean s p"
  by (cases p; cases "fst p") (auto simp: reply_def)

lemma clean_release: "sched_inv s \<Longrightarrow> clean s (release_admission s i)"
  using release_admission_cases [of s i] by (intro cleanI) auto

lemma clean_complete_load: "clean s (complete_load s i h)"
  by (auto simp: complete_load_def Let_def intro!: clean_attempt)

lemma clean_quarantine: "clean s (quarantine_admission s i)"
  by (auto simp: quarantine_admission_def intro!: clean_attempt
      split: admission_state.split option.split bool.split)

lemma clean_evict_failed: "clean s (evict_failed s i)"
  by (auto simp: evict_failed_def intro!: clean_attempt split: admission_state.split)

lemma clean_load_outcome: "(\<And>i. clean s (act i)) \<Longrightarrow> clean s (native_load_outcome s p act)"
  unfolding native_load_outcome_def by (intro clean_attempt clean_proceed) auto

lemma clean_complete: "sched_inv s \<Longrightarrow> clean s (complete s c)"
  unfolding complete_def Let_def
  by (intro clean_attempt clean_proceed)
    (cases c; auto simp: clean_release clean_complete_load clean_quarantine clean_evict_failed)+

lemma same_ledger [simp]: "s\<lparr>sch_ledger := sch_ledger s\<rparr> = s"
  by (cases s) simp

lemma sched_prepare_no_panic [simp]: "sched_prepare s r \<noteq> Panic"
  by (simp add: sched_prepare_def and_then_Panic_iff)

lemma clean_commit:
  assumes inv: "sched_inv s"
  shows "clean s (sched_commit s p)"
proof -
  note I = sched_invD [OF inv]
  have "clean s (case ledger_commit (sch_ledger s) (pa_prepared p) of
         (r, ledger) \<Rightarrow>
           attempt (map_err Placement r) (s\<lparr>sch_ledger := ledger\<rparr>) (\<lambda>leases.
             proceed (admit_leases (s\<lparr>sch_ledger := ledger\<rparr>) (sch_next_admission_id s) leases)
               (\<lambda>tickets s'. (Ok tickets, s'\<lparr>sch_next_admission_id := n\<rparr>))))"
    if count: "u64_of_usize (length (pp_placements (pa_prepared p))) = Some count"
      "checked_add (sch_next_admission_id s) count = Some n" for count n
  proof (cases "ledger_commit (sch_ledger s) (pa_prepared p)")
    case (Pair q ledger)
    show ?thesis
    proof (cases q)
      case (Ok leases)
      then have "length leases = length (pp_placements (pa_prepared p))"
        using Pair lease_capabilities_simps(3)
        by (auto simp: ledger_commit_Ok_iff placement_entries_def)
      then have n: "unat n = unat (sch_next_admission_id s) + length leases"
        using count by (simp add: checked_add_Some_iff u64_of_usize_Some_iff)
      let ?s = "s\<lparr>sch_ledger := ledger\<rparr>"
      have "bt_wf (sch_admissions ?s)" "below (sch_admissions ?s) (sch_next_admission_id s)"
        using I(5,6) by (simp_all add: maps_wf_def ids_fresh_def)
      from admit_leases_spec [OF this n] Pair Ok show ?thesis by auto
    next
      case (Err e)
      then have "ledger = sch_ledger s" using Pair by (auto dest: ledger_commit_refused)
      with Pair Err show ?thesis by simp
    next
      case Panic
      with Pair show ?thesis by (metis fst_conv ledger_commit_no_panic)
    qed
  qed
  then show ?thesis
    unfolding sched_commit_def placement_count_def
    by (intro clean_attempt) auto
qed

lemma clean_replace: "clean s (replace_grant s b r)"
proof -
  have "ledger_new b r \<noteq> Panic"
    by (simp add: ledger_new_def Let_def and_then_Panic_iff)
  then show ?thesis
    by (auto simp: replace_grant_def Let_def intro!: clean_attempt)
qed

lemma reserve_bytes_refused: "reserve_bytes l d b = (Err e, l') \<Longrightarrow> l' = l"
  by (cases "reserve_bytes_batch l d b None"; cases "fst (reserve_bytes_batch l d b None)")
    (auto simp: reserve_bytes_def dest: reserve_bytes_batch_refused)

lemma reserve_bytes_no_panic: "reserve_bytes l d b \<noteq> (Panic, l')"
  by (cases "reserve_bytes_batch l d b None"; cases "fst (reserve_bytes_batch l d b None)")
    (auto simp: reserve_bytes_def)

lemma clean_admit: "clean s (admit_native_resident s request)"
proof -
  have "clean s (case reserve_bytes (sch_ledger s) d b of
      (r, ledger) \<Rightarrow> attempt (map_err NativeDeviceBytes r) (s\<lparr>sch_ledger := ledger\<rparr>) (\<lambda>x. (Ok (f x), g ledger x)))"
    for d b and f :: "device_byte_lease \<Rightarrow> admission_ticket \<times> native_load_permit" and g
    by (cases "reserve_bytes (sch_ledger s) d b"; cases "fst (reserve_bytes (sch_ledger s) d b)")
      (auto dest: reserve_bytes_refused simp: reserve_bytes_no_panic)
  then show ?thesis
    unfolding admit_native_resident_def by (intro clean_attempt) auto
qed

lemma clean_poll:
  assumes inv: "sched_inv s"
  shows "clean s (poll_command s)"
proof (cases "next_local_release s")
  case (Some i)
  then show ?thesis
    using clean_release [OF inv] by (auto simp: poll_command_def intro: clean_proceed)
next
  case None
  note I = sched_invD [OF inv]
  have "clean s (case next_command s of None \<Rightarrow> (Ok Idle, s) | Some (i, kind) \<Rightarrow>
      attempt (ok_or (IdentifierOverflow ''operation'') (checked_add (sch_next_operation_id s) 1)) s
        (\<lambda>n. attempt (find_admission s i) s (\<lambda>a. proceed (issue_command s i a kind) (\<lambda>command s'.
          (Ok (f command), g n i kind s')))))" for f :: "runtime_command_kind \<Rightarrow> poll_outcome" and g
  proof (cases "next_command s")
    case None
    then show ?thesis by simp
  next
    case (Some c)
    obtain i k where c: "c = (i, k)" by (cases c)
    obtain a where a: "bt_get (sch_admissions s) i = Some a"
      and k: "case k of LoadOperation \<Rightarrow> adm_state a = Reserved \<and> \<not> sch_revoked s \<and> adm_active_uses a = 0
        | EvictOperation \<Rightarrow> evictable a"
      using next_command_Some [OF maps_wfD(1) [OF I(5)] Some [unfolded c]] by blast
    have "\<exists>cmd t. issue_command s i a k = (Ok cmd, t)"
      using k admission_okD [OF inv a]
      by (cases k; cases "adm_lease a")
        (auto simp: issue_command_def evictable_iff admission_ok_def)
    then show ?thesis
      using Some c a by (auto intro!: clean_attempt)
  qed
  then show ?thesis
    using None by (auto simp: poll_command_def intro!: clean_attempt)
qed

lemma clean_begin_use: "clean s (begin_use s t)"
  unfolding begin_use_def by (intro clean_attempt) (auto split: admission_lease.split)

lemma clean_finish_use: "clean s (finish_use s p)"
  unfolding finish_use_def by (intro clean_attempt) auto

lemma clean_begin_native: "clean s (begin_native_use s t request)"
proof -
  have "clean s (case reserve_bytes_batch (sch_ledger s) d b second of
      (r, ledger) \<Rightarrow> attempt (map_err NativeDeviceBytes r) (s\<lparr>sch_ledger := ledger\<rparr>)
        (\<lambda>(m, rd). (Ok x, g ledger m rd)))"
    for d b second and x :: native_use_permit and g
    by (cases "reserve_bytes_batch (sch_ledger s) d b second";
        cases "fst (reserve_bytes_batch (sch_ledger s) d b second)")
      (auto dest: reserve_bytes_batch_refused)
  moreover have "prepare_native_use s t request \<noteq> Panic"
    by (auto simp: prepare_native_use_def and_then_Panic_iff split: admission_lease.split)
  ultimately show ?thesis
    unfolding begin_native_use_def by (intro clean_attempt) auto
qed

lemma release_bytes_clean:
  "release_bytes l x = (Err (e, y), l') \<Longrightarrow> l' = l \<and> y = x" "release_bytes l x \<noteq> (Panic, l')"
  using release_bytes_cases [of l x] by auto

lemma clean_finish_native:
  assumes inv: "sched_inv s"
  shows "clean s (finish_native_use_after_teardown s permit)"
proof -
  note W = maps_wfD [OF sched_invD(5) [OF inv]]
  have "prepare_native_finish s v \<noteq> Panic" for v
    by (auto simp: prepare_native_finish_def and_then_Panic_iff Let_def split: option.split)
  moreover have "bt_insert v u (bt_remove v (sch_native_uses s)) = sch_native_uses s"
    if "bt_get (sch_native_uses s) v = Some u" for v u
    using bt.put_del_restore [OF W(5) that] .
  moreover have "u\<lparr>nu_mutable_device := nu_mutable_device u\<rparr> = u" for u :: native_use_record
    by (cases u) simp
  moreover have "s\<lparr>sch_native_uses := sch_native_uses s\<rparr> = s" by (cases s) simp
  ultimately show ?thesis
    unfolding finish_native_use_after_teardown_def
    by (intro clean_attempt)
      (auto simp: Let_def release_bytes_clean(2) split: prod.splits result.splits
        dest!: release_bytes_clean(1))
qed

lemma clean_discard:
  assumes inv: "sched_inv s"
  shows "clean s (discard_native_result s lease)"
proof -
  note W = maps_wfD [OF sched_invD(5) [OF inv]]
  have "bt_insert v \<lparr>nr_retained_device = Some d, nr_retained_host = nr_retained_host x\<rparr>
      (bt_remove v (sch_native_results s)) = sch_native_results s"
    if "bt_get (sch_native_results s) v = Some x" "nr_retained_device x = Some d" for v x d
  proof -
    have "x = \<lparr>nr_retained_device = Some d, nr_retained_host = nr_retained_host x\<rparr>"
      using that(2) by (cases x) simp
    with bt.put_del_restore [OF W(7) that(1)] show ?thesis by simp
  qed
  moreover have "s\<lparr>sch_native_results := sch_native_results s\<rparr> = s" by (cases s) simp
  ultimately show ?thesis
    unfolding discard_native_result_def
    by (intro clean_attempt)
      (auto simp: Let_def release_bytes_clean(2) split: prod.splits result.splits option.splits
        dest!: release_bytes_clean(1))
qed

lemma clean_quarantine_use: "clean s (quarantine_native_use s p)"
  unfolding quarantine_native_use_def
  by (intro clean_attempt) (auto split: admission_state.split option.split)

lemma sched_step_clean: "sched_inv s \<Longrightarrow> clean s (sched_step s c)"
proof (cases c)
  case (SPrepare r)
  then show ?thesis
    by (cases "sched_prepare s r") (auto simp: reply_def)
next
  case (SRevoke g)
  then show ?thesis by (auto simp: sched_revoke_def intro!: clean_attempt)
next
  case (SRetire t)
  then show ?thesis by (auto simp: request_retirement_def intro!: clean_attempt split: option.split)
qed (simp_all add: clean_commit clean_admit complete_native_load_def native_load_released_def
    quarantine_native_load_def clean_load_outcome clean_complete_load clean_release clean_quarantine
    clean_replace clean_poll clean_complete clean_begin_use clean_finish_use clean_begin_native
    clean_finish_native clean_quarantine_use clean_discard)

interpretation sched: transactional sched_step sched_inv
proof
  fix s s' :: scheduler and c r e
  assume inv: "sched_inv s"
  show "sched_step s c = (Ok r, s') \<Longrightarrow> sched_inv s'" by (rule sched_step_inv [OF inv])
  show "s' = s" if "sched_step s c = (Err e, s')"
    using sched_step_clean [OF inv, of c] that by simp
  show "fst (sched_step s c) \<noteq> Panic"
    using sched_step_clean [OF inv, of c] by (auto simp: clean_def)
qed

end
