(* ===== verification/Sched_Runs.thy ===== *)
theory Sched_Runs
  imports Sched_Machine
begin

text \<open>
  What holds along every run of the scheduler: the parts of the state no call touches, the
  identifiers that are never issued twice, what a revoked grant still allows, and the life cycle
  of an admission: its moves, each with the call that causes it.
\<close>

lemma release_effect:
  assumes "sched_inv s" and "release_admission s i = (Ok u, t)"
  obtains a ledger h where "bt_get (sch_admissions s) i = Some a"
    "t = s\<lparr>sch_admissions := bt_remove i (sch_admissions s), sch_ledger := ledger,
       sch_host := (sch_host s)\<lparr>host_reserved := h\<rparr>\<rparr>"
    "release_lease (sch_ledger s) (lease_cap (adm_lease a)) = (Ok (), ledger)"
  using release_admission_cases [OF assms] that by blast

subsection \<open>The life cycle\<close>

text \<open>The reports about loads, from the executor or from the owner of a native load, and the other calls
  that change an admission.\<close>

fun reports_loaded :: "sched_call \<Rightarrow> resident_handle \<Rightarrow> bool" where
  "reports_loaded (SComplete (Loaded op h)) h' \<longleftrightarrow> h = h'"
| "reports_loaded (SCompleteNativeLoad p h) h' \<longleftrightarrow> h = h'"
| "reports_loaded _ h' \<longleftrightarrow> False"

fun reports_no_load :: "sched_call \<Rightarrow> bool" where
  "reports_no_load (SComplete (LoadFailed op)) = True"
| "reports_no_load (SNativeLoadReleased p) = True"
| "reports_no_load _ = False"

fun reports_lost_load :: "sched_call \<Rightarrow> bool" where
  "reports_lost_load (SComplete (LoadQuarantined op)) = True"
| "reports_lost_load (SQuarantineNativeLoad p) = True"
| "reports_lost_load _ = False"

fun begins_a_use :: "sched_call \<Rightarrow> bool" where
  "begins_a_use (SBeginUse t) = True"
| "begins_a_use (SBeginNativeUse t x) = True"
| "begins_a_use _ = False"

fun finishes_a_use :: "sched_call \<Rightarrow> bool" where
  "finishes_a_use (SFinishUse p) = True"
| "finishes_a_use (SFinishNativeUse p) = True"
| "finishes_a_use _ = False"

fun asks_to_drain :: "sched_call \<Rightarrow> bool" where
  "asks_to_drain (SRevoke g) = True"
| "asks_to_drain (SRetire t) = True"
| "asks_to_drain _ = False"

text \<open>The state in which a finished use leaves its admission, with the uses that remain.\<close>

fun state_after_use :: "nat \<Rightarrow> admission_state \<Rightarrow> admission_state" where
  "state_after_use n (InUse h) = (if n = 0 then Resident h else InUse h)"
| "state_after_use n st = st"

text \<open>The moves of an admission, each with the call that causes it; \<open>None\<close> is its release.\<close>

inductive admission_move :: "sched_call \<Rightarrow> admission \<Rightarrow> admission option \<Rightarrow> bool" where
  load_issued: "adm_state a = Reserved \<Longrightarrow> admission_move SPoll a (Some (a\<lparr>adm_state := Loading\<rparr>))"
| load_finished: "reports_loaded c h \<Longrightarrow> adm_state a = Loading \<Longrightarrow>
    admission_move c a (Some (a\<lparr>adm_state := Resident h\<rparr>))"
| cancelled_load_finished: "reports_loaded c h \<Longrightarrow> adm_state a = Draining None True \<Longrightarrow>
    admission_move c a (Some (a\<lparr>adm_state := Draining (Some h) False\<rparr>))"
| load_failed: "reports_no_load c \<Longrightarrow> loading_state (adm_state a) \<Longrightarrow> admission_move c a None"
| load_lost: "reports_lost_load c \<Longrightarrow> loading_state (adm_state a) \<Longrightarrow>
    admission_move c a (Some (a\<lparr>adm_state := Quarantined None\<rparr>))"
| use_begun: "begins_a_use c \<Longrightarrow> adm_state a = Resident h \<or> adm_state a = InUse h \<Longrightarrow>
    admission_move c a (Some (a\<lparr>adm_active_uses := adm_active_uses a + 1, adm_state := InUse h\<rparr>))"
| use_finished: "finishes_a_use c \<Longrightarrow> adm_active_uses a = n + 1 \<Longrightarrow>
    adm_state a = InUse h \<or> adm_state a = Draining (Some h) False \<or> adm_state a = Quarantined r \<Longrightarrow>
    admission_move c a (Some (a\<lparr>adm_active_uses := n, adm_state := state_after_use n (adm_state a)\<rparr>))"
| use_lost: "adm_state a = InUse h \<or> adm_state a = Draining (Some h) False \<or> adm_state a = Quarantined (Some h) \<Longrightarrow>
    admission_move (SQuarantineNativeUse p) a (Some (a\<lparr>adm_state := Quarantined (Some h)\<rparr>))"
| drain_asked: "asks_to_drain c \<Longrightarrow> admission_move c a (Some (a\<lparr>adm_state := draining_state (adm_state a)\<rparr>))"
| local_release: "adm_state a = Draining None False \<Longrightarrow> admission_move SPoll a None"
| eviction_issued: "adm_state a = Draining (Some h) False \<Longrightarrow> adm_active_uses a = 0 \<Longrightarrow>
    admission_move SPoll a (Some (a\<lparr>adm_state := Evicting h\<rparr>))"
| eviction_finished: "adm_state a = Evicting h \<Longrightarrow> admission_move (SComplete (Evicted op)) a None"
| eviction_failed: "adm_state a = Evicting h \<Longrightarrow>
    admission_move (SComplete (EvictFailed op)) a (Some (a\<lparr>adm_state := Draining (Some h) False\<rparr>))"
| eviction_lost: "adm_state a = Evicting h \<Longrightarrow>
    admission_move (SComplete (EvictionQuarantined op)) a (Some (a\<lparr>adm_state := Quarantined (Some h)\<rparr>))"

inductive_cases admission_release: "admission_move c a None"

text \<open>The admission a call is about: the one its operation, permit or ticket was issued for, or the one
  the scheduler chooses.\<close>

fun concerns :: "scheduler \<Rightarrow> sched_call \<Rightarrow> u64 \<Rightarrow> bool" where
  "concerns s (SComplete x) i \<longleftrightarrow>
     bt_get (sch_operations s) (op_value (completion_operation x)) = Some \<lparr>po_admission_id = i, po_kind = completion_kind x\<rparr>"
| "concerns s (SCompleteNativeLoad p h) i \<longleftrightarrow> bt_get (sch_native_loads s) (nlp_value p) = Some i"
| "concerns s (SNativeLoadReleased p) i \<longleftrightarrow> bt_get (sch_native_loads s) (nlp_value p) = Some i"
| "concerns s (SQuarantineNativeLoad p) i \<longleftrightarrow> bt_get (sch_native_loads s) (nlp_value p) = Some i"
| "concerns s (SBeginUse t) i \<longleftrightarrow> at_admission_id t = i"
| "concerns s (SBeginNativeUse t x) i \<longleftrightarrow> at_admission_id t = i"
| "concerns s (SRetire t) i \<longleftrightarrow> at_admission_id t = i"
| "concerns s (SFinishUse p) i \<longleftrightarrow> bt_get (sch_permits s) (up_value p) = Some i"
| "concerns s (SFinishNativeUse p) i \<longleftrightarrow> map_option nu_admission_id (bt_get (sch_native_uses s) (nup_value p)) = Some i"
| "concerns s (SQuarantineNativeUse p) i \<longleftrightarrow> map_option nu_admission_id (bt_get (sch_native_uses s) (nup_value p)) = Some i"
| "concerns s SPoll i \<longleftrightarrow> (case next_local_release s of Some j \<Rightarrow> i = j | None \<Rightarrow> map_option fst (next_command s) = Some i)"
| "concerns s (SRevoke g) i \<longleftrightarrow> True"
| "concerns s _ i \<longleftrightarrow> False"

text \<open>What one accepted call may do to the entry of an identifier.\<close>

fun admission_step :: "scheduler \<Rightarrow> sched_call \<Rightarrow> u64 \<Rightarrow> admission option \<Rightarrow> admission option \<Rightarrow> bool" where
  "admission_step s c i None None = True"
| "admission_step s c i None (Some a) =
     (adm_active_uses a = 0 \<and>
      (case c of
         SCommit p \<Rightarrow> is_legacy (adm_lease a) \<and> adm_state a = Reserved
       | SAdmitNative x \<Rightarrow> \<not> is_legacy (adm_lease a) \<and> adm_state a = Loading
       | _ \<Rightarrow> False))"
| "admission_step s c i (Some a) b = (b = Some a \<or> concerns s c i \<and> admission_move c a b)"

lemma admission_step_refl [simp]: "admission_step s c i x x"
  by (cases x) auto

lemma loaded_move:
  assumes "reports_loaded c h" and "loading_state (adm_state a)" and "rv \<longrightarrow> adm_state a \<noteq> Loading"
  shows "admission_move c a (Some (a\<lparr>adm_state := if rv \<or> adm_state a = Draining None True
     then Draining (Some h) False else Resident h\<rparr>))"
  using assms load_finished [OF assms(1)] cancelled_load_finished [OF assms(1)]
  by (cases "adm_state a" rule: loading_state.cases) auto

lemma finished_move:
  assumes "native_finished_state (adm_state a) n rv = Ok st \<or> finished_state (adm_state a) n rv = Ok st"
    and "adm_active_uses a = n + 1" and "finishes_a_use c" and "admission_ok rv a"
  shows "admission_move c a (Some (a\<lparr>adm_active_uses := n, adm_state := st\<rparr>))"
proof -
  have st: "\<exists>h r. adm_state a = InUse h \<or> adm_state a = Draining (Some h) False \<or> adm_state a = Quarantined r"
    and "st = state_after_use n (adm_state a)"
    using assms(1,4) by (auto simp: finished_state_Ok_iff native_finished_state_Ok_iff admission_ok_def split: if_splits)
  then show ?thesis using use_finished [OF assms(3,2)] by blast
qed

lemma complete_lifecycle:
  assumes inv: "sched_inv s" and ok: "complete s c = (Ok u, s')"
  shows "admission_step s (SComplete c) i (bt_get (sch_admissions s) i) (bt_get (sch_admissions s') i)"
proof -
  obtain p a t where op: "bt_get (sch_operations s) (op_value (completion_operation c)) = Some p"
    and p: "po_kind p = completion_kind c"
    and a: "bt_get (sch_admissions s) (po_admission_id p) = Some a"
    and m: "completion_matches (po_kind p) (adm_state a)"
    and t: "apply_completion s (po_admission_id p) c = (Ok (), t)"
    and s': "sch_admissions s' = sch_admissions t"
    using ok by (auto simp: complete_def Let_def)
  have con: "concerns s (SComplete c) (po_admission_id p)" using op p by (cases p) simp
  note A = admission_okD [OF inv a]
  show ?thesis
  proof (cases c)
    case (Loaded op h)
    then have l: "loading_state (adm_state a)" using p m by (simp add: completion_matches_iff)
    have "admission_move (SComplete c) a (Some (a\<lparr>adm_state := if sch_revoked s \<or> adm_state a = Draining None True
        then Draining (Some h) False else Resident h\<rparr>))"
      by (rule loaded_move [OF _ l]) (use Loaded loading_admission(3) [OF A l] in auto)
    then show ?thesis
      using Loaded t a s' con by (auto simp: complete_load_Ok_iff set_state_def)
  next
    case (EvictFailed op)
    with t a s' con show ?thesis by (auto simp: evict_failed_Ok_iff set_state_def intro: eviction_failed)
  next
    case (LoadQuarantined op)
    then have l: "loading_state (adm_state a)" using p m by (simp add: completion_matches_iff)
    with t a s' con LoadQuarantined load_lost [of "SComplete (LoadQuarantined op)" a] show ?thesis
      by (auto simp: quarantine_admission_Ok_iff set_state_def)
  next
    case (EvictionQuarantined op)
    with t a s' p m con show ?thesis
      by (auto simp: quarantine_admission_Ok_iff set_state_def completion_matches_iff intro: eviction_lost)
  next
    case (LoadFailed op)
    with p m have "loading_state (adm_state a)" by (simp add: completion_matches_iff)
    with LoadFailed t a s' con load_failed [of "SComplete (LoadFailed op)" a] show ?thesis
      by (auto elim!: release_effect [OF inv])
  next
    case (Evicted op)
    with p m have "\<exists>h. adm_state a = Evicting h" by (auto simp: completion_matches_iff)
    with Evicted t a s' con show ?thesis by (auto elim!: release_effect [OF inv] intro: eviction_finished)
  qed
qed

lemma native_load_lifecycle:
  assumes inv: "sched_inv s" and ok: "native_load_outcome s permit act = (Ok u, s')"
    and act: "act = (\<lambda>i. complete_load s i h) \<and> reports_loaded c h \<or> act = release_admission s \<and> reports_no_load c \<or>
      act = quarantine_admission s \<and> reports_lost_load c"
    and con: "\<And>i. bt_get (sch_native_loads s) (nlp_value permit) = Some i \<Longrightarrow> concerns s c i"
  shows "admission_step s c i (bt_get (sch_admissions s) i) (bt_get (sch_admissions s') i)"
  using ok
proof (rule native_load_outcome_Ok [OF inv])
  fix j a t
  assume "bt_get (sch_native_loads s) (nlp_value permit) = Some j"
    and a: "bt_get (sch_admissions s) j = Some a" and l: "loading_state (adm_state a)"
    and t: "act j = (Ok (), t)"
    and s': "s' = t\<lparr>sch_native_loads := bt_remove (nlp_value permit) (sch_native_loads t)\<rparr>"
  then have con: "concerns s c j" by (intro con)
  note A = admission_okD [OF inv a]
  show ?thesis
    using act
  proof (elim disjE conjE)
    assume "act = (\<lambda>i. complete_load s i h)" and c: "reports_loaded c h"
    with t have "complete_load s j h = (Ok (), t)" by simp
    moreover have "admission_move c a (Some (a\<lparr>adm_state := if sch_revoked s \<or> adm_state a = Draining None True
        then Draining (Some h) False else Resident h\<rparr>))"
      by (rule loaded_move [OF c l]) (use loading_admission(3) [OF A l] in blast)
    ultimately show ?thesis
      using a s' con by (auto simp: complete_load_Ok_iff set_state_def)
  next
    assume "act = release_admission s" and c: "reports_no_load c"
    with t have "release_admission s j = (Ok (), t)" by simp
    then show ?thesis
      using a s' con load_failed [OF c l] by (auto elim!: release_effect [OF inv])
  next
    assume "act = quarantine_admission s" and c: "reports_lost_load c"
    with t have "quarantine_admission s j = (Ok (), t)" by simp
    then show ?thesis
      using a s' l con load_lost [OF c l]
      by (auto simp: quarantine_admission_Ok_iff set_state_def)
  qed
qed

lemma poll_lifecycle:
  assumes inv: "sched_inv s" and ok: "poll_command s = (Ok q, s')"
  shows "admission_step s SPoll i (bt_get (sch_admissions s) i) (bt_get (sch_admissions s') i)"
  using ok
  by (rule poll_command_Ok [OF inv])
    (auto simp: set_state_def elim!: release_effect [OF inv] intro: local_release load_issued eviction_issued)

lemma sched_step_lifecycle:
  assumes inv: "sched_inv s" and ok: "sched_step s c = (Ok r, s')"
  shows "admission_step s c i (bt_get (sch_admissions s) i) (bt_get (sch_admissions s') i)"
proof (cases c)
  case (SPrepare x)
  then show ?thesis using ok by auto
next
  case (SCommit p)
  then obtain t where "sched_commit s p = (Ok t, s')" using ok by auto
  then show ?thesis
  proof (rule sched_commit_Ok [OF inv])
    fix leases ledger n adm
    assume "s' = s\<lparr>sch_ledger := ledger, sch_admissions := adm, sch_next_admission_id := n\<rparr>"
      and "\<forall>k. bt_get adm k = (if sch_next_admission_id s \<le> k \<and> k < n
       then Some (reserved_admission (leases ! (unat k - unat (sch_next_admission_id s))))
       else bt_get (sch_admissions s) k)"
    moreover have "bt_get (sch_admissions s) i = None" if "sch_next_admission_id s \<le> i"
      using sched_invD(6) [OF inv] that by (auto simp: ids_fresh_def intro: below_absent)
    ultimately show ?thesis using SCommit by (simp add: reserved_admission_def)
  qed
next
  case (SAdmitNative x)
  moreover have "bt_get (sch_admissions s) (sch_next_admission_id s) = None"
    using sched_invD(6) [OF inv] by (auto simp: ids_fresh_def intro: below_fresh)
  ultimately show ?thesis using ok by (auto elim!: admit_native_resident_Ok)
next
  case (SCompleteNativeLoad p h)
  then show ?thesis using ok by (auto simp: complete_native_load_def intro!: native_load_lifecycle [OF inv])
next
  case (SNativeLoadReleased p)
  then show ?thesis using ok by (auto simp: native_load_released_def intro!: native_load_lifecycle [OF inv])
next
  case (SQuarantineNativeLoad p)
  then show ?thesis using ok by (auto simp: quarantine_native_load_def intro!: native_load_lifecycle [OF inv])
next
  case (SRevoke g)
  then show ?thesis
    using ok by (cases "bt_get (sch_admissions s) i") (auto simp: sched_revoke_Ok_iff transition_to_draining_def intro: drain_asked)
next
  case (SRetire t)
  then show ?thesis
    using ok by (cases "bt_get (sch_admissions s) i")
      (use drain_asked [of "SRetire t"] in \<open>auto simp: request_retirement_Ok_iff transition_to_draining_def
        split: option.splits\<close>)
next
  case (SReplaceGrant b x)
  then show ?thesis using ok by (auto simp: replace_grant_Ok_iff)
next
  case SPoll
  then show ?thesis using ok poll_lifecycle [OF inv] by auto
next
  case (SComplete x)
  then show ?thesis using ok complete_lifecycle [OF inv] by auto
next
  case (SBeginUse t)
  then show ?thesis using ok using use_begun [of "SBeginUse t"] by (auto elim!: begin_use_Ok)
next
  case (SFinishUse p)
  then show ?thesis using ok by (auto elim!: finish_use_Ok intro!: finished_move [OF disjI2] admission_okD [OF inv])
next
  case (SBeginNativeUse t x)
  then show ?thesis using ok using use_begun [of "SBeginNativeUse t x"] by (auto elim!: begin_native_use_Ok)
next
  case (SFinishNativeUse p)
  then show ?thesis using ok by (auto elim!: finish_native_Ok intro!: finished_move [OF disjI1] admission_okD [OF inv])
next
  case (SQuarantineNativeUse p)
  then obtain x where "quarantine_native_use s p = (Ok x, s')" using ok by auto
  then show ?thesis
  proof (rule quarantine_native_use_Ok)
    fix u a h
    assume use: "bt_get (sch_native_uses s) (nup_value p) = Some u"
    assume "bt_get (sch_admissions s) (nu_admission_id u) = Some a"
      and st: "adm_state a = InUse h \<or> (\<exists>b. adm_state a = Draining (Some h) b) \<or>
        adm_state a = Quarantined (Some h)"
      and "s' = s\<lparr>sch_admissions := bt_insert (nu_admission_id u)
          (a\<lparr>adm_state := Quarantined (Some h)\<rparr>) (sch_admissions s),
        sch_native_uses := bt_remove (nup_value p) (sch_native_uses s),
        sch_native_quarantined_uses :=
          bt_insert (nup_value p) u (sch_native_quarantined_uses s)\<rparr>"
    moreover have "adm_state a \<noteq> Draining (Some h) True"
      using admission_okD [OF inv calculation(1)] by (auto simp: admission_ok_def)
    then have "adm_state a = InUse h \<or> adm_state a = Draining (Some h) False \<or>
        adm_state a = Quarantined (Some h)"
      using st by (metis (full_types))
    then have "admission_move c a (Some (a\<lparr>adm_state := Quarantined (Some h)\<rparr>))"
      unfolding SQuarantineNativeUse by (rule use_lost)
    ultimately show ?thesis using SQuarantineNativeUse use by simp
  qed
next
  case (SDiscardResult x)
  then show ?thesis using ok by (auto elim!: discard_native_result_Ok)
qed

subsection \<open>What no call touches, and identifiers that are never issued twice\<close>

text \<open>A key below the counter that is absent stays absent.\<close>

definition consumes :: "(u64, 'a) btree \<Rightarrow> u64 \<Rightarrow> (u64, 'b) btree \<Rightarrow> u64 \<Rightarrow> bool" where
  "consumes m n m' n' \<longleftrightarrow> n \<le> n' \<and> (\<forall>v. v < n \<longrightarrow> bt_get m v = None \<longrightarrow> bt_get m' v = None)"

lemma consumes_same [simp]: "consumes m n m n"
  by (simp add: consumes_def)

lemma consumes_remove [simp]: "consumes m n (bt_remove k m) n"
  by (simp add: consumes_def)

lemma consumes_insert: "checked_add n 1 = Some n' \<Longrightarrow> consumes m n (bt_insert n v m) n'"
  by (auto simp: consumes_def dest: checked_succ_less)

lemma consumes_trans: "consumes m n m' n' \<Longrightarrow> consumes m' n' m'' n'' \<Longrightarrow> consumes m n m'' n''"
  by (auto simp: consumes_def)

definition frame :: "scheduler \<Rightarrow> scheduler \<Rightarrow> bool" where
  "frame s s' \<longleftrightarrow>
     sch_brand s' = sch_brand s \<and> sch_limits s' = sch_limits s \<and>
     host_envelope (sch_host s') = host_envelope (sch_host s) \<and>
     host_extended_owners (sch_host s') = host_extended_owners (sch_host s) \<and>
     sch_generation s \<le> sch_generation s' \<and>
     consumes (sch_operations s) (sch_next_operation_id s) (sch_operations s') (sch_next_operation_id s') \<and>
     consumes (sch_permits s) (sch_next_permit_id s) (sch_permits s') (sch_next_permit_id s') \<and>
     consumes (sch_native_loads s) (sch_next_native_load_id s)
       (sch_native_loads s') (sch_next_native_load_id s') \<and>
     consumes (sch_native_uses s) (sch_next_native_use_id s)
       (sch_native_uses s') (sch_next_native_use_id s') \<and>
     consumes (sch_native_results s) (sch_next_native_result_id s)
       (sch_native_results s') (sch_next_native_result_id s')"

lemma frame_refl [simp]: "frame s s"
  by (simp add: frame_def)

lemma frame_trans: "frame s t \<Longrightarrow> frame t u \<Longrightarrow> frame s u"
  unfolding frame_def by (auto intro: consumes_trans)

lemma frame_set_state [simp]:
  "frame s (set_state s i a st)" "frame s ((set_state s i a st)\<lparr>sch_next_drain_cursor := c\<rparr>)"
  by (simp_all add: frame_def set_state_def)

lemma frame_release: "sched_inv s \<Longrightarrow> release_admission s i = (Ok u, t) \<Longrightarrow> frame s t"
  by (auto elim!: release_effect simp: frame_def)

lemma frame_operation_done:
  "frame s t \<Longrightarrow> frame s (t\<lparr>sch_operations := bt_remove v (sch_operations t)\<rparr>)"
  by (erule frame_trans) (simp add: frame_def)

lemma frame_load_done:
  "frame s t \<Longrightarrow> frame s (t\<lparr>sch_native_loads := bt_remove v (sch_native_loads t)\<rparr>)"
  by (erule frame_trans) (simp add: frame_def)

lemma frame_outcome:
  "complete_load s i h = (Ok u, t) \<Longrightarrow> frame s t" "quarantine_admission s i = (Ok u, t) \<Longrightarrow> frame s t"
  "evict_failed s i = (Ok u, t) \<Longrightarrow> frame s t"
  by (auto simp: complete_load_Ok_iff quarantine_admission_Ok_iff evict_failed_Ok_iff)

lemma frame_complete:
  assumes inv: "sched_inv s" and ok: "complete s c = (Ok u, s')"
  shows "frame s s'"
proof -
  obtain i t where t: "apply_completion s i c = (Ok (), t)"
    and s': "s' = t\<lparr>sch_operations := bt_remove (op_value (completion_operation c)) (sch_operations t)\<rparr>"
    using ok by (auto simp: complete_def Let_def)
  have "frame s t"
    using t by (cases c) (auto intro: frame_outcome frame_release [OF inv])
  then show ?thesis unfolding s' by (rule frame_operation_done)
qed

lemma frame_native_load:
  assumes ok: "native_load_outcome s permit act = (Ok u, s')"
    and act: "\<And>i t. act i = (Ok (), t) \<Longrightarrow> frame s t"
  shows "frame s s'"
  using ok act by (auto simp: native_load_outcome_def intro: frame_load_done)

lemma sched_step_frame:
  assumes inv: "sched_inv s" and ok: "sched_step s c = (Ok r, s')"
  shows "frame s s'"
proof (cases c)
  case (SPrepare x)
  then show ?thesis using ok by auto
next
  case (SCommit p)
  then obtain t where "sched_commit s p = (Ok t, s')" using ok by auto
  then show ?thesis by (rule sched_commit_Ok [OF inv]) (simp add: frame_def)
next
  case (SAdmitNative x)
  then obtain q where "admit_native_resident s x = (Ok q, s')" using ok by auto
  then show ?thesis
    by (rule admit_native_resident_Ok) (simp add: frame_def consumes_insert)
next
  case (SCompleteNativeLoad p h)
  then show ?thesis using ok
    by (auto simp: complete_native_load_def intro: frame_native_load frame_outcome)
next
  case (SNativeLoadReleased p)
  then show ?thesis using ok
    by (auto simp: native_load_released_def intro: frame_native_load frame_release [OF inv])
next
  case (SQuarantineNativeLoad p)
  then show ?thesis using ok
    by (auto simp: quarantine_native_load_def intro: frame_native_load frame_outcome)
next
  case (SReplaceGrant b x)
  then show ?thesis using ok
    by (auto simp: replace_grant_Ok_iff frame_def dest: checked_add_mono)
next
  case SPoll
  then obtain q where "poll_command s = (Ok q, s')" using ok by auto
  then show ?thesis
    by (rule poll_command_Ok [OF inv])
      (auto intro: frame_release [OF inv], simp_all add: set_state_def frame_def consumes_insert)
next
  case (SComplete x)
  then show ?thesis using ok frame_complete [OF inv] by auto
next
  case (SBeginUse t)
  then obtain q where "begin_use s t = (Ok q, s')" using ok by auto
  then show ?thesis by (rule begin_use_Ok) (simp add: frame_def consumes_insert)
next
  case (SBeginNativeUse t x)
  then obtain q where "begin_native_use s t x = (Ok q, s')" using ok by auto
  then show ?thesis by (rule begin_native_use_Ok) (simp add: frame_def consumes_insert)
next
  case (SFinishNativeUse p)
  then obtain q where "finish_native_use_after_teardown s p = (Ok q, s')" using ok by auto
  then show ?thesis
    by (rule finish_native_Ok) (auto simp: frame_def retained_results_def consumes_insert)
next
  case (SQuarantineNativeUse p)
  then obtain q where "quarantine_native_use s p = (Ok q, s')" using ok by auto
  then show ?thesis by (rule quarantine_native_use_Ok) (simp add: frame_def)
next
  case (SDiscardResult x)
  then obtain q where "discard_native_result s x = (Ok q, s')" using ok by auto
  then show ?thesis by (rule discard_native_result_Ok) (simp add: frame_def)
qed (use ok in \<open>auto simp: frame_def sched_revoke_Ok_iff request_retirement_Ok_iff
      elim!: finish_use_Ok split: option.splits\<close>)

lemma sched_run_frame: "sched_inv s \<Longrightarrow> frame s (run sched_step s cs)"
proof (induction cs arbitrary: s)
  case Nil
  then show ?case by simp
next
  case (Cons c cs)
  have "frame s (snd (sched_step s c))"
    using sched_step_frame [OF Cons.prems, of c] sched.refused_skip [OF Cons.prems, of c]
    by (cases "sched_step s c"; cases "fst (sched_step s c)") auto
  moreover have "frame (snd (sched_step s c)) (run sched_step (snd (sched_step s c)) cs)"
    using Cons.IH [OF sched.step_inv [OF Cons.prems]] .
  ultimately show ?case by (auto intro: frame_trans)
qed

subsection \<open>A revoked grant\<close>

text \<open>The calls that start new work.\<close>

definition starts_work :: "sched_call \<Rightarrow> bool" where
  "starts_work c = (case c of SPrepare r \<Rightarrow> True | SCommit p \<Rightarrow> True | SAdmitNative r \<Rightarrow> True
     | SBeginUse t \<Rightarrow> True | SBeginNativeUse t r \<Rightarrow> True | _ \<Rightarrow> False)"

definition replaces_grant :: "sched_call \<Rightarrow> bool" where
  "replaces_grant c = (case c of SReplaceGrant b r \<Rightarrow> True | _ \<Rightarrow> False)"

lemma revoked_refuses:
  assumes "sch_revoked s" and "starts_work c"
  shows "\<not> is_ok (fst (sched_step s c))"
  using assms
  by (cases c) (auto simp: starts_work_def is_ok_iff reply_def sched_prepare_def sched_commit_def
      admit_native_resident_def begin_use_def begin_native_use_def ensure_local_def
      ensure_current_def ensure_not_revoked_def require_def)

lemma revoked_stays:
  assumes inv: "sched_inv s" and rev: "sch_revoked s" and ok: "sched_step s c = (Ok r, s')"
    and c: "\<not> replaces_grant c"
  shows "sch_revoked s'"
proof -
  have rel: "sch_revoked t" if "release_admission s i = (Ok u, t)" for i u t
    using that rev by (auto elim!: release_effect [OF inv])
  have out: "complete_load s i h = (Ok u, t) \<Longrightarrow> sch_revoked t"
      "quarantine_admission s i = (Ok u, t) \<Longrightarrow> sch_revoked t"
      "evict_failed s i = (Ok u, t) \<Longrightarrow> sch_revoked t" for i h u t
    using rev by (auto simp: complete_load_Ok_iff quarantine_admission_Ok_iff
        evict_failed_Ok_iff set_state_def)
  have "\<not> starts_work c" using revoked_refuses [OF rev, of c] ok by auto
  show ?thesis
  proof (cases c)
    case SPoll
    then obtain q where "poll_command s = (Ok q, s')" using ok by auto
    then show ?thesis by (rule poll_command_Ok [OF inv]) (use rev rel in \<open>auto simp: set_state_def\<close>)
  next
    case (SComplete x)
    then obtain i t where "apply_completion s i x = (Ok (), t)" "sch_revoked s' = sch_revoked t"
      using ok by (force simp: complete_def Let_def)
    then show ?thesis using out rel by (cases x) auto
  next
    case (SCompleteNativeLoad p h)
    then show ?thesis using ok out by (auto simp: complete_native_load_def native_load_outcome_def)
  next
    case (SNativeLoadReleased p)
    then show ?thesis using ok rel by (auto simp: native_load_released_def native_load_outcome_def)
  next
    case (SQuarantineNativeLoad p)
    then show ?thesis using ok out by (auto simp: quarantine_native_load_def native_load_outcome_def)
  qed (use ok rev c \<open>\<not> starts_work c\<close> in \<open>auto simp: starts_work_def replaces_grant_def sched_revoke_Ok_iff
      request_retirement_Ok_iff elim!: finish_use_Ok finish_native_Ok quarantine_native_use_Ok
      discard_native_result_Ok split: option.splits\<close>)
qed

end
