(* ===== verification/Sched_Properties.thy ===== *)
theory Sched_Properties
  imports Sched_Runs
begin

text \<open>
  The properties of the scheduler: custody of leases and host bytes, atomicity, the bounds,
  revocation, eviction, acknowledgement at most once, the life cycle of an admission and the
  progress of a drain. A small controller to instantiate them at comes first.
\<close>

subsection \<open>A small controller\<close>

definition sample_host :: native_host_ledger where
  "sample_host =
     \<lparr>host_envelope = \<lparr>env_bytes = 50\<rparr>, host_extended_owners = True, host_reserved = 0\<rparr>"

definition sample_sched :: scheduler where
  "sample_sched =
     \<lparr>sch_brand = 1, sch_ledger = sample_ledger, sch_generation = 1, sch_revoked = False,
      sch_limits = default_limits, sch_admissions = [], sch_operations = [], sch_permits = [],
      sch_native_loads = [], sch_native_uses = [], sch_native_quarantined_uses = [],
      sch_native_results = [], sch_host = sample_host, sch_next_admission_id = 1,
      sch_next_operation_id = 1, sch_next_permit_id = 1, sch_next_native_load_id = 1,
      sch_next_native_use_id = 1, sch_next_native_result_id = 1, sch_next_drain_cursor = 1\<rparr>"

lemma sample_sched_new:
  "new_with_host_ledger 1 7 (sample_request ws) default_limits sample_host = Ok sample_sched"
  by (simp add: new_with_host_ledger_def sample_new sample_sched_def INITIAL_IDENTIFIER_def)

lemma sample_host_empty: "host_reserved sample_host = 0"
  by (simp add: sample_host_def)

lemma sample_sched_inv [simp]: "sched_inv sample_sched"
  by (rule new_with_host_ledger_inv(1) [OF sample_valid_empty sample_sched_new sample_host_empty])

definition sample_resident :: native_resident_request where
  "sample_resident =
     \<lparr>nrr_device_id = ''gpu0'', nrr_resident_bytes = nonzero 30, nrr_resident_host = Some (nonzero 5)\<rparr>"

definition sample_admission :: "admission_state \<Rightarrow> usize \<Rightarrow> admission" where
  "sample_admission st n =
     \<lparr>adm_lease = Native sample_lease (Some \<lparr>hl_requested = nonzero 5\<rparr>),
      adm_state = st, adm_active_uses = n\<rparr>"

definition sample_with :: "admission_state \<Rightarrow> (u64, u64) btree \<Rightarrow> scheduler" where
  "sample_with st loads =
     sample_sched\<lparr>sch_ledger := sample_reserved, sch_admissions := [(1, sample_admission st 0)],
       sch_native_loads := loads, sch_host := sample_host\<lparr>host_reserved := 5\<rparr>,
       sch_next_admission_id := 2, sch_next_native_load_id := 2\<rparr>"

definition sample_ticket :: admission_ticket where
  "sample_ticket = \<lparr>at_brand = 1, at_generation = 1, at_admission_id = 1\<rparr>"

definition sample_load :: native_load_permit where
  "sample_load = \<lparr>nlp_brand = 1, nlp_value = 1\<rparr>"

definition sample_generation :: grant_generation where
  "sample_generation = \<lparr>gg_brand = 1, gg_value = 1\<rparr>"

lemma sample_sched_simps [simp]:
  "sch_brand sample_sched = 1" "sch_ledger sample_sched = sample_ledger"
  "sch_generation sample_sched = 1" "\<not> sch_revoked sample_sched"
  "sch_limits sample_sched = default_limits" "sch_admissions sample_sched = []"
  "sch_operations sample_sched = []" "sch_permits sample_sched = []"
  "sch_native_loads sample_sched = []" "sch_native_uses sample_sched = []"
  "sch_native_quarantined_uses sample_sched = []" "sch_native_results sample_sched = []"
  "sch_host sample_sched = sample_host" "sch_next_admission_id sample_sched = 1"
  "sch_next_operation_id sample_sched = 1" "sch_next_permit_id sample_sched = 1"
  "sch_next_native_load_id sample_sched = 1" "sch_next_native_use_id sample_sched = 1"
  "sch_next_native_result_id sample_sched = 1" "sch_next_drain_cursor sample_sched = 1"
  by (simp_all add: sample_sched_def)

lemma default_limits_simps [simp]:
  "lim_admissions default_limits = 64" "lim_pending_operations default_limits = 8"
  "lim_uses default_limits = 32"
  by (simp_all add: default_limits_def DEFAULT_MAX_ACTIVE_ADMISSIONS_def
      DEFAULT_MAX_PENDING_OPERATIONS_def DEFAULT_MAX_ACTIVE_USES_def)

lemma sample_admit:
  "admit_native_resident sample_sched sample_resident =
     (Ok (sample_ticket, sample_load), sample_with Loading [(1, 1)])"
proof -
  have "next_host_reservation sample_sched [Some (nonzero 5)] = Ok 5"
    by (simp add: sample_host_def)
  moreover have "reserve_bytes sample_ledger ''gpu0'' (nonzero 30) = (Ok sample_lease, sample_reserved)"
    using sample_reserve by (simp add: sample_lease_def sample_reserved_def)
  ultimately show ?thesis
    by (simp add: admit_native_resident_def sample_resident_def ensure_not_revoked_def
        ensure_admission_capacity_def ensure_pending_capacity_def pending_operation_count_def
        usize_add_def checked_add_def ensure_extended_host_owner_def sample_host_def require_def
        ticket_def sample_ticket_def sample_load_def sample_with_def sample_admission_def
        del: next_host_reservation_Ok_iff)
qed

lemma sample_loading_inv [simp]: "sched_inv (sample_with Loading [(1, 1)])"
  using admit_native_resident_inv [OF sample_sched_inv sample_admit] .

lemma sample_loaded:
  "complete_native_load (sample_with Loading [(1, 1)]) sample_load (ResidentHandle ''r'') =
     (Ok (), sample_with (Resident (ResidentHandle ''r'')) [])"
  by (simp add: complete_native_load_def native_load_outcome_def complete_load_def set_state_def
      ensure_local_def require_def find_admission_def ensure_native_loading_def sample_with_def
      sample_load_def sample_admission_def bt_get_Cons resident_handle_in_custody_def bt_remove_def)

lemma sample_resident_inv [simp]: "sched_inv (sample_with (Resident (ResidentHandle ''r'')) [])"
  using complete_native_load_inv [OF sample_loading_inv sample_loaded] .

subsection \<open>Custody\<close>

text \<open>C5: along every run of a controller, every lease that is live in the ledger is held exactly
  once, by one admission, one use or one result, and the controller holds no lease that is not
  live: no charge is lost and none is released twice.\<close>

theorem scheduler_holds_each_live_lease_once:
  assumes "valid_request grant" and "new_with_host_ledger cb lb grant limits host = Ok s"
    and "host_reserved host = 0"
  shows "count (held (run sched_step s cs)) c =
    (if c \<in> live_leases (sch_ledger (run sched_step s cs)) then 1 else 0)"
proof -
  have "books_inv (run sched_step s cs)"
    using sched_invD(3) [OF sched.run_inv [OF new_with_host_ledger_inv(1) [OF assms]]] .
  then have "held (run sched_step s cs) = mset_set (live_leases (sch_ledger (run sched_step s cs)))"
    by (simp add: books_inv_def leases.custody_def)
  then show ?thesis by (simp add: live_leases_finite)
qed

theorem scheduler_holds_each_live_lease_once_witness:
  "count (held (run sched_step sample_sched [SAdmitNative sample_resident])) (dbl_lease sample_lease) = 1"
proof -
  have "dbl_lease sample_lease \<in> live_leases sample_reserved"
    by (simp add: live_leases_def sample_lease_def sample_reserved_simps sample_ledger_def bt_get_Cons)
  then have "dbl_lease sample_lease \<in>
      live_leases (sch_ledger (run sched_step sample_sched [SAdmitNative sample_resident]))"
    by (simp add: sample_admit reply_def sample_with_def)
  then show ?thesis
    using scheduler_holds_each_live_lease_once [OF sample_valid_empty sample_sched_new
        sample_host_empty, of "[SAdmitNative sample_resident]" "dbl_lease sample_lease"] by simp
qed

text \<open>C15: the host bytes the controller reserves are at every moment the sum of what its residents,
  uses and results hold, and never exceed the envelope it was given.\<close>

theorem host_bytes_accounted:
  assumes "valid_request grant" and "new_with_host_ledger cb lb grant limits host = Ok s"
    and "host_reserved host = 0"
  shows "unat (host_reserved (sch_host (run sched_step s cs))) = held_host (run sched_step s cs) \<and>
    held_host (run sched_step s cs) \<le> unat (env_bytes (host_envelope host))"
proof -
  note N = new_with_host_ledger_inv(1) [OF assms]
  have "books_inv (run sched_step s cs)"
    using sched_invD(3) [OF sched.run_inv [OF N]] .
  moreover have "host_envelope (sch_host (run sched_step s cs)) = host_envelope host"
    using sched_run_frame [OF N, of cs] assms(2)
    by (auto simp: frame_def new_with_host_ledger_def)
  ultimately show ?thesis by (simp add: books_inv_def word_le_nat_alt)
qed

theorem host_bytes_accounted_witness:
  "held_host (run sched_step sample_sched
     [SAdmitNative sample_resident, SAdmitNative sample_resident]) \<le> 50"
  using host_bytes_accounted [OF sample_valid_empty sample_sched_new sample_host_empty,
      of "[SAdmitNative sample_resident, SAdmitNative sample_resident]"]
  by (simp add: sample_host_def)

subsection \<open>Atomicity and bounds\<close>

text \<open>C27: no call on a controller panics, and a refused call leaves no trace: a run reaches the
  same state as the run of its accepted calls alone.\<close>

theorem scheduler_refusals_leave_no_trace:
  assumes "valid_request grant" and "new_with_host_ledger cb lb grant limits host = Ok s"
    and "host_reserved host = 0"
  shows "Panic \<notin> set (outcomes sched_step s cs) \<and>
    run sched_step s (accepted sched_step s cs) = run sched_step s cs"
  using new_with_host_ledger_inv(1) [OF assms] by (simp add: sched.run_no_panic sched.run_accepted)

theorem scheduler_refusals_leave_no_trace_witness:
  "Panic \<notin> set (outcomes sched_step sample_sched [SBeginUse sample_ticket, SPoll])"
  using scheduler_refusals_leave_no_trace [OF sample_valid_empty sample_sched_new sample_host_empty]
  by blast

text \<open>The controller stays within the limits it was created with: retained admissions, pending
  operations (commands and native loads together) and custody slots (permits, native uses,
  quarantined uses and results together).\<close>

theorem scheduler_within_limits:
  assumes "valid_request grant" and "new_with_host_ledger cb lb grant limits host = Ok s"
    and "host_reserved host = 0"
  shows "length (sch_admissions (run sched_step s cs)) \<le> lim_admissions limits \<and>
    pending (run sched_step s cs) \<le> lim_pending_operations limits \<and>
    custody_slots (run sched_step s cs) \<le> lim_uses limits"
proof -
  note N = new_with_host_ledger_inv(1) [OF assms]
  have "sch_limits (run sched_step s cs) = limits"
    using sched_run_frame [OF N, of cs] assms(2)
    by (auto simp: frame_def new_with_host_ledger_def)
  then show ?thesis
    using sched_invD(7) [OF sched.run_inv [OF N, of cs]] by (simp add: within_limits_def)
qed

theorem scheduler_within_limits_witness:
  "pending (run sched_step sample_sched (replicate 9 (SAdmitNative sample_resident))) \<le> 8"
  using scheduler_within_limits [OF sample_valid_empty sample_sched_new sample_host_empty,
      of "replicate 9 (SAdmitNative sample_resident)"] by (simp del: replicate.simps)

subsection \<open>Revocation and replacement\<close>

text \<open>The admissions a scheduler retains.\<close>

definition retained :: "scheduler \<Rightarrow> u64 set" where
  "retained s = {i. bt_get (sch_admissions s) i \<noteq> None}"

lemma revoked_run:
  assumes "sched_inv s" and "sch_revoked s" and "\<forall>c \<in> set cs. \<not> replaces_grant c"
  shows "sch_revoked (run sched_step s cs) \<and> (\<forall>c \<in> set (accepted sched_step s cs). \<not> starts_work c) \<and>
    retained (run sched_step s cs) \<subseteq> retained s"
  using assms
proof (induction cs arbitrary: s)
  case Nil
  then show ?case by simp
next
  case (Cons c cs)
  let ?t = "snd (sched_step s c)"
  have inv: "sched_inv ?t" by (rule sched.step_inv [OF Cons.prems(1)])
  have step: "sch_revoked ?t \<and> (is_ok (fst (sched_step s c)) \<longrightarrow> \<not> starts_work c) \<and>
      retained ?t \<subseteq> retained s"
  proof (cases "is_ok (fst (sched_step s c))")
    case True
    then obtain r where ok: "sched_step s c = (Ok r, ?t)"
      by (cases "sched_step s c") (auto simp: is_ok_iff)
    have work: "\<not> starts_work c" using revoked_refuses [OF Cons.prems(2)] True by blast
    have "bt_get (sch_admissions ?t) i = None" if "bt_get (sch_admissions s) i = None" for i
    proof (rule ccontr)
      assume "bt_get (sch_admissions ?t) i \<noteq> None"
      then obtain a where a: "bt_get (sch_admissions ?t) i = Some a" by auto
      have "admission_step s c i None (Some a)"
        using sched_step_lifecycle [OF Cons.prems(1) ok, of i] that a by simp
      then have "adm_state a = Reserved \<or> adm_state a = Loading" by (auto split: sched_call.splits)
      moreover have "sch_revoked ?t"
        using revoked_stays [OF Cons.prems(1,2) ok] Cons.prems(3) by simp
      ultimately show False
        using admission_okD [OF inv a] by (auto simp: admission_ok_def)
    qed
    note absent = this
    have "retained ?t \<subseteq> retained s"
    proof (rule subsetI)
      fix i
      assume "i \<in> retained ?t"
      then show "i \<in> retained s"
        using absent [of i] by (cases "bt_get (sch_admissions s) i") (simp_all add: retained_def)
    qed
    then show ?thesis
      using revoked_stays [OF Cons.prems(1,2) ok] Cons.prems(3) work by simp
  next
    case False
    then show ?thesis using sched.refused_skip [OF Cons.prems(1)] Cons.prems(2) by simp
  qed
  with Cons.IH [OF inv] Cons.prems(3) show ?case by auto
qed

text \<open>A revocation takes effect at once and for good: until the grant is replaced, no call that
  starts new work (preparing, committing, admitting a native resident, beginning a use) is
  accepted, whatever else is called, and no admission is added to those retained.\<close>

theorem revoked_grant_starts_no_work:
  assumes "sched_inv s" and "sched_revoke s g = (Ok u, s')"
    and "\<forall>c \<in> set cs. \<not> replaces_grant c"
  shows "(\<forall>c \<in> set (accepted sched_step s' cs). \<not> starts_work c) \<and>
    retained (run sched_step s' cs) \<subseteq> retained s"
proof -
  have "sch_revoked s'" "retained s' = retained s"
    using assms(2) by (auto simp: sched_revoke_Ok_iff retained_def)
  then show ?thesis
    using revoked_run [OF sched_revoke_inv [OF assms(1,2)] _ assms(3)] by simp
qed

lemma sample_revoked:
  "sched_revoke sample_sched sample_generation = (Ok (), sample_sched\<lparr>sch_revoked := True\<rparr>)"
  by (simp add: sched_revoke_Ok_iff sample_generation_def bt_map_values_def sample_sched_def)

theorem revoked_grant_starts_no_work_witness:
  "retained (run sched_step (sample_sched\<lparr>sch_revoked := True\<rparr>) [SAdmitNative sample_resident, SPoll]) = {}"
  using revoked_grant_starts_no_work [OF sample_sched_inv sample_revoked,
      of "[SAdmitNative sample_resident, SPoll]"]
  by (auto simp: replaces_grant_def retained_def)

text \<open>A grant is replaced only when nothing of the old one is left: the old ledger has no live
  lease, the generation moves forward, every ticket and every prepared admission of an older
  generation is refused from then on.\<close>

theorem replacement_only_when_drained:
  assumes "sched_inv s" and "replace_grant s lb r = (Ok g, s')"
    and "at_generation t = sch_generation s" and "pa_generation p = sch_generation s"
    and "at_brand t = sch_brand s" and "pa_brand p = sch_brand s"
  shows "live_leases (sch_ledger s) = {} \<and> sch_generation s < gg_value g \<and>
    begin_use s' t = (Err StaleGeneration, s') \<and>
    begin_native_use s' t request = (Err StaleGeneration, s') \<and>
    request_retirement s' t = (Err StaleGeneration, s') \<and>
    sched_commit s' p = (Err StaleGeneration, s')"
proof -
  obtain n l where d: "drained s" and n: "checked_add (sch_generation s) 1 = Some n"
    and s': "s' = s\<lparr>sch_ledger := l, sch_generation := n, sch_revoked := False\<rparr>"
    and g: "gg_value g = n"
    using assms(2) by (auto simp: replace_grant_Ok_iff)
  have less: "sch_generation s < n" using n by (rule checked_succ_less)
  have "held s = {#}" using d by (simp add: held_def drained_def)
  then have "leases.custody (sch_ledger s) {#}"
    using sched_invD(3) [OF assms(1)] by (simp add: books_inv_def)
  then have "live_leases (sch_ledger s) = {}" by (rule leases.custody_empty)
  then show ?thesis
    using less assms(3-6) g
    by (auto simp: s' begin_use_def begin_native_use_def request_retirement_def sched_commit_def
        ensure_local_def ensure_current_def require_def)
qed

lemma sample_replace:
  "replace_grant (sample_sched\<lparr>sch_revoked := True\<rparr>) 7 (sample_request []) =
     (Ok \<lparr>gg_brand = 1, gg_value = 2\<rparr>, sample_sched\<lparr>sch_generation := 2\<rparr>)"
proof -
  have "checked_add (1 :: u64) 1 = Some 2" by (simp add: checked_add_def)
  then show ?thesis
    unfolding replace_grant_Ok_iff
    by (simp add: drained_def sample_host_def sample_new sample_sched_def)
qed

theorem replacement_only_when_drained_witness:
  "begin_use (sample_sched\<lparr>sch_generation := 2\<rparr>) sample_ticket =
     (Err StaleGeneration, sample_sched\<lparr>sch_generation := 2\<rparr>)"
  using replacement_only_when_drained [OF sched_revoke_inv [OF sample_sched_inv sample_revoked]
      sample_replace, of sample_ticket "\<lparr>pa_brand = 1, pa_generation = 1, pa_prepared = sample_plan 1\<rparr>"]
  by (simp add: sample_ticket_def)

subsection \<open>Eviction and acknowledgement\<close>

lemma references_at:
  assumes "references_inv s"
  shows "tally Some (sch_permits s) i = count_at legacy_uses (sch_admissions s) i"
    and "tally use_target (sch_native_uses s) i
           + tally use_target (sch_native_quarantined_uses s) i
         = count_at native_uses (sch_admissions s) i"
    and "tally Some (sch_native_loads s) i = count_at native_loads (sch_admissions s) i"
    and "tally (operation_target LoadOperation) (sch_operations s) i
         = count_at load_commands (sch_admissions s) i"
    and "tally (operation_target EvictOperation) (sch_operations s) i
         = count_at evict_commands (sch_admissions s) i"
  using assms by (simp_all add: references_inv_def)

text \<open>The controller asks for an eviction only when the resident is draining and nothing uses
  it: no use permit and no native use, finished or quarantined, refers to the admission, and no
  other command or load is pending for it.\<close>

theorem eviction_only_when_unused:
  assumes "sched_inv s" and "poll_command s = (Ok (Command cmd), s')" and "cmd_kind cmd = Evict h"
  shows "\<exists>i a. bt_get (sch_admissions s) i = Some a \<and> adm_state a = Draining (Some h) False \<and>
    adm_active_uses a = 0 \<and>
    (\<forall>v. bt_get (sch_permits s) v \<noteq> Some i) \<and>
    (\<forall>v u. bt_get (sch_native_uses s) v = Some u \<longrightarrow> nu_admission_id u \<noteq> i) \<and>
    (\<forall>v u. bt_get (sch_native_quarantined_uses s) v = Some u \<longrightarrow> nu_admission_id u \<noteq> i) \<and>
    (\<forall>v. bt_get (sch_native_loads s) v \<noteq> Some i) \<and>
    (\<forall>v p. bt_get (sch_operations s) v = Some p \<longrightarrow> po_admission_id p \<noteq> i) \<and>
    bt_get (sch_operations s') (op_value (cmd_operation cmd)) =
      Some \<lparr>po_admission_id = i, po_kind = EvictOperation\<rparr>"
proof -
  note I = sched_invD [OF assms(1)]
  note W = maps_wfD [OF I(5)]
  obtain i a where a: "bt_get (sch_admissions s) i = Some a"
      "adm_state a = Draining (Some h) False" "adm_active_uses a = 0"
    and op: "bt_get (sch_operations s') (op_value (cmd_operation cmd)) =
      Some \<lparr>po_admission_id = i, po_kind = EvictOperation\<rparr>"
    using assms(2) by (rule poll_command_Ok [OF assms(1)]) (use assms(3) in auto)
  have zero: "count_at legacy_uses (sch_admissions s) i = 0" "count_at native_uses (sch_admissions s) i = 0"
    "count_at native_loads (sch_admissions s) i = 0" "count_at load_commands (sch_admissions s) i = 0"
    "count_at evict_commands (sch_admissions s) i = 0"
    using a by (simp_all add: count_at_present sched_simps)
  note R = references_at [OF I(4), of i, unfolded zero]
  have U: "tally use_target (sch_native_uses s) i = 0"
    "tally use_target (sch_native_quarantined_uses s) i = 0"
    using R(2) by (simp_all only: add_is_0)
  note t = R(1) U R(3-5)
  have ops: "po_admission_id p \<noteq> i" if v: "bt_get (sch_operations s) v = Some p" for v p
  proof (cases "po_kind p")
    case LoadOperation
    then show ?thesis
      using t(5) [unfolded tally_zero_iff [OF W(2)], rule_format, OF v]
      by (simp add: operation_target_def)
  next
    case EvictOperation
    then show ?thesis
      using t(6) [unfolded tally_zero_iff [OF W(2)], rule_format, OF v]
      by (simp add: operation_target_def)
  qed
  have permits: "\<forall>v. bt_get (sch_permits s) v \<noteq> Some i"
    using t(1) unfolding tally_zero_iff [OF W(3)] by auto
  have uses: "\<forall>v u. bt_get (sch_native_uses s) v = Some u \<longrightarrow> nu_admission_id u \<noteq> i"
    using t(2) unfolding tally_zero_iff [OF W(5)] by (auto simp: use_target_def)
  have quarantined:
    "\<forall>v u. bt_get (sch_native_quarantined_uses s) v = Some u \<longrightarrow> nu_admission_id u \<noteq> i"
    using t(3) unfolding tally_zero_iff [OF W(6)] by (auto simp: use_target_def)
  have loads: "\<forall>v. bt_get (sch_native_loads s) v \<noteq> Some i"
    using t(4) unfolding tally_zero_iff [OF W(4)] by auto
  show ?thesis using a op permits uses quarantined loads ops by blast
qed

lemma sample_retire:
  "request_retirement (sample_with (Resident (ResidentHandle ''r'')) []) sample_ticket =
     (Ok (), sample_with (Draining (Some (ResidentHandle ''r'')) False) [])"
  by (simp add: request_retirement_Ok_iff sample_with_def sample_ticket_def sample_admission_def
      transition_to_draining_def bt_get_Cons)

lemma sample_draining_inv [simp]:
  "sched_inv (sample_with (Draining (Some (ResidentHandle ''r'')) False) [])"
  using request_retirement_inv [OF sample_resident_inv sample_retire] .

definition sample_evicting :: scheduler where
  "sample_evicting = (sample_with (Evicting (ResidentHandle ''r'')) [])\<lparr>
     sch_operations := [(1, \<lparr>po_admission_id = 1, po_kind = EvictOperation\<rparr>)],
     sch_next_operation_id := 2\<rparr>"

definition sample_eviction :: runtime_command where
  "sample_eviction =
     \<lparr>cmd_operation = \<lparr>op_brand = 1, op_value = 1\<rparr>, cmd_kind = Evict (ResidentHandle ''r'')\<rparr>"

lemma sample_poll:
  "poll_command (sample_with (Draining (Some (ResidentHandle ''r'')) False) []) =
     (Ok (Command sample_eviction), sample_evicting)"
proof -
  have "next_local_release (sample_with (Draining (Some (ResidentHandle ''r'')) False) []) = None"
    by (simp add: next_local_release_def sample_with_def sample_admission_def)
  moreover have "next_command (sample_with (Draining (Some (ResidentHandle ''r'')) False) []) =
      Some (1, EvictOperation)"
    by (simp add: next_command_def next_eviction_from_def bt_from_def evictable_iff sample_with_def
        sample_admission_def)
  ultimately show ?thesis
    by (simp add: poll_command_def pending_operation_count_def usize_add_def checked_add_def
        find_admission_def issue_command_def set_state_def sample_eviction_def sample_evicting_def
        sample_with_def sample_admission_def bt_get_Cons)
qed

theorem eviction_only_when_unused_witness:
  "\<exists>a. bt_get (sch_admissions (sample_with (Draining (Some (ResidentHandle ''r'')) False) [])) 1 = Some a \<and>
     adm_active_uses a = 0"
  using eviction_only_when_unused [OF sample_draining_inv sample_poll, of "ResidentHandle ''r''"]
  by (auto simp: sample_eviction_def sample_with_def sample_admission_def bt_get_Cons)

text \<open>An identifier that was present once and is gone stays gone.\<close>

lemma consumed:
  assumes "below m n" and "bt_get m v = Some x" and "consumes m n m1 n1"
    and "bt_get m1 v = None" and "consumes m1 n1 m2 n2"
  shows "bt_get m2 v = None"
proof -
  have "v < n" using assms(1,2) by (auto simp: below_def)
  then show ?thesis using assms(3-5) by (auto simp: consumes_def)
qed

lemma frameD:
  assumes "frame s s'"
  shows "sch_brand s' = sch_brand s"
    and "consumes (sch_operations s) (sch_next_operation_id s)
      (sch_operations s') (sch_next_operation_id s')"
    and "consumes (sch_native_uses s) (sch_next_native_use_id s)
      (sch_native_uses s') (sch_next_native_use_id s')"
  using assms by (simp_all add: frame_def)

text \<open>Every command is acknowledged at most once: after a completion has been accepted, any other
  completion of the same operation, of whatever kind and after whatever calls, is refused as
  unknown and changes nothing.\<close>

theorem command_acknowledged_once:
  assumes "sched_inv s" and "complete s c = (Ok u, s')"
    and "completion_operation c' = completion_operation c"
  shows "complete (run sched_step s' cs) c' = (Err UnknownOperation, run sched_step s' cs)"
proof -
  let ?v = "op_value (completion_operation c)"
  let ?t = "run sched_step s' cs"
  have inv: "sched_inv s'" by (rule complete_inv [OF assms(1,2)])
  obtain p t where p: "bt_get (sch_operations s) ?v = Some p"
    and brand: "op_brand (completion_operation c) = sch_brand s"
    and s': "s' = t\<lparr>sch_operations := bt_remove ?v (sch_operations t)\<rparr>"
    using assms(2) by (auto simp: complete_def Let_def)
  note F = frameD [OF frame_complete [OF assms(1,2)]]
  note G = frameD [OF sched_run_frame [OF inv, of cs]]
  have "below (sch_operations s) (sch_next_operation_id s)"
    using sched_invD(6) [OF assms(1)] by (simp add: ids_fresh_def)
  then have "bt_get (sch_operations ?t) ?v = None"
    by (rule consumed [OF _ p F(2) _ G(2)]) (simp add: s')
  then show ?thesis
    using assms(3) F(1) G(1) brand by (simp add: complete_def ensure_local_def require_def)
qed

lemma sample_evicted:
  "complete sample_evicting (EvictFailed \<lparr>op_brand = 1, op_value = 1\<rparr>) =
     (Ok (), (sample_with (Draining (Some (ResidentHandle ''r'')) False) [])\<lparr>
        sch_next_operation_id := 2, sch_next_drain_cursor := 2\<rparr>)"
  by (simp add: complete_def Let_def ensure_local_def require_def sample_evicting_def
      sample_with_def sample_admission_def bt_get_Cons ensure_completion_state_def
      find_admission_def evict_failed_def set_state_def checked_add_def bt_remove_def)

lemma sample_evicting_inv [simp]: "sched_inv sample_evicting"
  using poll_command_inv [OF sample_draining_inv sample_poll] .

theorem command_acknowledged_once_witness:
  "fst (complete (run sched_step ((sample_with (Draining (Some (ResidentHandle ''r'')) False) [])\<lparr>
        sch_next_operation_id := 2, sch_next_drain_cursor := 2\<rparr>) [SPoll])
     (Evicted \<lparr>op_brand = 1, op_value = 1\<rparr>)) = Err UnknownOperation"
  using command_acknowledged_once [OF sample_evicting_inv sample_evicted,
      of "Evicted \<lparr>op_brand = 1, op_value = 1\<rparr>" "[SPoll]"]
  by (simp del: run.simps)

text \<open>A native use ends at most once: after its teardown was accepted, finishing or quarantining
  it again is refused as unknown, after whatever calls, and changes nothing.\<close>

theorem native_use_finished_once:
  assumes "sched_inv s" and "finish_native_use_after_teardown s p = (Ok l, s')"
  shows "finish_native_use_after_teardown (run sched_step s' cs) p =
      (Err UnknownUsePermit, run sched_step s' cs) \<and>
    quarantine_native_use (run sched_step s' cs) p = (Err UnknownUsePermit, run sched_step s' cs)"
proof -
  let ?t = "run sched_step s' cs"
  have step: "sched_step s (SFinishNativeUse p) = (Ok (NativeUseFinished l), s')"
    using assms(2) by simp
  have inv: "sched_inv s'" by (rule sched_step_inv [OF assms(1) step])
  note F = frameD [OF sched_step_frame [OF assms(1) step]]
  note G = frameD [OF sched_run_frame [OF inv, of cs]]
  obtain u where u: "bt_get (sch_native_uses s) (nup_value p) = Some u"
    and gone: "bt_get (sch_native_uses s') (nup_value p) = None" and brand: "nup_brand p = sch_brand s"
    using assms(2) by (rule finish_native_Ok) auto
  have "below (sch_native_uses s) (sch_next_native_use_id s)"
    using sched_invD(6) [OF assms(1)] by (simp add: ids_fresh_def)
  then have "bt_get (sch_native_uses ?t) (nup_value p) = None"
    by (rule consumed [OF _ u F(3) gone G(3)])
  then show ?thesis
    using F(1) G(1) brand
    by (simp add: finish_native_use_after_teardown_def quarantine_native_use_def ensure_local_def
        require_def prepare_native_finish_def)
qed

definition sample_use :: native_use_request where
  "sample_use = \<lparr>nur_mutable_device = nonzero 20, nur_mutable_host = None,
     nur_retained_device = None, nur_retained_host = None\<rparr>"

definition sample_use_lease :: device_byte_lease where
  "sample_use_lease = \<lparr>dbl_lease = \<lparr>cap_brand = 7, cap_lease_id = 2, cap_device_id = ''gpu0'',
     cap_reserved_bytes = 20\<rparr>, dbl_requested_bytes = nonzero 20\<rparr>"

definition sample_used :: reservation_ledger where
  "sample_used = sample_ledger\<lparr>
     led_active_leases := [(1, \<lparr>rec_device_id = ''gpu0'', rec_reserved_bytes = 30\<rparr>),
       (2, \<lparr>rec_device_id = ''gpu0'', rec_reserved_bytes = 20\<rparr>)],
     led_dynamic_reserved := [(''gpu0'', 50)], led_next_lease_id := 3, led_revision := 2\<rparr>"

definition sample_using :: scheduler where
  "sample_using = (sample_with (InUse (ResidentHandle ''r'')) [])\<lparr>sch_ledger := sample_used,
     sch_admissions := [(1, sample_admission (InUse (ResidentHandle ''r'')) 1)],
     sch_native_uses := [(1, \<lparr>nu_admission_id = 1, nu_mutable_device = sample_use_lease,
       nu_mutable_host = None, nu_retained_device = None, nu_retained_host = None\<rparr>)],
     sch_next_native_use_id := 2\<rparr>"

lemma sample_reserve_use:
  "reserve_bytes_batch sample_reserved ''gpu0'' (nonzero 20) None = (Ok (sample_use_lease, None), sample_used)"
  by (simp add: reserve_bytes_batch_def require_reservable_device_def sample_reserved_simps
      prepare_reservation_def apply_reservation_def id_range_def sample_ledger_def
      u64_of_usize_def checked_add_def snapshot_from_request_def sample_request_def Let_def
      remaining_after_reservations_def sample_device_def checked_sub_def
      device_indices_def bt_get_Cons index_def sample_used_def sample_use_lease_def)

lemma sample_begin_use:
  "begin_native_use (sample_with (Resident (ResidentHandle ''r'')) []) sample_ticket sample_use =
     (Ok \<lparr>nup_brand = 1, nup_value = 1\<rparr>, sample_using)"
proof -
  have host: "next_host_reservation (sample_with (Resident (ResidentHandle ''r'')) []) [None, None] = Ok 5"
    by (simp add: sample_with_def sample_host_def)
  show ?thesis
    using host sample_reserve_use
    by (simp add: begin_native_use_def ensure_local_def ensure_current_def ensure_not_revoked_def
        require_def ensure_custody_capacity_def usize_add_def prepare_native_use_def checked_add_def
        ensure_extended_host_owner_def find_admission_def sample_with_def sample_ticket_def
        sample_use_def sample_admission_def sample_lease_def bt_get_Cons sample_using_def
        del: next_host_reservation_Ok_iff)
qed

lemma sample_finish_use:
  "finish_native_use_after_teardown sample_using \<lparr>nup_brand = 1, nup_value = 1\<rparr> =
     (Ok None, (sample_with (Resident (ResidentHandle ''r'')) [])\<lparr>
        sch_ledger := sample_reserved\<lparr>led_next_lease_id := 3, led_revision := 3\<rparr>,
        sch_next_native_use_id := 2\<rparr>)"
proof -
  have rel: "release_bytes sample_used sample_use_lease =
      (Ok (), sample_reserved\<lparr>led_next_lease_id := 3, led_revision := 3\<rparr>)"
    by (simp add: sample_used_def sample_use_lease_def release_bytes_def release_lease_def
        bt_get_Cons checked_sub_def checked_add_def bt_remove_def sample_ledger_def
        sample_reserved_simps)
  have host: "next_host_release sample_using None = Ok 5"
    by (simp add: sample_using_def sample_with_def host_bytes_def)
  show ?thesis
    using rel host
    by (simp add: finish_native_use_after_teardown_def ensure_local_def require_def
        prepare_native_finish_def find_admission_def sample_using_def sample_with_def
        sample_admission_def bt_get_Cons bt_remove_def Let_def usize_sub_def
        del: next_host_release_Ok_iff)
qed

lemma sample_using_inv [simp]: "sched_inv sample_using"
  using begin_native_use_inv [OF sample_resident_inv sample_begin_use] .

theorem native_use_finished_once_witness:
  "fst (finish_native_use_after_teardown (run sched_step ((sample_with (Resident (ResidentHandle ''r'')) [])\<lparr>
        sch_ledger := sample_reserved\<lparr>led_next_lease_id := 3, led_revision := 3\<rparr>,
        sch_next_native_use_id := 2\<rparr>) [SBeginNativeUse sample_ticket sample_use])
      \<lparr>nup_brand = 1, nup_value = 1\<rparr>) = Err UnknownUsePermit"
  using native_use_finished_once [OF sample_using_inv sample_finish_use,
      of "[SBeginNativeUse sample_ticket sample_use]"] by (simp del: run.simps)

text \<open>A native use without retained output that is finished right after it began leaves no
  charge and no trace in the books: the admissions, the uses, the results, the reserved host
  bytes and the live leases of the ledger are what they were, and no result lease is issued.\<close>

theorem native_use_round_trip:
  assumes "sched_inv s" and "begin_native_use s t request = (Ok p, s1)"
    and "nur_retained_device request = None" and "nur_retained_host request = None"
    and "unat (led_revision (sch_ledger s1)) + 1 < 2 ^ 64"
  shows "\<exists>s2. finish_native_use_after_teardown s1 p = (Ok None, s2) \<and>
    sch_admissions s2 = sch_admissions s \<and> sch_native_uses s2 = sch_native_uses s \<and>
    sch_native_results s2 = sch_native_results s \<and> sch_host s2 = sch_host s \<and>
    live_leases (sch_ledger s2) = live_leases (sch_ledger s)"
  using assms(2)
proof (rule begin_native_use_Ok)
  fix a l lh st h n hr m rd ledger
  assume a: "bt_get (sch_admissions s) (at_admission_id t) = Some a" "adm_lease a = Native l lh"
      "adm_state a = Resident h \<or> adm_state a = InUse h" and rev: "\<not> sch_revoked s"
    and hr: "unat hr = unat (host_reserved (sch_host s))
      + (case nur_mutable_host request of None \<Rightarrow> 0 | Some b \<Rightarrow> unat (bytes_of b))
      + (case nur_retained_host request of None \<Rightarrow> 0 | Some b \<Rightarrow> unat (bytes_of b))"
    and res: "reserve_bytes_batch (sch_ledger s) (cap_device_id (dbl_lease l)) (nur_mutable_device request)
      (map_option (\<lambda>b. (cap_device_id (dbl_lease l), b)) (nur_retained_device request)) = (Ok (m, rd), ledger)"
    and p: "p = \<lparr>nup_brand = sch_brand s, nup_value = sch_next_native_use_id s\<rparr>"
    and s1: "s1 = s\<lparr>sch_ledger := ledger,
        sch_admissions := bt_insert (at_admission_id t)
          (a\<lparr>adm_active_uses := adm_active_uses a + 1, adm_state := InUse h\<rparr>) (sch_admissions s),
        sch_native_uses := bt_insert (sch_next_native_use_id s)
          \<lparr>nu_admission_id = at_admission_id t, nu_mutable_device = m,
           nu_mutable_host = map_option (\<lambda>b. \<lparr>hl_requested = b\<rparr>) (nur_mutable_host request),
           nu_retained_device = rd,
           nu_retained_host = map_option (\<lambda>b. \<lparr>hl_requested = b\<rparr>) (nur_retained_host request)\<rparr>
          (sch_native_uses s),
        sch_host := (sch_host s)\<lparr>host_reserved := hr\<rparr>,
        sch_next_native_use_id := n\<rparr>"
  note I = sched_invD [OF assms(1)]
  note W = maps_wfD [OF I(5)]
  have rd: "rd = None" using reserve_batch_issue(4) [OF res] assms(3) by simp
  have issue: "lease_issues (sch_ledger s) [dbl_lease m] ledger"
    using reserve_batch_issue(1) [OF res] rd by simp
  have live: "live_leases ledger = insert (dbl_lease m) (live_leases (sch_ledger s))"
    and fresh: "dbl_lease m \<notin> live_leases (sch_ledger s)" and led: "ledger_inv ledger"
    using leases.issue_live [OF I(8) issue] leases.issue_fresh [OF I(8) issue]
      leases.issue_inv [OF I(8) issue] by auto
  have "cap_reserved_bytes (dbl_lease m) \<noteq> 0"
    using reserve_batch_issue(2) [OF res] by (simp add: byte_lease_ok_def)
  then obtain l2 where rel: "release_lease ledger (dbl_lease m) = (Ok (), l2)"
    using release_lease_succeeds [OF led, of "dbl_lease m"] live assms(5) s1 by auto
  have "live_leases l2 = live_leases (sch_ledger s)"
    using release_lease_Ok(3) [OF led rel] live fresh by simp
  moreover have "release_bytes ledger m = (Ok (), l2)"
    using rel by (simp add: release_bytes_def)
  moreover have "next_host_release s1 (map_option (\<lambda>b. \<lparr>hl_requested = b\<rparr>) (nur_mutable_host request)) =
      Ok (host_reserved (sch_host s))"
    using hr assms(4) by (simp add: s1 host_bytes_def split: option.splits)
  moreover have "native_finished_state (InUse h) (adm_active_uses a) (sch_revoked s) = Ok (adm_state a)"
    using a(3) admission_okD [OF assms(1) a(1)] rev by (auto simp: admission_ok_def)
  moreover have "bt_get (sch_native_uses s) (sch_next_native_use_id s) = None"
    using I(6) by (auto simp: ids_fresh_def intro: below_fresh)
  moreover have "bt_insert (at_admission_id t) (a\<lparr>adm_active_uses := adm_active_uses a, adm_state := adm_state a\<rparr>)
      (sch_admissions s) = sch_admissions s"
    using bt.put_idle [OF W(1) a(1)] by simp
  ultimately show ?thesis
    using assms(4) rd W
    by (simp add: finish_native_use_after_teardown_def ensure_local_def require_def p s1
        prepare_native_finish_def find_admission_def Let_def usize_sub_def bt.del_put_fresh bt.put_put
        del: next_host_release_Ok_iff)
qed

theorem native_use_round_trip_witness:
  "\<exists>s2. finish_native_use_after_teardown sample_using \<lparr>nup_brand = 1, nup_value = 1\<rparr> = (Ok None, s2) \<and>
     sch_native_uses s2 = []"
  using native_use_round_trip [OF sample_resident_inv sample_begin_use]
  by (auto simp: sample_use_def sample_using_def sample_used_def sample_with_def)

end
