(* ===== verification/Sched_Drain.thy ===== *)
theory Sched_Drain
  imports Sched_Properties
begin

text \<open>
  A revoked controller can be drained: an executor that answers every eviction with success empties
  it in at most one round per admission, and the grant can then be replaced. The rounds are the
  function \<open>drain\<close> with the number of rounds as fuel. Then the life cycle of admissions along runs, and
  the one kind of controller that can not be drained: two admissions of zero bytes on a device.
\<close>

subsection \<open>Admission identifiers\<close>

lemma release_consumes:
  "sched_inv s \<Longrightarrow> release_admission s i = (Ok u, t) \<Longrightarrow>
     consumes (sch_admissions s) (sch_next_admission_id s) (sch_admissions t) (sch_next_admission_id t)"
  by (auto elim!: release_effect)

lemma consumes_update: "bt_get m i = Some a \<Longrightarrow> consumes m n (bt_insert i b m) n"
  by (auto simp: consumes_def)

lemma outcome_consumes:
  "complete_load s i h = (Ok u, t) \<Longrightarrow>
     consumes (sch_admissions s) (sch_next_admission_id s) (sch_admissions t) (sch_next_admission_id t)"
  "quarantine_admission s i = (Ok u, t) \<Longrightarrow>
     consumes (sch_admissions s) (sch_next_admission_id s) (sch_admissions t) (sch_next_admission_id t)"
  "evict_failed s i = (Ok u, t) \<Longrightarrow>
     consumes (sch_admissions s) (sch_next_admission_id s) (sch_admissions t) (sch_next_admission_id t)"
  by (auto simp: complete_load_Ok_iff quarantine_admission_Ok_iff evict_failed_Ok_iff set_state_def
      intro: consumes_update)

lemma admissions_consumed:
  assumes inv: "sched_inv s" and ok: "sched_step s c = (Ok r, s')"
  shows "consumes (sch_admissions s) (sch_next_admission_id s)
    (sch_admissions s') (sch_next_admission_id s')"
proof (cases c)
  case (SCommit p)
  then obtain t where "sched_commit s p = (Ok t, s')" using ok by auto
  then show ?thesis
    by (rule sched_commit_Ok [OF inv]) (auto simp: consumes_def word_le_nat_alt word_less_nat_alt)
next
  case (SAdmitNative x)
  then obtain q where "admit_native_resident s x = (Ok q, s')" using ok by auto
  then show ?thesis by (rule admit_native_resident_Ok) (simp add: consumes_insert)
next
  case (SCompleteNativeLoad p h)
  then show ?thesis using ok
    by (auto simp: complete_native_load_def native_load_outcome_def dest: outcome_consumes)
next
  case (SNativeLoadReleased p)
  then show ?thesis using ok
    by (auto simp: native_load_released_def native_load_outcome_def dest: release_consumes [OF inv])
next
  case (SQuarantineNativeLoad p)
  then show ?thesis using ok
    by (auto simp: quarantine_native_load_def native_load_outcome_def dest: outcome_consumes)
next
  case SPoll
  then obtain q where "poll_command s = (Ok q, s')" using ok by auto
  then show ?thesis
    by (rule poll_command_Ok [OF inv])
      (auto simp: set_state_def intro: release_consumes [OF inv] consumes_update)
next
  case (SComplete x)
  then obtain i t where "apply_completion s i x = (Ok (), t)" "sch_admissions s' = sch_admissions t"
      "sch_next_admission_id s' = sch_next_admission_id t"
    using ok by (force simp: complete_def Let_def)
  then show ?thesis by (cases x) (auto dest: outcome_consumes release_consumes [OF inv])
next
  case (SRevoke g)
  then show ?thesis using ok by (auto simp: sched_revoke_Ok_iff consumes_def)
next
  case (SBeginUse t)
  then show ?thesis using ok by (auto elim!: begin_use_Ok intro: consumes_update)
next
  case (SBeginNativeUse t x)
  then show ?thesis using ok by (auto elim!: begin_native_use_Ok intro: consumes_update)
next
  case (SFinishUse p)
  then show ?thesis using ok by (auto elim!: finish_use_Ok intro: consumes_update)
next
  case (SFinishNativeUse p)
  then show ?thesis using ok by (auto elim!: finish_native_Ok intro: consumes_update)
next
  case (SQuarantineNativeUse p)
  then show ?thesis using ok by (auto elim!: quarantine_native_use_Ok intro: consumes_update)
next
  case (SRetire t)
  then show ?thesis using ok
    by (auto simp: request_retirement_Ok_iff intro: consumes_update split: option.splits)
qed (use ok in \<open>auto simp: replace_grant_Ok_iff elim!: discard_native_result_Ok\<close>)

text \<open>Identifiers start at one, so the search for an eviction that starts there sees every admission.\<close>

definition numbered :: "scheduler \<Rightarrow> bool" where
  "numbered s \<longleftrightarrow> sch_next_admission_id s \<noteq> 0 \<and> bt_get (sch_admissions s) 0 = None"

lemma numbered_step:
  assumes "sched_inv s" and "sched_step s c = (Ok r, s')" and "numbered s"
  shows "numbered s'"
proof -
  have "0 < sch_next_admission_id s" using assms(3) by (simp add: numbered_def word_gt_0)
  then show ?thesis
    using admissions_consumed [OF assms(1,2)] assms(3) by (auto simp: numbered_def consumes_def)
qed

lemma numbered_run: "sched_inv s \<Longrightarrow> numbered s \<Longrightarrow> numbered (run sched_step s cs)"
proof (induction cs arbitrary: s)
  case Nil
  then show ?case by simp
next
  case (Cons c cs)
  have "numbered (snd (sched_step s c))"
    using numbered_step [OF Cons.prems(1) _ Cons.prems(2)] sched.refused_skip [OF Cons.prems(1), of c]
      Cons.prems(2)
    by (cases "sched_step s c"; cases "fst (sched_step s c)") auto
  then show ?case using Cons.IH [OF sched.step_inv [OF Cons.prems(1)]] by simp
qed

subsection \<open>A release that succeeds\<close>

lemma admission_lease_live:
  assumes "sched_inv s" and "bt_get (sch_admissions s) i = Some a"
  shows "lease_cap (adm_lease a) \<in> live_leases (sch_ledger s)"
proof -
  have "bt_total admission_caps (sch_admissions s) =
      admission_caps a + bt_total admission_caps (bt_remove i (sch_admissions s))"
    using assms(2) maps_wfD(1) [OF sched_invD(5) [OF assms(1)]] by (simp add: bt_total_remove)
  then have "lease_cap (adm_lease a) \<in># held s"
    by (simp add: held_def admission_caps_def)
  then show ?thesis
    using sched_invD(3) [OF assms(1)] by (auto simp: books_inv_def intro: leases.custody_live)
qed

lemma release_admission_succeeds:
  assumes inv: "sched_inv s" and a: "bt_get (sch_admissions s) i = Some a"
    and bytes: "cap_reserved_bytes (lease_cap (adm_lease a)) \<noteq> 0"
    and room: "unat (led_revision (sch_ledger s)) + 1 < 2 ^ 64"
  obtains t where "release_admission s i = (Ok (), t)"
proof -
  obtain l where l: "release_lease (sch_ledger s) (lease_cap (adm_lease a)) = (Ok (), l)"
    using release_lease_succeeds [OF sched_invD(8) [OF inv] admission_lease_live [OF inv a] bytes room]
    by blast
  have "lease_host (adm_lease a) \<le> bt_total (\<lambda>a. lease_host (adm_lease a)) (sch_admissions s)"
    using a maps_wfD(1) [OF sched_invD(5) [OF inv]] by (rule bt_total_member [rotated])
  then have "lease_host (adm_lease a) \<le> unat (host_reserved (sch_host s))"
    using sched_invD(3) [OF inv] by (simp add: books_inv_def held_host_def)
  then have "\<exists>n. next_host_release s h = Ok n" if "adm_lease a = Native x h" for x h
    using that by (simp add: next_host_release_def checked_sub_def word_le_nat_alt host_bytes_def
        split: option.splits)
  note host = this
  have "\<exists>t. release_admission s i = (Ok (), t)"
  proof (cases "adm_lease a")
    case (Legacy x)
    then have "ledger_release (sch_ledger s) x = (Ok (), l)"
      using l Legacy admission_okD [OF inv a] by (simp add: ledger_release_def admission_ok_def)
    then show ?thesis using Legacy a by (simp add: release_admission_def)
  next
    case (Native x h)
    then have "release_bytes (sch_ledger s) x = (Ok (), l)"
      using l by (simp add: release_bytes_def)
    moreover obtain n where "next_host_release s h = Ok n" using host [OF Native] by blast
    ultimately show ?thesis
      using Native a by (simp add: release_admission_def del: next_host_release_Ok_iff)
  qed
  with that show thesis by blast
qed

subsection \<open>Draining\<close>

fun drain :: "nat \<Rightarrow> scheduler \<Rightarrow> scheduler" where
  "drain 0 s = s"
| "drain (Suc n) s =
     (case poll_command s of
        (Ok (Command c), t) \<Rightarrow> drain n (snd (complete t (Evicted (cmd_operation c))))
      | (Ok Progressed, t) \<Rightarrow> drain n t
      | (_, t) \<Rightarrow> t)"

text \<open>Nothing is in flight, nothing is quarantined, every lease has bytes, and the counters have
  room for what is left.\<close>

definition quiescent :: "scheduler \<Rightarrow> bool" where
  "quiescent s \<longleftrightarrow>
     sch_operations s = [] \<and> sch_permits s = [] \<and> sch_native_loads s = [] \<and> sch_native_uses s = [] \<and>
     sch_native_quarantined_uses s = [] \<and> sch_native_results s = [] \<and>
     0 < lim_pending_operations (sch_limits s) \<and>
     (\<forall>i a. bt_get (sch_admissions s) i = Some a \<longrightarrow>
        cap_reserved_bytes (lease_cap (adm_lease a)) \<noteq> 0 \<and> (\<forall>r. adm_state a \<noteq> Quarantined r)) \<and>
     unat (led_revision (sch_ledger s)) + length (sch_admissions s) < 2 ^ 64 \<and>
     unat (sch_next_operation_id s) + length (sch_admissions s) < 2 ^ 64"

lemma quiescent_states:
  assumes inv: "sched_inv s" and rev: "sch_revoked s" and q: "quiescent s"
    and a: "bt_get (sch_admissions s) i = Some a"
  shows "adm_active_uses a = 0 \<and> (adm_state a = Draining None False \<or> (\<exists>h. adm_state a = Draining (Some h) False))"
proof -
  note R = references_at [OF sched_invD(4) [OF inv], of i]
  have z: "count_at legacy_uses (sch_admissions s) i = 0" "count_at native_uses (sch_admissions s) i = 0"
    "count_at native_loads (sch_admissions s) i = 0" "count_at load_commands (sch_admissions s) i = 0"
    "count_at evict_commands (sch_admissions s) i = 0"
    using R q by (simp_all add: quiescent_def)
  have "admission_ok True a" using admission_okD [OF inv a] rev by simp
  then show ?thesis
    using z a q by (cases "adm_state a"; cases "is_legacy (adm_lease a)")
      (auto simp: count_at_present sched_simps admission_ok_def quiescent_def
        elim: state_ok.elims split: if_splits)
qed

lemma quiescent_release:
  assumes inv: "sched_inv s" and q: "quiescent s" and a: "bt_get (sch_admissions s) i = Some a"
    and l: "release_lease (sch_ledger s) (lease_cap (adm_lease a)) = (Ok (), ledger)"
    and op: "unat n \<le> unat (sch_next_operation_id s) + 1"
  shows "quiescent (s\<lparr>sch_admissions := bt_remove i (sch_admissions s), sch_ledger := ledger,
    sch_host := h, sch_next_operation_id := n\<rparr>)"
proof -
  have "Suc (length (bt_remove i (sch_admissions s))) = length (sch_admissions s)"
    using a maps_wfD(1) [OF sched_invD(5) [OF inv]] by (simp add: bt_length_remove)
  then show ?thesis
    using q op release_lease_Ok(7) [OF sched_invD(8) [OF inv] l] by (auto simp: quiescent_def)
qed

text \<open>One round: a local release, or an eviction and its acknowledgement.\<close>

lemma drain_round:
  assumes inv: "sched_inv s" and rev: "sch_revoked s" and q: "quiescent s" and num: "numbered s"
    and ne: "sch_admissions s \<noteq> []"
  obtains t where "drain (Suc n) s = drain n t" and "sched_inv t" and "sch_revoked t" and "quiescent t"
    and "numbered t" and "Suc (length (sch_admissions t)) = length (sch_admissions s)"
    and "sch_generation t = sch_generation s"
proof -
  note wf = maps_wfD(1) [OF sched_invD(5) [OF inv]]
  have room: "unat (led_revision (sch_ledger s)) + 1 < 2 ^ 64" "unat (sch_next_operation_id s) + 1 < 2 ^ 64"
    using q ne by (cases "sch_admissions s"; simp add: quiescent_def)+
  have bytes: "cap_reserved_bytes (lease_cap (adm_lease a)) \<noteq> 0"
    if "bt_get (sch_admissions s) i = Some a" for i a
    using q that by (auto simp: quiescent_def)
  show thesis
  proof (cases "next_local_release s")
    case (Some i)
    then obtain a where a: "bt_get (sch_admissions s) i = Some a" "adm_state a = Draining None False"
      using next_local_release_Some [OF wf] by blast
    obtain t where t: "release_admission s i = (Ok (), t)"
      by (rule release_admission_succeeds [OF inv a(1) bytes [OF a(1)] room(1)])
    have poll: "poll_command s = (Ok Progressed, t)"
      using Some t by (simp add: poll_command_def)
    obtain b l h where "bt_get (sch_admissions s) i = Some b"
      and t': "t = s\<lparr>sch_admissions := bt_remove i (sch_admissions s), sch_ledger := l,
        sch_host := (sch_host s)\<lparr>host_reserved := h\<rparr>\<rparr>"
      and "release_lease (sch_ledger s) (lease_cap (adm_lease b)) = (Ok (), l)"
      using t by (rule release_effect [OF inv])
    then have "release_lease (sch_ledger s) (lease_cap (adm_lease a)) = (Ok (), l)"
      using a by simp
    from quiescent_release [OF inv q a(1) this, of "sch_next_operation_id s"] have "quiescent t"
      by (simp add: t' quiescent_def)
    then show thesis
      using that [of t] poll poll_command_inv [OF inv poll] rev num
        bt_length_remove [OF wf a(1)] by (simp add: t' numbered_def)
  next
    case None
    have ev: "evictable a" if "bt_get (sch_admissions s) i = Some a" for i a
      using quiescent_states [OF inv rev q that] next_local_release_None [OF wf None that]
      by (auto simp: evictable_iff)
    have "next_command s \<noteq> None"
    proof
      assume none: "next_command s = None"
      obtain i a where a: "bt_get (sch_admissions s) i = Some a"
        using ne bt_empty_iff by (metis not_Some_eq)
      then have "0 < i" using num by (cases "i = 0") (auto simp: numbered_def word_gt_0)
      then have "1 \<le> i" using inc_le [of 0 i] by simp
      moreover have "next_eviction_from s INITIAL_IDENTIFIER = None"
        using none by (auto simp: next_command_def split: option.splits)
      ultimately show False
        using next_eviction_None [OF wf _ a] ev [OF a]
        by (auto simp: INITIAL_IDENTIFIER_def)
    qed
    then obtain i k where c: "next_command s = Some (i, k)" by auto
    obtain a where a: "bt_get (sch_admissions s) i = Some a" and k: "k = EvictOperation" and "evictable a"
      using next_command_Some [OF wf c] rev by (cases k) auto
    then obtain h where st: "adm_state a = Draining (Some h) False" "adm_active_uses a = 0"
      by (auto simp: evictable_iff)
    obtain m where m: "checked_add (sch_next_operation_id s) 1 = Some m"
      using room(2) by (simp add: checked_add_def)
    let ?op = "\<lparr>op_brand = sch_brand s, op_value = sch_next_operation_id s\<rparr>"
    let ?s1 = "(set_state s i a (Evicting h))\<lparr>sch_operations :=
        [(sch_next_operation_id s, \<lparr>po_admission_id = i, po_kind = EvictOperation\<rparr>)],
        sch_next_operation_id := m\<rparr>"
    have poll: "poll_command s = (Ok (Command \<lparr>cmd_operation = ?op, cmd_kind = Evict h\<rparr>), ?s1)"
      using None c k a st m q
      by (simp add: poll_command_def pending_operation_count_def usize_add_def quiescent_def
          find_admission_def issue_command_def set_state_def)
    have inv1: "sched_inv ?s1" by (rule poll_command_inv [OF inv poll])
    have a1: "bt_get (sch_admissions ?s1) i = Some (a\<lparr>adm_state := Evicting h\<rparr>)"
      by (simp add: set_state_def)
    obtain t where t: "release_admission ?s1 i = (Ok (), t)"
      by (rule release_admission_succeeds [OF inv1 a1])
        (use bytes [OF a] room(1) in \<open>simp_all add: set_state_def\<close>)
    let ?t = "t\<lparr>sch_operations := []\<rparr>"
    obtain b l g where b: "bt_get (sch_admissions ?s1) i = Some b"
      and t': "t = ?s1\<lparr>sch_admissions := bt_remove i (sch_admissions ?s1), sch_ledger := l,
        sch_host := (sch_host ?s1)\<lparr>host_reserved := g\<rparr>\<rparr>"
      and l: "release_lease (sch_ledger ?s1) (lease_cap (adm_lease b)) = (Ok (), l)"
      using t by (rule release_effect [OF inv1])
    have lease: "release_lease (sch_ledger s) (lease_cap (adm_lease a)) = (Ok (), l)"
      using l b by (auto simp: set_state_def)
    have fin: "complete ?s1 (Evicted ?op) = (Ok (), ?t)"
      using t t' a by (simp add: complete_def Let_def ensure_local_def require_def set_state_def
          ensure_completion_state_def find_admission_def bt_get_Cons bt_remove_def)
    have adm: "sch_admissions ?t = bt_remove i (sch_admissions s)"
      using a wf by (simp add: t' set_state_def bt.del_put)
    have "quiescent (s\<lparr>sch_admissions := bt_remove i (sch_admissions s), sch_ledger := l,
        sch_host := sch_host t, sch_next_operation_id := m\<rparr>)"
      using m by (intro quiescent_release [OF inv q a lease]) (simp add: checked_add_Some_iff)
    then have "quiescent ?t"
      using adm by (simp add: quiescent_def t' set_state_def)
    then show thesis
      using that [of ?t] poll fin rev adm complete_inv [OF inv1 fin]
        bt_length_remove [OF wf a] num
      by (simp add: t' set_state_def numbered_def)
  qed
qed

lemma drain_empties:
  assumes "sched_inv s" and "sch_revoked s" and "quiescent s" and "numbered s"
  shows "drained (drain (length (sch_admissions s)) s) \<and>
    sch_revoked (drain (length (sch_admissions s)) s) \<and>
    sch_generation (drain (length (sch_admissions s)) s) = sch_generation s"
  using assms
proof (induction "length (sch_admissions s)" arbitrary: s)
  case 0
  then have "held_host s = 0"
    by (simp add: held_host_def quiescent_def)
  then have "host_reserved (sch_host s) = 0"
    using sched_invD(3) [OF 0(2)] by (simp add: books_inv_def unat_eq_0)
  then show ?case using 0 by (simp add: drained_def quiescent_def)
next
  case (Suc n)
  then have ne: "sch_admissions s \<noteq> []" by auto
  obtain t where t: "drain (Suc n) s = drain n t" "sched_inv t" "sch_revoked t" "quiescent t"
      "numbered t" "Suc (length (sch_admissions t)) = length (sch_admissions s)"
      "sch_generation t = sch_generation s"
    by (rule drain_round [OF Suc.prems ne])
  have "n = length (sch_admissions t)" using t(6) Suc.hyps(2) by simp
  note IH = Suc.hyps(1) [OF this t(2-5), folded this]
  have "drain (length (sch_admissions s)) s = drain n t"
    using t(1) Suc.hyps(2) by (metis (no_types))
  then show ?case using IH t(7) by (simp only: simp_thms)
qed

text \<open>C36: a revoked controller can always be drained: once nothing is in flight and nothing is
  quarantined, an executor that answers each eviction with success empties it in one round per
  admission, with its leases above zero bytes and its counters not exhausted; every new grant the
  ledger accepts can then be installed.\<close>

theorem revoked_controller_drains:
  assumes "valid_request grant" and "new_with_host_ledger cb lb grant limits host = Ok s0"
    and "host_reserved host = 0" and "s = run sched_step s0 cs"
    and "sch_revoked s" and "quiescent s"
    and "ledger_new b r = Ok l" and "unat (sch_generation s) + 1 < 2 ^ 64"
  shows "\<exists>g s'. replace_grant (drain (length (sch_admissions s)) s) b r = (Ok g, s') \<and>
    sch_ledger s' = l \<and> \<not> sch_revoked s' \<and> gg_value g = sch_generation s + 1"
proof -
  have new: "sched_inv s0" by (rule new_with_host_ledger_inv(1) [OF assms(1-3)])
  have "numbered s0"
    using assms(2) by (auto simp: new_with_host_ledger_def numbered_def INITIAL_IDENTIFIER_def)
  then have num: "numbered s" unfolding assms(4) by (rule numbered_run [OF new])
  have inv: "sched_inv s" unfolding assms(4) by (rule sched.run_inv [OF new])
  note D = drain_empties [OF inv assms(5,6) num]
  have "checked_add (sch_generation s) 1 = Some (sch_generation s + 1)"
    using assms(8) by (simp add: checked_add_def)
  then show ?thesis
    using D assms(7) by (intro exI) (auto simp: replace_grant_Ok_iff)
qed

definition sample_calls :: "sched_call list" where
  "sample_calls = [SAdmitNative sample_resident, SCompleteNativeLoad sample_load (ResidentHandle ''r''),
     SRevoke sample_generation]"

lemma sample_drained_run:
  "run sched_step sample_sched sample_calls =
     (sample_with (Draining (Some (ResidentHandle ''r'')) False) [])\<lparr>sch_revoked := True\<rparr>"
proof -
  have "sched_revoke (sample_with (Resident (ResidentHandle ''r'')) []) sample_generation =
      (Ok (), (sample_with (Draining (Some (ResidentHandle ''r'')) False) [])\<lparr>sch_revoked := True\<rparr>)"
    by (simp add: sched_revoke_Ok_iff sample_generation_def sample_with_def bt_map_values_def
        transition_to_draining_def sample_admission_def)
  then show ?thesis
    by (simp add: sample_calls_def sample_admit sample_loaded reply_def map_result_def)
qed

theorem revoked_controller_drains_witness:
  "\<exists>g s'. replace_grant (drain 1 (run sched_step sample_sched sample_calls)) 9 (sample_request []) =
     (Ok g, s') \<and> gg_value g = 2"
proof -
  have q: "quiescent (run sched_step sample_sched sample_calls)"
    unfolding sample_drained_run
    by (simp add: quiescent_def sample_with_def sample_admission_def bt_get_Cons sample_lease_def
        sample_reserved_simps sample_ledger_def)
  have r: "sch_revoked (run sched_step sample_sched sample_calls)"
    and g: "sch_generation (run sched_step sample_sched sample_calls) = 1"
    and n: "length (sch_admissions (run sched_step sample_sched sample_calls)) = 1"
    unfolding sample_drained_run by (simp_all add: sample_with_def)
  have "ledger_new 9 (sample_request []) = Ok (sample_ledger\<lparr>led_brand := 9\<rparr>)"
    by (simp add: ledger_new_def snapshot_from_request_def sample_request_def sample_ledger_def
        Let_def remaining_after_reservations_def sample_device_def checked_sub_def
        device_indices_def bt_get_Cons)
  from revoked_controller_drains [OF sample_valid_empty sample_sched_new sample_host_empty refl r q this]
  show ?thesis unfolding g n by auto
qed

subsection \<open>Polling\<close>

text \<open>Polling answers \<open>Idle\<close> exactly when there is nothing to do: no admission is reserved, none
  waits for a local release, no draining resident is unused, and there was room for a command.\<close>

theorem poll_idle_iff:
  assumes "sched_inv s" and "numbered s" and "lim_pending_operations (sch_limits s) < 2 ^ 64"
  shows "poll_command s = (Ok Idle, s) \<longleftrightarrow>
    (\<forall>i a. bt_get (sch_admissions s) i = Some a \<longrightarrow>
       adm_state a \<noteq> Reserved \<and> adm_state a \<noteq> Draining None False \<and>
       (adm_active_uses a = 0 \<longrightarrow> (\<forall>h. adm_state a \<noteq> Draining (Some h) False))) \<and>
    length (sch_operations s) + length (sch_native_loads s) < lim_pending_operations (sch_limits s)"
  (is "?idle \<longleftrightarrow> ?nothing \<and> ?room")
proof
  note wf = maps_wfD(1) [OF sched_invD(5) [OF assms(1)]]
  assume ?idle
  then have none: "next_local_release s = None" "next_command s = None"
    and room: "pending s < lim_pending_operations (sch_limits s)"
    by (rule poll_command_Ok [OF assms(1)]; simp)+
  have start: "1 \<le> i" if "bt_get (sch_admissions s) i = Some a" for i a
    using that assms(2) inc_le [of 0 i] by (cases "i = 0") (auto simp: numbered_def word_gt_0)
  have evict: "next_eviction_from s INITIAL_IDENTIFIER = None"
    and load: "List.find (\<lambda>(i, a). adm_state a = Reserved \<and> \<not> sch_revoked s \<and> adm_active_uses a = 0)
      (sch_admissions s) = None"
    using none(2) by (auto simp: next_command_def split: option.splits)
  have "adm_state a \<noteq> Reserved \<and> adm_state a \<noteq> Draining None False \<and>
      (adm_active_uses a = 0 \<longrightarrow> (\<forall>h. adm_state a \<noteq> Draining (Some h) False))"
    if a: "bt_get (sch_admissions s) i = Some a" for i a
  proof (intro conjI)
    show "adm_state a \<noteq> Reserved"
      using find_entry_None [OF load a] admission_okD [OF assms(1) a] by (auto simp: admission_ok_def)
    show "adm_state a \<noteq> Draining None False" by (rule next_local_release_None [OF wf none(1) a])
    have "\<not> evictable a"
      using next_eviction_None [OF wf evict a] start [OF a] by (simp add: INITIAL_IDENTIFIER_def)
    then show "adm_active_uses a = 0 \<longrightarrow> (\<forall>h. adm_state a \<noteq> Draining (Some h) False)"
      by (auto simp: evictable_iff)
  qed
  with room show "?nothing \<and> ?room" by (simp add: pending_def)
next
  note wf = maps_wfD(1) [OF sched_invD(5) [OF assms(1)]]
  assume H: "?nothing \<and> ?room"
  have "next_local_release s = None"
    using next_local_release_Some [OF wf] H by (cases "next_local_release s") blast+
  moreover have "next_command s = None"
  proof (cases "next_command s")
    case (Some c)
    then show ?thesis
      using next_command_Some [OF wf, of "fst c" "snd c"] H
      by (cases c; cases "snd c") (auto simp: evictable_iff)
  qed simp
  ultimately show ?idle using H assms(3)
    by (simp add: poll_command_def pending_def not_le)
qed

theorem poll_idle_iff_witness: "poll_command sample_sched = (Ok Idle, sample_sched)"
  using poll_idle_iff [OF sample_sched_inv] by (simp add: numbered_def)

text \<open>C37: an admission only ever moves along its life cycle, whatever calls are made. An entry changes only
  when a call is accepted, and then by a move that this call causes for the admission it is about: it
  appears as reserved when a placement is committed or as loading when a native resident is admitted; it
  keeps its lease; loads, uses and evictions change its state and its uses as the call reports; and it
  disappears only by a poll, when it drains without a resident or a load in flight, by a report
  that its load failed or was released, or by the report that its eviction succeeded.\<close>

theorem admissions_follow_the_life_cycle:
  assumes "valid_request grant" and "new_with_host_ledger cb lb grant limits host = Ok s0"
    and "host_reserved host = 0" and "s = run sched_step s0 cs"
  shows "bt_get (sch_admissions (snd (sched_step s c))) i = bt_get (sch_admissions s) i \<or>
    is_ok (fst (sched_step s c)) \<and>
    admission_step s c i (bt_get (sch_admissions s) i) (bt_get (sch_admissions (snd (sched_step s c))) i)"
proof -
  have inv: "sched_inv s"
    unfolding assms(4) by (rule sched.run_inv [OF new_with_host_ledger_inv(1) [OF assms(1-3)]])
  show ?thesis
    using sched_step_lifecycle [OF inv, of c] sched.refused_skip [OF inv, of c]
    by (cases "sched_step s c"; cases "fst (sched_step s c)") auto
qed

text \<open>The load of the sample controller is in flight; the report that it failed is what removes it.\<close>

theorem admissions_follow_the_life_cycle_witness:
  "\<exists>c a. c = SNativeLoadReleased sample_load \<and>
     bt_get (sch_admissions (run sched_step sample_sched [SAdmitNative sample_resident])) 1 = Some a \<and>
     bt_get (sch_admissions (snd (sched_step (run sched_step sample_sched [SAdmitNative sample_resident]) c))) 1 = None \<and>
     admission_move c a None"
proof -
  let ?s = "run sched_step sample_sched [SAdmitNative sample_resident]" and ?c = "SNativeLoadReleased sample_load"
  have s: "?s = sample_with Loading [(1, 1)]" by (simp add: sample_admit reply_def map_result_def)
  have inv: "sched_inv ?s" by (rule sched.run_inv [OF sample_sched_inv])
  have a: "bt_get (sch_admissions ?s) 1 = Some (sample_admission Loading 0)"
    unfolding s by (simp add: sample_with_def bt_get_Cons)
  have "cap_reserved_bytes (lease_cap (adm_lease (sample_admission Loading 0))) \<noteq> 0"
      "unat (led_revision (sch_ledger ?s)) + 1 < 2 ^ 64"
    unfolding s by (simp_all add: sample_with_def sample_admission_def sample_lease_def sample_reserved_simps sample_ledger_def)
  then obtain t where t: "release_admission ?s 1 = (Ok (), t)" by (rule release_admission_succeeds [OF inv a])
  then have "native_load_released ?s sample_load = (Ok (), t\<lparr>sch_native_loads := bt_remove 1 (sch_native_loads t)\<rparr>)"
    unfolding s by (simp add: native_load_released_def native_load_outcome_def ensure_local_def require_def
        find_admission_def ensure_native_loading_def sample_with_def sample_load_def sample_admission_def bt_get_Cons)
  moreover have "bt_get (sch_admissions t) 1 = None" by (rule release_effect [OF inv t]) simp
  ultimately have "bt_get (sch_admissions (snd (sched_step ?s ?c))) 1 = None" by (simp add: reply_def)
  then show ?thesis
    using admissions_follow_the_life_cycle [OF sample_valid_empty sample_sched_new sample_host_empty refl,
      of "[SAdmitNative sample_resident]" ?c 1] a by auto
qed

subsection \<open>Admissions of zero bytes\<close>

text \<open>An admission of zero bytes on a device that waits for its local release.\<close>

definition zero_release_pending :: "scheduler \<Rightarrow> string \<Rightarrow> u64 \<Rightarrow> bool" where
  "zero_release_pending s d i \<longleftrightarrow>
     (case bt_get (sch_admissions s) i of
        None \<Rightarrow> False
      | Some a \<Rightarrow> adm_state a = Draining None False \<and> cap_device_id (lease_cap (adm_lease a)) = d \<and>
          cap_reserved_bytes (lease_cap (adm_lease a)) = 0)"

lemma zero_release_pending_iff:
  "zero_release_pending s d i \<longleftrightarrow>
     (\<exists>a. bt_get (sch_admissions s) i = Some a \<and> adm_state a = Draining None False \<and>
        cap_device_id (lease_cap (adm_lease a)) = d \<and> cap_reserved_bytes (lease_cap (adm_lease a)) = 0)"
  by (simp add: zero_release_pending_def split: option.splits)

text \<open>A revoked controller that is not drained never acquires a lease: its ledger only changes by a release.\<close>

lemma revoked_ledger_step:
  assumes inv: "sched_inv s" and rev: "sch_revoked s" and "\<not> drained s" and ok: "sched_step s c = (Ok r, s')"
  shows "sch_ledger s' = sch_ledger s \<or> (\<exists>cap. release_lease (sch_ledger s) cap = (Ok (), sch_ledger s'))"
proof (cases c)
  case (SCommit p)
  then show ?thesis using ok rev by (auto elim!: sched_commit_Ok [OF inv])
next
  case (SAdmitNative x)
  then show ?thesis using ok rev by (auto elim!: admit_native_resident_Ok)
next
  case (SCompleteNativeLoad p h)
  then show ?thesis using ok
    by (auto simp: complete_native_load_def native_load_outcome_def complete_load_Ok_iff set_state_def)
next
  case (SNativeLoadReleased p)
  then show ?thesis using ok
    by (auto simp: native_load_released_def native_load_outcome_def elim!: release_effect [OF inv])
next
  case (SQuarantineNativeLoad p)
  then show ?thesis using ok
    by (auto simp: quarantine_native_load_def native_load_outcome_def quarantine_admission_Ok_iff set_state_def)
next
  case SPoll
  then obtain q where "poll_command s = (Ok q, s')" using ok by auto
  then show ?thesis
    by (rule poll_command_Ok [OF inv]) (auto simp: set_state_def elim!: release_effect [OF inv])
next
  case (SComplete x)
  then obtain i t where "apply_completion s i x = (Ok (), t)" "sch_ledger s' = sch_ledger t"
    using ok by (force simp: complete_def Let_def)
  then show ?thesis
    by (cases x) (auto simp: complete_load_Ok_iff quarantine_admission_Ok_iff evict_failed_Ok_iff set_state_def
        elim!: release_effect [OF inv])
next
  case (SRevoke g)
  then show ?thesis using ok by (auto simp: sched_revoke_Ok_iff)
next
  case (SRetire t)
  then show ?thesis using ok by (auto simp: request_retirement_Ok_iff split: option.splits)
next
  case (SReplaceGrant b x)
  then show ?thesis using ok assms(3) by (auto simp: replace_grant_Ok_iff)
next
  case (SBeginUse t)
  then show ?thesis using ok by (auto elim!: begin_use_Ok)
next
  case (SFinishUse p)
  then show ?thesis using ok by (auto elim!: finish_use_Ok)
next
  case (SBeginNativeUse t x)
  then show ?thesis using ok rev by (auto elim!: begin_native_use_Ok)
next
  case (SFinishNativeUse p)
  then show ?thesis using ok by (auto elim!: finish_native_Ok)
next
  case (SQuarantineNativeUse p)
  then show ?thesis using ok by (auto elim!: quarantine_native_use_Ok)
next
  case (SDiscardResult x)
  then show ?thesis using ok by (auto elim!: discard_native_result_Ok split: option.splits)
qed (use ok in auto)

text \<open>On a device whose leases are all of zero bytes, a release forgets the device.\<close>

lemma zero_device_release:
  assumes inv: "ledger_inv l" and ok: "release_lease l cap = (Ok (), l')" and zero: "leased_on (led_active_leases l) d = 0"
  shows "leased_on (led_active_leases l') d = 0"
    and "cap_device_id cap = d \<Longrightarrow> bt_get (led_dynamic_reserved l) d \<noteq> None \<and> bt_get (led_dynamic_reserved l') d = None"
    and "cap_device_id cap \<noteq> d \<Longrightarrow> bt_get (led_dynamic_reserved l') d = bt_get (led_dynamic_reserved l) d"
proof -
  note R = release_lease_Ok [OF inv ok]
  have reserved: "reserved_on (led_dynamic_reserved l) d = 0" using ledger_invD(5) [OF inv] zero by simp
  then show "leased_on (led_active_leases l') d = 0" using ledger_invD(5) [OF R(2)] R(4) [of d] by simp
  obtain rec cur left where rec: "bt_get (led_active_leases l) (cap_lease_id cap) = Some rec"
      "rec_device_id rec = cap_device_id cap"
    and cur: "bt_get (led_dynamic_reserved l) (cap_device_id cap) = Some cur"
    and left: "checked_sub cur (rec_reserved_bytes rec) = Some left"
    and l': "led_dynamic_reserved l' = (if left = 0 then bt_remove (cap_device_id cap) (led_dynamic_reserved l)
      else bt_insert (cap_device_id cap) left (led_dynamic_reserved l))"
    using ok by (auto simp: release_lease_def split: if_splits option.splits)
  show "cap_device_id cap \<noteq> d \<Longrightarrow> bt_get (led_dynamic_reserved l') d = bt_get (led_dynamic_reserved l) d"
    using l' by simp
  assume d: "cap_device_id cap = d"
  then have "cur = 0" using reserved cur by (simp add: reserved_on_def unat_eq_0)
  then have "left = 0" using left by (auto simp: checked_sub_def split: if_splits)
  then show "bt_get (led_dynamic_reserved l) d \<noteq> None \<and> bt_get (led_dynamic_reserved l') d = None"
    using l' cur d by simp
qed

text \<open>A pending release stays pending until a poll performs it.\<close>

lemma pending_step:
  assumes inv: "sched_inv s" and ok: "sched_step s c = (Ok r, s')" and pending: "zero_release_pending s d k"
  shows "zero_release_pending s' d k \<or> release_admission s k = (Ok (), s')"
proof -
  obtain a where a: "bt_get (sch_admissions s) k = Some a" "adm_state a = Draining None False"
      "cap_device_id (lease_cap (adm_lease a)) = d" "cap_reserved_bytes (lease_cap (adm_lease a)) = 0"
    using pending by (auto simp: zero_release_pending_iff)
  consider "bt_get (sch_admissions s') k = Some a"
    | "concerns s c k" "admission_move c a (bt_get (sch_admissions s') k)"
    using sched_step_lifecycle [OF inv ok, of k] a(1) by auto
  then show ?thesis
  proof cases
    case 1
    then show ?thesis using a by (simp add: zero_release_pending_iff)
  next
    case 2
    from 2(2) consider "c = SPoll" | "bt_get (sch_admissions s') k = Some a"
      using a(2) by cases (auto split: if_splits)
    then show ?thesis
    proof cases
      case 1
      then have "next_local_release s = Some k"
        using 2(1) next_local_release_None [OF maps_wfD(1) [OF sched_invD(5) [OF inv]] _ a(1)] a(2)
        by (auto split: option.splits)
      then show ?thesis using ok 1 by (auto simp: poll_command_def split: prod.splits result.splits)
    next
      case 2
      then show ?thesis using a by (simp add: zero_release_pending_iff)
    qed
  qed
qed

text \<open>The drain is blocked: of the two pending releases one is left for ever, since the first release forgets the
  device and the ledger refuses to release a lease on a device it does not know.\<close>

definition blocked :: "scheduler \<Rightarrow> string \<Rightarrow> u64 \<Rightarrow> u64 \<Rightarrow> bool" where
  "blocked s d i j \<longleftrightarrow>
     sch_revoked s \<and> leased_on (led_active_leases (sch_ledger s)) d = 0 \<and>
     (zero_release_pending s d i \<or> zero_release_pending s d j) \<and>
     (bt_get (led_dynamic_reserved (sch_ledger s)) d = None \<or> zero_release_pending s d i \<and> zero_release_pending s d j)"

lemma blocked_sym: "blocked s d i j \<longleftrightarrow> blocked s d j i"
  by (auto simp: blocked_def)

lemma blocked_not_drained: "blocked s d i j \<Longrightarrow> \<not> drained s"
  by (auto simp: blocked_def drained_def zero_release_pending_iff)

lemma pending_release:
  assumes inv: "sched_inv s" and pending: "zero_release_pending s d k" and rel: "release_admission s k = (Ok (), s')"
  obtains cap where "release_lease (sch_ledger s) cap = (Ok (), sch_ledger s')" and "cap_device_id cap = d"
    and "\<And>m. m \<noteq> k \<Longrightarrow> bt_get (sch_admissions s') m = bt_get (sch_admissions s) m"
  using rel
proof (rule release_effect [OF inv])
  fix a ledger h
  assume a: "bt_get (sch_admissions s) k = Some a"
    and s': "s' = s\<lparr>sch_admissions := bt_remove k (sch_admissions s), sch_ledger := ledger,
      sch_host := (sch_host s)\<lparr>host_reserved := h\<rparr>\<rparr>"
    and l: "release_lease (sch_ledger s) (lease_cap (adm_lease a)) = (Ok (), ledger)"
  show thesis
    by (rule that [of "lease_cap (adm_lease a)"]) (use a s' l pending in \<open>auto simp: zero_release_pending_iff\<close>)
qed

lemma blocked_step:
  assumes inv: "sched_inv s" and blocked: "blocked s d i j" and "i \<noteq> j" and ok: "sched_step s c = (Ok r, s')"
  shows "blocked s' d i j"
proof -
  let ?l = "sch_ledger s" and ?l' = "sch_ledger s'"
  have B: "sch_revoked s" "leased_on (led_active_leases ?l) d = 0" using blocked by (simp_all add: blocked_def)
  note ledger = sched_invD(8) [OF inv]
  have "\<not> replaces_grant c"
    using ok blocked_not_drained [OF blocked] by (cases c) (auto simp: replaces_grant_def replace_grant_Ok_iff)
  then have rev: "sch_revoked s'" by (rule revoked_stays [OF inv B(1) ok])
  have released: "blocked s' d k m"
    if "zero_release_pending s d k" "release_admission s k = (Ok (), s')" "blocked s d k m" "m \<noteq> k" for k m
  proof -
    note pending = that
    obtain cap where cap: "release_lease ?l cap = (Ok (), ?l')" "cap_device_id cap = d"
      and others: "bt_get (sch_admissions s') m = bt_get (sch_admissions s) m"
      using pending_release [OF inv pending(1,2)] pending(4) by metis
    note Z = zero_device_release [OF ledger cap(1) B(2)]
    have "zero_release_pending s d m" using that(3) Z(2) [OF cap(2)] by (auto simp: blocked_def)
    then have "zero_release_pending s' d m" using others by (simp add: zero_release_pending_def)
    then show ?thesis using rev Z(1) Z(2) [OF cap(2)] by (simp add: blocked_def)
  qed
  show ?thesis
  proof (cases "zero_release_pending s d i \<and> release_admission s i = (Ok (), s') \<or>
      zero_release_pending s d j \<and> release_admission s j = (Ok (), s')")
    case True
    then show ?thesis using released [of i j] released [of j i] blocked assms(3) blocked_sym by metis
  next
    case False
    then have keep: "zero_release_pending s d i \<Longrightarrow> zero_release_pending s' d i"
        "zero_release_pending s d j \<Longrightarrow> zero_release_pending s' d j"
      using pending_step [OF inv ok] by blast+
    have "leased_on (led_active_leases ?l') d = 0 \<and>
        (bt_get (led_dynamic_reserved ?l) d = None \<longrightarrow> bt_get (led_dynamic_reserved ?l') d = None)"
      using revoked_ledger_step [OF inv B(1) blocked_not_drained [OF blocked] ok] B(2)
        zero_device_release [OF ledger _ B(2)] by metis
    then show ?thesis using rev keep blocked by (auto simp: blocked_def)
  qed
qed

lemma blocked_run:
  "sched_inv s \<Longrightarrow> blocked s d i j \<Longrightarrow> i \<noteq> j \<Longrightarrow> blocked (run sched_step s calls) d i j"
proof (induction calls arbitrary: s)
  case Nil
  then show ?case by simp
next
  case (Cons c calls)
  have "blocked (snd (sched_step s c)) d i j"
    using blocked_step [OF Cons.prems] sched.refused_skip [OF Cons.prems(1), of c] Cons.prems(2)
    by (cases "sched_step s c"; cases "fst (sched_step s c)") auto
  then show ?case using Cons.IH [OF sched.step_inv [OF Cons.prems(1)]] Cons.prems(3) by simp
qed

text \<open>A controller that reaches such a state: two workloads of zero bytes are committed and the grant is revoked.\<close>

definition zero_admission :: "u64 \<Rightarrow> string \<Rightarrow> admission_state \<Rightarrow> admission" where
  "zero_admission i p st = \<lparr>adm_lease = Legacy (zero_lease i p), adm_state = st, adm_active_uses = 0\<rparr>"

definition zero_sched :: "reservation_ledger \<Rightarrow> bool \<Rightarrow> (u64, admission) btree \<Rightarrow> scheduler" where
  "zero_sched l rv m =
     sample_sched\<lparr>sch_ledger := l, sch_admissions := m, sch_revoked := rv, sch_next_admission_id := 3\<rparr>"

lemma zero_sched_commit:
  "sched_commit sample_sched \<lparr>pa_brand = 1, pa_generation = 1, pa_prepared = zero_plan\<rparr> =
     (Ok [sample_ticket, sample_ticket\<lparr>at_admission_id := 2\<rparr>],
      zero_sched (zero_ledger [1, 2] [(''gpu0'', 0)] 1) False
        [(1, zero_admission 1 ''chat'' Reserved), (2, zero_admission 2 ''embed'' Reserved)])"
proof -
  have "placement_count zero_plan = 2" by (simp add: zero_plan_def placement_count_def)
  then show ?thesis
    using zero_commit
    by (simp add: sched_commit_def ensure_local_def ensure_current_def ensure_not_revoked_def require_def
        ensure_admission_capacity_def usize_add_def u64_of_usize_def checked_add_def ticket_def
        sample_ticket_def zero_sched_def zero_admission_def)
qed

lemma zero_sched_revoke:
  "sched_revoke (zero_sched (zero_ledger [1, 2] [(''gpu0'', 0)] 1) False
       [(1, zero_admission 1 ''chat'' Reserved), (2, zero_admission 2 ''embed'' Reserved)]) sample_generation =
     (Ok (), zero_sched (zero_ledger [1, 2] [(''gpu0'', 0)] 1) True
        [(1, zero_admission 1 ''chat'' (Draining None False)),
         (2, zero_admission 2 ''embed'' (Draining None False))])"
  by (simp add: sched_revoke_Ok_iff sample_generation_def zero_sched_def bt_map_values_def
      transition_to_draining_def zero_admission_def)

text \<open>C40: two admissions of zero bytes block the drain of a revoked controller for ever. Take any reachable
  revoked controller in which two admissions wait for their local release, both of zero bytes on one
  device where nothing else holds bytes. Whatever calls follow, polls and reports included, one of the
  two is still there afterwards, and an attempt to replace the grant is refused as not drained.\<close>

theorem zero_byte_admissions_block_the_drain:
  assumes "valid_request grant" and "new_with_host_ledger cb lb grant limits host = Ok s0"
    and "host_reserved host = 0" and "s = run sched_step s0 cs" and "sch_revoked s" and "i \<noteq> j"
    and "zero_release_pending s d i" and "zero_release_pending s d j"
    and "leased_on (led_active_leases (sch_ledger s)) d = 0"
  shows "(zero_release_pending (run sched_step s calls) d i \<or> zero_release_pending (run sched_step s calls) d j) \<and>
    replace_grant (run sched_step s calls) b r = (Err GrantNotDrained, run sched_step s calls)"
proof -
  have inv: "sched_inv s"
    unfolding assms(4) by (rule sched.run_inv [OF new_with_host_ledger_inv(1) [OF assms(1-3)]])
  have "blocked s d i j" using assms(5-9) by (simp add: blocked_def)
  from blocked_run [OF inv this assms(6)] have "blocked (run sched_step s calls) d i j" .
  then show ?thesis by (auto simp: blocked_def replace_grant_def zero_release_pending_iff)
qed

theorem zero_byte_admissions_block_the_drain_witness:
  "\<exists>s. s = run sched_step sample_sched [SCommit \<lparr>pa_brand = 1, pa_generation = 1, pa_prepared = zero_plan\<rparr>,
       SRevoke sample_generation] \<and>
     replace_grant (run sched_step s [SPoll, SPoll]) 9 (sample_request []) = (Err GrantNotDrained, run sched_step s [SPoll, SPoll])"
proof -
  let ?cs = "[SCommit \<lparr>pa_brand = 1, pa_generation = 1, pa_prepared = zero_plan\<rparr>, SRevoke sample_generation]"
  let ?s = "run sched_step sample_sched ?cs"
  have s: "?s = zero_sched (zero_ledger [1, 2] [(''gpu0'', 0)] 1) True
      [(1, zero_admission 1 ''chat'' (Draining None False)), (2, zero_admission 2 ''embed'' (Draining None False))]"
    by (simp add: zero_sched_commit zero_sched_revoke reply_def map_result_def del: One_nat_def)
  have "sch_revoked ?s" "zero_release_pending ?s ''gpu0'' 1" "zero_release_pending ?s ''gpu0'' 2"
      "leased_on (led_active_leases (sch_ledger ?s)) ''gpu0'' = 0"
    unfolding s by (simp_all add: zero_sched_def zero_release_pending_def bt_get_Cons zero_admission_def zero_lease_def
        zero_ledger_def leased_on_def bt_total_def)
  from zero_byte_admissions_block_the_drain [OF sample_valid_empty sample_sched_new sample_host_empty refl this(1) _ this(2-4),
      of "[SPoll, SPoll]" 9 "sample_request []"] show ?thesis by simp
qed

end
