(* ===== verification/Float32.thy ===== *)
theory Float32
  imports Rust_Prelude
begin

text \<open>
  Single precision numbers as their bit patterns. What the standard library decides from the bits alone
  (whether a number is finite or NaN, how two numbers compare) is computed from them. IEEE arithmetic and
  the transcendental functions are fields of \<open>f32_ops\<close>, a parameter of the definitions that compute.
\<close>

subsection \<open>Single-precision numbers\<close>

type_synonym f32 = u32

definition f32_magnitude :: "f32 \<Rightarrow> nat" where
  "f32_magnitude x = unat x mod 2 ^ 31"

definition f32_negative :: "f32 \<Rightarrow> bool" where
  "f32_negative x \<longleftrightarrow> 2 ^ 31 \<le> unat x"

text \<open>The magnitude of an infinity is that of the exponent of all ones; larger ones are NaN.\<close>

definition f32_is_nan :: "f32 \<Rightarrow> bool" where
  "f32_is_nan x \<longleftrightarrow> 255 * 2 ^ 23 < f32_magnitude x"

definition f32_is_finite :: "f32 \<Rightarrow> bool" where
  "f32_is_finite x \<longleftrightarrow> f32_magnitude x < 255 * 2 ^ 23"

definition f32_infinity :: f32 where
  "f32_infinity = 0x7F800000"

definition f32_neg_infinity :: f32 where
  "f32_neg_infinity = 0xFF800000"

text \<open>The two zeros are equal, and no comparison holds of NaN.\<close>

definition f32_key :: "f32 \<Rightarrow> int" where
  "f32_key x = (if f32_negative x then - int (f32_magnitude x) else int (f32_magnitude x))"

definition f32_less :: "f32 \<Rightarrow> f32 \<Rightarrow> bool" where
  "f32_less x y \<longleftrightarrow> \<not> f32_is_nan x \<and> \<not> f32_is_nan y \<and> f32_key x < f32_key y"

text \<open>\<open>f32::total_cmp\<close> compares the bits as signed integers, the magnitude of negative ones flipped.\<close>

definition f32_total :: "f32 \<Rightarrow> int" where
  "f32_total x = (if f32_negative x then - 1 - int (f32_magnitude x) else int (f32_magnitude x))"

lemma f32_total_key: "f32_total x \<le> f32_total y \<Longrightarrow> f32_key x \<le> f32_key y"
  by (auto simp: f32_total_def f32_key_def split: if_splits)

lemma f32_finite_not_nan: "f32_is_finite x \<Longrightarrow> \<not> f32_is_nan x"
  by (simp add: f32_is_finite_def f32_is_nan_def)

lemma f32_infinite_cases: "f32_is_nan x \<or> f32_is_finite x \<or> x = f32_infinity \<or> x = f32_neg_infinity"
proof -
  have "x = f32_infinity \<or> x = f32_neg_infinity" if "f32_magnitude x = 255 * 2 ^ 23"
  proof -
    have small: "unat x < 2 ^ 32" using unsigned_less [of x] by simp
    have "unat x = 255 * 2 ^ 23 \<or> unat x = 2 ^ 31 + 255 * 2 ^ 23"
    proof (cases "unat x < 2 ^ 31")
      case False
      then have "unat x mod 2 ^ 31 = unat x - 2 ^ 31" using small by (simp add: le_mod_geq)
      then show ?thesis using that False by (simp add: f32_magnitude_def)
    qed (use that in \<open>simp add: f32_magnitude_def\<close>)
    moreover have "unat f32_infinity = 255 * 2 ^ 23" "unat f32_neg_infinity = 2 ^ 31 + 255 * 2 ^ 23"
      by (simp_all add: f32_infinity_def f32_neg_infinity_def)
    ultimately show ?thesis by (metis word_unat_eq_iff)
  qed
  then show ?thesis unfolding f32_is_nan_def f32_is_finite_def by linarith
qed

lemma f32_neg_infinity_least: "\<not> f32_less x f32_neg_infinity"
proof -
  have "f32_key f32_neg_infinity = - int (255 * 2 ^ 23)"
    by (simp add: f32_key_def f32_neg_infinity_def f32_negative_def f32_magnitude_def)
  moreover have "- int (255 * 2 ^ 23) \<le> f32_key x" if "\<not> f32_is_nan x"
    using that by (simp add: f32_key_def f32_is_nan_def)
  ultimately show ?thesis by (auto simp: f32_less_def)
qed

subsection \<open>Arithmetic\<close>

record f32_ops =
  f_add :: "f32 \<Rightarrow> f32 \<Rightarrow> f32"
  f_sub :: "f32 \<Rightarrow> f32 \<Rightarrow> f32"
  f_mul :: "f32 \<Rightarrow> f32 \<Rightarrow> f32"
  f_div :: "f32 \<Rightarrow> f32 \<Rightarrow> f32"
  f_max :: "f32 \<Rightarrow> f32 \<Rightarrow> f32"
  f_exp :: "f32 \<Rightarrow> f32"
  f_sqrt :: "f32 \<Rightarrow> f32"
  f_of_usize :: "usize \<Rightarrow> f32"

definition f32_one :: f32 where
  "f32_one = 0x3F800000"

text \<open>\<open>x == 0.0\<close> holds of both zeros.\<close>

definition f32_is_zero :: "f32 \<Rightarrow> bool" where
  "f32_is_zero x \<longleftrightarrow> f32_magnitude x = 0"

end
