(* ===== verification/Paged_State.thy ===== *)
theory Paged_State
  imports Float32 "HOL-Library.Product_Lexorder"
begin

text \<open>
  The paged key/value cache of one decoder execution (src/crates/cache/src/paged.rs): the allocation
  plan, the ledger of page bundles and the append transaction, as written. An \<open>f32\<close> is its bit
  pattern, since the cache only moves values; a \<open>Vec\<close> is a list whose last element is the top of
  the stack. Whether the allocator grants a request of some bytes is the argument \<open>grants\<close>.
\<close>

subsection \<open>Errors\<close>

datatype paged_error =
    PagedAllocation string
  | PagedZeroDimension string
  | PagedArithmetic string
  | PagedEmptyAppend
  | PagedContextOverflow usize usize usize
  | PagedCapacity usize usize
  | PagedLayerOutOfRange usize usize
  | PagedRowWidth string usize usize usize
  | PagedAppendTokenOutOfRange usize usize
  | PagedWriteOrder usize usize usize
  | PagedReadBeyondVisible usize usize
  | PagedIncompleteAppend usize usize usize
  | PagedLayout string

subsection \<open>Vectors\<close>

definition vec_get :: "'a list \<Rightarrow> usize \<Rightarrow> 'a option" where
  "vec_get xs i = (if i < length xs then Some (xs ! i) else None)"

definition vec_slice :: "'a list \<Rightarrow> usize \<times> usize \<Rightarrow> 'a list option" where
  "vec_slice xs r =
     (if fst r \<le> snd r \<and> snd r \<le> length xs then Some (take (snd r - fst r) (drop (fst r) xs)) else None)"

definition overwrite :: "'a list \<Rightarrow> usize \<Rightarrow> 'a list \<Rightarrow> 'a list" where
  "overwrite xs a ys = take a xs @ ys @ drop (a + length ys) xs"

text \<open>\<open>slice::copy_within\<close>, which panics when either range is out of bounds.\<close>

definition copy_within :: "'a list \<Rightarrow> usize \<times> usize \<Rightarrow> usize \<Rightarrow> ('a list, 'e) result" where
  "copy_within xs src dest =
     (case vec_slice xs src of
        None \<Rightarrow> Panic
      | Some ys \<Rightarrow> if dest + length ys \<le> length xs then Ok (overwrite xs dest ys) else Panic)"

text \<open>\<open>reserve\<close>: the layout check of \<open>Layout::array\<close>, then the allocator.\<close>

definition reserve_capacity ::
  "(nat \<Rightarrow> bool) \<Rightarrow> nat \<Rightarrow> usize \<Rightarrow> string \<Rightarrow> (unit, paged_error) result" where
  "reserve_capacity grants elem n target =
     (if 2 ^ 63 \<le> n * elem then Err (PagedLayout target)
      else if \<not> grants (n * elem) then Err (PagedAllocation target) else Ok ())"

definition ceil_div :: "usize \<Rightarrow> usize \<Rightarrow> string \<Rightarrow> (usize, paged_error) result" where
  "ceil_div v divisor operation =
     ok_or (PagedArithmetic operation)
       (map_option (\<lambda>x. x div divisor) (usize_add v (divisor - 1)))"

subsection \<open>The plan\<close>

record paged_geometry =
  geo_layers :: usize
  geo_row_width :: usize
  geo_max_context :: usize

datatype page_tokens = B8 | B16 | B32

fun page_count_of :: "page_tokens \<Rightarrow> usize" where
  "page_count_of B8 = 8"
| "page_count_of B16 = 16"
| "page_count_of B32 = 32"

text \<open>The derived order of the enumeration is the order of its sizes.\<close>

instantiation page_tokens :: linorder
begin

definition less_eq_page_tokens :: "page_tokens \<Rightarrow> page_tokens \<Rightarrow> bool" where
  "less_eq_page_tokens a b \<longleftrightarrow> page_count_of a \<le> page_count_of b"

definition less_page_tokens :: "page_tokens \<Rightarrow> page_tokens \<Rightarrow> bool" where
  "less_page_tokens a b \<longleftrightarrow> page_count_of a < page_count_of b"

instance
proof
  fix a b :: page_tokens
  show "a \<le> b \<Longrightarrow> b \<le> a \<Longrightarrow> a = b"
    by (cases a; cases b) (simp_all add: less_eq_page_tokens_def)
qed (auto simp: less_eq_page_tokens_def less_page_tokens_def)

end

record paged_allocation =
  al_page_count :: usize
  al_bundle_count :: usize
  al_requested_f32 :: usize
  al_tail_copy_bytes :: usize
  al_total_requested_bytes :: usize

record paged_plan =
  pk_geometry :: paged_geometry
  pk_page_tokens :: page_tokens
  pk_allocation :: paged_allocation

definition validate_geometry :: "paged_geometry \<Rightarrow> (unit, paged_error) result" where
  "validate_geometry g =
     (if geo_layers g = 0 then Err (PagedZeroDimension ''layers'')
      else if geo_row_width g = 0 then Err (PagedZeroDimension ''row_width'')
      else if geo_max_context g = 0 then Err (PagedZeroDimension ''max_context'')
      else Ok ())"

definition bundle_product :: "paged_geometry \<Rightarrow> page_tokens \<Rightarrow> usize option" where
  "bundle_product g p =
     Option.bind (Option.bind (usize_mul (geo_layers g) 2)
       (\<lambda>x. usize_mul x (page_count_of p))) (\<lambda>x. usize_mul x (geo_row_width g))"

definition paged_allocation_of ::
  "paged_geometry \<Rightarrow> page_tokens \<Rightarrow> (paged_allocation, paged_error) result" where
  "paged_allocation_of g p =
     and_then (ceil_div (geo_max_context g) (page_count_of p) ''page count'') (\<lambda>page_count.
     and_then (ok_or (PagedArithmetic ''tail spare bundle count'')
       (usize_add page_count 1)) (\<lambda>bundle_count.
     and_then (ok_or (PagedArithmetic ''bundle f32 capacity'') (bundle_product g p)) (\<lambda>per_bundle.
     and_then (ok_or (PagedArithmetic ''pool f32 capacity'')
       (usize_mul bundle_count per_bundle)) (\<lambda>requested_f32.
     and_then (ok_or (PagedArithmetic ''pool backing bytes'')
       (usize_mul requested_f32 4)) (\<lambda>backing_bytes.
     and_then (ok_or (PagedArithmetic ''pool metadata entries'')
       (Option.bind (Option.bind (usize_mul page_count 2)
         (\<lambda>x. usize_add x bundle_count)) (\<lambda>x. usize_add x (geo_layers g)))) (\<lambda>metadata_entries.
     and_then (ok_or (PagedArithmetic ''pool metadata bytes'')
       (usize_mul metadata_entries 8)) (\<lambda>metadata_bytes.
     and_then (ok_or (PagedArithmetic ''COW tail copy capacity'')
       (Option.bind (Option.bind (usize_mul (geo_layers g) 2)
         (\<lambda>x. usize_mul x (geo_row_width g))) (\<lambda>x. usize_mul x (page_count_of p - 1)))) (\<lambda>tail_copy_f32.
     and_then (ok_or (PagedArithmetic ''COW tail copy bytes'')
       (usize_mul tail_copy_f32 4)) (\<lambda>tail_copy_bytes.
     and_then (ok_or (PagedArithmetic ''total pool requested bytes'')
       (usize_add backing_bytes metadata_bytes)) (\<lambda>total_requested_bytes.
       Ok \<lparr>al_page_count = page_count, al_bundle_count = bundle_count,
           al_requested_f32 = requested_f32, al_tail_copy_bytes = tail_copy_bytes,
           al_total_requested_bytes = total_requested_bytes\<rparr>))))))))))"

definition paged_plan_new :: "paged_geometry \<Rightarrow> page_tokens \<Rightarrow> (paged_plan, paged_error) result" where
  "paged_plan_new g p =
     and_then (validate_geometry g) (\<lambda>_.
     and_then (paged_allocation_of g p) (\<lambda>allocation.
       Ok \<lparr>pk_geometry = g, pk_page_tokens = p, pk_allocation = allocation\<rparr>))"

definition plan_cost :: "paged_plan \<Rightarrow> usize \<times> usize \<times> usize" where
  "plan_cost k = (al_total_requested_bytes (pk_allocation k), al_tail_copy_bytes (pk_allocation k),
     page_count_of (pk_page_tokens k))"

definition cheaper :: "paged_plan \<Rightarrow> paged_plan \<Rightarrow> paged_plan" where
  "cheaper selected candidate = (if plan_cost candidate < plan_cost selected then candidate else selected)"

definition paged_plan_select :: "paged_geometry \<Rightarrow> (paged_plan, paged_error) result" where
  "paged_plan_select g =
     and_then (paged_plan_new g B8) (\<lambda>a.
     and_then (paged_plan_new g B16) (\<lambda>b.
     and_then (paged_plan_new g B32) (\<lambda>c.
       Ok (fold (\<lambda>candidate selected. cheaper selected candidate) [b, c] a))))"

definition bundle_elements :: "paged_plan \<Rightarrow> (usize, paged_error) result" where
  "bundle_elements k =
     ok_or (PagedArithmetic ''bundle addressing'') (bundle_product (pk_geometry k) (pk_page_tokens k))"

subsection \<open>The ledger\<close>

record tail_replacement =
  tr_page :: usize
  tr_original_bundle :: usize
  tr_fill :: usize
  tr_replacement_bundle :: usize

record append_reservation =
  ar_append_tokens :: usize
  ar_original_tokens :: usize
  ar_target_tokens :: usize
  ar_original_page_count :: usize
  ar_replaced_tail :: "tail_replacement option"

record paged_ledger =
  pl_plan :: paged_plan
  pl_table :: "usize list"
  pl_fills :: "usize list"
  pl_free :: "usize list"
  pl_staged_rows :: "usize list"
  pl_committed_tokens :: usize

definition ledger_page_tokens :: "paged_ledger \<Rightarrow> usize" where
  "ledger_page_tokens l = page_count_of (pk_page_tokens (pl_plan l))"

definition paged_ledger_new :: "(nat \<Rightarrow> bool) \<Rightarrow> paged_plan \<Rightarrow> (paged_ledger, paged_error) result" where
  "paged_ledger_new grants k =
     (let a = pk_allocation k; layers = geo_layers (pk_geometry k)
      in and_then (reserve_capacity grants 8 (al_page_count a) ''paged-KV page table'') (\<lambda>_.
         and_then (reserve_capacity grants 8 (al_page_count a) ''paged-KV page fills'') (\<lambda>_.
         and_then (reserve_capacity grants 8 (al_bundle_count a) ''paged-KV free bundles'') (\<lambda>_.
         and_then (reserve_capacity grants 8 layers ''paged-KV transaction rows'') (\<lambda>_.
           Ok \<lparr>pl_plan = k, pl_table = [], pl_fills = [], pl_free = rev [0..<al_bundle_count a],
               pl_staged_rows = replicate layers 0, pl_committed_tokens = 0\<rparr>)))))"

definition take_free :: "paged_ledger \<Rightarrow> (usize, paged_error) result \<times> paged_ledger" where
  "take_free l =
     (if pl_free l = [] then (Err (PagedLayout ''preflighted free bundle''), l)
      else (Ok (last (pl_free l)), l\<lparr>pl_free := butlast (pl_free l)\<rparr>))"

definition replace_tail_without_copy ::
  "paged_ledger \<Rightarrow> (tail_replacement, paged_error) result \<times> paged_ledger" where
  "replace_tail_without_copy l =
     attempt (ok_or (PagedLayout ''partial tail page'') (usize_sub (length (pl_table l)) 1)) l (\<lambda>page.
     attempt (ok_or (PagedLayout ''partial tail bundle'') (vec_get (pl_table l) page)) l (\<lambda>original_bundle.
     attempt (ok_or (PagedLayout ''partial tail fill'') (vec_get (pl_fills l) page)) l (\<lambda>fill.
     proceed (take_free l) (\<lambda>replacement_bundle l'.
     attempt (ok_or (PagedLayout ''partial tail replacement'') (vec_get (pl_table l') page)) l' (\<lambda>_.
       (Ok \<lparr>tr_page = page, tr_original_bundle = original_bundle, tr_fill = fill,
            tr_replacement_bundle = replacement_bundle\<rparr>,
        l'\<lparr>pl_table := (pl_table l')[page := replacement_bundle]\<rparr>))))))"

text \<open>The loop of \<open>begin_append\<close> that adds the new pages.\<close>

fun add_pages :: "nat \<Rightarrow> paged_ledger \<Rightarrow> (unit, paged_error) result \<times> paged_ledger" where
  "add_pages 0 l = (Ok (), l)"
| "add_pages (Suc n) l =
     proceed (take_free l) (\<lambda>bundle l'.
       add_pages n (l'\<lparr>pl_table := pl_table l' @ [bundle], pl_fills := pl_fills l' @ [0]\<rparr>))"

definition clear_staged :: "paged_ledger \<Rightarrow> paged_ledger" where
  "clear_staged l = l\<lparr>pl_staged_rows := replicate (length (pl_staged_rows l)) 0\<rparr>"

definition stage_tail ::
  "bool \<Rightarrow> paged_ledger \<Rightarrow> (tail_replacement option, paged_error) result \<times> paged_ledger" where
  "stage_tail partial l =
     (if partial then proceed (replace_tail_without_copy l) (\<lambda>r l'. (Ok (Some r), l'))
      else (Ok None, l))"

definition ledger_begin_append ::
  "paged_ledger \<Rightarrow> usize \<Rightarrow> (append_reservation, paged_error) result \<times> paged_ledger" where
  "ledger_begin_append l append_tokens =
     (if append_tokens = 0 then (Err PagedEmptyAppend, l)
      else
        let original_tokens = pl_committed_tokens l;
            max_context = geo_max_context (pk_geometry (pl_plan l));
            original_page_count = length (pl_table l);
            page_tokens = ledger_page_tokens l;
            partial = (original_tokens mod page_tokens \<noteq> 0)
        in attempt (ok_or (PagedContextOverflow original_tokens append_tokens max_context)
             (Option.bind (usize_add original_tokens append_tokens)
               (\<lambda>v. if v \<le> max_context then Some v else None))) l (\<lambda>target.
           attempt (ceil_div target page_tokens ''append target pages'') l (\<lambda>target_pages.
           attempt (ok_or (PagedLayout ''page table monotonicity'')
             (usize_sub target_pages original_page_count)) l (\<lambda>new_pages.
           attempt (ok_or (PagedArithmetic ''append spare count'')
             (usize_add new_pages (if partial then 1 else 0))) l (\<lambda>needed.
             if length (pl_free l) < needed then (Err (PagedCapacity needed (length (pl_free l))), l)
             else
               proceed (stage_tail partial (clear_staged l)) (\<lambda>replaced_tail l'.
               proceed (add_pages new_pages l') (\<lambda>_ l''.
                 (Ok \<lparr>ar_append_tokens = append_tokens, ar_original_tokens = original_tokens,
                      ar_target_tokens = target, ar_original_page_count = original_page_count,
                      ar_replaced_tail = replaced_tail\<rparr>, l''))))))))"

text \<open>The first layer whose staged rows are not the whole append.\<close>

definition validate_commit :: "paged_ledger \<Rightarrow> append_reservation \<Rightarrow> (unit, paged_error) result" where
  "validate_commit l r =
     (case List.find (\<lambda>(layer, written). written \<noteq> ar_append_tokens r) (enumerate 0 (pl_staged_rows l)) of
        Some (layer, written) \<Rightarrow> Err (PagedIncompleteAppend layer written (ar_append_tokens r))
      | None \<Rightarrow> Ok ())"

definition publish_commit :: "paged_ledger \<Rightarrow> append_reservation \<Rightarrow> paged_ledger" where
  "publish_commit l r =
     clear_staged (l\<lparr>pl_committed_tokens := ar_target_tokens r,
       pl_free := pl_free l @ (case ar_replaced_tail r of None \<Rightarrow> [] | Some t \<Rightarrow> [tr_original_bundle t])\<rparr>)"

text \<open>The loop of \<open>rollback\<close>: pop pages until the original count is left.\<close>

function drop_pages :: "usize \<Rightarrow> paged_ledger \<Rightarrow> paged_ledger" where
  "drop_pages original l =
     (if original < length (pl_table l)
      then drop_pages original (l\<lparr>pl_table := butlast (pl_table l),
             pl_free := pl_free l @ [last (pl_table l)], pl_fills := butlast (pl_fills l)\<rparr>)
      else l)"
  by pat_completeness auto
termination
  by (relation "measure (\<lambda>(original, l). length (pl_table l))") auto

declare drop_pages.simps [simp del]

definition ledger_rollback :: "paged_ledger \<Rightarrow> append_reservation \<Rightarrow> paged_ledger" where
  "ledger_rollback l r =
     clear_staged (case ar_replaced_tail r of
         None \<Rightarrow> drop_pages (ar_original_page_count r) l
       | Some t \<Rightarrow>
           (let l' = drop_pages (ar_original_page_count r) l
            in l'\<lparr>pl_table := (pl_table l')[tr_page t := tr_original_bundle t],
                  pl_fills := (pl_fills l')[tr_page t := tr_fill t],
                  pl_free := pl_free l' @ [tr_replacement_bundle t]\<rparr>))"

definition check_layer :: "paged_ledger \<Rightarrow> usize \<Rightarrow> (unit, paged_error) result" where
  "check_layer l layer =
     require (layer < geo_layers (pk_geometry (pl_plan l)))
       (PagedLayerOutOfRange layer (geo_layers (pk_geometry (pl_plan l))))"

record ledger_write_location =
  wl_page :: usize
  wl_bundle :: usize
  wl_within :: usize

definition ledger_write_location_of ::
  "paged_ledger \<Rightarrow> append_reservation \<Rightarrow> usize \<Rightarrow> usize \<Rightarrow> (ledger_write_location, paged_error) result"
where
  "ledger_write_location_of l r layer token =
     and_then (check_layer l layer) (\<lambda>_.
     and_then (require (token < ar_append_tokens r)
       (PagedAppendTokenOutOfRange token (ar_append_tokens r))) (\<lambda>_.
     and_then (ok_or (PagedLayout ''layer write counter'') (vec_get (pl_staged_rows l) layer)) (\<lambda>expected.
     and_then (require (token = expected) (PagedWriteOrder layer expected token)) (\<lambda>_.
     and_then (ok_or (PagedArithmetic ''absolute append token'')
       (usize_add (ar_original_tokens r) token)) (\<lambda>absolute.
     and_then (ok_or (PagedLayout ''append page lookup'')
       (vec_get (pl_table l) (absolute div ledger_page_tokens l))) (\<lambda>bundle.
       Ok \<lparr>wl_page = absolute div ledger_page_tokens l, wl_bundle = bundle,
           wl_within = absolute mod ledger_page_tokens l\<rparr>))))))"

text \<open>The fill is raised before the layer's counter is looked up.\<close>

definition ledger_record_write ::
  "paged_ledger \<Rightarrow> usize \<Rightarrow> usize \<Rightarrow> usize \<Rightarrow> (unit, paged_error) result \<times> paged_ledger" where
  "ledger_record_write l layer page within =
     attempt (ok_or (PagedLayout ''append fill'') (vec_get (pl_fills l) page)) l (\<lambda>fill.
     let l' = l\<lparr>pl_fills := (pl_fills l)[page := max fill (within + 1)]\<rparr>
     in attempt (ok_or (PagedLayout ''layer write counter update'')
          (vec_get (pl_staged_rows l') layer)) l' (\<lambda>written.
        attempt (ok_or (PagedArithmetic ''layer write count'') (usize_add written 1)) l' (\<lambda>next_written.
          (Ok (), l'\<lparr>pl_staged_rows := (pl_staged_rows l')[layer := next_written]\<rparr>))))"

definition visible_tokens ::
  "paged_ledger \<Rightarrow> append_reservation \<Rightarrow> usize \<Rightarrow> (usize, paged_error) result" where
  "visible_tokens l r layer =
     and_then (check_layer l layer) (\<lambda>_.
     and_then (ok_or (PagedLayout ''staged view counter'') (vec_get (pl_staged_rows l) layer)) (\<lambda>staged.
       ok_or (PagedArithmetic ''staged visible tokens'') (usize_add (ar_original_tokens r) staged)))"

end
