(* ===== verification/Paged_Pool.thy ===== *)
theory Paged_Pool
  imports Paged_State
begin

text \<open>
  The pool of the paged cache and its append transaction, as written: addressing, the copy of a
  partial tail page, row writes and row reads. A \<open>PagedAppend\<close> borrows its pool mutably, so at any
  time there is the pool alone, a pool with one open append, or a pool with one verified append;
  \<open>session_step\<close> is the machine of the calls a client can make in each of the three.
\<close>

subsection \<open>The pool\<close>

record paged_pool =
  pool_ledger :: paged_ledger
  pool_storage :: "f32 list"

definition paged_pool_new :: "(nat \<Rightarrow> bool) \<Rightarrow> paged_plan \<Rightarrow> (paged_pool, paged_error) result" where
  "paged_pool_new grants k =
     and_then (reserve_capacity grants 4 (al_requested_f32 (pk_allocation k)) ''paged-KV f32 backing'') (\<lambda>_.
     and_then (paged_ledger_new grants k) (\<lambda>ledger.
       Ok \<lparr>pool_ledger = ledger, pool_storage = replicate (al_requested_f32 (pk_allocation k)) 0\<rparr>))"

definition pool_span ::
  "paged_pool \<Rightarrow> usize \<Rightarrow> usize \<Rightarrow> usize \<Rightarrow> bool \<Rightarrow> usize \<Rightarrow> (usize \<times> usize, paged_error) result" where
  "pool_span p bundle layer token v rows =
     (let l = pool_ledger p; k = pl_plan l; page_tokens = ledger_page_tokens l;
          width = geo_row_width (pk_geometry k)
      in if al_bundle_count (pk_allocation k) \<le> bundle \<or> geo_layers (pk_geometry k) \<le> layer
          \<or> page_tokens \<le> token \<or> page_tokens - token < rows
         then Err (PagedLayout ''page addressing'')
         else
           and_then (bundle_elements k) (\<lambda>elements.
           and_then (ok_or (PagedArithmetic ''bundle offset'') (usize_mul bundle elements)) (\<lambda>bundle_start.
           and_then (ok_or (PagedArithmetic ''layer stride'')
             (Option.bind (usize_mul page_tokens width) (\<lambda>x. usize_mul x 2))) (\<lambda>layer_stride.
           and_then (if v then ok_or (PagedArithmetic ''value offset'') (usize_mul page_tokens width)
                     else Ok 0) (\<lambda>value_offset.
           and_then (ok_or (PagedArithmetic ''row offset'')
             (Option.bind (Option.bind (Option.bind (usize_mul layer layer_stride)
               (\<lambda>x. usize_add bundle_start x)) (\<lambda>x. usize_add x value_offset))
               (\<lambda>x. Option.bind (usize_mul token width) (\<lambda>y. usize_add x y)))) (\<lambda>start.
           and_then (ok_or (PagedLayout ''row bounds'')
             (Option.bind (Option.bind (usize_mul rows width) (\<lambda>x. usize_add start x))
               (\<lambda>x. if x \<le> length (pool_storage p) then Some x else None))) (\<lambda>end_of.
             Ok (start, end_of))))))))"

text \<open>The loops of \<open>copy_tail\<close> over the layers and over keys and values.\<close>

definition tail_spans :: "usize \<Rightarrow> (usize \<times> bool) list" where
  "tail_spans layers = concat (map (\<lambda>layer. [(layer, False), (layer, True)]) [0..<layers])"

fun copy_spans ::
  "tail_replacement \<Rightarrow> (usize \<times> bool) list \<Rightarrow> paged_pool \<Rightarrow> (unit, paged_error) result \<times> paged_pool" where
  "copy_spans t [] p = (Ok (), p)"
| "copy_spans t ((layer, v) # rest) p =
     attempt (pool_span p (tr_original_bundle t) layer 0 v (tr_fill t)) p (\<lambda>source.
     attempt (pool_span p (tr_replacement_bundle t) layer 0 v (tr_fill t)) p (\<lambda>destination.
     attempt (copy_within (pool_storage p) source (fst destination)) p (\<lambda>storage.
       copy_spans t rest (p\<lparr>pool_storage := storage\<rparr>))))"

definition copy_tail ::
  "paged_pool \<Rightarrow> tail_replacement \<Rightarrow> (unit, paged_error) result \<times> paged_pool" where
  "copy_tail p t = copy_spans t (tail_spans (geo_layers (pk_geometry (pl_plan (pool_ledger p))))) p"

definition pool_begin_append ::
  "paged_pool \<Rightarrow> usize \<Rightarrow> (append_reservation, paged_error) result \<times> paged_pool" where
  "pool_begin_append p append_tokens =
     (case ledger_begin_append (pool_ledger p) append_tokens of
        (r, ledger) \<Rightarrow>
          attempt r (p\<lparr>pool_ledger := ledger\<rparr>) (\<lambda>reservation.
            case ar_replaced_tail reservation of
              None \<Rightarrow> (Ok reservation, p\<lparr>pool_ledger := ledger\<rparr>)
            | Some t \<Rightarrow>
                (case copy_tail (p\<lparr>pool_ledger := ledger\<rparr>) t of
                   (Ok u, p') \<Rightarrow> (Ok reservation, p')
                 | (Err e, p') \<Rightarrow> (Err e, p'\<lparr>pool_ledger := ledger_rollback (pool_ledger p') reservation\<rparr>)
                 | (Panic, p') \<Rightarrow> (Panic, p'))))"

subsection \<open>Rows of an append\<close>

record paged_write_location =
  pw_page :: usize
  pw_within :: usize
  pw_key :: "usize \<times> usize"
  pw_value :: "usize \<times> usize"

definition check_row ::
  "paged_pool \<Rightarrow> usize \<Rightarrow> string \<Rightarrow> f32 list \<Rightarrow> (unit, paged_error) result" where
  "check_row p layer kind row =
     (let width = geo_row_width (pk_geometry (pl_plan (pool_ledger p)))
      in require (length row = width) (PagedRowWidth kind layer (length row) width))"

definition check_storage_row ::
  "paged_pool \<Rightarrow> usize \<times> usize \<Rightarrow> string \<Rightarrow> (unit, paged_error) result" where
  "check_storage_row p extent operation =
     and_then (ok_or (PagedLayout operation) (vec_slice (pool_storage p) extent)) (\<lambda>_. Ok ())"

definition paged_write_location_of ::
  "paged_pool \<Rightarrow> append_reservation \<Rightarrow> usize \<Rightarrow> usize \<Rightarrow> f32 list \<Rightarrow> f32 list \<Rightarrow>
     (paged_write_location, paged_error) result" where
  "paged_write_location_of p r layer token keys values =
     and_then (check_row p layer ''key'' keys) (\<lambda>_.
     and_then (check_row p layer ''value'' values) (\<lambda>_.
     and_then (ledger_write_location_of (pool_ledger p) r layer token) (\<lambda>location.
     and_then (pool_span p (wl_bundle location) layer (wl_within location) False 1) (\<lambda>key.
     and_then (pool_span p (wl_bundle location) layer (wl_within location) True 1) (\<lambda>value_range.
     and_then (check_storage_row p key ''key row write'') (\<lambda>_.
     and_then (check_storage_row p value_range ''value row write'') (\<lambda>_.
       Ok \<lparr>pw_page = wl_page location, pw_within = wl_within location, pw_key = key,
           pw_value = value_range\<rparr>)))))))"

text \<open>\<open>copy_from_slice\<close> panics when the lengths differ.\<close>

definition copy_row ::
  "paged_pool \<Rightarrow> usize \<times> usize \<Rightarrow> f32 list \<Rightarrow> string \<Rightarrow> (unit, paged_error) result \<times> paged_pool" where
  "copy_row p extent values operation =
     attempt (ok_or (PagedLayout operation) (vec_slice (pool_storage p) extent)) p (\<lambda>row.
       if length row = length values
       then (Ok (), p\<lparr>pool_storage := overwrite (pool_storage p) (fst extent) values\<rparr>)
       else (Panic, p))"

definition write_layer_row ::
  "paged_pool \<Rightarrow> append_reservation \<Rightarrow> usize \<Rightarrow> usize \<Rightarrow> f32 list \<Rightarrow> f32 list \<Rightarrow>
     (unit, paged_error) result \<times> paged_pool" where
  "write_layer_row p r layer token keys values =
     attempt (paged_write_location_of p r layer token keys values) p (\<lambda>location.
     proceed (copy_row p (pw_key location) keys ''key row write'') (\<lambda>_ p.
     proceed (copy_row p (pw_value location) values ''value row write'') (\<lambda>_ p.
       case ledger_record_write (pool_ledger p) layer (pw_page location) (pw_within location) of
         (res, ledger) \<Rightarrow> (res, p\<lparr>pool_ledger := ledger\<rparr>))))"

record layer_kv =
  kv_layer :: usize
  kv_tokens :: usize

definition pool_layer_kv :: "paged_pool \<Rightarrow> usize \<Rightarrow> (layer_kv, paged_error) result" where
  "pool_layer_kv p layer =
     and_then (check_layer (pool_ledger p) layer) (\<lambda>_.
       Ok \<lparr>kv_layer = layer, kv_tokens = pl_committed_tokens (pool_ledger p)\<rparr>)"

definition append_layer_kv ::
  "paged_pool \<Rightarrow> append_reservation \<Rightarrow> usize \<Rightarrow> (layer_kv, paged_error) result" where
  "append_layer_kv p r layer =
     and_then (visible_tokens (pool_ledger p) r layer) (\<lambda>tokens.
       Ok \<lparr>kv_layer = layer, kv_tokens = tokens\<rparr>)"

definition layer_row ::
  "paged_pool \<Rightarrow> layer_kv \<Rightarrow> usize \<Rightarrow> bool \<Rightarrow> (f32 list, paged_error) result" where
  "layer_row p kv token v =
     (let l = pool_ledger p; page_tokens = ledger_page_tokens l;
          page = token div page_tokens; within = token mod page_tokens
      in and_then (require (token < kv_tokens kv) (PagedReadBeyondVisible token (kv_tokens kv))) (\<lambda>_.
         and_then (ok_or (PagedLayout ''visible fill lookup'') (vec_get (pl_fills l) page)) (\<lambda>fill.
         and_then (require (within < fill) (PagedLayout ''visible fill validation'')) (\<lambda>_.
         and_then (ok_or (PagedLayout ''visible page lookup'') (vec_get (pl_table l) page)) (\<lambda>bundle.
         and_then (pool_span p bundle (kv_layer kv) within v 1) (\<lambda>extent.
           ok_or (PagedLayout ''visible row backing'') (vec_slice (pool_storage p) extent)))))))"

subsection \<open>The session\<close>

datatype append_stage = Closed | Open append_reservation | Verified append_reservation

record paged_session =
  ses_pool :: paged_pool
  ses_stage :: append_stage

datatype paged_call =
    BeginAppend usize
  | WriteRow usize usize "f32 list" "f32 list"
  | ReadRow usize usize bool
  | PrepareCommit
  | Publish
  | Abandon

datatype paged_reply = Begun | RowWritten | RowRead "f32 list" | CommitPrepared | Published | Abandoned
  | Unavailable

text \<open>\<open>Drop\<close> of an append that was not committed.\<close>

definition abandon_append :: "paged_pool \<Rightarrow> append_reservation \<Rightarrow> paged_pool" where
  "abandon_append p r = p\<lparr>pool_ledger := ledger_rollback (pool_ledger p) r\<rparr>"

text \<open>\<open>prepare_commit\<close> consumes the append: on an error it is dropped.\<close>

definition prepare_commit ::
  "paged_pool \<Rightarrow> append_reservation \<Rightarrow> (unit, paged_error) result \<times> paged_pool" where
  "prepare_commit p r =
     (case validate_commit (pool_ledger p) r of
        Ok u \<Rightarrow> (Ok (), p)
      | Err e \<Rightarrow> (Err e, abandon_append p r)
      | Panic \<Rightarrow> (Panic, p))"

definition publish_append :: "paged_pool \<Rightarrow> append_reservation \<Rightarrow> paged_pool" where
  "publish_append p r = p\<lparr>pool_ledger := publish_commit (pool_ledger p) r\<rparr>"

text \<open>\<open>PagedAppend::commit\<close>: verify, then publish.\<close>

definition commit_append ::
  "paged_pool \<Rightarrow> append_reservation \<Rightarrow> (unit, paged_error) result \<times> paged_pool" where
  "commit_append p r = proceed (prepare_commit p r) (\<lambda>_ p'. (Ok (), publish_append p' r))"

definition in_stage :: "append_stage \<Rightarrow> paged_pool \<Rightarrow> paged_session" where
  "in_stage st p = \<lparr>ses_pool = p, ses_stage = st\<rparr>"

text \<open>A call that the borrows of the stage rule out answers \<open>Unavailable\<close>.\<close>

definition session_step ::
  "paged_session \<Rightarrow> paged_call \<Rightarrow> (paged_reply, paged_error) result \<times> paged_session" where
  "session_step s c =
     (let p = ses_pool s in
      case (ses_stage s, c) of
        (Closed, BeginAppend n) \<Rightarrow>
          (case pool_begin_append p n of
             (Ok r, p') \<Rightarrow> (Ok Begun, in_stage (Open r) p')
           | (Err e, p') \<Rightarrow> (Err e, in_stage Closed p')
           | (Panic, p') \<Rightarrow> (Panic, in_stage Closed p'))
      | (Closed, ReadRow layer token v) \<Rightarrow>
          (map_result RowRead (\<lambda>e. e) (and_then (pool_layer_kv p layer) (\<lambda>kv. layer_row p kv token v)), s)
      | (Open r, WriteRow layer token keys values) \<Rightarrow>
          (case write_layer_row p r layer token keys values of
             (res, p') \<Rightarrow> (map_result (\<lambda>_. RowWritten) (\<lambda>e. e) res, in_stage (Open r) p'))
      | (Open r, ReadRow layer token v) \<Rightarrow>
          (map_result RowRead (\<lambda>e. e) (and_then (append_layer_kv p r layer) (\<lambda>kv. layer_row p kv token v)), s)
      | (Open r, PrepareCommit) \<Rightarrow>
          (case prepare_commit p r of
             (Ok u, p') \<Rightarrow> (Ok CommitPrepared, in_stage (Verified r) p')
           | (Err e, p') \<Rightarrow> (Err e, in_stage Closed p')
           | (Panic, p') \<Rightarrow> (Panic, in_stage Closed p'))
      | (Open r, Abandon) \<Rightarrow> (Ok Abandoned, in_stage Closed (abandon_append p r))
      | (Verified r, Publish) \<Rightarrow> (Ok Published, in_stage Closed (publish_append p r))
      | (Verified r, Abandon) \<Rightarrow> (Ok Abandoned, in_stage Closed (abandon_append p r))
      | _ \<Rightarrow> (Ok Unavailable, s))"

end
