(* ===== verification/Paged_Plan.thy ===== *)
theory Paged_Plan
  imports Paged_Pool
begin

text \<open>
  What the plan of the paged cache promises: the exact numbers of an allocation, when the checked
  arithmetic succeeds, and that \<open>select\<close> picks the cheapest page size. The predicate \<open>planned\<close> is
  what the pool relies on.
\<close>

subsection \<open>The numbers of an allocation\<close>

definition pages_for :: "usize \<Rightarrow> usize \<Rightarrow> usize" where
  "pages_for p n = (n + (p - 1)) div p"

definition bundle_size :: "paged_geometry \<Rightarrow> page_tokens \<Rightarrow> nat" where
  "bundle_size g p = geo_layers g * 2 * page_count_of p * geo_row_width g"

definition metadata_entries :: "paged_geometry \<Rightarrow> page_tokens \<Rightarrow> nat" where
  "metadata_entries g p = 3 * pages_for (page_count_of p) (geo_max_context g) + 1 + geo_layers g"

definition exact_allocation :: "paged_geometry \<Rightarrow> page_tokens \<Rightarrow> paged_allocation" where
  "exact_allocation g p =
     (let pages = pages_for (page_count_of p) (geo_max_context g)
      in \<lparr>al_page_count = pages, al_bundle_count = pages + 1,
          al_requested_f32 = (pages + 1) * bundle_size g p,
          al_tail_copy_bytes = geo_layers g * 2 * geo_row_width g * (page_count_of p - 1) * 4,
          al_total_requested_bytes = (pages + 1) * bundle_size g p * 4 + metadata_entries g p * 8\<rparr>)"

definition valid_geometry :: "paged_geometry \<Rightarrow> bool" where
  "valid_geometry g \<longleftrightarrow> 0 < geo_layers g \<and> 0 < geo_row_width g \<and> 0 < geo_max_context g"

lemma page_count_pos [simp]: "0 < page_count_of p" "page_count_of p \<noteq> 0" "Suc 0 \<le> page_count_of p"
  by (cases p; simp)+

lemma ceil_div_Ok_iff [simp]:
  "ceil_div v d s = Ok x \<longleftrightarrow> v + (d - 1) < 2 ^ 64 \<and> x = (v + (d - 1)) div d"
  by (auto simp: ceil_div_def usize_add_def)

lemma usize_product_iff:
  assumes "0 < c" and "0 < d"
  shows "Option.bind (Option.bind (usize_mul a b) (\<lambda>x. usize_mul x c)) (\<lambda>x. usize_mul x d) = Some r \<longleftrightarrow>
    r = a * b * c * d \<and> a * b * c * d < 2 ^ 64"
proof -
  have "a * b \<le> a * b * c" "a * b * c \<le> a * b * c * d" using assms by simp_all
  then have "a * b * c < 2 ^ 64 \<and> a * b < 2 ^ 64" if "a * b * c * d < 2 ^ 64"
    using that by linarith
  then show ?thesis by (auto simp: usize_mul_def)
qed

lemma bundle_product_Some_iff:
  assumes "valid_geometry g"
  shows "bundle_product g p = Some x \<longleftrightarrow> x = bundle_size g p \<and> bundle_size g p < 2 ^ 64"
  unfolding bundle_product_def bundle_size_def
  by (rule usize_product_iff) (use assms in \<open>simp_all add: valid_geometry_def\<close>)

lemma allocation_exact:
  assumes "paged_allocation_of g p = Ok a" and "valid_geometry g"
  shows "a = exact_allocation g p" and "al_requested_f32 a * 4 < 2 ^ 64"
    and "geo_max_context g + (page_count_of p - 1) < 2 ^ 64"
    and "al_total_requested_bytes a < 2 ^ 64" and "al_tail_copy_bytes a < 2 ^ 64"
  using assms
  by (auto simp: paged_allocation_of_def exact_allocation_def Let_def pages_for_def
      bundle_product_Some_iff usize_add_Some_iff usize_mul_Some_iff bind_eq_Some_conv
      metadata_entries_def bundle_size_def)

lemma allocation_succeeds:
  assumes g: "valid_geometry g" and fits: "geo_max_context g + (page_count_of p - 1) < 2 ^ 64"
    and total: "al_total_requested_bytes (exact_allocation g p) < 2 ^ 64"
  shows "paged_allocation_of g p = Ok (exact_allocation g p)"
proof -
  let ?n = "pages_for (page_count_of p) (geo_max_context g)"
  have pos: "0 < geo_layers g" "0 < geo_row_width g" using g by (simp_all add: valid_geometry_def)
  have bytes: "(?n + 1) * bundle_size g p * 4 + metadata_entries g p * 8 < 2 ^ 64"
    using total by (simp add: exact_allocation_def Let_def)
  then have backing: "(?n + 1) * bundle_size g p * 4 < 2 ^ 64" "metadata_entries g p * 8 < 2 ^ 64"
    by linarith+
  have "0 < bundle_size g p" using pos by (simp add: bundle_size_def)
  have mono: "bundle_size g p \<le> (?n + 1) * bundle_size g p" by simp
  have tail: "geo_layers g * 2 * geo_row_width g * (page_count_of p - 1) \<le> bundle_size g p"
  proof -
    have "page_count_of p - 1 \<le> page_count_of p" by simp
    then have "geo_layers g * 2 * geo_row_width g * (page_count_of p - 1)
        \<le> geo_layers g * 2 * geo_row_width g * page_count_of p" by (rule mult_le_mono2)
    then show ?thesis by (simp add: bundle_size_def mult.assoc mult.commute mult.left_commute)
  qed
  have two: "geo_layers g * 2 * geo_row_width g \<le> bundle_size g p" "geo_layers g * 2 \<le> bundle_size g p"
    using pos by (simp_all add: bundle_size_def)
  have small: "bundle_size g p * 4 < 2 ^ 64"
    using backing(1) mono by (meson le_less_trans mult_le_mono1)
  have product: "bundle_product g p = Some (bundle_size g p)"
    using bundle_product_Some_iff [OF g] small by simp
  have meta: "?n * 2 < 2 ^ 64" "?n + 1 < 2 ^ 64" "?n * 2 + (?n + 1) < 2 ^ 64"
      "?n * 2 + (?n + 1) + geo_layers g < 2 ^ 64" "(?n * 2 + (?n + 1) + geo_layers g) * 8 < 2 ^ 64"
    using backing(2) by (simp_all add: metadata_entries_def)
  have count: "ceil_div (geo_max_context g) (page_count_of p) ''page count'' = Ok ?n"
    using fits by (simp add: pages_for_def)
  have copy: "geo_layers g * 2 < 2 ^ 64" "geo_layers g * 2 * geo_row_width g < 2 ^ 64"
      "geo_layers g * 2 * geo_row_width g * (page_count_of p - 1) < 2 ^ 64"
      "geo_layers g * 2 * geo_row_width g * (page_count_of p - 1) * 4 < 2 ^ 64"
    using two tail small by linarith+
  have f32s: "(?n + 1) * bundle_size g p < 2 ^ 64" using backing(1) by linarith
  have total_bytes: "(?n + 1) * bundle_size g p * 4 + (?n * 2 + (?n + 1) + geo_layers g) * 8 < 2 ^ 64"
    using bytes by (simp add: metadata_entries_def)
  show ?thesis
    unfolding paged_allocation_of_def usize_add_def usize_mul_def count product and_then.simps
    using meta copy f32s backing(1) total_bytes
    by (simp add: exact_allocation_def Let_def metadata_entries_def)
qed

definition planned :: "paged_plan \<Rightarrow> bool" where
  "planned k \<longleftrightarrow> paged_plan_new (pk_geometry k) (pk_page_tokens k) = Ok k"

lemma plannedD:
  assumes "planned k"
  shows "valid_geometry (pk_geometry k)"
    and "pk_allocation k = exact_allocation (pk_geometry k) (pk_page_tokens k)"
    and "al_requested_f32 (pk_allocation k) * 4 < 2 ^ 64"
    and "geo_max_context (pk_geometry k) + (page_count_of (pk_page_tokens k) - 1) < 2 ^ 64"
proof -
  obtain a where v: "validate_geometry (pk_geometry k) = Ok ()"
    and a: "paged_allocation_of (pk_geometry k) (pk_page_tokens k) = Ok a" and k: "pk_allocation k = a"
    using assms by (cases k) (auto simp: planned_def paged_plan_new_def)
  show g: "valid_geometry (pk_geometry k)"
    using v by (simp add: validate_geometry_def valid_geometry_def split: if_splits)
  show "pk_allocation k = exact_allocation (pk_geometry k) (pk_page_tokens k)"
    and "al_requested_f32 (pk_allocation k) * 4 < 2 ^ 64"
    and "geo_max_context (pk_geometry k) + (page_count_of (pk_page_tokens k) - 1) < 2 ^ 64"
    unfolding k using allocation_exact [OF a g] by simp_all
qed

lemma plan_new_planned: "paged_plan_new g p = Ok k \<Longrightarrow> planned k \<and> pk_geometry k = g \<and> pk_page_tokens k = p"
  by (auto simp: planned_def paged_plan_new_def)

text \<open>The checked arithmetic of a plan refuses exactly the geometries that do not fit: a plan for
  a page size succeeds if and only if no dimension is zero, the context rounds up without overflow
  and the total of backing and metadata bytes fits 64 bits, and its numbers are then exact.\<close>

theorem paged_plan_new_iff:
  "paged_plan_new g p = Ok k \<longleftrightarrow>
     0 < geo_layers g \<and> 0 < geo_row_width g \<and> 0 < geo_max_context g \<and>
     geo_max_context g + page_count_of p \<le> 2 ^ 64 \<and>
     al_total_requested_bytes (exact_allocation g p) < 2 ^ 64 \<and>
     k = \<lparr>pk_geometry = g, pk_page_tokens = p, pk_allocation = exact_allocation g p\<rparr>"
    (is "?l \<longleftrightarrow> ?r")
proof
  assume ?l
  then have P: "planned k" and k: "pk_geometry k = g" "pk_page_tokens k = p"
    using plan_new_planned by blast+
  obtain a where "paged_allocation_of g p = Ok a" using \<open>?l\<close> by (auto simp: paged_plan_new_def)
  with allocation_exact [OF this] show ?r
    using plannedD [OF P] \<open>?l\<close> by (auto simp: k valid_geometry_def paged_plan_new_def)
next
  assume ?r
  then have "valid_geometry g" "geo_max_context g + (page_count_of p - 1) < 2 ^ 64"
    by (cases p; simp add: valid_geometry_def)+
  with \<open>?r\<close> allocation_succeeds [OF this] show ?l
    by (simp add: paged_plan_new_def validate_geometry_def)
qed

lemma cheaper_cases: "cheaper a b = a \<or> cheaper a b = b"
  by (simp add: cheaper_def)

lemma cheaper_le: "plan_cost (cheaper a b) \<le> plan_cost a" "plan_cost (cheaper a b) \<le> plan_cost b"
  by (auto simp: cheaper_def)

text \<open>\<open>select\<close> returns the plan of one of the three page sizes, and no page size costs less: it
  minimises the requested bytes, then the bytes of a tail copy, then the page size. It refuses only
  when one of the three plans is refused.\<close>

theorem paged_plan_select_least:
  assumes "paged_plan_select g = Ok k"
  shows "paged_plan_new g (pk_page_tokens k) = Ok k \<and>
    (\<exists>k'. paged_plan_new g p = Ok k' \<and> plan_cost k \<le> plan_cost k')"
proof -
  obtain a b c where abc: "paged_plan_new g B8 = Ok a" "paged_plan_new g B16 = Ok b"
      "paged_plan_new g B32 = Ok c" and k: "k = cheaper (cheaper a b) c"
    using assms by (auto simp: paged_plan_select_def)
  have "k = a \<or> k = b \<or> k = c" using cheaper_cases by (metis k)
  moreover have "plan_cost k \<le> plan_cost a" "plan_cost k \<le> plan_cost b" "plan_cost k \<le> plan_cost c"
    unfolding k using cheaper_le by (meson order_trans)+
  ultimately show ?thesis
    using abc plan_new_planned [OF abc(1)] plan_new_planned [OF abc(2)] plan_new_planned [OF abc(3)]
    by (cases p) auto
qed

definition sample_geometry :: paged_geometry where
  "sample_geometry = \<lparr>geo_layers = 2, geo_row_width = 4, geo_max_context = 20\<rparr>"

definition sample_paged_plan :: paged_plan where
  "sample_paged_plan = \<lparr>pk_geometry = sample_geometry, pk_page_tokens = B8,
     pk_allocation = exact_allocation sample_geometry B8\<rparr>"

lemma sample_plan_new:
  "paged_plan_new sample_geometry p =
     Ok \<lparr>pk_geometry = sample_geometry, pk_page_tokens = p, pk_allocation = exact_allocation sample_geometry p\<rparr>"
proof -
  have g: "valid_geometry sample_geometry" and v: "validate_geometry sample_geometry = Ok ()"
    by (simp_all add: valid_geometry_def validate_geometry_def sample_geometry_def)
  have "paged_allocation_of sample_geometry p = Ok (exact_allocation sample_geometry p)"
    by (rule allocation_succeeds [OF g]; cases p)
      (simp_all add: sample_geometry_def exact_allocation_def pages_for_def bundle_size_def
        metadata_entries_def Let_def)
  then show ?thesis by (simp add: paged_plan_new_def v)
qed

lemma sample_selected: "paged_plan_select sample_geometry = Ok sample_paged_plan"
  unfolding paged_plan_select_def sample_plan_new and_then.simps
  by (simp add: cheaper_def plan_cost_def sample_paged_plan_def sample_geometry_def exact_allocation_def
      pages_for_def bundle_size_def metadata_entries_def Let_def)

theorem paged_plan_select_least_witness:
  "\<exists>k'. paged_plan_new sample_geometry B32 = Ok k' \<and> plan_cost sample_paged_plan \<le> plan_cost k'"
  using paged_plan_select_least [OF sample_selected] by blast

lemma sample_planned [simp]: "planned sample_paged_plan"
  using plan_new_planned [OF sample_plan_new [of B8]] by (simp add: sample_paged_plan_def)

end
