(* ===== verification/Paged_Layout.thy ===== *)
theory Paged_Layout
  imports Paged_Plan
begin

text \<open>
  The storage of the pool as numbered rows: every row of a bundle has a slot of its own, the checked
  address computation of \<open>span\<close> is exactly that numbering, and writing or copying rows changes the
  addressed slots and no other.
\<close>

subsection \<open>Rows of a list\<close>

definition block :: "nat \<Rightarrow> 'a list \<Rightarrow> nat \<Rightarrow> 'a list" where
  "block w xs n = take w (drop (n * w) xs)"

lemma length_overwrite [simp]: "a + length ys \<le> length xs \<Longrightarrow> length (overwrite xs a ys) = length xs"
  by (simp add: overwrite_def)

lemma nth_overwrite:
  "a + length ys \<le> length xs \<Longrightarrow> i < length xs \<Longrightarrow>
     overwrite xs a ys ! i = (if a \<le> i \<and> i < a + length ys then ys ! (i - a) else xs ! i)"
  by (auto simp: overwrite_def nth_append)

lemma length_block: "(n + 1) * w \<le> length xs \<Longrightarrow> length (block w xs n) = w"
  by (simp add: block_def)

lemma nth_block: "(n + 1) * w \<le> length xs \<Longrightarrow> i < w \<Longrightarrow> block w xs n ! i = xs ! (n * w + i)"
  by (simp add: block_def)

lemma block_position:
  fixes i w m n :: nat
  assumes "i < w"
  shows "m * w \<le> n * w + i \<longleftrightarrow> m \<le> n" and "n * w + i < m * w \<longleftrightarrow> n < m"
proof -
  have "(n * w + i) div w = n" and "0 < w" using assms by simp_all
  then show "m * w \<le> n * w + i \<longleftrightarrow> m \<le> n"
    using less_eq_div_iff_mult_less_eq [of w m "n * w + i"] by simp
  then show "n * w + i < m * w \<longleftrightarrow> n < m" by linarith
qed

lemma block_overwrite:
  assumes ys: "length ys = f * w" and fit: "(m + f) * w \<le> length xs" and n: "(n + 1) * w \<le> length xs"
  shows "block w (overwrite xs (m * w) ys) n =
    (if m \<le> n \<and> n < m + f then block w ys (n - m) else block w xs n)"
proof -
  have len: "m * w + length ys \<le> length xs" using fit ys by (simp add: algebra_simps)
  note L = length_overwrite [OF len]
  have inner: "(n - m + 1) * w \<le> length ys" if "m \<le> n" "n < m + f"
    unfolding ys using that by (intro mult_le_mono1) simp
  show ?thesis
  proof (rule nth_equalityI)
    show "length (block w (overwrite xs (m * w) ys) n) =
        length (if m \<le> n \<and> n < m + f then block w ys (n - m) else block w xs n)"
      using n L inner by (simp add: length_block)
    fix i
    assume "i < length (block w (overwrite xs (m * w) ys) n)"
    then have i: "i < w" using n L by (simp add: length_block)
    have "n * w + i < length xs" using n i by (simp add: algebra_simps)
    moreover have "n * w + i < m * w + length ys \<longleftrightarrow> n < m + f"
      using block_position(2) [OF i, of n "m + f"] ys by (simp add: algebra_simps)
    moreover have "n * w + i - m * w = (n - m) * w + i" if "m \<le> n"
      using that by (simp add: diff_mult_distrib le_imp_diff_is_add)
    ultimately show "block w (overwrite xs (m * w) ys) n ! i =
        (if m \<le> n \<and> n < m + f then block w ys (n - m) else block w xs n) ! i"
      using n L i inner block_position(1) [OF i, of m n]
      by (auto simp: nth_block nth_overwrite len)
  qed
qed

lemma block_slice:
  assumes "(n + f) * w \<le> length xs" and "j < f"
  shows "block w (take (f * w) (drop (n * w) xs)) j = block w xs (n + j)"
proof -
  have "(j + 1) * w \<le> f * w" using assms(2) by (intro mult_le_mono1) simp
  then have "w \<le> f * w - j * w" by simp
  then show ?thesis by (simp add: block_def min_def drop_take add_mult_distrib add.commute)
qed

subsection \<open>Slots\<close>

definition slot :: "paged_plan \<Rightarrow> usize \<Rightarrow> usize \<Rightarrow> bool \<Rightarrow> usize \<Rightarrow> nat" where
  "slot k b layer v t =
     ((b * geo_layers (pk_geometry k) + layer) * 2 + (if v then 1 else 0)) * page_count_of (pk_page_tokens k) + t"

abbreviation layers_of :: "paged_plan \<Rightarrow> nat" where
  "layers_of k \<equiv> geo_layers (pk_geometry k)"

abbreviation width_of :: "paged_plan \<Rightarrow> nat" where
  "width_of k \<equiv> geo_row_width (pk_geometry k)"

abbreviation rows_of :: "paged_plan \<Rightarrow> nat" where
  "rows_of k \<equiv> page_count_of (pk_page_tokens k)"

abbreviation bundles_of :: "paged_plan \<Rightarrow> nat" where
  "bundles_of k \<equiv> al_bundle_count (pk_allocation k)"

lemma digit_unique:
  fixes a b n x y :: nat
  assumes "a * n + x = b * n + y" and "x < n" and "y < n"
  shows "a = b \<and> x = y"
proof -
  have "a = (a * n + x) div n" "b = (b * n + y) div n" using assms(2,3) by simp_all
  then have "a = b" using assms(1) by simp
  then show ?thesis using assms(1) by simp
qed

lemma slot_injective:
  assumes "slot k b l v t = slot k b' l' v' t'"
    and "l < layers_of k" "l' < layers_of k" "t < rows_of k" "t' < rows_of k"
  shows "b = b' \<and> l = l' \<and> v = v' \<and> t = t'"
proof -
  note outer = digit_unique [OF assms(1) [unfolded slot_def] assms(4,5)]
  note middle = digit_unique [OF conjunct1 [OF outer]]
  have parity: "(if v then 1 else 0) < (2 :: nat)" "(if v' then 1 else 0) < (2 :: nat)" by simp_all
  note inner = digit_unique [OF conjunct1 [OF middle [OF parity]] assms(2,3)]
  have "v = v'" using conjunct2 [OF middle [OF parity]] by (simp split: if_splits)
  then show ?thesis using inner conjunct2 [OF outer] by blast
qed

lemma slot_bound:
  assumes "b < n" and "l < layers_of k" and "t + rows \<le> rows_of k"
  shows "slot k b l v t + rows \<le> n * layers_of k * 2 * rows_of k"
proof -
  have "b * layers_of k + l + 1 \<le> (b + 1) * layers_of k" using assms(2) by simp
  also have "\<dots> \<le> n * layers_of k" using assms(1) by (intro mult_le_mono1) simp
  finally have "(b * layers_of k + l) * 2 + (if v then 1 else 0) + 1 \<le> n * layers_of k * 2" by simp
  then have "((b * layers_of k + l) * 2 + (if v then 1 else 0) + 1) * rows_of k
      \<le> n * layers_of k * 2 * rows_of k" by (rule mult_le_mono1)
  then show ?thesis using assms(3) by (simp add: slot_def)
qed

text \<open>The storage of a pool that fits its plan.\<close>

definition backed :: "paged_pool \<Rightarrow> bool" where
  "backed p \<longleftrightarrow> planned (pl_plan (pool_ledger p)) \<and>
     length (pool_storage p) = al_requested_f32 (pk_allocation (pl_plan (pool_ledger p)))"

lemma backed_length:
  assumes "backed p" and "k = pl_plan (pool_ledger p)"
  shows "length (pool_storage p) = bundles_of k * layers_of k * 2 * rows_of k * width_of k"
  using assms plannedD(2) [of k]
  by (simp add: backed_def exact_allocation_def Let_def bundle_size_def algebra_simps)

lemma backed_slot:
  assumes "backed p" and "k = pl_plan (pool_ledger p)"
    and "b < bundles_of k" and "l < layers_of k" and "t + rows \<le> rows_of k"
  shows "(slot k b l v t + rows) * width_of k \<le> length (pool_storage p)"
  unfolding backed_length [OF assms(1,2)] using slot_bound [OF assms(3-5)] by (rule mult_le_mono1)

lemma pool_span_Ok:
  assumes p: "backed p" and k: "k = pl_plan (pool_ledger p)"
    and b: "b < bundles_of k" and l: "l < layers_of k" and t: "t < rows_of k" and r: "t + rows \<le> rows_of k"
  shows "pool_span p b l t v rows =
    Ok (slot k b l v t * width_of k, (slot k b l v t + rows) * width_of k)"
proof -
  let ?L = "layers_of k" and ?W = "width_of k" and ?P = "rows_of k" and ?o = "if v then rows_of k * width_of k else 0"
  note P = plannedD [of k]
  have planned: "planned k" using p by (simp add: backed_def k)
  have len: "length (pool_storage p) < 2 ^ 64"
    using P(3) [OF planned] p by (simp add: backed_def k)
  have total: "(slot k b l v t + rows) * ?W \<le> length (pool_storage p)"
    by (rule backed_slot [OF p k b l r])
  have addr: "b * bundle_size (pk_geometry k) (pk_page_tokens k) + l * (?P * ?W * 2) + ?o + t * ?W =
      slot k b l v t * ?W"
    by (simp add: slot_def bundle_size_def algebra_simps)
  have fit_one: "bundle_size (pk_geometry k) (pk_page_tokens k) \<le> length (pool_storage p)"
    using b unfolding backed_length [OF p k]
    by (cases "bundles_of k") (simp_all add: bundle_size_def algebra_simps)
  have elements: "bundle_elements k = Ok (bundle_size (pk_geometry k) (pk_page_tokens k))"
    using bundle_product_Some_iff [OF P(1) [OF planned]] fit_one len by (simp add: bundle_elements_def)
  have start: "slot k b l v t * ?W \<le> length (pool_storage p)" "rows * ?W \<le> length (pool_storage p)"
    using total by (simp_all add: add_mult_distrib)
  have "?P * ?W \<le> bundle_size (pk_geometry k) (pk_page_tokens k)"
    "?P * ?W * 2 \<le> bundle_size (pk_geometry k) (pk_page_tokens k)"
    using l by (simp_all add: bundle_size_def algebra_simps)
  then have bounds: "?P * ?W < 2 ^ 64" "?P * ?W * 2 < 2 ^ 64" using fit_one len by linarith+
  have sums: "b * bundle_size (pk_geometry k) (pk_page_tokens k) < 2 ^ 64" "l * (?P * ?W * 2) < 2 ^ 64"
    "b * bundle_size (pk_geometry k) (pk_page_tokens k) + l * (?P * ?W * 2) < 2 ^ 64"
    "b * bundle_size (pk_geometry k) (pk_page_tokens k) + l * (?P * ?W * 2) + ?o < 2 ^ 64"
    "t * ?W < 2 ^ 64" "slot k b l v t * ?W < 2 ^ 64" "rows * ?W < 2 ^ 64"
    using addr start len by linarith+
  have pos: "ledger_page_tokens (pool_ledger p) = ?P" by (simp add: ledger_page_tokens_def k)
  have guard: "\<not> (bundles_of k \<le> b \<or> ?L \<le> l \<or> ?P \<le> t \<or> ?P - t < rows)" using b l t r by auto
  show ?thesis
    using guard bounds sums total len addr
    by (cases v) (simp_all add: pool_span_def pos Let_def elements usize_mul_def usize_add_def add_mult_distrib
        flip: k)
qed

end
