(* ===== verification/Paged_Ledger.thy ===== *)
theory Paged_Ledger
  imports Paged_Layout "HOL-Library.Multiset"
begin

text \<open>
  The ledger of the paged cache: its invariant between appends (\<open>ledger_ok\<close>), the relation between
  the ledger an append started from and the staged one (\<open>transaction\<close>), and what beginning,
  writing, publishing and rolling back do to them.
\<close>

subsection \<open>Pages\<close>

abbreviation pages :: "paged_plan \<Rightarrow> nat \<Rightarrow> nat" where
  "pages k n \<equiv> pages_for (rows_of k) n"

lemma pages_for_div:
  assumes "0 < p"
  shows "pages_for p n = n div p + (if n mod p = 0 then 0 else 1)"
proof -
  have n: "n = p * (n div p) + n mod p" and m: "n mod p < p" using assms by simp_all
  show ?thesis
  proof (cases "n mod p = 0")
    case True
    have "(n + (p - 1)) div p = n div p"
      by (rule div_nat_eqI) (use n True assms in \<open>simp_all add: algebra_simps\<close>)
    then show ?thesis using True by (simp add: pages_for_def)
  next
    case False
    have "(n + (p - 1)) div p = Suc (n div p)"
    proof (rule div_nat_eqI)
      show "p * Suc (n div p) \<le> n + (p - 1)"
        using n False assms unfolding mult_Suc_right by linarith
      show "n + (p - 1) < p * Suc (Suc (n div p))"
        using n m unfolding mult_Suc_right by linarith
    qed
    then show ?thesis using False by (simp add: pages_for_def)
  qed
qed

lemma pages_for_mono: "m \<le> n \<Longrightarrow> pages_for p m \<le> pages_for p n"
  unfolding pages_for_def by (intro div_le_mono) simp

lemma page_below:
  assumes "0 < p" and "t < n"
  shows "t div p < pages_for p n"
proof -
  have "t div p \<le> n div p" using assms(2) by (intro div_le_mono) simp
  moreover have "t div p < n div p" if "n mod p = 0"
  proof -
    have "n = n div p * p" using that by auto
    then show ?thesis using assms by (metis div_less_iff_less_mult)
  qed
  ultimately show ?thesis using assms(1) by (auto simp: pages_for_div)
qed

subsection \<open>Between appends\<close>

text \<open>How many rows of each page are filled when \<open>n\<close> tokens are.\<close>

definition fills_for :: "paged_plan \<Rightarrow> nat \<Rightarrow> nat \<Rightarrow> nat list" where
  "fills_for k c n = map (\<lambda>i. min (rows_of k) (n - i * rows_of k)) [0..<c]"

definition ledger_ok :: "paged_ledger \<Rightarrow> bool" where
  "ledger_ok l \<longleftrightarrow>
     planned (pl_plan l) \<and>
     pl_committed_tokens l \<le> geo_max_context (pk_geometry (pl_plan l)) \<and>
     length (pl_table l) = pages (pl_plan l) (pl_committed_tokens l) \<and>
     pl_fills l = fills_for (pl_plan l) (length (pl_table l)) (pl_committed_tokens l) \<and>
     pl_staged_rows l = replicate (layers_of (pl_plan l)) 0 \<and>
     distinct (pl_table l @ pl_free l) \<and> set (pl_table l @ pl_free l) = {0..<bundles_of (pl_plan l)}"

subsection \<open>During an append\<close>

definition tail_table :: "usize list \<Rightarrow> append_reservation \<Rightarrow> usize list" where
  "tail_table table r = (case ar_replaced_tail r of
     None \<Rightarrow> table | Some t \<Rightarrow> table[tr_page t := tr_replacement_bundle t])"

definition tail_spare :: "append_reservation \<Rightarrow> usize list" where
  "tail_spare r = (case ar_replaced_tail r of None \<Rightarrow> [] | Some t \<Rightarrow> [tr_replacement_bundle t])"

definition reserved_tail :: "paged_ledger \<Rightarrow> append_reservation \<Rightarrow> bool" where
  "reserved_tail l0 r \<longleftrightarrow>
     (let k = pl_plan l0; n = pl_committed_tokens l0
      in if n mod rows_of k = 0 then ar_replaced_tail r = None
         else \<exists>b. ar_replaced_tail r = Some \<lparr>tr_page = n div rows_of k,
           tr_original_bundle = pl_table l0 ! (n div rows_of k), tr_fill = n mod rows_of k,
           tr_replacement_bundle = b\<rparr>)"

definition transaction :: "paged_ledger \<Rightarrow> append_reservation \<Rightarrow> paged_ledger \<Rightarrow> bool" where
  "transaction l0 r l \<longleftrightarrow>
     ledger_ok l0 \<and> pl_plan l = pl_plan l0 \<and> pl_committed_tokens l = pl_committed_tokens l0 \<and>
     ar_original_tokens r = pl_committed_tokens l0 \<and> 0 < ar_append_tokens r \<and>
     ar_target_tokens r = pl_committed_tokens l0 + ar_append_tokens r \<and>
     ar_target_tokens r \<le> geo_max_context (pk_geometry (pl_plan l0)) \<and>
     ar_original_page_count r = length (pl_table l0) \<and> reserved_tail l0 r \<and>
     (\<exists>news. pl_table l = tail_table (pl_table l0) r @ news \<and>
        pl_free l0 = pl_free l @ rev news @ tail_spare r \<and>
        length (pl_table l) = pages (pl_plan l0) (ar_target_tokens r)) \<and>
     length (pl_staged_rows l) = layers_of (pl_plan l0) \<and>
     (\<forall>w \<in> set (pl_staged_rows l). w \<le> ar_append_tokens r) \<and>
     pl_fills l = fills_for (pl_plan l0) (length (pl_table l))
       (pl_committed_tokens l0 + Max (set (pl_staged_rows l)))"

lemma ledger_okD:
  assumes "ledger_ok l"
  shows "planned (pl_plan l)" and "pl_committed_tokens l \<le> geo_max_context (pk_geometry (pl_plan l))"
    and "length (pl_table l) = pages (pl_plan l) (pl_committed_tokens l)"
    and "pl_fills l = fills_for (pl_plan l) (length (pl_table l)) (pl_committed_tokens l)"
    and "pl_staged_rows l = replicate (layers_of (pl_plan l)) 0"
    and "distinct (pl_table l @ pl_free l)" and "set (pl_table l @ pl_free l) = {0..<bundles_of (pl_plan l)}"
  using assms by (simp_all add: ledger_ok_def)

lemma length_fills [simp]: "length (fills_for k c n) = c"
  by (simp add: fills_for_def)

lemma nth_fills: "i < c \<Longrightarrow> fills_for k c n ! i = min (rows_of k) (n - i * rows_of k)"
  by (simp add: fills_for_def)

lemma planned_bundles: "planned k \<Longrightarrow> bundles_of k = pages k (geo_max_context (pk_geometry k)) + 1"
  using plannedD(2) [of k] by (simp add: exact_allocation_def Let_def)

lemma free_count:
  assumes "ledger_ok l"
  shows "length (pl_table l) + length (pl_free l) = pages (pl_plan l) (geo_max_context (pk_geometry (pl_plan l))) + 1"
  using distinct_card [OF ledger_okD(6) [OF assms]] ledger_okD(7) [OF assms]
    planned_bundles [OF ledger_okD(1) [OF assms]] by simp

lemma clear_staged_idle: "ledger_ok l \<Longrightarrow> clear_staged l = l"
  using ledger_okD(5) [of l] by (cases l) (simp add: clear_staged_def)

subsection \<open>Beginning\<close>

lemma take_free_Ok: "pl_free l = fs @ [b] \<Longrightarrow> take_free l = (Ok b, l\<lparr>pl_free := fs\<rparr>)"
  by (simp add: take_free_def)

lemma add_pages_Ok:
  "pl_free l = fs @ rev news \<Longrightarrow> add_pages (length news) l =
     (Ok (), l\<lparr>pl_table := pl_table l @ news, pl_fills := pl_fills l @ replicate (length news) 0, pl_free := fs\<rparr>)"
proof (induction news arbitrary: l)
  case Nil
  then show ?case by (cases l) simp
next
  case (Cons b news)
  then have "take_free l = (Ok b, l\<lparr>pl_free := fs @ rev news\<rparr>)" by (intro take_free_Ok) simp
  then show ?case
    using Cons.IH [of "l\<lparr>pl_table := pl_table l @ [b], pl_fills := pl_fills l @ [0], pl_free := fs @ rev news\<rparr>"]
    by (cases l) simp
qed

lemma split_stack: "m \<le> length xs \<Longrightarrow> \<exists>fs news. xs = fs @ rev news \<and> length news = m"
  by (intro exI [of _ "take (length xs - m) xs"] exI [of _ "rev (drop (length xs - m) xs)"]) simp

lemma fills_grow:
  assumes "c = pages k n" and "c \<le> d"
  shows "fills_for k c n @ replicate (d - c) 0 = fills_for k d n"
proof (rule nth_equalityI)
  fix i
  assume "i < length (fills_for k c n @ replicate (d - c) 0)"
  then have i: "i < d" using assms(2) by simp
  show "(fills_for k c n @ replicate (d - c) 0) ! i = fills_for k d n ! i"
  proof (cases "i < c")
    case False
    have "n \<le> i * rows_of k"
    proof (rule ccontr)
      assume "\<not> n \<le> i * rows_of k"
      then have "i * rows_of k div rows_of k < pages k n" by (intro page_below) simp_all
      then show False using False assms(1) by simp
    qed
    then show ?thesis using False i by (simp add: nth_append nth_fills)
  qed (use i in \<open>simp add: nth_append nth_fills\<close>)
qed (use assms in simp)

lemma ledger_begin_Ok:
  assumes ok: "ledger_ok l" and a: "0 < a"
    and room: "pl_committed_tokens l + a \<le> geo_max_context (pk_geometry (pl_plan l))"
  obtains r l' where "ledger_begin_append l a = (Ok r, l')" and "transaction l r l'"
    and "ar_append_tokens r = a" and "pl_staged_rows l' = replicate (layers_of (pl_plan l)) 0"
proof -
  let ?k = "pl_plan l" and ?n = "pl_committed_tokens l"
  let ?P = "rows_of ?k" and ?m = "pages ?k (?n + a) - pages ?k ?n"
  note I = ledger_okD [OF ok]
  note P = plannedD [of ?k]
  have mono: "pages ?k ?n \<le> pages ?k (?n + a)"
    "pages ?k (?n + a) \<le> pages ?k (geo_max_context (pk_geometry ?k))"
    using room by (auto intro: pages_for_mono)
  have small: "geo_max_context (pk_geometry ?k) < 2 ^ 64" "?n + a + (?P - 1) < 2 ^ 64"
    using P(4) [OF I(1)] room by linarith+
  let ?spare = "if ?n mod ?P \<noteq> 0 then 1 else 0 :: nat"
  have lens: "length (pl_table l) = pages ?k ?n" "length (pl_table l) + length (pl_free l) =
      pages ?k (geo_max_context (pk_geometry ?k)) + 1"
    using I(3) free_count [OF ok] by simp_all
  then have enough: "?m + ?spare \<le> length (pl_free l)" using mono by (cases "?n mod ?P = 0") auto
  have "1 \<le> bundle_size (pk_geometry ?k) (pk_page_tokens ?k)"
    using P(1) [OF I(1)] by (simp add: bundle_size_def valid_geometry_def)
  then have "bundles_of ?k * 1 \<le> bundles_of ?k * bundle_size (pk_geometry ?k) (pk_page_tokens ?k)"
    by (rule mult_le_mono2)
  then have "bundles_of ?k \<le> al_requested_f32 (pk_allocation ?k)"
    using P(2) [OF I(1)] by (simp add: exact_allocation_def Let_def)
  then have "?m + ?spare < 2 ^ 64"
    using enough lens P(3) [OF I(1)] planned_bundles [OF I(1)] by linarith
  then have checks: "usize_add ?m ?spare = Some (?m + ?spare)" by (simp add: usize_add_def)
  have target: "Option.bind (usize_add ?n a)
      (\<lambda>v. if v \<le> geo_max_context (pk_geometry ?k) then Some v else None) = Some (?n + a)"
    using room small by (simp add: usize_add_def)
  have count: "ceil_div (?n + a) ?P s = Ok (pages ?k (?n + a))" for s
    using small by (simp add: pages_for_def)
  have sub: "usize_sub (pages ?k (?n + a)) (length (pl_table l)) = Some ?m"
    using mono lens by (simp add: usize_sub_def)
  note steps = ledger_begin_append_def Let_def ledger_page_tokens_def target count sub
    clear_staged_idle [OF ok]
  define r where "r spare = \<lparr>ar_append_tokens = a, ar_original_tokens = ?n, ar_target_tokens = ?n + a,
      ar_original_page_count = length (pl_table l), ar_replaced_tail = spare\<rparr>" for spare
  have fills: "pl_fills l @ replicate ?m 0 = fills_for ?k (pages ?k (?n + a)) ?n"
    using fills_grow [OF refl mono(1)] I(4) lens(1) by simp
  have layers: "Max (set (replicate (layers_of ?k) 0)) = (0 :: nat)"
    using P(1) [OF I(1)] by (simp add: valid_geometry_def)
  show thesis
  proof (cases "?n mod ?P = 0")
    case True
    then obtain fs news where free: "pl_free l = fs @ rev news" "length news = ?m"
      using split_stack [of ?m "pl_free l"] enough by auto
    let ?l = "l\<lparr>pl_table := pl_table l @ news, pl_fills := pl_fills l @ replicate ?m 0, pl_free := fs\<rparr>"
    have "ledger_begin_append l a = (Ok (r None), ?l)"
      using a True enough checks add_pages_Ok [OF free(1)] free(2)
      by (simp add: steps stage_tail_def r_def not_less)
    moreover have "transaction l (r None) ?l"
      unfolding transaction_def
      using ok a room True free lens mono fills layers I(5)
      by (simp add: r_def reserved_tail_def Let_def tail_table_def tail_spare_def)
    ultimately show thesis by (rule that) (simp_all add: r_def I(5))
  next
    case False
    then have tail: "pages ?k ?n = Suc (?n div ?P)" by (simp add: pages_for_div)
    obtain fs' b where "pl_free l = fs' @ [b]"
      using enough False by (cases "pl_free l" rule: rev_cases) auto
    moreover from this obtain fs news where "fs' = fs @ rev news" "length news = ?m"
      using split_stack [of ?m fs'] enough False by auto
    ultimately have free: "pl_free l = (fs @ rev news) @ [b]" "length news = ?m" by simp_all
    let ?t = "\<lparr>tr_page = ?n div ?P, tr_original_bundle = pl_table l ! (?n div ?P),
        tr_fill = ?n mod ?P, tr_replacement_bundle = b\<rparr>"
    let ?l1 = "l\<lparr>pl_free := fs @ rev news, pl_table := (pl_table l)[?n div ?P := b]\<rparr>"
    let ?l = "?l1\<lparr>pl_table := pl_table ?l1 @ news, pl_fills := pl_fills l @ replicate ?m 0, pl_free := fs\<rparr>"
    have "?n mod ?P < ?P" by simp
    then have "pl_fills l ! (?n div ?P) = ?n mod ?P"
      using I(4) lens(1) tail by (simp add: nth_fills minus_div_mult_eq_mod min_absorb2 less_imp_le)
    then have "stage_tail True l = (Ok (Some ?t), ?l1)"
      using lens(1) tail I(4) take_free_Ok [OF free(1)]
      by (simp add: stage_tail_def replace_tail_without_copy_def usize_sub_def vec_get_def)
    then have "ledger_begin_append l a = (Ok (r (Some ?t)), ?l)"
      using a False enough checks add_pages_Ok [of ?l1 fs news] free(2)
      by (simp add: steps r_def not_less)
    moreover have "transaction l (r (Some ?t)) ?l"
      unfolding transaction_def
      using ok a room False free lens mono fills layers I(5)
      by (simp add: r_def reserved_tail_def Let_def tail_table_def tail_spare_def)
    ultimately show thesis by (rule that) (simp_all add: r_def I(5))
  qed
qed

lemma ledger_begin_refused:
  assumes ok: "ledger_ok l" and bad: "a = 0 \<or> geo_max_context (pk_geometry (pl_plan l)) < pl_committed_tokens l + a"
  shows "ledger_begin_append l a =
    (Err (if a = 0 then PagedEmptyAppend
          else PagedContextOverflow (pl_committed_tokens l) a (geo_max_context (pk_geometry (pl_plan l)))), l)"
proof (cases "a = 0")
  case True
  then show ?thesis by (simp add: ledger_begin_append_def)
next
  case False
  then have "Option.bind (usize_add (pl_committed_tokens l) a)
      (\<lambda>v. if v \<le> geo_max_context (pk_geometry (pl_plan l)) then Some v else None) = None"
    using bad by (simp add: usize_add_def)
  then show ?thesis using False by (simp add: ledger_begin_append_def Let_def)
qed

subsection \<open>Rolling back and publishing\<close>

lemma drop_pages_Ok:
  "pl_table l = base @ news \<Longrightarrow> length (pl_fills l) = length (pl_table l) \<Longrightarrow>
     drop_pages (length base) l = l\<lparr>pl_table := base, pl_free := pl_free l @ rev news,
       pl_fills := take (length base) (pl_fills l)\<rparr>"
proof (induction news arbitrary: l rule: rev_induct)
  case Nil
  then show ?case by (cases l) (simp add: drop_pages.simps)
next
  case (snoc b news)
  let ?l = "l\<lparr>pl_table := base @ news, pl_free := pl_free l @ [b], pl_fills := butlast (pl_fills l)\<rparr>"
  have "drop_pages (length base) l = drop_pages (length base) ?l"
    using snoc.prems by (subst drop_pages.simps) (simp add: butlast_append)
  also have "\<dots> = ?l\<lparr>pl_table := base, pl_free := pl_free ?l @ rev news,
      pl_fills := take (length base) (pl_fills ?l)\<rparr>"
    using snoc.prems by (intro snoc.IH) simp_all
  finally show ?case
    using snoc.prems by (simp add: take_butlast)
qed

lemma transactionD:
  assumes "transaction l0 r l"
  shows "ledger_ok l0" and "pl_plan l = pl_plan l0" and "pl_committed_tokens l = pl_committed_tokens l0"
    and "ar_original_tokens r = pl_committed_tokens l0" and "0 < ar_append_tokens r"
    and "ar_target_tokens r = pl_committed_tokens l0 + ar_append_tokens r"
    and "ar_target_tokens r \<le> geo_max_context (pk_geometry (pl_plan l0))"
    and "ar_original_page_count r = length (pl_table l0)" and "reserved_tail l0 r"
    and "length (pl_table l) = pages (pl_plan l0) (ar_target_tokens r)"
    and "length (pl_staged_rows l) = layers_of (pl_plan l0)"
    and "w \<in> set (pl_staged_rows l) \<Longrightarrow> w \<le> ar_append_tokens r"
    and "pl_fills l = fills_for (pl_plan l0) (length (pl_table l))
       (pl_committed_tokens l0 + Max (set (pl_staged_rows l)))"
  using assms by (auto simp: transaction_def)

text \<open>The tail page of the ledger an append started from, when it is partly filled.\<close>

lemma reserved_tail_cases:
  assumes "transaction l0 r l"
  obtains (whole) "pl_committed_tokens l0 mod rows_of (pl_plan l0) = 0" "ar_replaced_tail r = None"
      "length (pl_table l0) = pl_committed_tokens l0 div rows_of (pl_plan l0)"
  | (partial) b where "pl_committed_tokens l0 mod rows_of (pl_plan l0) \<noteq> 0"
      "ar_replaced_tail r = Some \<lparr>tr_page = pl_committed_tokens l0 div rows_of (pl_plan l0),
         tr_original_bundle = pl_table l0 ! (pl_committed_tokens l0 div rows_of (pl_plan l0)),
         tr_fill = pl_committed_tokens l0 mod rows_of (pl_plan l0), tr_replacement_bundle = b\<rparr>"
      "length (pl_table l0) = Suc (pl_committed_tokens l0 div rows_of (pl_plan l0))"
  using transactionD(9) [OF assms] ledger_okD(3) [OF transactionD(1) [OF assms]]
  by (auto simp: reserved_tail_def Let_def pages_for_div split: if_splits)

lemma length_tail_table [simp]: "length (tail_table xs r) = length xs"
  by (simp add: tail_table_def split: option.split)

text \<open>Rolling back restores the ledger exactly, the order of the free list included.\<close>

lemma rollback_restores:
  assumes T: "transaction l0 r l"
  shows "ledger_rollback l r = l0"
proof -
  let ?k = "pl_plan l0" and ?n = "pl_committed_tokens l0"
  note I = ledger_okD [OF transactionD(1) [OF T]]
  obtain news where table: "pl_table l = tail_table (pl_table l0) r @ news"
    and free: "pl_free l0 = pl_free l @ rev news @ tail_spare r"
    using T by (auto simp: transaction_def)
  let ?m = "?n + Max (set (pl_staged_rows l))"
  have fills: "pl_fills l = fills_for ?k (length (pl_table l)) ?m" by (rule transactionD(13) [OF T])
  have D: "drop_pages (ar_original_page_count r) l = l\<lparr>pl_table := tail_table (pl_table l0) r,
      pl_free := pl_free l @ rev news, pl_fills := take (length (pl_table l0)) (pl_fills l)\<rparr>"
    using drop_pages_Ok [OF table] fills transactionD(8) [OF T] by simp
  have staged: "replicate (length (pl_staged_rows l)) 0 = pl_staged_rows l0"
    using transactionD(11) [OF T] I(5) by simp
  have low: "take (length (pl_table l0)) (pl_fills l) ! i = pl_fills l0 ! i"
    if "i < length (pl_table l0)" "(i + 1) * rows_of ?k \<le> ?n" for i
  proof -
    have "rows_of ?k \<le> ?n - i * rows_of ?k" using that(2) by simp
    then show ?thesis using that(1) table by (simp add: fills I(4) nth_fills min_def)
  qed
  have whole: "(i + 1) * rows_of ?k \<le> ?n" if "i < ?n div rows_of ?k" for i
  proof -
    have "(i + 1) * rows_of ?k \<le> ?n div rows_of ?k * rows_of ?k" using that by (intro mult_le_mono1) simp
    then show ?thesis using div_times_less_eq_dividend le_trans by blast
  qed
  from T show ?thesis
  proof (cases rule: reserved_tail_cases)
    case whole
    have "take (length (pl_table l0)) (pl_fills l) = pl_fills l0"
      by (rule nth_equalityI) (use low whole(3) \<open>\<And>i. i < ?n div rows_of ?k \<Longrightarrow> _\<close> table in \<open>simp_all add: fills I(4)\<close>)
    then show ?thesis
      using D free staged transactionD(2,3) [OF T] whole(2)
      by (simp add: ledger_rollback_def clear_staged_def tail_table_def tail_spare_def)
  next
    case (partial b)
    let ?i = "?n div rows_of ?k"
    have "(take (length (pl_table l0)) (pl_fills l))[?i := ?n mod rows_of ?k] = pl_fills l0"
    proof (rule nth_equalityI)
      fix j
      assume "j < length ((take (length (pl_table l0)) (pl_fills l))[?i := ?n mod rows_of ?k])"
      then have j: "j < length (pl_table l0)" by simp
      show "(take (length (pl_table l0)) (pl_fills l))[?i := ?n mod rows_of ?k] ! j = pl_fills l0 ! j"
      proof (cases "j = ?i")
        case True
        have "?n mod rows_of ?k < rows_of ?k" by simp
        then show ?thesis
          using True j table
          by (simp add: fills I(4) nth_fills minus_div_mult_eq_mod min_absorb2 less_imp_le)
      next
        case False
        then show ?thesis using j partial(3) low [OF j whole] by simp
      qed
    qed (use table fills I(4) in simp)
    then show ?thesis
      using D free staged transactionD(2,3) [OF T] partial
      by (simp add: ledger_rollback_def clear_staged_def tail_table_def tail_spare_def)
  qed
qed

subsection \<open>Bundles in use\<close>

definition tail_original :: "append_reservation \<Rightarrow> usize list" where
  "tail_original r = (case ar_replaced_tail r of None \<Rightarrow> [] | Some t \<Rightarrow> [tr_original_bundle t])"

lemma transaction_bundles:
  assumes T: "transaction l0 r l"
  shows "distinct (pl_table l @ pl_free l @ tail_original r)"
    and "set (pl_table l @ pl_free l @ tail_original r) = {0..<bundles_of (pl_plan l0)}"
proof -
  note I = ledger_okD [OF transactionD(1) [OF T]]
  obtain news where table: "pl_table l = tail_table (pl_table l0) r @ news"
    and free: "pl_free l0 = pl_free l @ rev news @ tail_spare r"
    using T by (auto simp: transaction_def)
  have "mset (tail_table (pl_table l0) r @ tail_original r) = mset (pl_table l0 @ tail_spare r)"
    using T
  proof (cases rule: reserved_tail_cases)
    case whole
    then show ?thesis by (simp add: tail_table_def tail_original_def tail_spare_def)
  next
    case (partial b)
    obtain xs last_bundle where xs: "pl_table l0 = xs @ [last_bundle]"
      using partial(3) by (cases "pl_table l0" rule: rev_cases) auto
    then show ?thesis using partial
      by (simp add: tail_table_def tail_original_def tail_spare_def nth_append list_update_append
          add_mset_commute)
  qed
  then have "mset (pl_table l @ pl_free l @ tail_original r) = mset (pl_table l0 @ pl_free l0)"
    by (simp add: table free add.commute add.left_commute)
  then show "distinct (pl_table l @ pl_free l @ tail_original r)"
    and "set (pl_table l @ pl_free l @ tail_original r) = {0..<bundles_of (pl_plan l0)}"
    using I(6,7) mset_eq_imp_distinct_iff mset_eq_setD by metis+
qed

lemma publish_ok:
  assumes T: "transaction l0 r l" and all: "\<forall>w \<in> set (pl_staged_rows l). w = ar_append_tokens r"
  shows "ledger_ok (publish_commit l r)"
proof -
  note D = transactionD [OF T]
  note I = ledger_okD [OF D(1)]
  have "0 < layers_of (pl_plan l0)" using plannedD(1) [OF I(1)] by (simp add: valid_geometry_def)
  then have "pl_staged_rows l \<noteq> []" using D(11) by auto
  then have "set (pl_staged_rows l) = {ar_append_tokens r}" using all by (cases "pl_staged_rows l") auto
  then have "Max (set (pl_staged_rows l)) = ar_append_tokens r" by simp
  then show ?thesis
    using D(2,6,7,10,11,13) I(1) transaction_bundles [OF T]
    by (simp add: ledger_ok_def publish_commit_def clear_staged_def tail_original_def Un_assoc
        split: option.splits)
qed

subsection \<open>Writing a row\<close>

lemma Max_bump:
  fixes xs :: "nat list"
  assumes "i < length xs"
  shows "Max (set (xs[i := Suc (xs ! i)])) = max (Max (set xs)) (Suc (xs ! i))"
proof (rule Max_eqI)
  show "finite (set (xs[i := Suc (xs ! i)]))" by simp
  fix y
  assume "y \<in> set (xs[i := Suc (xs ! i)])"
  then have "y = Suc (xs ! i) \<or> y \<in> set xs"
    using set_update_subset_insert [of xs i "Suc (xs ! i)"] by blast
  then show "y \<le> max (Max (set xs)) (Suc (xs ! i))" by (auto intro: le_max_iff_disj [THEN iffD2])
next
  show "max (Max (set xs)) (Suc (xs ! i)) \<in> set (xs[i := Suc (xs ! i)])"
  proof (cases "Suc (xs ! i) \<le> Max (set xs)")
    case True
    have "Max (set xs) \<in> set xs" using assms by (intro Max_in) auto
    then obtain j where j: "j < length xs" "xs ! j = Max (set xs)" by (auto simp: in_set_conv_nth)
    then have "j \<noteq> i" using True by auto
    then have "xs[i := Suc (xs ! i)] ! j = Max (set xs)" using j by simp
    then show ?thesis using True j(1) by (metis length_list_update max.orderE max.commute nth_mem)
  next
    case False
    then show ?thesis using assms by (simp add: max_def set_update_memI)
  qed
qed

lemma fills_bump:
  assumes "token \<le> m" and "x = n + token" and "x div rows_of k < c"
  shows "(fills_for k c (n + m))[x div rows_of k :=
      max (fills_for k c (n + m) ! (x div rows_of k)) (x mod rows_of k + 1)] =
    fills_for k c (n + max m (Suc token))"
proof (rule nth_equalityI)
  let ?P = "rows_of k"
  let ?i = "x div ?P"
  have x: "x = ?i * ?P + x mod ?P" and w: "x mod ?P < ?P" by simp_all
  fix j
  assume "j < length ((fills_for k c (n + m))[?i := max (fills_for k c (n + m) ! ?i) (x mod ?P + 1)])"
  then have j: "j < c" by simp
  consider "j = ?i" | "j < ?i" | "?i < j" by linarith
  then show "(fills_for k c (n + m))[?i := max (fills_for k c (n + m) ! ?i) (x mod ?P + 1)] ! j =
      fills_for k c (n + max m (Suc token)) ! j"
  proof cases
    case 1
    have "max (min ?P (n + m - ?i * ?P)) (x mod ?P + 1) = min ?P (n + max m (Suc token) - ?i * ?P)"
      using x w assms(1,2) by linarith
    then show ?thesis using 1 j assms(3) by (simp add: nth_fills)
  next
    case 2
    have "j * ?P + ?P \<le> ?i * ?P" using mult_le_mono1 [of "Suc j" ?i ?P] 2 by simp
    then have "?P \<le> n + m - j * ?P" "?P \<le> n + max m (Suc token) - j * ?P"
      using x assms(1,2) by linarith+
    then show ?thesis using 2 j by (simp add: nth_fills min_def)
  next
    case 3
    have "(?i + 1) * ?P \<le> j * ?P" using 3 by (intro mult_le_mono1) simp
    then have "?P + ?i * ?P \<le> j * ?P" by simp
    then have "Suc x \<le> j * ?P" using x w by linarith
    then show ?thesis using 3 j assms(1,2) by (cases "m = token") (simp_all add: nth_fills max_def)
  qed
qed (use assms in simp)

lemma write_location_Ok:
  assumes T: "transaction l0 r l" and layer: "layer < layers_of (pl_plan l0)"
    and token: "token < ar_append_tokens r" "token = pl_staged_rows l ! layer"
    and x: "x = pl_committed_tokens l0 + token"
  shows "ledger_write_location_of l r layer token = Ok \<lparr>wl_page = x div rows_of (pl_plan l0),
      wl_bundle = pl_table l ! (x div rows_of (pl_plan l0)), wl_within = x mod rows_of (pl_plan l0)\<rparr>"
    and "x div rows_of (pl_plan l0) < length (pl_table l)"
proof -
  note D = transactionD [OF T]
  note I = ledger_okD [OF D(1)]
  show page: "x div rows_of (pl_plan l0) < length (pl_table l)"
    unfolding D(10) using D(6) token(1) x by (intro page_below) simp_all
  have "x < 2 ^ 64" using D(6,7) token(1) x plannedD(4) [OF I(1)] by linarith
  then show "ledger_write_location_of l r layer token = Ok \<lparr>wl_page = x div rows_of (pl_plan l0),
      wl_bundle = pl_table l ! (x div rows_of (pl_plan l0)), wl_within = x mod rows_of (pl_plan l0)\<rparr>"
    using page layer token D(2,4,11) x
    by (simp add: ledger_write_location_of_def check_layer_def require_def vec_get_def usize_add_def
        ledger_page_tokens_def)
qed

lemma record_write_Ok:
  assumes T: "transaction l0 r l" and layer: "layer < layers_of (pl_plan l0)"
    and token: "token < ar_append_tokens r" "token = pl_staged_rows l ! layer"
    and x: "x = pl_committed_tokens l0 + token"
  obtains l' where "ledger_record_write l layer (x div rows_of (pl_plan l0)) (x mod rows_of (pl_plan l0)) = (Ok (), l')"
    and "transaction l0 r l'" and "pl_table l' = pl_table l"
    and "pl_staged_rows l' = (pl_staged_rows l)[layer := Suc token]"
proof -
  note D = transactionD [OF T]
  note I = ledger_okD [OF D(1)]
  let ?k = "pl_plan l0"
  let ?i = "x div rows_of ?k" and ?m = "Max (set (pl_staged_rows l))"
  have page: "?i < length (pl_table l)" by (rule write_location_Ok(2) [OF T layer token x])
  have len: "layer < length (pl_staged_rows l)" using layer D(11) by simp
  have le: "token \<le> ?m" using len token(2) by simp
  have bump: "(pl_fills l)[?i := max (pl_fills l ! ?i) (x mod rows_of ?k + 1)] =
      fills_for ?k (length (pl_table l)) (pl_committed_tokens l0 + max ?m (Suc token))"
    unfolding D(13) by (rule fills_bump [OF le x page])
  let ?l = "l\<lparr>pl_fills := (pl_fills l)[?i := max (pl_fills l ! ?i) (x mod rows_of ?k + 1)],
      pl_staged_rows := (pl_staged_rows l)[layer := Suc token]\<rparr>"
  have "token + 1 < 2 ^ 64" using token(1) D(6,7) plannedD(4) [OF I(1)] by linarith
  then have "ledger_record_write l layer ?i (x mod rows_of ?k) = (Ok (), ?l)"
    using page len token(2) D(13) by (simp add: ledger_record_write_def Let_def vec_get_def usize_add_def)
  moreover have "transaction l0 r ?l"
    using T bump Max_bump [OF len] token set_update_subset_insert [of "pl_staged_rows l" layer "Suc token"]
    by (auto simp: transaction_def)
  ultimately show thesis by (rule that) simp_all
qed

end
