(* ===== verification/Paged_Session.thy ===== *)
theory Paged_Session
  imports Paged_Ledger
begin

text \<open>
  The pool under its append transaction: what copying a partial tail, writing a row, reading a row
  and the two ends of an append do to the rows a reader can address. \<open>pool_ok\<close> is the invariant
  without an append, \<open>append_ok\<close> the one with an append open on a pool whose ledger was \<open>l0\<close>.
\<close>

subsection \<open>Rows by token\<close>

definition row_in :: "paged_ledger \<Rightarrow> f32 list \<Rightarrow> usize \<Rightarrow> bool \<Rightarrow> usize \<Rightarrow> f32 list" where
  "row_in l storage layer v t =
     (let k = pl_plan l
      in block (width_of k) storage (slot k (pl_table l ! (t div rows_of k)) layer v (t mod rows_of k)))"

abbreviation row_at :: "paged_pool \<Rightarrow> usize \<Rightarrow> bool \<Rightarrow> usize \<Rightarrow> f32 list" where
  "row_at p \<equiv> row_in (pool_ledger p) (pool_storage p)"

abbreviation plan_of :: "paged_pool \<Rightarrow> paged_plan" where
  "plan_of p \<equiv> pl_plan (pool_ledger p)"

definition pool_ok :: "paged_pool \<Rightarrow> bool" where
  "pool_ok p \<longleftrightarrow> backed p \<and> ledger_ok (pool_ledger p)"

definition tail_copied :: "paged_pool \<Rightarrow> append_reservation \<Rightarrow> bool" where
  "tail_copied p r \<longleftrightarrow>
     (case ar_replaced_tail r of None \<Rightarrow> True
      | Some t \<Rightarrow> \<forall>layer < layers_of (plan_of p). \<forall>v. \<forall>i < tr_fill t.
          block (width_of (plan_of p)) (pool_storage p)
            (slot (plan_of p) (tr_replacement_bundle t) layer v i) =
          block (width_of (plan_of p)) (pool_storage p)
            (slot (plan_of p) (tr_original_bundle t) layer v i))"

definition append_ok :: "paged_ledger \<Rightarrow> append_reservation \<Rightarrow> paged_pool \<Rightarrow> bool" where
  "append_ok l0 r p \<longleftrightarrow> backed p \<and> transaction l0 r (pool_ledger p) \<and> tail_copied p r"

lemma rows_positive [simp]: "0 < rows_of k"
  by (cases "pk_page_tokens k") simp_all

lemma backed_row:
  assumes "backed p" and "k = plan_of p" and "b < bundles_of k" and "l < layers_of k" and "i < rows_of k"
  shows "(slot k b l v i + 1) * width_of k \<le> length (pool_storage p)"
  using assms by (intro backed_slot) simp_all

subsection \<open>Copying the tail\<close>

text \<open>What one step of the copy does to the rows of the storage.\<close>

lemma copy_step_Ok:
  assumes p: "backed p" and k: "k = plan_of p"
    and b: "b < bundles_of k" "b' < bundles_of k" "b \<noteq> b'"
    and l: "l < layers_of k" and f: "f \<le> rows_of k"
  obtains storage where "copy_spans \<lparr>tr_page = pg, tr_original_bundle = b, tr_fill = f,
        tr_replacement_bundle = b'\<rparr> ((l, v) # rest) p =
      copy_spans \<lparr>tr_page = pg, tr_original_bundle = b, tr_fill = f,
        tr_replacement_bundle = b'\<rparr> rest (p\<lparr>pool_storage := storage\<rparr>)"
    and "length storage = length (pool_storage p)"
    and "\<And>n. (n + 1) * width_of k \<le> length (pool_storage p) \<Longrightarrow> block (width_of k) storage n =
      (if \<exists>i < f. n = slot k b' l v i
       then block (width_of k) (pool_storage p) (slot k b l v (n - slot k b' l v 0))
       else block (width_of k) (pool_storage p) n)"
proof -
  let ?W = "width_of k" and ?S = "pool_storage p"
  let ?src = "slot k b l v 0" and ?dst = "slot k b' l v 0"
  let ?ys = "take (f * ?W) (drop (?src * ?W) ?S)"
  let ?t = "\<lparr>tr_page = pg, tr_original_bundle = b, tr_fill = f, tr_replacement_bundle = b'\<rparr>"
  have src: "(?src + f) * ?W \<le> length ?S" and dst: "(?dst + f) * ?W \<le> length ?S"
    using backed_slot [OF p k _ l, of _ 0 f v] b f by simp_all
  have ys: "length ?ys = f * ?W" using src by (simp add: add_mult_distrib)
  have spans: "pool_span p b l 0 v f = Ok (?src * ?W, (?src + f) * ?W)"
    "pool_span p b' l 0 v f = Ok (?dst * ?W, (?dst + f) * ?W)"
    using pool_span_Ok [OF p k _ l, of _ 0 f v] b f by simp_all
  have copied: "copy_within ?S (?src * ?W, (?src + f) * ?W) (?dst * ?W) = Ok (overwrite ?S (?dst * ?W) ?ys)"
    using src dst by (simp add: copy_within_def vec_slice_def add_mult_distrib)
  have step: "copy_spans ?t ((l, v) # rest) p = copy_spans ?t rest (p\<lparr>pool_storage := overwrite ?S (?dst * ?W) ?ys\<rparr>)"
    by (simp add: spans copied)
  have in_range: "(\<exists>i < f. n = slot k b' l v i) \<longleftrightarrow> ?dst \<le> n \<and> n < ?dst + f" for n
  proof
    assume "?dst \<le> n \<and> n < ?dst + f"
    then have "n - ?dst < f \<and> n = slot k b' l v (n - ?dst)" by (auto simp: slot_def)
    then show "\<exists>i < f. n = slot k b' l v i" by blast
  qed (auto simp: slot_def)
  have shift: "?src + i = slot k b l v i" for i by (simp add: slot_def)
  show thesis
  proof (rule that [OF step])
    show "length (overwrite ?S (?dst * ?W) ?ys) = length ?S"
      using dst ys by (intro length_overwrite) (simp add: add_mult_distrib)
    fix n
    assume n: "(n + 1) * ?W \<le> length ?S"
    have "block ?W ?ys (n - ?dst) = block ?W ?S (slot k b l v (n - ?dst))" if "?dst \<le> n" "n < ?dst + f"
    proof -
      have "n - ?dst < f" using that by linarith
      then show ?thesis using block_slice [OF src, of "n - ?dst"] by (simp add: shift)
    qed
    then show "block ?W (overwrite ?S (?dst * ?W) ?ys) n =
        (if \<exists>i < f. n = slot k b' l v i then block ?W ?S (slot k b l v (n - ?dst)) else block ?W ?S n)"
      unfolding block_overwrite [OF ys dst n] in_range by simp
  qed
qed

definition copied_rows ::
  "paged_plan \<Rightarrow> usize \<Rightarrow> usize \<Rightarrow> usize \<Rightarrow> (usize \<times> bool) set \<Rightarrow> f32 list \<Rightarrow> f32 list \<Rightarrow> bool" where
  "copied_rows k b b' f spans old new \<longleftrightarrow> length new = length old \<and>
     (\<forall>n. (n + 1) * width_of k \<le> length old \<longrightarrow>
        (\<forall>l v i. (l, v) \<in> spans \<longrightarrow> i < f \<longrightarrow> n = slot k b' l v i \<longrightarrow>
           block (width_of k) new n = block (width_of k) old (slot k b l v i)) \<and>
        ((\<forall>l v i. (l, v) \<in> spans \<longrightarrow> i < f \<longrightarrow> n \<noteq> slot k b' l v i) \<longrightarrow>
           block (width_of k) new n = block (width_of k) old n))"

lemma copied_rowsD:
  "copied_rows k b b' f spans old new \<Longrightarrow> (l, v) \<in> spans \<Longrightarrow> i < f \<Longrightarrow>
     (slot k b' l v i + 1) * width_of k \<le> length old \<Longrightarrow>
     block (width_of k) new (slot k b' l v i) = block (width_of k) old (slot k b l v i)"
  unfolding copied_rows_def by blast

lemma copied_rows_kept:
  "copied_rows k b b' f spans old new \<Longrightarrow> (n + 1) * width_of k \<le> length old \<Longrightarrow>
     (\<And>l v i. (l, v) \<in> spans \<Longrightarrow> i < f \<Longrightarrow> n \<noteq> slot k b' l v i) \<Longrightarrow>
     block (width_of k) new n = block (width_of k) old n"
  unfolding copied_rows_def by blast

lemma slot_shift: "slot k b l v i - slot k b l v 0 = i"
  by (simp add: slot_def)

lemma copy_spans_Ok:
  assumes k: "k = plan_of p" and b: "b < bundles_of k" "b' < bundles_of k" "b \<noteq> b'" and f: "f \<le> rows_of k"
    and p: "backed p" and "\<forall>(l, v) \<in> set spans. l < layers_of k"
  shows "\<exists>new. copy_spans \<lparr>tr_page = pg, tr_original_bundle = b, tr_fill = f,
        tr_replacement_bundle = b'\<rparr> spans p = (Ok (), p\<lparr>pool_storage := new\<rparr>) \<and>
      copied_rows k b b' f (set spans) (pool_storage p) new"
  using assms(1) p assms(7)
proof (induction spans arbitrary: p)
  case Nil
  show ?case by (intro exI [of _ "pool_storage p"]) (simp add: copied_rows_def)
next
  case (Cons span spans p)
  obtain l v where span: "span = (l, v)" by (cases span)
  have l: "l < layers_of k" using Cons.prems(3) span by simp
  obtain mid where step: "copy_spans \<lparr>tr_page = pg, tr_original_bundle = b, tr_fill = f,
        tr_replacement_bundle = b'\<rparr> (span # spans) p =
      copy_spans \<lparr>tr_page = pg, tr_original_bundle = b, tr_fill = f,
        tr_replacement_bundle = b'\<rparr> spans (p\<lparr>pool_storage := mid\<rparr>)"
    and len: "length mid = length (pool_storage p)"
    and mid: "\<And>n. (n + 1) * width_of k \<le> length (pool_storage p) \<Longrightarrow> block (width_of k) mid n =
      (if \<exists>i < f. n = slot k b' l v i
       then block (width_of k) (pool_storage p) (slot k b l v (n - slot k b' l v 0))
       else block (width_of k) (pool_storage p) n)"
    using copy_step_Ok [OF Cons.prems(2,1) b l f, where v = v and pg = pg and rest = spans] span by metis
  have "backed (p\<lparr>pool_storage := mid\<rparr>)" using Cons.prems(2) len by (simp add: backed_def)
  then obtain new where run: "copy_spans \<lparr>tr_page = pg, tr_original_bundle = b, tr_fill = f,
        tr_replacement_bundle = b'\<rparr> spans (p\<lparr>pool_storage := mid\<rparr>) = (Ok (), p\<lparr>pool_storage := new\<rparr>)"
    and rest: "copied_rows k b b' f (set spans) mid new"
    using Cons.IH [of "p\<lparr>pool_storage := mid\<rparr>"] Cons.prems(1,3) by auto
  have source: "block (width_of k) mid (slot k b l' v' i) = block (width_of k) (pool_storage p) (slot k b l' v' i)"
    if "l' < layers_of k" "i < f" for l' v' i
  proof -
    have "(slot k b l' v' i + 1) * width_of k \<le> length (pool_storage p)"
      using that f b by (intro backed_slot [OF Cons.prems(2,1)]) simp_all
    moreover have "slot k b l' v' i \<noteq> slot k b' l v j" if "j < f" for j
      using slot_injective [of k b l' v' i b' l v j] b(3) l that \<open>l' < layers_of k\<close> \<open>i < f\<close> f by auto
    ultimately show ?thesis using mid by auto
  qed
  have "copied_rows k b b' f (set (span # spans)) (pool_storage p) new"
    unfolding copied_rows_def
  proof (intro conjI allI impI)
    show "length new = length (pool_storage p)" using rest len by (simp add: copied_rows_def)
    fix n
    assume n: "(n + 1) * width_of k \<le> length (pool_storage p)"
    show "block (width_of k) new n = block (width_of k) (pool_storage p) n"
      if "\<forall>l v i. (l, v) \<in> set (span # spans) \<longrightarrow> i < f \<longrightarrow> n \<noteq> slot k b' l v i"
      using that rest mid [OF n] n len by (auto simp: copied_rows_def span)
    fix l' v' i
    assume member: "(l', v') \<in> set (span # spans)" and i: "i < f" and at: "n = slot k b' l' v' i"
    have l': "l' < layers_of k" using Cons.prems(3) member by auto
    show "block (width_of k) new n = block (width_of k) (pool_storage p) (slot k b l' v' i)"
    proof (cases "(l', v') \<in> set spans")
      case True
      then show ?thesis using rest n len i at source [OF l' i] unfolding copied_rows_def by metis
    next
      case False
      then have here: "l' = l" "v' = v" using member by (auto simp: span)
      have "\<forall>m w j. (m, w) \<in> set spans \<longrightarrow> j < f \<longrightarrow> n \<noteq> slot k b' m w j"
      proof (intro allI impI)
        fix m w j
        assume mw: "(m, w) \<in> set spans" and j: "j < f"
        have "m < layers_of k" using Cons.prems(3) mw by auto
        then show "n \<noteq> slot k b' m w j"
          using slot_injective [of k b' l' v' i b' m w j] at l' i j f False mw by auto
      qed
      then have "block (width_of k) new n = block (width_of k) mid n"
        using rest n len unfolding copied_rows_def by metis
      also have "\<dots> = block (width_of k) (pool_storage p) (slot k b l' v' i)"
        using mid [OF n] i at here by (auto simp: slot_shift)
      finally show ?thesis .
    qed
  qed
  then show ?case using step run by auto
qed

subsection \<open>The tail of an append\<close>

lemma table_below:
  assumes "ledger_ok l" and "t < pl_committed_tokens l"
  shows "t div rows_of (pl_plan l) < length (pl_table l)"
    and "pl_table l ! (t div rows_of (pl_plan l)) < bundles_of (pl_plan l)"
proof -
  show t: "t div rows_of (pl_plan l) < length (pl_table l)"
    using page_below [OF rows_positive assms(2)] ledger_okD(3) [OF assms(1)] by simp
  then have "pl_table l ! (t div rows_of (pl_plan l)) \<in> set (pl_table l @ pl_free l)" by simp
  then show "pl_table l ! (t div rows_of (pl_plan l)) < bundles_of (pl_plan l)"
    unfolding ledger_okD(7) [OF assms(1)] by simp
qed

lemma tail_facts:
  assumes T: "transaction l0 r l" and t: "ar_replaced_tail r = Some t"
  shows "tr_page t = pl_committed_tokens l0 div rows_of (pl_plan l0)"
    and "tr_fill t = pl_committed_tokens l0 mod rows_of (pl_plan l0)"
    and "tr_original_bundle t = pl_table l0 ! tr_page t"
    and "tr_page t < length (pl_table l0)"
    and "tr_original_bundle t < bundles_of (pl_plan l0)" and "tr_replacement_bundle t < bundles_of (pl_plan l0)"
    and "tr_original_bundle t \<noteq> tr_replacement_bundle t"
    and "pl_table l ! tr_page t = tr_replacement_bundle t"
    and "tr_replacement_bundle t \<notin> set (pl_table l0)"
    and "tr_fill t < rows_of (pl_plan l0)"
proof -
  note I = ledger_okD [OF transactionD(1) [OF T]]
  obtain b where r: "t = \<lparr>tr_page = pl_committed_tokens l0 div rows_of (pl_plan l0),
         tr_original_bundle = pl_table l0 ! (pl_committed_tokens l0 div rows_of (pl_plan l0)),
         tr_fill = pl_committed_tokens l0 mod rows_of (pl_plan l0), tr_replacement_bundle = b\<rparr>"
    and len: "length (pl_table l0) = Suc (pl_committed_tokens l0 div rows_of (pl_plan l0))"
    using T t by (cases rule: reserved_tail_cases) auto
  then show "tr_page t = pl_committed_tokens l0 div rows_of (pl_plan l0)"
    and "tr_fill t < rows_of (pl_plan l0)"
    and "tr_fill t = pl_committed_tokens l0 mod rows_of (pl_plan l0)"
    and orig: "tr_original_bundle t = pl_table l0 ! tr_page t"
    and page: "tr_page t < length (pl_table l0)" by simp_all
  obtain news where table: "pl_table l = tail_table (pl_table l0) r @ news"
    and free: "pl_free l0 = pl_free l @ rev news @ tail_spare r"
    using T by (auto simp: transaction_def)
  have o: "tr_original_bundle t \<in> set (pl_table l0)" using orig page by simp
  have b: "tr_replacement_bundle t \<in> set (pl_free l0)" using t free by (simp add: tail_spare_def)
  show "tr_original_bundle t < bundles_of (pl_plan l0)" "tr_replacement_bundle t < bundles_of (pl_plan l0)"
    using o b I(7) by (auto simp: set_eq_iff)
  show fresh: "tr_replacement_bundle t \<notin> set (pl_table l0)" using b I(6) by auto
  show "tr_original_bundle t \<noteq> tr_replacement_bundle t" using o fresh by auto
  show "pl_table l ! tr_page t = tr_replacement_bundle t"
    using page t by (simp add: table tail_table_def nth_append)
qed

text \<open>Committed tokens read the same through the staged table as through the original one.\<close>

lemma committed_row:
  assumes A: "append_ok l0 r p" and t: "t < pl_committed_tokens l0" and layer: "layer < layers_of (pl_plan l0)"
  shows "row_at p layer v t = row_in l0 (pool_storage p) layer v t"
proof -
  let ?P = "rows_of (pl_plan l0)"
  have T: "transaction l0 r (pool_ledger p)" and copied: "tail_copied p r"
    using A by (simp_all add: append_ok_def)
  note D = transactionD [OF T]
  have page: "t div ?P < length (pl_table l0)" by (rule table_below(1) [OF D(1) t])
  obtain news where table: "pl_table (pool_ledger p) = tail_table (pl_table l0) r @ news"
    using T by (auto simp: transaction_def)
  show ?thesis
  proof (cases "ar_replaced_tail r")
    case None
    then show ?thesis using page by (simp add: row_in_def D(2) table tail_table_def nth_append)
  next
    case (Some u)
    note F = tail_facts [OF T Some]
    show ?thesis
    proof (cases "t div ?P = tr_page u")
      case True
      have "t div ?P * ?P + t mod ?P < t div ?P * ?P + pl_committed_tokens l0 mod ?P"
        using t True F(1) by (metis div_mult_mod_eq)
      then have "t mod ?P < tr_fill u" unfolding F(2) add_less_cancel_left .
      then show ?thesis
        using copied Some layer F(3,8) by (simp add: tail_copied_def row_in_def D(2) True)
    next
      case False
      then show ?thesis
        using page Some by (simp add: row_in_def D(2) table tail_table_def nth_append)
    qed
  qed
qed

subsection \<open>Beginning an append\<close>

lemma copy_tail_Ok:
  assumes k: "k = plan_of p" and T: "transaction l0 r (pool_ledger p)" and p: "backed p" and t: "ar_replaced_tail r = Some t"
  obtains new where "copy_tail p t = (Ok (), p\<lparr>pool_storage := new\<rparr>)"
    and "tail_copied (p\<lparr>pool_storage := new\<rparr>) r" and "length new = length (pool_storage p)"
    and "\<And>b l v i. b \<noteq> tr_replacement_bundle t \<Longrightarrow> b < bundles_of k \<Longrightarrow> l < layers_of k \<Longrightarrow>
      i < rows_of k \<Longrightarrow> block (width_of k) new (slot k b l v i) =
      block (width_of k) (pool_storage p) (slot k b l v i)"
proof -
  let ?k = k and ?b = "tr_original_bundle t" and ?b' = "tr_replacement_bundle t"
  note D = transactionD [OF T] and F = tail_facts [OF T t]
  note D = D(2) [folded k]
  have fill: "tr_fill t < rows_of ?k" using F(2) D by simp
  have spans: "\<forall>(l, v) \<in> set (tail_spans (layers_of ?k)). l < layers_of ?k"
    and every: "l < layers_of ?k \<Longrightarrow> (l, v) \<in> set (tail_spans (layers_of ?k))" for l v
    by (auto simp: tail_spans_def)
  obtain new where run: "copy_tail p t = (Ok (), p\<lparr>pool_storage := new\<rparr>)"
    and new: "copied_rows ?k ?b ?b' (tr_fill t) (set (tail_spans (layers_of ?k))) (pool_storage p) new"
    using copy_spans_Ok [OF k _ _ F(7) _ p spans, where f = "tr_fill t" and pg = "tr_page t"]
      F(5,6) D fill by (cases t) (auto simp: copy_tail_def simp flip: k)
  have fresh: "block (width_of ?k) new (slot ?k b l v i) = block (width_of ?k) (pool_storage p) (slot ?k b l v i)"
    if b: "b < bundles_of ?k" "b \<noteq> ?b'" and l: "l < layers_of ?k" and i: "i < rows_of ?k" for b l v i
  proof (rule copied_rows_kept [OF new backed_row [OF p k b(1) l i]])
    show "slot ?k b l v i \<noteq> slot ?k ?b' m w j"
      if "(m, w) \<in> set (tail_spans (layers_of ?k))" "j < tr_fill t" for m w j
      using slot_injective [of ?k b l v i ?b' m w j] b l i that fill spans by auto
  qed
  show thesis
  proof (rule that [OF run])
    show "length new = length (pool_storage p)" using new by (simp add: copied_rows_def)
    show "tail_copied (p\<lparr>pool_storage := new\<rparr>) r"
      unfolding tail_copied_def t option.case
    proof (intro allI impI)
      fix l v i
      assume l: "l < layers_of (plan_of (p\<lparr>pool_storage := new\<rparr>))" and i: "i < tr_fill t"
      have "?b' < bundles_of ?k" "?b < bundles_of ?k" "l < layers_of ?k" "i < rows_of ?k"
        using F(5,6) D l i fill by (simp_all flip: k)
      then have "(slot ?k ?b' l v i + 1) * width_of ?k \<le> length (pool_storage p)"
        "(slot ?k ?b l v i + 1) * width_of ?k \<le> length (pool_storage p)"
        using backed_row [OF p k] by blast+
      then have "block (width_of ?k) new (slot ?k ?b' l v i) = block (width_of ?k) (pool_storage p) (slot ?k ?b l v i)"
        "block (width_of ?k) new (slot ?k ?b l v i) = block (width_of ?k) (pool_storage p) (slot ?k ?b l v i)"
        using copied_rowsD [OF new every i] fresh [OF _ F(7)] F(5) D l i fill by (simp_all flip: k)
      then show "block (width_of (plan_of (p\<lparr>pool_storage := new\<rparr>))) (pool_storage (p\<lparr>pool_storage := new\<rparr>))
            (slot (plan_of (p\<lparr>pool_storage := new\<rparr>)) ?b' l v i) =
          block (width_of (plan_of (p\<lparr>pool_storage := new\<rparr>))) (pool_storage (p\<lparr>pool_storage := new\<rparr>))
            (slot (plan_of (p\<lparr>pool_storage := new\<rparr>)) ?b l v i)" by (simp flip: k)
    qed
    show "block (width_of ?k) new (slot ?k b l v i) = block (width_of ?k) (pool_storage p) (slot ?k b l v i)"
      if "b \<noteq> ?b'" "b < bundles_of ?k" "l < layers_of ?k" "i < rows_of ?k" for b l v i
      using fresh that by blast
  qed
qed

lemma pool_begin_refused:
  assumes "pool_ok p"
    and "a = 0 \<or> geo_max_context (pk_geometry (plan_of p)) < pl_committed_tokens (pool_ledger p) + a"
  shows "pool_begin_append p a = (Err (if a = 0 then PagedEmptyAppend
      else PagedContextOverflow (pl_committed_tokens (pool_ledger p)) a
             (geo_max_context (pk_geometry (plan_of p)))), p)"
  using ledger_begin_refused [OF _ assms(2)] assms(1) by (simp add: pool_begin_append_def pool_ok_def)

lemma pool_begin_Ok:
  assumes p: "pool_ok p" and a: "0 < a"
    and room: "pl_committed_tokens (pool_ledger p) + a \<le> geo_max_context (pk_geometry (plan_of p))"
  obtains r p' where "pool_begin_append p a = (Ok r, p')" and "append_ok (pool_ledger p) r p'"
    and "ar_append_tokens r = a" and "pl_staged_rows (pool_ledger p') = replicate (layers_of (plan_of p)) 0"
    and "\<And>layer v t. layer < layers_of (plan_of p) \<Longrightarrow> t < pl_committed_tokens (pool_ledger p) \<Longrightarrow>
      row_at p' layer v t = row_at p layer v t"
proof -
  let ?l0 = "pool_ledger p" and ?k = "plan_of p"
  have ok: "ledger_ok ?l0" and b: "backed p" using p by (simp_all add: pool_ok_def)
  obtain r l where started: "ledger_begin_append ?l0 a = (Ok r, l)" and T: "transaction ?l0 r l"
    and tokens: "ar_append_tokens r = a" and staged: "pl_staged_rows l = replicate (layers_of ?k) 0"
    using ledger_begin_Ok [OF ok a room] by metis
  let ?p = "p\<lparr>pool_ledger := l\<rparr>"
  note D = transactionD [OF T]
  have backed: "backed ?p" using b D(2) by (simp add: backed_def)
  show thesis
  proof (cases "ar_replaced_tail r")
    case None
    have A: "append_ok ?l0 r ?p" using T backed None by (simp add: append_ok_def tail_copied_def)
    show thesis
    proof (rule that [OF _ A tokens])
      show "pool_begin_append p a = (Ok r, ?p)" using started None by (simp add: pool_begin_append_def)
      show "pl_staged_rows (pool_ledger ?p) = replicate (layers_of ?k) 0" using staged by simp
      show "row_at ?p layer v t = row_at p layer v t"
        if "layer < layers_of ?k" "t < pl_committed_tokens ?l0" for layer v t
        using committed_row [OF A that(2,1)] by simp
    qed
  next
    case (Some t)
    note F = tail_facts [OF T Some]
    have T': "transaction ?l0 r (pool_ledger ?p)" using T by simp
    obtain new where copy: "copy_tail ?p t = (Ok (), ?p\<lparr>pool_storage := new\<rparr>)"
      and copied: "tail_copied (?p\<lparr>pool_storage := new\<rparr>) r" and len: "length new = length (pool_storage ?p)"
      and kept: "\<And>b l v i. b \<noteq> tr_replacement_bundle t \<Longrightarrow> b < bundles_of ?k \<Longrightarrow> l < layers_of ?k \<Longrightarrow>
        i < rows_of ?k \<Longrightarrow> block (width_of ?k) new (slot ?k b l v i) =
        block (width_of ?k) (pool_storage ?p) (slot ?k b l v i)"
      by (rule copy_tail_Ok [OF _ T' backed Some, of ?k]) (simp_all add: D(2))
    let ?p' = "?p\<lparr>pool_storage := new\<rparr>"
    have A: "append_ok ?l0 r ?p'" using T backed len copied by (simp add: append_ok_def backed_def)
    show thesis
    proof (rule that [OF _ A tokens])
      show "pool_begin_append p a = (Ok r, ?p')" using started Some copy by (simp add: pool_begin_append_def)
      show "pl_staged_rows (pool_ledger ?p') = replicate (layers_of ?k) 0" using staged by simp
      fix layer v u
      assume layer: "layer < layers_of ?k" and u: "u < pl_committed_tokens ?l0"
      have "pl_table ?l0 ! (u div rows_of ?k) \<noteq> tr_replacement_bundle t"
        using table_below(1) [OF ok u] F(9) nth_mem by metis
      then show "row_at ?p' layer v u = row_at p layer v u"
        using committed_row [OF A u layer] kept table_below(2) [OF ok u] layer by (simp add: row_in_def)
    qed
  qed
qed

subsection \<open>Writing a row\<close>

lemma staged_table:
  assumes T: "transaction l0 r l" and x: "x < ar_target_tokens r"
  shows "x div rows_of (pl_plan l0) < length (pl_table l)"
    and "pl_table l ! (x div rows_of (pl_plan l0)) < bundles_of (pl_plan l0)"
proof -
  show x: "x div rows_of (pl_plan l0) < length (pl_table l)"
    unfolding transactionD(10) [OF T] by (rule page_below [OF rows_positive x])
  then have "pl_table l ! (x div rows_of (pl_plan l0)) \<in> set (pl_table l @ pl_free l @ tail_original r)"
    by simp
  then show "pl_table l ! (x div rows_of (pl_plan l0)) < bundles_of (pl_plan l0)"
    unfolding transaction_bundles(2) [OF T] by simp
qed

text \<open>Two addressable rows of an append never share storage.\<close>

lemma staged_slots_differ:
  assumes T: "transaction l0 r l" and k: "k = pl_plan l0"
    and x: "x < ar_target_tokens r" and t: "t < ar_target_tokens r"
    and layers: "layer < layers_of k" "layer' < layers_of k"
    and same: "slot k (pl_table l ! (x div rows_of k)) layer v (x mod rows_of k) =
      slot k (pl_table l ! (t div rows_of k)) layer' v' (t mod rows_of k)"
  shows "layer = layer' \<and> v = v' \<and> x = t"
proof -
  have S: "pl_table l ! (x div rows_of k) = pl_table l ! (t div rows_of k)" "layer = layer'" "v = v'"
    "x mod rows_of k = t mod rows_of k"
    using slot_injective [OF same layers] by simp_all
  have "distinct (pl_table l)" using transaction_bundles(1) [OF T] by simp
  then have "x div rows_of k = t div rows_of k"
    using S(1) staged_table(1) [OF T x] staged_table(1) [OF T t] k by (simp add: nth_eq_iff_index_eq)
  then show ?thesis using S div_mult_mod_eq by metis
qed

lemma copy_row_Ok:
  assumes "(s + 1) * w \<le> length (pool_storage p)" and "length values = w"
  shows "copy_row p (s * w, (s + 1) * w) values operation =
    (Ok (), p\<lparr>pool_storage := overwrite (pool_storage p) (s * w) values\<rparr>)"
  using assms by (simp add: copy_row_def vec_slice_def)

lemma block_overwrite_one:
  assumes "length ys = w" and "(m + 1) * w \<le> length xs" and "(n + 1) * w \<le> length xs"
  shows "block w (overwrite xs (m * w) ys) n = (if n = m then ys else block w xs n)"
  using block_overwrite [of ys 1 w m xs n] assms by (auto simp: block_def le_less_Suc_eq)

text \<open>The two slots that a row write fills, and the pool it leaves.\<close>

definition row_written :: "paged_pool \<Rightarrow> usize \<Rightarrow> usize \<Rightarrow> f32 list \<Rightarrow> f32 list \<Rightarrow> f32 list" where
  "row_written p layer x keys values =
     (let k = plan_of p; s = (\<lambda>v. slot k (pl_table (pool_ledger p) ! (x div rows_of k)) layer v (x mod rows_of k))
      in overwrite (overwrite (pool_storage p) (s False * width_of k) keys) (s True * width_of k) values)"

lemma row_written_blocks:
  assumes p: "backed p" and k: "k = plan_of p" and b: "b = pl_table (pool_ledger p) ! (x div rows_of k)"
    and bounds: "b < bundles_of k" "layer < layers_of k"
    and widths: "length keys = width_of k" "length values = width_of k"
    and n: "(n + 1) * width_of k \<le> length (pool_storage p)"
  shows "block (width_of k) (row_written p layer x keys values) n =
    (if n = slot k b layer True (x mod rows_of k) then values
     else if n = slot k b layer False (x mod rows_of k) then keys
     else block (width_of k) (pool_storage p) n)"
    and "length (row_written p layer x keys values) = length (pool_storage p)"
proof -
  let ?W = "width_of k" and ?S = "pool_storage p"
  let ?s = "\<lambda>v. slot k b layer v (x mod rows_of k)"
  have fit: "(?s v + 1) * ?W \<le> length ?S" for v
    by (rule backed_row [OF p k bounds]) simp
  have len: "length (overwrite ?S (?s False * ?W) keys) = length ?S"
    using fit [of False] widths by (intro length_overwrite) simp
  have R: "row_written p layer x keys values =
      overwrite (overwrite ?S (?s False * ?W) keys) (?s True * ?W) values"
    by (simp add: row_written_def Let_def b flip: k)
  show "length (row_written p layer x keys values) = length (pool_storage p)"
    unfolding R using fit [of True] widths len by simp
  have "block ?W (overwrite (overwrite ?S (?s False * ?W) keys) (?s True * ?W) values) n =
      (if n = ?s True then values else block ?W (overwrite ?S (?s False * ?W) keys) n)"
    using n fit len by (intro block_overwrite_one [OF widths(2)]) simp_all
  then show "block ?W (row_written p layer x keys values) n =
      (if n = ?s True then values else if n = ?s False then keys else block ?W ?S n)"
    unfolding R block_overwrite_one [OF widths(1) fit n] .
qed

text \<open>A row of the append is never in the copied part of the tail, nor in the page it was copied from.\<close>

lemma tail_slots_apart:
  assumes T: "transaction l0 r l" and t: "ar_replaced_tail r = Some t" and k: "k = pl_plan l0"
    and x: "x = pl_committed_tokens l0 + token" "x < ar_target_tokens r" and layer: "layer < layers_of k"
    and m: "m < layers_of k" and i: "i < tr_fill t"
    and b: "b \<in> {tr_original_bundle t, tr_replacement_bundle t}"
  shows "slot k b m v i \<noteq> slot k (pl_table l ! (x div rows_of k)) layer u (x mod rows_of k)"
proof
  let ?P = "rows_of k"
  note D = transactionD [OF T] and F = tail_facts [OF T t]
  assume same: "slot k b m v i = slot k (pl_table l ! (x div ?P)) layer u (x mod ?P)"
  have "i < ?P" using i F(10) k by simp
  then have at: "b = pl_table l ! (x div ?P)" "i = x mod ?P"
    using slot_injective [OF same m layer] by simp_all
  have page: "x div ?P < length (pl_table l)" using staged_table(1) [OF T x(2)] k by simp
  have distinct: "distinct (pl_table l)" "tr_original_bundle t \<notin> set (pl_table l)"
    using transaction_bundles(1) [OF T] t by (auto simp: tail_original_def)
  then have "b = tr_replacement_bundle t" using b at(1) page distinct(2) nth_mem by (metis insertE singletonD)
  moreover have "tr_page t < length (pl_table l)"
    using F(4) D(10) ledger_okD(3) [OF D(1)] pages_for_mono [of "pl_committed_tokens l0" "ar_target_tokens r" ?P]
      D(6) k by simp
  ultimately have "x div ?P = tr_page t"
    using at(1) F(8) page distinct(1) nth_eq_iff_index_eq by metis
  then have "pl_committed_tokens l0 div ?P * ?P + tr_fill t \<le> pl_committed_tokens l0 div ?P * ?P + x mod ?P"
    using x F(1,2) k by (metis div_mult_mod_eq le_add1)
  then show False using i at(2) by simp
qed

lemma write_row_Ok:
  assumes A: "append_ok l0 r p" and k: "k = pl_plan l0"
    and layer: "layer < layers_of k"
    and token: "token < ar_append_tokens r" "token = pl_staged_rows (pool_ledger p) ! layer"
    and widths: "length keys = width_of k" "length values = width_of k"
    and x: "x = pl_committed_tokens l0 + token"
  obtains p' where "write_layer_row p r layer token keys values = (Ok (), p')" and "append_ok l0 r p'"
    and "pl_staged_rows (pool_ledger p') = (pl_staged_rows (pool_ledger p))[layer := Suc token]"
    and "\<And>layer' v t. layer' < layers_of k \<Longrightarrow> t < ar_target_tokens r \<Longrightarrow>
      row_at p' layer' v t =
        (if layer' = layer \<and> t = x then (if v then values else keys) else row_at p layer' v t)"
proof -
  let ?l = "pool_ledger p" and ?W = "width_of k" and ?P = "rows_of k"
  have T: "transaction l0 r ?l" and p: "backed p" and copied: "tail_copied p r"
    using A by (simp_all add: append_ok_def)
  note D = transactionD [OF T]
  have kp: "k = plan_of p" using D(2) k by simp
  have xt: "x < ar_target_tokens r" using token(1) x D(6) by simp
  let ?b = "pl_table ?l ! (x div ?P)" and ?w = "x mod ?P"
  have b: "?b < bundles_of k" using staged_table(2) [OF T xt] k by simp
  let ?s = "\<lambda>v. slot k ?b layer v ?w"
  let ?new = "row_written p layer x keys values"
  have fit: "(?s v + 1) * ?W \<le> length (pool_storage p)" for v
    by (rule backed_row [OF p kp b layer]) simp
  note blocks = row_written_blocks(1) [OF p kp refl b layer widths]
  have length: "length ?new = length (pool_storage p)"
    using row_written_blocks(2) [OF p kp refl b layer widths fit] .
  obtain l' where recorded: "ledger_record_write ?l layer (x div ?P) ?w = (Ok (), l')"
    and T': "transaction l0 r l'" and table: "pl_table l' = pl_table ?l"
    and staged: "pl_staged_rows l' = (pl_staged_rows ?l)[layer := Suc token]"
    using record_write_Ok [OF T layer [unfolded k] token x] k by metis
  let ?p = "p\<lparr>pool_storage := ?new, pool_ledger := l'\<rparr>"
  have span: "pool_span p ?b layer ?w v 1 = Ok (?s v * ?W, (?s v + 1) * ?W)" for v
    using pool_span_Ok [OF p kp b layer, of ?w 1 v] by (simp add: Suc_leI)
  have "ledger_write_location_of ?l r layer token = Ok \<lparr>wl_page = x div ?P, wl_bundle = ?b, wl_within = ?w\<rparr>"
    using write_location_Ok(1) [OF T layer [unfolded k] token x] k by simp
  then have location: "paged_write_location_of p r layer token keys values = Ok \<lparr>pw_page = x div ?P,
      pw_within = ?w, pw_key = (?s False * ?W, (?s False + 1) * ?W), pw_value = (?s True * ?W, (?s True + 1) * ?W)\<rparr>"
    using widths span fit
    by (simp add: paged_write_location_of_def check_row_def check_storage_row_def vec_slice_def require_def
        flip: kp del: mult_Suc)
  have copies: "copy_row p (?s False * ?W, (?s False + 1) * ?W) keys op1 =
      (Ok (), p\<lparr>pool_storage := overwrite (pool_storage p) (?s False * ?W) keys\<rparr>)" for op1
    using fit widths by (intro copy_row_Ok) simp_all
  have "length (overwrite (pool_storage p) (?s False * ?W) keys) = length (pool_storage p)"
    using fit [of False] widths by (intro length_overwrite) simp
  then have copies': "copy_row (p\<lparr>pool_storage := overwrite (pool_storage p) (?s False * ?W) keys\<rparr>)
      (?s True * ?W, (?s True + 1) * ?W) values op2 = (Ok (), p\<lparr>pool_storage := ?new\<rparr>)" for op2
    using fit widths by (subst copy_row_Ok) (simp_all add: row_written_def Let_def flip: kp del: mult_Suc)
  have stored: "write_layer_row p r layer token keys values = (Ok (), ?p)"
    using copies [of "''key row write''"] copies' [of "''value row write''"] recorded
    by (simp add: write_layer_row_def location del: mult_Suc)
  have row: "row_at ?p layer' v t =
      (if layer' = layer \<and> t = x then (if v then values else keys) else row_at p layer' v t)"
    if l': "layer' < layers_of k" and t: "t < ar_target_tokens r" for layer' v t
  proof -
    let ?n = "slot k (pl_table ?l ! (t div ?P)) layer' v (t mod ?P)"
    have n: "(?n + 1) * ?W \<le> length (pool_storage p)"
      using staged_table(2) [OF T t] k l' by (intro backed_row [OF p kp]) simp_all
    have "?n = ?s u \<longleftrightarrow> layer = layer' \<and> u = v \<and> x = t" for u
    proof
      assume "?n = ?s u"
      from this [symmetric] show "layer = layer' \<and> u = v \<and> x = t"
        by (rule staged_slots_differ [OF T k xt t layer l'])
    qed simp
    then show ?thesis
      using blocks [OF n] D(2) transactionD(2) [OF T'] k by (auto simp: row_in_def Let_def table)
  qed
  have "tail_copied ?p r"
  proof (cases "ar_replaced_tail r")
    case (Some t)
    note F = tail_facts [OF T Some]
    have "block ?W ?new (slot k b m v i) = block ?W (pool_storage p) (slot k b m v i)"
      if "b \<in> {tr_original_bundle t, tr_replacement_bundle t}" "m < layers_of k" "i < tr_fill t" for b m v i
    proof -
      have "i < ?P" using that(3) F(10) k by simp
      then have "(slot k b m v i + 1) * ?W \<le> length (pool_storage p)"
        using that F(5,6) k by (intro backed_row [OF p kp]) auto
      then show ?thesis
        using blocks tail_slots_apart [OF T Some k x xt layer that(2,3,1)] by simp
    qed
    then show ?thesis using copied Some kp transactionD(2) [OF T'] D(2) by (simp add: tail_copied_def)
  qed (simp add: tail_copied_def)
  then have "append_ok l0 r ?p"
    using T' p length D(2) transactionD(2) [OF T'] by (simp add: append_ok_def backed_def)
  from that [OF stored this _ row] show thesis using staged by simp
qed

end
