(* ===== verification/Paged_Log.thy ===== *)
theory Paged_Log
  imports Paged_Pool
begin

text \<open>
  The abstract specification of the paged cache: for every layer a list of key and value rows, of
  which the first \<open>log_committed\<close> are committed, and the stage of the append. There are no pages,
  bundles, fills or addresses; the replies and the errors are the ones of the cache.
\<close>

datatype log_stage = Idle | Appending usize | Sealed usize

record kv_log =
  log_width :: usize
  log_limit :: usize
  log_rows :: "(f32 list \<times> f32 list) list list"
  log_committed :: usize
  log_stage :: log_stage

definition log_new :: "paged_geometry \<Rightarrow> kv_log" where
  "log_new g = \<lparr>log_width = geo_row_width g, log_limit = geo_max_context g,
     log_rows = replicate (geo_layers g) [], log_committed = 0, log_stage = Idle\<rparr>"

definition log_begin :: "kv_log \<Rightarrow> usize \<Rightarrow> (paged_reply, paged_error) result \<times> kv_log" where
  "log_begin s n =
     (if n = 0 then (Err PagedEmptyAppend, s)
      else if log_limit s < log_committed s + n
      then (Err (PagedContextOverflow (log_committed s) n (log_limit s)), s)
      else (Ok Begun, s\<lparr>log_stage := Appending n\<rparr>))"

text \<open>What a row write checks, in order: both widths, the layer, the token, the order of the layer.\<close>

definition row_checks ::
  "usize \<Rightarrow> usize \<Rightarrow> usize \<Rightarrow> (usize \<Rightarrow> usize) \<Rightarrow> usize \<Rightarrow> usize \<Rightarrow> f32 list \<Rightarrow> f32 list \<Rightarrow> (unit, paged_error) result"
where
  "row_checks width layers n written layer token keys values =
     and_then (require (length keys = width) (PagedRowWidth ''key'' layer (length keys) width)) (\<lambda>_.
     and_then (require (length values = width) (PagedRowWidth ''value'' layer (length values) width)) (\<lambda>_.
     and_then (require (layer < layers) (PagedLayerOutOfRange layer layers)) (\<lambda>_.
     and_then (require (token < n) (PagedAppendTokenOutOfRange token n)) (\<lambda>_.
       require (token = written layer) (PagedWriteOrder layer (written layer) token)))))"

definition log_written :: "kv_log \<Rightarrow> usize \<Rightarrow> usize" where
  "log_written s layer = length (log_rows s ! layer) - log_committed s"

definition log_write ::
  "kv_log \<Rightarrow> usize \<Rightarrow> usize \<Rightarrow> usize \<Rightarrow> f32 list \<Rightarrow> f32 list \<Rightarrow> (paged_reply, paged_error) result \<times> kv_log" where
  "log_write s n layer token keys values =
     attempt (row_checks (log_width s) (length (log_rows s)) n (log_written s) layer token keys values) s (\<lambda>_.
       (Ok RowWritten, s\<lparr>log_rows := (log_rows s)[layer := log_rows s ! layer @ [(keys, values)]]\<rparr>))"

definition log_read :: "kv_log \<Rightarrow> usize \<Rightarrow> usize \<Rightarrow> bool \<Rightarrow> (paged_reply, paged_error) result" where
  "log_read s layer token v =
     and_then (require (layer < length (log_rows s)) (PagedLayerOutOfRange layer (length (log_rows s)))) (\<lambda>_.
     and_then (require (token < length (log_rows s ! layer))
       (PagedReadBeyondVisible token (length (log_rows s ! layer)))) (\<lambda>_.
       Ok (RowRead ((if v then snd else fst) (log_rows s ! layer ! token)))))"

definition log_abandon :: "kv_log \<Rightarrow> kv_log" where
  "log_abandon s = s\<lparr>log_rows := map (take (log_committed s)) (log_rows s), log_stage := Idle\<rparr>"

definition log_prepare :: "kv_log \<Rightarrow> usize \<Rightarrow> (paged_reply, paged_error) result \<times> kv_log" where
  "log_prepare s n =
     (case List.find (\<lambda>layer. log_written s layer \<noteq> n) [0..<length (log_rows s)] of
        Some layer \<Rightarrow> (Err (PagedIncompleteAppend layer (log_written s layer) n), log_abandon s)
      | None \<Rightarrow> (Ok CommitPrepared, s\<lparr>log_stage := Sealed n\<rparr>))"

definition log_publish :: "kv_log \<Rightarrow> usize \<Rightarrow> kv_log" where
  "log_publish s n = s\<lparr>log_committed := log_committed s + n, log_stage := Idle\<rparr>"

definition log_step :: "kv_log \<Rightarrow> paged_call \<Rightarrow> (paged_reply, paged_error) result \<times> kv_log" where
  "log_step s c =
     (case (log_stage s, c) of
        (Idle, BeginAppend n) \<Rightarrow> log_begin s n
      | (Idle, ReadRow layer token v) \<Rightarrow> (log_read s layer token v, s)
      | (Appending n, WriteRow layer token keys values) \<Rightarrow> log_write s n layer token keys values
      | (Appending n, ReadRow layer token v) \<Rightarrow> (log_read s layer token v, s)
      | (Appending n, PrepareCommit) \<Rightarrow> log_prepare s n
      | (Appending n, Abandon) \<Rightarrow> (Ok Abandoned, log_abandon s)
      | (Sealed n, Publish) \<Rightarrow> (Ok Published, log_publish s n)
      | (Sealed n, Abandon) \<Rightarrow> (Ok Abandoned, log_abandon s)
      | _ \<Rightarrow> (Ok Unavailable, s))"

subsection \<open>Runs\<close>

abbreviation session_run ::
  "paged_session \<Rightarrow> paged_call list \<Rightarrow> (paged_reply, paged_error) result list \<times> paged_session" where
  "session_run \<equiv> trace session_step"

abbreviation log_run :: "kv_log \<Rightarrow> paged_call list \<Rightarrow> (paged_reply, paged_error) result list \<times> kv_log" where
  "log_run \<equiv> trace log_step"

end
