(* ===== verification/Paged_Refinement.thy ===== *)
theory Paged_Refinement
  imports Paged_Session Paged_Log
begin

text \<open>
  The paged cache implements its abstract log: every call answers the same, and the rows a reader
  can see are the rows of the log. The properties of the cache are read off this simulation.
\<close>

subsection \<open>Refused writes\<close>

lemma row_checks_not_Panic: "row_checks width layers n written layer token keys values \<noteq> Panic"
  by (auto simp: row_checks_def result_iffs)

lemma write_row_refused:
  assumes A: "append_ok l0 r p" and k: "k = pl_plan l0"
    and bad: "row_checks (width_of k) (layers_of k) (ar_append_tokens r)
      (\<lambda>layer. pl_staged_rows (pool_ledger p) ! layer) layer token keys values = Err e"
  shows "write_layer_row p r layer token keys values = (Err e, p)"
proof -
  have T: "transaction l0 r (pool_ledger p)" using A by (simp add: append_ok_def)
  note D = transactionD [OF T]
  have "paged_write_location_of p r layer token keys values = Err e"
    using bad D(2,11) k
    by (auto simp: row_checks_def paged_write_location_of_def ledger_write_location_of_def check_row_def
        check_layer_def Let_def result_iffs vec_get_def)
  then show ?thesis by (simp add: write_layer_row_def)
qed

subsection \<open>Reads\<close>

lemma layer_row_Ok:
  assumes p: "backed p" and k: "k = plan_of p"
    and fills: "pl_fills (pool_ledger p) = fills_for k (length (pl_table (pool_ledger p))) filled"
    and page: "token div rows_of k < length (pl_table (pool_ledger p))"
    and b: "pl_table (pool_ledger p) ! (token div rows_of k) < bundles_of k"
    and layer: "kv_layer kv < layers_of k" and token: "token < kv_tokens kv" "token < filled"
  shows "layer_row p kv token v = Ok (row_at p (kv_layer kv) v token)"
proof -
  let ?w = "token mod rows_of k" and ?i = "token div rows_of k"
  let ?s = "slot k (pl_table (pool_ledger p) ! ?i) (kv_layer kv) v ?w"
  have "token = ?i * rows_of k + ?w" by simp
  then have fill: "?w < filled - ?i * rows_of k" using token(2) by linarith
  have span: "pool_span p (pl_table (pool_ledger p) ! ?i) (kv_layer kv) ?w v 1 =
      Ok (?s * width_of k, (?s + 1) * width_of k)"
    using pool_span_Ok [OF p k b layer, of ?w 1 v] by (simp add: Suc_leI)
  have "(?s + 1) * width_of k \<le> length (pool_storage p)"
    by (rule backed_row [OF p k b layer]) simp
  then have "vec_slice (pool_storage p) (?s * width_of k, (?s + 1) * width_of k) =
      Some (row_at p (kv_layer kv) v token)"
    by (simp add: vec_slice_def row_in_def Let_def block_def flip: k)
  then show ?thesis
    using page token(1) fills fill span
    by (simp add: layer_row_def Let_def ledger_page_tokens_def require_def vec_get_def nth_fills flip: k)
qed

lemma pool_read:
  assumes p: "pool_ok p"
  shows "and_then (pool_layer_kv p layer) (\<lambda>kv. layer_row p kv token v) =
    and_then (require (layer < layers_of (plan_of p)) (PagedLayerOutOfRange layer (layers_of (plan_of p)))) (\<lambda>_.
    and_then (require (token < pl_committed_tokens (pool_ledger p))
      (PagedReadBeyondVisible token (pl_committed_tokens (pool_ledger p)))) (\<lambda>_.
      Ok (row_at p layer v token)))"
proof (cases "layer < layers_of (plan_of p) \<and> token < pl_committed_tokens (pool_ledger p)")
  case True
  have ok: "ledger_ok (pool_ledger p)" and b: "backed p" using p by (simp_all add: pool_ok_def)
  have "layer_row p \<lparr>kv_layer = layer, kv_tokens = pl_committed_tokens (pool_ledger p)\<rparr> token v = Ok (row_at p layer v token)"
    using layer_row_Ok [OF b refl ledger_okD(4) [OF ok] table_below, of token] ok True by simp
  then show ?thesis using True by (simp add: pool_layer_kv_def check_layer_def require_def)
next
  case False
  then show ?thesis
    by (auto simp: pool_layer_kv_def check_layer_def require_def layer_row_def Let_def)
qed

lemma append_read:
  assumes A: "append_ok l0 r p" and k: "k = pl_plan l0"
    and n: "n = pl_committed_tokens l0 + pl_staged_rows (pool_ledger p) ! layer"
  shows "and_then (append_layer_kv p r layer) (\<lambda>kv. layer_row p kv token v) =
    and_then (require (layer < layers_of k) (PagedLayerOutOfRange layer (layers_of k))) (\<lambda>_.
    and_then (require (token < n) (PagedReadBeyondVisible token n)) (\<lambda>_.
      Ok (row_at p layer v token)))"
proof (cases "layer < layers_of k")
  case True
  have T: "transaction l0 r (pool_ledger p)" and p: "backed p" using A by (simp_all add: append_ok_def)
  note D = transactionD [OF T]
  have layer: "layer < length (pl_staged_rows (pool_ledger p))" using True D(11) k by simp
  then have staged: "pl_staged_rows (pool_ledger p) ! layer \<le> ar_append_tokens r"
    "pl_staged_rows (pool_ledger p) ! layer \<le> Max (set (pl_staged_rows (pool_ledger p)))"
    using D(12) by simp_all
  have kp: "k = plan_of p" using k D(2) by simp
  have "pl_committed_tokens l0 + pl_staged_rows (pool_ledger p) ! layer < 2 ^ 64"
    using staged(1) D(6,7) plannedD(4) [OF ledger_okD(1) [OF D(1)]] by linarith
  then have kv: "append_layer_kv p r layer = Ok \<lparr>kv_layer = layer, kv_tokens = n\<rparr>"
    using True layer D(2,4) k n
    by (simp add: append_layer_kv_def visible_tokens_def check_layer_def require_def vec_get_def usize_add_def)
  show ?thesis
  proof (cases "token < n")
    case True
    then have "token < ar_target_tokens r" using n staged(1) D(6) by simp
    note at = staged_table [OF T this, folded k]
    have "token < pl_committed_tokens l0 + Max (set (pl_staged_rows (pool_ledger p)))"
      using True n staged(2) by simp
    then have "layer_row p \<lparr>kv_layer = layer, kv_tokens = n\<rparr> token v = Ok (row_at p layer v token)"
      using layer_row_Ok [OF p kp _ at, where kv = "\<lparr>kv_layer = layer, kv_tokens = n\<rparr>"] D(13) True \<open>layer < layers_of k\<close>
      unfolding k by simp
    then show ?thesis using kv True \<open>layer < layers_of k\<close> by (simp add: require_def)
  next
    case False
    then show ?thesis using kv True by (simp add: layer_row_def Let_def require_def)
  qed
next
  case False
  have "plan_of p = k" using A k transactionD(2) by (auto simp: append_ok_def)
  then show ?thesis using False by (simp add: append_layer_kv_def visible_tokens_def check_layer_def require_def)
qed

subsection \<open>The abstraction\<close>

definition log_view :: "paged_pool \<Rightarrow> log_stage \<Rightarrow> kv_log" where
  "log_view p st =
     \<lparr>log_width = width_of (plan_of p), log_limit = geo_max_context (pk_geometry (plan_of p)),
      log_rows = map (\<lambda>layer. map (\<lambda>t. (row_at p layer False t, row_at p layer True t))
        [0..<pl_committed_tokens (pool_ledger p) + pl_staged_rows (pool_ledger p) ! layer]) [0..<layers_of (plan_of p)],
      log_committed = pl_committed_tokens (pool_ledger p), log_stage = st\<rparr>"

fun stage_view :: "append_stage \<Rightarrow> log_stage" where
  "stage_view Closed = Idle"
| "stage_view (Open r) = Appending (ar_append_tokens r)"
| "stage_view (Verified r) = Sealed (ar_append_tokens r)"

definition log_of :: "paged_session \<Rightarrow> kv_log" where
  "log_of s = log_view (ses_pool s) (stage_view (ses_stage s))"

definition session_ok :: "paged_session \<Rightarrow> bool" where
  "session_ok s \<longleftrightarrow>
     (case ses_stage s of
        Closed \<Rightarrow> pool_ok (ses_pool s)
      | Open r \<Rightarrow> \<exists>l0. append_ok l0 r (ses_pool s)
      | Verified r \<Rightarrow> \<exists>l0. append_ok l0 r (ses_pool s) \<and>
          (\<forall>w \<in> set (pl_staged_rows (pool_ledger (ses_pool s))). w = ar_append_tokens r))"

lemma log_view_fields [simp]:
  "log_width (log_view p st) = width_of (plan_of p)"
  "log_limit (log_view p st) = geo_max_context (pk_geometry (plan_of p))"
  "length (log_rows (log_view p st)) = layers_of (plan_of p)"
  "log_committed (log_view p st) = pl_committed_tokens (pool_ledger p)"
  "log_stage (log_view p st) = st"
  by (simp_all add: log_view_def)

lemma log_view_restage [simp]: "(log_view p st)\<lparr>log_stage := st'\<rparr> = log_view p st'"
  by (simp add: log_view_def)

lemma log_view_row:
  "layer < layers_of (plan_of p) \<Longrightarrow> log_rows (log_view p st) ! layer =
     map (\<lambda>t. (row_at p layer False t, row_at p layer True t))
       [0..<pl_committed_tokens (pool_ledger p) + pl_staged_rows (pool_ledger p) ! layer]"
  by (simp add: log_view_def)

lemma log_view_written:
  "layer < layers_of (plan_of p) \<Longrightarrow> log_written (log_view p st) layer = pl_staged_rows (pool_ledger p) ! layer"
  by (simp add: log_written_def log_view_row)

lemma log_view_read:
  assumes "n = pl_committed_tokens (pool_ledger p) + pl_staged_rows (pool_ledger p) ! layer"
  shows "log_read (log_view p st) layer token v =
    map_result RowRead (\<lambda>e. e)
      (and_then (require (layer < layers_of (plan_of p)) (PagedLayerOutOfRange layer (layers_of (plan_of p)))) (\<lambda>_.
       and_then (require (token < n) (PagedReadBeyondVisible token n)) (\<lambda>_. Ok (row_at p layer v token))))"
  using assms by (auto simp: log_read_def require_def log_view_row)

text \<open>Two pools with the same counters and the same visible rows have the same log.\<close>

lemma log_view_eqI:
  assumes "plan_of p' = plan_of p" and "pl_committed_tokens (pool_ledger p') = pl_committed_tokens (pool_ledger p)"
    and "pl_staged_rows (pool_ledger p') = pl_staged_rows (pool_ledger p)"
    and "\<And>layer v t. layer < layers_of (plan_of p) \<Longrightarrow>
      t < pl_committed_tokens (pool_ledger p) + pl_staged_rows (pool_ledger p) ! layer \<Longrightarrow>
      row_at p' layer v t = row_at p layer v t"
  shows "log_view p' st = log_view p st"
  using assms by (simp add: log_view_def)

subsection \<open>The simulation, call by call\<close>

lemma simulate_begin:
  assumes p: "pool_ok p"
  obtains (refused) e where "pool_begin_append p a = (Err e, p)" "log_begin (log_view p Idle) a = (Err e, log_view p Idle)"
  | (begun) r p' where "pool_begin_append p a = (Ok r, p')" "append_ok (pool_ledger p) r p'"
      "ar_append_tokens r = a" "log_begin (log_view p Idle) a = (Ok Begun, log_view p' (Appending a))"
proof (cases "a = 0 \<or> geo_max_context (pk_geometry (plan_of p)) < pl_committed_tokens (pool_ledger p) + a")
  case True
  then show thesis using pool_begin_refused [OF p True] by (intro refused) (auto simp: log_begin_def)
next
  case False
  then have a: "0 < a" "pl_committed_tokens (pool_ledger p) + a \<le> geo_max_context (pk_geometry (plan_of p))"
    by simp_all
  obtain r p' where started: "pool_begin_append p a = (Ok r, p')" and A: "append_ok (pool_ledger p) r p'"
    and tokens: "ar_append_tokens r = a" and staged: "pl_staged_rows (pool_ledger p') = replicate (layers_of (plan_of p)) 0"
    and rows: "\<And>layer v t. layer < layers_of (plan_of p) \<Longrightarrow> t < pl_committed_tokens (pool_ledger p) \<Longrightarrow>
      row_at p' layer v t = row_at p layer v t"
    by (rule pool_begin_Ok [OF p a]) blast
  have T: "transaction (pool_ledger p) r (pool_ledger p')" using A by (simp add: append_ok_def)
  have none: "pl_staged_rows (pool_ledger p) = replicate (layers_of (plan_of p)) 0"
    using ledger_okD(5) [OF transactionD(1) [OF T]] .
  have "log_view p' (Appending a) = log_view p (Appending a)"
    using transactionD(2,3) [OF T] staged none rows by (intro log_view_eqI) simp_all
  then have "log_begin (log_view p Idle) a = (Ok Begun, log_view p' (Appending a))"
    using False by (simp add: log_begin_def)
  with started A tokens show thesis by (rule begun)
qed

lemma simulate_write:
  assumes A: "append_ok l0 r p"
  obtains (refused) e where "write_layer_row p r layer token keys vals = (Err e, p)"
      "log_write (log_view p st) (ar_append_tokens r) layer token keys vals = (Err e, log_view p st)"
  | (written) p' where "write_layer_row p r layer token keys vals = (Ok (), p')" "append_ok l0 r p'"
      "log_write (log_view p st) (ar_append_tokens r) layer token keys vals = (Ok RowWritten, log_view p' st)"
proof -
  let ?k = "pl_plan l0" and ?staged = "pl_staged_rows (pool_ledger p)"
  let ?checks = "row_checks (width_of ?k) (layers_of ?k) (ar_append_tokens r) (\<lambda>layer. ?staged ! layer) layer token keys vals"
  have T: "transaction l0 r (pool_ledger p)" using A by (simp add: append_ok_def)
  note D = transactionD [OF T]
  have same: "row_checks (log_width (log_view p st)) (length (log_rows (log_view p st))) (ar_append_tokens r)
      (log_written (log_view p st)) layer token keys vals = ?checks"
    using D(2) by (auto simp: row_checks_def require_def log_view_written)
  consider (ok) "?checks = Ok ()" | (bad) e where "?checks = Err e"
    using row_checks_not_Panic by (cases ?checks) auto
  then show thesis
  proof cases
    case bad
    have "log_write (log_view p st) (ar_append_tokens r) layer token keys vals = (Err e, log_view p st)"
      unfolding log_write_def same bad by simp
    with write_row_refused [OF A refl bad] show thesis by (rule refused)
  next
    case ok
    let ?x = "pl_committed_tokens l0 + token"
    have checks: "length keys = width_of ?k" "length vals = width_of ?k" "layer < layers_of ?k"
      "token < ar_append_tokens r" "token = ?staged ! layer"
      using ok by (auto simp: row_checks_def)
    obtain p' where stored: "write_layer_row p r layer token keys vals = (Ok (), p')" and A': "append_ok l0 r p'"
      and staged: "pl_staged_rows (pool_ledger p') = ?staged[layer := Suc token]"
      and rows: "\<And>layer' v t. layer' < layers_of ?k \<Longrightarrow> t < ar_target_tokens r \<Longrightarrow>
        row_at p' layer' v t =
          (if layer' = layer \<and> t = ?x then (if v then vals else keys) else row_at p layer' v t)"
      by (rule write_row_Ok [OF A refl checks(3-5,1,2) refl]) blast
    have T': "transaction l0 r (pool_ledger p')" using A' by (simp add: append_ok_def)
    note D' = transactionD [OF T']
    have below: "pl_committed_tokens l0 + ?staged ! m \<le> ar_target_tokens r" if "m < layers_of ?k" for m
      using D(6,11,12) that by simp
    have here: "row_at p' layer v t = row_at p layer v t" if "t < ?x" for v t
      using rows [OF checks(3), of t v] that D(6) checks(4) by simp
    have there: "row_at p' layer v ?x = (if v then vals else keys)" for v
      using rows [OF checks(3), of ?x v] D(6) checks(4) by simp
    have "log_rows (log_view p' st) = (log_rows (log_view p st))[layer := log_rows (log_view p st) ! layer @ [(keys, vals)]]"
    proof (rule nth_equalityI)
      fix m
      assume "m < length (log_rows (log_view p' st))"
      then have m: "m < layers_of ?k" using D'(2) by simp
      show "log_rows (log_view p' st) ! m =
          (log_rows (log_view p st))[layer := log_rows (log_view p st) ! layer @ [(keys, vals)]] ! m"
      proof (cases "m = layer")
        case True
        then show ?thesis
          using checks(3,5) D(2,3,11) D'(2,3) staged here there by (simp add: log_view_row)
      next
        case False
        then show ?thesis
          using m D(2,3) D'(2,3) staged rows [OF m] below [OF m] by (simp add: log_view_row)
      qed
    qed (use D(2) D'(2) in simp)
    then have "log_write (log_view p st) (ar_append_tokens r) layer token keys vals = (Ok RowWritten, log_view p' st)"
      unfolding log_write_def same ok using D(2,3) D'(2,3) by (simp add: log_view_def)
    with stored A' show thesis by (rule written)
  qed
qed

lemma simulate_abandon:
  assumes A: "append_ok l0 r p"
  shows "abandon_append p r = p\<lparr>pool_ledger := l0\<rparr>" and "pool_ok (p\<lparr>pool_ledger := l0\<rparr>)"
    and "log_abandon (log_view p st) = log_view (p\<lparr>pool_ledger := l0\<rparr>) Idle"
proof -
  have T: "transaction l0 r (pool_ledger p)" and b: "backed p" using A by (simp_all add: append_ok_def)
  note D = transactionD [OF T]
  note I = ledger_okD [OF D(1)]
  show "abandon_append p r = p\<lparr>pool_ledger := l0\<rparr>" by (simp add: abandon_append_def rollback_restores [OF T])
  show "pool_ok (p\<lparr>pool_ledger := l0\<rparr>)" using D(1,2) b by (simp add: pool_ok_def backed_def)
  have "map (take (pl_committed_tokens l0)) (log_rows (log_view p st)) = log_rows (log_view (p\<lparr>pool_ledger := l0\<rparr>) Idle)"
  proof (rule nth_equalityI)
    fix m
    assume "m < length (map (take (pl_committed_tokens l0)) (log_rows (log_view p st)))"
    then have m: "m < layers_of (pl_plan l0)" using D(2) by simp
    then show "map (take (pl_committed_tokens l0)) (log_rows (log_view p st)) ! m =
        log_rows (log_view (p\<lparr>pool_ledger := l0\<rparr>) Idle) ! m"
      using D(2,3) I(5) committed_row [OF A _ m]
      by (simp add: log_view_row take_map take_upt)
  qed (use D(2) in simp)
  then show "log_abandon (log_view p st) = log_view (p\<lparr>pool_ledger := l0\<rparr>) Idle"
    using D(2,3) by (simp add: log_abandon_def log_view_def)
qed

lemma simulate_publish:
  assumes A: "append_ok l0 r p" and all: "\<forall>w \<in> set (pl_staged_rows (pool_ledger p)). w = ar_append_tokens r"
  shows "pool_ok (publish_append p r)"
    and "log_publish (log_view p st) (ar_append_tokens r) = log_view (publish_append p r) Idle"
proof -
  have T: "transaction l0 r (pool_ledger p)" and b: "backed p" using A by (simp_all add: append_ok_def)
  note D = transactionD [OF T]
  show "pool_ok (publish_append p r)"
    using publish_ok [OF T all] b by (simp add: pool_ok_def publish_append_def backed_def publish_commit_def clear_staged_def)
  have "pl_staged_rows (pool_ledger p) ! m = ar_append_tokens r" if "m < layers_of (pl_plan l0)" for m
    using all D(11) that by simp
  then have "log_rows (log_view (publish_append p r) Idle) = log_rows (log_view p st)"
    using D(2,3,6,11)
    by (intro nth_equalityI)
      (simp_all add: log_view_row publish_append_def publish_commit_def clear_staged_def row_in_def)
  then show "log_publish (log_view p st) (ar_append_tokens r) = log_view (publish_append p r) Idle"
    using D(2,3,6)
    by (simp add: log_publish_def) (simp add: log_view_def publish_append_def publish_commit_def clear_staged_def)
qed

lemma find_map: "List.find P (map f xs) = map_option f (List.find (P \<circ> f) xs)"
  by (induction xs) simp_all

lemma simulate_prepare:
  assumes A: "append_ok l0 r p"
  obtains (refused) e where "prepare_commit p r = (Err e, p\<lparr>pool_ledger := l0\<rparr>)"
      "log_prepare (log_view p st) (ar_append_tokens r) = (Err e, log_view (p\<lparr>pool_ledger := l0\<rparr>) Idle)"
  | (prepared) "prepare_commit p r = (Ok (), p)"
      "log_prepare (log_view p st) (ar_append_tokens r) = (Ok CommitPrepared, log_view p (Sealed (ar_append_tokens r)))"
      "\<forall>w \<in> set (pl_staged_rows (pool_ledger p)). w = ar_append_tokens r"
proof -
  let ?staged = "pl_staged_rows (pool_ledger p)" and ?a = "ar_append_tokens r"
  have T: "transaction l0 r (pool_ledger p)" using A by (simp add: append_ok_def)
  note D = transactionD [OF T]
  have len: "length ?staged = layers_of (plan_of p)" using D(2,11) by simp
  let ?found = "List.find (\<lambda>layer. ?staged ! layer \<noteq> ?a) [0..<length ?staged]"
  have find: "List.find (\<lambda>(layer, written). written \<noteq> ?a) (enumerate 0 ?staged) =
      map_option (\<lambda>i. (i, ?staged ! i)) ?found"
    by (simp add: enumerate_nth find_map comp_def)
  have log_find: "List.find (\<lambda>layer. log_written (log_view p st) layer \<noteq> ?a) [0..<length (log_rows (log_view p st))] = ?found"
    using len by (intro find_cong) (simp_all add: log_view_written)
  show thesis
  proof (cases ?found)
    case None
    then have "\<forall>w \<in> set ?staged. w = ?a" by (auto simp: find_None_iff in_set_conv_nth)
    then show thesis
      using None find log_find by (intro prepared) (simp_all add: prepare_commit_def validate_commit_def log_prepare_def)
  next
    case (Some m)
    then have "m < layers_of (plan_of p)" using len by (auto simp: find_Some_iff)
    then show thesis
      using Some find log_find simulate_abandon(1) [OF A] simulate_abandon(3) [OF A, of st]
      by (intro refused) (simp_all add: prepare_commit_def validate_commit_def log_prepare_def log_view_written)
  qed
qed

subsection \<open>The simulation\<close>

lemma in_stage_fields [simp]: "ses_pool (in_stage st p) = p" "ses_stage (in_stage st p) = st"
  by (simp_all add: in_stage_def)

lemma simulate_step:
  assumes s: "session_ok s" and step: "session_step s c = (res, s')"
  shows "log_step (log_of s) c = (res, log_of s')" and "session_ok s'"
proof -
  let ?p = "ses_pool s"
  have "log_step (log_of s) c = (res, log_of s') \<and> session_ok s'"
  proof (cases "ses_stage s")
    case Closed
    have p: "pool_ok ?p" using s Closed by (simp add: session_ok_def)
    have none: "pl_staged_rows (pool_ledger ?p) = replicate (layers_of (plan_of ?p)) 0"
      using p ledger_okD(5) by (simp add: pool_ok_def)
    show ?thesis
    proof (cases c)
      case (BeginAppend n)
      from p show ?thesis
      proof (cases rule: simulate_begin [where a = n])
        case (refused e)
        then show ?thesis using step s Closed BeginAppend p
          by (auto simp: session_step_def Let_def log_step_def log_of_def session_ok_def)
      next
        case (begun r p')
        then show ?thesis using step s Closed BeginAppend
          by (auto simp: session_step_def Let_def log_step_def log_of_def session_ok_def)
      qed
    next
      case (ReadRow layer token v)
      have "log_read (log_view ?p Idle) layer token v = map_result RowRead (\<lambda>e. e)
          (and_then (pool_layer_kv ?p layer) (\<lambda>kv. layer_row ?p kv token v))"
        unfolding pool_read [OF p] using none
        by (cases "layer < layers_of (plan_of ?p)") (simp_all add: log_view_read require_def)
      then show ?thesis using step s Closed ReadRow by (auto simp: session_step_def Let_def log_step_def log_of_def)
    qed (use step s Closed in \<open>auto simp: session_step_def Let_def log_step_def log_of_def\<close>)
  next
    case (Open r)
    then obtain l0 where A: "append_ok l0 r ?p" using s by (auto simp: session_ok_def)
    then have plan: "plan_of ?p = pl_plan l0" "pl_committed_tokens (pool_ledger ?p) = pl_committed_tokens l0"
      using transactionD(2,3) by (auto simp: append_ok_def)
    show ?thesis
    proof (cases c)
      case (WriteRow layer token keys vals)
      from A show ?thesis
      proof (cases rule: simulate_write [where layer = layer and token = token and keys = keys
            and vals = vals and st = "Appending (ar_append_tokens r)"])
        case (refused e)
        then show ?thesis using step A Open WriteRow
          by (auto simp: session_step_def Let_def log_step_def log_of_def session_ok_def)
      next
        case (written p')
        then show ?thesis using step Open WriteRow
          by (auto simp: session_step_def Let_def log_step_def log_of_def session_ok_def)
      qed
    next
      case (ReadRow layer token v)
      have "log_read (log_view ?p (Appending (ar_append_tokens r))) layer token v = map_result RowRead (\<lambda>e. e)
          (and_then (append_layer_kv ?p r layer) (\<lambda>kv. layer_row ?p kv token v))"
        unfolding append_read [OF A refl refl] by (simp add: log_view_read plan)
      then show ?thesis using step s Open ReadRow by (auto simp: session_step_def Let_def log_step_def log_of_def)
    next
      case PrepareCommit
      from A show ?thesis
      proof (cases rule: simulate_prepare [where st = "Appending (ar_append_tokens r)"])
        case (refused e)
        then show ?thesis using step Open PrepareCommit simulate_abandon(2) [OF A]
          by (auto simp: session_step_def Let_def log_step_def log_of_def session_ok_def)
      next
        case prepared
        then show ?thesis using step A Open PrepareCommit
          by (auto simp: session_step_def Let_def log_step_def log_of_def session_ok_def)
      qed
    next
      case Abandon
      then show ?thesis using step Open simulate_abandon [OF A]
        by (auto simp: session_step_def Let_def log_step_def log_of_def session_ok_def)
    qed (use step s Open in \<open>auto simp: session_step_def Let_def log_step_def log_of_def\<close>)
  next
    case (Verified r)
    then obtain l0 where A: "append_ok l0 r ?p"
      and all: "\<forall>w \<in> set (pl_staged_rows (pool_ledger ?p)). w = ar_append_tokens r"
      using s by (auto simp: session_ok_def)
    show ?thesis
    proof (cases c)
      case Publish
      then show ?thesis using step Verified simulate_publish [OF A all]
        by (auto simp: session_step_def Let_def log_step_def log_of_def session_ok_def)
    next
      case Abandon
      then show ?thesis using step Verified simulate_abandon [OF A]
        by (auto simp: session_step_def Let_def log_step_def log_of_def session_ok_def)
    qed (use step s Verified in \<open>auto simp: session_step_def Let_def log_step_def log_of_def\<close>)
  qed
  then show "log_step (log_of s) c = (res, log_of s')" and "session_ok s'" by simp_all
qed

interpretation paged: simulation session_step session_ok log_step log_of
  by unfold_locales (fact simulate_step)+

end
