(* ===== verification/Paged_Properties.thy ===== *)
theory Paged_Properties
  imports Paged_Refinement
begin

text \<open>
  The properties of the paged cache, over every sequence of calls a client can make on a pool that
  was just built: it answers as the abstract log, it never reports a broken layout, committed rows
  never change, an abandoned append leaves no trace, and no bundle is lost or shared.
\<close>

subsection \<open>A pool that was just built\<close>

lemma pool_new_ok:
  assumes k: "paged_plan_new g tokens = Ok k" and p: "paged_pool_new grants k = Ok p"
  shows "session_ok (in_stage Closed p)" and "log_of (in_stage Closed p) = log_new g"
proof -
  have planned: "planned k" and g: "pk_geometry k = g" using plan_new_planned [OF k] by simp_all
  have p: "p = \<lparr>pool_ledger = \<lparr>pl_plan = k, pl_table = [], pl_fills = [], pl_free = rev [0..<bundles_of k],
      pl_staged_rows = replicate (layers_of k) 0, pl_committed_tokens = 0\<rparr>,
      pool_storage = replicate (al_requested_f32 (pk_allocation k)) 0\<rparr>"
    using p by (auto simp: paged_pool_new_def paged_ledger_new_def Let_def)
  have "pages k 0 = 0" by (simp add: pages_for_div)
  then show "session_ok (in_stage Closed p)"
    using planned by (simp add: session_ok_def pool_ok_def backed_def ledger_ok_def p fills_for_def atLeast0LessThan)
  show "log_of (in_stage Closed p) = log_new g"
    by (auto simp: log_of_def log_view_def log_new_def p g intro!: nth_equalityI)
qed

lemma reached_ok:
  assumes "paged_plan_new g tokens = Ok k" and "paged_pool_new grants k = Ok p"
    and "session_run (in_stage Closed p) cs = (rs, s)"
  shows "session_ok s" and "log_run (log_new g) cs = (rs, log_of s)"
  using paged.trace_simulates [OF pool_new_ok(1) [OF assms(1,2)] assms(3)] pool_new_ok(2) [OF assms(1,2)] by simp_all

lemma simulate_fst:
  assumes "paged_plan_new g tokens = Ok k" and "paged_pool_new grants k = Ok p"
  shows "fst (session_run (in_stage Closed p) cs) = fst (log_run (log_new g) cs)"
  using paged.same_replies [OF pool_new_ok(1) [OF assms]] pool_new_ok(2) [OF assms] by simp

subsection \<open>Refinement\<close>

text \<open>C3: the paged cache implements the abstract log of rows. On a pool that was just built for a
  plan, every sequence of begin, write, read, prepare, publish and abandon calls gets exactly the
  replies and the errors of the log, whatever pages, bundles and tail copies lie underneath.\<close>

theorem paged_cache_refines_log:
  assumes "paged_plan_new g tokens = Ok k" and "paged_pool_new grants k = Ok p"
  shows "fst (session_run (in_stage Closed p) cs) = fst (log_run (log_new g) cs)"
  by (rule simulate_fst [OF assms])

definition sample_pool :: paged_pool where
  "sample_pool = \<lparr>pool_ledger = \<lparr>pl_plan = sample_paged_plan, pl_table = [], pl_fills = [],
       pl_free = [3, 2, 1, 0], pl_staged_rows = [0, 0], pl_committed_tokens = 0\<rparr>,
     pool_storage = replicate 512 0\<rparr>"

definition sample_row :: "nat \<Rightarrow> f32 list" where
  "sample_row i = replicate 4 (of_nat i)"

definition sample_append :: "usize \<Rightarrow> usize \<Rightarrow> paged_call list" where
  "sample_append first n = BeginAppend n # concat (map (\<lambda>t.
     [WriteRow 0 t (sample_row (first + t)) (sample_row (first + t)),
      WriteRow 1 t (sample_row (first + t)) (sample_row (first + t))]) [0..<n])"

definition sample_calls :: "paged_call list" where
  "sample_calls = sample_append 1 3 @ [PrepareCommit, Publish] @ sample_append 7 2 @ [Abandon, ReadRow 1 2 True, ReadRow 1 3 True]"

lemma sample_plan_B8: "paged_plan_new sample_geometry B8 = Ok sample_paged_plan"
  by (simp add: sample_plan_new sample_paged_plan_def)

lemma sample_numbers:
  "al_page_count (pk_allocation sample_paged_plan) = 3" "bundles_of sample_paged_plan = 4"
  "al_requested_f32 (pk_allocation sample_paged_plan) = 512" "layers_of sample_paged_plan = 2"
  by (simp_all add: sample_paged_plan_def sample_geometry_def exact_allocation_def pages_for_def
      bundle_size_def Let_def)

lemma sample_pool_new: "paged_pool_new (\<lambda>_. True) sample_paged_plan = Ok sample_pool"
proof -
  have "replicate 2 0 = [0, 0 :: nat]" by (simp add: numeral_2_eq_2)
  then show ?thesis
    by (simp add: paged_pool_new_def paged_ledger_new_def reserve_capacity_def sample_numbers sample_pool_def
        upt_rec Let_def)
qed

lemma sample_log_replies:
  "drop 13 (fst (log_run (log_new sample_geometry) sample_calls)) =
     [Ok RowWritten, Ok Abandoned, Ok (RowRead (sample_row 3)), Err (PagedReadBeyondVisible 3 3)]"
  by (simp add: sample_calls_def sample_append_def trace.simps(2) log_step_def log_new_def sample_geometry_def upt_rec
      log_begin_def log_write_def log_prepare_def log_publish_def log_abandon_def log_read_def row_checks_def
      require_def log_written_def sample_row_def numeral_eq_Suc)

theorem paged_cache_refines_log_witness:
  "fst (session_run (in_stage Closed sample_pool) sample_calls) = fst (log_run (log_new sample_geometry) sample_calls) \<and>
   drop 13 (fst (log_run (log_new sample_geometry) sample_calls)) =
     [Ok RowWritten, Ok Abandoned, Ok (RowRead (sample_row 3)), Err (PagedReadBeyondVisible 3 3)]"
  using paged_cache_refines_log [OF sample_plan_B8 sample_pool_new, of sample_calls] sample_log_replies by blast

subsection \<open>Errors\<close>

text \<open>The errors that say something about the call, not about the pool.\<close>

fun client_mistake :: "paged_error \<Rightarrow> bool" where
  "client_mistake PagedEmptyAppend = True"
| "client_mistake (PagedContextOverflow a b c) = True"
| "client_mistake (PagedLayerOutOfRange a b) = True"
| "client_mistake (PagedRowWidth kind a b c) = True"
| "client_mistake (PagedAppendTokenOutOfRange a b) = True"
| "client_mistake (PagedWriteOrder a b c) = True"
| "client_mistake (PagedReadBeyondVisible a b) = True"
| "client_mistake (PagedIncompleteAppend a b c) = True"
| "client_mistake e = False"

fun sound_reply :: "('a, paged_error) result \<Rightarrow> bool" where
  "sound_reply (Ok x) = True"
| "sound_reply (Err e) = client_mistake e"
| "sound_reply Panic = False"

lemma sound_and_then:
  "sound_reply (and_then (require b e) f) \<longleftrightarrow> (if b then sound_reply (f ()) else client_mistake e)"
  by (simp add: require_def)

lemma row_checks_sound: "sound_reply (row_checks width layers n written layer token keys vals)"
  by (simp add: row_checks_def sound_and_then require_def)

lemma log_read_sound: "sound_reply (log_read s layer token v)"
  by (simp add: log_read_def sound_and_then)

lemma log_step_sound: "sound_reply (fst (log_step s c))"
proof -
  have "sound_reply (fst (log_write s n layer token keys vals))" for n layer token keys vals
    using row_checks_sound [of "log_width s" "length (log_rows s)" n "log_written s" layer token keys vals]
    by (cases "row_checks (log_width s) (length (log_rows s)) n (log_written s) layer token keys vals")
      (simp_all add: log_write_def)
  then show ?thesis
    by (auto simp: log_step_def log_begin_def log_prepare_def log_read_sound
        split: log_stage.split paged_call.split option.split)
qed

lemma log_run_sound: "list_all sound_reply (fst (log_run s cs))"
proof (induction cs arbitrary: s)
  case (Cons c cs)
  then show ?case using log_step_sound [of s c] by (simp add: trace_Cons)
qed simp

text \<open>No sequence of calls makes the cache panic, run out of bundles or report a broken layout
  or an overflow. The only errors are the ones that name a mistake of the caller; the checked
  arithmetic, the table lookups and the free list never fail on a pool that was built from a plan.\<close>

theorem paged_errors_are_the_clients:
  assumes "paged_plan_new g tokens = Ok k" and "paged_pool_new grants k = Ok p"
  shows "list_all sound_reply (fst (session_run (in_stage Closed p) cs))"
  unfolding simulate_fst [OF assms] by (rule log_run_sound)

theorem paged_errors_are_the_clients_witness:
  "list_all sound_reply (fst (session_run (in_stage Closed sample_pool) sample_calls))"
  by (rule paged_errors_are_the_clients [OF sample_plan_B8 sample_pool_new])

subsection \<open>What an append can change\<close>

text \<open>The first \<open>c\<close> rows of every layer are \<open>rows\<close>, and the stage agrees with the lengths.\<close>

definition log_keeps :: "nat \<Rightarrow> (f32 list \<times> f32 list) list list \<Rightarrow> kv_log \<Rightarrow> bool" where
  "log_keeps c rows s \<longleftrightarrow> c \<le> log_committed s \<and> map (take c) (log_rows s) = rows \<and>
     (\<forall>xs \<in> set (log_rows s). log_committed s \<le> length xs \<and>
        (log_stage s = Idle \<longrightarrow> length xs = log_committed s) \<and>
        (\<forall>n. log_stage s = Sealed n \<longrightarrow> length xs = log_committed s + n))"

lemma log_keeps_write:
  assumes "log_keeps c rows s" and "log_stage s = Appending n"
  shows "log_keeps c rows (s\<lparr>log_rows := (log_rows s)[layer := log_rows s ! layer @ [row]]\<rparr>)"
proof (cases "layer < length (log_rows s)")
  case True
  have "c \<le> length (log_rows s ! layer)"
    using assms(1) True nth_mem [OF True] unfolding log_keeps_def by (meson le_trans)
  then have "map (take c) ((log_rows s)[layer := log_rows s ! layer @ [row]]) = map (take c) (log_rows s)"
    using True by (simp add: map_update list_update_same_conv)
  moreover have "log_committed s \<le> length (log_rows s ! layer @ [row])"
    using assms(1) nth_mem [OF True] by (auto simp: log_keeps_def)
  ultimately show ?thesis
    using assms set_update_subset_insert [of "log_rows s" layer "log_rows s ! layer @ [row]"]
    by (auto simp: log_keeps_def)
qed (use assms in \<open>simp add: list_update_beyond\<close>)

lemma log_keeps_abandon: "log_keeps c rows s \<Longrightarrow> log_keeps c rows (log_abandon s)"
  by (auto simp: log_keeps_def log_abandon_def min_absorb2 min_absorb1)

lemma log_keeps_step:
  assumes "log_keeps c rows s"
  shows "log_keeps c rows (snd (log_step s a))"
proof -
  have "log_keeps c rows (snd (log_write s n layer token ks vs))" if "log_stage s = Appending n" for n layer token ks vs
    using log_keeps_write [OF assms that] assms
    by (cases "row_checks (log_width s) (length (log_rows s)) n (log_written s) layer token ks vs")
      (simp_all add: log_write_def)
  moreover have "log_keeps c rows (snd (log_prepare s n))" if "log_stage s = Appending n" for n
  proof (cases "List.find (\<lambda>layer. log_written s layer \<noteq> n) [0..<length (log_rows s)]")
    case None
    have "length xs = log_committed s + n" if xs: "xs \<in> set (log_rows s)" for xs
    proof -
      obtain layer where "layer < length (log_rows s)" "xs = log_rows s ! layer"
        using xs by (auto simp: in_set_conv_nth)
      then have "length xs - log_committed s = n" using None by (auto simp: find_None_iff log_written_def)
      moreover have "log_committed s \<le> length xs" using assms xs by (simp add: log_keeps_def)
      ultimately show ?thesis by linarith
    qed
    then show ?thesis using None assms by (simp add: log_prepare_def log_keeps_def)
  next
    case (Some layer)
    then show ?thesis using log_keeps_abandon [OF assms] by (simp add: log_prepare_def)
  qed
  moreover have "log_keeps c rows (log_publish s n)" if "log_stage s = Sealed n" for n
    using assms that by (auto simp: log_keeps_def log_publish_def)
  moreover have "log_keeps c rows (snd (log_begin s n))" if "log_stage s = Idle" for n
    using assms that by (auto simp: log_begin_def log_keeps_def)
  ultimately show ?thesis
    using assms log_keeps_abandon [OF assms]
    by (auto simp: log_step_def split: log_stage.split paged_call.split)
qed

lemma log_keeps_run: "log_keeps c rows s \<Longrightarrow> log_keeps c rows (snd (log_run s as))"
  by (induction as arbitrary: s) (simp_all add: trace_Cons log_keeps_step)

lemma log_keeps_new: "log_keeps 0 (replicate (geo_layers g) []) (log_new g)"
  by (simp add: log_keeps_def log_new_def)

lemma log_keeps_restart:
  "log_keeps c rows s \<Longrightarrow> log_keeps (log_committed s) (map (take (log_committed s)) (log_rows s)) s"
  by (simp add: log_keeps_def)

subsection \<open>Committed rows\<close>

lemma log_read_kept:
  assumes "log_keeps c rows s" and "log_keeps c rows s'" and "token < c"
    and "log_read s layer token v = Ok x"
  shows "log_read s' layer token v = Ok x"
proof -
  have "length (log_rows s') = length (log_rows s)"
    and take: "map (take c) (log_rows s') = map (take c) (log_rows s)"
    using assms(1,2) by (auto simp: log_keeps_def dest: map_eq_imp_length_eq)
  moreover have layer: "layer < length (log_rows s)" using assms(4) by (auto simp: log_read_def)
  moreover have "c \<le> length (log_rows s' ! layer)"
    using assms(2) layer calculation(1) nth_mem unfolding log_keeps_def by (metis le_trans)
  moreover have "take c (log_rows s' ! layer) = take c (log_rows s ! layer)"
    using take layer calculation(1) by (metis nth_map)
  then have "log_rows s' ! layer ! token = log_rows s ! layer ! token"
    using assms(3) by (metis nth_take)
  ultimately show ?thesis using assms(3,4) by (auto simp: log_read_def)
qed

lemma session_read:
  assumes "session_ok s" and "\<forall>r. ses_stage s \<noteq> Verified r"
  shows "fst (session_step s (ReadRow layer token v)) = log_read (log_of s) layer token v"
proof -
  have "fst (log_step (log_of s) (ReadRow layer token v)) = fst (session_step s (ReadRow layer token v))"
    using simulate_step(1) [OF assms(1)] by (metis prod.collapse fst_conv)
  then show ?thesis
    using assms(2) by (cases "ses_stage s") (simp_all add: log_step_def log_of_def)
qed

lemma session_keeps:
  assumes "paged_plan_new g tokens = Ok k" and "paged_pool_new grants k = Ok p"
    and "session_run (in_stage Closed p) cs = (rs, s)" and "session_run s ds = (qs, u)"
  obtains rows where "log_keeps (pl_committed_tokens (pool_ledger (ses_pool s))) rows (log_of s)"
    and "log_keeps (pl_committed_tokens (pool_ledger (ses_pool s))) rows (log_of u)"
    and "session_ok s" and "session_ok u" and "log_run (log_of s) ds = (qs, log_of u)"
proof -
  let ?c = "log_committed (log_of s)"
  note S = reached_ok [OF assms(1-3)]
  have U: "log_run (log_of s) ds = (qs, log_of u)" "session_ok u" using paged.trace_simulates [OF S(1) assms(4)] by simp_all
  have "log_keeps 0 (replicate (geo_layers g) []) (log_of s)"
    using log_keeps_run [OF log_keeps_new, of g cs] S(2) by simp
  note s = log_keeps_restart [OF this]
  have u: "log_keeps ?c (map (take ?c) (log_rows (log_of s))) (log_of u)"
    using log_keeps_run [OF s, of ds] U(1) by simp
  have "?c = pl_committed_tokens (pool_ledger (ses_pool s))" by (simp add: log_of_def)
  then show thesis using that s u S(1) U by metis
qed

text \<open>C20: committed rows never change. A key or value row of a committed token that a reader can
  see stays the same through every later sequence of calls: appends that replace the partly filled
  tail page, rows written to it, commits, aborts and failed calls included.\<close>

theorem committed_rows_never_change:
  assumes "paged_plan_new g tokens = Ok k" and "paged_pool_new grants k = Ok p"
    and "session_run (in_stage Closed p) cs = (rs, s)"
    and "token < pl_committed_tokens (pool_ledger (ses_pool s))"
    and "fst (session_step s (ReadRow layer token v)) = Ok (RowRead row)"
    and "session_run s ds = (qs, u)" and "\<forall>r. ses_stage u \<noteq> Verified r"
  shows "fst (session_step u (ReadRow layer token v)) = Ok (RowRead row)"
proof -
  obtain rows where K: "log_keeps (pl_committed_tokens (pool_ledger (ses_pool s))) rows (log_of s)"
      "log_keeps (pl_committed_tokens (pool_ledger (ses_pool s))) rows (log_of u)" "session_ok s" "session_ok u"
    by (rule session_keeps [OF assms(1-3,6)])
  have "\<forall>r. ses_stage s \<noteq> Verified r" using assms(5) by (auto simp: session_step_def Let_def)
  then have "log_read (log_of s) layer token v = Ok (RowRead row)" using assms(5) session_read [OF K(3)] by metis
  then show ?thesis
    using log_read_kept [OF K(1,2) assms(4)] session_read [OF K(4) assms(7)] by simp
qed

text \<open>A session with three committed tokens, seen through its log.\<close>

definition sample_session :: paged_session where
  "sample_session = snd (session_run (in_stage Closed sample_pool) (sample_append 1 3 @ [PrepareCommit, Publish]))"

definition sample_log :: kv_log where
  "sample_log = \<lparr>log_width = 4, log_limit = 20,
     log_rows = replicate 2 [(sample_row 1, sample_row 1), (sample_row 2, sample_row 2), (sample_row 3, sample_row 3)],
     log_committed = 3, log_stage = Idle\<rparr>"

lemmas log_run_eval = sample_append_def trace.simps(2) log_step_def log_begin_def log_write_def log_prepare_def
  log_publish_def log_abandon_def log_read_def row_checks_def require_def log_written_def sample_row_def upt_rec

lemma sample_log_run:
  "snd (log_run (log_new sample_geometry) (sample_append 1 3 @ [PrepareCommit, Publish])) = sample_log"
  by (simp add: log_run_eval log_new_def sample_geometry_def sample_log_def numeral_eq_Suc)

lemma sample_session_run:
  "\<exists>rs. session_run (in_stage Closed sample_pool) (sample_append 1 3 @ [PrepareCommit, Publish]) = (rs, sample_session)"
  by (simp add: sample_session_def prod_eq_iff)

lemma sample_session_ok: "session_ok sample_session" and sample_session_log: "log_of sample_session = sample_log"
  using sample_session_run reached_ok [OF sample_plan_B8 sample_pool_new] sample_log_run by (metis snd_conv)+

lemma sample_session_closed: "ses_stage sample_session = Closed"
  using sample_session_log by (cases "ses_stage sample_session") (simp_all add: log_of_def sample_log_def log_view_def)

lemma sample_session_committed: "pl_committed_tokens (pool_ledger (ses_pool sample_session)) = 3"
  using sample_session_log by (simp add: log_of_def sample_log_def log_view_def)

lemma sample_session_read: "fst (session_step sample_session (ReadRow 1 2 True)) = Ok (RowRead (sample_row 3))"
  using session_read [OF sample_session_ok] sample_session_closed sample_session_log
  by (simp add: sample_log_def log_read_def require_def numeral_eq_Suc)

definition sample_open :: paged_session where
  "sample_open = snd (session_run sample_session (sample_append 7 2))"

lemma sample_open_run: "\<exists>qs. session_run sample_session (sample_append 7 2) = (qs, sample_open)"
  by (simp add: sample_open_def prod_eq_iff)

lemma sample_open_stage: "\<forall>r. ses_stage sample_open \<noteq> Verified r"
proof -
  have "log_stage (snd (log_run sample_log (sample_append 7 2))) = Appending 2"
    by (simp add: log_run_eval sample_log_def numeral_eq_Suc)
  then have "log_stage (log_of sample_open) = Appending 2"
    using sample_open_run paged.trace_simulates [OF sample_session_ok] sample_session_log by (metis snd_conv)
  then show ?thesis by (auto simp: log_of_def)
qed

theorem committed_rows_never_change_witness:
  "fst (session_step sample_open (ReadRow 1 2 True)) = Ok (RowRead (sample_row 3))"
proof -
  obtain rs qs where runs: "session_run (in_stage Closed sample_pool) (sample_append 1 3 @ [PrepareCommit, Publish]) = (rs, sample_session)"
    "session_run sample_session (sample_append 7 2) = (qs, sample_open)"
    using sample_session_run sample_open_run by blast
  show ?thesis
    by (rule committed_rows_never_change [OF sample_plan_B8 sample_pool_new runs(1) _ sample_session_read runs(2)
          sample_open_stage]) (simp add: sample_session_committed)
qed

subsection \<open>Appends that are not published\<close>

text \<open>The session is at the ledger an append started from, or in an append that started from it.\<close>

definition based_on :: "paged_ledger \<Rightarrow> paged_session \<Rightarrow> bool" where
  "based_on l0 s \<longleftrightarrow>
     (case ses_stage s of
        Closed \<Rightarrow> pool_ok (ses_pool s) \<and> pool_ledger (ses_pool s) = l0
      | Open r \<Rightarrow> append_ok l0 r (ses_pool s)
      | Verified r \<Rightarrow> append_ok l0 r (ses_pool s))"

lemma based_on_step:
  assumes b: "based_on l0 s" and step: "session_step s c = (res, s')" and res: "res \<noteq> Ok Published"
  shows "based_on l0 s'"
proof -
  let ?p = "ses_pool s"
  consider (started) n where "ses_stage s = Closed" "c = BeginAppend n"
    | (row) r layer token ks vs where "ses_stage s = Open r" "c = WriteRow layer token ks vs"
    | (prepare) r where "ses_stage s = Open r" "c = PrepareCommit"
    | (abandon) r where "ses_stage s = Open r \<or> ses_stage s = Verified r" "c = Abandon"
    | (other) "s' = s"
    using step res by (cases "ses_stage s"; cases c) (auto simp: session_step_def Let_def)
  then show ?thesis
  proof cases
    case started
    have "pool_ok ?p" "pool_ledger ?p = l0" using b started(1) by (simp_all add: based_on_def)
    from this(1) show ?thesis
      by (cases rule: simulate_begin [where a = n])
        (use step started \<open>pool_ok ?p\<close> \<open>pool_ledger ?p = l0\<close> in \<open>auto simp: session_step_def Let_def based_on_def\<close>)
  next
    case row
    then have A: "append_ok l0 r ?p" using b by (simp add: based_on_def)
    then show ?thesis
      by (cases rule: simulate_write [where layer = layer and token = token and keys = ks and vals = vs and st = Idle])
        (use step row A in \<open>auto simp: session_step_def Let_def based_on_def\<close>)
  next
    case prepare
    then have A: "append_ok l0 r ?p" using b by (simp add: based_on_def)
    then show ?thesis
      by (cases rule: simulate_prepare [where st = Idle])
        (use step prepare A simulate_abandon(2) [OF A] in \<open>auto simp: session_step_def Let_def based_on_def\<close>)
  next
    case abandon
    then have A: "append_ok l0 r ?p" using b by (auto simp: based_on_def)
    show ?thesis
      using step abandon simulate_abandon(1,2) [OF A] by (auto simp: session_step_def Let_def based_on_def)
  qed (use b in simp)
qed

lemma based_on_run:
  "based_on l0 s \<Longrightarrow> session_run s cs = (rs, u) \<Longrightarrow> Ok Published \<notin> set rs \<Longrightarrow> based_on l0 u"
proof (induction cs arbitrary: s rs)
  case (Cons c cs)
  obtain r s' where step: "session_step s c = (r, s')" by (cases "session_step s c")
  obtain qs where rest: "session_run s' cs = (qs, u)" and rs: "rs = r # qs"
    using Cons.prems(2) step by (auto simp: trace.simps(2) split: prod.splits)
  have "r \<noteq> Ok Published" using Cons.prems(3) rs by auto
  from Cons.IH [OF based_on_step [OF Cons.prems(1) step this] rest] show ?case using Cons.prems(3) rs by simp
qed simp

lemma log_step_committed:
  "fst (log_step s c) \<noteq> Ok Published \<Longrightarrow> log_committed (snd (log_step s c)) = log_committed s"
proof -
  have "log_committed (snd (log_write s n layer token ks vs)) = log_committed s" for n layer token ks vs
    by (cases "row_checks (log_width s) (length (log_rows s)) n (log_written s) layer token ks vs")
      (simp_all add: log_write_def)
  then show "fst (log_step s c) \<noteq> Ok Published \<Longrightarrow> log_committed (snd (log_step s c)) = log_committed s"
    by (auto simp: log_step_def log_begin_def log_prepare_def log_abandon_def
        split: log_stage.splits paged_call.splits option.splits)
qed

lemma log_run_committed:
  "Ok Published \<notin> set (fst (log_run s cs)) \<Longrightarrow> log_committed (snd (log_run s cs)) = log_committed s"
  by (induction cs arbitrary: s) (auto simp: trace_Cons intro: log_step_committed)

lemma log_read_cong: "log_rows s = log_rows s' \<Longrightarrow> log_read s layer token v = log_read s' layer token v"
  by (simp add: log_read_def)

lemma take_closed:
  assumes "log_keeps c rows s" and "log_committed s = c" and "log_stage s = Idle"
  shows "log_rows s = rows"
  using assms by (auto simp: log_keeps_def intro!: map_idI [symmetric])

text \<open>C7: an append that is not published leaves no trace. Whatever calls are made from a session
  without an append, if it is again without one and none of the calls published, the ledger is the
  one it started from, page table, fills and the order of the free list included, and every read
  answers as before. This covers dropped appends, refused commits and refused calls.\<close>

theorem unpublished_append_leaves_no_trace:
  assumes "paged_plan_new g tokens = Ok k" and "paged_pool_new grants k = Ok p"
    and "session_run (in_stage Closed p) cs = (rs, s)" and "ses_stage s = Closed"
    and "session_run s ds = (qs, u)" and "ses_stage u = Closed" and "Ok Published \<notin> set qs"
  shows "pool_ledger (ses_pool u) = pool_ledger (ses_pool s) \<and>
    (\<forall>layer token v. fst (session_step u (ReadRow layer token v)) = fst (session_step s (ReadRow layer token v)))"
proof
  let ?c = "pl_committed_tokens (pool_ledger (ses_pool s))"
  obtain rows where K: "log_keeps ?c rows (log_of s)" "log_keeps ?c rows (log_of u)" "session_ok s" "session_ok u"
      "log_run (log_of s) ds = (qs, log_of u)"
    by (rule session_keeps [OF assms(1-3,5)])
  have "based_on (pool_ledger (ses_pool s)) s" using K(3) assms(4) by (simp add: based_on_def session_ok_def)
  from based_on_run [OF this assms(5,7)] show "pool_ledger (ses_pool u) = pool_ledger (ses_pool s)"
    using assms(6) by (simp add: based_on_def)
  have committed: "log_committed (log_of s) = ?c" "log_committed (log_of u) = log_committed (log_of s)"
    using log_run_committed [of "log_of s" ds] K(5) assms(7) by (simp_all add: log_of_def)
  have idle: "log_stage (log_of s) = Idle" "log_stage (log_of u) = Idle"
    using assms(4,6) by (simp_all add: log_of_def)
  have "log_rows (log_of u) = log_rows (log_of s)"
    using take_closed [OF K(1) _ idle(1)] take_closed [OF K(2) _ idle(2)] committed by simp
  from log_read_cong [OF this]
  show "\<forall>layer token v. fst (session_step u (ReadRow layer token v)) = fst (session_step s (ReadRow layer token v))"
    using session_read [OF K(3)] session_read [OF K(4)] assms(4,6) by simp
qed

definition sample_aborted :: paged_session where
  "sample_aborted = snd (session_run sample_session (sample_append 7 2 @ [Abandon]))"

lemma sample_aborted_run:
  "\<exists>qs. session_run sample_session (sample_append 7 2 @ [Abandon]) = (qs, sample_aborted)"
  by (simp add: sample_aborted_def prod_eq_iff)

theorem unpublished_append_leaves_no_trace_witness:
  "pool_ledger (ses_pool sample_aborted) = pool_ledger (ses_pool sample_session)"
proof -
  obtain rs qs where runs: "session_run (in_stage Closed sample_pool) (sample_append 1 3 @ [PrepareCommit, Publish]) = (rs, sample_session)"
    "session_run sample_session (sample_append 7 2 @ [Abandon]) = (qs, sample_aborted)"
    using sample_session_run sample_aborted_run by blast
  have "log_run sample_log (sample_append 7 2 @ [Abandon]) =
      ([Ok Begun, Ok RowWritten, Ok RowWritten, Ok RowWritten, Ok RowWritten, Ok Abandoned], sample_log)"
    by (simp add: log_run_eval sample_log_def numeral_eq_Suc)
  then have "qs = [Ok Begun, Ok RowWritten, Ok RowWritten, Ok RowWritten, Ok RowWritten, Ok Abandoned]"
    and "log_of sample_aborted = sample_log"
    using paged.trace_simulates [OF sample_session_ok runs(2)] sample_session_log by simp_all
  moreover from this(2) have "ses_stage sample_aborted = Closed"
    by (cases "ses_stage sample_aborted") (simp_all add: log_of_def sample_log_def log_view_def)
  ultimately show ?thesis
    using unpublished_append_leaves_no_trace
      [OF sample_plan_B8 sample_pool_new runs(1) sample_session_closed runs(2)] by simp
qed

subsection \<open>Bundles\<close>

fun held_bundles :: "append_stage \<Rightarrow> usize list" where
  "held_bundles Closed = []"
| "held_bundles (Open r) = tail_original r"
| "held_bundles (Verified r) = tail_original r"

text \<open>C38: no bundle is lost, shared or invented. At any time the bundles of the page table, the free
  list and the one a running append has set aside are all the bundles of the plan, each once; the
  pages and tokens stay within the plan and the storage never changes its length.\<close>

theorem bundles_partition:
  assumes "paged_plan_new g tokens = Ok k" and "paged_pool_new grants k = Ok p"
    and "session_run (in_stage Closed p) cs = (rs, s)"
  shows "let l = pool_ledger (ses_pool s); held = held_bundles (ses_stage s); a = pk_allocation (pl_plan l)
    in distinct (pl_table l @ pl_free l @ held) \<and> set (pl_table l @ pl_free l @ held) = {0..<al_bundle_count a} \<and>
       pl_committed_tokens l \<le> geo_max_context (pk_geometry (pl_plan l)) \<and> length (pl_table l) \<le> al_page_count a \<and>
       length (pool_storage (ses_pool s)) = al_requested_f32 a"
proof -
  let ?l = "pool_ledger (ses_pool s)"
  have max: "pages k (geo_max_context (pk_geometry k)) = al_page_count (pk_allocation k)" if "planned k" for k
    using plannedD(2) [OF that] by (simp add: exact_allocation_def Let_def)
  have A: ?thesis if A: "append_ok l0 r (ses_pool s)" and held: "held_bundles (ses_stage s) = tail_original r" for l0 r
  proof -
    have T: "transaction l0 r ?l" using A by (simp add: append_ok_def)
    note D = transactionD [OF T]
    have "length (pl_table ?l) \<le> pages (pl_plan l0) (geo_max_context (pk_geometry (pl_plan l0)))"
      unfolding D(10) by (rule pages_for_mono [OF D(7)])
    then show ?thesis
      using transaction_bundles [OF T] D(2,3) ledger_okD(1,2) [OF D(1)] A max held
      by (simp add: Let_def append_ok_def backed_def)
  qed
  have s: "session_ok s" by (rule reached_ok(1) [OF assms])
  show ?thesis
  proof (cases "ses_stage s")
    case Closed
    then have p: "pool_ok (ses_pool s)" using s by (simp add: session_ok_def)
    then have I: "ledger_ok ?l" by (simp add: pool_ok_def)
    note I = ledger_okD [OF I]
    have "length (pl_table ?l) \<le> pages (pl_plan ?l) (geo_max_context (pk_geometry (pl_plan ?l)))"
      unfolding I(3) by (rule pages_for_mono [OF I(2)])
    then show ?thesis using I p max Closed by (simp add: Let_def pool_ok_def backed_def)
  qed (use s A in \<open>auto simp: session_ok_def\<close>)
qed

theorem bundles_partition_witness:
  "let l = pool_ledger (ses_pool sample_open); held = held_bundles (ses_stage sample_open); a = pk_allocation (pl_plan l)
    in distinct (pl_table l @ pl_free l @ held) \<and> set (pl_table l @ pl_free l @ held) = {0..<al_bundle_count a} \<and>
       pl_committed_tokens l \<le> geo_max_context (pk_geometry (pl_plan l)) \<and> length (pl_table l) \<le> al_page_count a \<and>
       length (pool_storage (ses_pool sample_open)) = al_requested_f32 a"
proof -
  obtain rs qs where runs: "session_run (in_stage Closed sample_pool) (sample_append 1 3 @ [PrepareCommit, Publish]) = (rs, sample_session)"
    "session_run sample_session (sample_append 7 2) = (qs, sample_open)"
    using sample_session_run sample_open_run by blast
  have "session_run (in_stage Closed sample_pool) ((sample_append 1 3 @ [PrepareCommit, Publish]) @ sample_append 7 2)
      = (rs @ qs, sample_open)"
    by (rule trace_trans [OF runs])
  then show ?thesis by (rule bundles_partition [OF sample_plan_B8 sample_pool_new])
qed

subsection \<open>A whole append\<close>

definition layer_writes :: "usize \<Rightarrow> usize \<Rightarrow> (usize \<Rightarrow> f32 list \<times> f32 list) \<Rightarrow> paged_call list" where
  "layer_writes n layer row = map (\<lambda>t. WriteRow layer t (fst (row t)) (snd (row t))) [0..<n]"

definition append_calls :: "usize \<Rightarrow> usize \<Rightarrow> (usize \<Rightarrow> usize \<Rightarrow> f32 list \<times> f32 list) \<Rightarrow> paged_call list" where
  "append_calls layers n row =
     BeginAppend n # concat (map (\<lambda>layer. layer_writes n layer (row layer)) [0..<layers]) @ [PrepareCommit, Publish]"

lemma log_layer_writes:
  assumes "log_stage s = Appending n" and "layer < length (log_rows s)"
    and "length (log_rows s ! layer) = log_committed s"
    and "\<forall>t < n. length (fst (row t)) = log_width s \<and> length (snd (row t)) = log_width s"
  shows "m \<le> n \<Longrightarrow> log_run s (layer_writes m layer row) = (replicate m (Ok RowWritten),
    s\<lparr>log_rows := (log_rows s)[layer := log_rows s ! layer @ map row [0..<m]]\<rparr>)"
proof (induction m)
  case 0
  show ?case by (simp add: layer_writes_def)
next
  case (Suc m)
  have "log_run s (layer_writes (Suc m) layer row) =
      log_run s (layer_writes m layer row @ [WriteRow layer m (fst (row m)) (snd (row m))])"
    by (simp add: layer_writes_def)
  also have "\<dots> = (replicate m (Ok RowWritten) @ [Ok RowWritten],
      s\<lparr>log_rows := (log_rows s)[layer := log_rows s ! layer @ map row [0..<Suc m]]\<rparr>)"
  proof (rule trace_trans [OF Suc.IH])
    let ?t = "s\<lparr>log_rows := (log_rows s)[layer := log_rows s ! layer @ map row [0..<m]]\<rparr>"
    have "log_step ?t (WriteRow layer m (fst (row m)) (snd (row m))) =
        (Ok RowWritten, s\<lparr>log_rows := (log_rows s)[layer := log_rows s ! layer @ map row [0..<Suc m]]\<rparr>)"
      using Suc.prems assms by (simp add: log_step_def log_write_def row_checks_def require_def log_written_def)
    then show "log_run ?t [WriteRow layer m (fst (row m)) (snd (row m))] =
        ([Ok RowWritten], s\<lparr>log_rows := (log_rows s)[layer := log_rows s ! layer @ map row [0..<Suc m]]\<rparr>)"
      by (simp add: trace_Cons)
  qed (use Suc.prems in simp)
  finally show ?case by (simp add: replicate_append_same)
qed

lemma log_all_writes:
  assumes "log_stage s = Appending n" and "\<forall>xs \<in> set (log_rows s). length xs = log_committed s"
    and "\<forall>layer < length (log_rows s). \<forall>t < n. length (fst (row layer t)) = log_width s \<and>
      length (snd (row layer t)) = log_width s"
  shows "m \<le> length (log_rows s) \<Longrightarrow>
    log_run s (concat (map (\<lambda>layer. layer_writes n layer (row layer)) [0..<m])) = (replicate (m * n) (Ok RowWritten),
      s\<lparr>log_rows := map (\<lambda>layer. log_rows s ! layer @ (if layer < m then map (row layer) [0..<n] else []))
         [0..<length (log_rows s)]\<rparr>)"
proof (induction m)
  case 0
  show ?case by (simp add: map_nth)
next
  case (Suc m)
  let ?rows = "\<lambda>m. map (\<lambda>layer. log_rows s ! layer @ (if layer < m then map (row layer) [0..<n] else [])) [0..<length (log_rows s)]"
  have m: "m < length (log_rows s)" using Suc.prems by simp
  have layer: "log_run (s\<lparr>log_rows := ?rows m\<rparr>) (layer_writes n m (row m)) = (replicate n (Ok RowWritten),
      s\<lparr>log_rows := (?rows m)[m := log_rows s ! m @ map (row m) [0..<n]]\<rparr>)"
    using log_layer_writes [of "s\<lparr>log_rows := ?rows m\<rparr>" n m "row m" n] assms m by simp
  have "(?rows m)[m := log_rows s ! m @ map (row m) [0..<n]] = ?rows (Suc m)"
    by (rule nth_equalityI) (auto simp: nth_list_update less_Suc_eq)
  then show ?case
    using Suc layer by (simp add: trace_append add.commute flip: replicate_add)
qed

lemma log_step_frame:
  "log_width (snd (log_step s c)) = log_width s \<and> log_limit (snd (log_step s c)) = log_limit s \<and>
   length (log_rows (snd (log_step s c))) = length (log_rows s)"
proof -
  have "let t = snd (log_write s n layer token ks vs)
    in log_width t = log_width s \<and> log_limit t = log_limit s \<and> length (log_rows t) = length (log_rows s)"
    for n layer token ks vs
    by (cases "row_checks (log_width s) (length (log_rows s)) n (log_written s) layer token ks vs")
      (simp_all add: log_write_def)
  then show ?thesis
    by (auto simp: log_step_def log_begin_def log_prepare_def log_abandon_def log_publish_def Let_def
        split: log_stage.splits paged_call.splits option.splits)
qed

lemma log_run_frame:
  "log_width (snd (log_run s cs)) = log_width s \<and> log_limit (snd (log_run s cs)) = log_limit s \<and>
   length (log_rows (snd (log_run s cs))) = length (log_rows s)"
  by (induction cs arbitrary: s) (simp_all add: trace_Cons log_step_frame)

lemma log_append_round_trip:
  assumes idle: "log_stage s = Idle" and keeps: "log_keeps c rows s"
    and n: "0 < n" "log_committed s + n \<le> log_limit s"
    and widths: "\<forall>layer < length (log_rows s). \<forall>t < n. length (fst (row layer t)) = log_width s \<and>
      length (snd (row layer t)) = log_width s"
  shows "log_run s (append_calls (length (log_rows s)) n row) =
    (Ok Begun # replicate (length (log_rows s) * n) (Ok RowWritten) @ [Ok CommitPrepared, Ok Published],
     s\<lparr>log_rows := map (\<lambda>layer. log_rows s ! layer @ map (row layer) [0..<n]) [0..<length (log_rows s)],
       log_committed := log_committed s + n\<rparr>)"
proof -
  let ?L = "length (log_rows s)" and ?s = "s\<lparr>log_stage := Appending n\<rparr>"
  let ?rows = "map (\<lambda>layer. log_rows s ! layer @ map (row layer) [0..<n]) [0..<?L]"
  let ?t = "?s\<lparr>log_rows := ?rows\<rparr>"
  have len: "length xs = log_committed s" if "xs \<in> set (log_rows s)" for xs
    using keeps idle that by (simp add: log_keeps_def)
  have started: "log_step s (BeginAppend n) = (Ok Begun, ?s)" using idle n by (simp add: log_step_def log_begin_def)
  have rows: "map (\<lambda>layer. log_rows s ! layer @ (if layer < ?L then map (row layer) [0..<n] else [])) [0..<?L] = ?rows"
    by simp
  have writes: "log_run ?s (concat (map (\<lambda>layer. layer_writes n layer (row layer)) [0..<?L])) =
      (replicate (?L * n) (Ok RowWritten), ?t)"
    using log_all_writes [of ?s n row ?L] len widths unfolding rows by simp
  have "List.find (\<lambda>layer. log_written ?t layer \<noteq> n) [0..<?L] = None"
    using len by (auto simp: find_None_iff log_written_def)
  then have commit: "log_run ?t [PrepareCommit, Publish] = ([Ok CommitPrepared, Ok Published],
      s\<lparr>log_rows := ?rows, log_committed := log_committed s + n\<rparr>)"
    using idle by (simp add: trace.simps(2) log_step_def log_prepare_def log_publish_def)
  show ?thesis
    using trace_trans [OF writes commit] by (simp add: append_calls_def trace_Cons started)
qed


text \<open>C30: an append that fits is accepted, and what it writes is what is read. From any session
  without an append, if the context has room for \<open>n\<close> more tokens, beginning, writing the rows of
  every layer in token order, preparing and publishing all succeed (no capacity can be missing, the
  copy of a partial tail page included), and every key and value row then reads back as written.\<close>

theorem append_round_trip:
  assumes "paged_plan_new g tokens = Ok k" and "paged_pool_new grants k = Ok p"
    and "session_run (in_stage Closed p) cs = (rs, s)" and "ses_stage s = Closed"
    and "c = pl_committed_tokens (pool_ledger (ses_pool s))" and "0 < n" and "c + n \<le> geo_max_context g"
    and "\<forall>layer < geo_layers g. \<forall>t < n.
      length (fst (row layer t)) = geo_row_width g \<and> length (snd (row layer t)) = geo_row_width g"
    and "session_run s (append_calls (geo_layers g) n row) = (qs, u)"
  shows "qs = Ok Begun # replicate (geo_layers g * n) (Ok RowWritten) @ [Ok CommitPrepared, Ok Published] \<and>
    (\<forall>layer < geo_layers g. \<forall>t < n. \<forall>v. fst (session_step u (ReadRow layer (c + t) v)) =
       Ok (RowRead ((if v then snd else fst) (row layer t))))"
proof -
  obtain rows where K: "log_keeps c rows (log_of s)" "session_ok s" "session_ok u"
      "log_run (log_of s) (append_calls (geo_layers g) n row) = (qs, log_of u)"
    unfolding assms(5) by (rule session_keeps [OF assms(1-3,9)])
  have frame: "log_width (log_of s) = geo_row_width g" "log_limit (log_of s) = geo_max_context g"
    "length (log_rows (log_of s)) = geo_layers g"
    using log_run_frame [of "log_new g" cs] reached_ok(2) [OF assms(1-3)] by (simp_all add: log_new_def)
  have idle: "log_stage (log_of s) = Idle" and committed: "log_committed (log_of s) = c"
    using assms(4,5) by (simp_all add: log_of_def)
  have len: "length (log_rows (log_of s) ! layer) = c" if "layer < geo_layers g" for layer
    using K(1) idle committed frame(3) that by (simp add: log_keeps_def)
  have run: "qs = Ok Begun # replicate (geo_layers g * n) (Ok RowWritten) @ [Ok CommitPrepared, Ok Published]"
    "log_of u = (log_of s)\<lparr>log_rows := map (\<lambda>layer. log_rows (log_of s) ! layer @ map (row layer) [0..<n]) [0..<geo_layers g],
       log_committed := c + n\<rparr>"
    using log_append_round_trip [OF idle K(1) assms(6), of row] assms(7,8) frame committed K(4) by simp_all
  have "log_stage (log_of u) = Idle" using run(2) idle by simp
  then have "\<forall>r. ses_stage u \<noteq> Verified r" by (auto simp: log_of_def)
  then have "fst (session_step u (ReadRow layer (c + t) v)) = Ok (RowRead ((if v then snd else fst) (row layer t)))"
    if "layer < geo_layers g" "t < n" for layer t v
    using session_read [OF K(3)] run(2) that len by (simp add: log_read_def require_def nth_append)
  with run(1) show ?thesis by blast
qed

definition sample_rows :: "usize \<Rightarrow> usize \<Rightarrow> f32 list \<times> f32 list" where
  "sample_rows layer t = (sample_row t, sample_row 9)"

definition sample_appended :: "(paged_reply, paged_error) result list \<times> paged_session" where
  "sample_appended = session_run sample_session (append_calls 2 2 sample_rows)"

theorem append_round_trip_witness:
  "fst (session_step (snd sample_appended) (ReadRow 1 (3 + 1) True)) = Ok (RowRead (sample_row 9))"
proof -
  obtain rs where run: "session_run (in_stage Closed sample_pool) (sample_append 1 3 @ [PrepareCommit, Publish]) = (rs, sample_session)"
    using sample_session_run by blast
  have "\<forall>layer < geo_layers sample_geometry. \<forall>t < 2. \<forall>v.
      fst (session_step (snd sample_appended) (ReadRow layer (3 + t) v)) =
        Ok (RowRead ((if v then snd else fst) (sample_rows layer t)))"
    using append_round_trip [OF sample_plan_B8 sample_pool_new run sample_session_closed
        sample_session_committed [symmetric], of 2 sample_rows "fst sample_appended" "snd sample_appended"]
    by (simp add: sample_geometry_def sample_rows_def sample_row_def sample_appended_def)
  from this [rule_format, of 1 1 True] show ?thesis
    by (simp add: sample_geometry_def sample_rows_def)
qed

end
