(* ===== verification/Gguf_State.thy ===== *)
theory Gguf_State
  imports BTree_Map Utf8
begin

text \<open>
  The GGUF v3 reader (src/crates/loader/src/gguf.rs), as written: tags, the byte cursor with its
  resource limits and the parser of the header. Positions, counts and sizes are \<open>u64\<close> values kept as
  naturals whose checked operations refuse at \<open>2 ^ 64\<close>; metadata values keep their width. A string is
  its UTF-8 bytes. Errors keep their variant and offset, the messages are dropped.
\<close>

type_synonym u16 = "16 word"

datatype gguf_error =
    GgufInvalid nat
  | UnknownGgmlType nat u32
  | TensorNotFound bytes
  | FileChanged nat nat
  | FileRead
  | ArtifactNotRegular
  | ArtifactExceedsByteLimit nat nat
  | ArtifactBackingAllocation nat
  | ArtifactDigestMismatch bytes bytes

abbreviation (input) checked_u64 :: "nat \<Rightarrow> nat option \<Rightarrow> (nat, gguf_error) result" where
  "checked_u64 offset v \<equiv> ok_or (GgufInvalid offset) v"

subsection \<open>Limits\<close>

definition GGUF_MAGIC :: bytes where "GGUF_MAGIC = [71, 71, 85, 70]"
definition GGUF_V3 :: u32 where "GGUF_V3 = 3"
definition DEFAULT_ALIGNMENT :: nat where "DEFAULT_ALIGNMENT = 32"
definition MAX_TENSOR_COUNT :: nat where "MAX_TENSOR_COUNT = 100000"
definition MAX_METADATA_COUNT :: nat where "MAX_METADATA_COUNT = 100000"
definition MAX_METADATA_ARRAY_ELEMENTS :: nat where "MAX_METADATA_ARRAY_ELEMENTS = 262144"
definition MAX_TOTAL_METADATA_ARRAY_ELEMENTS :: nat where "MAX_TOTAL_METADATA_ARRAY_ELEMENTS = 1000000"
definition MAX_STRING_BYTES :: nat where "MAX_STRING_BYTES = 1048576"
definition MAX_TOTAL_STRING_BYTES :: nat where "MAX_TOTAL_STRING_BYTES = 67108864"
definition MAX_TENSOR_DIMS :: nat where "MAX_TENSOR_DIMS = 4"
definition MIN_METADATA_ENTRY_BYTES :: nat where "MIN_METADATA_ENTRY_BYTES = 13"
definition MIN_TENSOR_DESCRIPTOR_BYTES :: nat where "MIN_TENSOR_DESCRIPTOR_BYTES = 24"
definition SHA256_READ_BUFFER_BYTES :: nat where "SHA256_READ_BUFFER_BYTES = 65536"

lemmas gguf_limits = DEFAULT_ALIGNMENT_def MAX_TENSOR_COUNT_def MAX_METADATA_COUNT_def
  MAX_METADATA_ARRAY_ELEMENTS_def MAX_TOTAL_METADATA_ARRAY_ELEMENTS_def MAX_STRING_BYTES_def
  MAX_TOTAL_STRING_BYTES_def MAX_TENSOR_DIMS_def MIN_METADATA_ENTRY_BYTES_def
  MIN_TENSOR_DESCRIPTOR_BYTES_def SHA256_READ_BUFFER_BYTES_def

subsection \<open>Tags\<close>

datatype ggml_type =
    F32 | F16 | Q4_0 | Q4_1 | Q5_0 | Q5_1 | Q8_0 | Q8_1 | Q2K | Q3K | Q4K | Q5K | Q6K | Q8K
  | IQ4NL | IQ4XS | I8 | I16 | I32 | I64 | F64 | BF16

definition ggml_type_table :: "(u32 \<times> ggml_type) list" where
  "ggml_type_table = [(0, F32), (1, F16), (2, Q4_0), (3, Q4_1), (6, Q5_0), (7, Q5_1), (8, Q8_0), (9, Q8_1),
     (10, Q2K), (11, Q3K), (12, Q4K), (13, Q5K), (14, Q6K), (15, Q8K), (20, IQ4NL), (23, IQ4XS),
     (24, I8), (25, I16), (26, I32), (27, I64), (28, F64), (30, BF16)]"

definition ggml_type_from_u32 :: "u32 \<Rightarrow> nat \<Rightarrow> (ggml_type, gguf_error) result" where
  "ggml_type_from_u32 i offset = ok_or (UnknownGgmlType offset i) (map_of ggml_type_table i)"

fun ggml_type_id :: "ggml_type \<Rightarrow> u32" where
  "ggml_type_id F32 = 0" | "ggml_type_id F16 = 1" | "ggml_type_id Q4_0 = 2" | "ggml_type_id Q4_1 = 3"
| "ggml_type_id Q5_0 = 6" | "ggml_type_id Q5_1 = 7" | "ggml_type_id Q8_0 = 8" | "ggml_type_id Q8_1 = 9"
| "ggml_type_id Q2K = 10" | "ggml_type_id Q3K = 11" | "ggml_type_id Q4K = 12" | "ggml_type_id Q5K = 13"
| "ggml_type_id Q6K = 14" | "ggml_type_id Q8K = 15" | "ggml_type_id IQ4NL = 20" | "ggml_type_id IQ4XS = 23"
| "ggml_type_id I8 = 24" | "ggml_type_id I16 = 25" | "ggml_type_id I32 = 26" | "ggml_type_id I64 = 27"
| "ggml_type_id F64 = 28" | "ggml_type_id BF16 = 30"

lemma ggml_type_from_u32_iff: "ggml_type_from_u32 i offset = Ok t \<longleftrightarrow> i = ggml_type_id t"
  by (cases t) (auto simp: ggml_type_from_u32_def ggml_type_table_def map_of_Cons_code)

text \<open>The derived order of the enumeration is the order of its ids.\<close>

lemma ggml_type_id_inject: "ggml_type_id a = ggml_type_id b \<Longrightarrow> a = b"
  by (metis ggml_type_from_u32_iff result.inject(1))

instantiation ggml_type :: linorder
begin

definition less_eq_ggml_type :: "ggml_type \<Rightarrow> ggml_type \<Rightarrow> bool" where
  "less_eq_ggml_type a b \<longleftrightarrow> ggml_type_id a \<le> ggml_type_id b"

definition less_ggml_type :: "ggml_type \<Rightarrow> ggml_type \<Rightarrow> bool" where
  "less_ggml_type a b \<longleftrightarrow> ggml_type_id a < ggml_type_id b"

instance
  by standard (auto simp: less_eq_ggml_type_def less_ggml_type_def intro: ggml_type_id_inject)

end

fun size_in_bits :: "ggml_type \<Rightarrow> nat option" where
  "size_in_bits F32 = Some 32" | "size_in_bits I32 = Some 32"
| "size_in_bits F16 = Some 16" | "size_in_bits BF16 = Some 16" | "size_in_bits I16 = Some 16"
| "size_in_bits I8 = Some 8"
| "size_in_bits I64 = Some 64" | "size_in_bits F64 = Some 64"
| "size_in_bits t = None"

fun block_layout :: "ggml_type \<Rightarrow> (nat \<times> nat) option" where
  "block_layout Q4_0 = Some (32, 18)"
| "block_layout IQ4NL = Some (32, 18)"
| "block_layout Q4_1 = Some (32, 20)"
| "block_layout Q5_0 = Some (32, 22)"
| "block_layout Q5_1 = Some (32, 24)"
| "block_layout Q8_0 = Some (32, 34)"
| "block_layout Q8_1 = Some (32, 36)"
| "block_layout Q2K = Some (256, 84)"
| "block_layout Q3K = Some (256, 110)"
| "block_layout Q4K = Some (256, 144)"
| "block_layout Q5K = Some (256, 176)"
| "block_layout Q6K = Some (256, 210)"
| "block_layout Q8K = Some (256, 292)"
| "block_layout IQ4XS = Some (256, 136)"
| "block_layout t = None"

datatype taxis_dtype = TaxisF32 | TaxisF16 | TaxisBF16 | TaxisI32 | TaxisI8

fun to_taxis_dtype :: "ggml_type \<Rightarrow> (taxis_dtype, gguf_error) result" where
  "to_taxis_dtype F32 = Ok TaxisF32"
| "to_taxis_dtype F16 = Ok TaxisF16"
| "to_taxis_dtype BF16 = Ok TaxisBF16"
| "to_taxis_dtype I32 = Ok TaxisI32"
| "to_taxis_dtype I8 = Ok TaxisI8"
| "to_taxis_dtype t = Err (GgufInvalid 0)"

datatype meta_value_type =
    TyU8 | TyI8 | TyU16 | TyI16 | TyU32 | TyI32 | TyF32 | TyBool | TyString | TyArray | TyU64 | TyI64 | TyF64

definition meta_type_table :: "(u32 \<times> meta_value_type) list" where
  "meta_type_table = [(0, TyU8), (1, TyI8), (2, TyU16), (3, TyI16), (4, TyU32), (5, TyI32), (6, TyF32),
     (7, TyBool), (8, TyString), (9, TyArray), (10, TyU64), (11, TyI64), (12, TyF64)]"

definition meta_type_from_u32 :: "u32 \<Rightarrow> nat \<Rightarrow> (meta_value_type, gguf_error) result" where
  "meta_type_from_u32 i offset = ok_or (GgufInvalid offset) (map_of meta_type_table i)"

fun meta_type_id :: "meta_value_type \<Rightarrow> u32" where
  "meta_type_id TyU8 = 0" | "meta_type_id TyI8 = 1" | "meta_type_id TyU16 = 2" | "meta_type_id TyI16 = 3"
| "meta_type_id TyU32 = 4" | "meta_type_id TyI32 = 5" | "meta_type_id TyF32 = 6" | "meta_type_id TyBool = 7"
| "meta_type_id TyString = 8" | "meta_type_id TyArray = 9" | "meta_type_id TyU64 = 10"
| "meta_type_id TyI64 = 11" | "meta_type_id TyF64 = 12"

lemma meta_type_from_u32_iff: "meta_type_from_u32 i offset = Ok t \<longleftrightarrow> i = meta_type_id t"
  by (cases t) (auto simp: meta_type_from_u32_def meta_type_table_def map_of_Cons_code)

text \<open>Signed integers and floats are kept as the bits they were read from.\<close>

datatype meta_value =
    MetaU8 u8 | MetaI8 u8 | MetaU16 u16 | MetaI16 u16 | MetaU32 u32 | MetaI32 u32
  | MetaU64 u64 | MetaI64 u64 | MetaF32 u32 | MetaF64 u64 | MetaBool bool | MetaString bytes
  | MetaArray meta_value_type "meta_value list"

fun value_type :: "meta_value \<Rightarrow> meta_value_type" where
  "value_type (MetaU8 x) = TyU8"
| "value_type (MetaI8 x) = TyI8"
| "value_type (MetaU16 x) = TyU16"
| "value_type (MetaI16 x) = TyI16"
| "value_type (MetaU32 x) = TyU32"
| "value_type (MetaI32 x) = TyI32"
| "value_type (MetaU64 x) = TyU64"
| "value_type (MetaI64 x) = TyI64"
| "value_type (MetaF32 x) = TyF32"
| "value_type (MetaF64 x) = TyF64"
| "value_type (MetaBool x) = TyBool"
| "value_type (MetaString x) = TyString"
| "value_type (MetaArray t xs) = TyArray"

end
