(* ===== verification/Gguf_Parser.thy ===== *)
theory Gguf_Parser
  imports Gguf_State
begin

text \<open>
  The cursor over an observed byte slice and \<open>Reader::parse\<close>, as written. A read is a function from
  the cursor to a result and the next cursor; a read that fails leaves the position it failed at.
\<close>

subsection \<open>The cursor\<close>

record cursor =
  cur_bytes :: bytes
  cur_pos :: nat
  cur_total_string_bytes :: nat
  cur_total_array_elements :: nat

definition cursor_new :: "bytes \<Rightarrow> cursor" where
  "cursor_new bs = \<lparr>cur_bytes = bs, cur_pos = 0, cur_total_string_bytes = 0, cur_total_array_elements = 0\<rparr>"

definition remaining_len :: "cursor \<Rightarrow> (nat, gguf_error) result" where
  "remaining_len c = checked_u64 (cur_pos c) (usize_sub (length (cur_bytes c)) (cur_pos c))"

definition read_n :: "nat \<Rightarrow> cursor \<Rightarrow> (bytes, gguf_error) result \<times> cursor" where
  "read_n n c =
     attempt (checked_u64 (cur_pos c) (usize_add (cur_pos c) n)) c (\<lambda>end_of.
       if end_of \<le> length (cur_bytes c)
       then (Ok (take n (drop (cur_pos c) (cur_bytes c))), c\<lparr>cur_pos := end_of\<rparr>)
       else (Err (GgufInvalid (cur_pos c)), c))"

definition check_magic :: "cursor \<Rightarrow> (unit, gguf_error) result \<times> cursor" where
  "check_magic c = proceed (read_n 4 c) (\<lambda>magic c.
     attempt (require (magic = GGUF_MAGIC) (GgufInvalid 0)) c (\<lambda>u. (Ok u, c)))"

text \<open>\<open>from_le_bytes\<close>.\<close>

fun le_nat :: "bytes \<Rightarrow> nat" where
  "le_nat [] = 0"
| "le_nat (b # bs) = unat b + 256 * le_nat bs"

definition read_nat :: "nat \<Rightarrow> cursor \<Rightarrow> (nat, gguf_error) result \<times> cursor" where
  "read_nat n c = proceed (read_n n c) (\<lambda>b c. (Ok (le_nat b), c))"

definition read_word :: "nat \<Rightarrow> cursor \<Rightarrow> ('w::len word, gguf_error) result \<times> cursor" where
  "read_word n c = proceed (read_nat n c) (\<lambda>x c. (Ok (of_nat x), c))"

abbreviation read_u8 :: "cursor \<Rightarrow> (u8, gguf_error) result \<times> cursor" where "read_u8 \<equiv> read_word 1"
abbreviation read_u16 :: "cursor \<Rightarrow> (u16, gguf_error) result \<times> cursor" where "read_u16 \<equiv> read_word 2"
abbreviation read_u32 :: "cursor \<Rightarrow> (u32, gguf_error) result \<times> cursor" where "read_u32 \<equiv> read_word 4"
abbreviation read_u64_word :: "cursor \<Rightarrow> (u64, gguf_error) result \<times> cursor" where "read_u64_word \<equiv> read_word 8"
abbreviation read_u64 :: "cursor \<Rightarrow> (nat, gguf_error) result \<times> cursor" where "read_u64 \<equiv> read_nat 8"

definition read_bool :: "cursor \<Rightarrow> (bool, gguf_error) result \<times> cursor" where
  "read_bool c = proceed (read_u8 c) (\<lambda>b c. (Ok (b \<noteq> 0), c))"

subsection \<open>Strings\<close>

text \<open>The offset of the error is \<open>pos - len\<close>; the position is at least \<open>len\<close> there.\<close>

definition read_string :: "cursor \<Rightarrow> (bytes, gguf_error) result \<times> cursor" where
  "read_string c = proceed (read_u64 c) (\<lambda>len c.
     attempt (require (len \<le> MAX_STRING_BYTES) (GgufInvalid (cur_pos c))) c (\<lambda>_.
     attempt (checked_u64 (cur_pos c) (usize_add (cur_total_string_bytes c) len)) c (\<lambda>total.
     attempt (require (total \<le> MAX_TOTAL_STRING_BYTES) (GgufInvalid (cur_pos c))) c (\<lambda>_.
     proceed (read_n len c) (\<lambda>b c.
       if utf8_valid b then (Ok b, c\<lparr>cur_total_string_bytes := total\<rparr>)
       else case usize_sub (cur_pos c) len of
              None \<Rightarrow> (Panic, c)
            | Some offset \<Rightarrow> (Err (GgufInvalid offset), c))))))"

subsection \<open>Metadata values\<close>

text \<open>\<open>for _ in 0..n { out.push(read()?) }\<close>\<close>

fun repeat_read ::
  "nat \<Rightarrow> (cursor \<Rightarrow> ('a, gguf_error) result \<times> cursor) \<Rightarrow> cursor \<Rightarrow> ('a list, gguf_error) result \<times> cursor"
where
  "repeat_read 0 r c = (Ok [], c)"
| "repeat_read (Suc n) r c = proceed (r c) (\<lambda>x c. proceed (repeat_read n r c) (\<lambda>xs c. (Ok (x # xs), c)))"

definition wrap :: "('a \<Rightarrow> 'b) \<Rightarrow> ('a, gguf_error) result \<times> cursor \<Rightarrow> ('b, gguf_error) result \<times> cursor" where
  "wrap f p = proceed p (\<lambda>x c. (Ok (f x), c))"

text \<open>The types other than arrays; the inner type of an array is one of them.\<close>

fun read_scalar :: "meta_value_type \<Rightarrow> cursor \<Rightarrow> (meta_value, gguf_error) result \<times> cursor" where
  "read_scalar TyU8 c = wrap MetaU8 (read_u8 c)"
| "read_scalar TyI8 c = wrap MetaI8 (read_u8 c)"
| "read_scalar TyU16 c = wrap MetaU16 (read_u16 c)"
| "read_scalar TyI16 c = wrap MetaI16 (read_u16 c)"
| "read_scalar TyU32 c = wrap MetaU32 (read_u32 c)"
| "read_scalar TyI32 c = wrap MetaI32 (read_u32 c)"
| "read_scalar TyF32 c = wrap MetaF32 (read_u32 c)"
| "read_scalar TyBool c = wrap MetaBool (read_bool c)"
| "read_scalar TyString c = wrap MetaString (read_string c)"
| "read_scalar TyArray c = (Err (GgufInvalid (cur_pos c)), c)"
| "read_scalar TyU64 c = wrap MetaU64 (read_u64_word c)"
| "read_scalar TyI64 c = wrap MetaI64 (read_u64_word c)"
| "read_scalar TyF64 c = wrap MetaF64 (read_u64_word c)"

definition read_array_value :: "cursor \<Rightarrow> (meta_value, gguf_error) result \<times> cursor" where
  "read_array_value c0 = proceed (read_u32 c0) (\<lambda>inner_id c.
     attempt (meta_type_from_u32 inner_id (cur_pos c0)) c (\<lambda>inner.
     attempt (require (inner \<noteq> TyArray) (GgufInvalid (cur_pos c))) c (\<lambda>_.
     proceed (read_u64 c) (\<lambda>n c.
     attempt (require (n \<le> MAX_METADATA_ARRAY_ELEMENTS) (GgufInvalid (cur_pos c))) c (\<lambda>_.
     attempt (checked_u64 (cur_pos c) (usize_add (cur_total_array_elements c) n)) c (\<lambda>total.
     attempt (require (total \<le> MAX_TOTAL_METADATA_ARRAY_ELEMENTS) (GgufInvalid (cur_pos c))) c (\<lambda>_.
     proceed (repeat_read n (read_scalar inner) c) (\<lambda>out c.
       (Ok (MetaArray inner out), c\<lparr>cur_total_array_elements := total\<rparr>)))))))))"

definition read_meta_value_typed :: "meta_value_type \<Rightarrow> cursor \<Rightarrow> (meta_value, gguf_error) result \<times> cursor" where
  "read_meta_value_typed t c = (if t = TyArray then read_array_value c else read_scalar t c)"

definition read_meta_value :: "cursor \<Rightarrow> (meta_value, gguf_error) result \<times> cursor" where
  "read_meta_value c0 = proceed (read_u32 c0) (\<lambda>type_id c.
     attempt (meta_type_from_u32 type_id (cur_pos c0)) c (\<lambda>t. read_meta_value_typed t c))"

subsection \<open>The header\<close>

record tensor_descriptor =
  td_name :: bytes
  td_dims :: "nat list"
  td_ggml_type :: ggml_type
  td_data_offset :: nat

record parsed_archive =
  pa_metadata :: "(bytes \<times> meta_value) list"
  pa_tensors :: "tensor_descriptor list"
  pa_tensor_by_name :: "(bytes \<times> nat) list"
  pa_data_region_start :: nat
  pa_alignment :: nat

definition validate_header_counts :: "cursor \<Rightarrow> nat \<Rightarrow> nat \<Rightarrow> (unit, gguf_error) result" where
  "validate_header_counts c tensor_count metadata_count =
     and_then (require (tensor_count \<le> MAX_TENSOR_COUNT) (GgufInvalid (cur_pos c))) (\<lambda>_.
     and_then (require (metadata_count \<le> MAX_METADATA_COUNT) (GgufInvalid (cur_pos c))) (\<lambda>_.
     and_then (checked_u64 (cur_pos c) (Option.bind (usize_mul metadata_count MIN_METADATA_ENTRY_BYTES)
       (\<lambda>m. Option.bind (usize_mul tensor_count MIN_TENSOR_DESCRIPTOR_BYTES) (\<lambda>t. usize_add m t)))) (\<lambda>required.
     and_then (remaining_len c) (\<lambda>remaining.
       require (required \<le> remaining) (GgufInvalid (cur_pos c))))))"

text \<open>\<open>u64::is_power_of_two\<close>.\<close>

definition is_power_of_two :: "nat \<Rightarrow> bool" where
  "is_power_of_two n \<longleftrightarrow> n \<in> set (map (\<lambda>i. 2 ^ i) [0..<64])"

definition validate_alignment :: "nat \<Rightarrow> nat \<Rightarrow> (unit, gguf_error) result" where
  "validate_alignment alignment offset =
     require (alignment \<noteq> 0 \<and> is_power_of_two alignment) (GgufInvalid offset)"

definition align_up :: "nat \<Rightarrow> nat \<Rightarrow> (nat, gguf_error) result" where
  "align_up offset alignment =
     and_then (validate_alignment alignment offset) (\<lambda>_.
     and_then (checked_u64 offset (usize_sub alignment 1)) (\<lambda>adjustment.
       checked_u64 offset (map_option (\<lambda>rounded. rounded div alignment * alignment) (usize_add offset adjustment))))"

definition reject_duplicate :: "(bytes \<times> 'v) list \<Rightarrow> bytes \<Rightarrow> nat \<Rightarrow> (unit, gguf_error) result" where
  "reject_duplicate table k offset = require (map_of table k = None) (GgufInvalid offset)"

definition reject_zero_length_dimension :: "nat list \<Rightarrow> nat \<Rightarrow> (unit, gguf_error) result" where
  "reject_zero_length_dimension dims offset = require (0 \<notin> set dims) (GgufInvalid offset)"

fun read_metadata ::
  "nat \<Rightarrow> (bytes \<times> meta_value) list \<Rightarrow> cursor \<Rightarrow> ((bytes \<times> meta_value) list, gguf_error) result \<times> cursor" where
  "read_metadata 0 table c = (Ok table, c)"
| "read_metadata (Suc n) table c =
     proceed (read_string c) (\<lambda>k c.
     proceed (read_meta_value c) (\<lambda>v c.
     attempt (reject_duplicate table k (cur_pos c)) c (\<lambda>_.
       read_metadata n (table @ [(k, v)]) c)))"

definition read_descriptor :: "cursor \<Rightarrow> (tensor_descriptor, gguf_error) result \<times> cursor" where
  "read_descriptor c =
     proceed (read_string c) (\<lambda>name c.
     proceed (read_nat 4 c) (\<lambda>n_dims c.
     attempt (require (1 \<le> n_dims \<and> n_dims \<le> MAX_TENSOR_DIMS) (GgufInvalid (cur_pos c))) c (\<lambda>_.
     proceed (repeat_read n_dims read_u64 c) (\<lambda>dims c.
     attempt (reject_zero_length_dimension dims (cur_pos c)) c (\<lambda>_.
     proceed (read_u32 c) (\<lambda>type_id c.
     attempt (ggml_type_from_u32 type_id (cur_pos c)) c (\<lambda>t.
     proceed (read_u64 c) (\<lambda>data_offset c.
       (Ok \<lparr>td_name = name, td_dims = dims, td_ggml_type = t, td_data_offset = data_offset\<rparr>, c)))))))))"

fun read_tensors ::
  "nat \<Rightarrow> tensor_descriptor list \<Rightarrow> (bytes \<times> nat) list \<Rightarrow> cursor \<Rightarrow>
     (tensor_descriptor list \<times> (bytes \<times> nat) list, gguf_error) result \<times> cursor" where
  "read_tensors 0 tensors by_name c = (Ok (tensors, by_name), c)"
| "read_tensors (Suc n) tensors by_name c =
     proceed (read_descriptor c) (\<lambda>d c.
     attempt (reject_duplicate by_name (td_name d) (cur_pos c)) c (\<lambda>_.
       read_tensors n (tensors @ [d]) (by_name @ [(td_name d, length tensors)]) c))"

definition declared_alignment :: "(bytes \<times> meta_value) list \<Rightarrow> nat" where
  "declared_alignment table =
     (case map_of table (bytes_of ''general.alignment'') of Some (MetaU32 v) \<Rightarrow> unat v | _ \<Rightarrow> DEFAULT_ALIGNMENT)"

definition parse_header :: "cursor \<Rightarrow> (parsed_archive, gguf_error) result \<times> cursor" where
  "parse_header c =
     proceed (check_magic c) (\<lambda>_ c.
     proceed (read_u32 c) (\<lambda>version c.
     attempt (require (version = GGUF_V3) (GgufInvalid (cur_pos c))) c (\<lambda>_.
     proceed (read_u64 c) (\<lambda>tensor_count c.
     proceed (read_u64 c) (\<lambda>metadata_count c.
     attempt (validate_header_counts c tensor_count metadata_count) c (\<lambda>_.
     proceed (read_metadata metadata_count [] c) (\<lambda>metadata c.
     attempt (validate_alignment (declared_alignment metadata) (cur_pos c)) c (\<lambda>_.
     proceed (read_tensors tensor_count [] [] c) (\<lambda>(tensors, by_name) c.
     attempt (align_up (cur_pos c) (declared_alignment metadata)) c (\<lambda>start.
       (Ok \<lparr>pa_metadata = metadata, pa_tensors = tensors, pa_tensor_by_name = by_name,
            pa_data_region_start = start, pa_alignment = declared_alignment metadata\<rparr>, c)))))))))))"

definition gguf_parse :: "bytes \<Rightarrow> (parsed_archive, gguf_error) result" where
  "gguf_parse bs = fst (parse_header (cursor_new bs))"

end
