(* ===== verification/Gguf_Extents.thy ===== *)
theory Gguf_Extents
  imports Gguf_Parser
begin

text \<open>
  Where the tensors of a parsed archive lie in the file: element counts, serialized lengths, extents
  and their validation, the inspection receipt with its census of types, and the bound on the part of
  a file that can hold a header.
\<close>

subsection \<open>Lengths\<close>

record tensor_extent =
  te_elements :: nat
  te_start :: nat
  te_end :: nat
  te_byte_len :: nat

fun multiply_dims :: "nat \<Rightarrow> nat \<Rightarrow> nat list \<Rightarrow> (nat, gguf_error) result" where
  "multiply_dims offset elements [] = Ok elements"
| "multiply_dims offset elements (d # ds) =
     and_then (checked_u64 offset (usize_mul elements d)) (\<lambda>n. multiply_dims offset n ds)"

definition checked_element_count :: "tensor_descriptor \<Rightarrow> (nat, gguf_error) result" where
  "checked_element_count d = multiply_dims (td_data_offset d) 1 (td_dims d)"

definition checked_block_geometry :: "tensor_descriptor \<Rightarrow> ((nat \<times> nat) option, gguf_error) result" where
  "checked_block_geometry d =
     (case block_layout (td_ggml_type d) of
        None \<Rightarrow> Ok None
      | Some (block_elements, block_bytes) \<Rightarrow> Ok (Some (block_elements, block_bytes)))"

definition checked_byte_len :: "tensor_descriptor \<Rightarrow> nat \<Rightarrow> (nat, gguf_error) result" where
  "checked_byte_len d elements =
     (let failed = GgufInvalid (td_data_offset d) in
      and_then (checked_block_geometry d) (\<lambda>geometry.
        case geometry of
          Some (block_elements, block_bytes) \<Rightarrow>
            and_then (case td_dims d of [] \<Rightarrow> Err failed | row # _ \<Rightarrow> Ok row) (\<lambda>row_elements.
            and_then (require (row_elements mod block_elements = 0) failed) (\<lambda>_.
            and_then (require (elements mod block_elements = 0) failed) (\<lambda>_.
              ok_or failed (usize_mul (elements div block_elements) block_bytes))))
        | None \<Rightarrow>
            and_then (ok_or failed (size_in_bits (td_ggml_type d))) (\<lambda>width.
            and_then (ok_or failed (usize_mul elements width)) (\<lambda>bits. Ok ((bits + 7) div 8)))))"

subsection \<open>Extents\<close>

definition extent_for :: "parsed_archive \<Rightarrow> tensor_descriptor \<Rightarrow> nat \<Rightarrow> (tensor_extent, gguf_error) result" where
  "extent_for a d file_len =
     and_then (require (td_data_offset d mod pa_alignment a = 0) (GgufInvalid (td_data_offset d))) (\<lambda>_.
     and_then (checked_element_count d) (\<lambda>elements.
     and_then (checked_byte_len d elements) (\<lambda>byte_len.
     and_then (checked_u64 (pa_data_region_start a) (usize_add (pa_data_region_start a) (td_data_offset d))) (\<lambda>start.
     and_then (checked_u64 start (usize_add start byte_len)) (\<lambda>end_of.
     and_then (require (end_of \<le> file_len) (GgufInvalid start)) (\<lambda>_.
       Ok \<lparr>te_elements = elements, te_start = start, te_end = end_of, te_byte_len = byte_len\<rparr>))))))"

text \<open>\<open>extents.windows(2)\<close>\<close>

fun check_windows :: "tensor_extent list \<Rightarrow> (unit, gguf_error) result" where
  "check_windows (previous # next_one # rest) =
     and_then (require (te_end previous \<le> te_start next_one) (GgufInvalid (te_start next_one))) (\<lambda>_.
       check_windows (next_one # rest))"
| "check_windows es = Ok ()"

text \<open>
  The sort of the source is unstable; extents that start together overlap however they are ordered.
\<close>

definition validate_tensor_extents :: "parsed_archive \<Rightarrow> nat \<Rightarrow> (unit, gguf_error) result" where
  "validate_tensor_extents a file_len =
     and_then (try_map (\<lambda>d. extent_for a d file_len) (pa_tensors a)) (\<lambda>extents.
       check_windows (sort_key te_start extents))"

subsection \<open>Inspection\<close>

datatype artifact_digest = NotComputed | Sha256 bytes

record model_metadata =
  mm_architecture :: "bytes option"
  mm_name :: "bytes option"
  mm_file_type :: "u32 option"
  mm_quantization_version :: "u32 option"

record inspected_tensor =
  it_name :: bytes
  it_dims :: "nat list"
  it_ggml_type :: ggml_type
  it_logical_elements :: nat
  it_file_offset :: nat
  it_byte_len :: nat

record ggml_type_census =
  gc_ggml_type :: ggml_type
  gc_tensor_count :: nat
  gc_logical_elements :: nat
  gc_byte_len :: nat

record gguf_inspection =
  in_file_len :: nat
  in_alignment :: nat
  in_digest :: artifact_digest
  in_model :: model_metadata
  in_tensors :: "inspected_tensor list"
  in_type_census :: "ggml_type_census list"

definition metadata_string :: "(bytes \<times> meta_value) list \<Rightarrow> bytes \<Rightarrow> bytes option" where
  "metadata_string table k = (case map_of table k of Some (MetaString v) \<Rightarrow> Some v | _ \<Rightarrow> None)"

definition metadata_u32 :: "(bytes \<times> meta_value) list \<Rightarrow> bytes \<Rightarrow> u32 option" where
  "metadata_u32 table k = (case map_of table k of Some (MetaU32 v) \<Rightarrow> Some v | _ \<Rightarrow> None)"

type_synonym census = "(ggml_type, nat \<times> nat \<times> nat) btree"

definition census_add :: "census \<Rightarrow> tensor_descriptor \<Rightarrow> tensor_extent \<Rightarrow> (census, gguf_error) result" where
  "census_add m d e =
     (let failed = GgufInvalid (te_start e);
          (tensors, elements, len) = (case bt_get m (td_ggml_type d) of None \<Rightarrow> (0, 0, 0) | Some c \<Rightarrow> c) in
      and_then (ok_or failed (usize_add tensors 1)) (\<lambda>tensors.
      and_then (ok_or failed (usize_add elements (te_elements e))) (\<lambda>elements.
      and_then (ok_or failed (usize_add len (te_byte_len e))) (\<lambda>len.
        Ok (bt_insert (td_ggml_type d) (tensors, elements, len) m)))))"

definition inspected :: "tensor_descriptor \<Rightarrow> tensor_extent \<Rightarrow> inspected_tensor" where
  "inspected d e = \<lparr>it_name = td_name d, it_dims = td_dims d, it_ggml_type = td_ggml_type d,
     it_logical_elements = te_elements e, it_file_offset = te_start e, it_byte_len = te_byte_len e\<rparr>"

fun inspect_tensors ::
  "parsed_archive \<Rightarrow> nat \<Rightarrow> census \<Rightarrow> inspected_tensor list \<Rightarrow> tensor_descriptor list \<Rightarrow>
     (census \<times> inspected_tensor list, gguf_error) result" where
  "inspect_tensors a file_len m ts [] = Ok (m, ts)"
| "inspect_tensors a file_len m ts (d # ds) =
     and_then (extent_for a d file_len) (\<lambda>e.
     and_then (census_add m d e) (\<lambda>m.
       inspect_tensors a file_len m (ts @ [inspected d e]) ds))"

definition census_row :: "ggml_type \<times> nat \<times> nat \<times> nat \<Rightarrow> ggml_type_census" where
  "census_row = (\<lambda>(t, n, elements, len).
     \<lparr>gc_ggml_type = t, gc_tensor_count = n, gc_logical_elements = elements, gc_byte_len = len\<rparr>)"

definition inspection :: "parsed_archive \<Rightarrow> nat \<Rightarrow> artifact_digest \<Rightarrow> (gguf_inspection, gguf_error) result" where
  "inspection a file_len digest =
     and_then (inspect_tensors a file_len [] [] (pa_tensors a)) (\<lambda>(m, ts).
       Ok \<lparr>in_file_len = file_len, in_alignment = pa_alignment a, in_digest = digest,
           in_model = \<lparr>mm_architecture = metadata_string (pa_metadata a) (bytes_of ''general.architecture''),
             mm_name = metadata_string (pa_metadata a) (bytes_of ''general.name''),
             mm_file_type = metadata_u32 (pa_metadata a) (bytes_of ''general.file_type''),
             mm_quantization_version = metadata_u32 (pa_metadata a) (bytes_of ''general.quantization_version'')\<rparr>,
           in_tensors = ts, in_type_census = map census_row m\<rparr>)"

subsection \<open>Tensors by name\<close>

definition descriptor_by_name :: "parsed_archive \<Rightarrow> bytes \<Rightarrow> (tensor_descriptor, gguf_error) result" where
  "descriptor_by_name a name =
     and_then (ok_or (TensorNotFound name) (map_of (pa_tensor_by_name a) name)) (\<lambda>idx.
       if idx < length (pa_tensors a) then Ok (pa_tensors a ! idx) else Err (GgufInvalid 0))"

text \<open>\<open>bytes.get(start..end)\<close>\<close>

definition slice_get :: "bytes \<Rightarrow> nat \<Rightarrow> nat \<Rightarrow> bytes option" where
  "slice_get bs start end_of =
     (if start \<le> end_of \<and> end_of \<le> length bs then Some (take (end_of - start) (drop start bs)) else None)"

subsection \<open>The bound on a header\<close>

definition maximum_header_snapshot_bytes :: "(nat, gguf_error) result" where
  "maximum_header_snapshot_bytes =
     (let metadata_entry_envelope = Option.bind (usize_add 8 4) (\<lambda>n. usize_add n (4 + 8));
          tensor_descriptor_envelope =
            Option.bind (Option.bind (Option.bind (usize_add 8 4) (\<lambda>n.
              Option.bind (usize_mul MAX_TENSOR_DIMS 8) (\<lambda>dims. usize_add n dims)))
              (\<lambda>n. usize_add n 4)) (\<lambda>n. usize_add n 8) in
      checked_u64 0
        (Option.bind (Option.bind (Option.bind (Option.bind (Option.bind metadata_entry_envelope
            (\<lambda>entry. usize_mul MAX_METADATA_COUNT entry))
          (\<lambda>n. Option.bind (usize_mul MAX_TOTAL_METADATA_ARRAY_ELEMENTS 8) (\<lambda>arrays. usize_add n arrays)))
          (\<lambda>n. usize_add n MAX_TOTAL_STRING_BYTES))
          (\<lambda>n. Option.bind tensor_descriptor_envelope (\<lambda>d.
            Option.bind (usize_mul MAX_TENSOR_COUNT d) (\<lambda>tensors. usize_add n tensors))))
          (\<lambda>n. usize_add n (4 + 4 + 8 + 8))))"

end
