(* ===== verification/Gguf_Format.thy ===== *)
theory Gguf_Format
  imports Gguf_Parser "HOL-Library.Sublist"
begin

text \<open>
  The GGUF v3 format as a relation between values and bytes, and the contract of a reader: it
  succeeds exactly when the observed bytes go on with an encoding of its value that fits the
  resource limits, and then moves the cursor over it. Readers compose, so the parser of the header
  satisfies the contract for the format of a whole header.
\<close>

subsection \<open>Cursors\<close>

definition unread :: "cursor \<Rightarrow> bytes" where
  "unread c = drop (cur_pos c) (cur_bytes c)"

definition advance :: "cursor \<Rightarrow> nat \<Rightarrow> nat \<Rightarrow> nat \<Rightarrow> cursor" where
  "advance c n s e = c\<lparr>cur_pos := cur_pos c + n, cur_total_string_bytes := cur_total_string_bytes c + s,
     cur_total_array_elements := cur_total_array_elements c + e\<rparr>"

definition within :: "cursor \<Rightarrow> nat \<Rightarrow> nat \<Rightarrow> bool" where
  "within c s e \<longleftrightarrow> cur_total_string_bytes c + s \<le> MAX_TOTAL_STRING_BYTES \<and>
     cur_total_array_elements c + e \<le> MAX_TOTAL_METADATA_ARRAY_ELEMENTS"

definition cursor_ok :: "cursor \<Rightarrow> bool" where
  "cursor_ok c \<longleftrightarrow> cur_pos c \<le> length (cur_bytes c) \<and> length (cur_bytes c) < 2 ^ 64 \<and> within c 0 0"

lemma advance_fields [simp]:
  "cur_bytes (advance c n s e) = cur_bytes c" "cur_pos (advance c n s e) = cur_pos c + n"
  "cur_total_string_bytes (advance c n s e) = cur_total_string_bytes c + s"
  "cur_total_array_elements (advance c n s e) = cur_total_array_elements c + e"
  by (simp_all add: advance_def)

lemma advance_advance [simp]: "advance (advance c n s e) n' s' e' = advance c (n + n') (s + s') (e + e')"
  by (simp add: advance_def)

lemma advance_0 [simp]: "advance c 0 0 0 = c"
  by (simp add: advance_def)

lemma unread_advance [simp]: "unread (advance c n s e) = drop n (unread c)"
  by (simp add: unread_def add.commute)

lemma within_advance [simp]: "within (advance c n s e) s' e' \<longleftrightarrow> within c (s + s') (e + e')"
  by (simp add: within_def add.assoc)

lemma within_mono: "within c s e \<Longrightarrow> s' \<le> s \<Longrightarrow> e' \<le> e \<Longrightarrow> within c s' e'"
  by (simp add: within_def)

lemma prefix_append: "prefix (xs @ ys) zs \<longleftrightarrow> prefix xs zs \<and> prefix ys (drop (length xs) zs)"
  by (auto simp: prefix_def)

lemma cursor_ok_advance:
  assumes "cursor_ok c" and "prefix bs (unread c)" and "within c s e"
  shows "cursor_ok (advance c (length bs) s e)"
proof -
  have "length bs \<le> length (cur_bytes c) - cur_pos c" using prefix_length_le [OF assms(2)] by (simp add: unread_def)
  then have "cur_pos c + length bs \<le> length (cur_bytes c)" using assms(1) unfolding cursor_ok_def by arith
  then show ?thesis using assms(1,3) by (simp add: cursor_ok_def)
qed

subsection \<open>The contract of a reader\<close>

locale byte_reader =
  fixes read :: "cursor \<Rightarrow> ('a, gguf_error) result \<times> cursor"
    and encodes :: "'a \<Rightarrow> bytes \<Rightarrow> nat \<Rightarrow> nat \<Rightarrow> bool"
  assumes reads: "cursor_ok c \<Longrightarrow> read c = (Ok v, c') \<longleftrightarrow>
      (\<exists>bs s e. encodes v bs s e \<and> prefix bs (unread c) \<and> within c s e \<and> c' = advance c (length bs) s e)"
    and no_panic: "cursor_ok c \<Longrightarrow> fst (read c) \<noteq> Panic"
begin

lemma read_keeps_ok: "cursor_ok c \<Longrightarrow> read c = (Ok v, c') \<Longrightarrow> cursor_ok c'"
  using reads cursor_ok_advance by metis

lemma read_Ok:
  assumes "cursor_ok c" and "read c = (Ok v, c')"
  obtains bs s e where "encodes v bs s e" "prefix bs (unread c)" "within c s e" "c' = advance c (length bs) s e"
  using assms reads by metis

lemma read_Ok_intro:
  "cursor_ok c \<Longrightarrow> encodes v bs s e \<Longrightarrow> prefix bs (unread c) \<Longrightarrow> within c s e \<Longrightarrow>
     read c = (Ok v, advance c (length bs) s e)"
  using reads by metis

end

lemma byte_reader_cong:
  "byte_reader R E \<Longrightarrow> (\<And>v bs s e. E v bs s e \<longleftrightarrow> E' v bs s e) \<Longrightarrow> byte_reader R E'"
  by (simp add: byte_reader_def)

lemma byte_reader_return:
  "byte_reader (\<lambda>c. (Ok x, c)) (\<lambda>v bs s e. v = x \<and> bs = [] \<and> s = 0 \<and> e = 0)"
  by unfold_locales (auto simp: cursor_ok_def)

lemma byte_reader_bind_at:
  assumes R: "byte_reader R E" and K: "\<And>d x. byte_reader (K d x) (F x)"
  shows "byte_reader (\<lambda>c. proceed (R c) (K c))
    (\<lambda>v bs s e. \<exists>x b1 b2 s1 s2 e1 e2. E x b1 s1 e1 \<and> F x v b2 s2 e2 \<and> bs = b1 @ b2 \<and> s = s1 + s2 \<and> e = e1 + e2)"
proof
  fix c v c'
  assume c: "cursor_ok c"
  show "proceed (R c) (K c) = (Ok v, c') \<longleftrightarrow>
      (\<exists>bs s e. (\<exists>x b1 b2 s1 s2 e1 e2. E x b1 s1 e1 \<and> F x v b2 s2 e2 \<and> bs = b1 @ b2 \<and> s = s1 + s2 \<and> e = e1 + e2) \<and>
        prefix bs (unread c) \<and> within c s e \<and> c' = advance c (length bs) s e)" (is "?l \<longleftrightarrow> ?r")
  proof
    assume ?l
    then obtain x d where x: "R c = (Ok x, d)" and v: "K c x d = (Ok v, c')" by auto
    obtain b1 s1 e1 where 1: "E x b1 s1 e1" "prefix b1 (unread c)" "within c s1 e1" "d = advance c (length b1) s1 e1"
      by (rule byte_reader.read_Ok [OF R c x])
    obtain b2 s2 e2 where 2: "F x v b2 s2 e2" "prefix b2 (unread d)" "within d s2 e2" "c' = advance d (length b2) s2 e2"
      by (rule byte_reader.read_Ok [OF K byte_reader.read_keeps_ok [OF R c x] v])
    have "prefix (b1 @ b2) (unread c)" "within c (s1 + s2) (e1 + e2)"
      "c' = advance c (length (b1 @ b2)) (s1 + s2) (e1 + e2)"
      using 1 2 by (simp_all add: prefix_append)
    with 1(1) 2(1) show ?r by blast
  next
    assume ?r
    then obtain x b1 b2 s1 s2 e1 e2 where e: "E x b1 s1 e1" "F x v b2 s2 e2"
      and p: "prefix b1 (unread c)" "prefix b2 (drop (length b1) (unread c))"
      and w: "within c (s1 + s2) (e1 + e2)" and c': "c' = advance c (length b1 + length b2) (s1 + s2) (e1 + e2)"
      by (auto simp: prefix_append)
    let ?d = "advance c (length b1) s1 e1"
    have w1: "within c s1 e1" by (rule within_mono [OF w]) simp_all
    have "R c = (Ok x, ?d)" by (rule byte_reader.read_Ok_intro [OF R c e(1) p(1) w1])
    moreover have "K c x ?d = (Ok v, advance ?d (length b2) s2 e2)"
      using p(2) w by (intro byte_reader.read_Ok_intro [OF K cursor_ok_advance [OF c p(1) w1] e(2)]) simp_all
    ultimately show ?l using c' by simp
  qed
  show "fst (proceed (R c) (K c)) \<noteq> Panic"
  proof (cases "R c")
    case (Pair r d)
    then show ?thesis
      using byte_reader.no_panic [OF R c] byte_reader.no_panic [OF K] byte_reader.read_keeps_ok [OF R c]
      by (cases r) auto
  qed
qed

lemma byte_reader_bind:
  assumes "byte_reader R E" and "\<And>x. byte_reader (K x) (F x)"
  shows "byte_reader (\<lambda>c. proceed (R c) K)
    (\<lambda>v bs s e. \<exists>x b1 b2 s1 s2 e1 e2. E x b1 s1 e1 \<and> F x v b2 s2 e2 \<and> bs = b1 @ b2 \<and> s = s1 + s2 \<and> e = e1 + e2)"
  by (rule byte_reader_bind_at [OF assms])

text \<open>A check that does not depend on the cursor.\<close>

lemma byte_reader_check:
  assumes g: "\<And>c x. g c = Ok x \<longleftrightarrow> P x" "\<And>c. g c \<noteq> Panic" and K: "\<And>x. P x \<Longrightarrow> byte_reader (K x) (F x)"
  shows "byte_reader (\<lambda>c. attempt (g c) c (\<lambda>x. K x c)) (\<lambda>v bs s e. \<exists>x. P x \<and> F x v bs s e)"
proof
  fix c v c'
  assume c: "cursor_ok c"
  show "attempt (g c) c (\<lambda>x. K x c) = (Ok v, c') \<longleftrightarrow>
      (\<exists>bs s e. (\<exists>x. P x \<and> F x v bs s e) \<and> prefix bs (unread c) \<and> within c s e \<and> c' = advance c (length bs) s e)"
    using g(1) byte_reader.reads [OF K c] by simp blast
  show "fst (attempt (g c) c (\<lambda>x. K x c)) \<noteq> Panic"
  proof (cases "g c")
    case (Ok x)
    then have "P x" using g(1) by blast
    then show ?thesis using Ok byte_reader.no_panic [OF K c] by simp
  qed (use g(2) in auto)
qed

lemma byte_reader_wrap:
  "byte_reader R E \<Longrightarrow> byte_reader (\<lambda>c. wrap f (R c)) (\<lambda>v bs s e. \<exists>x. v = f x \<and> E x bs s e)"
  unfolding wrap_def
  by (rule byte_reader_cong [OF byte_reader_bind [OF _ byte_reader_return]]) auto

fun encodes_list :: "('a \<Rightarrow> bytes \<Rightarrow> nat \<Rightarrow> nat \<Rightarrow> bool) \<Rightarrow> 'a list \<Rightarrow> bytes \<Rightarrow> nat \<Rightarrow> nat \<Rightarrow> bool" where
  "encodes_list E [] bs s e \<longleftrightarrow> bs = [] \<and> s = 0 \<and> e = 0"
| "encodes_list E (x # xs) bs s e \<longleftrightarrow>
     (\<exists>b1 b2 s1 s2 e1 e2. E x b1 s1 e1 \<and> encodes_list E xs b2 s2 e2 \<and> bs = b1 @ b2 \<and> s = s1 + s2 \<and> e = e1 + e2)"

lemma byte_reader_repeat:
  assumes R: "byte_reader R E"
  shows "byte_reader (repeat_read n R) (\<lambda>vs bs s e. length vs = n \<and> encodes_list E vs bs s e)"
proof (induction n)
  case 0
  show ?case unfolding repeat_read.simps by (rule byte_reader_cong [OF byte_reader_return]) auto
next
  case (Suc n)
  show ?case
    unfolding repeat_read.simps
    apply (rule byte_reader_cong [OF byte_reader_bind [OF R byte_reader_bind [OF Suc.IH byte_reader_return]]])
    subgoal for vs bs s e by (cases vs; simp; blast)
    done
qed

subsection \<open>Integers\<close>

fun le_bytes :: "nat \<Rightarrow> nat \<Rightarrow> bytes" where
  "le_bytes 0 x = []"
| "le_bytes (Suc n) x = of_nat x # le_bytes n (x div 256)"

lemma length_le_bytes [simp]: "length (le_bytes n x) = n"
  by (induction n arbitrary: x) simp_all

lemma le_nat_bound: "le_nat bs < 256 ^ length bs"
proof (induction bs)
  case (Cons b bs)
  have "unat b < 256" using unsigned_less [of b] by simp
  then show ?case using Cons by simp
qed simp

lemma le_nat_le_bytes: "x < 256 ^ n \<Longrightarrow> le_nat (le_bytes n x) = x"
proof (induction n arbitrary: x)
  case (Suc n)
  have "x div 256 < 256 ^ n" using Suc.prems by (simp add: less_mult_imp_div_less mult.commute)
  moreover have "unat (of_nat x :: u8) = x mod 256" by (simp add: unat_of_nat take_bit_eq_mod)
  ultimately show ?case using Suc.IH by simp
qed simp

lemma le_bytes_le_nat: "le_bytes (length bs) (le_nat bs) = bs"
proof (induction bs)
  case (Cons b bs)
  have "(of_nat (unat b + 256 * le_nat bs) :: u8) = b"
  proof -
    have z: "(256 :: u8) = 0" by transfer simp
    have "256 * (of_nat (le_nat bs) :: u8) = 0" unfolding z by simp
    then show ?thesis by simp
  qed
  moreover have "(unat b + 256 * le_nat bs) div 256 = le_nat bs"
    using unsigned_less [of b, where 'a = nat] by simp
  ultimately show ?case using Cons by simp
qed simp

lemma le_nat_iff: "length bs = n \<and> x = le_nat bs \<longleftrightarrow> bs = le_bytes n x \<and> x < 256 ^ n"
  using le_nat_bound le_nat_le_bytes le_bytes_le_nat by auto

lemma read_n_reader: "byte_reader (read_n n) (\<lambda>v bs s e. length v = n \<and> bs = v \<and> s = 0 \<and> e = 0)"
proof
  fix c v c'
  assume c: "cursor_ok c"
  have whole: "length (unread c) = length (cur_bytes c) - cur_pos c" by (simp add: unread_def)
  show "read_n n c = (Ok v, c') \<longleftrightarrow> (\<exists>bs s e. (length v = n \<and> bs = v \<and> s = 0 \<and> e = 0) \<and>
      prefix bs (unread c) \<and> within c s e \<and> c' = advance c (length bs) s e)"
  proof (cases "cur_pos c + n \<le> length (cur_bytes c)")
    case True
    then have "read_n n c = (Ok (take n (unread c)), advance c n 0 0)"
      using c by (simp add: read_n_def usize_add_def cursor_ok_def unread_def advance_def)
    moreover have "length v = n \<and> prefix v (unread c) \<longleftrightarrow> v = take n (unread c)"
      using True whole take_is_prefix [of n "unread c"] by (auto simp: prefix_def min_def)
    ultimately show ?thesis using c by (auto simp: cursor_ok_def)
  next
    case False
    then have "fst (read_n n c) = Err (GgufInvalid (cur_pos c))"
      by (simp add: read_n_def usize_add_def)
    moreover have "length v \<noteq> n \<or> \<not> prefix v (unread c)"
      using False whole prefix_length_le [of v "unread c"] c by (auto simp: cursor_ok_def)
    ultimately show ?thesis by auto
  qed
qed (simp add: read_n_def usize_add_def)

lemma read_nat_reader:
  "byte_reader (read_nat n) (\<lambda>x bs s e. x < 256 ^ n \<and> bs = le_bytes n x \<and> s = 0 \<and> e = 0)"
  unfolding read_nat_def
  by (rule byte_reader_cong [OF byte_reader_bind [OF read_n_reader byte_reader_return]])
    (use le_nat_iff [of _ n] in auto)

lemma read_word_reader:
  assumes "LENGTH('w::len) = 8 * n"
  shows "byte_reader (read_word n :: cursor \<Rightarrow> ('w word, gguf_error) result \<times> cursor)
    (\<lambda>w bs s e. bs = le_bytes n (unat w) \<and> s = 0 \<and> e = 0)"
proof -
  have two: "(256 :: nat) ^ n = 2 ^ LENGTH('w)" using assms by (simp add: power_mult)
  have "unat (w :: 'w word) < 256 ^ n" for w unfolding two by (rule unsigned_less)
  moreover have [simp]: "unat (of_nat x :: 'w word) = x" if "x < 256 ^ n" for x
    using that two by (simp add: unsigned_of_nat take_bit_nat_eq_self)
  ultimately have eq: "(\<exists>x. w = of_nat x \<and> x < 256 ^ n \<and> bs = le_bytes n x) \<longleftrightarrow> bs = le_bytes n (unat w)"
    for w :: "'w word" and bs
    by (auto intro!: exI [of _ "unat w"])
  show ?thesis
    unfolding read_word_def
    by (rule byte_reader_cong [OF byte_reader_bind [OF read_nat_reader byte_reader_return]])
      (use eq in auto)
qed

lemma read_bool_reader:
  "byte_reader read_bool (\<lambda>v bs s e. \<exists>b. bs = [b] \<and> v = (b \<noteq> 0) \<and> s = 0 \<and> e = 0)"
  unfolding read_bool_def
  by (rule byte_reader_cong [OF byte_reader_bind [OF read_word_reader byte_reader_return]]) auto

subsection \<open>Strings\<close>

definition string_ok :: "bytes \<Rightarrow> bool" where
  "string_ok v \<longleftrightarrow> utf8_valid v \<and> length v \<le> MAX_STRING_BYTES"

definition string_bytes :: "bytes \<Rightarrow> bytes" where
  "string_bytes v = le_bytes 8 (length v) @ v"

definition read_string_body :: "nat \<Rightarrow> cursor \<Rightarrow> (bytes, gguf_error) result \<times> cursor" where
  "read_string_body len c =
     attempt (require (len \<le> MAX_STRING_BYTES) (GgufInvalid (cur_pos c))) c (\<lambda>_.
     attempt (checked_u64 (cur_pos c) (usize_add (cur_total_string_bytes c) len)) c (\<lambda>total.
     attempt (require (total \<le> MAX_TOTAL_STRING_BYTES) (GgufInvalid (cur_pos c))) c (\<lambda>_.
     proceed (read_n len c) (\<lambda>b c.
       if utf8_valid b then (Ok b, c\<lparr>cur_total_string_bytes := total\<rparr>)
       else case usize_sub (cur_pos c) len of
              None \<Rightarrow> (Panic, c)
            | Some offset \<Rightarrow> (Err (GgufInvalid offset), c)))))"

lemma read_string_body_reader:
  "byte_reader (read_string_body len) (\<lambda>v bs s e. length v = len \<and> string_ok v \<and> bs = v \<and> s = len \<and> e = 0)"
proof
  fix c v c'
  assume c: "cursor_ok c"
  note R = read_n_reader [of len]
  let ?fits = "len \<le> MAX_STRING_BYTES \<and> within c len 0"
  have body: "read_string_body len c = (if ?fits then proceed (read_n len c) (\<lambda>b d.
        if utf8_valid b then (Ok b, d\<lparr>cur_total_string_bytes := cur_total_string_bytes c + len\<rparr>)
        else case usize_sub (cur_pos d) len of None \<Rightarrow> (Panic, d) | Some offset \<Rightarrow> (Err (GgufInvalid offset), d))
      else (Err (GgufInvalid (cur_pos c)), c))"
    using c by (simp add: read_string_body_def require_def usize_add_def within_def cursor_ok_def gguf_limits)
  have sub: "usize_sub (cur_pos d) len \<noteq> None" if "read_n len c = (Ok b, d)" for b d
    using that c by (auto simp: byte_reader.reads [OF R c] usize_sub_def)
  show "read_string_body len c = (Ok v, c') \<longleftrightarrow>
      (\<exists>bs s e. (length v = len \<and> string_ok v \<and> bs = v \<and> s = len \<and> e = 0) \<and>
        prefix bs (unread c) \<and> within c s e \<and> c' = advance c (length bs) s e)"
  proof (cases ?fits)
    case True
    have "proceed (read_n len c) (\<lambda>b d.
        if utf8_valid b then (Ok b, d\<lparr>cur_total_string_bytes := cur_total_string_bytes c + len\<rparr>)
        else case usize_sub (cur_pos d) len of None \<Rightarrow> (Panic, d) | Some offset \<Rightarrow> (Err (GgufInvalid offset), d))
        = (Ok v, c') \<longleftrightarrow>
      (\<exists>d. read_n len c = (Ok v, d) \<and> utf8_valid v \<and> c' = d\<lparr>cur_total_string_bytes := cur_total_string_bytes c + len\<rparr>)"
      by (auto split: if_splits option.splits)
    then show ?thesis
      using True c unfolding body byte_reader.reads [OF R c]
      by (auto simp: string_ok_def advance_def cursor_ok_def)
  next
    case False
    then show ?thesis by (auto simp: body string_ok_def)
  qed
  show "fst (read_string_body len c) \<noteq> Panic"
    using sub byte_reader.no_panic [OF R c]
    by (cases "read_n len c"; cases "fst (read_n len c)") (auto simp: body split: option.splits)
qed

lemma read_string_reader:
  "byte_reader read_string (\<lambda>v bs s e. string_ok v \<and> bs = string_bytes v \<and> s = length v \<and> e = 0)"
proof -
  have split: "read_string = (\<lambda>c. proceed (read_u64 c) read_string_body)"
    by (rule ext) (simp add: read_string_def read_string_body_def [abs_def])
  have small: "length v < 256 ^ 8" if "string_ok v" for v
    using that by (simp add: string_ok_def gguf_limits)
  show ?thesis
    unfolding split
    by (rule byte_reader_cong [OF byte_reader_bind [OF read_nat_reader read_string_body_reader]])
      (use small in \<open>auto simp: string_bytes_def\<close>)
qed

subsection \<open>Metadata values\<close>

fun scalar_encodes :: "meta_value \<Rightarrow> bytes \<Rightarrow> bool" where
  "scalar_encodes (MetaU8 x) bs \<longleftrightarrow> bs = le_bytes 1 (unat x)"
| "scalar_encodes (MetaI8 x) bs \<longleftrightarrow> bs = le_bytes 1 (unat x)"
| "scalar_encodes (MetaU16 x) bs \<longleftrightarrow> bs = le_bytes 2 (unat x)"
| "scalar_encodes (MetaI16 x) bs \<longleftrightarrow> bs = le_bytes 2 (unat x)"
| "scalar_encodes (MetaU32 x) bs \<longleftrightarrow> bs = le_bytes 4 (unat x)"
| "scalar_encodes (MetaI32 x) bs \<longleftrightarrow> bs = le_bytes 4 (unat x)"
| "scalar_encodes (MetaU64 x) bs \<longleftrightarrow> bs = le_bytes 8 (unat x)"
| "scalar_encodes (MetaI64 x) bs \<longleftrightarrow> bs = le_bytes 8 (unat x)"
| "scalar_encodes (MetaF32 x) bs \<longleftrightarrow> bs = le_bytes 4 (unat x)"
| "scalar_encodes (MetaF64 x) bs \<longleftrightarrow> bs = le_bytes 8 (unat x)"
| "scalar_encodes (MetaBool v) bs \<longleftrightarrow> (\<exists>b. bs = [b] \<and> v = (b \<noteq> 0))"
| "scalar_encodes (MetaString v) bs \<longleftrightarrow> string_ok v \<and> bs = string_bytes v"
| "scalar_encodes (MetaArray t vs) bs \<longleftrightarrow> False"

fun string_cost :: "meta_value \<Rightarrow> nat" where
  "string_cost (MetaString v) = length v"
| "string_cost v = 0"

lemma scalar_by_wrap:
  assumes "byte_reader R E" and "\<And>c. read_scalar t c = wrap f (R c)"
    and "\<And>v bs s e. (\<exists>x. v = f x \<and> E x bs s e) \<longleftrightarrow> E' v bs s e"
  shows "byte_reader (read_scalar t) E'"
proof -
  have "read_scalar t = (\<lambda>c. wrap f (R c))" using assms(2) by (rule ext)
  then show ?thesis using byte_reader_cong [OF byte_reader_wrap [OF assms(1)] assms(3)] by simp
qed

lemma read_scalar_reader:
  assumes "t \<noteq> TyArray"
  shows "byte_reader (read_scalar t)
    (\<lambda>v bs s e. value_type v = t \<and> scalar_encodes v bs \<and> s = string_cost v \<and> e = 0)"
proof -
  have shape: "value_type v = TyU8 \<longleftrightarrow> (\<exists>x. v = MetaU8 x)" "value_type v = TyI8 \<longleftrightarrow> (\<exists>x. v = MetaI8 x)"
    "value_type v = TyU16 \<longleftrightarrow> (\<exists>x. v = MetaU16 x)" "value_type v = TyI16 \<longleftrightarrow> (\<exists>x. v = MetaI16 x)"
    "value_type v = TyU32 \<longleftrightarrow> (\<exists>x. v = MetaU32 x)" "value_type v = TyI32 \<longleftrightarrow> (\<exists>x. v = MetaI32 x)"
    "value_type v = TyU64 \<longleftrightarrow> (\<exists>x. v = MetaU64 x)" "value_type v = TyI64 \<longleftrightarrow> (\<exists>x. v = MetaI64 x)"
    "value_type v = TyF32 \<longleftrightarrow> (\<exists>x. v = MetaF32 x)" "value_type v = TyF64 \<longleftrightarrow> (\<exists>x. v = MetaF64 x)"
    "value_type v = TyBool \<longleftrightarrow> (\<exists>x. v = MetaBool x)" "value_type v = TyString \<longleftrightarrow> (\<exists>x. v = MetaString x)" for v
    by (cases v; simp)+
  show ?thesis
  proof (cases t)
    case TyU8
    show ?thesis unfolding TyU8
      by (rule scalar_by_wrap [OF read_word_reader read_scalar.simps(1)]) (auto simp: shape)
  next
    case TyI8
    show ?thesis unfolding TyI8
      by (rule scalar_by_wrap [OF read_word_reader read_scalar.simps(2)]) (auto simp: shape)
  next
    case TyU16
    show ?thesis unfolding TyU16
      by (rule scalar_by_wrap [OF read_word_reader read_scalar.simps(3)]) (auto simp: shape)
  next
    case TyI16
    show ?thesis unfolding TyI16
      by (rule scalar_by_wrap [OF read_word_reader read_scalar.simps(4)]) (auto simp: shape)
  next
    case TyU32
    show ?thesis unfolding TyU32
      by (rule scalar_by_wrap [OF read_word_reader read_scalar.simps(5)]) (auto simp: shape)
  next
    case TyI32
    show ?thesis unfolding TyI32
      by (rule scalar_by_wrap [OF read_word_reader read_scalar.simps(6)]) (auto simp: shape)
  next
    case TyF32
    show ?thesis unfolding TyF32
      by (rule scalar_by_wrap [OF read_word_reader read_scalar.simps(7)]) (auto simp: shape)
  next
    case TyBool
    show ?thesis unfolding TyBool
    proof (rule scalar_by_wrap [OF read_bool_reader read_scalar.simps(8)])
      show "(\<exists>x. v = MetaBool x \<and> (\<exists>b. bs = [b] \<and> x = (b \<noteq> 0) \<and> s = 0 \<and> e = 0)) \<longleftrightarrow>
          value_type v = TyBool \<and> scalar_encodes v bs \<and> s = string_cost v \<and> e = 0" for v bs s e
        by (cases v) (simp_all, blast)
    qed
  next
    case TyString
    show ?thesis unfolding TyString
      by (rule scalar_by_wrap [OF read_string_reader read_scalar.simps(9)]) (auto simp: shape)
  next
    case TyU64
    show ?thesis unfolding TyU64
      by (rule scalar_by_wrap [OF read_word_reader read_scalar.simps(11)]) (auto simp: shape)
  next
    case TyI64
    show ?thesis unfolding TyI64
      by (rule scalar_by_wrap [OF read_word_reader read_scalar.simps(12)]) (auto simp: shape)
  next
    case TyF64
    show ?thesis unfolding TyF64
      by (rule scalar_by_wrap [OF read_word_reader read_scalar.simps(13)]) (auto simp: shape)
  qed (use assms in simp)
qed

subsection \<open>Arrays\<close>

definition values_encode :: "meta_value list \<Rightarrow> bytes \<Rightarrow> bool" where
  "values_encode vs bs \<longleftrightarrow> (\<exists>bss. list_all2 scalar_encodes vs bss \<and> bs = concat bss)"

lemma values_encode_Cons:
  "values_encode (v # vs) bs \<longleftrightarrow> (\<exists>b1 b2. bs = b1 @ b2 \<and> scalar_encodes v b1 \<and> values_encode vs b2)"
proof
  assume "values_encode (v # vs) bs"
  then obtain b bss where "scalar_encodes v b" "list_all2 scalar_encodes vs bss" "bs = b @ concat bss"
    by (auto simp: values_encode_def list_all2_Cons1)
  then show "\<exists>b1 b2. bs = b1 @ b2 \<and> scalar_encodes v b1 \<and> values_encode vs b2"
    by (auto simp: values_encode_def)
next
  assume "\<exists>b1 b2. bs = b1 @ b2 \<and> scalar_encodes v b1 \<and> values_encode vs b2"
  then obtain b bss where "scalar_encodes v b" "list_all2 scalar_encodes vs bss" "bs = b @ concat bss"
    by (auto simp: values_encode_def)
  then show "values_encode (v # vs) bs"
    unfolding values_encode_def by (intro exI [of _ "b # bss"]) simp
qed

lemma encodes_list_scalars:
  "encodes_list (\<lambda>v bs s e. value_type v = t \<and> scalar_encodes v bs \<and> s = string_cost v \<and> e = 0) vs bs s e \<longleftrightarrow>
     (\<forall>v \<in> set vs. value_type v = t) \<and> values_encode vs bs \<and> s = (\<Sum>v\<leftarrow>vs. string_cost v) \<and> e = 0"
proof (induction vs arbitrary: bs s e)
  case Nil
  show ?case by (auto simp: values_encode_def)
next
  case (Cons v vs)
  show ?case unfolding encodes_list.simps Cons.IH values_encode_Cons by (simp, blast)
qed

text \<open>What the value costs: the string bytes and the array elements it is counted for.\<close>

fun value_encodes :: "meta_value \<Rightarrow> bytes \<Rightarrow> bool" where
  "value_encodes (MetaArray t vs) bs \<longleftrightarrow>
     t \<noteq> TyArray \<and> length vs \<le> MAX_METADATA_ARRAY_ELEMENTS \<and> (\<forall>v \<in> set vs. value_type v = t) \<and>
     (\<exists>body. values_encode vs body \<and> bs = le_bytes 4 (unat (meta_type_id t)) @ le_bytes 8 (length vs) @ body)"
| "value_encodes v bs \<longleftrightarrow> scalar_encodes v bs"

fun value_strings :: "meta_value \<Rightarrow> nat" where
  "value_strings (MetaArray t vs) = (\<Sum>v\<leftarrow>vs. string_cost v)"
| "value_strings v = string_cost v"

fun value_elements :: "meta_value \<Rightarrow> nat" where
  "value_elements (MetaArray t vs) = length vs"
| "value_elements v = 0"

definition read_array_body :: "meta_value_type \<Rightarrow> nat \<Rightarrow> cursor \<Rightarrow> (meta_value, gguf_error) result \<times> cursor" where
  "read_array_body inner n c =
     attempt (require (n \<le> MAX_METADATA_ARRAY_ELEMENTS) (GgufInvalid (cur_pos c))) c (\<lambda>_.
     attempt (checked_u64 (cur_pos c) (usize_add (cur_total_array_elements c) n)) c (\<lambda>total.
     attempt (require (total \<le> MAX_TOTAL_METADATA_ARRAY_ELEMENTS) (GgufInvalid (cur_pos c))) c (\<lambda>_.
     proceed (repeat_read n (read_scalar inner) c) (\<lambda>out c.
       (Ok (MetaArray inner out), c\<lparr>cur_total_array_elements := total\<rparr>)))))"

lemma read_array_body_reader:
  assumes inner: "inner \<noteq> TyArray"
  shows "byte_reader (read_array_body inner n) (\<lambda>v bs s e. \<exists>vs. v = MetaArray inner vs \<and> length vs = n \<and>
      n \<le> MAX_METADATA_ARRAY_ELEMENTS \<and> (\<forall>v \<in> set vs. value_type v = inner) \<and> values_encode vs bs \<and>
      s = (\<Sum>v\<leftarrow>vs. string_cost v) \<and> e = n)"
proof
  fix c v c'
  assume c: "cursor_ok c"
  note R = byte_reader_repeat [OF read_scalar_reader [OF inner], of n, unfolded encodes_list_scalars]
  let ?fits = "n \<le> MAX_METADATA_ARRAY_ELEMENTS \<and> within c 0 n"
  have body: "read_array_body inner n c = (if ?fits then proceed (repeat_read n (read_scalar inner) c) (\<lambda>out d.
        (Ok (MetaArray inner out), d\<lparr>cur_total_array_elements := cur_total_array_elements c + n\<rparr>))
      else (Err (GgufInvalid (cur_pos c)), c))"
    using c by (simp add: read_array_body_def require_def usize_add_def within_def cursor_ok_def gguf_limits)
  show "read_array_body inner n c = (Ok v, c') \<longleftrightarrow>
      (\<exists>bs s e. (\<exists>vs. v = MetaArray inner vs \<and> length vs = n \<and> n \<le> MAX_METADATA_ARRAY_ELEMENTS \<and>
          (\<forall>v \<in> set vs. value_type v = inner) \<and> values_encode vs bs \<and> s = (\<Sum>v\<leftarrow>vs. string_cost v) \<and> e = n) \<and>
        prefix bs (unread c) \<and> within c s e \<and> c' = advance c (length bs) s e)" (is "_ = ?r")
  proof (cases ?fits)
    case True
    have "within c s 0 \<longleftrightarrow> within c s n" for s using True by (auto simp: within_def)
    then show ?thesis
      using True unfolding body
      by (auto simp: byte_reader.reads [OF R c] advance_def)
  next
    case False
    have "\<not> within c s n" if "n \<le> MAX_METADATA_ARRAY_ELEMENTS" for s
      using False that within_mono [of c s n 0 n] by auto
    then show ?thesis using False by (auto simp: body)
  qed
  show "fst (read_array_body inner n c) \<noteq> Panic"
    using byte_reader.no_panic [OF R c]
    by (cases "repeat_read n (read_scalar inner) c"; cases "fst (repeat_read n (read_scalar inner) c)")
      (auto simp: body)
qed

lemma meta_type_not_Panic [simp]: "meta_type_from_u32 i offset \<noteq> Panic"
  by (simp add: meta_type_from_u32_def)

lemma value_type_Array: "value_type v = TyArray \<longleftrightarrow> (\<exists>t vs. v = MetaArray t vs)"
  by (cases v) simp_all

lemma value_encodes_scalar:
  "value_type v \<noteq> TyArray \<Longrightarrow> (value_encodes v bs \<longleftrightarrow> scalar_encodes v bs) \<and>
     value_strings v = string_cost v \<and> value_elements v = 0"
  by (cases v) simp_all

lemma read_array_value_reader:
  "byte_reader read_array_value (\<lambda>v bs s e. value_type v = TyArray \<and> value_encodes v bs \<and>
     s = value_strings v \<and> e = value_elements v)"
proof -
  have split: "read_array_value = (\<lambda>c0. proceed (read_u32 c0) (\<lambda>inner_id c.
      attempt (meta_type_from_u32 inner_id (cur_pos c0)) c (\<lambda>inner.
      attempt (require (inner \<noteq> TyArray) (GgufInvalid (cur_pos c))) c (\<lambda>u.
      proceed (read_u64 c) (read_array_body inner)))))"
    by (rule ext) (simp add: read_array_value_def read_array_body_def [abs_def])
  have count: "n < 256 ^ 8" if "n \<le> MAX_METADATA_ARRAY_ELEMENTS" for n
    using that by (simp add: gguf_limits)
  have inner: "byte_reader (\<lambda>c. attempt (meta_type_from_u32 i (cur_pos d)) c (\<lambda>inner.
        attempt (require (inner \<noteq> TyArray) (GgufInvalid (cur_pos c))) c (\<lambda>u. proceed (read_u64 c) (read_array_body inner))))
      (\<lambda>v bs s e. \<exists>t vs body. i = meta_type_id t \<and> t \<noteq> TyArray \<and> v = MetaArray t vs \<and>
        length vs \<le> MAX_METADATA_ARRAY_ELEMENTS \<and> (\<forall>v \<in> set vs. value_type v = t) \<and> values_encode vs body \<and>
        bs = le_bytes 8 (length vs) @ body \<and> s = (\<Sum>v\<leftarrow>vs. string_cost v) \<and> e = length vs)" for i d
    by (rule byte_reader_cong [OF byte_reader_check [where P = "\<lambda>t. i = meta_type_id t",
          OF meta_type_from_u32_iff meta_type_not_Panic byte_reader_check [where P = "\<lambda>u. _ \<noteq> TyArray", OF require_Ok_iff require_not_Panic
            byte_reader_bind [OF read_nat_reader read_array_body_reader]]]])
      (use count in \<open>auto 4 4\<close>)
  show ?thesis
    unfolding split
    by (rule byte_reader_cong [OF byte_reader_bind_at [OF read_word_reader inner]])
      (auto simp: value_type_Array)
qed

lemma read_meta_value_typed_reader:
  "byte_reader (read_meta_value_typed t) (\<lambda>v bs s e. value_type v = t \<and> value_encodes v bs \<and>
     s = value_strings v \<and> e = value_elements v)"
proof (cases "t = TyArray")
  case True
  have "read_meta_value_typed t = read_array_value" by (rule ext) (simp add: read_meta_value_typed_def True)
  then show ?thesis using read_array_value_reader True by simp
next
  case False
  have "read_meta_value_typed t = read_scalar t" by (rule ext) (simp add: read_meta_value_typed_def False)
  show ?thesis
    unfolding \<open>read_meta_value_typed t = read_scalar t\<close>
    by (rule byte_reader_cong [OF read_scalar_reader [OF False]]) (use False value_encodes_scalar in auto)
qed

definition typed_value_bytes :: "meta_value \<Rightarrow> bytes \<Rightarrow> bool" where
  "typed_value_bytes v bs \<longleftrightarrow>
     (\<exists>body. value_encodes v body \<and> bs = le_bytes 4 (unat (meta_type_id (value_type v))) @ body)"

lemma read_meta_value_reader:
  "byte_reader read_meta_value (\<lambda>v bs s e. typed_value_bytes v bs \<and> s = value_strings v \<and> e = value_elements v)"
proof -
  have K: "byte_reader (\<lambda>c. attempt (meta_type_from_u32 i (cur_pos d)) c (\<lambda>t. read_meta_value_typed t c))
      (\<lambda>v bs s e. \<exists>t. i = meta_type_id t \<and> value_type v = t \<and> value_encodes v bs \<and>
        s = value_strings v \<and> e = value_elements v)" for i d
    by (rule byte_reader_check [OF meta_type_from_u32_iff meta_type_not_Panic read_meta_value_typed_reader])
  show ?thesis
    unfolding read_meta_value_def [abs_def]
    by (rule byte_reader_cong [OF byte_reader_bind_at [OF read_word_reader K]])
      (auto simp: typed_value_bytes_def)
qed

end
