(* ===== verification/Gguf_Header.thy ===== *)
theory Gguf_Header
  imports Gguf_Format
begin

text \<open>
  The header of a GGUF file: tensor descriptors, the metadata table and the whole header as readers,
  and from them the exact set of byte strings the parser accepts, with what it returns.
\<close>

subsection \<open>Tensor descriptors\<close>

definition descriptor_ok :: "tensor_descriptor \<Rightarrow> bool" where
  "descriptor_ok d \<longleftrightarrow> string_ok (td_name d) \<and> 1 \<le> length (td_dims d) \<and> length (td_dims d) \<le> MAX_TENSOR_DIMS \<and>
     0 \<notin> set (td_dims d) \<and> (\<forall>x \<in> set (td_dims d). x < 2 ^ 64) \<and> td_data_offset d < 2 ^ 64"

definition descriptor_bytes :: "tensor_descriptor \<Rightarrow> bytes" where
  "descriptor_bytes d = string_bytes (td_name d) @ le_bytes 4 (length (td_dims d)) @
     concat (map (le_bytes 8) (td_dims d)) @ le_bytes 4 (unat (ggml_type_id (td_ggml_type d))) @
     le_bytes 8 (td_data_offset d)"

lemma encodes_list_u64:
  "encodes_list (\<lambda>x bs s e. x < 256 ^ 8 \<and> bs = le_bytes 8 x \<and> s = 0 \<and> e = 0) xs bs s e \<longleftrightarrow>
     (\<forall>x \<in> set xs. x < 256 ^ 8) \<and> bs = concat (map (le_bytes 8) xs) \<and> s = 0 \<and> e = 0"
  by (induction xs arbitrary: bs s e) auto

lemma ggml_type_not_Panic [simp]: "ggml_type_from_u32 i offset \<noteq> Panic"
  by (simp add: ggml_type_from_u32_def)

lemma read_descriptor_reader:
  "byte_reader read_descriptor (\<lambda>d bs s e. descriptor_ok d \<and> bs = descriptor_bytes d \<and> s = length (td_name d) \<and> e = 0)"
proof -
  have offset: "byte_reader (\<lambda>c. proceed (read_u64 c) (\<lambda>data_offset c.
        (Ok \<lparr>td_name = name, td_dims = dims, td_ggml_type = t, td_data_offset = data_offset\<rparr>, c)))
      (\<lambda>d bs s e. td_name d = name \<and> td_dims d = dims \<and> td_ggml_type d = t \<and> td_data_offset d < 2 ^ 64 \<and>
        bs = le_bytes 8 (td_data_offset d) \<and> s = 0 \<and> e = 0)" for name dims t
    by (rule byte_reader_cong [OF byte_reader_bind [OF read_nat_reader byte_reader_return]]) auto
  have type: "byte_reader (\<lambda>c. proceed (read_u32 c) (\<lambda>type_id c.
        attempt (ggml_type_from_u32 type_id (cur_pos c)) c (\<lambda>t.
        proceed (read_u64 c) (\<lambda>data_offset c.
          (Ok \<lparr>td_name = name, td_dims = dims, td_ggml_type = t, td_data_offset = data_offset\<rparr>, c)))))
      (\<lambda>d bs s e. td_name d = name \<and> td_dims d = dims \<and> td_data_offset d < 2 ^ 64 \<and>
        bs = le_bytes 4 (unat (ggml_type_id (td_ggml_type d))) @ le_bytes 8 (td_data_offset d) \<and> s = 0 \<and> e = 0)"
    for name dims
    by (rule byte_reader_cong [OF byte_reader_bind [OF read_word_reader
          byte_reader_check [OF ggml_type_from_u32_iff ggml_type_not_Panic offset]]]) auto
  have dims: "byte_reader (\<lambda>c. proceed (repeat_read n read_u64 c) (\<lambda>dims c.
        attempt (reject_zero_length_dimension dims (cur_pos c)) c (\<lambda>u. K dims c)))
      (\<lambda>d bs s e. \<exists>dims b. length dims = n \<and> 0 \<notin> set dims \<and> (\<forall>x \<in> set dims. x < 2 ^ 64) \<and> F dims d b s e \<and>
        bs = concat (map (le_bytes 8) dims) @ b)"
    if K: "\<And>dims. byte_reader (K dims) (F dims)" for n K and F :: "nat list \<Rightarrow> tensor_descriptor \<Rightarrow> bytes \<Rightarrow> nat \<Rightarrow> nat \<Rightarrow> bool"
  proof -
    have check: "byte_reader (\<lambda>c. attempt (reject_zero_length_dimension dims (cur_pos c)) c (\<lambda>u. K dims c))
        (\<lambda>d bs s e. \<exists>u :: unit. 0 \<notin> set dims \<and> F dims d bs s e)" for dims
      by (rule byte_reader_check [where P = "\<lambda>u. 0 \<notin> set dims", OF _ _ K])
        (simp_all add: reject_zero_length_dimension_def)
    show ?thesis
      by (rule byte_reader_cong [OF byte_reader_bind [OF byte_reader_repeat [OF read_nat_reader [of 8], unfolded encodes_list_u64] check]])
        auto
  qed
  have count: "byte_reader (\<lambda>c. proceed (read_nat 4 c) (\<lambda>n c.
        attempt (require (1 \<le> n \<and> n \<le> MAX_TENSOR_DIMS) (GgufInvalid (cur_pos c))) c (\<lambda>u. K n c)))
      (\<lambda>d bs s e. \<exists>n b. 1 \<le> n \<and> n \<le> MAX_TENSOR_DIMS \<and> F n d b s e \<and> bs = le_bytes 4 n @ b)"
    if K: "\<And>n. byte_reader (K n) (F n)" for K and F :: "nat \<Rightarrow> tensor_descriptor \<Rightarrow> bytes \<Rightarrow> nat \<Rightarrow> nat \<Rightarrow> bool"
  proof -
    have check: "byte_reader (\<lambda>c. attempt (require (1 \<le> n \<and> n \<le> MAX_TENSOR_DIMS) (GgufInvalid (cur_pos c))) c (\<lambda>u. K n c))
        (\<lambda>d bs s e. \<exists>u :: unit. (1 \<le> n \<and> n \<le> MAX_TENSOR_DIMS) \<and> F n d bs s e)" for n
      by (rule byte_reader_check [OF require_Ok_iff require_not_Panic K])
    have small: "n < 256 ^ 4" if "n \<le> MAX_TENSOR_DIMS" for n using that by (simp add: MAX_TENSOR_DIMS_def)
    show ?thesis
      by (rule byte_reader_cong [OF byte_reader_bind [OF read_nat_reader check]]) (use small in auto)
  qed
  show ?thesis
    unfolding read_descriptor_def [abs_def]
    by (rule byte_reader_cong [OF byte_reader_bind [OF read_string_reader count [OF dims [OF type]]]])
      (auto simp: descriptor_ok_def descriptor_bytes_def)
qed

interpretation descriptor: byte_reader read_descriptor
  "\<lambda>d bs s e. descriptor_ok d \<and> bs = descriptor_bytes d \<and> s = length (td_name d) \<and> e = 0"
  by (rule read_descriptor_reader)

subsection \<open>Tables\<close>

definition entry_encodes :: "bytes \<times> meta_value \<Rightarrow> bytes \<Rightarrow> bool" where
  "entry_encodes kv bs \<longleftrightarrow> string_ok (fst kv) \<and> (\<exists>b. typed_value_bytes (snd kv) b \<and> bs = string_bytes (fst kv) @ b)"

definition entry_strings :: "bytes \<times> meta_value \<Rightarrow> nat" where
  "entry_strings kv = length (fst kv) + value_strings (snd kv)"

definition entries_encode :: "(bytes \<times> meta_value) list \<Rightarrow> bytes \<Rightarrow> bool" where
  "entries_encode kvs bs \<longleftrightarrow> (\<exists>bss. list_all2 entry_encodes kvs bss \<and> bs = concat bss)"

lemma entries_encode_Nil [simp]: "entries_encode [] bs \<longleftrightarrow> bs = []"
  by (auto simp: entries_encode_def)

lemma entries_encode_Cons:
  "entries_encode (kv # kvs) bs \<longleftrightarrow> (\<exists>b1 b2. bs = b1 @ b2 \<and> entry_encodes kv b1 \<and> entries_encode kvs b2)"
proof
  assume "entries_encode (kv # kvs) bs"
  then obtain b bss where "entry_encodes kv b" "list_all2 entry_encodes kvs bss" "bs = b @ concat bss"
    by (auto simp: entries_encode_def list_all2_Cons1)
  then show "\<exists>b1 b2. bs = b1 @ b2 \<and> entry_encodes kv b1 \<and> entries_encode kvs b2"
    by (auto simp: entries_encode_def)
next
  assume "\<exists>b1 b2. bs = b1 @ b2 \<and> entry_encodes kv b1 \<and> entries_encode kvs b2"
  then obtain b bss where "entry_encodes kv b" "list_all2 entry_encodes kvs bss" "bs = b @ concat bss"
    by (auto simp: entries_encode_def)
  then show "entries_encode (kv # kvs) bs"
    unfolding entries_encode_def by (intro exI [of _ "b # bss"]) simp
qed

lemma reject_duplicate_iffs:
  "reject_duplicate table k offset = Ok u \<longleftrightarrow> k \<notin> fst ` set table" "reject_duplicate table k offset \<noteq> Panic"
  by (simp_all add: reject_duplicate_def map_of_eq_None_iff)

text \<open>The entries that the loop appends to the table it is given.\<close>

lemma read_metadata_reader:
  "byte_reader (read_metadata n table) (\<lambda>v bs s e. \<exists>kvs. v = table @ kvs \<and> length kvs = n \<and>
     distinct (map fst kvs) \<and> fst ` set kvs \<inter> fst ` set table = {} \<and> entries_encode kvs bs \<and>
     s = (\<Sum>kv\<leftarrow>kvs. entry_strings kv) \<and> e = (\<Sum>kv\<leftarrow>kvs. value_elements (snd kv)))"
proof (induction n arbitrary: table)
  case 0
  show ?case unfolding read_metadata.simps by (rule byte_reader_cong [OF byte_reader_return]) auto
next
  case (Suc n)
  have check: "byte_reader (\<lambda>c. attempt (reject_duplicate table k (cur_pos c)) c (\<lambda>u. read_metadata n (table @ [(k, v)]) c))
      (\<lambda>w bs s e. \<exists>kvs. w = (table @ [(k, v)]) @ kvs \<and> length kvs = n \<and>
        distinct (map fst ((k, v) # kvs)) \<and> fst ` set ((k, v) # kvs) \<inter> fst ` set table = {} \<and> entries_encode kvs bs \<and>
        s = (\<Sum>kv\<leftarrow>kvs. entry_strings kv) \<and> e = (\<Sum>kv\<leftarrow>kvs. value_elements (snd kv)))" for k v
    by (rule byte_reader_cong [OF byte_reader_check [where P = "\<lambda>u :: unit. k \<notin> fst ` set table", OF _ _ Suc.IH]])
      (auto simp: reject_duplicate_iffs)
  show ?case
    unfolding read_metadata.simps
  proof (rule byte_reader_cong [OF byte_reader_bind [OF read_string_reader byte_reader_bind [OF read_meta_value_reader check]]], goal_cases)
    case (1 w bs s e)
    let ?P = "\<lambda>kv kvs b1 b2. w = table @ kv # kvs \<and> length kvs = n \<and> distinct (map fst (kv # kvs)) \<and>
        fst ` set (kv # kvs) \<inter> fst ` set table = {} \<and> entry_encodes kv b1 \<and> entries_encode kvs b2 \<and> bs = b1 @ b2 \<and>
        s = (\<Sum>kv\<leftarrow>kv # kvs. entry_strings kv) \<and> e = (\<Sum>kv\<leftarrow>kv # kvs. value_elements (snd kv))"
    have "(\<exists>kvs. w = table @ kvs \<and> length kvs = Suc n \<and> distinct (map fst kvs) \<and> fst ` set kvs \<inter> fst ` set table = {} \<and>
        entries_encode kvs bs \<and> s = (\<Sum>kv\<leftarrow>kvs. entry_strings kv) \<and> e = (\<Sum>kv\<leftarrow>kvs. value_elements (snd kv)))
      \<longleftrightarrow> (\<exists>kv kvs b1 b2. ?P kv kvs b1 b2)"
      by (force simp: length_Suc_conv entries_encode_Cons)
    also have "\<dots> \<longleftrightarrow> (\<exists>k b1 b2 s1 s2 e1 e2. (string_ok k \<and> b1 = string_bytes k \<and> s1 = length k \<and> e1 = 0) \<and>
        (\<exists>v b1 b2' s1 s2' e1 e2'. (typed_value_bytes v b1 \<and> s1 = value_strings v \<and> e1 = value_elements v) \<and>
          (\<exists>kvs. w = (table @ [(k, v)]) @ kvs \<and> length kvs = n \<and>
            distinct (map fst ((k, v) # kvs)) \<and> fst ` set ((k, v) # kvs) \<inter> fst ` set table = {} \<and> entries_encode kvs b2' \<and>
            s2' = (\<Sum>kv\<leftarrow>kvs. entry_strings kv) \<and> e2' = (\<Sum>kv\<leftarrow>kvs. value_elements (snd kv))) \<and>
          b2 = b1 @ b2' \<and> s2 = s1 + s2' \<and> e2 = e1 + e2') \<and> bs = b1 @ b2 \<and> s = s1 + s2 \<and> e = e1 + e2)" (is "?L \<longleftrightarrow> ?R")
    proof
      assume ?L
      then obtain k v kvs b b2 where "?P (k, v) kvs (string_bytes k @ b) b2" "string_ok k" "typed_value_bytes v b"
        by (auto simp: entry_encodes_def)
      then show ?R by (fastforce simp: entry_strings_def add.assoc)
    next
      assume ?R
      then obtain k v kvs b b2 where k: "string_ok k" "typed_value_bytes v b"
        and P: "w = table @ (k, v) # kvs" "length kvs = n" "distinct (map fst ((k, v) # kvs))"
          "fst ` set ((k, v) # kvs) \<inter> fst ` set table = {}" "entries_encode kvs b2" "bs = string_bytes k @ b @ b2"
          "s = length k + (value_strings v + (\<Sum>kv\<leftarrow>kvs. entry_strings kv))"
          "e = value_elements v + (\<Sum>kv\<leftarrow>kvs. value_elements (snd kv))"
        by auto
      have "entry_encodes (k, v) (string_bytes k @ b)" using k by (auto simp: entry_encodes_def)
      then have "?P (k, v) kvs (string_bytes k @ b) b2" using P by (simp add: entry_strings_def)
      then show ?L by blast
    qed
    finally show ?case by (rule sym)
  qed
qed

lemma read_tensors_reader:
  "byte_reader (read_tensors n ds names) (\<lambda>v bs s e. \<exists>new. v = (ds @ new, names @ zip (map td_name new) [length ds..<length ds + n]) \<and>
     length new = n \<and> distinct (map td_name new) \<and> td_name ` set new \<inter> fst ` set names = {} \<and>
     (\<forall>d \<in> set new. descriptor_ok d) \<and> bs = concat (map descriptor_bytes new) \<and>
     s = (\<Sum>d\<leftarrow>new. length (td_name d)) \<and> e = 0)"
proof (induction n arbitrary: ds names)
  case 0
  show ?case unfolding read_tensors.simps by (rule byte_reader_cong [OF byte_reader_return]) auto
next
  case (Suc n)
  have check: "byte_reader (\<lambda>c. attempt (reject_duplicate names (td_name d) (cur_pos c)) c (\<lambda>u.
        read_tensors n (ds @ [d]) (names @ [(td_name d, length ds)]) c))
      (\<lambda>v bs s e. \<exists>new. v = (ds @ d # new, names @ zip (map td_name (d # new)) [length ds..<length ds + Suc n]) \<and>
        length new = n \<and> distinct (map td_name (d # new)) \<and> td_name ` set (d # new) \<inter> fst ` set names = {} \<and>
        (\<forall>d \<in> set new. descriptor_ok d) \<and> bs = concat (map descriptor_bytes new) \<and>
        s = (\<Sum>d\<leftarrow>new. length (td_name d)) \<and> e = 0)" for d
    by (rule byte_reader_cong [OF byte_reader_check [where P = "\<lambda>u :: unit. td_name d \<notin> fst ` set names", OF _ _ Suc.IH]])
      (auto simp: reject_duplicate_iffs upt_rec [of "length ds"])
  show ?case
    unfolding read_tensors.simps
  proof (rule byte_reader_cong [OF byte_reader_bind [OF read_descriptor_reader check]], goal_cases)
    case (1 v bs s e)
    show ?case by (simp add: length_Suc_conv, force)
  qed
qed

subsection \<open>Sizes\<close>

text \<open>The envelope of every part: what it takes beyond its string bytes and array elements.\<close>

lemma scalar_size:
  assumes "scalar_encodes v bs"
  shows "1 \<le> length bs" and "length bs \<le> 8 + string_cost v"
  using assms by (cases v; auto simp: string_bytes_def)+

lemma values_size:
  assumes "values_encode vs bs"
  shows "length bs \<le> 8 * length vs + (\<Sum>v\<leftarrow>vs. string_cost v)"
  using assms
proof (induction vs arbitrary: bs)
  case Nil
  then show ?case by (simp add: values_encode_def)
next
  case (Cons v vs)
  obtain b1 b2 where "bs = b1 @ b2" "scalar_encodes v b1" "values_encode vs b2"
    using Cons.prems by (auto simp: values_encode_Cons)
  then show ?case using Cons.IH [of b2] scalar_size(2) [of v b1] by simp
qed

lemma value_size:
  assumes "value_encodes v bs"
  shows "1 \<le> length bs" and "length bs \<le> 12 + 8 * value_elements v + value_strings v"
proof -
  have "1 \<le> length bs \<and> length bs \<le> 12 + 8 * value_elements v + value_strings v"
  proof (cases "value_type v = TyArray")
    case True
    then obtain t vs where v: "v = MetaArray t vs" by (auto simp: value_type_Array)
    then obtain body where "values_encode vs body" "bs = le_bytes 4 (unat (meta_type_id t)) @ le_bytes 8 (length vs) @ body"
      using assms by auto
    then show ?thesis using v values_size [of vs body] by simp
  next
    case False
    then show ?thesis using assms value_encodes_scalar [OF False] scalar_size [of v bs] by auto
  qed
  then show "1 \<le> length bs" and "length bs \<le> 12 + 8 * value_elements v + value_strings v" by simp_all
qed

lemma entry_size:
  assumes "entry_encodes kv bs"
  shows "MIN_METADATA_ENTRY_BYTES \<le> length bs"
    and "length bs \<le> 24 + 8 * value_elements (snd kv) + entry_strings kv"
proof -
  obtain b where b: "value_encodes (snd kv) b"
    "bs = string_bytes (fst kv) @ le_bytes 4 (unat (meta_type_id (value_type (snd kv)))) @ b"
    using assms by (auto simp: entry_encodes_def typed_value_bytes_def)
  then show "MIN_METADATA_ENTRY_BYTES \<le> length bs"
    and "length bs \<le> 24 + 8 * value_elements (snd kv) + entry_strings kv"
    using value_size [OF b(1)] by (simp_all add: string_bytes_def gguf_limits entry_strings_def)
qed

lemma entries_size:
  assumes "entries_encode kvs bs"
  shows "MIN_METADATA_ENTRY_BYTES * length kvs \<le> length bs"
    and "length bs \<le> 24 * length kvs + 8 * (\<Sum>kv\<leftarrow>kvs. value_elements (snd kv)) + (\<Sum>kv\<leftarrow>kvs. entry_strings kv)"
proof -
  have "MIN_METADATA_ENTRY_BYTES * length kvs \<le> length bs \<and>
      length bs \<le> 24 * length kvs + 8 * (\<Sum>kv\<leftarrow>kvs. value_elements (snd kv)) + (\<Sum>kv\<leftarrow>kvs. entry_strings kv)"
    using assms
  proof (induction kvs arbitrary: bs)
    case (Cons kv kvs)
    obtain b1 b2 where "bs = b1 @ b2" "entry_encodes kv b1" "entries_encode kvs b2"
      using Cons.prems by (auto simp: entries_encode_Cons)
    then show ?case using Cons.IH [of b2] entry_size [of kv b1] by simp
  qed simp
  then show "MIN_METADATA_ENTRY_BYTES * length kvs \<le> length bs"
    and "length bs \<le> 24 * length kvs + 8 * (\<Sum>kv\<leftarrow>kvs. value_elements (snd kv)) + (\<Sum>kv\<leftarrow>kvs. entry_strings kv)"
    by simp_all
qed

lemma concat_le_bytes_size: "length (concat (map (le_bytes n) xs)) = n * length xs"
  by (induction xs) simp_all

lemma descriptor_size:
  "MIN_TENSOR_DESCRIPTOR_BYTES \<le> length (descriptor_bytes d)"
  "descriptor_ok d \<Longrightarrow> length (descriptor_bytes d) \<le> 56 + length (td_name d)"
  by (simp_all add: descriptor_bytes_def string_bytes_def concat_le_bytes_size gguf_limits descriptor_ok_def)

lemma descriptors_size:
  "MIN_TENSOR_DESCRIPTOR_BYTES * length ds \<le> length (concat (map descriptor_bytes ds))"
  "\<forall>d \<in> set ds. descriptor_ok d \<Longrightarrow>
     length (concat (map descriptor_bytes ds)) \<le> 56 * length ds + (\<Sum>d\<leftarrow>ds. length (td_name d))"
proof -
  show "MIN_TENSOR_DESCRIPTOR_BYTES * length ds \<le> length (concat (map descriptor_bytes ds))"
    by (induction ds) (simp_all add: add_mono descriptor_size(1))
  show "\<forall>d \<in> set ds. descriptor_ok d \<Longrightarrow>
     length (concat (map descriptor_bytes ds)) \<le> 56 * length ds + (\<Sum>d\<leftarrow>ds. length (td_name d))"
  proof (induction ds)
    case (Cons d ds)
    then have "length (descriptor_bytes d) \<le> 56 + length (td_name d)" by (simp add: descriptor_size(2))
    then show ?case using Cons by simp
  qed simp
qed

subsection \<open>The whole header\<close>

definition read_tables ::
  "nat \<Rightarrow> nat \<Rightarrow> cursor \<Rightarrow>
     ((bytes \<times> meta_value) list \<times> tensor_descriptor list \<times> (bytes \<times> nat) list, gguf_error) result \<times> cursor" where
  "read_tables tensor_count metadata_count c =
     proceed (read_metadata metadata_count [] c) (\<lambda>metadata c.
     attempt (validate_alignment (declared_alignment metadata) (cur_pos c)) c (\<lambda>_.
     proceed (read_tensors tensor_count [] [] c) (\<lambda>tn c. (Ok (metadata, tn), c))))"

lemma validate_alignment_iffs:
  "validate_alignment a offset = Ok u \<longleftrightarrow> is_power_of_two a" "validate_alignment a offset \<noteq> Panic"
  by (auto simp: validate_alignment_def is_power_of_two_def)

lemma read_tables_reader:
  "byte_reader (read_tables tn mn) (\<lambda>v bs s e. \<exists>kvs ds mb. v = (kvs, ds, zip (map td_name ds) [0..<tn]) \<and>
     length kvs = mn \<and> length ds = tn \<and> distinct (map fst kvs) \<and> distinct (map td_name ds) \<and>
     is_power_of_two (declared_alignment kvs) \<and> entries_encode kvs mb \<and> (\<forall>d \<in> set ds. descriptor_ok d) \<and>
     bs = mb @ concat (map descriptor_bytes ds) \<and>
     s = (\<Sum>kv\<leftarrow>kvs. entry_strings kv) + (\<Sum>d\<leftarrow>ds. length (td_name d)) \<and>
     e = (\<Sum>kv\<leftarrow>kvs. value_elements (snd kv)))"
proof -
  have tensors: "byte_reader (\<lambda>c. proceed (read_tensors tn [] [] c) (\<lambda>tn c. (Ok (kvs, tn), c)))
      (\<lambda>v bs s e. \<exists>ds. v = (kvs, ds, zip (map td_name ds) [0..<tn]) \<and> length ds = tn \<and> distinct (map td_name ds) \<and>
        (\<forall>d \<in> set ds. descriptor_ok d) \<and> bs = concat (map descriptor_bytes ds) \<and>
        s = (\<Sum>d\<leftarrow>ds. length (td_name d)) \<and> e = 0)" for kvs :: "(bytes \<times> meta_value) list"
    by (rule byte_reader_cong [OF byte_reader_bind [OF read_tensors_reader byte_reader_return]]) auto
  have check: "byte_reader (\<lambda>c. attempt (validate_alignment (declared_alignment kvs) (cur_pos c)) c (\<lambda>u.
        proceed (read_tensors tn [] [] c) (\<lambda>tn c. (Ok (kvs, tn), c))))
      (\<lambda>v bs s e. \<exists>u :: unit. is_power_of_two (declared_alignment kvs) \<and>
        (\<exists>ds. v = (kvs, ds, zip (map td_name ds) [0..<tn]) \<and> length ds = tn \<and> distinct (map td_name ds) \<and>
        (\<forall>d \<in> set ds. descriptor_ok d) \<and> bs = concat (map descriptor_bytes ds) \<and>
        s = (\<Sum>d\<leftarrow>ds. length (td_name d)) \<and> e = 0))" for kvs
    by (rule byte_reader_check [OF validate_alignment_iffs tensors])
  show ?thesis
    unfolding read_tables_def [abs_def]
    by (rule byte_reader_cong [OF byte_reader_bind [OF read_metadata_reader check]]) force
qed

end
