(* ===== verification/Gguf_Accepts.thy ===== *)
theory Gguf_Accepts
  imports Gguf_Header
begin

text \<open>
  What \<open>Reader::parse\<close> accepts: \<open>header_format a h\<close> says that the bytes \<open>h\<close> are a header of the
  archive \<open>a\<close> within every limit. The parser returns \<open>a\<close> exactly on the byte strings that begin with
  such a header, so it never reads past the header; an encoder gives every well-formed archive one.
\<close>

subsection \<open>The fixed part\<close>

lemma proceed_assoc: "proceed (proceed p f) g = proceed p (\<lambda>x s. proceed (f x s) g)"
  by (cases p; cases "fst p") auto

lemma proceed_attempt: "proceed (attempt r s f) g = attempt r s (\<lambda>x. proceed (f x) g)"
  by (cases r) auto

lemma check_magic_reader:
  "byte_reader check_magic (\<lambda>u bs s e. bs = GGUF_MAGIC \<and> s = 0 \<and> e = 0)"
proof -
  have "byte_reader (\<lambda>c. attempt (require (m = GGUF_MAGIC) (GgufInvalid 0)) c (\<lambda>u. (Ok u, c)))
      (\<lambda>u bs s e. \<exists>u' :: unit. m = GGUF_MAGIC \<and> u = u' \<and> bs = [] \<and> s = 0 \<and> e = 0)" for m
    by (rule byte_reader_check [OF require_Ok_iff require_not_Panic byte_reader_return])
  then show ?thesis
    unfolding check_magic_def [abs_def]
    by (rule byte_reader_cong [OF byte_reader_bind [OF read_n_reader]]) (auto simp: GGUF_MAGIC_def)
qed

lemma validate_header_counts_Ok:
  assumes c: "cursor_ok c"
  shows "validate_header_counts c tn mn = Ok u \<longleftrightarrow> tn \<le> MAX_TENSOR_COUNT \<and> mn \<le> MAX_METADATA_COUNT \<and>
      MIN_METADATA_ENTRY_BYTES * mn + MIN_TENSOR_DESCRIPTOR_BYTES * tn \<le> length (unread c)"
    and "validate_header_counts c tn mn \<noteq> Panic"
  using c
  by (auto simp: validate_header_counts_def result_iffs remaining_len_def usize_add_def usize_mul_def usize_sub_def
      cursor_ok_def unread_def gguf_limits split: option.splits)

definition tables_encode ::
  "(bytes \<times> meta_value) list \<Rightarrow> tensor_descriptor list \<Rightarrow> bytes \<Rightarrow> bool" where
  "tables_encode kvs ds bs \<longleftrightarrow> distinct (map fst kvs) \<and> distinct (map td_name ds) \<and>
     is_power_of_two (declared_alignment kvs) \<and> (\<forall>d \<in> set ds. descriptor_ok d) \<and>
     (\<exists>mb. entries_encode kvs mb \<and> bs = mb @ concat (map descriptor_bytes ds))"

definition table_strings :: "(bytes \<times> meta_value) list \<Rightarrow> tensor_descriptor list \<Rightarrow> nat" where
  "table_strings kvs ds = (\<Sum>kv\<leftarrow>kvs. entry_strings kv) + (\<Sum>d\<leftarrow>ds. length (td_name d))"

definition table_elements :: "(bytes \<times> meta_value) list \<Rightarrow> nat" where
  "table_elements kvs = (\<Sum>kv\<leftarrow>kvs. value_elements (snd kv))"

lemma tables_size:
  assumes "tables_encode kvs ds bs"
  shows "MIN_METADATA_ENTRY_BYTES * length kvs + MIN_TENSOR_DESCRIPTOR_BYTES * length ds \<le> length bs"
    and "length bs \<le> 24 * length kvs + 8 * table_elements kvs + 56 * length ds + table_strings kvs ds"
proof -
  obtain mb where mb: "entries_encode kvs mb" "bs = mb @ concat (map descriptor_bytes ds)" "\<forall>d \<in> set ds. descriptor_ok d"
    using assms by (auto simp: tables_encode_def)
  have len: "length bs = length mb + length (concat (map descriptor_bytes ds))" using mb(2) by simp
  show "MIN_METADATA_ENTRY_BYTES * length kvs + MIN_TENSOR_DESCRIPTOR_BYTES * length ds \<le> length bs"
    unfolding len by (rule add_mono [OF entries_size(1) [OF mb(1)] descriptors_size(1)])
  show "length bs \<le> 24 * length kvs + 8 * table_elements kvs + 56 * length ds + table_strings kvs ds"
    unfolding len table_strings_def table_elements_def
    using entries_size(2) [OF mb(1)] descriptors_size(2) [OF mb(3)] by linarith
qed

definition counted_tables ::
  "nat \<Rightarrow> nat \<Rightarrow> cursor \<Rightarrow>
     ((bytes \<times> meta_value) list \<times> tensor_descriptor list \<times> (bytes \<times> nat) list, gguf_error) result \<times> cursor" where
  "counted_tables tn mn c = attempt (validate_header_counts c tn mn) c (\<lambda>_. read_tables tn mn c)"

lemma counted_tables_reader:
  "byte_reader (counted_tables tn mn) (\<lambda>v bs s e. \<exists>kvs ds. v = (kvs, ds, zip (map td_name ds) [0..<tn]) \<and>
     length kvs = mn \<and> length ds = tn \<and> tn \<le> MAX_TENSOR_COUNT \<and> mn \<le> MAX_METADATA_COUNT \<and>
     tables_encode kvs ds bs \<and> s = table_strings kvs ds \<and> e = table_elements kvs)"
    (is "byte_reader _ ?E")
proof
  fix c v c'
  assume c: "cursor_ok c"
  have T: "byte_reader (read_tables tn mn) (\<lambda>v bs s e. \<exists>kvs ds. v = (kvs, ds, zip (map td_name ds) [0..<tn]) \<and>
      length kvs = mn \<and> length ds = tn \<and> tables_encode kvs ds bs \<and> s = table_strings kvs ds \<and> e = table_elements kvs)"
    by (rule byte_reader_cong [OF read_tables_reader])
      (auto simp: tables_encode_def table_strings_def table_elements_def)
  have fits: "MIN_METADATA_ENTRY_BYTES * mn + MIN_TENSOR_DESCRIPTOR_BYTES * tn \<le> length (unread c)"
    if "?E v bs s e" "prefix bs (unread c)" for v bs s e
    using that tables_size(1) prefix_length_le [OF that(2)] by fastforce
  show "counted_tables tn mn c = (Ok v, c') \<longleftrightarrow>
      (\<exists>bs s e. ?E v bs s e \<and> prefix bs (unread c) \<and> within c s e \<and> c' = advance c (length bs) s e)"
  proof
    assume "counted_tables tn mn c = (Ok v, c')"
    then show "\<exists>bs s e. ?E v bs s e \<and> prefix bs (unread c) \<and> within c s e \<and> c' = advance c (length bs) s e"
      by (auto simp: counted_tables_def validate_header_counts_Ok [OF c] byte_reader.reads [OF T c])
  next
    assume "\<exists>bs s e. ?E v bs s e \<and> prefix bs (unread c) \<and> within c s e \<and> c' = advance c (length bs) s e"
    then obtain bs s e where E: "?E v bs s e" and b: "prefix bs (unread c)" "within c s e" "c' = advance c (length bs) s e"
      by blast
    have "read_tables tn mn c = (Ok v, c')" unfolding byte_reader.reads [OF T c] using E b by blast
    then show "counted_tables tn mn c = (Ok v, c')"
      using fits [OF E b(1)] E by (auto simp: counted_tables_def validate_header_counts_Ok [OF c])
  qed
  show "fst (counted_tables tn mn c) \<noteq> Panic"
    using byte_reader.no_panic [OF T c] validate_header_counts_Ok(2) [OF c, of tn mn]
    by (cases "validate_header_counts c tn mn") (auto simp: counted_tables_def)
qed

subsection \<open>The whole header\<close>

definition header_ok :: "(bytes \<times> meta_value) list \<Rightarrow> tensor_descriptor list \<Rightarrow> bool" where
  "header_ok kvs ds \<longleftrightarrow> length kvs \<le> MAX_METADATA_COUNT \<and> length ds \<le> MAX_TENSOR_COUNT \<and>
     table_strings kvs ds \<le> MAX_TOTAL_STRING_BYTES \<and> table_elements kvs \<le> MAX_TOTAL_METADATA_ARRAY_ELEMENTS"

definition fixed_header :: "nat \<Rightarrow> nat \<Rightarrow> bytes" where
  "fixed_header tensor_count metadata_count =
     GGUF_MAGIC @ le_bytes 4 3 @ le_bytes 8 tensor_count @ le_bytes 8 metadata_count"

lemma length_fixed_header [simp]: "length (fixed_header tn mn) = 24"
  by (simp add: fixed_header_def GGUF_MAGIC_def)

definition header_tables ::
  "cursor \<Rightarrow> ((bytes \<times> meta_value) list \<times> tensor_descriptor list \<times> (bytes \<times> nat) list, gguf_error) result \<times> cursor" where
  "header_tables c =
     proceed (check_magic c) (\<lambda>_ c.
     proceed (read_u32 c) (\<lambda>version c.
     attempt (require (version = GGUF_V3) (GgufInvalid (cur_pos c))) c (\<lambda>_.
     proceed (read_u64 c) (\<lambda>tensor_count c.
     proceed (read_u64 c) (\<lambda>metadata_count c.
       counted_tables tensor_count metadata_count c)))))"

lemma header_tables_reader:
  "byte_reader header_tables (\<lambda>v bs s e. \<exists>kvs ds body. v = (kvs, ds, zip (map td_name ds) [0..<length ds]) \<and>
     length kvs \<le> MAX_METADATA_COUNT \<and> length ds \<le> MAX_TENSOR_COUNT \<and> tables_encode kvs ds body \<and>
     bs = fixed_header (length ds) (length kvs) @ body \<and> s = table_strings kvs ds \<and> e = table_elements kvs)"
proof -
  have small: "n < 256 ^ 8" if "n \<le> MAX_METADATA_COUNT \<or> n \<le> MAX_TENSOR_COUNT" for n
    using that by (auto simp: gguf_limits)
  have counts: "byte_reader (\<lambda>c. proceed (read_u64 c) (\<lambda>tn c. proceed (read_u64 c) (\<lambda>mn c. counted_tables tn mn c)))
      (\<lambda>v bs s e. \<exists>kvs ds body. v = (kvs, ds, zip (map td_name ds) [0..<length ds]) \<and>
        length kvs \<le> MAX_METADATA_COUNT \<and> length ds \<le> MAX_TENSOR_COUNT \<and> tables_encode kvs ds body \<and>
        bs = le_bytes 8 (length ds) @ le_bytes 8 (length kvs) @ body \<and> s = table_strings kvs ds \<and> e = table_elements kvs)"
    by (rule byte_reader_cong [OF byte_reader_bind [OF read_nat_reader byte_reader_bind [OF read_nat_reader counted_tables_reader]]])
      (use small in \<open>auto 4 4\<close>)
  have version: "byte_reader (\<lambda>c. proceed (read_u32 c) (\<lambda>version c.
        attempt (require (version = GGUF_V3) (GgufInvalid (cur_pos c))) c (\<lambda>u.
          proceed (read_u64 c) (\<lambda>tn c. proceed (read_u64 c) (\<lambda>mn c. counted_tables tn mn c)))))
      (\<lambda>v bs s e. \<exists>kvs ds body. v = (kvs, ds, zip (map td_name ds) [0..<length ds]) \<and>
        length kvs \<le> MAX_METADATA_COUNT \<and> length ds \<le> MAX_TENSOR_COUNT \<and> tables_encode kvs ds body \<and>
        bs = le_bytes 4 3 @ le_bytes 8 (length ds) @ le_bytes 8 (length kvs) @ body \<and>
        s = table_strings kvs ds \<and> e = table_elements kvs)"
    by (rule byte_reader_cong [OF byte_reader_bind [OF read_word_reader
          byte_reader_check [where P = "\<lambda>u :: unit. _ = GGUF_V3", OF require_Ok_iff require_not_Panic counts]]])
      (auto simp: GGUF_V3_def)
  show ?thesis
    unfolding header_tables_def [abs_def]
    by (rule byte_reader_cong [OF byte_reader_bind [OF check_magic_reader version]])
      (auto simp: fixed_header_def)
qed

interpretation header: byte_reader header_tables
  "\<lambda>v bs s e. \<exists>kvs ds body. v = (kvs, ds, zip (map td_name ds) [0..<length ds]) \<and>
     length kvs \<le> MAX_METADATA_COUNT \<and> length ds \<le> MAX_TENSOR_COUNT \<and> tables_encode kvs ds body \<and>
     bs = fixed_header (length ds) (length kvs) @ body \<and> s = table_strings kvs ds \<and> e = table_elements kvs"
  by (rule header_tables_reader)

lemma parse_header_tables:
  "parse_header c = proceed (header_tables c) (\<lambda>(kvs, ds, by_name) c.
     attempt (align_up (cur_pos c) (declared_alignment kvs)) c (\<lambda>start.
       (Ok \<lparr>pa_metadata = kvs, pa_tensors = ds, pa_tensor_by_name = by_name,
            pa_data_region_start = start, pa_alignment = declared_alignment kvs\<rparr>, c)))"
proof -
  have swap: "(\<lambda>x s. proceed ((case x of (tensors, by_name) \<Rightarrow> \<lambda>s. (Ok (kvs, tensors, by_name), s)) s) g) =
      (\<lambda>(tensors, by_name) s. g (kvs, tensors, by_name) s)" for kvs g
    by (auto simp: fun_eq_iff)
  have pair: "(\<lambda>x s. proceed (Ok (kvs, x), s) g) = (\<lambda>(tensors, by_name) s. g (kvs, tensors, by_name) s)"
    for kvs and g :: "(bytes \<times> meta_value) list \<times> tensor_descriptor list \<times> (bytes \<times> nat) list \<Rightarrow> cursor \<Rightarrow>
      (parsed_archive, gguf_error) result \<times> cursor"
    by (auto simp: fun_eq_iff)
  show ?thesis
    unfolding parse_header_def header_tables_def counted_tables_def read_tables_def proceed_assoc proceed_attempt pair
    by simp
qed

text \<open>
  \<open>align_up\<close> returns the least multiple of the alignment that is not below the offset.
\<close>

lemma align_up_Ok:
  assumes "is_power_of_two a" and "offset < 2 ^ 63"
  shows "align_up offset a = Ok ((offset + (a - 1)) div a * a)"
proof -
  obtain i where "i < 64" "a = 2 ^ i" using assms(1) by (auto simp: is_power_of_two_def)
  moreover have "(2 :: nat) ^ i \<le> 2 ^ 63" using \<open>i < 64\<close> by (intro power_increasing) simp_all
  ultimately show ?thesis
    using assms by (simp add: align_up_def validate_alignment_def usize_sub_def usize_add_def require_def)
qed

definition header_format :: "parsed_archive \<Rightarrow> bytes \<Rightarrow> bool" where
  "header_format a h \<longleftrightarrow> header_ok (pa_metadata a) (pa_tensors a) \<and>
     (\<exists>body. tables_encode (pa_metadata a) (pa_tensors a) body \<and>
        h = fixed_header (length (pa_tensors a)) (length (pa_metadata a)) @ body) \<and>
     pa_tensor_by_name a = zip (map td_name (pa_tensors a)) [0..<length (pa_tensors a)] \<and>
     pa_alignment a = declared_alignment (pa_metadata a) \<and>
     pa_data_region_start a = (length h + (pa_alignment a - 1)) div pa_alignment a * pa_alignment a"

lemma gguf_parse_Ok_iff:
  assumes small: "length bs < 2 ^ 63"
  shows "gguf_parse bs = Ok a \<longleftrightarrow> (\<exists>h. header_format a h \<and> prefix h bs)"
proof -
  let ?c = "cursor_new bs"
  have c: "cursor_ok ?c" "unread ?c = bs"
    using small by (simp_all add: cursor_ok_def cursor_new_def within_def unread_def)
  have w: "within ?c (table_strings kvs ds) (table_elements kvs) \<longleftrightarrow>
      table_strings kvs ds \<le> MAX_TOTAL_STRING_BYTES \<and> table_elements kvs \<le> MAX_TOTAL_METADATA_ARRAY_ELEMENTS" for kvs ds
    by (simp add: within_def cursor_new_def)
  have tables: "header_tables ?c = (Ok v, d) \<longleftrightarrow> (\<exists>kvs ds body. v = (kvs, ds, zip (map td_name ds) [0..<length ds]) \<and>
      header_ok kvs ds \<and> tables_encode kvs ds body \<and> prefix (fixed_header (length ds) (length kvs) @ body) bs \<and>
      d = advance ?c (24 + length body) (table_strings kvs ds) (table_elements kvs))" for v d
    unfolding header.reads [OF c(1)] c(2)
    apply (auto simp: header_ok_def w)
    subgoal for kvs ds body
      by (rule exI [of _ "fixed_header (length ds) (length kvs) @ body"]) (auto simp: w)
    done
  have pos: "cur_pos (advance ?c n s e) = n" for n s e by (simp add: cursor_new_def)
  have align: "align_up (24 + length body) (declared_alignment kvs) =
      Ok ((24 + length body + (declared_alignment kvs - 1)) div declared_alignment kvs * declared_alignment kvs)"
    if "tables_encode kvs ds body" "prefix (fixed_header (length ds) (length kvs) @ body) bs" for kvs ds body
    using that small prefix_length_le [OF that(2)] by (intro align_up_Ok) (simp_all add: tables_encode_def)
  have "gguf_parse bs = Ok a \<longleftrightarrow> (\<exists>d. parse_header ?c = (Ok a, d))"
    by (metis gguf_parse_def fst_conv prod.collapse)
  also have "\<dots> \<longleftrightarrow> (\<exists>kvs ds body. header_ok kvs ds \<and> tables_encode kvs ds body \<and>
      prefix (fixed_header (length ds) (length kvs) @ body) bs \<and>
      a = \<lparr>pa_metadata = kvs, pa_tensors = ds, pa_tensor_by_name = zip (map td_name ds) [0..<length ds],
           pa_data_region_start = (24 + length body + (declared_alignment kvs - 1)) div declared_alignment kvs * declared_alignment kvs,
           pa_alignment = declared_alignment kvs\<rparr>)"
    unfolding parse_header_tables proceed_Ok_iff tables using align pos by (auto 4 4)
  also have "\<dots> \<longleftrightarrow> (\<exists>h. header_format a h \<and> prefix h bs)"
  proof -
    have "(\<exists>kvs ds body. header_ok kvs ds \<and> tables_encode kvs ds body \<and> prefix (fixed_header (length ds) (length kvs) @ body) bs \<and>
        a = \<lparr>pa_metadata = kvs, pa_tensors = ds, pa_tensor_by_name = zip (map td_name ds) [0..<length ds],
           pa_data_region_start = (24 + length body + (declared_alignment kvs - 1)) div declared_alignment kvs * declared_alignment kvs,
           pa_alignment = declared_alignment kvs\<rparr>) \<longleftrightarrow>
      (\<exists>body. header_format a (fixed_header (length (pa_tensors a)) (length (pa_metadata a)) @ body) \<and>
         prefix (fixed_header (length (pa_tensors a)) (length (pa_metadata a)) @ body) bs)"
      by (cases a) (auto simp: header_format_def)
    then show ?thesis by (auto simp: header_format_def)
  qed
  finally show ?thesis .
qed

lemma gguf_parse_not_Panic:
  assumes "length bs < 2 ^ 63"
  shows "gguf_parse bs \<noteq> Panic"
proof -
  let ?c = "cursor_new bs"
  have c: "cursor_ok ?c" using assms by (simp add: cursor_ok_def cursor_new_def within_def)
  have "align_up n a \<noteq> Panic" for n a by (auto simp: align_up_def validate_alignment_def result_iffs)
  then show ?thesis
    using header.no_panic [OF c]
    unfolding gguf_parse_def parse_header_tables
    by (cases "header_tables ?c"; cases "fst (header_tables ?c)")
      (auto split: prod.splits simp: fst_def dest!: iffD1 [OF attempt_Panic_iff])
qed

end
