(* ===== verification/Gguf_Layout.thy ===== *)
theory Gguf_Layout
  imports Gguf_Extents Gguf_Accepts
begin

text \<open>
  What a valid layout of tensors is, apart from the checked arithmetic of the code: every tensor is
  aligned, its serialized bytes lie in the file, and no two of them overlap. The reader's validation
  decides exactly that, and a validated archive has an inspection whose census is the sum over its
  tensors. A header is never longer than the prefix that is read for it.
\<close>

subsection \<open>Sizes\<close>

definition tensor_elements :: "tensor_descriptor \<Rightarrow> nat" where
  "tensor_elements d = prod_list (td_dims d)"

definition tensor_bytes :: "tensor_descriptor \<Rightarrow> nat option" where
  "tensor_bytes d =
     (case block_layout (td_ggml_type d) of
        Some (be, bb) \<Rightarrow> if hd (td_dims d) mod be = 0 then Some (tensor_elements d div be * bb) else None
      | None \<Rightarrow> map_option (\<lambda>width. tensor_elements d * width div 8) (size_in_bits (td_ggml_type d)))"

definition shape_ok :: "tensor_descriptor \<Rightarrow> bool" where
  "shape_ok d \<longleftrightarrow> td_dims d \<noteq> [] \<and> 0 \<notin> set (td_dims d)"

lemma block_layout_bounds:
  "block_layout t = Some (be, bb) \<Longrightarrow> 0 < be \<and> 0 < bb \<and> be \<le> 4 * bb"
  by (cases t) auto

lemma size_in_bits_bounds: "size_in_bits t = Some w \<Longrightarrow> 8 \<le> w \<and> w mod 8 = 0 \<and> block_layout t = None"
  by (cases t) auto

lemma prod_list_pos: "0 \<notin> set xs \<Longrightarrow> 0 < prod_list (xs :: nat list)"
  by (induction xs) auto

lemma tensor_bytes_bounds:
  assumes shape: "shape_ok d" and n: "tensor_bytes d = Some n"
  shows "1 \<le> n" and "tensor_elements d \<le> 4 * n"
proof -
  have pos: "0 < tensor_elements d" using shape prod_list_pos by (simp add: shape_ok_def tensor_elements_def)
  have "1 \<le> n \<and> tensor_elements d \<le> 4 * n"
  proof (cases "block_layout (td_ggml_type d)")
    case None
    then obtain w where w: "size_in_bits (td_ggml_type d) = Some w" "n = tensor_elements d * w div 8"
      using n by (auto simp: tensor_bytes_def)
    from size_in_bits_bounds [OF w(1)] have "8 dvd w" "8 \<le> w" by presburger+
    then obtain k where "w = 8 * k" "1 \<le> k" by (auto elim!: dvdE)
    then have "n = tensor_elements d * k" using w(2) by simp
    then show ?thesis using pos \<open>1 \<le> k\<close> by (cases k) simp_all
  next
    case (Some g)
    obtain be bb where g: "g = (be, bb)" by (cases g)
    note b = block_layout_bounds [OF Some [unfolded g]]
    have row: "be dvd hd (td_dims d)" and n: "n = tensor_elements d div be * bb"
      using n Some g by (auto simp: tensor_bytes_def mod_eq_0_iff_dvd split: if_splits)
    have "hd (td_dims d) dvd tensor_elements d"
      using shape by (cases "td_dims d") (simp_all add: tensor_elements_def shape_ok_def)
    then obtain k where k: "tensor_elements d = be * k" using row dvd_trans by (metis dvdE)
    then have "0 < k" "n = k * bb" using pos n b by simp_all
    moreover have "be * k \<le> 4 * (k * bb)" using mult_le_mono1 [of be "4 * bb" k] b by (simp add: ac_simps)
    ultimately show ?thesis using k b by simp
  qed
  then show "1 \<le> n" and "tensor_elements d \<le> 4 * n" by simp_all
qed

lemma multiply_dims_Ok:
  "0 \<notin> set ds \<Longrightarrow> n < 2 ^ 64 \<Longrightarrow> multiply_dims offset n ds = Ok m \<longleftrightarrow> n * prod_list ds < 2 ^ 64 \<and> m = n * prod_list ds"
proof (induction ds arbitrary: n)
  case (Cons d ds)
  have "d * 1 \<le> d * prod_list ds" using Cons.prems(1) prod_list_pos [of ds] by (intro mult_le_mono2) simp
  then have "n * d \<le> n * (d * prod_list ds)" by (intro mult_le_mono2) simp
  then have "n * (d * prod_list ds) < 2 ^ 64 \<Longrightarrow> n * d < 2 ^ 64" by (rule order.strict_trans1)
  then show ?case using Cons by (auto simp: usize_mul_def mult.assoc)
qed auto

lemma checked_byte_len_Ok:
  assumes shape: "shape_ok d"
  shows "checked_byte_len d (tensor_elements d) = Ok n \<longleftrightarrow> tensor_bytes d = Some n \<and>
    (case block_layout (td_ggml_type d) of Some g \<Rightarrow> n < 2 ^ 64
     | None \<Rightarrow> tensor_elements d * the (size_in_bits (td_ggml_type d)) < 2 ^ 64)"
proof (cases "block_layout (td_ggml_type d)")
  case None
  have "(tensor_elements d * w + 7) div 8 = tensor_elements d * w div 8" if "size_in_bits (td_ggml_type d) = Some w" for w
  proof -
    from size_in_bits_bounds [OF that] have "8 dvd w" by presburger
    then obtain k where "w = 8 * k" by (rule dvdE)
    then have eq: "tensor_elements d * w = 8 * (tensor_elements d * k)" by simp
    show ?thesis unfolding eq by simp
  qed
  then show ?thesis
    using None by (auto simp: checked_byte_len_def checked_block_geometry_def tensor_bytes_def Let_def usize_mul_def)
next
  case (Some g)
  obtain be bb where g: "g = (be, bb)" by (cases g)
  obtain row dims where dims: "td_dims d = row # dims" using shape by (cases "td_dims d") (auto simp: shape_ok_def)
  have "tensor_elements d mod be = 0" if "row mod be = 0"
    using that dims by (simp add: tensor_elements_def mod_eq_0_iff_dvd)
  then show ?thesis
    using Some g dims
    by (auto simp: checked_byte_len_def checked_block_geometry_def tensor_bytes_def Let_def usize_mul_def)
qed

subsection \<open>Extents\<close>

definition tensor_size :: "tensor_descriptor \<Rightarrow> nat" where
  "tensor_size d = (case tensor_bytes d of None \<Rightarrow> 0 | Some n \<Rightarrow> n)"

definition extent_of :: "parsed_archive \<Rightarrow> tensor_descriptor \<Rightarrow> tensor_extent" where
  "extent_of a d = \<lparr>te_elements = tensor_elements d, te_start = pa_data_region_start a + td_data_offset d,
     te_end = pa_data_region_start a + td_data_offset d + tensor_size d, te_byte_len = tensor_size d\<rparr>"

definition placed :: "parsed_archive \<Rightarrow> nat \<Rightarrow> tensor_descriptor \<Rightarrow> bool" where
  "placed a file_len d \<longleftrightarrow> td_data_offset d mod pa_alignment a = 0 \<and> tensor_bytes d \<noteq> None \<and>
     te_end (extent_of a d) \<le> file_len"

lemma extent_for_Ok:
  assumes shape: "shape_ok d" and small: "file_len < 2 ^ 61"
  shows "extent_for a d file_len = Ok e \<longleftrightarrow> placed a file_len d \<and> e = extent_of a d"
proof -
  have elements: "checked_element_count d = Ok m \<longleftrightarrow> tensor_elements d < 2 ^ 64 \<and> m = tensor_elements d" for m
    using multiply_dims_Ok [of "td_dims d" 1] shape by (simp add: checked_element_count_def shape_ok_def tensor_elements_def)
  have fits: "tensor_elements d < 2 ^ 64"
    "case block_layout (td_ggml_type d) of Some g \<Rightarrow> n < 2 ^ 64
     | None \<Rightarrow> tensor_elements d * the (size_in_bits (td_ggml_type d)) < 2 ^ 64"
    if n: "tensor_bytes d = Some n" "n \<le> file_len" for n
  proof -
    show "tensor_elements d < 2 ^ 64" using tensor_bytes_bounds(2) [OF shape n(1)] n(2) small by simp
    show "case block_layout (td_ggml_type d) of Some g \<Rightarrow> n < 2 ^ 64
     | None \<Rightarrow> tensor_elements d * the (size_in_bits (td_ggml_type d)) < 2 ^ 64"
    proof (cases "block_layout (td_ggml_type d)")
      case None
      then obtain w where w: "size_in_bits (td_ggml_type d) = Some w" "n = tensor_elements d * w div 8"
        using n by (auto simp: tensor_bytes_def)
      then have "tensor_elements d * w < 8 * n + 8" by (simp add: dividend_less_times_div mult.commute)
      then show ?thesis using None w n small by simp
    qed (use n small in simp)
  qed
  show ?thesis
  proof (cases "tensor_bytes d")
    case None
    then show ?thesis by (auto simp: extent_for_def elements checked_byte_len_Ok [OF shape] placed_def)
  next
    case (Some n)
    show ?thesis
    proof (cases "n \<le> file_len")
      case True
      then show ?thesis
        using fits [OF Some] Some small
        by (auto simp: extent_for_def elements checked_byte_len_Ok [OF shape] placed_def usize_add_def extent_of_def tensor_size_def)
    next
      case False
      then show ?thesis
        using Some by (auto simp: extent_for_def elements checked_byte_len_Ok [OF shape] placed_def usize_add_def extent_of_def tensor_size_def)
    qed
  qed
qed

definition apart :: "tensor_extent \<Rightarrow> tensor_extent \<Rightarrow> bool" where
  "apart x y \<longleftrightarrow> te_end x \<le> te_start y \<or> te_end y \<le> te_start x"

lemma apart_sym: "apart x y \<longleftrightarrow> apart y x"
  by (auto simp: apart_def)

definition layout_ok :: "parsed_archive \<Rightarrow> nat \<Rightarrow> bool" where
  "layout_ok a file_len \<longleftrightarrow> list_all (placed a file_len) (pa_tensors a) \<and>
     sorted_wrt apart (map (extent_of a) (pa_tensors a))"

subsection \<open>Overlaps\<close>

lemma check_windows_Ok:
  assumes "\<forall>e \<in> set es. te_start e < te_end e"
  shows "check_windows es = Ok u \<longleftrightarrow> sorted_wrt (\<lambda>x y. te_end x \<le> te_start y) es"
  using assms
proof (induction es rule: check_windows.induct)
  case (1 x y es)
  have "te_start y < te_end y" using 1(2) by simp
  then have "te_end x \<le> te_start z" if "te_end x \<le> te_start y" "te_end y \<le> te_start z" for z
    using that by linarith
  then show ?case using 1 by auto
qed auto

lemma sorted_wrt_insort_key:
  "sorted_wrt apart (insort_key f x xs) \<longleftrightarrow> sorted_wrt apart (x # xs)"
  by (induction xs) (auto simp: apart_sym set_insort_key)

lemma sorted_wrt_sort_key: "sorted_wrt apart (sort_key f xs) \<longleftrightarrow> sorted_wrt apart xs"
proof (induction xs)
  case (Cons x xs)
  have "sort_key f (x # xs) = insort_key f x (sort_key f xs)" by (simp add: sort_key_def)
  then show ?case using Cons by (simp add: sorted_wrt_insort_key)
qed (simp add: sort_key_def)

lemma apart_in_order:
  assumes "\<forall>e \<in> set es. te_start e < te_end e" and "sorted (map te_start es)"
  shows "sorted_wrt apart es \<longleftrightarrow> sorted_wrt (\<lambda>x y. te_end x \<le> te_start y) es"
  using assms
proof (induction es)
  case (Cons e es)
  have "apart e x \<longleftrightarrow> te_end e \<le> te_start x" if "x \<in> set es" for x
    using that Cons.prems by (fastforce simp: apart_def)
  then show ?case using Cons by auto
qed simp

lemma validate_layout:
  assumes shapes: "list_all shape_ok (pa_tensors a)" and small: "file_len < 2 ^ 61"
  shows "validate_tensor_extents a file_len = Ok u \<longleftrightarrow> layout_ok a file_len"
proof -
  have each: "try_map (\<lambda>d. extent_for a d file_len) (pa_tensors a) = Ok es \<longleftrightarrow>
      list_all (placed a file_len) (pa_tensors a) \<and> es = map (extent_of a) (pa_tensors a)" for es
  proof -
    have "list_all2 (\<lambda>d e. extent_for a d file_len = Ok e) ds es \<longleftrightarrow>
        list_all (placed a file_len) ds \<and> es = map (extent_of a) ds" if "list_all shape_ok ds" for ds
      using that by (induction ds arbitrary: es) (auto simp: list_all2_Cons1 extent_for_Ok [OF _ small])
    then show ?thesis unfolding try_map_Ok_iff using shapes by blast
  qed
  have windows: "check_windows (sort_key te_start es) = Ok u \<longleftrightarrow> sorted_wrt apart es"
    if "\<forall>e \<in> set es. te_start e < te_end e" for es
    using that check_windows_Ok [of "sort_key te_start es"] apart_in_order [of "sort_key te_start es"]
    by (simp add: sorted_wrt_sort_key)
  have "te_start e < te_end e"
    if "list_all (placed a file_len) (pa_tensors a)" "e \<in> set (map (extent_of a) (pa_tensors a))" for e
    using that shapes tensor_bytes_bounds(1)
    by (fastforce simp: list_all_iff placed_def extent_of_def tensor_size_def)
  then show ?thesis
    using windows [of "map (extent_of a) (pa_tensors a)"] by (auto simp: validate_tensor_extents_def each layout_ok_def)
qed

end
