(* ===== verification/Gguf_Inspection.thy ===== *)
theory Gguf_Inspection
  imports Gguf_Layout
begin

text \<open>
  The receipt of a validated archive: it always exists, lists every tensor with its extent, and its
  census is the sum over the tensors of each type. The sums cannot overflow because the extents are
  disjoint parts of one file.
\<close>

subsection \<open>Disjoint extents fit the file together\<close>

lemma apart_disjoint: "apart x y \<Longrightarrow> {te_start x ..< te_end x} \<inter> {te_start y ..< te_end y} = {}"
  by (auto simp: apart_def)

lemma disjoint_lengths:
  assumes "sorted_wrt apart es"
  shows "(\<Sum>e\<leftarrow>es. te_end e - te_start e) = card (\<Union>e \<in> set es. {te_start e ..< te_end e})"
  using assms
proof (induction es)
  case (Cons e es)
  have "{te_start e ..< te_end e} \<inter> (\<Union>x \<in> set es. {te_start x ..< te_end x}) = {}"
    using Cons.prems apart_disjoint by fastforce
  then show ?case using Cons by (simp add: card_Un_disjoint)
qed simp

definition total_size :: "tensor_descriptor list \<Rightarrow> nat" where
  "total_size ds = (\<Sum>d\<leftarrow>ds. tensor_size d)"

lemma total_size_simps [simp]:
  "total_size [] = 0" "total_size (d # ds) = tensor_size d + total_size ds"
  "total_size (xs @ ys) = total_size xs + total_size ys"
  by (simp_all add: total_size_def)

lemma layout_total:
  assumes "layout_ok a file_len"
  shows "total_size (pa_tensors a) \<le> file_len"
proof -
  let ?es = "map (extent_of a) (pa_tensors a)"
  have "total_size (pa_tensors a) = (\<Sum>e\<leftarrow>?es. te_end e - te_start e)"
    by (simp add: total_size_def extent_of_def o_def)
  also have "\<dots> = card (\<Union>e \<in> set ?es. {te_start e ..< te_end e})"
    using assms by (intro disjoint_lengths) (simp add: layout_ok_def)
  also have "\<dots> \<le> card {..< file_len}"
    using assms by (intro card_mono) (fastforce simp: layout_ok_def list_all_iff placed_def)+
  finally show ?thesis by simp
qed

subsection \<open>The census\<close>

definition of_type :: "ggml_type \<Rightarrow> tensor_descriptor list \<Rightarrow> tensor_descriptor list" where
  "of_type t ds = filter (\<lambda>d. td_ggml_type d = t) ds"

definition type_totals :: "tensor_descriptor list \<Rightarrow> ggml_type \<Rightarrow> nat \<times> nat \<times> nat" where
  "type_totals ds t = (length (of_type t ds), (\<Sum>d\<leftarrow>of_type t ds. tensor_elements d), total_size (of_type t ds))"

definition types_of :: "tensor_descriptor list \<Rightarrow> ggml_type list" where
  "types_of ds = sorted_list_of_set (td_ggml_type ` set ds)"

definition census_agrees :: "tensor_descriptor list \<Rightarrow> census \<Rightarrow> bool" where
  "census_agrees ds m \<longleftrightarrow> bt_wf m \<and>
     (\<forall>t. bt_get m t = (if t \<in> td_ggml_type ` set ds then Some (type_totals ds t) else None))"

lemma census_agrees_Nil: "census_agrees [] []"
  by (simp add: census_agrees_def)

lemma census_rows:
  assumes "census_agrees ds m"
  shows "m = map (\<lambda>t. (t, type_totals ds t)) (types_of ds)"
proof (rule bt_same_lookups)
  show "bt_wf m" using assms by (simp add: census_agrees_def)
  show "bt_wf (map (\<lambda>t. (t, type_totals ds t)) (types_of ds))"
    by (simp add: bt_wf_def types_of_def o_def)
  have "map_of (map (\<lambda>t. (t, type_totals ds t)) ts) k = (if k \<in> set ts then Some (type_totals ds k) else None)" for ts k
    by (induction ts) auto
  then show "bt_get m = bt_get (map (\<lambda>t. (t, type_totals ds t)) (types_of ds))"
    using assms by (auto simp: fun_eq_iff census_agrees_def bt_get_def types_of_def)
qed

definition sized :: "tensor_descriptor \<Rightarrow> bool" where
  "sized d \<longleftrightarrow> shape_ok d \<and> tensor_bytes d \<noteq> None"

lemma sized_bounds: "sized d \<Longrightarrow> 1 \<le> tensor_size d \<and> tensor_elements d \<le> 4 * tensor_size d"
  using tensor_bytes_bounds by (auto simp: sized_def tensor_size_def)

lemma type_totals_bounds:
  assumes "list_all sized ds"
  shows "length (of_type t ds) \<le> total_size ds" and "(\<Sum>d\<leftarrow>of_type t ds. tensor_elements d) \<le> 4 * total_size ds"
    and "total_size (of_type t ds) \<le> total_size ds"
  using assms
proof (induction ds)
  case (Cons d ds)
  { case 1 then show ?case using Cons sized_bounds [of d] by (simp add: of_type_def)
  next case 2 then show ?case using Cons sized_bounds [of d] by (simp add: of_type_def)
  next case 3 then show ?case using Cons by (simp add: of_type_def) }
qed (simp_all add: of_type_def)

lemma census_add_agrees:
  assumes m: "census_agrees ds m" and sized: "list_all sized (ds @ [d])" and small: "total_size (ds @ [d]) < 2 ^ 61"
  obtains m' where "census_add m d (extent_of a d) = Ok m'" and "census_agrees (ds @ [d]) m'"
proof
  let ?t = "td_ggml_type d"
  let ?m = "bt_insert ?t (type_totals (ds @ [d]) ?t) m"
  have absent: "type_totals ds t = (0, 0, 0)" if "t \<notin> td_ggml_type ` set ds" for t
  proof -
    have "of_type t ds = []" using that by (auto simp: of_type_def filter_empty_conv)
    then show ?thesis by (simp add: type_totals_def)
  qed
  have old: "(case bt_get m ?t of None \<Rightarrow> (0, 0, 0) | Some c \<Rightarrow> c) = type_totals ds ?t"
    using m absent by (auto simp: census_agrees_def)
  have new: "type_totals (ds @ [d]) ?t = (case type_totals ds ?t of (n, e, b) \<Rightarrow> (n + 1, e + tensor_elements d, b + tensor_size d))"
    by (simp add: type_totals_def of_type_def)
  show "census_add m d (extent_of a d) = Ok ?m"
    using type_totals_bounds [OF sized, of ?t] small
    unfolding census_add_def old new
    by (simp add: type_totals_def of_type_def Let_def usize_add_def extent_of_def)
  have "type_totals (ds @ [d]) t = type_totals ds t" if "t \<noteq> ?t" for t
    using that by (simp add: type_totals_def of_type_def)
  then show "census_agrees (ds @ [d]) ?m"
    using m by (auto simp: census_agrees_def)
qed

lemma inspect_tensors_Ok:
  assumes "list_all shape_ok (xs @ ds)" and "list_all (placed a file_len) (xs @ ds)" and "total_size (xs @ ds) < 2 ^ 61"
    and "file_len < 2 ^ 61" and "census_agrees xs m"
  shows "\<exists>m'. inspect_tensors a file_len m ts ds = Ok (m', ts @ map (\<lambda>d. inspected d (extent_of a d)) ds) \<and>
    census_agrees (xs @ ds) m'"
  using assms
proof (induction ds arbitrary: xs m ts)
  case (Cons d ds)
  have "list_all sized (xs @ [d])"
    using Cons.prems(1,2) by (auto simp: list_all_iff sized_def placed_def)
  moreover have "total_size (xs @ [d]) < 2 ^ 61" using Cons.prems(3) by simp
  ultimately obtain m' where m': "census_add m d (extent_of a d) = Ok m'" "census_agrees (xs @ [d]) m'"
    by (rule census_add_agrees [OF Cons.prems(5)])
  have "extent_for a d file_len = Ok (extent_of a d)"
    using Cons.prems(1,2) by (simp add: extent_for_Ok [OF _ Cons.prems(4)])
  then show ?case
    using m'(1) Cons.IH [of "xs @ [d]" m' "ts @ [inspected d (extent_of a d)]"] Cons.prems(1-4) m'(2) by auto
qed simp

definition inspection_of :: "parsed_archive \<Rightarrow> nat \<Rightarrow> artifact_digest \<Rightarrow> gguf_inspection" where
  "inspection_of a file_len digest =
     \<lparr>in_file_len = file_len, in_alignment = pa_alignment a, in_digest = digest,
      in_model = \<lparr>mm_architecture = metadata_string (pa_metadata a) (bytes_of ''general.architecture''),
        mm_name = metadata_string (pa_metadata a) (bytes_of ''general.name''),
        mm_file_type = metadata_u32 (pa_metadata a) (bytes_of ''general.file_type''),
        mm_quantization_version = metadata_u32 (pa_metadata a) (bytes_of ''general.quantization_version'')\<rparr>,
      in_tensors = map (\<lambda>d. inspected d (extent_of a d)) (pa_tensors a),
      in_type_census = map (\<lambda>t. census_row (t, type_totals (pa_tensors a) t)) (types_of (pa_tensors a))\<rparr>"

lemma inspection_validated:
  assumes shapes: "list_all shape_ok (pa_tensors a)" and layout: "layout_ok a file_len" and small: "file_len < 2 ^ 61"
  shows "inspection a file_len digest = Ok (inspection_of a file_len digest)"
proof -
  have "list_all (placed a file_len) (pa_tensors a)" "total_size (pa_tensors a) < 2 ^ 61"
    using layout layout_total [OF layout] small by (simp_all add: layout_ok_def)
  then obtain m where m: "inspect_tensors a file_len [] [] (pa_tensors a) =
      Ok (m, map (\<lambda>d. inspected d (extent_of a d)) (pa_tensors a))" "census_agrees (pa_tensors a) m"
    using inspect_tensors_Ok [of "[]" "pa_tensors a" a file_len "[]" "[]"] shapes small census_agrees_Nil by auto
  show ?thesis
    using m(1) census_rows [OF m(2)] by (simp add: inspection_def inspection_of_def o_def)
qed

subsection \<open>Parsed archives\<close>

lemma header_format_shapes: "header_format a h \<Longrightarrow> list_all shape_ok (pa_tensors a)"
  by (auto simp: header_format_def tables_encode_def list_all_iff descriptor_ok_def shape_ok_def)

lemma parsed_shapes: "length bs < 2 ^ 63 \<Longrightarrow> gguf_parse bs = Ok a \<Longrightarrow> list_all shape_ok (pa_tensors a)"
  by (auto simp: gguf_parse_Ok_iff header_format_shapes)

lemma descriptor_by_name_Ok:
  assumes "header_format a h"
  shows "descriptor_by_name a name = Ok d \<longleftrightarrow> d \<in> set (pa_tensors a) \<and> td_name d = name"
    and "descriptor_by_name a name = Err e \<longleftrightarrow> e = TensorNotFound name \<and> name \<notin> td_name ` set (pa_tensors a)"
    and "descriptor_by_name a name \<noteq> Panic"
proof -
  let ?ds = "pa_tensors a"
  have names: "distinct (map td_name ?ds)" and table: "pa_tensor_by_name a = zip (map td_name ?ds) [0..<length ?ds]"
    using assms by (auto simp: header_format_def tables_encode_def)
  have get: "map_of (pa_tensor_by_name a) name = Some i \<longleftrightarrow> i < length ?ds \<and> td_name (?ds ! i) = name" for i
  proof -
    have "(name, i) \<in> set (zip (map td_name ?ds) [0..<length ?ds]) \<longleftrightarrow> i < length ?ds \<and> td_name (?ds ! i) = name"
      by (auto simp: in_set_zip intro!: exI [of _ i])
    then show ?thesis using names unfolding table by (simp add: map_of_eq_Some_iff)
  qed
  have none: "map_of (pa_tensor_by_name a) name = None \<longleftrightarrow> name \<notin> td_name ` set ?ds"
    unfolding table map_of_eq_None_iff by (simp add: set_map [symmetric] del: set_map)
  show "descriptor_by_name a name = Ok d \<longleftrightarrow> d \<in> set ?ds \<and> td_name d = name"
    by (auto simp: descriptor_by_name_def get in_set_conv_nth)
  show "descriptor_by_name a name = Err e \<longleftrightarrow> e = TensorNotFound name \<and> name \<notin> td_name ` set ?ds"
    using get none by (auto simp: descriptor_by_name_def result_iffs)
  show "descriptor_by_name a name \<noteq> Panic"
    by (auto simp: descriptor_by_name_def result_iffs)
qed

subsection \<open>The observed prefix\<close>

lemma maximum_header_value: "maximum_header_snapshot_bytes = Ok 83108888"
  by (simp add: maximum_header_snapshot_bytes_def gguf_limits usize_add_def usize_mul_def)

lemma header_size:
  assumes "header_format a h"
  shows "length h \<le> 83108888"
proof -
  obtain body where body: "tables_encode (pa_metadata a) (pa_tensors a) body" "length h = 24 + length body"
    using assms by (auto simp: header_format_def)
  show ?thesis
    using tables_size(2) [OF body(1)] body(2) assms by (simp add: header_format_def header_ok_def gguf_limits)
qed

lemma prefix_take: "length h \<le> n \<Longrightarrow> prefix h (take n bs) \<longleftrightarrow> prefix h bs"
proof -
  assume "length h \<le> n"
  moreover have "prefix h ys \<longleftrightarrow> take (length h) ys = h" for ys :: "'a list"
    by (auto simp: prefix_def) (metis append_take_drop_id)
  ultimately show ?thesis by (simp add: min_def)
qed

lemma parse_prefix:
  assumes "length bs < 2 ^ 63" and "83108888 \<le> n"
  shows "gguf_parse (take n bs) = Ok a \<longleftrightarrow> gguf_parse bs = Ok a"
proof -
  have "prefix h (take n bs) \<longleftrightarrow> prefix h bs" if "header_format a h" for h
    using header_size [OF that] assms(2) by (intro prefix_take) simp
  then show ?thesis using assms(1) by (auto simp: gguf_parse_Ok_iff)
qed

end
