(* ===== verification/Gguf_Files.thy ===== *)
theory Gguf_Files
  imports Gguf_Inspection
begin

text \<open>
  The three ways an archive is opened: the mapped \<open>Reader\<close>, the observation of a file through one
  retained handle, and the \<open>VerifiedArtifact\<close> that owns its bytes (src/crates/loader/src/gguf.rs and
  gguf/payload.rs). The operating system, the allocator and SHA-256 are parameters: a state of the
  outside world \<open>'w\<close> with the answers it gives.
\<close>

subsection \<open>The mapped reader\<close>

record gguf_reader =
  re_mmap :: bytes
  re_parsed :: parsed_archive

definition reader_open :: "bytes \<Rightarrow> (gguf_reader, gguf_error) result" where
  "reader_open mmap =
     and_then (gguf_parse mmap) (\<lambda>parsed.
     and_then (validate_tensor_extents parsed (length mmap)) (\<lambda>_.
       Ok \<lparr>re_mmap = mmap, re_parsed = parsed\<rparr>))"

text \<open>The argument \<open>stat\<close> is the length that \<open>file.metadata()\<close> reports, if the call succeeds.\<close>

definition check_open_file_len :: "nat option \<Rightarrow> nat \<Rightarrow> (unit, gguf_error) result" where
  "check_open_file_len stat expected_len =
     and_then (ok_or FileRead stat) (\<lambda>actual_len.
       require (actual_len = expected_len) (FileChanged expected_len actual_len))"

definition check_file_not_stale :: "gguf_reader \<Rightarrow> nat option \<Rightarrow> (nat, gguf_error) result" where
  "check_file_not_stale r stat =
     and_then (check_open_file_len stat (length (re_mmap r))) (\<lambda>_. Ok (length (re_mmap r)))"

definition reader_inspect :: "gguf_reader \<Rightarrow> nat option \<Rightarrow> (gguf_inspection, gguf_error) result" where
  "reader_inspect r stat =
     and_then (check_file_not_stale r stat) (\<lambda>file_len. inspection (re_parsed r) file_len NotComputed)"

definition byte_range_for :: "gguf_reader \<Rightarrow> tensor_descriptor \<Rightarrow> (nat \<times> nat, gguf_error) result" where
  "byte_range_for r d =
     and_then (extent_for (re_parsed r) d (length (re_mmap r))) (\<lambda>e. Ok (te_start e, te_end e))"

record tensor_view =
  tv_name :: bytes
  tv_dtype :: taxis_dtype
  tv_shape :: "nat list"
  tv_bytes :: bytes

definition reader_get :: "gguf_reader \<Rightarrow> nat option \<Rightarrow> bytes \<Rightarrow> (tensor_view, gguf_error) result" where
  "reader_get r stat name =
     and_then (check_file_not_stale r stat) (\<lambda>_.
     and_then (descriptor_by_name (re_parsed r) name) (\<lambda>d.
     and_then (to_taxis_dtype (td_ggml_type d)) (\<lambda>dtype.
     and_then (byte_range_for r d) (\<lambda>(start, end_of).
     and_then (ok_or (GgufInvalid start) (slice_get (re_mmap r) start end_of)) (\<lambda>b.
       Ok \<lparr>tv_name = td_name d, tv_dtype = dtype, tv_shape = td_dims d, tv_bytes = b\<rparr>)))))"

definition reader_names :: "gguf_reader \<Rightarrow> bytes list" where
  "reader_names r = map td_name (pa_tensors (re_parsed r))"

subsection \<open>Calls that may not return\<close>

text \<open>
  A call that talks to the outside world and may be interrupted for ever: \<open>None\<close> is a call that
  never returns. \<open>then_do\<close> is the \<open>?\<close> operator.
\<close>

type_synonym ('a, 'w) call = "(('a, gguf_error) result \<times> 'w) option"

definition then_do :: "('a, 'w) call \<Rightarrow> ('a \<Rightarrow> 'w \<Rightarrow> ('b, 'w) call) \<Rightarrow> ('b, 'w) call" where
  "then_do t f = Option.bind t (\<lambda>p. case p of
     (Ok x, w) \<Rightarrow> f x w | (Err e, w) \<Rightarrow> Some (Err e, w) | (Panic, w) \<Rightarrow> Some (Panic, w))"

lemma then_do_simps [simp]:
  "then_do (Some (Ok x, w)) f = f x w" "then_do (Some (Err e, w)) f = Some (Err e, w)"
  "then_do (Some (Panic, w)) f = Some (Panic, w)" "then_do None f = None"
  by (simp_all add: then_do_def)

lemma then_do_mono [partial_function_mono]:
  fixes t :: "('x \<Rightarrow> 'y option) \<Rightarrow> ('a, 'w) call" and f :: "('x \<Rightarrow> 'y option) \<Rightarrow> 'a \<Rightarrow> 'w \<Rightarrow> ('b, 'w) call"
  assumes "mono_option t" and "\<And>x w. mono_option (\<lambda>g. f g x w)"
  shows "mono_option (\<lambda>g. then_do (t g) (f g))"
  unfolding then_do_def
proof (rule bind_mono [OF assms(1)])
  show "mono_option (\<lambda>g. case p of (Ok x, w) \<Rightarrow> f g x w | (Err e, w) \<Rightarrow> Some (Err e, w) | (Panic, w) \<Rightarrow> Some (Panic, w))"
    for p :: "('a, gguf_error) result \<times> 'w"
    using assms(2) by (cases p; cases "fst p") (auto intro: option.const_mono)
qed

lemma then_do_Ok_iff:
  "then_do t f = Some (Ok y, w') \<longleftrightarrow> (\<exists>x w. t = Some (Ok x, w) \<and> f x w = Some (Ok y, w'))"
  by (cases t; cases "the t"; cases "fst (the t)") (auto simp: then_do_def)

definition at_once :: "('a, gguf_error) result \<Rightarrow> 'w \<Rightarrow> ('a, 'w) call" where
  "at_once r w = Some (r, w)"

lemma at_once_Ok_iff [simp]: "at_once r w = Some (q, w') \<longleftrightarrow> r = q \<and> w' = w"
  by (auto simp: at_once_def)

subsection \<open>The outside world\<close>

text \<open>
  \<open>read_at offset n\<close> is one positional read of at most \<open>n\<close> bytes, \<open>stat_len\<close> the length that the
  metadata of the open handle report, \<open>can_reserve\<close> whether the allocator grants a buffer.
\<close>

datatype read_answer = Interrupted | ReadFailed | Got bytes

record 'w file_ops =
  read_at :: "nat \<Rightarrow> nat \<Rightarrow> 'w \<Rightarrow> read_answer \<times> 'w"
  stat_len :: "'w \<Rightarrow> nat option \<times> 'w"
  can_reserve :: "nat \<Rightarrow> 'w \<Rightarrow> bool"

definition stat_check :: "'w file_ops \<Rightarrow> nat \<Rightarrow> 'w \<Rightarrow> (unit, 'w) call" where
  "stat_check F expected_len w =
     (case stat_len F w of (stat, w) \<Rightarrow> at_once (check_open_file_len stat expected_len) w)"

text \<open>
  The loop of \<open>read_exact_at\<close>; \<open>filled\<close> is the part of the destination that is written.
\<close>

partial_function (option) read_exact_loop ::
  "'w file_ops \<Rightarrow> nat \<Rightarrow> nat \<Rightarrow> nat \<Rightarrow> bytes \<Rightarrow> 'w \<Rightarrow> (bytes, 'w) call" where
  "read_exact_loop F expected_len offset n filled w =
     (if length filled < n then
        then_do (at_once (checked_u64 offset (usize_add offset (length filled))) w) (\<lambda>read_offset w.
          case read_at F read_offset (n - length filled) w of
            (Interrupted, w) \<Rightarrow> read_exact_loop F expected_len offset n filled w
          | (ReadFailed, w) \<Rightarrow> Some (Err FileRead, w)
          | (Got bs, w) \<Rightarrow>
              if bs = [] then then_do (stat_check F expected_len w) (\<lambda>_ w. Some (Err (GgufInvalid read_offset), w))
              else then_do (at_once (checked_u64 read_offset (usize_add (length filled) (length bs))) w) (\<lambda>_ w.
                read_exact_loop F expected_len offset n (filled @ bs) w))
      else Some (Ok filled, w))"

definition read_exact_at :: "'w file_ops \<Rightarrow> nat \<Rightarrow> nat \<Rightarrow> nat \<Rightarrow> 'w \<Rightarrow> (bytes, 'w) call" where
  "read_exact_at F expected_len offset n w = read_exact_loop F expected_len offset n [] w"

subsection \<open>Observation through one handle\<close>

record inspection_observation =
  io_parsed :: parsed_archive
  io_file_len :: nat
  io_hashed_prefix_len :: nat
  io_hasher :: bytes

record observed_artifact =
  oa_inspection :: gguf_inspection
  oa_parsed :: parsed_archive

text \<open>A hasher is the bytes it was given; \<open>sha\<close> is its \<open>finalize\<close>.\<close>

definition observe_prefix :: "'w file_ops \<Rightarrow> nat \<Rightarrow> 'w \<Rightarrow> (inspection_observation, 'w) call" where
  "observe_prefix F prefix_limit w =
     (case stat_len F w of (stat, w) \<Rightarrow>
     then_do (at_once (ok_or FileRead stat) w) (\<lambda>file_len w.
     let prefix_len = min file_len prefix_limit in
     then_do (at_once (require (can_reserve F prefix_len w) (GgufInvalid 0)) w) (\<lambda>_ w.
     then_do (read_exact_at F file_len 0 prefix_len w) (\<lambda>prefix w.
     then_do (at_once (gguf_parse prefix) w) (\<lambda>parsed w.
     then_do (at_once (validate_tensor_extents parsed file_len) w) (\<lambda>_ w.
       Some (Ok \<lparr>io_parsed = parsed, io_file_len = file_len, io_hashed_prefix_len = prefix_len,
                 io_hasher = prefix\<rparr>, w)))))))"

partial_function (option) hash_rest ::
  "'w file_ops \<Rightarrow> nat \<Rightarrow> nat \<Rightarrow> bytes \<Rightarrow> 'w \<Rightarrow> (bytes, 'w) call" where
  "hash_rest F file_len offset hashed w =
     (if offset < file_len then
        let read_len = min (file_len - offset) SHA256_READ_BUFFER_BYTES in
        then_do (read_exact_at F file_len offset read_len w) (\<lambda>b w.
        then_do (at_once (checked_u64 offset (usize_add offset read_len)) w) (\<lambda>offset w.
          hash_rest F file_len offset (hashed @ b) w))
      else Some (Ok hashed, w))"

definition finish_observation ::
  "'w file_ops \<Rightarrow> (bytes \<Rightarrow> bytes) \<Rightarrow> inspection_observation \<Rightarrow> 'w \<Rightarrow> (observed_artifact, 'w) call" where
  "finish_observation F sha observation w =
     then_do (hash_rest F (io_file_len observation) (io_hashed_prefix_len observation) (io_hasher observation) w) (\<lambda>hashed w.
     then_do (stat_check F (io_file_len observation) w) (\<lambda>_ w.
     then_do (at_once (inspection (io_parsed observation) (io_file_len observation) (Sha256 (sha hashed))) w) (\<lambda>i w.
       Some (Ok \<lparr>oa_inspection = i, oa_parsed = io_parsed observation\<rparr>, w))))"

definition observe_open_file_with_sha256 ::
  "'w file_ops \<Rightarrow> (bytes \<Rightarrow> bytes) \<Rightarrow> 'w \<Rightarrow> (observed_artifact, 'w) call" where
  "observe_open_file_with_sha256 F sha w =
     then_do (at_once maximum_header_snapshot_bytes w) (\<lambda>limit w.
     then_do (observe_prefix F limit w) (\<lambda>observation w.
       finish_observation F sha observation w))"

subsection \<open>Verified artifacts\<close>

record verified_artifact =
  va_backing :: bytes
  va_observation :: observed_artifact

text \<open>
  What the descriptor that was opened says: whether it is a regular file, and its length;
  \<open>granted\<close> is the answer of the allocator, \<open>stream n\<close> that of \<open>read_exact\<close> into \<open>n\<close> bytes.
\<close>

definition open_regular_file :: "(bool \<times> nat) option \<Rightarrow> (nat, gguf_error) result" where
  "open_regular_file opened =
     and_then (ok_or FileRead opened) (\<lambda>(is_file, len).
     and_then (require is_file ArtifactNotRegular) (\<lambda>_. Ok len))"

definition read_backing :: "(nat \<Rightarrow> bytes option) \<Rightarrow> bool \<Rightarrow> nat \<Rightarrow> nat \<Rightarrow> (bytes, gguf_error) result" where
  "read_backing stream granted serialized_bytes limit =
     and_then (require (serialized_bytes \<le> limit) (ArtifactExceedsByteLimit serialized_bytes limit)) (\<lambda>_.
     and_then (require granted (ArtifactBackingAllocation serialized_bytes)) (\<lambda>_.
       ok_or FileRead (stream serialized_bytes)))"

definition load_artifact ::
  "(bytes \<Rightarrow> bytes) \<Rightarrow> (bool \<times> nat) option \<Rightarrow> (nat \<Rightarrow> bytes option) \<Rightarrow> bool \<Rightarrow> bytes \<Rightarrow> nat \<Rightarrow>
     (verified_artifact, gguf_error) result" where
  "load_artifact sha opened stream granted expected limit =
     and_then (open_regular_file opened) (\<lambda>serialized_bytes.
     and_then (read_backing stream granted serialized_bytes limit) (\<lambda>backing.
     let actual = sha backing in
     and_then (require (actual = expected) (ArtifactDigestMismatch expected actual)) (\<lambda>_.
     and_then (gguf_parse backing) (\<lambda>parsed.
     and_then (validate_tensor_extents parsed serialized_bytes) (\<lambda>_.
     and_then (inspection parsed serialized_bytes (Sha256 actual)) (\<lambda>i.
       Ok \<lparr>va_backing = backing, va_observation = \<lparr>oa_inspection = i, oa_parsed = parsed\<rparr>\<rparr>))))))"

definition artifact_tensor ::
  "verified_artifact \<Rightarrow> bytes \<Rightarrow> (tensor_descriptor \<times> bytes, gguf_error) result" where
  "artifact_tensor v name =
     and_then (descriptor_by_name (oa_parsed (va_observation v)) name) (\<lambda>d.
     and_then (extent_for (oa_parsed (va_observation v)) d (length (va_backing v))) (\<lambda>e.
     and_then (ok_or (GgufInvalid (te_start e)) (slice_get (va_backing v) (te_start e) (te_end e))) (\<lambda>b.
       Ok (d, b))))"

end
