(* ===== verification/Gguf_Observation.thy ===== *)
theory Gguf_Observation
  imports Gguf_Files
begin

text \<open>
  What an observation of a file says. For any file, however it changes underneath: the descriptors
  and the digest describe one and the same byte stream. For a file that holds still and serves
  reads: the observation returns, and it is the one of the whole contents although only a prefix was
  parsed.
\<close>

subsection \<open>Any file\<close>

definition reads_within :: "'w file_ops \<Rightarrow> bool" where
  "reads_within F \<longleftrightarrow> (\<forall>offset n w bs w'. read_at F offset n w = (Got bs, w') \<longrightarrow> length bs \<le> n)"

lemma read_exact_loop_fills:
  assumes "read_exact_loop F expected_len offset n filled w = Some p"
    and "reads_within F" and "length filled \<le> n" and "p = (Ok bs, w')"
  shows "length bs = n \<and> prefix filled bs"
  using assms
proof (induction rule: read_exact_loop.raw_induct [rotated 1, consumes 1, case_names step])
  case (step loop F expected_len offset n filled w p)
  note F = step.prems(1) and len = step.prems(2)
  note run = step.hyps [unfolded step.prems(3)]
  show ?case
  proof (cases "length filled < n")
    case False
    then show ?thesis using run len by simp
  next
    case True
    let ?read_offset = "offset + length filled"
    obtain answer v where answer: "read_at F ?read_offset (n - length filled) w = (answer, v)"
      by (cases "read_at F ?read_offset (n - length filled) w")
    have "offset + length filled < 2 ^ 64" using run True by (auto simp: then_do_Ok_iff usize_add_Some_iff)
    note body = run [simplified True if_True then_do_Ok_iff at_once_Ok_iff ok_or_Ok_iff usize_add_Some_iff]
    show ?thesis
    proof (cases answer)
      case Interrupted
      then show ?thesis using body answer step.IH F len by auto
    next
      case ReadFailed
      then show ?thesis using body answer by auto
    next
      case (Got b)
      then have "length b \<le> n - length filled" using F answer unfolding reads_within_def by blast
      then have fits: "length (filled @ b) \<le> n" using True by simp
      have "b \<noteq> []" using body answer Got by (auto simp: then_do_Ok_iff)
      then have "loop F expected_len offset n (filled @ b) v = Some (Ok bs, w')"
        using body answer Got by (auto simp: then_do_Ok_iff)
      then have "length bs = n \<and> prefix (filled @ b) bs" using step.IH F fits by blast
      then show ?thesis by (auto simp: prefix_append)
    qed
  qed
qed

lemma read_exact_at_fills:
  "reads_within F \<Longrightarrow> read_exact_at F expected_len offset n w = Some (Ok bs, w') \<Longrightarrow> length bs = n"
  using read_exact_loop_fills [of F expected_len offset n "[]" w] by (simp add: read_exact_at_def)

lemma hash_rest_extends:
  assumes "hash_rest F file_len offset hashed w = Some p"
    and "reads_within F" and "length hashed = offset" and "offset \<le> file_len" and "p = (Ok h, w')"
  shows "length h = file_len \<and> prefix hashed h"
  using assms
proof (induction rule: hash_rest.raw_induct [rotated 1, consumes 1, case_names step])
  case (step rest F file_len offset hashed w p)
  show ?case
  proof (cases "offset < file_len")
    case False
    then show ?thesis using step by simp
  next
    case True
    let ?n = "min (file_len - offset) SHA256_READ_BUFFER_BYTES"
    obtain b v where b: "read_exact_at F file_len offset ?n w = Some (Ok b, v)"
      and r: "rest F file_len (offset + ?n) (hashed @ b) v = Some (Ok h, w')"
      using step.hyps [unfolded step.prems(4)] True by (auto simp: then_do_Ok_iff Let_def usize_add_Some_iff)
    have "length b = ?n" by (rule read_exact_at_fills [OF step.prems(1) b])
    then have "length h = file_len \<and> prefix (hashed @ b) h"
      using step.IH [OF r step.prems(1)] step.prems(2) True by simp
    then show ?thesis by (auto simp: prefix_append)
  qed
qed

lemma observation_of_one_stream:
  assumes F: "reads_within F" and Ok: "observe_open_file_with_sha256 F sha w = Some (Ok a, w')"
  shows "\<exists>stream. length stream = in_file_len (oa_inspection a) \<and>
    gguf_parse (take 83108888 stream) = Ok (oa_parsed a) \<and>
    validate_tensor_extents (oa_parsed a) (length stream) = Ok () \<and>
    inspection (oa_parsed a) (length stream) (Sha256 (sha stream)) = Ok (oa_inspection a)"
proof -
  obtain ob v where prefix: "observe_prefix F 83108888 w = Some (Ok ob, v)"
    and finish: "finish_observation F sha ob v = Some (Ok a, w')"
    using Ok by (auto simp: observe_open_file_with_sha256_def then_do_Ok_iff maximum_header_value)
  let ?len = "io_file_len ob"
  obtain w1 w2 where start: "read_exact_at F ?len 0 (min ?len 83108888) w1 = Some (Ok (io_hasher ob), w2)"
    and parsed: "gguf_parse (io_hasher ob) = Ok (io_parsed ob)" "validate_tensor_extents (io_parsed ob) ?len = Ok ()"
    and hashed: "io_hashed_prefix_len ob = min ?len 83108888"
    using prefix by (auto simp: observe_prefix_def then_do_Ok_iff Let_def split: prod.splits)
  have len: "length (io_hasher ob) = min ?len 83108888" by (rule read_exact_at_fills [OF F start])
  obtain stream i w3 where rest: "hash_rest F ?len (min ?len 83108888) (io_hasher ob) v = Some (Ok stream, w3)"
    and i: "inspection (io_parsed ob) ?len (Sha256 (sha stream)) = Ok i"
    and a: "a = \<lparr>oa_inspection = i, oa_parsed = io_parsed ob\<rparr>"
    using finish unfolding finish_observation_def then_do_Ok_iff hashed by auto
  have stream: "length stream = ?len" "prefix (io_hasher ob) stream"
    using hash_rest_extends [OF rest F len _ refl] by simp_all
  then have "take 83108888 stream = io_hasher ob"
    using len by (auto simp: prefix_def min_def split: if_splits)
  moreover have "in_file_len i = ?len" using i by (auto simp: inspection_def)
  ultimately show ?thesis using stream parsed i a by auto
qed

subsection \<open>A file that holds still\<close>

text \<open>
  The handle serves the contents: a read returns a non-empty part of what was asked for, unless it
  is interrupted, and it is interrupted only finitely often.
\<close>

definition steady :: "'w file_ops \<Rightarrow> bytes \<Rightarrow> ('w \<Rightarrow> bool) \<Rightarrow> ('w \<Rightarrow> nat) \<Rightarrow> bool" where
  "steady F contents good patience \<longleftrightarrow> (\<forall>w. good w \<longrightarrow>
     (\<forall>n. can_reserve F n w) \<and>
     (case stat_len F w of (stat, v) \<Rightarrow> stat = Some (length contents) \<and> good v \<and> patience v \<le> patience w) \<and>
     (\<forall>offset n. 0 < n \<and> offset < length contents \<longrightarrow>
        (case read_at F offset n w of (answer, v) \<Rightarrow> good v \<and> patience v \<le> patience w \<and>
           (case answer of Interrupted \<Rightarrow> patience v < patience w | ReadFailed \<Rightarrow> False
            | Got bs \<Rightarrow> bs \<noteq> [] \<and> prefix bs (take n (drop offset contents))))))"

lemma steadyD:
  assumes "steady F contents good patience" and "good w"
  shows "can_reserve F n w"
    and "\<exists>v. stat_len F w = (Some (length contents), v) \<and> good v \<and> patience v \<le> patience w"
    and "0 < n \<Longrightarrow> offset < length contents \<Longrightarrow> read_at F offset n w = (answer, v) \<Longrightarrow>
      good v \<and> patience v \<le> patience w \<and>
      (case answer of Interrupted \<Rightarrow> patience v < patience w | ReadFailed \<Rightarrow> False
       | Got bs \<Rightarrow> bs \<noteq> [] \<and> prefix bs (take n (drop offset contents)))"
proof -
  note S = assms(1) [unfolded steady_def, THEN spec, THEN mp, OF assms(2)]
  show "can_reserve F n w" using S by blast
  show "\<exists>v. stat_len F w = (Some (length contents), v) \<and> good v \<and> patience v \<le> patience w"
    using S by (auto split: prod.splits)
  show "0 < n \<Longrightarrow> offset < length contents \<Longrightarrow> read_at F offset n w = (answer, v) \<Longrightarrow>
      good v \<and> patience v \<le> patience w \<and>
      (case answer of Interrupted \<Rightarrow> patience v < patience w | ReadFailed \<Rightarrow> False
       | Got bs \<Rightarrow> bs \<noteq> [] \<and> prefix bs (take n (drop offset contents)))"
    using conjunct2 [OF conjunct2 [OF S], THEN spec, THEN spec, THEN mp, of n offset] by auto
qed

lemma prefix_continues:
  assumes "filled = take k xs" and "k < n" and "n \<le> length xs" and "prefix bs (take (n - k) (drop k xs))"
  shows "filled @ bs = take (k + length bs) xs" and "k + length bs \<le> n"
proof -
  have len: "length bs \<le> n - k" using prefix_length_le [OF assms(4)] by simp
  then show "k + length bs \<le> n" using assms(2) by simp
  have "bs = take (length bs) (drop k xs)" using assms(4) len by (auto simp: prefix_def min_def dest: arg_cong [of _ _ "take (length bs)"])
  then show "filled @ bs = take (k + length bs) xs" using assms(1) by (metis take_add)
qed

lemma steady_read:
  assumes S: "steady F contents good patience" and small: "length contents < 2 ^ 64"
    and "good w" and "filled = take k (drop offset contents)" and "k \<le> n" and "offset + n \<le> length contents"
  shows "\<exists>v. read_exact_loop F expected_len offset n filled w = Some (Ok (take n (drop offset contents)), v) \<and>
    good v \<and> patience v \<le> patience w"
  using assms(3-)
proof (induction "n - k + patience w" arbitrary: filled k w rule: less_induct)
  case less
  have k: "length filled = k" using less.prems by simp
  show ?case
  proof (cases "k < n")
    case False
    then have "read_exact_loop F expected_len offset n filled w = Some (Ok filled, w)"
      using k by (subst read_exact_loop.simps) simp
    then show ?thesis using less.prems False by auto
  next
    case True
    obtain answer v where answer: "read_at F (offset + k) (n - k) w = (answer, v)" by (cases "read_at F (offset + k) (n - k) w")
    have in_range: "offset + k < length contents" using True less.prems by simp
    note A = steadyD(3) [OF S less.prems(1) _ in_range answer]
    have step: "read_exact_loop F expected_len offset n filled w =
        (case answer of Interrupted \<Rightarrow> read_exact_loop F expected_len offset n filled v
         | ReadFailed \<Rightarrow> Some (Err FileRead, v)
         | Got bs \<Rightarrow> if bs = [] then then_do (stat_check F expected_len v) (\<lambda>_ w. Some (Err (GgufInvalid (offset + k)), w))
             else then_do (at_once (checked_u64 (offset + k) (usize_add k (length bs))) v) (\<lambda>_ w.
               read_exact_loop F expected_len offset n (filled @ bs) w))"
      using True k in_range small answer
      by (subst read_exact_loop.simps) (simp add: usize_add_def at_once_def split: read_answer.splits)
    show ?thesis
    proof (cases answer)
      case Interrupted
      then have "patience v < patience w" "good v" using A True by simp_all
      then show ?thesis
        using less.hyps [of k v filled] less.prems Interrupted step by fastforce
    next
      case ReadFailed
      then show ?thesis using A True by simp
    next
      case (Got bs)
      then have bs: "bs \<noteq> []" "prefix bs (take (n - k) (drop k (drop offset contents)))" "good v" "patience v \<le> patience w"
        using A True by (simp_all add: add.commute)
      note next_filled = prefix_continues [OF less.prems(2) True _ bs(2)]
      have "n \<le> length (drop offset contents)" using less.prems(4) by simp
      note next_filled = next_filled [OF this]
      have "n - (k + length bs) + patience v < n - k + patience w" using bs True next_filled(2) by (cases bs) simp_all
      then obtain v' where "read_exact_loop F expected_len offset n (filled @ bs) v = Some (Ok (take n (drop offset contents)), v')"
          "good v'" "patience v' \<le> patience v"
        using less.hyps [OF _ bs(3) next_filled less.prems(4)] by blast
      moreover have "usize_add k (length bs) = Some (k + length bs)"
        using next_filled(2) less.prems(4) small by (simp add: usize_add_def)
      ultimately show ?thesis using Got bs step by (auto simp: at_once_def)
    qed
  qed
qed

lemma steady_hash:
  assumes S: "steady F contents good patience" and small: "length contents < 2 ^ 64"
    and "good w" and "offset \<le> length contents" and "hashed = take offset contents"
  shows "\<exists>v. hash_rest F (length contents) offset hashed w = Some (Ok contents, v) \<and> good v"
  using assms(3-)
proof (induction "length contents - offset" arbitrary: offset hashed w rule: less_induct)
  case less
  show ?case
  proof (cases "offset < length contents")
    case False
    then show ?thesis using less.prems by (subst hash_rest.simps) simp
  next
    case True
    let ?n = "min (length contents - offset) SHA256_READ_BUFFER_BYTES"
    have pos: "0 < ?n" using True by (simp add: SHA256_READ_BUFFER_BYTES_def)
    have "offset + ?n \<le> length contents" using True by simp
    then obtain v where v: "read_exact_at F (length contents) offset ?n w = Some (Ok (take ?n (drop offset contents)), v)" "good v"
      using steady_read [OF S small less.prems(1), of "[]" 0 offset ?n "length contents"] True that by (auto simp: read_exact_at_def)
    have "hash_rest F (length contents) offset hashed w =
        hash_rest F (length contents) (offset + ?n) (hashed @ take ?n (drop offset contents)) v"
    proof -
      have "usize_add offset ?n = Some (offset + ?n)" using True small by (simp add: usize_add_def)
      then show ?thesis using True v(1) by (subst hash_rest.simps) (simp add: at_once_def Let_def)
    qed
    moreover have "hashed @ take ?n (drop offset contents) = take (offset + ?n) contents"
      using less.prems(3) by (simp add: take_add)
    ultimately show ?thesis
      using less.hyps [of "offset + ?n" v] pos True v(2) by simp
  qed
qed

lemma steady_observation:
  assumes S: "steady F contents good patience" and small: "length contents < 2 ^ 61" and w: "good w"
  shows "\<exists>r v. observe_open_file_with_sha256 F sha w = Some (r, v) \<and>
    (\<forall>obs. r = Ok obs \<longleftrightarrow> (\<exists>a. gguf_parse contents = Ok a \<and> layout_ok a (length contents) \<and>
       obs = \<lparr>oa_inspection = inspection_of a (length contents) (Sha256 (sha contents)), oa_parsed = a\<rparr>))"
proof -
  let ?L = "length contents" and ?M = "83108888 :: nat"
  have small64: "?L < 2 ^ 64" and small63: "?L < 2 ^ 63" using small by simp_all
  obtain w1 where w1: "stat_len F w = (Some ?L, w1)" "good w1" using steadyD(2) [OF S w] by blast
  obtain w2 where w2: "read_exact_at F ?L 0 (min ?L ?M) w1 = Some (Ok (take ?M contents), w2)" "good w2"
  proof -
    have "take (min ?L ?M) (drop 0 contents) = take ?M contents" by (simp add: min_def)
    then show ?thesis
      using steady_read [OF S small64 w1(2), of "[]" 0 0 "min ?L ?M" ?L] that by (auto simp: read_exact_at_def)
  qed
  have prefix: "observe_prefix F ?M w =
      then_do (at_once (gguf_parse (take ?M contents)) w2) (\<lambda>parsed w.
      then_do (at_once (validate_tensor_extents parsed ?L) w) (\<lambda>_ w.
        Some (Ok \<lparr>io_parsed = parsed, io_file_len = ?L, io_hashed_prefix_len = min ?L ?M, io_hasher = take ?M contents\<rparr>, w)))"
    using w1 w2(1) steadyD(1) [OF S w1(2)] by (simp add: observe_prefix_def at_once_def Let_def require_def)
  have parse: "gguf_parse (take ?M contents) = Ok a \<longleftrightarrow> gguf_parse contents = Ok a" for a
    by (rule parse_prefix [OF small63]) simp
  show ?thesis
  proof (cases "\<exists>a. gguf_parse contents = Ok a \<and> layout_ok a ?L")
    case True
    then obtain a where a: "gguf_parse contents = Ok a" "layout_ok a ?L" by blast
    note shapes = parsed_shapes [OF small63 a(1)]
    have "validate_tensor_extents a ?L = Ok ()" using validate_layout [OF shapes small] a(2) by simp
    then have "observe_prefix F ?M w = Some (Ok \<lparr>io_parsed = a, io_file_len = ?L, io_hashed_prefix_len = min ?L ?M,
        io_hasher = take ?M contents\<rparr>, w2)"
      using prefix parse [of a, THEN iffD2, OF a(1)] by (simp add: at_once_def)
    moreover obtain w3 where w3: "hash_rest F ?L (min ?L ?M) (take ?M contents) w2 = Some (Ok contents, w3)" "good w3"
    proof -
      have "take ?M contents = take (min ?L ?M) contents" by (simp add: min_def)
      then show ?thesis using steady_hash [OF S small64 w2(2), of "min ?L ?M" "take ?M contents"] that by auto
    qed
    obtain w4 where "stat_len F w3 = (Some ?L, w4)" using steadyD(2) [OF S w3(2)] by blast
    ultimately have "observe_open_file_with_sha256 F sha w =
        Some (Ok \<lparr>oa_inspection = inspection_of a ?L (Sha256 (sha contents)), oa_parsed = a\<rparr>, w4)"
      using w3(1) inspection_validated [OF shapes a(2) small]
      by (simp add: observe_open_file_with_sha256_def finish_observation_def maximum_header_value at_once_def
          stat_check_def check_open_file_len_def require_def)
    then show ?thesis using a by auto
  next
    case False
    have "observe_prefix F ?M w \<noteq> None \<and> (\<forall>ob v. observe_prefix F ?M w \<noteq> Some (Ok ob, v))"
    proof (cases "gguf_parse (take ?M contents)")
      case (Ok a)
      then have "validate_tensor_extents a ?L \<noteq> Ok ()"
        using False validate_layout [OF parsed_shapes [OF small63] small, of a "()"] by (auto simp: parse)
      then show ?thesis
        using prefix Ok by (cases "validate_tensor_extents a ?L") (auto simp: at_once_def)
    qed (use prefix in \<open>auto simp: at_once_def\<close>)
    then obtain r v where "observe_prefix F ?M w = Some (r, v)" "\<nexists>ob. r = Ok ob"
      by (cases "observe_prefix F ?M w") fastforce+
    then have "\<exists>q. observe_open_file_with_sha256 F sha w = Some (q, v) \<and> (\<nexists>obs. q = Ok obs)"
      by (cases r) (auto simp: observe_open_file_with_sha256_def maximum_header_value at_once_def)
    then show ?thesis using False by blast
  qed
qed

end
