(* ===== verification/Gguf_Properties.thy ===== *)
theory Gguf_Properties
  imports Gguf_Observation
begin

text \<open>
  The properties of the GGUF reader, and an encoder of headers to state the round trip with.
\<close>

subsection \<open>An encoder\<close>

fun encode_scalar :: "meta_value \<Rightarrow> bytes" where
  "encode_scalar (MetaU8 x) = le_bytes 1 (unat x)"
| "encode_scalar (MetaI8 x) = le_bytes 1 (unat x)"
| "encode_scalar (MetaU16 x) = le_bytes 2 (unat x)"
| "encode_scalar (MetaI16 x) = le_bytes 2 (unat x)"
| "encode_scalar (MetaU32 x) = le_bytes 4 (unat x)"
| "encode_scalar (MetaI32 x) = le_bytes 4 (unat x)"
| "encode_scalar (MetaU64 x) = le_bytes 8 (unat x)"
| "encode_scalar (MetaI64 x) = le_bytes 8 (unat x)"
| "encode_scalar (MetaF32 x) = le_bytes 4 (unat x)"
| "encode_scalar (MetaF64 x) = le_bytes 8 (unat x)"
| "encode_scalar (MetaBool b) = [if b then 1 else 0]"
| "encode_scalar (MetaString v) = string_bytes v"
| "encode_scalar (MetaArray t vs) = []"

fun encode_value :: "meta_value \<Rightarrow> bytes" where
  "encode_value (MetaArray t vs) =
     le_bytes 4 (unat (meta_type_id t)) @ le_bytes 8 (length vs) @ concat (map encode_scalar vs)"
| "encode_value v = encode_scalar v"

definition encode_entry :: "bytes \<times> meta_value \<Rightarrow> bytes" where
  "encode_entry kv = string_bytes (fst kv) @
     le_bytes 4 (unat (meta_type_id (value_type (snd kv)))) @ encode_value (snd kv)"

definition encode_header :: "(bytes \<times> meta_value) list \<Rightarrow> tensor_descriptor list \<Rightarrow> bytes" where
  "encode_header kvs ds = fixed_header (length ds) (length kvs) @
     concat (map encode_entry kvs) @ concat (map descriptor_bytes ds)"

text \<open>Well-typed values: an array holds scalars of the type it declares.\<close>

fun scalar_typed :: "meta_value \<Rightarrow> bool" where
  "scalar_typed (MetaString v) = string_ok v"
| "scalar_typed (MetaArray t vs) = False"
| "scalar_typed v = True"

fun value_typed :: "meta_value \<Rightarrow> bool" where
  "value_typed (MetaArray t vs) = (t \<noteq> TyArray \<and> length vs \<le> MAX_METADATA_ARRAY_ELEMENTS \<and>
     list_all (\<lambda>v. value_type v = t \<and> scalar_typed v) vs)"
| "value_typed v = scalar_typed v"

definition entry_typed :: "bytes \<times> meta_value \<Rightarrow> bool" where
  "entry_typed kv = (string_ok (fst kv) \<and> value_typed (snd kv))"

definition descriptor_typed :: "tensor_descriptor \<Rightarrow> bool" where
  "descriptor_typed d = (string_ok (td_name d) \<and> 1 \<le> length (td_dims d) \<and> length (td_dims d) \<le> MAX_TENSOR_DIMS \<and>
     0 \<notin> set (td_dims d) \<and> list_all (\<lambda>x. x < 2 ^ 64) (td_dims d) \<and> td_data_offset d < 2 ^ 64)"

definition archive_typed :: "(bytes \<times> meta_value) list \<Rightarrow> tensor_descriptor list \<Rightarrow> bool" where
  "archive_typed kvs ds = (list_all entry_typed kvs \<and> list_all descriptor_typed ds \<and>
     distinct (map fst kvs) \<and> distinct (map td_name ds) \<and> is_power_of_two (declared_alignment kvs) \<and> header_ok kvs ds)"

text \<open>The archive that a header with these tables describes.\<close>

definition archive_of :: "nat \<Rightarrow> (bytes \<times> meta_value) list \<Rightarrow> tensor_descriptor list \<Rightarrow> parsed_archive" where
  "archive_of header_len kvs ds = \<lparr>pa_metadata = kvs, pa_tensors = ds,
     pa_tensor_by_name = zip (map td_name ds) [0..<length ds],
     pa_data_region_start = (header_len + (declared_alignment kvs - 1)) div declared_alignment kvs * declared_alignment kvs,
     pa_alignment = declared_alignment kvs\<rparr>"

lemma descriptor_typed_iff: "descriptor_typed d = descriptor_ok d"
  by (simp add: descriptor_typed_def descriptor_ok_def list_all_iff)

lemma scalar_encodes_typed:
  "scalar_encodes v bs \<Longrightarrow> scalar_typed v" "scalar_typed v \<Longrightarrow> scalar_encodes v (encode_scalar v)"
  by (cases v; simp)+

lemma values_encode_typed: "values_encode vs bs \<Longrightarrow> list_all scalar_typed vs"
  by (induction vs arbitrary: bs) (auto simp: values_encode_Cons dest: scalar_encodes_typed(1))

lemma values_encode_encoded: "list_all scalar_typed vs \<Longrightarrow> values_encode vs (concat (map encode_scalar vs))"
  by (induction vs) (auto simp: values_encode_def list_all2_Nil values_encode_Cons [unfolded values_encode_def]
      dest: scalar_encodes_typed(2))

lemma value_encodes_typed: "value_encodes v bs \<Longrightarrow> value_typed v"
  by (cases v) (auto simp: list_all_iff dest!: values_encode_typed scalar_encodes_typed(1))

lemma value_encodes_encoded: "value_typed v \<Longrightarrow> value_encodes v (encode_value v)"
  using scalar_encodes_typed(2) [of v]
  by (cases v) (auto simp: list_all_iff intro!: values_encode_encoded)

lemma entry_encodes_typed: "entry_encodes kv bs \<Longrightarrow> entry_typed kv"
  by (auto simp: entry_encodes_def entry_typed_def typed_value_bytes_def dest: value_encodes_typed)

lemma entry_encodes_encoded: "entry_typed kv \<Longrightarrow> entry_encodes kv (encode_entry kv)"
  by (auto simp: entry_encodes_def entry_typed_def typed_value_bytes_def encode_entry_def intro: value_encodes_encoded)

lemma entries_encode_typed: "entries_encode kvs bs \<Longrightarrow> list_all entry_typed kvs"
  by (induction kvs arbitrary: bs) (auto simp: entries_encode_Cons dest: entry_encodes_typed)

lemma entries_encode_encoded: "list_all entry_typed kvs \<Longrightarrow> entries_encode kvs (concat (map encode_entry kvs))"
  by (induction kvs) (auto simp: entries_encode_Cons dest: entry_encodes_encoded)

lemma header_format_typed: "header_format a h \<Longrightarrow> archive_typed (pa_metadata a) (pa_tensors a)"
  by (auto simp: header_format_def tables_encode_def archive_typed_def list_all_iff descriptor_typed_iff
      dest!: entries_encode_typed)

lemma header_format_encoded:
  assumes "archive_typed kvs ds"
  shows "header_format (archive_of (length (encode_header kvs ds)) kvs ds) (encode_header kvs ds)"
  using assms entries_encode_encoded [of kvs]
  by (auto simp: header_format_def archive_of_def archive_typed_def encode_header_def tables_encode_def
      list_all_iff descriptor_typed_iff)

subsection \<open>Opening\<close>

lemma reader_open_iff:
  assumes "length bs < 2 ^ 61"
  shows "reader_open bs = Ok r \<longleftrightarrow> (\<exists>a. gguf_parse bs = Ok a \<and> layout_ok a (length bs) \<and> r = \<lparr>re_mmap = bs, re_parsed = a\<rparr>)"
proof -
  have "validate_tensor_extents a (length bs) = Ok u \<longleftrightarrow> layout_ok a (length bs)" if "gguf_parse bs = Ok a" for a u
    using assms by (intro validate_layout parsed_shapes [OF _ that]) simp_all
  then show ?thesis by (auto simp: reader_open_def)
qed

definition tensor_slice :: "bytes \<Rightarrow> parsed_archive \<Rightarrow> tensor_descriptor \<Rightarrow> bytes" where
  "tensor_slice bs a d = take (tensor_size d) (drop (pa_data_region_start a + td_data_offset d) bs)"

lemma layout_slice:
  assumes small: "length bs < 2 ^ 61" and parsed: "gguf_parse bs = Ok a" and layout: "layout_ok a (length bs)"
    and d: "d \<in> set (pa_tensors a)"
  shows "extent_for a d (length bs) = Ok (extent_of a d)"
    and "slice_get bs (te_start (extent_of a d)) (te_end (extent_of a d)) = Some (tensor_slice bs a d)"
    and "length (tensor_slice bs a d) = tensor_size d"
proof -
  have placed: "placed a (length bs) d" using layout d by (simp add: layout_ok_def list_all_iff)
  have shape: "shape_ok d" using parsed_shapes [OF _ parsed] small d by (simp add: list_all_iff)
  show "extent_for a d (length bs) = Ok (extent_of a d)"
    using placed extent_for_Ok [OF shape small] by simp
  show "slice_get bs (te_start (extent_of a d)) (te_end (extent_of a d)) = Some (tensor_slice bs a d)"
    using placed by (simp add: placed_def slice_get_def extent_of_def tensor_slice_def)
  show "length (tensor_slice bs a d) = tensor_size d"
    using placed by (auto simp: placed_def extent_of_def tensor_slice_def)
qed

lemma reader_get_Ok:
  assumes small: "length bs < 2 ^ 61" and r: "reader_open bs = Ok r"
  shows "reader_get r stat name = Ok v \<longleftrightarrow> stat = Some (length bs) \<and>
    (\<exists>d t. d \<in> set (pa_tensors (re_parsed r)) \<and> td_name d = name \<and> to_taxis_dtype (td_ggml_type d) = Ok t \<and>
       v = \<lparr>tv_name = name, tv_dtype = t, tv_shape = td_dims d, tv_bytes = tensor_slice bs (re_parsed r) d\<rparr>)"
proof -
  obtain a where a: "gguf_parse bs = Ok a" "layout_ok a (length bs)" and r: "r = \<lparr>re_mmap = bs, re_parsed = a\<rparr>"
    using reader_open_iff [OF small] assms(2) by blast
  obtain h where h: "header_format a h" using a(1) small by (auto simp: gguf_parse_Ok_iff)
  have stale: "check_file_not_stale r stat = Ok n \<longleftrightarrow> stat = Some (length bs) \<and> n = length bs" for n
    by (auto simp: check_file_not_stale_def check_open_file_len_def r)
  note slice = layout_slice [OF small a]
  show ?thesis
    unfolding r
    by (auto simp: reader_get_def stale [unfolded r] descriptor_by_name_Ok(1) [OF h] byte_range_for_def slice; blast)
qed

fun dtype_bytes :: "taxis_dtype \<Rightarrow> nat" where
  "dtype_bytes TaxisF32 = 4" | "dtype_bytes TaxisF16 = 2" | "dtype_bytes TaxisBF16 = 2"
| "dtype_bytes TaxisI32 = 4" | "dtype_bytes TaxisI8 = 1"

lemma dtype_size: "to_taxis_dtype t = Ok u \<Longrightarrow> block_layout t = None \<and> size_in_bits t = Some (8 * dtype_bytes u)"
  by (cases t) auto

lemma served_size: "to_taxis_dtype (td_ggml_type d) = Ok u \<Longrightarrow> tensor_size d = prod_list (td_dims d) * dtype_bytes u"
  using dtype_size [of "td_ggml_type d" u] by (simp add: tensor_size_def tensor_bytes_def tensor_elements_def)

lemma load_Ok:
  assumes exact: "\<And>n bs. stream n = Some bs \<Longrightarrow> length bs = n" and small: "limit < 2 ^ 61"
  shows "load_artifact sha opened stream granted expected limit = Ok v \<longleftrightarrow>
    (\<exists>n backing a. opened = Some (True, n) \<and> granted \<and> n \<le> limit \<and> stream n = Some backing \<and> sha backing = expected \<and>
       gguf_parse backing = Ok a \<and> layout_ok a n \<and>
       v = \<lparr>va_backing = backing, va_observation = \<lparr>oa_inspection = inspection_of a n (Sha256 expected), oa_parsed = a\<rparr>\<rparr>)"
proof -
  have V: "validate_tensor_extents a n = Ok u \<longleftrightarrow> layout_ok a n"
    and I: "layout_ok a n \<Longrightarrow> inspection a n (Sha256 expected) = Ok (inspection_of a n (Sha256 expected))"
    if "stream n = Some backing" "gguf_parse backing = Ok a" "n \<le> limit" for n backing a u
  proof -
    have "length backing < 2 ^ 63" "n < 2 ^ 61" using exact [OF that(1)] that(3) small by simp_all
    then show "validate_tensor_extents a n = Ok u \<longleftrightarrow> layout_ok a n"
      and "layout_ok a n \<Longrightarrow> inspection a n (Sha256 expected) = Ok (inspection_of a n (Sha256 expected))"
      using validate_layout inspection_validated parsed_shapes [OF _ that(2)] by blast+
  qed
  have "load_artifact sha opened stream granted expected limit = Ok v \<longleftrightarrow>
      (\<exists>n backing a i. opened = Some (True, n) \<and> granted \<and> n \<le> limit \<and> stream n = Some backing \<and> sha backing = expected \<and>
         gguf_parse backing = Ok a \<and> validate_tensor_extents a n = Ok () \<and> inspection a n (Sha256 expected) = Ok i \<and>
         v = \<lparr>va_backing = backing, va_observation = \<lparr>oa_inspection = i, oa_parsed = a\<rparr>\<rparr>)"
    unfolding load_artifact_def open_regular_file_def read_backing_def
    by (cases opened) (auto simp: Let_def)
  also have "\<dots> \<longleftrightarrow> (\<exists>n backing a. opened = Some (True, n) \<and> granted \<and> n \<le> limit \<and> stream n = Some backing \<and>
      sha backing = expected \<and> gguf_parse backing = Ok a \<and> layout_ok a n \<and>
      v = \<lparr>va_backing = backing, va_observation = \<lparr>oa_inspection = inspection_of a n (Sha256 expected), oa_parsed = a\<rparr>\<rparr>)"
    using V I by (intro iff_exI conj_cong refl) fastforce+
  finally show ?thesis .
qed

subsection \<open>A sample file\<close>

definition sample_metadata :: "(bytes \<times> meta_value) list" where
  "sample_metadata = [(bytes_of ''general.alignment'', MetaU32 32)]"

definition sample_tensors :: "tensor_descriptor list" where
  "sample_tensors = [\<lparr>td_name = bytes_of ''w'', td_dims = [4], td_ggml_type = F32, td_data_offset = 0\<rparr>,
     \<lparr>td_name = bytes_of ''b'', td_dims = [2, 3], td_ggml_type = F16, td_data_offset = 32\<rparr>]"

definition sample_header :: bytes where
  "sample_header = encode_header sample_metadata sample_tensors"

definition sample_file :: bytes where
  "sample_file = sample_header @ replicate 29 0 @ replicate 44 7"

definition sample_parsed :: parsed_archive where
  "sample_parsed = archive_of 131 sample_metadata sample_tensors"

lemma sample_alignment: "declared_alignment sample_metadata = 32"
  by (simp add: declared_alignment_def sample_metadata_def)

lemma power_of_two_32: "is_power_of_two 32"
  by (auto simp: is_power_of_two_def intro!: image_eqI [of _ _ 5])

lemma ascii_valid: "list_all (\<lambda>b. unat b < 128) bs \<Longrightarrow> utf8_valid bs"
  by (induction bs) (simp_all add: utf8_valid.simps)

lemma sample_typed: "archive_typed sample_metadata sample_tensors"
proof -
  have "list_all entry_typed sample_metadata" "list_all descriptor_typed sample_tensors"
    by (simp_all add: sample_metadata_def sample_tensors_def entry_typed_def descriptor_typed_def string_ok_def
        ascii_valid bytes_of_def gguf_limits)
  moreover have "header_ok sample_metadata sample_tensors" "distinct (map td_name sample_tensors)"
    by (simp_all add: header_ok_def table_strings_def table_elements_def entry_strings_def sample_metadata_def
        sample_tensors_def gguf_limits bytes_of_def)
  ultimately show ?thesis
    by (simp add: archive_typed_def sample_alignment power_of_two_32, simp add: sample_metadata_def)
qed

lemma sample_lengths: "length sample_header = 131" "length sample_file = 204"
proof -
  show "length sample_header = 131"
    by (simp add: sample_header_def encode_header_def sample_metadata_def sample_tensors_def encode_entry_def
        descriptor_bytes_def string_bytes_def bytes_of_def)
  then show "length sample_file = 204" by (simp add: sample_file_def)
qed

lemma sample_layout: "layout_ok sample_parsed 204"
  by (simp add: layout_ok_def sample_parsed_def archive_of_def sample_alignment sample_tensors_def placed_def apart_def
      extent_of_def tensor_size_def tensor_bytes_def tensor_elements_def)

lemma parse_encoded:
  assumes "archive_typed kvs ds" and "length (encode_header kvs ds @ rest) < 2 ^ 63"
  shows "gguf_parse (encode_header kvs ds @ rest) = Ok (archive_of (length (encode_header kvs ds)) kvs ds)"
  using header_format_encoded [OF assms(1)] by (auto simp: gguf_parse_Ok_iff [OF assms(2)])

lemma sample_parse: "gguf_parse sample_file = Ok sample_parsed"
  using parse_encoded [OF sample_typed, of "replicate 29 0 @ replicate 44 7"] sample_lengths(2)
  by (simp add: sample_file_def sample_parsed_def sample_lengths(1) flip: sample_header_def)

text \<open>A world that serves the sample file three bytes at a time after one interruption.\<close>

definition sample_ops :: "nat file_ops" where
  "sample_ops = \<lparr>read_at = (\<lambda>offset n w. if w = 0 then (Interrupted, 1) else (Got (take (min n 3) (drop offset sample_file)), w)),
     stat_len = (\<lambda>w. (Some 204, w)), can_reserve = (\<lambda>n w. True)\<rparr>"

lemma sample_steady: "steady sample_ops sample_file (\<lambda>w. True) (\<lambda>w. if w = 0 then 1 else 0)"
proof -
  have "prefix (take (min n 3) xs) (take n xs)" for n and xs :: bytes
  proof -
    have "take (min n 3) xs = take 3 (take n xs)" by (simp add: min.commute)
    then show ?thesis using take_is_prefix [of 3 "take n xs"] by simp
  qed
  then show ?thesis
    by (simp add: steady_def sample_ops_def sample_lengths)
qed

lemma sample_reads_within: "reads_within sample_ops"
  by (auto simp: reads_within_def sample_ops_def split: if_splits)

definition sample_reader :: gguf_reader where
  "sample_reader = \<lparr>re_mmap = sample_file, re_parsed = sample_parsed\<rparr>"

lemma sample_open: "reader_open sample_file = Ok sample_reader"
  by (simp add: reader_open_iff sample_lengths sample_parse sample_layout sample_reader_def)

subsection \<open>Properties\<close>

text \<open>C9: the parser returns an archive exactly when the bytes begin with a header of that archive that
  is within every resource limit; what follows the header does not matter.\<close>

theorem gguf_parse_iff:
  "length bs < 2 ^ 63 \<Longrightarrow> gguf_parse bs = Ok a \<longleftrightarrow> (\<exists>h. header_format a h \<and> prefix h bs)"
  by (rule gguf_parse_Ok_iff)

theorem gguf_parse_iff_witness: "\<exists>h. header_format sample_parsed h \<and> prefix h sample_file"
  using gguf_parse_iff [of sample_file sample_parsed] sample_parse sample_lengths by simp

text \<open>Every well-typed archive can be written and read back: the parser returns the metadata and the
  tensor table the header was encoded from, whatever follows it in the file.\<close>

theorem gguf_header_round_trip:
  "archive_typed kvs ds \<Longrightarrow> length (encode_header kvs ds @ rest) < 2 ^ 63 \<Longrightarrow>
     gguf_parse (encode_header kvs ds @ rest) = Ok (archive_of (length (encode_header kvs ds)) kvs ds)"
  by (rule parse_encoded)

theorem gguf_header_round_trip_witness:
  "gguf_parse (encode_header sample_metadata sample_tensors @ [1, 2]) = Ok sample_parsed"
  using gguf_header_round_trip [OF sample_typed, of "[1, 2]"] sample_lengths(1)
  by (simp add: sample_parsed_def sample_header_def)

text \<open>C35: whatever the bytes, what the parser returns is well typed: keys and names are valid UTF-8 within
  their limits and unique, arrays hold scalars of the type they declare, every tensor has one to four
  non-zero dimensions, the alignment is a power of two, and the parser never panics.\<close>

theorem gguf_parse_well_typed:
  assumes "length bs < 2 ^ 63"
  shows "gguf_parse bs \<noteq> Panic \<and>
    (gguf_parse bs = Ok a \<longrightarrow> archive_typed (pa_metadata a) (pa_tensors a) \<and> is_power_of_two (pa_alignment a) \<and>
       pa_data_region_start a mod pa_alignment a = 0)"
proof -
  have "archive_typed (pa_metadata a) (pa_tensors a) \<and> is_power_of_two (pa_alignment a) \<and>
      pa_data_region_start a mod pa_alignment a = 0" if parsed: "gguf_parse bs = Ok a"
  proof -
    obtain h where "header_format a h" using parsed assms by (auto simp: gguf_parse_Ok_iff)
    then show ?thesis using header_format_typed [of a h] by (simp add: header_format_def archive_typed_def)
  qed
  then show ?thesis using gguf_parse_not_Panic [OF assms] by blast
qed

theorem gguf_parse_well_typed_witness: "archive_typed (pa_metadata sample_parsed) (pa_tensors sample_parsed)"
  using gguf_parse_well_typed [of sample_file sample_parsed] sample_parse sample_lengths by simp

text \<open>The bounded prefix that an observation reads is long enough for every header the parser accepts:
  parsing that prefix gives the archive that parsing the whole file gives.\<close>

theorem header_prefix_suffices:
  assumes "maximum_header_snapshot_bytes = Ok n" and "length bs < 2 ^ 63"
  shows "gguf_parse (take n bs) = Ok a \<longleftrightarrow> gguf_parse bs = Ok a"
  using assms parse_prefix by (simp add: maximum_header_value)

theorem header_prefix_suffices_witness: "gguf_parse (take 83108888 sample_file) = Ok sample_parsed"
  using header_prefix_suffices [OF maximum_header_value, of sample_file sample_parsed] sample_parse sample_lengths by simp

text \<open>A file is opened exactly when its header parses and its tensors are laid out soundly: each is
  aligned, has a whole number of blocks and lies in the file, and no two overlap. The receipt of an
  opened file always exists; its census is the exact sum over the tensors of each type.\<close>

theorem reader_open_and_inspect:
  assumes "length bs < 2 ^ 61"
  shows "(reader_open bs = Ok r \<longleftrightarrow>
      (\<exists>a. gguf_parse bs = Ok a \<and> layout_ok a (length bs) \<and> r = \<lparr>re_mmap = bs, re_parsed = a\<rparr>)) \<and>
    (reader_open bs = Ok r \<longrightarrow>
      reader_inspect r (Some (length bs)) = Ok (inspection_of (re_parsed r) (length bs) NotComputed))"
proof -
  have "reader_inspect r (Some (length bs)) = Ok (inspection_of (re_parsed r) (length bs) NotComputed)"
    if opened: "reader_open bs = Ok r"
  proof -
    obtain a where a: "gguf_parse bs = Ok a" "layout_ok a (length bs)" "r = \<lparr>re_mmap = bs, re_parsed = a\<rparr>"
      using opened reader_open_iff [OF assms] by blast
    then have "inspection a (length bs) NotComputed = Ok (inspection_of a (length bs) NotComputed)"
      using assms by (intro inspection_validated parsed_shapes [of bs]) simp_all
    then show ?thesis using a(3) by (simp add: reader_inspect_def check_file_not_stale_def check_open_file_len_def require_def)
  qed
  then show ?thesis using reader_open_iff [OF assms] by blast
qed

theorem reader_open_and_inspect_witness:
  "reader_inspect sample_reader (Some 204) = Ok (inspection_of sample_parsed 204 NotComputed)"
  using reader_open_and_inspect [of sample_file sample_reader] sample_open sample_lengths
  by (simp add: sample_reader_def)

text \<open>An opened reader serves a tensor by name exactly when the file still has its length, the name
  occurs and the type is one it can decode; the view then holds that tensor's own bytes of the file,
  as many as its shape and type need.\<close>

theorem reader_serves_tensors:
  assumes "length bs < 2 ^ 61" and "reader_open bs = Ok r"
  shows "(reader_get r stat name = Ok v \<longleftrightarrow> stat = Some (length bs) \<and>
      (\<exists>d t. d \<in> set (pa_tensors (re_parsed r)) \<and> td_name d = name \<and> to_taxis_dtype (td_ggml_type d) = Ok t \<and>
         v = \<lparr>tv_name = name, tv_dtype = t, tv_shape = td_dims d, tv_bytes = tensor_slice bs (re_parsed r) d\<rparr>)) \<and>
    (reader_get r stat name = Ok v \<longrightarrow> length (tv_bytes v) = prod_list (tv_shape v) * dtype_bytes (tv_dtype v))"
proof -
  obtain a where a: "gguf_parse bs = Ok a" "layout_ok a (length bs)" "r = \<lparr>re_mmap = bs, re_parsed = a\<rparr>"
    using assms reader_open_iff by blast
  have "length (tv_bytes v) = prod_list (tv_shape v) * dtype_bytes (tv_dtype v)" if "reader_get r stat name = Ok v"
    using that layout_slice(3) [OF assms(1) a(1,2)] served_size a(3)
    unfolding reader_get_Ok [OF assms] by auto
  then show ?thesis using reader_get_Ok [OF assms] by blast
qed

theorem reader_serves_tensors_witness:
  "reader_get sample_reader (Some 204) (bytes_of ''b'') =
     Ok \<lparr>tv_name = bytes_of ''b'', tv_dtype = TaxisF16, tv_shape = [2, 3], tv_bytes = replicate 12 7\<rparr>"
proof -
  let ?d = "\<lparr>td_name = bytes_of ''b'', td_dims = [2, 3], td_ggml_type = F16, td_data_offset = 32\<rparr>"
  have "tensor_slice sample_file sample_parsed ?d = replicate 12 7"
    by (simp add: tensor_slice_def sample_file_def sample_lengths sample_parsed_def archive_of_def sample_alignment
        tensor_size_def tensor_bytes_def tensor_elements_def)
  moreover have "?d \<in> set (pa_tensors sample_parsed)"
    by (simp add: sample_parsed_def archive_of_def sample_tensors_def)
  ultimately show ?thesis
    using reader_serves_tensors [OF _ sample_open, of "Some 204" "bytes_of ''b''"] sample_lengths(2)
    by (force simp: sample_reader_def)
qed

text \<open>C32: whatever a file does while it is observed, the receipt describes one byte stream of the length
  first reported: the descriptors are those parsed from its prefix and the digest is that of the stream.\<close>

theorem observation_describes_one_stream:
  assumes "reads_within F" and "observe_open_file_with_sha256 F sha w = Some (Ok obs, w')"
  shows "\<exists>stream. length stream = in_file_len (oa_inspection obs) \<and>
    gguf_parse (take 83108888 stream) = Ok (oa_parsed obs) \<and>
    validate_tensor_extents (oa_parsed obs) (length stream) = Ok () \<and>
    inspection (oa_parsed obs) (length stream) (Sha256 (sha stream)) = Ok (oa_inspection obs)"
  by (rule observation_of_one_stream [OF assms])

theorem observation_describes_one_stream_witness:
  "\<exists>(obs :: observed_artifact) stream. length stream = in_file_len (oa_inspection obs) \<and>
    gguf_parse (take 83108888 stream) = Ok (oa_parsed obs) \<and>
    validate_tensor_extents (oa_parsed obs) (length stream) = Ok () \<and>
    inspection (oa_parsed obs) (length stream) (Sha256 (rev stream)) = Ok (oa_inspection obs)"
proof -
  obtain obs w' where "observe_open_file_with_sha256 sample_ops rev 0 = Some (Ok obs, w')"
    using steady_observation [OF sample_steady, where w = 0 and sha = rev] sample_lengths sample_parse sample_layout by auto
  from observation_describes_one_stream [OF sample_reads_within this] show ?thesis by blast
qed

text \<open>C12: the observation of a file that holds still, whose size and bytes the system serves without an
  error and for whose header there is memory, returns, however short its reads are and however
  often (finitely) they are interrupted, and succeeds exactly when the whole file is a valid archive,
  with the receipt and the digest of the whole contents.\<close>

theorem observation_returns:
  assumes "steady F contents good patience" and "length contents < 2 ^ 61" and "good w"
  shows "\<exists>r v. observe_open_file_with_sha256 F sha w = Some (r, v) \<and>
    (\<forall>obs. r = Ok obs \<longleftrightarrow> (\<exists>a. gguf_parse contents = Ok a \<and> layout_ok a (length contents) \<and>
       obs = \<lparr>oa_inspection = inspection_of a (length contents) (Sha256 (sha contents)), oa_parsed = a\<rparr>))"
  by (rule steady_observation [OF assms])

theorem observation_returns_witness:
  "\<exists>v. observe_open_file_with_sha256 sample_ops rev 0 =
     Some (Ok \<lparr>oa_inspection = inspection_of sample_parsed 204 (Sha256 (rev sample_file)), oa_parsed = sample_parsed\<rparr>, v)"
  using observation_returns [OF sample_steady, where w = 0 and sha = rev] sample_lengths sample_parse sample_layout by auto

text \<open>C34: an artifact is loaded exactly when the opened descriptor is a regular file within the byte
  limit, its bytes have the expected digest and they are a valid archive; a tensor of it is then the
  slice of those verified bytes that its descriptor names, and a lookup fails only on an unknown name.\<close>

theorem verified_artifact_serves_verified_bytes:
  assumes exact: "\<And>n bs. stream n = Some bs \<Longrightarrow> length bs = n" and small: "limit < 2 ^ 61"
  shows "(load_artifact sha opened stream granted expected limit = Ok v \<longleftrightarrow>
      (\<exists>n backing a. opened = Some (True, n) \<and> granted \<and> n \<le> limit \<and> stream n = Some backing \<and> sha backing = expected \<and>
         gguf_parse backing = Ok a \<and> layout_ok a n \<and>
         v = \<lparr>va_backing = backing, va_observation = \<lparr>oa_inspection = inspection_of a n (Sha256 expected), oa_parsed = a\<rparr>\<rparr>)) \<and>
    (load_artifact sha opened stream granted expected limit = Ok v \<longrightarrow>
      (let ds = pa_tensors (oa_parsed (va_observation v)) in
       artifact_tensor v name =
         (case find (\<lambda>d. td_name d = name) ds of None \<Rightarrow> Err (TensorNotFound name)
          | Some d \<Rightarrow> Ok (d, tensor_slice (va_backing v) (oa_parsed (va_observation v)) d))))"
proof -
  have "artifact_tensor v name = (case find (\<lambda>d. td_name d = name) (pa_tensors (oa_parsed (va_observation v))) of
      None \<Rightarrow> Err (TensorNotFound name) | Some d \<Rightarrow> Ok (d, tensor_slice (va_backing v) (oa_parsed (va_observation v)) d))"
    if loaded: "load_artifact sha opened stream granted expected limit = Ok v"
  proof -
    obtain n backing a where n: "n \<le> limit" "stream n = Some backing" and a: "gguf_parse backing = Ok a" "layout_ok a n"
      and v: "va_backing v = backing" "oa_parsed (va_observation v) = a"
      using loaded load_Ok [OF exact small] by auto
    have len: "length backing = n" "length backing < 2 ^ 61" using exact [OF n(2)] n(1) small by simp_all
    obtain h where h: "header_format a h" using a(1) len by (auto simp: gguf_parse_Ok_iff)
    show ?thesis
    proof (cases "find (\<lambda>d. td_name d = name) (pa_tensors a)")
      case None
      then have "name \<notin> td_name ` set (pa_tensors a)" by (auto simp: find_None_iff)
      then have "descriptor_by_name a name = Err (TensorNotFound name)" by (simp add: descriptor_by_name_Ok(2) [OF h])
      then show ?thesis using None by (simp add: artifact_tensor_def v)
    next
      case (Some d)
      then have d: "d \<in> set (pa_tensors a)" "td_name d = name" by (auto simp: find_Some_iff)
      show ?thesis
        using Some layout_slice [OF len(2) a(1) _ d(1)] a(2) len(1) descriptor_by_name_Ok(1) [OF h, of name d] d
        by (simp add: artifact_tensor_def v)
    qed
  qed
  then show ?thesis using load_Ok [OF exact small] by (simp add: Let_def)
qed

theorem verified_artifact_serves_verified_bytes_witness:
  "\<exists>v. load_artifact rev (Some (True, 204)) (\<lambda>n. if n = 204 then Some sample_file else None) True (rev sample_file) 1000 = Ok v \<and>
     artifact_tensor v (bytes_of ''x'') = Err (TensorNotFound (bytes_of ''x''))"
proof -
  let ?stream = "\<lambda>n :: nat. if n = 204 then Some sample_file else None"
  let ?v = "\<lparr>va_backing = sample_file, va_observation = \<lparr>oa_inspection = inspection_of sample_parsed 204 (Sha256 (rev sample_file)),
      oa_parsed = sample_parsed\<rparr>\<rparr>"
  have "length b = n" if "?stream n = Some b" for n b using that sample_lengths by (auto split: if_splits)
  note T = verified_artifact_serves_verified_bytes [of ?stream 1000, OF this]
  have "load_artifact rev (Some (True, 204)) ?stream True (rev sample_file) 1000 = Ok ?v"
    using T [of rev "Some (True, 204)" True "rev sample_file" ?v] sample_parse sample_layout by simp
  moreover have "artifact_tensor ?v (bytes_of ''x'') = Err (TensorNotFound (bytes_of ''x''))"
    using T [of rev "Some (True, 204)" True "rev sample_file" ?v "bytes_of ''x''"] calculation
    by (simp add: sample_parsed_def archive_of_def sample_tensors_def bytes_of_def)
  ultimately show ?thesis by blast
qed

end
