(* ===== verification/Token_Buffers.thy ===== *)
theory Token_Buffers
  imports Utf8
begin

text \<open>
  The storage of the collective decoder (src/crates/tokenize/src/collective.rs): the plan of what a
  request acquires before its first token is generated, the acquired storage, and the token buffers
  the stages of the decoder read and fill, with the replacement of matches inside one token. A text
  is the list of its UTF-8 bytes and a \<open>char\<close> its encoding. The allocator is a parameter.
\<close>

datatype tokenize_error =
    InvalidByteLimit nat
  | Upstream
  | ByteLimitExceeded nat nat
  | ByteLengthMismatch nat nat
  | DigestMismatch
  | ConfiguredPadding
  | ConfiguredTruncation
  | VocabularyLengthMismatch nat nat
  | ExpectedVocabularyLengthMismatch nat nat
  | VocabularyIdOutOfRange nat
  | VocabularyMismatch u32
  | SpecialTokenIdOutOfRange u32 nat
  | SpecialTokenMissing u32
  | SpecialTokenNotMarked u32
  | SpecialTokenEncodingMismatch u32
  | DecoderProgram
  | DecodePlanOverflow
  | DecodeStorageAllocation
  | DecodeTokenCapacityExceeded nat nat
  | DecodeStorageExhausted nat nat
  | DecodedByteLimitExceeded nat nat
  | DecodeUtf8Invariant

type_synonym 'a tok = "('a, tokenize_error) result"

definition tok_add :: "nat \<Rightarrow> nat \<Rightarrow> nat tok" where
  "tok_add left right = ok_or DecodePlanOverflow (usize_add left right)"

definition tok_mul :: "nat \<Rightarrow> nat \<Rightarrow> nat tok" where
  "tok_mul left right = ok_or DecodePlanOverflow (usize_mul left right)"

definition ensure_storage :: "nat \<Rightarrow> nat \<Rightarrow> unit tok" where
  "ensure_storage needed capacity = require (needed \<le> capacity) (DecodeStorageExhausted needed capacity)"

text \<open>
  \<open>heap n\<close> is the capacity that \<open>try_reserve_exact(n)\<close> leaves, if the allocator grants it.
\<close>

definition reserved :: "(nat \<Rightarrow> nat option) \<Rightarrow> nat \<Rightarrow> nat tok" where
  "reserved heap capacity = ok_or DecodeStorageAllocation (heap capacity)"

lemma tok_add_Ok [simp]: "tok_add a b = Ok c \<longleftrightarrow> c = a + b \<and> a + b < 2 ^ 64"
  by (auto simp: tok_add_def usize_add_def)

lemma tok_mul_Ok [simp]: "tok_mul a b = Ok c \<longleftrightarrow> c = a * b \<and> a * b < 2 ^ 64"
  by (auto simp: tok_mul_def usize_mul_def)

lemma ensure_storage_Ok [simp]: "ensure_storage needed capacity = Ok u \<longleftrightarrow> needed \<le> capacity"
  by (simp add: ensure_storage_def)

subsection \<open>The storage plan\<close>

record decode_storage_plan =
  dp_token_capacity :: nat
  dp_output_capacity :: nat
  dp_arena_capacity :: nat
  dp_span_capacity :: nat
  dp_raw_capacity :: nat
  dp_maximum_decoded_bytes :: nat
  dp_requested_retained_bytes :: nat
  dp_requested_scratch_bytes :: nat

definition make_storage_plan ::
  "nat \<Rightarrow> nat \<Rightarrow> nat \<Rightarrow> nat \<Rightarrow> nat \<Rightarrow> nat \<Rightarrow> decode_storage_plan tok" where
  "make_storage_plan token_capacity output_capacity arena_capacity span_capacity raw_capacity maximum_decoded_bytes =
     and_then (tok_mul token_capacity 4) (\<lambda>identifier_bytes.
     and_then (tok_add output_capacity identifier_bytes) (\<lambda>retained.
     and_then (tok_mul arena_capacity 2) (\<lambda>arena_bytes.
     and_then (tok_mul span_capacity 16) (\<lambda>span_units.
     and_then (tok_mul span_units 2) (\<lambda>span_bytes.
     and_then (tok_add arena_bytes span_bytes) (\<lambda>transform.
     and_then (tok_add transform raw_capacity) (\<lambda>scratch.
       Ok \<lparr>dp_token_capacity = token_capacity, dp_output_capacity = output_capacity,
           dp_arena_capacity = arena_capacity, dp_span_capacity = span_capacity, dp_raw_capacity = raw_capacity,
           dp_maximum_decoded_bytes = maximum_decoded_bytes, dp_requested_retained_bytes = retained,
           dp_requested_scratch_bytes = scratch\<rparr>)))))))"

record token_span =
  ts_start :: nat
  ts_end :: nat

record token_buffer =
  tb_bytes :: bytes
  tb_spans :: "token_span list"
  tb_byte_limit :: nat
  tb_span_limit :: nat
  tb_byte_capacity :: nat
  tb_span_capacity :: nat

definition token_buffer_acquire :: "(nat \<Rightarrow> nat option) \<Rightarrow> nat \<Rightarrow> nat \<Rightarrow> token_buffer tok" where
  "token_buffer_acquire heap byte_limit span_limit =
     and_then (reserved heap byte_limit) (\<lambda>bytes_cap.
     and_then (reserved heap span_limit) (\<lambda>spans_cap.
       Ok \<lparr>tb_bytes = [], tb_spans = [], tb_byte_limit = byte_limit, tb_span_limit = span_limit,
           tb_byte_capacity = bytes_cap, tb_span_capacity = spans_cap\<rparr>))"

record decode_storage =
  ds_token_limit :: nat
  ds_output_limit :: nat
  ds_raw_limit :: nat
  ds_token_ids :: "u32 list"
  ds_token_ids_capacity :: nat
  ds_output_capacity :: nat
  ds_first :: token_buffer
  ds_second :: token_buffer
  ds_raw_capacity :: nat

definition storage_acquire :: "(nat \<Rightarrow> nat option) \<Rightarrow> decode_storage_plan \<Rightarrow> decode_storage tok" where
  "storage_acquire heap p =
     and_then (reserved heap (dp_token_capacity p)) (\<lambda>ids_cap.
     and_then (reserved heap (dp_output_capacity p)) (\<lambda>output_cap.
     and_then (token_buffer_acquire heap (dp_arena_capacity p) (dp_span_capacity p)) (\<lambda>first.
     and_then (token_buffer_acquire heap (dp_arena_capacity p) (dp_span_capacity p)) (\<lambda>second.
     and_then (reserved heap (dp_raw_capacity p)) (\<lambda>raw_cap.
       Ok \<lparr>ds_token_limit = dp_token_capacity p, ds_output_limit = dp_output_capacity p,
           ds_raw_limit = dp_raw_capacity p, ds_token_ids = [], ds_token_ids_capacity = ids_cap,
           ds_output_capacity = output_cap, ds_first = first, ds_second = second, ds_raw_capacity = raw_cap\<rparr>)))))"

definition push_token_id :: "u32 \<Rightarrow> decode_storage \<Rightarrow> unit tok \<times> decode_storage" where
  "push_token_id token_id s =
     attempt (tok_add (length (ds_token_ids s)) 1) s (\<lambda>actual.
     attempt (require (actual \<le> ds_token_limit s \<and> actual \<le> ds_token_ids_capacity s)
       (DecodeTokenCapacityExceeded actual (ds_token_limit s))) s (\<lambda>_.
       (Ok (), s\<lparr>ds_token_ids := ds_token_ids s @ [token_id]\<rparr>)))"

subsection \<open>Text ranges\<close>

text \<open>\<open>text.get(start..end)\<close> on a \<open>str\<close> refuses offsets that are not character boundaries.\<close>

definition text_range :: "bytes \<Rightarrow> nat \<Rightarrow> nat \<Rightarrow> bytes tok" where
  "text_range text start end_of =
     (if start \<le> end_of \<and> end_of \<le> length text \<and> char_boundary text start \<and> char_boundary text end_of
      then Ok (take (end_of - start) (drop start text))
      else Err (if utf8_valid text then DecoderProgram else DecodeUtf8Invariant))"

definition span_text :: "bytes \<Rightarrow> token_span \<Rightarrow> bytes tok" where
  "span_text bs span =
     and_then (if ts_start span \<le> ts_end span \<and> ts_end span \<le> length bs
         then Ok (take (ts_end span - ts_start span) (drop (ts_start span) bs))
         else Err (if utf8_valid bs then DecoderProgram else DecodeUtf8Invariant)) (\<lambda>selected.
       and_then (require (utf8_valid selected) DecodeUtf8Invariant) (\<lambda>_. Ok selected))"

subsection \<open>Token buffers\<close>

definition buffer_clear :: "token_buffer \<Rightarrow> token_buffer" where
  "buffer_clear b = b\<lparr>tb_bytes := [], tb_spans := []\<rparr>"

definition begin_token :: "token_buffer \<Rightarrow> nat tok" where
  "begin_token b =
     and_then (tok_add (length (tb_spans b)) 1) (\<lambda>needed.
     and_then (ensure_storage needed (min (tb_span_limit b) (tb_span_capacity b))) (\<lambda>_.
       Ok (length (tb_bytes b))))"

definition append_str :: "bytes \<Rightarrow> token_buffer \<Rightarrow> unit tok \<times> token_buffer" where
  "append_str text b =
     attempt (tok_add (length (tb_bytes b)) (length text)) b (\<lambda>needed.
     attempt (ensure_storage needed (min (tb_byte_limit b) (tb_byte_capacity b))) b (\<lambda>_.
       (Ok (), b\<lparr>tb_bytes := tb_bytes b @ text\<rparr>)))"

definition finish_token :: "nat \<Rightarrow> token_buffer \<Rightarrow> unit tok \<times> token_buffer" where
  "finish_token start b =
     attempt (tok_add (length (tb_spans b)) 1) b (\<lambda>needed.
     attempt (ensure_storage needed (min (tb_span_limit b) (tb_span_capacity b))) b (\<lambda>_.
       (Ok (), b\<lparr>tb_spans := tb_spans b @ [\<lparr>ts_start = start, ts_end = length (tb_bytes b)\<rparr>]\<rparr>)))"

definition push_str :: "bytes \<Rightarrow> token_buffer \<Rightarrow> unit tok \<times> token_buffer" where
  "push_str text b =
     attempt (begin_token b) b (\<lambda>start.
     proceed (append_str text b) (\<lambda>_ b. finish_token start b))"

definition buffer_token :: "token_buffer \<Rightarrow> token_span \<Rightarrow> bytes tok" where
  "buffer_token b span = span_text (tb_bytes b) span"

text \<open>\<open>for x in xs { body?; }\<close>\<close>

fun each :: "('x \<Rightarrow> 'b \<Rightarrow> (unit, 'e) result \<times> 'b) \<Rightarrow> 'x list \<Rightarrow> 'b \<Rightarrow> (unit, 'e) result \<times> 'b" where
  "each body [] b = (Ok (), b)"
| "each body (x # xs) b = proceed (body x b) (\<lambda>_ b. each body xs b)"

text \<open>A loop over the tokens of a source buffer.\<close>

definition each_token ::
  "token_buffer \<Rightarrow> (bytes \<Rightarrow> 'b \<Rightarrow> unit tok \<times> 'b) \<Rightarrow> 'b \<Rightarrow> unit tok \<times> 'b" where
  "each_token source body b =
     each (\<lambda>span b. attempt (buffer_token source span) b (\<lambda>token. body token b)) (tb_spans source) b"

definition each_indexed_token ::
  "token_buffer \<Rightarrow> (nat \<Rightarrow> bytes \<Rightarrow> 'b \<Rightarrow> unit tok \<times> 'b) \<Rightarrow> 'b \<Rightarrow> unit tok \<times> 'b" where
  "each_indexed_token source body b =
     each (\<lambda>(index, span) b. attempt (buffer_token source span) b (\<lambda>token. body index token b))
       (enumerate 0 (tb_spans source)) b"

subsection \<open>Replacing\<close>

text \<open>\<open>str::match_indices\<close>: disjoint matches from the left; an empty pattern matches at every boundary.\<close>

function literal_matches :: "bytes \<Rightarrow> nat \<Rightarrow> bytes \<Rightarrow> nat list" where
  "literal_matches pattern pos text =
     (if pattern \<noteq> [] \<and> prefix pattern text
      then pos # literal_matches pattern (pos + length pattern) (drop (length pattern) text)
      else case text of [] \<Rightarrow> [] | b # rest \<Rightarrow> literal_matches pattern (Suc pos) rest)"
  by pat_completeness auto
termination
proof (relation "measure (\<lambda>(pattern, pos, text). length text)")
  fix pattern t :: bytes and pos :: nat
  assume "pattern \<noteq> [] \<and> prefix pattern t"
  then show "((pattern, pos + length pattern, drop (length pattern) t), (pattern, pos, t))
      \<in> measure (\<lambda>(pattern, pos, text). length text)"
    using prefix_length_le [of pattern t] by (cases pattern) auto
qed simp_all

fun boundaries_from :: "nat \<Rightarrow> bytes list \<Rightarrow> nat list" where
  "boundaries_from pos [] = [pos]"
| "boundaries_from pos (c # cs) = pos # boundaries_from (pos + length c) cs"

definition match_indices :: "bytes \<Rightarrow> bytes \<Rightarrow> (nat \<times> nat) list" where
  "match_indices pattern text =
     (if pattern = [] then map (\<lambda>i. (i, i)) (boundaries_from 0 (utf8_chars text))
      else map (\<lambda>i. (i, i + length pattern)) (literal_matches pattern 0 text))"

fun replace_matches ::
  "bytes \<Rightarrow> bytes \<Rightarrow> (nat \<times> nat) list \<Rightarrow> nat \<Rightarrow> token_buffer \<Rightarrow> unit tok \<times> token_buffer" where
  "replace_matches token content [] previous b =
     attempt (text_range token previous (length token)) b (\<lambda>text. append_str text b)"
| "replace_matches token content ((start, end_of) # matches) previous b =
     attempt (text_range token previous start) b (\<lambda>text.
     proceed (append_str text b) (\<lambda>_ b.
     proceed (append_str content b) (\<lambda>_ b.
       replace_matches token content matches end_of b)))"

definition replace_token ::
  "bytes \<Rightarrow> (nat \<times> nat) list \<Rightarrow> bytes \<Rightarrow> token_buffer \<Rightarrow> unit tok \<times> token_buffer" where
  "replace_token token matches content b =
     attempt (begin_token b) b (\<lambda>token_start.
     proceed (replace_matches token content matches 0 b) (\<lambda>_ b. finish_token token_start b))"

definition replace_literal_token :: "bytes \<Rightarrow> bytes \<Rightarrow> bytes \<Rightarrow> token_buffer \<Rightarrow> unit tok \<times> token_buffer" where
  "replace_literal_token token pattern content b = replace_token token (match_indices pattern token) content b"

end
