(* ===== verification/Token_Stages.thy ===== *)
theory Token_Stages
  imports Token_Buffers
begin

text \<open>
  The collective decoder (src/crates/tokenize/src/collective.rs): the compiled vocabulary, the stages
  of the decoder program with the bounds their storage is planned from, what each stage writes, and
  \<open>decode\<close>. The upstream tokenizer, its regular expressions and the allocator are parameters.
\<close>

subsection \<open>The vocabulary\<close>

record vocabulary_entry =
  ve_identifier :: u32
  ve_span :: token_span
  ve_special :: bool

record vocabulary =
  vo_slab :: bytes
  vo_entries :: "vocabulary_entry list"
  vo_max_spelling_bytes :: nat

text \<open>
  What the code asks of \<open>tokenizers::Tokenizer\<close>: the identifiers of \<open>get_vocab(true)\<close>, \<open>id_to_token\<close>,
  and whether a spelling is a special one of the added vocabulary.
\<close>

record upstream =
  up_vocab_ids :: "u32 list"
  up_id_to_token :: "u32 \<Rightarrow> bytes option"
  up_is_special :: "bytes \<Rightarrow> bool"

fun compile_entries ::
  "(nat \<Rightarrow> nat option) \<Rightarrow> upstream \<Rightarrow> u32 list \<Rightarrow> vocabulary \<Rightarrow> vocabulary tok" where
  "compile_entries heap up [] v = Ok v"
| "compile_entries heap up (identifier # ids) v =
     (case up_id_to_token up identifier of
        None \<Rightarrow> compile_entries heap up ids v
      | Some spelling \<Rightarrow>
          and_then (reserved heap (length (vo_slab v) + length spelling)) (\<lambda>_.
          let start = length (vo_slab v);
              slab = vo_slab v @ spelling;
              entry = \<lparr>ve_identifier = identifier, ve_span = \<lparr>ts_start = start, ts_end = length slab\<rparr>,
                ve_special = up_is_special up spelling\<rparr>
          in compile_entries heap up ids
               \<lparr>vo_slab = slab, vo_entries = vo_entries v @ [entry],
                 vo_max_spelling_bytes = max (vo_max_spelling_bytes v) (length spelling)\<rparr>))"

definition vocabulary_compile :: "(nat \<Rightarrow> nat option) \<Rightarrow> upstream \<Rightarrow> vocabulary tok" where
  "vocabulary_compile heap up =
     and_then (reserved heap (length (up_vocab_ids up))) (\<lambda>_.
     let identifiers = remdups_adj (sort (up_vocab_ids up)) in
     and_then (reserved heap (length identifiers)) (\<lambda>_.
       compile_entries heap up identifiers \<lparr>vo_slab = [], vo_entries = [], vo_max_spelling_bytes = 0\<rparr>))"

text \<open>\<open>binary_search_by_key\<close> in the range \<open>lo..hi\<close>.\<close>

function binary_search :: "u32 \<Rightarrow> vocabulary_entry list \<Rightarrow> nat \<Rightarrow> nat \<Rightarrow> nat option" where
  "binary_search key entries lo hi =
     (if hi \<le> lo then None
      else let mid = (lo + hi) div 2; found = ve_identifier (entries ! mid) in
        if found = key then Some mid
        else if found < key then binary_search key entries (mid + 1) hi
        else binary_search key entries lo mid)"
  by pat_completeness auto
termination
  by (relation "measure (\<lambda>(key, entries, lo, hi). hi - lo)") auto

declare binary_search.simps [simp del]

definition seed_identifier :: "vocabulary \<Rightarrow> bool \<Rightarrow> u32 \<Rightarrow> token_buffer \<Rightarrow> unit tok \<times> token_buffer" where
  "seed_identifier v skip_special_tokens identifier target =
     (case binary_search identifier (vo_entries v) 0 (length (vo_entries v)) of
        None \<Rightarrow> (Ok (), target)
      | Some position \<Rightarrow>
          let entry = vo_entries v ! position in
          if skip_special_tokens \<and> ve_special entry then (Ok (), target)
          else attempt (span_text (vo_slab v) (ve_span entry)) target (\<lambda>spelling. push_str spelling target))"

definition vocabulary_seed ::
  "vocabulary \<Rightarrow> u32 list \<Rightarrow> bool \<Rightarrow> token_buffer \<Rightarrow> unit tok \<times> token_buffer" where
  "vocabulary_seed v identifiers skip_special_tokens target =
     each (seed_identifier v skip_special_tokens) identifiers (buffer_clear target)"

subsection \<open>The stages and their bounds\<close>

text \<open>A compiled regular expression is what \<open>find_iter\<close> yields on a text.\<close>

type_synonym regex = "bytes \<Rightarrow> (nat \<times> nat) list"

datatype stage =
    Bpe bytes
  | ByteLevel
  | WordPiecePrefix bytes
  | Metaspace bytes bool
  | CtcDeduplicate
  | FilterEmpty
  | ReplaceLiteral bytes bytes bool
  | ReplaceRegex regex bytes
  | Fuse
  | Strip bytes nat nat
  | ByteFallback

record shape =
  sh_bytes :: nat
  sh_spans :: nat

definition literal_replacement_bound :: "shape \<Rightarrow> bytes \<Rightarrow> bytes \<Rightarrow> nat tok" where
  "literal_replacement_bound input pattern content =
     (if pattern = [] then
        and_then (tok_add (sh_bytes input) (sh_spans input)) (\<lambda>boundaries.
        and_then (tok_mul boundaries (length content)) (\<lambda>inserted.
          tok_add (sh_bytes input) inserted))
      else let expansion = length content - length pattern in
        if expansion = 0 then Ok (sh_bytes input)
        else and_then (tok_mul (sh_bytes input div length pattern) expansion) (\<lambda>expanded.
          tok_add (sh_bytes input) expanded))"

definition regex_replacement_bound :: "shape \<Rightarrow> bytes \<Rightarrow> nat tok" where
  "regex_replacement_bound input content =
     and_then (tok_add (sh_bytes input) (sh_spans input)) (\<lambda>matches.
     and_then (tok_mul matches (length content)) (\<lambda>replacements.
       tok_add (sh_bytes input) replacements))"

definition output_bytes_bound :: "stage \<Rightarrow> shape \<Rightarrow> nat tok" where
  "output_bytes_bound st input =
     (case st of
        Bpe ending \<Rightarrow>
          if ending = [] then and_then (tok_mul (sh_bytes input) 2) (\<lambda>doubled. tok_add doubled (sh_spans input))
          else Ok (sh_bytes input)
      | ByteLevel \<Rightarrow> tok_mul (sh_bytes input) 3
      | WordPiecePrefix _ \<Rightarrow> tok_add (sh_bytes input) (sh_spans input - 1)
      | ReplaceLiteral pattern content _ \<Rightarrow> literal_replacement_bound input pattern content
      | ReplaceRegex _ content \<Rightarrow> regex_replacement_bound input content
      | _ \<Rightarrow> Ok (sh_bytes input))"

definition output_bound :: "stage \<Rightarrow> shape \<Rightarrow> shape tok" where
  "output_bound st input =
     and_then (output_bytes_bound st input) (\<lambda>bytes.
       Ok \<lparr>sh_bytes = bytes, sh_spans = (case st of ByteLevel \<Rightarrow> 1 | Fuse \<Rightarrow> 1 | _ \<Rightarrow> sh_spans input)\<rparr>)"

definition uses_raw_bytes :: "stage \<Rightarrow> bool" where
  "uses_raw_bytes st = (case st of ByteLevel \<Rightarrow> True | ByteFallback \<Rightarrow> True | _ \<Rightarrow> False)"

record decoder =
  cd_vocabulary :: vocabulary
  cd_stages :: "stage list"
  cd_join_with_spaces :: bool

definition final_byte_bound :: "decoder \<Rightarrow> shape \<Rightarrow> nat tok" where
  "final_byte_bound d shape =
     (if cd_join_with_spaces d then tok_add (sh_bytes shape) (sh_spans shape - 1) else Ok (sh_bytes shape))"

record capacities =
  ca_shape :: shape
  ca_arena :: nat
  ca_spans :: nat
  ca_raw :: nat

definition plan_stage :: "stage \<Rightarrow> capacities \<Rightarrow> capacities tok" where
  "plan_stage st c =
     (let raw = (if uses_raw_bytes st then max (ca_raw c) (sh_bytes (ca_shape c)) else ca_raw c) in
      and_then (output_bound st (ca_shape c)) (\<lambda>shape.
        Ok \<lparr>ca_shape = shape, ca_arena = max (ca_arena c) (sh_bytes shape),
            ca_spans = max (ca_spans c) (sh_spans shape), ca_raw = raw\<rparr>))"

fun plan_stages :: "stage list \<Rightarrow> capacities \<Rightarrow> capacities tok" where
  "plan_stages [] c = Ok c"
| "plan_stages (st # stages) c = and_then (plan_stage st c) (plan_stages stages)"

definition storage_plan :: "decoder \<Rightarrow> nat \<Rightarrow> nat \<Rightarrow> decode_storage_plan tok" where
  "storage_plan d token_capacity output_capacity =
     and_then (tok_mul token_capacity (vo_max_spelling_bytes (cd_vocabulary d))) (\<lambda>initial_bytes.
     and_then (plan_stages (cd_stages d)
       \<lparr>ca_shape = \<lparr>sh_bytes = initial_bytes, sh_spans = token_capacity\<rparr>, ca_arena = initial_bytes,
        ca_spans = token_capacity, ca_raw = 0\<rparr>) (\<lambda>c.
     and_then (final_byte_bound d (ca_shape c)) (\<lambda>maximum_decoded_bytes.
       make_storage_plan token_capacity output_capacity (ca_arena c) (ca_spans c) (ca_raw c)
         maximum_decoded_bytes)))"

subsection \<open>What each stage writes\<close>

definition apply_bpe :: "token_buffer \<Rightarrow> token_buffer \<Rightarrow> bytes \<Rightarrow> unit tok \<times> token_buffer" where
  "apply_bpe source target ending =
     (let last_index = length (tb_spans source) - 1 in
      each_indexed_token source
        (\<lambda>index token. replace_literal_token token ending (if index = last_index then [] else [32])) target)"

definition apply_wordpiece :: "token_buffer \<Rightarrow> token_buffer \<Rightarrow> bytes \<Rightarrow> unit tok \<times> token_buffer" where
  "apply_wordpiece source target pre =
     each_indexed_token source
       (\<lambda>index token b.
          if index = 0 then push_str token b
          else if prefix pre token then push_str (drop (length pre) token) b
          else attempt (begin_token b) b (\<lambda>start.
            proceed (append_str [32] b) (\<lambda>_ b.
            proceed (append_str token b) (\<lambda>_ b. finish_token start b)))) target"

definition apply_metaspace :: "token_buffer \<Rightarrow> token_buffer \<Rightarrow> bytes \<Rightarrow> bool \<Rightarrow> unit tok \<times> token_buffer" where
  "apply_metaspace source target replacement trim_first =
     each_indexed_token source
       (\<lambda>index token b.
          attempt (begin_token b) b (\<lambda>start.
          proceed (each (\<lambda>character b.
              if character = replacement then
                if index \<noteq> 0 \<or> \<not> trim_first then append_str [32] b else (Ok (), b)
              else append_str character b) (utf8_chars token) b) (\<lambda>_ b.
            finish_token start b))) target"

fun deduplicate_from ::
  "token_buffer \<Rightarrow> bytes option \<Rightarrow> token_span list \<Rightarrow> token_buffer \<Rightarrow> unit tok \<times> token_buffer" where
  "deduplicate_from source previous [] target = (Ok (), target)"
| "deduplicate_from source previous (span # spans) target =
     attempt (buffer_token source span) target (\<lambda>token.
     proceed (if previous \<noteq> Some token then push_str token target else (Ok (), target)) (\<lambda>_ target.
       deduplicate_from source (Some token) spans target))"

definition apply_deduplicate :: "token_buffer \<Rightarrow> token_buffer \<Rightarrow> unit tok \<times> token_buffer" where
  "apply_deduplicate source target = deduplicate_from source None (tb_spans source) target"

definition apply_filter_empty :: "token_buffer \<Rightarrow> token_buffer \<Rightarrow> unit tok \<times> token_buffer" where
  "apply_filter_empty source target =
     each_token source (\<lambda>token b. if token \<noteq> [] then push_str token b else (Ok (), b)) target"

definition apply_literal_replace ::
  "token_buffer \<Rightarrow> token_buffer \<Rightarrow> bytes \<Rightarrow> bytes \<Rightarrow> bool \<Rightarrow> unit tok \<times> token_buffer" where
  "apply_literal_replace source target pattern content empty_input_matches =
     each_token source
       (\<lambda>token b. if token = [] \<and> \<not> empty_input_matches then push_str [] b
          else replace_literal_token token pattern content b) target"

definition apply_regex_replace ::
  "token_buffer \<Rightarrow> token_buffer \<Rightarrow> regex \<Rightarrow> bytes \<Rightarrow> unit tok \<times> token_buffer" where
  "apply_regex_replace source target find_iter content =
     each_token source
       (\<lambda>token b. if token = [] then push_str [] b else replace_token token (find_iter token) content b) target"

definition apply_fuse :: "token_buffer \<Rightarrow> token_buffer \<Rightarrow> unit tok \<times> token_buffer" where
  "apply_fuse source target =
     attempt (begin_token target) target (\<lambda>start.
     proceed (each_token source append_str target) (\<lambda>_ target. finish_token start target))"

text \<open>\<open>str::char_indices\<close>\<close>

fun char_indices_from :: "nat \<Rightarrow> bytes list \<Rightarrow> (nat \<times> bytes) list" where
  "char_indices_from offset [] = []"
| "char_indices_from offset (c # cs) = (offset, c) # char_indices_from (offset + length c) cs"

definition char_indices :: "bytes \<Rightarrow> (nat \<times> bytes) list" where
  "char_indices token = char_indices_from 0 (utf8_chars token)"

fun strip_start_from :: "bytes \<Rightarrow> nat \<Rightarrow> nat \<Rightarrow> (nat \<times> bytes) list \<Rightarrow> nat \<Rightarrow> nat" where
  "strip_start_from content limit removed [] boundary = boundary"
| "strip_start_from content limit removed ((offset, character) # rest) boundary =
     (if removed = limit \<or> character \<noteq> content then boundary
      else strip_start_from content limit (removed + 1) rest (offset + length character))"

definition strip_start :: "bytes \<Rightarrow> bytes \<Rightarrow> nat \<Rightarrow> nat" where
  "strip_start token content limit = strip_start_from content limit 0 (char_indices token) 0"

fun strip_stop_from :: "bytes \<Rightarrow> nat \<Rightarrow> nat \<Rightarrow> (nat \<times> bytes) list \<Rightarrow> nat \<Rightarrow> nat" where
  "strip_stop_from content limit removed [] boundary = boundary"
| "strip_stop_from content limit removed ((offset, character) # rest) boundary =
     (if removed = limit \<or> character \<noteq> content then boundary
      else strip_stop_from content limit (removed + 1) rest offset)"

definition strip_stop :: "bytes \<Rightarrow> bytes \<Rightarrow> nat \<Rightarrow> nat" where
  "strip_stop token content limit = strip_stop_from content limit 0 (rev (char_indices token)) (length token)"

definition apply_strip ::
  "token_buffer \<Rightarrow> token_buffer \<Rightarrow> bytes \<Rightarrow> nat \<Rightarrow> nat \<Rightarrow> unit tok \<times> token_buffer" where
  "apply_strip source target content start_limit stop_limit =
     each_token source
       (\<lambda>token b.
          let start = strip_start token content start_limit;
              stop = strip_stop token content stop_limit
          in attempt (text_range token (min start stop) stop) b (\<lambda>stripped. push_str stripped b)) target"

subsection \<open>Stages over raw bytes\<close>

text \<open>The raw scratch is only read by the stage that fills it, so it is passed from call to call.\<close>

definition append_raw :: "nat \<Rightarrow> nat \<Rightarrow> bytes \<Rightarrow> bytes \<Rightarrow> bytes tok" where
  "append_raw raw_limit raw_capacity raw bytes =
     and_then (tok_add (length raw) (length bytes)) (\<lambda>needed.
     and_then (ensure_storage needed (min raw_limit raw_capacity)) (\<lambda>_. Ok (raw @ bytes)))"

definition push_raw :: "nat \<Rightarrow> nat \<Rightarrow> bytes \<Rightarrow> u8 \<Rightarrow> bytes tok" where
  "push_raw raw_limit raw_capacity raw byte =
     and_then (tok_add (length raw) 1) (\<lambda>needed.
     and_then (ensure_storage needed (min raw_limit raw_capacity)) (\<lambda>_. Ok (raw @ [byte])))"

definition hex_digit :: "u8 \<Rightarrow> nat option" where
  "hex_digit b =
     (if 48 \<le> unat b \<and> unat b \<le> 57 then Some (unat b - 48)
      else if 65 \<le> unat b \<and> unat b \<le> 70 then Some (unat b - 55)
      else if 97 \<le> unat b \<and> unat b \<le> 102 then Some (unat b - 87)
      else None)"

text \<open>\<open>u8::from_str_radix(_, 16)\<close> on two bytes, which admits a leading plus sign.\<close>

fun two_hex_digits :: "bytes \<Rightarrow> u8 option" where
  "two_hex_digits [high, low] =
     (if high = 43 then map_option of_nat (hex_digit low)
      else case (hex_digit high, hex_digit low) of
        (Some h, Some l) \<Rightarrow> Some (of_nat (16 * h + l))
      | _ \<Rightarrow> None)"
| "two_hex_digits _ = None"

definition fallback_byte :: "bytes \<Rightarrow> u8 option" where
  "fallback_byte token =
     (if length token \<noteq> 6 \<or> take 3 token \<noteq> [60, 48, 120] \<or> last token \<noteq> 62 then None
      else if char_boundary token 3 \<and> char_boundary token 5 then two_hex_digits (take 2 (drop 3 token))
      else None)"

definition flush_fallback :: "bytes \<Rightarrow> token_buffer \<Rightarrow> unit tok \<times> token_buffer" where
  "flush_fallback raw target =
     (if raw = [] then (Ok (), target)
      else if utf8_valid raw then push_str raw target
      else each (\<lambda>_ b. push_str replacement_character b) raw target)"

fun fallback_from ::
  "token_buffer \<Rightarrow> nat \<Rightarrow> nat \<Rightarrow> token_span list \<Rightarrow> bytes \<Rightarrow> token_buffer \<Rightarrow> unit tok \<times> token_buffer" where
  "fallback_from source raw_limit raw_capacity [] raw target = flush_fallback raw target"
| "fallback_from source raw_limit raw_capacity (span # spans) raw target =
     attempt (buffer_token source span) target (\<lambda>token.
       case fallback_byte token of
         Some byte \<Rightarrow>
           attempt (push_raw raw_limit raw_capacity raw byte) target (\<lambda>raw.
             fallback_from source raw_limit raw_capacity spans raw target)
       | None \<Rightarrow>
           proceed (flush_fallback raw target) (\<lambda>_ target.
           proceed (push_str token target) (\<lambda>_ target.
             fallback_from source raw_limit raw_capacity spans [] target)))"

definition apply_byte_fallback :: "token_buffer \<Rightarrow> token_buffer \<Rightarrow> nat \<Rightarrow> nat \<Rightarrow> unit tok \<times> token_buffer" where
  "apply_byte_fallback source target raw_limit raw_capacity =
     fallback_from source raw_limit raw_capacity (tb_spans source) [] target"

text \<open>\<open>u32::from(char)\<close> on the encoding of a character\<close>

fun codepoint :: "bytes \<Rightarrow> nat" where
  "codepoint [a] = unat a"
| "codepoint [a, b] = (unat a mod 32) * 64 + unat b mod 64"
| "codepoint [a, b, c] = (unat a mod 16) * 4096 + (unat b mod 64) * 64 + unat c mod 64"
| "codepoint [a, b, c, d] =
     (unat a mod 8) * 262144 + (unat b mod 64) * 4096 + (unat c mod 64) * 64 + unat d mod 64"
| "codepoint _ = 0"

definition byte_level_byte :: "bytes \<Rightarrow> u8 option" where
  "byte_level_byte character =
     (let c = codepoint character in
      if 33 \<le> c \<and> c \<le> 126 \<or> 161 \<le> c \<and> c \<le> 172 \<or> 174 \<le> c \<and> c \<le> 255 then Some (of_nat c)
      else if 256 \<le> c \<and> c \<le> 288 then Some (of_nat (c - 256))
      else if 289 \<le> c \<and> c \<le> 322 then Some (of_nat (c - 162))
      else if c = 323 then Some 173
      else None)"

fun push_byte_level :: "nat \<Rightarrow> nat \<Rightarrow> bytes \<Rightarrow> bytes list \<Rightarrow> bytes tok" where
  "push_byte_level raw_limit raw_capacity raw [] = Ok raw"
| "push_byte_level raw_limit raw_capacity raw (character # characters) =
     and_then (ok_or DecoderProgram (byte_level_byte character)) (\<lambda>byte.
     and_then (push_raw raw_limit raw_capacity raw byte) (\<lambda>raw.
       push_byte_level raw_limit raw_capacity raw characters))"

fun byte_level_raw :: "token_buffer \<Rightarrow> nat \<Rightarrow> nat \<Rightarrow> token_span list \<Rightarrow> bytes \<Rightarrow> bytes tok" where
  "byte_level_raw source raw_limit raw_capacity [] raw = Ok raw"
| "byte_level_raw source raw_limit raw_capacity (span # spans) raw =
     and_then (buffer_token source span) (\<lambda>token.
     and_then (if list_all (\<lambda>character. byte_level_byte character \<noteq> None) (utf8_chars token)
         then push_byte_level raw_limit raw_capacity raw (utf8_chars token)
         else append_raw raw_limit raw_capacity raw token) (\<lambda>raw.
       byte_level_raw source raw_limit raw_capacity spans raw))"

definition remaining_after_error :: "bytes \<Rightarrow> nat \<Rightarrow> nat option \<Rightarrow> bytes tok" where
  "remaining_after_error remaining valid_up_to error_len =
     (case error_len of
        None \<Rightarrow> Ok []
      | Some error_length \<Rightarrow>
          and_then (tok_add valid_up_to error_length) (\<lambda>consumed.
            if consumed \<le> length remaining then Ok (drop consumed remaining)
            else Err (if utf8_valid remaining then DecoderProgram else DecodeUtf8Invariant)))"

function lossy_from :: "bytes \<Rightarrow> token_buffer \<Rightarrow> unit tok \<times> token_buffer" where
  "lossy_from remaining target =
     (if remaining = [] then (Ok (), target)
      else case utf8_fault remaining of
        None \<Rightarrow> append_str remaining target
      | Some (valid_up_to, error_len) \<Rightarrow>
          attempt (require (utf8_valid (take valid_up_to remaining)) DecodeUtf8Invariant) target (\<lambda>_.
          proceed (append_str (take valid_up_to remaining) target) (\<lambda>_ target.
          proceed (append_str replacement_character target) (\<lambda>_ target.
            case remaining_after_error remaining valid_up_to error_len of
              Ok rest \<Rightarrow> lossy_from rest target
            | Err e \<Rightarrow> (Err e, target)
            | Panic \<Rightarrow> (Panic, target)))))"
  by pat_completeness auto
termination
proof (relation "measure (\<lambda>(remaining, target). length remaining)")
  fix remaining :: bytes and target :: token_buffer and fault valid_up_to error_len rest target'
  assume "utf8_fault remaining = Some fault" "(valid_up_to, error_len) = fault"
    and "remaining_after_error remaining valid_up_to error_len = Ok rest" "remaining \<noteq> []"
  then show "((rest, target'), (remaining, target)) \<in> measure (\<lambda>(remaining, target). length remaining)"
    using utf8_fault_Some [of remaining valid_up_to error_len]
    by (auto simp: remaining_after_error_def split: option.splits if_splits)
qed simp

declare lossy_from.simps [simp del]

definition write_lossy_utf8 :: "bytes \<Rightarrow> token_buffer \<Rightarrow> unit tok \<times> token_buffer" where
  "write_lossy_utf8 raw target =
     attempt (begin_token target) target (\<lambda>token_start.
     proceed (lossy_from raw target) (\<lambda>_ target. finish_token token_start target))"

definition apply_byte_level :: "token_buffer \<Rightarrow> token_buffer \<Rightarrow> nat \<Rightarrow> nat \<Rightarrow> unit tok \<times> token_buffer" where
  "apply_byte_level source target raw_limit raw_capacity =
     attempt (byte_level_raw source raw_limit raw_capacity (tb_spans source) []) target (\<lambda>raw.
       write_lossy_utf8 raw target)"

subsection \<open>Decoding\<close>

definition apply_stage ::
  "stage \<Rightarrow> token_buffer \<Rightarrow> token_buffer \<Rightarrow> nat \<Rightarrow> nat \<Rightarrow> unit tok \<times> token_buffer" where
  "apply_stage st source target raw_limit raw_capacity =
     (case st of
        Bpe ending \<Rightarrow> apply_bpe source target ending
      | ByteLevel \<Rightarrow> apply_byte_level source target raw_limit raw_capacity
      | WordPiecePrefix pre \<Rightarrow> apply_wordpiece source target pre
      | Metaspace replacement trim_first \<Rightarrow> apply_metaspace source target replacement trim_first
      | CtcDeduplicate \<Rightarrow> apply_deduplicate source target
      | FilterEmpty \<Rightarrow> apply_filter_empty source target
      | ReplaceLiteral pattern content empty_input_matches \<Rightarrow>
          apply_literal_replace source target pattern content empty_input_matches
      | ReplaceRegex find_iter content \<Rightarrow> apply_regex_replace source target find_iter content
      | Fuse \<Rightarrow> apply_fuse source target
      | Strip content start stop \<Rightarrow> apply_strip source target content start stop
      | ByteFallback \<Rightarrow> apply_byte_fallback source target raw_limit raw_capacity)"

text \<open>The two buffers change places after every stage.\<close>

fun apply_stages ::
  "stage list \<Rightarrow> token_buffer \<Rightarrow> token_buffer \<Rightarrow> nat \<Rightarrow> nat \<Rightarrow> token_buffer tok" where
  "apply_stages [] first second raw_limit raw_capacity = Ok first"
| "apply_stages (st # stages) first second raw_limit raw_capacity =
     (case apply_stage st first (buffer_clear second) raw_limit raw_capacity of
        (Ok _, second) \<Rightarrow> apply_stages stages second first raw_limit raw_capacity
      | (Err e, _) \<Rightarrow> Err e
      | (Panic, _) \<Rightarrow> Panic)"

fun write_tokens :: "token_buffer \<Rightarrow> bool \<Rightarrow> nat \<Rightarrow> token_span list \<Rightarrow> bytes \<Rightarrow> bytes tok" where
  "write_tokens source join_with_spaces position [] output = Ok output"
| "write_tokens source join_with_spaces position (span # spans) output =
     (let output = (if join_with_spaces \<and> position \<noteq> 0 then output @ [32] else output) in
      and_then (buffer_token source span) (\<lambda>token.
        write_tokens source join_with_spaces (position + 1) spans (output @ token)))"

definition write_output :: "token_buffer \<Rightarrow> bool \<Rightarrow> nat \<Rightarrow> nat \<Rightarrow> bytes tok" where
  "write_output source join_with_spaces output_limit output_capacity =
     (let separators = (if join_with_spaces then length (tb_spans source) - 1 else 0) in
      and_then (tok_add (length (tb_bytes source)) separators) (\<lambda>actual.
      and_then (require (actual \<le> output_limit) (DecodedByteLimitExceeded output_limit actual)) (\<lambda>_.
      and_then (ensure_storage actual output_capacity) (\<lambda>_.
        write_tokens source join_with_spaces 0 (tb_spans source) []))))"

definition decode :: "decoder \<Rightarrow> decode_storage \<Rightarrow> bool \<Rightarrow> (bytes \<times> u32 list) tok" where
  "decode d s skip_special_tokens =
     (case vocabulary_seed (cd_vocabulary d) (ds_token_ids s) skip_special_tokens (ds_first s) of
        (Err e, _) \<Rightarrow> Err e
      | (Panic, _) \<Rightarrow> Panic
      | (Ok _, first) \<Rightarrow>
          and_then (apply_stages (cd_stages d) first (ds_second s) (ds_raw_limit s) (ds_raw_capacity s)) (\<lambda>final.
          and_then (write_output final (cd_join_with_spaces d) (ds_output_limit s) (ds_output_capacity s)) (\<lambda>output.
            Ok (output, ds_token_ids s))))"

subsection \<open>Compiling a decoder\<close>

text \<open>
  The decoder configurations of the upstream crate, by the fields the code reads; the boolean of a
  metaspace decoder says that its prepend scheme is \<open>Never\<close>.
\<close>

datatype decoder_config =
    ConfigBpe bytes
  | ConfigByteLevel
  | ConfigWordPiece bytes bool
  | ConfigMetaspace bytes bool
  | ConfigCtc bytes bytes bool
  | ConfigSequence "decoder_config list"
  | ConfigReplaceString bytes bytes
  | ConfigReplaceRegex bytes bytes
  | ConfigFuse
  | ConfigStrip bytes nat nat
  | ConfigByteFallback

definition wordpiece_cleanup :: "(bytes \<times> bytes) list" where
  "wordpiece_cleanup = map (\<lambda>(pattern, content). (bytes_of pattern, bytes_of content))
     [('' .'', ''.''), ('' ?'', ''?''), ('' !'', ''!''), ('' ,'', '',''),
      ('' '' @ [CHR 39] @ '' '', [CHR 39]), ('' n'' @ [CHR 39] @ ''t'', ''n'' @ [CHR 39] @ ''t''),
      ('' '' @ [CHR 39] @ ''m'', [CHR 39] @ ''m''), ('' do not'', '' don'' @ [CHR 39] @ ''t''),
      ('' '' @ [CHR 39] @ ''s'', [CHR 39] @ ''s''), ('' '' @ [CHR 39] @ ''ve'', [CHR 39] @ ''ve'')]"

definition wordpiece_cleanup_last :: "bytes \<times> bytes" where
  "wordpiece_cleanup_last = (bytes_of ('' '' @ [CHR 39] @ ''re''), bytes_of ([CHR 39] @ ''re''))"

definition push_stage :: "(nat \<Rightarrow> nat option) \<Rightarrow> stage \<Rightarrow> stage list \<Rightarrow> stage list tok" where
  "push_stage heap st stages = and_then (reserved heap (length stages + 1)) (\<lambda>_. Ok (stages @ [st]))"

definition copy_string :: "(nat \<Rightarrow> nat option) \<Rightarrow> bytes \<Rightarrow> bytes tok" where
  "copy_string heap source = and_then (reserved heap (length source)) (\<lambda>_. Ok source)"

definition push_literal_stage :: "(nat \<Rightarrow> nat option) \<Rightarrow> bytes \<Rightarrow> bytes \<Rightarrow> stage list \<Rightarrow> stage list tok" where
  "push_literal_stage heap pattern content stages =
     and_then (copy_string heap pattern) (\<lambda>pattern.
     and_then (copy_string heap content) (\<lambda>content.
       push_stage heap (ReplaceLiteral pattern content True) stages))"

fun push_literal_stages :: "(nat \<Rightarrow> nat option) \<Rightarrow> (bytes \<times> bytes) list \<Rightarrow> stage list \<Rightarrow> stage list tok" where
  "push_literal_stages heap [] stages = Ok stages"
| "push_literal_stages heap ((pattern, content) # rest) stages =
     and_then (push_literal_stage heap pattern content stages) (push_literal_stages heap rest)"

definition append_cleanup :: "(nat \<Rightarrow> nat option) \<Rightarrow> stage list \<Rightarrow> stage list tok" where
  "append_cleanup heap stages =
     and_then (push_literal_stages heap wordpiece_cleanup stages) (\<lambda>stages.
       push_literal_stage heap (fst wordpiece_cleanup_last) (snd wordpiece_cleanup_last) stages)"

definition append_wordpiece :: "(nat \<Rightarrow> nat option) \<Rightarrow> bytes \<Rightarrow> bool \<Rightarrow> stage list \<Rightarrow> stage list tok" where
  "append_wordpiece heap pre cleanup stages =
     and_then (copy_string heap pre) (\<lambda>pre.
     and_then (push_stage heap (WordPiecePrefix pre) stages) (\<lambda>stages.
       if cleanup then append_cleanup heap stages else Ok stages))"

definition append_ctc ::
  "(nat \<Rightarrow> nat option) \<Rightarrow> bytes \<Rightarrow> bytes \<Rightarrow> bool \<Rightarrow> stage list \<Rightarrow> stage list tok" where
  "append_ctc heap pad_token word_delimiter_token cleanup stages =
     and_then (push_stage heap CtcDeduplicate stages) (\<lambda>stages.
     and_then (push_literal_stage heap pad_token [] stages) (\<lambda>stages.
     and_then (if cleanup
         then and_then (append_cleanup heap stages) (push_literal_stage heap word_delimiter_token [32])
         else Ok stages) (\<lambda>stages.
       push_stage heap FilterEmpty stages)))"

definition append_regex ::
  "(nat \<Rightarrow> nat option) \<Rightarrow> (bytes \<Rightarrow> regex option) \<Rightarrow> bytes \<Rightarrow> bytes \<Rightarrow> stage list \<Rightarrow> stage list tok" where
  "append_regex heap compile_regex source content stages =
     and_then (ok_or DecoderProgram (compile_regex source)) (\<lambda>find_iter.
       push_stage heap (ReplaceRegex find_iter content) stages)"

fun append_decoder ::
    "(nat \<Rightarrow> nat option) \<Rightarrow> (bytes \<Rightarrow> regex option) \<Rightarrow> decoder_config \<Rightarrow> stage list \<Rightarrow> stage list tok"
  and append_sequence ::
    "(nat \<Rightarrow> nat option) \<Rightarrow> (bytes \<Rightarrow> regex option) \<Rightarrow> decoder_config list \<Rightarrow> stage list \<Rightarrow> stage list tok"
where
  "append_decoder heap compile_regex (ConfigBpe ending) stages =
     and_then (copy_string heap ending) (\<lambda>ending. push_stage heap (Bpe ending) stages)"
| "append_decoder heap compile_regex ConfigByteLevel stages = push_stage heap ByteLevel stages"
| "append_decoder heap compile_regex (ConfigWordPiece pre cleanup) stages = append_wordpiece heap pre cleanup stages"
| "append_decoder heap compile_regex (ConfigMetaspace replacement never) stages =
     push_stage heap (Metaspace replacement (\<not> never)) stages"
| "append_decoder heap compile_regex (ConfigCtc pad word_delimiter cleanup) stages =
     append_ctc heap pad word_delimiter cleanup stages"
| "append_decoder heap compile_regex (ConfigSequence nested) stages = append_sequence heap compile_regex nested stages"
| "append_decoder heap compile_regex (ConfigReplaceString pattern content) stages =
     push_stage heap (ReplaceLiteral pattern content False) stages"
| "append_decoder heap compile_regex (ConfigReplaceRegex source content) stages =
     append_regex heap compile_regex source content stages"
| "append_decoder heap compile_regex ConfigFuse stages = push_stage heap Fuse stages"
| "append_decoder heap compile_regex (ConfigStrip content start stop) stages =
     push_stage heap (Strip content start stop) stages"
| "append_decoder heap compile_regex ConfigByteFallback stages = push_stage heap ByteFallback stages"
| "append_sequence heap compile_regex [] stages = Ok stages"
| "append_sequence heap compile_regex (d # ds) stages =
     and_then (append_decoder heap compile_regex d stages) (append_sequence heap compile_regex ds)"

definition decoder_compile ::
  "(nat \<Rightarrow> nat option) \<Rightarrow> (bytes \<Rightarrow> regex option) \<Rightarrow> upstream \<Rightarrow> decoder_config option \<Rightarrow> decoder tok" where
  "decoder_compile heap compile_regex up config =
     and_then (vocabulary_compile heap up) (\<lambda>vocabulary.
     and_then (case config of None \<Rightarrow> Ok [] | Some d \<Rightarrow> append_decoder heap compile_regex d []) (\<lambda>stages.
       Ok \<lparr>cd_vocabulary = vocabulary, cd_stages = stages, cd_join_with_spaces = (config = None)\<rparr>))"

end
