(* ===== verification/Token_Verified.thy ===== *)
theory Token_Verified
  imports Token_Stages
begin

text \<open>
  The tokenizer facade (src/crates/tokenize/src/lib.rs): a tokenizer that is parsed only when its bytes
  match a recorded identity, and the checks that bind it to the vocabulary of a model artifact. The
  digest and the upstream tokenizer are parameters.
\<close>

record tokenizer_identity =
  ti_byte_length :: nat
  ti_digest :: bytes

text \<open>\<open>TokenizerByteLimit::try_new\<close>\<close>

definition byte_limit_try_new :: "nat \<Rightarrow> nat tok" where
  "byte_limit_try_new maximum = (if maximum = 0 then Err (InvalidByteLimit maximum) else Ok maximum)"

text \<open>What the facade asks of a parsed upstream tokenizer, and its compiled collective decoder.\<close>

record tokenizer =
  tk_collective :: decoder
  tk_vocab_size :: nat
  tk_id_to_token :: "u32 \<Rightarrow> bytes option"
  tk_token_to_id :: "bytes \<Rightarrow> u32 option"
  tk_is_special :: "u32 \<Rightarrow> bool"
  tk_encode :: "bytes \<Rightarrow> bool \<Rightarrow> u32 list option"
  tk_padding :: bool
  tk_truncation :: bool

definition encode :: "tokenizer \<Rightarrow> bytes \<Rightarrow> bool \<Rightarrow> u32 list tok" where
  "encode tk text add_special_tokens = ok_or Upstream (tk_encode tk text add_special_tokens)"

record verified_tokenizer =
  vt_tokenizer :: tokenizer
  vt_identity :: tokenizer_identity

text \<open>\<open>VerifiedTokenizer::from_bytes\<close>: length limit, exact length, digest, and only then the parser.\<close>

definition verified_from_bytes ::
  "(bytes \<Rightarrow> bytes) \<Rightarrow> (bytes \<Rightarrow> tokenizer tok) \<Rightarrow> bytes \<Rightarrow> tokenizer_identity \<Rightarrow> nat \<Rightarrow> verified_tokenizer tok" where
  "verified_from_bytes sha256 parse bs expected limit =
     and_then (require (length bs \<le> limit) (ByteLimitExceeded limit (length bs))) (\<lambda>_.
     and_then (require (length bs = ti_byte_length expected) (ByteLengthMismatch (ti_byte_length expected) (length bs))) (\<lambda>_.
     and_then (require (sha256 bs = ti_digest expected) DigestMismatch) (\<lambda>_.
     and_then (parse bs) (\<lambda>tk. Ok \<lparr>vt_tokenizer = tk, vt_identity = expected\<rparr>))))"

definition verify_unpadded_untruncated :: "tokenizer \<Rightarrow> unit tok" where
  "verify_unpadded_untruncated tk =
     and_then (require (\<not> tk_padding tk) ConfiguredPadding) (\<lambda>_.
       require (\<not> tk_truncation tk) ConfiguredTruncation)"

definition vocabulary_id :: "nat \<Rightarrow> u32 tok" where
  "vocabulary_id position = (if position < 2 ^ 32 then Ok (of_nat position) else Err (VocabularyIdOutOfRange position))"

text \<open>The iterator of expected spellings is the list of what it still yields.\<close>

fun verify_spellings :: "tokenizer \<Rightarrow> nat \<Rightarrow> nat \<Rightarrow> nat \<Rightarrow> bytes list \<Rightarrow> bytes list tok" where
  "verify_spellings tk expected_count position 0 expected = Ok expected"
| "verify_spellings tk expected_count position (Suc n) [] =
     Err (ExpectedVocabularyLengthMismatch expected_count position)"
| "verify_spellings tk expected_count position (Suc n) (spelling # expected) =
     and_then (vocabulary_id position) (\<lambda>token_id.
     and_then (require (tk_id_to_token tk token_id = Some spelling \<and> tk_token_to_id tk spelling = Some token_id)
       (VocabularyMismatch token_id)) (\<lambda>_.
       verify_spellings tk expected_count (position + 1) n expected))"

definition verify_exact_vocabulary :: "tokenizer \<Rightarrow> nat \<Rightarrow> bytes list \<Rightarrow> unit tok" where
  "verify_exact_vocabulary tk expected_count expected =
     and_then (require (expected_count = tk_vocab_size tk) (VocabularyLengthMismatch expected_count (tk_vocab_size tk))) (\<lambda>_.
     and_then (verify_spellings tk expected_count 0 expected_count expected) (\<lambda>rest.
       if rest = [] then Ok ()
       else and_then (ok_or (ExpectedVocabularyLengthMismatch expected_count expected_count)
           (usize_add expected_count 1)) (\<lambda>actual.
         Err (ExpectedVocabularyLengthMismatch expected_count actual))))"

definition verify_declared_special_id :: "tokenizer \<Rightarrow> nat \<Rightarrow> u32 \<Rightarrow> unit tok" where
  "verify_declared_special_id tk vocabulary_size token_id =
     and_then (require (unat token_id < vocabulary_size) (SpecialTokenIdOutOfRange token_id vocabulary_size)) (\<lambda>_.
     and_then (ok_or (SpecialTokenMissing token_id) (tk_id_to_token tk token_id)) (\<lambda>spelling.
     and_then (require (tk_is_special tk token_id) (SpecialTokenNotMarked token_id)) (\<lambda>_.
     and_then (encode tk spelling False) (\<lambda>encoded.
       require (encoded = [token_id]) (SpecialTokenEncodingMismatch token_id)))))"

subsection \<open>When the checks pass\<close>

text \<open>The identifier at a position and its spelling name each other.\<close>

definition spelled_at :: "tokenizer \<Rightarrow> nat \<Rightarrow> bytes \<Rightarrow> bool" where
  "spelled_at tk position spelling \<longleftrightarrow>
     tk_id_to_token tk (of_nat position) = Some spelling \<and> tk_token_to_id tk spelling = Some (of_nat position)"

lemma verify_spellings_Ok:
  "verify_spellings tk expected_count position n expected = Ok rest \<longleftrightarrow>
     n \<le> length expected \<and> rest = drop n expected \<and> (n = 0 \<or> position + n \<le> 2 ^ 32) \<and>
     (\<forall>i < n. spelled_at tk (position + i) (expected ! i))"
proof (induction n arbitrary: position expected)
  case (Suc n)
  show ?case
  proof (cases expected)
    case (Cons spelling others)
    have "verify_spellings tk expected_count position (Suc n) expected = Ok rest \<longleftrightarrow>
        position < 2 ^ 32 \<and> spelled_at tk position spelling \<and>
        verify_spellings tk expected_count (Suc position) n others = Ok rest"
      unfolding Cons by (auto simp: vocabulary_id_def spelled_at_def)
    moreover have "(\<forall>i < Suc n. spelled_at tk (position + i) (expected ! i)) \<longleftrightarrow>
        spelled_at tk position spelling \<and> (\<forall>i < n. spelled_at tk (Suc position + i) (others ! i))"
      unfolding Cons by (simp add: All_less_Suc2)
    ultimately show ?thesis using Suc.IH [of "Suc position" others] unfolding Cons by auto
  qed simp
qed auto

lemma verify_exact_vocabulary_Ok:
  "verify_exact_vocabulary tk n expected = Ok () \<longleftrightarrow>
     n = tk_vocab_size tk \<and> length expected = n \<and> n \<le> 2 ^ 32 \<and> (\<forall>i < n. spelled_at tk i (expected ! i))"
  by (auto simp: verify_exact_vocabulary_def verify_spellings_Ok split: if_splits)

lemma verify_declared_special_id_Ok:
  "verify_declared_special_id tk n token_id = Ok () \<longleftrightarrow>
     unat token_id < n \<and> tk_is_special tk token_id \<and>
     (\<exists>spelling. tk_id_to_token tk token_id = Some spelling \<and> tk_encode tk spelling False = Some [token_id])"
  by (auto simp: verify_declared_special_id_def encode_def)

end
