(* ===== verification/Decode_Policy.thy ===== *)
theory Decode_Policy
  imports Float32
begin

text \<open>
  The decode policies (src/crates/decode/src): validation of logits, the logit processors, the
  sampler chain and the greedy choice. A \<open>f32\<close> is its bit pattern; its comparisons are read off the
  bits. The arithmetic of \<open>f32\<close> and \<open>f64\<close> is the parameter \<open>float_ops\<close>.
\<close>

subsection \<open>Errors and validation\<close>

datatype invalid_kind = KindNaN | KindPositiveInfinity | KindTemperatureScaled | KindRepetitionPenalty

datatype decode_error =
    EmptyLogits
  | NonFiniteLogit nat invalid_kind
  | AllLogitsMasked
  | InvalidParameter string
  | TokenOutOfRange u32 nat
  | TokenIndexOutOfRange nat
  | UnsupportedProcessor
  | DecodeAllocation nat

type_synonym 'a dec = "('a, decode_error) result"

fun validate_from :: "nat \<Rightarrow> bool \<Rightarrow> f32 list \<Rightarrow> unit dec" where
  "validate_from position has_candidate [] = require has_candidate AllLogitsMasked"
| "validate_from position has_candidate (logit # logits) =
     (if f32_is_nan logit then Err (NonFiniteLogit position KindNaN)
      else if logit = f32_infinity then Err (NonFiniteLogit position KindPositiveInfinity)
      else validate_from (position + 1) (has_candidate \<or> f32_is_finite logit) logits)"

definition validate_logits :: "f32 list \<Rightarrow> unit dec" where
  "validate_logits logits = (if logits = [] then Err EmptyLogits else validate_from 0 False logits)"

text \<open>\<open>0.0..=1.0\<close> contains what is neither below zero nor above one.\<close>

definition validate_probability :: "string \<Rightarrow> f32 \<Rightarrow> unit dec" where
  "validate_probability name v =
     require (f32_is_finite v \<and> \<not> f32_less v 0 \<and> \<not> f32_less f32_one v) (InvalidParameter name)"

definition validate_positive :: "string \<Rightarrow> f32 \<Rightarrow> unit dec" where
  "validate_positive name v = require (f32_is_finite v \<and> f32_less 0 v) (InvalidParameter name)"

definition token_index :: "nat \<Rightarrow> u32 dec" where
  "token_index position = (if position < 2 ^ 32 then Ok (of_nat position) else Err (TokenIndexOutOfRange position))"

definition validate_token :: "u32 \<Rightarrow> nat \<Rightarrow> nat dec" where
  "validate_token token_id vocabulary =
     and_then (require (unat token_id < vocabulary) (TokenOutOfRange token_id vocabulary)) (\<lambda>_. Ok (unat token_id))"

definition reserve :: "(nat \<Rightarrow> bool) \<Rightarrow> nat \<Rightarrow> unit dec" where
  "reserve heap len = require (heap len) (DecodeAllocation len)"

subsection \<open>The greedy choice\<close>

fun greedy_from :: "nat \<Rightarrow> nat \<Rightarrow> f32 \<Rightarrow> f32 list \<Rightarrow> nat" where
  "greedy_from position best_i best [] = best_i"
| "greedy_from position best_i best (v # logits) =
     (if f32_less best v then greedy_from (position + 1) position v logits
      else greedy_from (position + 1) best_i best logits)"

definition greedy :: "f32 list \<Rightarrow> u32 dec" where
  "greedy logits =
     and_then (validate_logits logits) (\<lambda>_. token_index (greedy_from 0 0 f32_neg_infinity logits))"

subsection \<open>Processors\<close>

text \<open>
  The arithmetic the processors use: \<open>f32\<close> division, multiplication, subtraction and exponential, the
  conversion to \<open>f64\<close>, and \<open>f64\<close> addition, multiplication, division, comparison, subtraction,
  exponential, \<open>total_cmp\<close> and \<open>max\<close>.
\<close>

record 'd float_ops =
  div32 :: "f32 \<Rightarrow> f32 \<Rightarrow> f32"
  mul32 :: "f32 \<Rightarrow> f32 \<Rightarrow> f32"
  sub32 :: "f32 \<Rightarrow> f32 \<Rightarrow> f32"
  exp32 :: "f32 \<Rightarrow> f32"
  of32 :: "f32 \<Rightarrow> 'd"
  zero64 :: 'd
  add64 :: "'d \<Rightarrow> 'd \<Rightarrow> 'd"
  mul64 :: "'d \<Rightarrow> 'd \<Rightarrow> 'd"
  div64 :: "'d \<Rightarrow> 'd \<Rightarrow> 'd"
  max64 :: "'d \<Rightarrow> 'd \<Rightarrow> 'd"
  less64 :: "'d \<Rightarrow> 'd \<Rightarrow> bool"
  le64 :: "'d \<Rightarrow> 'd \<Rightarrow> bool"
  sub64 :: "'d \<Rightarrow> 'd \<Rightarrow> 'd"
  exp64 :: "'d \<Rightarrow> 'd"
  finite64 :: "'d \<Rightarrow> bool"
  total64 :: "'d \<Rightarrow> int"

datatype processor =
    TemperatureScale f32
  | TopK nat
  | TopP f32
  | MinP f32
  | RepetitionPenalty "u32 list" f32
  | TypicalSampling f32

definition temperature_new :: "f32 \<Rightarrow> processor dec" where
  "temperature_new temperature =
     and_then (validate_positive ''temperature'' temperature) (\<lambda>_. Ok (TemperatureScale temperature))"

definition top_k_new :: "nat \<Rightarrow> processor dec" where
  "top_k_new k = and_then (require (k \<noteq> 0) (InvalidParameter ''top_k'')) (\<lambda>_. Ok (TopK k))"

definition top_p_new :: "f32 \<Rightarrow> processor dec" where
  "top_p_new p = and_then (validate_probability ''top_p'' p) (\<lambda>_. Ok (TopP p))"

definition min_p_new :: "f32 \<Rightarrow> processor dec" where
  "min_p_new p = and_then (validate_probability ''min_p'' p) (\<lambda>_. Ok (MinP p))"

definition repetition_new :: "u32 list \<Rightarrow> f32 \<Rightarrow> processor dec" where
  "repetition_new tokens penalty =
     and_then (validate_positive ''repetition_penalty'' penalty) (\<lambda>_. Ok (RepetitionPenalty tokens penalty))"

definition typical_new :: "f32 \<Rightarrow> processor dec" where
  "typical_new p = and_then (validate_probability ''typical_p'' p) (\<lambda>_. Ok (TypicalSampling p))"

fun check_scaled :: "'d float_ops \<Rightarrow> f32 \<Rightarrow> nat \<Rightarrow> f32 list \<Rightarrow> unit dec" where
  "check_scaled ops temperature position [] = Ok ()"
| "check_scaled ops temperature position (logit # logits) =
     (if f32_is_finite logit \<and> \<not> f32_is_finite (div32 ops logit temperature)
      then Err (NonFiniteLogit position KindTemperatureScaled)
      else check_scaled ops temperature (position + 1) logits)"

definition process_temperature :: "'d float_ops \<Rightarrow> f32 \<Rightarrow> f32 list \<Rightarrow> f32 list dec" where
  "process_temperature ops temperature logits =
     and_then (validate_logits logits) (\<lambda>_.
     and_then (check_scaled ops temperature 0 logits) (\<lambda>_.
       Ok (map (\<lambda>logit. div32 ops logit temperature) logits)))"

definition mask_below :: "f32 \<Rightarrow> f32 list \<Rightarrow> f32 list" where
  "mask_below threshold logits = map (\<lambda>logit. if f32_less logit threshold then f32_neg_infinity else logit) logits"

definition process_top_k :: "(nat \<Rightarrow> bool) \<Rightarrow> nat \<Rightarrow> f32 list \<Rightarrow> f32 list dec" where
  "process_top_k heap k logits =
     and_then (validate_logits logits) (\<lambda>_.
       if length logits \<le> k then Ok logits
       else and_then (reserve heap (length logits)) (\<lambda>_.
         let scratch = sort_key (\<lambda>x. - f32_total x) logits
         in Ok (mask_below (scratch ! (k - 1)) logits)))"

definition f32_max :: "f32 \<Rightarrow> f32 \<Rightarrow> f32" where
  "f32_max x y = (if f32_less x y then y else x)"

definition softmax_terms :: "'d float_ops \<Rightarrow> f32 list \<Rightarrow> 'd list" where
  "softmax_terms ops logits =
     (let maximum = fold (\<lambda>x acc. f32_max acc x) logits f32_neg_infinity in
      map (\<lambda>logit. if f32_is_finite logit then of32 ops (exp32 ops (sub32 ops logit maximum)) else zero64 ops) logits)"

definition probabilities :: "(nat \<Rightarrow> bool) \<Rightarrow> 'd float_ops \<Rightarrow> f32 list \<Rightarrow> 'd list dec" where
  "probabilities heap ops logits =
     and_then (validate_logits logits) (\<lambda>_.
     and_then (reserve heap (length logits)) (\<lambda>_.
     let terms = softmax_terms ops logits;
         total = fold (\<lambda>p acc. add64 ops acc p) terms (zero64 ops)
     in and_then (require (\<not> le64 ops total (zero64 ops) \<and> finite64 ops total) AllLogitsMasked) (\<lambda>_.
          Ok (map (\<lambda>p. div64 ops p total) terms))))"

text \<open>The indices kept: until their cumulative probability reaches the threshold.\<close>

fun nucleus :: "'d float_ops \<Rightarrow> 'd \<Rightarrow> 'd list \<Rightarrow> 'd \<Rightarrow> nat list \<Rightarrow> nat list" where
  "nucleus ops threshold ps cumulative [] = []"
| "nucleus ops threshold ps cumulative (i # is) =
     (let cumulative = add64 ops cumulative (ps ! i) in
      if le64 ops threshold cumulative then [i] else i # nucleus ops threshold ps cumulative is)"

definition mask_unless :: "(nat \<Rightarrow> bool) \<Rightarrow> f32 list \<Rightarrow> f32 list" where
  "mask_unless keep logits = map (\<lambda>(i, logit). if keep i then logit else f32_neg_infinity) (enumerate 0 logits)"

definition process_top_p :: "(nat \<Rightarrow> bool) \<Rightarrow> 'd float_ops \<Rightarrow> f32 \<Rightarrow> f32 list \<Rightarrow> f32 list dec" where
  "process_top_p heap ops p logits =
     and_then (probabilities heap ops logits) (\<lambda>ps.
       if p = f32_one then Ok logits
       else and_then (reserve heap (length ps)) (\<lambda>_.
         let order = sort_key (\<lambda>i. - total64 ops (ps ! i)) [0..<length ps] in
         and_then (reserve heap (length logits)) (\<lambda>_.
           let kept = nucleus ops (of32 ops p) ps (zero64 ops) order
           in Ok (mask_unless (\<lambda>i. i \<in> set kept) logits))))"

definition process_min_p :: "(nat \<Rightarrow> bool) \<Rightarrow> 'd float_ops \<Rightarrow> f32 \<Rightarrow> f32 list \<Rightarrow> f32 list dec" where
  "process_min_p heap ops p logits =
     and_then (probabilities heap ops logits) (\<lambda>ps.
       if f32_key p = 0 then Ok logits
       else let maximum = fold (\<lambda>x acc. max64 ops acc x) ps (zero64 ops);
                threshold = mul64 ops (of32 ops p) maximum
         in Ok (mask_unless (\<lambda>i. \<not> less64 ops (ps ! i) threshold) logits))"

definition penalised :: "'d float_ops \<Rightarrow> f32 \<Rightarrow> f32 \<Rightarrow> f32" where
  "penalised ops penalty logit = (if f32_less 0 logit then div32 ops logit penalty else mul32 ops logit penalty)"

fun validate_tokens :: "u32 list \<Rightarrow> nat \<Rightarrow> nat list dec" where
  "validate_tokens [] vocabulary = Ok []"
| "validate_tokens (t # ts) vocabulary =
     and_then (validate_token t vocabulary) (\<lambda>i. and_then (validate_tokens ts vocabulary) (\<lambda>is. Ok (i # is)))"

fun check_penalised :: "'d float_ops \<Rightarrow> f32 \<Rightarrow> f32 list \<Rightarrow> nat list \<Rightarrow> unit dec" where
  "check_penalised ops penalty logits [] = Ok ()"
| "check_penalised ops penalty logits (i # is) =
     (if f32_is_finite (logits ! i) \<and> \<not> f32_is_finite (penalised ops penalty (logits ! i))
      then Err (NonFiniteLogit i KindRepetitionPenalty)
      else check_penalised ops penalty logits is)"

definition process_repetition ::
  "(nat \<Rightarrow> bool) \<Rightarrow> 'd float_ops \<Rightarrow> u32 list \<Rightarrow> f32 \<Rightarrow> f32 list \<Rightarrow> f32 list dec" where
  "process_repetition heap ops tokens penalty logits =
     and_then (validate_logits logits) (\<lambda>_.
     and_then (reserve heap (length tokens)) (\<lambda>_.
     and_then (validate_tokens tokens (length logits)) (\<lambda>validated.
     let indices = remdups_adj (sort validated) in
     and_then (check_penalised ops penalty logits indices) (\<lambda>_.
       Ok (fold (\<lambda>i ls. ls[i := penalised ops penalty (ls ! i)]) indices logits)))))"

text \<open>A processor writes the logits only after its last check, so a refusal leaves them alone.\<close>

definition process :: "(nat \<Rightarrow> bool) \<Rightarrow> 'd float_ops \<Rightarrow> processor \<Rightarrow> f32 list \<Rightarrow> f32 list dec" where
  "process heap ops p logits =
     (case p of
        TemperatureScale temperature \<Rightarrow> process_temperature ops temperature logits
      | TopK k \<Rightarrow> process_top_k heap k logits
      | TopP probability \<Rightarrow> process_top_p heap ops probability logits
      | MinP probability \<Rightarrow> process_min_p heap ops probability logits
      | RepetitionPenalty tokens penalty \<Rightarrow> process_repetition heap ops tokens penalty logits
      | TypicalSampling _ \<Rightarrow> and_then (validate_logits logits) (\<lambda>_. Err UnsupportedProcessor))"

fun run_processors :: "(nat \<Rightarrow> bool) \<Rightarrow> 'd float_ops \<Rightarrow> processor list \<Rightarrow> f32 list \<Rightarrow> f32 list dec" where
  "run_processors heap ops [] logits = Ok logits"
| "run_processors heap ops (p # ps) logits =
     and_then (process heap ops p logits) (\<lambda>logits.
     and_then (validate_logits logits) (\<lambda>_. run_processors heap ops ps logits))"

subsection \<open>Samplers and the chain\<close>

text \<open>\<open>MultinomialSampler\<close>; the number its generator draws from \<open>0.0..1.0\<close> is the argument \<open>draw\<close>.\<close>

definition multinomial_terms :: "'d float_ops \<Rightarrow> f32 list \<Rightarrow> 'd list" where
  "multinomial_terms ops logits =
     (let maximum = fold (\<lambda>x acc. f32_max acc x) logits f32_neg_infinity in
      map (\<lambda>logit. if f32_is_finite logit
        then exp64 ops (sub64 ops (of32 ops logit) (of32 ops maximum)) else zero64 ops) logits)"

fun drawn_from :: "'d float_ops \<Rightarrow> 'd \<Rightarrow> nat \<Rightarrow> 'd list \<Rightarrow> nat option" where
  "drawn_from ops draw position [] = None"
| "drawn_from ops draw position (p # ps) =
     (if less64 ops draw p then Some position else drawn_from ops (sub64 ops draw p) (position + 1) ps)"

definition last_unmasked :: "'d float_ops \<Rightarrow> 'd list \<Rightarrow> nat option" where
  "last_unmasked ops ps = List.find (\<lambda>i. less64 ops (zero64 ops) (ps ! i)) (rev [0..<length ps])"

definition multinomial_sample :: "(nat \<Rightarrow> bool) \<Rightarrow> 'd float_ops \<Rightarrow> 'd \<Rightarrow> f32 list \<Rightarrow> u32 dec" where
  "multinomial_sample heap ops draw logits =
     and_then (validate_logits logits) (\<lambda>_.
     and_then (reserve heap (length logits)) (\<lambda>_.
     let terms = multinomial_terms ops logits;
         total = fold (\<lambda>p acc. add64 ops acc p) terms (zero64 ops);
         ps = map (\<lambda>p. div64 ops p total) terms
     in case drawn_from ops draw 0 ps of
          Some position \<Rightarrow> token_index position
        | None \<Rightarrow>
            (case last_unmasked ops ps of
               Some position \<Rightarrow> token_index position
             | None \<Rightarrow> Err AllLogitsMasked)))"

text \<open>\<open>DecodeChain::step\<close>: the processors in their order, the logits checked after each, the sampler last.\<close>

definition chain_step ::
  "(nat \<Rightarrow> bool) \<Rightarrow> 'd float_ops \<Rightarrow> processor list \<Rightarrow> (f32 list \<Rightarrow> u32 dec) \<Rightarrow> f32 list \<Rightarrow> u32 dec" where
  "chain_step heap ops ps sample logits =
     and_then (validate_logits logits) (\<lambda>_. and_then (run_processors heap ops ps logits) sample)"

end
