(* ===== verification/Templates.thy ===== *)
theory Templates
  imports Utf8
begin

text \<open>
  Bounded rendering of one template (src/crates/templates/src/lib.rs): its limits, the admission of a source,
  the writer that caps the rendered bytes, and rendering. The template engine is a parameter: what it
  compiles, the recursion limit it supports, and its run, which calls the writer and continues with
  the answers. The last part shows what the cap guarantees for every engine.
\<close>

subsection \<open>Limits\<close>

datatype template_field = TemplateSourceBytes | RenderedTemplateBytes

datatype template_rule = NonZeroLimits | SupportedRecursion

datatype template_error =
    TemplateAllocation
  | TemplateEngine
  | TemplateUtf8
  | TemplateLimit template_field nat nat
  | TemplateConfiguration template_rule

type_synonym 'a templated = "('a, template_error) result"

record template_limits =
  tl_template_bytes :: nat
  tl_rendered_bytes :: nat
  tl_fuel :: nat
  tl_recursion :: nat

definition template_validate_limits :: "template_limits \<Rightarrow> unit templated" where
  "template_validate_limits limits =
     require (0 \<notin> set [tl_template_bytes limits, tl_rendered_bytes limits, tl_recursion limits] \<and>
         tl_fuel limits \<noteq> 0 \<and> tl_fuel limits < 2 ^ 63)
       (TemplateConfiguration NonZeroLimits)"

definition template_limits_new :: "nat \<Rightarrow> nat \<Rightarrow> nat \<Rightarrow> nat \<Rightarrow> template_limits templated" where
  "template_limits_new template_bytes rendered_bytes fuel recursion =
     (let limits = \<lparr>tl_template_bytes = template_bytes, tl_rendered_bytes = rendered_bytes, tl_fuel = fuel,
        tl_recursion = recursion\<rparr> in
      and_then (template_validate_limits limits) (\<lambda>_. Ok limits))"

definition template_check_limit :: "template_field \<Rightarrow> nat \<Rightarrow> nat \<Rightarrow> unit templated" where
  "template_check_limit field actual limit = require (actual \<le> limit) (TemplateLimit field actual limit)"

subsection \<open>The engine\<close>

record environment =
  env_fuel :: nat
  env_recursion_limit :: nat

text \<open>
  A run of the engine: it writes a buffer to its output and goes on with the answer (the number of bytes
  taken or an error), flushes it, or ends, with an error or without.
\<close>

datatype engine_run =
    EngineWrite bytes "nat option \<Rightarrow> engine_run"
  | EngineFlush engine_run
  | EngineFinish bool

record 'c engine =
  en_recursion_limit :: "nat \<Rightarrow> nat"
  en_compiles :: "environment \<Rightarrow> bytes \<Rightarrow> bool"
  en_render :: "environment \<Rightarrow> bytes \<Rightarrow> 'c \<Rightarrow> engine_run"

definition configured_environment :: "'c engine \<Rightarrow> template_limits \<Rightarrow> environment templated" where
  "configured_environment engine limits =
     (let environment = \<lparr>env_fuel = tl_fuel limits, env_recursion_limit = en_recursion_limit engine (tl_recursion limits)\<rparr> in
      and_then (require (env_recursion_limit environment = tl_recursion limits) (TemplateConfiguration SupportedRecursion))
        (\<lambda>_. Ok environment))"

subsection \<open>The capped writer\<close>

record byte_capped_writer =
  bw_output :: bytes
  bw_maximum :: nat
  bw_attempted :: nat
  bw_exceeded :: bool

definition writer_new :: "(nat \<Rightarrow> nat option) \<Rightarrow> nat \<Rightarrow> byte_capped_writer templated" where
  "writer_new heap maximum =
     and_then (ok_or TemplateAllocation (heap maximum)) (\<lambda>_.
       Ok \<lparr>bw_output = [], bw_maximum = maximum, bw_attempted = 0, bw_exceeded = False\<rparr>)"

definition writer_write :: "bytes \<Rightarrow> byte_capped_writer \<Rightarrow> nat option \<times> byte_capped_writer" where
  "writer_write buffer w =
     (let attempted = usize_add (length (bw_output w)) (length buffer);
          w = w\<lparr>bw_attempted := (case attempted of Some n \<Rightarrow> n | None \<Rightarrow> 2 ^ 64 - 1)\<rparr> in
      if case attempted of None \<Rightarrow> True | Some n \<Rightarrow> bw_maximum w < n
      then (None, w\<lparr>bw_exceeded := True\<rparr>)
      else (Some (length buffer), w\<lparr>bw_output := bw_output w @ buffer\<rparr>))"

definition writer_into_string :: "byte_capped_writer \<Rightarrow> bytes templated" where
  "writer_into_string w = and_then (require (utf8_valid (bw_output w)) TemplateUtf8) (\<lambda>_. Ok (bw_output w))"

text \<open>\<open>render_captured_to\<close>: the engine runs against the writer; the answer says whether it ended without an error.\<close>

primrec drive_engine :: "engine_run \<Rightarrow> byte_capped_writer \<Rightarrow> bool \<times> byte_capped_writer" where
  "drive_engine (EngineWrite buffer continue) w =
     (case writer_write buffer w of (answer, w) \<Rightarrow> drive_engine (continue answer) w)"
| "drive_engine (EngineFlush continue) w = drive_engine continue w"
| "drive_engine (EngineFinish fine) w = (fine, w)"

subsection \<open>Templates\<close>

record bounded_template =
  tpl_source :: bytes
  tpl_environment :: environment
  tpl_limits :: template_limits

definition bounded_template_new :: "'c engine \<Rightarrow> bytes \<Rightarrow> template_limits \<Rightarrow> bounded_template templated" where
  "bounded_template_new engine source limits =
     and_then (template_check_limit TemplateSourceBytes (length source) (tl_template_bytes limits)) (\<lambda>_.
     and_then (configured_environment engine limits) (\<lambda>environment.
     and_then (require (en_compiles engine environment source) TemplateEngine) (\<lambda>_.
       Ok \<lparr>tpl_source = source, tpl_environment = environment, tpl_limits = limits\<rparr>)))"

definition bounded_template_render :: "(nat \<Rightarrow> nat option) \<Rightarrow> 'c engine \<Rightarrow> bounded_template \<Rightarrow> 'c \<Rightarrow> bytes templated" where
  "bounded_template_render heap engine t context =
     and_then (require (en_compiles engine (tpl_environment t) (tpl_source t)) TemplateEngine) (\<lambda>_.
     and_then (writer_new heap (tl_rendered_bytes (tpl_limits t))) (\<lambda>output.
     case drive_engine (en_render engine (tpl_environment t) (tpl_source t) context) output of (fine, output) \<Rightarrow>
       and_then (require (\<not> bw_exceeded output)
         (TemplateLimit RenderedTemplateBytes (bw_attempted output) (tl_rendered_bytes (tpl_limits t)))) (\<lambda>_.
       and_then (require fine TemplateEngine) (\<lambda>_. writer_into_string output))))"

subsection \<open>What the cap guarantees\<close>

text \<open>The bytes a run writes when every buffer is taken in full, if it then ends without an error.\<close>

primrec unrefused_output :: "engine_run \<Rightarrow> bytes option" where
  "unrefused_output (EngineWrite buffer continue) = map_option ((@) buffer) (unrefused_output (continue (Some (length buffer))))"
| "unrefused_output (EngineFlush continue) = unrefused_output continue"
| "unrefused_output (EngineFinish fine) = (if fine then Some [] else None)"

lemma exceeded_stays: "bw_exceeded w \<Longrightarrow> bw_exceeded (snd (drive_engine r w))"
  by (induction r arbitrary: w) (auto simp: writer_write_def Let_def split: prod.split)

text \<open>A run ends well without a refusal exactly when its whole output fits, and that is what is kept.\<close>

lemma drive_engine_within:
  assumes "\<not> bw_exceeded w" and "length (bw_output w) \<le> bw_maximum w" and "length (bw_output w) < 2 ^ 64"
  shows "(\<exists>v. drive_engine r w = (True, v) \<and> \<not> bw_exceeded v \<and> bw_output v = x) \<longleftrightarrow>
    (\<exists>out. unrefused_output r = Some out \<and> x = bw_output w @ out \<and> length x \<le> bw_maximum w \<and> length x < 2 ^ 64)"
  using assms
proof (induction r arbitrary: w)
  case (EngineWrite buffer continue)
  let ?n = "length (bw_output w) + length buffer"
  show ?case
  proof (cases "?n \<le> bw_maximum w \<and> ?n < 2 ^ 64")
    case True
    let ?w = "w\<lparr>bw_attempted := ?n, bw_output := bw_output w @ buffer\<rparr>"
    have "writer_write buffer w = (Some (length buffer), ?w)"
      using True by (simp add: writer_write_def usize_add_def)
    then show ?thesis
      using EngineWrite.IH [of "continue (Some (length buffer))" ?w] EngineWrite.prems(1) True by (auto simp: add.assoc)
  next
    case False
    then have "\<exists>m. writer_write buffer w = (None, w\<lparr>bw_attempted := m, bw_exceeded := True\<rparr>)"
      by (cases "?n < 2 ^ 64") (auto simp: writer_write_def usize_add_def Let_def not_le)
    then obtain m where "writer_write buffer w = (None, w\<lparr>bw_attempted := m, bw_exceeded := True\<rparr>)" ..
    then show ?thesis
      using False exceeded_stays [of "w\<lparr>bw_attempted := m, bw_exceeded := True\<rparr>" "continue None"] by auto
  qed
qed auto

lemma template_limits_new_Ok:
  "template_limits_new a b c d = Ok l \<longleftrightarrow> l = \<lparr>tl_template_bytes = a, tl_rendered_bytes = b, tl_fuel = c, tl_recursion = d\<rparr> \<and>
     0 < a \<and> 0 < b \<and> 0 < c \<and> c < 2 ^ 63 \<and> 0 < d"
  by (auto simp: template_limits_new_def template_validate_limits_def Let_def)

lemma bounded_template_new_Ok:
  "bounded_template_new engine source limits = Ok t \<longleftrightarrow>
     length source \<le> tl_template_bytes limits \<and> en_recursion_limit engine (tl_recursion limits) = tl_recursion limits \<and>
     en_compiles engine \<lparr>env_fuel = tl_fuel limits, env_recursion_limit = tl_recursion limits\<rparr> source \<and>
     t = \<lparr>tpl_source = source, tpl_environment = \<lparr>env_fuel = tl_fuel limits, env_recursion_limit = tl_recursion limits\<rparr>,
       tpl_limits = limits\<rparr>"
  by (auto simp: bounded_template_new_def template_check_limit_def configured_environment_def Let_def)

lemma bounded_template_render_Ok:
  "bounded_template_render heap engine t context = Ok rendered \<longleftrightarrow>
     en_compiles engine (tpl_environment t) (tpl_source t) \<and> heap (tl_rendered_bytes (tpl_limits t)) \<noteq> None \<and>
     unrefused_output (en_render engine (tpl_environment t) (tpl_source t) context) = Some rendered \<and>
     length rendered \<le> tl_rendered_bytes (tpl_limits t) \<and> length rendered < 2 ^ 64 \<and> utf8_valid rendered"
proof -
  let ?r = "en_render engine (tpl_environment t) (tpl_source t) context"
  let ?w = "\<lparr>bw_output = [], bw_maximum = tl_rendered_bytes (tpl_limits t), bw_attempted = 0, bw_exceeded = False\<rparr>"
  obtain fine v where v: "drive_engine ?r ?w = (fine, v)" by (cases "drive_engine ?r ?w")
  show ?thesis
    using drive_engine_within [of ?w ?r rendered] v
    by (auto simp: bounded_template_render_def writer_new_def writer_into_string_def)
qed

end
