(* ===== verification/Text_Pipeline.thy ===== *)
theory Text_Pipeline
  imports Token_Verified Decode_Policy Gguf_State Templates
begin

text \<open>
  The text pipeline up to the first decoder step (src/crates/text/src/lib.rs): its limits, the special
  token policy read from a model's metadata, request validation, rendering and preparation. The template
  engine, the decoder's execution plan and the allocator are parameters.
\<close>

subsection \<open>Errors and limits\<close>

datatype policy_rule =
    AddBosWithoutId | SpecialAbsent | SpecialNotMarked | SpecialEncodesOtherwise
  | RecognizedNotSpecial | RecognizedEncodesOtherwise

datatype configuration_rule =
    StaticLimits | NoMessage | NoUserMessage | ZeroOutputTokens | LateSystemMessage
  | MessageBytesOverflow | ContextOverflow | TemplateRule template_rule

datatype limited_field =
    TemplateBytes | Messages | RequestedOutputTokens | MessageBytes | RequestPromptBytes
  | PromptPlusOutput | DecodedOutputBytes | RenderedPromptBytes

datatype boundary =
    SessionConstruction | PromptStep | NextStep | GreedySelection | OutputDecoding | Publishing
  | TemplateRendering | Tokenization

datatype text_error =
    TextAllocation
  | MetadataKey bytes
  | TextVocabularyMismatch u32
  | TextVocabularyLengthMismatch nat nat
  | SpecialTokenPolicyError policy_rule
  | TemplateError
  | TextRenderedUtf8
  | TokenizerError tokenize_error
  | DecoderError
  | DecodeError decode_error
  | LogitShape nat nat
  | RecycledLogitsExtentOverflow nat
  | RecycledLogitsStorageMismatch nat nat
  | EmptyPrompt
  | TextLimitExceeded limited_field nat nat
  | Cancelled boundary
  | InvalidConfiguration configuration_rule

type_synonym 'a text_result = "('a, text_error) result"

definition check_limit :: "limited_field \<Rightarrow> nat \<Rightarrow> nat \<Rightarrow> unit text_result" where
  "check_limit field actual limit = require (actual \<le> limit) (TextLimitExceeded field actual limit)"

record pipeline_limits =
  pl_tokenizer_bytes :: nat
  pl_template_bytes :: nat
  pl_messages :: nat
  pl_message_bytes :: nat
  pl_prompt_bytes :: nat
  pl_rendered_bytes :: nat
  pl_context_tokens :: nat
  pl_output_tokens :: nat
  pl_output_bytes :: nat
  pl_template_fuel :: nat
  pl_template_recursion :: nat

definition pipeline_template_limits :: "pipeline_limits \<Rightarrow> template_limits templated" where
  "pipeline_template_limits l =
     template_limits_new (pl_template_bytes l) (pl_rendered_bytes l) (pl_template_fuel l) (pl_template_recursion l)"

definition limits_validate :: "pipeline_limits \<Rightarrow> template_limits text_result" where
  "limits_validate l =
     and_then (require (0 \<notin> set [pl_messages l, pl_message_bytes l, pl_prompt_bytes l, pl_context_tokens l,
         pl_output_tokens l, pl_output_bytes l]) (InvalidConfiguration StaticLimits)) (\<lambda>_.
       map_err (\<lambda>_. InvalidConfiguration StaticLimits) (pipeline_template_limits l))"

fun map_template_error :: "template_error \<Rightarrow> text_error" where
  "map_template_error TemplateAllocation = TextAllocation"
| "map_template_error TemplateEngine = TemplateError"
| "map_template_error TemplateUtf8 = TextRenderedUtf8"
| "map_template_error (TemplateLimit TemplateSourceBytes actual limit) = TextLimitExceeded TemplateBytes actual limit"
| "map_template_error (TemplateLimit RenderedTemplateBytes actual limit) = TextLimitExceeded RenderedPromptBytes actual limit"
| "map_template_error (TemplateConfiguration rule) = InvalidConfiguration (TemplateRule rule)"

subsection \<open>Metadata\<close>

type_synonym metadata = "(bytes \<times> meta_value) list"

definition text_metadata_string :: "metadata \<Rightarrow> bytes \<Rightarrow> bytes text_result" where
  "text_metadata_string metadata key =
     (case map_of metadata key of Some (MetaString v) \<Rightarrow> Ok v | _ \<Rightarrow> Err (MetadataKey key))"

definition text_metadata_u32 :: "metadata \<Rightarrow> bytes \<Rightarrow> u32 text_result" where
  "text_metadata_u32 metadata key =
     (case map_of metadata key of Some (MetaU32 v) \<Rightarrow> Ok v | _ \<Rightarrow> Err (MetadataKey key))"

definition metadata_bool_or_false :: "metadata \<Rightarrow> bytes \<Rightarrow> bool text_result" where
  "metadata_bool_or_false metadata key =
     (case map_of metadata key of None \<Rightarrow> Ok False | Some (MetaBool v) \<Rightarrow> Ok v | _ \<Rightarrow> Err (MetadataKey key))"

definition metadata_optional_u32 :: "metadata \<Rightarrow> bytes \<Rightarrow> u32 option text_result" where
  "metadata_optional_u32 metadata key =
     (case map_of metadata key of None \<Rightarrow> Ok None | Some (MetaU32 v) \<Rightarrow> Ok (Some v) | _ \<Rightarrow> Err (MetadataKey key))"

definition CHAT_TEMPLATE_KEY :: bytes where "CHAT_TEMPLATE_KEY = bytes_of ''tokenizer.chat_template''"
definition TOKENS_KEY :: bytes where "TOKENS_KEY = bytes_of ''tokenizer.ggml.tokens''"
definition BOS_TOKEN_ID_KEY :: bytes where "BOS_TOKEN_ID_KEY = bytes_of ''tokenizer.ggml.bos_token_id''"
definition EOS_TOKEN_ID_KEY :: bytes where "EOS_TOKEN_ID_KEY = bytes_of ''tokenizer.ggml.eos_token_id''"
definition ADD_BOS_TOKEN_KEY :: bytes where "ADD_BOS_TOKEN_KEY = bytes_of ''tokenizer.ggml.add_bos_token''"
definition ADD_EOS_TOKEN_KEY :: bytes where "ADD_EOS_TOKEN_KEY = bytes_of ''tokenizer.ggml.add_eos_token''"
definition EOT_TOKEN_ID_KEY :: bytes where "EOT_TOKEN_ID_KEY = bytes_of ''tokenizer.ggml.eot_token_id''"
definition EOM_TOKEN_ID_KEY :: bytes where "EOM_TOKEN_ID_KEY = bytes_of ''tokenizer.ggml.eom_token_id''"

subsection \<open>The special token policy\<close>

record special_token_policy =
  sp_bos_id :: "u32 option"
  sp_eos_id :: u32
  sp_add_bos :: bool
  sp_add_eos :: bool
  sp_stop_ids :: "u32 list"

fun string_values :: "meta_value list \<Rightarrow> bytes list option" where
  "string_values [] = Some []"
| "string_values (MetaString s # vs) = map_option ((#) s) (string_values vs)"
| "string_values (_ # vs) = None"

definition bind_vocabulary :: "meta_value list \<Rightarrow> tokenizer \<Rightarrow> unit text_result" where
  "bind_vocabulary vs tk =
     and_then (ok_or (MetadataKey TOKENS_KEY) (string_values vs)) (\<lambda>spellings.
       map_err (\<lambda>e. case e of
           VocabularyLengthMismatch expected actual \<Rightarrow> TextVocabularyLengthMismatch expected actual
         | VocabularyMismatch token_id \<Rightarrow> TextVocabularyMismatch token_id
         | e \<Rightarrow> TokenizerError e)
         (verify_exact_vocabulary tk (length vs) spellings))"

definition verify_special_token :: "nat \<Rightarrow> tokenizer \<Rightarrow> u32 \<Rightarrow> unit text_result" where
  "verify_special_token vocabulary_size tk token_id =
     map_err (\<lambda>e. case e of
         SpecialTokenIdOutOfRange _ _ \<Rightarrow> SpecialTokenPolicyError SpecialAbsent
       | SpecialTokenMissing _ \<Rightarrow> SpecialTokenPolicyError SpecialAbsent
       | SpecialTokenNotMarked _ \<Rightarrow> SpecialTokenPolicyError SpecialNotMarked
       | SpecialTokenEncodingMismatch _ \<Rightarrow> SpecialTokenPolicyError SpecialEncodesOtherwise
       | e \<Rightarrow> TokenizerError e)
       (verify_declared_special_id tk vocabulary_size token_id)"

fun verify_declared_special_tokens :: "nat \<Rightarrow> tokenizer \<Rightarrow> u32 option list \<Rightarrow> unit text_result" where
  "verify_declared_special_tokens vocabulary_size tk [] = Ok ()"
| "verify_declared_special_tokens vocabulary_size tk (None # rest) =
     verify_declared_special_tokens vocabulary_size tk rest"
| "verify_declared_special_tokens vocabulary_size tk (Some token_id # rest) =
     and_then (verify_special_token vocabulary_size tk token_id) (\<lambda>_.
       verify_declared_special_tokens vocabulary_size tk rest)"

definition add_stop :: "u32 \<Rightarrow> u32 list \<Rightarrow> u32 list" where
  "add_stop token_id stops = (if token_id \<in> set stops then stops else stops @ [token_id])"

text \<open>The declared stops: the end of the sequence and the optional ends of a turn and of a message.\<close>

definition declared_stops :: "u32 \<Rightarrow> u32 option list \<Rightarrow> u32 list" where
  "declared_stops sequence_end others =
     fold (\<lambda>other stops. case other of None \<Rightarrow> stops | Some token_id \<Rightarrow> add_stop token_id stops) others [sequence_end]"

fun add_recognized_stops :: "tokenizer \<Rightarrow> nat \<Rightarrow> bytes list \<Rightarrow> u32 list \<Rightarrow> u32 list text_result" where
  "add_recognized_stops tk vocabulary_size [] stops = Ok stops"
| "add_recognized_stops tk vocabulary_size (spelling # rest) stops =
     (case tk_token_to_id tk spelling of
        None \<Rightarrow> add_recognized_stops tk vocabulary_size rest stops
      | Some token_id \<Rightarrow>
          and_then (map_err (\<lambda>e. case e of
              SpecialTokenNotMarked _ \<Rightarrow> SpecialTokenPolicyError RecognizedNotSpecial
            | SpecialTokenEncodingMismatch _ \<Rightarrow> SpecialTokenPolicyError RecognizedEncodesOtherwise
            | e \<Rightarrow> TokenizerError e) (verify_declared_special_id tk vocabulary_size token_id)) (\<lambda>_.
            add_recognized_stops tk vocabulary_size rest (add_stop token_id stops)))"

definition add_recognized_qwen_stops :: "tokenizer \<Rightarrow> nat \<Rightarrow> u32 list \<Rightarrow> u32 list text_result" where
  "add_recognized_qwen_stops tk vocabulary_size stops =
     add_recognized_stops tk vocabulary_size [bytes_of ''<|im_end|>'', bytes_of ''<|endoftext|>''] stops"

definition verify_vocabulary :: "metadata \<Rightarrow> tokenizer \<Rightarrow> special_token_policy text_result" where
  "verify_vocabulary metadata tk =
     and_then (metadata_optional_u32 metadata BOS_TOKEN_ID_KEY) (\<lambda>beginning.
     and_then (text_metadata_u32 metadata EOS_TOKEN_ID_KEY) (\<lambda>sequence_end.
     and_then (metadata_bool_or_false metadata ADD_BOS_TOKEN_KEY) (\<lambda>prepend_beginning.
     and_then (metadata_bool_or_false metadata ADD_EOS_TOKEN_KEY) (\<lambda>append_sequence_end.
     and_then (metadata_optional_u32 metadata EOT_TOKEN_ID_KEY) (\<lambda>turn_end.
     and_then (metadata_optional_u32 metadata EOM_TOKEN_ID_KEY) (\<lambda>message_end.
     case map_of metadata TOKENS_KEY of
       Some (MetaArray _ vs) \<Rightarrow>
         and_then (bind_vocabulary vs tk) (\<lambda>_.
         and_then (require (\<not> (prepend_beginning \<and> beginning = None)) (SpecialTokenPolicyError AddBosWithoutId)) (\<lambda>_.
         let stops = declared_stops sequence_end [turn_end, message_end] in
         and_then (verify_declared_special_tokens (length vs) tk [beginning, Some sequence_end, turn_end, message_end]) (\<lambda>_.
         and_then (add_recognized_qwen_stops tk (length vs) stops) (\<lambda>stops.
           Ok \<lparr>sp_bos_id = beginning, sp_eos_id = sequence_end, sp_add_bos = prepend_beginning,
               sp_add_eos = append_sequence_end, sp_stop_ids = stops\<rparr>))))
     | _ \<Rightarrow> Err (MetadataKey TOKENS_KEY)))))))"

subsection \<open>Requests\<close>

datatype text_role = System | User | Assistant

record text_message =
  tm_role :: text_role
  tm_content :: bytes

record generation_request =
  gr_messages :: "text_message list"
  gr_max_output_tokens :: nat
  gr_enable_thinking :: bool

record text_profile =
  tp_tokenizer :: tokenizer
  tp_template_source :: bytes
  tp_template_limits :: template_limits
  tp_special_tokens :: special_token_policy
  tp_limits :: pipeline_limits

text \<open>What a request gives the template.\<close>

record render_context =
  rc_messages :: "text_message list"
  rc_add_generation_prompt :: bool
  rc_enable_thinking :: bool
  rc_tools :: "unit list"

text \<open>\<open>TextPipeline::new\<close>; \<open>weights_ok\<close> stands for the decoder's weights.\<close>

definition pipeline_new ::
  "(bytes \<Rightarrow> bytes) \<Rightarrow> (bytes \<Rightarrow> tokenizer tok) \<Rightarrow> (nat \<Rightarrow> nat option) \<Rightarrow> render_context engine \<Rightarrow> bool \<Rightarrow>
     metadata \<Rightarrow> bytes \<Rightarrow> tokenizer_identity \<Rightarrow> pipeline_limits \<Rightarrow> text_profile text_result" where
  "pipeline_new sha256 parse heap engine weights_ok metadata companion expected limits =
     and_then (limits_validate limits) (\<lambda>template_limits.
     and_then (map_err TokenizerError (verified_from_bytes sha256 parse companion expected (pl_tokenizer_bytes limits))) (\<lambda>vt.
     and_then (map_err TokenizerError (verify_unpadded_untruncated (vt_tokenizer vt))) (\<lambda>_.
     and_then (text_metadata_string metadata CHAT_TEMPLATE_KEY) (\<lambda>template.
     and_then (check_limit TemplateBytes (length template) (pl_template_bytes limits)) (\<lambda>_.
     and_then (verify_vocabulary metadata (vt_tokenizer vt)) (\<lambda>special_tokens.
     and_then (ok_or TextAllocation (heap (length template))) (\<lambda>_.
     and_then (map_err map_template_error (bounded_template_new engine template template_limits)) (\<lambda>_.
     and_then (require weights_ok DecoderError) (\<lambda>_.
       Ok \<lparr>tp_tokenizer = vt_tokenizer vt, tp_template_source = template,
           tp_template_limits = template_limits, tp_special_tokens = special_tokens, tp_limits = limits\<rparr>)))))))))"

fun validate_messages :: "pipeline_limits \<Rightarrow> nat \<Rightarrow> nat \<Rightarrow> text_message list \<Rightarrow> nat text_result" where
  "validate_messages limits position total_bytes [] = Ok total_bytes"
| "validate_messages limits position total_bytes (m # ms) =
     and_then (require (\<not> (tm_role m = System \<and> position \<noteq> 0)) (InvalidConfiguration LateSystemMessage)) (\<lambda>_.
     and_then (check_limit MessageBytes (length (tm_content m)) (pl_message_bytes limits)) (\<lambda>_.
     and_then (ok_or (InvalidConfiguration MessageBytesOverflow) (usize_add total_bytes (length (tm_content m)))) (\<lambda>total_bytes.
       validate_messages limits (position + 1) total_bytes ms)))"

definition validate_request :: "pipeline_limits \<Rightarrow> generation_request \<Rightarrow> unit text_result" where
  "validate_request limits r =
     and_then (check_limit Messages (length (gr_messages r)) (pl_messages limits)) (\<lambda>_.
     and_then (require (gr_messages r \<noteq> []) (InvalidConfiguration NoMessage)) (\<lambda>_.
     and_then (require (list_ex (\<lambda>m. tm_role m = User) (gr_messages r)) (InvalidConfiguration NoUserMessage)) (\<lambda>_.
     and_then (check_limit RequestedOutputTokens (gr_max_output_tokens r) (pl_output_tokens limits)) (\<lambda>_.
     and_then (require (gr_max_output_tokens r \<noteq> 0) (InvalidConfiguration ZeroOutputTokens)) (\<lambda>_.
     and_then (validate_messages limits 0 0 (gr_messages r)) (\<lambda>total_bytes.
       check_limit RequestPromptBytes total_bytes (pl_prompt_bytes limits)))))))"

text \<open>\<open>TextPipeline::render\<close>: the template is admitted again and rendered under the profile's limits.\<close>

definition render_request :: "(nat \<Rightarrow> nat option) \<Rightarrow> render_context engine \<Rightarrow> text_profile \<Rightarrow> generation_request \<Rightarrow> bytes text_result" where
  "render_request heap engine profile r =
     and_then (map_err map_template_error (bounded_template_new engine (tp_template_source profile) (tp_template_limits profile))) (\<lambda>template.
       map_err map_template_error (bounded_template_render heap engine template
         \<lparr>rc_messages = gr_messages r, rc_add_generation_prompt = True, rc_enable_thinking = gr_enable_thinking r,
          rc_tools = []\<rparr>))"

definition encode_prompt :: "(nat \<Rightarrow> nat option) \<Rightarrow> tokenizer \<Rightarrow> special_token_policy \<Rightarrow> bytes \<Rightarrow> u32 list text_result" where
  "encode_prompt heap tk policy rendered =
     and_then (map_err TokenizerError (encode tk rendered False)) (\<lambda>prompt.
     and_then (ok_or TextAllocation (heap (length prompt + 2))) (\<lambda>_.
     and_then (if sp_add_bos policy
         then and_then (ok_or (SpecialTokenPolicyError AddBosWithoutId) (sp_bos_id policy)) (\<lambda>bos. Ok (bos # prompt))
         else Ok prompt) (\<lambda>prompt.
       Ok (if sp_add_eos policy then prompt @ [sp_eos_id policy] else prompt))))"

subsection \<open>Recycled logits\<close>

record recycled_logits_plan =
  rp_vocabulary_width :: nat
  rp_requested_bytes :: nat

definition recycled_plan_new :: "nat \<Rightarrow> recycled_logits_plan text_result" where
  "recycled_plan_new width =
     and_then (ok_or (RecycledLogitsExtentOverflow width) (usize_mul width 4)) (\<lambda>bytes.
       Ok \<lparr>rp_vocabulary_width = width, rp_requested_bytes = bytes\<rparr>)"

definition recycled_validate_storage :: "recycled_logits_plan \<Rightarrow> f32 list \<Rightarrow> unit text_result" where
  "recycled_validate_storage p row =
     require (length row = rp_vocabulary_width p) (RecycledLogitsStorageMismatch (length row) (rp_vocabulary_width p))"

definition recycled_acquire :: "(nat \<Rightarrow> nat option) \<Rightarrow> recycled_logits_plan \<Rightarrow> f32 list text_result" where
  "recycled_acquire heap p =
     and_then (ok_or TextAllocation (heap (rp_vocabulary_width p))) (\<lambda>_. Ok (replicate (rp_vocabulary_width p) 0))"

subsection \<open>Preparation\<close>

record prepared_generation =
  pg_profile :: text_profile
  pg_context :: nat
  pg_rendered_prompt :: bytes
  pg_prompt_token_ids :: "u32 list"
  pg_max_output_tokens :: nat
  pg_recycled_logits_plan :: recycled_logits_plan
  pg_output_storage_plan :: decode_storage_plan

text \<open>
  The world of a request: the answers of the cancellation probe, which may change from one check to
  the next, and later the driver.
\<close>

definition check_cancelled :: "('w \<Rightarrow> bool \<times> 'w) \<Rightarrow> boundary \<Rightarrow> 'w \<Rightarrow> unit text_result \<times> 'w" where
  "check_cancelled is_cancelled boundary w =
     (case is_cancelled w of (cancelled, w) \<Rightarrow> (if cancelled then Err (Cancelled boundary) else Ok (), w))"

text \<open>\<open>prepare\<close>; \<open>render\<close> is \<open>render_request\<close> on an engine, and \<open>execution_plan\<close> the decoder's plan for a context.\<close>

definition prepare ::
  "(nat \<Rightarrow> nat option) \<Rightarrow> (text_profile \<Rightarrow> generation_request \<Rightarrow> bytes text_result) \<Rightarrow> (nat \<Rightarrow> nat \<Rightarrow> bool) \<Rightarrow>
     ('w \<Rightarrow> bool \<times> 'w) \<Rightarrow> text_profile \<Rightarrow> generation_request \<Rightarrow> 'w \<Rightarrow> prepared_generation text_result \<times> 'w" where
  "prepare heap render execution_plan is_cancelled profile r w =
     proceed (check_cancelled is_cancelled TemplateRendering w) (\<lambda>_ w.
     attempt (validate_request (tp_limits profile) r) w (\<lambda>_.
     attempt (render profile r) w (\<lambda>rendered.
     proceed (check_cancelled is_cancelled Tokenization w) (\<lambda>_ w.
     attempt (encode_prompt heap (tp_tokenizer profile) (tp_special_tokens profile) rendered) w (\<lambda>prompt.
     attempt (require (prompt \<noteq> []) EmptyPrompt) w (\<lambda>_.
     attempt (ok_or (InvalidConfiguration ContextOverflow) (usize_add (length prompt) (gr_max_output_tokens r))) w (\<lambda>requested_context.
     attempt (check_limit PromptPlusOutput requested_context (pl_context_tokens (tp_limits profile))) w (\<lambda>_.
     attempt (require (execution_plan requested_context (length prompt)) DecoderError) w (\<lambda>_.
     attempt (map_err TokenizerError (storage_plan (tk_collective (tp_tokenizer profile)) (gr_max_output_tokens r)
         (pl_output_bytes (tp_limits profile)))) w (\<lambda>output_plan.
     attempt (recycled_plan_new (tk_vocab_size (tp_tokenizer profile))) w (\<lambda>recycled.
       (Ok \<lparr>pg_profile = profile, pg_context = requested_context, pg_rendered_prompt = rendered,
           pg_prompt_token_ids = prompt, pg_max_output_tokens = gr_max_output_tokens r,
           pg_recycled_logits_plan = recycled, pg_output_storage_plan = output_plan\<rparr>, w))))))))))))"

end
