(* ===== verification/Text_Generation.thy ===== *)
theory Text_Generation
  imports Text_Pipeline
begin

text \<open>
  Generation (src/crates/text/src/lib.rs): the greedy loop over a port that yields one row of logits
  per step, the two kinds of driver behind the port, and the calls of a prepared generation. What the
  driver and the cancellation probe do is the parameter \<open>port\<close>, over a world they share.
\<close>

subsection \<open>Ports\<close>

datatype 'e generation_error = Pipeline text_error | Driver 'e

datatype finish_reason = EndOfSequence | OutputLength

record generation =
  ge_text :: bytes
  ge_token_ids :: "u32 list"
  ge_finish_reason :: finish_reason

record ('w, 'e) port =
  po_cancelled :: "'w \<Rightarrow> bool \<times> 'w"
  po_step :: "u32 list \<Rightarrow> 'w \<Rightarrow> (f32 list, 'e) result \<times> 'w"

text \<open>\<open>LegacyGenerationLogits\<close> owns the last row; it drops it before the driver makes the next one.\<close>

definition legacy_step ::
  "(u32 list \<Rightarrow> 'd \<Rightarrow> (f32 list, 'e) result \<times> 'd) \<Rightarrow> u32 list \<Rightarrow> 'd \<times> f32 list \<Rightarrow> (f32 list, 'e) result \<times> 'd \<times> f32 list" where
  "legacy_step step token_ids s =
     (case s of (d, row) \<Rightarrow>
        case step token_ids d of
          (Ok row, d) \<Rightarrow> (Ok row, (d, row))
        | (Err e, d) \<Rightarrow> (Err e, (d, []))
        | (Panic, d) \<Rightarrow> (Panic, (d, [])))"

text \<open>\<open>RecycledGenerationLogits\<close> lends the same row to every step.\<close>

definition recycled_step ::
  "(u32 list \<Rightarrow> f32 list \<Rightarrow> 'd \<Rightarrow> (unit, 'e) result \<times> f32 list \<times> 'd) \<Rightarrow>
     u32 list \<Rightarrow> 'd \<times> f32 list \<Rightarrow> (f32 list, 'e) result \<times> 'd \<times> f32 list" where
  "recycled_step step_into token_ids s =
     (case s of (d, row) \<Rightarrow>
        case step_into token_ids row d of
          (Ok _, row, d) \<Rightarrow> (Ok row, (d, row))
        | (Err e, row, d) \<Rightarrow> (Err e, (d, row))
        | (Panic, row, d) \<Rightarrow> (Panic, (d, row)))"

definition legacy_port ::
  "('d \<Rightarrow> bool \<times> 'd) \<Rightarrow> (u32 list \<Rightarrow> 'd \<Rightarrow> (f32 list, 'e) result \<times> 'd) \<Rightarrow> ('d \<times> f32 list, 'e) port" where
  "legacy_port is_cancelled step =
     \<lparr>po_cancelled = (\<lambda>(d, row). case is_cancelled d of (c, d) \<Rightarrow> (c, (d, row))), po_step = legacy_step step\<rparr>"

definition recycled_port ::
  "('d \<Rightarrow> bool \<times> 'd) \<Rightarrow> (u32 list \<Rightarrow> f32 list \<Rightarrow> 'd \<Rightarrow> (unit, 'e) result \<times> f32 list \<times> 'd) \<Rightarrow> ('d \<times> f32 list, 'e) port" where
  "recycled_port is_cancelled step_into =
     \<lparr>po_cancelled = (\<lambda>(d, row). case is_cancelled d of (c, d) \<Rightarrow> (c, (d, row))), po_step = recycled_step step_into\<rparr>"

subsection \<open>The greedy loop\<close>

definition greedy_last_logits :: "f32 list \<Rightarrow> nat \<Rightarrow> u32 text_result" where
  "greedy_last_logits logits vocabulary =
     and_then (require (length logits = vocabulary) (LogitShape (length logits) vocabulary)) (\<lambda>_.
     and_then (map_err DecodeError (greedy logits)) (\<lambda>token_id.
     and_then (require (unat token_id < vocabulary) (LogitShape (unat token_id) vocabulary)) (\<lambda>_. Ok token_id)))"

definition pipeline_check :: "('w, 'e) port \<Rightarrow> boundary \<Rightarrow> 'w \<Rightarrow> (unit, 'e generation_error) result \<times> 'w" where
  "pipeline_check port boundary w =
     (case check_cancelled (po_cancelled port) boundary w of (r, w) \<Rightarrow> (map_err Pipeline r, w))"

definition select_next ::
  "('w, 'e) port \<Rightarrow> u32 list \<Rightarrow> nat \<Rightarrow> 'w \<Rightarrow> (u32, 'e generation_error) result \<times> 'w" where
  "select_next port token_ids vocabulary w =
     proceed (case po_step port token_ids w of (r, w) \<Rightarrow> (map_err Driver r, w)) (\<lambda>row w.
     proceed (pipeline_check port GreedySelection w) (\<lambda>_ w.
       (map_err Pipeline (greedy_last_logits row vocabulary), w)))"

definition map_collective_decode_error :: "tokenize_error \<Rightarrow> text_error" where
  "map_collective_decode_error e =
     (case e of
        DecodeStorageAllocation \<Rightarrow> TextAllocation
      | DecodedByteLimitExceeded limit actual \<Rightarrow> TextLimitExceeded DecodedOutputBytes actual limit
      | e \<Rightarrow> TokenizerError e)"

definition decode_failure :: "tokenize_error \<Rightarrow> 'e generation_error" where
  "decode_failure e = Pipeline (map_collective_decode_error e)"

lemma push_token_id_Ok:
  "push_token_id i s = (Ok u, s') \<Longrightarrow>
     s' = s\<lparr>ds_token_ids := ds_token_ids s @ [i]\<rparr> \<and> length (ds_token_ids s) < ds_token_limit s"
  by (auto simp: push_token_id_def)

text \<open>The loop ends because every round takes one more of the acquired slots.\<close>

function generation_loop ::
  "('w, 'e) port \<Rightarrow> nat \<Rightarrow> u32 list \<Rightarrow> nat \<Rightarrow> u32 \<Rightarrow> decode_storage \<Rightarrow> 'w \<Rightarrow>
     (finish_reason \<times> decode_storage, 'e generation_error) result \<times> 'w" where
  "generation_loop port vocabulary stop_ids max_output_tokens next_id s w =
     (if next_id \<in> set stop_ids then (Ok (EndOfSequence, s), w)
      else case push_token_id next_id s of
        (Err e, _) \<Rightarrow> (Err (decode_failure e), w)
      | (Panic, _) \<Rightarrow> (Panic, w)
      | (Ok _, s') \<Rightarrow>
          if length (ds_token_ids s') = max_output_tokens then (Ok (OutputLength, s'), w)
          else case pipeline_check port NextStep w of
            (Err e, w) \<Rightarrow> (Err e, w)
          | (Panic, w) \<Rightarrow> (Panic, w)
          | (Ok _, w) \<Rightarrow>
              (case select_next port [next_id] vocabulary w of
                 (Err e, w) \<Rightarrow> (Err e, w)
               | (Panic, w) \<Rightarrow> (Panic, w)
               | (Ok token_id, w) \<Rightarrow>
                   generation_loop port vocabulary stop_ids max_output_tokens token_id s' w))"
  by pat_completeness auto
termination
  by (relation "measure (\<lambda>(port, vocabulary, stop_ids, maximum, next_id, s, w). ds_token_limit s - length (ds_token_ids s))")
    (auto dest!: sym [of "(Ok _, _)" "push_token_id _ _"] push_token_id_Ok)

declare generation_loop.simps [simp del]

definition run_generation ::
  "(nat \<Rightarrow> nat option) \<Rightarrow> text_profile \<Rightarrow> u32 list \<Rightarrow> nat \<Rightarrow> decode_storage_plan \<Rightarrow> ('w, 'e) port \<Rightarrow> 'w \<Rightarrow>
     (generation, 'e generation_error) result \<times> 'w" where
  "run_generation heap profile prompt_token_ids max_output_tokens output_plan port w =
     attempt (map_err decode_failure (storage_acquire heap output_plan)) w (\<lambda>storage.
     proceed (pipeline_check port PromptStep w) (\<lambda>_ w.
     proceed (select_next port prompt_token_ids (tk_vocab_size (tp_tokenizer profile)) w) (\<lambda>next_id w.
     proceed (generation_loop port (tk_vocab_size (tp_tokenizer profile)) (sp_stop_ids (tp_special_tokens profile))
         max_output_tokens next_id storage w) (\<lambda>(finish, storage) w.
     proceed (pipeline_check port OutputDecoding w) (\<lambda>_ w.
     attempt (map_err decode_failure (decode (tk_collective (tp_tokenizer profile)) storage False)) w (\<lambda>(text, token_ids).
     proceed (pipeline_check port Publishing w) (\<lambda>_ w.
       (Ok \<lparr>ge_text = text, ge_token_ids = token_ids, ge_finish_reason = finish\<rparr>, w))))))))"

subsection \<open>Calls of a prepared generation\<close>

definition flatten_legacy_generation_error :: "text_error generation_error \<Rightarrow> text_error" where
  "flatten_legacy_generation_error e = (case e of Pipeline source \<Rightarrow> source | Driver source \<Rightarrow> source)"

definition generate_with_driver ::
  "(nat \<Rightarrow> nat option) \<Rightarrow> prepared_generation \<Rightarrow> ('d \<Rightarrow> bool \<times> 'd) \<Rightarrow>
     (u32 list \<Rightarrow> 'd \<Rightarrow> f32 list text_result \<times> 'd) \<Rightarrow> 'd \<Rightarrow> generation text_result \<times> 'd" where
  "generate_with_driver heap p is_cancelled step d =
     proceed (check_cancelled is_cancelled SessionConstruction d) (\<lambda>_ d.
       case run_generation heap (pg_profile p) (pg_prompt_token_ids p) (pg_max_output_tokens p)
           (pg_output_storage_plan p) (legacy_port is_cancelled step) (d, []) of
         (r, (d, _)) \<Rightarrow> (map_err flatten_legacy_generation_error r, d))"

definition generate_with_recycled_driver ::
  "(nat \<Rightarrow> nat option) \<Rightarrow> prepared_generation \<Rightarrow> ('d \<Rightarrow> bool \<times> 'd) \<Rightarrow>
     (u32 list \<Rightarrow> f32 list \<Rightarrow> 'd \<Rightarrow> (unit, 'e) result \<times> f32 list \<times> 'd) \<Rightarrow> f32 list \<Rightarrow> 'd \<Rightarrow>
     (generation, 'e generation_error) result \<times> 'd" where
  "generate_with_recycled_driver heap p is_cancelled step_into row d =
     (case check_cancelled is_cancelled SessionConstruction d of (r, d) \<Rightarrow>
      proceed (map_err Pipeline r, d) (\<lambda>_ d.
      attempt (map_err Pipeline (recycled_validate_storage (pg_recycled_logits_plan p) row)) d (\<lambda>_.
        case run_generation heap (pg_profile p) (pg_prompt_token_ids p) (pg_max_output_tokens p)
            (pg_output_storage_plan p) (recycled_port is_cancelled step_into) (d, row) of
          (r, (d, _)) \<Rightarrow> (r, d))))"

text \<open>
  \<open>TextPipeline::generate\<close>: preparation and the CPU driver; \<open>session\<close> is the decoder's execution,
  opened only after the check, and \<open>execution_step\<close> its step.
\<close>

definition generate_cpu ::
  "(nat \<Rightarrow> nat option) \<Rightarrow> prepared_generation \<Rightarrow> ('d \<Rightarrow> bool \<times> 'd) \<Rightarrow> ('d \<Rightarrow> bool \<times> 'd) \<Rightarrow>
     (u32 list \<Rightarrow> 'd \<Rightarrow> f32 list option \<times> 'd) \<Rightarrow> 'd \<Rightarrow> generation text_result \<times> 'd" where
  "generate_cpu heap p is_cancelled open_session execution_step d =
     proceed (check_cancelled is_cancelled SessionConstruction d) (\<lambda>_ d.
     proceed (case open_session d of (opened, d) \<Rightarrow> (require opened DecoderError, d)) (\<lambda>_ d.
       case run_generation heap (pg_profile p) (pg_prompt_token_ids p) (pg_max_output_tokens p)
           (pg_output_storage_plan p)
           (legacy_port is_cancelled (\<lambda>ids d. case execution_step ids d of (r, d) \<Rightarrow> (ok_or DecoderError r, d))) (d, []) of
         (r, (d, _)) \<Rightarrow> (map_err flatten_legacy_generation_error r, d)))"

definition pipeline_generate ::
  "(nat \<Rightarrow> nat option) \<Rightarrow> (text_profile \<Rightarrow> generation_request \<Rightarrow> bytes text_result) \<Rightarrow> (nat \<Rightarrow> nat \<Rightarrow> bool) \<Rightarrow>
     ('d \<Rightarrow> bool \<times> 'd) \<Rightarrow> ('d \<Rightarrow> bool \<times> 'd) \<Rightarrow> (u32 list \<Rightarrow> 'd \<Rightarrow> f32 list option \<times> 'd) \<Rightarrow>
     text_profile \<Rightarrow> generation_request \<Rightarrow> 'd \<Rightarrow> generation text_result \<times> 'd" where
  "pipeline_generate heap render execution_plan is_cancelled open_session execution_step profile r d =
     proceed (prepare heap render execution_plan is_cancelled profile r d) (\<lambda>p d.
       generate_cpu heap p is_cancelled open_session execution_step d)"

end
