(* ===== verification/Token_Writing.thy ===== *)
theory Token_Writing
  imports Token_Stages
begin

text \<open>
  What a token buffer holds: the tokens written so far and the bytes of the token being written, as
  one state from which every call of the buffer is a rewriting step while there is room. Loops over
  the spans of a buffer become loops over its tokens, and loops that only add are evaluated once in
  the locale \<open>appender\<close>, which is interpreted for the tokens of a buffer and for the bytes of a token.
\<close>

subsection \<open>Contents\<close>

fun spans_of :: "nat \<Rightarrow> bytes list \<Rightarrow> token_span list" where
  "spans_of pos [] = []"
| "spans_of pos (t # ts) = \<lparr>ts_start = pos, ts_end = pos + length t\<rparr> # spans_of (pos + length t) ts"

lemma spans_of_append: "spans_of pos (ts @ us) = spans_of pos ts @ spans_of (pos + length (concat ts)) us"
  by (induction ts arbitrary: pos) (simp_all add: add.assoc)

lemma length_spans_of [simp]: "length (spans_of pos ts) = length ts"
  by (induction ts arbitrary: pos) simp_all

definition filled :: "token_buffer \<Rightarrow> bytes list \<Rightarrow> bytes \<Rightarrow> token_buffer" where
  "filled b ts part = b\<lparr>tb_bytes := concat ts @ part, tb_spans := spans_of 0 ts\<rparr>"

definition byte_room :: "token_buffer \<Rightarrow> nat" where
  "byte_room b = min (tb_byte_limit b) (tb_byte_capacity b)"

definition span_room :: "token_buffer \<Rightarrow> nat" where
  "span_room b = min (tb_span_limit b) (tb_span_capacity b)"

text \<open>A buffer the target can hold: its limits fit \<open>usize\<close>.\<close>

definition sized :: "token_buffer \<Rightarrow> bool" where
  "sized b \<longleftrightarrow> byte_room b < 2 ^ 64 \<and> span_room b < 2 ^ 64"

definition fits :: "token_buffer \<Rightarrow> bytes list \<Rightarrow> bool" where
  "fits b ts \<longleftrightarrow> length (concat ts) \<le> byte_room b \<and> length ts \<le> span_room b"

lemma fits_prefix: "fits b (ts @ us) \<Longrightarrow> fits b ts"
  by (simp add: fits_def)

lemma room_filled [simp]:
  "byte_room (filled b ts part) = byte_room b" "span_room (filled b ts part) = span_room b"
  "sized (filled b ts part) = sized b" "fits (filled b ts part) us = fits b us"
  "filled (filled b ts part) us q = filled b us q"
  "length (tb_spans (filled b ts part)) = length ts" "tb_spans (filled b ts part) = spans_of 0 ts"
  "tb_bytes (filled b ts part) = concat ts @ part"
  by (simp_all add: filled_def byte_room_def span_room_def sized_def fits_def)

lemma buffer_clear_filled: "buffer_clear b = filled b [] []"
  by (simp add: buffer_clear_def filled_def)

lemma begin_token_filled:
  "sized b \<Longrightarrow> length ts < span_room b \<Longrightarrow> begin_token (filled b ts part) = Ok (length (concat ts @ part))"
  by (auto simp: begin_token_def filled_def span_room_def sized_def min_def split: if_splits)

lemma append_str_filled:
  assumes "sized b" and "length (concat ts) + length part + length t \<le> byte_room b"
  shows "append_str t (filled b ts part) = (Ok (), filled b ts (part @ t))"
  using assms by (auto simp: append_str_def filled_def byte_room_def sized_def min_def split: if_splits)

lemma finish_token_filled:
  "sized b \<Longrightarrow> length ts < span_room b \<Longrightarrow>
     finish_token (length (concat ts)) (filled b ts part) = (Ok (), filled b (ts @ [part]) [])"
  by (auto simp: finish_token_def filled_def span_room_def sized_def spans_of_append min_def split: if_splits)

text \<open>A whole token: \<open>begin_token\<close>, whatever fills it, \<open>finish_token\<close>.\<close>

lemma token_filled:
  assumes "sized b" and "fits b (ts @ [t])"
    and "writes (filled b ts []) = (Ok (), filled b ts t)"
  shows "attempt (begin_token (filled b ts [])) (filled b ts []) (\<lambda>start.
      proceed (writes (filled b ts [])) (\<lambda>_ b. finish_token start b)) = (Ok (), filled b (ts @ [t]) [])"
  using assms begin_token_filled [of b ts "[]"] finish_token_filled [of b ts t] by (simp add: fits_def)

lemma push_str_filled:
  assumes "sized b" and "fits b (ts @ [t])"
  shows "push_str t (filled b ts []) = (Ok (), filled b (ts @ [t]) [])"
  unfolding push_str_def
  by (rule token_filled [OF assms, where writes = "append_str t"]) (use assms append_str_filled [of b ts "[]" t] in \<open>simp add: fits_def\<close>)

subsection \<open>Loops that only add\<close>

locale appender =
  fixes put :: "'a list \<Rightarrow> 'b"
    and fitting :: "'a list \<Rightarrow> bool"
    and add_one :: "'a \<Rightarrow> 'b \<Rightarrow> unit tok \<times> 'b"
  assumes fitting_prefix: "fitting (xs @ ys) \<Longrightarrow> fitting xs"
    and adds: "fitting (xs @ [x]) \<Longrightarrow> add_one x (put xs) = (Ok (), put (xs @ [x]))"
begin

lemma each_adds:
  assumes "\<And>x ys. x \<in> set xs \<Longrightarrow> fitting (ys @ f x) \<Longrightarrow> body x (put ys) = (Ok (), put (ys @ f x))"
    and "fitting (ys @ concat (map f xs))"
  shows "each body xs (put ys) = (Ok (), put (ys @ concat (map f xs)))"
  using assms
proof (induction xs arbitrary: ys)
  case (Cons x xs)
  have "fitting (ys @ f x)" using Cons.prems(2) fitting_prefix [of "ys @ f x" "concat (map f xs)"] by simp
  moreover have "each body xs (put (ys @ f x)) = (Ok (), put ((ys @ f x) @ concat (map f xs)))"
    by (rule Cons.IH) (use Cons.prems in \<open>simp_all add: Cons.prems(1)\<close>)
  ultimately show ?case by (simp add: Cons.prems(1))
qed simp

lemma each_adds_one: "fitting (ys @ xs) \<Longrightarrow> each add_one xs (put ys) = (Ok (), put (ys @ xs))"
  using each_adds [of xs "\<lambda>x. [x]" add_one ys] adds by (simp add: concat_map_singleton)

lemma each_maps:
  assumes "\<And>x ys. x \<in> set xs \<Longrightarrow> fitting (ys @ [g x]) \<Longrightarrow> body x (put ys) = (Ok (), put (ys @ [g x]))"
    and "fitting (ys @ map g xs)"
  shows "each body xs (put ys) = (Ok (), put (ys @ map g xs))"
  using each_adds [of xs "\<lambda>x. [g x]" body ys] assms by (simp add: concat_map_singleton)

lemma adds_if:
  "fitting (ys @ (if c then [x] else [])) \<Longrightarrow>
     (if c then add_one x (put ys) else (Ok (), put ys)) = (Ok (), put (ys @ (if c then [x] else [])))"
  by (cases c) (simp_all add: adds)

end

interpretation tokens: appender "\<lambda>ts. filled b ts []" "\<lambda>ts. sized b \<and> fits b ts" push_str for b
  by unfold_locales (auto intro: fits_prefix push_str_filled)

interpretation part: appender "\<lambda>p. filled b ts p"
    "\<lambda>p. sized b \<and> length (concat ts) + length p \<le> byte_room b" "\<lambda>x. append_str [x]" for b ts
  by unfold_locales (simp_all add: append_str_filled)

subsection \<open>Reading\<close>

lemma span_text_spans_of:
  "list_all utf8_valid ts \<Longrightarrow>
     list_all2 (\<lambda>span t. span_text (pre @ concat ts @ post) span = Ok t) (spans_of (length pre) ts) ts"
proof (induction ts arbitrary: pre)
  case (Cons t ts)
  show ?case using Cons.prems Cons.IH [of "pre @ t"] by (simp add: span_text_def)
qed simp

lemma reads_filled:
  "list_all utf8_valid us \<Longrightarrow>
     list_all2 (\<lambda>span u. buffer_token (filled s us part) span = Ok u) (spans_of 0 us) us"
  using span_text_spans_of [of us "[]" part] by (simp add: buffer_token_def)

lemma each_reads:
  "list_all2 (\<lambda>span u. buffer_token s span = Ok u) spans us \<Longrightarrow>
     each (\<lambda>span b. attempt (buffer_token s span) b (\<lambda>token. body token b)) spans b = each body us b"
proof (induction spans us arbitrary: b rule: list_all2_induct)
  case (Cons span spans u us)
  then show ?case by (cases "body u b"; cases "fst (body u b)") auto
qed simp

lemma each_token_filled: "list_all utf8_valid us \<Longrightarrow> each_token (filled s us part) body b = each body us b"
  using each_reads [OF reads_filled, of us s part body b] by (simp add: each_token_def)

lemma each_reads_indexed:
  "list_all2 (\<lambda>span u. buffer_token s span = Ok u) spans us \<Longrightarrow>
     each (\<lambda>(i, span) b. attempt (buffer_token s span) b (\<lambda>token. body i token b)) (enumerate n spans) b =
     each (\<lambda>(i, u) b. body i u b) (enumerate n us) b"
proof (induction spans us arbitrary: b n rule: list_all2_induct)
  case (Cons span spans u us)
  then show ?case by (cases "body n u b"; cases "fst (body n u b)") auto
qed simp

lemma each_indexed_token_filled:
  "list_all utf8_valid us \<Longrightarrow>
     each_indexed_token (filled s us part) body b = each (\<lambda>(i, u) b. body i u b) (enumerate 0 us) b"
  using each_reads_indexed [OF reads_filled, of us s part body 0 b] by (simp add: each_indexed_token_def)

end
