(* ===== verification/Token_Replacing.thy ===== *)
theory Token_Replacing
  imports Token_Writing
begin

text \<open>
  Replacement inside one token: what \<open>replace_token\<close> writes for a list of matches, that the matches
  of a literal pattern are such a list and give the leftmost replacement, and how long the result is.
\<close>

lemma char_boundary_drop:
  "char_boundary t i \<Longrightarrow> prev \<le> i \<Longrightarrow> i \<le> length t \<Longrightarrow> char_boundary (drop prev t) (i - prev)"
  by (auto simp: char_boundary_def)

lemma char_boundary_0 [simp]: "char_boundary t 0"
  by (simp add: char_boundary_def)

lemma char_boundary_length [simp]: "char_boundary t (length t)"
  by (simp add: char_boundary_def)

subsection \<open>Matches of a token\<close>

fun spliced :: "bytes \<Rightarrow> bytes \<Rightarrow> (nat \<times> nat) list \<Rightarrow> nat \<Rightarrow> bytes" where
  "spliced token content [] previous = drop previous token"
| "spliced token content ((start, end_of) # ms) previous =
     take (start - previous) (drop previous token) @ content @ spliced token content ms end_of"

text \<open>Disjoint matches in order, at character boundaries.\<close>

fun matches_ok :: "bytes \<Rightarrow> nat \<Rightarrow> (nat \<times> nat) list \<Rightarrow> bool" where
  "matches_ok token previous [] \<longleftrightarrow> previous \<le> length token \<and> char_boundary token previous"
| "matches_ok token previous ((start, end_of) # ms) \<longleftrightarrow>
     previous \<le> start \<and> start \<le> end_of \<and> char_boundary token previous \<and> char_boundary token start \<and>
     matches_ok token end_of ms"

lemma matches_ok_le: "matches_ok token previous ms \<Longrightarrow> previous \<le> length token \<and> char_boundary token previous"
  by (induction token previous ms rule: matches_ok.induct) auto

lemma text_range_Ok:
  "start \<le> end_of \<Longrightarrow> end_of \<le> length t \<Longrightarrow> char_boundary t start \<Longrightarrow> char_boundary t end_of \<Longrightarrow>
     text_range t start end_of = Ok (take (end_of - start) (drop start t))"
  by (simp add: text_range_def)

lemma replace_matches_filled:
  assumes "sized b" and "matches_ok token previous ms"
    and "length (concat ts) + length p + length (spliced token content ms previous) \<le> byte_room b"
  shows "replace_matches token content ms previous (filled b ts p) =
      (Ok (), filled b ts (p @ spliced token content ms previous))"
  using assms(2,3)
proof (induction token content ms previous "filled b ts p" arbitrary: p rule: replace_matches.induct)
  case (1 token content previous)
  then show ?case using assms(1) by (simp add: text_range_Ok append_str_filled)
next
  case (2 token content start end_of ms previous)
  let ?gap = "take (start - previous) (drop previous token)"
  have le: "start \<le> length token" using matches_ok_le [of token end_of ms] 2(2) by simp
  have "text_range token previous start = Ok ?gap" using 2(2) le by (simp add: text_range_Ok)
  moreover have "append_str ?gap (filled b ts p) = (Ok (), filled b ts (p @ ?gap))"
    by (rule append_str_filled [OF assms(1)]) (use 2(3) in simp)
  moreover have "append_str content (filled b ts (p @ ?gap)) = (Ok (), filled b ts ((p @ ?gap) @ content))"
    by (rule append_str_filled [OF assms(1)]) (use 2(3) in simp)
  moreover have "replace_matches token content ms end_of (filled b ts ((p @ ?gap) @ content)) =
      (Ok (), filled b ts (((p @ ?gap) @ content) @ spliced token content ms end_of))"
    by (rule 2(1)) (use 2(2,3) in simp_all)
  ultimately show ?case by simp
qed

lemma replace_token_filled:
  assumes "sized b" and "matches_ok token 0 ms" and "fits b (ts @ [spliced token content ms 0])"
  shows "replace_token token ms content (filled b ts []) = (Ok (), filled b (ts @ [spliced token content ms 0]) [])"
  unfolding replace_token_def
  by (rule token_filled [OF assms(1,3)])
    (use replace_matches_filled [OF assms(1,2), of ts "[]" content] assms(3) in \<open>simp add: fits_def\<close>)

lemma spliced_valid:
  "matches_ok token previous ms \<Longrightarrow> utf8_valid token \<Longrightarrow> utf8_valid content \<Longrightarrow> utf8_valid (spliced token content ms previous)"
proof (induction token content ms previous rule: spliced.induct)
  case (1 token content previous)
  then show ?case by (simp add: char_boundary_take_drop)
next
  case (2 token content start end_of ms previous)
  have "start \<le> length token" using matches_ok_le [of token end_of ms] 2(2) by simp
  then have "char_boundary (drop previous token) (start - previous)" using 2(2) by (intro char_boundary_drop) simp_all
  moreover have "utf8_valid (drop previous token)" using 2(2,3) by (simp add: char_boundary_take_drop)
  ultimately have "utf8_valid (take (start - previous) (drop previous token))" by (simp add: char_boundary_take_drop(1))
  then show ?case using 2 by (simp add: utf8_valid_append)
qed

lemma length_spliced:
  "matches_ok token previous ms \<Longrightarrow>
     length (spliced token content ms previous) \<le> length token - previous + length ms * length content"
proof (induction token content ms previous rule: spliced.induct)
  case (2 token content start end_of ms previous)
  have "end_of \<le> length token" using matches_ok_le [of token end_of ms] 2(2) by simp
  then show ?case using 2 by (auto simp: min_def)
qed simp

subsection \<open>Literal patterns\<close>

text \<open>Replacement of a nonempty pattern, from the left.\<close>

function replace_literal :: "bytes \<Rightarrow> bytes \<Rightarrow> bytes \<Rightarrow> bytes" where
  "replace_literal pattern content t =
     (if pattern \<noteq> [] \<and> prefix pattern t
      then content @ replace_literal pattern content (drop (length pattern) t)
      else case t of [] \<Rightarrow> [] | b # rest \<Rightarrow> b # replace_literal pattern content rest)"
  by pat_completeness auto
termination
proof (relation "measure (\<lambda>(pattern, content, t). length t)")
  fix pattern t content :: bytes
  assume "pattern \<noteq> [] \<and> prefix pattern t"
  then show "((pattern, content, drop (length pattern) t), (pattern, content, t))
      \<in> measure (\<lambda>(pattern, content, t). length t)"
    using prefix_length_le [of pattern t] by (cases pattern) auto
qed simp_all

declare replace_literal.simps [simp del] literal_matches.simps [simp del]

text \<open>\<open>str::replace\<close>: an empty pattern matches at every character boundary.\<close>

definition replaced :: "bytes \<Rightarrow> bytes \<Rightarrow> bytes \<Rightarrow> bytes" where
  "replaced pattern content t =
     (if pattern = [] then content @ concat (map (\<lambda>c. c @ content) (utf8_chars t))
      else replace_literal pattern content t)"

lemma literal_matches_splice:
  assumes "utf8_valid (pre @ t)" and "utf8_valid pattern" and "pattern \<noteq> []"
    and "previous \<le> length pre" and "char_boundary (pre @ t) previous"
  shows "spliced (pre @ t) content (map (\<lambda>i. (i, i + length pattern)) (literal_matches pattern (length pre) t)) previous =
      drop previous pre @ replace_literal pattern content t \<and>
    matches_ok (pre @ t) previous (map (\<lambda>i. (i, i + length pattern)) (literal_matches pattern (length pre) t))"
  using assms(1,4,5)
proof (induction t arbitrary: pre previous rule: length_induct)
  case (1 t)
  show ?case
  proof (cases "prefix pattern t")
    case True
    then obtain rest where t: "t = pattern @ rest" by (auto simp: prefix_def)
    obtain p ps where p: "pattern = p # ps" using assms(3) by (cases pattern) auto
    have "\<not> utf8_tail p" using char_boundary_append [OF assms(2), of "[]"] assms(2)
      by (metis p list.sel(1) list.discI utf8_next_Character(4) utf8_valid_next)
    then have at: "char_boundary (pre @ t) (length pre)" by (simp add: char_boundary_def t p nth_append)
    have "utf8_valid (pattern @ rest)" using char_boundary_take_drop(2) [OF 1(2) at] t by simp
    then have "utf8_valid rest" by (rule utf8_valid_rest [OF assms(2)])
    then have after: "char_boundary ((pre @ pattern) @ rest) (length (pre @ pattern))" by (rule char_boundary_append)
    have "length rest < length t" using t assms(3) by simp
    then have "spliced ((pre @ pattern) @ rest) content
          (map (\<lambda>i. (i, i + length pattern)) (literal_matches pattern (length (pre @ pattern)) rest)) (length (pre @ pattern)) =
        drop (length (pre @ pattern)) (pre @ pattern) @ replace_literal pattern content rest \<and>
      matches_ok ((pre @ pattern) @ rest) (length (pre @ pattern))
          (map (\<lambda>i. (i, i + length pattern)) (literal_matches pattern (length (pre @ pattern)) rest))"
      using 1(2) after t by (intro 1(1) [rule_format]) simp_all
    then show ?thesis
      using 1(3,4) True at assms(3) t
      by (subst replace_literal.simps, subst literal_matches.simps, subst literal_matches.simps) simp
  next
    case nomatch: False
    show ?thesis
    proof (cases t)
      case Nil
      then show ?thesis
        using nomatch 1(3,4) assms(3)
        by (simp add: replace_literal.simps [of pattern content "[]"] literal_matches.simps [of pattern _ "[]"])
    next
      case (Cons b rest)
      have "spliced ((pre @ [b]) @ rest) content
            (map (\<lambda>i. (i, i + length pattern)) (literal_matches pattern (length (pre @ [b])) rest)) previous =
          drop previous (pre @ [b]) @ replace_literal pattern content rest \<and>
        matches_ok ((pre @ [b]) @ rest) previous
            (map (\<lambda>i. (i, i + length pattern)) (literal_matches pattern (length (pre @ [b])) rest))"
        using 1 Cons by (intro 1(1) [rule_format]) simp_all
      then show ?thesis
        using nomatch Cons 1(3)
        by (subst replace_literal.simps, subst literal_matches.simps, subst literal_matches.simps) simp
    qed
  qed
qed

lemma boundaries_splice:
  assumes "list_all utf8_valid cs" and "previous \<le> length pre" and "char_boundary (pre @ concat cs) previous"
  shows "spliced (pre @ concat cs) content (map (\<lambda>i. (i, i)) (boundaries_from (length pre) cs)) previous =
      drop previous pre @ content @ concat (map (\<lambda>c. c @ content) cs) \<and>
    matches_ok (pre @ concat cs) previous (map (\<lambda>i. (i, i)) (boundaries_from (length pre) cs))"
  using assms
proof (induction cs arbitrary: pre previous)
  case (Cons c cs)
  have "char_boundary (pre @ concat (c # cs)) (length pre)"
    by (rule char_boundary_append) (rule utf8_valid_concat [OF Cons.prems(1)])
  moreover from this have "spliced ((pre @ c) @ concat cs) content (map (\<lambda>i. (i, i)) (boundaries_from (length (pre @ c)) cs)) (length pre) =
      drop (length pre) (pre @ c) @ content @ concat (map (\<lambda>c. c @ content) cs) \<and>
    matches_ok ((pre @ c) @ concat cs) (length pre) (map (\<lambda>i. (i, i)) (boundaries_from (length (pre @ c)) cs))"
    by (intro Cons.IH) (use Cons.prems in simp_all)
  ultimately show ?case using Cons.prems by simp
qed simp

lemma match_indices_splice:
  assumes "utf8_valid t" and "utf8_valid pattern"
  shows "spliced t content (match_indices pattern t) 0 = replaced pattern content t"
    and "matches_ok t 0 (match_indices pattern t)"
proof -
  have "list_all utf8_valid (utf8_chars t)" using utf8_chars_valid [OF assms(1)] by (auto simp: list_all_iff)
  then have "spliced t content (match_indices pattern t) 0 = replaced pattern content t \<and> matches_ok t 0 (match_indices pattern t)"
    using boundaries_splice [of "utf8_chars t" 0 "[]" content] literal_matches_splice [of "[]" t pattern 0 content] assms
    by (simp add: match_indices_def replaced_def concat_utf8_chars)
  then show "spliced t content (match_indices pattern t) 0 = replaced pattern content t"
    and "matches_ok t 0 (match_indices pattern t)" by simp_all
qed

lemma replaced_valid: "utf8_valid t \<Longrightarrow> utf8_valid pattern \<Longrightarrow> utf8_valid content \<Longrightarrow> utf8_valid (replaced pattern content t)"
  using spliced_valid [OF match_indices_splice(2)] match_indices_splice(1) by metis

lemma replace_literal_token_filled:
  assumes "sized b" and "utf8_valid t" and "utf8_valid pattern" and "fits b (ts @ [replaced pattern content t])"
  shows "replace_literal_token t pattern content (filled b ts []) = (Ok (), filled b (ts @ [replaced pattern content t]) [])"
  using replace_token_filled [OF assms(1) match_indices_splice(2) [OF assms(2,3)], of ts content] assms(2-4)
  by (simp add: replace_literal_token_def match_indices_splice)

subsection \<open>Lengths\<close>

lemma length_replace_literal:
  assumes "pattern \<noteq> []"
  shows "length (replace_literal pattern content t) \<le>
      length t + length t div length pattern * (length content - length pattern)"
proof (induction t rule: length_induct)
  case (1 t)
  let ?x = "length content - length pattern"
  show ?case
  proof (cases "prefix pattern t")
    case True
    then obtain rest where t: "t = pattern @ rest" by (auto simp: prefix_def)
    have "length (replace_literal pattern content rest) \<le> length rest + length rest div length pattern * ?x"
      using 1 t assms by simp
    moreover have "length t div length pattern = 1 + length rest div length pattern"
      using div_add_self1 [of "length pattern" "length rest"] t assms by simp
    ultimately show ?thesis using t assms True by (subst replace_literal.simps) simp
  next
    case nomatch: False
    show ?thesis
    proof (cases t)
      case (Cons b rest)
      have "length (replace_literal pattern content rest) \<le> length rest + length rest div length pattern * ?x"
        using 1 Cons by simp
      moreover have "length rest div length pattern * ?x \<le> length t div length pattern * ?x"
        using Cons by (intro mult_le_mono1 div_le_mono) simp
      moreover have "length t = Suc (length rest)" using Cons by simp
      ultimately have "Suc (length (replace_literal pattern content rest)) \<le> length t + length t div length pattern * ?x"
        by linarith
      then show ?thesis using nomatch Cons by (subst replace_literal.simps) simp
    qed (use nomatch in \<open>simp add: replace_literal.simps [of pattern content "[]"]\<close>)
  qed
qed

lemma length_replaced_empty:
  assumes "utf8_valid t"
  shows "length (replaced [] content t) \<le> length t + (length t + 1) * length content"
proof -
  have "length (concat (map (\<lambda>c. c @ content) cs)) = length (concat cs) + length cs * length content" for cs
    by (induction cs) simp_all
  then have "length (replaced [] content t) = length t + (length (utf8_chars t) + 1) * length content"
    by (simp add: replaced_def concat_utf8_chars [OF assms])
  also have "\<dots> \<le> length t + (length t + 1) * length content" using length_utf8_chars [OF assms] by simp
  finally show ?thesis .
qed

lemma length_distinct_matches:
  assumes "matches_ok token 0 ms" and "sorted_wrt (<) (map fst ms)"
  shows "length ms \<le> length token + 1"
proof -
  have "set (map fst ms) \<subseteq> {0..length token}"
    using assms(1)
  proof (induction token "0::nat" ms rule: matches_ok.induct)
    case (2 token start end_of ms)
    have "matches_ok token p ms \<Longrightarrow> set (map fst ms) \<subseteq> {0..length token}" for p ms
      by (induction token p ms rule: matches_ok.induct) (use matches_ok_le in \<open>fastforce\<close>)+
    then show ?case using 2(2) by blast
  qed simp
  moreover have "distinct (map fst ms)" using assms(2) strict_sorted_iff by blast
  ultimately have "length (map fst ms) \<le> card {0..length token}"
    by (metis card_mono distinct_card finite_atLeastAtMost)
  then show ?thesis by simp
qed

end
