(* ===== verification/Token_Meaning.thy ===== *)
theory Token_Meaning
  imports Token_Replacing
begin

text \<open>
  The meaning of a decoder: what each stage makes of a list of tokens, without buffers, limits or
  offsets, and that each stage of the code writes exactly that while the buffer has room for it.
\<close>

subsection \<open>What the stages mean\<close>

fun bpe_text :: "bytes \<Rightarrow> bytes list \<Rightarrow> bytes list" where
  "bpe_text ending [] = []"
| "bpe_text ending [t] = [replaced ending [] t]"
| "bpe_text ending (t # ts) = replaced ending [32] t # bpe_text ending ts"

fun wordpiece_text :: "bytes \<Rightarrow> bytes list \<Rightarrow> bytes list" where
  "wordpiece_text pre [] = []"
| "wordpiece_text pre (t # ts) = t # map (\<lambda>u. if prefix pre u then drop (length pre) u else 32 # u) ts"

definition metaspaced :: "bytes \<Rightarrow> bytes \<Rightarrow> bytes \<Rightarrow> bytes" where
  "metaspaced replacement space t = concat (map (\<lambda>c. if c = replacement then space else c) (utf8_chars t))"

fun metaspace_text :: "bytes \<Rightarrow> bool \<Rightarrow> bytes list \<Rightarrow> bytes list" where
  "metaspace_text replacement trim_first [] = []"
| "metaspace_text replacement trim_first (t # ts) =
     metaspaced replacement (if trim_first then [] else [32]) t # map (metaspaced replacement [32]) ts"

text \<open>At most so many copies of a character are taken off either end.\<close>

definition stripped :: "bytes \<Rightarrow> nat \<Rightarrow> nat \<Rightarrow> bytes \<Rightarrow> bytes" where
  "stripped content start stop t =
     (let cs = utf8_chars t in
      concat (drop (min start (length (takeWhile ((=) content) cs)))
        (take (length cs - min stop (length (takeWhile ((=) content) (rev cs)))) cs)))"

definition fallback_run :: "bytes \<Rightarrow> bytes list" where
  "fallback_run raw =
     (if raw = [] then [] else if utf8_valid raw then [raw] else replicate (length raw) replacement_character)"

fun fallback_text :: "bytes \<Rightarrow> bytes list \<Rightarrow> bytes list" where
  "fallback_text pending [] = fallback_run pending"
| "fallback_text pending (t # ts) =
     (case fallback_byte t of
        Some byte \<Rightarrow> fallback_text (pending @ [byte]) ts
      | None \<Rightarrow> fallback_run pending @ t # fallback_text [] ts)"

definition level_bytes :: "bytes \<Rightarrow> bytes" where
  "level_bytes t =
     (if list_all (\<lambda>c. byte_level_byte c \<noteq> None) (utf8_chars t) then map (the \<circ> byte_level_byte) (utf8_chars t) else t)"

definition stage_text :: "stage \<Rightarrow> bytes list \<Rightarrow> bytes list" where
  "stage_text st ts =
     (case st of
        Bpe ending \<Rightarrow> bpe_text ending ts
      | ByteLevel \<Rightarrow> [lossy (concat (map level_bytes ts))]
      | WordPiecePrefix pre \<Rightarrow> wordpiece_text pre ts
      | Metaspace replacement trim_first \<Rightarrow> metaspace_text replacement trim_first ts
      | CtcDeduplicate \<Rightarrow> remdups_adj ts
      | FilterEmpty \<Rightarrow> filter (\<lambda>t. t \<noteq> []) ts
      | ReplaceLiteral pattern content empty_input_matches \<Rightarrow>
          map (\<lambda>t. if t = [] \<and> \<not> empty_input_matches then [] else replaced pattern content t) ts
      | ReplaceRegex find_iter content \<Rightarrow> map (\<lambda>t. if t = [] then [] else spliced t content (find_iter t) 0) ts
      | Fuse \<Rightarrow> [concat ts]
      | Strip content start stop \<Rightarrow> map (stripped content start stop) ts
      | ByteFallback \<Rightarrow> fallback_text [] ts)"

definition output_text :: "bool \<Rightarrow> bytes list \<Rightarrow> bytes" where
  "output_text join_with_spaces ts =
     (if join_with_spaces then (case ts of [] \<Rightarrow> [] | t # us \<Rightarrow> t @ concat (map (\<lambda>u. 32 # u) us)) else concat ts)"

text \<open>
  What is required of a stage's parts: texts are UTF-8, and a regular expression finds disjoint
  matches at character boundaries, from left to right, no two of them at the same place.
\<close>

definition regex_ok :: "regex \<Rightarrow> bool" where
  "regex_ok find_iter \<longleftrightarrow>
     (\<forall>t. utf8_valid t \<longrightarrow> matches_ok t 0 (find_iter t) \<and> sorted_wrt (<) (map fst (find_iter t)))"

definition stage_ok :: "stage \<Rightarrow> bool" where
  "stage_ok st =
     (case st of
        Bpe ending \<Rightarrow> utf8_valid ending
      | WordPiecePrefix pre \<Rightarrow> utf8_valid pre
      | ReplaceLiteral pattern content _ \<Rightarrow> utf8_valid pattern \<and> utf8_valid content
      | ReplaceRegex find_iter content \<Rightarrow> regex_ok find_iter \<and> utf8_valid content
      | _ \<Rightarrow> True)"

subsection \<open>Stages that rewrite token by token\<close>

lemma bpe_enumerate:
  "map (\<lambda>(i, t). replaced ending (if i = n + length us - 1 then [] else [32]) t) (enumerate n us) = bpe_text ending us"
proof (induction ending us arbitrary: n rule: bpe_text.induct)
  case (3 ending t u us)
  then show ?case using "3.IH" [of "Suc n"] by simp
qed simp_all

lemma ascii_valid_1 [simp]: "utf8_valid [32]"
  by (simp add: utf8_valid.simps)

lemma apply_bpe_filled:
  assumes "sized b" and "list_all utf8_valid us" and "utf8_valid ending" and "fits b (bpe_text ending us)"
  shows "apply_bpe (filled s us []) (filled b [] []) ending = (Ok (), filled b (bpe_text ending us) [])"
proof -
  define g where "g = (\<lambda>(i, t). replaced ending (if i = length us - 1 then [] else [32]) t)"
  have g: "map g (enumerate 0 us) = bpe_text ending us" using bpe_enumerate [of ending 0 us] by (simp add: g_def)
  have "each (\<lambda>(i, u). replace_literal_token u ending (if i = length us - 1 then [] else [32])) (enumerate 0 us)
      (filled b [] []) = (Ok (), filled b ([] @ map g (enumerate 0 us)) [])"
  proof (rule tokens.each_maps)
    fix x ts
    assume "x \<in> set (enumerate 0 us)" and "sized b \<and> fits b (ts @ [g x])"
    moreover obtain i u where "x = (i, u)" by (cases x)
    ultimately show "(case x of (i, u) \<Rightarrow> replace_literal_token u ending (if i = length us - 1 then [] else [32])) (filled b ts []) =
        (Ok (), filled b (ts @ [g x]) [])"
      using assms(2,3) by (auto simp: g_def list_all_length in_set_enumerate_eq intro!: replace_literal_token_filled)
  qed (use assms g in simp)
  then show ?thesis
    using g by (simp add: apply_bpe_def each_indexed_token_filled [OF assms(2)] case_prod_unfold)
qed

lemma wordpiece_enumerate:
  "map (\<lambda>(i, t). if i = 0 then t else if prefix pre t then drop (length pre) t else 32 # t) (enumerate 0 us) =
     wordpiece_text pre us"
proof (cases us)
  case (Cons u us')
  have "map (\<lambda>(i, t). if i = 0 then t else if prefix pre t then drop (length pre) t else 32 # t) (enumerate (Suc n) vs) =
      map (\<lambda>u. if prefix pre u then drop (length pre) u else 32 # u) vs" for n vs
    by (induction vs arbitrary: n) simp_all
  then show ?thesis using Cons by simp
qed simp

lemma space_token_filled:
  assumes "sized b" and "fits b (ts @ [32 # t])"
  shows "attempt (begin_token (filled b ts [])) (filled b ts []) (\<lambda>start.
      proceed (append_str [32] (filled b ts [])) (\<lambda>_ b. proceed (append_str t b) (\<lambda>_ b. finish_token start b))) =
      (Ok (), filled b (ts @ [32 # t]) [])"
  using assms append_str_filled [OF assms(1), of ts "[]" "[32]"] append_str_filled [OF assms(1), of ts "[32]" t]
    begin_token_filled [OF assms(1), of ts "[]"] finish_token_filled [OF assms(1), of ts "32 # t"]
  by (simp add: fits_def)

lemma apply_wordpiece_filled:
  assumes "sized b" and "list_all utf8_valid us" and "fits b (wordpiece_text pre us)"
  shows "apply_wordpiece (filled s us []) (filled b [] []) pre = (Ok (), filled b (wordpiece_text pre us) [])"
proof -
  define g :: "nat \<times> bytes \<Rightarrow> bytes"
    where "g = (\<lambda>(i, t). if i = 0 then t else if prefix pre t then drop (length pre) t else 32 # t)"
  have g: "map g (enumerate 0 us) = wordpiece_text pre us" unfolding g_def by (rule wordpiece_enumerate)
  define body where "body = (\<lambda>(index :: nat, token) b.
      if index = 0 then push_str token b
      else if prefix pre token then push_str (drop (length pre) token) b
      else attempt (begin_token b) b (\<lambda>start.
        proceed (append_str [32] b) (\<lambda>_ b. proceed (append_str token b) (\<lambda>_ b. finish_token start b))))"
  have "each body (enumerate 0 us) (filled b [] []) = (Ok (), filled b ([] @ map g (enumerate 0 us)) [])"
  proof (rule tokens.each_maps)
    fix x ts
    assume room: "sized b \<and> fits b (ts @ [g x])"
    then show "body x (filled b ts []) = (Ok (), filled b (ts @ [g x]) [])"
      by (cases x) (auto simp: body_def g_def push_str_filled space_token_filled simp del: attempt_Ok_iff proceed_Ok_iff)
  qed (use assms g in simp)
  moreover have "apply_wordpiece (filled s us []) (filled b [] []) pre = each body (enumerate 0 us) (filled b [] [])"
    by (simp only: apply_wordpiece_def each_indexed_token_filled [OF assms(2)] body_def)
  ultimately show ?thesis using g by simp
qed

lemma metaspace_enumerate:
  "map (\<lambda>(i, t). metaspaced replacement (if i \<noteq> 0 \<or> \<not> trim_first then [32] else []) t) (enumerate 0 us) =
     metaspace_text replacement trim_first us"
proof (cases us)
  case (Cons u us')
  have "map (\<lambda>(i, t). metaspaced replacement (if i \<noteq> 0 \<or> \<not> trim_first then [32] else []) t) (enumerate (Suc n) vs) =
      map (metaspaced replacement [32]) vs" for n vs
    by (induction vs arbitrary: n) simp_all
  then show ?thesis using Cons by simp
qed simp

lemma metaspace_chars_filled:
  assumes "sized b" and "length (concat ts) + length (metaspaced replacement (if keep then [32] else []) t) \<le> byte_room b"
  shows "each (\<lambda>character b.
        if character = replacement then if keep then append_str [32] b else (Ok (), b)
        else append_str character b) (utf8_chars t) (filled b ts []) =
      (Ok (), filled b ts (metaspaced replacement (if keep then [32] else []) t))"
proof -
  let ?f = "\<lambda>c. if c = replacement then if keep then [32] else [] else c"
  have "each (\<lambda>character b.
        if character = replacement then if keep then append_str [32] b else (Ok (), b)
        else append_str character b) (utf8_chars t) (filled b ts []) =
      (Ok (), filled b ts ([] @ concat (map ?f (utf8_chars t))))"
  proof (rule part.each_adds)
    fix c p
    assume "sized b \<and> length (concat ts) + length (p @ ?f c) \<le> byte_room b"
    then show "(if c = replacement then if keep then append_str [32] (filled b ts p) else (Ok (), filled b ts p)
        else append_str c (filled b ts p)) = (Ok (), filled b ts (p @ ?f c))"
      by (auto simp: append_str_filled)
  qed (use assms in \<open>simp add: metaspaced_def\<close>)
  then show ?thesis by (simp only: metaspaced_def append_Nil)
qed

lemma apply_metaspace_filled:
  assumes "sized b" and "list_all utf8_valid us" and "fits b (metaspace_text replacement trim_first us)"
  shows "apply_metaspace (filled s us []) (filled b [] []) replacement trim_first =
      (Ok (), filled b (metaspace_text replacement trim_first us) [])"
proof -
  define keep where "keep = (\<lambda>i::nat. i \<noteq> 0 \<or> \<not> trim_first)"
  define g where "g = (\<lambda>(i, t). metaspaced replacement (if keep i then [32] else []) t)"
  define body where "body = (\<lambda>(index, token) b.
      attempt (begin_token b) b (\<lambda>start.
      proceed (each (\<lambda>character b.
          if character = replacement then if keep index then append_str [32] b else (Ok (), b)
          else append_str character b) (utf8_chars token) b) (\<lambda>_ b. finish_token start b)))"
  have g: "map g (enumerate 0 us) = metaspace_text replacement trim_first us"
    unfolding g_def keep_def by (rule metaspace_enumerate)
  have "each body (enumerate 0 us) (filled b [] []) = (Ok (), filled b ([] @ map g (enumerate 0 us)) [])"
  proof (rule tokens.each_maps)
    fix x ts
    assume room: "sized b \<and> fits b (ts @ [g x])"
    obtain i t where x: "x = (i, t)" by (cases x)
    show "body x (filled b ts []) = (Ok (), filled b (ts @ [g x]) [])"
      unfolding body_def x prod.case
      by (rule token_filled)
        (use room x metaspace_chars_filled [of b ts replacement "keep i" t] in \<open>simp_all add: g_def fits_def\<close>)
  qed (use assms g in simp)
  moreover have "apply_metaspace (filled s us []) (filled b [] []) replacement trim_first =
      each body (enumerate 0 us) (filled b [] [])"
    by (simp only: apply_metaspace_def each_indexed_token_filled [OF assms(2)] body_def keep_def)
  ultimately show ?thesis using g by simp
qed

lemma apply_filter_empty_filled:
  assumes "sized b" and "list_all utf8_valid us" and "fits b (filter (\<lambda>t. t \<noteq> []) us)"
  shows "apply_filter_empty (filled s us []) (filled b [] []) = (Ok (), filled b (filter (\<lambda>t. t \<noteq> []) us) [])"
proof -
  have f: "concat (map (\<lambda>t. if t \<noteq> [] then [t] else []) vs) = filter (\<lambda>t. t \<noteq> []) vs" for vs :: "bytes list"
    by (induction vs) simp_all
  have "each (\<lambda>token b. if token \<noteq> [] then push_str token b else (Ok (), b)) us (filled b [] []) =
      (Ok (), filled b ([] @ concat (map (\<lambda>t. if t \<noteq> [] then [t] else []) us)) [])"
    by (rule tokens.each_adds) (use assms f in \<open>auto simp: push_str_filled\<close>)
  then show ?thesis by (simp add: apply_filter_empty_def each_token_filled [OF assms(2)] f)
qed

lemma apply_literal_replace_filled:
  assumes "sized b" and "list_all utf8_valid us" and "utf8_valid pattern"
    and "fits b (map (\<lambda>t. if t = [] \<and> \<not> empty_matches then [] else replaced pattern content t) us)"
  shows "apply_literal_replace (filled s us []) (filled b [] []) pattern content empty_matches =
      (Ok (), filled b (map (\<lambda>t. if t = [] \<and> \<not> empty_matches then [] else replaced pattern content t) us) [])"
proof -
  have "each (\<lambda>token b. if token = [] \<and> \<not> empty_matches then push_str [] b
        else replace_literal_token token pattern content b) us (filled b [] []) =
      (Ok (), filled b ([] @ map (\<lambda>t. if t = [] \<and> \<not> empty_matches then [] else replaced pattern content t) us) [])"
    by (rule tokens.each_maps)
      (use assms in \<open>auto simp: push_str_filled list_all_iff intro!: replace_literal_token_filled split: if_splits\<close>)
  then show ?thesis by (simp add: apply_literal_replace_def each_token_filled [OF assms(2)])
qed

lemma apply_regex_replace_filled:
  assumes "sized b" and "list_all utf8_valid us" and "regex_ok find_iter"
    and "fits b (map (\<lambda>t. if t = [] then [] else spliced t content (find_iter t) 0) us)"
  shows "apply_regex_replace (filled s us []) (filled b [] []) find_iter content =
      (Ok (), filled b (map (\<lambda>t. if t = [] then [] else spliced t content (find_iter t) 0) us) [])"
proof -
  have "each (\<lambda>token b. if token = [] then push_str [] b else replace_token token (find_iter token) content b) us
        (filled b [] []) =
      (Ok (), filled b ([] @ map (\<lambda>t. if t = [] then [] else spliced t content (find_iter t) 0) us) [])"
    by (rule tokens.each_maps)
      (use assms in \<open>auto simp: push_str_filled list_all_iff regex_ok_def intro!: replace_token_filled\<close>)
  then show ?thesis by (simp add: apply_regex_replace_def each_token_filled [OF assms(2)])
qed

lemma apply_fuse_filled:
  assumes "sized b" and "list_all utf8_valid us" and "fits b [concat us]"
  shows "apply_fuse (filled s us []) (filled b [] []) = (Ok (), filled b [concat us] [])"
proof -
  have "each append_str us (filled b [] []) = (Ok (), filled b [] ([] @ concat (map (\<lambda>u. u) us)))"
    by (rule part.each_adds) (use assms in \<open>auto simp: append_str_filled fits_def\<close>)
  then show ?thesis
    unfolding apply_fuse_def each_token_filled [OF assms(2)]
    using token_filled [of b "[]" "concat us" "each append_str us"] assms(1,3) by simp
qed

lemma deduplicate_filled:
  assumes "sized b" and "list_all2 (\<lambda>span u. buffer_token s span = Ok u) spans us"
    and "fits b (ts @ tl (remdups_adj (p # us)))"
  shows "deduplicate_from s (Some p) spans (filled b ts []) = (Ok (), filled b (ts @ tl (remdups_adj (p # us))) [])"
  using assms(2,3)
proof (induction spans us arbitrary: p ts rule: list_all2_induct)
  case (Cons span spans u us)
  show ?case
  proof (cases "p = u")
    case True
    then show ?thesis using Cons by simp
  next
    case False
    then have room: "fits b ((ts @ [u]) @ tl (remdups_adj (u # us)))"
      using Cons.prems by (metis append.assoc append_Cons append_Nil hd_remdups_adj list.collapse list.sel(1,3) remdups_adj.simps(3) remdups_adj_Nil_iff list.discI)
    then have "push_str u (filled b ts []) = (Ok (), filled b (ts @ [u]) [])"
      using fits_prefix by (intro push_str_filled [OF assms(1)]) blast
    moreover have "u # tl (remdups_adj (u # us)) = remdups_adj (u # us)"
      by (metis hd_remdups_adj list.collapse list.sel(1) remdups_adj_Nil_iff list.discI)
    ultimately show ?thesis using Cons.hyps Cons.IH [OF room] False by simp
  qed
qed simp

lemma apply_deduplicate_filled:
  assumes "sized b" and "list_all utf8_valid us" and "fits b (remdups_adj us)"
  shows "apply_deduplicate (filled s us []) (filled b [] []) = (Ok (), filled b (remdups_adj us) [])"
proof (cases us)
  case (Cons u us')
  have split: "remdups_adj us = [u] @ tl (remdups_adj (u # us'))"
    using Cons by (metis append_Cons append_Nil hd_remdups_adj list.collapse list.sel(1) remdups_adj_Nil_iff list.discI)
  have reads: "list_all2 (\<lambda>span v. buffer_token (filled s us []) span = Ok v) (spans_of (length u) us') us'"
    and read: "buffer_token (filled s us []) \<lparr>ts_start = 0, ts_end = length u\<rparr> = Ok u"
    using reads_filled [OF assms(2), of s "[]"] Cons by simp_all
  have "push_str u (filled b [] []) = (Ok (), filled b ([] @ [u]) [])"
    by (rule push_str_filled [OF assms(1)]) (use assms(3) split fits_prefix in \<open>metis append_Nil\<close>)
  moreover have "deduplicate_from (filled s us []) (Some u) (spans_of (length u) us') (filled b [u] []) =
      (Ok (), filled b ([u] @ tl (remdups_adj (u # us'))) [])"
    by (rule deduplicate_filled [OF assms(1) reads]) (use assms(3) split in simp)
  ultimately show ?thesis using Cons read split by (simp add: apply_deduplicate_def)
qed (simp add: apply_deduplicate_def)

end
