(* ===== verification/Token_Raw.thy ===== *)
theory Token_Raw
  imports Token_Meaning
begin

text \<open>
  The stages that cut characters off a token or go through the raw scratch: stripping, byte fallback
  and the byte-level decoder with its lossy conversion. Each writes what Token_Meaning says.
\<close>

subsection \<open>Stripping\<close>

lemma strip_start_from_indices:
  "removed \<le> limit \<Longrightarrow> strip_start_from content limit removed (char_indices_from offset cs) offset =
     offset + length (concat (take (min (limit - removed) (length (takeWhile ((=) content) cs))) cs))"
proof (induction cs arbitrary: removed offset)
  case (Cons c cs)
  show ?case
  proof (cases "removed = limit \<or> c \<noteq> content")
    case False
    then have "limit - removed = Suc (limit - (removed + 1))" using Cons.prems by auto
    then show ?thesis using False Cons by simp
  qed auto
qed simp

lemma char_indices_from_append:
  "char_indices_from offset (cs @ ds) = char_indices_from offset cs @ char_indices_from (offset + length (concat cs)) ds"
  by (induction cs arbitrary: offset) (simp_all add: add.assoc)

lemma strip_stop_from_indices:
  "removed \<le> limit \<Longrightarrow>
     strip_stop_from content limit removed (rev (char_indices_from offset cs)) (offset + length (concat cs)) =
     offset + length (concat (take (length cs - min (limit - removed) (length (takeWhile ((=) content) (rev cs)))) cs))"
proof (induction cs arbitrary: removed rule: rev_induct)
  case (snoc c cs)
  show ?case
  proof (cases "removed = limit \<or> c \<noteq> content")
    case False
    then have "limit - removed = Suc (limit - (removed + 1))" using snoc.prems by auto
    then show ?thesis using False snoc by (simp add: char_indices_from_append)
  qed (auto simp: char_indices_from_append)
qed simp

lemma char_boundary_chars: "utf8_valid t \<Longrightarrow> char_boundary t (length (concat (take k (utf8_chars t))))"
proof -
  assume v: "utf8_valid t"
  have "list_all utf8_valid (drop k (utf8_chars t))"
    using utf8_chars_valid [OF v] by (auto simp: list_all_iff dest: in_set_dropD)
  then have "char_boundary (concat (take k (utf8_chars t)) @ concat (drop k (utf8_chars t))) (length (concat (take k (utf8_chars t))))"
    by (intro char_boundary_append utf8_valid_concat)
  then show ?thesis by (metis append_take_drop_id concat_append concat_utf8_chars [OF v])
qed

lemma text_range_stripped:
  assumes "utf8_valid t"
  shows "text_range t (min (strip_start t content start) (strip_stop t content stop)) (strip_stop t content stop) =
      Ok (stripped content start stop t)"
proof -
  define cs where "cs = utf8_chars t"
  define n where "n = min start (length (takeWhile ((=) content) cs))"
  define k where "k = length cs - min stop (length (takeWhile ((=) content) (rev cs)))"
  have t: "t = concat (take i cs) @ concat (drop i cs)" for i
    by (metis append_take_drop_id concat_append concat_utf8_chars [OF assms] cs_def)
  have first: "strip_start t content start = length (concat (take n cs))"
    using strip_start_from_indices [of 0 start content 0 cs] by (simp add: strip_start_def char_indices_def cs_def n_def)
  have last: "strip_stop t content stop = length (concat (take k cs))"
    using strip_stop_from_indices [of 0 stop content 0 cs]
    by (simp add: strip_stop_def char_indices_def cs_def k_def concat_utf8_chars [OF assms])
  have bound: "char_boundary t (length (concat (take i cs)))" for i
    unfolding cs_def by (rule char_boundary_chars [OF assms])
  have fit: "length (concat (take k cs)) \<le> length t" by (subst t [of k]) simp
  have goal: "stripped content start stop t = concat (drop n (take k cs))"
    by (simp add: stripped_def cs_def n_def k_def Let_def)
  show ?thesis
  proof (cases "n \<le> k")
    case True
    then have split: "take k cs = take n cs @ drop n (take k cs)" by (metis append_take_drop_id min.absorb1 take_take)
    have whole: "t = concat (take n cs) @ concat (drop n (take k cs)) @ concat (drop k cs)"
      by (subst t [of k], subst split) simp
    have len: "length (concat (take k cs)) = length (concat (take n cs)) + length (concat (drop n (take k cs)))"
      by (subst split) simp
    have "take (length (concat (drop n (take k cs)))) (drop (length (concat (take n cs))) t) = concat (drop n (take k cs))"
      by (subst whole) simp
    then show ?thesis using text_range_Ok [OF _ fit bound [of n] bound [of k]] len first last goal by (simp add: min_def)
  next
    case False
    then have "take n cs = take k cs @ drop k (take n cs)" by (metis append_take_drop_id min.absorb1 nat_le_linear take_take)
    then have "length (concat (take k cs)) \<le> length (concat (take n cs))" by (metis concat_append le_add1 length_append)
    then show ?thesis using text_range_Ok [OF _ fit bound [of k] bound [of k]] False first last goal by (simp add: min_def)
  qed
qed

lemma apply_strip_filled:
  assumes "sized b" and "list_all utf8_valid us" and "fits b (map (stripped content start stop) us)"
  shows "apply_strip (filled s us []) (filled b [] []) content start stop =
      (Ok (), filled b (map (stripped content start stop) us) [])"
proof -
  have "each (\<lambda>token b. let first = strip_start token content start; last = strip_stop token content stop
        in attempt (text_range token (min first last) last) b (\<lambda>stripped. push_str stripped b)) us (filled b [] []) =
      (Ok (), filled b ([] @ map (stripped content start stop) us) [])"
    by (rule tokens.each_maps)
      (use assms in \<open>auto simp: Let_def text_range_stripped list_all_iff push_str_filled simp del: attempt_Ok_iff\<close>)
  then show ?thesis by (simp add: apply_strip_def each_token_filled [OF assms(2)])
qed

subsection \<open>Byte fallback\<close>

lemma flush_fallback_filled:
  assumes "sized b" and "fits b (ts @ fallback_run raw)"
  shows "flush_fallback raw (filled b ts []) = (Ok (), filled b (ts @ fallback_run raw) [])"
proof (cases "raw = [] \<or> utf8_valid raw")
  case True
  then show ?thesis using assms by (auto simp: flush_fallback_def fallback_run_def push_str_filled)
next
  case False
  have "each (\<lambda>_ b. push_str replacement_character b) raw (filled b ts []) =
      (Ok (), filled b (ts @ map (\<lambda>_. replacement_character) raw) [])"
    by (rule tokens.each_maps) (use False assms in \<open>auto simp: push_str_filled fallback_run_def map_replicate_const\<close>)
  then show ?thesis using False by (simp add: flush_fallback_def fallback_run_def map_replicate_const)
qed

lemma fallback_byte_length: "fallback_byte t = Some byte \<Longrightarrow> length t = 6"
  by (auto simp: fallback_byte_def split: if_splits)

lemma fallback_from_filled:
  assumes "sized b" and "list_all2 (\<lambda>span u. buffer_token s span = Ok u) spans us"
    and "length raw + length (concat us) \<le> min raw_limit raw_capacity" and "min raw_limit raw_capacity < 2 ^ 64"
    and "fits b (ts @ fallback_text raw us)"
  shows "fallback_from s raw_limit raw_capacity spans raw (filled b ts []) =
      (Ok (), filled b (ts @ fallback_text raw us) [])"
  using assms(2,3,5)
proof (induction spans us arbitrary: raw ts rule: list_all2_induct)
  case Nil
  then show ?case using flush_fallback_filled [OF assms(1)] by simp
next
  case (Cons span spans u us)
  show ?case
  proof (cases "fallback_byte u")
    case None
    have "fits b ((ts @ fallback_run raw) @ u # fallback_text [] us)"
      and "fits b (((ts @ fallback_run raw) @ [u]) @ fallback_text [] us)"
      using Cons.prems(2) None by simp_all
    then have "fits b (ts @ fallback_run raw)" and "fits b ((ts @ fallback_run raw) @ [u])"
      using fits_prefix by blast+
    then show ?thesis
      using Cons None flush_fallback_filled [OF assms(1), of ts raw] push_str_filled [OF assms(1), of "ts @ fallback_run raw" u]
        Cons.IH [of "[]" "ts @ fallback_run raw @ [u]"] by simp
  next
    case (Some byte)
    then have "push_raw raw_limit raw_capacity raw byte = Ok (raw @ [byte])"
      using Cons.prems(1) assms(4) fallback_byte_length [OF Some]
      by (auto simp: push_raw_def min_def split: if_splits)
    then show ?thesis using Cons Some fallback_byte_length [OF Some] by simp
  qed
qed

lemma apply_byte_fallback_filled:
  assumes "sized b" and "list_all utf8_valid us" and "length (concat us) \<le> min raw_limit raw_capacity"
    and "min raw_limit raw_capacity < 2 ^ 64" and "fits b (fallback_text [] us)"
  shows "apply_byte_fallback (filled s us []) (filled b [] []) raw_limit raw_capacity =
      (Ok (), filled b (fallback_text [] us) [])"
  using fallback_from_filled [OF assms(1) reads_filled [OF assms(2)], of "[]" raw_limit raw_capacity "[]"] assms
  by (simp add: apply_byte_fallback_def)

subsection \<open>The byte-level decoder\<close>

lemma push_byte_level_Ok:
  assumes "list_all (\<lambda>c. byte_level_byte c \<noteq> None) cs" and "length raw + length cs \<le> min raw_limit raw_capacity"
    and "min raw_limit raw_capacity < 2 ^ 64"
  shows "push_byte_level raw_limit raw_capacity raw cs = Ok (raw @ map (the \<circ> byte_level_byte) cs)"
  using assms(1,2)
proof (induction cs arbitrary: raw)
  case (Cons c cs)
  then show ?case using assms(3) by (auto simp: push_raw_def)
qed simp

lemma length_level_bytes: "utf8_valid t \<Longrightarrow> length (level_bytes t) \<le> length t"
  by (simp add: level_bytes_def length_utf8_chars)

lemma byte_level_raw_Ok:
  assumes "list_all2 (\<lambda>span u. buffer_token s span = Ok u) spans us" and "list_all utf8_valid us"
    and "length raw + length (concat us) \<le> min raw_limit raw_capacity" and "min raw_limit raw_capacity < 2 ^ 64"
  shows "byte_level_raw s raw_limit raw_capacity spans raw = Ok (raw @ concat (map level_bytes us))"
  using assms(1-3)
proof (induction spans us arbitrary: raw rule: list_all2_induct)
  case (Cons span spans u us)
  have "push_byte_level raw_limit raw_capacity raw (utf8_chars u) = Ok (raw @ level_bytes u)"
    if "list_all (\<lambda>c. byte_level_byte c \<noteq> None) (utf8_chars u)"
    using push_byte_level_Ok [OF that, of raw raw_limit raw_capacity] that Cons.prems length_utf8_chars [of u] assms(4)
    by (simp add: level_bytes_def)
  moreover have "append_raw raw_limit raw_capacity raw u = Ok (raw @ u)"
    using Cons.prems assms(4) by (auto simp: append_raw_def min_def split: if_splits)
  moreover have "level_bytes u = u" if "\<not> list_all (\<lambda>c. byte_level_byte c \<noteq> None) (utf8_chars u)"
    using that by (simp add: level_bytes_def)
  moreover have "byte_level_raw s raw_limit raw_capacity spans (raw @ level_bytes u) =
      Ok ((raw @ level_bytes u) @ concat (map level_bytes us))"
    by (rule Cons.IH) (use Cons.prems length_level_bytes [of u] in simp_all)
  ultimately show ?case using Cons.hyps by auto
qed simp

lemma lossy_fault:
  "utf8_fault bs = None \<Longrightarrow> lossy bs = bs"
  "utf8_fault bs = Some (n, len) \<Longrightarrow> lossy bs = take n bs @ replacement_character @
     (case len of None \<Rightarrow> [] | Some k \<Rightarrow> lossy (drop (n + k) bs))"
proof (induction bs arbitrary: n rule: utf8_fault.induct)
  case (1 bs)
  {
    case 1
    then show ?case
      using "1.IH"(1) by (subst lossy.simps, subst (asm) utf8_fault.simps) (auto split: utf8_lead.splits if_splits)
  next
    case 2
    show ?case
    proof (cases "utf8_next bs")
      case (Character m)
      obtain u where u: "utf8_fault (drop m bs) = Some (u, len)" "n = m + u" and nonempty: "bs \<noteq> []"
        using 2 Character by (subst (asm) utf8_fault.simps) (auto split: if_splits)
      have "lossy bs = take m bs @ lossy (drop m bs)" using Character nonempty by (subst lossy.simps) simp
      also have "lossy (drop m bs) = take u (drop m bs) @ replacement_character @
          (case len of None \<Rightarrow> [] | Some k \<Rightarrow> lossy (drop (u + k) (drop m bs)))"
        by (rule "1.IH"(2) [OF nonempty Character u(1)])
      finally show ?thesis using u(2) by (simp add: take_add add_ac split: option.splits)
    next
      case (Malformed m)
      then show ?thesis using 2 by (subst lossy.simps, subst (asm) utf8_fault.simps) (auto split: if_splits)
    next
      case Truncated
      then show ?thesis using 2 by (subst lossy.simps, subst (asm) utf8_fault.simps) (auto split: if_splits)
    qed
  }
qed

lemma lossy_from_filled:
  assumes "sized b"
  shows "length bs < 2 ^ 64 \<Longrightarrow> length (concat ts) + length p + length (lossy bs) \<le> byte_room b \<Longrightarrow>
    lossy_from bs (filled b ts p) = (Ok (), filled b ts (p @ lossy bs))"
proof (induction bs arbitrary: p rule: length_induct)
  case (1 bs)
  show ?case
  proof (cases "utf8_fault bs")
    case None
    then show ?thesis
      using 1 lossy_fault(1) [OF None] append_str_filled [OF assms, of ts p bs] by (subst lossy_from.simps) (simp add: lossy.simps [of "[]"])
  next
    case (Some fault)
    obtain n len where fault: "fault = (n, len)" by (cases fault)
    note fault_at = utf8_fault_Some [OF Some [unfolded fault]]
    have whole: "lossy bs = take n bs @ replacement_character @ (case len of None \<Rightarrow> [] | Some k \<Rightarrow> lossy (drop (n + k) bs))"
      by (rule lossy_fault(2)) (simp add: Some fault)
    have fit: "length (concat ts) + length p + length (take n bs) + length replacement_character \<le> byte_room b"
      using 1(3) whole by simp
    define q where "q = (p @ take n bs) @ replacement_character"
    have "append_str (take n bs) (filled b ts p) = (Ok (), filled b ts (p @ take n bs))"
      and "append_str replacement_character (filled b ts (p @ take n bs)) = (Ok (), filled b ts q)"
      using fit by (simp_all add: append_str_filled [OF assms] q_def)
    moreover have "(case remaining_after_error bs n len of Ok rest \<Rightarrow> lossy_from rest (filled b ts q)
        | Err e \<Rightarrow> (Err e, filled b ts q) | Panic \<Rightarrow> (Panic, filled b ts q)) = (Ok (), filled b ts (p @ lossy bs))"
    proof (cases len)
      case None
      then show ?thesis using whole by (simp add: remaining_after_error_def lossy_from.simps [of "[]"] q_def)
    next
      case (Some k)
      have "lossy_from (drop (n + k) bs) (filled b ts q) = (Ok (), filled b ts (q @ lossy (drop (n + k) bs)))"
        by (rule 1(1) [rule_format]) (use fault_at Some 1 whole in \<open>auto simp: q_def\<close>)
      moreover have "remaining_after_error bs n len = Ok (drop (n + k) bs)"
        using Some fault_at 1(2) by (simp add: remaining_after_error_def tok_add_def usize_add_def)
      ultimately show ?thesis using Some whole by (simp add: q_def)
    qed
    ultimately show ?thesis using Some fault fault_at by (subst lossy_from.simps) (auto simp: require_def)
  qed
qed

lemma apply_byte_level_filled:
  assumes "sized b" and "list_all utf8_valid us" and "length (concat us) \<le> min raw_limit raw_capacity"
    and "min raw_limit raw_capacity < 2 ^ 64" and "fits b [lossy (concat (map level_bytes us))]"
  shows "apply_byte_level (filled s us []) (filled b [] []) raw_limit raw_capacity =
      (Ok (), filled b [lossy (concat (map level_bytes us))] [])"
proof -
  let ?raw = "concat (map level_bytes us)"
  have "length ?raw \<le> length (concat us)"
    using assms(2) length_level_bytes by (induction us) (simp_all add: add_mono)
  then have short: "length ?raw < 2 ^ 64" using assms(3,4) by linarith
  have "byte_level_raw (filled s us []) raw_limit raw_capacity (spans_of 0 us) [] = Ok ?raw"
    using byte_level_raw_Ok [OF reads_filled [OF assms(2)] assms(2), of "[]" raw_limit raw_capacity] assms(3,4) by simp
  moreover have "write_lossy_utf8 ?raw (filled b [] []) = (Ok (), filled b ([] @ [lossy ?raw]) [])"
    unfolding write_lossy_utf8_def
    by (rule token_filled [OF assms(1)])
      (use assms(5) lossy_from_filled [OF assms(1) short, of "[]" "[]"] in \<open>simp_all add: fits_def\<close>)
  ultimately show ?thesis by (simp add: apply_byte_level_def)
qed

end
