(* ===== verification/Token_Bounds.thy ===== *)
theory Token_Bounds
  imports Token_Raw
begin

text \<open>
  The bounds the storage is planned from are sound: no stage makes more bytes or more tokens of its
  input than \<open>output_bound\<close> says, and every stage keeps the tokens well-formed UTF-8.
\<close>

subsection \<open>Texts stay well formed\<close>

lemma lossy_valid: "utf8_valid (lossy bs)"
proof (induction bs rule: lossy.induct)
  case (1 bs)
  have r: "utf8_valid replacement_character" by (simp add: replacement_character_def utf8_valid.simps utf8_tail_def)
  show ?case
  proof (cases "utf8_next bs")
    case (Character n)
    note lead = utf8_next_Character [OF Character]
    have "utf8_next (take n bs) = Character n"
      using Character lead(3) by (cases bs) (auto simp: utf8_tails_Character take_Suc_conv_app_nth split: if_splits list.splits)
    then have "utf8_valid (take n bs)" by (subst utf8_valid_next) simp
    then show ?thesis using 1(1) Character by (subst lossy.simps) (auto intro: utf8_valid_append)
  next
    case (Malformed n)
    then show ?thesis using 1(2) r by (subst lossy.simps) (auto intro: utf8_valid_append)
  qed (subst lossy.simps, use r in simp)
qed

lemma space_valid: "utf8_valid u \<Longrightarrow> utf8_valid (32 # u)"
  by (simp add: utf8_valid.simps [of "32 # u"])

lemma concat_chars_valid: "set cs \<subseteq> set (utf8_chars t) \<Longrightarrow> utf8_valid t \<Longrightarrow> utf8_valid (concat cs)"
  by (rule utf8_valid_concat) (auto simp: list_all_iff utf8_chars_valid)

lemma stripped_valid: "utf8_valid t \<Longrightarrow> utf8_valid (stripped content start stop t)"
  unfolding stripped_def Let_def by (rule concat_chars_valid [where t = t]) (auto dest: in_set_dropD in_set_takeD)

lemma metaspaced_valid: "utf8_valid t \<Longrightarrow> utf8_valid space \<Longrightarrow> utf8_valid (metaspaced replacement space t)"
  unfolding metaspaced_def by (rule utf8_valid_concat) (auto simp: list_all_iff utf8_chars_valid)

lemma fallback_run_valid: "list_all utf8_valid (fallback_run raw)"
  by (auto simp: fallback_run_def list_all_iff replacement_character_def utf8_valid.simps utf8_tail_def)

lemma fallback_text_valid: "list_all utf8_valid ts \<Longrightarrow> list_all utf8_valid (fallback_text pending ts)"
  by (induction pending ts rule: fallback_text.induct) (auto simp: fallback_run_valid split: option.splits)

lemma bpe_text_valid: "list_all utf8_valid ts \<Longrightarrow> utf8_valid ending \<Longrightarrow> list_all utf8_valid (bpe_text ending ts)"
  by (induction ending ts rule: bpe_text.induct) (auto simp: replaced_valid)

lemma wordpiece_text_valid:
  assumes "list_all utf8_valid ts" and "utf8_valid pre"
  shows "list_all utf8_valid (wordpiece_text pre ts)"
proof -
  have "utf8_valid (drop (length pre) u)" if "utf8_valid u" "prefix pre u" for u
    using that utf8_valid_rest [OF assms(2)] by (auto simp: prefix_def)
  then show ?thesis using assms(1) by (cases ts) (auto simp: list_all_iff space_valid)
qed

lemma stage_text_valid:
  assumes "stage_ok st" and "list_all utf8_valid ts"
  shows "list_all utf8_valid (stage_text st ts)"
proof (cases st)
  case (Metaspace replacement trim_first)
  then show ?thesis
    using assms(2) by (cases ts) (auto simp: stage_text_def list_all_iff metaspaced_valid)
next
  case (ReplaceRegex find_iter content)
  then show ?thesis
    using assms by (auto simp: stage_text_def stage_ok_def list_all_iff regex_ok_def intro: spliced_valid)
next
  case (Bpe ending)
  then show ?thesis using assms by (simp add: stage_text_def stage_ok_def bpe_text_valid)
next
  case (WordPiecePrefix pre)
  then show ?thesis using assms by (simp add: stage_text_def stage_ok_def wordpiece_text_valid)
next
  case ByteFallback
  then show ?thesis using assms by (simp add: stage_text_def fallback_text_valid)
qed (use assms in \<open>auto simp: stage_text_def stage_ok_def lossy_valid replaced_valid utf8_valid_concat
      stripped_valid list_all_iff\<close>)

subsection \<open>Lengths of the stages\<close>

lemma length_concat_map:
  "(\<And>t. t \<in> set ts \<Longrightarrow> length (g t) \<le> length t) \<Longrightarrow> length (concat (map g ts)) \<le> length (concat ts)"
  by (induction ts) (simp_all add: add_mono)

lemma length_lossy: "length (lossy bs) \<le> 3 * length bs"
proof (induction bs rule: lossy.induct)
  case (1 bs)
  show ?case
  proof (cases "bs = []")
    case False
    then have "1 \<le> length bs" by (simp add: Suc_le_eq)
    then show ?thesis
      using 1 False utf8_next_Character [of bs] utf8_next_Malformed [of bs]
      by (subst lossy.simps) (fastforce simp: replacement_character_def split: utf8_lead.splits)
  qed (simp add: lossy.simps)
qed

lemma length_bpe_text:
  assumes "list_all utf8_valid ts"
  shows "length (bpe_text ending ts) = length ts"
    and "length (concat (bpe_text ending ts)) \<le>
      (if ending = [] then length (concat ts) * 2 + length ts else length (concat ts))"
proof -
  have one: "length (replaced ending content t) \<le> (if ending = [] then length t * 2 + 1 else length t)"
    if "utf8_valid t" "length content \<le> 1" for t content ending
  proof (cases "ending = []")
    case True
    have "(length t + 1) * length content \<le> length t + 1" using that(2) by (cases "length content") simp_all
    then show ?thesis using True length_replaced_empty [OF that(1), of content] by simp
  next
    case False
    then have "length content - length ending = 0" using that(2) by (cases ending) simp_all
    then show ?thesis using False length_replace_literal [of ending content t] by (simp add: replaced_def)
  qed
  show "length (bpe_text ending ts) = length ts" by (induction ending ts rule: bpe_text.induct) simp_all
  show "length (concat (bpe_text ending ts)) \<le>
      (if ending = [] then length (concat ts) * 2 + length ts else length (concat ts))"
    using assms
  proof (induction ending ts rule: bpe_text.induct)
    case (2 ending t)
    then show ?case using one [of t "[]" ending] by (simp split: if_splits)
  next
    case (3 ending t u us)
    then show ?case using one [of t "[32]" ending] by (auto split: if_splits)
  qed simp
qed

lemma length_wordpiece_text:
  "length (wordpiece_text pre ts) = length ts"
  "length (concat (wordpiece_text pre ts)) \<le> length (concat ts) + (length ts - 1)"
proof -
  have "length (concat (map (\<lambda>u. if prefix pre u then drop (length pre) u else 32 # u) us)) \<le>
      length (concat us) + length us" for us
    by (induction us) auto
  then show "length (concat (wordpiece_text pre ts)) \<le> length (concat ts) + (length ts - 1)" by (cases ts) simp_all
  show "length (wordpiece_text pre ts) = length ts" by (cases ts) simp_all
qed

lemma length_metaspaced:
  assumes "utf8_valid t" and "length space \<le> 1"
  shows "length (metaspaced replacement space t) \<le> length t"
proof -
  have "length (metaspaced replacement space t) \<le> length (concat (utf8_chars t))"
    unfolding metaspaced_def
  proof (rule length_concat_map)
    fix c assume "c \<in> set (utf8_chars t)"
    then have "length space \<le> length c"
      using utf8_chars_valid [OF assms(1)] assms(2) by (metis One_nat_def Suc_le_eq le_trans length_greater_0_conv)
    then show "length (if c = replacement then space else c) \<le> length c" by auto
  qed
  then show ?thesis by (simp add: concat_utf8_chars [OF assms(1)])
qed

lemma length_metaspace_text:
  assumes "list_all utf8_valid ts"
  shows "length (metaspace_text replacement trim_first ts) = length ts"
    and "length (concat (metaspace_text replacement trim_first ts)) \<le> length (concat ts)"
proof -
  show "length (metaspace_text replacement trim_first ts) = length ts" by (cases ts) simp_all
  show "length (concat (metaspace_text replacement trim_first ts)) \<le> length (concat ts)"
  proof (cases ts)
    case (Cons t us)
    have "length (concat (map (metaspaced replacement [32]) us)) \<le> length (concat us)"
      by (rule length_concat_map) (use assms Cons in \<open>auto simp: list_all_iff intro: length_metaspaced\<close>)
    then show ?thesis
      using Cons assms length_metaspaced [of t "if trim_first then [] else [32]" replacement] by (simp add: add_mono)
  qed simp
qed

lemma length_remdups_adj_concat: "length (concat (remdups_adj ts)) \<le> length (concat ts)"
  by (induction ts rule: remdups_adj.induct) auto

lemma length_filter_concat: "length (concat (filter P ts)) \<le> length (concat ts)"
  by (induction ts) auto

lemma length_stripped:
  assumes "utf8_valid t"
  shows "length (stripped content start stop t) \<le> length t"
proof -
  have "length (concat (drop n (take k cs))) \<le> length (concat cs)" for n k and cs :: "bytes list"
  proof -
    have "length (concat cs) = length (concat (take n (take k cs))) + length (concat (drop n (take k cs))) +
        length (concat (drop k cs))"
      by (metis append_take_drop_id concat_append length_append)
    then show ?thesis by simp
  qed
  then show ?thesis using concat_utf8_chars [OF assms] by (metis stripped_def)
qed

lemma length_fallback_run:
  "length (fallback_run raw) \<le> length raw" "length (concat (fallback_run raw)) \<le> 3 * length raw"
proof -
  have "length (concat (replicate n replacement_character)) = 3 * n" for n
    by (induction n) (simp_all add: replacement_character_def)
  then show "length (concat (fallback_run raw)) \<le> 3 * length raw" by (simp add: fallback_run_def)
  show "length (fallback_run raw) \<le> length raw" by (cases raw) (simp_all add: fallback_run_def)
qed

lemma length_fallback_text:
  "length (fallback_text pending ts) \<le> length pending + length ts"
  "length (concat (fallback_text pending ts)) \<le> 3 * length pending + length (concat ts)"
proof (induction pending ts rule: fallback_text.induct)
  case (2 pending t ts)
  {
    case 1
    then show ?case using 2 length_fallback_run(1) [of pending] by (fastforce split: option.splits)
  next
    case 2
    show ?case
      using "2.IH" length_fallback_run(2) [of pending] fallback_byte_length [of t] by (fastforce split: option.splits)
  }
qed (simp_all add: length_fallback_run)

subsection \<open>Lengths of replacements\<close>

lemma div_sum_le: "0 < p \<Longrightarrow> m div p + n div p \<le> (m + n) div (p::nat)"
  by (metis div_add1_eq le_add1)

lemma length_literal_map:
  assumes "pattern \<noteq> []"
  shows "length (concat (map (\<lambda>t. if t = [] \<and> q then [] else replaced pattern content t) ts)) \<le>
    length (concat ts) + length (concat ts) div length pattern * (length content - length pattern)"
proof (induction ts)
  case (Cons t ts)
  let ?x = "length content - length pattern" and ?p = "length pattern"
  have "length (if t = [] \<and> q then [] else replaced pattern content t) \<le> length t + length t div ?p * ?x"
    using length_replace_literal [OF assms, of content t] assms by (simp add: replaced_def)
  moreover have "length t div ?p * ?x + length (concat ts) div ?p * ?x \<le> (length t + length (concat ts)) div ?p * ?x"
    using div_sum_le [of ?p "length t" "length (concat ts)"] assms by (metis distrib_right length_greater_0_conv mult_le_mono1)
  ultimately show ?case using Cons by simp
qed simp

lemma length_boundary_map:
  assumes "\<And>t. t \<in> set ts \<Longrightarrow> length (g t) \<le> length t + (length t + 1) * k"
  shows "length (concat (map g ts)) \<le> length (concat ts) + (length (concat ts) + length ts) * k"
  using assms
proof (induction ts)
  case (Cons t ts)
  then have "length (g t) \<le> length t + (length t + 1) * k"
    and "length (concat (map g ts)) \<le> length (concat ts) + (length (concat ts) + length ts) * k" by simp_all
  then show ?case by (simp add: algebra_simps)
qed simp

lemma length_spliced_distinct:
  assumes "regex_ok find_iter" and "utf8_valid t"
  shows "length (spliced t content (find_iter t) 0) \<le> length t + (length t + 1) * length content"
proof -
  have ok: "matches_ok t 0 (find_iter t)" "sorted_wrt (<) (map fst (find_iter t))"
    using assms by (simp_all add: regex_ok_def)
  have "length (find_iter t) * length content \<le> (length t + 1) * length content"
    by (rule mult_le_mono1) (rule length_distinct_matches [OF ok])
  then show ?thesis using length_spliced [OF ok(1), of content] by linarith
qed

subsection \<open>The bounds\<close>

definition within :: "shape \<Rightarrow> bytes list \<Rightarrow> bool" where
  "within sh ts \<longleftrightarrow> length (concat ts) \<le> sh_bytes sh \<and> length ts \<le> sh_spans sh"

lemma within_bytes:
  assumes "output_bound st sh = Ok sh'" and "output_bytes_bound st sh = Ok n \<Longrightarrow> length (concat us) \<le> n"
    and "length us \<le> (case st of ByteLevel \<Rightarrow> 1 | Fuse \<Rightarrow> 1 | _ \<Rightarrow> sh_spans sh)"
  shows "output_bytes_bound st sh = Ok n \<Longrightarrow> within sh' us"
  using assms by (auto simp: output_bound_def within_def)

lemma literal_replacement_bound_sound:
  assumes "literal_replacement_bound sh pattern content = Ok n" and "within sh ts" and "list_all utf8_valid ts"
  shows "length (concat (map (\<lambda>t. if t = [] \<and> q then [] else replaced pattern content t) ts)) \<le> n"
proof (cases "pattern = []")
  case True
  have "length (concat (map (\<lambda>t. if t = [] \<and> q then [] else replaced pattern content t) ts)) \<le>
      length (concat ts) + (length (concat ts) + length ts) * length content"
    by (rule length_boundary_map) (use True assms(3) length_replaced_empty in \<open>auto simp: list_all_iff\<close>)
  also have "\<dots> \<le> sh_bytes sh + (sh_bytes sh + sh_spans sh) * length content"
    using assms(2) by (intro add_mono mult_le_mono) (simp_all add: within_def)
  finally show ?thesis using assms(1) True by (simp add: literal_replacement_bound_def)
next
  case False
  let ?x = "length content - length pattern"
  have "length (concat (map (\<lambda>t. if t = [] \<and> q then [] else replaced pattern content t) ts)) \<le>
      length (concat ts) + length (concat ts) div length pattern * ?x"
    by (rule length_literal_map [OF False])
  also have "\<dots> \<le> sh_bytes sh + sh_bytes sh div length pattern * ?x"
    using assms(2) by (intro add_mono mult_le_mono div_le_mono) (simp_all add: within_def)
  finally show ?thesis
    using assms(1) False by (auto simp: literal_replacement_bound_def Let_def split: if_splits)
qed

lemma regex_replacement_bound_sound:
  assumes "regex_replacement_bound sh content = Ok n" and "within sh ts" and "list_all utf8_valid ts" and "regex_ok find_iter"
  shows "length (concat (map (\<lambda>t. if t = [] then [] else spliced t content (find_iter t) 0) ts)) \<le> n"
proof -
  have "length (concat (map (\<lambda>t. if t = [] then [] else spliced t content (find_iter t) 0) ts)) \<le>
      length (concat ts) + (length (concat ts) + length ts) * length content"
    by (rule length_boundary_map) (use assms(3) length_spliced_distinct [OF assms(4)] in \<open>auto simp: list_all_iff\<close>)
  also have "\<dots> \<le> sh_bytes sh + (sh_bytes sh + sh_spans sh) * length content"
    using assms(2) by (intro add_mono mult_le_mono) (simp_all add: within_def)
  finally show ?thesis using assms(1) by (simp add: regex_replacement_bound_def)
qed

lemma output_bound_sound:
  assumes "stage_ok st" and "list_all utf8_valid ts" and "within sh ts" and "output_bound st sh = Ok sh'"
  shows "within sh' (stage_text st ts)"
proof -
  obtain n where n: "output_bytes_bound st sh = Ok n" using assms(4) by (auto simp: output_bound_def)
  have ts: "length (concat ts) \<le> sh_bytes sh" "length ts \<le> sh_spans sh" using assms(3) by (simp_all add: within_def)
  have "length (concat (stage_text st ts)) \<le> n"
  proof (cases st)
    case (Bpe ending)
    then show ?thesis
      using n ts length_bpe_text(2) [OF assms(2), of ending]
      by (auto simp: stage_text_def output_bytes_bound_def split: if_splits)
  next
    case ByteLevel
    have "length (concat (map level_bytes ts)) \<le> length (concat ts)"
      by (rule length_concat_map) (use assms(2) in \<open>auto simp: list_all_iff intro: length_level_bytes\<close>)
    then show ?thesis
      using ByteLevel n ts length_lossy [of "concat (map level_bytes ts)"] by (simp add: stage_text_def output_bytes_bound_def)
  next
    case (WordPiecePrefix pre)
    then show ?thesis
      using n ts length_wordpiece_text(2) [of pre ts] by (simp add: stage_text_def output_bytes_bound_def)
  next
    case (Metaspace replacement trim_first)
    then show ?thesis
      using n ts length_metaspace_text(2) [OF assms(2), of replacement trim_first]
      by (simp add: stage_text_def output_bytes_bound_def)
  next
    case CtcDeduplicate
    then show ?thesis
      using n ts length_remdups_adj_concat [of ts] by (simp add: stage_text_def output_bytes_bound_def)
  next
    case FilterEmpty
    then show ?thesis
      using n ts length_filter_concat [of _ ts] by (simp add: stage_text_def output_bytes_bound_def) (meson le_trans)
  next
    case (ReplaceLiteral pattern content empty_matches)
    then show ?thesis
      using n literal_replacement_bound_sound [OF _ assms(3,2), of pattern content n]
      by (simp add: stage_text_def output_bytes_bound_def)
  next
    case (ReplaceRegex find_iter content)
    then show ?thesis
      using n assms(1) regex_replacement_bound_sound [OF _ assms(3,2), of content n find_iter]
      by (simp add: stage_text_def output_bytes_bound_def stage_ok_def)
  next
    case Fuse
    then show ?thesis using n ts by (simp add: stage_text_def output_bytes_bound_def)
  next
    case (Strip content start stop)
    have "length (concat (map (stripped content start stop) ts)) \<le> length (concat ts)"
      by (rule length_concat_map) (use assms(2) in \<open>auto simp: list_all_iff intro: length_stripped\<close>)
    then show ?thesis using Strip n ts by (simp add: stage_text_def output_bytes_bound_def)
  next
    case ByteFallback
    then show ?thesis
      using n ts length_fallback_text(2) [of "[]" ts] by (simp add: stage_text_def output_bytes_bound_def)
  qed
  moreover have "length (stage_text st ts) \<le> (case st of ByteLevel \<Rightarrow> 1 | Fuse \<Rightarrow> 1 | _ \<Rightarrow> sh_spans sh)"
    using ts(2) le_trans [OF remdups_adj_length [of ts] ts(2)] le_trans [OF length_filter_le [of "\<lambda>t. t \<noteq> []" ts] ts(2)]
      length_bpe_text(1) [OF assms(2)] length_wordpiece_text(1) length_metaspace_text(1) [OF assms(2)]
      length_fallback_text(1) [of "[]" ts]
    by (cases st) (simp_all add: stage_text_def)
  ultimately show ?thesis using within_bytes [OF assms(4)] n by blast
qed

end
