(* ===== verification/Token_Vocabulary.thy ===== *)
theory Token_Vocabulary
  imports Token_Bounds
begin

text \<open>
  The compiled vocabulary: one entry for each identifier with a spelling, in ascending order, over
  one slab of spellings; the search finds the entry of an identifier, and \<open>vocabulary_seed\<close> writes the
  spellings of the identifiers of a request.
\<close>

text \<open>What an identifier stands for: nothing, or one spelling.\<close>

definition spelling_of :: "upstream \<Rightarrow> bool \<Rightarrow> u32 \<Rightarrow> bytes list" where
  "spelling_of up skip_special_tokens identifier =
     (if identifier \<in> set (up_vocab_ids up) then
        (case up_id_to_token up identifier of
           None \<Rightarrow> []
         | Some spelling \<Rightarrow> if skip_special_tokens \<and> up_is_special up spelling then [] else [spelling])
      else [])"

definition spellings :: "upstream \<Rightarrow> bool \<Rightarrow> u32 list \<Rightarrow> bytes list" where
  "spellings up skip_special_tokens identifiers = concat (map (spelling_of up skip_special_tokens) identifiers)"

subsection \<open>Compilation\<close>

fun spelled :: "upstream \<Rightarrow> u32 list \<Rightarrow> (u32 \<times> bytes) list" where
  "spelled up [] = []"
| "spelled up (identifier # ids) =
     (case up_id_to_token up identifier of
        None \<Rightarrow> spelled up ids
      | Some spelling \<Rightarrow> (identifier, spelling) # spelled up ids)"

definition entries_of :: "upstream \<Rightarrow> (u32 \<times> bytes) list \<Rightarrow> vocabulary_entry list" where
  "entries_of up pairs = map (\<lambda>((identifier, spelling), span).
     \<lparr>ve_identifier = identifier, ve_span = span, ve_special = up_is_special up spelling\<rparr>)
     (zip pairs (spans_of 0 (map snd pairs)))"

text \<open>A vocabulary that holds exactly these identifiers and spellings.\<close>

definition holds_vocabulary :: "upstream \<Rightarrow> (u32 \<times> bytes) list \<Rightarrow> vocabulary \<Rightarrow> bool" where
  "holds_vocabulary up pairs v \<longleftrightarrow>
     vo_slab v = concat (map snd pairs) \<and> vo_entries v = entries_of up pairs \<and>
     list_all (\<lambda>(_, spelling). length spelling \<le> vo_max_spelling_bytes v) pairs"

lemma compile_entries_holds:
  "compile_entries heap up ids v = Ok w \<Longrightarrow> holds_vocabulary up pairs v \<Longrightarrow> holds_vocabulary up (pairs @ spelled up ids) w"
proof (induction ids arbitrary: v pairs)
  case (Cons ident ids)
  show ?case
  proof (cases "up_id_to_token up ident")
    case None
    then show ?thesis using Cons by simp
  next
    case (Some spelling)
    let ?slab = "vo_slab v @ spelling"
    let ?v = "\<lparr>vo_slab = ?slab, vo_entries = vo_entries v @ [\<lparr>ve_identifier = ident,
        ve_span = \<lparr>ts_start = length (vo_slab v), ts_end = length ?slab\<rparr>, ve_special = up_is_special up spelling\<rparr>],
        vo_max_spelling_bytes = max (vo_max_spelling_bytes v) (length spelling)\<rparr>"
    have "holds_vocabulary up (pairs @ [(ident, spelling)]) ?v"
      using Cons.prems(2) by (auto simp: holds_vocabulary_def entries_of_def spans_of_append list_all_iff)
    then have "holds_vocabulary up ((pairs @ [(ident, spelling)]) @ spelled up ids) w"
      by (rule Cons.IH [rotated]) (use Cons.prems(1) Some in \<open>simp add: Let_def\<close>)
    then show ?thesis using Some by simp
  qed
qed simp

lemma vocabulary_compile_holds:
  "vocabulary_compile heap up = Ok v \<Longrightarrow> holds_vocabulary up (spelled up (remdups_adj (sort (up_vocab_ids up)))) v"
  using compile_entries_holds [of heap up "remdups_adj (sort (up_vocab_ids up))"
      "\<lparr>vo_slab = [], vo_entries = [], vo_max_spelling_bytes = 0\<rparr>" v "[]"]
  by (simp add: vocabulary_compile_def Let_def holds_vocabulary_def entries_of_def)

lemma spelled_keys: "map fst (spelled up ids) = filter (\<lambda>i. up_id_to_token up i \<noteq> None) ids"
  by (induction ids) (auto split: option.splits)

lemma spelled_iff: "(i, t) \<in> set (spelled up ids) \<longleftrightarrow> i \<in> set ids \<and> up_id_to_token up i = Some t"
  by (induction ids) (auto split: option.splits)

lemma entries_of_nth:
  assumes "i < length pairs"
  shows "entries_of up pairs ! i = \<lparr>ve_identifier = fst (pairs ! i), ve_span = spans_of 0 (map snd pairs) ! i,
      ve_special = up_is_special up (snd (pairs ! i))\<rparr>"
  using assms by (simp add: entries_of_def case_prod_unfold)

lemma length_entries_of [simp]: "length (entries_of up pairs) = length pairs"
  by (simp add: entries_of_def)

lemma entries_identifiers: "map ve_identifier (entries_of up pairs) = map fst pairs"
  by (rule nth_equalityI) (simp_all add: entries_of_nth)

lemma remdups_adj_ascending: "sorted xs \<Longrightarrow> sorted_wrt (<) (remdups_adj xs)"
  by (induction xs rule: remdups_adj.induct) (auto simp: less_le)

subsection \<open>The search\<close>

lemma binary_search_step:
  assumes "lo < hi"
  shows "binary_search key es lo hi =
    (if ve_identifier (es ! ((lo + hi) div 2)) = key then Some ((lo + hi) div 2)
     else if ve_identifier (es ! ((lo + hi) div 2)) < key then binary_search key es ((lo + hi) div 2 + 1) hi
     else binary_search key es lo ((lo + hi) div 2))"
  using assms by (subst binary_search.simps) (simp add: Let_def)

lemma binary_search_finds:
  assumes "sorted_wrt (<) (map ve_identifier es)" and "hi \<le> length es"
  shows "case binary_search key es lo hi of
      None \<Rightarrow> \<forall>i. lo \<le> i \<longrightarrow> i < hi \<longrightarrow> ve_identifier (es ! i) \<noteq> key
    | Some i \<Rightarrow> lo \<le> i \<and> i < hi \<and> ve_identifier (es ! i) = key"
  using assms
proof (induction key es lo hi rule: binary_search.induct)
  case (1 key es lo hi)
  show ?case
  proof (cases "lo < hi")
    case True
    define mid where "mid = (lo + hi) div 2"
    have mid: "lo \<le> mid" "mid < hi" using True by (auto simp: mid_def)
    have ascending: "ve_identifier (es ! i) < ve_identifier (es ! j)" if "i < j" "j < hi" for i j
      using sorted_wrt_nth_less [OF 1(3), of i j] that 1(4) by simp
    note step = binary_search_step [OF True, of key es, folded mid_def]
    note IH = 1(1,2) [OF _ refl refl, folded mid_def]
    consider (found) "ve_identifier (es ! mid) = key" | (above) "ve_identifier (es ! mid) < key"
      | (below) "key < ve_identifier (es ! mid)" by (rule linorder_cases)
    then show ?thesis
    proof cases
      case found
      then show ?thesis using step mid by simp
    next
      case above
      have "ve_identifier (es ! i) \<noteq> key" if "i < mid + 1" for i
        using above ascending [of i mid] that mid by (cases "i = mid") auto
      then show ?thesis
        using IH(1) 1(3,4) above True step mid by (auto split: option.splits) (metis not_less_eq_eq not_le)
    next
      case below
      have "ve_identifier (es ! i) \<noteq> key" if "mid \<le> i" "i < hi" for i
        using below ascending [of mid i] that by (cases "i = mid") auto
      then show ?thesis
        using IH(2) 1(3,4) below True step mid
        by (cases "binary_search key es lo mid") (auto, metis not_le)
    qed
  qed (simp add: binary_search.simps)
qed

subsection \<open>Seeding\<close>

lemma entry_of_identifier:
  assumes "holds_vocabulary up (spelled up (remdups_adj (sort (up_vocab_ids up)))) v"
  shows "(case binary_search key (vo_entries v) 0 (length (vo_entries v)) of
      None \<Rightarrow> key \<notin> set (up_vocab_ids up) \<or> up_id_to_token up key = None
    | Some i \<Rightarrow> key \<in> set (up_vocab_ids up) \<and> (\<exists>t. up_id_to_token up key = Some t \<and>
        i < length (vo_entries v) \<and> ve_special (vo_entries v ! i) = up_is_special up t \<and>
        length t \<le> vo_max_spelling_bytes v \<and>
        ((\<forall>j s. up_id_to_token up j = Some s \<longrightarrow> utf8_valid s) \<longrightarrow> span_text (vo_slab v) (ve_span (vo_entries v ! i)) = Ok t)))"
proof -
  define pairs where "pairs = spelled up (remdups_adj (sort (up_vocab_ids up)))"
  have v: "vo_slab v = concat (map snd pairs)" "vo_entries v = entries_of up pairs"
    "list_all (\<lambda>(_, spelling). length spelling \<le> vo_max_spelling_bytes v) pairs"
    using assms by (simp_all add: holds_vocabulary_def pairs_def)
  have "sorted_wrt (<) (remdups_adj (sort (up_vocab_ids up)))"
    by (rule remdups_adj_ascending) simp
  then have "sorted_wrt (<) (map ve_identifier (vo_entries v))"
    unfolding v(2) entries_identifiers unfolding pairs_def spelled_keys by (rule sorted_wrt_filter)
  note search = binary_search_finds [OF this order_refl, where key = key and lo = 0]
  have members: "(i, t) \<in> set pairs \<longleftrightarrow> i \<in> set (up_vocab_ids up) \<and> up_id_to_token up i = Some t" for i t
    by (simp add: pairs_def spelled_iff)
  show ?thesis
  proof (cases "binary_search key (vo_entries v) 0 (length (vo_entries v))")
    case None
    have "(key, t) \<notin> set pairs" for t
    proof
      assume "(key, t) \<in> set pairs"
      then obtain i where "i < length pairs" "pairs ! i = (key, t)" by (auto simp: in_set_conv_nth)
      then show False using search None v(2) by (auto simp: entries_of_nth)
    qed
    then show ?thesis using None members by (cases "up_id_to_token up key") auto
  next
    case (Some i)
    then have i: "i < length pairs" "fst (pairs ! i) = key" using search v(2) by (auto simp: entries_of_nth)
    then have "(key, snd (pairs ! i)) \<in> set pairs" by (metis nth_mem prod.collapse)
    then have at: "key \<in> set (up_vocab_ids up)" "up_id_to_token up key = Some (snd (pairs ! i))" using members by simp_all
    have "span_text (vo_slab v) (ve_span (vo_entries v ! i)) = Ok (snd (pairs ! i))"
      if "\<forall>j s. up_id_to_token up j = Some s \<longrightarrow> utf8_valid s"
    proof -
      have "list_all utf8_valid (map snd pairs)" using that members by (auto simp: list_all_iff)
      from span_text_spans_of [OF this, of "[]" "[]"] show ?thesis
        using i(1) by (auto simp: v entries_of_nth dest: list_all2_nthD)
    qed
    moreover have "length (snd (pairs ! i)) \<le> vo_max_spelling_bytes v"
      using v(3) i(1) by (auto simp: list_all_length case_prod_unfold)
    ultimately show ?thesis using Some i at by (auto simp: v(2) entries_of_nth)
  qed
qed

text \<open>What Rust promises of the spellings it hands out: they are \<open>String\<close>s.\<close>

definition upstream_ok :: "upstream \<Rightarrow> bool" where
  "upstream_ok up \<longleftrightarrow> (\<forall>j s. up_id_to_token up j = Some s \<longrightarrow> utf8_valid s)"

lemma seed_identifier_filled:
  assumes "vocabulary_compile heap up = Ok v" and "upstream_ok up" and "sized b" and "fits b (ts @ spelling_of up skip key)"
  shows "seed_identifier v skip key (filled b ts []) = (Ok (), filled b (ts @ spelling_of up skip key) [])"
  using entry_of_identifier [OF vocabulary_compile_holds [OF assms(1)], of key] assms(2-4)
  by (auto simp: seed_identifier_def spelling_of_def Let_def upstream_ok_def push_str_filled
      simp del: attempt_Ok_iff split: option.splits if_splits)

lemma spelling_of_bounds:
  assumes "vocabulary_compile heap up = Ok v" and "upstream_ok up"
  shows "length (spelling_of up skip key) \<le> 1" and "length (concat (spelling_of up skip key)) \<le> vo_max_spelling_bytes v"
    and "list_all utf8_valid (spelling_of up skip key)"
  using entry_of_identifier [OF vocabulary_compile_holds [OF assms(1)], of key] assms(2)
  by (auto simp: spelling_of_def upstream_ok_def split: option.splits)

lemma spellings_bounds:
  assumes "vocabulary_compile heap up = Ok v" and "upstream_ok up"
  shows "length (spellings up skip ids) \<le> length ids"
    and "length (concat (spellings up skip ids)) \<le> length ids * vo_max_spelling_bytes v"
    and "list_all utf8_valid (spellings up skip ids)"
  unfolding spellings_def
  by (induction ids) (use spelling_of_bounds [OF assms, of skip] in \<open>auto simp: add_mono intro: le_trans [OF add_mono]\<close>)

lemma vocabulary_seed_filled:
  assumes "vocabulary_compile heap up = Ok v" and "upstream_ok up" and "sized b" and "fits b (spellings up skip ids)"
  shows "vocabulary_seed v ids skip b = (Ok (), filled b (spellings up skip ids) [])"
proof -
  have "each (seed_identifier v skip) ids (filled b [] []) =
      (Ok (), filled b ([] @ concat (map (spelling_of up skip) ids)) [])"
    by (rule tokens.each_adds) (use assms seed_identifier_filled [OF assms(1,2)] in \<open>auto simp: spellings_def\<close>)
  then show ?thesis by (simp add: vocabulary_seed_def buffer_clear_filled spellings_def)
qed

end
