(* ===== verification/Token_Decoding.thy ===== *)
theory Token_Decoding
  imports Token_Vocabulary
begin

text \<open>
  Decoding as a whole: what a compiled program contains, that the acquired storage has room for every
  stage, and what \<open>decode\<close> answers.
\<close>

subsection \<open>Compiled programs\<close>

definition cleanup_stages :: "stage list" where
  "cleanup_stages = map (\<lambda>(pattern, content). ReplaceLiteral pattern content True)
     (wordpiece_cleanup @ [wordpiece_cleanup_last])"

text \<open>The stages of a configuration, in order.\<close>

fun config_stages :: "(bytes \<Rightarrow> regex option) \<Rightarrow> decoder_config \<Rightarrow> stage list" where
  "config_stages compile_regex (ConfigBpe ending) = [Bpe ending]"
| "config_stages compile_regex ConfigByteLevel = [ByteLevel]"
| "config_stages compile_regex (ConfigWordPiece pre cleanup) =
     WordPiecePrefix pre # (if cleanup then cleanup_stages else [])"
| "config_stages compile_regex (ConfigMetaspace replacement never) = [Metaspace replacement (\<not> never)]"
| "config_stages compile_regex (ConfigCtc pad word_delimiter cleanup) =
     CtcDeduplicate # ReplaceLiteral pad [] True #
     (if cleanup then cleanup_stages @ [ReplaceLiteral word_delimiter [32] True] else []) @ [FilterEmpty]"
| "config_stages compile_regex (ConfigSequence nested) = concat (map (config_stages compile_regex) nested)"
| "config_stages compile_regex (ConfigReplaceString pattern content) = [ReplaceLiteral pattern content False]"
| "config_stages compile_regex (ConfigReplaceRegex source content) = [ReplaceRegex (the (compile_regex source)) content]"
| "config_stages compile_regex ConfigFuse = [Fuse]"
| "config_stages compile_regex (ConfigStrip content start stop) = [Strip content start stop]"
| "config_stages compile_regex ConfigByteFallback = [ByteFallback]"

lemma push_stage_Ok: "push_stage heap st stages = Ok out \<Longrightarrow> out = stages @ [st]"
  by (auto simp: push_stage_def)

lemma push_literal_stage_Ok:
  "push_literal_stage heap pattern content stages = Ok out \<Longrightarrow> out = stages @ [ReplaceLiteral pattern content True]"
  by (auto simp: push_literal_stage_def copy_string_def dest: push_stage_Ok)

lemma push_literal_stages_Ok:
  "push_literal_stages heap pairs stages = Ok out \<Longrightarrow>
     out = stages @ map (\<lambda>(pattern, content). ReplaceLiteral pattern content True) pairs"
  by (induction heap pairs stages rule: push_literal_stages.induct) (fastforce dest!: push_literal_stage_Ok)+

lemma append_cleanup_Ok: "append_cleanup heap stages = Ok out \<Longrightarrow> out = stages @ cleanup_stages"
  by (auto simp: append_cleanup_def cleanup_stages_def case_prod_unfold dest!: push_literal_stages_Ok push_literal_stage_Ok)

lemmas append_Ok = push_stage_Ok push_literal_stage_Ok append_cleanup_Ok

lemma append_decoder_Ok:
  "append_decoder heap compile_regex config stages = Ok out \<Longrightarrow> out = stages @ config_stages compile_regex config"
  "append_sequence heap compile_regex configs stages = Ok out \<Longrightarrow>
     out = stages @ concat (map (config_stages compile_regex) configs)"
proof (induction heap compile_regex config stages and heap compile_regex configs stages arbitrary: out and out
    rule: append_decoder_append_sequence.induct)
  case (3 heap compile_regex pre cleanup stages)
  then show ?case
    by (auto simp: append_wordpiece_def copy_string_def dest!: append_Ok split: if_splits)
next
  case (5 heap compile_regex pad word_delimiter cleanup stages)
  then show ?case by (auto simp: append_ctc_def dest!: append_Ok split: if_splits)
next
  case (8 heap compile_regex source content stages)
  then show ?case by (auto simp: append_regex_def dest!: append_Ok)
next
  case (13 heap compile_regex d ds stages)
  then show ?case by fastforce
qed (auto simp: copy_string_def dest!: append_Ok)

text \<open>The texts of a configuration are Rust strings.\<close>

fun config_ok :: "decoder_config \<Rightarrow> bool" where
  "config_ok (ConfigBpe ending) = utf8_valid ending"
| "config_ok (ConfigWordPiece pre cleanup) = utf8_valid pre"
| "config_ok (ConfigCtc pad word_delimiter cleanup) = (utf8_valid pad \<and> utf8_valid word_delimiter)"
| "config_ok (ConfigSequence nested) = list_all config_ok nested"
| "config_ok (ConfigReplaceString pattern content) = (utf8_valid pattern \<and> utf8_valid content)"
| "config_ok (ConfigReplaceRegex source content) = utf8_valid content"
| "config_ok _ = True"

definition regexes_ok :: "(bytes \<Rightarrow> regex option) \<Rightarrow> bool" where
  "regexes_ok compile_regex \<longleftrightarrow> (\<forall>source find_iter. compile_regex source = Some find_iter \<longrightarrow> regex_ok find_iter)"

lemma cleanup_stages_ok: "list_all stage_ok cleanup_stages"
  by (simp add: cleanup_stages_def wordpiece_cleanup_def wordpiece_cleanup_last_def stage_ok_def bytes_of_def utf8_valid.simps)

lemma append_decoder_stages_ok:
  "append_decoder heap compile_regex config stages = Ok out \<Longrightarrow> config_ok config \<Longrightarrow> regexes_ok compile_regex \<Longrightarrow>
     list_all stage_ok (config_stages compile_regex config)"
  "append_sequence heap compile_regex configs stages = Ok out \<Longrightarrow> list_all config_ok configs \<Longrightarrow> regexes_ok compile_regex \<Longrightarrow>
     list_all stage_ok (concat (map (config_stages compile_regex) configs))"
proof (induction heap compile_regex config stages and heap compile_regex configs stages arbitrary: out and out
    rule: append_decoder_append_sequence.induct)
  case (8 heap compile_regex source content stages)
  then show ?case by (auto simp: append_regex_def stage_ok_def regexes_ok_def)
qed (auto simp: stage_ok_def cleanup_stages_ok)

subsection \<open>Room for every stage\<close>

lemma plan_stages_mono:
  "plan_stages stages c = Ok c' \<Longrightarrow> ca_arena c \<le> ca_arena c' \<and> ca_spans c \<le> ca_spans c' \<and> ca_raw c \<le> ca_raw c'"
proof (induction stages arbitrary: c)
  case (Cons st stages)
  obtain d where "plan_stage st c = Ok d" "plan_stages stages d = Ok c'" using Cons.prems by auto
  then show ?case using Cons.IH [of d] by (auto simp: plan_stage_def Let_def split: if_splits)
qed simp

lemma plan_stages_shape:
  "plan_stages stages c = Ok c' \<Longrightarrow> sh_bytes (ca_shape c) \<le> ca_arena c \<Longrightarrow> sh_bytes (ca_shape c') \<le> ca_arena c'"
proof (induction stages arbitrary: c)
  case (Cons st stages)
  obtain d where "plan_stage st c = Ok d" "plan_stages stages d = Ok c'" using Cons.prems by auto
  then show ?case using Cons.IH [of d] by (auto simp: plan_stage_def Let_def)
qed simp

text \<open>Buffers with room for a whole program.\<close>

definition roomy :: "capacities \<Rightarrow> token_buffer \<Rightarrow> bool" where
  "roomy c b \<longleftrightarrow> sized b \<and> ca_arena c \<le> byte_room b \<and> ca_spans c \<le> span_room b"

lemma apply_stage_filled:
  assumes "stage_ok st" and "list_all utf8_valid us" and "sized b" and "fits b (stage_text st us)"
    and "uses_raw_bytes st \<Longrightarrow> length (concat us) \<le> min raw_limit raw_capacity" and "min raw_limit raw_capacity < 2 ^ 64"
  shows "apply_stage st (filled s us []) (buffer_clear b) raw_limit raw_capacity = (Ok (), filled b (stage_text st us) [])"
  using assms
  by (cases st)
    (simp_all add: apply_stage_def buffer_clear_filled stage_text_def stage_ok_def uses_raw_bytes_def
      apply_bpe_filled apply_byte_level_filled apply_wordpiece_filled apply_metaspace_filled apply_deduplicate_filled
      apply_filter_empty_filled apply_literal_replace_filled apply_regex_replace_filled apply_fuse_filled
      apply_strip_filled apply_byte_fallback_filled)

lemma apply_stages_filled:
  assumes "plan_stages stages c = Ok c'" and "list_all stage_ok stages" and "list_all utf8_valid us"
    and "within (ca_shape c) us" and "roomy c' a" and "roomy c' b"
    and "ca_raw c' \<le> min raw_limit raw_capacity" and "min raw_limit raw_capacity < 2 ^ 64"
  shows "(\<exists>x. apply_stages stages (filled a us []) b raw_limit raw_capacity = Ok (filled x (fold stage_text stages us) [])) \<and>
    within (ca_shape c') (fold stage_text stages us) \<and> list_all utf8_valid (fold stage_text stages us)"
  using assms(1-6)
proof (induction stages arbitrary: c us a b)
  case (Cons st stages)
  obtain d where d: "plan_stage st c = Ok d" "plan_stages stages d = Ok c'" using Cons.prems(1) by auto
  then have sh: "output_bound st (ca_shape c) = Ok (ca_shape d)" and ca: "sh_bytes (ca_shape d) \<le> ca_arena d"
      "sh_spans (ca_shape d) \<le> ca_spans d" "uses_raw_bytes st \<Longrightarrow> sh_bytes (ca_shape c) \<le> ca_raw d"
    by (auto simp: plan_stage_def Let_def)
  note mono = plan_stages_mono [OF d(2)]
  have ok: "stage_ok st" "list_all stage_ok stages" using Cons.prems(2) by simp_all
  have within: "within (ca_shape d) (stage_text st us)" by (rule output_bound_sound [OF ok(1) Cons.prems(3,4) sh])
  have valid: "list_all utf8_valid (stage_text st us)" by (rule stage_text_valid [OF ok(1) Cons.prems(3)])
  have "apply_stage st (filled a us []) (buffer_clear b) raw_limit raw_capacity = (Ok (), filled b (stage_text st us) [])"
  proof (rule apply_stage_filled [OF ok(1) Cons.prems(3)])
    show "sized b" using Cons.prems(6) by (simp add: roomy_def)
    show "fits b (stage_text st us)" using within ca mono Cons.prems(6) by (simp add: fits_def within_def roomy_def)
    show "length (concat us) \<le> min raw_limit raw_capacity" if "uses_raw_bytes st"
      using ca(3) [OF that] mono assms(7) Cons.prems(4) by (simp add: within_def)
  qed (rule assms(8))
  moreover have "(\<exists>x. apply_stages stages (filled b (stage_text st us) []) (filled a us []) raw_limit raw_capacity =
        Ok (filled x (fold stage_text stages (stage_text st us)) [])) \<and>
      within (ca_shape c') (fold stage_text stages (stage_text st us)) \<and>
      list_all utf8_valid (fold stage_text stages (stage_text st us))"
    by (rule Cons.IH [OF d(2) ok(2) valid within]) (use Cons.prems(5,6) in \<open>simp_all add: roomy_def\<close>)
  ultimately show ?case by simp
qed auto

subsection \<open>The output\<close>

lemma write_tokens_reads:
  "list_all2 (\<lambda>span u. buffer_token s span = Ok u) spans us \<Longrightarrow>
     write_tokens s join_with_spaces position spans out =
       Ok (out @ concat (map (\<lambda>(i, u). if join_with_spaces \<and> i \<noteq> 0 then 32 # u else u) (enumerate position us)))"
  by (induction spans us arbitrary: position out rule: list_all2_induct) (simp_all add: Let_def)

lemma output_text_enumerate:
  "concat (map (\<lambda>(i, u). if join_with_spaces \<and> i \<noteq> 0 then 32 # u else u) (enumerate 0 us)) = output_text join_with_spaces us"
proof (cases us)
  case (Cons u vs)
  have "map (\<lambda>(i, u). if join_with_spaces \<and> i \<noteq> 0 then 32 # u else u) (enumerate (Suc n) vs) =
      map (\<lambda>u. if join_with_spaces then 32 # u else u) vs" for n
    by (induction vs arbitrary: n) simp_all
  then show ?thesis using Cons by (cases join_with_spaces) (simp_all add: output_text_def)
qed (simp add: output_text_def)

lemma length_output_text:
  "length (output_text join_with_spaces us) = length (concat us) + (if join_with_spaces then length us - 1 else 0)"
proof -
  have "length (concat (map (\<lambda>u. 32 # u) vs)) = length (concat vs) + length vs" for vs :: "bytes list"
    by (induction vs) simp_all
  then show ?thesis by (cases us) (simp_all add: output_text_def)
qed

lemma write_output_filled:
  assumes "list_all utf8_valid us" and "output_limit \<le> output_capacity"
    and "length (output_text join_with_spaces us) < 2 ^ 64"
  shows "write_output (filled s us []) join_with_spaces output_limit output_capacity =
    (if length (output_text join_with_spaces us) \<le> output_limit then Ok (output_text join_with_spaces us)
     else Err (DecodedByteLimitExceeded output_limit (length (output_text join_with_spaces us))))"
  using assms(2,3) write_tokens_reads [OF reads_filled [OF assms(1)], of s "[]" join_with_spaces 0 "[]"]
    output_text_enumerate [of join_with_spaces us]
  unfolding length_output_text
  by (auto simp: write_output_def Let_def tok_add_def usize_add_def ensure_storage_def require_def)

subsection \<open>Acquired storage\<close>

text \<open>\<open>try_reserve_exact\<close> leaves room for at least what was asked for.\<close>

definition heap_ok :: "(nat \<Rightarrow> nat option) \<Rightarrow> bool" where
  "heap_ok heap \<longleftrightarrow> (\<forall>n c. heap n = Some c \<longrightarrow> n \<le> c)"

lemma token_buffer_acquire_Ok:
  assumes "token_buffer_acquire heap bytes spans = Ok b" and "heap_ok heap" and "bytes < 2 ^ 64" and "spans < 2 ^ 64"
  shows "sized b" and "byte_room b = bytes" and "span_room b = spans" and "b = filled b [] []"
proof -
  obtain c d where b: "b = \<lparr>tb_bytes = [], tb_spans = [], tb_byte_limit = bytes, tb_span_limit = spans,
      tb_byte_capacity = c, tb_span_capacity = d\<rparr>" and "bytes \<le> c" "spans \<le> d"
    using assms(1,2) by (auto simp: token_buffer_acquire_def reserved_def heap_ok_def)
  then show "sized b" "byte_room b = bytes" "span_room b = spans" "b = filled b [] []"
    using assms(3,4) by (simp_all add: sized_def byte_room_def span_room_def filled_def)
qed

lemma make_storage_plan_Ok:
  "make_storage_plan n m arena spans raw maximum = Ok p \<Longrightarrow>
     p = \<lparr>dp_token_capacity = n, dp_output_capacity = m, dp_arena_capacity = arena, dp_span_capacity = spans,
       dp_raw_capacity = raw, dp_maximum_decoded_bytes = maximum, dp_requested_retained_bytes = m + 4 * n,
       dp_requested_scratch_bytes = 2 * arena + 32 * spans + raw\<rparr> \<and>
     n + 1 < 2 ^ 64 \<and> m < 2 ^ 64 \<and> arena < 2 ^ 64 \<and> spans < 2 ^ 64 \<and> raw < 2 ^ 64"
  by (auto simp: make_storage_plan_def)

lemma storage_acquire_Ok:
  assumes "storage_acquire heap p = Ok s" and "heap_ok heap"
  shows "token_buffer_acquire heap (dp_arena_capacity p) (dp_span_capacity p) = Ok (ds_first s)"
    and "token_buffer_acquire heap (dp_arena_capacity p) (dp_span_capacity p) = Ok (ds_second s)"
    and "ds_output_limit s = dp_output_capacity p" and "ds_output_limit s \<le> ds_output_capacity s"
    and "ds_raw_limit s = dp_raw_capacity p" and "ds_raw_limit s \<le> ds_raw_capacity s"
    and "ds_token_limit s = dp_token_capacity p" and "ds_token_limit s \<le> ds_token_ids_capacity s" and "ds_token_ids s = []"
  using assms by (auto simp: storage_acquire_def reserved_def heap_ok_def)

lemma push_token_id_iff:
  assumes "ds_token_limit s \<le> ds_token_ids_capacity s" and "ds_token_limit s + 1 < 2 ^ 64"
    and "length (ds_token_ids s) \<le> ds_token_limit s"
  shows "push_token_id i s =
    (if length (ds_token_ids s) < ds_token_limit s then (Ok (), s\<lparr>ds_token_ids := ds_token_ids s @ [i]\<rparr>)
     else (Err (DecodeTokenCapacityExceeded (length (ds_token_ids s) + 1) (ds_token_limit s)), s))"
  using assms by (auto simp: push_token_id_def tok_add_def usize_add_def require_def)

lemma push_token_ids_Ok:
  assumes "ds_token_limit s \<le> ds_token_ids_capacity s" and "ds_token_limit s + 1 < 2 ^ 64"
    and "length (ds_token_ids s) \<le> ds_token_limit s"
  shows "(\<exists>t. each push_token_id ids s = (Ok (), t)) \<longleftrightarrow> length (ds_token_ids s) + length ids \<le> ds_token_limit s"
  using assms
proof (induction ids arbitrary: s)
  case (Cons i ids)
  show ?case
    using push_token_id_iff [OF Cons.prems, of i] Cons.IH [of "s\<lparr>ds_token_ids := ds_token_ids s @ [i]\<rparr>"] Cons.prems
    by (cases "length (ds_token_ids s) < ds_token_limit s") simp_all
qed simp

lemma push_token_ids_state:
  "each push_token_id ids s = (Ok (), t) \<Longrightarrow> t = s\<lparr>ds_token_ids := ds_token_ids s @ ids\<rparr>"
proof (induction ids arbitrary: s)
  case (Cons i ids)
  obtain s' where "push_token_id i s = (Ok (), s')" "each push_token_id ids s' = (Ok (), t)" using Cons.prems by auto
  moreover from this have "s' = s\<lparr>ds_token_ids := ds_token_ids s @ [i]\<rparr>" by (auto simp: push_token_id_def)
  ultimately show ?case using Cons.IH [of s'] by simp
qed simp

subsection \<open>Decoding\<close>

text \<open>What the identifiers of a request mean under a tokenizer's configuration.\<close>

definition decoded_text :: "(bytes \<Rightarrow> regex option) \<Rightarrow> upstream \<Rightarrow> decoder_config option \<Rightarrow> bool \<Rightarrow> u32 list \<Rightarrow> bytes" where
  "decoded_text compile_regex up config skip ids =
     output_text (config = None)
       (fold stage_text (case config of None \<Rightarrow> [] | Some d \<Rightarrow> config_stages compile_regex d) (spellings up skip ids))"

lemma decoder_compile_Ok:
  assumes "decoder_compile heap compile_regex up config = Ok d"
    and "regexes_ok compile_regex" and "case config of None \<Rightarrow> True | Some c \<Rightarrow> config_ok c"
  shows "vocabulary_compile heap up = Ok (cd_vocabulary d)" and "cd_join_with_spaces d = (config = None)"
    and "cd_stages d = (case config of None \<Rightarrow> [] | Some c \<Rightarrow> config_stages compile_regex c)"
    and "list_all stage_ok (cd_stages d)"
proof -
  obtain stages where "(case config of None \<Rightarrow> Ok [] | Some c \<Rightarrow> append_decoder heap compile_regex c []) = Ok stages"
    and stages: "cd_stages d = stages" and "vocabulary_compile heap up = Ok (cd_vocabulary d)"
    and "cd_join_with_spaces d = (config = None)"
    using assms(1) by (auto simp: decoder_compile_def)
  then show "vocabulary_compile heap up = Ok (cd_vocabulary d)" and "cd_join_with_spaces d = (config = None)"
    and "cd_stages d = (case config of None \<Rightarrow> [] | Some c \<Rightarrow> config_stages compile_regex c)"
    and "list_all stage_ok (cd_stages d)"
    using append_decoder_Ok(1) [of heap compile_regex _ "[]" stages] assms(2,3)
      append_decoder_stages_ok(1) [of heap compile_regex _ "[]" stages]
    by (auto split: option.splits)
qed

lemma decode_filled:
  assumes compile: "decoder_compile heap compile_regex up config = Ok d"
    and parts: "regexes_ok compile_regex" "case config of None \<Rightarrow> True | Some c \<Rightarrow> config_ok c" "upstream_ok up" "heap_ok heap"
    and plan: "storage_plan d n limit = Ok p" and acquire: "storage_acquire heap p = Ok s"
    and ids: "length ids \<le> n"
  shows "decode d (s\<lparr>ds_token_ids := ids\<rparr>) skip =
      (let text = decoded_text compile_regex up config skip ids in
       if length text \<le> limit then Ok (text, ids) else Err (DecodedByteLimitExceeded limit (length text)))"
    and "length (decoded_text compile_regex up config skip ids) \<le> dp_maximum_decoded_bytes p"
proof -
  note c = decoder_compile_Ok [OF compile parts(1,2)]
  note st = storage_acquire_Ok [OF acquire parts(4)]
  let ?m = "vo_max_spelling_bytes (cd_vocabulary d)"
  let ?c = "\<lparr>ca_shape = \<lparr>sh_bytes = n * ?m, sh_spans = n\<rparr>, ca_arena = n * ?m, ca_spans = n, ca_raw = 0\<rparr>"
  obtain e maximum where e: "plan_stages (cd_stages d) ?c = Ok e" "final_byte_bound d (ca_shape e) = Ok maximum"
    and made: "make_storage_plan n limit (ca_arena e) (ca_spans e) (ca_raw e) maximum = Ok p"
    using plan by (auto simp: storage_plan_def)
  note p = make_storage_plan_Ok [OF made]
  have first: "token_buffer_acquire heap (ca_arena e) (ca_spans e) = Ok (ds_first s)"
    and second: "token_buffer_acquire heap (ca_arena e) (ca_spans e) = Ok (ds_second s)" using st(1,2) p by simp_all
  have "roomy e b" if "token_buffer_acquire heap (ca_arena e) (ca_spans e) = Ok b" for b
    using token_buffer_acquire_Ok [OF that parts(4)] p by (simp add: roomy_def)
  then have roomy: "roomy e (ds_first s)" "roomy e (ds_second s)" using first second by simp_all
  let ?us = "spellings up skip ids"
  note us = spellings_bounds [OF c(1) parts(3), of skip ids]
  have within: "within (ca_shape ?c) ?us"
    using le_trans [OF us(1) ids] le_trans [OF us(2) mult_le_mono1 [OF ids]] by (simp add: within_def)
  have "fits (ds_first s) ?us"
    using within plan_stages_mono [OF e(1)] roomy(1) by (simp add: within_def fits_def roomy_def)
  then have seed: "vocabulary_seed (cd_vocabulary d) ids skip (ds_first s) = (Ok (), filled (ds_first s) ?us [])"
    using roomy(1) by (intro vocabulary_seed_filled [OF c(1) parts(3)]) (simp_all add: roomy_def)
  have raw: "ca_raw e \<le> min (ds_raw_limit s) (ds_raw_capacity s)" "min (ds_raw_limit s) (ds_raw_capacity s) < 2 ^ 64"
    using st(5,6) p by simp_all
  let ?ts = "fold stage_text (cd_stages d) ?us"
  obtain x where x: "apply_stages (cd_stages d) (filled (ds_first s) ?us []) (ds_second s) (ds_raw_limit s) (ds_raw_capacity s) =
      Ok (filled x ?ts [])" and out: "within (ca_shape e) ?ts" "list_all utf8_valid ?ts"
    using apply_stages_filled [OF e(1) c(4) us(3) within roomy raw] by blast
  have meaning: "decoded_text compile_regex up config skip ids = output_text (cd_join_with_spaces d) ?ts"
    by (simp add: decoded_text_def c)
  have bound: "length (output_text (cd_join_with_spaces d) ?ts) \<le> maximum \<and> maximum < 2 ^ 64"
    using out(1) e(2) p plan_stages_shape [OF e(1)]
    by (auto simp: length_output_text final_byte_bound_def within_def split: if_splits)
  show "length (decoded_text compile_regex up config skip ids) \<le> dp_maximum_decoded_bytes p"
    using bound p meaning by simp
  have "write_output (filled x ?ts []) (cd_join_with_spaces d) (ds_output_limit s) (ds_output_capacity s) =
      (if length (output_text (cd_join_with_spaces d) ?ts) \<le> limit then Ok (output_text (cd_join_with_spaces d) ?ts)
       else Err (DecodedByteLimitExceeded limit (length (output_text (cd_join_with_spaces d) ?ts))))"
    using write_output_filled [OF out(2) st(4), of "cd_join_with_spaces d" x] bound st(3) p by simp
  then show "decode d (s\<lparr>ds_token_ids := ids\<rparr>) skip =
      (let text = decoded_text compile_regex up config skip ids in
       if length text \<le> limit then Ok (text, ids) else Err (DecodedByteLimitExceeded limit (length text)))"
    using seed x meaning by (simp add: decode_def Let_def)
qed

lemma planned_storage:
  assumes "storage_plan d n limit = Ok plan" and "storage_acquire heap plan = Ok s" and "heap_ok heap"
  shows "ds_token_limit s = n" and "n \<le> ds_token_ids_capacity s" and "n + 1 < 2 ^ 64" and "ds_token_ids s = []"
proof -
  obtain arena spans raw maximum where "make_storage_plan n limit arena spans raw maximum = Ok plan"
    using assms(1) by (auto simp: storage_plan_def)
  note p = make_storage_plan_Ok [OF this]
  note st = storage_acquire_Ok [OF assms(2,3)]
  show "ds_token_limit s = n" "n \<le> ds_token_ids_capacity s" "n + 1 < 2 ^ 64" "ds_token_ids s = []"
    using p st by auto
qed

end
