(* ===== verification/Decode_Properties.thy ===== *)
theory Decode_Properties
  imports Decode_Policy "HOL-Library.Multiset"
begin

text \<open>
  What the decode policies guarantee: the greedy choice is the first of the greatest logits and never
  a masked one, and top-k keeps exactly the logits fewer than k are greater than.
\<close>

subsection \<open>Valid logits\<close>

definition valid_logits :: "f32 list \<Rightarrow> bool" where
  "valid_logits logits \<longleftrightarrow>
     list_all (\<lambda>x. \<not> f32_is_nan x \<and> x \<noteq> f32_infinity) logits \<and> list_ex f32_is_finite logits"

lemma validate_from_Ok:
  "validate_from position has_candidate logits = Ok () \<longleftrightarrow>
     list_all (\<lambda>x. \<not> f32_is_nan x \<and> x \<noteq> f32_infinity) logits \<and> (has_candidate \<or> list_ex f32_is_finite logits)"
  by (induction position has_candidate logits rule: validate_from.induct) auto

lemma validate_logits_Ok: "validate_logits logits = Ok () \<longleftrightarrow> valid_logits logits"
  by (auto simp: validate_logits_def valid_logits_def validate_from_Ok)

lemma f32_less_key: "\<not> f32_is_nan x \<Longrightarrow> \<not> f32_is_nan y \<Longrightarrow> f32_less x y \<longleftrightarrow> f32_key x < f32_key y"
  by (simp add: f32_less_def)

lemma f32_neg_infinity_facts [simp]:
  "\<not> f32_is_nan f32_neg_infinity" "\<not> f32_is_finite f32_neg_infinity" "f32_neg_infinity \<noteq> f32_infinity"
  "f32_key f32_neg_infinity = - (255 * 2 ^ 23)" "f32_total f32_neg_infinity = - 1 - 255 * 2 ^ 23"
  by (simp_all add: f32_is_nan_def f32_is_finite_def f32_magnitude_def f32_neg_infinity_def f32_infinity_def
      f32_key_def f32_total_def f32_negative_def)

lemma f32_above_neg_infinity:
  assumes "\<not> f32_is_nan x" and "x \<noteq> f32_infinity"
  shows "f32_less f32_neg_infinity x \<longleftrightarrow> f32_is_finite x" and "\<not> f32_is_finite x \<Longrightarrow> x = f32_neg_infinity"
proof -
  show "x = f32_neg_infinity" if "\<not> f32_is_finite x"
    using f32_infinite_cases [of x] assms that by blast
  moreover have "f32_less f32_neg_infinity x" if "f32_is_finite x"
    using that assms(1) by (simp add: f32_less_key) (simp add: f32_key_def f32_is_finite_def)
  moreover have "\<not> f32_less f32_neg_infinity f32_neg_infinity" by (simp add: f32_less_def)
  ultimately show "f32_less f32_neg_infinity x \<longleftrightarrow> f32_is_finite x" by metis
qed

subsection \<open>The greedy choice\<close>

text \<open>The first of the greatest.\<close>

definition first_best :: "f32 list \<Rightarrow> nat \<Rightarrow> bool" where
  "first_best logits i \<longleftrightarrow> i < length logits \<and>
     (\<forall>j < length logits. \<not> f32_less (logits ! i) (logits ! j)) \<and>
     (\<forall>j < i. f32_less (logits ! j) (logits ! i))"

lemma first_best_unique: "first_best logits i \<Longrightarrow> first_best logits j \<Longrightarrow> i = j"
  by (metis first_best_def linorder_neqE_nat)

lemma greedy_from_best:
  assumes "list_all (\<lambda>x. \<not> f32_is_nan x \<and> x \<noteq> f32_infinity) (pre @ logits)" and "pre @ logits \<noteq> []"
    and "pre = [] \<and> best_i = 0 \<and> best = f32_neg_infinity \<or> first_best pre best_i \<and> best = pre ! best_i"
  shows "first_best (pre @ logits) (greedy_from (length pre) best_i best logits)"
  using assms
proof (induction logits arbitrary: pre best_i best)
  case (Cons v logits)
  have nan: "\<not> f32_is_nan x" if "x \<in> set (pre @ v # logits)" for x using Cons.prems(1) that by (auto simp: list_all_iff)
  have IH: "first_best ((pre @ [v]) @ logits) (greedy_from (length (pre @ [v])) i b logits)"
    if "first_best (pre @ [v]) i" "b = (pre @ [v]) ! i" for i b
    by (rule Cons.IH) (use Cons.prems that in simp_all)
  show ?case
  proof (cases "f32_less best v")
    case True
    have "f32_less (pre ! j) v" if "j < length pre" for j
    proof -
      have pre: "first_best pre best_i" "best = pre ! best_i" using Cons.prems(3) that by auto
      then have "\<not> f32_less best (pre ! j)" using that by (simp add: first_best_def)
      moreover have "pre ! j \<in> set (pre @ v # logits)" "best \<in> set (pre @ v # logits)" "v \<in> set (pre @ v # logits)"
        using pre that by (auto simp: first_best_def)
      ultimately show ?thesis using True nan by (auto simp: f32_less_def)
    qed
    then have "first_best (pre @ [v]) (length pre)"
      by (fastforce simp: first_best_def nth_append less_Suc_eq f32_less_def)
    then show ?thesis using True IH [of "length pre" v] by simp
  next
    case False
    have "first_best (pre @ [v]) best_i \<and> best = (pre @ [v]) ! best_i"
    proof (cases "pre = []")
      case True
      then have "best_i = 0" "best = f32_neg_infinity" using Cons.prems(3) by (auto simp: first_best_def)
      moreover have "v = f32_neg_infinity"
        using False calculation(2) Cons.prems(1) f32_above_neg_infinity [of v] by auto
      ultimately show ?thesis using True by (simp add: first_best_def f32_less_def)
    next
      case pre: False
      then show ?thesis using Cons.prems(3) False by (auto simp: first_best_def nth_append less_Suc_eq)
    qed
    then show ?thesis using False IH [of best_i best] by simp
  qed
qed auto

lemma greedy_from_first_best: "valid_logits logits \<Longrightarrow> first_best logits (greedy_from 0 0 f32_neg_infinity logits)"
  using greedy_from_best [of "[]" logits 0 f32_neg_infinity] by (cases logits) (auto simp: valid_logits_def)

text \<open>The greatest of valid logits is not a masked one.\<close>

lemma first_best_finite:
  assumes "valid_logits logits" and "first_best logits i"
  shows "f32_is_finite (logits ! i)"
proof (rule ccontr)
  assume masked: "\<not> f32_is_finite (logits ! i)"
  have i: "i < length logits" using assms(2) by (simp add: first_best_def)
  then have "logits ! i = f32_neg_infinity"
    using masked assms(1) f32_above_neg_infinity(2) by (auto simp: valid_logits_def list_all_length)
  moreover obtain j where "j < length logits" "f32_is_finite (logits ! j)"
    using assms(1) by (auto simp: valid_logits_def list_ex_length)
  ultimately have "f32_less (logits ! i) (logits ! j)"
    using assms(1) f32_above_neg_infinity(1) by (auto simp: valid_logits_def list_all_length)
  then show False using assms(2) \<open>j < length logits\<close> by (simp add: first_best_def)
qed

lemma greedy_Ok:
  "greedy logits = Ok t \<longleftrightarrow> valid_logits logits \<and> first_best logits (unat t)"
proof -
  have word: "token_index n = Ok t \<longleftrightarrow> unat t = n" for n
  proof -
    have "unat t < 2 ^ 32" using unsigned_less [of t] by simp
    then show ?thesis by (auto simp: token_index_def unat_of_nat)
  qed
  show ?thesis
    using greedy_from_first_best [of logits] first_best_unique
    by (auto simp: greedy_def validate_logits_Ok word intro: first_best_unique)
qed

subsection \<open>Top-k\<close>

definition above :: "f32 list \<Rightarrow> f32 \<Rightarrow> nat" where
  "above logits x = length (filter (f32_less x) logits)"

lemma sort_descending:
  assumes "i \<le> j" and "j < length logits"
  shows "f32_total (sort_key (\<lambda>x. - f32_total x) logits ! j) \<le> f32_total (sort_key (\<lambda>x. - f32_total x) logits ! i)"
proof -
  have "sorted (map (\<lambda>x. - f32_total x) (sort_key (\<lambda>x. - f32_total x) logits))" by simp
  from sorted_nth_mono [OF this assms(1)] show ?thesis using assms by simp
qed

lemma above_mset: "mset xs = mset ys \<Longrightarrow> above xs x = above ys x"
  unfolding above_def by (metis mset_filter size_mset)

lemma below_threshold:
  assumes "list_all (\<lambda>x. \<not> f32_is_nan x) logits" and "x \<in> set logits" and "0 < k" and "k \<le> length logits"
  shows "f32_less x (sort_key (\<lambda>x. - f32_total x) logits ! (k - 1)) \<longleftrightarrow> k \<le> above logits x"
proof -
  define s where "s = sort_key (\<lambda>x. - f32_total x) logits"
  define thr where "thr = s ! (k - 1)"
  have len: "length s = length logits" and set: "set s = set logits" by (simp_all add: s_def)
  have nan: "\<not> f32_is_nan y" if "y \<in> set s" for y using assms(1) that set by (simp add: list_all_iff)
  have thr: "thr \<in> set s" using assms(3,4) len by (simp add: thr_def)
  have x: "x \<in> set s" using assms(2) set by simp
  have counted: "above logits x = length (filter (f32_less x) (take k s)) + length (filter (f32_less x) (drop k s))"
  proof -
    have "above logits x = above s x" by (rule above_mset) (simp add: s_def)
    also have "\<dots> = above (take k s @ drop k s) x" by simp
    finally show ?thesis unfolding above_def filter_append length_append .
  qed
  show ?thesis
  proof (cases "f32_less x thr")
    case True
    have "f32_less x y" if "y \<in> set (take k s)" for y
    proof -
      obtain i where "i < k" "i < length s" "y = s ! i" using \<open>y \<in> set (take k s)\<close> by (auto simp: in_set_conv_nth)
      then have "f32_total thr \<le> f32_total y"
        using sort_descending [of i "k - 1" logits] assms(3,4) by (simp add: s_def thr_def)
      then have "f32_key thr \<le> f32_key y" by (rule f32_total_key)
      moreover have "y \<in> set s" using \<open>i < length s\<close> \<open>y = s ! i\<close> by simp
      ultimately show ?thesis using True nan [OF thr] nan [of y] nan [OF x] by (simp add: f32_less_def)
    qed
    then have "filter (f32_less x) (take k s) = take k s" by simp
    then show ?thesis using counted True assms(4) len by (simp add: thr_def s_def)
  next
    case False
    then have key: "f32_key thr \<le> f32_key x" using nan [OF thr] nan [OF x] by (simp add: f32_less_def)
    have "\<not> f32_less x y" if "y \<in> set (drop (k - 1) s)" for y
    proof -
      obtain i' where i': "i' < length (drop (k - 1) s)" "y = drop (k - 1) s ! i'" using \<open>y \<in> set (drop (k - 1) s)\<close> unfolding in_set_conv_nth by blast
      define i where "i = k - 1 + i'"
      have "k - 1 \<le> i" by (simp add: i_def)
      moreover have "i < length s" using i'(1) unfolding i_def length_drop by linarith
      moreover have "y = s ! i" using i' unfolding i_def by (simp only: nth_drop length_drop)
      ultimately have "f32_total y \<le> f32_total thr"
        using sort_descending [of "k - 1" i logits] by (simp add: s_def thr_def)
      then have "f32_key y \<le> f32_key thr" by (rule f32_total_key)
      then show ?thesis using key by (simp add: f32_less_def)
    qed
    then have none: "filter (f32_less x) (drop (k - 1) s) = []" by (simp add: filter_empty_conv)
    have "above logits x = length (filter (f32_less x) (take (k - 1) s))"
    proof -
      have "above logits x = above s x" by (rule above_mset) (simp add: s_def)
      also have "\<dots> = above (take (k - 1) s @ drop (k - 1) s) x" by simp
      finally show ?thesis using none unfolding above_def filter_append length_append by simp
    qed
    also have "\<dots> \<le> length (take (k - 1) s)" by (rule length_filter_le)
    also have "\<dots> < k" using assms(3,4) len by simp
    finally show ?thesis using False by (simp add: thr_def s_def)
  qed
qed

lemma top_k_kept:
  assumes "process_top_k heap k logits = Ok out" and "0 < k"
  shows "out = map (\<lambda>x. if above logits x < k then x else f32_neg_infinity) logits" and "valid_logits logits"
proof -
  have valid: "valid_logits logits" using assms(1) by (auto simp: process_top_k_def validate_logits_Ok)
  then have nan: "list_all (\<lambda>x. \<not> f32_is_nan x) logits" by (auto simp: valid_logits_def list_all_iff)
  have "out = map (\<lambda>x. if above logits x < k then x else f32_neg_infinity) logits"
  proof (cases "length logits \<le> k")
    case True
    have "above logits x < k" if "x \<in> set logits" for x
    proof -
      have "above logits x < length logits"
        unfolding above_def using that by (intro length_filter_less [of x]) (auto simp: f32_less_def)
      then show ?thesis using True by simp
    qed
    then have "map (\<lambda>x. if above logits x < k then x else f32_neg_infinity) logits = logits" by (simp add: map_idI)
    then show ?thesis using assms(1) True by (simp add: process_top_k_def)
  next
    case False
    then show ?thesis
      using assms below_threshold [OF nan _ assms(2)] by (auto simp: process_top_k_def mask_below_def Let_def)
  qed
  then show "out = map (\<lambda>x. if above logits x < k then x else f32_neg_infinity) logits" and "valid_logits logits"
    using valid by simp_all
qed

lemma above_best: "first_best logits i \<Longrightarrow> above logits (logits ! i) = 0"
  by (auto simp: above_def first_best_def filter_empty_conv in_set_conv_nth)

lemma top_k_first_best:
  assumes "process_top_k heap k logits = Ok out" and "0 < k"
  shows "valid_logits out" and "first_best logits i \<Longrightarrow> first_best out i"
proof -
  note out = top_k_kept [OF assms]
  have best: "first_best out i" and fin: "f32_is_finite (out ! i)" and len: "i < length out" if i: "first_best logits i" for i
  proof -
    have i': "i < length logits" using i by (simp add: first_best_def)
    then show "i < length out" by (simp add: out(1))
    have "out ! i = logits ! i" using above_best [OF i] i' assms(2) by (simp add: out(1))
    moreover have "out ! j = logits ! j \<or> out ! j = f32_neg_infinity" if "j < length logits" for j
      using that by (simp add: out(1))
    moreover have "f32_is_finite (logits ! i)" by (rule first_best_finite [OF out(2) i])
    moreover from this have "f32_less f32_neg_infinity (logits ! i)"
      using f32_above_neg_infinity(1) [of "logits ! i"] out(2) i' by (auto simp: valid_logits_def list_all_length)
    ultimately show "first_best out i" and "f32_is_finite (out ! i)"
      using i f32_neg_infinity_least i' by (auto simp: first_best_def out(1))
  qed
  obtain m where m: "first_best logits m" using greedy_from_first_best [OF out(2)] by blast
  have "list_all (\<lambda>x. \<not> f32_is_nan x \<and> x \<noteq> f32_infinity) out"
    using out(2) by (auto simp: out(1) valid_logits_def list_all_iff)
  then show "valid_logits out" using fin [OF m] len [OF m] by (auto simp: valid_logits_def list_ex_length)
  show "first_best out i" if "first_best logits i" by (rule best [OF that])
qed

lemma top_k_greedy:
  assumes "process_top_k heap k logits = Ok out" and "0 < k"
  shows "greedy out = greedy logits"
proof -
  have v: "valid_logits logits" by (rule top_k_kept(2) [OF assms])
  have "first_best logits (greedy_from 0 0 f32_neg_infinity logits)" by (rule greedy_from_first_best [OF v])
  from top_k_first_best(2) [OF assms this] have "greedy_from 0 0 f32_neg_infinity out = greedy_from 0 0 f32_neg_infinity logits"
    using greedy_from_first_best [OF top_k_first_best(1) [OF assms]] first_best_unique by blast
  then show ?thesis
    using v top_k_first_best(1) [OF assms] by (simp add: greedy_def validate_logits_Ok [THEN iffD2])
qed

subsection \<open>Properties\<close>

text \<open>
  Greedy decoding answers exactly for logits with a finite entry and neither NaN nor positive
  infinity, and then with the lowest index among the greatest logits, which is never a masked one.
\<close>

theorem greedy_iff:
  "greedy logits = Ok t \<longleftrightarrow> valid_logits logits \<and> first_best logits (unat t) \<and> f32_is_finite (logits ! unat t)"
  using first_best_finite [of logits "unat t"] by (auto simp: greedy_Ok)

text \<open>A top-k processor masks a logit exactly when at least k logits are greater, so ties at the
  boundary all stay, and the greedy choice is the same before and after it.\<close>

theorem top_k_keeps_the_best:
  assumes "top_k_new k = Ok p" and "process heap ops p logits = Ok out"
  shows "out = map (\<lambda>x. if above logits x < k then x else f32_neg_infinity) logits \<and> greedy out = greedy logits"
proof -
  have p: "p = TopK k" "0 < k" using assms(1) by (auto simp: top_k_new_def)
  then have "process_top_k heap k logits = Ok out" using assms(2) by (simp add: process_def)
  then show ?thesis using top_k_kept(1) top_k_greedy p(2) by blast
qed

text \<open>An arithmetic in which every finite logit has the same weight.\<close>

definition even_ops :: "int float_ops" where
  "even_ops = \<lparr>div32 = (\<lambda>x _. x), mul32 = (\<lambda>x _. x), sub32 = (\<lambda>x _. x), exp32 = (\<lambda>x. x), of32 = (\<lambda>_. 0),
     zero64 = 0, add64 = (+), mul64 = (*), div64 = (\<lambda>x _. x), max64 = max, less64 = (<), le64 = (\<le>), sub64 = (-),
     exp64 = (\<lambda>_. 1), finite64 = (\<lambda>_. True), total64 = (\<lambda>x. x)\<rparr>"

text \<open>The logits 1, 3, 2 and 2 under top-2.\<close>

lemma top_k_keeps_the_best_witness:
  "process (\<lambda>_. True) even_ops (TopK 2) [0x3F800000, 0x40400000, 0x40000000, 0x40000000] =
     Ok [f32_neg_infinity, 0x40400000, 0x40000000, 0x40000000] \<and>
   greedy [f32_neg_infinity, 0x40400000, 0x40000000, 0x40000000] = greedy [0x3F800000, 0x40400000, 0x40000000, 0x40000000]"
proof -
  let ?in = "[0x3F800000, 0x40400000, 0x40000000, 0x40000000] :: f32 list"
  have "process (\<lambda>_. True) even_ops (TopK 2) ?in = Ok [f32_neg_infinity, 0x40400000, 0x40000000, 0x40000000]"
    by (simp add: process_def process_top_k_def validate_logits_def f32_is_nan_def f32_is_finite_def f32_magnitude_def
        f32_infinity_def reserve_def require_def Let_def mask_below_def f32_less_def f32_key_def f32_total_def f32_negative_def)
  moreover have "top_k_new 2 = Ok (TopK 2)" by (simp add: top_k_new_def require_def)
  ultimately show ?thesis using top_k_keeps_the_best [of 2 "TopK 2" "\<lambda>_. True" even_ops ?in] by auto
qed

end
