(* ===== verification/Text_Meaning.thy ===== *)
theory Text_Meaning
  imports Text_Generation Token_Decoding Decode_Properties
begin

text \<open>
  What a generation means: the continuation a language model gives greedily, that the loop produces
  it through a port that serves the model, what any port can make the loop produce, and when two
  ports are interchangeable.
\<close>

subsection \<open>The model behind a port\<close>

definition pick :: "f32 list \<Rightarrow> u32" where
  "pick row = (case greedy row of Ok t \<Rightarrow> t | _ \<Rightarrow> 0)"

text \<open>At most so many tokens, each the greedy choice after all before it, up to a stop token.\<close>

fun continuation :: "(u32 list \<Rightarrow> f32 list) \<Rightarrow> u32 list \<Rightarrow> nat \<Rightarrow> u32 list \<Rightarrow> u32 list" where
  "continuation model stops 0 context_ids = []"
| "continuation model stops (Suc n) context_ids =
     (let t = pick (model context_ids) in
      if t \<in> set stops then [] else t # continuation model stops n (context_ids @ [t]))"

lemma length_continuation: "length (continuation model stops n context_ids) \<le> n"
  by (induction n arbitrary: context_ids) (simp_all add: Let_def)

text \<open>Rows of the vocabulary's width in which a token can be chosen.\<close>

definition model_ok :: "(u32 list \<Rightarrow> f32 list) \<Rightarrow> nat \<Rightarrow> bool" where
  "model_ok model vocabulary \<longleftrightarrow> vocabulary \<le> 2 ^ 32 \<and>
     (\<forall>ids. length (model ids) = vocabulary \<and> valid_logits (model ids))"

text \<open>A port that feeds the model all tokens it has been given and is never cancelled.\<close>

definition serves :: "('w, 'e) port \<Rightarrow> (u32 list \<Rightarrow> f32 list) \<Rightarrow> ('w \<Rightarrow> u32 list) \<Rightarrow> bool" where
  "serves port model fed \<longleftrightarrow>
     (\<forall>w. \<not> fst (po_cancelled port w) \<and> fed (snd (po_cancelled port w)) = fed w) \<and>
     (\<forall>ids w. fst (po_step port ids w) = Ok (model (fed w @ ids)) \<and> fed (snd (po_step port ids w)) = fed w @ ids)"

lemma greedy_last_logits_pick:
  assumes "model_ok model vocabulary"
  shows "greedy_last_logits (model ids) vocabulary = Ok (pick (model ids))"
proof -
  have row: "length (model ids) = vocabulary" "valid_logits (model ids)" "vocabulary \<le> 2 ^ 32"
    using assms by (simp_all add: model_ok_def)
  let ?i = "greedy_from 0 0 f32_neg_infinity (model ids)"
  have "first_best (model ids) ?i" by (rule greedy_from_first_best [OF row(2)])
  then have i: "?i < vocabulary" using row(1) by (simp add: first_best_def)
  then have "greedy (model ids) = Ok (of_nat ?i)"
    using row(3) by (simp add: greedy_def validate_logits_Ok [THEN iffD2, OF row(2)] token_index_def)
  moreover have "unat (of_nat ?i :: u32) = ?i" using i row(3) by (simp add: unat_of_nat)
  ultimately show ?thesis using i row(1) by (simp add: greedy_last_logits_def pick_def require_def)
qed

lemma pipeline_check_serves:
  assumes "serves port model fed"
  obtains w' where "pipeline_check port boundary w = (Ok (), w')" and "fed w' = fed w"
proof -
  obtain c v where v: "po_cancelled port w = (c, v)" by (cases "po_cancelled port w")
  then have "\<not> c" "fed v = fed w" using assms by (auto simp: serves_def) (metis fst_conv, metis snd_conv)
  then show ?thesis using that [of v] v by (simp add: pipeline_check_def check_cancelled_def)
qed

lemma select_next_serves:
  assumes "serves port model fed" and "model_ok model vocabulary"
  obtains w' where "select_next port ids vocabulary w = (Ok (pick (model (fed w @ ids))), w')" and "fed w' = fed w @ ids"
proof -
  obtain v where v: "po_step port ids w = (Ok (model (fed w @ ids)), v)" "fed v = fed w @ ids"
    using assms(1) by (metis serves_def prod.collapse)
  obtain w' where "pipeline_check port GreedySelection v = (Ok (), w')" "fed w' = fed v"
    by (rule pipeline_check_serves [OF assms(1)])
  then show ?thesis
    using that [of w'] v greedy_last_logits_pick [OF assms(2)] by (simp add: select_next_def)
qed

lemma generation_loop_serves:
  assumes "serves port model fed" and "model_ok model vocabulary"
    and "ds_token_limit s = n" "n \<le> ds_token_ids_capacity s" "n + 1 < 2 ^ 64"
    and "length (ds_token_ids s) < n"
  shows "\<exists>w'. generation_loop port vocabulary stops n (pick (model (fed w))) s w =
    (let rest = continuation model stops (n - length (ds_token_ids s)) (fed w) in
     (Ok (if length (ds_token_ids s) + length rest = n then OutputLength else EndOfSequence,
         s\<lparr>ds_token_ids := ds_token_ids s @ rest\<rparr>), w'))"
  using assms(3-)
proof (induction "n - length (ds_token_ids s)" arbitrary: s w)
  case (Suc m)
  let ?t = "pick (model (fed w))"
  have n: "n - length (ds_token_ids s) = Suc m" using Suc(2) by simp
  show ?case
  proof (cases "?t \<in> set stops")
    case True
    then show ?thesis using Suc.prems n by (subst generation_loop.simps) (auto simp: Let_def)
  next
    case False
    let ?s = "s\<lparr>ds_token_ids := ds_token_ids s @ [?t]\<rparr>"
    have push: "push_token_id ?t s = (Ok (), ?s)"
      using push_token_id_iff [of s ?t] Suc.prems by simp
    show ?thesis
    proof (cases "length (ds_token_ids s) + 1 = n")
      case True
      then have "m = 0" using n by simp
      then show ?thesis using True False push n by (subst generation_loop.simps) (simp add: Let_def)
    next
      case more: False
      obtain v where v: "pipeline_check port NextStep w = (Ok (), v)" "fed v = fed w"
        by (rule pipeline_check_serves [OF assms(1)])
      obtain u where u: "select_next port [?t] vocabulary v = (Ok (pick (model (fed v @ [?t]))), u)" "fed u = fed v @ [?t]"
        by (rule select_next_serves [OF assms(1,2)])
      have m: "n - (length (ds_token_ids s) + 1) = m" using n by simp
      have "\<exists>w'. generation_loop port vocabulary stops n (pick (model (fed u))) ?s u =
          (let rest = continuation model stops (n - length (ds_token_ids ?s)) (fed u) in
           (Ok (if length (ds_token_ids ?s) + length rest = n then OutputLength else EndOfSequence,
             ?s\<lparr>ds_token_ids := ds_token_ids ?s @ rest\<rparr>), w'))"
        by (rule Suc.hyps(1)) (use Suc.prems more n in simp_all)
      then show ?thesis
        using push False more v u n m by (subst generation_loop.simps) (auto simp: Let_def)
    qed
  qed
qed simp

subsection \<open>Any port\<close>

lemma generation_loop_any:
  "generation_loop port vocabulary stops n next_id s w = (Ok (finish, t), w') \<Longrightarrow>
     length (ds_token_ids s) < n \<Longrightarrow> ds_token_limit s \<le> n \<Longrightarrow>
     \<exists>rest. t = s\<lparr>ds_token_ids := ds_token_ids s @ rest\<rparr> \<and> set rest \<inter> set stops = {} \<and>
       length (ds_token_ids t) \<le> n \<and> (finish = OutputLength \<longleftrightarrow> length (ds_token_ids t) = n)"
proof (induction port vocabulary stops n next_id s w rule: generation_loop.induct)
  case (1 port vocabulary stops n next_id s w)
  show ?case
  proof (cases "next_id \<in> set stops")
    case True
    then have "finish = EndOfSequence \<and> t = s" using 1(2) by (simp add: generation_loop.simps)
    then show ?thesis using 1(3) by (intro exI [of _ "[]"]) simp
  next
    case False
    then obtain s' where push: "push_token_id next_id s = (Ok (), s')"
      using 1(2) by (subst (asm) generation_loop.simps) (auto split: prod.splits result.splits)
    note s' = push_token_id_Ok [OF push]
    show ?thesis
    proof (cases "length (ds_token_ids s') = n")
      case True
      then have "finish = OutputLength \<and> t = s'" using 1(2) False push by (subst (asm) generation_loop.simps) simp
      then show ?thesis using s' True False by (intro exI [of _ "[next_id]"]) simp
    next
      case more: False
      obtain v u token_id where v: "pipeline_check port NextStep w = (Ok (), v)"
        and u: "select_next port [next_id] vocabulary v = (Ok token_id, u)"
        and rest: "generation_loop port vocabulary stops n token_id s' u = (Ok (finish, t), w')"
        using 1(2) False push more
        by (subst (asm) generation_loop.simps) (auto split: prod.splits result.splits)
      have "\<exists>rest. t = s'\<lparr>ds_token_ids := ds_token_ids s' @ rest\<rparr> \<and> set rest \<inter> set stops = {} \<and>
          length (ds_token_ids t) \<le> n \<and> (finish = OutputLength \<longleftrightarrow> length (ds_token_ids t) = n)"
        by (rule 1(1) [OF False push [symmetric] refl more v [symmetric] refl u [symmetric] refl rest])
          (use s' 1(3,4) more in auto)
      then obtain rest where "t = s'\<lparr>ds_token_ids := ds_token_ids s' @ rest\<rparr>" "set rest \<inter> set stops = {}"
          "length (ds_token_ids t) \<le> n" "finish = OutputLength \<longleftrightarrow> length (ds_token_ids t) = n" by blast
      then show ?thesis using s' False by (intro exI [of _ "next_id # rest"]) simp
    qed
  qed
qed

subsection \<open>Interchangeable ports\<close>

text \<open>Ports that answer alike in related worlds and stay related.\<close>

definition same_answers :: "('w \<Rightarrow> 'v \<Rightarrow> bool) \<Rightarrow> ('w, 'e) port \<Rightarrow> ('v, 'e) port \<Rightarrow> bool" where
  "same_answers R p q \<longleftrightarrow>
     (\<forall>w v. R w v \<longrightarrow>
        fst (po_cancelled p w) = fst (po_cancelled q v) \<and> R (snd (po_cancelled p w)) (snd (po_cancelled q v)) \<and>
        (\<forall>ids. fst (po_step p ids w) = fst (po_step q ids v) \<and> R (snd (po_step p ids w)) (snd (po_step q ids v))))"

definition alike :: "('w \<Rightarrow> 'v \<Rightarrow> bool) \<Rightarrow> 'a \<times> 'w \<Rightarrow> 'a \<times> 'v \<Rightarrow> bool" where
  "alike R x y \<longleftrightarrow> fst x = fst y \<and> R (snd x) (snd y)"

lemma alike_proceed:
  assumes "alike R x y" and "\<And>a w v. R w v \<Longrightarrow> alike R (f a w) (g a v)"
  shows "alike R (proceed x f) (proceed y g)"
  using assms by (cases x; cases y; cases "fst x") (auto simp: alike_def)

lemma alike_attempt: "R w v \<Longrightarrow> (\<And>a. alike R (f a) (g a)) \<Longrightarrow> alike R (attempt r w f) (attempt r v g)"
  by (cases r) (auto simp: alike_def)

lemma alike_check: "same_answers R p q \<Longrightarrow> R w v \<Longrightarrow> alike R (pipeline_check p b w) (pipeline_check q b v)"
  by (auto simp: alike_def same_answers_def pipeline_check_def check_cancelled_def split: prod.splits) (metis fst_conv snd_conv)+

lemma alike_select:
  assumes "same_answers R p q" and "R w v"
  shows "alike R (select_next p ids vocabulary w) (select_next q ids vocabulary v)"
  unfolding select_next_def
proof (rule alike_proceed)
  show "alike R (case po_step p ids w of (r, w) \<Rightarrow> (map_err Driver r, w)) (case po_step q ids v of (r, w) \<Rightarrow> (map_err Driver r, w))"
    using assms by (auto simp: alike_def same_answers_def split: prod.splits) (metis fst_conv snd_conv)+
next
  fix row w v
  assume "R w v"
  then show "alike R (proceed (pipeline_check p GreedySelection w) (\<lambda>_ w. (map_err Pipeline (greedy_last_logits row vocabulary), w)))
      (proceed (pipeline_check q GreedySelection v) (\<lambda>_ w. (map_err Pipeline (greedy_last_logits row vocabulary), w)))"
    by (intro alike_proceed alike_check [OF assms(1)]) (simp_all add: alike_def)
qed

text \<open>One round of the loop, as a sequence of calls.\<close>

lemma generation_loop_round:
  "generation_loop port vocabulary stops n next_id s w =
    (if next_id \<in> set stops then (Ok (EndOfSequence, s), w)
     else attempt (map_err decode_failure (fst (push_token_id next_id s))) w (\<lambda>_.
       if length (ds_token_ids (snd (push_token_id next_id s))) = n then (Ok (OutputLength, snd (push_token_id next_id s)), w)
       else proceed (pipeline_check port NextStep w) (\<lambda>_ w.
         proceed (select_next port [next_id] vocabulary w) (\<lambda>token_id w.
           generation_loop port vocabulary stops n token_id (snd (push_token_id next_id s)) w))))"
  by (subst generation_loop.simps) (auto split: prod.splits result.splits)

lemma generation_loop_alike:
  assumes "same_answers R p q"
  shows "R w v \<Longrightarrow> alike R (generation_loop p vocabulary stops n next_id s w) (generation_loop q vocabulary stops n next_id s v)"
proof (induction "ds_token_limit s - length (ds_token_ids s)" arbitrary: next_id s w v rule: less_induct)
  case less
  show ?case
  proof (cases "push_token_id next_id s")
    case (Pair r s')
    show ?thesis
    proof (cases "r = Ok ()")
      case True
      have smaller: "ds_token_limit s' - length (ds_token_ids s') < ds_token_limit s - length (ds_token_ids s)"
        using push_token_id_Ok [of next_id s "()" s'] Pair True by auto
      have "alike R (proceed (pipeline_check p NextStep w) (\<lambda>_ w.
            proceed (select_next p [next_id] vocabulary w) (\<lambda>token_id w. generation_loop p vocabulary stops n token_id s' w)))
          (proceed (pipeline_check q NextStep v) (\<lambda>_ w.
            proceed (select_next q [next_id] vocabulary w) (\<lambda>token_id w. generation_loop q vocabulary stops n token_id s' w)))"
        by (intro alike_proceed alike_check alike_select assms less.prems less.hyps [OF smaller])
      then show ?thesis
        using True Pair less.prems by (subst (1 2) generation_loop_round) (simp add: alike_def)
    next
      case False
      then show ?thesis
        using Pair less.prems by (subst (1 2) generation_loop_round) (cases r; simp add: alike_def)
    qed
  qed
qed

lemma alike_case:
  "(\<And>a b. alike R (f a b) (g a b)) \<Longrightarrow> alike R (case x of (a, b) \<Rightarrow> f a b) (case x of (a, b) \<Rightarrow> g a b)"
  "(\<And>a b. alike R (h a b w) (k a b v)) \<Longrightarrow> alike R ((case x of (a, b) \<Rightarrow> h a b) w) ((case x of (a, b) \<Rightarrow> k a b) v)"
  by (cases x; simp)+

lemma run_generation_alike:
  assumes "same_answers R p q" and "R w v"
  shows "alike R (run_generation heap profile prompt n plan p w) (run_generation heap profile prompt n plan q v)"
  unfolding run_generation_def
  by (intro alike_attempt alike_proceed alike_case alike_check alike_select generation_loop_alike assms)
    (simp_all add: alike_def)

subsection \<open>Cancellation\<close>

text \<open>A port that must not be stepped where the probe would answer that the request is cancelled.\<close>

definition guarded :: "('w, 'e) port \<Rightarrow> ('w, 'e) port" where
  "guarded port = port\<lparr>po_step := (\<lambda>ids w. if fst (po_cancelled port w) then (Panic, w) else po_step port ids w)\<rparr>"

text \<open>Probing changes nothing.\<close>

definition probe_only :: "('w, 'e) port \<Rightarrow> bool" where
  "probe_only port \<longleftrightarrow> (\<forall>w. snd (po_cancelled port w) = w)"

lemma pipeline_check_probe:
  "probe_only port \<Longrightarrow> pipeline_check port b w = (if fst (po_cancelled port w) then Err (Pipeline (Cancelled b)) else Ok (), w)"
  by (auto simp: pipeline_check_def check_cancelled_def probe_only_def split: prod.splits) (metis snd_conv)+

lemma guarded_simps [simp]:
  "po_cancelled (guarded port) = po_cancelled port" "pipeline_check (guarded port) b w = pipeline_check port b w"
  by (simp_all add: guarded_def pipeline_check_def)

lemma select_next_guarded:
  "\<not> fst (po_cancelled port w) \<Longrightarrow> select_next (guarded port) ids vocabulary w = select_next port ids vocabulary w"
  by (simp add: select_next_def) (simp add: guarded_def)

lemma checked_select_guarded:
  assumes "probe_only port"
  shows "proceed (pipeline_check port b w) (\<lambda>_ w. proceed (select_next (guarded port) ids vocabulary w) f) =
    proceed (pipeline_check port b w) (\<lambda>_ w. proceed (select_next port ids vocabulary w) f)"
  by (simp add: pipeline_check_probe [OF assms] select_next_guarded)

lemma generation_loop_guarded:
  assumes "probe_only port"
  shows "generation_loop (guarded port) vocabulary stops n next_id s w = generation_loop port vocabulary stops n next_id s w"
proof (induction "ds_token_limit s - length (ds_token_ids s)" arbitrary: next_id s w rule: less_induct)
  case less
  obtain r s' where push: "push_token_id next_id s = (r, s')" by (cases "push_token_id next_id s")
  have "generation_loop (guarded port) vocabulary stops n token_id s' = generation_loop port vocabulary stops n token_id s'"
    if "r = Ok ()" for token_id
    by (rule ext, rule less.hyps) (use push_token_id_Ok [of next_id s "()" s'] push that in auto)
  then show ?case
    using push by (subst (1 2) generation_loop_round) (cases r; simp add: checked_select_guarded [OF assms])
qed

lemma run_generation_guarded:
  assumes "probe_only port"
  shows "run_generation heap profile prompt n plan (guarded port) w = run_generation heap profile prompt n plan port w"
  unfolding run_generation_def by (simp add: generation_loop_guarded [OF assms] checked_select_guarded [OF assms])

lemma run_generation_Ok_not_cancelled:
  assumes "probe_only port" and "run_generation heap profile prompt n plan port w = (Ok g, w')"
  shows "\<not> fst (po_cancelled port w')"
  using assms(2) by (auto simp: run_generation_def pipeline_check_probe [OF assms(1)] split: prod.splits if_splits)

end
