(* ===== verification/Token_Properties.thy ===== *)
theory Token_Properties
  imports Token_Decoding Token_Verified
begin

text \<open>
  The promise of the collective decoder: a request whose storage was planned and acquired before the
  first token is decoded to exactly what its tokens mean, or refused for its length alone.
\<close>

subsection \<open>A sample tokenizer\<close>

text \<open>A decoder of the usual kind: word marks become spaces, byte tokens become characters.\<close>

definition sample_vocabulary :: "(u32 \<times> bytes) list" where
  "sample_vocabulary = [(0, bytes_of ''<unk>''), (1, bytes_of ''<0xC3>''), (2, bytes_of ''<0xA9>''),
     (3, [0xE2, 0x96, 0x81] @ bytes_of ''hi''), (4, bytes_of ''!'')]"

definition sample_upstream :: upstream where
  "sample_upstream = \<lparr>up_vocab_ids = [4, 1, 2, 0, 3], up_id_to_token = map_of sample_vocabulary,
     up_is_special = (\<lambda>spelling. spelling = bytes_of ''<unk>'')\<rparr>"

definition sample_config :: decoder_config where
  "sample_config = ConfigSequence [ConfigReplaceString [0xE2, 0x96, 0x81] [32], ConfigByteFallback, ConfigFuse, ConfigStrip [32] 1 0]"

definition sample_decoder :: decoder where
  "sample_decoder = (case decoder_compile Some (\<lambda>_. None) sample_upstream (Some sample_config) of
     Ok d \<Rightarrow> d | _ \<Rightarrow> \<lparr>cd_vocabulary = \<lparr>vo_slab = [], vo_entries = [], vo_max_spelling_bytes = 0\<rparr>, cd_stages = [],
       cd_join_with_spaces = False\<rparr>)"

lemma sample_compiled: "decoder_compile Some (\<lambda>_. None) sample_upstream (Some sample_config) = Ok sample_decoder"
proof -
  have "is_ok (decoder_compile Some (\<lambda>_. None) sample_upstream (Some sample_config))" by code_simp
  then show ?thesis by (auto simp: is_ok_iff sample_decoder_def)
qed

lemma sample_parts_ok:
  "regexes_ok (\<lambda>_. None)" "config_ok sample_config" "upstream_ok sample_upstream" "heap_ok Some"
proof -
  show "regexes_ok (\<lambda>_. None)" "heap_ok Some" by (simp_all add: regexes_ok_def heap_ok_def)
  show "config_ok sample_config" by code_simp
  have "list_all (\<lambda>(_, s). utf8_valid s) sample_vocabulary" by code_simp
  then show "upstream_ok sample_upstream"
    by (auto simp: upstream_ok_def sample_upstream_def list_all_iff dest!: map_of_SomeD)
qed

lemma sample_plan:
  "storage_plan sample_decoder 4 16 = Ok \<lparr>dp_token_capacity = 4, dp_output_capacity = 16, dp_arena_capacity = 24,
     dp_span_capacity = 4, dp_raw_capacity = 24, dp_maximum_decoded_bytes = 24, dp_requested_retained_bytes = 32,
     dp_requested_scratch_bytes = 200\<rparr>"
proof -
  have "vo_max_spelling_bytes (cd_vocabulary sample_decoder) = 6" by code_simp
  then show ?thesis
    using decoder_compile_Ok [OF sample_compiled sample_parts_ok(1)] sample_parts_ok(2)
    by (simp add: storage_plan_def plan_stage_def output_bound_def output_bytes_bound_def uses_raw_bytes_def Let_def
        literal_replacement_bound_def final_byte_bound_def make_storage_plan_def sample_config_def tok_mul_def usize_mul_def
        tok_add_def usize_add_def)
qed

subsection \<open>Properties\<close>

text \<open>C4: the storage a request acquires before its first token is enough. For the decoder compiled from
  any tokenizer configuration, with storage acquired from its plan for n identifiers, decoding whatever
  identifiers the storage took yields exactly the text they mean stage by stage, or
  \<open>DecodedByteLimitExceeded\<close> with its length when that is over the limit of the plan; no other error
  can occur, and the text is never longer than the planned maximum.\<close>

theorem decode_meets_its_plan:
  assumes "decoder_compile heap compile_regex up config = Ok d"
    and "regexes_ok compile_regex" and "case config of None \<Rightarrow> True | Some c \<Rightarrow> config_ok c"
    and "upstream_ok up" and "heap_ok heap"
    and "storage_plan d n limit = Ok p" and "storage_acquire heap p = Ok s"
    and "each push_token_id ids s = (Ok (), t)"
  shows "length (decoded_text compile_regex up config skip ids) \<le> dp_maximum_decoded_bytes p \<and>
    decode d t skip =
      (let text = decoded_text compile_regex up config skip ids in
       if length text \<le> limit then Ok (text, ids) else Err (DecodedByteLimitExceeded limit (length text)))"
proof -
  note limit = planned_storage [OF assms(6,7,5)]
  have "(\<exists>t. each push_token_id ids s = (Ok (), t)) \<longleftrightarrow> length (ds_token_ids s) + length ids \<le> ds_token_limit s"
    by (rule push_token_ids_Ok) (use limit in simp_all)
  then have "length ids \<le> n" using assms(8) limit by simp
  moreover have "t = s\<lparr>ds_token_ids := ids\<rparr>" using push_token_ids_state [OF assms(8)] limit(4) by simp
  ultimately show ?thesis using decode_filled [OF assms(1-7), of ids skip] by simp
qed

lemma decode_meets_its_plan_witness:
  "\<exists>(p :: decode_storage_plan) (s :: decode_storage) (t :: decode_storage).
     storage_plan sample_decoder 4 16 = Ok p \<and> storage_acquire Some p = Ok s \<and>
     each push_token_id [3, 1, 2, 4] s = (Ok (), t) \<and>
     decode sample_decoder t False = Ok ([0x68, 0x69, 0xC3, 0xA9, 0x21], [3, 1, 2, 4])"
proof -
  obtain p where p: "storage_plan sample_decoder 4 16 = Ok p" using sample_plan by blast
  obtain s where s: "storage_acquire Some p = Ok s" by (simp add: storage_acquire_def token_buffer_acquire_def reserved_def)
  have "(\<exists>t. each push_token_id [3, 1, 2, 4] s = (Ok (), t))"
    using push_token_ids_Ok [of s "[3, 1, 2, 4]"] planned_storage [OF p s sample_parts_ok(4)] by simp
  then obtain t where t: "each push_token_id [3, 1, 2, 4] s = (Ok (), t)" by blast
  have meaning: "decoded_text (\<lambda>_. None) sample_upstream (Some sample_config) False [3, 1, 2, 4] = [0x68, 0x69, 0xC3, 0xA9, 0x21]"
    by code_simp
  from decode_meets_its_plan [OF sample_compiled sample_parts_ok(1) _ sample_parts_ok(3,4) p s t, of False] sample_parts_ok(2)
  have "decode sample_decoder t False = Ok ([0x68, 0x69, 0xC3, 0xA9, 0x21], [3, 1, 2, 4])"
    by (simp add: meaning Let_def)
  then show ?thesis using p s t by blast
qed

text \<open>A tokenizer passes the check of its vocabulary exactly when it has as many entries as the
  artifact declares, the declared spellings are that many, and spelling and identifier name each other
  at every position.\<close>

theorem exact_vocabulary_iff:
  "verify_exact_vocabulary tk n expected = Ok () \<longleftrightarrow>
     n = tk_vocab_size tk \<and> length expected = n \<and> n \<le> 2 ^ 32 \<and>
     list_all (\<lambda>(i, spelling). spelled_at tk i spelling) (enumerate 0 expected)"
  by (auto simp: verify_exact_vocabulary_Ok list_all_length nth_enumerate_eq)

end
