(* ===== verification/Text_Properties.thy ===== *)
theory Text_Properties
  imports Text_Meaning Token_Properties
begin

text \<open>
  Properties of the text pipeline: the special token policy, preparation, generation against the model
  behind the driver and against any driver, the two kinds of driver, and cancellation.
\<close>

subsection \<open>The special token policy\<close>

text \<open>A token that its spelling alone encodes to, marked special, inside the vocabulary.\<close>

definition declared_special :: "tokenizer \<Rightarrow> u32 \<Rightarrow> bool" where
  "declared_special tk token_id \<longleftrightarrow>
     unat token_id < tk_vocab_size tk \<and> tk_is_special tk token_id \<and>
     (case tk_id_to_token tk token_id of None \<Rightarrow> False | Some spelling \<Rightarrow> tk_encode tk spelling False = Some [token_id])"

lemma declared_special_Ok:
  "verify_declared_special_id tk (tk_vocab_size tk) token_id = Ok u \<longleftrightarrow> declared_special tk token_id"
  by (auto simp: verify_declared_special_id_Ok declared_special_def split: option.splits)

lemma string_values_Some: "string_values vs = Some ss \<Longrightarrow> vs = map MetaString ss"
  by (induction vs arbitrary: ss rule: string_values.induct) auto

lemma bind_vocabulary_Ok:
  "bind_vocabulary vs tk = Ok u \<longleftrightarrow>
     (\<exists>ss. string_values vs = Some ss \<and> length vs = tk_vocab_size tk \<and> length ss = length vs \<and>
        tk_vocab_size tk \<le> 2 ^ 32 \<and> (\<forall>i < tk_vocab_size tk. spelled_at tk i (ss ! i)))"
  by (auto simp: bind_vocabulary_def verify_exact_vocabulary_Ok)

lemma verify_declared_special_tokens_Ok:
  "verify_declared_special_tokens (tk_vocab_size tk) tk ids = Ok u \<Longrightarrow> Some t \<in> set ids \<Longrightarrow> declared_special tk t"
  by (induction "tk_vocab_size tk" tk ids rule: verify_declared_special_tokens.induct)
    (auto simp: verify_special_token_def declared_special_Ok)

lemma add_recognized_stops_Ok:
  "add_recognized_stops tk (tk_vocab_size tk) names stops = Ok out \<Longrightarrow> distinct stops \<Longrightarrow>
     (\<forall>t \<in> set stops. declared_special tk t) \<Longrightarrow>
     distinct out \<and> set stops \<subseteq> set out \<and> (\<forall>t \<in> set out. declared_special tk t) \<and>
     (\<forall>spelling \<in> set names. \<forall>t. tk_token_to_id tk spelling = Some t \<longrightarrow> t \<in> set out)"
proof (induction names arbitrary: stops)
  case (Cons spelling rest)
  show ?case
  proof (cases "tk_token_to_id tk spelling")
    case None
    then show ?thesis using Cons.IH [OF _ Cons.prems(2,3)] Cons.prems(1) by simp
  next
    case (Some token_id)
    then have t: "declared_special tk token_id"
      and rest: "add_recognized_stops tk (tk_vocab_size tk) rest (add_stop token_id stops) = Ok out"
      using Cons.prems(1) by (auto simp: declared_special_Ok)
    have "distinct (add_stop token_id stops)" "\<forall>t \<in> set (add_stop token_id stops). declared_special tk t"
      and more: "token_id \<in> set (add_stop token_id stops)" "set stops \<subseteq> set (add_stop token_id stops)"
      using Cons.prems(2,3) t by (auto simp: add_stop_def)
    from Cons.IH [OF rest this(1,2)] show ?thesis using more Some by auto
  qed
qed auto

text \<open>The recognised end-of-turn spellings.\<close>

definition recognized_spellings :: "bytes list" where
  "recognized_spellings = [bytes_of ''<|im_end|>'', bytes_of ''<|endoftext|>'']"

definition policy_sound :: "metadata \<Rightarrow> tokenizer \<Rightarrow> special_token_policy \<Rightarrow> bool" where
  "policy_sound metadata tk policy \<longleftrightarrow>
     distinct (sp_stop_ids policy) \<and> list_all (declared_special tk) (sp_stop_ids policy) \<and>
     sp_eos_id policy \<in> set (sp_stop_ids policy) \<and> map_of metadata EOS_TOKEN_ID_KEY = Some (MetaU32 (sp_eos_id policy)) \<and>
     list_all (\<lambda>key. case map_of metadata key of Some (MetaU32 t) \<Rightarrow> t \<in> set (sp_stop_ids policy) | _ \<Rightarrow> True)
       [EOT_TOKEN_ID_KEY, EOM_TOKEN_ID_KEY] \<and>
     list_all (\<lambda>spelling. case tk_token_to_id tk spelling of Some t \<Rightarrow> t \<in> set (sp_stop_ids policy) | None \<Rightarrow> True)
       recognized_spellings \<and>
     (case sp_bos_id policy of None \<Rightarrow> \<not> sp_add_bos policy | Some t \<Rightarrow> declared_special tk t)"

lemma array_case_Ok:
  "(case v of Some (MetaArray ty vs) \<Rightarrow> f vs | _ \<Rightarrow> Err e) = Ok y \<longleftrightarrow> (\<exists>ty vs. v = Some (MetaArray ty vs) \<and> f vs = Ok y)"
  by (cases v) (auto split: meta_value.splits)

lemma verify_vocabulary_sound:
  assumes "verify_vocabulary metadata tk = Ok policy"
  shows "policy_sound metadata tk policy"
proof -
  obtain beginning sequence_end turn_end message_end prepend append_end vs stops b c where
    meta: "metadata_optional_u32 metadata BOS_TOKEN_ID_KEY = Ok beginning"
      "text_metadata_u32 metadata EOS_TOKEN_ID_KEY = Ok sequence_end"
      "metadata_optional_u32 metadata EOT_TOKEN_ID_KEY = Ok turn_end"
      "metadata_optional_u32 metadata EOM_TOKEN_ID_KEY = Ok message_end"
    and bound: "bind_vocabulary vs tk = Ok b" and bos: "\<not> (prepend \<and> beginning = None)"
    and special: "verify_declared_special_tokens (length vs) tk [beginning, Some sequence_end, turn_end, message_end] = Ok c"
    and recognized: "add_recognized_qwen_stops tk (length vs)
      (declared_stops sequence_end [turn_end, message_end]) = Ok stops"
    and policy: "policy = \<lparr>sp_bos_id = beginning, sp_eos_id = sequence_end, sp_add_bos = prepend,
        sp_add_eos = append_end, sp_stop_ids = stops\<rparr>"
    using assms unfolding verify_vocabulary_def Let_def and_then_Ok_iff array_case_Ok require_Ok_iff result.inject by blast
  have size: "length vs = tk_vocab_size tk" using bound by (auto simp: bind_vocabulary_Ok)
  have declared: "declared_special tk t" if "Some t \<in> {beginning, Some sequence_end, turn_end, message_end}" for t
    by (rule verify_declared_special_tokens_Ok [OF special [unfolded size]]) (use that in auto)
  let ?base = "declared_stops sequence_end [turn_end, message_end]"
  have base: "set ?base = {t. Some t \<in> {Some sequence_end, turn_end, message_end}}" "distinct ?base"
    by (auto simp: declared_stops_def add_stop_def split: option.splits)
  have "distinct stops \<and> set ?base \<subseteq> set stops \<and> (\<forall>t \<in> set stops. declared_special tk t) \<and>
      (\<forall>spelling \<in> set recognized_spellings. \<forall>t. tk_token_to_id tk spelling = Some t \<longrightarrow> t \<in> set stops)"
    unfolding recognized_spellings_def
    by (rule add_recognized_stops_Ok [OF recognized [unfolded size add_recognized_qwen_stops_def] base(2)])
      (use base(1) declared in auto)
  then have stops: "distinct stops" "list_all (declared_special tk) stops" "set ?base \<subseteq> set stops"
      "list_all (\<lambda>spelling. case tk_token_to_id tk spelling of Some t \<Rightarrow> t \<in> set stops | None \<Rightarrow> True) recognized_spellings"
    by (auto simp: list_all_iff split: option.splits)
  have stop: "t \<in> set stops" if "Some t \<in> {Some sequence_end, turn_end, message_end}" for t
    using that base(1) stops(3) by blast
  have "map_of metadata EOS_TOKEN_ID_KEY = Some (MetaU32 sequence_end)"
    using meta(2) by (simp add: text_metadata_u32_def split: option.splits meta_value.splits)
  moreover have "map_of metadata EOT_TOKEN_ID_KEY = Some (MetaU32 t) \<Longrightarrow> turn_end = Some t"
    and "map_of metadata EOM_TOKEN_ID_KEY = Some (MetaU32 t) \<Longrightarrow> message_end = Some t" for t
    using meta(3,4) by (simp_all add: metadata_optional_u32_def)
  moreover have "case beginning of None \<Rightarrow> \<not> prepend | Some t \<Rightarrow> declared_special tk t"
    using bos declared by (cases beginning) simp_all
  ultimately show ?thesis
    using stops stop [of sequence_end] stop
    by (simp add: policy_sound_def policy split: option.splits meta_value.splits)
qed

subsection \<open>Requests and preparation\<close>

definition request_ok :: "pipeline_limits \<Rightarrow> generation_request \<Rightarrow> bool" where
  "request_ok l r \<longleftrightarrow>
     0 < length (gr_messages r) \<and> length (gr_messages r) \<le> pl_messages l \<and>
     list_ex (\<lambda>m. tm_role m = User) (gr_messages r) \<and>
     list_all (\<lambda>m. tm_role m \<noteq> System) (tl (gr_messages r)) \<and>
     0 < gr_max_output_tokens r \<and> gr_max_output_tokens r \<le> pl_output_tokens l \<and>
     list_all (\<lambda>m. length (tm_content m) \<le> pl_message_bytes l) (gr_messages r) \<and>
     sum_list (map (\<lambda>m. length (tm_content m)) (gr_messages r)) \<le> pl_prompt_bytes l \<and>
     sum_list (map (\<lambda>m. length (tm_content m)) (gr_messages r)) < 2 ^ 64"

lemma validate_messages_Ok:
  "validate_messages l position total_bytes ms = Ok b \<longleftrightarrow>
     list_all (\<lambda>m. tm_role m \<noteq> System) (if position = 0 then tl ms else ms) \<and>
     list_all (\<lambda>m. length (tm_content m) \<le> pl_message_bytes l) ms \<and>
     b = total_bytes + sum_list (map (\<lambda>m. length (tm_content m)) ms) \<and> (ms = [] \<or> b < 2 ^ 64)"
proof (induction ms arbitrary: position total_bytes)
  case (Cons m ms)
  show ?case
    using Cons.IH [of "position + 1" "total_bytes + length (tm_content m)"]
    by (cases ms) (auto simp: check_limit_def usize_add_def)
qed auto

lemma validate_request_Ok: "validate_request l r = Ok u \<longleftrightarrow> request_ok l r"
  by (cases "gr_messages r")
    (auto simp: validate_request_def request_ok_def check_limit_def validate_messages_Ok usize_add_def split: if_splits)

text \<open>What preparation promises of a prompt, its context and the storage planned for its output.\<close>

definition prepared_ok ::
  "(text_profile \<Rightarrow> generation_request \<Rightarrow> bytes text_result) \<Rightarrow> text_profile \<Rightarrow> generation_request \<Rightarrow> prepared_generation \<Rightarrow> bool" where
  "prepared_ok render profile r p \<longleftrightarrow>
     request_ok (tp_limits profile) r \<and> pg_profile p = profile \<and>
     render profile r = Ok (pg_rendered_prompt p) \<and>
     (case tk_encode (tp_tokenizer profile) (pg_rendered_prompt p) False of None \<Rightarrow> False | Some ids \<Rightarrow>
        pg_prompt_token_ids p =
          (if sp_add_bos (tp_special_tokens profile) then [the (sp_bos_id (tp_special_tokens profile))] else []) @ ids @
          (if sp_add_eos (tp_special_tokens profile) then [sp_eos_id (tp_special_tokens profile)] else [])) \<and>
     pg_prompt_token_ids p \<noteq> [] \<and> pg_max_output_tokens p = gr_max_output_tokens r \<and>
     pg_context p = length (pg_prompt_token_ids p) + gr_max_output_tokens r \<and>
     pg_context p \<le> pl_context_tokens (tp_limits profile) \<and>
     storage_plan (tk_collective (tp_tokenizer profile)) (gr_max_output_tokens r) (pl_output_bytes (tp_limits profile)) =
       Ok (pg_output_storage_plan p) \<and>
     rp_vocabulary_width (pg_recycled_logits_plan p) = tk_vocab_size (tp_tokenizer profile)"

lemma encode_prompt_Ok:
  "encode_prompt heap tk policy rendered = Ok prompt \<Longrightarrow>
     \<exists>ids. tk_encode tk rendered False = Some ids \<and>
       prompt = (if sp_add_bos policy then [the (sp_bos_id policy)] else []) @ ids @ (if sp_add_eos policy then [sp_eos_id policy] else [])"
  by (auto simp: encode_prompt_def encode_def split: if_splits)

lemma prepare_Ok:
  assumes "prepare heap render execution_plan is_cancelled profile r w = (Ok p, w')"
  shows "prepared_ok render profile r p"
  using assms
  by (auto simp: prepare_def validate_request_Ok prepared_ok_def usize_add_def check_limit_def recycled_plan_new_def
      split: if_splits dest!: encode_prompt_Ok)

text \<open>A rendering that kept to the limits: the source and the text are within their bytes, and the text is the whole
  output of a run of the engine under the fuel and the recursion limit of the pipeline.\<close>

definition rendered_within ::
  "render_context engine \<Rightarrow> pipeline_limits \<Rightarrow> bytes \<Rightarrow> generation_request \<Rightarrow> bytes \<Rightarrow> bool" where
  "rendered_within engine l source r rendered \<longleftrightarrow>
     length source \<le> pl_template_bytes l \<and> length rendered \<le> pl_rendered_bytes l \<and> utf8_valid rendered \<and>
     0 < pl_template_fuel l \<and> pl_template_fuel l < 2 ^ 63 \<and>
     en_recursion_limit engine (pl_template_recursion l) = pl_template_recursion l \<and>
     unrefused_output (en_render engine \<lparr>env_fuel = pl_template_fuel l, env_recursion_limit = pl_template_recursion l\<rparr> source
       \<lparr>rc_messages = gr_messages r, rc_add_generation_prompt = True, rc_enable_thinking = gr_enable_thinking r, rc_tools = []\<rparr>) =
       Some rendered"

lemma pipeline_new_Ok:
  assumes "pipeline_new sha256 parse heap engine weights_ok metadata companion expected limits = Ok profile"
  shows "tp_limits profile = limits" and "length companion \<le> pl_tokenizer_bytes limits"
    and "text_metadata_string metadata CHAT_TEMPLATE_KEY = Ok (tp_template_source profile)"
    and "pipeline_template_limits limits = Ok (tp_template_limits profile)"
  using assms by (auto simp: pipeline_new_def limits_validate_def verified_from_bytes_def)

lemma render_request_within:
  assumes "pipeline_template_limits l = Ok (tp_template_limits profile)" and "render_request heap engine profile r = Ok rendered"
  shows "rendered_within engine l (tp_template_source profile) r rendered"
  using assms
  by (auto simp: render_request_def bounded_template_new_Ok bounded_template_render_Ok pipeline_template_limits_def
      template_limits_new_Ok rendered_within_def)

subsection \<open>Generation\<close>

text \<open>A profile whose tokenizer was compiled from its upstream configuration.\<close>

definition compiled_profile ::
  "(nat \<Rightarrow> nat option) \<Rightarrow> (bytes \<Rightarrow> regex option) \<Rightarrow> upstream \<Rightarrow> decoder_config option \<Rightarrow> text_profile \<Rightarrow> bool" where
  "compiled_profile heap compile_regex up config profile \<longleftrightarrow>
     decoder_compile heap compile_regex up config = Ok (tk_collective (tp_tokenizer profile)) \<and>
     regexes_ok compile_regex \<and> (case config of None \<Rightarrow> True | Some c \<Rightarrow> config_ok c) \<and> upstream_ok up \<and> heap_ok heap"

lemma decode_profile:
  assumes "compiled_profile heap compile_regex up config profile"
    and "storage_plan (tk_collective (tp_tokenizer profile)) n limit = Ok plan" and "storage_acquire heap plan = Ok s"
    and "length ids \<le> n"
  shows "decode (tk_collective (tp_tokenizer profile)) (s\<lparr>ds_token_ids := ids\<rparr>) False =
    (let text = decoded_text compile_regex up config False ids in
     if length text \<le> limit then Ok (text, ids) else Err (DecodedByteLimitExceeded limit (length text)))"
  using decode_filled(1) [of heap compile_regex up config _ n limit plan s ids False] assms
  by (simp add: compiled_profile_def)

lemma run_generation_any:
  assumes "compiled_profile heap compile_regex up config profile"
    and plan: "storage_plan (tk_collective (tp_tokenizer profile)) n limit = Ok plan" and "0 < n"
    and run: "run_generation heap profile prompt n plan port w = (Ok g, w')"
  shows "set (ge_token_ids g) \<inter> set (sp_stop_ids (tp_special_tokens profile)) = {}"
    and "length (ge_token_ids g) \<le> n" and "ge_finish_reason g = OutputLength \<longleftrightarrow> length (ge_token_ids g) = n"
    and "ge_text g = decoded_text compile_regex up config False (ge_token_ids g)" and "length (ge_text g) \<le> limit"
proof -
  have heap: "heap_ok heap" using assms(1) by (simp add: compiled_profile_def)
  let ?V = "tk_vocab_size (tp_tokenizer profile)" and ?stops = "sp_stop_ids (tp_special_tokens profile)"
  obtain s next_id finish t v u x where acquire: "storage_acquire heap plan = Ok s"
    and loop: "generation_loop port ?V ?stops n next_id s v = (Ok (finish, t), u)"
    and decoded: "decode (tk_collective (tp_tokenizer profile)) t False = Ok x"
    and g: "g = \<lparr>ge_text = fst x, ge_token_ids = snd x, ge_finish_reason = finish\<rparr>"
    using run by (auto simp: run_generation_def split: prod.splits)
  note s = planned_storage [OF plan acquire heap]
  obtain rest where t: "t = s\<lparr>ds_token_ids := rest\<rparr>" "set rest \<inter> set ?stops = {}" "length rest \<le> n"
      "finish = OutputLength \<longleftrightarrow> length rest = n"
    using generation_loop_any [OF loop] s assms(3) by auto
  have "decode (tk_collective (tp_tokenizer profile)) t False =
      (let text = decoded_text compile_regex up config False rest in
       if length text \<le> limit then Ok (text, rest) else Err (DecodedByteLimitExceeded limit (length text)))"
    unfolding t(1) by (rule decode_profile [OF assms(1) plan acquire t(3)])
  then show "set (ge_token_ids g) \<inter> set ?stops = {}" "length (ge_token_ids g) \<le> n"
    "ge_finish_reason g = OutputLength \<longleftrightarrow> length (ge_token_ids g) = n"
    "ge_text g = decoded_text compile_regex up config False (ge_token_ids g)" "length (ge_text g) \<le> limit"
    using decoded t g by (auto simp: Let_def split: if_splits)
qed

text \<open>The answer of a request whose driver serves a model.\<close>

definition model_answer ::
  "(bytes \<Rightarrow> regex option) \<Rightarrow> upstream \<Rightarrow> decoder_config option \<Rightarrow> (u32 list \<Rightarrow> f32 list) \<Rightarrow> u32 list \<Rightarrow>
     nat \<Rightarrow> nat \<Rightarrow> u32 list \<Rightarrow> (generation, 'e generation_error) result" where
  "model_answer compile_regex up config model stops n limit prompt =
     (let ids = continuation model stops n prompt; text = decoded_text compile_regex up config False ids in
      if length text \<le> limit
      then Ok \<lparr>ge_text = text, ge_token_ids = ids,
        ge_finish_reason = (if length ids = n then OutputLength else EndOfSequence)\<rparr>
      else Err (Pipeline (TextLimitExceeded DecodedOutputBytes (length text) limit)))"

lemma run_generation_serves:
  assumes "serves port model fed" and "model_ok model (tk_vocab_size (tp_tokenizer profile))"
    and "compiled_profile heap compile_regex up config profile"
    and plan: "storage_plan (tk_collective (tp_tokenizer profile)) n limit = Ok plan"
    and acquire: "storage_acquire heap plan = Ok s" and "0 < n" and "fed w = []"
  shows "fst (run_generation heap profile prompt n plan port w) =
    model_answer compile_regex up config model (sp_stop_ids (tp_special_tokens profile)) n limit prompt"
proof -
  have heap: "heap_ok heap" using assms(3) by (simp add: compiled_profile_def)
  let ?V = "tk_vocab_size (tp_tokenizer profile)" and ?stops = "sp_stop_ids (tp_special_tokens profile)"
  note s = planned_storage [OF plan acquire heap]
  obtain w1 where w1: "pipeline_check port PromptStep w = (Ok (), w1)" "fed w1 = []"
    using pipeline_check_serves [OF assms(1), of PromptStep w] assms(7) by metis
  obtain w2 where w2: "select_next port prompt ?V w1 = (Ok (pick (model prompt)), w2)" "fed w2 = prompt"
    using select_next_serves [OF assms(1,2), of prompt w1] w1(2) by (metis append_Nil)
  let ?ids = "continuation model ?stops n prompt"
  obtain w3 where w3: "generation_loop port ?V ?stops n (pick (model prompt)) s w2 =
      (Ok (if length ?ids = n then OutputLength else EndOfSequence, s\<lparr>ds_token_ids := ?ids\<rparr>), w3)"
    using generation_loop_serves [OF assms(1,2) s(1,2,3), of ?stops w2] s(4) assms(6) w2(2) by (auto simp: Let_def)
  obtain w4 where w4: "pipeline_check port OutputDecoding w3 = (Ok (), w4)"
    using pipeline_check_serves [OF assms(1), of OutputDecoding w3] by metis
  obtain w5 where w5: "pipeline_check port Publishing w4 = (Ok (), w5)"
    using pipeline_check_serves [OF assms(1), of Publishing w4] by metis
  show ?thesis
    using acquire w1(1) w2(1) w3 w4 w5 decode_profile [OF assms(3) plan acquire length_continuation, of model ?stops prompt]
    by (simp add: run_generation_def model_answer_def Let_def decode_failure_def map_collective_decode_error_def)
qed

subsection \<open>Drivers that agree\<close>

text \<open>A recycled driver that writes into the lent row what the owning driver returns.\<close>

definition drivers_agree ::
  "nat \<Rightarrow> (u32 list \<Rightarrow> 'd \<Rightarrow> (f32 list, 'e) result \<times> 'd) \<Rightarrow>
     (u32 list \<Rightarrow> f32 list \<Rightarrow> 'd \<Rightarrow> (unit, 'e) result \<times> f32 list \<times> 'd) \<Rightarrow> bool" where
  "drivers_agree width step step_into \<longleftrightarrow>
     (\<forall>ids row d. length row = width \<longrightarrow>
        (case step_into ids row d of (r, row', d') \<Rightarrow>
           length row' = width \<and> step ids d = (map_result (\<lambda>_. row') id r, d')))"

lemma drivers_same_answers:
  assumes "drivers_agree width step step_into"
  shows "same_answers (\<lambda>(d, _) (d', row). d = d' \<and> length row = width) (legacy_port is_cancelled step)
    (recycled_port is_cancelled step_into)"
proof -
  have "fst (legacy_step step ids (d, row)) = fst (recycled_step step_into ids (d, row')) \<and>
      fst (snd (legacy_step step ids (d, row))) = fst (snd (recycled_step step_into ids (d, row'))) \<and>
      length (snd (snd (recycled_step step_into ids (d, row')))) = width" if "length row' = width" for ids d row row'
  proof -
    obtain r row'' d' where into: "step_into ids row' d = (r, row'', d')" by (cases "step_into ids row' d") auto
    then have "length row'' = width" "step ids d = (map_result (\<lambda>_. row'') id r, d')"
      using assms [unfolded drivers_agree_def, rule_format, OF that, of ids d] by simp_all
    then show ?thesis using into by (cases r) (simp_all add: legacy_step_def recycled_step_def)
  qed
  then show ?thesis
    by (auto simp: same_answers_def legacy_port_def recycled_port_def split: prod.splits) (metis fst_conv snd_conv)+
qed

subsection \<open>A sample pipeline\<close>

definition sample_tokenizer :: tokenizer where
  "sample_tokenizer = \<lparr>tk_collective = sample_decoder, tk_vocab_size = 5, tk_id_to_token = map_of sample_vocabulary,
     tk_token_to_id = map_of (map (\<lambda>(i, s). (s, i)) sample_vocabulary), tk_is_special = (\<lambda>t. t = 0),
     tk_encode = (\<lambda>text special. if text = bytes_of ''<unk>'' then Some [0] else Some [3, 4]),
     tk_padding = False, tk_truncation = False\<rparr>"

definition sample_text_metadata :: metadata where
  "sample_text_metadata = [(EOS_TOKEN_ID_KEY, MetaU32 0), (TOKENS_KEY, MetaArray TyString (map (MetaString \<circ> snd) sample_vocabulary))]"

definition sample_policy :: special_token_policy where
  "sample_policy = \<lparr>sp_bos_id = None, sp_eos_id = 0, sp_add_bos = False, sp_add_eos = False, sp_stop_ids = [0]\<rparr>"

lemma sample_lookups:
  "metadata_optional_u32 sample_text_metadata BOS_TOKEN_ID_KEY = Ok None" "text_metadata_u32 sample_text_metadata EOS_TOKEN_ID_KEY = Ok 0"
  "metadata_bool_or_false sample_text_metadata ADD_BOS_TOKEN_KEY = Ok False"
  "metadata_bool_or_false sample_text_metadata ADD_EOS_TOKEN_KEY = Ok False"
  "metadata_optional_u32 sample_text_metadata EOT_TOKEN_ID_KEY = Ok None"
  "metadata_optional_u32 sample_text_metadata EOM_TOKEN_ID_KEY = Ok None"
  "map_of sample_text_metadata TOKENS_KEY = Some (MetaArray TyString (map (MetaString \<circ> snd) sample_vocabulary))"
  by code_simp+

lemma sample_spelled:
  "tk_vocab_size sample_tokenizer = 5"
  "i < 5 \<Longrightarrow> spelled_at sample_tokenizer i (map snd sample_vocabulary ! i)"
proof -
  show "tk_vocab_size sample_tokenizer = 5" by (simp add: sample_tokenizer_def)
  have "list_all (\<lambda>(i, s). spelled_at sample_tokenizer i s) [(0, bytes_of ''<unk>''), (1, bytes_of ''<0xC3>''), (2, bytes_of ''<0xA9>''),
     (3, [0xE2, 0x96, 0x81] @ bytes_of ''hi''), (4, bytes_of ''!'')]"
    by code_simp
  then show "i < 5 \<Longrightarrow> spelled_at sample_tokenizer i (map snd sample_vocabulary ! i)"
    by (auto simp: sample_vocabulary_def less_Suc_eq numeral_eq_Suc)
qed

lemma sample_policy: "verify_vocabulary sample_text_metadata sample_tokenizer = Ok sample_policy"
proof -
  have "bind_vocabulary (map (MetaString \<circ> snd) sample_vocabulary) sample_tokenizer = Ok ()"
    unfolding bind_vocabulary_Ok using sample_spelled
    by (intro exI [of _ "map snd sample_vocabulary"]) (simp add: sample_vocabulary_def)
  moreover have "verify_declared_special_id sample_tokenizer 5 0 = Ok ()" by code_simp
  moreover have "tk_token_to_id sample_tokenizer (bytes_of ''<|im_end|>'') = None"
    "tk_token_to_id sample_tokenizer (bytes_of ''<|endoftext|>'') = None" by code_simp+
  moreover have "length sample_vocabulary = 5" by (simp add: sample_vocabulary_def)
  ultimately show ?thesis
    by (simp add: verify_vocabulary_def sample_lookups require_def declared_stops_def verify_special_token_def
        add_recognized_qwen_stops_def sample_policy_def Let_def)
qed

definition sample_limits :: pipeline_limits where
  "sample_limits = \<lparr>pl_tokenizer_bytes = 64, pl_template_bytes = 64, pl_messages = 2, pl_message_bytes = 8,
     pl_prompt_bytes = 16, pl_rendered_bytes = 64, pl_context_tokens = 8, pl_output_tokens = 4, pl_output_bytes = 16,
     pl_template_fuel = 100, pl_template_recursion = 4\<rparr>"

definition sample_template_limits :: template_limits where
  "sample_template_limits = \<lparr>tl_template_bytes = 64, tl_rendered_bytes = 64, tl_fuel = 100, tl_recursion = 4\<rparr>"

definition sample_profile :: text_profile where
  "sample_profile = \<lparr>tp_tokenizer = sample_tokenizer, tp_template_source = [],
     tp_template_limits = sample_template_limits, tp_special_tokens = sample_policy,
     tp_limits = sample_limits\<rparr>"

definition sample_text_request :: generation_request where
  "sample_text_request = \<lparr>gr_messages = [\<lparr>tm_role = User, tm_content = [72, 105]\<rparr>], gr_max_output_tokens = 4,
     gr_enable_thinking = False\<rparr>"

definition sample_storage_plan :: decode_storage_plan where
  "sample_storage_plan = \<lparr>dp_token_capacity = 4, dp_output_capacity = 16, dp_arena_capacity = 24,
     dp_span_capacity = 4, dp_raw_capacity = 24, dp_maximum_decoded_bytes = 24, dp_requested_retained_bytes = 32,
     dp_requested_scratch_bytes = 200\<rparr>"

definition sample_prepared :: prepared_generation where
  "sample_prepared = \<lparr>pg_profile = sample_profile, pg_context = 6, pg_rendered_prompt = [72, 105],
     pg_prompt_token_ids = [3, 4], pg_max_output_tokens = 4,
     pg_recycled_logits_plan = \<lparr>rp_vocabulary_width = 5, rp_requested_bytes = 20\<rparr>,
     pg_output_storage_plan = sample_storage_plan\<rparr>"

text \<open>An engine that writes the contents of the messages one after the other.\<close>

definition sample_engine :: "render_context engine" where
  "sample_engine = \<lparr>en_recursion_limit = (\<lambda>n. n), en_compiles = (\<lambda>_ _. True),
     en_render = (\<lambda>_ _ c. foldr (\<lambda>m run. EngineWrite (tm_content m) (\<lambda>answer. case answer of Some _ \<Rightarrow> run | None \<Rightarrow> EngineFinish False))
       (rc_messages c) (EngineFinish True))\<rparr>"

definition sample_chat_metadata :: metadata where
  "sample_chat_metadata = (CHAT_TEMPLATE_KEY, MetaString []) # sample_text_metadata"

definition sample_render :: "text_profile \<Rightarrow> generation_request \<Rightarrow> bytes text_result" where
  "sample_render profile r = Ok (concat (map tm_content (gr_messages r)))"

lemma sample_prepares:
  "prepare Some sample_render (\<lambda>_ _. True) (\<lambda>w. (False, w)) sample_profile sample_text_request w = (Ok sample_prepared, w)"
proof -
  have "validate_request sample_limits sample_text_request = Ok ()"
    by (simp add: validate_request_Ok request_ok_def sample_limits_def sample_text_request_def)
  moreover have "storage_plan sample_decoder 4 16 = Ok sample_storage_plan" by (simp add: sample_plan sample_storage_plan_def)
  moreover have "encode_prompt Some sample_tokenizer sample_policy [72, 105] = Ok [3, 4]"
    by (simp add: encode_prompt_def encode_def sample_tokenizer_def sample_policy_def bytes_of_def)
  ultimately show ?thesis
    by (simp add: prepare_def check_cancelled_def sample_profile_def sample_render_def sample_text_request_def sample_prepared_def
        require_def usize_add_def check_limit_def sample_limits_def recycled_plan_new_def usize_mul_def sample_tokenizer_def)
qed

text \<open>A model whose greatest logit depends on how many tokens it has seen.\<close>

definition sample_logits :: "nat \<Rightarrow> f32 list" where
  "sample_logits i = map (\<lambda>j. if j = i then 0x3F800000 else 0) [0, 1, 2, 3, 4]"

definition sample_choice :: "nat \<Rightarrow> nat" where
  "sample_choice n = (if n = 2 then 3 else if n = 3 then 1 else if n = 4 then 2 else if n = 5 then 4 else 0)"

definition sample_model :: "u32 list \<Rightarrow> f32 list" where
  "sample_model ids = sample_logits (sample_choice (length ids))"

lemma sample_logits: "i < 5 \<Longrightarrow> pick (sample_logits i) = of_nat i \<and> valid_logits (sample_logits i) \<and> length (sample_logits i) = 5"
proof -
  have "list_all (\<lambda>i. pick (sample_logits i) = of_nat i \<and> valid_logits (sample_logits i)) [0, 1, 2, 3, 4]"
    by (simp add: pick_def sample_logits_def greedy_def validate_logits_def f32_is_nan_def f32_is_finite_def f32_magnitude_def
        f32_infinity_def require_def token_index_def f32_less_def f32_key_def f32_negative_def f32_neg_infinity_def
        valid_logits_def)
  moreover assume "i < 5"
  then have "i \<in> {0, 1, 2, 3, 4}" by auto
  ultimately show ?thesis by (auto simp: sample_logits_def)
qed

lemma sample_model_ok: "model_ok sample_model 5"
  unfolding model_ok_def sample_model_def
  by (intro conjI allI) (simp_all add: sample_logits sample_choice_def)

definition sample_port :: "(u32 list, text_error) port" where
  "sample_port = \<lparr>po_cancelled = (\<lambda>w. (False, w)), po_step = (\<lambda>ids w. (Ok (sample_model (w @ ids)), w @ ids))\<rparr>"

lemma sample_serves: "serves sample_port sample_model (\<lambda>w. w)"
  by (simp add: serves_def sample_port_def)

lemma sample_continuation: "continuation sample_model [0] 4 [3, 4] = [3, 1, 2, 4]"
proof -
  have pick: "pick (sample_model ids) = of_nat (sample_choice (length ids))" for ids
    by (simp add: sample_model_def sample_logits sample_choice_def)
  have four: "4 = Suc (Suc (Suc (Suc 0)))" by simp
  show ?thesis unfolding four by (simp add: pick sample_choice_def)
qed

lemma sample_text:
  "decoded_text (\<lambda>_. None) sample_upstream (Some sample_config) False [3, 1, 2, 4] = [0x68, 0x69, 0xC3, 0xA9, 0x21]"
  by code_simp

lemma sample_answer:
  "model_answer (\<lambda>_. None) sample_upstream (Some sample_config) sample_model [0] 4 16 [3, 4] =
     Ok \<lparr>ge_text = [0x68, 0x69, 0xC3, 0xA9, 0x21], ge_token_ids = [3, 1, 2, 4], ge_finish_reason = OutputLength\<rparr>"
  unfolding model_answer_def sample_continuation by (simp add: sample_text)

lemma sample_compiled_profile:
  "compiled_profile Some (\<lambda>_. None) sample_upstream (Some sample_config) sample_profile"
  using sample_compiled sample_parts_ok by (simp add: compiled_profile_def sample_profile_def sample_tokenizer_def)

subsection \<open>Properties\<close>

text \<open>C11: the special token policy bound to a model is sound. Its stop tokens are distinct, each is inside
  the vocabulary, marked special and the encoding of its own spelling; they include the declared end of
  the sequence, of a turn and of a message and the recognised end spellings of the tokenizer; and a
  prompt prefix is only promised when a checked token for it is declared.\<close>

theorem verified_policy_stops:
  assumes "verify_vocabulary metadata tk = Ok policy"
  shows "policy_sound metadata tk policy"
  by (rule verify_vocabulary_sound [OF assms])

lemma verified_policy_stops_witness:
  "verify_vocabulary sample_text_metadata sample_tokenizer = Ok sample_policy \<and>
   policy_sound sample_text_metadata sample_tokenizer sample_policy"
  using verified_policy_stops [OF sample_policy] sample_policy by simp

lemma sample_chat_policy: "verify_vocabulary sample_chat_metadata sample_tokenizer = Ok sample_policy"
proof -
  have same: "map_of sample_chat_metadata key = map_of sample_text_metadata key" if "key \<noteq> CHAT_TEMPLATE_KEY" for key
    using that by (simp add: sample_chat_metadata_def)
  have "verify_vocabulary sample_chat_metadata sample_tokenizer = verify_vocabulary sample_text_metadata sample_tokenizer"
    unfolding verify_vocabulary_def metadata_optional_u32_def text_metadata_u32_def metadata_bool_or_false_def
    by (subst same, code_simp)+ simp
  then show ?thesis by (simp add: sample_policy)
qed

lemma sample_pipeline:
  "pipeline_new (\<lambda>bs. bs) (\<lambda>_. Ok sample_tokenizer) Some sample_engine True sample_chat_metadata [7]
     \<lparr>ti_byte_length = 1, ti_digest = [7]\<rparr> sample_limits = Ok sample_profile"
  using sample_chat_policy
  by (simp add: pipeline_new_def limits_validate_def sample_limits_def pipeline_template_limits_def template_limits_new_def
      template_validate_limits_def verified_from_bytes_def verify_unpadded_untruncated_def sample_tokenizer_def
      text_metadata_string_def sample_chat_metadata_def check_limit_def bounded_template_new_Ok sample_engine_def
      sample_profile_def sample_template_limits_def require_def Let_def)

lemma sample_prepares_rendered:
  "prepare Some (render_request Some sample_engine) (\<lambda>_ _. True) (\<lambda>w. (False, w)) sample_profile sample_text_request w =
     (Ok sample_prepared, w)"
proof -
  have "render_request Some sample_engine sample_profile sample_text_request = sample_render sample_profile sample_text_request"
    by (simp add: render_request_def sample_render_def sample_engine_def sample_profile_def sample_text_request_def
        bounded_template_new_Ok bounded_template_render_Ok sample_template_limits_def utf8_valid.simps)
  then show ?thesis using sample_prepares [of w] by (simp add: prepare_def)
qed

text \<open>C31: a prepared request stayed inside every limit of the pipeline it was prepared by, whatever the template
  engine does. The tokenizer file and the template are within their bytes; the messages are within their
  bounds, one is the user's and only the first may be the system's; the rendered text is within its bytes and
  is all that the engine wrote under the fuel and the recursion limit of the pipeline; the prompt is the
  encoding of that text between the tokens the policy adds, is not empty, and with the requested output
  fits the context; and the output storage is planned for exactly the requested tokens and the limit of
  output bytes.\<close>

theorem prepared_request_is_bounded:
  assumes "pipeline_new sha256 parse heap engine weights_ok metadata companion expected limits = Ok profile"
    and "prepare heap (render_request heap engine) execution_plan is_cancelled profile r w = (Ok p, w')"
  shows "tp_limits profile = limits \<and> length companion \<le> pl_tokenizer_bytes limits \<and>
    text_metadata_string metadata CHAT_TEMPLATE_KEY = Ok (tp_template_source profile) \<and>
    rendered_within engine limits (tp_template_source profile) r (pg_rendered_prompt p) \<and>
    prepared_ok (render_request heap engine) profile r p"
proof -
  have ok: "prepared_ok (render_request heap engine) profile r p" by (rule prepare_Ok [OF assms(2)])
  then have "render_request heap engine profile r = Ok (pg_rendered_prompt p)" by (simp add: prepared_ok_def)
  from render_request_within [OF pipeline_new_Ok(4) [OF assms(1)] this] show ?thesis
    using pipeline_new_Ok [OF assms(1)] ok by simp
qed

theorem prepared_request_is_bounded_witness:
  "rendered_within sample_engine sample_limits [] sample_text_request (pg_rendered_prompt sample_prepared) \<and>
   prepared_ok (render_request Some sample_engine) sample_profile sample_text_request sample_prepared"
  using prepared_request_is_bounded [OF sample_pipeline sample_prepares_rendered] by (simp add: sample_profile_def)

lemma generate_cpu_Ok:
  assumes "generate_cpu heap p is_cancelled open_session execution_step (v :: 'a) = (Ok g, w')"
  shows "\<exists>(port :: ('a \<times> f32 list, text_error) port) u u'.
    run_generation heap (pg_profile p) (pg_prompt_token_ids p) (pg_max_output_tokens p) (pg_output_storage_plan p) port u = (Ok g, u')"
proof -
  let ?port = "legacy_port is_cancelled (\<lambda>ids d. case execution_step ids d of (r, d) \<Rightarrow> (ok_or DecoderError r, d))"
  let ?run = "run_generation heap (pg_profile p) (pg_prompt_token_ids p) (pg_max_output_tokens p) (pg_output_storage_plan p) ?port"
  obtain d where d: "(case ?run (d, []) of (r, (d, _)) \<Rightarrow> (map_err flatten_legacy_generation_error r, d)) = (Ok g, w')"
    using assms by (auto simp: generate_cpu_def)
  obtain r d' row where run: "?run (d, []) = (r, (d', row))" by (cases "?run (d, [])") auto
  then have "r = Ok g" using d by (cases r) simp_all
  then show ?thesis using run by blast
qed

text \<open>C10: whatever the driver does, a generation that is published stayed inside its request: no stop token
  is among its tokens, there are at most as many as were asked for and exactly as many when it ended for
  its length, the text is what the tokens mean, and it is no longer than the pipeline's output limit.\<close>

theorem generation_stays_within_its_request:
  assumes "pipeline_generate heap render execution_plan is_cancelled open_session execution_step profile r (w :: 'a) = (Ok g, w')"
    and "compiled_profile heap compile_regex up config profile"
  shows "list_all (\<lambda>t. t \<notin> set (sp_stop_ids (tp_special_tokens profile))) (ge_token_ids g) \<and>
    length (ge_token_ids g) \<le> gr_max_output_tokens r \<and>
    (ge_finish_reason g = OutputLength \<longleftrightarrow> length (ge_token_ids g) = gr_max_output_tokens r) \<and>
    ge_text g = decoded_text compile_regex up config False (ge_token_ids g) \<and>
    length (ge_text g) \<le> pl_output_bytes (tp_limits profile)"
proof -
  obtain p v where p: "prepare heap render execution_plan is_cancelled profile r w = (Ok p, v)"
    and cpu: "generate_cpu heap p is_cancelled open_session execution_step v = (Ok g, w')"
    using assms(1) by (auto simp: pipeline_generate_def)
  have ok: "prepared_ok render profile r p" by (rule prepare_Ok [OF p])
  obtain port :: "('a \<times> f32 list, text_error) port" and u u' where
    "run_generation heap profile (pg_prompt_token_ids p) (gr_max_output_tokens r) (pg_output_storage_plan p) port u = (Ok g, u')"
  proof -
    have p: "pg_profile p = profile" "pg_max_output_tokens p = gr_max_output_tokens r"
      using ok by (simp_all add: prepared_ok_def)
    show thesis using generate_cpu_Ok [OF cpu] that unfolding p by blast
  qed
  from run_generation_any [OF assms(2) _ _ this] ok show ?thesis
    by (auto simp: prepared_ok_def request_ok_def list_all_iff)
qed

lemma sample_acquired: "\<exists>s. storage_acquire Some sample_storage_plan = Ok s"
  by (simp add: storage_acquire_def token_buffer_acquire_def reserved_def)

lemma sample_run:
  assumes "serves port sample_model fed" and "fed w = []"
  shows "fst (run_generation Some sample_profile [3, 4] 4 sample_storage_plan port w) =
    Ok \<lparr>ge_text = [0x68, 0x69, 0xC3, 0xA9, 0x21], ge_token_ids = [3, 1, 2, 4], ge_finish_reason = OutputLength\<rparr>"
proof -
  obtain s where "storage_acquire Some sample_storage_plan = Ok s" using sample_acquired by blast
  from run_generation_serves [where limit = 16, OF assms(1) _ sample_compiled_profile _ this _ assms(2), of 4 "[3, 4]"] show ?thesis
    using sample_model_ok sample_answer
    by (simp add: sample_profile_def sample_policy_def sample_tokenizer_def sample_plan sample_storage_plan_def)
qed

lemma sample_generate:
  "\<exists>w. pipeline_generate Some sample_render (\<lambda>_ _. True) (\<lambda>w. (False, w)) (\<lambda>w. (True, w))
     (\<lambda>ids w. (Some (sample_model (w @ ids)), w @ ids)) sample_profile sample_text_request [] =
   (Ok \<lparr>ge_text = [0x68, 0x69, 0xC3, 0xA9, 0x21], ge_token_ids = [3, 1, 2, 4], ge_finish_reason = OutputLength\<rparr>, w)"
proof -
  let ?port = "legacy_port (\<lambda>w. (False, w))
      (\<lambda>ids d. case (Some (sample_model (d @ ids)), d @ ids) of (r, d) \<Rightarrow> (ok_or DecoderError r, d))"
  have "serves ?port sample_model fst" by (auto simp: serves_def legacy_port_def legacy_step_def)
  from sample_run [OF this, of "([], [])"] show ?thesis
    by (cases "run_generation Some sample_profile [3, 4] 4 sample_storage_plan ?port ([], [])")
      (auto simp: pipeline_generate_def sample_prepares generate_cpu_def check_cancelled_def require_def sample_prepared_def
        split: prod.splits)
qed

lemma generation_stays_within_its_request_witness:
  "\<exists>g. fst (pipeline_generate Some sample_render (\<lambda>_ _. True) (\<lambda>w. (False, w)) (\<lambda>w. (True, w))
     (\<lambda>ids w. (Some (sample_model (w @ ids)), w @ ids)) sample_profile sample_text_request []) = Ok (g :: generation) \<and>
   ge_finish_reason g = OutputLength \<and> length (ge_token_ids g) = 4"
proof -
  obtain w where w: "pipeline_generate Some sample_render (\<lambda>_ _. True) (\<lambda>w. (False, w)) (\<lambda>w. (True, w))
     (\<lambda>ids w. (Some (sample_model (w @ ids)), w @ ids)) sample_profile sample_text_request [] =
   (Ok \<lparr>ge_text = [0x68, 0x69, 0xC3, 0xA9, 0x21], ge_token_ids = [3, 1, 2, 4], ge_finish_reason = OutputLength\<rparr>, w)"
    using sample_generate by blast
  show ?thesis
    using generation_stays_within_its_request [OF w sample_compiled_profile] w by (simp add: sample_text_request_def)
qed

text \<open>C2: a driver that serves a language model makes the pipeline generate what the model says. The
  tokens are its greedy continuation of the prompt, each the choice after everything before it, up to
  the first stop token or the requested length; the text is their decoding, or the error that names
  its length when it is longer than the limit.\<close>

theorem generation_follows_the_model:
  assumes "serves port model fed" and "model_ok model (tk_vocab_size (tp_tokenizer profile))"
    and "compiled_profile heap compile_regex up config profile"
    and "storage_plan (tk_collective (tp_tokenizer profile)) n limit = Ok plan"
    and "storage_acquire heap plan = Ok s" and "0 < n" and "fed w = []"
  shows "fst (run_generation heap profile prompt n plan port w) =
    model_answer compile_regex up config model (sp_stop_ids (tp_special_tokens profile)) n limit prompt"
  by (rule run_generation_serves [OF assms])

lemma generation_follows_the_model_witness:
  "fst (run_generation Some sample_profile [3, 4] 4 sample_storage_plan sample_port []) =
     Ok \<lparr>ge_text = [0x68, 0x69, 0xC3, 0xA9, 0x21], ge_token_ids = [3, 1, 2, 4], ge_finish_reason = OutputLength\<rparr>"
proof -
  obtain s where "storage_acquire Some sample_storage_plan = Ok s" using sample_acquired by blast
  from generation_follows_the_model [where limit = 16 and w = "[]", OF sample_serves _ sample_compiled_profile _ this, of 4 "[3, 4]"]
  show ?thesis
    using sample_model_ok sample_answer
    by (simp add: sample_profile_def sample_policy_def sample_tokenizer_def sample_plan sample_storage_plan_def)
qed

text \<open>C8: the two kinds of driver are interchangeable. A recycled driver that writes into the lent row
  what the owning driver returns generates the same answer, ends in the same error and leaves the same
  driver, given storage of the planned width.\<close>

theorem drivers_are_interchangeable:
  assumes "drivers_agree (rp_vocabulary_width (pg_recycled_logits_plan p)) step step_into"
    and "recycled_validate_storage (pg_recycled_logits_plan p) row = Ok u"
  shows "generate_with_driver heap p is_cancelled step d =
    (case generate_with_recycled_driver heap p is_cancelled step_into row d of
       (r, d) \<Rightarrow> (map_err flatten_legacy_generation_error r, d))"
proof -
  let ?run = "run_generation heap (pg_profile p) (pg_prompt_token_ids p) (pg_max_output_tokens p) (pg_output_storage_plan p)"
  have width: "length row = rp_vocabulary_width (pg_recycled_logits_plan p)"
    using assms(2) by (simp add: recycled_validate_storage_def)
  have same: "fst (?run (legacy_port is_cancelled step) (d, [])) = fst (?run (recycled_port is_cancelled step_into) (d, row)) \<and>
      fst (snd (?run (legacy_port is_cancelled step) (d, []))) = fst (snd (?run (recycled_port is_cancelled step_into) (d, row)))" for d
    using run_generation_alike [OF drivers_same_answers [OF assms(1)], of "(d, [])" "(d, row)"] width
    by (simp add: alike_def case_prod_unfold)
  obtain r d' where check: "check_cancelled is_cancelled SessionConstruction d = (r, d')"
    by (cases "check_cancelled is_cancelled SessionConstruction d") auto
  have flat: "r = Err e \<Longrightarrow> map_err flatten_legacy_generation_error (Err (Pipeline e)) = Err e" for e
    by (simp add: flatten_legacy_generation_error_def)
  obtain x y z where a: "?run (legacy_port is_cancelled step) (d', []) = (x, (y, z))"
    by (cases "?run (legacy_port is_cancelled step) (d', [])") auto
  obtain x' y' z' where b: "?run (recycled_port is_cancelled step_into) (d', row) = (x', (y', z'))"
    by (cases "?run (recycled_port is_cancelled step_into) (d', row)") auto
  show ?thesis
    using same [of d'] a b check flat assms(2)
    by (cases r) (simp_all add: generate_with_driver_def generate_with_recycled_driver_def)
qed

definition sample_step :: "u32 list \<Rightarrow> u32 list \<Rightarrow> f32 list text_result \<times> u32 list" where
  "sample_step ids d = (Ok (sample_model (d @ ids)), d @ ids)"

definition sample_step_into :: "u32 list \<Rightarrow> f32 list \<Rightarrow> u32 list \<Rightarrow> unit text_result \<times> f32 list \<times> u32 list" where
  "sample_step_into ids row d = (Ok (), sample_model (d @ ids), d @ ids)"

lemma drivers_are_interchangeable_witness:
  "drivers_agree 5 sample_step sample_step_into \<and>
   generate_with_driver Some sample_prepared (\<lambda>d. (False, d)) sample_step [] =
     (case generate_with_recycled_driver Some sample_prepared (\<lambda>d. (False, d)) sample_step_into [0, 0, 0, 0, 0] [] of
        (r, d) \<Rightarrow> (map_err flatten_legacy_generation_error r, d))"
proof -
  have agree: "drivers_agree 5 sample_step sample_step_into"
    using sample_model_ok by (simp add: drivers_agree_def sample_step_def sample_step_into_def model_ok_def)
  have "rp_vocabulary_width (pg_recycled_logits_plan sample_prepared) = 5" by (simp add: sample_prepared_def)
  then show ?thesis
    using drivers_are_interchangeable [of sample_prepared sample_step sample_step_into "[0, 0, 0, 0, 0]" "()"] agree
    by (simp add: recycled_validate_storage_def require_def)
qed

text \<open>C16: a cancelled request makes no step. Where probing changes nothing, generation never steps the
  driver in a world in which the probe answers that the request is cancelled, so it would not notice if
  such a step panicked; and it publishes an answer only where the probe still answers that it is not.\<close>

theorem cancelled_request_makes_no_step:
  assumes "probe_only port"
  shows "run_generation heap profile prompt n plan (guarded port) w = run_generation heap profile prompt n plan port w \<and>
    (case run_generation heap profile prompt n plan port w of (r, w') \<Rightarrow> is_ok r \<longrightarrow> \<not> fst (po_cancelled port w'))"
  using run_generation_guarded [OF assms] run_generation_Ok_not_cancelled [OF assms]
  by (auto simp: is_ok_iff split: prod.splits)

text \<open>A request that is cancelled after two tokens have been fed back.\<close>

definition sample_cancelled_port :: "(u32 list, text_error) port" where
  "sample_cancelled_port =
     \<lparr>po_cancelled = (\<lambda>w. (3 < length w, w)), po_step = (\<lambda>ids w. (Ok (sample_model (w @ ids)), w @ ids))\<rparr>"

lemma sample_picks: "greedy_last_logits (sample_model ids) 5 = Ok (of_nat (sample_choice (length ids)))"
proof -
  have "sample_choice (length ids) < 5" by (simp add: sample_choice_def)
  then show ?thesis
    using greedy_last_logits_pick [OF sample_model_ok, of ids] by (simp add: sample_model_def sample_logits)
qed

lemma sample_cancelled_select:
  "select_next sample_cancelled_port ids 5 w =
     (if 3 < length (w @ ids) then Err (Pipeline (Cancelled GreedySelection)) else Ok (of_nat (sample_choice (length (w @ ids)))), w @ ids)"
  by (simp add: select_next_def sample_cancelled_port_def pipeline_check_def check_cancelled_def sample_picks)

lemma sample_cancelled:
  "run_generation Some sample_profile [3, 4] 4 sample_storage_plan sample_cancelled_port [] =
     (Err (Pipeline (Cancelled GreedySelection)), [3, 4, 3, 1])"
proof -
  have check: "pipeline_check sample_cancelled_port b w = (if 3 < length w then Err (Pipeline (Cancelled b)) else Ok (), w)" for b w
    by (simp add: pipeline_check_def check_cancelled_def sample_cancelled_port_def)
  obtain s where s: "storage_acquire Some sample_storage_plan = Ok s" using sample_acquired by blast
  have "ds_token_ids s = [] \<and> ds_token_limit s = 4 \<and> 4 \<le> ds_token_ids_capacity s"
    using planned_storage [of sample_decoder 4 16 sample_storage_plan Some s] s
    by (simp add: sample_plan sample_storage_plan_def heap_ok_def)
  then have push: "push_token_id t s = (Ok (), s\<lparr>ds_token_ids := [t]\<rparr>)"
      "push_token_id u (s\<lparr>ds_token_ids := [t]\<rparr>) = (Ok (), s\<lparr>ds_token_ids := [t, u]\<rparr>)" for t u
    by (simp_all add: push_token_id_iff)
  show ?thesis
    using s push
    by (simp add: run_generation_def sample_profile_def sample_policy_def sample_tokenizer_def check sample_cancelled_select
        sample_choice_def generation_loop_round)
qed

lemma cancelled_request_makes_no_step_witness:
  "probe_only sample_cancelled_port \<and>
   run_generation Some sample_profile [3, 4] 4 sample_storage_plan (guarded sample_cancelled_port) [] =
     (Err (Pipeline (Cancelled GreedySelection)), [3, 4, 3, 1])"
proof -
  have "probe_only sample_cancelled_port" by (simp add: probe_only_def sample_cancelled_port_def)
  then show ?thesis
    using cancelled_request_makes_no_step [of sample_cancelled_port Some sample_profile "[3, 4]" 4 sample_storage_plan "[]"]
    by (simp add: sample_cancelled)
qed

end
