(* ===== verification/Decode_Masks.thy ===== *)
theory Decode_Masks
  imports Decode_Properties
begin

text \<open>
  Masks: a token whose logit is negative infinity keeps it through every processor of a chain, and no
  sampler chooses it, given what IEEE 754 says of the operations the chain uses.
\<close>

subsection \<open>What the arithmetic has to satisfy\<close>

text \<open>
  Negative infinity times or over a positive finite number is itself. Of \<open>f64\<close>: zero over anything is
  not positive, what exceeds a number that is not negative is positive, and subtracting from such a
  number one that does not exceed it leaves one that is not negative. NaN satisfies all four.
\<close>

definition float_laws :: "'d float_ops \<Rightarrow> bool" where
  "float_laws ops \<longleftrightarrow>
     (\<forall>t. f32_is_finite t \<longrightarrow> f32_less 0 t \<longrightarrow>
        div32 ops f32_neg_infinity t = f32_neg_infinity \<and> mul32 ops f32_neg_infinity t = f32_neg_infinity) \<and>
     (\<forall>t. \<not> less64 ops (zero64 ops) (div64 ops (zero64 ops) t)) \<and>
     (\<forall>d p. \<not> less64 ops d (zero64 ops) \<longrightarrow> less64 ops d p \<longrightarrow> less64 ops (zero64 ops) p) \<and>
     (\<forall>d p. \<not> less64 ops d (zero64 ops) \<longrightarrow> \<not> less64 ops d p \<longrightarrow> \<not> less64 ops (sub64 ops d p) (zero64 ops))"

text \<open>A processor that its constructor returned.\<close>

definition processor_ok :: "processor \<Rightarrow> bool" where
  "processor_ok p \<longleftrightarrow>
     (case p of
        TemperatureScale t \<Rightarrow> temperature_new t
      | TopK k \<Rightarrow> top_k_new k
      | TopP x \<Rightarrow> top_p_new x
      | MinP x \<Rightarrow> min_p_new x
      | RepetitionPenalty tokens penalty \<Rightarrow> repetition_new tokens penalty
      | TypicalSampling x \<Rightarrow> typical_new x) = Ok p"

text \<open>Logits over the same vocabulary in which every masked token is still masked.\<close>

definition keeps_masks :: "f32 list \<Rightarrow> f32 list \<Rightarrow> bool" where
  "keeps_masks before after \<longleftrightarrow> length after = length before \<and>
     (\<forall>i < length before. before ! i = f32_neg_infinity \<longrightarrow> after ! i = f32_neg_infinity)"

lemma keeps_masks_refl [simp]: "keeps_masks logits logits"
  by (simp add: keeps_masks_def)

lemma keeps_masks_trans: "keeps_masks a b \<Longrightarrow> keeps_masks b c \<Longrightarrow> keeps_masks a c"
  by (simp add: keeps_masks_def)

lemma keeps_masks_map: "f f32_neg_infinity = f32_neg_infinity \<Longrightarrow> keeps_masks logits (map f logits)"
  by (simp add: keeps_masks_def)

lemma keeps_masks_unless: "keeps_masks logits (mask_unless keep logits)"
  by (simp add: keeps_masks_def mask_unless_def nth_enumerate_eq)

lemma keeps_masks_fold:
  assumes "f f32_neg_infinity = f32_neg_infinity"
  shows "keeps_masks logits (fold (\<lambda>i ls. ls[i := f (ls ! i)]) is logits)"
proof (induction "is" arbitrary: logits)
  case (Cons i "is")
  have "keeps_masks logits (logits[i := f (logits ! i)])"
    using assms by (cases "i < length logits") (auto simp: keeps_masks_def nth_list_update)
  then show ?case using keeps_masks_trans [OF _ Cons.IH] by simp
qed simp

lemma process_keeps_masks:
  assumes "float_laws ops" and "processor_ok p" and "process heap ops p logits = Ok out"
  shows "keeps_masks logits out"
proof (cases p)
  case (TemperatureScale t)
  then have "div32 ops f32_neg_infinity t = f32_neg_infinity"
    using assms(1,2) by (auto simp: processor_ok_def temperature_new_def validate_positive_def float_laws_def)
  then show ?thesis
    using assms(3) TemperatureScale by (auto simp: process_def process_temperature_def intro: keeps_masks_map)
next
  case (TopK k)
  then show ?thesis
    using assms(3)
    by (auto simp: process_def process_top_k_def mask_below_def Let_def intro!: keeps_masks_map split: if_splits)
next
  case (RepetitionPenalty tokens penalty)
  then have "penalised ops penalty f32_neg_infinity = f32_neg_infinity"
    using assms(1,2) by (auto simp: processor_ok_def repetition_new_def validate_positive_def float_laws_def penalised_def)
  then show ?thesis
    using assms(3) RepetitionPenalty
    by (auto simp: process_def process_repetition_def Let_def intro: keeps_masks_fold)
qed (use assms(3) in \<open>auto simp: process_def process_top_p_def process_min_p_def Let_def
      intro: keeps_masks_unless split: if_splits\<close>)

lemma run_processors_keeps_masks:
  "float_laws ops \<Longrightarrow> list_all processor_ok ps \<Longrightarrow> run_processors heap ops ps logits = Ok out \<Longrightarrow> keeps_masks logits out"
proof (induction ps arbitrary: logits)
  case (Cons p ps)
  then obtain after where "process heap ops p logits = Ok after" "run_processors heap ops ps after = Ok out" by auto
  then show ?case
    using Cons.IH [OF Cons.prems(1), of after] Cons.prems(2) process_keeps_masks [OF Cons.prems(1), of p heap logits after]
      keeps_masks_trans [of logits after out] by simp
qed simp

subsection \<open>The multinomial choice\<close>

lemma drawn_from_positive:
  assumes "float_laws ops"
  shows "\<not> less64 ops draw (zero64 ops) \<Longrightarrow> drawn_from ops draw position ps = Some j \<Longrightarrow>
    position \<le> j \<and> j < position + length ps \<and> less64 ops (zero64 ops) (ps ! (j - position))"
proof (induction ps arbitrary: draw position)
  case (Cons p ps)
  show ?case
  proof (cases "less64 ops draw p")
    case True
    then show ?thesis using Cons.prems assms by (auto simp: float_laws_def)
  next
    case False
    then have "\<not> less64 ops (sub64 ops draw p) (zero64 ops)" using Cons.prems(1) assms by (auto simp: float_laws_def)
    moreover have "drawn_from ops (sub64 ops draw p) (position + 1) ps = Some j" using Cons.prems(2) False by simp
    ultimately have "position + 1 \<le> j \<and> j < position + 1 + length ps \<and> less64 ops (zero64 ops) (ps ! (j - (position + 1)))"
      by (rule Cons.IH)
    moreover from this have "j - position = Suc (j - (position + 1))" by linarith
    ultimately show ?thesis by simp
  qed
qed simp

lemma last_unmasked_positive:
  "last_unmasked ops ps = Some j \<Longrightarrow> j < length ps \<and> less64 ops (zero64 ops) (ps ! j)"
  by (auto simp: last_unmasked_def find_Some_iff rev_nth)

lemma token_index_Ok: "token_index position = Ok t \<longleftrightarrow> position < 2 ^ 32 \<and> t = of_nat position"
  by (auto simp: token_index_def)

lemma multinomial_unmasked:
  assumes "float_laws ops" and "\<not> less64 ops draw (zero64 ops)" and "multinomial_sample heap ops draw logits = Ok t"
  shows "unat t < length logits \<and> logits ! unat t \<noteq> f32_neg_infinity"
proof -
  let ?terms = "multinomial_terms ops logits"
  let ?sum = "fold (\<lambda>p acc. add64 ops acc p) ?terms (zero64 ops)"
  let ?ps = "map (\<lambda>p. div64 ops p ?sum) ?terms"
  have len: "length ?ps = length logits" by (simp add: multinomial_terms_def)
  obtain j where j: "token_index j = Ok t" "j < length ?ps" "less64 ops (zero64 ops) (?ps ! j)"
    using assms(3) drawn_from_positive [OF assms(1,2), of 0 ?ps] last_unmasked_positive [of ops ?ps]
    by (auto simp: multinomial_sample_def Let_def split: option.splits)
  have "\<not> less64 ops (zero64 ops) (?ps ! j)" if "\<not> f32_is_finite (logits ! j)"
    using that j(2) assms(1) by (simp add: multinomial_terms_def Let_def float_laws_def)
  moreover have "\<not> f32_is_finite f32_neg_infinity"
    by (simp add: f32_is_finite_def f32_magnitude_def f32_neg_infinity_def)
  moreover have "unat t = j" using j(1) by (auto simp: token_index_Ok unat_of_nat)
  ultimately show ?thesis using j(2,3) len by metis
qed

subsection \<open>Properties\<close>

text \<open>A sampler that never chooses a masked token.\<close>

definition respects_masks :: "(f32 list \<Rightarrow> u32 dec) \<Rightarrow> bool" where
  "respects_masks sample \<longleftrightarrow>
     (\<forall>logits t. sample logits = Ok t \<longrightarrow> unat t < length logits \<and> logits ! unat t \<noteq> f32_neg_infinity)"

lemma neg_infinity_not_finite: "\<not> f32_is_finite f32_neg_infinity"
  by (simp add: f32_is_finite_def f32_magnitude_def f32_neg_infinity_def)

lemma greedy_respects_masks: "respects_masks greedy"
  unfolding respects_masks_def
proof (intro allI impI)
  fix logits t
  assume "greedy logits = Ok t"
  then have g: "valid_logits logits \<and> first_best logits (unat t)" by (simp add: greedy_Ok)
  then have "f32_is_finite (logits ! unat t)" using first_best_finite by blast
  then show "unat t < length logits \<and> logits ! unat t \<noteq> f32_neg_infinity"
    using g neg_infinity_not_finite by (auto simp: first_best_def)
qed

lemma multinomial_respects_masks:
  "float_laws ops \<Longrightarrow> \<not> less64 ops draw (zero64 ops) \<Longrightarrow> respects_masks (multinomial_sample heap ops draw)"
  using multinomial_unmasked [of ops draw heap] by (simp add: respects_masks_def)

lemma chain_step_unmasked:
  assumes "float_laws ops" and "list_all processor_ok ps" and "respects_masks sample"
    and "chain_step heap ops ps sample logits = Ok t"
  shows "unat t < length logits \<and> f32_is_finite (logits ! unat t)"
proof -
  obtain after where valid: "valid_logits logits" and run: "run_processors heap ops ps logits = Ok after"
    and t: "sample after = Ok t"
    using assms(4) by (auto simp: chain_step_def validate_logits_Ok)
  have keeps: "keeps_masks logits after" by (rule run_processors_keeps_masks [OF assms(1,2) run])
  have "unat t < length after" "after ! unat t \<noteq> f32_neg_infinity" using assms(3) t by (auto simp: respects_masks_def)
  then have "unat t < length logits" "logits ! unat t \<noteq> f32_neg_infinity" using keeps by (auto simp: keeps_masks_def)
  moreover from this valid have "\<not> f32_is_nan (logits ! unat t)" "logits ! unat t \<noteq> f32_infinity"
    by (auto simp: valid_logits_def list_all_length)
  ultimately show ?thesis using f32_infinite_cases by blast
qed

text \<open>C22: a masked token is never generated. Whatever processors a chain runs and whether it chooses
  greedily or draws a random number that is not negative, the token it answers lies in the vocabulary
  and had a finite logit before the first processor.\<close>

theorem masked_tokens_are_never_chosen:
  assumes "float_laws ops" and "list_all processor_ok ps"
    and "sample = greedy \<or> sample = multinomial_sample heap ops draw" and "\<not> less64 ops draw (zero64 ops)"
    and "chain_step heap ops ps sample logits = Ok t"
  shows "unat t < length logits \<and> f32_is_finite (logits ! unat t)"
  using chain_step_unmasked [OF assms(1,2) _ assms(5)] assms(3) greedy_respects_masks
    multinomial_respects_masks [OF assms(1,4)] by blast

lemma masked_tokens_are_never_chosen_witness:
  "chain_step (\<lambda>_. True) even_ops [TopK 2, TemperatureScale f32_one] (multinomial_sample (\<lambda>_. True) even_ops 1)
     [0x40400000, f32_neg_infinity, 0x3F800000, 0x40000000] = Ok 3 \<and>
   f32_is_finite ([0x40400000, f32_neg_infinity, 0x3F800000, 0x40000000] ! 3)"
proof -
  let ?in = "[0x40400000, f32_neg_infinity, 0x3F800000, 0x40000000]"
  note bits = f32_is_nan_def f32_is_finite_def f32_magnitude_def f32_infinity_def f32_neg_infinity_def f32_less_def
    f32_key_def f32_total_def f32_negative_def f32_one_def
  have laws: "float_laws even_ops" by (simp add: float_laws_def even_ops_def)
  have ok: "list_all processor_ok [TopK 2, TemperatureScale f32_one]"
    by (simp add: processor_ok_def top_k_new_def temperature_new_def validate_positive_def require_def bits)
  have one: "process (\<lambda>_. True) even_ops (TopK 2) ?in = Ok [0x40400000, f32_neg_infinity, f32_neg_infinity, 0x40000000]"
    by (simp add: process_def process_top_k_def validate_logits_def reserve_def require_def Let_def mask_below_def bits)
  have two: "process (\<lambda>_. True) even_ops (TemperatureScale f32_one) [0x40400000, f32_neg_infinity, f32_neg_infinity, 0x40000000] =
      Ok [0x40400000, f32_neg_infinity, f32_neg_infinity, 0x40000000]"
    by (simp add: process_def process_temperature_def validate_logits_def require_def even_ops_def bits)
  have valid: "validate_logits ?in = Ok ()"
    by (simp add: validate_logits_def require_def bits)
  have valid2: "validate_logits [0x40400000, f32_neg_infinity, f32_neg_infinity, 0x40000000] = Ok ()"
    by (simp add: validate_logits_def require_def bits)
  have step: "chain_step (\<lambda>_. True) even_ops [TopK 2, TemperatureScale f32_one] (multinomial_sample (\<lambda>_. True) even_ops 1) ?in = Ok 3"
    by (simp add: chain_step_def valid valid2 one two)
      (simp add: multinomial_sample_def valid2 [unfolded f32_neg_infinity_def] reserve_def require_def multinomial_terms_def even_ops_def token_index_def bits)
  have "\<not> less64 even_ops 1 (zero64 even_ops)" by (simp add: even_ops_def)
  then show ?thesis
    using masked_tokens_are_never_chosen [OF laws ok disjI2 [OF refl] _ step] step by simp
qed

end
