(* ===== verification/Kernel_Packed.thy ===== *)
theory Kernel_Packed
  imports Float32
begin

text \<open>
  Shared ground of the CPU reference kernels (src/crates/kernels/src): the packed prefill plan
  (packed_prefill.rs), which lays the tokens of several sequences out one after the other, and slices of
  buffers. Whether the allocator can reserve a vector is the argument \<open>heap\<close>, of the role of the
  allocation and its number of elements.
\<close>

type_synonym allocator = "string \<Rightarrow> usize \<Rightarrow> bool"

text \<open>\<open>Layout::array::<f32>(n)\<close> exists when the array fits in \<open>isize::MAX\<close> bytes.\<close>

definition f32_layout_ok :: "usize \<Rightarrow> bool" where
  "f32_layout_ok n \<longleftrightarrow> n * 4 < 2 ^ 63"

text \<open>\<open>values.get(start..end)\<close>\<close>

definition get_range :: "'a list \<Rightarrow> usize \<Rightarrow> usize \<Rightarrow> 'a list option" where
  "get_range xs start finish =
     (if start \<le> finish \<and> finish \<le> length xs then Some (take (finish - start) (drop start xs)) else None)"

text \<open>\<open>values.get(index).copied()\<close>\<close>

definition get_scalar :: "'a list \<Rightarrow> usize \<Rightarrow> 'a option" where
  "get_scalar xs i = (if i < length xs then Some (xs ! i) else None)"

text \<open>The position of the first number that is not finite.\<close>

fun first_nonfinite :: "nat \<Rightarrow> f32 list \<Rightarrow> nat option" where
  "first_nonfinite i [] = None"
| "first_nonfinite i (x # xs) = (if f32_is_finite x then first_nonfinite (i + 1) xs else Some i)"

lemma first_nonfinite_None: "first_nonfinite i xs = None \<longleftrightarrow> list_all f32_is_finite xs"
  by (induction xs arbitrary: i) auto

text \<open>Two nested loops that push one value per round.\<close>

lemma try_fold_nested:
  fixes f :: "'a \<Rightarrow> 'b \<Rightarrow> ('v, 'e) result"
  shows "try_fold (\<lambda>x. try_fold (\<lambda>y s. and_then (f x y) (\<lambda>v. Ok (s @ [v]))) ys) xs s =
    and_then (try_map (\<lambda>x. try_map (f x) ys) xs) (\<lambda>vss. Ok (s @ concat vss))"
proof -
  have "(\<lambda>x. try_fold (\<lambda>y s. and_then (f x y) (\<lambda>v. Ok (s @ [v]))) ys) =
      (\<lambda>x s. and_then (try_map (f x) ys) (\<lambda>vs. Ok (s @ vs)))"
    by (intro ext) (rule try_fold_push)
  then show ?thesis by (simp add: try_fold_extend)
qed

lemma and_then_assoc: "and_then (and_then r f) g = and_then r (\<lambda>x. and_then (f x) g)"
  by (cases r) auto

lemma mult_index_less: "i < a \<Longrightarrow> j < b \<Longrightarrow> i * b + j < a * (b :: nat)"
proof -
  assume "i < a" and "j < b"
  then have "Suc i * b \<le> a * b" by (intro mult_le_mono1) simp
  with \<open>j < b\<close> show ?thesis by simp
qed

lemma upt_split: "[0..<m + n] = [0..<m] @ map (\<lambda>i. m + i) [0..<n]"
  by (induction n) auto

lemma product_nth_index:
  assumes "i < a" and "j < b"
  shows "map f (List.product [0..<a] [0..<b]) ! (i * b + j) = f (i, j)"
proof -
  have less: "i * b + j < a * b" using assms by (rule mult_index_less)
  have "(i * b + j) div b = i" "(i * b + j) mod b = j" using assms(2) by simp_all
  then have "List.product [0..<a] [0..<b] ! (i * b + j) = ([0..<a] ! i, [0..<b] ! j)"
    using less by (subst product_nth) (simp_all only: length_upt diff_zero)
  then show ?thesis using less assms by (simp del: upt_Suc)
qed

lemma rows_product:
  "(\<exists>vss. list_all2 (\<lambda>x vs. list_all2 (P x) ys vs) xs vss \<and> vs = concat vss) \<longleftrightarrow>
     list_all2 (\<lambda>(x, y) v. P x y v) (List.product xs ys) vs"
proof (induction xs arbitrary: vs)
  case (Cons x xs)
  show ?case (is "?l \<longleftrightarrow> ?r")
  proof
    assume ?l
    then obtain us vss where *: "list_all2 (P x) ys us" "list_all2 (\<lambda>x vs. list_all2 (P x) ys vs) xs vss"
        "vs = us @ concat vss"
      by (auto simp: list_all2_Cons1)
    then have "list_all2 (\<lambda>(x, y) v. P x y v) (List.product xs ys) (concat vss)" using Cons by blast
    moreover have "list_all2 (\<lambda>(x, y) v. P x y v) (map (Pair x) ys) us"
      using *(1) by (simp add: list_all2_map1)
    ultimately show ?r using *(3) by (simp add: list_all2_appendI)
  next
    assume ?r
    then obtain us ws where *: "vs = us @ ws" "list_all2 (\<lambda>(x, y) v. P x y v) (map (Pair x) ys) us"
        "list_all2 (\<lambda>(x, y) v. P x y v) (List.product xs ys) ws"
      by (auto simp: list_all2_append1)
    then obtain vss where "list_all2 (\<lambda>x vs. list_all2 (P x) ys vs) xs vss" "ws = concat vss"
      using Cons by blast
    then show ?l using * by (intro exI [of _ "us # vss"]) (auto simp: list_all2_map1)
  qed
qed auto

subsection \<open>The packed prefill plan\<close>

datatype packed_error =
    PackedNoSequences
  | PackedNoContext
  | PackedCountMismatch
  | PackedEmptyPrefix nat
  | PackedOffsetOverflow nat
  | PackedContextExceeded nat usize usize
  | PackedLengthsOverflow
  | PackedNoRows
  | PackedLayoutDomain usize
  | PackedAllocation usize

record packed_sequence =
  ps_length :: usize
  ps_committed_offset :: usize
  ps_start :: usize

record packed_plan =
  pp_sequences :: "packed_sequence list"
  pp_total_tokens :: usize
  pp_max_context :: usize

definition packed_push ::
  "usize \<Rightarrow> nat \<times> usize \<times> usize \<Rightarrow> packed_sequence list \<times> usize \<Rightarrow>
   (packed_sequence list \<times> usize, packed_error) result" where
  "packed_push max_context entry state =
     (case entry of (i, len, offset) \<Rightarrow> case state of (sequences, total_tokens) \<Rightarrow>
       if len = 0 then Err (PackedEmptyPrefix i)
       else and_then (ok_or (PackedOffsetOverflow i) (usize_add offset len)) (\<lambda>context_end.
       if context_end > max_context then Err (PackedContextExceeded i context_end max_context)
       else and_then (ok_or PackedLengthsOverflow (usize_add total_tokens len)) (\<lambda>total.
       Ok (sequences @ [\<lparr>ps_length = len, ps_committed_offset = offset, ps_start = total_tokens\<rparr>], total))))"

definition packed_new ::
  "allocator \<Rightarrow> usize list \<Rightarrow> usize list \<Rightarrow> usize \<Rightarrow> (packed_plan, packed_error) result" where
  "packed_new heap lengths committed_offsets max_context =
     (if lengths = [] then Err PackedNoSequences
      else if max_context = 0 then Err PackedNoContext
      else if length lengths \<noteq> length committed_offsets then Err PackedCountMismatch
      else if \<not> heap ''packed sequences'' (length lengths) then Err (PackedAllocation (length lengths))
      else and_then (try_fold (packed_push max_context)
              (zip [0..<length lengths] (zip lengths committed_offsets)) ([], 0)) (\<lambda>(sequences, total_tokens).
      if total_tokens = 0 then Err PackedNoRows
      else if \<not> f32_layout_ok total_tokens then Err (PackedLayoutDomain total_tokens)
      else Ok \<lparr>pp_sequences = sequences, pp_total_tokens = total_tokens, pp_max_context = max_context\<rparr>))"

definition pp_sequence_count :: "packed_plan \<Rightarrow> usize" where
  "pp_sequence_count p = length (pp_sequences p)"

definition pp_sequence_length :: "packed_plan \<Rightarrow> usize \<Rightarrow> usize option" where
  "pp_sequence_length p i = map_option ps_length (get_scalar (pp_sequences p) i)"

definition pp_committed_offset :: "packed_plan \<Rightarrow> usize \<Rightarrow> usize option" where
  "pp_committed_offset p i = map_option ps_committed_offset (get_scalar (pp_sequences p) i)"

definition pp_packed_start :: "packed_plan \<Rightarrow> usize \<Rightarrow> usize option" where
  "pp_packed_start p i = map_option ps_start (get_scalar (pp_sequences p) i)"

definition pp_packed_range :: "packed_plan \<Rightarrow> usize \<Rightarrow> (usize \<times> usize) option" where
  "pp_packed_range p i =
     (case pp_packed_start p i of
        None \<Rightarrow> None
      | Some start \<Rightarrow>
          (case pp_sequence_length p i of
             None \<Rightarrow> None
           | Some len \<Rightarrow> map_option (\<lambda>finish. (start, finish)) (usize_add start len)))"

subsection \<open>What a plan is\<close>

text \<open>Sequence \<open>i\<close> starts after the lengths of those before it.\<close>

definition starts_of :: "usize list \<Rightarrow> nat \<Rightarrow> usize" where
  "starts_of lengths i = sum_list (take i lengths)"

definition plan_sequences :: "usize list \<Rightarrow> usize list \<Rightarrow> packed_sequence list" where
  "plan_sequences lengths offsets =
     map (\<lambda>i. \<lparr>ps_length = lengths ! i, ps_committed_offset = offsets ! i, ps_start = starts_of lengths i\<rparr>)
       [0..<length lengths]"

lemma packed_push_Ok_iff:
  "packed_push c (i, len, offset) (qs, tot) = Ok st \<longleftrightarrow>
     0 < len \<and> offset + len \<le> c \<and> offset + len < 2 ^ 64 \<and> tot + len < 2 ^ 64 \<and>
     st = (qs @ [\<lparr>ps_length = len, ps_committed_offset = offset, ps_start = tot\<rparr>], tot + len)"
  by (auto simp: packed_push_def usize_add_Some_iff)

lemma packed_fold_Ok_iff:
  assumes "length lengths = length offsets"
  shows "try_fold (packed_push c) (zip [k..<k + length lengths] (zip lengths offsets)) (qs, tot) = Ok st \<longleftrightarrow>
    (\<forall>i < length lengths. 0 < lengths ! i \<and> offsets ! i + lengths ! i \<le> c \<and> offsets ! i + lengths ! i < 2 ^ 64) \<and>
    (lengths = [] \<or> tot + sum_list lengths < 2 ^ 64) \<and>
    st = (qs @ map (\<lambda>q. q\<lparr>ps_start := tot + ps_start q\<rparr>) (plan_sequences lengths offsets), tot + sum_list lengths)"
  using assms
proof (induction lengths offsets arbitrary: k qs tot rule: list_induct2)
  case Nil
  then show ?case by (auto simp: plan_sequences_def)
next
  case (Cons len lengths offset offsets)
  have upt: "[k..<k + length (len # lengths)] = k # [Suc k..<Suc k + length lengths]"
    by (simp add: upt_conv_Cons del: upt_Suc)
  have shift: "map (\<lambda>q. q\<lparr>ps_start := tot + ps_start q\<rparr>) (plan_sequences (len # lengths) (offset # offsets)) =
      \<lparr>ps_length = len, ps_committed_offset = offset, ps_start = tot\<rparr> #
      map (\<lambda>q. q\<lparr>ps_start := (tot + len) + ps_start q\<rparr>) (plan_sequences lengths offsets)"
    unfolding plan_sequences_def
    by (simp add: upt_conv_Cons map_Suc_upt [symmetric] starts_of_def del: upt_Suc)
  have "lengths = [] \<or> tot + len + sum_list lengths < 2 ^ 64 \<longleftrightarrow> tot + len + sum_list lengths < 2 ^ 64"
    if "tot + len < 2 ^ 64"
    using that by (cases lengths) auto
  then show ?case
    unfolding upt zip_Cons_Cons try_fold.simps shift and_then_Ok_iff packed_push_Ok_iff
    by (auto simp: Cons.IH [of "Suc k"] All_less_Suc2 simp del: upt_Suc add_Suc)
qed

text \<open>A plan that \<open>packed_new\<close> returned, by the lengths of its sequences.\<close>

definition plan_of :: "packed_plan \<Rightarrow> usize list \<Rightarrow> usize list \<Rightarrow> bool" where
  "plan_of p lengths offsets \<longleftrightarrow>
     lengths \<noteq> [] \<and> length offsets = length lengths \<and>
     (\<forall>i < length lengths. 0 < lengths ! i \<and> offsets ! i + lengths ! i \<le> pp_max_context p \<and>
        offsets ! i + lengths ! i < 2 ^ 64) \<and>
     sum_list lengths * 4 < 2 ^ 63 \<and> pp_total_tokens p = sum_list lengths \<and>
     pp_sequences p = plan_sequences lengths offsets"

lemma packed_new_plan_of: "packed_new heap lengths offsets c = Ok p \<Longrightarrow> plan_of p lengths offsets"
proof -
  assume ok: "packed_new heap lengths offsets c = Ok p"
  then have guards: "lengths \<noteq> []" "length lengths = length offsets"
    by (auto simp: packed_new_def split: if_splits)
  obtain st where loop: "try_fold (packed_push c) (zip [0..<0 + length lengths] (zip lengths offsets)) ([], 0) = Ok st"
    using ok by (auto simp: packed_new_def split: if_splits)
  have same: "map (\<lambda>q. q\<lparr>ps_start := 0 + ps_start q\<rparr>) qs = qs" for qs :: "packed_sequence list"
    by (rule map_idI) simp
  from loop [unfolded packed_fold_Ok_iff [OF guards(2)]] guards(1) ok show ?thesis
    unfolding same packed_new_def using loop
    by (auto simp: plan_of_def f32_layout_ok_def split: if_splits)
qed

lemma plan_of_simps:
  assumes "plan_of p lengths offsets"
  shows "pp_sequence_count p = length lengths"
    and "pp_total_tokens p = sum_list lengths"
    and "i < length lengths \<Longrightarrow> pp_packed_range p i = Some (starts_of lengths i, starts_of lengths (Suc i))"
    and "length lengths \<le> i \<Longrightarrow> pp_packed_range p i = None"
proof -
  show "pp_packed_range p i = Some (starts_of lengths i, starts_of lengths (Suc i))" if i: "i < length lengths"
  proof -
    have next_start: "starts_of lengths i + lengths ! i = starts_of lengths (Suc i)"
      using i by (simp add: starts_of_def take_Suc_conv_app_nth)
    have "starts_of lengths (Suc i) \<le> sum_list lengths"
      using sum_list_append [of "take (Suc i) lengths" "drop (Suc i) lengths"] by (simp add: starts_of_def)
    then have "starts_of lengths (Suc i) < 2 ^ 64" using assms by (simp add: plan_of_def)
    then show ?thesis
      using assms i next_start
      by (simp add: plan_of_def pp_packed_range_def pp_packed_start_def pp_sequence_length_def get_scalar_def
          plan_sequences_def usize_add_def)
  qed
qed (use assms in \<open>auto simp: plan_of_def pp_sequence_count_def plan_sequences_def pp_packed_range_def
    pp_packed_start_def get_scalar_def\<close>)

lemma starts_of_simps [simp]: "starts_of lengths 0 = 0" "length lengths \<le> n \<Longrightarrow> starts_of lengths n = sum_list lengths"
  by (simp_all add: starts_of_def)

lemma starts_of_Suc: "i < length lengths \<Longrightarrow> starts_of lengths (Suc i) = starts_of lengths i + lengths ! i"
  by (simp add: starts_of_def take_Suc_conv_app_nth)

lemma starts_of_le: "starts_of lengths i \<le> sum_list lengths"
  using sum_list_append [of "take i lengths" "drop i lengths"] by (simp add: starts_of_def)

lemma starts_of_mono: "i \<le> j \<Longrightarrow> starts_of lengths i \<le> starts_of lengths j"
proof -
  assume "i \<le> j"
  then have "take i lengths @ take (j - i) (drop i lengths) = take j lengths"
    by (metis le_add_diff_inverse take_add)
  then show ?thesis unfolding starts_of_def by (metis le_add1 sum_list_append)
qed

text \<open>The ranges of the sequences, one after the other, are the packed rows.\<close>

lemma ranges_partition: "concat (map (\<lambda>i. [starts_of lengths i..<starts_of lengths (Suc i)]) [0..<length lengths]) =
    [0..<sum_list lengths]"
proof -
  have "concat (map (\<lambda>i. [starts_of lengths i..<starts_of lengths (Suc i)]) [0..<n]) = [0..<starts_of lengths n]"
    if "n \<le> length lengths" for n
    using that
  proof (induction n)
    case (Suc n)
    then show ?case
      using starts_of_mono [of n "Suc n" lengths]
      by simp (metis le_add_diff_inverse upt_add_eq_append zero_le)
  qed simp
  from this [OF order_refl] show ?thesis by simp
qed

text \<open>Consecutive pieces of a buffer.\<close>

lemma get_range_concat:
  assumes "map length xss = lens" and "i < length lens"
  shows "get_range (concat xss) (starts_of lens i) (starts_of lens (Suc i)) = Some (xss ! i)"
proof -
  have i: "i < length xss" using assms by auto
  have split: "concat xss = concat (take i xss) @ xss ! i @ concat (drop (Suc i) xss)"
    using id_take_nth_drop [OF i] by (metis concat.simps(2) concat_append)
  have before: "starts_of lens i = length (concat (take i xss))"
    using assms(1) by (auto simp: starts_of_def length_concat take_map)
  have after: "starts_of lens (Suc i) = starts_of lens i + length (xss ! i)"
    using assms i by (auto simp: starts_of_Suc)
  show ?thesis by (simp add: get_range_def after) (simp add: split before)
qed

lemma starts_of_scale: "starts_of (map (\<lambda>n. n * c) lens) i = starts_of lens i * c"
  by (simp add: starts_of_def take_map sum_list_mult_const)

lemma starts_of_replicate: "i \<le> n \<Longrightarrow> starts_of (replicate n k) i = i * k"
  by (simp add: starts_of_def sum_list_replicate)

lemma try_fold_product:
  "try_fold (\<lambda>x. try_fold (f x) ys) xs s = try_fold (\<lambda>(x, y). f x y) (List.product xs ys) s"
proof (induction xs arbitrary: s)
  case (Cons x xs)
  have "try_fold (\<lambda>x. try_fold (f x) ys) xs = try_fold (\<lambda>(x, y). f x y) (List.product xs ys)"
    by (rule ext) (rule Cons)
  then show ?case by (simp add: try_fold_append try_fold_map comp_def)
qed simp

text \<open>A loop that appends to two destinations.\<close>

lemma try_fold_extend_pair:
  "try_fold (\<lambda>x d. and_then (f x) (\<lambda>(a, b). Ok (fst d @ a, snd d @ b))) xs (p, q) =
    and_then (try_map f xs) (\<lambda>rs. Ok (p @ concat (map fst rs), q @ concat (map snd rs)))"
proof (induction xs arbitrary: p q)
  case (Cons x xs)
  then show ?case by (cases "f x"; cases "try_map f xs") (auto split: prod.splits)
qed simp

subsection \<open>Rows seen by column\<close>

text \<open>
  Loops that go over the rows of a matrix and, within a row, update one accumulator per column, seen column
  by column: the reference kernels run row by row, their meaning is a fold for each column.
\<close>

text \<open>A fold whose every accumulator must be finite, with the terms it adds.\<close>

fun fold_finite :: "('x \<Rightarrow> f32 \<Rightarrow> f32 option) \<Rightarrow> 'x list \<Rightarrow> f32 \<Rightarrow> f32 option" where
  "fold_finite f [] acc = Some acc"
| "fold_finite f (x # xs) acc =
     (case f x acc of None \<Rightarrow> None | Some y \<Rightarrow> if f32_is_finite y then fold_finite f xs y else None)"

lemma try_fold_finite:
  assumes "\<And>x acc y. x \<in> set xs \<Longrightarrow> g x acc = Ok y \<longleftrightarrow> f x acc = Some y \<and> f32_is_finite y"
  shows "try_fold g xs acc = Ok y \<longleftrightarrow> fold_finite f xs acc = Some y"
  using assms by (induction xs arbitrary: acc) (auto split: option.splits)

text \<open>All the values of a list, or none.\<close>

fun all_of :: "'a option list \<Rightarrow> 'a list option" where
  "all_of [] = Some []"
| "all_of (x # xs) =
     (case x of None \<Rightarrow> None | Some y \<Rightarrow> (case all_of xs of None \<Rightarrow> None | Some ys \<Rightarrow> Some (y # ys)))"

lemma all_of_Some [simp]: "all_of (map Some ys) = Some ys"
  by (induction ys) auto

lemma all_of_Some_iff: "all_of xs = Some ys \<longleftrightarrow> xs = map Some ys"
proof
  show "all_of xs = Some ys \<Longrightarrow> xs = map Some ys"
    by (induction xs arbitrary: ys) (auto split: option.splits)
qed simp

lemma all_of_map_iff: "all_of (map f xs) = Some ys \<longleftrightarrow> list_all2 (\<lambda>x y. f x = Some y) xs ys"
  unfolding all_of_Some_iff by (simp add: list_all2_eq list_all2_map1 list_all2_map2)

lemma try_map_all_of:
  assumes "\<And>x y. x \<in> set xs \<Longrightarrow> g x = Ok y \<longleftrightarrow> f x = Some y"
  shows "try_map g xs = Ok ys \<longleftrightarrow> all_of (map f xs) = Some ys"
  unfolding try_map_Ok_iff all_of_map_iff by (intro list.rel_cong refl) (simp add: assms)

lemma list_all2_through:
  "list_all2 (\<lambda>x z. \<exists>y. P x y \<and> Q y z) xs zs \<longleftrightarrow> (\<exists>ys. list_all2 P xs ys \<and> list_all2 Q ys zs)"
  using list.rel_compp [of P Q] by (auto simp: OO_def fun_eq_iff)

text \<open>One row updates all columns.\<close>

lemma try_map_columns:
  "try_map f (enumerate 0 acc) = Ok acc' \<longleftrightarrow>
     length acc' = length acc \<and> (\<forall>c < length acc. f (c, acc ! c) = Ok (acc' ! c))"
  unfolding try_map_Ok_iff by (auto simp: list_all2_conv_all_nth nth_enumerate_eq)

text \<open>Row by row is column by column.\<close>

lemma try_fold_columns:
  assumes "\<And>t acc acc'. t \<in> set ts \<Longrightarrow> length acc = w \<Longrightarrow> step t acc = Ok acc' \<longleftrightarrow>
      length acc' = w \<and> (\<forall>c < w. f t c (acc ! c) = Ok (acc' ! c))"
    and "length acc = w"
  shows "try_fold step ts acc = Ok out \<longleftrightarrow> length out = w \<and> (\<forall>c < w. try_fold (\<lambda>t. f t c) ts (acc ! c) = Ok (out ! c))"
  using assms
proof (induction ts arbitrary: acc)
  case Nil
  then show ?case by (auto intro: nth_equalityI)
next
  case (Cons t ts)
  have step: "step t acc = Ok acc' \<longleftrightarrow> length acc' = w \<and> (\<forall>c < w. f t c (acc ! c) = Ok (acc' ! c))" for acc'
    using Cons.prems by simp
  have IH: "try_fold step ts acc' = Ok out \<longleftrightarrow> length out = w \<and> (\<forall>c < w. try_fold (\<lambda>t. f t c) ts (acc' ! c) = Ok (out ! c))"
    if "length acc' = w" for acc'
    using Cons.prems(1) that by (intro Cons.IH) auto
  show ?case
  proof
    assume "try_fold step (t # ts) acc = Ok out"
    then show "length out = w \<and> (\<forall>c < w. try_fold (\<lambda>t. f t c) (t # ts) (acc ! c) = Ok (out ! c))"
      using step IH by auto
  next
    assume r: "length out = w \<and> (\<forall>c < w. try_fold (\<lambda>t. f t c) (t # ts) (acc ! c) = Ok (out ! c))"
    then have "\<forall>c < w. \<exists>y. f t c (acc ! c) = Ok y \<and> try_fold (\<lambda>t. f t c) ts y = Ok (out ! c)"
      by auto
    then obtain y where y: "\<forall>c < w. f t c (acc ! c) = Ok (y c) \<and> try_fold (\<lambda>t. f t c) ts (y c) = Ok (out ! c)"
      by metis
    let ?acc = "map y [0..<w]"
    have "step t acc = Ok ?acc" using y step by simp
    moreover have "try_fold step ts ?acc = Ok out" using y r by (subst IH) simp_all
    ultimately show "try_fold step (t # ts) acc = Ok out" by simp
  qed
qed

text \<open>The columns of a row updated in place, one index after the other.\<close>

lemma try_fold_in_place:
  assumes "length rest = length xs"
    and "\<And>c x buf. step (c, x) buf = (if c < length buf then and_then (g c x (buf ! c)) (\<lambda>y. Ok (buf[c := y])) else Panic)"
  shows "try_fold step (enumerate (length finished) xs) (finished @ rest) = Ok buf \<longleftrightarrow>
    (\<exists>ys. buf = finished @ ys \<and> length ys = length xs \<and>
      (\<forall>i < length xs. g (length finished + i) (xs ! i) (rest ! i) = Ok (ys ! i)))"
  using assms(1)
proof (induction xs arbitrary: finished rest)
  case (Cons x xs)
  then obtain r rest' where rest: "rest = r # rest'" "length rest' = length xs" by (cases rest) auto
  have run: "try_fold step (enumerate (Suc (length finished)) xs) (finished @ y # rest') = Ok buf \<longleftrightarrow>
      (\<exists>ys. buf = finished @ y # ys \<and> length ys = length xs \<and>
        (\<forall>i < length xs. g (Suc (length finished) + i) (xs ! i) (rest' ! i) = Ok (ys ! i)))" for y
    using Cons.IH [OF rest(2), of "finished @ [y]"] by simp
  have "try_fold step (enumerate (length finished) (x # xs)) (finished @ rest) = Ok buf \<longleftrightarrow>
      (\<exists>y. g (length finished) x r = Ok y \<and>
        try_fold step (enumerate (Suc (length finished)) xs) (finished @ y # rest') = Ok buf)"
    by (auto simp: assms(2) rest list_update_append)
  also have "\<dots> \<longleftrightarrow> (\<exists>ys. buf = finished @ ys \<and> length ys = length (x # xs) \<and>
      (\<forall>i < length (x # xs). g (length finished + i) ((x # xs) ! i) (rest ! i) = Ok (ys ! i)))"
    unfolding run
  proof (intro iffI; elim exE conjE)
    fix y ys
    assume "g (length finished) x r = Ok y" "buf = finished @ y # ys" "length ys = length xs"
      "\<forall>i < length xs. g (Suc (length finished) + i) (xs ! i) (rest' ! i) = Ok (ys ! i)"
    then show "\<exists>ys. buf = finished @ ys \<and> length ys = length (x # xs) \<and>
        (\<forall>i < length (x # xs). g (length finished + i) ((x # xs) ! i) (rest ! i) = Ok (ys ! i))"
      by (intro exI [of _ "y # ys"]) (auto simp: rest less_Suc_eq_0_disj)
  next
    fix ys
    assume "buf = finished @ ys" "length ys = length (x # xs)"
      and all: "\<forall>i < length (x # xs). g (length finished + i) ((x # xs) ! i) (rest ! i) = Ok (ys ! i)"
    then obtain y zs where ys: "ys = y # zs" "length zs = length xs" by (cases ys) auto
    then show "\<exists>y. g (length finished) x r = Ok y \<and> (\<exists>ys. buf = finished @ y # ys \<and> length ys = length xs \<and>
        (\<forall>i < length xs. g (Suc (length finished) + i) (xs ! i) (rest' ! i) = Ok (ys ! i)))"
      using \<open>buf = finished @ ys\<close> all [rule_format, of 0] all [rule_format, of "Suc _"]
      by (intro exI [of _ y] exI [of _ zs] conjI) (auto simp: rest)
  qed
  finally show ?case .
qed auto

subsection \<open>Concrete evaluations\<close>

text \<open>For the witnesses of the kernels: an arithmetic on the bits of small numbers, and a plan of two sequences.\<close>

definition kernel_sample_ops :: f32_ops where
  "kernel_sample_ops = \<lparr>f_add = (+), f_sub = (-), f_mul = (\<lambda>a b. if b = 0x3F800000 then a else a * b),
     f_div = (\<lambda>a b. a), f_max = (\<lambda>a b. if a = 0xFF800000 then b else max a b),
     f_exp = (\<lambda>x. x + 1), f_sqrt = (\<lambda>x. x), f_of_usize = of_nat\<rparr>"

lemmas kernel_eval = Let_def upt_rec f32_is_finite_def f32_magnitude_def get_range_def get_scalar_def f32_layout_ok_def
  usize_add_def usize_sub_def usize_mul_def

lemmas packed_eval = kernel_eval packed_new_def packed_push_def pp_sequence_count_def pp_sequence_length_def
  pp_packed_start_def pp_packed_range_def

definition packed_sample_plan :: packed_plan where
  "packed_sample_plan = \<lparr>pp_sequences = [\<lparr>ps_length = 1, ps_committed_offset = 0, ps_start = 0\<rparr>,
     \<lparr>ps_length = 2, ps_committed_offset = 4, ps_start = 1\<rparr>], pp_total_tokens = 3, pp_max_context = 8\<rparr>"

lemma packed_sample_built: "packed_new (\<lambda>role n. True) [1, 2] [0, 4] 8 = Ok packed_sample_plan"
  by (simp add: packed_eval packed_sample_plan_def)

end
