(* ===== verification/Kernel_Conv.thy ===== *)
theory Kernel_Conv
  imports Kernel_Packed
begin

text \<open>
  The causal convolution reference (src/crates/kernels/src/causal_conv/mod.rs), as written: the admission of
  its inputs, the evaluation of one sequence and of packed sequences. Every index is computed with
  checked arithmetic and every element is read through a bounds check, as in the source.
\<close>

datatype conv_error =
    ConvZeroDimension string
  | ConvDimensionOverflow string
  | ConvLengthMismatch string usize usize
  | ConvNonFiniteInput string usize
  | ConvNonFiniteArithmetic string usize
  | ConvAllocation string usize

type_synonym 'a conv = "('a, conv_error) result"

definition conv_product :: "usize \<Rightarrow> usize \<Rightarrow> string \<Rightarrow> usize conv" where
  "conv_product a b dims = ok_or (ConvDimensionOverflow dims) (usize_mul a b)"

definition conv_add :: "usize \<Rightarrow> usize \<Rightarrow> string \<Rightarrow> usize conv" where
  "conv_add a b dims = ok_or (ConvDimensionOverflow dims) (usize_add a b)"

definition conv_subtract :: "usize \<Rightarrow> usize \<Rightarrow> string \<Rightarrow> usize conv" where
  "conv_subtract a b dims = ok_or (ConvDimensionOverflow dims) (usize_sub a b)"

definition conv_nonzero :: "string \<Rightarrow> usize \<Rightarrow> unit conv" where
  "conv_nonzero dim v = require (v \<noteq> 0) (ConvZeroDimension dim)"

definition conv_length :: "string \<Rightarrow> usize \<Rightarrow> usize \<Rightarrow> unit conv" where
  "conv_length name actual expected = require (actual = expected) (ConvLengthMismatch name expected actual)"

definition conv_scalars :: "string \<Rightarrow> f32 list \<Rightarrow> unit conv" where
  "conv_scalars name xs =
     (case first_nonfinite 0 xs of None \<Rightarrow> Ok () | Some i \<Rightarrow> Err (ConvNonFiniteInput name i))"

definition conv_read :: "f32 list \<Rightarrow> usize \<Rightarrow> string \<Rightarrow> usize \<Rightarrow> f32 conv" where
  "conv_read xs i name expected = ok_or (ConvLengthMismatch name expected (length xs)) (get_scalar xs i)"

definition conv_finite :: "f32 \<Rightarrow> string \<Rightarrow> usize \<Rightarrow> unit conv" where
  "conv_finite x stage i = require (f32_is_finite x) (ConvNonFiniteArithmetic stage i)"

definition conv_reserve :: "allocator \<Rightarrow> string \<Rightarrow> usize \<Rightarrow> f32 list conv" where
  "conv_reserve heap role n = (if heap role n then Ok [] else Err (ConvAllocation role n))"

subsection \<open>Admission\<close>

record conv_plan =
  cp_token_count :: usize
  cp_channel_count :: usize
  cp_width :: usize
  cp_output :: usize
  cp_weights :: usize
  cp_history :: usize

definition conv_plan_new :: "usize \<Rightarrow> usize \<Rightarrow> usize \<Rightarrow> conv_plan conv" where
  "conv_plan_new token_count channel_count width =
     and_then (conv_nonzero ''channel_count'' channel_count) (\<lambda>_.
     and_then (conv_nonzero ''width'' width) (\<lambda>_.
     and_then (conv_subtract width 1 ''width - 1'') (\<lambda>history_width.
     and_then (conv_product token_count channel_count ''token_count * channel_count'') (\<lambda>out.
     and_then (conv_product channel_count width ''channel_count * width'') (\<lambda>weights.
     and_then (conv_product channel_count history_width ''channel_count * (width - 1)'') (\<lambda>history.
     Ok \<lparr>cp_token_count = token_count, cp_channel_count = channel_count, cp_width = width,
         cp_output = out, cp_weights = weights, cp_history = history\<rparr>))))))"

record conv_input =
  ci_input :: "f32 list"
  ci_weights :: "f32 list"
  ci_history :: "f32 list"
  ci_plan :: conv_plan

definition conv_input_new ::
  "f32 list \<Rightarrow> f32 list \<Rightarrow> f32 list \<Rightarrow> usize \<Rightarrow> usize \<Rightarrow> usize \<Rightarrow> conv_input conv" where
  "conv_input_new xs weights history token_count channel_count width =
     and_then (conv_plan_new token_count channel_count width) (\<lambda>plan.
     and_then (conv_length ''input'' (length xs) (cp_output plan)) (\<lambda>_.
     and_then (conv_length ''weights'' (length weights) (cp_weights plan)) (\<lambda>_.
     and_then (conv_length ''history'' (length history) (cp_history plan)) (\<lambda>_.
     and_then (conv_scalars ''input'' xs) (\<lambda>_.
     and_then (conv_scalars ''weights'' weights) (\<lambda>_.
     and_then (conv_scalars ''history'' history) (\<lambda>_.
     Ok \<lparr>ci_input = xs, ci_weights = weights, ci_history = history, ci_plan = plan\<rparr>)))))))"

definition conv_history_width :: "conv_input \<Rightarrow> usize conv" where
  "conv_history_width inp = conv_subtract (cp_width (ci_plan inp)) 1 ''width - 1''"

definition conv_window_sample :: "conv_input \<Rightarrow> usize \<Rightarrow> usize \<Rightarrow> f32 conv" where
  "conv_window_sample inp channel position =
     and_then (conv_history_width inp) (\<lambda>history_width.
     if position < history_width then
       and_then (conv_product channel history_width ''channel index * history width'') (\<lambda>start.
       and_then (conv_add start position ''history index'') (\<lambda>i.
       conv_read (ci_history inp) i ''history'' (length (ci_history inp))))
     else
       and_then (conv_subtract position history_width ''window position - history width'') (\<lambda>token.
       and_then (conv_product token (cp_channel_count (ci_plan inp)) ''token index * channel count'') (\<lambda>start.
       and_then (conv_add start channel ''input index'') (\<lambda>i.
       conv_read (ci_input inp) i ''input'' (length (ci_input inp))))))"

definition conv_weight :: "conv_input \<Rightarrow> usize \<Rightarrow> usize \<Rightarrow> f32 conv" where
  "conv_weight inp channel tap =
     and_then (conv_product channel (cp_width (ci_plan inp)) ''channel index * width'') (\<lambda>start.
     and_then (conv_add start tap ''weight index'') (\<lambda>i.
     conv_read (ci_weights inp) i ''weights'' (length (ci_weights inp))))"

subsection \<open>Evaluation\<close>

definition conv_tap :: "f32_ops \<Rightarrow> conv_input \<Rightarrow> usize \<Rightarrow> usize \<Rightarrow> usize \<Rightarrow> usize \<Rightarrow> f32 \<Rightarrow> f32 conv" where
  "conv_tap ops inp token channel output_index tap acc =
     and_then (conv_add token tap ''token index + tap index'') (\<lambda>position.
     and_then (conv_window_sample inp channel position) (\<lambda>sample.
     and_then (conv_weight inp channel tap) (\<lambda>weight.
     let product = f_mul ops sample weight in
     and_then (conv_finite product ''tap product'' output_index) (\<lambda>_.
     let acc = f_add ops acc product in
     and_then (conv_finite acc ''output accumulation'' output_index) (\<lambda>_. Ok acc)))))"

definition conv_cell :: "f32_ops \<Rightarrow> conv_input \<Rightarrow> usize \<Rightarrow> usize \<Rightarrow> f32 conv" where
  "conv_cell ops inp token channel =
     and_then (conv_product token (cp_channel_count (ci_plan inp)) ''token index * channel count'') (\<lambda>start.
     and_then (conv_add start channel ''output index'') (\<lambda>output_index.
     try_fold (conv_tap ops inp token channel output_index) [0..<cp_width (ci_plan inp)] 0))"

text \<open>
  The destinations are given by mutable reference; on an error the callers drop them, so only a success
  returns them.
\<close>

definition append_conv ::
  "f32_ops \<Rightarrow> conv_input \<Rightarrow> usize \<Rightarrow> f32 list \<Rightarrow> f32 list \<Rightarrow> (f32 list \<times> f32 list) conv" where
  "append_conv ops inp history_width out final_history =
     and_then (try_fold (\<lambda>token. try_fold (\<lambda>channel out.
         and_then (conv_cell ops inp token channel) (\<lambda>v. Ok (out @ [v])))
       [0..<cp_channel_count (ci_plan inp)]) [0..<cp_token_count (ci_plan inp)] out) (\<lambda>out.
     and_then (try_fold (\<lambda>channel. try_fold (\<lambda>i history.
         and_then (conv_add (cp_token_count (ci_plan inp)) i ''token count + history index'') (\<lambda>position.
         and_then (conv_window_sample inp channel position) (\<lambda>v. Ok (history @ [v]))))
       [0..<history_width]) [0..<cp_channel_count (ci_plan inp)] final_history) (\<lambda>final_history.
     Ok (out, final_history)))"

definition causal_conv_fwd :: "allocator \<Rightarrow> f32_ops \<Rightarrow> conv_input \<Rightarrow> (f32 list \<times> f32 list) conv" where
  "causal_conv_fwd heap ops inp =
     and_then (conv_history_width inp) (\<lambda>history_width.
     and_then (conv_reserve heap ''output'' (cp_output (ci_plan inp))) (\<lambda>out.
     and_then (conv_reserve heap ''final history'' (cp_history (ci_plan inp))) (\<lambda>final_history.
     append_conv ops inp history_width out final_history)))"

subsection \<open>Packed sequences\<close>

record packed_conv_input =
  pc_input :: "f32 list"
  pc_weights :: "f32 list"
  pc_histories :: "f32 list"
  pc_packed :: packed_plan
  pc_channel_count :: usize
  pc_width :: usize

definition packed_conv_input_new ::
  "f32 list \<Rightarrow> f32 list \<Rightarrow> f32 list \<Rightarrow> packed_plan \<Rightarrow> usize \<Rightarrow> usize \<Rightarrow> packed_conv_input conv" where
  "packed_conv_input_new xs weights histories packed channel_count width =
     and_then (conv_product (pp_total_tokens packed) channel_count ''packed token count * channel count'') (\<lambda>all.
     and_then (conv_plan_new 0 channel_count width) (\<lambda>one.
     and_then (conv_product (pp_sequence_count packed) (cp_history one)
       ''packed sequence count * history elements'') (\<lambda>history.
     and_then (conv_length ''packed input'' (length xs) all) (\<lambda>_.
     and_then (conv_length ''weights'' (length weights) (cp_weights one)) (\<lambda>_.
     and_then (conv_length ''packed histories'' (length histories) history) (\<lambda>_.
     and_then (conv_scalars ''packed input'' xs) (\<lambda>_.
     and_then (conv_scalars ''weights'' weights) (\<lambda>_.
     and_then (conv_scalars ''packed histories'' histories) (\<lambda>_.
     Ok \<lparr>pc_input = xs, pc_weights = weights, pc_histories = histories, pc_packed = packed,
         pc_channel_count = channel_count, pc_width = width\<rparr>)))))))))"

definition conv_packed_range :: "packed_plan \<Rightarrow> usize \<Rightarrow> (usize \<times> usize) conv" where
  "conv_packed_range packed i =
     ok_or (ConvLengthMismatch ''packed sequence'' (i + 1) (pp_sequence_count packed)) (pp_packed_range packed i)"

definition packed_conv_sequence ::
  "f32_ops \<Rightarrow> packed_conv_input \<Rightarrow> usize \<Rightarrow> usize \<Rightarrow> f32 list \<times> f32 list \<Rightarrow> (f32 list \<times> f32 list) conv" where
  "packed_conv_sequence ops inp history_elements i dest =
     and_then (conv_packed_range (pc_packed inp) i) (\<lambda>(first, last).
     and_then (conv_product first (pc_channel_count inp) ''packed input start'') (\<lambda>input_start.
     and_then (conv_product last (pc_channel_count inp) ''packed input end'') (\<lambda>input_end.
     and_then (conv_product i history_elements ''packed history start'') (\<lambda>history_start.
     and_then (conv_add history_start history_elements ''packed history end'') (\<lambda>history_end.
     and_then (ok_or (ConvLengthMismatch ''packed input'' input_end (length (pc_input inp)))
       (get_range (pc_input inp) input_start input_end)) (\<lambda>xs.
     and_then (ok_or (ConvLengthMismatch ''packed histories'' history_end (length (pc_histories inp)))
       (get_range (pc_histories inp) history_start history_end)) (\<lambda>history.
     and_then (conv_input_new xs (pc_weights inp) history (last - first) (pc_channel_count inp) (pc_width inp))
       (\<lambda>sequence_input.
     and_then (conv_history_width sequence_input) (\<lambda>history_width.
     append_conv ops sequence_input history_width (fst dest) (snd dest))))))))))"

definition packed_causal_conv_fwd ::
  "allocator \<Rightarrow> f32_ops \<Rightarrow> packed_conv_input \<Rightarrow> (f32 list \<times> f32 list) conv" where
  "packed_causal_conv_fwd heap ops inp =
     and_then (conv_plan_new 0 (pc_channel_count inp) (pc_width inp)) (\<lambda>one.
     and_then (conv_product (pp_total_tokens (pc_packed inp)) (pc_channel_count inp)
       ''packed output elements'') (\<lambda>output_elements.
     and_then (conv_product (pp_sequence_count (pc_packed inp)) (cp_history one)
       ''packed final histories'') (\<lambda>histories_elements.
     and_then (conv_reserve heap ''packed output'' output_elements) (\<lambda>out.
     and_then (conv_reserve heap ''packed final histories'' histories_elements) (\<lambda>histories.
     try_fold (packed_conv_sequence ops inp (cp_history one)) [0..<pp_sequence_count (pc_packed inp)]
       (out, histories))))))"

subsection \<open>What an evaluation computes\<close>

text \<open>
  The samples of a channel, oldest first: the history, then the inputs. A cell of the output folds the
  taps over the window that ends at its token; it has no value when a product or a sum is not finite.
\<close>

definition channel_sample :: "conv_input \<Rightarrow> nat \<Rightarrow> nat \<Rightarrow> f32" where
  "channel_sample inp c j =
     (let w = cp_width (ci_plan inp) - 1 in
      if j < w then ci_history inp ! (c * w + j)
      else ci_input inp ! ((j - w) * cp_channel_count (ci_plan inp) + c))"

fun fold_taps :: "f32_ops \<Rightarrow> (f32 \<times> f32) list \<Rightarrow> f32 \<Rightarrow> f32 option" where
  "fold_taps ops [] acc = Some acc"
| "fold_taps ops ((sample, weight) # taps) acc =
     (let product = f_mul ops sample weight in
      if f32_is_finite product \<and> f32_is_finite (f_add ops acc product)
      then fold_taps ops taps (f_add ops acc product) else None)"

definition cell_value :: "f32_ops \<Rightarrow> conv_input \<Rightarrow> nat \<Rightarrow> nat \<Rightarrow> f32 option" where
  "cell_value ops inp token c =
     fold_taps ops (map (\<lambda>tap. (channel_sample inp c (token + tap),
         ci_weights inp ! (c * cp_width (ci_plan inp) + tap))) [0..<cp_width (ci_plan inp)]) 0"

text \<open>What \<open>conv_input_new\<close> has checked.\<close>

definition conv_admitted :: "conv_input \<Rightarrow> usize \<Rightarrow> usize \<Rightarrow> usize \<Rightarrow> bool" where
  "conv_admitted inp t c w \<longleftrightarrow>
     0 < c \<and> 0 < w \<and> t * c < 2 ^ 64 \<and> c * w < 2 ^ 64 \<and> c * (w - 1) < 2 ^ 64 \<and>
     ci_plan inp = \<lparr>cp_token_count = t, cp_channel_count = c, cp_width = w, cp_output = t * c,
       cp_weights = c * w, cp_history = c * (w - 1)\<rparr> \<and>
     length (ci_input inp) = t * c \<and> length (ci_weights inp) = c * w \<and> length (ci_history inp) = c * (w - 1) \<and>
     list_all f32_is_finite (ci_input inp) \<and> list_all f32_is_finite (ci_weights inp) \<and>
     list_all f32_is_finite (ci_history inp)"

lemma conv_scalars_Ok_iff [simp]: "conv_scalars name xs = Ok u \<longleftrightarrow> list_all f32_is_finite xs"
  by (auto simp: conv_scalars_def first_nonfinite_None [of 0, symmetric] split: option.splits)

lemmas conv_checks = conv_product_def conv_add_def conv_subtract_def conv_nonzero_def conv_length_def
  conv_finite_def usize_mul_Some_iff usize_add_Some_iff usize_sub_Some_iff

lemma conv_plan_new_Ok_iff:
  "conv_plan_new t c w = Ok plan \<longleftrightarrow>
     0 < c \<and> 0 < w \<and> t * c < 2 ^ 64 \<and> c * w < 2 ^ 64 \<and> c * (w - 1) < 2 ^ 64 \<and>
     plan = \<lparr>cp_token_count = t, cp_channel_count = c, cp_width = w, cp_output = t * c,
       cp_weights = c * w, cp_history = c * (w - 1)\<rparr>"
  by (auto simp: conv_plan_new_def conv_checks)

lemma conv_input_new_Ok_iff:
  "conv_input_new xs weights history t c w = Ok inp \<longleftrightarrow>
     conv_admitted inp t c w \<and> ci_input inp = xs \<and> ci_weights inp = weights \<and> ci_history inp = history"
  by (cases inp) (auto simp: conv_input_new_def conv_plan_new_Ok_iff conv_admitted_def conv_length_def)

end
