(* ===== verification/Kernel_Conv_Properties.thy ===== *)
theory Kernel_Conv_Properties
  imports Kernel_Conv
begin

text \<open>
  What the convolution computes: each output is the fold of its taps over the samples of its channel, and
  the final history is the last samples of each channel. From this follow the two facts a decoder relies
  on: a sequence may be evaluated in chunks, and packed sequences do not see one another.
\<close>

text \<open>A slice of \<open>f32\<close> occupies at most \<open>isize::MAX\<close> bytes.\<close>

abbreviation slice_ok :: "f32 list \<Rightarrow> bool" where
  "slice_ok xs \<equiv> f32_layout_ok (length xs)"

lemma admitted_sizes:
  assumes "conv_admitted inp t c w" and "slice_ok (ci_input inp)" and "slice_ok (ci_weights inp)"
  shows "t + w < 2 ^ 64" and "0 < c" and "0 < w"
proof -
  have "0 < c" and lengths: "length (ci_input inp) = t * c" "length (ci_weights inp) = c * w"
    using assms(1) by (auto simp: conv_admitted_def)
  have sizes: "length (ci_input inp) < 2305843009213693952" "length (ci_weights inp) < 2305843009213693952"
    using assms(2,3) by (auto simp: f32_layout_ok_def)
  have "t \<le> t * c" "w \<le> c * w" using \<open>0 < c\<close> by auto
  with sizes lengths have "t + w < 18446744073709551616" by linarith
  then show "t + w < 2 ^ 64" by simp
qed (use assms(1) in \<open>auto simp: conv_admitted_def\<close>)

lemma window_sample_value:
  assumes "conv_admitted inp t c w" and "i < c" and "j < w - 1 + t"
  shows "conv_window_sample inp i j = Ok (channel_sample inp i j)"
proof (cases "j < w - 1")
  case True
  then have "i * (w - 1) + j < c * (w - 1)" using assms(2) by (intro mult_index_less)
  moreover have "c * (w - 1) < 2 ^ 64" "0 < w" using assms(1) by (auto simp: conv_admitted_def)
  ultimately show ?thesis
    using assms(1) True
    by (auto simp: conv_window_sample_def conv_history_width_def conv_admitted_def conv_product_def conv_add_def
        conv_subtract_def conv_read_def get_scalar_def usize_mul_def usize_add_def usize_sub_def channel_sample_def)
next
  case False
  let ?k = "j - (w - 1)"
  have "?k * c + i < t * c" using assms(2,3) False by (intro mult_index_less) auto
  moreover have "t * c < 2 ^ 64" "0 < w" using assms(1) by (auto simp: conv_admitted_def)
  ultimately show ?thesis
    using assms(1) False
    by (auto simp: conv_window_sample_def conv_history_width_def conv_admitted_def conv_product_def conv_add_def
        conv_subtract_def conv_read_def get_scalar_def usize_mul_def usize_add_def usize_sub_def channel_sample_def)
qed

lemma weight_value:
  assumes "conv_admitted inp t c w" and "i < c" and "tap < w"
  shows "conv_weight inp i tap = Ok (ci_weights inp ! (i * w + tap))"
proof -
  have "i * w + tap < c * w" using assms(2,3) by (rule mult_index_less)
  then show ?thesis using assms(1)
    by (simp add: conv_weight_def conv_admitted_def conv_product_def conv_add_def conv_read_def get_scalar_def
        usize_mul_def usize_add_def)
qed

lemma taps_value:
  assumes "conv_admitted inp t c w" and "t + w < 2 ^ 64" and "i < c" and "token < t" and "list_all (\<lambda>tap. tap < w) taps"
  shows "try_fold (conv_tap ops inp token i idx) taps acc = Ok v \<longleftrightarrow>
    fold_taps ops (map (\<lambda>tap. (channel_sample inp i (token + tap), ci_weights inp ! (i * w + tap))) taps) acc = Some v"
  using assms(5)
proof (induction taps arbitrary: acc)
  case (Cons tap taps)
  then have tap: "tap < w" "token + tap < 2 ^ 64" "token + tap < w - 1 + t"
    using assms(2,4) by auto
  have "conv_tap ops inp token i idx tap acc =
      (let product = f_mul ops (channel_sample inp i (token + tap)) (ci_weights inp ! (i * w + tap)) in
       and_then (conv_finite product ''tap product'' idx) (\<lambda>_.
       and_then (conv_finite (f_add ops acc product) ''output accumulation'' idx) (\<lambda>_. Ok (f_add ops acc product))))"
    using tap
    by (simp add: conv_tap_def conv_add_def usize_add_def window_sample_value [OF assms(1,3)]
        weight_value [OF assms(1,3)] Let_def)
  then show ?case using Cons by (auto simp: Let_def conv_finite_def)
qed simp

lemma cell_Ok_iff:
  assumes "conv_admitted inp t c w" and "t + w < 2 ^ 64" and "i < c" and "token < t"
  shows "conv_cell ops inp token i = Ok v \<longleftrightarrow> cell_value ops inp token i = Some v"
proof -
  have "token * c + i < t * c" using assms(3,4) by (intro mult_index_less)
  moreover have "t * c < 2 ^ 64" and plan: "cp_width (ci_plan inp) = w" "cp_channel_count (ci_plan inp) = c"
    using assms(1) by (auto simp: conv_admitted_def)
  ultimately have "conv_cell ops inp token i = try_fold (conv_tap ops inp token i (token * c + i)) [0..<w] 0"
    by (simp add: conv_cell_def conv_product_def conv_add_def usize_mul_def usize_add_def)
  then show ?thesis
    using taps_value [OF assms, of "[0..<w]" ops "token * c + i" 0 v] by (simp add: cell_value_def plan list_all_iff)
qed

subsection \<open>The result of one sequence\<close>

definition conv_result ::
  "f32_ops \<Rightarrow> conv_input \<Rightarrow> nat \<Rightarrow> nat \<Rightarrow> nat \<Rightarrow> f32 list \<times> f32 list \<Rightarrow> bool" where
  "conv_result ops inp t c w r \<longleftrightarrow>
     list_all2 (\<lambda>(token, i) v. cell_value ops inp token i = Some v) (List.product [0..<t] [0..<c]) (fst r) \<and>
     snd r = map (\<lambda>(i, j). channel_sample inp i (t + j)) (List.product [0..<c] [0..<w - 1])"

lemma try_map_product:
  "try_map (\<lambda>x. try_map (f x) ys) xs = Ok vss \<longleftrightarrow>
     list_all2 (\<lambda>x vs. list_all2 (\<lambda>y v. f x y = Ok v) ys vs) xs vss"
  by (simp add: try_map_Ok_iff)

lemma append_conv_from:
  "append_conv ops inp w out final =
     and_then (append_conv ops inp w [] []) (\<lambda>(o', h'). Ok (out @ o', final @ h'))"
proof -
  have assoc: "and_then (conv_add t i d) (\<lambda>p. and_then (g p) (\<lambda>v. Ok (s @ [v]))) =
      and_then (and_then (conv_add t i d) g) (\<lambda>v. Ok (s @ [v]))" for t i d s and g :: "nat \<Rightarrow> f32 conv"
    by (cases "conv_add t i d") auto
  have shift: "and_then (and_then A (\<lambda>v. Ok (out @ concat v))) (\<lambda>out.
        and_then (and_then B (\<lambda>v. Ok (final @ concat v))) (\<lambda>final. Ok (out, final))) =
      and_then (and_then (and_then A (\<lambda>v. Ok ([] @ concat v))) (\<lambda>out.
        and_then (and_then B (\<lambda>v. Ok ([] @ concat v))) (\<lambda>final. Ok (out, final)))) (\<lambda>(o', h'). Ok (out @ o', final @ h'))"
    for A B :: "f32 list list conv"
    by (cases A; cases B) auto
  show ?thesis
    unfolding append_conv_def assoc try_fold_nested by (rule shift)
qed

lemma append_conv_Ok_iff:
  assumes "conv_admitted inp t c w" and "t + w < 2 ^ 64"
  shows "append_conv ops inp (w - 1) [] [] = Ok r \<longleftrightarrow> conv_result ops inp t c w r"
proof -
  have plan: "cp_channel_count (ci_plan inp) = c" "cp_token_count (ci_plan inp) = t"
    using assms(1) by (auto simp: conv_admitted_def)
  have w: "0 < w" using assms(1) by (auto simp: conv_admitted_def)
  have assoc: "and_then (conv_add t i d) (\<lambda>p. and_then (g p) (\<lambda>v. Ok (s @ [v]))) =
      and_then (and_then (conv_add t i d) g) (\<lambda>v. Ok (s @ [v]))" for t i d s and g :: "nat \<Rightarrow> f32 conv"
    by (cases "conv_add t i d") auto
  have history: "try_map (\<lambda>i. try_map (\<lambda>j. and_then (conv_add t j d) (conv_window_sample inp i)) [0..<w - 1]) [0..<c] =
      Ok (map (\<lambda>i. map (\<lambda>j. channel_sample inp i (t + j)) [0..<w - 1]) [0..<c])" for d
  proof -
    have "and_then (conv_add t j d) (conv_window_sample inp i) = Ok (channel_sample inp i (t + j))"
      if "i < c" "j < w - 1" for i j
      using that assms(2) window_sample_value [OF assms(1), of i "t + j"] by (simp add: conv_add_def usize_add_def)
    then show ?thesis by (auto simp: try_map_Ok_iff list_all2_map2 list.rel_refl_strong intro!: list.rel_refl_strong)
  qed
  have cells: "try_map (\<lambda>token. try_map (conv_cell ops inp token) [0..<c]) [0..<t] = Ok vss \<longleftrightarrow>
      list_all2 (\<lambda>token vs. list_all2 (\<lambda>i v. cell_value ops inp token i = Some v) [0..<c] vs) [0..<t] vss" for vss
    unfolding try_map_product
    by (intro iffI; elim list.rel_mono_strong; (elim list.rel_mono_strong)?)
      (auto simp: cell_Ok_iff [OF assms])
  have "concat (map (\<lambda>i. map (\<lambda>j. channel_sample inp i (t + j)) [0..<w - 1]) [0..<c]) =
      map (\<lambda>(i, j). channel_sample inp i (t + j)) (List.product [0..<c] [0..<w - 1])"
    by (simp add: product_concat_map map_concat comp_def)
  then show ?thesis
    unfolding append_conv_def plan assoc try_fold_nested history conv_result_def rows_product [symmetric]
    by (cases r) (auto simp: cells)
qed

text \<open>An evaluation with memory to spare.\<close>

abbreviation plentiful :: "allocator \<Rightarrow> bool" where
  "plentiful heap \<equiv> \<forall>role n. heap role n"

lemma causal_conv_Ok_iff:
  assumes "conv_admitted inp t c w" and "slice_ok (ci_input inp)" and "slice_ok (ci_weights inp)" and "plentiful heap"
  shows "causal_conv_fwd heap ops inp = Ok r \<longleftrightarrow> conv_result ops inp t c w r"
proof -
  have "conv_history_width inp = Ok (w - 1)"
    using assms(1) by (auto simp: conv_history_width_def conv_admitted_def conv_subtract_def usize_sub_def)
  then show ?thesis
    using append_conv_Ok_iff [OF assms(1) admitted_sizes(1) [OF assms(1-3)]] assms(4)
    by (simp add: causal_conv_fwd_def conv_reserve_def)
qed

subsection \<open>Chunks\<close>

lemma channel_sample_admitted:
  "conv_admitted inp t c w \<Longrightarrow> channel_sample inp i j =
     (if j < w - 1 then ci_history inp ! (i * (w - 1) + j) else ci_input inp ! ((j - (w - 1)) * c + i))"
  by (simp add: channel_sample_def conv_admitted_def Let_def)

lemma product_split:
  "List.product [0..<a + b] ys = List.product [0..<a] ys @ map (\<lambda>(i, y). (a + i, y)) (List.product [0..<b] ys)"
proof -
  have "List.product (map (\<lambda>i. a + i) xs) ys = map (\<lambda>(i, y). (a + i, y)) (List.product xs ys)" for xs
    by (induction xs) auto
  moreover have "List.product (xs @ zs) ys = List.product xs ys @ List.product zs ys" for xs zs :: "nat list"
    by (simp add: product_concat_map)
  ultimately show ?thesis by (simp add: upt_split)
qed

text \<open>
  The samples of the two chunks are those of the whole sequence, the second chunk starting with the
  history the first one leaves.
\<close>

lemma chunk_samples:
  assumes whole: "conv_admitted whole (t1 + t2) c w" and first: "conv_admitted first t1 c w"
    and second: "conv_admitted second t2 c w" and inputs: "ci_input whole = ci_input first @ ci_input second"
    and history: "ci_history whole = ci_history first"
    and final: "ci_history second = map (\<lambda>(i, j). channel_sample first i (t1 + j)) (List.product [0..<c] [0..<w - 1])"
    and i: "i < c"
  shows "j < w - 1 + t1 \<Longrightarrow> channel_sample whole i j = channel_sample first i j"
    and "j < w - 1 + t2 \<Longrightarrow> channel_sample whole i (t1 + j) = channel_sample second i j"
proof -
  have len: "length (ci_input first) = t1 * c" using first by (simp add: conv_admitted_def)
  show early: "channel_sample whole i j = channel_sample first i j" if "j < w - 1 + t1" for j
  proof (cases "j < w - 1")
    case False
    then have "(j - (w - 1)) * c + i < t1 * c" using that i by (intro mult_index_less) auto
    then show ?thesis
      using False by (simp add: channel_sample_admitted [OF whole] channel_sample_admitted [OF first] inputs nth_append len)
  qed (simp add: channel_sample_admitted [OF whole] channel_sample_admitted [OF first] history)
  show "channel_sample whole i (t1 + j) = channel_sample second i j" if "j < w - 1 + t2"
  proof (cases "j < w - 1")
    case True
    then have "channel_sample second i j = channel_sample first i (t1 + j)"
      using i product_nth_index [of i c j "w - 1" "\<lambda>(i, j). channel_sample first i (t1 + j)"]
      by (simp add: channel_sample_admitted [OF second] final)
    then show ?thesis using early [of "t1 + j"] True by simp
  next
    case False
    let ?k = "j - (w - 1)"
    have "t1 + j - (w - 1) = t1 + ?k" using False by simp
    moreover have "(t1 + ?k) * c + i = t1 * c + (?k * c + i)" by (simp add: algebra_simps)
    ultimately show ?thesis using False
      by (simp add: channel_sample_admitted [OF whole] channel_sample_admitted [OF second] inputs nth_append len)
  qed
qed

lemma cell_value_cong:
  assumes "cp_width (ci_plan a) = w" and "cp_width (ci_plan b) = w" and "ci_weights a = ci_weights b"
    and "\<And>tap. tap < w \<Longrightarrow> channel_sample a i (t + tap) = channel_sample b i (u + tap)"
  shows "cell_value ops a t i = cell_value ops b u i"
  using assms by (auto simp: cell_value_def intro!: arg_cong [where f = "\<lambda>xs. fold_taps ops xs 0"])

lemma conv_result_chunks:
  assumes whole: "conv_admitted whole (t1 + t2) c w" and first: "conv_admitted first t1 c w"
    and second: "conv_admitted second t2 c w" and inputs: "ci_input whole = ci_input first @ ci_input second"
    and history: "ci_history whole = ci_history first"
    and weights: "ci_weights whole = ci_weights first" "ci_weights whole = ci_weights second"
    and final: "ci_history second = map (\<lambda>(i, j). channel_sample first i (t1 + j)) (List.product [0..<c] [0..<w - 1])"
  shows "conv_result ops whole (t1 + t2) c w (out, h) \<longleftrightarrow>
    (\<exists>o1 o2. conv_result ops first t1 c w (o1, ci_history second) \<and> conv_result ops second t2 c w (o2, h) \<and> out = o1 @ o2)"
proof -
  note samples = chunk_samples [OF whole first second inputs history final]
  have width: "cp_width (ci_plan whole) = w" "cp_width (ci_plan first) = w" "cp_width (ci_plan second) = w" "0 < w"
    using whole first second by (auto simp: conv_admitted_def)
  have cells1: "cell_value ops whole token i = cell_value ops first token i" if "token < t1" "i < c" for token i
    using that width by (intro cell_value_cong [of _ w]) (auto simp: weights(1) samples(1))
  have cells2: "cell_value ops whole (t1 + token) i = cell_value ops second token i" if "token < t2" "i < c" for token i
    using that width samples(2) [OF that(2)]
    by (intro cell_value_cong [of _ w]) (auto simp: weights(2) add.assoc)
  let ?P = "\<lambda>inp. \<lambda>(token, i) v. cell_value ops inp token i = Some v"
  have part1: "list_all2 (?P whole) (List.product [0..<t1] [0..<c]) o1 \<longleftrightarrow>
      list_all2 (?P first) (List.product [0..<t1] [0..<c]) o1" for o1
    by (rule list.rel_cong) (auto simp: cells1)
  have part2: "list_all2 (?P whole) (map (\<lambda>(i, y). (t1 + i, y)) (List.product [0..<t2] [0..<c])) o2 \<longleftrightarrow>
      list_all2 (?P second) (List.product [0..<t2] [0..<c]) o2" for o2
    unfolding list.rel_map by (rule list.rel_cong) (auto simp: cells2)
  have hist: "map (\<lambda>(i, j). channel_sample whole i (t1 + t2 + j)) (List.product [0..<c] [0..<w - 1]) =
      map (\<lambda>(i, j). channel_sample second i (t2 + j)) (List.product [0..<c] [0..<w - 1])"
    using samples(2) by (auto simp: add.assoc)
  have "list_all2 (?P whole) (List.product [0..<t1 + t2] [0..<c]) out \<longleftrightarrow>
      (\<exists>o1 o2. out = o1 @ o2 \<and> list_all2 (?P first) (List.product [0..<t1] [0..<c]) o1 \<and>
        list_all2 (?P second) (List.product [0..<t2] [0..<c]) o2)"
    unfolding product_split list_all2_append1 part1 part2 by (metis length_map list_all2_lengthD)
  then show ?thesis unfolding conv_result_def fst_conv snd_conv hist final by blast
qed

lemma final_history_finite:
  assumes "conv_admitted inp t c w"
  shows "list_all f32_is_finite (map (\<lambda>(i, j). channel_sample inp i (t + j)) (List.product [0..<c] [0..<w - 1]))"
proof -
  have "f32_is_finite (channel_sample inp i (t + j))" if "i < c" "j < w - 1" for i j
  proof (cases "t + j < w - 1")
    case True
    then have "i * (w - 1) + (t + j) < c * (w - 1)" using that by (intro mult_index_less)
    then show ?thesis using assms True
      by (simp add: channel_sample_admitted [OF assms]) (auto simp: conv_admitted_def list_all_length)
  next
    case False
    then have "(t + j - (w - 1)) * c + i < t * c" using that by (intro mult_index_less) auto
    then show ?thesis using assms False
      by (simp add: channel_sample_admitted [OF assms]) (auto simp: conv_admitted_def list_all_length)
  qed
  then show ?thesis by (auto simp: list_all_iff)
qed

text \<open>C26: a sequence may be convolved in chunks: with memory to spare, evaluating the whole input gives an output and a final
  history exactly when evaluating a prefix and then the rest, starting from the history the prefix left,
  gives outputs that together are that output and the same final history. Whatever f32 arithmetic does,
  every bit agrees.\<close>

theorem convolution_in_chunks:
  assumes "conv_input_new (xs @ ys) weights history (t1 + t2) c w = Ok whole" and "length xs = t1 * c"
    and "slice_ok (xs @ ys)" and "slice_ok weights" and "plentiful heap"
  shows "causal_conv_fwd heap ops whole = Ok (out, final) \<longleftrightarrow>
    (\<exists>first o1 h second o2.
      conv_input_new xs weights history t1 c w = Ok first \<and> causal_conv_fwd heap ops first = Ok (o1, h) \<and>
      conv_input_new ys weights h t2 c w = Ok second \<and> causal_conv_fwd heap ops second = Ok (o2, final) \<and>
      out = o1 @ o2)"
proof -
  have whole: "conv_admitted whole (t1 + t2) c w" "ci_input whole = xs @ ys" "ci_weights whole = weights"
      "ci_history whole = history"
    using assms(1) by (auto simp: conv_input_new_Ok_iff)
  let ?input = "\<lambda>t xs h. \<lparr>ci_input = xs, ci_weights = weights, ci_history = h, ci_plan = \<lparr>cp_token_count = t,
      cp_channel_count = c, cp_width = w, cp_output = t * c, cp_weights = c * w, cp_history = c * (w - 1)\<rparr>\<rparr>"
  define first where "first = ?input t1 xs history"
  have admitted1: "conv_admitted first t1 c w"
    using whole assms(2) by (auto simp: first_def conv_admitted_def algebra_simps)
  define h where "h = map (\<lambda>(i, j). channel_sample first i (t1 + j)) (List.product [0..<c] [0..<w - 1])"
  define second where "second = ?input t2 ys h"
  have len: "length ys = t2 * c" "t2 * c < 2 ^ 64"
    using whole(1,2) assms(2) by (auto simp: conv_admitted_def algebra_simps)
  have admitted2: "conv_admitted second t2 c w"
    using whole len final_history_finite [OF admitted1] h_def
    by (auto simp: second_def conv_admitted_def)
  have slices: "slice_ok (ci_input first)" "slice_ok (ci_input second)" "slice_ok weights"
    using assms(3,4) by (auto simp: first_def second_def f32_layout_ok_def)
  have eval: "causal_conv_fwd heap ops whole = Ok r \<longleftrightarrow> conv_result ops whole (t1 + t2) c w r"
      "causal_conv_fwd heap ops first = Ok r \<longleftrightarrow> conv_result ops first t1 c w r"
      "causal_conv_fwd heap ops second = Ok r \<longleftrightarrow> conv_result ops second t2 c w r" for r
    using causal_conv_Ok_iff [OF whole(1)] causal_conv_Ok_iff [OF admitted1] causal_conv_Ok_iff [OF admitted2]
      slices assms(3-5) whole by (simp_all add: first_def second_def)
  have unique1: "conv_input_new xs weights history t1 c w = Ok i \<longleftrightarrow> i = first" for i
    using admitted1 by (cases i) (auto simp: conv_input_new_Ok_iff first_def conv_admitted_def)
  have unique2: "conv_input_new ys weights h t2 c w = Ok i \<longleftrightarrow> i = second" for i
    using admitted2 by (cases i) (auto simp: conv_input_new_Ok_iff second_def conv_admitted_def)
  have left: "conv_result ops first t1 c w (o1, h') \<Longrightarrow> h' = h" for o1 h'
    by (simp add: conv_result_def h_def)
  have "ci_history second = h" by (simp add: second_def)
  have "causal_conv_fwd heap ops whole = Ok (out, final) \<longleftrightarrow>
      (\<exists>o1 o2. conv_result ops first t1 c w (o1, h) \<and> conv_result ops second t2 c w (o2, final) \<and> out = o1 @ o2)"
    unfolding eval
    using conv_result_chunks [OF whole(1) admitted1 admitted2, of ops out final] whole
    by (simp add: first_def second_def h_def)
  also have "\<dots> \<longleftrightarrow> (\<exists>o1 h' o2. conv_result ops first t1 c w (o1, h') \<and>
      (\<exists>i. conv_input_new ys weights h' t2 c w = Ok i \<and> causal_conv_fwd heap ops i = Ok (o2, final)) \<and> out = o1 @ o2)"
    using left by (metis unique2 eval(3))
  finally show ?thesis unfolding unique1 by (metis eval(2))
qed

subsection \<open>Packed sequences\<close>

text \<open>One packed sequence, on its own.\<close>

definition conv_alone ::
  "f32_ops \<Rightarrow> f32 list \<Rightarrow> f32 list \<Rightarrow> f32 list \<Rightarrow> nat \<Rightarrow> nat \<Rightarrow> nat \<Rightarrow> (f32 list \<times> f32 list) conv" where
  "conv_alone ops xs weights h t c w =
     and_then (conv_input_new xs weights h t c w) (\<lambda>one. append_conv ops one (w - 1) [] [])"

lemma packed_conv_input_new_Ok:
  assumes "packed_conv_input_new xs weights histories packed c w = Ok inp"
  shows "pp_total_tokens packed * c < 2 ^ 64" and "pp_sequence_count packed * (c * (w - 1)) < 2 ^ 64"
    and "length xs = pp_total_tokens packed * c" and "length histories = pp_sequence_count packed * (c * (w - 1))"
    and "conv_plan_new 0 c w = Ok \<lparr>cp_token_count = 0, cp_channel_count = c, cp_width = w, cp_output = 0,
      cp_weights = c * w, cp_history = c * (w - 1)\<rparr>"
    and "inp = \<lparr>pc_input = xs, pc_weights = weights, pc_histories = histories, pc_packed = packed,
         pc_channel_count = c, pc_width = w\<rparr>"
  using assms
  by (auto simp: packed_conv_input_new_def conv_plan_new_Ok_iff conv_length_def conv_product_def usize_mul_Some_iff)

lemma packed_conv_sequence_alone:
  assumes plan: "plan_of packed lengths offsets"
    and admitted: "packed_conv_input_new (concat xss) weights (concat hs) packed c w = Ok inp"
    and pieces: "map length xss = map (\<lambda>n. n * c) lengths" "map length hs = replicate (length lengths) (c * (w - 1))"
    and i: "i < length lengths"
  shows "packed_conv_sequence ops inp (c * (w - 1)) i dest =
    and_then (conv_alone ops (xss ! i) weights (hs ! i) (lengths ! i) c w) (\<lambda>(a, b). Ok (fst dest @ a, snd dest @ b))"
proof -
  note admitted = packed_conv_input_new_Ok [OF admitted]
  note plan = plan_of_simps [OF plan]
  let ?H = "c * (w - 1)" and ?s = "starts_of lengths"
  have "?s (Suc i) * c \<le> sum_list lengths * c" "?s i * c \<le> sum_list lengths * c"
    using starts_of_le by (auto intro: mult_le_mono1)
  then have products: "?s (Suc i) * c < 2 ^ 64" "?s i * c < 2 ^ 64"
    using admitted(1) plan(2) by (metis order.strict_trans1)+
  have "Suc i * ?H \<le> length lengths * ?H" using i by (intro mult_le_mono1) simp
  then have bound: "i * ?H + ?H < 2 ^ 64" using admitted(2) plan(1) by simp
  have xs: "get_range (concat xss) (?s i * c) (?s (Suc i) * c) = Some (xss ! i)"
    using get_range_concat [OF pieces(1), of i] i by (simp add: starts_of_scale)
  have h: "get_range (concat hs) (i * ?H) (i * ?H + ?H) = Some (hs ! i)"
    using get_range_concat [OF pieces(2), of i] i by (simp add: starts_of_replicate add.commute)
  have len: "?s (Suc i) - ?s i = lengths ! i" by (simp add: starts_of_Suc [OF i])
  have width: "conv_input_new xs ws k t c w = Ok one \<Longrightarrow> conv_history_width one = Ok (w - 1)" for xs ws k t one
    by (auto simp: conv_input_new_Ok_iff conv_admitted_def conv_history_width_def conv_subtract_def usize_sub_def)
  have run: "and_then (conv_input_new xs ws k t c w) (\<lambda>one. and_then (conv_history_width one) (\<lambda>hw.
        append_conv ops one hw p q)) =
      and_then (conv_alone ops xs ws k t c w) (\<lambda>(a, b). Ok (p @ a, q @ b))" for xs ws k t p q
    by (cases "conv_input_new xs ws k t c w")
      (auto simp: conv_alone_def width intro!: append_conv_from)
  show ?thesis
    unfolding packed_conv_sequence_def conv_packed_range_def admitted(6)
    using products bound run xs h len
    by (simp add: plan(3) [OF i] conv_product_def conv_add_def usize_mul_def usize_add_def)
qed

lemma conv_alone_Ok_iff:
  assumes "slice_ok xs" and "slice_ok weights" and "plentiful heap"
  shows "conv_alone ops xs weights h t c w = Ok r \<longleftrightarrow>
    (\<exists>one. conv_input_new xs weights h t c w = Ok one \<and> causal_conv_fwd heap ops one = Ok r)"
proof -
  have "append_conv ops one (w - 1) [] [] = Ok r \<longleftrightarrow> causal_conv_fwd heap ops one = Ok r"
    if "conv_input_new xs weights h t c w = Ok one" for one
  proof -
    have one: "conv_admitted one t c w" "slice_ok (ci_input one)" "slice_ok (ci_weights one)"
      using that assms by (auto simp: conv_input_new_Ok_iff)
    show ?thesis
      unfolding causal_conv_Ok_iff [OF one assms(3)] append_conv_Ok_iff [OF one(1) admitted_sizes(1) [OF one]] ..
  qed
  then show ?thesis by (auto simp: conv_alone_def)
qed

lemma packed_conv_run:
  assumes "plan_of packed lengths offsets"
    and "packed_conv_input_new (concat xss) weights (concat hs) packed c w = Ok inp"
    and "map length xss = map (\<lambda>n. n * c) lengths" and "map length hs = replicate (length lengths) (c * (w - 1))"
    and "plentiful heap"
  shows "packed_causal_conv_fwd heap ops inp =
    and_then (try_map (\<lambda>(len, xs, h). conv_alone ops xs weights h len c w) (zip lengths (zip xss hs)))
      (\<lambda>rs. Ok (concat (map fst rs), concat (map snd rs)))"
proof -
  note admitted = packed_conv_input_new_Ok [OF assms(2)]
  let ?alone = "\<lambda>i. conv_alone ops (xss ! i) weights (hs ! i) (lengths ! i) c w"
  have lens: "length xss = length lengths" "length hs = length lengths"
    using assms(3,4) by (metis length_map, metis length_map length_replicate)
  have fold: "try_fold (packed_conv_sequence ops inp (c * (w - 1))) [0..<length lengths] d =
      try_fold (\<lambda>i d. and_then (?alone i) (\<lambda>(a, b). Ok (fst d @ a, snd d @ b))) [0..<length lengths] d" for d
    by (intro try_fold_cong packed_conv_sequence_alone [OF assms(1-4)]) simp
  have "packed_causal_conv_fwd heap ops inp =
      try_fold (packed_conv_sequence ops inp (c * (w - 1))) [0..<length lengths] ([], [])"
    using admitted assms(5)
    by (simp add: packed_causal_conv_fwd_def conv_product_def usize_mul_def conv_reserve_def plan_of_simps [OF assms(1)])
  then have run: "packed_causal_conv_fwd heap ops inp =
      and_then (try_map ?alone [0..<length lengths]) (\<lambda>rs. Ok (concat (map fst rs), concat (map snd rs)))"
    unfolding fold try_fold_extend_pair by simp
  have zips: "zip lengths (zip xss hs) = map (\<lambda>i. (lengths ! i, xss ! i, hs ! i)) [0..<length lengths]"
    by (rule nth_equalityI) (auto simp: lens)
  show ?thesis unfolding run zips try_map_map comp_def by simp
qed

text \<open>C25: packed sequences are convolved as if each were alone: with memory to spare the packed evaluation succeeds exactly when
  the evaluation of every sequence with its own history does, and its outputs and final histories are
  theirs one after the other. No sequence sees the samples of another.\<close>

theorem packed_convolution_is_per_sequence:
  assumes "packed_new heap lengths offsets max_context = Ok packed"
    and "packed_conv_input_new (concat xss) weights (concat hs) packed c w = Ok inp"
    and "map length xss = map (\<lambda>n. n * c) lengths" and "map length hs = replicate (length lengths) (c * (w - 1))"
    and "slice_ok (concat xss)" and "slice_ok weights" and "plentiful heap"
  shows "packed_causal_conv_fwd heap ops inp = Ok (out, finals) \<longleftrightarrow>
    (\<exists>rs. list_all2 (\<lambda>(len, xs, h) r. \<exists>one. conv_input_new xs weights h len c w = Ok one \<and>
        causal_conv_fwd heap ops one = Ok r) (zip lengths (zip xss hs)) rs \<and>
      out = concat (map fst rs) \<and> finals = concat (map snd rs))"
proof -
  note run = packed_conv_run [OF packed_new_plan_of [OF assms(1)] assms(2-4,7)]
  have slices: "slice_ok xs" if "xs \<in> set xss" for xs
  proof -
    have "length xs \<le> length (concat xss)"
      using that member_le_sum_list [of "length xs" "map length xss"] by (simp add: length_concat)
    then show ?thesis using assms(5) by (simp add: f32_layout_ok_def)
  qed
  have "try_map (\<lambda>(len, xs, h). conv_alone ops xs weights h len c w) (zip lengths (zip xss hs)) = Ok rs \<longleftrightarrow>
      list_all2 (\<lambda>(len, xs, h) r. \<exists>one. conv_input_new xs weights h len c w = Ok one \<and>
        causal_conv_fwd heap ops one = Ok r) (zip lengths (zip xss hs)) rs" for rs
    unfolding try_map_Ok_iff
  proof (intro list.rel_cong refl)
    fix e r
    assume *: "e \<in> set (zip lengths (zip xss hs))"
    obtain len xs h where e: "e = (len, xs, h)" by (cases e)
    then have "xs \<in> set xss" using * by (metis in_set_zipE)
    show "((case e of (len, xs, h) \<Rightarrow> conv_alone ops xs weights h len c w) = Ok r) =
        (case e of (len, xs, h) \<Rightarrow> \<lambda>r. \<exists>one. conv_input_new xs weights h len c w = Ok one \<and>
          causal_conv_fwd heap ops one = Ok r) r"
      by (simp add: e conv_alone_Ok_iff [OF slices [OF \<open>xs \<in> set xss\<close>] assms(6,7)])
  qed
  then show ?thesis unfolding run by auto
qed

subsection \<open>Witnesses\<close>

lemmas conv_eval = kernel_eval conv_plan_new_def conv_input_new_def conv_product_def conv_add_def conv_subtract_def
  conv_nonzero_def conv_length_def conv_scalars_def conv_read_def conv_finite_def conv_reserve_def
  conv_history_width_def conv_window_sample_def conv_weight_def conv_tap_def conv_cell_def append_conv_def
  causal_conv_fwd_def packed_conv_input_new_def conv_packed_range_def packed_conv_sequence_def
  packed_causal_conv_fwd_def

text \<open>Two channels of three tokens and taps of width two.\<close>

definition conv_sample_input :: conv_input where
  "conv_sample_input = \<lparr>ci_input = [1, 2] @ [3, 4, 5, 6], ci_weights = [1, 2, 3, 4], ci_history = [7, 8],
     ci_plan = \<lparr>cp_token_count = 1 + 2, cp_channel_count = 2, cp_width = 2, cp_output = 6, cp_weights = 4,
       cp_history = 2\<rparr>\<rparr>"

lemma conv_sample_admitted:
  "conv_input_new ([1, 2] @ [3, 4, 5, 6]) [1, 2, 3, 4] [7, 8] (1 + 2) 2 2 = Ok conv_sample_input"
  by (simp add: conv_eval conv_sample_input_def)

theorem convolution_in_chunks_witness:
  "\<exists>first o1 h second o2.
    conv_input_new [1, 2] [1, 2, 3, 4] [7, 8] 1 2 2 = Ok first \<and>
    causal_conv_fwd (\<lambda>role n. True) kernel_sample_ops first = Ok (o1, h) \<and>
    conv_input_new [3, 4, 5, 6] [1, 2, 3, 4] h 2 2 2 = Ok second \<and>
    causal_conv_fwd (\<lambda>role n. True) kernel_sample_ops second = Ok (o2, [5, 6]) \<and>
    [9, 32, 7, 22, 13, 36] = o1 @ o2"
proof -
  have ran: "causal_conv_fwd (\<lambda>role n. True) kernel_sample_ops conv_sample_input = Ok ([9, 32, 7, 22, 13, 36], [5, 6])"
    by (simp add: conv_eval conv_sample_input_def kernel_sample_ops_def)
  have small: "slice_ok ([1, 2] @ [3, 4, 5, 6])" "slice_ok [1, 2, 3, 4]" by (simp_all add: f32_layout_ok_def)
  show ?thesis
    using ran convolution_in_chunks [OF conv_sample_admitted _ small, where heap = "\<lambda>role n. True" and
        ops = kernel_sample_ops and out = "[9, 32, 7, 22, 13, 36]" and final = "[5, 6]"]
    by simp
qed

theorem packed_convolution_is_per_sequence_witness:
  "\<exists>rs. list_all2 (\<lambda>(len, xs, h) r. \<exists>one. conv_input_new xs [1, 2] h len 1 2 = Ok one \<and>
      causal_conv_fwd (\<lambda>role n. True) kernel_sample_ops one = Ok r)
      (zip [1, 2] (zip [[1], [3, 4]] [[7], [8]])) rs \<and>
    [9, 14, 11] = concat (map fst rs) \<and> [1, 4] = concat (map snd rs)"
proof -
  let ?inp = "\<lparr>pc_input = [1, 3, 4], pc_weights = [1, 2], pc_histories = [7, 8], pc_packed = packed_sample_plan,
      pc_channel_count = 1, pc_width = 2\<rparr>"
  have admitted: "packed_conv_input_new (concat [[1], [3, 4]]) [1, 2] (concat [[7], [8]]) packed_sample_plan 1 2 = Ok ?inp"
    by (simp add: conv_eval packed_eval packed_sample_plan_def)
  have ran: "packed_causal_conv_fwd (\<lambda>role n. True) kernel_sample_ops ?inp = Ok ([9, 14, 11], [1, 4])"
    by (simp add: conv_eval packed_eval packed_sample_plan_def kernel_sample_ops_def)
  have small: "slice_ok (concat [[1], [3, 4]])" "slice_ok [1, 2]" by (simp_all add: f32_layout_ok_def)
  show ?thesis
    using ran packed_convolution_is_per_sequence [OF packed_sample_built admitted _ _ small,
        where ops = kernel_sample_ops and out = "[9, 14, 11]" and finals = "[1, 4]"]
    by simp
qed

end
