(* ===== verification/Kernel_Gdn.thy ===== *)
theory Kernel_Gdn
  imports Kernel_Packed
begin

text \<open>
  The gated delta rule reference (src/crates/kernels/src/gdn/mod.rs), as written: the allocation plans, the
  admission of one head, of grouped heads and of packed sequences, and their evaluation. A loop over
  \<open>iter_mut().enumerate()\<close> maps the enumerated buffer; on an error the buffer is dropped.
\<close>

datatype gdn_error =
    GdnZeroDimension string
  | GdnProductOverflow string
  | GdnSumOverflow
  | GdnAllocation string usize
  | GdnHeadGrouping usize usize
  | GdnLengthMismatch string usize usize
  | GdnNonFiniteInput string usize
  | GdnNonFiniteArithmetic string usize

type_synonym 'a gdn = "('a, gdn_error) result"

subsection \<open>Checks\<close>

definition gdn_product :: "usize \<Rightarrow> usize \<Rightarrow> string \<Rightarrow> usize gdn" where
  "gdn_product a b dims = ok_or (GdnProductOverflow dims) (usize_mul a b)"

definition gdn_add :: "usize \<Rightarrow> usize \<Rightarrow> string \<Rightarrow> usize gdn" where
  "gdn_add a b dims = ok_or (GdnProductOverflow dims) (usize_add a b)"

definition gdn_allocation_sum :: "usize \<Rightarrow> usize \<Rightarrow> usize gdn" where
  "gdn_allocation_sum elements acc = ok_or GdnSumOverflow (usize_add acc elements)"

definition gdn_reserve :: "allocator \<Rightarrow> string \<Rightarrow> usize \<Rightarrow> f32 list gdn" where
  "gdn_reserve heap role n = (if heap role n then Ok [] else Err (GdnAllocation role n))"

definition gdn_nonzero :: "string \<Rightarrow> usize \<Rightarrow> unit gdn" where
  "gdn_nonzero dim v = (if v = 0 then Err (GdnZeroDimension dim) else Ok ())"

definition gdn_matrix_index :: "usize \<Rightarrow> usize \<Rightarrow> usize \<Rightarrow> usize gdn" where
  "gdn_matrix_index key_index value_index value_dim =
     and_then (gdn_product key_index value_dim ''key index * value_dim'') (\<lambda>start.
     gdn_add start value_index ''state matrix index'')"

definition gdn_read_row :: "f32 list \<Rightarrow> usize \<Rightarrow> usize \<Rightarrow> string \<Rightarrow> f32 list gdn" where
  "gdn_read_row xs start finish name = ok_or (GdnLengthMismatch name finish (length xs)) (get_range xs start finish)"

definition gdn_head_slice :: "f32 list \<Rightarrow> usize \<Rightarrow> usize \<Rightarrow> string \<Rightarrow> f32 list gdn" where
  "gdn_head_slice xs head_index head_width name =
     and_then (gdn_product head_index head_width ''head index * head width'') (\<lambda>start.
     and_then (gdn_add start head_width ''head end'') (\<lambda>finish.
     gdn_read_row xs start finish name))"

definition gdn_read_scalar :: "f32 list \<Rightarrow> usize \<Rightarrow> string \<Rightarrow> usize \<Rightarrow> f32 gdn" where
  "gdn_read_scalar xs i name expected = ok_or (GdnLengthMismatch name expected (length xs)) (get_scalar xs i)"

definition gdn_length :: "string \<Rightarrow> usize \<Rightarrow> usize \<Rightarrow> unit gdn" where
  "gdn_length name actual expected =
     (if actual \<noteq> expected then Err (GdnLengthMismatch name expected actual) else Ok ())"

definition gdn_scalars :: "string \<Rightarrow> f32 list \<Rightarrow> unit gdn" where
  "gdn_scalars name xs =
     (case first_nonfinite 0 xs of None \<Rightarrow> Ok () | Some i \<Rightarrow> Err (GdnNonFiniteInput name i))"

definition gdn_finite :: "f32 \<Rightarrow> string \<Rightarrow> usize \<Rightarrow> unit gdn" where
  "gdn_finite x stage i = (if f32_is_finite x then Ok () else Err (GdnNonFiniteArithmetic stage i))"

subsection \<open>Allocation plans\<close>

record recurrent_plan =
  rp_query_and_key :: usize
  rp_output :: usize
  rp_state :: usize
  rp_state_times_key :: usize
  rp_delta :: usize

definition recurrent_plan_new :: "usize \<Rightarrow> usize \<Rightarrow> usize \<Rightarrow> recurrent_plan gdn" where
  "recurrent_plan_new token_count key_dim value_dim =
     and_then (gdn_nonzero ''key_dim'' key_dim) (\<lambda>_.
     and_then (gdn_nonzero ''value_dim'' value_dim) (\<lambda>_.
     and_then (gdn_nonzero ''token_count'' token_count) (\<lambda>_.
     and_then (gdn_product token_count key_dim ''token_count * key_dim'') (\<lambda>query_and_key.
     and_then (gdn_product token_count value_dim ''token_count * value_dim'') (\<lambda>out.
     and_then (gdn_product key_dim value_dim ''key_dim * value_dim'') (\<lambda>state.
     Ok \<lparr>rp_query_and_key = query_and_key, rp_output = out, rp_state = state,
         rp_state_times_key = value_dim, rp_delta = value_dim\<rparr>))))))"

record multi_head_plan =
  mp_token_count :: usize
  mp_key_head_count :: usize
  mp_value_head_count :: usize
  mp_key_dim :: usize
  mp_value_dim :: usize
  mp_query_and_key_elements :: usize
  mp_output_elements :: usize
  mp_scalar_elements :: usize
  mp_state_elements :: usize
  mp_head :: recurrent_plan
  mp_workspace_elements :: usize

definition multi_head_plan_new ::
  "usize \<Rightarrow> usize \<Rightarrow> usize \<Rightarrow> usize \<Rightarrow> usize \<Rightarrow> multi_head_plan gdn" where
  "multi_head_plan_new token_count key_head_count value_head_count key_dim value_dim =
     and_then (gdn_nonzero ''token_count'' token_count) (\<lambda>_.
     and_then (gdn_nonzero ''key_head_count'' key_head_count) (\<lambda>_.
     and_then (gdn_nonzero ''value_head_count'' value_head_count) (\<lambda>_.
     and_then (gdn_nonzero ''key_dim'' key_dim) (\<lambda>_.
     and_then (gdn_nonzero ''value_dim'' value_dim) (\<lambda>_.
     if value_head_count mod key_head_count \<noteq> 0 then Err (GdnHeadGrouping key_head_count value_head_count)
     else
     and_then (recurrent_plan_new token_count key_dim value_dim) (\<lambda>head.
     and_then (gdn_product key_head_count (rp_query_and_key head) ''key_head_count * token_count * key_dim'') (\<lambda>query_and_key.
     and_then (gdn_product value_head_count (rp_output head) ''value_head_count * token_count * value_dim'') (\<lambda>out.
     and_then (gdn_product value_head_count token_count ''value_head_count * token_count'') (\<lambda>scalars.
     and_then (gdn_product value_head_count (rp_state head) ''value_head_count * key_dim * value_dim'') (\<lambda>state.
     and_then (try_fold gdn_allocation_sum
       [out, state, rp_output head, rp_state head, rp_state_times_key head, rp_delta head] 0) (\<lambda>workspace.
     Ok \<lparr>mp_token_count = token_count, mp_key_head_count = key_head_count, mp_value_head_count = value_head_count,
         mp_key_dim = key_dim, mp_value_dim = value_dim, mp_query_and_key_elements = query_and_key,
         mp_output_elements = out, mp_scalar_elements = scalars, mp_state_elements = state, mp_head = head,
         mp_workspace_elements = workspace\<rparr>)))))))))))"

text \<open>A division by zero panics.\<close>

definition mp_value_heads_per_key :: "multi_head_plan \<Rightarrow> usize gdn" where
  "mp_value_heads_per_key p =
     (if mp_key_head_count p = 0 then Panic else Ok (mp_value_head_count p div mp_key_head_count p))"

definition gdn_key_head :: "multi_head_plan \<Rightarrow> usize \<Rightarrow> usize gdn" where
  "gdn_key_head p value_head =
     and_then (mp_value_heads_per_key p) (\<lambda>n. if n = 0 then Panic else Ok (value_head div n))"

subsection \<open>One head\<close>

record recurrent_input =
  ri_q :: "f32 list"
  ri_k :: "f32 list"
  ri_v :: "f32 list"
  ri_beta :: "f32 list"
  ri_g :: "f32 list"
  ri_scale :: f32
  ri_state :: "f32 list"
  ri_token_count :: usize
  ri_key_dim :: usize
  ri_value_dim :: usize
  ri_allocations :: recurrent_plan

definition recurrent_with_allocations ::
  "f32 list \<Rightarrow> f32 list \<Rightarrow> f32 list \<Rightarrow> f32 list \<Rightarrow> f32 list \<Rightarrow> f32 \<Rightarrow> f32 list \<Rightarrow> usize \<Rightarrow> usize \<Rightarrow>
   recurrent_plan \<Rightarrow> recurrent_input gdn" where
  "recurrent_with_allocations q k v beta g scale state key_dim value_dim allocations =
     (let token_count = length beta in
     and_then (gdn_length ''q'' (length q) (rp_query_and_key allocations)) (\<lambda>_.
     and_then (gdn_length ''k'' (length k) (rp_query_and_key allocations)) (\<lambda>_.
     and_then (gdn_length ''v'' (length v) (rp_output allocations)) (\<lambda>_.
     and_then (gdn_length ''g'' (length g) token_count) (\<lambda>_.
     and_then (gdn_length ''state'' (length state) (rp_state allocations)) (\<lambda>_.
     and_then (gdn_scalars ''q'' q) (\<lambda>_.
     and_then (gdn_scalars ''k'' k) (\<lambda>_.
     and_then (gdn_scalars ''v'' v) (\<lambda>_.
     and_then (gdn_scalars ''beta'' beta) (\<lambda>_.
     and_then (gdn_scalars ''g'' g) (\<lambda>_.
     and_then (gdn_scalars ''state'' state) (\<lambda>_.
     if \<not> f32_is_finite scale then Err (GdnNonFiniteInput ''scale'' 0)
     else Ok \<lparr>ri_q = q, ri_k = k, ri_v = v, ri_beta = beta, ri_g = g, ri_scale = scale, ri_state = state,
         ri_token_count = token_count, ri_key_dim = key_dim, ri_value_dim = value_dim,
         ri_allocations = allocations\<rparr>))))))))))))"

definition recurrent_input_new ::
  "f32 list \<Rightarrow> f32 list \<Rightarrow> f32 list \<Rightarrow> f32 list \<Rightarrow> f32 list \<Rightarrow> f32 \<Rightarrow> f32 list \<Rightarrow> usize \<Rightarrow> usize \<Rightarrow>
   recurrent_input gdn" where
  "recurrent_input_new q k v beta g scale state key_dim value_dim =
     and_then (recurrent_plan_new (length beta) key_dim value_dim) (\<lambda>allocations.
     recurrent_with_allocations q k v beta g scale state key_dim value_dim allocations)"

subsection \<open>The recurrence\<close>

text \<open>\<open>state *= decay\<close>\<close>

definition gdn_decay_cell :: "f32_ops \<Rightarrow> f32 \<Rightarrow> nat \<times> f32 \<Rightarrow> f32 gdn" where
  "gdn_decay_cell ops decay cell =
     (let x = f_mul ops (snd cell) decay in
      and_then (gdn_finite x ''state decay'' (fst cell)) (\<lambda>_. Ok x))"

text \<open>\<open>state_times_key += state[key_index, _] * key_value\<close>\<close>

definition gdn_project_cell ::
  "f32_ops \<Rightarrow> usize \<Rightarrow> f32 list \<Rightarrow> nat \<times> f32 \<Rightarrow> nat \<times> f32 \<Rightarrow> f32 gdn" where
  "gdn_project_cell ops value_dim state key cell =
     and_then (gdn_matrix_index (fst key) (fst cell) value_dim) (\<lambda>i.
     and_then (gdn_read_scalar state i ''state'' (length state)) (\<lambda>state_value.
     let x = f_add ops (snd cell) (f_mul ops state_value (snd key)) in
     and_then (gdn_finite x ''state times key'' (fst cell)) (\<lambda>_. Ok x)))"

definition gdn_project :: "f32_ops \<Rightarrow> usize \<Rightarrow> f32 list \<Rightarrow> nat \<times> f32 \<Rightarrow> f32 list \<Rightarrow> f32 list gdn" where
  "gdn_project ops value_dim state key acc =
     try_map (gdn_project_cell ops value_dim state key) (enumerate 0 acc)"

text \<open>\<open>delta = beta * (value - state_projection)\<close>\<close>

definition gdn_delta_cell :: "f32_ops \<Rightarrow> f32 \<Rightarrow> nat \<times> f32 \<times> f32 \<Rightarrow> f32 list \<Rightarrow> f32 list gdn" where
  "gdn_delta_cell ops beta cell delta =
     (case cell of (value_index, value, projection) \<Rightarrow>
       let x = f_mul ops beta (f_sub ops value projection) in
       and_then (gdn_finite x ''delta'' value_index) (\<lambda>_. Ok (delta @ [x])))"

text \<open>\<open>state[key_index, value_index] += key_value * delta_value\<close>\<close>

definition gdn_update_cell ::
  "f32_ops \<Rightarrow> usize \<Rightarrow> nat \<times> f32 \<Rightarrow> nat \<times> f32 \<Rightarrow> f32 list \<Rightarrow> f32 list gdn" where
  "gdn_update_cell ops value_dim key cell state =
     and_then (gdn_matrix_index (fst key) (fst cell) value_dim) (\<lambda>i.
     and_then (gdn_read_scalar state i ''state'' (i + 1)) (\<lambda>state_value.
     let x = f_add ops state_value (f_mul ops (snd key) (snd cell)) in
     and_then (gdn_finite x ''state update'' i) (\<lambda>_. Ok (state[i := x]))))"

definition gdn_update :: "f32_ops \<Rightarrow> usize \<Rightarrow> f32 list \<Rightarrow> nat \<times> f32 \<Rightarrow> f32 list \<Rightarrow> f32 list gdn" where
  "gdn_update ops value_dim delta key state =
     try_fold (gdn_update_cell ops value_dim key) (enumerate 0 delta) state"

text \<open>\<open>accumulator += state[key_index, value_index] * query_value * scale\<close>\<close>

definition gdn_read_out ::
  "f32_ops \<Rightarrow> usize \<Rightarrow> f32 \<Rightarrow> f32 list \<Rightarrow> nat \<Rightarrow> nat \<times> f32 \<Rightarrow> f32 \<Rightarrow> f32 gdn" where
  "gdn_read_out ops value_dim scale state value_index query acc =
     and_then (gdn_matrix_index (fst query) value_index value_dim) (\<lambda>i.
     and_then (gdn_read_scalar state i ''state'' (length state)) (\<lambda>state_value.
     let x = f_add ops acc (f_mul ops (f_mul ops state_value (snd query)) scale) in
     and_then (gdn_finite x ''output accumulation'' value_index) (\<lambda>_. Ok x)))"

definition gdn_output_cell ::
  "f32_ops \<Rightarrow> usize \<Rightarrow> f32 \<Rightarrow> f32 list \<Rightarrow> f32 list \<Rightarrow> usize \<Rightarrow> nat \<Rightarrow> f32 list \<Rightarrow> f32 list gdn" where
  "gdn_output_cell ops value_dim scale q_row state v_start value_index out =
     and_then (try_fold (gdn_read_out ops value_dim scale state value_index) (enumerate 0 q_row) 0) (\<lambda>acc.
     and_then (gdn_add v_start value_index ''output index'') (\<lambda>i.
     if i < length out then Ok (out[i := acc]) else Err (GdnLengthMismatch ''output'' (i + 1) (length out))))"

definition gdn_token ::
  "allocator \<Rightarrow> f32_ops \<Rightarrow> recurrent_input \<Rightarrow> usize \<Rightarrow> f32 list \<times> f32 list \<Rightarrow> (f32 list \<times> f32 list) gdn" where
  "gdn_token heap ops inp token_index buffers =
     (case buffers of (state, out) \<Rightarrow>
     and_then (gdn_product token_index (ri_key_dim inp) ''token index * key_dim'') (\<lambda>q_start.
     and_then (gdn_add q_start (ri_key_dim inp) ''query row end'') (\<lambda>q_end.
     and_then (gdn_product token_index (ri_value_dim inp) ''token index * value_dim'') (\<lambda>v_start.
     and_then (gdn_add v_start (ri_value_dim inp) ''value row end'') (\<lambda>v_end.
     and_then (gdn_read_row (ri_q inp) q_start q_end ''q'') (\<lambda>q_row.
     and_then (gdn_read_row (ri_k inp) q_start q_end ''k'') (\<lambda>k_row.
     and_then (gdn_read_row (ri_v inp) v_start v_end ''v'') (\<lambda>v_row.
     and_then (gdn_read_scalar (ri_beta inp) token_index ''beta'' (ri_token_count inp)) (\<lambda>beta.
     and_then (gdn_read_scalar (ri_g inp) token_index ''g'' (ri_token_count inp)) (\<lambda>gate.
     let decay = f_exp ops gate in
     and_then (gdn_finite decay ''decay'' token_index) (\<lambda>_.
     and_then (try_map (gdn_decay_cell ops decay) (enumerate 0 state)) (\<lambda>state.
     and_then (gdn_reserve heap ''state times key'' (rp_state_times_key (ri_allocations inp))) (\<lambda>_.
     and_then (try_fold (gdn_project ops (ri_value_dim inp) state) (enumerate 0 k_row)
       (replicate (rp_state_times_key (ri_allocations inp)) 0)) (\<lambda>state_times_key.
     and_then (gdn_reserve heap ''delta'' (rp_delta (ri_allocations inp))) (\<lambda>delta.
     and_then (try_fold (gdn_delta_cell ops beta) (enumerate 0 (zip v_row state_times_key)) delta) (\<lambda>delta.
     and_then (try_fold (gdn_update ops (ri_value_dim inp) delta) (enumerate 0 k_row) state) (\<lambda>state.
     and_then (try_fold (gdn_output_cell ops (ri_value_dim inp) (ri_scale inp) q_row state v_start)
       [0..<ri_value_dim inp] out) (\<lambda>out.
     Ok (state, out)))))))))))))))))))"

record recurrent_output =
  ro_output :: "f32 list"
  ro_state :: "f32 list"

definition recurrent_fwd :: "allocator \<Rightarrow> f32_ops \<Rightarrow> recurrent_input \<Rightarrow> recurrent_output gdn" where
  "recurrent_fwd heap ops inp =
     and_then (gdn_reserve heap ''one-head state'' (rp_state (ri_allocations inp))) (\<lambda>state.
     and_then (gdn_reserve heap ''one-head output'' (rp_output (ri_allocations inp))) (\<lambda>out.
     and_then (try_fold (gdn_token heap ops inp) [0..<ri_token_count inp]
       (state @ ri_state inp, out @ replicate (rp_output (ri_allocations inp)) 0)) (\<lambda>(state, out).
     Ok \<lparr>ro_output = out, ro_state = state\<rparr>)))"

subsection \<open>Grouped heads\<close>

record multi_head_input =
  mi_q :: "f32 list"
  mi_k :: "f32 list"
  mi_v :: "f32 list"
  mi_beta :: "f32 list"
  mi_g :: "f32 list"
  mi_scale :: f32
  mi_state :: "f32 list"
  mi_token_count :: usize
  mi_value_head_count :: usize
  mi_key_dim :: usize
  mi_value_dim :: usize
  mi_allocations :: multi_head_plan

definition gdn_head_input :: "multi_head_input \<Rightarrow> usize \<Rightarrow> recurrent_input gdn" where
  "gdn_head_input inp value_head_index =
     and_then (gdn_key_head (mi_allocations inp) value_head_index) (\<lambda>key_head_index.
     let head = mp_head (mi_allocations inp) in
     and_then (gdn_head_slice (mi_q inp) key_head_index (rp_query_and_key head) ''q'') (\<lambda>q.
     and_then (gdn_head_slice (mi_k inp) key_head_index (rp_query_and_key head) ''k'') (\<lambda>k.
     and_then (gdn_head_slice (mi_v inp) value_head_index (rp_output head) ''v'') (\<lambda>v.
     and_then (gdn_head_slice (mi_beta inp) value_head_index (mi_token_count inp) ''beta'') (\<lambda>beta.
     and_then (gdn_head_slice (mi_g inp) value_head_index (mi_token_count inp) ''g'') (\<lambda>g.
     and_then (gdn_head_slice (mi_state inp) value_head_index (rp_state head) ''state'') (\<lambda>state.
     recurrent_with_allocations q k v beta g (mi_scale inp) state (mi_key_dim inp) (mi_value_dim inp) head)))))))"

definition gdn_validate_all_heads :: "multi_head_input \<Rightarrow> unit gdn" where
  "gdn_validate_all_heads inp =
     try_fold (\<lambda>i _. and_then (gdn_head_input inp i) (\<lambda>_. Ok ())) [0..<mi_value_head_count inp] ()"

definition multi_head_input_new ::
  "f32 list \<Rightarrow> f32 list \<Rightarrow> f32 list \<Rightarrow> f32 list \<Rightarrow> f32 list \<Rightarrow> f32 \<Rightarrow> f32 list \<Rightarrow> usize \<Rightarrow> usize \<Rightarrow> usize \<Rightarrow>
   usize \<Rightarrow> usize \<Rightarrow> multi_head_input gdn" where
  "multi_head_input_new q k v beta g scale state token_count key_head_count value_head_count key_dim value_dim =
     and_then (multi_head_plan_new token_count key_head_count value_head_count key_dim value_dim) (\<lambda>allocations.
     and_then (gdn_length ''q'' (length q) (mp_query_and_key_elements allocations)) (\<lambda>_.
     and_then (gdn_length ''k'' (length k) (mp_query_and_key_elements allocations)) (\<lambda>_.
     and_then (gdn_length ''v'' (length v) (mp_output_elements allocations)) (\<lambda>_.
     and_then (gdn_length ''beta'' (length beta) (mp_scalar_elements allocations)) (\<lambda>_.
     and_then (gdn_length ''g'' (length g) (mp_scalar_elements allocations)) (\<lambda>_.
     and_then (gdn_length ''state'' (length state) (mp_state_elements allocations)) (\<lambda>_.
     let inp = \<lparr>mi_q = q, mi_k = k, mi_v = v, mi_beta = beta, mi_g = g, mi_scale = scale, mi_state = state,
         mi_token_count = token_count, mi_value_head_count = value_head_count, mi_key_dim = key_dim,
         mi_value_dim = value_dim, mi_allocations = allocations\<rparr> in
     and_then (gdn_validate_all_heads inp) (\<lambda>_. Ok inp))))))))"

definition gdn_evaluate_head ::
  "allocator \<Rightarrow> f32_ops \<Rightarrow> multi_head_input \<Rightarrow> usize \<Rightarrow> f32 list \<times> f32 list \<Rightarrow> (f32 list \<times> f32 list) gdn" where
  "gdn_evaluate_head heap ops inp value_head_index buffers =
     and_then (gdn_head_input inp value_head_index) (\<lambda>head.
     and_then (recurrent_fwd heap ops head) (\<lambda>r.
     Ok (fst buffers @ ro_output r, snd buffers @ ro_state r)))"

definition multi_head_recurrent_fwd ::
  "allocator \<Rightarrow> f32_ops \<Rightarrow> multi_head_input \<Rightarrow> recurrent_output gdn" where
  "multi_head_recurrent_fwd heap ops inp =
     and_then (gdn_validate_all_heads inp) (\<lambda>_.
     and_then (gdn_reserve heap ''multi-head output'' (mp_output_elements (mi_allocations inp))) (\<lambda>out.
     and_then (gdn_reserve heap ''multi-head state'' (mp_state_elements (mi_allocations inp))) (\<lambda>state.
     and_then (try_fold (gdn_evaluate_head heap ops inp) [0..<mi_value_head_count inp] (out, state)) (\<lambda>(out, state).
     Ok \<lparr>ro_output = out, ro_state = state\<rparr>))))"

subsection \<open>Packed sequences\<close>

record packed_gdn_input =
  pg_q :: "f32 list"
  pg_k :: "f32 list"
  pg_v :: "f32 list"
  pg_beta :: "f32 list"
  pg_g :: "f32 list"
  pg_scale :: f32
  pg_state :: "f32 list"
  pg_packed :: packed_plan
  pg_allocations :: multi_head_plan

definition packed_gdn_input_new ::
  "f32 list \<Rightarrow> f32 list \<Rightarrow> f32 list \<Rightarrow> f32 list \<Rightarrow> f32 list \<Rightarrow> f32 \<Rightarrow> f32 list \<Rightarrow> packed_plan \<Rightarrow> usize \<Rightarrow> usize \<Rightarrow>
   usize \<Rightarrow> usize \<Rightarrow> packed_gdn_input gdn" where
  "packed_gdn_input_new q k v beta g scale state packed key_head_count value_head_count key_dim value_dim =
     and_then (multi_head_plan_new (pp_total_tokens packed) key_head_count value_head_count key_dim value_dim) (\<lambda>allocations.
     and_then (gdn_product (pp_sequence_count packed) (mp_state_elements allocations)
       ''packed sequence count * GDN state elements'') (\<lambda>state_elements.
     and_then (gdn_length ''packed q'' (length q) (mp_query_and_key_elements allocations)) (\<lambda>_.
     and_then (gdn_length ''packed k'' (length k) (mp_query_and_key_elements allocations)) (\<lambda>_.
     and_then (gdn_length ''packed v'' (length v) (mp_output_elements allocations)) (\<lambda>_.
     and_then (gdn_length ''packed beta'' (length beta) (mp_scalar_elements allocations)) (\<lambda>_.
     and_then (gdn_length ''packed g'' (length g) (mp_scalar_elements allocations)) (\<lambda>_.
     and_then (gdn_length ''packed state'' (length state) state_elements) (\<lambda>_.
     and_then (gdn_scalars ''packed q'' q) (\<lambda>_.
     and_then (gdn_scalars ''packed k'' k) (\<lambda>_.
     and_then (gdn_scalars ''packed v'' v) (\<lambda>_.
     and_then (gdn_scalars ''packed beta'' beta) (\<lambda>_.
     and_then (gdn_scalars ''packed g'' g) (\<lambda>_.
     and_then (gdn_scalars ''packed state'' state) (\<lambda>_.
     and_then (gdn_finite scale ''scale'' 0) (\<lambda>_.
     Ok \<lparr>pg_q = q, pg_k = k, pg_v = v, pg_beta = beta, pg_g = g, pg_scale = scale, pg_state = state,
         pg_packed = packed, pg_allocations = allocations\<rparr>)))))))))))))))"

definition gdn_packed_range :: "packed_plan \<Rightarrow> usize \<Rightarrow> (usize \<times> usize) gdn" where
  "gdn_packed_range packed i =
     ok_or (GdnLengthMismatch ''packed sequence'' (i + 1) (pp_sequence_count packed)) (pp_packed_range packed i)"

definition packed_head_slice ::
  "f32 list \<Rightarrow> usize \<Rightarrow> usize \<Rightarrow> usize \<Rightarrow> usize \<times> usize \<Rightarrow> string \<Rightarrow> f32 list gdn" where
  "packed_head_slice xs head total_tokens width rows name =
     and_then (gdn_product (snd rows - fst rows) width ''packed head window'') (\<lambda>window.
     and_then (gdn_product total_tokens width ''packed head stride'') (\<lambda>head_stride.
     and_then (gdn_product head head_stride ''packed head start'') (\<lambda>head_start.
     and_then (gdn_product (fst rows) width ''packed head row start'') (\<lambda>row_start.
     and_then (gdn_add head_start row_start ''packed head window start'') (\<lambda>start.
     and_then (gdn_add start window ''packed head window end'') (\<lambda>finish.
     gdn_read_row xs start finish name))))))"

definition copy_packed_window :: "f32 list \<Rightarrow> usize \<Rightarrow> usize \<Rightarrow> f32 list \<Rightarrow> string \<Rightarrow> f32 list gdn" where
  "copy_packed_window dest start finish source name =
     and_then (ok_or (GdnLengthMismatch name finish (length dest)) (get_range dest start finish)) (\<lambda>window.
     and_then (gdn_length name (length source) (length window)) (\<lambda>_.
     Ok (take start dest @ source @ drop finish dest)))"

definition packed_gdn_head ::
  "allocator \<Rightarrow> f32_ops \<Rightarrow> packed_gdn_input \<Rightarrow> usize \<times> usize \<Rightarrow> recurrent_plan \<Rightarrow> usize \<Rightarrow> usize \<Rightarrow>
   f32 list \<times> f32 list \<Rightarrow> (f32 list \<times> f32 list) gdn" where
  "packed_gdn_head heap ops inp rows head_allocations state_start value_head buffers =
     (let total = pp_total_tokens (pg_packed inp); plan = pg_allocations inp;
          key_dim = mp_key_dim plan; value_dim = mp_value_dim plan in
     and_then (gdn_key_head plan value_head) (\<lambda>key_head.
     and_then (packed_head_slice (pg_q inp) key_head total key_dim rows ''q'') (\<lambda>q.
     and_then (packed_head_slice (pg_k inp) key_head total key_dim rows ''k'') (\<lambda>k.
     and_then (packed_head_slice (pg_v inp) value_head total value_dim rows ''v'') (\<lambda>v.
     and_then (packed_head_slice (pg_beta inp) value_head total 1 rows ''beta'') (\<lambda>beta.
     and_then (packed_head_slice (pg_g inp) value_head total 1 rows ''g'') (\<lambda>g.
     and_then (gdn_product value_head (rp_state head_allocations) ''packed GDN value-head state start'') (\<lambda>head_offset.
     and_then (gdn_add state_start head_offset ''packed GDN state window start'') (\<lambda>head_state_start.
     and_then (gdn_add head_state_start (rp_state head_allocations) ''packed GDN state window end'') (\<lambda>head_state_end.
     and_then (gdn_read_row (pg_state inp) head_state_start head_state_end ''packed state'') (\<lambda>prior_state.
     and_then (recurrent_with_allocations q k v beta g (pg_scale inp) prior_state key_dim value_dim head_allocations) (\<lambda>head.
     and_then (recurrent_fwd heap ops head) (\<lambda>r.
     and_then (gdn_product value_head (rp_output (mp_head plan)) ''packed GDN output head start'') (\<lambda>output_head.
     and_then (gdn_product (fst rows) value_dim ''packed GDN output token start'') (\<lambda>output_token.
     and_then (gdn_add output_head output_token ''packed GDN output window start'') (\<lambda>output_start.
     and_then (gdn_add output_start (rp_output head_allocations) ''packed GDN output window end'') (\<lambda>output_end.
     and_then (copy_packed_window (fst buffers) output_start output_end (ro_output r) ''packed output'') (\<lambda>out.
     and_then (copy_packed_window (snd buffers) head_state_start head_state_end (ro_state r) ''packed final state'') (\<lambda>state.
     Ok (out, state))))))))))))))))))))"

definition packed_gdn_sequence ::
  "allocator \<Rightarrow> f32_ops \<Rightarrow> packed_gdn_input \<Rightarrow> usize \<Rightarrow> f32 list \<times> f32 list \<Rightarrow> (f32 list \<times> f32 list) gdn" where
  "packed_gdn_sequence heap ops inp i buffers =
     and_then (gdn_packed_range (pg_packed inp) i) (\<lambda>rows.
     and_then (recurrent_plan_new (snd rows - fst rows) (mp_key_dim (pg_allocations inp))
       (mp_value_dim (pg_allocations inp))) (\<lambda>head_allocations.
     and_then (gdn_product i (mp_state_elements (pg_allocations inp)) ''packed GDN state start'') (\<lambda>state_start.
     try_fold (packed_gdn_head heap ops inp rows head_allocations state_start)
       [0..<mp_value_head_count (pg_allocations inp)] buffers)))"

definition packed_multi_head_recurrent_fwd ::
  "allocator \<Rightarrow> f32_ops \<Rightarrow> packed_gdn_input \<Rightarrow> recurrent_output gdn" where
  "packed_multi_head_recurrent_fwd heap ops inp =
     (let plan = pg_allocations inp in
     and_then (gdn_product (pp_sequence_count (pg_packed inp)) (mp_state_elements plan) ''packed final GDN state'') (\<lambda>final.
     and_then (gdn_reserve heap ''packed multi-head output'' (mp_output_elements plan)) (\<lambda>out.
     and_then (gdn_reserve heap ''packed multi-head final state'' final) (\<lambda>state.
     and_then (try_fold (packed_gdn_sequence heap ops inp) [0..<pp_sequence_count (pg_packed inp)]
       (out @ replicate (mp_output_elements plan) 0, state @ replicate final 0)) (\<lambda>(out, state).
     Ok \<lparr>ro_output = out, ro_state = state\<rparr>)))))"

end
