(* ===== verification/Kernel_Gdn_Rows.thy ===== *)
theory Kernel_Gdn_Rows
  imports Kernel_Gdn
begin

text \<open>
  What one token of the recurrence computes, apart from where its rows are read from and where its output
  is written to: the evaluation of a head is a scan of its tokens that threads the state.
\<close>

subsection \<open>Scans\<close>

fun try_scan :: "('r \<Rightarrow> 's \<Rightarrow> ('s \<times> 'b, 'e) result) \<Rightarrow> 'r list \<Rightarrow> 's \<Rightarrow> ('s \<times> 'b list, 'e) result" where
  "try_scan f [] s = Ok (s, [])"
| "try_scan f (x # xs) s =
     and_then (f x s) (\<lambda>(s, b). and_then (try_scan f xs s) (\<lambda>(s, bs). Ok (s, b # bs)))"

lemma try_scan_append:
  "try_scan f (xs @ ys) s =
     and_then (try_scan f xs s) (\<lambda>(s, bs). and_then (try_scan f ys s) (\<lambda>(s, cs). Ok (s, bs @ cs)))"
proof (induction xs arbitrary: s)
  case (Cons x xs)
  show ?case
    by (cases "f x s") (simp_all add: Cons and_then_assoc case_prod_beta')
next
  case Nil
  show ?case by (cases "try_scan f ys s") auto
qed

lemma try_scan_Ok_cong:
  "(\<And>x s r. x \<in> set xs \<Longrightarrow> f x s = Ok r \<longleftrightarrow> g x s = Ok r) \<Longrightarrow> try_scan f xs s = Ok r \<longleftrightarrow> try_scan g xs s = Ok r"
proof (induction xs arbitrary: s r)
  case (Cons x xs)
  then show ?case by (simp add: split_beta)
qed simp

lemma try_scan_map: "try_scan f (map g xs) s = try_scan (f \<circ> g) xs s"
  by (induction xs arbitrary: s) simp_all

lemma try_scan_invariant:
  assumes "try_scan f xs s = Ok (s', bs)" and "P s"
    and "\<And>x s s' b. x \<in> set xs \<Longrightarrow> P s \<Longrightarrow> f x s = Ok (s', b) \<Longrightarrow> P s' \<and> Q b"
  shows "P s' \<and> list_all Q bs"
  using assms
proof (induction xs arbitrary: s bs)
  case (Cons x xs)
  then obtain s1 b bs1 where step: "f x s = Ok (s1, b)" "try_scan f xs s1 = Ok (s', bs1)" "bs = b # bs1"
    by auto
  then have "P s1 \<and> Q b" using Cons.prems by (meson list.set_intros(1))
  then show ?case using Cons.IH [OF step(2)] Cons.prems(3) step(3) by auto
qed simp

text \<open>Writing the positions \<open>start..<start + n\<close> of a buffer one by one.\<close>

lemma try_fold_write:
  assumes "start + n \<le> length buf"
  shows "try_fold (\<lambda>j buf. and_then (f j) (\<lambda>v. if start + j < length buf then Ok (buf[start + j := v]) else g j buf))
      [0..<n] buf = and_then (try_map f [0..<n]) (\<lambda>row. Ok (take start buf @ row @ drop (start + n) buf))"
  using assms
proof (induction n)
  case (Suc n)
  have put: "(take start buf @ row @ drop (start + n) buf)[start + n := v] =
      take start buf @ (row @ [v]) @ drop (start + Suc n) buf" if "length row = n" for row v
  proof -
    have "drop (start + n) buf = buf ! (start + n) # drop (start + Suc n) buf"
      using Suc.prems by (simp add: Cons_nth_drop_Suc)
    then show ?thesis using Suc.prems that by (simp add: list_update_append)
  qed
  have len: "try_map f [0..<n] = Ok row \<Longrightarrow> length row = n" for row
    by (auto simp: try_map_Ok_iff dest: list_all2_lengthD)
  show ?case
    using Suc.prems
    by (cases "try_map f [0..<n]"; cases "f n")
      (auto simp: try_fold_append try_map_append Suc.IH put len)
qed simp

subsection \<open>One token\<close>

definition gdn_row ::
  "f32_ops \<Rightarrow> nat \<Rightarrow> usize \<Rightarrow> f32 \<Rightarrow> f32 list \<Rightarrow> f32 list \<Rightarrow> f32 list \<Rightarrow> f32 \<Rightarrow> f32 \<Rightarrow> f32 list \<Rightarrow>
   (f32 list \<times> f32 list) gdn" where
  "gdn_row ops idx V scale q_row k_row v_row beta gate state =
     and_then (gdn_finite (f_exp ops gate) ''decay'' idx) (\<lambda>_.
     and_then (try_map (gdn_decay_cell ops (f_exp ops gate)) (enumerate 0 state)) (\<lambda>state.
     and_then (try_fold (gdn_project ops V state) (enumerate 0 k_row) (replicate V 0)) (\<lambda>projection.
     and_then (try_fold (gdn_delta_cell ops beta) (enumerate 0 (zip v_row projection)) []) (\<lambda>delta.
     and_then (try_fold (gdn_update ops V delta) (enumerate 0 k_row) state) (\<lambda>state.
     and_then (try_map (\<lambda>j. try_fold (gdn_read_out ops V scale state j) (enumerate 0 q_row) 0) [0..<V]) (\<lambda>row.
     Ok (state, row)))))))"

definition gdn_row_at :: "f32_ops \<Rightarrow> recurrent_input \<Rightarrow> nat \<Rightarrow> f32 list \<Rightarrow> (f32 list \<times> f32 list) gdn" where
  "gdn_row_at ops inp i =
     (let K = ri_key_dim inp; V = ri_value_dim inp in
      gdn_row ops i V (ri_scale inp) (take K (drop (i * K) (ri_q inp))) (take K (drop (i * K) (ri_k inp)))
        (take V (drop (i * V) (ri_v inp))) (ri_beta inp ! i) (ri_g inp ! i))"

lemma gdn_row_index: "gdn_row ops i V scale q k v beta gate s = Ok r \<longleftrightarrow> gdn_row ops j V scale q k v beta gate s = Ok r"
  by (simp add: gdn_row_def gdn_finite_def)

text \<open>What admission has checked, for a state of any content.\<close>

definition gdn_admitted :: "recurrent_input \<Rightarrow> usize \<Rightarrow> usize \<Rightarrow> usize \<Rightarrow> bool" where
  "gdn_admitted inp t K V \<longleftrightarrow>
     0 < t \<and> 0 < K \<and> 0 < V \<and> t * K < 2 ^ 64 \<and> t * V < 2 ^ 64 \<and> K * V < 2 ^ 64 \<and>
     ri_token_count inp = t \<and> ri_key_dim inp = K \<and> ri_value_dim inp = V \<and>
     ri_allocations inp = \<lparr>rp_query_and_key = t * K, rp_output = t * V, rp_state = K * V, rp_state_times_key = V, rp_delta = V\<rparr> \<and>
     length (ri_q inp) = t * K \<and> length (ri_k inp) = t * K \<and> length (ri_v inp) = t * V \<and>
     length (ri_beta inp) = t \<and> length (ri_g inp) = t \<and> length (ri_state inp) = K * V \<and>
     list_all f32_is_finite (ri_q inp) \<and> list_all f32_is_finite (ri_k inp) \<and> list_all f32_is_finite (ri_v inp) \<and>
     list_all f32_is_finite (ri_beta inp) \<and> list_all f32_is_finite (ri_g inp) \<and>
     list_all f32_is_finite (ri_state inp) \<and> f32_is_finite (ri_scale inp)"

lemma gdn_scalars_Ok_iff [simp]: "gdn_scalars name xs = Ok u \<longleftrightarrow> list_all f32_is_finite xs"
  by (auto simp: gdn_scalars_def first_nonfinite_None [of 0, symmetric] split: option.splits)

lemma gdn_checks_Ok [simp]:
  "gdn_length name a b = Ok u \<longleftrightarrow> a = b"
  "gdn_nonzero name a = Ok u \<longleftrightarrow> a \<noteq> 0"
  "gdn_finite x stage i = Ok u \<longleftrightarrow> f32_is_finite x"
  "gdn_product a b name = Ok c \<longleftrightarrow> a * b < 2 ^ 64 \<and> c = a * b"
  "gdn_add a b name = Ok c \<longleftrightarrow> a + b < 2 ^ 64 \<and> c = a + b"
  by (auto simp: gdn_length_def gdn_nonzero_def gdn_finite_def gdn_product_def gdn_add_def usize_mul_Some_iff usize_add_Some_iff)

lemma recurrent_plan_new_Ok_iff:
  "recurrent_plan_new t K V = Ok p \<longleftrightarrow>
     0 < t \<and> 0 < K \<and> 0 < V \<and> t * K < 2 ^ 64 \<and> t * V < 2 ^ 64 \<and> K * V < 2 ^ 64 \<and>
     p = \<lparr>rp_query_and_key = t * K, rp_output = t * V, rp_state = K * V, rp_state_times_key = V, rp_delta = V\<rparr>"
  by (auto simp: recurrent_plan_new_def)

lemma recurrent_input_new_Ok_iff:
  "recurrent_input_new q k v beta g scale state K V = Ok inp \<longleftrightarrow>
     gdn_admitted inp (length beta) K V \<and> ri_q inp = q \<and> ri_k inp = k \<and> ri_v inp = v \<and> ri_beta inp = beta \<and>
     ri_g inp = g \<and> ri_scale inp = scale \<and> ri_state inp = state"
  by (cases inp) (auto simp: recurrent_input_new_def recurrent_with_allocations_def recurrent_plan_new_Ok_iff
      gdn_admitted_def Let_def)

text \<open>An evaluation with memory to spare.\<close>

abbreviation plentiful :: "allocator \<Rightarrow> bool" where
  "plentiful heap \<equiv> \<forall>role n. heap role n"

lemma gdn_output_fold:
  assumes "start + V \<le> length out" and "length out < 2 ^ 64"
  shows "try_fold (gdn_output_cell ops V scale q_row state start) [0..<V] out =
    and_then (try_map (\<lambda>j. try_fold (gdn_read_out ops V scale state j) (enumerate 0 q_row) 0) [0..<V]) (\<lambda>row.
      Ok (take start out @ row @ drop (start + V) out))"
proof -
  let ?g = "\<lambda>j buf :: f32 list. Err (GdnLengthMismatch ''output'' (start + j + 1) (length buf))"
  have "try_fold (gdn_output_cell ops V scale q_row state start) [0..<V] out =
      try_fold (\<lambda>j buf. and_then (try_fold (gdn_read_out ops V scale state j) (enumerate 0 q_row) 0)
        (\<lambda>v. if start + j < length buf then Ok (buf[start + j := v]) else ?g j buf)) [0..<V] out"
  proof (intro try_fold_cong)
    fix j buf assume "j \<in> set [0..<V]"
    then have add: "gdn_add start j ''output index'' = Ok (start + j)" using assms by simp
    show "gdn_output_cell ops V scale q_row state start j buf =
        and_then (try_fold (gdn_read_out ops V scale state j) (enumerate 0 q_row) 0)
        (\<lambda>v. if start + j < length buf then Ok (buf[start + j := v]) else ?g j buf)"
      unfolding gdn_output_cell_def add and_then.simps ..
  qed
  then show ?thesis by (simp add: try_fold_write [OF assms(1)])
qed

lemma gdn_token_row:
  assumes "gdn_admitted inp t K V" and "plentiful heap" and "i < t" and "length out = t * V"
  shows "gdn_token heap ops inp i (state, out) = and_then (gdn_row_at ops inp i state) (\<lambda>(state, row).
    Ok (state, take (i * V) out @ row @ drop (i * V + V) out))"
proof -
  have "Suc i * K \<le> t * K" "Suc i * V \<le> t * V" using assms(3) by (intro mult_le_mono1; simp)+
  then have rows: "i * K + K \<le> t * K" "i * V + V \<le> t * V" by simp_all
  have "t * K < 2 ^ 64" "t * V < 2 ^ 64" using assms(1) by (auto simp: gdn_admitted_def)
  with rows have indices: "gdn_product i K d = Ok (i * K)" "gdn_add (i * K) K d = Ok (i * K + K)"
      "gdn_product i V d = Ok (i * V)" "gdn_add (i * V) V d = Ok (i * V + V)" for d
    by auto
  have reads: "gdn_read_row (ri_q inp) (i * K) (i * K + K) ''q'' = Ok (take K (drop (i * K) (ri_q inp)))"
      "gdn_read_row (ri_k inp) (i * K) (i * K + K) ''k'' = Ok (take K (drop (i * K) (ri_k inp)))"
      "gdn_read_row (ri_v inp) (i * V) (i * V + V) ''v'' = Ok (take V (drop (i * V) (ri_v inp)))"
      "gdn_read_scalar (ri_beta inp) i ''beta'' t = Ok (ri_beta inp ! i)"
      "gdn_read_scalar (ri_g inp) i ''g'' t = Ok (ri_g inp ! i)"
    using assms(1,3) rows by (auto simp: gdn_admitted_def gdn_read_row_def gdn_read_scalar_def get_range_def get_scalar_def)
  have dims: "ri_key_dim inp = K" "ri_value_dim inp = V" "ri_token_count inp = t"
      "rp_state_times_key (ri_allocations inp) = V" "rp_delta (ri_allocations inp) = V"
    using assms(1) by (auto simp: gdn_admitted_def)
  have reserve: "gdn_reserve heap role n = Ok []" for role n using assms(2) by (simp add: gdn_reserve_def)
  have out: "try_fold (gdn_output_cell ops V scale q_row s (i * V)) [0..<V] out =
    and_then (try_map (\<lambda>j. try_fold (gdn_read_out ops V scale s j) (enumerate 0 q_row) 0) [0..<V]) (\<lambda>row.
      Ok (take (i * V) out @ row @ drop (i * V + V) out))" for scale q_row s
    by (rule gdn_output_fold) (use assms(4) rows \<open>t * V < 2 ^ 64\<close> in auto)
  show ?thesis
    unfolding gdn_token_def prod.case dims indices and_then.simps reads reserve out Let_def gdn_row_at_def gdn_row_def
      and_then_assoc ..
qed

subsection \<open>One head\<close>

lemma gdn_row_shape:
  assumes "gdn_row ops idx V scale q k v beta gate s = Ok (s', row)"
  shows "length row = V" and "length s' = length s" and "list_all f32_is_finite s'"
proof -
  have update: "length s2 = length s1 \<and> (list_all f32_is_finite s1 \<longrightarrow> list_all f32_is_finite s2)"
    if "try_fold (gdn_update_cell ops V key) cells s1 = Ok s2" for key cells s1 s2
    using that
  proof (induction cells arbitrary: s1)
    case (Cons cell cells)
    then obtain s3 where step: "gdn_update_cell ops V key cell s1 = Ok s3" "try_fold (gdn_update_cell ops V key) cells s3 = Ok s2"
      by auto
    then have "length s3 = length s1 \<and> (list_all f32_is_finite s1 \<longrightarrow> list_all f32_is_finite s3)"
      by (auto simp: gdn_update_cell_def Let_def list_all_iff dest!: set_update_subset_insert [THEN subsetD])
    then show ?case using Cons.IH [OF step(2)] by auto
  qed simp
  have updates: "length s2 = length s1 \<and> (list_all f32_is_finite s1 \<longrightarrow> list_all f32_is_finite s2)"
    if "try_fold (gdn_update ops V delta) keys s1 = Ok s2" for delta keys s1 s2
    using that
  proof (induction keys arbitrary: s1)
    case (Cons key keys)
    then obtain s3 where "gdn_update ops V delta key s1 = Ok s3" "try_fold (gdn_update ops V delta) keys s3 = Ok s2"
      by auto
    then show ?case using Cons.IH update unfolding gdn_update_def by metis
  qed simp
  have decay: "length s2 = length s1 \<and> list_all f32_is_finite s2"
    if "try_map (gdn_decay_cell ops d) (enumerate 0 s1) = Ok s2" for d s1 s2
    using that unfolding try_map_Ok_iff
    by (auto simp: gdn_decay_cell_def Let_def list_all2_conv_all_nth list_all_length)
  show "length row = V"
    using assms by (auto simp: gdn_row_def try_map_Ok_iff dest: list_all2_lengthD)
  show "length s' = length s" "list_all f32_is_finite s'"
    using assms decay updates unfolding gdn_row_def by (fastforce)+
qed

text \<open>The tokens of a head, in order.\<close>

definition gdn_head_scan :: "f32_ops \<Rightarrow> recurrent_input \<Rightarrow> nat \<Rightarrow> (f32 list \<times> f32 list list) gdn" where
  "gdn_head_scan ops inp n = try_scan (gdn_row_at ops inp) [0..<n] (ri_state inp)"

lemma gdn_head_scan_shape:
  assumes "gdn_head_scan ops inp n = Ok (s, rows)" and "list_all f32_is_finite (ri_state inp)"
  shows "length s = length (ri_state inp) \<and> list_all f32_is_finite s \<and> length (concat rows) = n * ri_value_dim inp"
proof -
  have len: "length rows = length xs" if "try_scan (gdn_row_at ops inp) xs s0 = Ok (s, rows)" for xs s0
    using that by (induction xs arbitrary: s0 rows) auto
  have "(length s = length (ri_state inp) \<and> list_all f32_is_finite s) \<and> list_all (\<lambda>row. length row = ri_value_dim inp) rows"
    by (rule try_scan_invariant [OF assms(1) [unfolded gdn_head_scan_def], where
        P = "\<lambda>s. length s = length (ri_state inp) \<and> list_all f32_is_finite s"])
      (use assms(2) in \<open>auto simp: gdn_row_at_def Let_def dest: gdn_row_shape\<close>)
  moreover have "length (concat rows) = length rows * m" if "list_all (\<lambda>row. length row = m) rows" for m
    using that by (induction rows) auto
  ultimately show ?thesis using len [OF assms(1) [unfolded gdn_head_scan_def]] by auto
qed

lemma gdn_tokens_scan:
  assumes "gdn_admitted inp t K V" and "plentiful heap" and "n \<le> t" and "length out = t * V"
  shows "try_fold (gdn_token heap ops inp) [0..<n] (ri_state inp, out) =
    and_then (gdn_head_scan ops inp n) (\<lambda>(s, rows). Ok (s, concat rows @ drop (n * V) out))"
  using assms(3)
proof (induction n)
  case 0
  then show ?case by (simp add: gdn_head_scan_def)
next
  case (Suc n)
  have V: "ri_value_dim inp = V" and finite: "list_all f32_is_finite (ri_state inp)"
    using assms(1) by (auto simp: gdn_admitted_def)
  have step: "gdn_token heap ops inp n (s, concat rows @ drop (n * V) out) =
      and_then (gdn_row_at ops inp n s) (\<lambda>(s, row). Ok (s, concat (rows @ [row]) @ drop (Suc n * V) out))"
    if "gdn_head_scan ops inp n = Ok (s, rows)" for s rows
  proof -
    have rows: "length (concat rows) = n * V" using gdn_head_scan_shape [OF that finite] V by simp
    have "n * V \<le> t * V" using Suc.prems by (intro mult_le_mono1) simp
    then have len: "length (concat rows @ drop (n * V) out) = t * V" using rows assms(4) by simp
    show ?thesis
      unfolding gdn_token_row [OF assms(1,2) _ len, of n, OF Suc_le_lessD [OF Suc.prems]]
      using rows by (simp add: add.commute)
  qed
  have "gdn_head_scan ops inp (Suc n) = and_then (gdn_head_scan ops inp n) (\<lambda>(s, rows).
      and_then (gdn_row_at ops inp n s) (\<lambda>(s, row). Ok (s, rows @ [row])))"
    by (simp add: gdn_head_scan_def try_scan_append case_prod_beta' and_then_assoc)
  then show ?case
    using Suc step by (cases "gdn_head_scan ops inp n") (auto simp: try_fold_append and_then_assoc case_prod_beta')
qed

lemma recurrent_fwd_scan:
  assumes "gdn_admitted inp t K V" and "plentiful heap"
  shows "recurrent_fwd heap ops inp =
    and_then (gdn_head_scan ops inp t) (\<lambda>(s, rows). Ok \<lparr>ro_output = concat rows, ro_state = s\<rparr>)"
proof -
  have plan: "ri_token_count inp = t" "rp_output (ri_allocations inp) = t * V"
    using assms(1) by (auto simp: gdn_admitted_def)
  have reserve: "gdn_reserve heap role n = Ok []" for role n using assms(2) by (simp add: gdn_reserve_def)
  show ?thesis
    unfolding recurrent_fwd_def reserve plan and_then.simps append_Nil
    by (simp add: gdn_tokens_scan [OF assms order_refl] and_then_assoc case_prod_beta')
qed

text \<open>For the witnesses.\<close>

lemmas gdn_eval = kernel_eval gdn_product_def gdn_add_def gdn_allocation_sum_def gdn_reserve_def gdn_nonzero_def
  gdn_matrix_index_def gdn_read_row_def gdn_head_slice_def gdn_read_scalar_def gdn_length_def gdn_scalars_def
  gdn_finite_def recurrent_plan_new_def recurrent_with_allocations_def recurrent_input_new_def gdn_decay_cell_def
  gdn_project_cell_def gdn_project_def gdn_delta_cell_def gdn_update_cell_def gdn_update_def gdn_read_out_def
  gdn_output_cell_def gdn_token_def recurrent_fwd_def

lemmas packed_gdn_eval = gdn_eval packed_eval multi_head_plan_new_def mp_value_heads_per_key_def gdn_key_head_def
  packed_gdn_input_new_def gdn_packed_range_def packed_head_slice_def copy_packed_window_def packed_gdn_head_def
  packed_gdn_sequence_def packed_multi_head_recurrent_fwd_def

end
