(* ===== verification/Kernel_Gdn_Properties.thy ===== *)
theory Kernel_Gdn_Properties
  imports Kernel_Gdn_Rows
begin

text \<open>
  What callers of the recurrence rely on: a sequence may be evaluated in chunks that hand the state on, and
  packed sequences and grouped heads are evaluated as if each were alone.
\<close>

subsection \<open>Chunks\<close>

definition gdn_input ::
  "f32 list \<Rightarrow> f32 list \<Rightarrow> f32 list \<Rightarrow> f32 list \<Rightarrow> f32 list \<Rightarrow> f32 \<Rightarrow> f32 list \<Rightarrow> nat \<Rightarrow> nat \<Rightarrow> recurrent_input" where
  "gdn_input q k v beta g scale state K V =
     \<lparr>ri_q = q, ri_k = k, ri_v = v, ri_beta = beta, ri_g = g, ri_scale = scale, ri_state = state,
      ri_token_count = length beta, ri_key_dim = K, ri_value_dim = V,
      ri_allocations = \<lparr>rp_query_and_key = length beta * K, rp_output = length beta * V, rp_state = K * V,
        rp_state_times_key = V, rp_delta = V\<rparr>\<rparr>"

lemma recurrent_input_new_eq:
  "recurrent_input_new q k v beta g scale state K V = Ok inp \<longleftrightarrow>
     gdn_admitted inp (length beta) K V \<and> inp = gdn_input q k v beta g scale state K V"
  by (cases inp) (auto simp: recurrent_input_new_Ok_iff gdn_input_def gdn_admitted_def)

lemma gdn_head_scan_append:
  assumes "length q1 = length b1 * K" and "length k1 = length b1 * K" and "length v1 = length b1 * V"
    and "length g1 = length b1"
  shows "gdn_head_scan ops (gdn_input (q1 @ q2) (k1 @ k2) (v1 @ v2) (b1 @ b2) (g1 @ g2) scale s K V) (length b1 + n) = Ok (s', rows) \<longleftrightarrow>
    (\<exists>s1 rows1 rows2. gdn_head_scan ops (gdn_input q1 k1 v1 b1 g1 scale s K V) (length b1) = Ok (s1, rows1) \<and>
      gdn_head_scan ops (gdn_input q2 k2 v2 b2 g2 scale s1 K V) n = Ok (s', rows2) \<and> rows = rows1 @ rows2)"
proof -
  let ?whole = "gdn_input (q1 @ q2) (k1 @ k2) (v1 @ v2) (b1 @ b2) (g1 @ g2) scale s K V"
  have left: "gdn_row_at ops ?whole i u = gdn_row_at ops (gdn_input q1 k1 v1 b1 g1 scale s K V) i u"
    if "i < length b1" for i u
  proof -
    have "Suc i * K \<le> length b1 * K" "Suc i * V \<le> length b1 * V" using that by (intro mult_le_mono1; simp)+
    then have "i * K + K \<le> length b1 * K" "i * V + V \<le> length b1 * V" by simp_all
    then show ?thesis
      using that assms by (simp add: gdn_row_at_def gdn_input_def Let_def nth_append)
  qed
  have right: "gdn_row_at ops ?whole (length b1 + i) u = Ok r \<longleftrightarrow>
      gdn_row_at ops (gdn_input q2 k2 v2 b2 g2 scale s1 K V) i u = Ok r" for i u r s1
    using gdn_row_index [where ops = ops and i = "length b1 + i" and j = i] assms
    by (simp add: gdn_row_at_def gdn_input_def Let_def nth_append add_mult_distrib)
  have first: "try_scan (gdn_row_at ops ?whole) [0..<length b1] s = Ok r \<longleftrightarrow>
      gdn_head_scan ops (gdn_input q1 k1 v1 b1 g1 scale s K V) (length b1) = Ok r" for r
    unfolding gdn_head_scan_def using left
    by (subst try_scan_Ok_cong [where g = "gdn_row_at ops (gdn_input q1 k1 v1 b1 g1 scale s K V)"])
      (auto simp: gdn_input_def)
  have second: "try_scan (gdn_row_at ops ?whole) (map (\<lambda>i. length b1 + i) [0..<n]) s1 = Ok r \<longleftrightarrow>
      gdn_head_scan ops (gdn_input q2 k2 v2 b2 g2 scale s1 K V) n = Ok r" for r s1
    unfolding gdn_head_scan_def try_scan_map
    by (subst try_scan_Ok_cong [where g = "gdn_row_at ops (gdn_input q2 k2 v2 b2 g2 scale s1 K V)"])
      (use right in \<open>auto simp: gdn_input_def\<close>)
  have "gdn_head_scan ops ?whole (length b1 + n) = try_scan (gdn_row_at ops ?whole) [0..<length b1 + n] s"
    by (simp add: gdn_head_scan_def gdn_input_def)
  then show ?thesis unfolding upt_split try_scan_append by (simp add: case_prod_beta' first second) fastforce
qed

lemma recurrent_fwd_gdn_input:
  assumes "gdn_admitted (gdn_input q k v b g scale s K V) (length b) K V" and "plentiful heap"
  shows "recurrent_fwd heap ops (gdn_input q k v b g scale s K V) = Ok r \<longleftrightarrow>
    (\<exists>rows. gdn_head_scan ops (gdn_input q k v b g scale s K V) (length b) = Ok (ro_state r, rows) \<and> ro_output r = concat rows)"
  unfolding recurrent_fwd_scan [OF assms] by (cases r) auto

lemma recurrent_fwd_after:
  assumes "gdn_admitted (gdn_input q k v b g scale s K V) (length b) K V" and "plentiful heap"
  shows "(\<exists>rows. gdn_head_scan ops (gdn_input q k v b g scale s K V) (length b) = Ok (ro_state r, rows) \<and>
      ro_output r = before @ concat rows) \<longleftrightarrow>
    (\<exists>r2. recurrent_fwd heap ops (gdn_input q k v b g scale s K V) = Ok r2 \<and>
      r = \<lparr>ro_output = before @ ro_output r2, ro_state = ro_state r2\<rparr>)"
  unfolding recurrent_fwd_scan [OF assms] by (cases r) auto

lemma gdn_chunks_admitted:
  assumes "gdn_admitted (gdn_input (q1 @ q2) (k1 @ k2) (v1 @ v2) (b1 @ b2) (g1 @ g2) scale state K V) (length b1 + length b2) K V"
    and "b1 \<noteq> []" and "b2 \<noteq> []" and "length q1 = length b1 * K" and "length k1 = length b1 * K"
    and "length v1 = length b1 * V" and "length g1 = length b1"
  shows "gdn_admitted (gdn_input q1 k1 v1 b1 g1 scale state K V) (length b1) K V"
    and "length s = K * V \<Longrightarrow> list_all f32_is_finite s \<Longrightarrow> gdn_admitted (gdn_input q2 k2 v2 b2 g2 scale s K V) (length b2) K V"
proof -
  have "length b1 * K \<le> (length b1 + length b2) * K" "length b2 * K \<le> (length b1 + length b2) * K"
      "length b1 * V \<le> (length b1 + length b2) * V" "length b2 * V \<le> (length b1 + length b2) * V"
    by (intro mult_le_mono1; simp)+
  then show "gdn_admitted (gdn_input q1 k1 v1 b1 g1 scale state K V) (length b1) K V"
    and "length s = K * V \<Longrightarrow> list_all f32_is_finite s \<Longrightarrow> gdn_admitted (gdn_input q2 k2 v2 b2 g2 scale s K V) (length b2) K V"
    using assms by (auto simp: gdn_admitted_def gdn_input_def add_mult_distrib)
qed

text \<open>C24: the recurrence may be evaluated in chunks: with memory to spare the whole sequence has a result exactly when a prefix
  does and the rest does from the state the prefix left; the outputs are then those of the two chunks one
  after the other and the final state is that of the second, bit for bit, whatever f32 arithmetic does.\<close>

theorem recurrence_in_chunks:
  assumes "recurrent_input_new (q1 @ q2) (k1 @ k2) (v1 @ v2) (b1 @ b2) (g1 @ g2) scale state K V = Ok whole"
    and "b1 \<noteq> []" and "b2 \<noteq> []" and "length q1 = length b1 * K" and "length k1 = length b1 * K"
    and "length v1 = length b1 * V" and "length g1 = length b1" and "plentiful heap"
  shows "recurrent_fwd heap ops whole = Ok r \<longleftrightarrow>
    (\<exists>first r1 second r2.
      recurrent_input_new q1 k1 v1 b1 g1 scale state K V = Ok first \<and> recurrent_fwd heap ops first = Ok r1 \<and>
      recurrent_input_new q2 k2 v2 b2 g2 scale (ro_state r1) K V = Ok second \<and>
      recurrent_fwd heap ops second = Ok r2 \<and>
      r = \<lparr>ro_output = ro_output r1 @ ro_output r2, ro_state = ro_state r2\<rparr>)"
proof -
  let ?first = "gdn_input q1 k1 v1 b1 g1 scale state K V"
  let ?second = "\<lambda>s. gdn_input q2 k2 v2 b2 g2 scale s K V"
  have whole: "gdn_admitted whole (length (b1 @ b2)) K V"
      "whole = gdn_input (q1 @ q2) (k1 @ k2) (v1 @ v2) (b1 @ b2) (g1 @ g2) scale state K V"
    using assms(1) by (auto simp: recurrent_input_new_eq)
  note chunks = gdn_chunks_admitted [OF _ assms(2-7), of q2 k2 v2 g2 scale state]
  have admitted1: "gdn_admitted ?first (length b1) K V"
    and admitted2: "length s = K * V \<Longrightarrow> list_all f32_is_finite s \<Longrightarrow> gdn_admitted (?second s) (length b2) K V" for s
    using chunks whole by simp_all
  have ready: "gdn_admitted (?second s1) (length b2) K V"
    if "gdn_head_scan ops ?first (length b1) = Ok (s1, rows1)" for s1 rows1
    by (rule admitted2) (use gdn_head_scan_shape [OF that] admitted1 in \<open>auto simp: gdn_admitted_def\<close>)
  have "recurrent_fwd heap ops whole = Ok r \<longleftrightarrow> (\<exists>s1 rows1. gdn_head_scan ops ?first (length b1) = Ok (s1, rows1) \<and>
      (\<exists>rows2. gdn_head_scan ops (?second s1) (length b2) = Ok (ro_state r, rows2) \<and> ro_output r = concat rows1 @ concat rows2))"
    unfolding whole(2) recurrent_fwd_gdn_input [OF whole(1) [unfolded whole(2)] assms(8)] length_append
      gdn_head_scan_append [OF assms(4-7)] concat_append [symmetric] by blast
  also have "\<dots> \<longleftrightarrow> (\<exists>s1 rows1. gdn_head_scan ops ?first (length b1) = Ok (s1, rows1) \<and>
      (\<exists>r2. gdn_admitted (?second s1) (length b2) K V \<and> recurrent_fwd heap ops (?second s1) = Ok r2 \<and>
        r = \<lparr>ro_output = concat rows1 @ ro_output r2, ro_state = ro_state r2\<rparr>))"
    by (intro iff_exI conj_cong refl, subst recurrent_fwd_after [OF ready assms(8)], assumption) (simp add: ready)
  also have "\<dots> \<longleftrightarrow> (\<exists>r1. recurrent_fwd heap ops ?first = Ok r1 \<and>
      (\<exists>r2. gdn_admitted (?second (ro_state r1)) (length b2) K V \<and> recurrent_fwd heap ops (?second (ro_state r1)) = Ok r2 \<and>
        r = \<lparr>ro_output = ro_output r1 @ ro_output r2, ro_state = ro_state r2\<rparr>))"
    unfolding recurrent_fwd_scan [OF admitted1 assms(8)] by (auto simp: split_beta)
  finally show ?thesis unfolding recurrent_input_new_eq using admitted1 by blast
qed

theorem recurrence_in_chunks_witness:
  "\<exists>first r1 second r2.
    recurrent_input_new [1] [1] [3] [1] [0] 1 [2] 1 1 = Ok first \<and>
    recurrent_fwd (\<lambda>role n. True) kernel_sample_ops first = Ok r1 \<and>
    recurrent_input_new [2] [1] [4] [1] [0] 1 (ro_state r1) 1 1 = Ok second \<and>
    recurrent_fwd (\<lambda>role n. True) kernel_sample_ops second = Ok r2 \<and>
    \<lparr>ro_output = [3, 8], ro_state = [4]\<rparr> = \<lparr>ro_output = ro_output r1 @ ro_output r2, ro_state = ro_state r2\<rparr>"
proof -
  let ?whole = "gdn_input ([1] @ [2]) ([1] @ [1]) ([3] @ [4]) ([1] @ [1]) ([0] @ [0]) 1 [2] 1 1"
  have admitted: "recurrent_input_new ([1] @ [2]) ([1] @ [1]) ([3] @ [4]) ([1] @ [1]) ([0] @ [0]) 1 [2] 1 1 = Ok ?whole"
    by (simp add: gdn_eval gdn_input_def)
  have ran: "recurrent_fwd (\<lambda>role n. True) kernel_sample_ops ?whole = Ok \<lparr>ro_output = [3, 8], ro_state = [4]\<rparr>"
    by (simp add: gdn_eval gdn_input_def kernel_sample_ops_def)
  show ?thesis
    using ran recurrence_in_chunks [OF admitted, where heap = "\<lambda>role n. True" and ops = kernel_sample_ops and
        r = "\<lparr>ro_output = [3, 8], ro_state = [4]\<rparr>"]
    by simp
qed

subsection \<open>Packed sequences of grouped heads\<close>

text \<open>
  Packed sequences of grouped heads: every pair of a sequence and a value head is evaluated as if alone.
  A buffer with a head axis and a packed token axis is a grid of windows; the evaluation writes the
  windows in another order than they lie in the output.
\<close>

subsection \<open>Grids of windows\<close>

definition grid :: "(nat \<Rightarrow> nat \<Rightarrow> 'a list) \<Rightarrow> nat \<Rightarrow> nat \<Rightarrow> 'a list" where
  "grid T a b = concat (map (\<lambda>i. concat (map (T i) [0..<b])) [0..<a])"

definition windows :: "(nat \<Rightarrow> nat \<Rightarrow> 'a list) \<Rightarrow> nat \<Rightarrow> nat list \<Rightarrow> bool" where
  "windows T a lens \<longleftrightarrow> (\<forall>i < a. \<forall>j < length lens. length (T i j) = lens ! j)"

lemma grid_cong: "(\<And>i j. i < a \<Longrightarrow> j < b \<Longrightarrow> T i j = U i j) \<Longrightarrow> grid T a b = grid U a b"
  unfolding grid_def by (intro arg_cong [where f = concat] map_cong refl) simp

lemma windows_update: "windows T a lens \<Longrightarrow> (i < a \<Longrightarrow> j < length lens \<Longrightarrow> length x = lens ! j) \<Longrightarrow>
    windows (T(i := (T i)(j := x))) a lens"
  by (simp add: windows_def)

lemma row_length:
  assumes "\<forall>j < length lens. length (f j) = lens ! j" and "n \<le> length lens"
  shows "length (concat (map f [0..<n])) = starts_of lens n"
  using assms(2) by (induction n) (auto simp: assms(1) starts_of_Suc)

lemma rows_length: "windows T a lens \<Longrightarrow> i \<le> a \<Longrightarrow>
    length (concat (map (\<lambda>i. concat (map (T i) [0..<length lens])) [0..<i])) = i * sum_list lens"
  by (induction i) (auto simp: windows_def row_length [of lens _ "length lens"])

lemma grid_length: "windows T a lens \<Longrightarrow> length (grid T a (length lens)) = a * sum_list lens"
  unfolding grid_def by (rule rows_length) auto

lemma upt_split3: "i < n \<Longrightarrow> [0..<n] = [0..<i] @ i # [Suc i..<n]"
  using upt_add_eq_append [of 0 i "n - i"] by (simp add: upt_conv_Cons)

lemma grid_split:
  assumes "windows T a lens" and i: "i < a" and j: "j < length lens"
  obtains before after where "\<And>x. grid (T(i := (T i)(j := x))) a (length lens) = before @ x @ after"
    and "grid T a (length lens) = before @ T i j @ after" and "length before = i * sum_list lens + starts_of lens j"
proof -
  let ?row = "\<lambda>i. concat (map (T i) [0..<length lens])"
  let ?b = "concat (map ?row [0..<i])" and ?a = "concat (map ?row [Suc i..<a])"
  let ?c = "concat (map (T i) [0..<j])" and ?d = "concat (map (T i) [Suc j..<length lens])"
  have update: "grid (T(i := (T i)(j := x))) a (length lens) = (?b @ ?c) @ x @ (?d @ ?a)" for x
  proof -
    have middle: "concat (map ((T i)(j := x)) [0..<length lens]) = ?c @ x @ ?d" by (simp add: upt_split3 [OF j])
    have keep: "map (\<lambda>k. concat (map ((T(i := (T i)(j := x))) k) [0..<length lens])) ks = map ?row ks"
      if "i \<notin> set ks" for ks
      using that by (auto intro!: map_cong arg_cong [where f = concat])
    have "i \<notin> set [0..<i]" "i \<notin> set [Suc i..<a]" by simp_all
    then show ?thesis
      unfolding grid_def upt_split3 [OF i] map_append list.map(2) keep [OF \<open>i \<notin> set [0..<i]\<close>]
        keep [OF \<open>i \<notin> set [Suc i..<a]\<close>] fun_upd_same middle by simp
  qed
  have "grid T a (length lens) = (?b @ ?c) @ T i j @ (?d @ ?a)" using update [of "T i j"] by simp
  moreover have "length (?b @ ?c) = i * sum_list lens + starts_of lens j"
    using assms rows_length [OF assms(1), of i] row_length [of lens "T i" j] by (simp add: windows_def)
  ultimately show thesis using update that by blast
qed

lemma grid_get:
  assumes "windows T a lens" and "i < a" and "j < length lens"
    and "start = i * sum_list lens + starts_of lens j" and "finish = start + lens ! j"
  shows "get_range (grid T a (length lens)) start finish = Some (T i j)"
proof (rule grid_split [OF assms(1-3)])
  fix before after
  assume "grid T a (length lens) = before @ T i j @ after" and "length before = i * sum_list lens + starts_of lens j"
  moreover have "length (T i j) = lens ! j" using assms(1-3) by (simp add: windows_def)
  ultimately show ?thesis using assms(4,5) by (simp add: get_range_def)
qed

lemma grid_put:
  assumes "windows T a lens" and "i < a" and "j < length lens"
    and "start = i * sum_list lens + starts_of lens j" and "finish = start + lens ! j" and "length x = lens ! j"
  shows "copy_packed_window (grid T a (length lens)) start finish x name =
    Ok (grid (T(i := (T i)(j := x))) a (length lens))"
proof (rule grid_split [OF assms(1-3)])
  fix before after
  assume "\<And>x. grid (T(i := (T i)(j := x))) a (length lens) = before @ x @ after"
    and "grid T a (length lens) = before @ T i j @ after" and "length before = i * sum_list lens + starts_of lens j"
  moreover have "length (T i j) = lens ! j" using assms(1-3) by (simp add: windows_def)
  ultimately show ?thesis
    using assms(4-6) grid_get [OF assms(1-5)] by (simp add: copy_packed_window_def gdn_length_def)
qed

lemma grid_replicate: "grid (\<lambda>i j. replicate (lens ! j) x) a (length lens) = replicate (a * sum_list lens) x"
proof -
  have "windows (\<lambda>i j. replicate (lens ! j) x) a lens" by (simp add: windows_def)
  then have "length (grid (\<lambda>i j. replicate (lens ! j) x) a (length lens)) = a * sum_list lens" by (rule grid_length)
  moreover have "\<forall>y \<in> set (grid (\<lambda>i j. replicate (lens ! j) x) a (length lens)). y = x" by (auto simp: grid_def)
  ultimately show ?thesis by (metis replicate_length_same)
qed

lemma grid_bound:
  fixes i j :: nat
  assumes "i < a" and "j < length lens"
  shows "i * sum_list lens + starts_of lens j + lens ! j \<le> a * sum_list lens"
proof -
  have "starts_of lens j + lens ! j \<le> sum_list lens" using starts_of_le [of lens "Suc j"] assms(2) by (simp add: starts_of_Suc)
  moreover have "Suc i * sum_list lens \<le> a * sum_list lens" using assms(1) by (intro mult_le_mono1) simp
  ultimately show ?thesis by simp
qed

subsection \<open>One window\<close>

lemma multi_head_plan_new_Ok:
  assumes "multi_head_plan_new t kh vh K V = Ok p"
  shows "0 < t" and "0 < kh" and "0 < vh" and "0 < K" and "0 < V" and "vh mod kh = 0"
    and "kh * (t * K) < 2 ^ 64" and "vh * (t * V) < 2 ^ 64" and "vh * t < 2 ^ 64" and "vh * (K * V) < 2 ^ 64"
    and "t * K < 2 ^ 64" and "t * V < 2 ^ 64" and "K * V < 2 ^ 64"
    and "mp_key_head_count p = kh" and "mp_value_head_count p = vh" and "mp_key_dim p = K" and "mp_value_dim p = V"
    and "mp_query_and_key_elements p = kh * (t * K)" and "mp_output_elements p = vh * (t * V)"
    and "mp_scalar_elements p = vh * t" and "mp_state_elements p = vh * (K * V)" and "rp_output (mp_head p) = t * V"
  using assms by (auto simp: multi_head_plan_new_def recurrent_plan_new_Ok_iff split: if_splits)

lemma gdn_key_head_Ok:
  assumes "multi_head_plan_new t kh vh K V = Ok p" and "h < vh"
  shows "gdn_key_head p h = Ok (h div (vh div kh))" and "h div (vh div kh) < kh"
proof -
  note plan = multi_head_plan_new_Ok [OF assms(1)]
  have vh: "vh = kh * (vh div kh)" using plan(6) by (metis mult_div_mod_eq add_0_right)
  then have pos: "0 < vh div kh" using plan(3) by (metis gr0I mult_0_right)
  then show "gdn_key_head p h = Ok (h div (vh div kh))"
    using plan(2) by (simp add: gdn_key_head_def mp_value_heads_per_key_def plan)
  show "h div (vh div kh) < kh"
    using assms(2) vh pos by (metis less_mult_imp_div_less)
qed

lemma packed_head_slice_window:
  assumes "windows T a (map (\<lambda>n. n * w) lengths)" and "i < a" and "j < length lengths"
    and "a * (sum_list lengths * w) < 2 ^ 64"
  shows "packed_head_slice (grid T a (length lengths)) i (sum_list lengths) w
    (starts_of lengths j, starts_of lengths (Suc j)) name = Ok (T i j)"
proof -
  let ?lens = "map (\<lambda>n. n * w) lengths"
  have sum: "sum_list ?lens = sum_list lengths * w" by (simp add: sum_list_mult_const)
  have "i * (sum_list lengths * w) + starts_of lengths j * w + lengths ! j * w \<le> a * (sum_list lengths * w)"
    using grid_bound [OF assms(2), of j ?lens] assms(3) by (simp add: sum starts_of_scale)
  then have bounds: "i * (sum_list lengths * w) + starts_of lengths j * w + lengths ! j * w < 2 ^ 64"
    using assms(4) by simp
  have stride: "sum_list lengths * w < 2 ^ 64"
    using assms(2,4) by (cases a) auto
  have get: "get_range (grid T a (length lengths)) (i * (sum_list lengths * w) + starts_of lengths j * w)
      (i * (sum_list lengths * w) + starts_of lengths j * w + lengths ! j * w) = Some (T i j)"
    using grid_get [OF assms(1,2)] assms(3) by (simp add: sum starts_of_scale)
  show ?thesis
    using bounds stride get assms(3)
    by (simp add: packed_head_slice_def gdn_product_def gdn_add_def usize_mul_def usize_add_def gdn_read_row_def
        starts_of_Suc)
qed

definition gdn_alone ::
  "allocator \<Rightarrow> f32_ops \<Rightarrow> f32 list \<Rightarrow> f32 list \<Rightarrow> f32 list \<Rightarrow> f32 list \<Rightarrow> f32 list \<Rightarrow> f32 \<Rightarrow> f32 list \<Rightarrow> nat \<Rightarrow> nat \<Rightarrow>
   recurrent_output gdn" where
  "gdn_alone heap ops q k v beta g scale s K V =
     and_then (recurrent_input_new q k v beta g scale s K V) (recurrent_fwd heap ops)"

lemma gdn_alone_shape:
  assumes "gdn_alone heap ops q k v beta g scale s K V = Ok r" and "plentiful heap"
  shows "length (ro_output r) = length beta * V" and "length (ro_state r) = K * V"
proof -
  obtain one where one: "recurrent_input_new q k v beta g scale s K V = Ok one" "recurrent_fwd heap ops one = Ok r"
    using assms(1) by (auto simp: gdn_alone_def)
  then have admitted: "gdn_admitted one (length beta) K V" by (simp add: recurrent_input_new_Ok_iff)
  then have facts: "ri_value_dim one = V" "list_all f32_is_finite (ri_state one)" "length (ri_state one) = K * V"
    by (auto simp: gdn_admitted_def)
  obtain s' rows where "gdn_head_scan ops one (length beta) = Ok (s', rows)" "r = \<lparr>ro_output = concat rows, ro_state = s'\<rparr>"
    using one(2) by (auto simp: recurrent_fwd_scan [OF admitted assms(2)])
  then show "length (ro_output r) = length beta * V" "length (ro_state r) = K * V"
    using gdn_head_scan_shape [OF _ facts(2)] facts by auto
qed

text \<open>A pair of a sequence and a value head, with the windows of the buffers it reads.\<close>

record packed_grids =
  gr_q :: "nat \<Rightarrow> nat \<Rightarrow> f32 list"
  gr_k :: "nat \<Rightarrow> nat \<Rightarrow> f32 list"
  gr_v :: "nat \<Rightarrow> nat \<Rightarrow> f32 list"
  gr_beta :: "nat \<Rightarrow> nat \<Rightarrow> f32 list"
  gr_g :: "nat \<Rightarrow> nat \<Rightarrow> f32 list"
  gr_state :: "nat \<Rightarrow> nat \<Rightarrow> f32 list"

definition grids_fit :: "packed_grids \<Rightarrow> nat list \<Rightarrow> nat \<Rightarrow> nat \<Rightarrow> nat \<Rightarrow> nat \<Rightarrow> bool" where
  "grids_fit G lengths kh vh K V \<longleftrightarrow>
     windows (gr_q G) kh (map (\<lambda>n. n * K) lengths) \<and> windows (gr_k G) kh (map (\<lambda>n. n * K) lengths) \<and>
     windows (gr_v G) vh (map (\<lambda>n. n * V) lengths) \<and> windows (gr_beta G) vh lengths \<and> windows (gr_g G) vh lengths \<and>
     windows (gr_state G) (length lengths) (replicate vh (K * V))"

definition packed_of_grids ::
  "packed_grids \<Rightarrow> packed_plan \<Rightarrow> nat \<Rightarrow> f32 \<Rightarrow> nat \<Rightarrow> nat \<Rightarrow> nat \<Rightarrow> nat \<Rightarrow> packed_gdn_input gdn" where
  "packed_of_grids G packed n scale kh vh K V =
     packed_gdn_input_new (grid (gr_q G) kh n) (grid (gr_k G) kh n) (grid (gr_v G) vh n) (grid (gr_beta G) vh n)
       (grid (gr_g G) vh n) scale (grid (gr_state G) n vh) packed kh vh K V"

definition head_alone ::
  "allocator \<Rightarrow> f32_ops \<Rightarrow> packed_grids \<Rightarrow> f32 \<Rightarrow> nat \<Rightarrow> nat \<Rightarrow> nat \<Rightarrow> nat \<Rightarrow> nat \<Rightarrow> nat \<Rightarrow> recurrent_output gdn" where
  "head_alone heap ops G scale kh vh K V s h =
     gdn_alone heap ops (gr_q G (h div (vh div kh)) s) (gr_k G (h div (vh div kh)) s) (gr_v G h s) (gr_beta G h s)
       (gr_g G h s) scale (gr_state G s h) K V"

lemma packed_of_grids_Ok:
  assumes "packed_of_grids G packed n scale kh vh K V = Ok inp"
  obtains plan where "multi_head_plan_new (pp_total_tokens packed) kh vh K V = Ok plan"
    and "pp_sequence_count packed * (vh * (K * V)) < 2 ^ 64"
    and "inp = \<lparr>pg_q = grid (gr_q G) kh n, pg_k = grid (gr_k G) kh n, pg_v = grid (gr_v G) vh n,
      pg_beta = grid (gr_beta G) vh n, pg_g = grid (gr_g G) vh n, pg_scale = scale, pg_state = grid (gr_state G) n vh,
      pg_packed = packed, pg_allocations = plan\<rparr>"
proof -
  obtain plan where plan: "multi_head_plan_new (pp_total_tokens packed) kh vh K V = Ok plan"
    using assms by (auto simp: packed_of_grids_def packed_gdn_input_new_def)
  moreover have "mp_state_elements plan = vh * (K * V)" using multi_head_plan_new_Ok [OF plan] by simp
  ultimately show thesis
    using that assms by (auto simp: packed_of_grids_def packed_gdn_input_new_def)
qed

lemma packed_head_window:
  assumes plan: "plan_of packed lengths offsets"
    and admitted: "packed_of_grids G packed (length lengths) scale kh vh K V = Ok inp"
    and fit: "grids_fit G lengths kh vh K V" and heap: "plentiful heap"
    and s: "s < length lengths" and h: "h < vh"
    and head: "recurrent_plan_new (lengths ! s) K V = Ok head"
    and out: "windows T vh (map (\<lambda>n. n * V) lengths)" and state: "windows U (length lengths) (replicate vh (K * V))"
  shows "packed_gdn_head heap ops inp (starts_of lengths s, starts_of lengths (Suc s)) head (s * (vh * (K * V))) h
      (grid T vh (length lengths), grid U (length lengths) vh) =
    and_then (head_alone heap ops G scale kh vh K V s h) (\<lambda>r.
      Ok (grid (T(h := (T h)(s := ro_output r))) vh (length lengths),
          grid (U(s := (U s)(h := ro_state r))) (length lengths) vh))"
proof -
  note total = plan_of_simps(2) [OF plan]
  obtain p where p: "multi_head_plan_new (sum_list lengths) kh vh K V = Ok p"
    and states: "length lengths * (vh * (K * V)) < 2 ^ 64"
    and inp: "inp = \<lparr>pg_q = grid (gr_q G) kh (length lengths), pg_k = grid (gr_k G) kh (length lengths),
      pg_v = grid (gr_v G) vh (length lengths), pg_beta = grid (gr_beta G) vh (length lengths),
      pg_g = grid (gr_g G) vh (length lengths), pg_scale = scale, pg_state = grid (gr_state G) (length lengths) vh,
      pg_packed = packed, pg_allocations = p\<rparr>"
    using packed_of_grids_Ok [OF admitted] by (metis plan_of_simps(1,2) [OF plan])
  note dims = multi_head_plan_new_Ok [OF p] and key = gdn_key_head_Ok [OF p h]
  have slices: "packed_head_slice (grid (gr_q G) kh (length lengths)) (h div (vh div kh)) (sum_list lengths) K
      (starts_of lengths s, starts_of lengths (Suc s)) name = Ok (gr_q G (h div (vh div kh)) s)"
    "packed_head_slice (grid (gr_k G) kh (length lengths)) (h div (vh div kh)) (sum_list lengths) K
      (starts_of lengths s, starts_of lengths (Suc s)) name = Ok (gr_k G (h div (vh div kh)) s)"
    "packed_head_slice (grid (gr_v G) vh (length lengths)) h (sum_list lengths) V
      (starts_of lengths s, starts_of lengths (Suc s)) name = Ok (gr_v G h s)"
    "packed_head_slice (grid (gr_beta G) vh (length lengths)) h (sum_list lengths) 1
      (starts_of lengths s, starts_of lengths (Suc s)) name = Ok (gr_beta G h s)"
    "packed_head_slice (grid (gr_g G) vh (length lengths)) h (sum_list lengths) 1
      (starts_of lengths s, starts_of lengths (Suc s)) name = Ok (gr_g G h s)" for name
    using fit dims key(2) h s by (auto simp: grids_fit_def intro!: packed_head_slice_window)
  let ?states = "replicate vh (K * V)"
  have sums: "sum_list ?states = vh * (K * V)" "starts_of ?states h = h * (K * V)"
    using h by (simp_all add: sum_list_replicate starts_of_replicate)
  have bound: "s * (vh * (K * V)) + h * (K * V) + K * V < 2 ^ 64"
    using grid_bound [OF s, of h ?states] h states by (simp add: sums)
  have indices: "gdn_product h (K * V) d = Ok (h * (K * V))"
    "gdn_add (s * (vh * (K * V))) (h * (K * V)) d = Ok (s * (vh * (K * V)) + h * (K * V))"
    "gdn_add (s * (vh * (K * V)) + h * (K * V)) (K * V) d = Ok (s * (vh * (K * V)) + h * (K * V) + K * V)" for d
    using bound by (auto simp del: mult.assoc)
  have prior: "gdn_read_row (grid (gr_state G) (length lengths) vh) (s * (vh * (K * V)) + h * (K * V))
      (s * (vh * (K * V)) + h * (K * V) + K * V) name = Ok (gr_state G s h)" for name
    using fit grid_get [of "gr_state G" "length lengths" ?states s h] s h sums
    by (simp add: grids_fit_def gdn_read_row_def)
  let ?outs = "map (\<lambda>n. n * V) lengths"
  have osum: "sum_list ?outs = sum_list lengths * V" "starts_of ?outs s = starts_of lengths s * V"
    by (simp_all add: sum_list_mult_const starts_of_scale)
  have obound: "h * (sum_list lengths * V) + starts_of lengths s * V + lengths ! s * V < 2 ^ 64"
    using grid_bound [OF h, of s ?outs] dims(8) s by (simp add: osum)
  have oindices: "gdn_product h (sum_list lengths * V) d = Ok (h * (sum_list lengths * V))"
    "gdn_product (starts_of lengths s) V d = Ok (starts_of lengths s * V)"
    "gdn_add (h * (sum_list lengths * V)) (starts_of lengths s * V) d =
      Ok (h * (sum_list lengths * V) + starts_of lengths s * V)"
    "gdn_add (h * (sum_list lengths * V) + starts_of lengths s * V) (lengths ! s * V) d =
      Ok (h * (sum_list lengths * V) + starts_of lengths s * V + lengths ! s * V)" for d
    using obound by auto
  have beta: "length (gr_beta G h s) = lengths ! s" using fit h s by (simp add: grids_fit_def windows_def)
  have put: "and_then (copy_packed_window (grid T vh (length lengths)) (h * (sum_list lengths * V) + starts_of lengths s * V)
        (h * (sum_list lengths * V) + starts_of lengths s * V + lengths ! s * V) (ro_output r) d) (\<lambda>out.
      and_then (copy_packed_window (grid U (length lengths) vh) (s * (vh * (K * V)) + h * (K * V))
        (s * (vh * (K * V)) + h * (K * V) + K * V) (ro_state r) d') (\<lambda>state. Ok (out, state))) =
      Ok (grid (T(h := (T h)(s := ro_output r))) vh (length lengths),
          grid (U(s := (U s)(h := ro_state r))) (length lengths) vh)"
    if "head_alone heap ops G scale kh vh K V s h = Ok r" for r d d'
  proof -
    have shape: "length (ro_output r) = lengths ! s * V" "length (ro_state r) = K * V"
      using gdn_alone_shape [OF that [unfolded head_alone_def] heap] beta by auto
    show ?thesis
      using grid_put [OF out h, of s _ _ "ro_output r" d] grid_put [OF state s, of h _ _ "ro_state r" d'] s h
      by (simp add: shape osum sums)
  qed
  have admit: "recurrent_with_allocations q k v (gr_beta G h s) g scale st K V head =
      recurrent_input_new q k v (gr_beta G h s) g scale st K V" for q k v g st
    by (simp add: recurrent_input_new_def beta head)
  have plans: "rp_state head = K * V" "rp_output head = lengths ! s * V"
    using head by (auto simp: recurrent_plan_new_Ok_iff)
  show ?thesis
    unfolding packed_gdn_head_def Let_def inp packed_gdn_input.simps total key(1) and_then.simps dims(14-22) slices plans
      indices prior admit oindices fst_conv snd_conv
    using put by (cases "head_alone heap ops G scale kh vh K V s h")
      (auto simp: head_alone_def gdn_alone_def and_then_assoc [symmetric])
qed

subsection \<open>All windows\<close>

lemma grid_fold:
  assumes step: "\<And>s h T U. (s, h) \<in> set ps \<Longrightarrow> windows T vh ol \<Longrightarrow> windows U n sl \<Longrightarrow>
      step s h (grid T vh n, grid U n vh) = and_then (alone s h) (\<lambda>r :: recurrent_output.
        Ok (grid (T(h := (T h)(s := ro_output r))) vh n, grid (U(s := (U s)(h := ro_state r))) n vh))"
    and shape: "\<And>s h r. (s, h) \<in> set ps \<Longrightarrow> alone s h = Ok r \<Longrightarrow> length (ro_output r) = ol ! s \<and> length (ro_state r) = sl ! h"
    and T: "windows T vh ol" and U: "windows U n sl"
  shows "try_fold (\<lambda>(s, h). step s h) ps (grid T vh n, grid U n vh) = Ok z \<longleftrightarrow>
    (\<exists>R. (\<forall>(s, h) \<in> set ps. alone s h = Ok (R s h)) \<and>
      z = (grid (\<lambda>h s. if (s, h) \<in> set ps then ro_output (R s h) else T h s) vh n,
           grid (\<lambda>s h. if (s, h) \<in> set ps then ro_state (R s h) else U s h) n vh))"
  using assms
proof (induction ps arbitrary: T U)
  case Nil
  then show ?case by auto
next
  case (Cons p ps)
  obtain s h where p: "p = (s, h)" by (cases p)
  let ?T = "\<lambda>r. T(h := (T h)(s := ro_output r))" and ?U = "\<lambda>r. U(s := (U s)(h := ro_state r))"
  have first: "step s h (grid T vh n, grid U n vh) = and_then (alone s h) (\<lambda>r. Ok (grid (?T r) vh n, grid (?U r) n vh))"
    by (rule Cons.prems(1) [OF _ Cons.prems(3,4)]) (simp add: p)
  have rest: "try_fold (\<lambda>(s, h). step s h) ps (grid (?T r) vh n, grid (?U r) n vh) = Ok z \<longleftrightarrow>
      (\<exists>R. (\<forall>(s, h) \<in> set ps. alone s h = Ok (R s h)) \<and>
        z = (grid (\<lambda>h' s'. if (s', h') \<in> set ps then ro_output (R s' h') else ?T r h' s') vh n,
             grid (\<lambda>s' h'. if (s', h') \<in> set ps then ro_state (R s' h') else ?U r s' h') n vh))"
    if "alone s h = Ok r" for r
  proof (rule Cons.IH)
    have "length (ro_output r) = ol ! s \<and> length (ro_state r) = sl ! h"
      using Cons.prems(2) [OF _ that] by (simp add: p)
    then show "windows (?T r) vh ol" "windows (?U r) n sl"
      using Cons.prems(3,4) by (auto intro!: windows_update)
  qed (rule Cons.prems(1) [OF list.set_intros(2)] Cons.prems(2) [OF list.set_intros(2)]; assumption)+
  have merge: "(\<lambda>h' s'. if (s', h') \<in> set ps then ro_output (R s' h') else ?T (R s h) h' s') =
      (\<lambda>h' s'. if (s', h') \<in> set (p # ps) then ro_output (R s' h') else T h' s')"
    "(\<lambda>s' h'. if (s', h') \<in> set ps then ro_state (R s' h') else ?U (R s h) s' h') =
      (\<lambda>s' h'. if (s', h') \<in> set (p # ps) then ro_state (R s' h') else U s' h')" for R
    by (auto simp: p fun_eq_iff)
  show ?case
  proof
    assume "try_fold (\<lambda>(s, h). step s h) (p # ps) (grid T vh n, grid U n vh) = Ok z"
    then obtain r where r: "alone s h = Ok r"
        and run: "try_fold (\<lambda>(s, h). step s h) ps (grid (?T r) vh n, grid (?U r) n vh) = Ok z"
      by (auto simp: p first)
    then obtain R where R: "\<forall>(s, h) \<in> set ps. alone s h = Ok (R s h)"
        "z = (grid (\<lambda>h' s'. if (s', h') \<in> set ps then ro_output (R s' h') else ?T r h' s') vh n,
             grid (\<lambda>s' h'. if (s', h') \<in> set ps then ro_state (R s' h') else ?U r s' h') n vh)"
      using rest [OF r] by blast
    define R' where "R' = (\<lambda>s' h'. if (s', h') = (s, h) then r else R s' h')"
    have agree: "(s', h') \<in> set ps \<Longrightarrow> R s' h' = R' s' h'" "R' s h = r" for s' h'
      using R(1) r by (auto simp: R'_def)
    have "z = (grid (\<lambda>h' s'. if (s', h') \<in> set ps then ro_output (R' s' h') else ?T (R' s h) h' s') vh n,
        grid (\<lambda>s' h'. if (s', h') \<in> set ps then ro_state (R' s' h') else ?U (R' s h) s' h') n vh)"
      unfolding R(2) agree(2) by (intro arg_cong2 [where f = Pair] grid_cong) (use agree(1) in auto)
    moreover have "\<forall>(s, h) \<in> set (p # ps). alone s h = Ok (R' s h)" using R(1) r by (auto simp: p R'_def)
    ultimately show "\<exists>R. (\<forall>(s, h) \<in> set (p # ps). alone s h = Ok (R s h)) \<and>
      z = (grid (\<lambda>h s. if (s, h) \<in> set (p # ps) then ro_output (R s h) else T h s) vh n,
           grid (\<lambda>s h. if (s, h) \<in> set (p # ps) then ro_state (R s h) else U s h) n vh)"
      unfolding merge by blast
  next
    assume "\<exists>R. (\<forall>(s, h) \<in> set (p # ps). alone s h = Ok (R s h)) \<and>
      z = (grid (\<lambda>h s. if (s, h) \<in> set (p # ps) then ro_output (R s h) else T h s) vh n,
           grid (\<lambda>s h. if (s, h) \<in> set (p # ps) then ro_state (R s h) else U s h) n vh)"
    then obtain R where R: "\<forall>(s, h) \<in> set (p # ps). alone s h = Ok (R s h)"
        "z = (grid (\<lambda>h' s'. if (s', h') \<in> set ps then ro_output (R s' h') else ?T (R s h) h' s') vh n,
           grid (\<lambda>s' h'. if (s', h') \<in> set ps then ro_state (R s' h') else ?U (R s h) s' h') n vh)"
      unfolding merge by blast
    then have r: "alone s h = Ok (R s h)" by (simp add: p)
    have "try_fold (\<lambda>(s, h). step s h) ps (grid (?T (R s h)) vh n, grid (?U (R s h)) n vh) = Ok z"
      unfolding rest [OF r] using R by (intro exI [of _ R]) auto
    then show "try_fold (\<lambda>(s, h). step s h) (p # ps) (grid T vh n, grid U n vh) = Ok z" by (simp add: p first r)
  qed
qed

lemma packed_sequence_heads:
  assumes "plan_of packed lengths offsets" and "packed_of_grids G packed (length lengths) scale kh vh K V = Ok inp"
    and "s < length lengths"
  defines "head \<equiv> \<lparr>rp_query_and_key = lengths ! s * K, rp_output = lengths ! s * V, rp_state = K * V,
    rp_state_times_key = V, rp_delta = V\<rparr>"
  shows "recurrent_plan_new (lengths ! s) K V = Ok head"
    and "packed_gdn_sequence heap ops inp s buffers = try_fold (packed_gdn_head heap ops inp
      (starts_of lengths s, starts_of lengths (Suc s)) head (s * (vh * (K * V)))) [0..<vh] buffers"
proof -
  obtain p where p: "multi_head_plan_new (sum_list lengths) kh vh K V = Ok p"
    and states: "length lengths * (vh * (K * V)) < 2 ^ 64" and pg: "pg_packed inp = packed" "pg_allocations inp = p"
    using packed_of_grids_Ok [OF assms(2)] plan_of_simps(1,2) [OF assms(1)]
    by (metis packed_gdn_input.select_convs(8,9))
  note dims = multi_head_plan_new_Ok [OF p]
  have "lengths ! s \<le> sum_list lengths" using assms(3) by (intro elem_le_sum_list)
  then have "lengths ! s * K \<le> sum_list lengths * K" "lengths ! s * V \<le> sum_list lengths * V"
    by (intro mult_le_mono1; simp)+
  then have "lengths ! s * K < 2 ^ 64" "lengths ! s * V < 2 ^ 64" using dims(11,12) by linarith+
  then show head: "recurrent_plan_new (lengths ! s) K V = Ok head"
    using assms(1,3) dims by (simp add: recurrent_plan_new_Ok_iff plan_of_def head_def)
  have "s * (vh * (K * V)) \<le> length lengths * (vh * (K * V))" using assms(3) by (intro mult_le_mono1) simp
  then have "s * (vh * (K * V)) < 2 ^ 64" using states by (rule order.strict_trans1)
  then have start: "gdn_product s (vh * (K * V)) d = Ok (s * (vh * (K * V)))" for d
    unfolding gdn_checks_Ok by blast
  have rows: "gdn_packed_range packed s = Ok (starts_of lengths s, starts_of lengths (Suc s))"
    using plan_of_simps(3) [OF assms(1,3)] by (simp add: gdn_packed_range_def)
  have len: "starts_of lengths (Suc s) - starts_of lengths s = lengths ! s" by (simp add: starts_of_Suc [OF assms(3)])
  show "packed_gdn_sequence heap ops inp s buffers = try_fold (packed_gdn_head heap ops inp
      (starts_of lengths s, starts_of lengths (Suc s)) head (s * (vh * (K * V)))) [0..<vh] buffers"
    unfolding packed_gdn_sequence_def pg rows and_then.simps fst_conv snd_conv len dims(14-22) head start ..
qed

text \<open>The destinations before the first window is written.\<close>

lemma packed_run:
  assumes "plan_of packed lengths offsets" and "packed_of_grids G packed (length lengths) scale kh vh K V = Ok inp"
    and "plentiful heap"
  shows "packed_multi_head_recurrent_fwd heap ops inp =
    and_then (try_fold (packed_gdn_sequence heap ops inp) [0..<length lengths]
      (grid (\<lambda>h s. replicate (map (\<lambda>n. n * V) lengths ! s) 0) vh (length lengths),
       grid (\<lambda>s h. replicate (replicate vh (K * V) ! h) 0) (length lengths) vh))
    (\<lambda>(out, state). Ok \<lparr>ro_output = out, ro_state = state\<rparr>)"
proof -
  obtain p where p: "multi_head_plan_new (sum_list lengths) kh vh K V = Ok p"
    and states: "length lengths * (vh * (K * V)) < 2 ^ 64" and pg: "pg_packed inp = packed" "pg_allocations inp = p"
    using packed_of_grids_Ok [OF assms(2)] plan_of_simps(1,2) [OF assms(1)]
    by (metis packed_gdn_input.select_convs(8,9))
  note dims = multi_head_plan_new_Ok [OF p]
  have init: "grid (\<lambda>h s. replicate (map (\<lambda>n. n * V) lengths ! s) 0) vh (length lengths) = replicate (vh * (sum_list lengths * V)) (0 :: f32)"
      "grid (\<lambda>s h. replicate (replicate vh (K * V) ! h) 0) (length lengths) vh = replicate (length lengths * (vh * (K * V))) (0 :: f32)"
    using grid_replicate [of "map (\<lambda>n. n * V) lengths" "0 :: f32" vh] grid_replicate [of "replicate vh (K * V)" "0 :: f32" "length lengths"]
    by (simp_all add: sum_list_mult_const sum_list_replicate)
  have finals: "gdn_product (length lengths) (vh * (K * V)) d = Ok (length lengths * (vh * (K * V)))" for d
    using states by (auto simp del: mult.assoc)
  have reserve: "gdn_reserve heap role n = Ok []" for role n using assms(3) by (simp add: gdn_reserve_def)
  show ?thesis
    unfolding packed_multi_head_recurrent_fwd_def Let_def pg plan_of_simps(1) [OF assms(1)] dims(14-22) finals reserve
      and_then.simps append_Nil init ..
qed

text \<open>C19: packed grouped heads are evaluated as if each sequence and each value head were alone: with memory to spare the packed
  evaluation succeeds exactly when the one-head evaluation of every pair does, on its own rows, its own
  state and the rows of its key head, and it puts every output and final state in that pair's window. No
  state crosses from one packed sequence or head to another.\<close>

theorem packed_heads_are_evaluated_alone:
  assumes "packed_new heap lengths offsets max_context = Ok packed"
    and "packed_of_grids G packed (length lengths) scale kh vh K V = Ok inp"
    and "grids_fit G lengths kh vh K V" and "plentiful heap"
  shows "packed_multi_head_recurrent_fwd heap ops inp = Ok r \<longleftrightarrow>
    (\<exists>R. (\<forall>(s, h) \<in> set (List.product [0..<length lengths] [0..<vh]).
        head_alone heap ops G scale kh vh K V s h = Ok (R s h)) \<and>
      r = \<lparr>ro_output = grid (\<lambda>h s. ro_output (R s h)) vh (length lengths),
           ro_state = grid (\<lambda>s h. ro_state (R s h)) (length lengths) vh\<rparr>)"
proof -
  let ?n = "length lengths" and ?ps = "List.product [0..<length lengths] [0..<vh]"
  note plan = packed_new_plan_of [OF assms(1)]
  note heads = packed_sequence_heads [OF plan assms(2)]
  let ?step = "\<lambda>s h. packed_gdn_head heap ops inp (starts_of lengths s, starts_of lengths (Suc s))
    \<lparr>rp_query_and_key = lengths ! s * K, rp_output = lengths ! s * V, rp_state = K * V, rp_state_times_key = V, rp_delta = V\<rparr>
    (s * (vh * (K * V))) h"
  let ?ol = "map (\<lambda>n. n * V) lengths" and ?sl = "replicate vh (K * V)"
  let ?T = "\<lambda>h s. replicate (?ol ! s) 0 :: f32 list" and ?U = "\<lambda>s h. replicate (?sl ! h) 0 :: f32 list"
  have fold: "try_fold (packed_gdn_sequence heap ops inp) [0..<?n] z = try_fold (\<lambda>(s, h). ?step s h) ?ps z" for z
    unfolding try_fold_product [symmetric] by (intro try_fold_cong heads(2)) simp
  have all: "try_fold (\<lambda>(s, h). ?step s h) ?ps (grid ?T vh ?n, grid ?U ?n vh) = Ok z \<longleftrightarrow>
    (\<exists>R. (\<forall>(s, h) \<in> set ?ps. head_alone heap ops G scale kh vh K V s h = Ok (R s h)) \<and>
      z = (grid (\<lambda>h s. if (s, h) \<in> set ?ps then ro_output (R s h) else ?T h s) vh ?n,
           grid (\<lambda>s h. if (s, h) \<in> set ?ps then ro_state (R s h) else ?U s h) ?n vh))" for z
  proof (rule grid_fold [where ol = ?ol and sl = ?sl])
    fix s h and T U :: "nat \<Rightarrow> nat \<Rightarrow> f32 list"
    assume "(s, h) \<in> set ?ps" and "windows T vh ?ol" and "windows U ?n ?sl"
    then show "?step s h (grid T vh ?n, grid U ?n vh) = and_then (head_alone heap ops G scale kh vh K V s h) (\<lambda>r.
        Ok (grid (T(h := (T h)(s := ro_output r))) vh ?n, grid (U(s := (U s)(h := ro_state r))) ?n vh))"
      by (intro packed_head_window [OF plan assms(2-4)] heads(1)) auto
  next
    fix s h r
    assume "(s, h) \<in> set ?ps" and "head_alone heap ops G scale kh vh K V s h = Ok r"
    then show "length (ro_output r) = ?ol ! s \<and> length (ro_state r) = ?sl ! h"
      using assms(3) gdn_alone_shape [OF _ assms(4)] by (auto simp: head_alone_def grids_fit_def windows_def)
  qed (simp_all add: windows_def)
  have cut: "grid (\<lambda>h s. if (s, h) \<in> set ?ps then ro_output (R s h) else ?T h s) vh ?n = grid (\<lambda>h s. ro_output (R s h)) vh ?n"
    "grid (\<lambda>s h. if (s, h) \<in> set ?ps then ro_state (R s h) else ?U s h) ?n vh = grid (\<lambda>s h. ro_state (R s h)) ?n vh"
    for R :: "nat \<Rightarrow> nat \<Rightarrow> recurrent_output"
    by (auto intro!: grid_cong)
  show ?thesis unfolding packed_run [OF plan assms(2,4)] fold and_then_Ok_iff all cut by auto
qed

definition gdn_sample_grids :: packed_grids where
  "gdn_sample_grids = \<lparr>gr_q = (\<lambda>h s. replicate (s + 1) 1), gr_k = (\<lambda>h s. replicate (s + 1) 1),
     gr_v = (\<lambda>h s. replicate (s + 1) (if h = 0 then 3 else 4)), gr_beta = (\<lambda>h s. replicate (s + 1) 1),
     gr_g = (\<lambda>h s. replicate (s + 1) 0), gr_state = (\<lambda>s h. [2])\<rparr>"

theorem packed_heads_are_evaluated_alone_witness:
  "\<exists>R. (\<forall>(s, h) \<in> set (List.product [0..<length [1, 2 :: nat]] [0..<2]).
      head_alone (\<lambda>role n. True) kernel_sample_ops gdn_sample_grids 1 1 2 1 1 s h = Ok (R s h)) \<and>
    \<lparr>ro_output = [3, 3, 3, 4, 4, 4], ro_state = [3, 4, 3, 4]\<rparr> =
      \<lparr>ro_output = grid (\<lambda>h s. ro_output (R s h)) 2 (length [1, 2 :: nat]),
       ro_state = grid (\<lambda>s h. ro_state (R s h)) (length [1, 2 :: nat]) 2\<rparr>"
proof -
  have fit: "grids_fit gdn_sample_grids [1, 2] 1 2 1 1"
    by (auto simp: grids_fit_def windows_def gdn_sample_grids_def less_Suc_eq numeral_2_eq_2)
  obtain inp where inp: "packed_of_grids gdn_sample_grids packed_sample_plan (length [1, 2 :: nat]) 1 1 2 1 1 = Ok inp"
    and ran: "packed_multi_head_recurrent_fwd (\<lambda>role n. True) kernel_sample_ops inp =
      Ok \<lparr>ro_output = [3, 3, 3, 4, 4, 4], ro_state = [3, 4, 3, 4]\<rparr>"
    by (simp add: packed_of_grids_def grid_def packed_gdn_eval packed_sample_plan_def gdn_sample_grids_def
        kernel_sample_ops_def)
  show ?thesis
    using packed_heads_are_evaluated_alone [OF packed_sample_built inp fit, of kernel_sample_ops
        "\<lparr>ro_output = [3, 3, 3, 4, 4, 4], ro_state = [3, 4, 3, 4]\<rparr>"] ran
    by simp
qed

end
