(* ===== verification/Kernel_Gdn_Delta.thy ===== *)
theory Kernel_Gdn_Delta
  imports Kernel_Gdn_Rows
begin

text \<open>
  The recurrence as the gated delta rule it implements: for a state matrix \<open>S\<close> of \<open>K\<close> rows and \<open>V\<close> columns,
  \<open>S = S * exp(g)\<close>, \<open>delta = beta * (v - S^T k)\<close>, \<open>S = S + k delta^T\<close>, \<open>o = S^T q * scale\<close>. The reference
  is written entry by entry; the source updates rows of accumulators in place.
\<close>

definition only_finite :: "f32 \<Rightarrow> f32 option" where
  "only_finite x = (if f32_is_finite x then Some x else None)"

definition delta_decay :: "f32_ops \<Rightarrow> f32 \<Rightarrow> f32 list \<Rightarrow> f32 list option" where
  "delta_decay ops decay state = all_of (map (\<lambda>x. only_finite (f_mul ops x decay)) state)"

definition delta_projection :: "f32_ops \<Rightarrow> nat \<Rightarrow> f32 list \<Rightarrow> f32 list \<Rightarrow> f32 list option" where
  "delta_projection ops V k state =
     all_of (map (\<lambda>j. fold_finite (\<lambda>i acc. Some (f_add ops acc (f_mul ops (state ! (i * V + j)) (k ! i))))
       [0..<length k] 0) [0..<V])"

definition delta_correction :: "f32_ops \<Rightarrow> f32 \<Rightarrow> f32 list \<Rightarrow> f32 list \<Rightarrow> f32 list option" where
  "delta_correction ops beta v projection =
     all_of (map (\<lambda>(x, p). only_finite (f_mul ops beta (f_sub ops x p))) (zip v projection))"

definition delta_update :: "f32_ops \<Rightarrow> nat \<Rightarrow> f32 list \<Rightarrow> f32 list \<Rightarrow> f32 list \<Rightarrow> f32 list option" where
  "delta_update ops V k delta state =
     all_of (map (\<lambda>(i, j). only_finite (f_add ops (state ! (i * V + j)) (f_mul ops (k ! i) (delta ! j))))
       (List.product [0..<length k] [0..<V]))"

definition delta_output :: "f32_ops \<Rightarrow> nat \<Rightarrow> f32 \<Rightarrow> f32 list \<Rightarrow> f32 list \<Rightarrow> f32 list option" where
  "delta_output ops V scale q state =
     all_of (map (\<lambda>j. fold_finite (\<lambda>i acc. Some (f_add ops acc (f_mul ops (f_mul ops (state ! (i * V + j)) (q ! i)) scale)))
       [0..<length q] 0) [0..<V])"

definition opt_bind :: "'a option \<Rightarrow> ('a \<Rightarrow> 'b option) \<Rightarrow> 'b option" where
  "opt_bind x f = (case x of None \<Rightarrow> None | Some y \<Rightarrow> f y)"

lemma opt_bind_Some_iff [simp]: "opt_bind x f = Some y \<longleftrightarrow> (\<exists>z. x = Some z \<and> f z = Some y)"
  by (simp add: opt_bind_def split: option.split)

definition delta_rule ::
  "f32_ops \<Rightarrow> nat \<Rightarrow> f32 \<Rightarrow> f32 list \<Rightarrow> f32 list \<Rightarrow> f32 list \<Rightarrow> f32 \<Rightarrow> f32 \<Rightarrow> f32 list \<Rightarrow> (f32 list \<times> f32 list) option" where
  "delta_rule ops V scale q k v beta gate state =
     opt_bind (only_finite (f_exp ops gate)) (\<lambda>decay.
     opt_bind (delta_decay ops decay state) (\<lambda>decayed.
     opt_bind (delta_projection ops V k decayed) (\<lambda>projection.
     opt_bind (delta_correction ops beta v projection) (\<lambda>delta.
     opt_bind (delta_update ops V k delta decayed) (\<lambda>state.
     opt_bind (delta_output ops V scale q state) (\<lambda>row. Some (state, row)))))))"

subsection \<open>Each loop computes its part\<close>

lemma decay_Ok_iff:
  "try_map (gdn_decay_cell ops decay) (enumerate 0 state) = Ok d \<longleftrightarrow> delta_decay ops decay state = Some d"
proof -
  have "try_map (gdn_decay_cell ops decay) (enumerate 0 state) = Ok d \<longleftrightarrow>
      all_of (map (\<lambda>cell. only_finite (f_mul ops (snd cell) decay)) (enumerate 0 state)) = Some d"
    by (intro try_map_all_of) (auto simp: gdn_decay_cell_def only_finite_def Let_def)
  also have "map (\<lambda>cell. only_finite (f_mul ops (snd cell) decay)) (enumerate 0 state) =
      map (\<lambda>x. only_finite (f_mul ops x decay)) (map snd (enumerate 0 state))"
    unfolding map_map comp_def ..
  finally show ?thesis by (simp add: delta_decay_def)
qed

lemma matrix_read:
  assumes "i < K" and "j < V" and "length state = K * V" and "K * V < 2 ^ 64"
  shows "gdn_matrix_index i j V = Ok (i * V + j)" and "gdn_read_scalar state (i * V + j) d n = Ok (state ! (i * V + j))"
proof -
  have "i * V + j < K * V" using assms(1,2) by (rule mult_index_less)
  then show "gdn_matrix_index i j V = Ok (i * V + j)" "gdn_read_scalar state (i * V + j) d n = Ok (state ! (i * V + j))"
    using assms(3,4) by (auto simp: gdn_matrix_index_def gdn_product_def gdn_add_def usize_mul_def usize_add_def
        gdn_read_scalar_def get_scalar_def)
qed

lemma projection_Ok_iff:
  assumes "length state = K * V" and "K * V < 2 ^ 64" and "length k = K"
  shows "try_fold (gdn_project ops V state) (enumerate 0 k) (replicate V 0) = Ok p \<longleftrightarrow>
    delta_projection ops V k state = Some p"
proof -
  have "try_fold (gdn_project ops V state) (enumerate 0 k) (replicate V 0) = Ok p \<longleftrightarrow>
      length p = V \<and> (\<forall>c < V. try_fold (\<lambda>t a. gdn_project_cell ops V state t (c, a)) (enumerate 0 k) (replicate V 0 ! c) = Ok (p ! c))"
    by (rule try_fold_columns) (auto simp: gdn_project_def try_map_columns)
  moreover have "try_fold (\<lambda>t a. gdn_project_cell ops V state t (c, a)) (enumerate 0 k) acc = Ok y \<longleftrightarrow>
      fold_finite (\<lambda>i acc. Some (f_add ops acc (f_mul ops (state ! (i * V + c)) (k ! i)))) [0..<length k] acc = Some y"
    if "c < V" for c acc y
    unfolding enumerate_nth try_fold_map
    by (rule try_fold_finite)
      (auto simp: gdn_project_cell_def matrix_read [OF _ that assms(1,2)] assms(3) Let_def gdn_finite_def)
  ultimately show ?thesis
    by (auto simp: delta_projection_def all_of_map_iff list_all2_conv_all_nth)
qed

lemma correction_Ok_iff:
  "try_fold (gdn_delta_cell ops beta) (enumerate 0 (zip v p)) [] = Ok d \<longleftrightarrow> delta_correction ops beta v p = Some d"
proof -
  let ?f = "\<lambda>cell. and_then (gdn_finite (f_mul ops beta (f_sub ops (fst (snd cell)) (snd (snd cell)))) ''delta'' (fst cell))
      (\<lambda>_. Ok (f_mul ops beta (f_sub ops (fst (snd cell)) (snd (snd cell)))))"
  have "gdn_delta_cell ops beta = (\<lambda>cell s. and_then (?f cell) (\<lambda>v. Ok (s @ [v])))"
    by (intro ext) (simp add: gdn_delta_cell_def Let_def and_then_assoc split: prod.split)
  then have "try_fold (gdn_delta_cell ops beta) (enumerate 0 (zip v p)) [] = Ok d \<longleftrightarrow> try_map ?f (enumerate 0 (zip v p)) = Ok d"
    by (simp add: try_fold_push)
  also have "\<dots> \<longleftrightarrow> all_of (map (\<lambda>cell. only_finite (f_mul ops beta (f_sub ops (fst (snd cell)) (snd (snd cell)))))
      (enumerate 0 (zip v p))) = Some d"
    by (intro try_map_all_of) (auto simp: only_finite_def)
  also have "map (\<lambda>cell. only_finite (f_mul ops beta (f_sub ops (fst (snd cell)) (snd (snd cell))))) (enumerate 0 (zip v p)) =
      map (\<lambda>(x, p). only_finite (f_mul ops beta (f_sub ops x p))) (map snd (enumerate 0 (zip v p)))"
    unfolding map_map comp_def by (simp add: split_beta)
  finally show ?thesis by (simp add: delta_correction_def)
qed

lemma enumerate_product:
  "List.product (enumerate 0 xs) (enumerate 0 ys) =
    map (\<lambda>(n, i, j). ((i, xs ! i), (j, ys ! j))) (enumerate 0 (List.product [0..<length xs] [0..<length ys]))"
proof -
  have "List.product (map f as) (map g bs) = map (\<lambda>(a, b). (f a, g b)) (List.product as bs)" for f g as bs
    by (induction as) auto
  then have "List.product (enumerate 0 xs) (enumerate 0 ys) =
      map (\<lambda>(i, j). ((i, xs ! i), (j, ys ! j))) (map snd (enumerate 0 (List.product [0..<length xs] [0..<length ys])))"
    by (simp add: enumerate_nth [of xs] enumerate_nth [of ys])
  then show ?thesis unfolding map_map by (simp add: comp_def split_beta)
qed

lemma enumerate_product_index:
  assumes "(n, i, j) \<in> set (enumerate 0 (List.product [0..<a] [0..<b]))"
  shows "i < a" and "j < b" and "n = i * b + j"
proof -
  have n: "n < a * b" "(i, j) = List.product [0..<a] [0..<b] ! n"
    using assms by (auto simp: enumerate_nth)
  then have "List.product [0..<a] [0..<b] ! n = ([0..<a] ! (n div b), [0..<b] ! (n mod b))"
    by (subst product_nth) (simp_all only: length_upt diff_zero)
  moreover have "n div b < a" using n(1) by (rule less_mult_imp_div_less)
  moreover have "n mod b < b" using n(1) by (cases b) auto
  ultimately have "i = n div b" "j = n mod b" using n(2) by (simp_all del: upt_Suc)
  then show "i < a" "j < b" "n = i * b + j"
    using \<open>n div b < a\<close> \<open>n mod b < b\<close> by simp_all
qed

lemma update_Ok_iff:
  assumes "length state = K * V" and "K * V < 2 ^ 64" and "length k = K" and "length delta = V"
  shows "try_fold (gdn_update ops V delta) (enumerate 0 k) state = Ok s \<longleftrightarrow> delta_update ops V k delta state = Some s"
proof -
  let ?ps = "List.product [0..<K] [0..<V]"
  let ?g = "\<lambda>n (i, j) x. let y = f_add ops x (f_mul ops (k ! i) (delta ! j)) in
      and_then (gdn_finite y ''state update'' n) (\<lambda>_. Ok y)"
  let ?step = "\<lambda>(n, ij) buf. if n < length buf then and_then (?g n ij (buf ! n)) (\<lambda>y. Ok (buf[n := y])) else Panic"
  let ?F = "\<lambda>(n, i, j). gdn_update_cell ops V (i, k ! i) (j, delta ! j)"
  have same: "try_fold ?F cells buf = try_fold ?step cells buf"
    if "set cells \<subseteq> set (enumerate 0 ?ps)" "length buf = K * V" for cells buf
    using that
  proof (induction cells arbitrary: buf)
    case (Cons cell cells)
    obtain n i j where cell: "cell = (n, i, j)" by (cases cell)
    then have ij: "i < K" "j < V" "n = i * V + j" using Cons.prems(1) enumerate_product_index [of n i j K V] by auto
    have n: "n < K * V" unfolding ij(3) by (rule mult_index_less [OF ij(1,2)])
    have eq: "?F cell buf = ?step cell buf"
      using n Cons.prems(2) matrix_read [OF ij(1,2) Cons.prems(2) assms(2)]
      by (simp add: cell gdn_update_cell_def ij(3) Let_def and_then_assoc)
    have "length buf' = K * V" if "?step cell buf = Ok buf'" for buf'
      using that Cons.prems(2) by (auto simp: cell Let_def split: if_splits)
    then have rest: "try_fold ?F cells buf' = try_fold ?step cells buf'" if "?step cell buf = Ok buf'" for buf'
      using Cons.IH [of buf'] Cons.prems(1) that by fastforce
    show ?case
      using eq rest by (cases "?step cell buf") (simp_all only: try_fold.simps and_then.simps)
  qed simp
  have "gdn_update ops V delta = (\<lambda>key. try_fold (gdn_update_cell ops V key) (enumerate 0 delta))"
    by (intro ext) (simp add: gdn_update_def)
  then have "try_fold (gdn_update ops V delta) (enumerate 0 k) state =
      try_fold (\<lambda>(key, cell). gdn_update_cell ops V key cell) (List.product (enumerate 0 k) (enumerate 0 delta)) state"
    by (simp add: try_fold_product)
  also have "\<dots> = try_fold ?F (enumerate 0 ?ps) state"
    unfolding enumerate_product try_fold_map assms(3,4) by (simp add: comp_def split_beta')
  also have "\<dots> = try_fold ?step (enumerate 0 ?ps) state"
    by (rule same) (use assms(1) in auto)
  finally have run: "try_fold (gdn_update ops V delta) (enumerate 0 k) state = try_fold ?step (enumerate 0 ?ps) state" .
  have "try_fold ?step (enumerate 0 ?ps) state = Ok s \<longleftrightarrow>
      length s = length ?ps \<and> (\<forall>n < length ?ps. ?g n (?ps ! n) (state ! n) = Ok (s ! n))"
    using try_fold_in_place [of state ?ps ?step ?g "[]" s] assms(1) by (auto simp del: split_paired_All)
  also have "\<dots> \<longleftrightarrow> delta_update ops V k delta state = Some s"
  proof -
    have cell: "?g n (?ps ! n) (state ! n) = Ok y \<longleftrightarrow>
        (case ?ps ! n of (i, j) \<Rightarrow> only_finite (f_add ops (state ! (i * V + j)) (f_mul ops (k ! i) (delta ! j)))) = Some y"
      if "n < K * V" for n y
    proof -
      obtain i j where ij: "?ps ! n = (i, j)" by (cases "?ps ! n")
      then have "(n, i, j) \<in> set (enumerate 0 ?ps)" using that by (auto simp: enumerate_nth intro!: image_eqI)
      then have "n = i * V + j" by (rule enumerate_product_index)
      then show ?thesis unfolding ij prod.case by (auto simp: only_finite_def Let_def)
    qed
    show ?thesis
      unfolding delta_update_def all_of_map_iff assms(3) by (auto simp: list_all2_conv_all_nth cell)
  qed
  finally show ?thesis unfolding run .
qed

lemma output_Ok_iff:
  assumes "length state = K * V" and "K * V < 2 ^ 64" and "length q = K"
  shows "try_map (\<lambda>j. try_fold (gdn_read_out ops V scale state j) (enumerate 0 q) 0) [0..<V] = Ok row \<longleftrightarrow>
    delta_output ops V scale q state = Some row"
  unfolding delta_output_def
proof (rule try_map_all_of)
  fix j y
  assume "j \<in> set [0..<V]"
  then have j: "j < V" by simp
  show "try_fold (gdn_read_out ops V scale state j) (enumerate 0 q) 0 = Ok y \<longleftrightarrow>
      fold_finite (\<lambda>i acc. Some (f_add ops acc (f_mul ops (f_mul ops (state ! (i * V + j)) (q ! i)) scale))) [0..<length q] 0 = Some y"
    unfolding enumerate_nth try_fold_map
    by (rule try_fold_finite)
      (auto simp: gdn_read_out_def matrix_read [OF _ j assms(1,2)] assms(3) Let_def gdn_finite_def)
qed

lemma delta_shape:
  "delta_decay ops d s = Some s' \<Longrightarrow> length s' = length s"
  "delta_projection ops V k s = Some p \<Longrightarrow> length p = V"
  "delta_correction ops beta v p = Some e \<Longrightarrow> length e = min (length v) (length p)"
  "delta_update ops V k e s = Some s' \<Longrightarrow> length s' = length k * V"
  by (auto simp: delta_decay_def delta_projection_def delta_correction_def delta_update_def all_of_map_iff
      dest!: list_all2_lengthD)

lemma gdn_row_Ok_iff:
  assumes "length state = K * V" and "K * V < 2 ^ 64" and "length k = K" and "length q = K" and "length v = V"
  shows "gdn_row ops idx V scale q k v beta gate state = Ok r \<longleftrightarrow> delta_rule ops V scale q k v beta gate state = Some r"
proof -
  have bind: "delta_rule ops V scale q k v beta gate state = Some r \<longleftrightarrow> f32_is_finite (f_exp ops gate) \<and>
      (\<exists>d p e s row. delta_decay ops (f_exp ops gate) state = Some d \<and> delta_projection ops V k d = Some p \<and>
        delta_correction ops beta v p = Some e \<and> delta_update ops V k e d = Some s \<and>
        delta_output ops V scale q s = Some row \<and> r = (s, row))"
    by (auto simp: delta_rule_def only_finite_def)
  have code: "gdn_row ops idx V scale q k v beta gate state = Ok r \<longleftrightarrow> f32_is_finite (f_exp ops gate) \<and>
      (\<exists>d p e s row. delta_decay ops (f_exp ops gate) state = Some d \<and>
        try_fold (gdn_project ops V d) (enumerate 0 k) (replicate V 0) = Ok p \<and>
        delta_correction ops beta v p = Some e \<and> try_fold (gdn_update ops V e) (enumerate 0 k) d = Ok s \<and>
        try_map (\<lambda>j. try_fold (gdn_read_out ops V scale s j) (enumerate 0 q) 0) [0..<V] = Ok row \<and> r = (s, row))"
    by (auto simp: gdn_row_def decay_Ok_iff correction_Ok_iff)
  have lens: "length d = K * V" if "delta_decay ops (f_exp ops gate) state = Some d" for d
    using delta_shape(1) [OF that] assms(1) by simp
  have lene: "length e = V" if "delta_projection ops V k d = Some p" "delta_correction ops beta v p = Some e" for d p e
    using delta_shape(2) [OF that(1)] delta_shape(3) [OF that(2)] assms(5) by simp
  have lenu: "length s = K * V" if "delta_update ops V k e d = Some s" for e d s
    using delta_shape(4) [OF that] assms(3) by simp
  show ?thesis
    unfolding bind code
    by (intro conj_cong refl iff_exI) (use projection_Ok_iff [OF lens assms(2,3)]
      update_Ok_iff [OF lens assms(2,3) lene] output_Ok_iff [OF lenu assms(2,4)] in blast)+
qed

subsection \<open>A sequence of tokens\<close>

text \<open>The rule applied to the tokens in order, threading the state.\<close>

fun delta_tokens ::
  "(f32 list \<Rightarrow> (f32 list \<times> f32 list) option) list \<Rightarrow> f32 list \<Rightarrow> (f32 list \<times> f32 list) option" where
  "delta_tokens [] state = Some (state, [])"
| "delta_tokens (token # tokens) state =
     opt_bind (token state) (\<lambda>(state, row). opt_bind (delta_tokens tokens state) (\<lambda>(state, rest). Some (state, row @ rest)))"

lemma delta_tokens_scan:
  assumes "\<And>i s r. i \<in> set is \<Longrightarrow> length s = n \<Longrightarrow> f i s = Ok r \<longleftrightarrow> g i s = Some r"
    and "\<And>i s s' row. i \<in> set is \<Longrightarrow> length s = n \<Longrightarrow> g i s = Some (s', row) \<Longrightarrow> length s' = n"
    and "length s = n"
  shows "(\<exists>rows. try_scan f is s = Ok (s', rows) \<and> out = concat rows) \<longleftrightarrow> delta_tokens (map g is) s = Some (s', out)"
  using assms
proof (induction "is" arbitrary: s out)
  case (Cons i "is")
  have IH: "(\<exists>rows. try_scan f is s1 = Ok (s', rows) \<and> rest = concat rows) \<longleftrightarrow> delta_tokens (map g is) s1 = Some (s', rest)"
    if "length s1 = n" for s1 rest
    by (rule Cons.IH [OF _ _ that]; rule Cons.prems(1) [OF list.set_intros(2)] Cons.prems(2) [OF list.set_intros(2)];
        assumption)
  have first: "f i s = Ok z \<longleftrightarrow> g i s = Some z" for z
    by (rule Cons.prems(1) [OF _ Cons.prems(3)]) simp
  have len: "g i s = Some (s1, row) \<Longrightarrow> length s1 = n" for s1 row
    by (rule Cons.prems(2) [OF _ Cons.prems(3)]) simp_all
  have "(\<exists>rows. try_scan f (i # is) s = Ok (s', rows) \<and> out = concat rows) \<longleftrightarrow>
      (\<exists>s1 row rest. f i s = Ok (s1, row) \<and> (\<exists>rows. try_scan f is s1 = Ok (s', rows) \<and> rest = concat rows) \<and> out = row @ rest)"
    by auto
  also have "\<dots> \<longleftrightarrow> (\<exists>s1 row rest. g i s = Some (s1, row) \<and> delta_tokens (map g is) s1 = Some (s', rest) \<and> out = row @ rest)"
    unfolding first by (intro iff_exI conj_cong refl; rule IH; rule len)
  finally show ?case by auto
qed auto

text \<open>C18: a head evaluates the gated delta rule: with memory to spare an admitted head has a result exactly
  when every intermediate of the rule is finite at every token, and the result is then the rule's, token
  after token: the state decays by the exponential of the gate, moves by the outer product of the key and
  the correction, and is read out by the scaled query.\<close>

theorem recurrence_is_the_delta_rule:
  assumes "recurrent_input_new q k v beta g scale state K V = Ok inp" and "plentiful heap"
  shows "recurrent_fwd heap ops inp = Ok r \<longleftrightarrow>
    delta_tokens (map (\<lambda>i. delta_rule ops V scale (take K (drop (i * K) q)) (take K (drop (i * K) k))
      (take V (drop (i * V) v)) (beta ! i) (g ! i)) [0..<length beta]) state = Some (ro_state r, ro_output r)"
proof -
  have admitted: "gdn_admitted inp (length beta) K V" and fields: "ri_q inp = q" "ri_k inp = k" "ri_v inp = v"
      "ri_beta inp = beta" "ri_g inp = g" "ri_scale inp = scale" "ri_state inp = state"
    using assms(1) by (auto simp: recurrent_input_new_Ok_iff)
  then have dims: "ri_key_dim inp = K" "ri_value_dim inp = V" "length state = K * V" "K * V < 2 ^ 64"
      "length q = length beta * K" "length k = length beta * K" "length v = length beta * V"
    by (auto simp: gdn_admitted_def)
  let ?g = "\<lambda>i. delta_rule ops V scale (take K (drop (i * K) q)) (take K (drop (i * K) k))
      (take V (drop (i * V) v)) (beta ! i) (g ! i)"
  have rows: "length (take K (drop (i * K) q)) = K" "length (take K (drop (i * K) k)) = K"
      "length (take V (drop (i * V) v)) = V" if "i < length beta" for i
  proof -
    have "Suc i * K \<le> length beta * K" "Suc i * V \<le> length beta * V" using that by (intro mult_le_mono1; simp)+
    then show "length (take K (drop (i * K) q)) = K" "length (take K (drop (i * K) k)) = K"
        "length (take V (drop (i * V) v)) = V"
      using dims by simp_all
  qed
  have row: "gdn_row_at ops inp i s = Ok z \<longleftrightarrow> ?g i s = Some z" if "i < length beta" "length s = K * V" for i s z
    unfolding gdn_row_at_def Let_def fields dims(1,2)
    by (rule gdn_row_Ok_iff [OF that(2) dims(4)]) (simp_all only: rows [OF that(1)])
  have "recurrent_fwd heap ops inp = Ok r \<longleftrightarrow>
      (\<exists>rows. try_scan (gdn_row_at ops inp) [0..<length beta] state = Ok (ro_state r, rows) \<and> ro_output r = concat rows)"
    unfolding recurrent_fwd_scan [OF admitted assms(2)] gdn_head_scan_def fields by (cases r) auto
  also have "\<dots> \<longleftrightarrow> delta_tokens (map ?g [0..<length beta]) state = Some (ro_state r, ro_output r)"
  proof (rule delta_tokens_scan [where n = "K * V"])
    fix i s s' row
    assume "i \<in> set [0..<length beta]" and s: "length s = K * V" and step: "?g i s = Some (s', row)"
    then have "gdn_row_at ops inp i s = Ok (s', row)" using row by simp
    then show "length s' = K * V" using s by (auto simp: gdn_row_at_def Let_def dest: gdn_row_shape)
  qed (use row dims in auto)
  finally show ?thesis .
qed

theorem recurrence_is_the_delta_rule_witness:
  "delta_tokens (map (\<lambda>i. delta_rule kernel_sample_ops 1 1 (take 1 (drop (i * 1) [1, 2])) (take 1 (drop (i * 1) [1, 1]))
    (take 1 (drop (i * 1) [3, 4])) ([1, 1] ! i) ([0, 0] ! i)) [0..<length [1 :: f32, 1]]) [2] = Some ([4], [3, 8])"
proof -
  obtain inp where inp: "recurrent_input_new [1, 2] [1, 1] [3, 4] [1, 1] [0, 0] 1 [2] 1 1 = Ok inp"
    and ran: "recurrent_fwd (\<lambda>role n. True) kernel_sample_ops inp = Ok \<lparr>ro_output = [3, 8], ro_state = [4]\<rparr>"
    by (simp add: gdn_eval kernel_sample_ops_def)
  show ?thesis
    using recurrence_is_the_delta_rule [OF inp, where heap = "\<lambda>role n. True" and ops = kernel_sample_ops and
        r = "\<lparr>ro_output = [3, 8], ro_state = [4]\<rparr>"] ran
    by simp
qed

end
