(* ===== verification/Kernel_Attention.thy ===== *)
theory Kernel_Attention
  imports Kernel_Packed
begin

text \<open>
  The attention reference (src/crates/kernels/src/attention/mod.rs), as written: the plans of one decoded
  token and of a prefill chunk, their evaluation over rows that the caller supplies, and the native
  page descriptors. A row provider is a function of the token; its failure is the caller's error \<open>'e\<close>.
  Slicing a row and indexing the output panic out of range, as in the source.
\<close>

datatype attn_error =
    AttnZeroDimension string
  | AttnHeadGrouping usize usize
  | AttnDimensionOverflow string
  | AttnWorkspaceOverflow
  | AttnAllocationLayout string usize
  | AttnScaleNotFinite usize
  | AttnNativePageTokens usize
  | AttnNativeAbi string usize
  | AttnQueryHead usize usize
  | AttnLengthMismatch string usize usize
  | AttnNonFiniteInput string usize
  | AttnNonFiniteArithmetic string usize
  | AttnAllocation string usize

datatype 'e decode_rows_error =
    DecodeKernel attn_error
  | DecodeKeyRow usize 'e
  | DecodeValueRow usize 'e

datatype prefill_error =
    PrefillBatchSize usize
  | PrefillPackedLayout
  | PrefillDimensionOverflow string
  | PrefillAllocationLayout string usize
  | PrefillTokenOutOfRange usize usize
  | PrefillDecode attn_error
  | PrefillNative attn_error
  | PrefillAllocation usize
  | PrefillQueryLength usize usize
  | PrefillQuerySpan usize usize usize

datatype 'e prefill_rows_error =
    PrefillKernel prefill_error
  | PrefillKeyRow usize 'e
  | PrefillValueRow usize 'e

type_synonym 'a attn = "('a, attn_error) result"
type_synonym 'e row_provider = "usize \<Rightarrow> (f32 list, 'e) result"

subsection \<open>Checks\<close>

definition attn_product :: "usize \<Rightarrow> usize \<Rightarrow> string \<Rightarrow> usize attn" where
  "attn_product a b dims = ok_or (AttnDimensionOverflow dims) (usize_mul a b)"

definition attn_reserve :: "allocator \<Rightarrow> string \<Rightarrow> usize \<Rightarrow> f32 list attn" where
  "attn_reserve heap role n = (if heap role n then Ok [] else Err (AttnAllocation role n))"

text \<open>\<open>Layout::array::<T>(elements)\<close> exists when the array fits in \<open>isize::MAX\<close> bytes; both types used,
  \<open>f32\<close> and \<open>u32\<close>, have four.\<close>

definition attn_layout :: "string \<Rightarrow> usize \<Rightarrow> unit attn" where
  "attn_layout role n = (if f32_layout_ok n then Ok () else Err (AttnAllocationLayout role n))"

definition attn_nonzero :: "string \<Rightarrow> usize \<Rightarrow> unit attn" where
  "attn_nonzero dim v = (if v = 0 then Err (AttnZeroDimension dim) else Ok ())"

definition attn_exact_length :: "string \<Rightarrow> usize \<Rightarrow> usize \<Rightarrow> unit attn" where
  "attn_exact_length name actual expected =
     (if actual = expected then Ok () else Err (AttnLengthMismatch name expected actual))"

definition attn_scalars :: "string \<Rightarrow> f32 list \<Rightarrow> unit attn" where
  "attn_scalars name xs =
     (case first_nonfinite 0 xs of None \<Rightarrow> Ok () | Some i \<Rightarrow> Err (AttnNonFiniteInput name i))"

definition attn_finite :: "f32 \<Rightarrow> string \<Rightarrow> usize \<Rightarrow> unit attn" where
  "attn_finite x stage i = (if f32_is_finite x then Ok () else Err (AttnNonFiniteArithmetic stage i))"

subsection \<open>The plan of one decoded token\<close>

record decode_workspace =
  dw_scores :: usize
  dw_head_output :: usize
  dw_total :: usize

record decode_plan =
  dp_visible_tokens :: usize
  dp_query_heads :: usize
  dp_kv_heads :: usize
  dp_head_width :: usize
  dp_gqa_group :: usize
  dp_query_elements :: usize
  dp_row_elements :: usize
  dp_scale :: f32
  dp_workspace :: decode_workspace

definition decode_plan_new :: "f32_ops \<Rightarrow> usize \<Rightarrow> usize \<Rightarrow> usize \<Rightarrow> usize \<Rightarrow> decode_plan attn" where
  "decode_plan_new ops visible_tokens query_heads kv_heads head_width =
     and_then (attn_nonzero ''visible_tokens'' visible_tokens) (\<lambda>_.
     and_then (attn_nonzero ''query_heads'' query_heads) (\<lambda>_.
     and_then (attn_nonzero ''kv_heads'' kv_heads) (\<lambda>_.
     and_then (attn_nonzero ''head_width'' head_width) (\<lambda>_.
     if query_heads mod kv_heads \<noteq> 0 then Err (AttnHeadGrouping query_heads kv_heads)
     else
     and_then (attn_product kv_heads head_width ''kv_heads * head_width'') (\<lambda>row_elements.
     and_then (attn_product query_heads head_width ''query_heads * head_width'') (\<lambda>query_elements.
     and_then (attn_layout ''query span'' query_elements) (\<lambda>_.
     and_then (attn_layout ''key/value row span'' row_elements) (\<lambda>_.
     let head_width_f32 = f_of_usize ops head_width in
     and_then (if f32_is_finite head_width_f32 then Ok () else Err (AttnScaleNotFinite head_width)) (\<lambda>_.
     let scale = f_div ops f32_one (f_sqrt ops head_width_f32) in
     and_then (attn_finite scale ''scale'' 0) (\<lambda>_.
     and_then (ok_or AttnWorkspaceOverflow (usize_add visible_tokens head_width)) (\<lambda>total.
     and_then (attn_layout ''scores'' visible_tokens) (\<lambda>_.
     and_then (attn_layout ''head output'' head_width) (\<lambda>_.
     Ok \<lparr>dp_visible_tokens = visible_tokens, dp_query_heads = query_heads, dp_kv_heads = kv_heads,
         dp_head_width = head_width, dp_gqa_group = query_heads div kv_heads, dp_query_elements = query_elements,
         dp_row_elements = row_elements, dp_scale = scale,
         dp_workspace = \<lparr>dw_scores = visible_tokens, dw_head_output = head_width, dw_total = total\<rparr>\<rparr>)))))))))))))"

definition decode_validate_query :: "decode_plan \<Rightarrow> usize \<Rightarrow> f32 list \<Rightarrow> usize attn" where
  "decode_validate_query plan query_head query =
     (if query_head \<ge> dp_query_heads plan then Err (AttnQueryHead query_head (dp_query_heads plan))
      else
      and_then (attn_exact_length ''query'' (length query) (dp_head_width plan)) (\<lambda>_.
      and_then (attn_scalars ''query'' query) (\<lambda>_.
      if dp_gqa_group plan = 0 then Panic else Ok (query_head div dp_gqa_group plan))))"

subsection \<open>One query head over the visible rows\<close>

definition dot_step :: "f32_ops \<Rightarrow> nat \<times> f32 \<times> f32 \<Rightarrow> f32 \<Rightarrow> f32 attn" where
  "dot_step ops cell dot =
     (case cell of (column, query_value, key_value) \<Rightarrow>
       let product = f_mul ops query_value key_value in
       and_then (attn_finite product ''score product'' column) (\<lambda>_.
       let dot = f_add ops dot product in
       and_then (attn_finite dot ''score dot'' column) (\<lambda>_. Ok dot)))"

definition scaled_dot :: "f32_ops \<Rightarrow> f32 list \<Rightarrow> f32 list \<Rightarrow> f32 \<Rightarrow> usize \<Rightarrow> f32 attn" where
  "scaled_dot ops query key scale token =
     and_then (try_fold (dot_step ops) (enumerate 0 (zip query key)) 0) (\<lambda>dot.
     let score = f_mul ops dot scale in
     and_then (attn_finite score ''score'' token) (\<lambda>_. Ok score))"

text \<open>\<open>&row[head_start..head_end]\<close>\<close>

definition head_of_row :: "f32 list \<Rightarrow> usize \<Rightarrow> usize \<Rightarrow> (f32 list, 'e) result" where
  "head_of_row row head_start head_end =
     (case get_range row head_start head_end of Some xs \<Rightarrow> Ok xs | None \<Rightarrow> Panic)"

definition score_token ::
  "f32_ops \<Rightarrow> decode_plan \<Rightarrow> f32 list \<Rightarrow> usize \<Rightarrow> usize \<Rightarrow> 'e row_provider \<Rightarrow> usize \<Rightarrow> f32 list \<Rightarrow>
   (f32 list, 'e decode_rows_error) result" where
  "score_token ops plan query head_start head_end key_row token scores =
     and_then (map_err (DecodeKeyRow token) (key_row token)) (\<lambda>row.
     and_then (map_err DecodeKernel (attn_exact_length ''key row'' (length row) (dp_row_elements plan))) (\<lambda>_.
     and_then (head_of_row row head_start head_end) (\<lambda>key.
     and_then (map_err DecodeKernel (attn_scalars ''selected key head'' key)) (\<lambda>_.
     and_then (map_err DecodeKernel (scaled_dot ops query key (dp_scale plan) token)) (\<lambda>score.
     Ok (scores @ [score]))))))"

definition normalizer_step :: "f32_ops \<Rightarrow> f32 \<Rightarrow> nat \<times> f32 \<Rightarrow> f32 \<Rightarrow> (f32, 'e decode_rows_error) result" where
  "normalizer_step ops max_score cell normalizer =
     (case cell of (token, score) \<Rightarrow>
       let weight = f_exp ops (f_sub ops score max_score) in
       and_then (map_err DecodeKernel (attn_finite weight ''score exponent'' token)) (\<lambda>_.
       let normalizer = f_add ops normalizer weight in
       and_then (map_err DecodeKernel (attn_finite normalizer ''score normalizer'' token)) (\<lambda>_.
       Ok normalizer)))"

definition blend_column ::
  "f32_ops \<Rightarrow> f32 \<Rightarrow> nat \<times> f32 \<Rightarrow> f32 list \<Rightarrow> (f32 list, 'e decode_rows_error) result" where
  "blend_column ops probability cell out =
     (case cell of (column, x) \<Rightarrow>
       if column < length out then
         let y = f_add ops (out ! column) (f_mul ops probability x) in
         and_then (map_err DecodeKernel (attn_finite y ''head output'' column)) (\<lambda>_. Ok (out[column := y]))
       else Panic)"

definition blend_token ::
  "f32_ops \<Rightarrow> decode_plan \<Rightarrow> usize \<Rightarrow> usize \<Rightarrow> 'e row_provider \<Rightarrow> f32 \<Rightarrow> f32 \<Rightarrow> nat \<times> f32 \<Rightarrow> f32 list \<Rightarrow>
   (f32 list, 'e decode_rows_error) result" where
  "blend_token ops plan head_start head_end value_row max_score normalizer cell out =
     (case cell of (token, score) \<Rightarrow>
       let probability = f_div ops (f_exp ops (f_sub ops score max_score)) normalizer in
       and_then (map_err DecodeKernel (attn_finite probability ''score probability'' token)) (\<lambda>_.
       and_then (map_err (DecodeValueRow token) (value_row token)) (\<lambda>row.
       and_then (map_err DecodeKernel (attn_exact_length ''value row'' (length row) (dp_row_elements plan))) (\<lambda>_.
       and_then (head_of_row row head_start head_end) (\<lambda>head.
       and_then (map_err DecodeKernel (attn_scalars ''selected value head'' head)) (\<lambda>_.
       try_fold (blend_column ops probability) (enumerate 0 head) out))))))"

definition paged_decode_cpu ::
  "allocator \<Rightarrow> f32_ops \<Rightarrow> decode_plan \<Rightarrow> usize \<Rightarrow> f32 list \<Rightarrow> 'e row_provider \<Rightarrow> 'e row_provider \<Rightarrow>
   (f32 list, 'e decode_rows_error) result" where
  "paged_decode_cpu heap ops plan query_head query key_row value_row =
     and_then (map_err DecodeKernel (decode_validate_query plan query_head query)) (\<lambda>kv_head.
     and_then (map_err DecodeKernel (attn_product kv_head (dp_head_width plan) ''kv_head * head_width'')) (\<lambda>head_start.
     and_then (ok_or (DecodeKernel (AttnDimensionOverflow ''selected key/value head range''))
       (usize_add head_start (dp_head_width plan))) (\<lambda>head_end.
     and_then (map_err DecodeKernel (attn_reserve heap ''scores'' (dw_scores (dp_workspace plan)))) (\<lambda>scores.
     and_then (try_fold (score_token ops plan query head_start head_end key_row) [0..<dp_visible_tokens plan] scores) (\<lambda>scores.
     let max_score = fold (\<lambda>x y. f_max ops y x) scores f32_neg_infinity in
     and_then (map_err DecodeKernel (attn_finite max_score ''score maximum'' 0)) (\<lambda>_.
     and_then (try_fold (normalizer_step ops max_score) (enumerate 0 scores) 0) (\<lambda>normalizer.
     if f32_is_zero normalizer then Err (DecodeKernel (AttnNonFiniteArithmetic ''score normalizer'' 0))
     else
     and_then (map_err DecodeKernel (attn_reserve heap ''head output'' (dw_head_output (dp_workspace plan)))) (\<lambda>out.
     try_fold (blend_token ops plan head_start head_end value_row max_score normalizer) (enumerate 0 scores)
       (out @ replicate (dw_head_output (dp_workspace plan)) 0)))))))))"

subsection \<open>Prefill\<close>

record prefill_plan =
  fp_last_query :: decode_plan
  fp_tokens :: usize
  fp_query_elements :: usize

definition prefill_plan_new ::
  "f32_ops \<Rightarrow> packed_plan \<Rightarrow> usize \<Rightarrow> usize \<Rightarrow> usize \<Rightarrow> (prefill_plan, prefill_error) result" where
  "prefill_plan_new ops packed query_heads kv_heads head_width =
     (if pp_sequence_count packed \<noteq> 1 then Err (PrefillBatchSize (pp_sequence_count packed))
      else
      and_then (ok_or PrefillPackedLayout (pp_sequence_length packed 0)) (\<lambda>tokens.
      and_then (ok_or PrefillPackedLayout (pp_committed_offset packed 0)) (\<lambda>offset.
      and_then (ok_or (PrefillDimensionOverflow ''committed offset + tokens'') (usize_add offset tokens)) (\<lambda>visible.
      and_then (map_err PrefillDecode (decode_plan_new ops visible query_heads kv_heads head_width)) (\<lambda>last_query.
      and_then (ok_or (PrefillDimensionOverflow ''tokens * query_heads * head_width'')
        (usize_mul tokens (dp_query_elements last_query))) (\<lambda>query_elements.
      if \<not> f32_layout_ok query_elements then Err (PrefillAllocationLayout ''prefill query/output span'' query_elements)
      else Ok \<lparr>fp_last_query = last_query, fp_tokens = tokens, fp_query_elements = query_elements\<rparr>))))))"

text \<open>An unchecked subtraction that underflows panics.\<close>

definition fp_offset :: "prefill_plan \<Rightarrow> (usize, 'e) result" where
  "fp_offset plan =
     (if fp_tokens plan \<le> dp_visible_tokens (fp_last_query plan)
      then Ok (dp_visible_tokens (fp_last_query plan) - fp_tokens plan) else Panic)"

definition visible_tokens_for :: "prefill_plan \<Rightarrow> usize \<Rightarrow> (usize, prefill_error) result" where
  "visible_tokens_for plan token =
     (if token \<ge> fp_tokens plan then Err (PrefillTokenOutOfRange token (fp_tokens plan))
      else
      and_then (fp_offset plan) (\<lambda>offset.
      and_then (ok_or (PrefillDimensionOverflow ''committed offset + query token + one'') (usize_add offset token))
        (\<lambda>position.
      ok_or (PrefillDimensionOverflow ''committed offset + query token + one'') (usize_add position 1))))"

fun prefill_from_decode :: "'e decode_rows_error \<Rightarrow> 'e prefill_rows_error" where
  "prefill_from_decode (DecodeKernel e) = PrefillKernel (PrefillDecode e)"
| "prefill_from_decode (DecodeKeyRow token e) = PrefillKeyRow token e"
| "prefill_from_decode (DecodeValueRow token e) = PrefillValueRow token e"

definition prefill_head ::
  "allocator \<Rightarrow> f32_ops \<Rightarrow> prefill_plan \<Rightarrow> f32 list \<Rightarrow> 'e row_provider \<Rightarrow> 'e row_provider \<Rightarrow> decode_plan \<Rightarrow> usize \<Rightarrow>
   usize \<Rightarrow> f32 list \<Rightarrow> (f32 list, 'e prefill_rows_error) result" where
  "prefill_head heap ops plan queries key_row value_row query_plan token_start query_head out =
     (let head_width = dp_head_width (fp_last_query plan);
          overflow = \<lambda>dims. PrefillKernel (PrefillDimensionOverflow dims) in
     and_then (ok_or (overflow ''prefill query row offset'')
       (case usize_mul query_head head_width of None \<Rightarrow> None | Some head_start \<Rightarrow> usize_add token_start head_start))
       (\<lambda>query_start.
     and_then (ok_or (overflow ''prefill query row end'') (usize_add query_start head_width)) (\<lambda>query_end.
     and_then (ok_or (PrefillKernel (PrefillQuerySpan query_start query_end (length queries)))
       (get_range queries query_start query_end)) (\<lambda>query.
     and_then (map_err prefill_from_decode (paged_decode_cpu heap ops query_plan query_head query key_row value_row))
       (\<lambda>head_output. Ok (out @ head_output))))))"

definition prefill_token ::
  "allocator \<Rightarrow> f32_ops \<Rightarrow> prefill_plan \<Rightarrow> f32 list \<Rightarrow> 'e row_provider \<Rightarrow> 'e row_provider \<Rightarrow> usize \<Rightarrow> usize \<Rightarrow>
   f32 list \<Rightarrow> (f32 list, 'e prefill_rows_error) result" where
  "prefill_token heap ops plan queries key_row value_row query_head_elements token out =
     (let heads = dp_query_heads (fp_last_query plan) in
     and_then (map_err PrefillKernel (visible_tokens_for plan token)) (\<lambda>visible_tokens.
     and_then (map_err (\<lambda>e. PrefillKernel (PrefillDecode e))
       (decode_plan_new ops visible_tokens heads (dp_kv_heads (fp_last_query plan))
         (dp_head_width (fp_last_query plan)))) (\<lambda>query_plan.
     and_then (ok_or (PrefillKernel (PrefillDimensionOverflow ''token * query_heads * head_width''))
       (usize_mul token query_head_elements)) (\<lambda>token_start.
     try_fold (prefill_head heap ops plan queries key_row value_row query_plan token_start) [0..<heads] out))))"

definition paged_prefill_cpu ::
  "allocator \<Rightarrow> f32_ops \<Rightarrow> prefill_plan \<Rightarrow> f32 list \<Rightarrow> 'e row_provider \<Rightarrow> 'e row_provider \<Rightarrow>
   (f32 list, 'e prefill_rows_error) result" where
  "paged_prefill_cpu heap ops plan queries key_row value_row =
     (if length queries \<noteq> fp_query_elements plan
      then Err (PrefillKernel (PrefillQueryLength (fp_query_elements plan) (length queries)))
      else if \<not> heap ''prefill output'' (fp_query_elements plan)
      then Err (PrefillKernel (PrefillAllocation (fp_query_elements plan)))
      else
      and_then (ok_or (PrefillKernel (PrefillDimensionOverflow ''query_heads * head_width''))
        (usize_mul (dp_query_heads (fp_last_query plan)) (dp_head_width (fp_last_query plan)))) (\<lambda>query_head_elements.
      try_fold (prefill_token heap ops plan queries key_row value_row query_head_elements) [0..<fp_tokens plan] []))"

subsection \<open>Native page descriptors\<close>

datatype native_page_tokens = NativeB8 | NativeB16 | NativeB32

fun native_page_tokens_get :: "native_page_tokens \<Rightarrow> usize" where
  "native_page_tokens_get NativeB8 = 8"
| "native_page_tokens_get NativeB16 = 16"
| "native_page_tokens_get NativeB32 = 32"

definition native_page_tokens_from :: "usize \<Rightarrow> native_page_tokens attn" where
  "native_page_tokens_from n =
     (if n = 8 then Ok NativeB8 else if n = 16 then Ok NativeB16 else if n = 32 then Ok NativeB32 else Err (AttnNativePageTokens n))"

text \<open>\<open>u32::try_from(value)\<close>\<close>

definition native_abi_u32 :: "string \<Rightarrow> usize \<Rightarrow> 32 word attn" where
  "native_abi_u32 dim v = (if v < 2 ^ 32 then Ok (of_nat v) else Err (AttnNativeAbi dim v))"

record native_decode_abi =
  na_visible_tokens :: "32 word"
  na_query_heads :: "32 word"
  na_kv_heads :: "32 word"
  na_head_width :: "32 word"
  na_page_tokens :: "32 word"
  na_physical_pages :: "32 word"

record native_decode_plan =
  nd_logical :: decode_plan
  nd_page_tokens :: native_page_tokens
  nd_physical_pages :: usize
  nd_logical_pages :: usize
  nd_query_elements :: usize
  nd_key_value_elements :: usize
  nd_output_elements :: usize
  nd_abi :: native_decode_abi

text \<open>\<open>(visible - 1) / page_tokens + 1\<close>, checked.\<close>

definition native_pages_for :: "usize \<Rightarrow> usize \<Rightarrow> usize option" where
  "native_pages_for visible page_tokens =
     (case usize_sub visible 1 of
        None \<Rightarrow> None
      | Some final \<Rightarrow> if page_tokens = 0 then None else usize_add (final div page_tokens) 1)"

definition native_decode_plan_new :: "decode_plan \<Rightarrow> usize \<Rightarrow> usize \<Rightarrow> native_decode_plan attn" where
  "native_decode_plan_new logical page_tokens physical_pages =
     and_then (native_page_tokens_from page_tokens) (\<lambda>pages.
     and_then (attn_nonzero ''physical_pages'' physical_pages) (\<lambda>_.
     and_then (native_abi_u32 ''visible_tokens'' (dp_visible_tokens logical)) (\<lambda>abi_visible.
     and_then (native_abi_u32 ''kv_heads'' (dp_kv_heads logical)) (\<lambda>abi_kv.
     and_then (native_abi_u32 ''query_heads'' (dp_query_heads logical)) (\<lambda>abi_query.
     and_then (native_abi_u32 ''head_width'' (dp_head_width logical)) (\<lambda>abi_width.
     and_then (native_abi_u32 ''page_tokens'' (native_page_tokens_get pages)) (\<lambda>abi_page.
     and_then (native_abi_u32 ''physical_pages'' physical_pages) (\<lambda>abi_physical.
     and_then (ok_or (AttnDimensionOverflow ''visible_tokens / page_tokens'')
       (native_pages_for (dp_visible_tokens logical) (native_page_tokens_get pages))) (\<lambda>logical_pages.
     and_then (attn_product physical_pages (native_page_tokens_get pages) ''physical_pages * page_tokens'') (\<lambda>physical_tokens.
     and_then (attn_product physical_tokens (dp_row_elements logical)
       ''physical_pages * page_tokens * kv_heads * head_width'') (\<lambda>key_value_elements.
     and_then (attn_layout ''native keys'' key_value_elements) (\<lambda>_.
     and_then (attn_layout ''native values'' key_value_elements) (\<lambda>_.
     and_then (attn_layout ''native page table'' logical_pages) (\<lambda>_.
     Ok \<lparr>nd_logical = logical, nd_page_tokens = pages, nd_physical_pages = physical_pages,
         nd_logical_pages = logical_pages, nd_query_elements = dp_query_elements logical,
         nd_key_value_elements = key_value_elements, nd_output_elements = dp_query_elements logical,
         nd_abi = \<lparr>na_visible_tokens = abi_visible, na_query_heads = abi_query, na_kv_heads = abi_kv,
           na_head_width = abi_width, na_page_tokens = abi_page, na_physical_pages = abi_physical\<rparr>\<rparr>))))))))))))))"

record native_prefill_plan =
  np_logical :: prefill_plan
  np_page_tokens :: native_page_tokens
  np_physical_pages :: usize
  np_logical_pages :: usize
  np_key_value_elements :: usize
  np_abi_tokens :: "32 word"
  np_abi_work_items :: "32 word"
  np_abi_offset :: "32 word"
  np_abi_query_heads :: "32 word"
  np_abi_kv_heads :: "32 word"
  np_abi_head_width :: "32 word"
  np_abi_page_tokens :: "32 word"
  np_abi_physical_pages :: "32 word"

definition native_prefill_plan_new ::
  "prefill_plan \<Rightarrow> usize \<Rightarrow> usize \<Rightarrow> (native_prefill_plan, prefill_error) result" where
  "native_prefill_plan_new logical page_tokens physical_pages =
     (let visible = dp_visible_tokens (fp_last_query logical); kv_heads = dp_kv_heads (fp_last_query logical);
          query_heads = dp_query_heads (fp_last_query logical); head_width = dp_head_width (fp_last_query logical) in
     and_then (map_err PrefillNative (native_page_tokens_from page_tokens)) (\<lambda>pages.
     and_then (map_err PrefillNative (attn_nonzero ''physical_pages'' physical_pages)) (\<lambda>_.
     and_then (map_err PrefillNative (native_abi_u32 ''visible_tokens'' visible)) (\<lambda>_.
     and_then (ok_or (PrefillNative (AttnDimensionOverflow ''prefill visible_tokens / page_tokens''))
       (native_pages_for visible (native_page_tokens_get pages))) (\<lambda>logical_pages.
     and_then (ok_or (PrefillDimensionOverflow ''kv_heads * head_width'') (usize_mul kv_heads head_width)) (\<lambda>row_elements.
     and_then (map_err PrefillNative (attn_product physical_pages (native_page_tokens_get pages)
       ''physical_pages * page_tokens'')) (\<lambda>physical_tokens.
     and_then (map_err PrefillNative (attn_product physical_tokens row_elements
       ''physical_pages * page_tokens * kv_heads * head_width'')) (\<lambda>key_value_elements.
     and_then (map_err PrefillNative (attn_layout ''native prefill keys'' key_value_elements)) (\<lambda>_.
     and_then (map_err PrefillNative (attn_layout ''native prefill page table'' logical_pages)) (\<lambda>_.
     and_then (map_err PrefillNative (native_abi_u32 ''tokens'' (fp_tokens logical))) (\<lambda>abi_tokens.
     and_then (ok_or (PrefillDimensionOverflow ''tokens * query_heads'') (usize_mul (fp_tokens logical) query_heads)) (\<lambda>work.
     and_then (map_err PrefillNative (native_abi_u32 ''tokens * query_heads'' work)) (\<lambda>abi_work.
     and_then (fp_offset logical) (\<lambda>offset.
     and_then (map_err PrefillNative (native_abi_u32 ''offset'' offset)) (\<lambda>abi_offset.
     and_then (map_err PrefillNative (native_abi_u32 ''query_heads'' query_heads)) (\<lambda>abi_query.
     and_then (map_err PrefillNative (native_abi_u32 ''kv_heads'' kv_heads)) (\<lambda>abi_kv.
     and_then (map_err PrefillNative (native_abi_u32 ''head_width'' head_width)) (\<lambda>abi_width.
     and_then (map_err PrefillNative (native_abi_u32 ''page_tokens'' (native_page_tokens_get pages))) (\<lambda>abi_page.
     and_then (map_err PrefillNative (native_abi_u32 ''physical_pages'' physical_pages)) (\<lambda>abi_physical.
     Ok \<lparr>np_logical = logical, np_page_tokens = pages, np_physical_pages = physical_pages,
         np_logical_pages = logical_pages, np_key_value_elements = key_value_elements, np_abi_tokens = abi_tokens,
         np_abi_work_items = abi_work, np_abi_offset = abi_offset, np_abi_query_heads = abi_query,
         np_abi_kv_heads = abi_kv, np_abi_head_width = abi_width, np_abi_page_tokens = abi_page,
         np_abi_physical_pages = abi_physical\<rparr>))))))))))))))))))))"

end
