(* ===== verification/Kernel_Attention_Softmax.thy ===== *)
theory Kernel_Attention_Softmax
  imports Kernel_Attention
begin

text \<open>
  What one query head computes: the softmax of its scaled scores against the selected key head of every
  visible row, applied to the selected value heads. The reference is written column by column over the
  selected heads alone; the source goes row by row over full rows.
\<close>

subsection \<open>The reference\<close>

definition dot_term :: "f32_ops \<Rightarrow> f32 \<times> f32 \<Rightarrow> f32 \<Rightarrow> f32 option" where
  "dot_term ops cell acc =
     (if f32_is_finite (f_mul ops (fst cell) (snd cell)) then Some (f_add ops acc (f_mul ops (fst cell) (snd cell))) else None)"

definition finite_only :: "f32 \<Rightarrow> f32 option" where
  "finite_only x = (if f32_is_finite x then Some x else None)"

definition attention_score :: "f32_ops \<Rightarrow> f32 \<Rightarrow> f32 list \<Rightarrow> f32 list \<Rightarrow> f32 option" where
  "attention_score ops scale query key =
     (case fold_finite (dot_term ops) (zip query key) 0 of None \<Rightarrow> None | Some dot \<Rightarrow> finite_only (f_mul ops dot scale))"

definition weight_term :: "f32_ops \<Rightarrow> f32 \<Rightarrow> f32 \<Rightarrow> f32 \<Rightarrow> f32 option" where
  "weight_term ops m score acc =
     (if f32_is_finite (f_exp ops (f_sub ops score m)) then Some (f_add ops acc (f_exp ops (f_sub ops score m))) else None)"

definition max_score :: "f32_ops \<Rightarrow> f32 list \<Rightarrow> f32" where
  "max_score ops scores = fold (\<lambda>x y. f_max ops y x) scores f32_neg_infinity"

definition softmax_probability :: "f32_ops \<Rightarrow> f32 \<Rightarrow> f32 \<Rightarrow> f32 \<Rightarrow> f32" where
  "softmax_probability ops m normalizer score = f_div ops (f_exp ops (f_sub ops score m)) normalizer"

definition softmax_of :: "f32_ops \<Rightarrow> f32 list \<Rightarrow> f32 list option" where
  "softmax_of ops scores =
     (let m = max_score ops scores in
      if \<not> f32_is_finite m then None
      else case fold_finite (weight_term ops m) scores 0 of
        None \<Rightarrow> None
      | Some normalizer \<Rightarrow>
          if f32_is_zero normalizer then None
          else all_of (map (\<lambda>score. finite_only (softmax_probability ops m normalizer score)) scores))"

definition blend_value :: "f32_ops \<Rightarrow> nat \<Rightarrow> f32 \<times> f32 list \<Rightarrow> f32 \<Rightarrow> f32 option" where
  "blend_value ops c cell acc = Some (f_add ops acc (f_mul ops (fst cell) (snd cell ! c)))"

definition attention_head ::
  "f32_ops \<Rightarrow> f32 \<Rightarrow> f32 list \<Rightarrow> f32 list list \<Rightarrow> f32 list list \<Rightarrow> f32 list option" where
  "attention_head ops scale query keys heads =
     (case all_of (map (attention_score ops scale query) keys) of
        None \<Rightarrow> None
      | Some scores \<Rightarrow>
          (case softmax_of ops scores of
             None \<Rightarrow> None
           | Some probabilities \<Rightarrow>
               all_of (map (\<lambda>c. fold_finite (blend_value ops c) (zip probabilities heads) 0) [0..<length query])))"

lemma softmax_of_Some_iff:
  "softmax_of ops scores = Some ps \<longleftrightarrow> f32_is_finite (max_score ops scores) \<and>
    (\<exists>normalizer. fold_finite (weight_term ops (max_score ops scores)) scores 0 = Some normalizer \<and>
      \<not> f32_is_zero normalizer \<and>
      all_of (map (\<lambda>score. finite_only (softmax_probability ops (max_score ops scores) normalizer score)) scores) = Some ps)"
  by (simp add: softmax_of_def Let_def split: option.split)

lemma attention_head_Some_iff:
  "attention_head ops scale query keys heads = Some out \<longleftrightarrow>
    (\<exists>scores ps. all_of (map (attention_score ops scale query) keys) = Some scores \<and>
      softmax_of ops scores = Some ps \<and>
      all_of (map (\<lambda>c. fold_finite (blend_value ops c) (zip ps heads) 0) [0..<length query]) = Some out)"
  by (simp add: attention_head_def split: option.split)

text \<open>The head of a row that the query head attends to, when the row is admitted.\<close>

definition selected_head :: "'e row_provider \<Rightarrow> nat \<Rightarrow> nat \<Rightarrow> nat \<Rightarrow> nat \<Rightarrow> f32 list option" where
  "selected_head provider kv_heads w kv t =
     (case provider t of
        Ok row \<Rightarrow>
          (let head = take w (drop (kv * w) row) in
           if length row = kv_heads * w \<and> list_all f32_is_finite head then Some head else None)
      | _ \<Rightarrow> None)"

definition selected_heads :: "'e row_provider \<Rightarrow> nat \<Rightarrow> nat \<Rightarrow> nat \<Rightarrow> nat \<Rightarrow> f32 list list option" where
  "selected_heads provider kv_heads w kv n = all_of (map (selected_head provider kv_heads w kv) [0..<n])"

subsection \<open>The operation computes it\<close>

lemma attn_scalars_Ok_iff [simp]: "attn_scalars name xs = Ok u \<longleftrightarrow> list_all f32_is_finite xs"
  by (auto simp: attn_scalars_def first_nonfinite_None [of 0, symmetric] split: option.splits)

lemma attn_checks_Ok [simp]:
  "attn_exact_length name a b = Ok u \<longleftrightarrow> a = b"
  "attn_nonzero name a = Ok u \<longleftrightarrow> a \<noteq> 0"
  "attn_finite x stage i = Ok u \<longleftrightarrow> f32_is_finite x"
  "attn_layout name a = Ok u \<longleftrightarrow> f32_layout_ok a"
  "attn_product a b name = Ok c \<longleftrightarrow> a * b < 2 ^ 64 \<and> c = a * b"
  by (auto simp: attn_exact_length_def attn_nonzero_def attn_finite_def attn_layout_def attn_product_def usize_mul_Some_iff)

lemma decode_plan_new_Ok:
  assumes "decode_plan_new ops n qh kvh w = Ok plan"
  shows "0 < n" and "0 < qh" and "0 < kvh" and "0 < w" and "qh mod kvh = 0"
    and "f32_layout_ok (qh * w)" and "f32_layout_ok (kvh * w)" and "f32_layout_ok n" and "f32_layout_ok w"
    and "f32_is_finite (dp_scale plan)" and "dp_scale plan = f_div ops f32_one (f_sqrt ops (f_of_usize ops w))"
    and "dp_visible_tokens plan = n" and "dp_query_heads plan = qh" and "dp_kv_heads plan = kvh"
    and "dp_head_width plan = w" and "dp_gqa_group plan = qh div kvh" and "dp_query_elements plan = qh * w"
    and "dp_row_elements plan = kvh * w" and "dp_workspace plan = \<lparr>dw_scores = n, dw_head_output = w, dw_total = n + w\<rparr>"
  using assms by (auto simp: decode_plan_new_def Let_def usize_add_Some_iff split: if_splits)

lemma kv_head_bound:
  assumes "decode_plan_new ops n qh kvh w = Ok plan" and "h < qh"
  shows "0 < qh div kvh" and "h div (qh div kvh) < kvh"
proof -
  note plan = decode_plan_new_Ok [OF assms(1)]
  have qh: "qh = kvh * (qh div kvh)" using plan(5) by (metis mult_div_mod_eq add_0_right)
  then show "0 < qh div kvh" using plan(2) by (metis gr0I mult_0_right)
  then show "h div (qh div kvh) < kvh" using assms(2) qh by (metis less_mult_imp_div_less)
qed

lemma row_head_ex:
  assumes "kv < kvh"
  shows "(\<exists>row. provider t = Ok row \<and> length row = kvh * w \<and>
      (\<exists>head. head_of_row row (kv * w) (kv * w + w) = (Ok head :: (f32 list, 'd) result) \<and>
        list_all f32_is_finite head \<and> P head)) \<longleftrightarrow>
    (\<exists>head. selected_head provider kvh w kv t = Some head \<and> P head)"
proof -
  have "Suc kv * w \<le> kvh * w" using assms by (intro mult_le_mono1) simp
  then have "head_of_row row (kv * w) (kv * w + w) = (Ok (take w (drop (kv * w) row)) :: (f32 list, 'd) result)"
    if "length row = kvh * w" for row
    using that by (simp add: head_of_row_def get_range_def)
  then show ?thesis
    by (auto simp: selected_head_def Let_def split: result.splits if_splits)
qed

lemma selected_head_length: "selected_head provider kvh w kv t = Some head \<Longrightarrow> kv < kvh \<Longrightarrow> length head = w"
proof -
  assume "kv < kvh"
  then have "Suc kv * w \<le> kvh * w" by (intro mult_le_mono1) simp
  then show "selected_head provider kvh w kv t = Some head \<Longrightarrow> length head = w"
    by (auto simp: selected_head_def Let_def split: result.splits if_splits)
qed

lemma fold_finite_map: "fold_finite f (map g xs) acc = fold_finite (f \<circ> g) xs acc"
  by (induction xs arbitrary: acc) (auto split: option.splits)

lemma fold_finite_enumerate: "fold_finite (\<lambda>cell. f (snd cell)) (enumerate 0 xs) acc = fold_finite f xs acc"
  using fold_finite_map [of f snd "enumerate 0 xs" acc] by (simp add: comp_def)

lemma scaled_dot_Ok_iff: "scaled_dot ops query key scale t = Ok s \<longleftrightarrow> attention_score ops scale query key = Some s"
proof -
  have "try_fold (dot_step ops) (enumerate 0 (zip query key)) 0 = Ok d \<longleftrightarrow>
      fold_finite (dot_term ops) (zip query key) 0 = Some d" for d
    unfolding fold_finite_enumerate [of "dot_term ops", symmetric]
    by (intro try_fold_finite) (auto simp: dot_step_def dot_term_def Let_def)
  then show ?thesis
    by (auto simp: scaled_dot_def attention_score_def finite_only_def Let_def split: option.splits)
qed

lemma scores_Ok_iff:
  assumes "decode_plan_new ops n qh kvh w = Ok plan" and "kv < kvh"
  shows "try_fold (score_token ops plan query (kv * w) (kv * w + w) key_row) [0..<n] [] = Ok scores \<longleftrightarrow>
    (\<exists>keys. selected_heads key_row kvh w kv n = Some keys \<and>
      all_of (map (attention_score ops (dp_scale plan) query) keys) = Some scores)"
proof -
  note plan = decode_plan_new_Ok [OF assms(1)]
  let ?f = "\<lambda>t. and_then (map_err (DecodeKeyRow t) (key_row t)) (\<lambda>row.
      and_then (map_err DecodeKernel (attn_exact_length ''key row'' (length row) (kvh * w))) (\<lambda>_.
      and_then (head_of_row row (kv * w) (kv * w + w)) (\<lambda>key.
      and_then (map_err DecodeKernel (attn_scalars ''selected key head'' key)) (\<lambda>_.
      map_err DecodeKernel (scaled_dot ops query key (dp_scale plan) t)))))"
  have "score_token ops plan query (kv * w) (kv * w + w) key_row = (\<lambda>t s. and_then (?f t) (\<lambda>v. Ok (s @ [v])))"
    by (intro ext) (simp add: score_token_def plan and_then_assoc)
  then have "try_fold (score_token ops plan query (kv * w) (kv * w + w) key_row) [0..<n] [] = Ok scores \<longleftrightarrow>
      try_map ?f [0..<n] = Ok scores"
    by (simp add: try_fold_push)
  also have "\<dots> \<longleftrightarrow> list_all2 (\<lambda>t s. \<exists>key. selected_head key_row kvh w kv t = Some key \<and>
      attention_score ops (dp_scale plan) query key = Some s) [0..<n] scores"
    unfolding try_map_Ok_iff row_head_ex [OF assms(2), where provider = key_row, symmetric]
    by (simp add: scaled_dot_Ok_iff row_head_ex [OF assms(2), where provider = key_row])
  also have "\<dots> \<longleftrightarrow> (\<exists>keys. list_all2 (\<lambda>t key. selected_head key_row kvh w kv t = Some key) [0..<n] keys \<and>
      list_all2 (\<lambda>key s. attention_score ops (dp_scale plan) query key = Some s) keys scores)"
    by (rule list_all2_through)
  finally show ?thesis unfolding selected_heads_def all_of_map_iff .
qed

lemma normalizer_Ok_iff:
  "try_fold (normalizer_step ops m) (enumerate 0 scores) 0 = Ok normalizer \<longleftrightarrow>
    fold_finite (weight_term ops m) scores 0 = Some normalizer"
  unfolding fold_finite_enumerate [of "weight_term ops m", symmetric]
  by (intro try_fold_finite) (auto simp: normalizer_step_def weight_term_def Let_def)

text \<open>The values of the visible rows are needed, and every probability is finite.\<close>

lemma try_fold_requires:
  "(\<And>x s s'. x \<in> set xs \<Longrightarrow> f x s = Ok s' \<Longrightarrow> P x) \<Longrightarrow> try_fold f xs s = Ok s' \<Longrightarrow> list_all P xs"
  by (induction xs arbitrary: s) auto

definition blend_cell :: "f32_ops \<Rightarrow> nat \<Rightarrow> f32 \<times> f32 list \<Rightarrow> f32 \<Rightarrow> (f32, unit) result" where
  "blend_cell ops c cell acc =
     (let y = f_add ops acc (f_mul ops (fst cell) (snd cell ! c)) in if f32_is_finite y then Ok y else Err ())"

lemma blend_columns:
  assumes "length head = w" and "length acc = w"
  shows "try_fold (blend_column ops p) (enumerate 0 head) acc = Ok acc' \<longleftrightarrow>
    length acc' = w \<and> (\<forall>c < w. blend_cell ops c (p, head) (acc ! c) = Ok (acc' ! c))"
proof -
  let ?g = "\<lambda>c x a. let y = f_add ops a (f_mul ops p x) in
    and_then (map_err DecodeKernel (attn_finite y ''head output'' c)) (\<lambda>_. Ok y)"
  have step: "blend_column ops p (c, x) buf =
      (if c < length buf then and_then (?g c x (buf ! c)) (\<lambda>y. Ok (buf[c := y])) else Panic)" for c x buf
    by (simp add: blend_column_def Let_def and_then_assoc)
  have cell: "?g c (head ! c) (acc ! c) = Ok y \<longleftrightarrow> blend_cell ops c (p, head) (acc ! c) = Ok y" for c y
    by (auto simp: blend_cell_def Let_def)
  show ?thesis
    using try_fold_in_place [of acc head "blend_column ops p" ?g "[]" acc', OF _ step] assms
    by (auto simp: cell simp del: split_paired_All)
qed

lemma blend_token_Ok_iff:
  fixes value_row :: "'e row_provider"
  assumes "decode_plan_new ops n qh kvh w = Ok plan" and "kv < kvh" and "length acc = w"
  shows "blend_token ops plan (kv * w) (kv * w + w) value_row m nrm (t, score) acc = Ok acc' \<longleftrightarrow>
    f32_is_finite (softmax_probability ops m nrm score) \<and>
    (\<exists>head. selected_head value_row kvh w kv t = Some head \<and> length acc' = w \<and>
      (\<forall>c < w. blend_cell ops c (softmax_probability ops m nrm score, head) (acc ! c) = Ok (acc' ! c)))"
proof -
  note plan = decode_plan_new_Ok [OF assms(1)]
  have "blend_token ops plan (kv * w) (kv * w + w) value_row m nrm (t, score) acc = Ok acc' \<longleftrightarrow>
    f32_is_finite (softmax_probability ops m nrm score) \<and>
    (\<exists>head. selected_head value_row kvh w kv t = Some head \<and>
      try_fold (blend_column ops (softmax_probability ops m nrm score)) (enumerate 0 head) acc =
        (Ok acc' :: (f32 list, 'e decode_rows_error) result))"
    by (simp add: blend_token_def Let_def plan softmax_probability_def row_head_ex [OF assms(2), where provider = value_row])
  also have "\<dots> \<longleftrightarrow> f32_is_finite (softmax_probability ops m nrm score) \<and>
    (\<exists>head. selected_head value_row kvh w kv t = Some head \<and> length acc' = w \<and>
      (\<forall>c < w. blend_cell ops c (softmax_probability ops m nrm score, head) (acc ! c) = Ok (acc' ! c)))"
    using blend_columns [OF selected_head_length [OF _ assms(2)] assms(3)] by blast
  finally show ?thesis .
qed

lemma blend_tokens_Ok_iff:
  assumes "decode_plan_new ops n' qh kvh w = Ok plan" and "kv < kvh" and "n = length scores"
  shows "try_fold (blend_token ops plan (kv * w) (kv * w + w) value_row m nrm) (enumerate 0 scores) (replicate w 0) = Ok out \<longleftrightarrow>
    (\<exists>heads ps. selected_heads value_row kvh w kv n = Some heads \<and>
      all_of (map (\<lambda>score. finite_only (softmax_probability ops m nrm score)) scores) = Some ps \<and>
      all_of (map (\<lambda>c. fold_finite (blend_value ops c) (zip ps heads) 0) [0..<w]) = Some out)"
proof (cases "(\<exists>heads. selected_heads value_row kvh w kv n = Some heads) \<and>
    (\<exists>ps. all_of (map (\<lambda>score. finite_only (softmax_probability ops m nrm score)) scores) = Some ps)")
  case False
  have "\<not> (try_fold (blend_token ops plan (kv * w) (kv * w + w) value_row m nrm) (enumerate 0 scores) (replicate w 0) = Ok out)"
  proof
    let ?need = "\<lambda>(t, score). (\<exists>head. selected_head value_row kvh w kv t = Some head) \<and>
      f32_is_finite (softmax_probability ops m nrm score)"
    assume run: "try_fold (blend_token ops plan (kv * w) (kv * w + w) value_row m nrm) (enumerate 0 scores) (replicate w 0) = Ok out"
    have "list_all ?need (enumerate 0 scores)"
    proof (rule try_fold_requires [OF _ run])
      fix x s s'
      assume "blend_token ops plan (kv * w) (kv * w + w) value_row m nrm x s = Ok s'"
      then show "?need x"
        by (cases x) (auto simp: blend_token_def Let_def decode_plan_new_Ok [OF assms(1)] softmax_probability_def
            row_head_ex [OF assms(2), where provider = value_row])
    qed
    then have all: "\<forall>t < n. (\<exists>head. selected_head value_row kvh w kv t = Some head) \<and>
        f32_is_finite (softmax_probability ops m nrm (scores ! t))"
      using assms(3) by (auto simp: list_all_length nth_enumerate_eq)
    then have "selected_heads value_row kvh w kv n = Some (map (\<lambda>t. the (selected_head value_row kvh w kv t)) [0..<n])"
      by (auto simp: selected_heads_def all_of_map_iff list_all2_map2 intro!: list.rel_refl_strong)
    moreover have "all_of (map (\<lambda>score. finite_only (softmax_probability ops m nrm score)) scores) =
        Some (map (softmax_probability ops m nrm) scores)"
      using all assms(3) by (auto simp: all_of_map_iff list_all2_map2 finite_only_def in_set_conv_nth intro!: list.rel_refl_strong)
    ultimately show False using False by blast
  qed
  then show ?thesis using False by blast
next
  case True
  then obtain heads ps where heads: "selected_heads value_row kvh w kv n = Some heads"
      and ps: "all_of (map (\<lambda>score. finite_only (softmax_probability ops m nrm score)) scores) = Some ps"
    by blast
  have len: "length heads = n" "length ps = n"
    using heads ps assms(3) by (auto simp: selected_heads_def all_of_map_iff dest: list_all2_lengthD)
  have at: "selected_head value_row kvh w kv t = Some (heads ! t)"
      "f32_is_finite (softmax_probability ops m nrm (scores ! t))"
      "ps ! t = softmax_probability ops m nrm (scores ! t)" if "t < n" for t
    using heads ps that assms(3)
    by (auto simp: selected_heads_def all_of_map_iff list_all2_conv_all_nth finite_only_def split: if_splits)
  let ?cell = "\<lambda>x c. blend_cell ops c (softmax_probability ops m nrm (snd x), heads ! fst x)"
  have "try_fold (blend_token ops plan (kv * w) (kv * w + w) value_row m nrm) (enumerate 0 scores) (replicate w 0) = Ok out \<longleftrightarrow>
      length out = w \<and> (\<forall>c < w. try_fold (\<lambda>x. ?cell x c) (enumerate 0 scores) (replicate w 0 ! c) = Ok (out ! c))"
  proof (rule try_fold_columns)
    fix x and acc acc' :: "f32 list"
    assume x: "x \<in> set (enumerate 0 scores)" and acc: "length acc = w"
    obtain t score where xt: "x = (t, score)" "t < n" "score = scores ! t"
      using x assms(3) by (auto simp: enumerate_eq_zip set_zip)
    show "blend_token ops plan (kv * w) (kv * w + w) value_row m nrm x acc = Ok acc' \<longleftrightarrow>
        length acc' = w \<and> (\<forall>c < w. ?cell x c (acc ! c) = Ok (acc' ! c))"
      using at [OF xt(2)] unfolding xt(1) blend_token_Ok_iff [OF assms(1,2) acc] by (simp add: xt(3))
  qed simp
  also have "\<dots> \<longleftrightarrow> length out = w \<and> (\<forall>c < w. fold_finite (blend_value ops c) (zip ps heads) 0 = Some (out ! c))"
  proof -
    have cells: "map (\<lambda>x. (softmax_probability ops m nrm (snd x), heads ! fst x)) (enumerate 0 scores) = zip ps heads"
      using len assms(3) at(3) by (auto intro!: nth_equalityI simp: nth_enumerate_eq)
    have "try_fold (\<lambda>x. ?cell x c) (enumerate 0 scores) a = try_fold (blend_cell ops c) (zip ps heads) a" for c a
      unfolding cells [symmetric] try_fold_map by (simp add: comp_def)
    moreover have "try_fold (blend_cell ops c) (zip ps heads) a = Ok y \<longleftrightarrow>
        fold_finite (blend_value ops c) (zip ps heads) a = Some y" for c a y
      by (rule try_fold_finite) (auto simp: blend_cell_def blend_value_def Let_def)
    ultimately show ?thesis by simp
  qed
  also have "\<dots> \<longleftrightarrow> all_of (map (\<lambda>c. fold_finite (blend_value ops c) (zip ps heads) 0) [0..<w]) = Some out"
    by (auto simp: all_of_map_iff list_all2_conv_all_nth)
  finally show ?thesis using heads ps by auto
qed

text \<open>An evaluation with memory to spare.\<close>

abbreviation plentiful :: "allocator \<Rightarrow> bool" where
  "plentiful heap \<equiv> \<forall>role n. heap role n"

lemma decode_Ok_iff:
  assumes "decode_plan_new ops n qh kvh w = Ok plan" and "h < qh" and "plentiful heap"
  shows "paged_decode_cpu heap ops plan h query key_row value_row = Ok out \<longleftrightarrow>
    (\<exists>keys heads. selected_heads key_row kvh w (h div (qh div kvh)) n = Some keys \<and>
      selected_heads value_row kvh w (h div (qh div kvh)) n = Some heads \<and>
      length query = w \<and> list_all f32_is_finite query \<and>
      attention_head ops (dp_scale plan) query keys heads = Some out)"
proof -
  note plan = decode_plan_new_Ok [OF assms(1)] and kv = kv_head_bound [OF assms(1,2)]
  let ?kv = "h div (qh div kvh)"
  have "Suc ?kv * w \<le> kvh * w" using kv(2) by (intro mult_le_mono1) simp
  moreover have "kvh * w < 2 ^ 63" using plan(7) by (simp add: f32_layout_ok_def)
  ultimately have range: "?kv * w < 2 ^ 64" "?kv * w + w < 2 ^ 64" by auto
  have reserve: "attn_reserve heap role k = Ok []" for role k using assms(3) by (simp add: attn_reserve_def)
  have query: "decode_validate_query plan h query = Ok k \<longleftrightarrow> k = ?kv \<and> length query = w \<and> list_all f32_is_finite query" for k
    using assms(2) kv(1) by (auto simp: decode_validate_query_def plan)
  have bounds: "attn_product ?kv w d = Ok (?kv * w)" "usize_add (?kv * w) w = Some (?kv * w + w)" for d
    using range by (auto simp: usize_add_def)
  have len: "length scores = n" if "selected_heads key_row kvh w ?kv n = Some keys"
      "all_of (map (attention_score ops (dp_scale plan) query) keys) = Some scores" for keys scores
    using that by (auto simp: selected_heads_def all_of_map_iff dest!: list_all2_lengthD)
  have "paged_decode_cpu heap ops plan h query key_row value_row = Ok out \<longleftrightarrow>
    length query = w \<and> list_all f32_is_finite query \<and>
    (\<exists>keys scores nrm heads ps. selected_heads key_row kvh w ?kv n = Some keys \<and>
      all_of (map (attention_score ops (dp_scale plan) query) keys) = Some scores \<and>
      f32_is_finite (max_score ops scores) \<and>
      fold_finite (weight_term ops (max_score ops scores)) scores 0 = Some nrm \<and> \<not> f32_is_zero nrm \<and>
      selected_heads value_row kvh w ?kv (length scores) = Some heads \<and>
      all_of (map (\<lambda>score. finite_only (softmax_probability ops (max_score ops scores) nrm score)) scores) = Some ps \<and>
      all_of (map (\<lambda>c. fold_finite (blend_value ops c) (zip ps heads) 0) [0..<w]) = Some out)"
    unfolding paged_decode_cpu_def Let_def max_score_def [symmetric]
    using range by (auto simp: query bounds reserve plan(12-19) scores_Ok_iff [OF assms(1) kv(2)] normalizer_Ok_iff
        blend_tokens_Ok_iff [OF assms(1) kv(2) refl])
  also have "\<dots> \<longleftrightarrow> length query = w \<and> list_all f32_is_finite query \<and>
    (\<exists>keys scores nrm heads ps. selected_heads key_row kvh w ?kv n = Some keys \<and>
      all_of (map (attention_score ops (dp_scale plan) query) keys) = Some scores \<and>
      f32_is_finite (max_score ops scores) \<and>
      fold_finite (weight_term ops (max_score ops scores)) scores 0 = Some nrm \<and> \<not> f32_is_zero nrm \<and>
      selected_heads value_row kvh w ?kv n = Some heads \<and>
      all_of (map (\<lambda>score. finite_only (softmax_probability ops (max_score ops scores) nrm score)) scores) = Some ps \<and>
      all_of (map (\<lambda>c. fold_finite (blend_value ops c) (zip ps heads) 0) [0..<w]) = Some out)"
    by (intro conj_cong refl iff_exI) (use len in metis)
  also have "\<dots> \<longleftrightarrow> length query = w \<and> list_all f32_is_finite query \<and>
    (\<exists>keys heads. selected_heads key_row kvh w ?kv n = Some keys \<and>
      selected_heads value_row kvh w ?kv n = Some heads \<and>
      attention_head ops (dp_scale plan) query keys heads = Some out)"
    unfolding attention_head_Some_iff softmax_of_Some_iff by blast
  finally show ?thesis by blast
qed

text \<open>For the witnesses.\<close>

lemmas attn_eval = kernel_eval f32_one_def f32_neg_infinity_def f32_is_zero_def attn_product_def attn_reserve_def
  attn_layout_def attn_nonzero_def attn_exact_length_def attn_scalars_def attn_finite_def decode_plan_new_def
  decode_validate_query_def dot_step_def scaled_dot_def head_of_row_def score_token_def normalizer_step_def
  blend_column_def blend_token_def paged_decode_cpu_def

lemmas prefill_eval = attn_eval packed_eval prefill_plan_new_def fp_offset_def visible_tokens_for_def
  prefill_head_def prefill_token_def paged_prefill_cpu_def pp_committed_offset_def

end
