(* ===== verification/Kernel_Attention_Properties.thy ===== *)
theory Kernel_Attention_Properties
  imports Kernel_Attention_Softmax
begin

text \<open>
  What callers of attention rely on: a query head computes the softmax attention of its heads of the visible
  rows and of nothing else, prefilling a prompt is causal attention, and it may be done in chunks.
\<close>

text \<open>C17: decoding one query head computes its softmax attention: with memory to spare it returns an output
  exactly when every visible key and value row is supplied at its full width with a finite selected head,
  the query is finite and every intermediate of the reference is finite; the output is then the reference's,
  of the key/value head its group shares. Rows that are not visible and the other heads of a row, finite or
  not, have no effect.\<close>

theorem decode_is_softmax_attention:
  assumes "decode_plan_new ops visible query_heads kv_heads w = Ok plan" and "h < query_heads" and "plentiful heap"
  shows "paged_decode_cpu heap ops plan h query key_row value_row = Ok out \<longleftrightarrow>
    (\<exists>keys heads. selected_heads key_row kv_heads w (h div (query_heads div kv_heads)) visible = Some keys \<and>
      selected_heads value_row kv_heads w (h div (query_heads div kv_heads)) visible = Some heads \<and>
      length query = w \<and> list_all f32_is_finite query \<and>
      attention_head ops (dp_scale plan) query keys heads = Some out)"
  by (rule decode_Ok_iff [OF assms])

theorem decode_is_softmax_attention_witness:
  "\<exists>keys heads. selected_heads (\<lambda>t. Ok [1] :: (f32 list, unit) result) 1 1 (1 div (2 div 1)) 2 = Some keys \<and>
    selected_heads (\<lambda>t. Ok [of_nat t + 3] :: (f32 list, unit) result) 1 1 (1 div (2 div 1)) 2 = Some heads \<and>
    length [2 :: f32] = 1 \<and> list_all f32_is_finite [2] \<and>
    attention_head kernel_sample_ops 0x3F800000 [2] keys heads = Some [7]"
proof -
  obtain plan where plan: "decode_plan_new kernel_sample_ops 2 2 1 1 = Ok plan" and scale: "dp_scale plan = 0x3F800000"
    and ran: "paged_decode_cpu (\<lambda>role n. True) kernel_sample_ops plan 1 [2] (\<lambda>t. Ok [1] :: (f32 list, unit) result)
      (\<lambda>t. Ok [of_nat t + 3]) = Ok [7]"
    by (simp add: attn_eval kernel_sample_ops_def)
  show ?thesis
    using decode_is_softmax_attention [OF plan, where heap = "\<lambda>role n. True" and h = 1 and query = "[2]" and
        key_row = "\<lambda>t. Ok [1] :: (f32 list, unit) result" and value_row = "\<lambda>t. Ok [of_nat t + 3]" and out = "[7]"]
      ran scale by simp
qed

subsection \<open>Prefill, token by token\<close>

definition decode_plan_of :: "f32_ops \<Rightarrow> nat \<Rightarrow> nat \<Rightarrow> nat \<Rightarrow> nat \<Rightarrow> decode_plan" where
  "decode_plan_of ops n qh kvh w =
     \<lparr>dp_visible_tokens = n, dp_query_heads = qh, dp_kv_heads = kvh, dp_head_width = w, dp_gqa_group = qh div kvh,
      dp_query_elements = qh * w, dp_row_elements = kvh * w, dp_scale = f_div ops f32_one (f_sqrt ops (f_of_usize ops w)),
      dp_workspace = \<lparr>dw_scores = n, dw_head_output = w, dw_total = n + w\<rparr>\<rparr>"

definition decode_shape :: "f32_ops \<Rightarrow> nat \<Rightarrow> nat \<Rightarrow> nat \<Rightarrow> nat \<Rightarrow> bool" where
  "decode_shape ops n qh kvh w \<longleftrightarrow>
     0 < n \<and> 0 < qh \<and> 0 < kvh \<and> 0 < w \<and> qh mod kvh = 0 \<and> f32_layout_ok (qh * w) \<and> f32_layout_ok (kvh * w) \<and>
     f32_layout_ok n \<and> f32_layout_ok w \<and> f32_is_finite (f_of_usize ops w) \<and>
     f32_is_finite (f_div ops f32_one (f_sqrt ops (f_of_usize ops w)))"

lemma decode_plan_new_iff:
  "decode_plan_new ops n qh kvh w = Ok plan \<longleftrightarrow> decode_shape ops n qh kvh w \<and> plan = decode_plan_of ops n qh kvh w"
  by (auto simp: decode_plan_new_def decode_shape_def decode_plan_of_def Let_def usize_add_Some_iff f32_layout_ok_def)

lemma decode_shape_mono: "decode_shape ops n qh kvh w \<Longrightarrow> 0 < m \<Longrightarrow> m \<le> n \<Longrightarrow> decode_shape ops m qh kvh w"
  by (auto simp: decode_shape_def f32_layout_ok_def)

lemma f32_layout_ok_mono: "f32_layout_ok n \<Longrightarrow> m \<le> n \<Longrightarrow> f32_layout_ok m"
  by (simp add: f32_layout_ok_def)

text \<open>A chunk of \<open>n\<close> tokens after \<open>offset\<close> committed ones.\<close>

definition chunk_shape :: "f32_ops \<Rightarrow> nat \<Rightarrow> nat \<Rightarrow> nat \<Rightarrow> nat \<Rightarrow> nat \<Rightarrow> bool" where
  "chunk_shape ops n offset qh kvh w \<longleftrightarrow>
     0 < n \<and> decode_shape ops (offset + n) qh kvh w \<and> f32_layout_ok (n * (qh * w))"

definition chunk_plan :: "f32_ops \<Rightarrow> nat \<Rightarrow> nat \<Rightarrow> nat \<Rightarrow> nat \<Rightarrow> nat \<Rightarrow> prefill_plan" where
  "chunk_plan ops n offset qh kvh w =
     \<lparr>fp_last_query = decode_plan_of ops (offset + n) qh kvh w, fp_tokens = n, fp_query_elements = n * (qh * w)\<rparr>"

lemma prefill_plan_new_iff:
  assumes "plan_of packed [n] [offset]"
  shows "prefill_plan_new ops packed qh kvh w = Ok plan \<longleftrightarrow>
    chunk_shape ops n offset qh kvh w \<and> plan = chunk_plan ops n offset qh kvh w"
proof -
  have "pp_sequences packed = [\<lparr>ps_length = n, ps_committed_offset = offset, ps_start = 0\<rparr>]" "0 < n" "offset + n < 2 ^ 64"
    using assms by (auto simp: plan_of_def plan_sequences_def)
  moreover have "dp_query_elements (decode_plan_of ops k qh kvh w) = qh * w" for k by (simp add: decode_plan_of_def)
  ultimately show ?thesis
    by (auto simp: prefill_plan_new_def pp_sequence_count_def pp_sequence_length_def pp_committed_offset_def
        get_scalar_def usize_add_def decode_plan_new_iff chunk_shape_def chunk_plan_def usize_mul_Some_iff
        f32_layout_ok_def simp del: mult.assoc)
qed

definition prefill_cell ::
  "allocator \<Rightarrow> f32_ops \<Rightarrow> nat \<Rightarrow> nat \<Rightarrow> nat \<Rightarrow> nat \<Rightarrow> f32 list \<Rightarrow> 'e row_provider \<Rightarrow> 'e row_provider \<Rightarrow> nat \<Rightarrow> nat \<Rightarrow>
   (f32 list, 'e prefill_rows_error) result" where
  "prefill_cell heap ops offset qh kvh w queries key_row value_row t h =
     map_err prefill_from_decode (paged_decode_cpu heap ops (decode_plan_of ops (offset + t + 1) qh kvh w) h
       (take w (drop (t * (qh * w) + h * w) queries)) key_row value_row)"

lemma prefill_cells:
  assumes shape: "chunk_shape ops n offset qh kvh w" and len: "length queries = n * (qh * w)" and heap: "plentiful heap"
  shows "paged_prefill_cpu heap ops (chunk_plan ops n offset qh kvh w) queries key_row value_row =
    and_then (try_map (\<lambda>t. and_then (try_map (prefill_cell heap ops offset qh kvh w queries key_row value_row t) [0..<qh])
      (\<lambda>heads. Ok (concat heads))) [0..<n]) (\<lambda>rows. Ok (concat rows))"
proof -
  let ?plan = "chunk_plan ops n offset qh kvh w"
  have fields: "fp_query_elements ?plan = n * (qh * w)" "fp_tokens ?plan = n" "dp_query_heads (fp_last_query ?plan) = qh"
      "dp_head_width (fp_last_query ?plan) = w" "dp_kv_heads (fp_last_query ?plan) = kvh"
      "dp_visible_tokens (fp_last_query ?plan) = offset + n"
    by (simp_all add: chunk_plan_def decode_plan_of_def)
  have sizes: "n * (qh * w) < 2 ^ 64" "qh * w < 2 ^ 64" "offset + n + 1 < 2 ^ 64"
    using shape by (auto simp: chunk_shape_def decode_shape_def f32_layout_ok_def)
  have token: "prefill_token heap ops ?plan queries key_row value_row (qh * w) t out =
      and_then (and_then (try_map (prefill_cell heap ops offset qh kvh w queries key_row value_row t) [0..<qh])
        (\<lambda>heads. Ok (concat heads))) (\<lambda>row. Ok (out @ row))" if "t < n" for t out
  proof -
    have visible: "visible_tokens_for ?plan t = Ok (offset + t + 1)"
      using that sizes(3) by (simp add: visible_tokens_for_def fp_offset_def fields usize_add_def)
    have plan: "decode_plan_new ops (offset + t + 1) qh kvh w = Ok (decode_plan_of ops (offset + t + 1) qh kvh w)"
      using shape that decode_shape_mono [of ops "offset + n"] by (auto simp: decode_plan_new_iff chunk_shape_def)
    have "Suc t * (qh * w) \<le> n * (qh * w)" using that by (intro mult_le_mono1) simp
    then have row: "t * (qh * w) + qh * w \<le> n * (qh * w)" by simp
    have start: "usize_mul t (qh * w) = Some (t * (qh * w))" using row sizes(1) by (simp add: usize_mul_def)
    have head: "prefill_head heap ops ?plan queries key_row value_row (decode_plan_of ops (offset + t + 1) qh kvh w)
        (t * (qh * w)) h s = and_then (prefill_cell heap ops offset qh kvh w queries key_row value_row t h) (\<lambda>v. Ok (s @ v))"
      if "h < qh" for h s
    proof -
      have "Suc h * w \<le> qh * w" using that by (intro mult_le_mono1) simp
      then have "h * w + w \<le> qh * w" by simp
      with row have bound: "t * (qh * w) + h * w + w \<le> n * (qh * w)" by linarith
      with sizes(1) have "h * w < 2 ^ 64" "t * (qh * w) + h * w < 2 ^ 64" "t * (qh * w) + h * w + w < 2 ^ 64" by linarith+
      then have "usize_mul h w = Some (h * w)" "usize_add (t * (qh * w)) (h * w) = Some (t * (qh * w) + h * w)"
          "usize_add (t * (qh * w) + h * w) w = Some (t * (qh * w) + h * w + w)"
        unfolding usize_mul_def usize_add_def by presburger+
      moreover have "get_range queries (t * (qh * w) + h * w) (t * (qh * w) + h * w + w) =
          Some (take w (drop (t * (qh * w) + h * w) queries))"
        using bound len by (simp add: get_range_def)
      ultimately show ?thesis by (simp add: prefill_head_def fields Let_def prefill_cell_def)
    qed
    have "prefill_token heap ops ?plan queries key_row value_row (qh * w) t out =
        try_fold (prefill_head heap ops ?plan queries key_row value_row (decode_plan_of ops (offset + t + 1) qh kvh w)
          (t * (qh * w))) [0..<qh] out"
      unfolding prefill_token_def Let_def fields visible map_err.simps and_then.simps plan start ok_or.simps ..
    also have "\<dots> = try_fold (\<lambda>h s. and_then (prefill_cell heap ops offset qh kvh w queries key_row value_row t h)
        (\<lambda>v. Ok (s @ v))) [0..<qh] out"
      by (rule try_fold_cong, rule head) simp
    finally show ?thesis by (simp add: try_fold_extend and_then_assoc)
  qed
  have heads: "usize_mul qh w = Some (qh * w)" using sizes(2) by (simp add: usize_mul_def)
  have "paged_prefill_cpu heap ops ?plan queries key_row value_row =
      try_fold (prefill_token heap ops ?plan queries key_row value_row (qh * w)) [0..<n] []"
    using heap len by (simp add: paged_prefill_cpu_def fields heads)
  also have "\<dots> = try_fold (\<lambda>t out. and_then (and_then (try_map (prefill_cell heap ops offset qh kvh w queries key_row
      value_row t) [0..<qh]) (\<lambda>heads. Ok (concat heads))) (\<lambda>row. Ok (out @ row))) [0..<n] []"
    by (rule try_fold_cong) (simp add: token)
  finally show ?thesis by (simp add: try_fold_extend)
qed

text \<open>The softmax attention of one query head over the first \<open>visible\<close> rows, if these are supplied and every
  intermediate is finite.\<close>

definition head_attention ::
  "f32_ops \<Rightarrow> nat \<Rightarrow> nat \<Rightarrow> nat \<Rightarrow> 'e row_provider \<Rightarrow> 'e row_provider \<Rightarrow> nat \<Rightarrow> nat \<Rightarrow> f32 list \<Rightarrow> f32 list option" where
  "head_attention ops qh kvh w key_row value_row visible h query =
     Option.bind (selected_heads key_row kvh w (h div (qh div kvh)) visible) (\<lambda>keys.
     Option.bind (selected_heads value_row kvh w (h div (qh div kvh)) visible) (\<lambda>heads.
       if length query = w \<and> list_all f32_is_finite query
       then attention_head ops (f_div ops f32_one (f_sqrt ops (f_of_usize ops w))) query keys heads else None))"

text \<open>One head of one token in a concatenation of rows.\<close>

definition head_slice :: "nat \<Rightarrow> nat \<Rightarrow> nat \<Rightarrow> nat \<Rightarrow> f32 list \<Rightarrow> f32 list" where
  "head_slice qh w t h xs = take w (drop (t * (qh * w) + h * w) xs)"

text \<open>Causal attention: every head of token \<open>t\<close> attends to the committed prefix, to the \<open>t\<close> tokens before it
  and to itself, and to no later row.\<close>

definition causal_attention ::
  "f32_ops \<Rightarrow> nat \<Rightarrow> nat \<Rightarrow> nat \<Rightarrow> 'e row_provider \<Rightarrow> 'e row_provider \<Rightarrow> nat \<Rightarrow> nat \<Rightarrow> f32 list \<Rightarrow> f32 list \<Rightarrow> bool" where
  "causal_attention ops qh kvh w key_row value_row offset n queries out \<longleftrightarrow>
     length queries = n * (qh * w) \<and> length out = n * (qh * w) \<and>
     (\<forall>t < n. \<forall>h < qh. head_attention ops qh kvh w key_row value_row (offset + t + 1) h (head_slice qh w t h queries) =
        Some (head_slice qh w t h out))"

lemma prefill_cell_Ok_iff:
  assumes "decode_shape ops (offset + t + 1) qh kvh w" and "h < qh" and "plentiful heap"
  shows "prefill_cell heap ops offset qh kvh w queries key_row value_row t h = Ok out \<longleftrightarrow>
    head_attention ops qh kvh w key_row value_row (offset + t + 1) h (head_slice qh w t h queries) = Some out"
proof -
  have plan: "decode_plan_new ops (offset + t + 1) qh kvh w = Ok (decode_plan_of ops (offset + t + 1) qh kvh w)"
    using assms(1) by (simp add: decode_plan_new_iff)
  show ?thesis
    unfolding prefill_cell_def map_err_Ok_iff decode_Ok_iff [OF plan assms(2,3)] head_attention_def head_slice_def
    by (auto simp: decode_plan_of_def bind_eq_Some_conv)
qed

definition prefill_rows ::
  "allocator \<Rightarrow> f32_ops \<Rightarrow> nat \<Rightarrow> nat \<Rightarrow> nat \<Rightarrow> nat \<Rightarrow> f32 list \<Rightarrow> 'e row_provider \<Rightarrow> 'e row_provider \<Rightarrow> nat \<Rightarrow>
   (f32 list list, 'e prefill_rows_error) result" where
  "prefill_rows heap ops offset qh kvh w queries key_row value_row n =
     try_map (\<lambda>t. and_then (try_map (prefill_cell heap ops offset qh kvh w queries key_row value_row t) [0..<qh])
       (\<lambda>heads. Ok (concat heads))) [0..<n]"

lemma prefill_rows_append:
  assumes "length qs1 = t1 * (qh * w)"
  shows "prefill_rows heap ops offset qh kvh w (qs1 @ qs2) key_row value_row (t1 + t2) =
    and_then (prefill_rows heap ops offset qh kvh w qs1 key_row value_row t1) (\<lambda>rows1.
    and_then (prefill_rows heap ops (offset + t1) qh kvh w qs2 key_row value_row t2) (\<lambda>rows2. Ok (rows1 @ rows2)))"
proof -
  let ?cell = "\<lambda>offset queries. prefill_cell heap ops offset qh kvh w queries key_row value_row"
  have first: "?cell offset (qs1 @ qs2) t h = ?cell offset qs1 t h" if "t < t1" "h < qh" for t h
  proof -
    have "t * qh + h < t1 * qh" using that by (rule mult_index_less)
    then have "Suc (t * qh + h) * w \<le> (t1 * qh) * w" by (intro mult_le_mono1) simp
    then have "t * (qh * w) + h * w + w \<le> length qs1" by (simp add: assms algebra_simps)
    then show ?thesis by (simp add: prefill_cell_def)
  qed
  have second: "?cell offset (qs1 @ qs2) (t1 + t) h = ?cell (offset + t1) qs2 t h" for t h
    by (simp add: prefill_cell_def assms add_mult_distrib add.assoc)
  show ?thesis
    unfolding prefill_rows_def upt_split try_map_append try_map_map comp_def second
    by (intro arg_cong2 [where f = and_then] try_map_cong refl) (simp add: first cong: try_map_cong)
qed

text \<open>A concatenation of pieces of one width, read back piece by piece.\<close>

lemma try_map_pieces:
  assumes "\<And>t x. t < n \<Longrightarrow> f t = Ok x \<Longrightarrow> length x = k"
  shows "and_then (try_map f [0..<n]) (\<lambda>rs. Ok (concat rs)) = Ok out \<longleftrightarrow>
    length out = n * k \<and> (\<forall>t < n. f t = Ok (take k (drop (t * k) out)))"
  using assms
proof (induction n arbitrary: out)
  case (Suc n)
  let ?first = "take (n * k) out" and ?last = "drop (n * k) out"
  have IH: "and_then (try_map f [0..<n]) (\<lambda>rs. Ok (concat rs)) = Ok x \<longleftrightarrow>
      length x = n * k \<and> (\<forall>t < n. f t = Ok (take k (drop (t * k) x)))" for x
    by (rule Suc.IH) (use Suc.prems less_SucI in blast)
  have "and_then (try_map f [0..<Suc n]) (\<lambda>rs. Ok (concat rs)) = Ok out \<longleftrightarrow>
      (\<exists>x y. and_then (try_map f [0..<n]) (\<lambda>rs. Ok (concat rs)) = Ok x \<and> f n = Ok y \<and> out = x @ y)"
    by (auto simp: try_map_append)
  also have "\<dots> \<longleftrightarrow> length out = Suc n * k \<and> and_then (try_map f [0..<n]) (\<lambda>rs. Ok (concat rs)) = Ok ?first \<and> f n = Ok ?last"
  proof
    assume "\<exists>x y. and_then (try_map f [0..<n]) (\<lambda>rs. Ok (concat rs)) = Ok x \<and> f n = Ok y \<and> out = x @ y"
    then obtain x y where *: "and_then (try_map f [0..<n]) (\<lambda>rs. Ok (concat rs)) = Ok x" "f n = Ok y" "out = x @ y" by blast
    then have "length x = n * k" "length y = k" using IH [of x] Suc.prems [of n y] by simp_all
    with * show "length out = Suc n * k \<and> and_then (try_map f [0..<n]) (\<lambda>rs. Ok (concat rs)) = Ok ?first \<and> f n = Ok ?last"
      by simp
  next
    assume "length out = Suc n * k \<and> and_then (try_map f [0..<n]) (\<lambda>rs. Ok (concat rs)) = Ok ?first \<and> f n = Ok ?last"
    then show "\<exists>x y. and_then (try_map f [0..<n]) (\<lambda>rs. Ok (concat rs)) = Ok x \<and> f n = Ok y \<and> out = x @ y"
      by (metis append_take_drop_id)
  qed
  also have "\<dots> \<longleftrightarrow> length out = Suc n * k \<and> (\<forall>t < Suc n. f t = Ok (take k (drop (t * k) out)))"
  proof -
    have "take k (drop (t * k) ?first) = take k (drop (t * k) out)" if "t < n" for t
    proof -
      have "Suc t * k \<le> n * k" using that by (intro mult_le_mono1) simp
      then show ?thesis by (simp add: drop_take)
    qed
    then show ?thesis unfolding IH All_less_Suc by auto
  qed
  finally show ?case .
qed auto

lemma length_head_attention: "head_attention ops qh kvh w key_row value_row n h query = Some out \<Longrightarrow> length out = w"
  by (auto simp: head_attention_def attention_head_Some_iff bind_eq_Some_conv all_of_map_iff split: if_splits
      dest!: list_all2_lengthD)

text \<open>Prefilling a chunk is causal attention over its prefix and its own rows.\<close>

lemma prefill_is_causal:
  assumes shape: "chunk_shape ops n offset qh kvh w" and heap: "plentiful heap"
  shows "paged_prefill_cpu heap ops (chunk_plan ops n offset qh kvh w) queries key_row value_row = Ok out \<longleftrightarrow>
    causal_attention ops qh kvh w key_row value_row offset n queries out"
proof (cases "length queries = n * (qh * w)")
  case False
  then show ?thesis by (auto simp: paged_prefill_cpu_def chunk_plan_def causal_attention_def)
next
  case True
  let ?cell = "prefill_cell heap ops offset qh kvh w queries key_row value_row"
  let ?head = "\<lambda>t h. head_attention ops qh kvh w key_row value_row (offset + t + 1) h (head_slice qh w t h queries)"
  have cell: "?cell t h = Ok x \<longleftrightarrow> ?head t h = Some x" if "t < n" "h < qh" for t h x
  proof -
    have "decode_shape ops (offset + t + 1) qh kvh w"
      using shape that(1) decode_shape_mono [of ops "offset + n"] by (simp add: chunk_shape_def)
    then show ?thesis by (rule prefill_cell_Ok_iff [OF _ that(2) heap])
  qed
  have row: "and_then (try_map (?cell t) [0..<qh]) (\<lambda>heads. Ok (concat heads)) = Ok x \<longleftrightarrow>
      length x = qh * w \<and> (\<forall>h < qh. ?head t h = Some (take w (drop (h * w) x)))" if "t < n" for t x
    using cell [OF that] length_head_attention by (subst try_map_pieces) auto
  have piece: "take w (drop (h * w) (take (qh * w) (drop (t * (qh * w)) out))) = head_slice qh w t h out" if "h < qh" for t h
  proof -
    have "Suc h * w \<le> qh * w" using that by (intro mult_le_mono1) simp
    then show ?thesis by (simp add: head_slice_def drop_take add.commute)
  qed
  have len: "length (take (qh * w) (drop (t * (qh * w)) out)) = qh * w" if "t < n" "length out = n * (qh * w)" for t
  proof -
    have "Suc t * (qh * w) \<le> n * (qh * w)" using that(1) by (intro mult_le_mono1) simp
    then show ?thesis using that(2) by simp
  qed
  have "paged_prefill_cpu heap ops (chunk_plan ops n offset qh kvh w) queries key_row value_row = Ok out \<longleftrightarrow>
      length out = n * (qh * w) \<and>
      (\<forall>t < n. and_then (try_map (?cell t) [0..<qh]) (\<lambda>heads. Ok (concat heads)) = Ok (take (qh * w) (drop (t * (qh * w)) out)))"
    unfolding prefill_cells [OF shape True heap] by (rule try_map_pieces) (use row in blast)
  also have "\<dots> \<longleftrightarrow> length out = n * (qh * w) \<and> (\<forall>t < n. \<forall>h < qh. ?head t h = Some (head_slice qh w t h out))"
    using row len piece by auto
  finally show ?thesis using True by (simp add: causal_attention_def)
qed

text \<open>The two chunks of an admitted prompt are admitted.\<close>

lemma prefill_chunks_admitted:
  assumes "packed_new heap [t1 + t2] [offset] max_context = Ok packed" and "chunk_shape ops (t1 + t2) offset qh kvh w"
    and "0 < t1" and "0 < t2" and "plentiful heap"
  obtains packed1 packed2 where "packed_new heap [t1] [offset] max_context = Ok packed1"
    and "packed_new heap [t2] [offset + t1] max_context = Ok packed2"
    and "chunk_shape ops t1 offset qh kvh w" and "chunk_shape ops t2 (offset + t1) qh kvh w"
proof -
  have "t1 * (qh * w) \<le> (t1 + t2) * (qh * w)" "t2 * (qh * w) \<le> (t1 + t2) * (qh * w)" by (intro mult_le_mono1; simp)+
  moreover have "f32_layout_ok ((t1 + t2) * (qh * w))" using assms(2) by (simp add: chunk_shape_def)
  ultimately have "f32_layout_ok (t1 * (qh * w))" "f32_layout_ok (t2 * (qh * w))" by (auto intro: f32_layout_ok_mono)
  then have shapes: "chunk_shape ops t1 offset qh kvh w" "chunk_shape ops t2 (offset + t1) qh kvh w"
    using assms(2-4) decode_shape_mono [of ops "offset + (t1 + t2)"] by (auto simp: chunk_shape_def add.assoc)
  have "0 < max_context" "offset + t1 + t2 \<le> max_context" "offset + t1 + t2 < 2 ^ 64" "(t1 + t2) * 4 < 2 ^ 63"
    using assms(1) by (auto simp: packed_new_def packed_push_def usize_add_Some_iff f32_layout_ok_def split: if_splits)
  then obtain packed1 packed2 where "packed_new heap [t1] [offset] max_context = Ok packed1"
      "packed_new heap [t2] [offset + t1] max_context = Ok packed2"
    using assms(3-5) by (auto simp: packed_new_def packed_push_def usize_add_def f32_layout_ok_def)
  with shapes show thesis using that by blast
qed

text \<open>C23: prefilling a prompt is causal attention, and may be done in chunks. With memory to spare it succeeds
  exactly when the queries have their width and every head of every token has a finite softmax attention
  over exactly the committed prefix, the tokens before it and itself, and the output is made of these, head
  by head; no later row has an effect. And it succeeds exactly when prefilling a first chunk does
  and prefilling the rest after it does, over the same rows, with the two outputs one after the other.\<close>

theorem prefill_in_chunks:
  assumes "packed_new heap [t1 + t2] [offset] max_context = Ok packed"
    and "prefill_plan_new ops packed query_heads kv_heads w = Ok plan" and "0 < t1" and "0 < t2"
    and "length first_queries = t1 * (query_heads * w)" and "plentiful heap"
  shows "(paged_prefill_cpu heap ops plan queries key_row value_row = Ok out \<longleftrightarrow>
      causal_attention ops query_heads kv_heads w key_row value_row offset (t1 + t2) queries out) \<and>
    (paged_prefill_cpu heap ops plan (first_queries @ other_queries) key_row value_row = Ok out \<longleftrightarrow>
    (\<exists>packed1 plan1 out1 packed2 plan2 out2.
      packed_new heap [t1] [offset] max_context = Ok packed1 \<and>
      prefill_plan_new ops packed1 query_heads kv_heads w = Ok plan1 \<and>
      paged_prefill_cpu heap ops plan1 first_queries key_row value_row = Ok out1 \<and>
      packed_new heap [t2] [offset + t1] max_context = Ok packed2 \<and>
      prefill_plan_new ops packed2 query_heads kv_heads w = Ok plan2 \<and>
      paged_prefill_cpu heap ops plan2 other_queries key_row value_row = Ok out2 \<and>
      out = out1 @ out2))"
proof -
  let ?row = "query_heads * w"
  let ?plan1 = "chunk_plan ops t1 offset query_heads kv_heads w" and ?plan2 = "chunk_plan ops t2 (offset + t1) query_heads kv_heads w"
  let ?run = "\<lambda>plan queries. paged_prefill_cpu heap ops plan queries key_row value_row"
  have shape: "chunk_shape ops (t1 + t2) offset query_heads kv_heads w"
    and plan: "plan = chunk_plan ops (t1 + t2) offset query_heads kv_heads w"
    using assms(2) prefill_plan_new_iff [OF packed_new_plan_of [OF assms(1)]] by auto
  obtain packed1 packed2 where packed: "packed_new heap [t1] [offset] max_context = Ok packed1"
      "packed_new heap [t2] [offset + t1] max_context = Ok packed2"
    and shape1: "chunk_shape ops t1 offset query_heads kv_heads w"
    and shape2: "chunk_shape ops t2 (offset + t1) query_heads kv_heads w"
    by (rule prefill_chunks_admitted [OF assms(1) shape assms(3,4,6)])
  have "?run plan (first_queries @ other_queries) = Ok out \<longleftrightarrow>
      (\<exists>out1 out2. ?run ?plan1 first_queries = Ok out1 \<and> ?run ?plan2 other_queries = Ok out2 \<and> out = out1 @ out2)"
  proof (cases "length other_queries = t2 * ?row")
    case False
    then have "?run plan (first_queries @ other_queries) \<noteq> Ok out" "?run ?plan2 other_queries \<noteq> Ok out2" for out2
      using assms(5) by (auto simp: paged_prefill_cpu_def plan chunk_plan_def add_mult_distrib)
    then show ?thesis by auto
  next
    case True
    then have len: "length (first_queries @ other_queries) = (t1 + t2) * ?row" using assms(5) by (simp add: add_mult_distrib)
    show ?thesis
      unfolding plan prefill_cells [OF shape len assms(6)] prefill_cells [OF shape1 assms(5,6)]
        prefill_cells [OF shape2 True assms(6)] prefill_rows_def [symmetric] prefill_rows_append [OF assms(5)] by auto
  qed
  moreover have "?run plan queries = Ok out \<longleftrightarrow>
      causal_attention ops query_heads kv_heads w key_row value_row offset (t1 + t2) queries out"
    unfolding plan by (rule prefill_is_causal [OF shape assms(6)])
  ultimately show ?thesis
    using packed shape1 shape2 prefill_plan_new_iff [OF packed_new_plan_of [OF packed(1)]]
      prefill_plan_new_iff [OF packed_new_plan_of [OF packed(2)]] by auto
qed

theorem prefill_in_chunks_witness:
  "causal_attention kernel_sample_ops 2 1 1 (\<lambda>t. Ok [1] :: (f32 list, unit) result) (\<lambda>t. Ok [of_nat t + 3]) 1 (1 + 1)
    [2, 2, 2, 2] [7, 7, 12, 12] \<and>
   (\<exists>packed1 plan1 out1 packed2 plan2 out2.
    packed_new (\<lambda>role n. True) [1] [1] 8 = Ok packed1 \<and>
    prefill_plan_new kernel_sample_ops packed1 2 1 1 = Ok plan1 \<and>
    paged_prefill_cpu (\<lambda>role n. True) kernel_sample_ops plan1 [2, 2] (\<lambda>t. Ok [1] :: (f32 list, unit) result)
      (\<lambda>t. Ok [of_nat t + 3]) = Ok out1 \<and>
    packed_new (\<lambda>role n. True) [1] [1 + 1] 8 = Ok packed2 \<and>
    prefill_plan_new kernel_sample_ops packed2 2 1 1 = Ok plan2 \<and>
    paged_prefill_cpu (\<lambda>role n. True) kernel_sample_ops plan2 [2, 2] (\<lambda>t. Ok [1] :: (f32 list, unit) result)
      (\<lambda>t. Ok [of_nat t + 3]) = Ok out2 \<and>
    [7, 7, 12, 12] = out1 @ out2)"
proof -
  obtain packed plan where packed: "packed_new (\<lambda>role n. True) [1 + 1] [1] 8 = Ok packed"
    and plan: "prefill_plan_new kernel_sample_ops packed 2 1 1 = Ok plan"
    and ran: "paged_prefill_cpu (\<lambda>role n. True) kernel_sample_ops plan ([2, 2] @ [2, 2])
      (\<lambda>t. Ok [1] :: (f32 list, unit) result) (\<lambda>t. Ok [of_nat t + 3]) = Ok [7, 7, 12, 12]"
    by (simp add: prefill_eval kernel_sample_ops_def)
  note both = prefill_in_chunks [OF packed plan, where queries = "[2, 2, 2, 2]" and first_queries = "[2, 2]" and
        other_queries = "[2, 2]" and key_row = "\<lambda>t. Ok [1] :: (f32 list, unit) result" and
        value_row = "\<lambda>t. Ok [of_nat t + 3]" and out = "[7, 7, 12, 12]"]
  show ?thesis using both [THEN conjunct1] both [THEN conjunct2] ran by simp
qed

end
