(* ===== verification/Spec2Isabelle.thy ===== *)
theory Spec2Isabelle
  imports Hip_Discovery Sched_Drain Paged_Properties Gguf_Properties Text_Properties Decode_Masks
    Kernel_Conv_Properties Kernel_Gdn_Properties Kernel_Gdn_Delta Kernel_Attention_Properties
begin

text \<open>
  This library models the deterministic core of logismos, the CPU side that decides what may run on
  which accelerator: the target-token parser (src/crates/isa), the placement planner and its
  reservation ledger (src/crates/placement), the admission scheduler (src/crates/sched), the
  paged key/value cache of a decoder execution (src/crates/cache/src/paged.rs), the reader of the
  GGUF files that hold a model (src/crates/loader/src/gguf.rs, gguf/payload.rs), the collective decoder
  and the verified tokenizer (src/crates/tokenize), the decode policies (src/crates/decode), the
  native text pipeline (src/crates/text) and the bounded templates it renders (src/crates/templates), the ownership of devices, streams and buffers and their explicit
  teardown (src/crates/hipcore), and the CPU references of three kernels with the plans they share with the
  GPU: causal convolution, gated delta recurrence and paged attention (src/crates/kernels).

  How the parts interact: a \<open>PlanRequest\<close> is validated once; a ledger is created from it and owns
  the grant of each device; the scheduler owns one ledger, turns its leases into admissions, native
  residents, uses and results, and gives them back when the executor reports. The ledger asks the
  token parser whether a device is supported. The paged cache is what one admitted execution uses its
  bytes for; it is independent of the other parts. The GGUF reader turns untrusted bytes into a checked
  archive; what it opens is the model that a workload of a request names. The text pipeline binds the
  metadata of an archive to a verified tokenizer, prepares a request, asks a driver for one row of logits
  per step, lets the decode policies choose the next token, and has the collective decoder turn the
  tokens into text in storage planned before the first step. It renders its prompts through the bounded
  templates. The device layer activates a device by a stable
  selector and hands out owned buffers and streams; an inventory takes them over when an execution is torn
  down and destroys each once its release is confirmed. The kernels read the rows that a cache supplies,
  in packed sequences and in chunks of a prompt.

  Theories, in the order of their dependencies:
  \<^item> \<open>Rust_Prelude\<close>: \<open>Result\<close> with a third outcome for a panic, checked integer arithmetic, the
    collecting loop over a list of raw items, runs of a state machine, the contract
    \<open>transactional\<close> (a success keeps the invariant, a refusal changes nothing, nothing panics) and the
    contract \<open>simulation\<close> between a component and its abstract specification.
  \<^item> \<open>BTree_Map\<close>: \<open>BTreeMap\<close> as a sorted association list, its laws as an interface, sums
    and counts over its values.
  \<^item> \<open>Isa\<close>: \<open>TargetIsa::parse\<close> and what it accepts.
  \<^item> \<open>Placement_Request\<close>: raw and checked requests, \<open>TryFrom<RawPlanRequest>\<close>.
  \<^item> \<open>Placement_Ledger\<close>: the ledger, \<open>prepare\<close>, \<open>commit\<close>, \<open>reserve_bytes_batch\<close>, \<open>release\<close> and the
    planner functions, as written; \<open>Placement_Capacity\<close> shows that the planner's chain of checked
    subtractions decides one inequality per device, \<open>Placement_Accounting\<close> the invariant of the
    ledger, \<open>Placement_Leases\<close> the contract of a lease authority, \<open>Placement_Machine\<close> the ledger as a
    machine of calls, \<open>Placement_Properties\<close> its properties.
  \<^item> \<open>Sched_State\<close>, \<open>Sched_Operations\<close>: the scheduler's data, checks and methods, as written.
    \<open>Sched_Invariant\<close> states its invariant (shape, admissions, books, references), \<open>Sched_Admissions\<close>
    and \<open>Sched_Preservation\<close> give each method's exact effect and preservation, \<open>Sched_Machine\<close> the
    scheduler as a machine, \<open>Sched_Runs\<close> what holds along runs and the moves of an admission with the
    calls that cause them (\<open>admission_move\<close>), \<open>Sched_Properties\<close> and \<open>Sched_Drain\<close> its
    properties.

  \<^item> \<open>Paged_State\<close>, \<open>Paged_Pool\<close>: the page plan, the ledger of page bundles, the pool and its append
    transaction, as written, and the machine of the calls that Rust's borrows allow
    (\<open>session_step\<close>). \<open>Paged_Plan\<close> characterises the plan, \<open>Paged_Layout\<close> the addressing of rows,
    \<open>Paged_Ledger\<close> and \<open>Paged_Session\<close> the effect of every step on the ledger and on the rows.
    \<open>Paged_Log\<close> is the abstract specification, a log of rows per layer; \<open>Paged_Refinement\<close> proves
    that the cache implements it (an interpretation of the contract \<open>simulation\<close>), and
    \<open>Paged_Properties\<close> states the properties along runs.

  \<^item> \<open>Gguf_State\<close>, \<open>Gguf_Parser\<close>, \<open>Gguf_Extents\<close>, \<open>Gguf_Files\<close>: the GGUF reader, as written: tags
    and limits, the cursor and the parser of the header, the extents of tensors and the inspection
    receipt, and the three ways a file is opened. \<open>Gguf_Format\<close> states the format as a relation and the
    contract \<open>byte_reader\<close> of a reader, which composes; \<open>Gguf_Header\<close> and \<open>Gguf_Accepts\<close> derive from it
    the exact set of accepted headers (interpretations \<open>descriptor\<close>, \<open>header\<close>). \<open>Gguf_Layout\<close> and
    \<open>Gguf_Inspection\<close> say what a sound layout is and that its receipt always exists;
    \<open>Gguf_Observation\<close> treats files that change while they are read, and files that do not.
    \<open>Gguf_Properties\<close> states the properties.

  \<^item> \<open>Utf8\<close>: UTF-8 as the standard library of Rust treats it. \<open>Token_Buffers\<close>, \<open>Token_Stages\<close>: the
    storage, the stages and the compilation of the collective decoder, as written; \<open>Token_Verified\<close> the
    tokenizer facade. \<open>Token_Writing\<close> is the contract \<open>appender\<close> of what fills a buffer (interpretations
    for tokens and for parts of a token); \<open>Token_Replacing\<close>, \<open>Token_Raw\<close>, \<open>Token_Meaning\<close> and
    \<open>Token_Vocabulary\<close> say what each stage writes as a function on lists of texts, \<open>Token_Bounds\<close> that
    the bounds of the plan cover it, \<open>Token_Decoding\<close> and \<open>Token_Properties\<close> that decoding in the planned
    storage is that function (\<open>decoded_text\<close>).
  \<^item> \<open>Decode_Policy\<close>: validation, processors, chain and samplers, as written; \<open>Decode_Properties\<close> the
    greedy choice and top-k against their specifications, \<open>Decode_Masks\<close> that masked tokens are never
    chosen under named laws of IEEE 754 (\<open>float_laws\<close>).
  \<^item> \<open>Templates\<close>: bounded rendering of a template, as written; the engine is a parameter whose run calls the
    capped writer and goes on with its answers.
  \<^item> \<open>Text_Pipeline\<close>, \<open>Text_Generation\<close>: the pipeline, as written. \<open>Text_Meaning\<close> defines the greedy
    continuation of a language model and proves that the loop produces it, when two ports are
    interchangeable, and what cancellation guarantees; \<open>Text_Properties\<close> states the properties.

  \<^item> \<open>Hip_Native\<close>, \<open>Hip_Device\<close>, \<open>Hip_Ownership\<close>, \<open>Hip_Streams\<close>, \<open>Hip_Inventory\<close>: the HIP device
    layer, as written: status codes, enumeration, selection and activation of devices, the creation
    protocol, buffers and asynchronous copies, streams, and the teardown inventory. The native runtime is
    a function that answers each call, and a log of the calls made. \<open>Hip_Protocol\<close> states the
    contracts of a release, of a quiescence and of a whole teardown as locales and interprets them on
    buffers, streams and inventories; \<open>Hip_Properties\<close>, \<open>Hip_Custody\<close> and \<open>Hip_Discovery\<close> state the
    properties of the teardown, of creation and copies, and of discovery.
  \<^item> \<open>Float32\<close>: the bits of an \<open>f32\<close> and the record \<open>f32_ops\<close> of its arithmetic. \<open>Kernel_Packed\<close>: the
    packed prefill plan and the loops the kernels share. \<open>Kernel_Conv\<close>, \<open>Kernel_Gdn\<close>,
    \<open>Kernel_Attention\<close>: the three references, as written. \<open>Kernel_Conv_Properties\<close> reads the convolution
    as a fold of taps over the samples of a channel; \<open>Kernel_Gdn_Rows\<close> the recurrence as a scan of its
    tokens, \<open>Kernel_Gdn_Delta\<close> as the gated delta rule; \<open>Kernel_Attention_Softmax\<close> a decoded head as
    the softmax of its scores applied to its values; prefilling is that for every token over the rows up to
    its own (\<open>causal_attention\<close>). \<open>Kernel_Conv_Properties\<close>, \<open>Kernel_Gdn_Properties\<close>
    and \<open>Kernel_Attention_Properties\<close> show that evaluating in chunks and evaluating packed sequences gives
    the bits of evaluating each sequence at once and alone, whatever the arithmetic.

  Conventions. \<open>u64\<close> is a 64-bit word with checked operations; \<open>usize\<close> is a natural number whose
  checked operations refuse at \<open>2 ^ 64\<close>. A method on \<open>&mut self\<close> is a function to a result and the
  next state. An \<open>Arc\<close> brand compared with \<open>Arc::ptr_eq\<close> is a number the constructors receive. Errors
  keep their variant and fields; locations and messages are dropped. A move-only Rust value (a lease,
  a permit) is ordinary data here, so the theorems also cover a client that presents one twice.
  An \<open>f32\<close> is its 32-bit pattern; what is decided by the bits (finite, zero, order) is defined on them, and
  addition, multiplication, the exponential and the like are an argument of every definition that computes.
  A slice of \<open>f32\<close> occupies at most \<open>isize::MAX\<close> bytes (\<open>slice_ok\<close>). The statements about kernels that
  compare whole results assume an allocator that never refuses (\<open>plentiful\<close>); a refusal is an error value.
  The only fuel is the number of rounds of \<open>drain\<close>; one round per admission is proved enough. The two
  loops that the operating system may keep from ending (\<open>read_exact_loop\<close>, \<open>hash_rest\<close>) are partial
  functions, and are proved to return on a file that serves its bytes. In the GGUF theories a \<open>u64\<close> is a
  natural number whose checked operations refuse at \<open>2 ^ 64\<close>; a file is shorter than \<open>2 ^ 63\<close> bytes, and
  than \<open>2 ^ 61\<close> where the sizes of its tensors matter.

  Not modelled: the JSON text format (its parser is an argument of \<open>request_from_json\<close>), the
  \<open>Display\<close> strings, SHA-256, positional reads and the allocator under the GGUF reader (parameters), the
  gpu-only pool of the paged cache over device buffers, the template engine, the upstream tokenizer,
  the decoder behind a driver and the arithmetic of \<open>f32\<close> and \<open>f64\<close> (parameters), the HIP runtime (a
  parameter), the two diagnostics of resident capacity in the collective decoder, and the other crates of
  the workspace: model execution, the GPU launchers, matrix products and tensors are floating-point and GPU
  code, the rest is I/O and glue.
\<close>

section \<open>Properties that span components\<close>

text \<open>The bytes a controller holds on a device: the leases of its admissions, uses and results.\<close>

definition held_on :: "scheduler \<Rightarrow> string \<Rightarrow> nat" where
  "held_on s d = (\<Sum>c \<in># held s. if cap_device_id c = d then unat (cap_reserved_bytes c) else 0)"

lemma live_bytes:
  assumes "ledger_inv l"
  shows "(\<Sum>c \<in> live_leases l. if cap_device_id c = d then unat (cap_reserved_bytes c) else 0) =
    leased_on (led_active_leases l) d"
proof -
  let ?m = "led_active_leases l"
  let ?cap = "\<lambda>(i, r). \<lparr>cap_brand = led_brand l, cap_lease_id = i, cap_device_id = rec_device_id r,
      cap_reserved_bytes = rec_reserved_bytes r\<rparr>"
  have wf: "bt_wf ?m" by (rule ledger_invD(3) [OF assms])
  have live: "live_leases l = ?cap ` set ?m"
  proof
    show "live_leases l \<subseteq> ?cap ` set ?m"
      by (force simp: live_leases_def dest: bt_get_in)
    show "?cap ` set ?m \<subseteq> live_leases l"
    proof
      fix c
      assume "c \<in> ?cap ` set ?m"
      then obtain i r where "(i, r) \<in> set ?m" and c: "c = ?cap (i, r)" by auto
      then have "bt_get ?m i = Some r" using wf by (simp add: bt_get_Some_iff)
      then show "c \<in> live_leases l" unfolding c by (cases r) (simp add: live_leases_def)
    qed
  qed
  have "inj_on ?cap (set ?m)"
    by (rule inj_onI) clarsimp
  then have "(\<Sum>c \<in> live_leases l. if cap_device_id c = d then unat (cap_reserved_bytes c) else 0) =
      (\<Sum>e \<in> set ?m. if rec_device_id (snd e) = d then unat (rec_reserved_bytes (snd e)) else 0)"
    unfolding live by (subst sum.reindex) (auto intro!: sum.cong split: prod.splits)
  also have "\<dots> = leased_on ?m d"
    unfolding leased_on_def bt_total_def
    by (rule sum_list_distinct_conv_sum_set [symmetric])
      (use bt_wf_distinct [OF wf] in \<open>auto simp: distinct_map\<close>)
  finally show ?thesis .
qed

text \<open>C1: along every run of a controller, on every device of the grant in force, what the host
  reserved, what it committed and every byte the controller's admissions, uses and results hold
  there fit together in the device's capacity, and those bytes are exactly what the ledger has
  booked.\<close>

theorem controller_fits_every_device:
  assumes "valid_request grant" and "new_with_host_ledger cb lb grant limits host = Ok s0"
    and "host_reserved host = 0" and "s = run sched_step s0 cs"
    and "d \<in> set (snap_devices (led_snapshot (sch_ledger s)))"
  shows "held_on s (dev_id d) = reserved_on (led_dynamic_reserved (sch_ledger s)) (dev_id d) \<and>
    unat (dev_reserved_bytes d) + bytes_on (dev_id d) (commitment_entries (led_snapshot (sch_ledger s)))
      + held_on s (dev_id d) \<le> unat (dev_total_bytes d)"
proof -
  have inv: "sched_inv s"
    unfolding assms(4) by (rule sched.run_inv [OF new_with_host_ledger_inv(1) [OF assms(1-3)]])
  note L = sched_invD(8) [OF inv]
  have "held s = mset_set (live_leases (sch_ledger s))"
    using sched_invD(3) [OF inv] by (simp add: books_inv_def leases.custody_def)
  then have "held_on s (dev_id d) = leased_on (led_active_leases (sch_ledger s)) (dev_id d)"
    using live_bytes [OF L] by (simp add: held_on_def sum_unfold_sum_mset)
  then show ?thesis
    using ledger_inv_capacity [OF L assms(5)] ledger_invD(5) [OF L] by simp
qed

theorem controller_fits_every_device_witness:
  "held_on (run sched_step sample_sched [SAdmitNative sample_resident]) ''gpu0'' = 30"
  using controller_fits_every_device [OF sample_valid_empty sample_sched_new sample_host_empty refl,
      of sample_device "[SAdmitNative sample_resident]"]
  by (simp add: sample_admit reply_def sample_with_def sample_reserved_simps sample_ledger_def
      snapshot_from_request_def sample_request_def sample_device_def reserved_on_def bt_get_Cons)

end
